(* ===== verification/Prelude.thy ===== *)
theory Prelude
  imports Main "HOL-Library.Word" "HOL-Library.Multiset" "HOL-Library.Sublist"
begin

text \<open>
  Shared vocabulary of the development: the machine integer types of the C++ sources,
  the two standard-library algorithms that every component relies on (\<open>std::sort\<close> and
  \<open>std::lower_bound\<close>) with their contracts stated once as locales, and the generic list
  and option lemmas the component theories use.

  \<^item> \<open>u8\<close>, \<open>u16\<close>, \<open>u32\<close>, \<open>u64\<close> are \<open>std::uint8_t\<close> to \<open>std::uint64_t\<close>: arithmetic wraps, as in C++.
    Container sizes (\<open>std::size_t\<close> of an object in memory) are \<open>nat\<close>.
  \<^item> \<open>sort_by\<close> stands for \<open>std::sort\<close> with a comparator; the locale \<open>strict_weak_order\<close> holds the
    requirement the C++ standard puts on that comparator and proves that the result is then a
    sorted permutation that does not depend on the input order.
  \<^item> \<open>key_insert\<close>, \<open>key_upsert\<close> and \<open>key_find\<close> are the vector-with-\<open>lower_bound\<close> idiom of
    \<open>GuaranteeSet\<close> and \<open>GuaranteeEnvelope\<close>; the locales
    \<open>keyed_container\<close> and \<open>keyed_insert\<close> hold its map laws.
\<close>

section \<open>Collections of facts\<close>

named_theorems code_defs \<open>wire values of the enumerations\<close>
named_theorems status_simps \<open>how validation chains of early returns simplify\<close>
named_theorems checked_simps \<open>checked arithmetic on words read through unat\<close>

section \<open>Machine integers\<close>

type_synonym u8 = "8 word"
type_synonym u16 = "16 word"
type_synonym u32 = "32 word"
type_synonym u64 = "64 word"

abbreviation u64_max :: u64 where
  "u64_max \<equiv> - 1"

lemma u64_max_greatest [simp]: "(x :: u64) \<le> u64_max"
  by (rule word_order.extremum)

lemma unat_u64_bound: "unat (x :: u64) < 2 ^ 64"
  using unsigned_less [of x] by simp

lemma unat_u64_max [simp]: "unat (u64_max) = 2 ^ 64 - 1"
  by (simp add: unsigned_minus_1_eq_mask mask_eq_exp_minus_1)

lemma unat_ucast_up:
  fixes x :: "'a :: len word"
  assumes "LENGTH('a) \<le> LENGTH('b :: len)"
  shows "unat (ucast x :: 'b word) = unat x"
proof -
  have "unat x < 2 ^ LENGTH('a)"
    by (rule unsigned_less)
  also have "\<dots> \<le> 2 ^ LENGTH('b)"
    using assms by simp
  finally show ?thesis
    by (simp add: unsigned_ucast_eq take_bit_nat_eq_self)
qed

lemma unat_ucast_u32_u64 [simp]: "unat (ucast (x :: u32) :: u64) = unat x"
  by (simp add: unat_ucast_up)

lemma unat_ucast_u8_u32 [simp]: "unat (ucast (x :: u8) :: u32) = unat x"
  by (simp add: unat_ucast_up)

lemma unat_plus_one:
  fixes n :: "'a :: len word"
  assumes "unat n + 1 < 2 ^ LENGTH('a)"
  shows "unat (n + 1) = unat n + 1"
proof -
  have "unat (n + 1) = (unat n + unat (1 :: 'a word)) mod 2 ^ LENGTH('a)"
    by (rule unat_word_ariths)
  then show ?thesis
    using assms by simp
qed

section \<open>Lists\<close>

text \<open>\<open>find_ptr P xs\<close>: the first element satisfying \<open>P\<close>; the C++ code returns its address or a
  null pointer.\<close>

abbreviation find_ptr :: "('a \<Rightarrow> bool) \<Rightarrow> 'a list \<Rightarrow> 'a option" where
  "find_ptr \<equiv> List.find"

lemma find_ptr_SomeD: "find_ptr P xs = Some x \<Longrightarrow> x \<in> set xs \<and> P x"
  by (auto simp: find_Some_iff)

lemma find_ptr_NoneD: "find_ptr P xs = None \<Longrightarrow> x \<in> set xs \<Longrightarrow> \<not> P x"
  by (auto simp: find_None_iff)

lemma find_ptr_distinct:
  "distinct (map f xs) \<Longrightarrow> x \<in> set xs \<Longrightarrow> find_ptr (\<lambda>y. f y = f x) xs = Some x"
  by (induction xs) (auto simp: image_iff)

text \<open>Writing through the pointer such a search returns.\<close>

fun assign_first :: "('a \<Rightarrow> bool) \<Rightarrow> ('a \<Rightarrow> 'a) \<Rightarrow> 'a list \<Rightarrow> 'a list" where
  "assign_first P f [] = []"
| "assign_first P f (x # xs) = (if P x then f x # xs else x # assign_first P f xs)"

lemma length_assign_first [simp]: "length (assign_first P f xs) = length xs"
  by (induction xs) simp_all

lemma assign_first_keys:
  "(\<And>x. P x \<Longrightarrow> key (f x) = key x) \<Longrightarrow> map key (assign_first P f xs) = map key xs"
  by (induction xs) simp_all

lemma assign_first_none: "\<not> list_ex P xs \<Longrightarrow> assign_first P f xs = xs"
  by (induction xs) simp_all

lemma assign_first_distinct:
  "distinct (map key xs) \<Longrightarrow>
   assign_first (\<lambda>x. key x = k) f xs = map (\<lambda>x. if key x = k then f x else x) xs"
proof (induction xs)
  case (Cons x xs)
  have "map (\<lambda>y. if key y = key x then f y else y) xs = xs"
    using Cons.prems by (intro map_idI) (force simp: image_iff)
  then show ?case using Cons by auto
qed simp

lemma sort_mset: "mset xs = mset ys \<Longrightarrow> sort xs = sort ys"
  by (rule properties_for_sort) simp_all

text \<open>\<open>std::adjacent_find\<close> as the sources use it: is there a pair of equal neighbours?\<close>

fun has_adjacent_equal :: "'a list \<Rightarrow> bool" where
  "has_adjacent_equal (x # y # zs) = (x = y \<or> has_adjacent_equal (y # zs))"
| "has_adjacent_equal _ = False"

lemma sorted_has_adjacent_equal:
  fixes xs :: "'a :: linorder list"
  shows "sorted xs \<Longrightarrow> \<not> has_adjacent_equal xs \<longleftrightarrow> distinct xs"
proof (induction xs rule: has_adjacent_equal.induct)
  case (1 x y zs)
  then show ?case by (cases "x = y") (auto simp: le_less)
qed auto

text \<open>Lexicographic \<open>operator<\<close> of \<open>std::vector\<close>.\<close>

fun vec_less :: "'a :: linorder list \<Rightarrow> 'a list \<Rightarrow> bool" where
  "vec_less [] [] = False"
| "vec_less [] (y # ys) = True"
| "vec_less (x # xs) [] = False"
| "vec_less (x # xs) (y # ys) = (x < y \<or> x = y \<and> vec_less xs ys)"

lemma vec_less_irrefl [simp]: "\<not> vec_less xs xs"
  by (induction xs) auto

lemma vec_less_trans: "vec_less xs ys \<Longrightarrow> vec_less ys zs \<Longrightarrow> vec_less xs zs"
proof (induction xs zs arbitrary: ys rule: vec_less.induct)
  case (4 x xs z zs)
  then show ?case by (cases ys) auto
qed (auto elim: vec_less.elims)

lemma vec_less_linear: "vec_less xs ys \<or> xs = ys \<or> vec_less ys xs"
  by (induction xs ys rule: vec_less.induct) auto

lemma vec_less_asym: "vec_less xs ys \<Longrightarrow> \<not> vec_less ys xs"
  using vec_less_trans vec_less_irrefl by blast

lemma vec_less_append [simp]: "vec_less (ps @ xs) (ps @ ys) = vec_less xs ys"
  by (induction ps) auto

section \<open>std::sort\<close>

fun insert_by :: "('a \<Rightarrow> 'a \<Rightarrow> bool) \<Rightarrow> 'a \<Rightarrow> 'a list \<Rightarrow> 'a list" where
  "insert_by lt x [] = [x]"
| "insert_by lt x (y # ys) = (if lt y x then y # insert_by lt x ys else x # y # ys)"

primrec sort_by :: "('a \<Rightarrow> 'a \<Rightarrow> bool) \<Rightarrow> 'a list \<Rightarrow> 'a list" where
  "sort_by lt [] = []"
| "sort_by lt (x # xs) = insert_by lt x (sort_by lt xs)"

lemma mset_insert_by [simp]: "mset (insert_by lt x xs) = add_mset x (mset xs)"
  by (induction xs) auto

lemma mset_sort_by [simp]: "mset (sort_by lt xs) = mset xs"
  by (induction xs) auto

lemma set_sort_by [simp]: "set (sort_by lt xs) = set xs"
  using mset_sort_by [of lt xs] by (metis set_mset_mset)

lemma length_sort_by [simp]: "length (sort_by lt xs) = length xs"
  using mset_sort_by [of lt xs] by (metis size_mset)

lemma distinct_map_sort_by [simp]:
  "distinct (map f (sort_by lt xs)) = distinct (map f xs)"
proof -
  have "mset (map f (sort_by lt xs)) = mset (map f xs)"
    by simp
  then show ?thesis
    using mset_eq_imp_distinct_iff by blast
qed

text \<open>
  What the C++ standard demands of a comparator: a strict weak ordering. The client lemmas are
  proved once here and reach the components through interpretations.
\<close>

locale strict_weak_order =
  fixes lt :: "'a \<Rightarrow> 'a \<Rightarrow> bool"
  assumes asym: "lt x y \<Longrightarrow> \<not> lt y x"
    and negtrans: "lt x z \<Longrightarrow> lt x y \<or> lt y z"
begin

lemma irrefl: "\<not> lt x x"
  using asym by blast

lemma trans: "lt x y \<Longrightarrow> lt y z \<Longrightarrow> lt x z"
  using asym negtrans by blast

lemma sorted_insert_by:
  "sorted_wrt (\<lambda>a b. \<not> lt b a) xs \<Longrightarrow> sorted_wrt (\<lambda>a b. \<not> lt b a) (insert_by lt x xs)"
proof (induction xs)
  case Nil
  then show ?case by simp
next
  case (Cons y ys)
  have set_ins: "set (insert_by lt x ys) = insert x (set ys)" for ys
    using mset_insert_by [of lt x ys] by (metis set_mset_add_mset_insert set_mset_mset)
  show ?case
  proof (cases "lt y x")
    case True
    with Cons show ?thesis by (auto simp: set_ins dest: asym)
  next
    case False
    with Cons.prems show ?thesis by (auto dest: negtrans)
  qed
qed

lemma sorted_sort_by: "sorted_wrt (\<lambda>a b. \<not> lt b a) (sort_by lt xs)"
  by (induction xs) (simp_all add: sorted_insert_by)

lemma sorted_unique:
  assumes "sorted_wrt (\<lambda>a b. \<not> lt b a) xs" and "sorted_wrt (\<lambda>a b. \<not> lt b a) ys"
    and "mset xs = mset ys"
    and "\<And>a b. a \<in> set xs \<Longrightarrow> b \<in> set xs \<Longrightarrow> a \<noteq> b \<Longrightarrow> lt a b \<or> lt b a"
  shows "xs = ys"
  using assms
proof (induction xs arbitrary: ys)
  case Nil
  then show ?case by simp
next
  case (Cons x xs)
  from Cons.prems(3) obtain y zs where ys: "ys = y # zs"
    by (cases ys) auto
  have sets: "set (x # xs) = set ys"
    using Cons.prems(3) by (metis set_mset_mset)
  have "x = y"
  proof (rule ccontr)
    assume "x \<noteq> y"
    then have "y \<in> set xs" and "x \<in> set zs"
      using sets ys by auto
    with Cons.prems(1,2) ys have "\<not> lt y x" and "\<not> lt x y"
      by auto
    with Cons.prems(4) [of x y] \<open>y \<in> set xs\<close> \<open>x \<noteq> y\<close> show False
      by auto
  qed
  moreover have "xs = zs"
  proof (rule Cons.IH)
    show "mset xs = mset zs"
      using Cons.prems(3) ys \<open>x = y\<close> by simp
    show "sorted_wrt (\<lambda>a b. \<not> lt b a) xs" and "sorted_wrt (\<lambda>a b. \<not> lt b a) zs"
      using Cons.prems(1,2) ys by simp_all
    show "\<And>a b. a \<in> set xs \<Longrightarrow> b \<in> set xs \<Longrightarrow> a \<noteq> b \<Longrightarrow> lt a b \<or> lt b a"
      using Cons.prems(4) by simp
  qed
  ultimately show ?case
    using ys by simp
qed

text \<open>The order in which the elements were supplied does not matter.\<close>

lemma sort_by_perm:
  assumes "mset xs = mset ys"
    and "\<And>a b. a \<in> set xs \<Longrightarrow> b \<in> set xs \<Longrightarrow> a \<noteq> b \<Longrightarrow> lt a b \<or> lt b a"
  shows "sort_by lt xs = sort_by lt ys"
  by (rule sorted_unique) (use assms sorted_sort_by in auto)

lemma sort_by_sorted_id:
  assumes "sorted_wrt (\<lambda>a b. \<not> lt b a) xs"
  shows "sort_by lt xs = xs"
  using assms
proof (induction xs)
  case Nil
  then show ?case by simp
next
  case (Cons x xs)
  then show ?case by (cases xs) auto
qed

end

lemma insert_by_cong:
  "(\<And>b. b \<in> set ys \<Longrightarrow> lt b x = lt' b x) \<Longrightarrow> insert_by lt x ys = insert_by lt' x ys"
  by (induction ys) auto

lemma sort_by_cong:
  assumes "\<And>a b. a \<in> set xs \<Longrightarrow> b \<in> set xs \<Longrightarrow> lt a b = lt' a b"
  shows "sort_by lt xs = sort_by lt' xs"
  using assms
proof (induction xs)
  case (Cons x xs)
  then have "sort_by lt xs = sort_by lt' xs"
    by simp
  moreover have "insert_by lt x (sort_by lt' xs) = insert_by lt' x (sort_by lt' xs)"
    using Cons.prems by (intro insert_by_cong) simp
  ultimately show ?case
    by simp
qed simp

lemma sum_list_sort_by: "sum_list (map f (sort_by lt xs)) = (sum_list (map f xs) :: nat)"
proof -
  have "sum_list (map f (insert_by lt x ys)) = f x + sum_list (map f ys)" for x ys
    by (induction ys) auto
  then show ?thesis
    by (induction xs) simp_all
qed

text \<open>A comparator that compares a key in a linear order is a strict weak ordering.\<close>

lemma key_less_swo: "strict_weak_order (\<lambda>x y. (f x :: 'k :: linorder) < f y)"
  by unfold_locales auto

section \<open>Vectors kept sorted by a key with std::lower\_bound\<close>

text \<open>
  \<open>std::lower_bound\<close> returns the first position whose element is not less than the key. On a
  vector sorted by the key this is what the recursion below finds.
\<close>

fun key_find :: "('a \<Rightarrow> 'k :: linorder) \<Rightarrow> 'k \<Rightarrow> 'a list \<Rightarrow> 'a option" where
  "key_find key k [] = None"
| "key_find key k (x # xs) =
     (if key x < k then key_find key k xs else if key x = k then Some x else None)"

text \<open>Insertion refuses a present key (\<open>None\<close>).\<close>

fun key_insert :: "('a \<Rightarrow> 'k :: linorder) \<Rightarrow> 'a \<Rightarrow> 'a list \<Rightarrow> 'a list option" where
  "key_insert key x [] = Some [x]"
| "key_insert key x (y # ys) =
     (if key y < key x then map_option ((#) y) (key_insert key x ys)
      else if key y = key x then None else Some (x # y # ys))"

fun key_upsert :: "('a \<Rightarrow> 'k :: linorder) \<Rightarrow> 'a \<Rightarrow> 'a list \<Rightarrow> 'a list" where
  "key_upsert key x [] = [x]"
| "key_upsert key x (y # ys) =
     (if key y < key x then y # key_upsert key x ys
      else if key y = key x then x # ys else x # y # ys)"

definition key_sorted :: "('a \<Rightarrow> 'k :: linorder) \<Rightarrow> 'a list \<Rightarrow> bool" where
  "key_sorted key xs = sorted_wrt (<) (map key xs)"

lemma key_sorted_Nil [simp]: "key_sorted key []"
  by (simp add: key_sorted_def)

lemma key_sorted_Cons [simp]:
  "key_sorted key (x # xs) \<longleftrightarrow> (\<forall>y \<in> set xs. key x < key y) \<and> key_sorted key xs"
  by (auto simp: key_sorted_def)

lemma key_sorted_distinct: "key_sorted key xs \<Longrightarrow> distinct (map key xs)"
  by (simp add: key_sorted_def strict_sorted_iff)

lemma key_find_SomeD: "key_find key k xs = Some x \<Longrightarrow> x \<in> set xs \<and> key x = k"
  by (induction xs) (auto split: if_splits)

lemma key_find_eq_Some_iff:
  "key_sorted key xs \<Longrightarrow> key_find key k xs = Some x \<longleftrightarrow> x \<in> set xs \<and> key x = k"
  by (induction xs) auto

lemma key_find_eq_None_iff:
  "key_sorted key xs \<Longrightarrow> key_find key k xs = None \<longleftrightarrow> k \<notin> key ` set xs"
  by (induction xs) auto

lemma key_find_self [simp]: "key_sorted key xs \<Longrightarrow> x \<in> set xs \<Longrightarrow> key_find key (key x) xs = Some x"
  by (simp add: key_find_eq_Some_iff)

lemma key_insert_set: "key_insert key x xs = Some ys \<Longrightarrow> set ys = insert x (set xs)"
  by (induction xs arbitrary: ys) (auto split: if_splits)

lemma key_upsert_set:
  "key_sorted key xs \<Longrightarrow> set (key_upsert key x xs) = insert x {y \<in> set xs. key y \<noteq> key x}"
  by (induction xs) auto

lemma key_sorted_upsert: "key_sorted key xs \<Longrightarrow> key_sorted key (key_upsert key x xs)"
  by (induction xs) (auto simp: key_upsert_set)

lemma key_insert_eq_None_iff:
  "key_sorted key xs \<Longrightarrow> key_insert key x xs = None \<longleftrightarrow> key x \<in> key ` set xs"
  by (induction xs) auto

lemma key_insert_upsert:
  "key_insert key x xs = Some ys \<Longrightarrow> ys = key_upsert key x xs"
  by (induction xs arbitrary: ys) (auto split: if_splits)

lemma key_sorted_insert: "key_sorted key xs \<Longrightarrow> key_insert key x xs = Some ys \<Longrightarrow> key_sorted key ys"
  using key_insert_upsert key_sorted_upsert by metis

lemma key_find_upsert:
  "key_sorted key xs \<Longrightarrow>
   key_find key k (key_upsert key x xs) = (if k = key x then Some x else key_find key k xs)"
  by (induction xs) auto

text \<open>Two sorted vectors with the same elements are the same vector.\<close>

lemma key_sorted_ext:
  assumes "key_sorted key xs" and "key_sorted key ys" and "set xs = set ys"
  shows "xs = ys"
proof (rule strict_weak_order.sorted_unique [OF key_less_swo [of key]])
  have sorted: "sorted_wrt (\<lambda>a b. \<not> key b < key a) zs" if "key_sorted key zs" for zs
    using that by (induction zs) auto
  from sorted assms(1) show "sorted_wrt (\<lambda>a b. \<not> key b < key a) xs" .
  from sorted assms(2) show "sorted_wrt (\<lambda>a b. \<not> key b < key a) ys" .
  have "distinct xs" and "distinct ys"
    using key_sorted_distinct [OF assms(1)] key_sorted_distinct [OF assms(2)]
    by (simp_all add: distinct_map)
  then show "mset xs = mset ys"
    using assms(3) by (simp add: set_eq_iff_mset_eq_distinct)
  show "key a < key b \<or> key b < key a" if "a \<in> set xs" "b \<in> set xs" "a \<noteq> b" for a b
    using key_sorted_distinct [OF assms(1)] that by (metis distinct_map inj_onD linorder_neqE)
qed

lemma map_filter_set: "set (List.map_filter f xs) = {y. \<exists>x \<in> set xs. f x = Some y}"
  by (induction xs) (auto simp: List.map_filter_simps split: option.splits)

lemma key_sorted_map_filter:
  assumes "key_sorted key xs" and "\<And>x y. f x = Some y \<Longrightarrow> key' y = key x"
  shows "key_sorted key' (List.map_filter f xs)"
  using assms(1)
proof (induction xs)
  case (Cons x xs)
  then show ?case
    using assms(2) by (auto simp: List.map_filter_simps map_filter_set split: option.splits)
qed (simp add: List.map_filter_simps)

lemma key_sorted_map: "key_sorted key (map f xs) \<longleftrightarrow> key_sorted (\<lambda>x. key (f x)) xs"
  by (simp add: key_sorted_def comp_def)

lemma key_insert_last: "(\<And>y. y \<in> set ys \<Longrightarrow> key y < key x) \<Longrightarrow> key_insert key x ys = Some (ys @ [x])"
  by (induction ys) auto

text \<open>
  The interface of such a container: what its readers rely on. \<open>elems\<close> is the vector, \<open>find\<close> the
  lookup through \<open>std::lower_bound\<close>, \<open>insert\<close> and \<open>upsert\<close> the two ways to add an element
  (\<open>None\<close>: the element was refused).
\<close>

locale keyed_container =
  fixes key :: "'a \<Rightarrow> 'k :: linorder"
    and elems :: "'s \<Rightarrow> 'a list"
    and lookup :: "'s \<Rightarrow> 'k \<Rightarrow> 'a option"
    and invar :: "'s \<Rightarrow> bool"
  assumes elems_sorted: "invar s \<Longrightarrow> key_sorted key (elems s)"
    and lookup_elems: "invar s \<Longrightarrow> lookup s k = key_find key k (elems s)"
begin

lemma lookup_eq_Some: "invar s \<Longrightarrow> lookup s k = Some x \<longleftrightarrow> x \<in> set (elems s) \<and> key x = k"
  by (simp add: lookup_elems key_find_eq_Some_iff elems_sorted)

lemma lookup_eq_None: "invar s \<Longrightarrow> lookup s k = None \<longleftrightarrow> (\<forall>x \<in> set (elems s). key x \<noteq> k)"
  by (auto simp: lookup_elems key_find_eq_None_iff elems_sorted)

lemma lookup_key: "invar s \<Longrightarrow> x \<in> set (elems s) \<Longrightarrow> lookup s (key x) = Some x"
  by (simp add: lookup_eq_Some)

lemma lookup_ext:
  assumes "invar s" and "invar t" and "\<And>k. lookup s k = lookup t k"
  shows "elems s = elems t"
proof (rule key_sorted_ext)
  show "key_sorted key (elems s)" and "key_sorted key (elems t)"
    using assms by (simp_all add: elems_sorted)
  show "set (elems s) = set (elems t)"
    using assms by (metis lookup_eq_Some subset_antisym subset_iff)
qed

end

locale keyed_insert = keyed_container +
  fixes insert :: "'a \<Rightarrow> 's \<Rightarrow> 's option"
  assumes insert_invar: "invar s \<Longrightarrow> insert x s = Some t \<Longrightarrow> invar t"
    and insert_lookup: "invar s \<Longrightarrow> insert x s = Some t \<Longrightarrow>
      lookup t k = (if k = key x then Some x else lookup s k)"
begin

lemma insert_elems:
  assumes "invar s" and "insert x s = Some t"
  shows "set (elems t) = Set.insert x {y \<in> set (elems s). key y \<noteq> key x}"
proof -
  have "invar t"
    using assms by (rule insert_invar)
  show ?thesis
  proof (rule set_eqI)
    fix y
    have "y \<in> set (elems t) \<longleftrightarrow> lookup t (key y) = Some y"
      using \<open>invar t\<close> by (simp add: lookup_eq_Some)
    also have "\<dots> \<longleftrightarrow> (if key y = key x then y = x else lookup s (key y) = Some y)"
      using insert_lookup [OF assms] by auto
    also have "\<dots> \<longleftrightarrow> y \<in> Set.insert x {y \<in> set (elems s). key y \<noteq> key x}"
      using assms(1) by (auto simp: lookup_eq_Some)
    finally show "y \<in> set (elems t) \<longleftrightarrow> y \<in> Set.insert x {y \<in> set (elems s). key y \<noteq> key x}" .
  qed
qed

end

lemma map_filter_None: "(\<And>x. x \<in> set xs \<Longrightarrow> f x = None) \<Longrightarrow> List.map_filter f xs = []"
  by (induction xs) (simp_all add: List.map_filter_simps)

end
