(* ===== verification/Core.thy ===== *)
theory Core
  imports Prelude
begin

text \<open>
  The portable core: \<open>include/dmf/core.hpp\<close> (bounds, error taxonomy, checked arithmetic, ticks,
  bounded collections) and \<open>include/dmf/ids.hpp\<close> (identities and the identity allocator).

  A \<open>Status\<close> is its error code, \<open>EC_Ok\<close> for success: the human-readable detail is never read
  back by the program (\<open>Status\<close> compares codes only) and is not modelled. A \<open>Result<T>\<close> is
  \<open>T result\<close>, a sum with the error code on the left. A strongly typed identity, generation or
  sequence (\<open>StrongUInt<Tag>\<close>) is its 64-bit value; the tags exist at compile time only.
\<close>

section \<open>Hard global bounds\<close>

definition kMaxBlobBytes :: nat where "kMaxBlobBytes = 2 ^ 20"
definition kMaxDocumentBytes :: nat where "kMaxDocumentBytes = 16 * 2 ^ 20"
definition kMaxCollectionItems :: nat where "kMaxCollectionItems = 2 ^ 20"
definition kMaxDetailBytes :: nat where "kMaxDetailBytes = 192"
definition kMaxExplanationBytes :: nat where "kMaxExplanationBytes = 8 * 2 ^ 10"
definition kMaxGuaranteesPerSet :: u32 where "kMaxGuaranteesPerSet = 16"
definition kMaxEnvelopeBounds :: u32 where "kMaxEnvelopeBounds = 16"
definition kMaxDeltaEntries :: u32 where "kMaxDeltaEntries = 32"
definition kMaxReasonsPerDecision :: nat where "kMaxReasonsPerDecision = 32"
definition kMaxPreconditions :: nat where "kMaxPreconditions = 32"

section \<open>Error taxonomy\<close>

datatype error_code =
    EC_Ok | EC_InvalidArgument | EC_OutOfRange | EC_CapacityExceeded | EC_Overflow
  | EC_NotFound | EC_AlreadyExists | EC_InvalidState | EC_Unsupported | EC_Unknown
  | EC_Stale | EC_Conflict | EC_Invalid | EC_Corrupt | EC_Truncated
  | EC_VersionUnsupported | EC_IntegrityFailure | EC_SequenceRegression | EC_ReplayDetected
  | EC_Unauthorized | EC_InvalidEnum | EC_TrailingGarbage | EC_SearchLimitReached
  | EC_Indeterminate | EC_Refused | EC_IoError | EC_Shutdown | EC_Exhausted
  | EC_NotSupportedByHost | EC_Underflow | EC_QuotaExceeded

type_synonym status = error_code
type_synonym 'a result = "error_code + 'a"

abbreviation status_ok :: "status \<Rightarrow> bool" where
  "status_ok s \<equiv> s = EC_Ok"

abbreviation result_ok :: "'a result \<Rightarrow> bool" where
  "result_ok r \<equiv> isl r = False"

text \<open>Chains of early returns: \<open>require c e s\<close> is \<open>if (!c) return e;\<close> followed by \<open>s\<close>;
  \<open>and_then s t\<close> is \<open>Status status = s; if (!status.ok()) return status;\<close> followed by \<open>t\<close>.\<close>

definition require :: "bool \<Rightarrow> error_code \<Rightarrow> status \<Rightarrow> status" where
  "require c e s = (if c then s else e)"

definition and_then :: "status \<Rightarrow> status \<Rightarrow> status" where
  "and_then s t = (if status_ok s then t else s)"

lemma require_ok [status_simps]: "e \<noteq> EC_Ok \<Longrightarrow> status_ok (require c e s) \<longleftrightarrow> c \<and> status_ok s"
  by (simp add: require_def)

lemma and_then_ok [status_simps]: "status_ok (and_then s t) \<longleftrightarrow> status_ok s \<and> status_ok t"
  by (simp add: and_then_def)

lemma require_cases: "require c e s = r \<longleftrightarrow> (c \<and> s = r) \<or> (\<not> c \<and> e = r)"
  by (auto simp: require_def)

section \<open>Checked arithmetic\<close>

definition checked_add :: "'a :: len word \<Rightarrow> 'a word \<Rightarrow> 'a word option" where
  "checked_add a b = (if a > - 1 - b then None else Some (a + b))"

definition checked_sub :: "'a :: len word \<Rightarrow> 'a word \<Rightarrow> 'a word option" where
  "checked_sub a b = (if a < b then None else Some (a - b))"

definition checked_mul :: "'a :: len word \<Rightarrow> 'a word \<Rightarrow> 'a word option" where
  "checked_mul a b =
     (if a = 0 \<or> b = 0 then Some 0
      else if a > - 1 div b then None else Some (a * b))"

definition saturating_add :: "u64 \<Rightarrow> u64 \<Rightarrow> u64" where
  "saturating_add a b = (case checked_add a b of Some s \<Rightarrow> s | None \<Rightarrow> u64_max)"

lemma unat_max_word: "unat (- 1 :: 'a :: len word) = 2 ^ LENGTH('a) - 1"
  by (simp add: unsigned_minus_1_eq_mask mask_eq_exp_minus_1)

lemma checked_add_overflow_iff:
  "a > - 1 - b \<longleftrightarrow> 2 ^ LENGTH('a) \<le> unat a + unat b" for a b :: "'a :: len word"
proof -
  have "unat (- 1 - b) = unat (- 1 :: 'a word) - unat b"
    by (rule unat_sub) simp
  then have sub: "unat (- 1 - b) = 2 ^ LENGTH('a) - 1 - unat b"
    by (simp add: unat_max_word)
  have "unat b < 2 ^ LENGTH('a)"
    by (rule unsigned_less)
  then have "2 ^ LENGTH('a) - 1 - unat b < unat a \<longleftrightarrow> 2 ^ LENGTH('a) \<le> unat a + unat b"
    by arith
  then show ?thesis
    by (simp add: word_less_nat_alt sub)
qed

lemma checked_add_Some_iff:
  "checked_add a b = Some c \<longleftrightarrow> unat a + unat b < 2 ^ LENGTH('a) \<and> unat c = unat a + unat b"
  for a b c :: "'a :: len word"
proof (cases "unat a + unat b < 2 ^ LENGTH('a)")
  case True
  then have "unat (a + b) = unat a + unat b"
    by (simp add: unat_add_lem)
  with True show ?thesis
    by (auto simp: checked_add_def checked_add_overflow_iff word_unat_eq_iff)
next
  case False
  then show ?thesis
    by (simp add: checked_add_def checked_add_overflow_iff)
qed

lemma checked_add_None_iff:
  "checked_add a b = None \<longleftrightarrow> 2 ^ LENGTH('a) \<le> unat a + unat b" for a b :: "'a :: len word"
  by (simp add: checked_add_def checked_add_overflow_iff)

lemma checked_sub_Some_iff:
  "checked_sub a b = Some c \<longleftrightarrow> unat b \<le> unat a \<and> unat c = unat a - unat b"
  for a b c :: "'a :: len word"
  by (auto simp: checked_sub_def word_less_nat_alt unat_sub word_le_nat_alt word_unat_eq_iff)

lemma checked_sub_None_iff:
  "checked_sub a b = None \<longleftrightarrow> unat a < unat b" for a b :: "'a :: len word"
  by (simp add: checked_sub_def word_less_nat_alt)

lemma checked_mul_overflow_iff:
  fixes a b :: "'a :: len word"
  assumes "b \<noteq> 0"
  shows "a > - 1 div b \<longleftrightarrow> 2 ^ LENGTH('a) \<le> unat a * unat b"
proof -
  have pos: "0 < unat b"
    using assms by (simp add: unat_gt_0)
  have "a > - 1 div b \<longleftrightarrow> (2 ^ LENGTH('a) - 1) div unat b < unat a"
    by (simp add: word_less_nat_alt unat_div unat_max_word)
  also have "\<dots> \<longleftrightarrow> 2 ^ LENGTH('a) - 1 < unat a * unat b"
    using pos by (simp add: div_less_iff_less_mult)
  also have "\<dots> \<longleftrightarrow> 2 ^ LENGTH('a) \<le> unat a * unat b"
    by (metis Suc_le_eq Suc_diff_1 less_Suc_eq_le not_le zero_less_numeral zero_less_power)
  finally show ?thesis .
qed

lemma checked_mul_Some_iff:
  "checked_mul a b = Some c \<longleftrightarrow> unat a * unat b < 2 ^ LENGTH('a) \<and> unat c = unat a * unat b"
  for a b c :: "'a :: len word"
proof (cases "a = 0 \<or> b = 0")
  case True
  then show ?thesis
    by (auto simp: checked_mul_def word_unat_eq_iff)
next
  case False
  then have *: "checked_mul a b = (if 2 ^ LENGTH('a) \<le> unat a * unat b then None else Some (a * b))"
    by (simp add: checked_mul_def checked_mul_overflow_iff)
  show ?thesis
  proof (cases "unat a * unat b < 2 ^ LENGTH('a)")
    case True
    then have "unat (a * b) = unat a * unat b"
      by (simp add: unat_mult_lem)
    with True * show ?thesis
      by (auto simp: word_unat_eq_iff)
  qed (simp add: *)
qed

lemma checked_mul_None_iff:
  "checked_mul a b = None \<longleftrightarrow> 2 ^ LENGTH('a) \<le> unat a * unat b" for a b :: "'a :: len word"
proof (cases "a = 0 \<or> b = 0")
  case True
  then show ?thesis
    by (auto simp: checked_mul_def)
next
  case False
  then show ?thesis
    by (simp add: checked_mul_def checked_mul_overflow_iff)
qed

lemmas checked_iffs = checked_add_Some_iff checked_add_None_iff checked_sub_Some_iff
  checked_sub_None_iff checked_mul_Some_iff checked_mul_None_iff

declare checked_iffs [checked_simps]

lemma unat_saturating_add: "unat (saturating_add a b) = min (unat a + unat b) (2 ^ 64 - 1)"
proof (cases "checked_add a b")
  case None
  then show ?thesis by (simp add: saturating_add_def) (simp add: checked_simps)
next
  case (Some c)
  then show ?thesis by (simp add: saturating_add_def) (simp add: checked_simps)
qed

text \<open>
  Checked arithmetic never wraps: on \<open>w\<close>-bit unsigned values \<open>checked_add\<close>,
  \<open>checked_sub\<close> and \<open>checked_mul\<close> return the mathematical result exactly when it is
  representable and nothing otherwise.
\<close>

theorem checked_arithmetic_exact:
  fixes a b :: "'a :: len word"
  shows "map_option unat (checked_add a b) =
           (if unat a + unat b < 2 ^ LENGTH('a) then Some (unat a + unat b) else None) \<and>
         map_option unat (checked_sub a b) =
           (if unat b \<le> unat a then Some (unat a - unat b) else None) \<and>
         map_option unat (checked_mul a b) =
           (if unat a * unat b < 2 ^ LENGTH('a) then Some (unat a * unat b) else None)"
proof (intro conjI)
  show "map_option unat (checked_add a b) =
      (if unat a + unat b < 2 ^ LENGTH('a) then Some (unat a + unat b) else None)"
    by (cases "checked_add a b") (use checked_add_None_iff [of a b] checked_add_Some_iff [of a b] in auto)
  show "map_option unat (checked_sub a b) =
      (if unat b \<le> unat a then Some (unat a - unat b) else None)"
    by (cases "checked_sub a b") (use checked_sub_None_iff [of a b] checked_sub_Some_iff [of a b] in auto)
  show "map_option unat (checked_mul a b) =
      (if unat a * unat b < 2 ^ LENGTH('a) then Some (unat a * unat b) else None)"
    by (cases "checked_mul a b") (use checked_mul_None_iff [of a b] checked_mul_Some_iff [of a b] in auto)
qed

section \<open>Ticks\<close>

type_synonym tick = u64

definition Tick_next :: "tick \<Rightarrow> tick option" where
  "Tick_next t = checked_add t 1"

text \<open>\<open>ManualTickSource::advance\<close>, also the tick arithmetic of \<open>Coordinator::advance\<close>.\<close>

definition ManualTickSource_advance :: "tick \<Rightarrow> u64 \<Rightarrow> tick" where
  "ManualTickSource_advance current delta =
     (case checked_add current delta of Some t \<Rightarrow> t | None \<Rightarrow> u64_max)"

lemma ManualTickSource_advance_mono: "current \<le> ManualTickSource_advance current delta"
proof (cases "checked_add current delta")
  case (Some t)
  then have "unat t = unat current + unat delta"
    by (simp add: checked_simps)
  with Some show ?thesis
    by (simp add: ManualTickSource_advance_def word_le_nat_alt)
qed (simp add: ManualTickSource_advance_def)

section \<open>Identities\<close>

text \<open>Value 0 is unset and never valid.\<close>

definition valid_id :: "u64 \<Rightarrow> bool" where
  "valid_id v = (v \<noteq> 0)"

definition StrongUInt_next :: "u64 \<Rightarrow> u64 option" where
  "StrongUInt_next v = checked_add v 1"

text \<open>
  \<open>IdAllocator\<close>: the state is \<open>next_\<close>, 0 once the domain is exhausted.
\<close>

definition IdAllocator_allocate :: "u64 \<Rightarrow> u64 option \<times> u64" where
  "IdAllocator_allocate nxt =
     (if nxt = 0 then (None, nxt)
      else (Some nxt, case checked_add nxt 1 of Some n \<Rightarrow> n | None \<Rightarrow> 0))"

definition IdAllocator_observe :: "u64 \<Rightarrow> u64 \<Rightarrow> u64" where
  "IdAllocator_observe nxt high_water =
     (if high_water = 0 then nxt
      else let observed = (case checked_add high_water 1 of Some n \<Rightarrow> n | None \<Rightarrow> 0)
           in if nxt = 0 then nxt
              else if observed = 0 \<or> observed > nxt then observed else nxt)"

definition IdAllocator_high_water :: "u64 \<Rightarrow> u64" where
  "IdAllocator_high_water nxt = (if nxt = 0 then 0 else nxt - 1)"

text \<open>A run of an allocator: allocations and observed durable high-water marks in any order;
  the result lists the identities handed out.\<close>

datatype id_op = Allocate | Observe u64

fun IdAllocator_run :: "u64 \<Rightarrow> id_op list \<Rightarrow> u64 list \<times> u64" where
  "IdAllocator_run nxt [] = ([], nxt)"
| "IdAllocator_run nxt (Allocate # ops) =
     (case IdAllocator_allocate nxt of
        (None, n) \<Rightarrow> IdAllocator_run n ops
      | (Some i, n) \<Rightarrow> (case IdAllocator_run n ops of (is, m) \<Rightarrow> (i # is, m)))"
| "IdAllocator_run nxt (Observe h # ops) = IdAllocator_run (IdAllocator_observe nxt h) ops"

lemma checked_succ: "checked_add (n :: u64) 1 = (if n = u64_max then None else Some (n + 1))"
proof (cases "n = u64_max")
  case True
  then show ?thesis by (simp add: checked_add_def)
next
  case False
  then have "unat n \<noteq> unat u64_max"
    by (metis unsigned_word_eqI)
  then have "checked_add n 1 \<noteq> None"
    using unat_u64_bound [of n] by (simp add: checked_add_None_iff)
  with False show ?thesis
    by (auto simp: checked_add_def)
qed

lemma less_succ: "(n :: u64) \<noteq> u64_max \<Longrightarrow> n < n + 1"
  using checked_add_Some_iff [of n 1 "n + 1"] by (simp add: checked_succ word_less_nat_alt)

lemma IdAllocator_run_exhausted: "IdAllocator_run 0 ops = ([], 0)"
proof (induction ops)
  case (Cons op ops)
  then show ?case
    by (cases op) (simp_all add: IdAllocator_allocate_def IdAllocator_observe_def Let_def)
qed simp

lemma IdAllocator_observe_ge:
  "IdAllocator_observe nxt h = 0 \<or> nxt \<le> IdAllocator_observe nxt h"
  by (auto simp: IdAllocator_observe_def Let_def)

lemma IdAllocator_run_Allocate:
  "nxt \<noteq> 0 \<Longrightarrow> nxt \<noteq> u64_max \<Longrightarrow>
   fst (IdAllocator_run nxt (Allocate # ops)) = nxt # fst (IdAllocator_run (nxt + 1) ops)"
  by (simp add: IdAllocator_allocate_def checked_succ split: prod.splits)

lemma IdAllocator_run_ge:
  "\<forall>i \<in> set (fst (IdAllocator_run nxt ops)). nxt \<le> i \<and> i \<noteq> 0"
proof (induction nxt ops rule: IdAllocator_run.induct)
  case (2 nxt ops)
  show ?case
  proof (cases "nxt = 0 \<or> nxt = u64_max")
    case True
    then show ?thesis
      by (auto simp: IdAllocator_allocate_def checked_succ IdAllocator_run_exhausted)
  next
    case False
    then have "nxt < nxt + 1"
      by (simp add: less_succ)
    with False 2 show ?thesis
      by (fastforce simp: IdAllocator_allocate_def checked_succ split: prod.splits)
  qed
next
  case (3 nxt h ops)
  then show ?case
    using IdAllocator_observe_ge [of nxt h] by (auto simp: IdAllocator_run_exhausted)
qed simp

lemma IdAllocator_run_sorted: "sorted_wrt (<) (fst (IdAllocator_run nxt ops))"
proof (induction nxt ops rule: IdAllocator_run.induct)
  case (2 nxt ops)
  show ?case
  proof (cases "nxt = 0 \<or> nxt = u64_max")
    case True
    then show ?thesis
      by (auto simp: IdAllocator_allocate_def checked_succ IdAllocator_run_exhausted)
  next
    case False
    then have "nxt < nxt + 1"
      by (simp add: less_succ)
    then have "\<forall>i \<in> set (fst (IdAllocator_run (nxt + 1) ops)). nxt < i"
      using IdAllocator_run_ge [of "nxt + 1" ops] by (meson order.strict_trans2)
    moreover have "sorted_wrt (<) (fst (IdAllocator_run (nxt + 1) ops))"
      using False by (intro "2.IH"(2)) (simp_all add: IdAllocator_allocate_def checked_succ)
    ultimately show ?thesis
      using False by (simp add: IdAllocator_run_Allocate del: IdAllocator_run.simps)
  qed
qed simp_all

lemma IdAllocator_observe_gt:
  assumes "h \<noteq> 0"
  shows "IdAllocator_observe nxt h = 0 \<or> h < IdAllocator_observe nxt h"
proof (cases "h = u64_max \<or> nxt = 0")
  case True
  with assms show ?thesis
    by (auto simp: IdAllocator_observe_def Let_def checked_succ)
next
  case False
  then have lt: "h < h + 1"
    by (simp add: less_succ)
  have "IdAllocator_observe nxt h = (if h + 1 = 0 \<or> nxt < h + 1 then h + 1 else nxt)"
    using False assms by (simp add: IdAllocator_observe_def Let_def checked_succ)
  moreover have "h < nxt" if "\<not> nxt < h + 1"
    using lt that by (meson leI order.strict_trans2)
  ultimately show ?thesis
    using lt by presburger
qed

text \<open>
  An identity is never reused: whatever allocations and observed high-water marks an
  \<open>IdAllocator\<close> sees, the identities it hands out are non-zero and strictly increasing,
  none is below the point it started from, and after \<open>observe(h)\<close> every identity is above \<open>h\<close>.
  At the top of the domain it stops instead of wrapping.
\<close>

theorem id_allocator_never_reuses:
  "sorted_wrt (<) (fst (IdAllocator_run nxt ops)) \<and>
   0 \<notin> set (fst (IdAllocator_run nxt ops)) \<and>
   list_all (\<lambda>i. nxt \<le> i) (fst (IdAllocator_run nxt ops)) \<and>
   list_all (\<lambda>i. h < i) (fst (IdAllocator_run nxt (Observe h # ops)))"
proof -
  have above: "list_all (\<lambda>i. h < i) (fst (IdAllocator_run nxt (Observe h # ops)))"
  proof (cases "h = 0")
    case True
    then show ?thesis
      using IdAllocator_run_ge [of nxt ops]
      by (auto simp: list_all_iff IdAllocator_observe_def word_gt_0)
  next
    case False
    then show ?thesis
      using IdAllocator_observe_gt [of h nxt] IdAllocator_run_ge [of "IdAllocator_observe nxt h" ops]
      by (auto simp: list_all_iff IdAllocator_run_exhausted dest: order.strict_trans2)
  qed
  show ?thesis
    using IdAllocator_run_sorted [of nxt ops] IdAllocator_run_ge [of nxt ops] above
    by (auto simp: list_all_iff)
qed

section \<open>Enumerations with a wire value\<close>

text \<open>
  An \<open>enum class E : std::uint16_t\<close> is a datatype with the source's enumerators, a function giving
  each its numeric value and the list of the enumerators that \<open>is_valid(E)\<close> accepts. Objects of
  enumeration type that hold no enumerator do not exist in the model: the only place where the
  program makes an enumeration from a number is \<open>read_enum\<close> (and the topology class in
  \<open>derive_capability\<close>), which checks \<open>is_valid\<close> first; \<open>enum_decode\<close> is that check.
\<close>

definition enum_decode :: "('e \<Rightarrow> u16) \<Rightarrow> 'e list \<Rightarrow> u16 \<Rightarrow> 'e option" where
  "enum_decode code all v = find_ptr (\<lambda>e. code e = v) all"

locale wire_enum =
  fixes code :: "'e \<Rightarrow> u16" and all :: "'e list"
  assumes decode_code: "enum_decode code all (code e) = Some e"
begin

lemma decode_eq_Some: "enum_decode code all v = Some e \<longleftrightarrow> code e = v"
  using decode_code [of e] by (auto simp: enum_decode_def find_Some_iff)

lemma decode_eq_None: "enum_decode code all v = None \<longleftrightarrow> v \<notin> range code"
  using decode_eq_Some by (metis not_None_eq rangeE rangeI)

lemma code_inj: "code e = code e' \<longleftrightarrow> e = e'"
  using decode_code by (metis option.inject)

end

section \<open>Bounded collections\<close>

record 'a bounded_list =
  bl_items :: "'a list"
  bl_limit :: nat

definition BoundedList_push :: "'a \<Rightarrow> 'a bounded_list \<Rightarrow> 'a bounded_list result" where
  "BoundedList_push v l =
     (if length (bl_items l) \<ge> bl_limit l then Inl EC_CapacityExceeded
      else Inr (l\<lparr>bl_items := bl_items l @ [v]\<rparr>))"

text \<open>FIFO history: the oldest entries are evicted. A limit of 0 retains nothing.\<close>

record 'a bounded_history =
  bh_items :: "'a list"
  bh_limit :: nat
  bh_evicted :: u64

function BoundedHistory_evict :: "'a bounded_history \<Rightarrow> bool \<Rightarrow> 'a bounded_history \<times> bool" where
  "BoundedHistory_evict h evicted =
     (if bh_limit h \<noteq> 0 \<and> length (bh_items h) \<ge> bh_limit h
      then BoundedHistory_evict (h\<lparr>bh_items := tl (bh_items h), bh_evicted := bh_evicted h + 1\<rparr>) True
      else (h, evicted))"
  by pat_completeness auto
termination
  by (relation "measure (\<lambda>(h, _). length (bh_items h))") auto

declare BoundedHistory_evict.simps [simp del]

definition BoundedHistory_push :: "'a \<Rightarrow> 'a bounded_history \<Rightarrow> 'a bounded_history \<times> bool" where
  "BoundedHistory_push v h =
     (if bh_limit h = 0 then (h, True)
      else case BoundedHistory_evict h False of
             (h', evicted) \<Rightarrow> (h'\<lparr>bh_items := bh_items h' @ [v]\<rparr>, evicted))"

lemma BoundedHistory_evict_eq:
  "bh_limit h \<noteq> 0 \<Longrightarrow>
   BoundedHistory_evict h e =
     (let k = Suc (length (bh_items h)) - bh_limit h
      in (h\<lparr>bh_items := drop k (bh_items h), bh_evicted := bh_evicted h + of_nat k\<rparr>, e \<or> k \<noteq> 0))"
proof (induction h e rule: BoundedHistory_evict.induct)
  case (1 h e)
  show ?case
  proof (cases "length (bh_items h) \<ge> bh_limit h")
    case True
    let ?h = "h\<lparr>bh_items := tl (bh_items h), bh_evicted := bh_evicted h + 1\<rparr>"
    obtain k where k: "Suc (length (bh_items h)) - bh_limit h = Suc k"
      using True by (metis Suc_diff_le)
    then have k': "Suc (length (bh_items ?h)) - bh_limit ?h = k"
      using True "1.prems" by auto
    have "BoundedHistory_evict h e = BoundedHistory_evict ?h True"
      using True "1.prems" by (simp add: BoundedHistory_evict.simps [of h e])
    also have "\<dots> = (let k = k in (?h\<lparr>bh_items := drop k (bh_items ?h),
        bh_evicted := bh_evicted ?h + of_nat k\<rparr>, True))"
      using "1.IH" True "1.prems" by (simp only: k') simp
    finally show ?thesis
      by (simp add: k drop_Suc add.assoc)
  qed (use "1.prems" in \<open>simp add: BoundedHistory_evict.simps [of h e]\<close>)
qed

text \<open>
  A bounded history of limit \<open>n > 0\<close> that is within its bound keeps exactly the newest \<open>n\<close>
  entries after a push, reports an eviction exactly when one happened, counts it, and
  stays within its bound.
\<close>

theorem bounded_history_push:
  assumes "bh_limit h \<noteq> 0" and "length (bh_items h) \<le> bh_limit h"
    and "BoundedHistory_push v h = (h', evicted)"
  shows "bh_items h' = drop (Suc (length (bh_items h)) - bh_limit h) (bh_items h @ [v]) \<and>
         length (bh_items h') \<le> bh_limit h' \<and> bh_limit h' = bh_limit h \<and>
         evicted = (length (bh_items h) = bh_limit h) \<and>
         bh_evicted h' = bh_evicted h + (if evicted then 1 else 0)"
proof -
  define k where "k = Suc (length (bh_items h)) - bh_limit h"
  have k: "k = (if length (bh_items h) = bh_limit h then 1 else 0)"
    using assms(2) by (auto simp: k_def)
  from assms(1,3) have
    "h' = h\<lparr>bh_items := drop k (bh_items h) @ [v], bh_evicted := bh_evicted h + of_nat k\<rparr>"
    "evicted = (k \<noteq> 0)"
    by (auto simp: BoundedHistory_push_def BoundedHistory_evict_eq Let_def simp flip: k_def)
  with assms(1,2) k show ?thesis
    by (cases "length (bh_items h) = bh_limit h") (auto simp flip: k_def)
qed

theorem bounded_history_push_witness:
  "BoundedHistory_push (7 :: nat) \<lparr>bh_items = [5, 6], bh_limit = 2, bh_evicted = 0\<rparr> =
     (\<lparr>bh_items = [6, 7], bh_limit = 2, bh_evicted = 1\<rparr>, True)"
proof -
  let ?h = "\<lparr>bh_items = [5, 6 :: nat], bh_limit = 2, bh_evicted = 0\<rparr>"
  obtain h' e where h': "BoundedHistory_push 7 ?h = (h', e)"
    by (cases "BoundedHistory_push 7 ?h") auto
  from bounded_history_push [OF _ _ h'] show ?thesis
    by (cases h') (simp add: h')
qed

end
