(* ===== verification/Reason.thy ===== *)
theory Reason
  imports Core
begin

text \<open>
  The outcome and reason vocabulary: \<open>include/dmf/reason.hpp\<close>, \<open>src/core/reason.cpp\<close> and the
  origin class of \<open>include/dmf/ids.hpp\<close>. Each enumeration is a datatype with its wire values;
  the rendering functions are not modelled.
\<close>

section \<open>Decision outcomes\<close>

datatype DecisionOutcome =
    DO_Full
  | DO_Degraded
  | DO_Refused
  | DO_Escalated
  | DO_Unsupported
  | DO_Indeterminate
  | DO_Invalid

primrec DecisionOutcome_code :: "DecisionOutcome \<Rightarrow> u16" where
  "DecisionOutcome_code DO_Full = 1"
| "DecisionOutcome_code DO_Degraded = 2"
| "DecisionOutcome_code DO_Refused = 3"
| "DecisionOutcome_code DO_Escalated = 4"
| "DecisionOutcome_code DO_Unsupported = 5"
| "DecisionOutcome_code DO_Indeterminate = 6"
| "DecisionOutcome_code DO_Invalid = 7"

definition DecisionOutcome_all :: "DecisionOutcome list" where
  "DecisionOutcome_all =
     [DO_Full, DO_Degraded, DO_Refused, DO_Escalated,
      DO_Unsupported, DO_Indeterminate, DO_Invalid]"

interpretation decisionoutcome_wire: wire_enum DecisionOutcome_code DecisionOutcome_all
proof
  show "enum_decode DecisionOutcome_code DecisionOutcome_all (DecisionOutcome_code e) = Some e" for e
    by (cases e) (simp_all add: enum_decode_def DecisionOutcome_all_def)
qed

definition is_authorising :: "DecisionOutcome \<Rightarrow> bool" where
  "is_authorising v = (v = DO_Full \<or> v = DO_Degraded)"

section \<open>Support classification\<close>

datatype SupportTri =
    ST_Supported
  | ST_NotSupported
  | ST_Indeterminate
  | ST_NotModelled
  | ST_Invalid

primrec SupportTri_code :: "SupportTri \<Rightarrow> u16" where
  "SupportTri_code ST_Supported = 1"
| "SupportTri_code ST_NotSupported = 2"
| "SupportTri_code ST_Indeterminate = 3"
| "SupportTri_code ST_NotModelled = 4"
| "SupportTri_code ST_Invalid = 5"

definition SupportTri_all :: "SupportTri list" where
  "SupportTri_all =
     [ST_Supported, ST_NotSupported, ST_Indeterminate, ST_NotModelled,
      ST_Invalid]"

interpretation supporttri_wire: wire_enum SupportTri_code SupportTri_all
proof
  show "enum_decode SupportTri_code SupportTri_all (SupportTri_code e) = Some e" for e
    by (cases e) (simp_all add: enum_decode_def SupportTri_all_def)
qed

section \<open>Plan status\<close>

datatype PlanStatus =
    PS_Optimal
  | PS_Feasible
  | PS_ProvenInfeasible
  | PS_SearchLimitReached
  | PS_Indeterminate
  | PS_Invalid

primrec PlanStatus_code :: "PlanStatus \<Rightarrow> u16" where
  "PlanStatus_code PS_Optimal = 1"
| "PlanStatus_code PS_Feasible = 2"
| "PlanStatus_code PS_ProvenInfeasible = 3"
| "PlanStatus_code PS_SearchLimitReached = 4"
| "PlanStatus_code PS_Indeterminate = 5"
| "PlanStatus_code PS_Invalid = 6"

definition PlanStatus_all :: "PlanStatus list" where
  "PlanStatus_all =
     [PS_Optimal, PS_Feasible, PS_ProvenInfeasible, PS_SearchLimitReached,
      PS_Indeterminate, PS_Invalid]"

interpretation planstatus_wire: wire_enum PlanStatus_code PlanStatus_all
proof
  show "enum_decode PlanStatus_code PlanStatus_all (PlanStatus_code e) = Some e" for e
    by (cases e) (simp_all add: enum_decode_def PlanStatus_all_def)
qed

definition plan_has_solution :: "PlanStatus \<Rightarrow> bool" where
  "plan_has_solution v = (v = PS_Optimal \<or> v = PS_Feasible \<or> v = PS_SearchLimitReached)"

section \<open>Restoration outcomes\<close>

datatype RestorationOutcome =
    RO_Proven
  | RO_NotProven
  | RO_Indeterminate
  | RO_Refused
  | RO_Invalid

primrec RestorationOutcome_code :: "RestorationOutcome \<Rightarrow> u16" where
  "RestorationOutcome_code RO_Proven = 1"
| "RestorationOutcome_code RO_NotProven = 2"
| "RestorationOutcome_code RO_Indeterminate = 3"
| "RestorationOutcome_code RO_Refused = 4"
| "RestorationOutcome_code RO_Invalid = 5"

definition RestorationOutcome_all :: "RestorationOutcome list" where
  "RestorationOutcome_all =
     [RO_Proven, RO_NotProven, RO_Indeterminate, RO_Refused,
      RO_Invalid]"

interpretation restorationoutcome_wire: wire_enum RestorationOutcome_code RestorationOutcome_all
proof
  show "enum_decode RestorationOutcome_code RestorationOutcome_all (RestorationOutcome_code e) = Some e" for e
    by (cases e) (simp_all add: enum_decode_def RestorationOutcome_all_def)
qed

section \<open>Reasons\<close>

datatype ReasonCode =
    RC_None
  | RC_FabricCapabilityShortfall
  | RC_FabricPartitioned
  | RC_EvidenceUnknown
  | RC_EvidenceStale
  | RC_EvidenceConflict
  | RC_EvidenceInvalid
  | RC_EvidenceUnsupported
  | RC_EvidenceAbsent
  | RC_ProtectedObligationUnmet
  | RC_PolicyNoRule
  | RC_PolicyEnvelopeExceeded
  | RC_PolicyRequiresProtection
  | RC_ResourceExhausted
  | RC_SearchLimitReached
  | RC_AuthorityGenerationChanged
  | RC_AuthorityExpired
  | RC_AuthorityRevoked
  | RC_CoordinatorEpochAdvanced
  | RC_BootIncarnationAdvanced
  | RC_ContractInvalid
  | RC_ContractGenerationChanged
  | RC_ScopeUnknown
  | RC_QuotaExceeded
  | RC_NoRuleForServiceClass
  | RC_ConcessionWithinEnvelope
  | RC_OriginalObligationsSupportable
  | RC_DwellRequirementUnmet
  | RC_HardwareNotExercised
  | RC_ArithmeticOverflow

primrec ReasonCode_code :: "ReasonCode \<Rightarrow> u16" where
  "ReasonCode_code RC_None = 0"
| "ReasonCode_code RC_FabricCapabilityShortfall = 1"
| "ReasonCode_code RC_FabricPartitioned = 2"
| "ReasonCode_code RC_EvidenceUnknown = 3"
| "ReasonCode_code RC_EvidenceStale = 4"
| "ReasonCode_code RC_EvidenceConflict = 5"
| "ReasonCode_code RC_EvidenceInvalid = 6"
| "ReasonCode_code RC_EvidenceUnsupported = 7"
| "ReasonCode_code RC_EvidenceAbsent = 8"
| "ReasonCode_code RC_ProtectedObligationUnmet = 9"
| "ReasonCode_code RC_PolicyNoRule = 10"
| "ReasonCode_code RC_PolicyEnvelopeExceeded = 11"
| "ReasonCode_code RC_PolicyRequiresProtection = 12"
| "ReasonCode_code RC_ResourceExhausted = 13"
| "ReasonCode_code RC_SearchLimitReached = 14"
| "ReasonCode_code RC_AuthorityGenerationChanged = 15"
| "ReasonCode_code RC_AuthorityExpired = 16"
| "ReasonCode_code RC_AuthorityRevoked = 17"
| "ReasonCode_code RC_CoordinatorEpochAdvanced = 18"
| "ReasonCode_code RC_BootIncarnationAdvanced = 19"
| "ReasonCode_code RC_ContractInvalid = 20"
| "ReasonCode_code RC_ContractGenerationChanged = 21"
| "ReasonCode_code RC_ScopeUnknown = 22"
| "ReasonCode_code RC_QuotaExceeded = 23"
| "ReasonCode_code RC_NoRuleForServiceClass = 24"
| "ReasonCode_code RC_ConcessionWithinEnvelope = 25"
| "ReasonCode_code RC_OriginalObligationsSupportable = 26"
| "ReasonCode_code RC_DwellRequirementUnmet = 27"
| "ReasonCode_code RC_HardwareNotExercised = 28"
| "ReasonCode_code RC_ArithmeticOverflow = 29"

definition ReasonCode_all :: "ReasonCode list" where
  "ReasonCode_all =
     [RC_None, RC_FabricCapabilityShortfall, RC_FabricPartitioned, RC_EvidenceUnknown,
      RC_EvidenceStale, RC_EvidenceConflict, RC_EvidenceInvalid, RC_EvidenceUnsupported,
      RC_EvidenceAbsent, RC_ProtectedObligationUnmet, RC_PolicyNoRule, RC_PolicyEnvelopeExceeded,
      RC_PolicyRequiresProtection, RC_ResourceExhausted, RC_SearchLimitReached, RC_AuthorityGenerationChanged,
      RC_AuthorityExpired, RC_AuthorityRevoked, RC_CoordinatorEpochAdvanced, RC_BootIncarnationAdvanced,
      RC_ContractInvalid, RC_ContractGenerationChanged, RC_ScopeUnknown, RC_QuotaExceeded,
      RC_NoRuleForServiceClass, RC_ConcessionWithinEnvelope, RC_OriginalObligationsSupportable, RC_DwellRequirementUnmet,
      RC_HardwareNotExercised, RC_ArithmeticOverflow]"

interpretation reasoncode_wire: wire_enum ReasonCode_code ReasonCode_all
proof
  show "enum_decode ReasonCode_code ReasonCode_all (ReasonCode_code e) = Some e" for e
    by (cases e) (simp_all add: enum_decode_def ReasonCode_all_def)
qed

section \<open>Provenance and origin\<close>

datatype ProvenanceClass =
    PC_Real
  | PC_Synthetic
  | PC_Unsupported

primrec ProvenanceClass_code :: "ProvenanceClass \<Rightarrow> u16" where
  "ProvenanceClass_code PC_Real = 1"
| "ProvenanceClass_code PC_Synthetic = 2"
| "ProvenanceClass_code PC_Unsupported = 3"

definition ProvenanceClass_all :: "ProvenanceClass list" where
  "ProvenanceClass_all =
     [PC_Real, PC_Synthetic, PC_Unsupported]"

interpretation provenanceclass_wire: wire_enum ProvenanceClass_code ProvenanceClass_all
proof
  show "enum_decode ProvenanceClass_code ProvenanceClass_all (ProvenanceClass_code e) = Some e" for e
    by (cases e) (simp_all add: enum_decode_def ProvenanceClass_all_def)
qed

datatype OriginClass =
    OC_Unspecified
  | OC_Real
  | OC_Synthetic
  | OC_Unsupported

primrec OriginClass_code :: "OriginClass \<Rightarrow> u16" where
  "OriginClass_code OC_Unspecified = 0"
| "OriginClass_code OC_Real = 1"
| "OriginClass_code OC_Synthetic = 2"
| "OriginClass_code OC_Unsupported = 3"

definition OriginClass_all :: "OriginClass list" where
  "OriginClass_all =
     [OC_Unspecified, OC_Real, OC_Synthetic, OC_Unsupported]"

interpretation originclass_wire: wire_enum OriginClass_code OriginClass_all
proof
  show "enum_decode OriginClass_code OriginClass_all (OriginClass_code e) = Some e" for e
    by (cases e) (simp_all add: enum_decode_def OriginClass_all_def)
qed

end
