(* ===== verification/Bytes.thy ===== *)
theory Bytes
  imports Core
begin

unbundle bit_operations_syntax

text \<open>
  Integrity primitives and the canonical byte encoding of \<open>src/core/core.cpp\<close>: CRC-32C, FNV-1a
  digests, \<open>ByteWriter\<close>, \<open>ByteReader\<close>, enumerations on the wire and the bounded text helpers.

  A byte buffer is a list of \<open>u8\<close>. The writer and the reader are records with the members of the
  C++ classes; each member function takes the object and returns the changed one (readers return
  the value read as well). The locale \<open>field_codec\<close> states what the encoders of larger objects
  rely on: a written field is read back, and the cursor ends behind it.
\<close>

section \<open>CRC-32C\<close>

definition crc32c_step :: "u32 \<Rightarrow> u32" where
  "crc32c_step crc = (if crc AND 1 \<noteq> 0 then 0x82F63B78 XOR drop_bit 1 crc else drop_bit 1 crc)"

definition crc32c_entry :: "u32 \<Rightarrow> u32" where
  "crc32c_entry index = (crc32c_step ^^ 8) index"

definition kCrc32cTable :: "u32 list" where
  "kCrc32cTable = map (\<lambda>i. crc32c_entry (of_nat i)) [0..<256]"

definition crc32c_byte :: "u32 \<Rightarrow> u8 \<Rightarrow> u32" where
  "crc32c_byte crc b = kCrc32cTable ! unat ((crc XOR ucast b) AND 0xFF) XOR drop_bit 8 crc"

definition crc32c :: "u8 list \<Rightarrow> u32 \<Rightarrow> u32" where
  "crc32c data seed = NOT (foldl crc32c_byte (NOT seed) data)"

lemma xor_cancel_left: "a XOR x = a XOR y \<longleftrightarrow> x = y" for a x y :: "'a :: len word"
proof
  assume "a XOR x = a XOR y"
  then have "a XOR (a XOR x) = a XOR (a XOR y)"
    by simp
  then show "x = y"
    by (simp flip: xor.assoc)
qed simp

lemma xor_cancel_right: "x XOR a = y XOR a \<longleftrightarrow> x = y" for a x y :: "'a :: len word"
  using xor_cancel_left [of a x y] by (simp add: xor.commute)

lemma bit_crc_poly_msb: "bit (0x82F63B78 :: u32) 31"
  by simp

lemma and_1_bit: "(x AND 1 \<noteq> 0) = bit x 0" for x :: u32
  by (metis and_one_eq bit_0 even_iff_mod_2_eq_zero odd_iff_mod_2_eq_one of_bool_eq_0_iff one_and_eq
      bit_and_iff bit_eq_iff bit_1_iff and.commute bit_0_eq)

lemma crc32c_step_xor: "crc32c_step (x XOR y) = crc32c_step x XOR crc32c_step y"
  by (auto simp: crc32c_step_def and_1_bit bit_xor_iff xor.assoc xor.left_commute)

lemma crc32c_steps_xor: "(crc32c_step ^^ n) (x XOR y) = (crc32c_step ^^ n) x XOR (crc32c_step ^^ n) y"
  by (induction n) (simp_all add: crc32c_step_xor)

lemma crc32c_step_inj: "crc32c_step x = crc32c_step y \<Longrightarrow> x = y"
proof -
  assume eq: "crc32c_step x = crc32c_step y"
  have top: "bit (crc32c_step z) 31 = bit z 0" for z
    using bit_crc_poly_msb
    by (auto simp: crc32c_step_def and_1_bit bit_xor_iff bit_drop_bit_eq dest: bit_imp_le_length)
  have low: "bit x 0 = bit y 0"
    using top [of x] top [of y] eq by simp
  then have "drop_bit 1 x = drop_bit 1 y"
    using eq by (auto simp: crc32c_step_def and_1_bit xor_cancel_left split: if_splits)
  then have "bit x (Suc n) = bit y (Suc n)" for n
    by (metis bit_drop_bit_eq comp_apply plus_1_eq_Suc)
  with low show "x = y"
    by (metis bit_word_eqI not0_implies_Suc)
qed

lemma crc32c_steps_inj: "(crc32c_step ^^ n) x = (crc32c_step ^^ n) y \<Longrightarrow> x = y"
  by (induction n) (auto dest: crc32c_step_inj)

lemma crc32c_steps_shift: "take_bit n x = 0 \<Longrightarrow> (crc32c_step ^^ n) x = drop_bit n x"
proof (induction n)
  case (Suc n)
  have zero: "\<not> bit x i" if "i < Suc n" for i
    using Suc.prems that by (metis bit_take_bit_iff bit_0_eq bot_apply bot_bool_def)
  then have low: "take_bit n x = 0" and "\<not> bit x n"
    by (auto intro!: bit_word_eqI simp: bit_take_bit_iff)
  have "(crc32c_step ^^ Suc n) x = crc32c_step (drop_bit n x)"
    using Suc.IH [OF low] by simp
  also have "\<dots> = drop_bit 1 (drop_bit n x)"
    using \<open>\<not> bit x n\<close> by (simp add: crc32c_step_def and_1_bit bit_drop_bit_eq)
  finally show ?case
    by simp
qed simp

lemma kCrc32cTable_nth: "i < 256 \<Longrightarrow> kCrc32cTable ! i = crc32c_entry (of_nat i)"
  by (simp add: kCrc32cTable_def)

text \<open>The table-driven update equals shifting the register eight times after adding the byte.\<close>

lemma crc32c_byte_bitwise: "crc32c_byte crc b = (crc32c_step ^^ 8) (crc XOR ucast b)"
proof -
  define x where "x = crc XOR (ucast b :: u32)"
  have mask: "x AND 0xFF = take_bit 8 x"
    by (simp add: take_bit_eq_mask mask_eq_exp_minus_1)
  have split: "x = take_bit 8 x XOR push_bit 8 (drop_bit 8 x)"
    by (rule bit_word_eqI) (auto simp: bit_xor_iff bit_take_bit_iff bit_push_bit_iff bit_drop_bit_eq)
  have lt: "unat (take_bit 8 x) < 256"
    using take_bit_nat_less_exp [of 8 "unat x"] by (simp add: unsigned_take_bit_eq)
  have high: "drop_bit 8 x = drop_bit 8 crc"
    by (rule bit_word_eqI)
      (auto simp: x_def bit_drop_bit_eq bit_xor_iff bit_unsigned_iff dest: bit_imp_le_length)
  have "(crc32c_step ^^ 8) x =
      (crc32c_step ^^ 8) (take_bit 8 x) XOR (crc32c_step ^^ 8) (push_bit 8 (drop_bit 8 x))"
    by (subst split) (rule crc32c_steps_xor)
  also have "(crc32c_step ^^ 8) (push_bit 8 (drop_bit 8 x)) = drop_bit 8 (push_bit 8 (drop_bit 8 x))"
    by (rule crc32c_steps_shift)
      (auto intro!: bit_word_eqI simp: bit_take_bit_iff bit_push_bit_iff)
  also have "drop_bit 8 (push_bit 8 (drop_bit 8 x)) = drop_bit 8 x"
    by (rule bit_word_eqI) (auto simp: bit_push_bit_iff bit_drop_bit_eq dest: bit_imp_le_length)
  finally show ?thesis
    using lt by (simp add: crc32c_byte_def mask kCrc32cTable_nth crc32c_entry_def high flip: x_def)
qed

text \<open>The reference: the register is fed bit by bit, least significant bit first.\<close>

definition crc32c_bitwise :: "u8 list \<Rightarrow> u32 \<Rightarrow> u32" where
  "crc32c_bitwise data seed =
     NOT (foldl (\<lambda>crc b. (crc32c_step ^^ 8) (crc XOR ucast b)) (NOT seed) data)"

lemma crc32c_byte_inj_left: "crc32c_byte x b = crc32c_byte y b \<Longrightarrow> x = y"
  unfolding crc32c_byte_bitwise by (drule crc32c_steps_inj) (simp add: xor_cancel_right)

lemma crc32c_byte_inj_right: "crc32c_byte x b = crc32c_byte x c \<Longrightarrow> b = c"
proof -
  assume "crc32c_byte x b = crc32c_byte x c"
  then have "x XOR ucast b = x XOR (ucast c :: u32)"
    unfolding crc32c_byte_bitwise by (rule crc32c_steps_inj)
  then have "(ucast b :: u32) = ucast c"
    by (simp add: xor_cancel_left)
  then have "unat (ucast b :: u32) = unat (ucast c :: u32)"
    by simp
  then show "b = c"
    by (simp add: unat_ucast_u8_u32 unsigned_word_eqI)
qed

lemma foldl_crc32c_inj: "foldl crc32c_byte x ys = foldl crc32c_byte y ys \<Longrightarrow> x = y"
  by (induction ys arbitrary: x y) (auto dest: crc32c_byte_inj_left)

text \<open>
  The table-driven CRC-32C equals the bit-serial definition with the reflected Castagnoli
  polynomial, for every buffer and seed, and it is incremental: continuing from the checksum of
  a prefix gives the checksum of the whole buffer.
\<close>

theorem crc32c_table_correct:
  "crc32c data seed = crc32c_bitwise data seed \<and>
   crc32c (data @ rest) seed = crc32c rest (crc32c data seed)"
proof -
  have "crc32c_byte = (\<lambda>crc b. (crc32c_step ^^ 8) (crc XOR ucast b))"
    by (intro ext crc32c_byte_bitwise)
  then show ?thesis
    by (simp add: crc32c_def crc32c_bitwise_def)
qed

text \<open>
  The checksum detects every corruption confined to one byte: two buffers that differ in
  exactly one byte have different CRC-32C values, whatever precedes and follows that byte.
\<close>

theorem crc32c_detects_byte_corruption:
  assumes "b \<noteq> c"
  shows "crc32c (pre @ b # post) seed \<noteq> crc32c (pre @ c # post) seed"
proof
  assume "crc32c (pre @ b # post) seed = crc32c (pre @ c # post) seed"
  then have "foldl crc32c_byte (NOT seed) (pre @ b # post) =
      foldl crc32c_byte (NOT seed) (pre @ c # post)"
    unfolding crc32c_def by (metis bit.double_compl)
  then have "crc32c_byte (foldl crc32c_byte (NOT seed) pre) b =
      crc32c_byte (foldl crc32c_byte (NOT seed) pre) c"
    by (simp add: foldl_crc32c_inj)
  then show False
    using assms by (simp add: crc32c_byte_inj_right)
qed

theorem crc32c_detects_byte_corruption_witness:
  "crc32c [68, 77, 70] 0 \<noteq> crc32c [68, 76, 70] 0"
  using crc32c_detects_byte_corruption [of 77 76 "[68]" "[70]" 0] by simp

section \<open>FNV-1a digests\<close>

definition kFnvOffset :: u64 where "kFnvOffset = 0xcbf29ce484222325"
definition kFnvPrime :: u64 where "kFnvPrime = 0x100000001b3"

definition fnv1a64 :: "u8 list \<Rightarrow> u64 \<Rightarrow> u64" where
  "fnv1a64 data seed = foldl (\<lambda>hash b. (hash XOR ucast b) * kFnvPrime) seed data"

text \<open>Little-endian bytes of a word: byte \<open>i\<close> is \<open>(value >> (8 * i)) & 0xFF\<close>.\<close>

definition le_bytes :: "nat \<Rightarrow> 'a :: len word \<Rightarrow> u8 list" where
  "le_bytes n v = map (\<lambda>i. ucast (drop_bit (8 * i) v)) [0..<n]"

lemma length_le_bytes [simp]: "length (le_bytes n v) = n"
  by (simp add: le_bytes_def)

text \<open>\<open>Digest64\<close> is its state; \<open>reset\<close> and the default constructor give \<open>kFnvOffset\<close>.\<close>

type_synonym digest64 = u64

definition update_bytes :: "u8 list \<Rightarrow> digest64 \<Rightarrow> digest64" where
  "update_bytes data d = fnv1a64 data d"

definition update_u8 :: "u8 \<Rightarrow> digest64 \<Rightarrow> digest64" where
  "update_u8 v d = update_bytes [v] d"

definition update_u16 :: "u16 \<Rightarrow> digest64 \<Rightarrow> digest64" where
  "update_u16 v d = update_bytes (le_bytes 2 v) d"

definition update_u32 :: "u32 \<Rightarrow> digest64 \<Rightarrow> digest64" where
  "update_u32 v d = update_bytes (le_bytes 4 v) d"

definition update_u64 :: "u64 \<Rightarrow> digest64 \<Rightarrow> digest64" where
  "update_u64 v d = update_bytes (le_bytes 8 v) d"

definition update_bool :: "bool \<Rightarrow> digest64 \<Rightarrow> digest64" where
  "update_bool v d = update_u8 (if v then 1 else 0) d"

definition update_size :: "nat \<Rightarrow> digest64 \<Rightarrow> digest64" where
  "update_size n d = update_u32 (of_nat n) d"

section \<open>ByteWriter\<close>

record byte_writer =
  bw_data :: "u8 list"
  bw_max_total :: nat
  bw_max_blob :: nat
  bw_ok :: bool

definition new_writer :: "nat \<Rightarrow> nat \<Rightarrow> byte_writer" where
  "new_writer max_total max_blob =
     \<lparr>bw_data = [], bw_max_total = max_total, bw_max_blob = max_blob, bw_ok = True\<rparr>"

text \<open>\<open>ensure\<close> refuses a \<open>size_t\<close> overflow as well as the document bound.\<close>

definition ByteWriter_ensure :: "nat \<Rightarrow> byte_writer \<Rightarrow> bool \<times> byte_writer" where
  "ByteWriter_ensure cnt w =
     (if \<not> bw_ok w then (False, w)
      else let next = length (bw_data w) + cnt
           in if next \<ge> 2 ^ 64 \<or> next > bw_max_total w then (False, w\<lparr>bw_ok := False\<rparr>)
              else (True, w))"

definition ByteWriter_raw :: "u8 list \<Rightarrow> byte_writer \<Rightarrow> byte_writer" where
  "ByteWriter_raw bytes w =
     (case ByteWriter_ensure (length bytes) w of
        (True, w') \<Rightarrow> w'\<lparr>bw_data := bw_data w' @ bytes\<rparr> | (False, w') \<Rightarrow> w')"

definition ByteWriter_u8 :: "u8 \<Rightarrow> byte_writer \<Rightarrow> byte_writer" where
  "ByteWriter_u8 v w = ByteWriter_raw [v] w"

definition ByteWriter_u16 :: "u16 \<Rightarrow> byte_writer \<Rightarrow> byte_writer" where
  "ByteWriter_u16 v w = ByteWriter_raw (le_bytes 2 v) w"

definition ByteWriter_u32 :: "u32 \<Rightarrow> byte_writer \<Rightarrow> byte_writer" where
  "ByteWriter_u32 v w = ByteWriter_raw (le_bytes 4 v) w"

definition ByteWriter_u64 :: "u64 \<Rightarrow> byte_writer \<Rightarrow> byte_writer" where
  "ByteWriter_u64 v w = ByteWriter_raw (le_bytes 8 v) w"

definition ByteWriter_boolean :: "bool \<Rightarrow> byte_writer \<Rightarrow> byte_writer" where
  "ByteWriter_boolean v w = ByteWriter_u8 (if v then 1 else 0) w"

definition ByteWriter_blob :: "u8 list \<Rightarrow> byte_writer \<Rightarrow> byte_writer" where
  "ByteWriter_blob text w =
     (if length text > bw_max_blob w then w\<lparr>bw_ok := False\<rparr>
      else case ByteWriter_ensure (length text + 4) w of
             (False, w') \<Rightarrow> w'
           | (True, w') \<Rightarrow> ByteWriter_raw text (ByteWriter_u32 (of_nat (length text)) w'))"

definition ByteWriter_padding :: "nat \<Rightarrow> byte_writer \<Rightarrow> byte_writer" where
  "ByteWriter_padding cnt w = ByteWriter_raw (replicate cnt 0) w"

definition write_enum :: "('e \<Rightarrow> u16) \<Rightarrow> 'e \<Rightarrow> byte_writer \<Rightarrow> byte_writer" where
  "write_enum code v w = ByteWriter_u16 (code v) w"

section \<open>ByteReader\<close>

record byte_reader =
  br_data :: "u8 list"
  br_position :: nat
  br_max_blob :: nat
  br_error :: error_code

definition new_reader :: "u8 list \<Rightarrow> nat \<Rightarrow> byte_reader" where
  "new_reader data max_blob =
     \<lparr>br_data = data, br_position = 0, br_max_blob = max_blob, br_error = EC_Ok\<rparr>"

abbreviation br_ok :: "byte_reader \<Rightarrow> bool" where
  "br_ok r \<equiv> br_error r = EC_Ok"

definition ByteReader_remaining :: "byte_reader \<Rightarrow> nat" where
  "ByteReader_remaining r = length (br_data r) - br_position r"

definition ByteReader_at_end :: "byte_reader \<Rightarrow> bool" where
  "ByteReader_at_end r = (br_position r = length (br_data r))"

text \<open>The first failure sticks.\<close>

definition ByteReader_fail :: "error_code \<Rightarrow> byte_reader \<Rightarrow> byte_reader" where
  "ByteReader_fail code r = (if br_ok r then r\<lparr>br_error := code\<rparr> else r)"

definition ByteReader_raw :: "nat \<Rightarrow> byte_reader \<Rightarrow> u8 list \<times> byte_reader" where
  "ByteReader_raw cnt r =
     (if \<not> br_ok r then ([], r)
      else if cnt > ByteReader_remaining r then ([], ByteReader_fail EC_Truncated r)
      else (take cnt (drop (br_position r) (br_data r)), r\<lparr>br_position := br_position r + cnt\<rparr>))"

text \<open>\<open>value |= byte << (8 * i)\<close> for the bytes in turn.\<close>

definition le_value :: "u8 list \<Rightarrow> 'a :: len word" where
  "le_value bs = fold (\<lambda>i v. v OR push_bit (8 * i) (ucast (bs ! i))) [0..<length bs] 0"

definition ByteReader_le :: "nat \<Rightarrow> byte_reader \<Rightarrow> 'a :: len word \<times> byte_reader" where
  "ByteReader_le n r =
     (if \<not> br_ok r \<or> ByteReader_remaining r < n then (0, ByteReader_fail EC_Truncated r)
      else (le_value (take n (drop (br_position r) (br_data r))),
            r\<lparr>br_position := br_position r + n\<rparr>))"

definition ByteReader_u8 :: "byte_reader \<Rightarrow> u8 \<times> byte_reader" where
  "ByteReader_u8 r = ByteReader_le 1 r"

definition ByteReader_u16 :: "byte_reader \<Rightarrow> u16 \<times> byte_reader" where
  "ByteReader_u16 r = ByteReader_le 2 r"

definition ByteReader_u32 :: "byte_reader \<Rightarrow> u32 \<times> byte_reader" where
  "ByteReader_u32 r = ByteReader_le 4 r"

definition ByteReader_u64 :: "byte_reader \<Rightarrow> u64 \<times> byte_reader" where
  "ByteReader_u64 r = ByteReader_le 8 r"

definition ByteReader_boolean :: "byte_reader \<Rightarrow> bool \<times> byte_reader" where
  "ByteReader_boolean r =
     (case ByteReader_u8 r of (v, r') \<Rightarrow>
        if \<not> br_ok r' then (False, r')
        else if v > 1 then (False, ByteReader_fail EC_InvalidEnum r')
        else (v = 1, r'))"

definition ByteReader_blob :: "byte_reader \<Rightarrow> u8 list \<times> byte_reader" where
  "ByteReader_blob r =
     (if \<not> br_ok r then ([], r)
      else case ByteReader_u32 r of (n, r') \<Rightarrow>
        if \<not> br_ok r' then ([], r')
        else if unat n > br_max_blob r' then ([], ByteReader_fail EC_CapacityExceeded r')
        else ByteReader_raw (unat n) r')"

definition ByteReader_count :: "u32 \<Rightarrow> byte_reader \<Rightarrow> u32 \<times> byte_reader" where
  "ByteReader_count max_allowed r =
     (if \<not> br_ok r then (0, r)
      else case ByteReader_u32 r of (v, r') \<Rightarrow>
        if \<not> br_ok r' then (0, r')
        else if v > max_allowed then (0, ByteReader_fail EC_CapacityExceeded r')
        else (v, r'))"

definition read_enum :: "('e \<Rightarrow> u16) \<Rightarrow> 'e list \<Rightarrow> 'e \<Rightarrow> byte_reader \<Rightarrow> 'e \<times> byte_reader" where
  "read_enum code all fallback r =
     (case ByteReader_u16 r of (raw, r') \<Rightarrow>
        if \<not> br_ok r' then (fallback, r')
        else case enum_decode code all raw of
               None \<Rightarrow> (fallback, ByteReader_fail EC_InvalidEnum r')
             | Some e \<Rightarrow> (e, r'))"

section \<open>Bounded text\<close>

definition unsafe_char :: "u8 \<Rightarrow> bool" where
  "unsafe_char ch = (ch = 0 \<or> (ch < 0x20 \<and> ch \<noteq> 0x09) \<or> ch = 0x7F)"

definition is_text_safe :: "u8 list \<Rightarrow> bool" where
  "is_text_safe text = list_all (\<lambda>ch. \<not> unsafe_char ch) text"

definition bounded_detail :: "u8 list \<Rightarrow> nat \<Rightarrow> u8 list" where
  "bounded_detail text limit = map (\<lambda>ch. if unsafe_char ch then 0x3F else ch) (take limit text)"

lemma bounded_detail_safe: "is_text_safe (bounded_detail text limit)"
  by (auto simp: is_text_safe_def bounded_detail_def list_all_iff unsafe_char_def)

lemma bounded_detail_length: "length (bounded_detail text limit) \<le> limit"
  by (simp add: bounded_detail_def)

section \<open>Little-endian round trip\<close>

lemma bit_le_value:
  "bit (le_value bs :: 'a :: len word) n \<longleftrightarrow>
   n < LENGTH('a) \<and> n div 8 < length bs \<and> bit (bs ! (n div 8)) (n mod 8)"
proof -
  have step: "bit (fold (\<lambda>i v. v OR push_bit (8 * i) (ucast (bs ! i))) is w :: 'a word) n \<longleftrightarrow>
      bit w n \<or> (\<exists>i \<in> set is. bit (push_bit (8 * i) (ucast (bs ! i)) :: 'a word) n)" for "is" w
    by (induction "is" arbitrary: w) (auto simp: bit_or_iff)
  have one: "bit (push_bit (8 * i) (ucast (bs ! i)) :: 'a word) n \<longleftrightarrow>
      n < LENGTH('a) \<and> n div 8 = i \<and> bit (bs ! i) (n mod 8)" for i
  proof (cases "n div 8 = i")
    case True
    then have "8 * i \<le> n" and "n - 8 * i = n mod 8"
      by (simp_all add: minus_mult_div_eq_mod mult.commute flip: True)
    then show ?thesis
      using True by (auto simp: bit_push_bit_iff bit_unsigned_iff)
  next
    case False
    have "\<not> bit (bs ! i) (n - 8 * i)" if "8 * i \<le> n"
    proof -
      have "i \<le> n div 8"
        using that by (simp add: less_eq_div_iff_mult_less_eq mult.commute)
      with False have "Suc i \<le> n div 8"
        by simp
      then have "Suc i * 8 \<le> n"
        by (simp only: less_eq_div_iff_mult_less_eq)
      then have "8 \<le> n - 8 * i"
        by simp
      then show ?thesis
        using bit_imp_le_length [of "bs ! i"] by fastforce
    qed
    with False show ?thesis
      by (auto simp: bit_push_bit_iff bit_unsigned_iff)
  qed
  show ?thesis
    unfolding le_value_def step one by auto
qed

lemma le_value_le_bytes:
  fixes v :: "'a :: len word"
  assumes "LENGTH('a) \<le> 8 * n"
  shows "le_value (le_bytes n v) = v"
proof (rule bit_word_eqI)
  fix k assume k: "k < LENGTH('a)"
  then have "k div 8 < n"
    using assms by auto
  with k show "bit (le_value (le_bytes n v) :: 'a word) k = bit v k"
    by (simp add: bit_le_value le_bytes_def bit_unsigned_iff bit_drop_bit_eq)
qed

section \<open>The field interface\<close>

text \<open>
  What the codecs of larger objects rely on for one field: a successful write appends the
  encoding \<open>enc v\<close> and nothing else, a failed writer stays failed, and a reader standing in
  front of the encoding returns the value and moves behind it. \<open>fits m v\<close> says that the value
  respects the blob bound \<open>m\<close>.
\<close>

locale field_codec =
  fixes put :: "'a \<Rightarrow> byte_writer \<Rightarrow> byte_writer"
    and get :: "byte_reader \<Rightarrow> 'a \<times> byte_reader"
    and enc :: "'a \<Rightarrow> u8 list"
    and fits :: "nat \<Rightarrow> 'a \<Rightarrow> bool"
  assumes put_ok: "bw_max_blob w < 2 ^ 32 \<Longrightarrow> bw_ok (put v w) \<Longrightarrow>
      put v w = w\<lparr>bw_data := bw_data w @ enc v\<rparr> \<and> fits (bw_max_blob w) v"
    and get_enc: "br_ok r \<Longrightarrow> fits (br_max_blob r) v \<Longrightarrow>
      drop (br_position r) (br_data r) = enc v @ rest \<Longrightarrow>
      get r = (v, r\<lparr>br_position := br_position r + length (enc v)\<rparr>)"
begin

lemma put_data:
  "bw_max_blob w < 2 ^ 32 \<Longrightarrow> bw_ok (put v w) \<Longrightarrow> bw_data (put v w) = bw_data w @ enc v"
  using put_ok by fastforce

lemma put_max_blob:
  "bw_max_blob w < 2 ^ 32 \<Longrightarrow> bw_ok (put v w) \<Longrightarrow> bw_max_blob (put v w) = bw_max_blob w"
  using put_ok by fastforce

lemma put_sticky: "bw_max_blob w < 2 ^ 32 \<Longrightarrow> \<not> bw_ok w \<Longrightarrow> \<not> bw_ok (put v w)"
  using put_ok by fastforce

lemma round_trip:
  assumes "m < 2 ^ 32" and "bw_ok (put v (new_writer t m))"
  shows "get (new_reader (bw_data (put v (new_writer t m))) m) =
    (v, new_reader (enc v) m\<lparr>br_position := length (enc v)\<rparr>)"
proof -
  have blob: "bw_max_blob (new_writer t m) < 2 ^ 32"
    using assms(1) by (simp add: new_writer_def)
  have data: "bw_data (put v (new_writer t m)) = enc v"
    using put_data [OF blob assms(2)] by (simp add: new_writer_def)
  have "fits m v"
    using put_ok [OF blob assms(2)] by (simp add: new_writer_def)
  then show ?thesis
    unfolding data by (subst get_enc [where rest = "[]"]) (simp_all add: new_reader_def)
qed

end

lemma ByteWriter_raw_ok:
  "bw_ok (ByteWriter_raw bs w) \<Longrightarrow> ByteWriter_raw bs w = w\<lparr>bw_data := bw_data w @ bs\<rparr>"
  by (auto simp: ByteWriter_raw_def ByteWriter_ensure_def Let_def split: if_splits)

lemma ByteReader_le_enc:
  fixes v :: "'a :: len word"
  assumes "br_ok r" and "drop (br_position r) (br_data r) = le_bytes n v @ rest"
    and "LENGTH('a) \<le> 8 * n"
  shows "ByteReader_le n r = (v, r\<lparr>br_position := br_position r + n\<rparr>)"
proof -
  have "ByteReader_remaining r = n + length rest"
    using arg_cong [OF assms(2), of length] by (simp add: ByteReader_remaining_def)
  with assms show ?thesis
    by (simp add: ByteReader_le_def le_value_le_bytes)
qed

lemma le_bytes_u8: "le_bytes (Suc 0) v = [v]" for v :: u8
  by (simp add: le_bytes_def)

lemma le_field_codec:
  assumes "LENGTH('a :: len) \<le> 8 * n"
  shows "field_codec (\<lambda>v :: 'a word. ByteWriter_raw (le_bytes n v)) (ByteReader_le n) (le_bytes n)
    (\<lambda>_ _. True)"
  by unfold_locales (use assms ByteWriter_raw_ok ByteReader_le_enc in force)+

interpretation u8_field: field_codec ByteWriter_u8 ByteReader_u8 "le_bytes 1" "\<lambda>_ _. True"
  using le_field_codec [where 'a = 8 and n = 1]
  by (simp add: ByteWriter_u8_def [abs_def] ByteReader_u8_def [abs_def] le_bytes_u8)

interpretation u16_field: field_codec ByteWriter_u16 ByteReader_u16 "le_bytes 2" "\<lambda>_ _. True"
  using le_field_codec [where 'a = 16 and n = 2]
  by (simp add: ByteWriter_u16_def [abs_def] ByteReader_u16_def [abs_def])

interpretation u32_field: field_codec ByteWriter_u32 ByteReader_u32 "le_bytes 4" "\<lambda>_ _. True"
  using le_field_codec [where 'a = 32 and n = 4]
  by (simp add: ByteWriter_u32_def [abs_def] ByteReader_u32_def [abs_def])

interpretation u64_field: field_codec ByteWriter_u64 ByteReader_u64 "le_bytes 8" "\<lambda>_ _. True"
  using le_field_codec [where 'a = 64 and n = 8]
  by (simp add: ByteWriter_u64_def [abs_def] ByteReader_u64_def [abs_def])

definition enc_bool :: "bool \<Rightarrow> u8 list" where
  "enc_bool v = le_bytes 1 (if v then 1 else 0 :: u8)"

interpretation bool_field: field_codec ByteWriter_boolean ByteReader_boolean enc_bool "\<lambda>_ _. True"
proof
  fix v w assume "bw_max_blob w < 2 ^ 32" and "bw_ok (ByteWriter_boolean v w)"
  then show "ByteWriter_boolean v w = w\<lparr>bw_data := bw_data w @ enc_bool v\<rparr> \<and> True"
    unfolding ByteWriter_boolean_def enc_bool_def using u8_field.put_ok by simp
next
  fix r v rest
  assume "br_ok r" and "drop (br_position r) (br_data r) = enc_bool v @ rest"
  then have "ByteReader_u8 r = (if v then 1 else 0, r\<lparr>br_position := br_position r + 1\<rparr>)"
    unfolding enc_bool_def by (simp add: u8_field.get_enc)
  then show "ByteReader_boolean r = (v, r\<lparr>br_position := br_position r + length (enc_bool v)\<rparr>)"
    using \<open>br_ok r\<close> by (simp add: ByteReader_boolean_def enc_bool_def)
qed

definition enc_blob :: "u8 list \<Rightarrow> u8 list" where
  "enc_blob text = le_bytes 4 (of_nat (length text) :: u32) @ text"

definition fits_blob :: "nat \<Rightarrow> u8 list \<Rightarrow> bool" where
  "fits_blob m text \<longleftrightarrow> length text \<le> m \<and> length text < 2 ^ 32"

text \<open>The length prefix is 32 bits wide: a blob bound of 4 GiB or more could be truncated
  silently. Every writer of the program uses a bound far below (\<open>kMaxBlobBytes\<close>).\<close>

lemma ByteWriter_blob_ok:
  assumes "bw_ok (ByteWriter_blob text w)" and "bw_max_blob w < 2 ^ 32"
  shows "ByteWriter_blob text w = w\<lparr>bw_data := bw_data w @ enc_blob text\<rparr> \<and>
    fits_blob (bw_max_blob w) text"
proof -
  from assms(1) have le: "length text \<le> bw_max_blob w"
    and ens: "ByteWriter_ensure (length text + 4) w = (True, w)"
    and eq: "ByteWriter_blob text w = ByteWriter_raw text (ByteWriter_u32 (of_nat (length text)) w)"
    by (auto simp: ByteWriter_blob_def ByteWriter_ensure_def Let_def split: if_splits)
  have raw: "bw_ok (ByteWriter_raw text (ByteWriter_u32 (of_nat (length text)) w))"
    using assms(1) eq by simp
  then have "bw_ok (ByteWriter_u32 (of_nat (length text)) w)"
    by (auto simp: ByteWriter_raw_def ByteWriter_ensure_def Let_def split: if_splits)
  then have w: "ByteWriter_u32 (of_nat (length text)) w =
      w\<lparr>bw_data := bw_data w @ le_bytes 4 (of_nat (length text) :: u32)\<rparr>"
    using u32_field.put_ok [OF assms(2)] by blast
  show ?thesis
    unfolding eq ByteWriter_raw_ok [OF raw] unfolding w
    using le assms(2) by (simp add: enc_blob_def fits_blob_def)
qed

lemma ByteReader_blob_enc:
  assumes "br_ok r" and "fits_blob (br_max_blob r) text"
    and "drop (br_position r) (br_data r) = enc_blob text @ rest"
  shows "ByteReader_blob r = (text, r\<lparr>br_position := br_position r + length (enc_blob text)\<rparr>)"
proof -
  have n: "unat (of_nat (length text) :: u32) = length text"
    using assms(2) by (simp add: fits_blob_def unsigned_of_nat take_bit_nat_eq_self)
  have u32: "ByteReader_u32 r = (of_nat (length text), r\<lparr>br_position := br_position r + 4\<rparr>)"
    using u32_field.get_enc [of r "of_nat (length text)" "text @ rest"] assms(1,3)
    by (simp add: enc_blob_def)
  have rest: "drop (br_position r + 4) (br_data r) = text @ rest"
    using arg_cong [OF assms(3), of "drop 4"] by (simp add: enc_blob_def add.commute)
  have "length (br_data r) - (br_position r + 4) = length text + length rest"
    using arg_cong [OF rest, of length] by simp
  with rest show ?thesis
    using assms(1,2) n
    by (simp add: ByteReader_blob_def u32 ByteReader_raw_def ByteReader_remaining_def fits_blob_def
        enc_blob_def)
qed

interpretation blob_field: field_codec ByteWriter_blob ByteReader_blob enc_blob fits_blob
  by unfold_locales (use ByteWriter_blob_ok ByteReader_blob_enc in auto)

text \<open>Enumerations: the interface of \<open>wire_enum\<close> gives the field interface.\<close>

lemma enum_field_codec:
  assumes "wire_enum code all"
  shows "field_codec (write_enum code) (read_enum code all fallback) (\<lambda>e. le_bytes 2 (code e))
    (\<lambda>_ _. True)"
proof
  fix v w assume "bw_max_blob w < 2 ^ 32" and "bw_ok (write_enum code v w)"
  then show "write_enum code v w = w\<lparr>bw_data := bw_data w @ le_bytes 2 (code v)\<rparr> \<and> True"
    using u16_field.put_ok by (simp add: write_enum_def)
next
  fix r v rest
  assume "br_ok r" and "drop (br_position r) (br_data r) = le_bytes 2 (code v) @ rest"
  then have "ByteReader_u16 r = (code v, r\<lparr>br_position := br_position r + 2\<rparr>)"
    by (simp add: u16_field.get_enc)
  then show "read_enum code all fallback r =
      (v, r\<lparr>br_position := br_position r + length (le_bytes 2 (code v))\<rparr>)"
    using \<open>br_ok r\<close> by (simp add: read_enum_def wire_enum.decode_code [OF assms])
qed

section \<open>Sequences of fields\<close>

text \<open>A document is a sequence of fields; reading it back follows the same sequence of kinds.\<close>

datatype field = FU8 u8 | FU16 u16 | FU32 u32 | FU64 u64 | FBool bool | FBlob "u8 list"

datatype field_kind = KU8 | KU16 | KU32 | KU64 | KBool | KBlob

primrec kind_of :: "field \<Rightarrow> field_kind" where
  "kind_of (FU8 v) = KU8"
| "kind_of (FU16 v) = KU16"
| "kind_of (FU32 v) = KU32"
| "kind_of (FU64 v) = KU64"
| "kind_of (FBool v) = KBool"
| "kind_of (FBlob v) = KBlob"

primrec write_field :: "field \<Rightarrow> byte_writer \<Rightarrow> byte_writer" where
  "write_field (FU8 v) = ByteWriter_u8 v"
| "write_field (FU16 v) = ByteWriter_u16 v"
| "write_field (FU32 v) = ByteWriter_u32 v"
| "write_field (FU64 v) = ByteWriter_u64 v"
| "write_field (FBool v) = ByteWriter_boolean v"
| "write_field (FBlob v) = ByteWriter_blob v"

primrec read_field :: "field_kind \<Rightarrow> byte_reader \<Rightarrow> field \<times> byte_reader" where
  "read_field KU8 r = map_prod FU8 id (ByteReader_u8 r)"
| "read_field KU16 r = map_prod FU16 id (ByteReader_u16 r)"
| "read_field KU32 r = map_prod FU32 id (ByteReader_u32 r)"
| "read_field KU64 r = map_prod FU64 id (ByteReader_u64 r)"
| "read_field KBool r = map_prod FBool id (ByteReader_boolean r)"
| "read_field KBlob r = map_prod FBlob id (ByteReader_blob r)"

primrec enc_field :: "field \<Rightarrow> u8 list" where
  "enc_field (FU8 v) = le_bytes 1 v"
| "enc_field (FU16 v) = le_bytes 2 v"
| "enc_field (FU32 v) = le_bytes 4 v"
| "enc_field (FU64 v) = le_bytes 8 v"
| "enc_field (FBool v) = enc_bool v"
| "enc_field (FBlob v) = enc_blob v"

primrec fits_field :: "nat \<Rightarrow> field \<Rightarrow> bool" where
  "fits_field m (FU8 v) = True"
| "fits_field m (FU16 v) = True"
| "fits_field m (FU32 v) = True"
| "fits_field m (FU64 v) = True"
| "fits_field m (FBool v) = True"
| "fits_field m (FBlob v) = fits_blob m v"

fun write_fields :: "field list \<Rightarrow> byte_writer \<Rightarrow> byte_writer" where
  "write_fields [] w = w"
| "write_fields (f # fs) w = write_fields fs (write_field f w)"

fun read_fields :: "field_kind list \<Rightarrow> byte_reader \<Rightarrow> field list \<times> byte_reader" where
  "read_fields [] r = ([], r)"
| "read_fields (k # ks) r =
     (case read_field k r of (f, r') \<Rightarrow> map_prod ((#) f) id (read_fields ks r'))"

lemma write_field_ok:
  "bw_max_blob w < 2 ^ 32 \<Longrightarrow> bw_ok (write_field f w) \<Longrightarrow>
   write_field f w = w\<lparr>bw_data := bw_data w @ enc_field f\<rparr> \<and> fits_field (bw_max_blob w) f"
  using u8_field.put_ok u16_field.put_ok u32_field.put_ok u64_field.put_ok bool_field.put_ok
    blob_field.put_ok
  by (cases f) auto

lemma read_field_enc:
  "br_ok r \<Longrightarrow> fits_field (br_max_blob r) f \<Longrightarrow>
   drop (br_position r) (br_data r) = enc_field f @ rest \<Longrightarrow>
   read_field (kind_of f) r = (f, r\<lparr>br_position := br_position r + length (enc_field f)\<rparr>)"
  by (cases f) (simp_all add: u8_field.get_enc u16_field.get_enc u32_field.get_enc u64_field.get_enc
      bool_field.get_enc blob_field.get_enc)

lemma ByteWriter_raw_sticky: "\<not> bw_ok w \<Longrightarrow> ByteWriter_raw bs w = w"
  by (simp add: ByteWriter_raw_def ByteWriter_ensure_def)

lemma write_field_sticky: "\<not> bw_ok w \<Longrightarrow> \<not> bw_ok (write_field f w)"
  by (cases f) (auto simp: ByteWriter_u8_def ByteWriter_u16_def ByteWriter_u32_def ByteWriter_u64_def
      ByteWriter_boolean_def ByteWriter_blob_def ByteWriter_ensure_def ByteWriter_raw_sticky)

lemma write_fields_sticky: "\<not> bw_ok w \<Longrightarrow> \<not> bw_ok (write_fields fs w)"
  by (induction fs arbitrary: w) (simp_all add: write_field_sticky)

lemma write_fields_ok:
  "bw_max_blob w < 2 ^ 32 \<Longrightarrow> bw_ok (write_fields fs w) \<Longrightarrow>
   write_fields fs w = w\<lparr>bw_data := bw_data w @ concat (map enc_field fs)\<rparr> \<and>
   list_all (fits_field (bw_max_blob w)) fs"
proof (induction fs arbitrary: w)
  case (Cons f fs)
  then have "bw_ok (write_field f w)"
    using write_fields_sticky by fastforce
  note f = write_field_ok [OF Cons.prems(1) this]
  let ?w = "w\<lparr>bw_data := bw_data w @ enc_field f\<rparr>"
  have "write_fields fs ?w = ?w\<lparr>bw_data := bw_data ?w @ concat (map enc_field fs)\<rparr> \<and>
      list_all (fits_field (bw_max_blob ?w)) fs"
    using Cons.prems f by (intro Cons.IH) simp_all
  with f show ?case
    by simp
qed simp

lemma read_fields_enc:
  "br_ok r \<Longrightarrow> list_all (fits_field (br_max_blob r)) fs \<Longrightarrow>
   drop (br_position r) (br_data r) = concat (map enc_field fs) @ rest \<Longrightarrow>
   read_fields (map kind_of fs) r =
     (fs, r\<lparr>br_position := br_position r + length (concat (map enc_field fs))\<rparr>)"
proof (induction fs arbitrary: r)
  case (Cons f fs)
  let ?r = "r\<lparr>br_position := br_position r + length (enc_field f)\<rparr>"
  have f: "read_field (kind_of f) r = (f, ?r)"
    using Cons.prems by (intro read_field_enc) auto
  have "drop (br_position ?r) (br_data ?r) = concat (map enc_field fs) @ rest"
    using arg_cong [OF Cons.prems(3), of "drop (length (enc_field f))"] by (simp add: add.commute)
  then have "read_fields (map kind_of fs) ?r =
      (fs, ?r\<lparr>br_position := br_position ?r + length (concat (map enc_field fs))\<rparr>)"
    using Cons.prems by (intro Cons.IH) auto
  then show ?case
    by (simp add: f add.assoc)
qed simp

text \<open>
  Canonical encoding round trip: whatever sequence of fields a \<open>ByteWriter\<close> accepted without
  failing, a \<open>ByteReader\<close> with the same blob bound reads the same values back in the same order,
  without an error and with no byte left over.
\<close>

theorem byte_fields_round_trip:
  assumes "m < 2 ^ 32" and "bw_ok (write_fields fs (new_writer t m))"
  shows "\<exists>r. read_fields (map kind_of fs)
             (new_reader (bw_data (write_fields fs (new_writer t m))) m) = (fs, r) \<and>
           br_ok r \<and> ByteReader_at_end r"
proof -
  have ok: "write_fields fs (new_writer t m) =
      new_writer t m\<lparr>bw_data := concat (map enc_field fs)\<rparr> \<and> list_all (fits_field m) fs"
    using write_fields_ok [of "new_writer t m" fs] assms by (simp add: new_writer_def)
  have "read_fields (map kind_of fs) (new_reader (concat (map enc_field fs)) m) =
      (fs, new_reader (concat (map enc_field fs)) m
        \<lparr>br_position := length (concat (map enc_field fs))\<rparr>)"
    using ok by (subst read_fields_enc [where rest = "[]"]) (simp_all add: new_reader_def)
  then show ?thesis
    using ok by (simp add: ByteReader_at_end_def new_reader_def)
qed

theorem byte_fields_round_trip_witness:
  "\<exists>r. read_fields [KU16, KBool, KBlob]
       (new_reader (bw_data (write_fields [FU16 513, FBool True, FBlob [7, 8]] (new_writer 64 16))) 16) =
     ([FU16 513, FBool True, FBlob [7, 8]], r) \<and> br_ok r \<and> ByteReader_at_end r"
proof -
  have "bw_ok (write_fields [FU16 513, FBool True, FBlob [7, 8]] (new_writer 64 16))"
    by (simp add: new_writer_def ByteWriter_u8_def ByteWriter_u16_def ByteWriter_u32_def
        ByteWriter_boolean_def ByteWriter_blob_def ByteWriter_raw_def ByteWriter_ensure_def)
  from byte_fields_round_trip [OF _ this] show ?thesis
    by (simp del: write_fields.simps read_fields.simps)
qed

text \<open>Any interleaving of reads, including raw reads, bounded counts and poisoning.\<close>

datatype read_op = ReadField field_kind | ReadRaw nat | ReadCount u32 | Poison error_code

primrec run_read :: "read_op \<Rightarrow> byte_reader \<Rightarrow> byte_reader" where
  "run_read (ReadField k) r = snd (read_field k r)"
| "run_read (ReadRaw n) r = snd (ByteReader_raw n r)"
| "run_read (ReadCount m) r = snd (ByteReader_count m r)"
| "run_read (Poison e) r = ByteReader_fail e r"

definition reader_advances :: "byte_reader \<Rightarrow> byte_reader \<Rightarrow> bool" where
  "reader_advances r r' \<longleftrightarrow> br_data r' = br_data r \<and> br_position r \<le> br_position r' \<and>
     br_position r' \<le> length (br_data r') \<and> (\<not> br_ok r \<longrightarrow> r' = r)"

lemma reader_advances_trans:
  "reader_advances r r' \<Longrightarrow> reader_advances r' r'' \<Longrightarrow> reader_advances r r''"
  by (auto simp: reader_advances_def)

lemma reader_advances_fail: "br_position r \<le> length (br_data r) \<Longrightarrow> reader_advances r (ByteReader_fail e r)"
  by (simp add: reader_advances_def ByteReader_fail_def)

lemma reader_advances_le:
  "br_position r \<le> length (br_data r) \<Longrightarrow> reader_advances r (snd (ByteReader_le n r))"
  by (auto simp: reader_advances_def ByteReader_le_def ByteReader_remaining_def ByteReader_fail_def)

lemma reader_advances_raw:
  "br_position r \<le> length (br_data r) \<Longrightarrow> reader_advances r (snd (ByteReader_raw n r))"
  by (auto simp: reader_advances_def ByteReader_raw_def ByteReader_remaining_def ByteReader_fail_def)

lemmas reader_advances_base = reader_advances_fail reader_advances_le reader_advances_raw

lemma reader_advances_bound: "reader_advances r r' \<Longrightarrow> br_position r' \<le> length (br_data r')"
  by (auto simp: reader_advances_def)

lemma reader_advances_boolean:
  assumes "br_position r \<le> length (br_data r)"
  shows "reader_advances r (snd (ByteReader_boolean r))"
proof -
  obtain v r' where r': "ByteReader_u8 r = (v, r')"
    by (cases "ByteReader_u8 r")
  then have "reader_advances r r'"
    using reader_advances_le [OF assms, of 1] unfolding ByteReader_u8_def by (metis snd_conv)
  then show ?thesis
    using r' by (auto simp: ByteReader_boolean_def
        intro: reader_advances_trans reader_advances_fail reader_advances_bound)
qed

lemma reader_advances_u32_then:
  assumes "br_position r \<le> length (br_data r)"
  shows "reader_advances r (snd (ByteReader_u32 r))"
  using reader_advances_le [OF assms, of 4] by (simp add: ByteReader_u32_def)

lemma reader_advances_blob:
  assumes "br_position r \<le> length (br_data r)"
  shows "reader_advances r (snd (ByteReader_blob r)) \<and> reader_advances r (snd (ByteReader_count m r))"
proof -
  obtain v r' where r': "ByteReader_u32 r = (v, r')"
    by (cases "ByteReader_u32 r")
  then have adv: "reader_advances r r'"
    using reader_advances_u32_then [OF assms] by simp
  have refl: "reader_advances r r"
    using assms by (simp add: reader_advances_def)
  show ?thesis
    using r' adv refl reader_advances_trans [OF adv] reader_advances_bound [OF adv]
    by (auto simp: ByteReader_blob_def ByteReader_count_def
        intro: reader_advances_fail reader_advances_raw)
qed

lemma reader_advances_run:
  assumes "br_position r \<le> length (br_data r)"
  shows "reader_advances r (run_read op r)"
proof (cases op)
  case (ReadField k)
  then show ?thesis
    using reader_advances_boolean [OF assms] reader_advances_blob [OF assms]
    by (cases k) (auto simp: ByteReader_u8_def ByteReader_u16_def ByteReader_u32_def
        ByteReader_u64_def intro: reader_advances_le [OF assms])
qed (use reader_advances_base [OF assms] reader_advances_blob [OF assms] in auto)

text \<open>
  The reader is total and sticky-failing: whatever sequence of reads, bounded counts and
  poisonings is applied, the cursor never moves backwards and never past the end of the buffer,
  the buffer is untouched, and once an error is set every later call leaves the reader exactly
  as it is.
\<close>

theorem reader_total_and_sticky:
  assumes "br_position r \<le> length (br_data r)"
  shows "br_data (fold run_read ops r) = br_data r \<and>
         br_position r \<le> br_position (fold run_read ops r) \<and>
         br_position (fold run_read ops r) \<le> length (br_data r) \<and>
         (\<not> br_ok r \<longrightarrow> fold run_read ops r = r)"
proof -
  have "reader_advances r (fold run_read ops r)"
    using assms
  proof (induction ops arbitrary: r)
    case Nil
    then show ?case by (simp add: reader_advances_def)
  next
    case (Cons op ops)
    have step: "reader_advances r (run_read op r)"
      using Cons.prems by (rule reader_advances_run)
    from Cons.IH [OF reader_advances_bound [OF step]] step show ?case
      by (auto intro: reader_advances_trans)
  qed
  then show ?thesis
    by (auto simp: reader_advances_def)
qed

theorem reader_total_and_sticky_witness:
  "br_position (fold run_read [ReadField KU16, ReadField KU64, ReadField KU8] (new_reader [1, 2, 3] 16))
     \<le> 3 \<and>
   \<not> br_ok (fold run_read [ReadField KU16, ReadField KU64, ReadField KU8] (new_reader [1, 2, 3] 16))"
proof -
  have "\<not> br_ok (fold run_read [ReadField KU16, ReadField KU64, ReadField KU8] (new_reader [1, 2, 3] 16))"
    by code_simp
  with reader_total_and_sticky [of "new_reader [1, 2, 3] 16"
      "[ReadField KU16, ReadField KU64, ReadField KU8]"]
  show ?thesis
    by (simp add: new_reader_def)
qed

end
