(* ===== verification/Guarantee.thy ===== *)
theory Guarantee
  imports Reason Bytes
begin

text \<open>
  The guarantee algebra: \<open>include/dmf/guarantee.hpp\<close> and \<open>src/domain/guarantee.cpp\<close>.

  A guarantee set is the vector \<open>items_\<close>, kept sorted by kind with one entry per kind; an envelope
  is the vector \<open>bounds_\<close>, kept the same way, with the concession budget. The central relation is
  \<open>weakens_or_equals\<close>: this theory proves that the check in the code is exactly semantic
  entailment between the two sets, that it is a partial order, and that the recorded delta is a
  complete account of the values that changed.
\<close>

section \<open>Enumerations and per-kind domains\<close>

datatype ServiceClass =
    SC_Protected
  | SC_Standard
  | SC_BestEffort
  | SC_Scavenger

primrec ServiceClass_code :: "ServiceClass \<Rightarrow> u16" where
  "ServiceClass_code SC_Protected = 1"
| "ServiceClass_code SC_Standard = 2"
| "ServiceClass_code SC_BestEffort = 3"
| "ServiceClass_code SC_Scavenger = 4"

definition ServiceClass_all :: "ServiceClass list" where
  "ServiceClass_all =
     [SC_Protected, SC_Standard, SC_BestEffort, SC_Scavenger]"

interpretation serviceclass_wire: wire_enum ServiceClass_code ServiceClass_all
proof
  show "enum_decode ServiceClass_code ServiceClass_all (ServiceClass_code e) = Some e" for e
    by (cases e) (simp_all add: enum_decode_def ServiceClass_all_def)
qed

primrec class_rank :: "ServiceClass \<Rightarrow> u8" where
  "class_rank SC_Protected = 0"
| "class_rank SC_Standard = 1"
| "class_rank SC_BestEffort = 2"
| "class_rank SC_Scavenger = 3"

datatype GuaranteeKind =
    GK_Availability
  | GK_Bandwidth
  | GK_LatencyP99
  | GK_PathDiversity
  | GK_Durability
  | GK_Reachability

primrec GuaranteeKind_code :: "GuaranteeKind \<Rightarrow> u16" where
  "GuaranteeKind_code GK_Availability = 1"
| "GuaranteeKind_code GK_Bandwidth = 2"
| "GuaranteeKind_code GK_LatencyP99 = 3"
| "GuaranteeKind_code GK_PathDiversity = 4"
| "GuaranteeKind_code GK_Durability = 5"
| "GuaranteeKind_code GK_Reachability = 6"

definition GuaranteeKind_all :: "GuaranteeKind list" where
  "GuaranteeKind_all =
     [GK_Availability, GK_Bandwidth, GK_LatencyP99, GK_PathDiversity,
      GK_Durability, GK_Reachability]"

interpretation guaranteekind_wire: wire_enum GuaranteeKind_code GuaranteeKind_all
proof
  show "enum_decode GuaranteeKind_code GuaranteeKind_all (GuaranteeKind_code e) = Some e" for e
    by (cases e) (simp_all add: enum_decode_def GuaranteeKind_all_def)
qed

text \<open>The built-in comparison of the enumerators is the comparison of their values.\<close>

instantiation GuaranteeKind :: linorder
begin

definition less_eq_GuaranteeKind :: "GuaranteeKind \<Rightarrow> GuaranteeKind \<Rightarrow> bool" where
  "less_eq_GuaranteeKind a b \<longleftrightarrow> GuaranteeKind_code a \<le> GuaranteeKind_code b"

definition less_GuaranteeKind :: "GuaranteeKind \<Rightarrow> GuaranteeKind \<Rightarrow> bool" where
  "less_GuaranteeKind a b \<longleftrightarrow> GuaranteeKind_code a < GuaranteeKind_code b"

instance
  by standard
    (auto simp: less_eq_GuaranteeKind_def less_GuaranteeKind_def order.strict_iff_order
      guaranteekind_wire.code_inj)

end

datatype Comparator =
    CM_AtLeast
  | CM_AtMost

primrec Comparator_code :: "Comparator \<Rightarrow> u16" where
  "Comparator_code CM_AtLeast = 1"
| "Comparator_code CM_AtMost = 2"

definition Comparator_all :: "Comparator list" where
  "Comparator_all =
     [CM_AtLeast, CM_AtMost]"

interpretation comparator_wire: wire_enum Comparator_code Comparator_all
proof
  show "enum_decode Comparator_code Comparator_all (Comparator_code e) = Some e" for e
    by (cases e) (simp_all add: enum_decode_def Comparator_all_def)
qed

primrec comparator_for :: "GuaranteeKind \<Rightarrow> Comparator" where
  "comparator_for GK_LatencyP99 = CM_AtMost"
| "comparator_for GK_Availability = CM_AtLeast"
| "comparator_for GK_Bandwidth = CM_AtLeast"
| "comparator_for GK_PathDiversity = CM_AtLeast"
| "comparator_for GK_Durability = CM_AtLeast"
| "comparator_for GK_Reachability = CM_AtLeast"

definition kPpmScale :: u64 where "kPpmScale = 1000000"
definition kMaxBandwidthKbps :: u64 where "kMaxBandwidthKbps = 1000000000"
definition kMaxLatencyUs :: u64 where "kMaxLatencyUs = 3600000000"
definition kMaxPathDiversity :: u64 where "kMaxPathDiversity = 4096"
definition kMaxDurabilityLevel :: u64 where "kMaxDurabilityLevel = 4"

primrec max_value_for :: "GuaranteeKind \<Rightarrow> u64" where
  "max_value_for GK_Availability = kPpmScale"
| "max_value_for GK_Bandwidth = kMaxBandwidthKbps"
| "max_value_for GK_LatencyP99 = kMaxLatencyUs"
| "max_value_for GK_PathDiversity = kMaxPathDiversity"
| "max_value_for GK_Durability = kMaxDurabilityLevel"
| "max_value_for GK_Reachability = kPpmScale"

section \<open>Guarantees and guarantee sets\<close>

record guarantee =
  g_kind :: GuaranteeKind
  g_comparator :: Comparator
  g_value :: u64
  g_hard :: bool

definition Guarantee_valid :: "guarantee \<Rightarrow> bool" where
  "Guarantee_valid g \<longleftrightarrow>
     g_comparator g = comparator_for (g_kind g) \<and> g_value g \<le> max_value_for (g_kind g)"

definition Guarantee_digest_into :: "guarantee \<Rightarrow> digest64 \<Rightarrow> digest64" where
  "Guarantee_digest_into g d =
     update_bool (g_hard g) (update_u64 (g_value g)
       (update_u16 (Comparator_code (g_comparator g))
         (update_u16 (GuaranteeKind_code (g_kind g)) d)))"

type_synonym guarantee_set = "guarantee list"

definition mk_guarantee :: "GuaranteeKind \<Rightarrow> u64 \<Rightarrow> bool \<Rightarrow> guarantee" where
  "mk_guarantee k v h =
     \<lparr>g_kind = k, g_comparator = comparator_for k, g_value = v, g_hard = h\<rparr>"

text \<open>Operations that can fail leave the object as it was; the model returns the error or the
  updated object.\<close>

definition GuaranteeSet_insert :: "guarantee \<Rightarrow> guarantee_set \<Rightarrow> guarantee_set result" where
  "GuaranteeSet_insert g s =
     (if \<not> Guarantee_valid g then Inl EC_InvalidArgument
      else case key_insert g_kind g s of None \<Rightarrow> Inl EC_AlreadyExists | Some s' \<Rightarrow> Inr s')"

definition GuaranteeSet_insert_kind ::
    "GuaranteeKind \<Rightarrow> u64 \<Rightarrow> bool \<Rightarrow> guarantee_set \<Rightarrow> guarantee_set result" where
  "GuaranteeSet_insert_kind k v h s = GuaranteeSet_insert (mk_guarantee k v h) s"

definition GuaranteeSet_upsert :: "guarantee \<Rightarrow> guarantee_set \<Rightarrow> guarantee_set result" where
  "GuaranteeSet_upsert g s =
     (if \<not> Guarantee_valid g then Inl EC_InvalidArgument else Inr (key_upsert g_kind g s))"

definition GuaranteeSet_upsert_kind ::
    "GuaranteeKind \<Rightarrow> u64 \<Rightarrow> bool \<Rightarrow> guarantee_set \<Rightarrow> guarantee_set result" where
  "GuaranteeSet_upsert_kind k v h s = GuaranteeSet_upsert (mk_guarantee k v h) s"

definition GuaranteeSet_find :: "guarantee_set \<Rightarrow> GuaranteeKind \<Rightarrow> guarantee option" where
  "GuaranteeSet_find s k = key_find g_kind k s"

definition GuaranteeSet_value_of :: "guarantee_set \<Rightarrow> GuaranteeKind \<Rightarrow> u64 option" where
  "GuaranteeSet_value_of s k = map_option g_value (GuaranteeSet_find s k)"

text \<open>The loop of \<open>validate\<close>; \<open>prev\<close> is \<open>previous\<close>, absent on the first iteration.\<close>

fun GuaranteeSet_validate_from :: "GuaranteeKind option \<Rightarrow> guarantee list \<Rightarrow> status" where
  "GuaranteeSet_validate_from prev [] = EC_Ok"
| "GuaranteeSet_validate_from prev (g # gs) =
     require (Guarantee_valid g) EC_Invalid
       (require (case prev of None \<Rightarrow> True
                 | Some p \<Rightarrow> \<not> GuaranteeKind_code (g_kind g) \<le> GuaranteeKind_code p) EC_Invalid
          (GuaranteeSet_validate_from (Some (g_kind g)) gs))"

definition GuaranteeSet_validate :: "guarantee_set \<Rightarrow> status" where
  "GuaranteeSet_validate s = GuaranteeSet_validate_from None s"

fun GuaranteeSet_check_from :: "GuaranteeKind option \<Rightarrow> guarantee list \<Rightarrow> status" where
  "GuaranteeSet_check_from prev [] = EC_Ok"
| "GuaranteeSet_check_from prev (g # gs) =
     require (Guarantee_valid g) EC_Invalid
       (require (prev \<noteq> Some (g_kind g)) EC_Invalid
          (GuaranteeSet_check_from (Some (g_kind g)) gs))"

definition GuaranteeSet_normalize :: "guarantee_set \<Rightarrow> guarantee_set result" where
  "GuaranteeSet_normalize s =
     (let s' = sort_by (\<lambda>a b. g_kind a < g_kind b) s
      in case GuaranteeSet_check_from None s' of EC_Ok \<Rightarrow> Inr s' | e \<Rightarrow> Inl e)"

definition GuaranteeSet_digest :: "guarantee_set \<Rightarrow> digest64" where
  "GuaranteeSet_digest s =
     fold Guarantee_digest_into s (update_u32 (of_nat (length s)) kFnvOffset)"

section \<open>Weakening\<close>

datatype WeakeningResult =
    WR_WeakensOrEquals
  | WR_Strengthens
  | WR_AddsGuarantee
  | WR_Invalid

primrec WeakeningResult_code :: "WeakeningResult \<Rightarrow> u16" where
  "WeakeningResult_code WR_WeakensOrEquals = 1"
| "WeakeningResult_code WR_Strengthens = 2"
| "WeakeningResult_code WR_AddsGuarantee = 3"
| "WeakeningResult_code WR_Invalid = 4"

definition WeakeningResult_all :: "WeakeningResult list" where
  "WeakeningResult_all =
     [WR_WeakensOrEquals, WR_Strengthens, WR_AddsGuarantee, WR_Invalid]"

interpretation weakeningresult_wire: wire_enum WeakeningResult_code WeakeningResult_all
proof
  show "enum_decode WeakeningResult_code WeakeningResult_all (WeakeningResult_code e) = Some e" for e
    by (cases e) (simp_all add: enum_decode_def WeakeningResult_all_def)
qed

fun classify_items :: "guarantee_set \<Rightarrow> guarantee list \<Rightarrow> WeakeningResult" where
  "classify_items original [] = WR_WeakensOrEquals"
| "classify_items original (proposed # ps) =
     (case GuaranteeSet_find original (g_kind proposed) of
        None \<Rightarrow> WR_AddsGuarantee
      | Some base \<Rightarrow>
          if g_comparator proposed \<noteq> g_comparator base then WR_Invalid
          else if g_hard proposed \<and> \<not> g_hard base then WR_Strengthens
          else if g_comparator base = CM_AtLeast
               then (if g_value proposed > g_value base then WR_Strengthens
                     else classify_items original ps)
               else (if g_value proposed < g_value base then WR_Strengthens
                     else classify_items original ps))"

definition classify_weakening :: "guarantee_set \<Rightarrow> guarantee_set \<Rightarrow> WeakeningResult" where
  "classify_weakening original candidate =
     (if GuaranteeSet_validate original \<noteq> EC_Ok \<or> GuaranteeSet_validate candidate \<noteq> EC_Ok
      then WR_Invalid
      else classify_items original candidate)"

definition weakens_or_equals :: "guarantee_set \<Rightarrow> guarantee_set \<Rightarrow> bool" where
  "weakens_or_equals original candidate \<longleftrightarrow>
     classify_weakening original candidate = WR_WeakensOrEquals"

record Concession =
  c_kind :: GuaranteeKind
  c_original_value :: u64
  c_approved_value :: u64

record GuaranteeWithdrawal =
  wd_kind :: GuaranteeKind
  wd_original_value :: u64
  wd_reason :: ReasonCode

record GuaranteeDelta =
  dl_concessions :: "Concession list"
  dl_withdrawals :: "GuaranteeWithdrawal list"

definition empty_delta :: GuaranteeDelta where
  "empty_delta = \<lparr>dl_concessions = [], dl_withdrawals = []\<rparr>"

definition GuaranteeDelta_empty :: "GuaranteeDelta \<Rightarrow> bool" where
  "GuaranteeDelta_empty d \<longleftrightarrow> dl_concessions d = [] \<and> dl_withdrawals d = []"

definition GuaranteeDelta_size :: "GuaranteeDelta \<Rightarrow> nat" where
  "GuaranteeDelta_size d = length (dl_concessions d) + length (dl_withdrawals d)"

definition GuaranteeDelta_digest :: "GuaranteeDelta \<Rightarrow> digest64" where
  "GuaranteeDelta_digest d =
     fold (\<lambda>w dg. update_u16 (ReasonCode_code (wd_reason w))
             (update_u64 (wd_original_value w) (update_u16 (GuaranteeKind_code (wd_kind w)) dg)))
       (dl_withdrawals d)
       (update_u32 (of_nat (length (dl_withdrawals d)))
         (fold (\<lambda>c dg. update_u64 (c_approved_value c)
                 (update_u64 (c_original_value c) (update_u16 (GuaranteeKind_code (c_kind c)) dg)))
            (dl_concessions d)
            (update_u32 (of_nat (length (dl_concessions d))) kFnvOffset)))"

text \<open>The loop of \<open>compute_delta\<close>, \<open>push_back\<close> in iteration order.\<close>

fun delta_items :: "guarantee_set \<Rightarrow> ReasonCode \<Rightarrow> guarantee list \<Rightarrow> GuaranteeDelta \<Rightarrow> GuaranteeDelta" where
  "delta_items approved reason [] d = d"
| "delta_items approved reason (base # bs) d =
     (case GuaranteeSet_find approved (g_kind base) of
        None \<Rightarrow> delta_items approved reason bs
          (d\<lparr>dl_withdrawals := dl_withdrawals d @
             [\<lparr>wd_kind = g_kind base, wd_original_value = g_value base, wd_reason = reason\<rparr>]\<rparr>)
      | Some proposed \<Rightarrow>
          if g_value proposed \<noteq> g_value base
          then delta_items approved reason bs
            (d\<lparr>dl_concessions := dl_concessions d @
               [\<lparr>c_kind = g_kind base, c_original_value = g_value base,
                 c_approved_value = g_value proposed\<rparr>]\<rparr>)
          else delta_items approved reason bs d)"

definition compute_delta ::
    "guarantee_set \<Rightarrow> guarantee_set \<Rightarrow> ReasonCode \<Rightarrow> GuaranteeDelta result" where
  "compute_delta original approved reason =
     (if classify_weakening original approved \<noteq> WR_WeakensOrEquals then Inl EC_Invalid
      else Inr (delta_items approved reason original empty_delta))"

section \<open>Envelopes\<close>

record ConcessionBound =
  cb_kind :: GuaranteeKind
  cb_weakest_allowed_value :: u64

record GuaranteeEnvelope =
  ge_bounds :: "ConcessionBound list"
  ge_max_concessions :: u32

definition empty_envelope :: GuaranteeEnvelope where
  "empty_envelope = \<lparr>ge_bounds = [], ge_max_concessions = 0\<rparr>"

definition bound_in_domain :: "ConcessionBound \<Rightarrow> bool" where
  "bound_in_domain b \<longleftrightarrow> cb_weakest_allowed_value b \<le> max_value_for (cb_kind b)"

definition GuaranteeEnvelope_insert ::
    "ConcessionBound \<Rightarrow> GuaranteeEnvelope \<Rightarrow> GuaranteeEnvelope result" where
  "GuaranteeEnvelope_insert b e =
     (if \<not> bound_in_domain b then Inl EC_InvalidArgument
      else case key_insert cb_kind b (ge_bounds e) of
             None \<Rightarrow> Inl EC_AlreadyExists
           | Some bs \<Rightarrow> Inr (e\<lparr>ge_bounds := bs\<rparr>))"

text \<open>The value \<open>upsert\<close> stores when a bound for the kind exists.\<close>

definition merge_bound :: "GuaranteeKind \<Rightarrow> u64 \<Rightarrow> u64 \<Rightarrow> u64" where
  "merge_bound k existing new =
     (if comparator_for k = CM_AtLeast then min existing new else max existing new)"

fun update_first_bound :: "ConcessionBound \<Rightarrow> ConcessionBound list \<Rightarrow> ConcessionBound list" where
  "update_first_bound b [] = []"
| "update_first_bound b (x # xs) =
     (if cb_kind x = cb_kind b
      then x\<lparr>cb_weakest_allowed_value :=
               merge_bound (cb_kind b) (cb_weakest_allowed_value x) (cb_weakest_allowed_value b)\<rparr> # xs
      else x # update_first_bound b xs)"

definition GuaranteeEnvelope_upsert ::
    "ConcessionBound \<Rightarrow> GuaranteeEnvelope \<Rightarrow> GuaranteeEnvelope result" where
  "GuaranteeEnvelope_upsert b e =
     (if \<not> bound_in_domain b then Inl EC_InvalidArgument
      else if find_ptr (\<lambda>x. cb_kind x = cb_kind b) (ge_bounds e) = None
      then GuaranteeEnvelope_insert b e
      else Inr (e\<lparr>ge_bounds := update_first_bound b (ge_bounds e)\<rparr>))"

fun envelope_validate_from :: "GuaranteeKind option \<Rightarrow> ConcessionBound list \<Rightarrow> status" where
  "envelope_validate_from prev [] = EC_Ok"
| "envelope_validate_from prev (b # bs) =
     require (bound_in_domain b) EC_Invalid
       (require (case prev of None \<Rightarrow> True
                 | Some p \<Rightarrow> \<not> GuaranteeKind_code (cb_kind b) \<le> GuaranteeKind_code p) EC_Invalid
          (envelope_validate_from (Some (cb_kind b)) bs))"

definition GuaranteeEnvelope_validate :: "GuaranteeEnvelope \<Rightarrow> status" where
  "GuaranteeEnvelope_validate e = envelope_validate_from None (ge_bounds e)"

fun envelope_check_from :: "GuaranteeKind option \<Rightarrow> ConcessionBound list \<Rightarrow> status" where
  "envelope_check_from prev [] = EC_Ok"
| "envelope_check_from prev (b # bs) =
     require (bound_in_domain b) EC_Invalid
       (require (prev \<noteq> Some (cb_kind b)) EC_Invalid (envelope_check_from (Some (cb_kind b)) bs))"

definition GuaranteeEnvelope_normalize :: "GuaranteeEnvelope \<Rightarrow> GuaranteeEnvelope result" where
  "GuaranteeEnvelope_normalize e =
     (let bs = sort_by (\<lambda>a b. cb_kind a < cb_kind b) (ge_bounds e)
      in case envelope_check_from None bs of EC_Ok \<Rightarrow> Inr (e\<lparr>ge_bounds := bs\<rparr>) | err \<Rightarrow> Inl err)"

definition GuaranteeEnvelope_find :: "GuaranteeEnvelope \<Rightarrow> GuaranteeKind \<Rightarrow> ConcessionBound option" where
  "GuaranteeEnvelope_find e k = key_find cb_kind k (ge_bounds e)"

definition floor_for :: "GuaranteeEnvelope \<Rightarrow> GuaranteeKind \<Rightarrow> u64 \<Rightarrow> u64" where
  "floor_for e k original_value =
     (case GuaranteeEnvelope_find e k of
        None \<Rightarrow> original_value
      | Some b \<Rightarrow> cb_weakest_allowed_value b)"

text \<open>The first loop of \<open>permits\<close>; \<open>n\<close> is the counter \<open>concessions\<close>.\<close>

fun permits_items ::
    "GuaranteeEnvelope \<Rightarrow> guarantee_set \<Rightarrow> u32 \<Rightarrow> guarantee list \<Rightarrow> bool" where
  "permits_items e approved n [] = True"
| "permits_items e approved n (base # bs) =
     (case GuaranteeSet_find approved (g_kind base) of
        None \<Rightarrow> False
      | Some proposed \<Rightarrow>
          if g_value proposed = g_value base then permits_items e approved n bs
          else if n + 1 > ge_max_concessions e then False
          else let fl = floor_for e (g_kind base) (g_value base)
               in if g_comparator base = CM_AtLeast
                  then (if g_value proposed < fl then False else permits_items e approved (n + 1) bs)
                  else (if g_value proposed > fl then False else permits_items e approved (n + 1) bs))"

definition permits :: "GuaranteeEnvelope \<Rightarrow> guarantee_set \<Rightarrow> guarantee_set \<Rightarrow> bool" where
  "permits e original approved \<longleftrightarrow>
     (if ge_max_concessions e = 0 then approved = original
      else permits_items e approved 0 original \<and>
           list_all (\<lambda>proposed. GuaranteeSet_find original (g_kind proposed) \<noteq> None) approved)"

definition GuaranteeEnvelope_digest :: "GuaranteeEnvelope \<Rightarrow> digest64" where
  "GuaranteeEnvelope_digest e =
     update_u32 (ge_max_concessions e)
       (fold (\<lambda>b dg. update_u64 (cb_weakest_allowed_value b)
               (update_u16 (GuaranteeKind_code (cb_kind b)) dg)) (ge_bounds e)
          (update_u32 (of_nat (length (ge_bounds e))) kFnvOffset))"

fun bounds_against :: "guarantee_set \<Rightarrow> ConcessionBound list \<Rightarrow> status" where
  "bounds_against original [] = EC_Ok"
| "bounds_against original (b # bs) =
     (case GuaranteeSet_find original (cb_kind b) of
        None \<Rightarrow> EC_Invalid
      | Some base \<Rightarrow>
          if g_comparator base = CM_AtLeast
          then (if cb_weakest_allowed_value b > g_value base then EC_Invalid
                else bounds_against original bs)
          else (if cb_weakest_allowed_value b < g_value base then EC_Invalid
                else bounds_against original bs))"

definition validate_envelope_against :: "GuaranteeEnvelope \<Rightarrow> guarantee_set \<Rightarrow> status" where
  "validate_envelope_against e original =
     and_then (GuaranteeEnvelope_validate e)
       (and_then (GuaranteeSet_validate original)
         (and_then (bounds_against original (ge_bounds e))
           (require (\<not> ge_max_concessions e > of_nat (length original)) EC_Invalid EC_Ok)))"


section \<open>Canonical form of guarantee sets\<close>

definition set_invar :: "guarantee_set \<Rightarrow> bool" where
  "set_invar s \<longleftrightarrow> list_all Guarantee_valid s \<and> key_sorted g_kind s"

lemma validate_from_ok:
  "GuaranteeSet_validate_from prev gs = EC_Ok \<longleftrightarrow>
   list_all Guarantee_valid gs \<and> key_sorted g_kind gs \<and>
   (\<forall>p g. prev = Some p \<longrightarrow> g \<in> set gs \<longrightarrow> p < g_kind g)"
proof (induction gs arbitrary: prev)
  case (Cons g gs)
  then show ?case
    by (cases prev) (auto simp: status_simps simp flip: less_GuaranteeKind_def not_le
        less_eq_GuaranteeKind_def)
qed simp

lemma validate_ok_iff [simp]: "GuaranteeSet_validate s = EC_Ok \<longleftrightarrow> set_invar s"
  by (auto simp: GuaranteeSet_validate_def validate_from_ok set_invar_def)

lemma check_from_ok:
  "sorted_wrt (\<lambda>a b. \<not> g_kind b < g_kind a) gs \<Longrightarrow>
   (\<And>p g. prev = Some p \<Longrightarrow> g \<in> set gs \<Longrightarrow> \<not> g_kind g < p) \<Longrightarrow>
   GuaranteeSet_check_from prev gs = EC_Ok \<longleftrightarrow>
   list_all Guarantee_valid gs \<and> key_sorted g_kind gs \<and>
   (\<forall>p g. prev = Some p \<longrightarrow> g \<in> set gs \<longrightarrow> p < g_kind g)"
proof (induction gs arbitrary: prev)
  case (Cons g gs)
  have "GuaranteeSet_check_from (Some (g_kind g)) gs = EC_Ok \<longleftrightarrow>
     list_all Guarantee_valid gs \<and> key_sorted g_kind gs \<and> (\<forall>h \<in> set gs. g_kind g < g_kind h)"
    using Cons.IH [of "Some (g_kind g)"] Cons.prems(1) by auto
  with Cons.prems show ?case
    by (cases prev) (fastforce simp: status_simps)+
qed simp

lemma normalize_Inr:
  assumes "GuaranteeSet_normalize s = Inr t"
  shows "set_invar t \<and> mset t = mset s"
proof -
  let ?t = "sort_by (\<lambda>a b. g_kind a < g_kind b) s"
  have "t = ?t" and ok: "GuaranteeSet_check_from None ?t = EC_Ok"
    using assms by (auto simp: GuaranteeSet_normalize_def Let_def split: error_code.splits)
  moreover have "sorted_wrt (\<lambda>a b. \<not> g_kind b < g_kind a) ?t"
    by (rule strict_weak_order.sorted_sort_by [OF key_less_swo])
  ultimately show ?thesis
    using check_from_ok [of ?t None] by (simp add: set_invar_def)
qed

lemma set_invar_Nil [simp]: "set_invar []"
  by (simp add: set_invar_def)

lemma set_invar_sorted: "set_invar s \<Longrightarrow> key_sorted g_kind s"
  by (simp add: set_invar_def)

lemma set_invar_valid: "set_invar s \<Longrightarrow> g \<in> set s \<Longrightarrow> Guarantee_valid g"
  by (simp add: set_invar_def list_all_iff)

lemma set_invar_comparator: "set_invar s \<Longrightarrow> g \<in> set s \<Longrightarrow> g_comparator g = comparator_for (g_kind g)"
  using set_invar_valid by (auto simp: Guarantee_valid_def)

interpretation guarantee_set: keyed_container g_kind "\<lambda>s. s" GuaranteeSet_find set_invar
  by unfold_locales (simp_all add: GuaranteeSet_find_def set_invar_def)

definition opt_of_result :: "'a result \<Rightarrow> 'a option" where
  "opt_of_result r = (case r of Inl _ \<Rightarrow> None | Inr x \<Rightarrow> Some x)"

lemma opt_of_result_Some [simp]: "opt_of_result r = Some x \<longleftrightarrow> r = Inr x"
  by (auto simp: opt_of_result_def split: sum.splits)

lemma GuaranteeSet_upsert_invar:
  assumes "set_invar s" and "GuaranteeSet_upsert g s = Inr t"
  shows "set_invar t"
  using assms key_upsert_set [of g_kind s g] key_sorted_upsert [of g_kind s g]
  by (auto simp: GuaranteeSet_upsert_def set_invar_def list_all_iff split: if_splits)

interpretation guarantee_upsert: keyed_insert g_kind "\<lambda>s. s" GuaranteeSet_find set_invar
  "\<lambda>g s. opt_of_result (GuaranteeSet_upsert g s)"
proof unfold_locales
  fix s t :: guarantee_set and x :: guarantee
  assume inv: "set_invar s" and "opt_of_result (GuaranteeSet_upsert x s) = Some t"
  then have t: "GuaranteeSet_upsert x s = Inr t"
    by simp
  from GuaranteeSet_upsert_invar [OF inv t] show "set_invar t" .
  from t inv show "GuaranteeSet_find t k = (if k = g_kind x then Some x else GuaranteeSet_find s k)" for k
    by (auto simp: GuaranteeSet_upsert_def GuaranteeSet_find_def key_find_upsert set_invar_def
        split: if_splits)
qed

lemma GuaranteeSet_insert_upsert:
  "GuaranteeSet_insert g s = Inr t \<Longrightarrow> GuaranteeSet_upsert g s = Inr t"
  by (auto simp: GuaranteeSet_insert_def GuaranteeSet_upsert_def dest: key_insert_upsert
      split: if_splits option.splits)

interpretation guarantee_insert: keyed_insert g_kind "\<lambda>s. s" GuaranteeSet_find set_invar
  "\<lambda>g s. opt_of_result (GuaranteeSet_insert g s)"
  by unfold_locales (auto dest!: GuaranteeSet_insert_upsert
      intro: guarantee_upsert.insert_invar [simplified] simp: guarantee_upsert.insert_lookup [simplified])

lemma set_invar_finds:
  assumes "set_invar s" and "set_invar t" and "\<And>k. GuaranteeSet_find s k = GuaranteeSet_find t k"
  shows "s = t"
  using guarantee_set.lookup_ext [OF assms] .

text \<open>
  A guarantee set built from the empty set by any sequence of insertions and replacements is
  canonical (every entry inside its per-kind domain, kinds strictly increasing, so one entry per
  kind), and a lookup after an accepted operation returns the new entry for its kind and the old
  answer for every other kind. An insertion is refused exactly when the guarantee is invalid or
  its kind is already present, a replacement exactly when it is invalid.
\<close>

theorem guarantee_set_operations:
  assumes "set_invar s"
  shows "(case GuaranteeSet_insert g s of
            Inr t \<Rightarrow> GuaranteeSet_validate t = EC_Ok \<and>
              (\<forall>k. GuaranteeSet_find t k = (if k = g_kind g then Some g else GuaranteeSet_find s k))
          | Inl e \<Rightarrow> e = (if Guarantee_valid g then EC_AlreadyExists else EC_InvalidArgument) \<and>
              (\<not> Guarantee_valid g \<or> GuaranteeSet_find s (g_kind g) \<noteq> None)) \<and>
         (case GuaranteeSet_upsert g s of
            Inr t \<Rightarrow> GuaranteeSet_validate t = EC_Ok \<and>
              (\<forall>k. GuaranteeSet_find t k = (if k = g_kind g then Some g else GuaranteeSet_find s k))
          | Inl e \<Rightarrow> e = EC_InvalidArgument \<and> \<not> Guarantee_valid g)"
proof (intro conjI)
  show "case GuaranteeSet_insert g s of
      Inr t \<Rightarrow> GuaranteeSet_validate t = EC_Ok \<and>
        (\<forall>k. GuaranteeSet_find t k = (if k = g_kind g then Some g else GuaranteeSet_find s k))
    | Inl e \<Rightarrow> e = (if Guarantee_valid g then EC_AlreadyExists else EC_InvalidArgument) \<and>
        (\<not> Guarantee_valid g \<or> GuaranteeSet_find s (g_kind g) \<noteq> None)"
  proof (cases "GuaranteeSet_insert g s")
    case (Inr t)
    then show ?thesis
      using guarantee_insert.insert_invar [OF assms] guarantee_insert.insert_lookup [OF assms] by simp
  next
    case (Inl e)
    then show ?thesis
      using assms key_insert_eq_None_iff [of g_kind s g] key_find_eq_None_iff [of g_kind s "g_kind g"]
      by (auto simp: GuaranteeSet_insert_def GuaranteeSet_find_def set_invar_def
          split: if_splits option.splits)
  qed
  show "case GuaranteeSet_upsert g s of
      Inr t \<Rightarrow> GuaranteeSet_validate t = EC_Ok \<and>
        (\<forall>k. GuaranteeSet_find t k = (if k = g_kind g then Some g else GuaranteeSet_find s k))
    | Inl e \<Rightarrow> e = EC_InvalidArgument \<and> \<not> Guarantee_valid g"
  proof (cases "GuaranteeSet_upsert g s")
    case (Inr t)
    then show ?thesis
      using guarantee_upsert.insert_invar [OF assms] guarantee_upsert.insert_lookup [OF assms] by simp
  qed (auto simp: GuaranteeSet_upsert_def split: if_splits)
qed

theorem guarantee_set_operations_witness:
  "GuaranteeSet_find (projr (GuaranteeSet_upsert (mk_guarantee GK_Bandwidth 5 True)
     [mk_guarantee GK_Bandwidth 9 True, mk_guarantee GK_Durability 2 False])) GK_Bandwidth =
   Some (mk_guarantee GK_Bandwidth 5 True)"
proof -
  let ?s = "[mk_guarantee GK_Bandwidth 9 True, mk_guarantee GK_Durability 2 False]"
  have "set_invar ?s"
    by code_simp
  from guarantee_set_operations [OF this, of "mk_guarantee GK_Bandwidth 5 True"] show ?thesis
    by (simp add: GuaranteeSet_upsert_def Guarantee_valid_def mk_guarantee_def kMaxBandwidthKbps_def)
qed

section \<open>Weakening is entailment\<close>

text \<open>\<open>no_stronger base proposed\<close>: what one iteration of \<open>classify_weakening\<close> accepts.\<close>

definition no_stronger :: "guarantee \<Rightarrow> guarantee \<Rightarrow> bool" where
  "no_stronger base proposed \<longleftrightarrow> g_comparator proposed = g_comparator base \<and>
     (g_hard proposed \<longrightarrow> g_hard base) \<and>
     (if g_comparator base = CM_AtLeast then g_value proposed \<le> g_value base
      else g_value base \<le> g_value proposed)"

lemma classify_items_WeakensOrEquals:
  "classify_items original ps = WR_WeakensOrEquals \<longleftrightarrow>
   (\<forall>p \<in> set ps. \<exists>b. GuaranteeSet_find original (g_kind p) = Some b \<and> no_stronger b p)"
  by (induction ps) (auto simp: no_stronger_def not_less split: option.splits)

lemma weakens_iff:
  "weakens_or_equals original candidate \<longleftrightarrow>
   set_invar original \<and> set_invar candidate \<and>
   (\<forall>p \<in> set candidate. \<exists>b. GuaranteeSet_find original (g_kind p) = Some b \<and> no_stronger b p)"
  by (auto simp: weakens_or_equals_def classify_weakening_def classify_items_WeakensOrEquals)

lemma weakensD:
  "weakens_or_equals original candidate \<Longrightarrow> GuaranteeSet_find candidate k = Some p \<Longrightarrow>
   \<exists>b. GuaranteeSet_find original k = Some b \<and> no_stronger b p"
  by (auto simp: weakens_iff guarantee_set.lookup_eq_Some)

lemma weakens_invar:
  "weakens_or_equals original candidate \<Longrightarrow> set_invar original \<and> set_invar candidate"
  by (simp add: weakens_iff)

lemma weakens_Nil [simp]: "weakens_or_equals original [] \<longleftrightarrow> set_invar original"
  by (simp add: weakens_iff)

lemma no_stronger_refl [simp]: "no_stronger g g"
  by (simp add: no_stronger_def)

lemma no_stronger_trans: "no_stronger a b \<Longrightarrow> no_stronger b c \<Longrightarrow> no_stronger a c"
  by (auto simp: no_stronger_def split: if_splits)

lemma no_stronger_antisym: "g_kind a = g_kind b \<Longrightarrow> no_stronger a b \<Longrightarrow> no_stronger b a \<Longrightarrow> a = b"
  by (auto simp: no_stronger_def split: if_splits)

lemma weakens_refl: "set_invar s \<Longrightarrow> weakens_or_equals s s"
  by (auto simp: weakens_iff guarantee_set.lookup_key)

lemma weakens_trans:
  "weakens_or_equals a b \<Longrightarrow> weakens_or_equals b c \<Longrightarrow> weakens_or_equals a c"
  unfolding weakens_iff [of a c]
proof (intro conjI ballI)
  assume ab: "weakens_or_equals a b" and bc: "weakens_or_equals b c"
  from ab bc show "set_invar a" and "set_invar c"
    by (simp_all add: weakens_iff)
  fix p assume "p \<in> set c"
  then obtain q where q: "GuaranteeSet_find b (g_kind p) = Some q" "no_stronger q p"
    using bc by (auto simp: weakens_iff)
  from weakensD [OF ab q(1)] q(2) show "\<exists>r. GuaranteeSet_find a (g_kind p) = Some r \<and> no_stronger r p"
    using no_stronger_trans by blast
qed

lemma weakens_antisym:
  assumes "weakens_or_equals a b" and "weakens_or_equals b a"
  shows "a = b"
proof (rule set_invar_finds)
  show inv: "set_invar a" "set_invar b"
    using assms by (simp_all add: weakens_iff)
  have sub: "GuaranteeSet_find y k = Some g"
    if xy: "weakens_or_equals x y" and yx: "weakens_or_equals y x"
      and g: "GuaranteeSet_find x k = Some g" for x y k g
  proof -
    obtain h where h: "GuaranteeSet_find y k = Some h" "no_stronger h g"
      using weakensD [OF yx g] by blast
    moreover have "no_stronger g h"
      using weakensD [OF xy h(1)] g by auto
    moreover have "g_kind g = k" and "g_kind h = k"
      using h g weakens_invar [OF xy] by (simp_all add: guarantee_set.lookup_eq_Some)
    ultimately show ?thesis
      using no_stronger_antisym by metis
  qed
  show "GuaranteeSet_find a k = GuaranteeSet_find b k" for k
    using sub [OF assms, of k] sub [OF assms(2,1), of k]
    by (cases "GuaranteeSet_find a k"; cases "GuaranteeSet_find b k") auto
qed

text \<open>The specification: delivered service as a value per kind, and what it means that a delivery
  honours a guarantee set.\<close>

definition meets :: "(GuaranteeKind \<Rightarrow> u64) \<Rightarrow> guarantee \<Rightarrow> bool" where
  "meets m g \<longleftrightarrow> (if g_comparator g = CM_AtLeast then g_value g \<le> m (g_kind g) else m (g_kind g) \<le> g_value g)"

definition honours :: "(GuaranteeKind \<Rightarrow> u64) \<Rightarrow> guarantee_set \<Rightarrow> bool" where
  "honours m s \<longleftrightarrow> list_all (meets m) s"

definition kinds :: "guarantee_set \<Rightarrow> GuaranteeKind set" where
  "kinds s = g_kind ` set s"

definition hard_kinds :: "guarantee_set \<Rightarrow> GuaranteeKind set" where
  "hard_kinds s = g_kind ` set (filter g_hard s)"

lemma honours_own_values:
  assumes "set_invar s"
  shows "honours (\<lambda>k. case GuaranteeSet_find s k of Some g \<Rightarrow> g_value g | None \<Rightarrow> 0) s"
  using assms by (auto simp: honours_def list_all_iff meets_def guarantee_set.lookup_key)

lemma weakens_honours:
  assumes "weakens_or_equals original candidate" and "honours m original"
  shows "honours m candidate"
  unfolding honours_def list_all_iff
proof
  fix p assume "p \<in> set candidate"
  then obtain b where b: "b \<in> set original" "g_kind b = g_kind p" "no_stronger b p"
    using assms(1) unfolding weakens_iff by (metis guarantee_set.lookup_eq_Some)
  moreover have "meets m b"
    using assms(2) b(1) by (simp add: honours_def list_all_iff)
  ultimately show "meets m p"
    by (auto simp: meets_def no_stronger_def split: if_splits)
qed

lemma no_stronger_by_meets:
  assumes "g_kind p = g_kind b" and "Guarantee_valid p" and "Guarantee_valid b"
    and "g_hard p \<longrightarrow> g_hard b" and "m (g_kind b) = g_value b" and "meets m p"
  shows "no_stronger b p"
  using assms by (auto simp: no_stronger_def meets_def Guarantee_valid_def split: if_splits)

lemma weakens_kinds:
  assumes "weakens_or_equals original candidate"
  shows "kinds candidate \<subseteq> kinds original" "hard_kinds candidate \<subseteq> hard_kinds original"
proof -
  have base: "\<exists>b \<in> set original. g_kind b = g_kind p \<and> no_stronger b p" if "p \<in> set candidate" for p
    using assms that by (fastforce simp: weakens_iff guarantee_set.lookup_eq_Some)
  then show "kinds candidate \<subseteq> kinds original"
    unfolding kinds_def by (metis (no_types, lifting) image_eqI image_subsetI)
  show "hard_kinds candidate \<subseteq> hard_kinds original"
  proof
    fix k assume "k \<in> hard_kinds candidate"
    then obtain p where p: "p \<in> set candidate" "g_hard p" "k = g_kind p"
      by (auto simp: hard_kinds_def)
    with base obtain b where "b \<in> set original" "g_kind b = k" "g_hard b"
      by (auto simp: no_stronger_def)
    then show "k \<in> hard_kinds original"
      by (auto simp: hard_kinds_def)
  qed
qed

lemma entailment_weakens:
  assumes inv: "set_invar original" "set_invar candidate" and kinds: "kinds candidate \<subseteq> kinds original"
    and hard: "hard_kinds candidate \<subseteq> hard_kinds original"
    and honour: "\<And>m. honours m original \<Longrightarrow> honours m candidate"
  shows "weakens_or_equals original candidate"
  unfolding weakens_iff
proof (intro conjI ballI inv)
  let ?m = "\<lambda>k. case GuaranteeSet_find original k of Some g \<Rightarrow> g_value g | None \<Rightarrow> 0"
  have "honours ?m candidate"
    using honour honours_own_values [OF inv(1)] by blast
  fix p assume p: "p \<in> set candidate"
  then obtain b where b: "b \<in> set original" "g_kind b = g_kind p"
    using kinds by (force simp: kinds_def)
  have find: "GuaranteeSet_find original (g_kind p) = Some b"
    using b inv by (simp add: guarantee_set.lookup_eq_Some)
  have "g_hard b" if "g_hard p"
  proof -
    from that p have "g_kind p \<in> hard_kinds original"
      using hard by (force simp: hard_kinds_def)
    then obtain h where "h \<in> set original" "g_hard h" "g_kind h = g_kind p"
      by (auto simp: hard_kinds_def)
    then show ?thesis
      using find guarantee_set.lookup_key [OF inv(1)] by (metis option.inject)
  qed
  then have "no_stronger b p"
    using p b inv find \<open>honours ?m candidate\<close>
    by (intro no_stronger_by_meets [where m = ?m]) (auto simp: honours_def list_all_iff set_invar_valid)
  with find show "\<exists>b. GuaranteeSet_find original (g_kind p) = Some b \<and> no_stronger b p"
    by blast
qed

lemma softened_weakens:
  assumes "set_invar s"
  shows "weakens_or_equals s (map (g_hard_update (\<lambda>_. False)) s)"
  unfolding weakens_iff
proof (intro conjI ballI)
  let ?soft = "map (g_hard_update (\<lambda>_. False)) s"
  have "map g_kind ?soft = map g_kind s"
    by simp
  moreover have "list_all Guarantee_valid ?soft"
    using assms by (auto simp: list_all_iff Guarantee_valid_def dest: set_invar_valid)
  ultimately show "set_invar ?soft"
    using assms unfolding set_invar_def key_sorted_def by (simp add: comp_def)
  fix p assume "p \<in> set ?soft"
  then obtain g where g: "g \<in> set s" "p = g\<lparr>g_hard := False\<rparr>"
    by auto
  then have "GuaranteeSet_find s (g_kind p) = Some g"
    using assms by (simp add: guarantee_set.lookup_eq_Some)
  then show "\<exists>b. GuaranteeSet_find s (g_kind p) = Some b \<and> no_stronger b p"
    using g by (simp add: no_stronger_def)
qed (rule assms)

text \<open>
  C12. What the weakening check accepts, exactly: on canonical sets \<open>weakens_or_equals\<close> accepts a candidate if
  and only if the candidate names no kind the original does not carry, is hard only where the
  original is hard, and every delivered service that honours the original honours the candidate. In particular a hard
  guarantee may become soft, and the original with every guarantee made soft is always accepted; the comment on
  \<open>Guarantee::hard\<close> in \<open>guarantee.hpp\<close> says that weakening a hard guarantee to a soft one is rejected.
\<close>

theorem weakening_is_entailment:
  assumes "GuaranteeSet_validate original = EC_Ok" and "GuaranteeSet_validate candidate = EC_Ok"
  shows "(weakens_or_equals original candidate \<longleftrightarrow>
           kinds candidate \<subseteq> kinds original \<and> hard_kinds candidate \<subseteq> hard_kinds original \<and>
           (\<forall>m. honours m original \<longrightarrow> honours m candidate)) \<and>
    weakens_or_equals original (map (g_hard_update (\<lambda>_. False)) original)"
proof -
  have "set_invar original" "set_invar candidate"
    using assms by simp_all
  then show ?thesis
    using weakens_kinds [of original candidate] weakens_honours entailment_weakens softened_weakens by blast
qed

theorem weakening_is_entailment_witness:
  "honours (\<lambda>_. 40) [mk_guarantee GK_Bandwidth 5 True] \<and>
   kinds [mk_guarantee GK_Bandwidth 5 True] \<subseteq>
     kinds [mk_guarantee GK_Bandwidth 9 True, mk_guarantee GK_LatencyP99 50 True] \<and>
   weakens_or_equals [mk_guarantee GK_Bandwidth 9 True, mk_guarantee GK_LatencyP99 50 True]
     [mk_guarantee GK_Bandwidth 9 False, mk_guarantee GK_LatencyP99 50 False]"
proof -
  let ?o = "[mk_guarantee GK_Bandwidth 9 True, mk_guarantee GK_LatencyP99 50 True]"
  let ?c = "[mk_guarantee GK_Bandwidth 5 True]"
  have "GuaranteeSet_validate ?o = EC_Ok" and "GuaranteeSet_validate ?c = EC_Ok"
    and "weakens_or_equals ?o ?c" and "honours (\<lambda>_. 40) ?o"
    by code_simp+
  moreover have "map (g_hard_update (\<lambda>_. False)) ?o = [mk_guarantee GK_Bandwidth 9 False, mk_guarantee GK_LatencyP99 50 False]"
    by (simp add: mk_guarantee_def)
  ultimately show ?thesis
    using weakening_is_entailment [of ?o ?c] by metis
qed

text \<open>
  Weakening is a partial order on canonical sets: degrading an already degraded set is still a
  degradation of the original, and two sets that weaken each other are the same set.
\<close>

theorem weakening_partial_order:
  "(GuaranteeSet_validate a = EC_Ok \<longrightarrow> weakens_or_equals a a) \<and>
   (weakens_or_equals a b \<and> weakens_or_equals b c \<longrightarrow> weakens_or_equals a c) \<and>
   (weakens_or_equals a b \<and> weakens_or_equals b a \<longrightarrow> a = b)"
  using weakens_refl weakens_trans weakens_antisym by simp blast

theorem weakening_partial_order_witness:
  "weakens_or_equals [mk_guarantee GK_Bandwidth 9 True] []"
proof -
  have "weakens_or_equals [mk_guarantee GK_Bandwidth 9 True] [mk_guarantee GK_Bandwidth 5 False]"
    and "weakens_or_equals [mk_guarantee GK_Bandwidth 5 False] []"
    by code_simp+
  then show ?thesis
    using weakening_partial_order by blast
qed

section \<open>The delta is a complete account\<close>

definition concession_of :: "guarantee_set \<Rightarrow> guarantee \<Rightarrow> Concession option" where
  "concession_of approved base =
     (case GuaranteeSet_find approved (g_kind base) of
        None \<Rightarrow> None
      | Some p \<Rightarrow> if g_value p = g_value base then None
          else Some \<lparr>c_kind = g_kind base, c_original_value = g_value base, c_approved_value = g_value p\<rparr>)"

definition withdrawal_of :: "guarantee_set \<Rightarrow> ReasonCode \<Rightarrow> guarantee \<Rightarrow> GuaranteeWithdrawal option" where
  "withdrawal_of approved reason base =
     (case GuaranteeSet_find approved (g_kind base) of
        None \<Rightarrow> Some \<lparr>wd_kind = g_kind base, wd_original_value = g_value base, wd_reason = reason\<rparr>
      | Some p \<Rightarrow> None)"

lemma delta_items_eq:
  "delta_items approved reason bs d =
   \<lparr>dl_concessions = dl_concessions d @ List.map_filter (concession_of approved) bs,
    dl_withdrawals = dl_withdrawals d @ List.map_filter (withdrawal_of approved reason) bs\<rparr>"
  by (induction bs arbitrary: d)
    (auto simp: List.map_filter_simps concession_of_def withdrawal_of_def split: option.splits)

lemma compute_delta_Inr:
  "compute_delta original approved reason = Inr d \<longleftrightarrow>
   weakens_or_equals original approved \<and>
   dl_concessions d = List.map_filter (concession_of approved) original \<and>
   dl_withdrawals d = List.map_filter (withdrawal_of approved reason) original"
  by (auto simp: compute_delta_def weakens_or_equals_def delta_items_eq empty_delta_def)

lemma compute_delta_Inl:
  "compute_delta original approved reason = Inl e \<longleftrightarrow>
   \<not> weakens_or_equals original approved \<and> e = EC_Invalid"
  by (auto simp: compute_delta_def weakens_or_equals_def)

text \<open>Reading a delta back: what it says remains of the original.\<close>

definition apply_delta :: "GuaranteeDelta \<Rightarrow> guarantee_set \<Rightarrow> (GuaranteeKind \<times> u64) list" where
  "apply_delta d original = List.map_filter
     (\<lambda>b. if g_kind b \<in> wd_kind ` set (dl_withdrawals d) then None
          else Some (g_kind b,
            case find_ptr (\<lambda>c. c_kind c = g_kind b) (dl_concessions d) of
              Some c \<Rightarrow> c_approved_value c | None \<Rightarrow> g_value b)) original"

lemma delta_lookup:
  assumes "set_invar original" and "set_invar approved" and "b \<in> set original"
    and "dl_concessions d = List.map_filter (concession_of approved) original"
    and "dl_withdrawals d = List.map_filter (withdrawal_of approved reason) original"
  shows "g_kind b \<in> wd_kind ` set (dl_withdrawals d) \<longleftrightarrow> GuaranteeSet_find approved (g_kind b) = None"
    and "GuaranteeSet_find approved (g_kind b) = Some p \<Longrightarrow>
      (case find_ptr (\<lambda>c. c_kind c = g_kind b) (dl_concessions d) of
         Some c \<Rightarrow> c_approved_value c | None \<Rightarrow> g_value b) = g_value p"
proof -
  show "g_kind b \<in> wd_kind ` set (dl_withdrawals d) \<longleftrightarrow> GuaranteeSet_find approved (g_kind b) = None"
    using assms(3) by (force simp: assms(5) map_filter_set withdrawal_of_def split: option.splits)
  assume p: "GuaranteeSet_find approved (g_kind b) = Some p"
  show "(case find_ptr (\<lambda>c. c_kind c = g_kind b) (dl_concessions d) of
      Some c \<Rightarrow> c_approved_value c | None \<Rightarrow> g_value b) = g_value p"
  proof (cases "find_ptr (\<lambda>c. c_kind c = g_kind b) (dl_concessions d)")
    case None
    have "concession_of approved b = None"
    proof (rule ccontr)
      assume "concession_of approved b \<noteq> None"
      then obtain c where c: "concession_of approved b = Some c"
        by blast
      then have "c \<in> set (dl_concessions d)" and "c_kind c = g_kind b"
        using assms(3) by (auto simp: assms(4) map_filter_set concession_of_def
            split: option.splits if_splits)
      with None show False
        by (auto dest: find_ptr_NoneD)
    qed
    then show ?thesis
      using p None by (simp add: concession_of_def split: if_splits)
  next
    case (Some c)
    then have "c \<in> set (dl_concessions d)" and "c_kind c = g_kind b"
      by (auto dest: find_ptr_SomeD)
    then show ?thesis
      using p Some by (auto simp: assms(4) map_filter_set concession_of_def split: option.splits if_splits)
  qed
qed

lemma apply_delta_approved:
  assumes "compute_delta original approved reason = Inr d"
  shows "apply_delta d original = map (\<lambda>g. (g_kind g, g_value g)) approved"
proof (rule key_sorted_ext [of fst])
  have w: "weakens_or_equals original approved"
    and c: "dl_concessions d = List.map_filter (concession_of approved) original"
    and wd: "dl_withdrawals d = List.map_filter (withdrawal_of approved reason) original"
    using assms by (simp_all add: compute_delta_Inr)
  note inv = weakens_invar [OF w]
  note look = delta_lookup [OF _ _ _ c wd]
  show "key_sorted fst (apply_delta d original)"
    unfolding apply_delta_def using inv
    by (intro key_sorted_map_filter [of g_kind]) (auto simp: set_invar_def split: if_splits)
  show "key_sorted fst (map (\<lambda>g. (g_kind g, g_value g)) approved)"
    using inv by (simp add: key_sorted_map set_invar_def)
  have "x \<in> set (apply_delta d original) \<longleftrightarrow>
      (\<exists>b \<in> set original. \<exists>p. GuaranteeSet_find approved (g_kind b) = Some p \<and>
         x = (g_kind b, g_value p))" for x
    using look inv unfolding apply_delta_def map_filter_set by (auto split: if_splits) (metis not_None_eq)+
  moreover have "(\<exists>b \<in> set original. \<exists>p. GuaranteeSet_find approved (g_kind b) = Some p \<and>
        x = (g_kind b, g_value p)) \<longleftrightarrow>
      x \<in> set (map (\<lambda>g. (g_kind g, g_value g)) approved)" for x
  proof
    assume "x \<in> set (map (\<lambda>g. (g_kind g, g_value g)) approved)"
    then obtain p where p: "p \<in> set approved" "x = (g_kind p, g_value p)"
      by auto
    moreover obtain b where "GuaranteeSet_find original (g_kind p) = Some b"
      using w p(1) by (auto simp: weakens_iff)
    ultimately show "\<exists>b \<in> set original. \<exists>p. GuaranteeSet_find approved (g_kind b) = Some p \<and>
        x = (g_kind b, g_value p)"
      using inv guarantee_set.lookup_eq_Some by metis
  next
    assume "\<exists>b \<in> set original. \<exists>p. GuaranteeSet_find approved (g_kind b) = Some p \<and>
        x = (g_kind b, g_value p)"
    then obtain p where "p \<in> set approved" "x = (g_kind p, g_value p)"
      using inv by (auto simp: guarantee_set.lookup_eq_Some)
    then show "x \<in> set (map (\<lambda>g. (g_kind g, g_value g)) approved)"
      by simp
  qed
  ultimately show "set (apply_delta d original) = set (map (\<lambda>g. (g_kind g, g_value g)) approved)"
    by blast
qed

text \<open>\<open>strictly_weaker k v w\<close>: the value \<open>w\<close> promises less than \<open>v\<close> for kind \<open>k\<close>.\<close>

definition strictly_weaker :: "GuaranteeKind \<Rightarrow> u64 \<Rightarrow> u64 \<Rightarrow> bool" where
  "strictly_weaker k v w \<longleftrightarrow> (if comparator_for k = CM_AtLeast then w < v else v < w)"

lemma delta_concession_weakens:
  assumes "compute_delta original approved reason = Inr d" and "c \<in> set (dl_concessions d)"
  shows "strictly_weaker (c_kind c) (c_original_value c) (c_approved_value c)"
proof -
  have w: "weakens_or_equals original approved"
    using assms(1) by (simp add: compute_delta_Inr)
  obtain b p where b: "b \<in> set original" "GuaranteeSet_find approved (g_kind b) = Some p"
      "g_value p \<noteq> g_value b"
      "c = \<lparr>c_kind = g_kind b, c_original_value = g_value b, c_approved_value = g_value p\<rparr>"
    using assms by (auto simp: compute_delta_Inr map_filter_set concession_of_def
        split: option.splits if_splits)
  have "no_stronger b p"
    using weakensD [OF w b(2)] b(1) weakens_invar [OF w] by (auto simp: guarantee_set.lookup_key)
  then show ?thesis
    using b weakens_invar [OF w] set_invar_comparator [of original b]
    by (auto simp: strictly_weaker_def no_stronger_def split: if_splits)
qed

text \<open>
  The delta from an original to an approved set exists exactly when the approved set is a
  weakening (otherwise the call fails with \<open>Invalid\<close>), and it is a complete account: replaying its
  withdrawals and concessions on the original gives back exactly the kinds and values of the
  approved set, every withdrawal carries the given reason and every concession strictly weakens
  the value it replaces.
\<close>

theorem delta_complete:
  "case compute_delta original approved reason of
     Inl e \<Rightarrow> e = EC_Invalid \<and> \<not> weakens_or_equals original approved
   | Inr d \<Rightarrow> weakens_or_equals original approved \<and>
       apply_delta d original = map (\<lambda>g. (g_kind g, g_value g)) approved \<and>
       list_all (\<lambda>w. wd_reason w = reason) (dl_withdrawals d) \<and>
       list_all (\<lambda>c. strictly_weaker (c_kind c) (c_original_value c) (c_approved_value c))
         (dl_concessions d)"
proof (cases "compute_delta original approved reason")
  case (Inr d)
  have "weakens_or_equals original approved"
    and "list_all (\<lambda>w. wd_reason w = reason) (dl_withdrawals d)"
    using Inr by (auto simp: compute_delta_Inr list_all_iff map_filter_set withdrawal_of_def
        split: option.splits)
  then show ?thesis
    using apply_delta_approved [OF Inr] delta_concession_weakens [OF Inr]
    by (simp add: Inr list_all_iff)
next
  case (Inl e)
  then have "e = EC_Invalid" and "\<not> weakens_or_equals original approved"
    by (simp_all add: compute_delta_Inl)
  then show ?thesis
    by (simp add: Inl)
qed

text \<open>
  A delta does not see hardness. The comment on \<open>GuaranteeDelta\<close> says that an empty delta means
  identical sets, and the comment on \<open>Guarantee::hard\<close> that turning a hard guarantee into a soft
  one is rejected; but \<open>classify_weakening\<close> accepts that change, and \<open>compute_delta\<close> then reports
  an empty delta for two different sets. An empty delta means that the sets agree on kinds and
  values.
\<close>

theorem empty_delta_iff_same_values:
  "(compute_delta original approved reason = Inr empty_delta \<longleftrightarrow>
      weakens_or_equals original approved \<and>
      map (\<lambda>g. (g_kind g, g_value g)) approved = map (\<lambda>g. (g_kind g, g_value g)) original) \<and>
   compute_delta [mk_guarantee GK_Bandwidth 9 True] [mk_guarantee GK_Bandwidth 9 False] reason =
     Inr empty_delta"
proof (intro conjI iffI)
  assume e: "compute_delta original approved reason = Inr empty_delta"
  have "apply_delta empty_delta original = map (\<lambda>g. (g_kind g, g_value g)) original"
    by (induction original) (simp_all add: apply_delta_def empty_delta_def List.map_filter_simps)
  then show "weakens_or_equals original approved"
    and "map (\<lambda>g. (g_kind g, g_value g)) approved = map (\<lambda>g. (g_kind g, g_value g)) original"
    using apply_delta_approved [OF e] e by (simp_all add: compute_delta_Inr)
next
  assume a: "weakens_or_equals original approved \<and>
    map (\<lambda>g. (g_kind g, g_value g)) approved = map (\<lambda>g. (g_kind g, g_value g)) original"
  have "\<exists>p. GuaranteeSet_find approved (g_kind b) = Some p \<and> g_value p = g_value b"
    if "b \<in> set original" for b
  proof -
    have "(g_kind b, g_value b) \<in> set (map (\<lambda>g. (g_kind g, g_value g)) approved)"
      using a that by force
    then obtain p where "p \<in> set approved" "g_kind p = g_kind b" "g_value p = g_value b"
      by auto
    then show ?thesis
      using weakens_invar [of original approved] a by (auto simp: guarantee_set.lookup_eq_Some)
  qed
  then have "concession_of approved b = None \<and> withdrawal_of approved reason b = None"
    if "b \<in> set original" for b
    using that by (fastforce simp: concession_of_def withdrawal_of_def)
  then have "set (List.map_filter (concession_of approved) original) = {} \<and>
      set (List.map_filter (withdrawal_of approved reason) original) = {}"
    by (auto simp: map_filter_set)
  then show "compute_delta original approved reason = Inr empty_delta"
    using a by (simp add: compute_delta_Inr empty_delta_def)
next
  show "compute_delta [mk_guarantee GK_Bandwidth 9 True] [mk_guarantee GK_Bandwidth 9 False] reason =
     Inr empty_delta"
    by (simp add: compute_delta_def classify_weakening_def set_invar_def Guarantee_valid_def
        mk_guarantee_def kMaxBandwidthKbps_def GuaranteeSet_find_def)
qed

section \<open>Envelopes: what is permitted\<close>

definition env_invar :: "GuaranteeEnvelope \<Rightarrow> bool" where
  "env_invar e \<longleftrightarrow> list_all bound_in_domain (ge_bounds e) \<and> key_sorted cb_kind (ge_bounds e)"

lemma envelope_validate_from_ok:
  "envelope_validate_from prev bs = EC_Ok \<longleftrightarrow>
   list_all bound_in_domain bs \<and> key_sorted cb_kind bs \<and>
   (\<forall>p b. prev = Some p \<longrightarrow> b \<in> set bs \<longrightarrow> p < cb_kind b)"
proof (induction bs arbitrary: prev)
  case (Cons b bs)
  then show ?case
    by (cases prev) (auto simp: status_simps simp flip: less_GuaranteeKind_def not_le
        less_eq_GuaranteeKind_def)
qed simp

lemma envelope_validate_ok_iff [simp]: "GuaranteeEnvelope_validate e = EC_Ok \<longleftrightarrow> env_invar e"
  by (auto simp: GuaranteeEnvelope_validate_def envelope_validate_from_ok env_invar_def)

interpretation envelope: keyed_container cb_kind ge_bounds GuaranteeEnvelope_find env_invar
  by unfold_locales (simp_all add: GuaranteeEnvelope_find_def env_invar_def)

lemma envelope_insert_invar:
  "env_invar e \<Longrightarrow> GuaranteeEnvelope_insert b e = Inr e' \<Longrightarrow>
   env_invar e' \<and> ge_bounds e' = key_upsert cb_kind b (ge_bounds e)"
  using key_upsert_set [of cb_kind "ge_bounds e" b] key_sorted_upsert [of cb_kind "ge_bounds e" b]
  by (auto simp: GuaranteeEnvelope_insert_def env_invar_def list_all_iff
      dest!: key_insert_upsert split: if_splits option.splits)

interpretation envelope_insert: keyed_insert cb_kind ge_bounds GuaranteeEnvelope_find env_invar
  "\<lambda>b e. opt_of_result (GuaranteeEnvelope_insert b e)"
proof unfold_locales
  fix s t :: GuaranteeEnvelope and x :: ConcessionBound
  assume inv: "env_invar s" and "opt_of_result (GuaranteeEnvelope_insert x s) = Some t"
  then have t: "GuaranteeEnvelope_insert x s = Inr t"
    by simp
  from envelope_insert_invar [OF inv t] show "env_invar t"
    by simp
  from envelope_insert_invar [OF inv t] inv
  show "GuaranteeEnvelope_find t k =
      (if k = cb_kind x then Some x else GuaranteeEnvelope_find s k)" for k
    by (simp add: GuaranteeEnvelope_find_def key_find_upsert env_invar_def)
qed

lemma GuaranteeKind_UNIV: "(UNIV :: GuaranteeKind set) = set GuaranteeKind_all"
proof -
  have "k \<in> set GuaranteeKind_all" for k
    by (cases k) (simp_all add: GuaranteeKind_all_def)
  then show ?thesis
    by auto
qed

lemma card_GuaranteeKind: "card (UNIV :: GuaranteeKind set) = 6"
  by (simp add: GuaranteeKind_UNIV GuaranteeKind_all_def)

lemma finite_GuaranteeKind: "finite (UNIV :: GuaranteeKind set)"
  by (simp add: GuaranteeKind_UNIV)

lemma set_invar_length:
  assumes "set_invar s"
  shows "length s \<le> 6"
proof -
  have "length s = card (g_kind ` set s)"
    using key_sorted_distinct [OF set_invar_sorted [OF assms]] by (metis distinct_card length_map set_map)
  also have "\<dots> \<le> 6"
    using card_mono [OF finite_GuaranteeKind, of "g_kind ` set s"] by (simp add: card_GuaranteeKind)
  finally show ?thesis .
qed

text \<open>The specification of \<open>permits\<close>: which bases changed, and the bound a change must respect.\<close>

definition changed :: "guarantee_set \<Rightarrow> guarantee \<Rightarrow> bool" where
  "changed approved base \<longleftrightarrow>
     (\<exists>p. GuaranteeSet_find approved (g_kind base) = Some p \<and> g_value p \<noteq> g_value base)"

definition within_floor :: "GuaranteeEnvelope \<Rightarrow> guarantee \<Rightarrow> u64 \<Rightarrow> bool" where
  "within_floor e base v \<longleftrightarrow>
     (if g_comparator base = CM_AtLeast then floor_for e (g_kind base) (g_value base) \<le> v
      else v \<le> floor_for e (g_kind base) (g_value base))"

lemma permits_items_iff:
  "unat n + length bs < 2 ^ 32 \<Longrightarrow>
   permits_items e approved n bs \<longleftrightarrow>
   (\<forall>b \<in> set bs. \<exists>p. GuaranteeSet_find approved (g_kind b) = Some p \<and>
      (g_value p \<noteq> g_value b \<longrightarrow> within_floor e b (g_value p))) \<and>
   (filter (changed approved) bs = [] \<or>
    unat n + length (filter (changed approved) bs) \<le> unat (ge_max_concessions e))"
proof (induction bs arbitrary: n)
  case (Cons b bs)
  show ?case
  proof (cases "GuaranteeSet_find approved (g_kind b)")
    case None
    then show ?thesis by simp
  next
    case (Some p)
    show ?thesis
    proof (cases "g_value p = g_value b")
      case True
      then show ?thesis
        using Cons.IH [of n] Cons.prems Some by (simp add: changed_def)
    next
      case False
      have n1: "unat (n + 1) = unat n + 1"
        using Cons.prems by (intro unat_plus_one) simp
      have step: "permits_items e approved n (b # bs) \<longleftrightarrow> unat n + 1 \<le> unat (ge_max_concessions e) \<and>
          within_floor e b (g_value p) \<and> permits_items e approved (n + 1) bs"
        using Some False n1 by (auto simp: within_floor_def Let_def word_less_nat_alt word_le_nat_alt not_less)
      have "filter (changed approved) (b # bs) = b # filter (changed approved) bs"
        using Some False by (simp add: changed_def)
      moreover have "unat (n + 1) + length bs < 2 ^ 32"
        using Cons.prems n1 by simp
      ultimately show ?thesis
        using Cons.IH [of "n + 1"] Some False n1 unfolding step by fastforce
    qed
  qed
qed simp

text \<open>
  What an envelope permits, exactly: with a zero budget only the original itself; otherwise a
  set with the same kinds as the original, in which at most \<open>max_concessions\<close> values differ and
  every changed value respects the envelope's bound for its kind (the original value itself where
  the envelope has no bound). In particular a withdrawal is never permitted.
\<close>

theorem permits_exact:
  assumes "GuaranteeSet_validate original = EC_Ok" and "GuaranteeSet_validate approved = EC_Ok"
  shows "permits e original approved \<longleftrightarrow>
    (if ge_max_concessions e = 0 then approved = original
     else kinds approved = kinds original \<and>
       length (filter (changed approved) original) \<le> unat (ge_max_concessions e) \<and>
       (\<forall>base p. base \<in> set original \<longrightarrow> GuaranteeSet_find approved (g_kind base) = Some p \<longrightarrow>
          g_value p \<noteq> g_value base \<longrightarrow> within_floor e base (g_value p)))"
proof (cases "ge_max_concessions e = 0")
  case False
  have inv: "set_invar original" "set_invar approved"
    using assms by simp_all
  have sub: "(\<forall>b \<in> set x. GuaranteeSet_find y (g_kind b) \<noteq> None) \<longleftrightarrow> kinds x \<subseteq> kinds y"
    if "set_invar y" for x y
  proof -
    have "GuaranteeSet_find y k \<noteq> None \<longleftrightarrow> k \<in> kinds y" for k
      unfolding kinds_def guarantee_set.lookup_eq_None [OF that] by auto
    then show ?thesis
      by (auto simp: kinds_def)
  qed
  have "permits_items e approved 0 original \<longleftrightarrow>
      (\<forall>b \<in> set original. GuaranteeSet_find approved (g_kind b) \<noteq> None) \<and>
      (\<forall>b p. b \<in> set original \<longrightarrow> GuaranteeSet_find approved (g_kind b) = Some p \<longrightarrow>
        g_value p \<noteq> g_value b \<longrightarrow> within_floor e b (g_value p)) \<and>
      length (filter (changed approved) original) \<le> unat (ge_max_concessions e)"
    using set_invar_length [OF inv(1)] permits_items_iff [of 0 original e approved] by fastforce
  then show ?thesis
    using False sub [OF inv(1), of approved] sub [OF inv(2), of original]
    by (auto simp: permits_def list_all_iff)
qed (simp add: permits_def)

theorem permits_exact_witness:
  "permits \<lparr>ge_bounds = [\<lparr>cb_kind = GK_Bandwidth, cb_weakest_allowed_value = 4\<rparr>], ge_max_concessions = 1\<rparr>
     [mk_guarantee GK_Bandwidth 9 True] [mk_guarantee GK_Bandwidth 4 True] \<and>
   kinds [mk_guarantee GK_Bandwidth 9 True] = kinds [mk_guarantee GK_Bandwidth 4 True]"
proof -
  let ?e = "\<lparr>ge_bounds = [\<lparr>cb_kind = GK_Bandwidth, cb_weakest_allowed_value = 4\<rparr>], ge_max_concessions = 1\<rparr>"
  have v: "GuaranteeSet_validate [mk_guarantee GK_Bandwidth 9 True] = EC_Ok"
    "GuaranteeSet_validate [mk_guarantee GK_Bandwidth 4 True] = EC_Ok"
    "permits ?e [mk_guarantee GK_Bandwidth 9 True] [mk_guarantee GK_Bandwidth 4 True]"
    by code_simp+
  then show ?thesis
    using permits_exact [OF v(1,2), of ?e] by simp
qed

text \<open>Replacing an envelope bound.\<close>

lemma update_first_bound_kinds [simp]: "map cb_kind (update_first_bound b bs) = map cb_kind bs"
  by (induction bs) auto

lemma key_find_update_first:
  "key_sorted cb_kind bs \<Longrightarrow>
   key_find cb_kind k (update_first_bound b bs) =
     (if k = cb_kind b then map_option (\<lambda>x. x\<lparr>cb_weakest_allowed_value :=
        merge_bound (cb_kind b) (cb_weakest_allowed_value x) (cb_weakest_allowed_value b)\<rparr>)
        (key_find cb_kind k bs)
      else key_find cb_kind k bs)"
  by (induction bs) auto

lemma merge_bound_looser:
  "merge_bound k a b = (if comparator_for k = CM_AtLeast then min a b else max a b)"
  by (simp add: merge_bound_def)

text \<open>\<open>bound_accepts k w v\<close>: a bound of \<open>w\<close> on kind \<open>k\<close> admits the value \<open>v\<close>.\<close>

definition bound_accepts :: "GuaranteeKind \<Rightarrow> u64 \<Rightarrow> u64 \<Rightarrow> bool" where
  "bound_accepts k w v \<longleftrightarrow> (if comparator_for k = CM_AtLeast then w \<le> v else v \<le> w)"

lemma merge_bound_accepts:
  "bound_accepts k (merge_bound k a b) v \<longleftrightarrow> bound_accepts k a v \<or> bound_accepts k b v"
  by (simp add: bound_accepts_def merge_bound_def min_le_iff_disj le_max_iff_disj)

text \<open>
  Inserting into an envelope a bound for a kind that already has one keeps the looser of the
  two: afterwards the envelope admits a value of that kind whenever the old bound or the new one
  admits it. The comments on \<open>GuaranteeEnvelope::upsert\<close> say the stricter bound is kept.
\<close>

theorem envelope_upsert_keeps_looser:
  assumes "env_invar e" and "GuaranteeEnvelope_find e (cb_kind b) = Some old"
    and "GuaranteeEnvelope_upsert b e = Inr e'"
  shows "\<exists>new. GuaranteeEnvelope_find e' (cb_kind b) = Some new \<and>
    (\<forall>v. bound_accepts (cb_kind b) (cb_weakest_allowed_value new) v \<longleftrightarrow>
       bound_accepts (cb_kind b) (cb_weakest_allowed_value old) v \<or>
       bound_accepts (cb_kind b) (cb_weakest_allowed_value b) v)"
proof -
  have "old \<in> set (ge_bounds e)" and "cb_kind old = cb_kind b"
    using assms(1,2) by (auto simp: envelope.lookup_eq_Some)
  then have "find_ptr (\<lambda>x. cb_kind x = cb_kind b) (ge_bounds e) \<noteq> None"
    by (auto simp: find_None_iff)
  then have "ge_bounds e' = update_first_bound b (ge_bounds e)"
    using assms(3) by (auto simp: GuaranteeEnvelope_upsert_def split: if_splits)
  then show ?thesis
    using assms(1,2) by (simp add: GuaranteeEnvelope_find_def key_find_update_first env_invar_def
        merge_bound_accepts)
qed

theorem envelope_upsert_keeps_looser_witness:
  "floor_for (projr (GuaranteeEnvelope_upsert \<lparr>cb_kind = GK_Bandwidth, cb_weakest_allowed_value = 2\<rparr>
     \<lparr>ge_bounds = [\<lparr>cb_kind = GK_Bandwidth, cb_weakest_allowed_value = 8\<rparr>], ge_max_concessions = 1\<rparr>))
     GK_Bandwidth 9 \<le> 2"
proof -
  let ?b = "\<lparr>cb_kind = GK_Bandwidth, cb_weakest_allowed_value = 2\<rparr>"
  let ?e = "\<lparr>ge_bounds = [\<lparr>cb_kind = GK_Bandwidth, cb_weakest_allowed_value = 8\<rparr>], ge_max_concessions = 1\<rparr>"
  have "env_invar ?e"
    and "GuaranteeEnvelope_find ?e (cb_kind ?b) = Some \<lparr>cb_kind = GK_Bandwidth, cb_weakest_allowed_value = 8\<rparr>"
    and r: "GuaranteeEnvelope_upsert ?b ?e = Inr
      \<lparr>ge_bounds = [\<lparr>cb_kind = GK_Bandwidth, cb_weakest_allowed_value = 2\<rparr>], ge_max_concessions = 1\<rparr>"
    by code_simp+
  from envelope_upsert_keeps_looser [OF this] show ?thesis
    unfolding r floor_for_def by (auto simp: bound_accepts_def split: option.splits)
qed

text \<open>What a validated envelope promises about its bounds.\<close>

lemma bounds_against_ok:
  "bounds_against original bs = EC_Ok \<longleftrightarrow>
   (\<forall>b \<in> set bs. \<exists>base. GuaranteeSet_find original (cb_kind b) = Some base \<and>
      (if g_comparator base = CM_AtLeast then cb_weakest_allowed_value b \<le> g_value base
       else g_value base \<le> cb_weakest_allowed_value b))"
  by (induction bs) (auto simp: not_less split: option.splits)

lemma validate_envelope_against_ok:
  "validate_envelope_against e original = EC_Ok \<longleftrightarrow>
   env_invar e \<and> set_invar original \<and> bounds_against original (ge_bounds e) = EC_Ok \<and>
   \<not> ge_max_concessions e > of_nat (length original)"
  by (simp add: validate_envelope_against_def status_simps)

lemma floor_for_weaker:
  assumes "validate_envelope_against e original = EC_Ok"
    and "GuaranteeSet_find original k = Some base"
  shows "if comparator_for k = CM_AtLeast then floor_for e k (g_value base) \<le> g_value base
    else g_value base \<le> floor_for e k (g_value base)"
proof (cases "GuaranteeEnvelope_find e k")
  case None
  then show ?thesis by (simp add: floor_for_def)
next
  case (Some b)
  have inv: "env_invar e" "set_invar original" "bounds_against original (ge_bounds e) = EC_Ok"
    using assms(1) by (simp_all add: validate_envelope_against_ok)
  then have "b \<in> set (ge_bounds e)" and "cb_kind b = k"
    using Some by (simp_all add: envelope.lookup_eq_Some)
  moreover have "g_comparator base = comparator_for k"
    using inv(2) assms(2) set_invar_comparator by (auto simp: guarantee_set.lookup_eq_Some)
  ultimately show ?thesis
    using inv(3) assms(2) Some by (auto simp: bounds_against_ok floor_for_def)
qed

end
