(* ===== verification/Contract.thy ===== *)
theory Contract
  imports Guarantee
begin

text \<open>
  Registered service obligations: \<open>include/dmf/contract.hpp\<close> and \<open>src/domain/contract.cpp\<close>.
  Identities and generations are the 64-bit values of \<open>StrongUInt\<close>; zero is unset.
\<close>

definition kMaxServicePriority :: u32 where "kMaxServicePriority = 1000000"

record ServiceContract =
  sc_id :: u64
  sc_generation :: u64
  sc_scope :: u64
  sc_subject :: u64
  sc_subject_generation :: u64
  sc_service_class :: ServiceClass
  sc_non_degradable :: bool
  sc_priority :: u32
  sc_original :: guarantee_set
  sc_envelope :: GuaranteeEnvelope
  sc_registered_tick :: tick
  sc_active :: bool

definition protected_obligation :: "ServiceContract \<Rightarrow> bool" where
  "protected_obligation c \<longleftrightarrow> sc_non_degradable c \<or> sc_service_class c = SC_Protected"

definition frozen :: "ServiceContract \<Rightarrow> bool" where
  "frozen c \<longleftrightarrow> ge_max_concessions (sc_envelope c) = 0"

definition bandwidth_floor :: "ServiceContract \<Rightarrow> u64" where
  "bandwidth_floor c =
     (case GuaranteeSet_value_of (sc_original c) GK_Bandwidth of
        None \<Rightarrow> 0
      | Some demand \<Rightarrow> floor_for (sc_envelope c) GK_Bandwidth demand)"

definition bandwidth_demand :: "ServiceContract \<Rightarrow> u64" where
  "bandwidth_demand c =
     (case GuaranteeSet_value_of (sc_original c) GK_Bandwidth of None \<Rightarrow> 0 | Some demand \<Rightarrow> demand)"

definition ServiceContract_validate :: "ServiceContract \<Rightarrow> status" where
  "ServiceContract_validate c =
     require (valid_id (sc_id c)) EC_InvalidArgument
    (require (valid_id (sc_generation c)) EC_InvalidArgument
    (require (valid_id (sc_scope c)) EC_InvalidArgument
    (require (valid_id (sc_subject c)) EC_InvalidArgument
    (require (valid_id (sc_subject_generation c)) EC_InvalidArgument
    (require (\<not> sc_priority c > kMaxServicePriority) EC_InvalidArgument
    (require (sc_original c \<noteq> []) EC_InvalidArgument
    (and_then (GuaranteeSet_validate (sc_original c))
    (and_then (validate_envelope_against (sc_envelope c) (sc_original c))
    (require (\<not> (protected_obligation c \<and> \<not> frozen c)) EC_Invalid
    (require (\<not> (protected_obligation c \<and> sc_service_class c \<noteq> SC_Protected \<and>
                 \<not> sc_non_degradable c)) EC_Invalid
      EC_Ok))))))))))"

definition ServiceContract_digest :: "ServiceContract \<Rightarrow> digest64" where
  "ServiceContract_digest c =
     (update_bool (sc_active c) \<circ> update_u64 (GuaranteeEnvelope_digest (sc_envelope c)) \<circ>
      update_u64 (GuaranteeSet_digest (sc_original c)) \<circ> update_u32 (sc_priority c) \<circ>
      update_bool (sc_non_degradable c) \<circ> update_u16 (ServiceClass_code (sc_service_class c)) \<circ>
      update_u64 (sc_subject_generation c) \<circ> update_u64 (sc_subject c) \<circ> update_u64 (sc_scope c) \<circ>
      update_u64 (sc_generation c) \<circ> update_u64 (sc_id c)) kFnvOffset"

definition contract_allocation_precedes :: "ServiceContract \<Rightarrow> ServiceContract \<Rightarrow> bool" where
  "contract_allocation_precedes a b \<longleftrightarrow>
     (let ra = class_rank (sc_service_class a); rb = class_rank (sc_service_class b)
      in if ra \<noteq> rb then ra < rb
         else if sc_priority a \<noteq> sc_priority b then sc_priority a > sc_priority b
         else sc_id a < sc_id b)"

section \<open>What validation guarantees\<close>

lemma contract_ok_iff:
  "ServiceContract_validate c = EC_Ok \<longleftrightarrow>
   valid_id (sc_id c) \<and> valid_id (sc_generation c) \<and> valid_id (sc_scope c) \<and>
   valid_id (sc_subject c) \<and> valid_id (sc_subject_generation c) \<and>
   sc_priority c \<le> kMaxServicePriority \<and> sc_original c \<noteq> [] \<and>
   validate_envelope_against (sc_envelope c) (sc_original c) = EC_Ok \<and>
   (protected_obligation c \<longrightarrow> frozen c)"
  by (auto simp: ServiceContract_validate_def status_simps not_less protected_obligation_def
      validate_envelope_against_ok)

lemma contract_ok_invar: "ServiceContract_validate c = EC_Ok \<Longrightarrow> set_invar (sc_original c)"
  by (simp add: contract_ok_iff validate_envelope_against_ok)

lemma contract_ok_envelope:
  "ServiceContract_validate c = EC_Ok \<Longrightarrow> validate_envelope_against (sc_envelope c) (sc_original c) = EC_Ok"
  by (simp add: contract_ok_iff)

lemma bandwidth_floor_le_demand:
  assumes "ServiceContract_validate c = EC_Ok"
  shows "bandwidth_floor c \<le> bandwidth_demand c"
proof (cases "GuaranteeSet_find (sc_original c) GK_Bandwidth")
  case (Some g)
  with floor_for_weaker [OF contract_ok_envelope [OF assms] Some] show ?thesis
    by (simp add: bandwidth_floor_def bandwidth_demand_def GuaranteeSet_value_of_def)
qed (simp add: bandwidth_floor_def bandwidth_demand_def GuaranteeSet_value_of_def)

lemma bandwidth_demand_le:
  assumes "set_invar (sc_original c)"
  shows "bandwidth_demand c \<le> kMaxBandwidthKbps"
proof (cases "GuaranteeSet_find (sc_original c) GK_Bandwidth")
  case (Some g)
  then have "g \<in> set (sc_original c)" and "g_kind g = GK_Bandwidth"
    using assms by (simp_all add: guarantee_set.lookup_eq_Some)
  then show ?thesis
    using set_invar_valid [OF assms, of g] Some
    by (simp add: Guarantee_valid_def bandwidth_demand_def GuaranteeSet_value_of_def)
qed (simp add: bandwidth_demand_def GuaranteeSet_value_of_def)

lemma floor_within_original:
  assumes "validate_envelope_against e original = EC_Ok"
    and "permits e original approved" and "set_invar approved"
    and "GuaranteeSet_find original k = Some base" and "GuaranteeSet_find approved k = Some p"
    and "ge_max_concessions e \<noteq> 0"
  shows "within_floor e base (g_value p)"
proof -
  have inv: "set_invar original"
    using assms(1) by (simp add: validate_envelope_against_ok)
  then have base: "base \<in> set original" "g_kind base = k"
    using assms(4) by (simp_all add: guarantee_set.lookup_eq_Some)
  show ?thesis
  proof (cases "g_value p = g_value base")
    case True
    have "g_comparator base = comparator_for k"
      using set_invar_comparator [OF inv base(1)] base(2) by simp
    then show ?thesis
      using floor_for_weaker [OF assms(1,4)] True base by (simp add: within_floor_def)
  next
    case False
    have "length original \<le> 6"
      using inv by (rule set_invar_length)
    moreover have "permits_items e approved 0 original"
      using assms(2,6) by (simp add: permits_def)
    ultimately show ?thesis
      using permits_items_iff [of 0 original e approved] base assms(5) False by fastforce
  qed
qed

text \<open>
  A contract that passes validation is well formed: its guarantees are canonical, its bandwidth
  floor never exceeds its demand, and a protected obligation (a protected class or an explicit
  non-degradable marker) can be served under its own envelope only with exactly its original
  guarantees.
\<close>

theorem valid_contract_protection:
  assumes "ServiceContract_validate c = EC_Ok"
  shows "GuaranteeSet_validate (sc_original c) = EC_Ok \<and> bandwidth_floor c \<le> bandwidth_demand c \<and>
    (protected_obligation c \<longrightarrow> (\<forall>a. permits (sc_envelope c) (sc_original c) a \<longleftrightarrow> a = sc_original c))"
  using assms contract_ok_invar [OF assms] bandwidth_floor_le_demand [OF assms]
  by (simp add: contract_ok_iff frozen_def permits_def)

definition sample_contract :: ServiceContract where
  "sample_contract = \<lparr>sc_id = 1, sc_generation = 1, sc_scope = 1, sc_subject = 1,
     sc_subject_generation = 1, sc_service_class = SC_Protected, sc_non_degradable = False,
     sc_priority = 5, sc_original = [mk_guarantee GK_Bandwidth 9 True],
     sc_envelope = empty_envelope, sc_registered_tick = 0, sc_active = True\<rparr>"

theorem valid_contract_protection_witness:
  "bandwidth_floor sample_contract \<le> bandwidth_demand sample_contract \<and>
   \<not> permits (sc_envelope sample_contract) (sc_original sample_contract) []"
proof -
  have ok: "ServiceContract_validate sample_contract = EC_Ok"
    by code_simp
  have "protected_obligation sample_contract" and "sc_original sample_contract \<noteq> []"
    by code_simp+
  then show ?thesis
    using valid_contract_protection [OF ok] by auto
qed

section \<open>The allocation order\<close>

lemma class_rank_inj: "class_rank a = class_rank b \<longleftrightarrow> a = b"
  by (cases a; cases b) simp_all

interpretation contract_order: strict_weak_order contract_allocation_precedes
  by unfold_locales (auto simp: contract_allocation_precedes_def Let_def split: if_splits)

lemma contract_order_total:
  "sc_id a \<noteq> sc_id b \<Longrightarrow> contract_allocation_precedes a b \<or> contract_allocation_precedes b a"
  by (auto simp: contract_allocation_precedes_def Let_def)

end
