(* ===== verification/Evidence.thy ===== *)
theory Evidence
  imports Contract "HOL-Library.Product_Lexorder"
begin

text \<open>
  Evidence and observed capability: \<open>include/dmf/evidence.hpp\<close> and \<open>src/domain/evidence.cpp\<close>.

  The loops of the source are recursions over the item vector carrying the loop's local variables.
  The theory proves that a capability is \<open>Known\<close> only when every evidence group is present, Known,
  agreeing and fresh, that normalisation does not depend on arrival order, and that the support
  classification is the delivery relation of the guarantee algebra.
\<close>

section \<open>Vocabulary\<close>

datatype EvidenceKind =
    EK_FabricTopology
  | EK_AggregateBandwidth
  | EK_RoundTripLatency
  | EK_PathDiversity
  | EK_Reachability
  | EK_NodeCoverage
  | EK_SynchronousDurability

primrec EvidenceKind_code :: "EvidenceKind \<Rightarrow> u16" where
  "EvidenceKind_code EK_FabricTopology = 1"
| "EvidenceKind_code EK_AggregateBandwidth = 2"
| "EvidenceKind_code EK_RoundTripLatency = 3"
| "EvidenceKind_code EK_PathDiversity = 4"
| "EvidenceKind_code EK_Reachability = 5"
| "EvidenceKind_code EK_NodeCoverage = 6"
| "EvidenceKind_code EK_SynchronousDurability = 7"

definition EvidenceKind_all :: "EvidenceKind list" where
  "EvidenceKind_all =
     [EK_FabricTopology, EK_AggregateBandwidth, EK_RoundTripLatency, EK_PathDiversity,
      EK_Reachability, EK_NodeCoverage, EK_SynchronousDurability]"

interpretation evidencekind_wire: wire_enum EvidenceKind_code EvidenceKind_all
proof
  show "enum_decode EvidenceKind_code EvidenceKind_all (EvidenceKind_code e) = Some e" for e
    by (cases e) (simp_all add: enum_decode_def EvidenceKind_all_def)
qed

primrec evidence_max_value_for :: "EvidenceKind \<Rightarrow> u64" where
  "evidence_max_value_for EK_FabricTopology = 4"
| "evidence_max_value_for EK_AggregateBandwidth = kMaxBandwidthKbps"
| "evidence_max_value_for EK_RoundTripLatency = kMaxLatencyUs"
| "evidence_max_value_for EK_PathDiversity = kMaxPathDiversity"
| "evidence_max_value_for EK_Reachability = kPpmScale"
| "evidence_max_value_for EK_NodeCoverage = kPpmScale"
| "evidence_max_value_for EK_SynchronousDurability = 1"

datatype FabricTopologyClass =
    FT_FullMesh
  | FT_PartialMesh
  | FT_Partitioned
  | FT_Isolated

primrec FabricTopologyClass_code :: "FabricTopologyClass \<Rightarrow> u16" where
  "FabricTopologyClass_code FT_FullMesh = 1"
| "FabricTopologyClass_code FT_PartialMesh = 2"
| "FabricTopologyClass_code FT_Partitioned = 3"
| "FabricTopologyClass_code FT_Isolated = 4"

definition FabricTopologyClass_all :: "FabricTopologyClass list" where
  "FabricTopologyClass_all =
     [FT_FullMesh, FT_PartialMesh, FT_Partitioned, FT_Isolated]"

interpretation fabrictopologyclass_wire: wire_enum FabricTopologyClass_code FabricTopologyClass_all
proof
  show "enum_decode FabricTopologyClass_code FabricTopologyClass_all (FabricTopologyClass_code e) = Some e" for e
    by (cases e) (simp_all add: enum_decode_def FabricTopologyClass_all_def)
qed

datatype EvidenceState =
    ES_Known
  | ES_Unknown
  | ES_Stale
  | ES_Conflict
  | ES_Invalid
  | ES_Unsupported

primrec EvidenceState_code :: "EvidenceState \<Rightarrow> u16" where
  "EvidenceState_code ES_Known = 1"
| "EvidenceState_code ES_Unknown = 2"
| "EvidenceState_code ES_Stale = 3"
| "EvidenceState_code ES_Conflict = 4"
| "EvidenceState_code ES_Invalid = 5"
| "EvidenceState_code ES_Unsupported = 6"

definition EvidenceState_all :: "EvidenceState list" where
  "EvidenceState_all =
     [ES_Known, ES_Unknown, ES_Stale, ES_Conflict,
      ES_Invalid, ES_Unsupported]"

interpretation evidencestate_wire: wire_enum EvidenceState_code EvidenceState_all
proof
  show "enum_decode EvidenceState_code EvidenceState_all (EvidenceState_code e) = Some e" for e
    by (cases e) (simp_all add: enum_decode_def EvidenceState_all_def)
qed

primrec evidence_severity :: "EvidenceState \<Rightarrow> u8" where
  "evidence_severity ES_Known = 0"
| "evidence_severity ES_Stale = 1"
| "evidence_severity ES_Unknown = 2"
| "evidence_severity ES_Unsupported = 3"
| "evidence_severity ES_Conflict = 4"
| "evidence_severity ES_Invalid = 5"

definition evidence_is_authoritative :: "EvidenceState \<Rightarrow> bool" where
  "evidence_is_authoritative v \<longleftrightarrow> v = ES_Known"

section \<open>Freshness\<close>

record FreshnessWindow =
  fw_now :: tick
  fw_budget_ticks :: u64
  fw_enforced :: bool

definition FreshnessWindow_fresh :: "FreshnessWindow \<Rightarrow> tick \<Rightarrow> bool" where
  "FreshnessWindow_fresh w observed \<longleftrightarrow>
     (if \<not> fw_enforced w then True
      else if observed > fw_now w then False
      else case checked_sub (fw_now w) observed of
             None \<Rightarrow> False
           | Some age \<Rightarrow> age \<le> fw_budget_ticks w)"

section \<open>Evidence items and vectors\<close>

record EvidenceItem =
  ei_id :: u64
  ei_publisher :: u64
  ei_publisher_boot :: u64
  ei_generation :: u64
  ei_kind :: EvidenceKind
  ei_scope :: u64
  ei_state :: EvidenceState
  ei_value :: u64
  ei_observed_tick :: tick
  ei_origin :: OriginClass

definition EvidenceItem_validate :: "EvidenceItem \<Rightarrow> status" where
  "EvidenceItem_validate i =
     require (valid_id (ei_publisher i)) EC_InvalidArgument
    (require (valid_id (ei_publisher_boot i)) EC_InvalidArgument
    (require (valid_id (ei_generation i)) EC_InvalidArgument
    (require (valid_id (ei_scope i)) EC_InvalidArgument
    (require (\<not> ei_value i > evidence_max_value_for (ei_kind i)) EC_OutOfRange
      EC_Ok))))"

definition EvidenceItem_identified :: "EvidenceItem \<Rightarrow> bool" where
  "EvidenceItem_identified i \<longleftrightarrow> valid_id (ei_id i) \<and> status_ok (EvidenceItem_validate i)"

record EvidenceVector =
  ev_items :: "EvidenceItem list"
  ev_limit :: nat

definition new_evidence_vector :: "nat \<Rightarrow> EvidenceVector" where
  "new_evidence_vector limit = \<lparr>ev_items = [], ev_limit = limit\<rparr>"

definition EvidenceVector_push :: "EvidenceItem \<Rightarrow> EvidenceVector \<Rightarrow> EvidenceVector result" where
  "EvidenceVector_push i v =
     (if \<not> EvidenceItem_identified i then Inl EC_InvalidArgument
      else if \<not> status_ok (EvidenceItem_validate i) then Inl (EvidenceItem_validate i)
      else if length (ev_items v) \<ge> ev_limit v then Inl EC_CapacityExceeded
      else Inr (v\<lparr>ev_items := ev_items v @ [i]\<rparr>))"

definition evidence_item_less :: "EvidenceItem \<Rightarrow> EvidenceItem \<Rightarrow> bool" where
  "evidence_item_less a b \<longleftrightarrow>
     (if ei_scope a \<noteq> ei_scope b then ei_scope a < ei_scope b
      else if ei_kind a \<noteq> ei_kind b then EvidenceKind_code (ei_kind a) < EvidenceKind_code (ei_kind b)
      else if ei_publisher a \<noteq> ei_publisher b then ei_publisher a < ei_publisher b
      else if ei_generation a \<noteq> ei_generation b then ei_generation b < ei_generation a
      else if ei_publisher_boot a \<noteq> ei_publisher_boot b then ei_publisher_boot b < ei_publisher_boot a
      else ei_id a < ei_id b)"

definition same_source :: "EvidenceItem \<Rightarrow> EvidenceItem \<Rightarrow> bool" where
  "same_source a b \<longleftrightarrow>
     ei_scope a = ei_scope b \<and> ei_kind a = ei_kind b \<and> ei_publisher a = ei_publisher b"

text \<open>The superseding loop; \<open>kept\<close> is the vector being built, in order.\<close>

fun supersede :: "EvidenceItem list \<Rightarrow> EvidenceItem list \<Rightarrow> EvidenceItem list result" where
  "supersede kept [] = Inr kept"
| "supersede kept (i # is) =
     (if \<not> status_ok (EvidenceItem_validate i) then Inl (EvidenceItem_validate i)
      else if \<not> EvidenceItem_identified i then Inl EC_InvalidArgument
      else if kept \<noteq> [] \<and> same_source (last kept) i then supersede kept is
      else supersede (kept @ [i]) is)"

definition EvidenceVector_normalize :: "EvidenceVector \<Rightarrow> EvidenceVector result" where
  "EvidenceVector_normalize v =
     (case supersede [] (sort_by evidence_item_less (ev_items v)) of
        Inl e \<Rightarrow> Inl e
      | Inr kept \<Rightarrow> Inr (v\<lparr>ev_items := kept\<rparr>))"

fun evidence_validate_from :: "EvidenceItem option \<Rightarrow> EvidenceItem list \<Rightarrow> status" where
  "evidence_validate_from prev [] = EC_Ok"
| "evidence_validate_from prev (i # is) =
     require (EvidenceItem_identified i) EC_InvalidArgument
       (and_then (EvidenceItem_validate i)
         (require (case prev of None \<Rightarrow> True | Some p \<Rightarrow> evidence_item_less p i) EC_Invalid
           (evidence_validate_from (Some i) is)))"

definition EvidenceVector_validate :: "EvidenceVector \<Rightarrow> status" where
  "EvidenceVector_validate v =
     and_then (evidence_validate_from None (ev_items v))
       (require (\<not> length (ev_items v) > ev_limit v) EC_CapacityExceeded EC_Ok)"

definition in_group :: "u64 \<Rightarrow> EvidenceKind \<Rightarrow> EvidenceItem \<Rightarrow> bool" where
  "in_group scope kind i \<longleftrightarrow> ei_scope i = scope \<and> ei_kind i = kind"

text \<open>\<open>state_loop worst present agreed\<close>: the loop of \<open>state_for\<close> with its three locals.\<close>

fun state_loop ::
    "u64 \<Rightarrow> EvidenceKind \<Rightarrow> EvidenceState \<Rightarrow> bool \<Rightarrow> u64 option \<Rightarrow> EvidenceItem list \<Rightarrow> EvidenceState" where
  "state_loop scope kind worst present agreed [] = (if \<not> present then ES_Unknown else worst)"
| "state_loop scope kind worst present agreed (i # is) =
     (if \<not> in_group scope kind i then state_loop scope kind worst present agreed is
      else if ei_state i = ES_Known \<and> agreed \<noteq> None \<and> agreed \<noteq> Some (ei_value i)
      then state_loop scope kind ES_Conflict True agreed is
      else state_loop scope kind
        (if evidence_severity (ei_state i) > evidence_severity worst then ei_state i else worst) True
        (if ei_state i = ES_Known \<and> agreed = None then Some (ei_value i) else agreed) is)"

definition state_for :: "EvidenceVector \<Rightarrow> u64 \<Rightarrow> EvidenceKind \<Rightarrow> EvidenceState" where
  "state_for v scope kind = state_loop scope kind ES_Known False None (ev_items v)"

definition value_for :: "EvidenceVector \<Rightarrow> u64 \<Rightarrow> EvidenceKind \<Rightarrow> u64 option" where
  "value_for v scope kind =
     (if state_for v scope kind \<noteq> ES_Known then None
      else map_option ei_value
        (find_ptr (\<lambda>i. in_group scope kind i \<and> ei_state i = ES_Known) (ev_items v)))"

definition newest_tick_for :: "EvidenceVector \<Rightarrow> u64 \<Rightarrow> EvidenceKind \<Rightarrow> tick" where
  "newest_tick_for v scope kind =
     fold (\<lambda>i newest. if in_group scope kind i \<and> ei_observed_tick i > newest
                      then ei_observed_tick i else newest) (ev_items v) 0"

definition aggregate_state :: "EvidenceVector \<Rightarrow> EvidenceState" where
  "aggregate_state v =
     (if ev_items v = [] then ES_Unknown
      else fold (\<lambda>i worst. let group = state_for v (ei_scope i) (ei_kind i)
                  in if evidence_severity group > evidence_severity worst then group else worst)
             (ev_items v) ES_Known)"

definition origin_class :: "EvidenceVector \<Rightarrow> OriginClass" where
  "origin_class v =
     (let origins = map ei_origin (ev_items v)
      in if ev_items v = [] then OC_Unspecified
         else if OC_Unsupported \<in> set origins then OC_Unsupported
         else if OC_Synthetic \<in> set origins then OC_Synthetic
         else if OC_Unspecified \<in> set origins then OC_Unspecified
         else OC_Real)"

definition EvidenceVector_digest :: "EvidenceVector \<Rightarrow> digest64" where
  "EvidenceVector_digest v =
     fold (\<lambda>i.
        update_u16 (OriginClass_code (ei_origin i)) \<circ> update_u64 (ei_observed_tick i) \<circ>
        update_u64 (ei_value i) \<circ> update_u16 (EvidenceState_code (ei_state i)) \<circ>
        update_u64 (ei_scope i) \<circ> update_u16 (EvidenceKind_code (ei_kind i)) \<circ>
        update_u64 (ei_generation i) \<circ> update_u64 (ei_publisher_boot i) \<circ>
        update_u64 (ei_publisher i) \<circ> update_u64 (ei_id i)) (ev_items v)
       (update_u32 (of_nat (length (ev_items v))) kFnvOffset)"

section \<open>Capability\<close>

record CapabilitySnapshot =
  cs_scope :: u64
  cs_generation :: u64
  cs_state :: EvidenceState
  cs_topology :: FabricTopologyClass
  cs_bandwidth_kbps :: u64
  cs_rtt_p99_us :: u64
  cs_path_diversity :: u32
  cs_reachable_ppm :: u32
  cs_node_coverage_ppm :: u32
  cs_synchronous_durability :: bool
  cs_observed_tick :: tick
  cs_origin :: OriginClass

definition usable :: "CapabilitySnapshot \<Rightarrow> bool" where
  "usable c \<longleftrightarrow> cs_state c = ES_Known"

definition new_capability :: CapabilitySnapshot where
  "new_capability = \<lparr>cs_scope = 0, cs_generation = 0, cs_state = ES_Unknown, cs_topology = FT_FullMesh,
     cs_bandwidth_kbps = 0, cs_rtt_p99_us = 0, cs_path_diversity = 0, cs_reachable_ppm = 0,
     cs_node_coverage_ppm = 0, cs_synchronous_durability = False, cs_observed_tick = 0,
     cs_origin = OC_Unspecified\<rparr>"

definition CapabilitySnapshot_digest :: "CapabilitySnapshot \<Rightarrow> digest64" where
  "CapabilitySnapshot_digest c =
     (update_u16 (OriginClass_code (cs_origin c)) \<circ> update_u64 (cs_observed_tick c) \<circ>
      update_bool (cs_synchronous_durability c) \<circ> update_u32 (cs_node_coverage_ppm c) \<circ>
      update_u32 (cs_reachable_ppm c) \<circ> update_u32 (cs_path_diversity c) \<circ>
      update_u64 (cs_rtt_p99_us c) \<circ> update_u64 (cs_bandwidth_kbps c) \<circ>
      update_u16 (FabricTopologyClass_code (cs_topology c)) \<circ>
      update_u16 (EvidenceState_code (cs_state c)) \<circ> update_u64 (cs_generation c) \<circ>
      update_u64 (cs_scope c)) kFnvOffset"

text \<open>\<open>kCapabilityFields\<close>: every kind is required.\<close>

definition kCapabilityFields :: "EvidenceKind list" where
  "kCapabilityFields = [EK_FabricTopology, EK_AggregateBandwidth, EK_RoundTripLatency,
     EK_PathDiversity, EK_Reachability, EK_NodeCoverage, EK_SynchronousDurability]"

definition worse :: "EvidenceState \<Rightarrow> EvidenceState \<Rightarrow> EvidenceState" where
  "worse state worst = (if evidence_severity state > evidence_severity worst then state else worst)"

text \<open>The assignment of one value to its field; \<open>None\<close>: the topology value is no topology class.\<close>

definition set_capability :: "EvidenceKind \<Rightarrow> u64 \<Rightarrow> CapabilitySnapshot \<Rightarrow> CapabilitySnapshot option" where
  "set_capability kind value s =
     (case kind of
        EK_FabricTopology \<Rightarrow>
          map_option (\<lambda>t. s\<lparr>cs_topology := t\<rparr>)
            (enum_decode FabricTopologyClass_code FabricTopologyClass_all (ucast value))
      | EK_AggregateBandwidth \<Rightarrow> Some (s\<lparr>cs_bandwidth_kbps := value\<rparr>)
      | EK_RoundTripLatency \<Rightarrow> Some (s\<lparr>cs_rtt_p99_us := value\<rparr>)
      | EK_PathDiversity \<Rightarrow> Some (s\<lparr>cs_path_diversity := ucast value\<rparr>)
      | EK_Reachability \<Rightarrow> Some (s\<lparr>cs_reachable_ppm := ucast value\<rparr>)
      | EK_NodeCoverage \<Rightarrow> Some (s\<lparr>cs_node_coverage_ppm := ucast value\<rparr>)
      | EK_SynchronousDurability \<Rightarrow> Some (s\<lparr>cs_synchronous_durability := (value \<noteq> 0)\<rparr>))"

text \<open>The field loop of \<open>derive_capability\<close> with its locals \<open>worst\<close>, \<open>any_present\<close> and the snapshot.\<close>

fun capability_loop ::
    "EvidenceVector \<Rightarrow> u64 \<Rightarrow> FreshnessWindow \<Rightarrow> EvidenceState \<Rightarrow> bool \<Rightarrow> CapabilitySnapshot \<Rightarrow>
     EvidenceKind list \<Rightarrow> (EvidenceState \<times> bool \<times> CapabilitySnapshot) result" where
  "capability_loop v scope fw worst any_present s [] = Inr (worst, any_present, s)"
| "capability_loop v scope fw worst any_present s (k # ks) =
     (let state = state_for v scope k
      in if state \<noteq> ES_Known
         then capability_loop v scope fw (worse state worst) any_present s ks
         else let newest = newest_tick_for v scope k
              in if \<not> FreshnessWindow_fresh fw newest
                 then capability_loop v scope fw (worse ES_Stale worst) any_present s ks
                 else (case value_for v scope k of
                         None \<Rightarrow> capability_loop v scope fw (worse ES_Unknown worst) True s ks
                       | Some value \<Rightarrow>
                           (case set_capability k value s of
                              None \<Rightarrow> Inl EC_Invalid
                            | Some s' \<Rightarrow> capability_loop v scope fw worst True
                                (if newest > cs_observed_tick s'
                                 then s'\<lparr>cs_observed_tick := newest\<rparr> else s') ks)))"

definition derive_capability ::
    "EvidenceVector \<Rightarrow> u64 \<Rightarrow> u64 \<Rightarrow> FreshnessWindow \<Rightarrow> CapabilitySnapshot result" where
  "derive_capability v scope generation fw =
     (if \<not> valid_id scope \<or> \<not> valid_id generation then Inl EC_InvalidArgument
      else case capability_loop v scope fw ES_Known False
             (new_capability\<lparr>cs_scope := scope, cs_generation := generation,
                cs_origin := origin_class v\<rparr>) kCapabilityFields of
             Inl e \<Rightarrow> Inl e
           | Inr (worst, any_present, s) \<Rightarrow>
               Inr (s\<lparr>cs_state := (if \<not> any_present \<and> worst = ES_Known then ES_Unknown else worst)\<rparr>))"

definition supports :: "CapabilitySnapshot \<Rightarrow> guarantee \<Rightarrow> SupportTri" where
  "supports c g =
     (if \<not> Guarantee_valid g then ST_Invalid
      else if \<not> usable c then ST_Indeterminate
      else case g_kind g of
        GK_Availability \<Rightarrow>
          if ucast (cs_reachable_ppm c) \<ge> g_value g then ST_Supported else ST_NotSupported
      | GK_Bandwidth \<Rightarrow> if cs_bandwidth_kbps c \<ge> g_value g then ST_Supported else ST_NotSupported
      | GK_LatencyP99 \<Rightarrow> if cs_rtt_p99_us c \<le> g_value g then ST_Supported else ST_NotSupported
      | GK_PathDiversity \<Rightarrow>
          if ucast (cs_path_diversity c) \<ge> g_value g then ST_Supported else ST_NotSupported
      | GK_Durability \<Rightarrow>
          (let level = (if cs_synchronous_durability c then kMaxDurabilityLevel else 0)
           in if level \<ge> g_value g then ST_Supported else ST_NotSupported)
      | GK_Reachability \<Rightarrow>
          if ucast (cs_node_coverage_ppm c) \<ge> g_value g then ST_Supported else ST_NotSupported)"

definition shortfall_reason :: "CapabilitySnapshot \<Rightarrow> guarantee \<Rightarrow> ReasonCode" where
  "shortfall_reason c g =
     (case cs_state c of
        ES_Stale \<Rightarrow> RC_EvidenceStale
      | ES_Conflict \<Rightarrow> RC_EvidenceConflict
      | ES_Invalid \<Rightarrow> RC_EvidenceInvalid
      | ES_Unsupported \<Rightarrow> RC_EvidenceUnsupported
      | ES_Unknown \<Rightarrow> RC_EvidenceUnknown
      | ES_Known \<Rightarrow>
          if cs_topology c = FT_Partitioned \<or> cs_topology c = FT_Isolated then RC_FabricPartitioned
          else RC_FabricCapabilityShortfall)"

section \<open>Aggregation of a group\<close>

definition group :: "EvidenceVector \<Rightarrow> u64 \<Rightarrow> EvidenceKind \<Rightarrow> EvidenceItem list" where
  "group v scope kind = filter (in_group scope kind) (ev_items v)"

lemma evidence_severity_0 [simp]: "evidence_severity s = 0 \<longleftrightarrow> s = ES_Known"
  by (cases s) simp_all

lemma evidence_severity_gt_0: "evidence_severity s > 0 \<longleftrightarrow> s \<noteq> ES_Known"
  by (cases s) simp_all

lemma evidence_severity_inj: "evidence_severity s = evidence_severity t \<longleftrightarrow> s = t"
  by (cases s; cases t) simp_all

lemma severity_less: "evidence_severity s < evidence_severity t \<Longrightarrow> t \<noteq> ES_Known"
  by auto

lemma state_loop_bad: "worst \<noteq> ES_Known \<Longrightarrow> state_loop scope kind worst present agreed is \<noteq> ES_Known"
  by (induction "is" arbitrary: worst present agreed) (auto simp: evidence_severity_gt_0 dest: severity_less)

definition all_known :: "u64 \<Rightarrow> EvidenceItem list \<Rightarrow> bool" where
  "all_known a is \<longleftrightarrow> list_all (\<lambda>i. ei_state i = ES_Known \<and> ei_value i = a) is"

lemma state_loop_agreed:
  "state_loop scope kind ES_Known present (Some a) is = ES_Known \<longleftrightarrow>
   (present \<or> filter (in_group scope kind) is \<noteq> []) \<and> all_known a (filter (in_group scope kind) is)"
proof (induction "is" arbitrary: present)
  case (Cons i "is")
  then show ?case
    by (cases "in_group scope kind i"; cases "ei_state i = ES_Known"; cases "ei_value i = a")
      (simp_all add: all_known_def state_loop_bad evidence_severity_gt_0)
qed (simp add: all_known_def)

lemma state_loop_Known:
  "state_loop scope kind ES_Known False None is = ES_Known \<longleftrightarrow>
   filter (in_group scope kind) is \<noteq> [] \<and> (\<exists>a. all_known a (filter (in_group scope kind) is))"
proof (induction "is")
  case (Cons i "is")
  then show ?case
    by (cases "in_group scope kind i"; cases "ei_state i = ES_Known")
      (simp_all add: state_loop_agreed state_loop_bad evidence_severity_gt_0 all_known_def)
qed simp

lemma state_for_Known:
  "state_for v scope kind = ES_Known \<longleftrightarrow>
   group v scope kind \<noteq> [] \<and> (\<forall>i \<in> set (group v scope kind). ei_state i = ES_Known) \<and>
   (\<forall>i \<in> set (group v scope kind). \<forall>j \<in> set (group v scope kind). ei_value i = ei_value j)"
proof -
  have "(\<exists>a. all_known a xs) \<longleftrightarrow> (\<forall>i \<in> set xs. ei_state i = ES_Known) \<and>
      (\<forall>i \<in> set xs. \<forall>j \<in> set xs. ei_value i = ei_value j)" if "xs \<noteq> []" for xs
    using that by (cases xs) (auto simp: all_known_def list_all_iff)
  then show ?thesis
    by (auto simp: state_for_def state_loop_Known simp flip: group_def)
qed

lemma value_for_Some:
  assumes "value_for v scope kind = Some x"
  shows "state_for v scope kind = ES_Known \<and> (\<forall>i \<in> set (group v scope kind). ei_value i = x)"
proof -
  obtain j where j: "find_ptr (\<lambda>i. in_group scope kind i \<and> ei_state i = ES_Known) (ev_items v) = Some j"
      "x = ei_value j" and known: "state_for v scope kind = ES_Known"
    using assms by (auto simp: value_for_def split: if_splits)
  have "j \<in> set (group v scope kind)"
    using find_ptr_SomeD [OF j(1)] by (simp add: group_def)
  then show ?thesis
    using known j(2) unfolding state_for_Known by blast
qed

lemma value_for_None_iff: "value_for v scope kind = None \<longleftrightarrow> state_for v scope kind \<noteq> ES_Known"
proof -
  have "find_ptr (\<lambda>i. in_group scope kind i \<and> ei_state i = ES_Known) (ev_items v) \<noteq> None"
    if "state_for v scope kind = ES_Known"
    using that unfolding state_for_Known by (cases "group v scope kind")
      (auto simp: find_None_iff group_def filter_eq_Cons_iff)
  then show ?thesis
    by (auto simp: value_for_def)
qed

lemma newest_tick_fold:
  "fold (\<lambda>i newest. if in_group scope kind i \<and> ei_observed_tick i > newest
           then ei_observed_tick i else newest) is t =
   fold max (map ei_observed_tick (filter (in_group scope kind) is)) t"
  by (induction "is" arbitrary: t) (auto simp: max_def)

lemma newest_tick_for_eq:
  "newest_tick_for v scope kind = fold max (map ei_observed_tick (group v scope kind)) 0"
  by (simp add: newest_tick_for_def newest_tick_fold group_def)

section \<open>A known capability is backed by evidence\<close>

lemma worse_Known [simp]: "worse state worst = ES_Known \<longleftrightarrow> state = ES_Known \<and> worst = ES_Known"
  by (cases state; cases worst) (simp_all add: worse_def)

text \<open>What one field of the snapshot says about the evidence value it was derived from.\<close>

definition field_matches :: "CapabilitySnapshot \<Rightarrow> EvidenceKind \<Rightarrow> u64 \<Rightarrow> bool" where
  "field_matches s kind x \<longleftrightarrow>
     (case kind of
        EK_FabricTopology \<Rightarrow> FabricTopologyClass_code (cs_topology s) = ucast x
      | EK_AggregateBandwidth \<Rightarrow> cs_bandwidth_kbps s = x
      | EK_RoundTripLatency \<Rightarrow> cs_rtt_p99_us s = x
      | EK_PathDiversity \<Rightarrow> cs_path_diversity s = ucast x
      | EK_Reachability \<Rightarrow> cs_reachable_ppm s = ucast x
      | EK_NodeCoverage \<Rightarrow> cs_node_coverage_ppm s = ucast x
      | EK_SynchronousDurability \<Rightarrow> cs_synchronous_durability s = (x \<noteq> 0))"

definition field_backed :: "EvidenceVector \<Rightarrow> u64 \<Rightarrow> FreshnessWindow \<Rightarrow> CapabilitySnapshot \<Rightarrow> EvidenceKind \<Rightarrow> bool" where
  "field_backed v scope fw s kind \<longleftrightarrow>
     FreshnessWindow_fresh fw (newest_tick_for v scope kind) \<and>
     (\<exists>x. value_for v scope kind = Some x \<and> field_matches s kind x)"

lemma set_capability_matches:
  "set_capability k x s = Some s' \<Longrightarrow>
   field_matches s' k x \<and> (\<forall>k' y. k' \<noteq> k \<longrightarrow> field_matches s' k' y = field_matches s k' y) \<and>
   cs_scope s' = cs_scope s \<and> cs_generation s' = cs_generation s \<and> cs_origin s' = cs_origin s"
  by (auto simp: set_capability_def field_matches_def fabrictopologyclass_wire.decode_eq_Some
      split: EvidenceKind.splits)

lemma field_matches_tick [simp]:
  "field_matches (s\<lparr>cs_observed_tick := t\<rparr>) k x = field_matches s k x"
  "field_matches (s\<lparr>cs_state := st\<rparr>) k x = field_matches s k x"
  by (simp_all add: field_matches_def split: EvidenceKind.splits)

lemma field_matches_if [simp]:
  "field_matches (if b then s\<lparr>cs_observed_tick := t\<rparr> else s) k x = field_matches s k x"
  by simp

lemma capability_loop_worst:
  "capability_loop v scope fw worst p s ks = Inr (ES_Known, p', s') \<Longrightarrow> worst = ES_Known"
proof (induction ks arbitrary: worst p s)
  case (Cons k ks)
  from Cons.prems show ?case
    by (auto simp: Let_def split: if_splits option.splits dest: Cons.IH)
qed simp

lemma capability_loop_frame:
  "capability_loop v scope fw worst p s ks = Inr (worst', p', s') \<Longrightarrow>
   cs_scope s' = cs_scope s \<and> cs_generation s' = cs_generation s \<and> cs_origin s' = cs_origin s \<and>
   (\<forall>k x. k \<notin> set ks \<longrightarrow> field_matches s' k x = field_matches s k x)"
proof (induction ks arbitrary: worst p s)
  case (Cons k ks)
  then show ?case
    by (auto simp: Let_def split: if_splits option.splits dest!: Cons.IH set_capability_matches)
qed simp

lemma capability_loop_backed:
  "capability_loop v scope fw worst p s ks = Inr (ES_Known, p', s') \<Longrightarrow> distinct ks \<Longrightarrow>
   list_all (field_backed v scope fw s') ks"
proof (induction ks arbitrary: worst p s)
  case (Cons k ks)
  have known: "state_for v scope k = ES_Known"
    using Cons.prems(1) by (auto simp: Let_def split: if_splits dest: capability_loop_worst)
  have fresh: "FreshnessWindow_fresh fw (newest_tick_for v scope k)"
    using Cons.prems(1) known by (auto simp: Let_def split: if_splits dest: capability_loop_worst)
  obtain x where x: "value_for v scope k = Some x"
    using known value_for_None_iff by blast
  obtain t where t: "set_capability k x s = Some t"
    using Cons.prems(1) known fresh x by (auto simp: Let_def split: option.splits)
  define t' where "t' = (if newest_tick_for v scope k > cs_observed_tick t
      then t\<lparr>cs_observed_tick := newest_tick_for v scope k\<rparr> else t)"
  have rest: "capability_loop v scope fw worst True t' ks = Inr (ES_Known, p', s')"
    using Cons.prems(1) known fresh x t by (simp add: Let_def t'_def)
  have "field_matches s' k x"
    using capability_loop_frame [OF rest] set_capability_matches [OF t] Cons.prems(2)
    by (simp add: t'_def)
  then show ?case
    using Cons.IH [OF rest] Cons.prems(2) fresh x by (simp add: field_backed_def)
qed simp

text \<open>
  C13. Capability fails closed. A snapshot derived from evidence is \<open>Known\<close> only when for every
  evidence kind the scope has at least one observation, all of them are \<open>Known\<close> and agree on one
  value, the newest of them is inside the freshness window, and the snapshot carries exactly that
  value; it names the requested scope and capacity generation.
\<close>

theorem known_capability_is_backed:
  assumes "derive_capability v scope generation fw = Inr s" and "usable s"
  shows "cs_scope s = scope \<and> cs_generation s = generation \<and> scope \<noteq> 0 \<and> generation \<noteq> 0 \<and>
    (\<forall>kind. \<exists>x. group v scope kind \<noteq> [] \<and>
       list_all (\<lambda>i. ei_state i = ES_Known \<and> ei_value i = x) (group v scope kind) \<and>
       FreshnessWindow_fresh fw (newest_tick_for v scope kind) \<and> field_matches s kind x)"
proof -
  let ?s = "new_capability\<lparr>cs_scope := scope, cs_generation := generation, cs_origin := origin_class v\<rparr>"
  obtain p t where loop: "capability_loop v scope fw ES_Known False ?s kCapabilityFields = Inr (ES_Known, p, t)"
      and s: "s = t\<lparr>cs_state := ES_Known\<rparr>" and ids: "valid_id scope" "valid_id generation"
  proof -
    obtain w p t where loop: "capability_loop v scope fw ES_Known False ?s kCapabilityFields = Inr (w, p, t)"
      and s: "s = t\<lparr>cs_state := (if \<not> p \<and> w = ES_Known then ES_Unknown else w)\<rparr>"
      and "valid_id scope" "valid_id generation"
      using assms(1) unfolding derive_capability_def by (auto split: if_split_asm sum.split_asm)
    moreover have "w = ES_Known" and "p"
      using assms(2) s by (auto simp: usable_def split: if_split_asm)
    ultimately show ?thesis
      using that by simp
  qed
  have "field_backed v scope fw t kind" for kind
  proof -
    have "kind \<in> set kCapabilityFields"
      by (cases kind) (simp_all add: kCapabilityFields_def)
    moreover have "distinct kCapabilityFields"
      by (simp add: kCapabilityFields_def)
    ultimately show ?thesis
      using capability_loop_backed [OF loop] by (simp add: list_all_iff)
  qed
  then have "\<exists>x. value_for v scope kind = Some x \<and> field_matches s kind x \<and>
      FreshnessWindow_fresh fw (newest_tick_for v scope kind)" for kind
    by (auto simp: field_backed_def s)
  moreover have "group v scope kind \<noteq> [] \<and>
      list_all (\<lambda>i. ei_state i = ES_Known \<and> ei_value i = x) (group v scope kind)"
    if "value_for v scope kind = Some x" for kind x
    using value_for_Some [OF that] unfolding state_for_Known list_all_iff by blast
  ultimately have "\<exists>x. group v scope kind \<noteq> [] \<and>
       list_all (\<lambda>i. ei_state i = ES_Known \<and> ei_value i = x) (group v scope kind) \<and>
       FreshnessWindow_fresh fw (newest_tick_for v scope kind) \<and> field_matches s kind x" for kind
    by metis
  then show ?thesis
    using capability_loop_frame [OF loop] ids by (simp add: s valid_id_def)
qed

definition sample_item :: "u64 \<Rightarrow> EvidenceKind \<Rightarrow> u64 \<Rightarrow> EvidenceItem" where
  "sample_item i k x = \<lparr>ei_id = i, ei_publisher = 1, ei_publisher_boot = 1, ei_generation = 1,
     ei_kind = k, ei_scope = 7, ei_state = ES_Known, ei_value = x, ei_observed_tick = 10,
     ei_origin = OC_Synthetic\<rparr>"

definition sample_vector :: EvidenceVector where
  "sample_vector = \<lparr>ev_items = [sample_item 1 EK_FabricTopology 1, sample_item 2 EK_AggregateBandwidth 90,
     sample_item 3 EK_RoundTripLatency 5, sample_item 4 EK_PathDiversity 3,
     sample_item 5 EK_Reachability 1000000, sample_item 6 EK_NodeCoverage 900000,
     sample_item 7 EK_SynchronousDurability 1], ev_limit = 64\<rparr>"

definition sample_window :: FreshnessWindow where
  "sample_window = \<lparr>fw_now = 12, fw_budget_ticks = 5, fw_enforced = True\<rparr>"

definition sample_capability :: CapabilitySnapshot where
  "sample_capability = \<lparr>cs_scope = 7, cs_generation = 3, cs_state = ES_Known, cs_topology = FT_FullMesh,
     cs_bandwidth_kbps = 90, cs_rtt_p99_us = 5, cs_path_diversity = 3, cs_reachable_ppm = 1000000,
     cs_node_coverage_ppm = 900000, cs_synchronous_durability = True, cs_observed_tick = 10,
     cs_origin = OC_Synthetic\<rparr>"

lemma sample_capability_derived: "derive_capability sample_vector 7 3 sample_window = Inr sample_capability"
  by code_simp

theorem known_capability_is_backed_witness:
  "group sample_vector 7 EK_NodeCoverage \<noteq> [] \<and>
   FreshnessWindow_fresh sample_window (newest_tick_for sample_vector 7 EK_NodeCoverage)"
proof -
  have "usable sample_capability"
    by code_simp
  from known_capability_is_backed [OF sample_capability_derived this] show ?thesis
    by blast
qed

section \<open>Freshness and support\<close>

text \<open>
  An observation is fresh exactly when it is not from the future and its age, computed without
  wrap-around, is within the budget; a window that is not enforced accepts everything.
\<close>

theorem freshness_exact:
  "FreshnessWindow_fresh w t \<longleftrightarrow>
   (if fw_enforced w
    then unat t \<le> unat (fw_now w) \<and> unat (fw_now w) - unat t \<le> unat (fw_budget_ticks w) else True)"
proof (cases "t \<le> fw_now w")
  case True
  then have "checked_sub (fw_now w) t = Some (fw_now w - t)"
    by (simp add: checked_sub_def)
  moreover have "unat (fw_now w - t) = unat (fw_now w) - unat t"
    using True by (rule unat_sub)
  ultimately show ?thesis
    using True by (auto simp: FreshnessWindow_fresh_def word_le_nat_alt word_less_nat_alt)
next
  case False
  then show ?thesis
    by (auto simp: FreshnessWindow_fresh_def word_le_nat_alt word_less_nat_alt)
qed

text \<open>The service a capability delivers, in the vocabulary of the guarantee algebra.\<close>

definition delivered :: "CapabilitySnapshot \<Rightarrow> GuaranteeKind \<Rightarrow> u64" where
  "delivered c k =
     (case k of
        GK_Availability \<Rightarrow> ucast (cs_reachable_ppm c)
      | GK_Bandwidth \<Rightarrow> cs_bandwidth_kbps c
      | GK_LatencyP99 \<Rightarrow> cs_rtt_p99_us c
      | GK_PathDiversity \<Rightarrow> ucast (cs_path_diversity c)
      | GK_Durability \<Rightarrow> (if cs_synchronous_durability c then kMaxDurabilityLevel else 0)
      | GK_Reachability \<Rightarrow> ucast (cs_node_coverage_ppm c))"

lemma supports_eq:
  "supports c g =
   (if \<not> Guarantee_valid g then ST_Invalid else if \<not> usable c then ST_Indeterminate
    else if meets (delivered c) g then ST_Supported else ST_NotSupported)"
proof (cases "Guarantee_valid g")
  case True
  then have "g_comparator g = comparator_for (g_kind g)"
    by (simp add: Guarantee_valid_def)
  then show ?thesis
    by (cases "g_kind g") (simp_all add: supports_def meets_def delivered_def Let_def)
qed (simp add: supports_def)

lemma supports_Supported:
  "supports c g = ST_Supported \<longleftrightarrow> Guarantee_valid g \<and> usable c \<and> meets (delivered c) g"
  by (simp add: supports_eq)

text \<open>
  The support classification is sound and monotone: a whole canonical set is supported exactly
  when the capability is usable and the delivered service honours the set, and whatever a
  capability supports it also supports after weakening. Without usable evidence nothing is ever
  classified as supported.
\<close>

theorem support_is_delivery:
  assumes "weakens_or_equals original approved"
  shows "(list_all (\<lambda>g. supports c g = ST_Supported) original \<longleftrightarrow>
            original = [] \<or> (usable c \<and> honours (delivered c) original)) \<and>
         (list_all (\<lambda>g. supports c g = ST_Supported) original \<longrightarrow>
            list_all (\<lambda>g. supports c g = ST_Supported) approved) \<and>
         (\<not> usable c \<longrightarrow> list_all (\<lambda>g. supports c g = ST_Indeterminate) original)"
proof -
  have inv: "set_invar original" "set_invar approved"
    using weakens_invar [OF assms] by simp_all
  have all: "list_all (\<lambda>g. supports c g = ST_Supported) s \<longleftrightarrow> s = [] \<or> (usable c \<and> honours (delivered c) s)"
    if "set_invar s" for s
    using set_invar_valid [OF that]
    by (cases s) (auto simp: supports_Supported honours_def list_all_iff)
  have "approved = []" if "original = []"
    using assms that by (cases approved) (auto simp: weakens_iff GuaranteeSet_find_def)
  moreover have "honours m approved" if "honours m original" for m
    using weakens_honours [OF assms that] .
  ultimately show ?thesis
    using all [OF inv(1)] all [OF inv(2)] set_invar_valid [OF inv(1)]
    by (auto simp: supports_eq list_all_iff)
qed

theorem support_is_delivery_witness:
  "list_all (\<lambda>g. supports sample_capability g = ST_Supported) [mk_guarantee GK_Bandwidth 50 True]"
proof -
  have "weakens_or_equals [mk_guarantee GK_Bandwidth 80 True] [mk_guarantee GK_Bandwidth 50 True]"
    and "list_all (\<lambda>g. supports sample_capability g = ST_Supported) [mk_guarantee GK_Bandwidth 80 True]"
    by code_simp+
  then show ?thesis
    using support_is_delivery by blast
qed

section \<open>Normalisation\<close>

lemma EvidenceKind_code_less:
  "ei_kind a \<noteq> ei_kind b \<Longrightarrow> EvidenceKind_code (ei_kind a) \<noteq> EvidenceKind_code (ei_kind b)"
  by (simp add: evidencekind_wire.code_inj)

interpretation evidence_order: strict_weak_order evidence_item_less
proof
  show "\<not> evidence_item_less b a" if "evidence_item_less a b" for a b
    using that by (auto simp: evidence_item_less_def split: if_splits)
  show "evidence_item_less a b \<or> evidence_item_less b c" if "evidence_item_less a c" for a b c
  proof -
    have "evidence_item_less x y \<longleftrightarrow>
        ei_scope x < ei_scope y \<or> ei_scope x = ei_scope y \<and>
        (EvidenceKind_code (ei_kind x) < EvidenceKind_code (ei_kind y) \<or>
         EvidenceKind_code (ei_kind x) = EvidenceKind_code (ei_kind y) \<and>
         (ei_publisher x < ei_publisher y \<or> ei_publisher x = ei_publisher y \<and>
          (ei_generation y < ei_generation x \<or> ei_generation x = ei_generation y \<and>
           (ei_publisher_boot y < ei_publisher_boot x \<or> ei_publisher_boot x = ei_publisher_boot y \<and>
            ei_id x < ei_id y))))" for x y
      by (auto simp: evidence_item_less_def evidencekind_wire.code_inj)
    then show ?thesis
      using that by (smt (verit) linorder_less_linear order.strict_trans)
  qed
qed

lemma evidence_item_less_total:
  "ei_id a \<noteq> ei_id b \<Longrightarrow> evidence_item_less a b \<or> evidence_item_less b a"
  using EvidenceKind_code_less by (fastforce simp: evidence_item_less_def)

text \<open>
  The canonical evidence vector does not depend on arrival order: two vectors that hold the
  same observations, each under its own identity, normalise to the same result, error or vector.
\<close>

theorem normalize_order_independent:
  assumes "mset (ev_items v) = mset (ev_items w)" and "ev_limit v = ev_limit w"
    and "distinct (map ei_id (ev_items v))"
  shows "EvidenceVector_normalize v = EvidenceVector_normalize w"
proof -
  have "sort_by evidence_item_less (ev_items v) = sort_by evidence_item_less (ev_items w)"
  proof (rule evidence_order.sort_by_perm [OF assms(1)])
    show "evidence_item_less a b \<or> evidence_item_less b a"
      if "a \<in> set (ev_items v)" "b \<in> set (ev_items v)" "a \<noteq> b" for a b
      using that assms(3) by (metis distinct_map evidence_item_less_total inj_onD)
  qed
  then show ?thesis
    using assms(2) by (simp add: EvidenceVector_normalize_def split: sum.split)
qed

theorem normalize_order_independent_witness:
  "EvidenceVector_normalize \<lparr>ev_items = [sample_item 2 EK_PathDiversity 3, sample_item 1 EK_FabricTopology 1],
     ev_limit = 8\<rparr> =
   EvidenceVector_normalize \<lparr>ev_items = [sample_item 1 EK_FabricTopology 1, sample_item 2 EK_PathDiversity 3],
     ev_limit = 8\<rparr>"
  by (rule normalize_order_independent) (simp_all add: sample_item_def)

text \<open>The source of an observation, in the order the vector is sorted by.\<close>

definition src :: "EvidenceItem \<Rightarrow> u64 \<times> u16 \<times> u64" where
  "src i = (ei_scope i, EvidenceKind_code (ei_kind i), ei_publisher i)"

lemma src_eq: "src a = src b \<longleftrightarrow> same_source a b"
  by (auto simp: src_def same_source_def evidencekind_wire.code_inj)

lemma evidence_item_less_src: "src a < src b \<Longrightarrow> evidence_item_less a b"
  by (auto simp: src_def less_prod_def evidence_item_less_def order.strict_iff_order
      evidencekind_wire.code_inj)

lemma not_less_src:
  assumes "\<not> evidence_item_less b a"
  shows "src a \<le> src b \<and> (src a = src b \<longrightarrow> ei_generation b \<le> ei_generation a)"
proof -
  have "\<not> src b < src a"
    using assms evidence_item_less_src by blast
  moreover have "ei_generation b \<le> ei_generation a" if "src a = src b"
    using that assms unfolding src_eq same_source_def
    by (auto simp: evidence_item_less_def split: if_splits)
  ultimately show ?thesis
    by simp
qed

text \<open>\<open>newer i j\<close>: \<open>j\<close> comes from the same source as \<open>i\<close> and is at least as new.\<close>

definition newer :: "EvidenceItem \<Rightarrow> EvidenceItem \<Rightarrow> bool" where
  "newer i j \<longleftrightarrow> src j = src i \<and> ei_generation i \<le> ei_generation j"

lemma supersede_invar:
  "supersede kept is = Inr r \<Longrightarrow> key_sorted src kept \<Longrightarrow> list_all EvidenceItem_identified kept \<Longrightarrow>
   sorted_wrt (\<lambda>a b. \<not> evidence_item_less b a) (kept @ is) \<Longrightarrow>
   key_sorted src r \<and> list_all EvidenceItem_identified r \<and> set kept \<subseteq> set r \<and> set r \<subseteq> set kept \<union> set is \<and>
   (\<forall>i \<in> set is. \<exists>j \<in> set r. newer i j)"
proof (induction "is" arbitrary: kept)
  case (Cons i "is")
  have ok: "EvidenceItem_identified i"
    using Cons.prems(1) by (auto split: if_splits)
  show ?case
  proof (cases "kept \<noteq> [] \<and> same_source (last kept) i")
    case True
    have "supersede kept is = Inr r" and "sorted_wrt (\<lambda>a b. \<not> evidence_item_less b a) (kept @ is)"
      using Cons.prems True by (auto simp: sorted_wrt_append split: if_splits)
    note IH = Cons.IH [OF this(1) Cons.prems(2,3) this(2)]
    have "newer i (last kept)"
      using True Cons.prems(4) not_less_src [of i "last kept"]
      by (auto simp: newer_def sorted_wrt_append src_eq)
    moreover have "last kept \<in> set r"
      using IH True by auto
    ultimately show ?thesis
      using IH by auto
  next
    case False
    have step: "supersede (kept @ [i]) is = Inr r"
      using Cons.prems(1) False by (auto split: if_splits)
    have le: "src k < src i" if "k \<in> set kept" for k
    proof -
      have "src k \<le> src (last kept)"
        using that Cons.prems(2) by (induction kept) (auto split: if_splits intro: less_imp_le)
      also have "src (last kept) < src i"
      proof -
        have "last kept \<in> set kept"
          using that by (cases kept) auto
        then have "\<not> evidence_item_less i (last kept)" and "\<not> same_source (last kept) i"
          using False Cons.prems(4) by (auto simp: sorted_wrt_append)
        then show ?thesis
          using not_less_src by (simp add: src_eq order.strict_iff_order)
      qed
      finally show ?thesis .
    qed
    have "key_sorted src (kept @ [i])"
      using Cons.prems(2) le by (induction kept) auto
    then have IH: "key_sorted src r \<and> list_all EvidenceItem_identified r \<and> set (kept @ [i]) \<subseteq> set r \<and>
        set r \<subseteq> set (kept @ [i]) \<union> set is \<and> (\<forall>i \<in> set is. \<exists>j \<in> set r. newer i j)"
      using Cons.prems(3,4) ok by (intro Cons.IH [OF step]) simp_all
    moreover have "newer i i"
      by (simp add: newer_def)
    ultimately show ?thesis
      by auto
  qed
qed simp

text \<open>
  Normalisation keeps one observation per publisher, scope and kind, the one with the highest
  generation: the result is a selection of the input, strictly ordered by its source, every kept
  observation is valid and identified, and every observation of the input is represented by one
  from the same source that is at least as new.
\<close>

theorem normalize_keeps_newest:
  assumes "EvidenceVector_normalize v = Inr w"
  shows "set (ev_items w) \<subseteq> set (ev_items v) \<and> list_all EvidenceItem_identified (ev_items w) \<and>
    distinct (map (\<lambda>i. (ei_scope i, ei_kind i, ei_publisher i)) (ev_items w)) \<and>
    (\<forall>i \<in> set (ev_items v). \<exists>j \<in> set (ev_items w). same_source i j \<and> ei_generation i \<le> ei_generation j)"
proof -
  let ?s = "sort_by evidence_item_less (ev_items v)"
  have "supersede [] ?s = Inr (ev_items w)"
    using assms by (auto simp: EvidenceVector_normalize_def split: sum.splits)
  then have inv: "key_sorted src (ev_items w)" "list_all EvidenceItem_identified (ev_items w)"
      "set (ev_items w) \<subseteq> set ?s" "\<forall>i \<in> set ?s. \<exists>j \<in> set (ev_items w). newer i j"
    using supersede_invar [of "[]" ?s "ev_items w"] evidence_order.sorted_sort_by [of "ev_items v"]
    by simp_all
  have "distinct (map src (ev_items w))"
    using inv(1) by (rule key_sorted_distinct)
  then have "distinct (map (\<lambda>i. (ei_scope i, ei_kind i, ei_publisher i)) (ev_items w))"
    by (auto simp: distinct_map inj_on_def src_eq same_source_def)
  then show ?thesis
    using inv(2,3,4) by (auto simp: newer_def src_eq same_source_def) metis
qed

theorem normalize_keeps_newest_witness:
  "ev_items (projr (EvidenceVector_normalize
     \<lparr>ev_items = [sample_item 1 EK_PathDiversity 3, (sample_item 2 EK_PathDiversity 4)\<lparr>ei_generation := 2\<rparr>],
      ev_limit = 8\<rparr>)) = [(sample_item 2 EK_PathDiversity 4)\<lparr>ei_generation := 2\<rparr>]"
proof -
  let ?v = "\<lparr>ev_items = [sample_item 1 EK_PathDiversity 3,
    (sample_item 2 EK_PathDiversity 4)\<lparr>ei_generation := 2\<rparr>], ev_limit = 8\<rparr>"
  have r: "EvidenceVector_normalize ?v =
      Inr \<lparr>ev_items = [(sample_item 2 EK_PathDiversity 4)\<lparr>ei_generation := 2\<rparr>], ev_limit = 8\<rparr>"
    by code_simp
  from normalize_keeps_newest [OF r] r show ?thesis
    by simp
qed

text \<open>
  The aggregated state of an evidence group depends on the order of its items. \<open>state_for\<close> is
  documented as a lattice aggregation in which a higher severity is worse, but a disagreement met
  after an \<open>Invalid\<close> item overwrites it with the less severe \<open>Conflict\<close>. Authority does not depend
  on this: a group is \<open>Known\<close> for one order exactly when it is \<open>Known\<close> for every other.
\<close>

theorem state_for_order:
  "(let a = sample_item 1 EK_PathDiversity 3;
        b = (sample_item 2 EK_PathDiversity 9)\<lparr>ei_publisher := 2\<rparr>;
        c = (sample_item 3 EK_PathDiversity 9)\<lparr>ei_publisher := 3, ei_state := ES_Invalid\<rparr>
    in state_for \<lparr>ev_items = [a, b, c], ev_limit = 8\<rparr> 7 EK_PathDiversity = ES_Invalid \<and>
       state_for \<lparr>ev_items = [a, c, b], ev_limit = 8\<rparr> 7 EK_PathDiversity = ES_Conflict) \<and>
   (\<forall>v w. mset (ev_items v) = mset (ev_items w) \<longrightarrow>
      (state_for v scope kind = ES_Known) = (state_for w scope kind = ES_Known))"
proof (intro conjI allI impI)
  show "let a = sample_item 1 EK_PathDiversity 3;
        b = (sample_item 2 EK_PathDiversity 9)\<lparr>ei_publisher := 2\<rparr>;
        c = (sample_item 3 EK_PathDiversity 9)\<lparr>ei_publisher := 3, ei_state := ES_Invalid\<rparr>
    in state_for \<lparr>ev_items = [a, b, c], ev_limit = 8\<rparr> 7 EK_PathDiversity = ES_Invalid \<and>
       state_for \<lparr>ev_items = [a, c, b], ev_limit = 8\<rparr> 7 EK_PathDiversity = ES_Conflict"
    by code_simp
  fix v w :: EvidenceVector
  assume "mset (ev_items v) = mset (ev_items w)"
  then have "set (ev_items v) = set (ev_items w)"
    by (metis set_mset_mset)
  then have "set (group v scope kind) = set (group w scope kind)"
    by (simp add: group_def)
  then show "(state_for v scope kind = ES_Known) = (state_for w scope kind = ES_Known)"
    unfolding state_for_Known by (metis set_empty)
qed

theorem state_for_order_witness:
  "state_for \<lparr>ev_items = [sample_item 1 EK_PathDiversity 3], ev_limit = 8\<rparr> 7 EK_PathDiversity = ES_Known"
proof -
  have "state_for \<lparr>ev_items = [sample_item 1 EK_PathDiversity 3], ev_limit = 4\<rparr> 7 EK_PathDiversity = ES_Known"
    by code_simp
  then show ?thesis
    using state_for_order by (metis EvidenceVector.select_convs(1))
qed

end
