(* ===== verification/Policy.thy ===== *)
theory Policy
  imports Evidence
begin

text \<open>
  Policy: \<open>include/dmf/policy.hpp\<close> and \<open>src/domain/policy.cpp\<close>. Rules and class profiles are the
  vectors of the source, in their stored order. The theory proves that rule selection and the
  policy digest do not depend on that order for a valid policy, and what the composition of a
  contract envelope with a class ceiling admits.
\<close>

datatype DegradeAction =
    DA_Protect
  | DA_Degrade
  | DA_Refuse
  | DA_Escalate

primrec DegradeAction_code :: "DegradeAction \<Rightarrow> u16" where
  "DegradeAction_code DA_Protect = 1"
| "DegradeAction_code DA_Degrade = 2"
| "DegradeAction_code DA_Refuse = 3"
| "DegradeAction_code DA_Escalate = 4"

definition DegradeAction_all :: "DegradeAction list" where
  "DegradeAction_all =
     [DA_Protect, DA_Degrade, DA_Refuse, DA_Escalate]"

interpretation degradeaction_wire: wire_enum DegradeAction_code DegradeAction_all
proof
  show "enum_decode DegradeAction_code DegradeAction_all (DegradeAction_code e) = Some e" for e
    by (cases e) (simp_all add: enum_decode_def DegradeAction_all_def)
qed

record PolicyRule =
  pr_id :: u64
  pr_precedence :: u32
  pr_service_class :: "ServiceClass option"
  pr_scope :: "u64 option"
  pr_trigger :: "GuaranteeKind option"
  pr_action :: DegradeAction

definition PolicyRule_matches ::
    "PolicyRule \<Rightarrow> ServiceClass \<Rightarrow> u64 \<Rightarrow> GuaranteeKind option \<Rightarrow> bool" where
  "PolicyRule_matches r candidate_class candidate_scope trigger_kind \<longleftrightarrow>
     (if pr_service_class r \<noteq> None \<and> pr_service_class r \<noteq> Some candidate_class then False
      else if pr_scope r \<noteq> None \<and> pr_scope r \<noteq> Some candidate_scope then False
      else case pr_trigger r of
             None \<Rightarrow> True
           | Some t \<Rightarrow> trigger_kind = Some t)"

definition PolicyRule_validate :: "PolicyRule \<Rightarrow> status" where
  "PolicyRule_validate r =
     require (valid_id (pr_id r)) EC_InvalidArgument
       (require (case pr_scope r of None \<Rightarrow> True | Some s \<Rightarrow> valid_id s) EC_Invalid EC_Ok)"

record ClassProfile =
  cp_service_class :: ServiceClass
  cp_ceiling :: GuaranteeEnvelope
  cp_may_be_degraded :: bool

definition ClassProfile_validate :: "ClassProfile \<Rightarrow> status" where
  "ClassProfile_validate p =
     require (\<not> (cp_service_class p = SC_Protected \<and> cp_may_be_degraded p)) EC_Invalid
       (GuaranteeEnvelope_validate (cp_ceiling p))"

record Policy =
  po_id :: u64
  po_generation :: u64
  po_rules :: "PolicyRule list"
  po_class_profiles :: "ClassProfile list"
  po_unknown_evidence_action :: DegradeAction
  po_stale_evidence_action :: DegradeAction
  po_conflict_evidence_action :: DegradeAction
  po_invalid_evidence_action :: DegradeAction
  po_unsupported_evidence_action :: DegradeAction
  po_protect_first :: bool
  po_default_ttl_ticks :: tick
  po_minimum_ttl_ticks :: tick
  po_max_concessions_per_contract :: u32
  po_minimum_dwell_ticks :: u32
  po_minimum_protected_served :: u32
  po_search_node_budget :: u64
  po_evidence_freshness_ticks :: u64

definition installed :: "Policy \<Rightarrow> bool" where
  "installed p \<longleftrightarrow> valid_id (po_id p) \<and> valid_id (po_generation p)"

text \<open>The rule loop of \<open>Policy::validate\<close>; \<open>prev\<close> is \<open>previous\<close>, absent on the first iteration.\<close>

fun rules_validate :: "u32 option \<Rightarrow> PolicyRule list \<Rightarrow> status" where
  "rules_validate prev [] = EC_Ok"
| "rules_validate prev (r # rs) =
     and_then (PolicyRule_validate r)
       (require (prev \<noteq> Some (pr_precedence r)) EC_AlreadyExists
         (rules_validate (Some (pr_precedence r)) rs))"

fun profiles_validate :: "ClassProfile list \<Rightarrow> status" where
  "profiles_validate [] = EC_Ok"
| "profiles_validate (p # ps) = and_then (ClassProfile_validate p) (profiles_validate ps)"

definition Policy_validate :: "Policy \<Rightarrow> status" where
  "Policy_validate p =
     require (valid_id (po_id p)) EC_InvalidArgument
    (require (valid_id (po_generation p)) EC_InvalidArgument
    (require (\<not> length (po_rules p) > kMaxCollectionItems) EC_CapacityExceeded
    (and_then (rules_validate None (po_rules p))
    (require (\<not> has_adjacent_equal (sort_by (<) (map pr_precedence (po_rules p)))) EC_AlreadyExists
    (and_then (profiles_validate (po_class_profiles p))
    (require (\<not> has_adjacent_equal
        (sort_by (<) (map (\<lambda>c. ServiceClass_code (cp_service_class c)) (po_class_profiles p))))
       EC_AlreadyExists
    (require (po_default_ttl_ticks p \<noteq> 0) EC_Invalid
    (require (po_minimum_ttl_ticks p \<noteq> 0) EC_Invalid
    (require (\<not> po_minimum_ttl_ticks p > po_default_ttl_ticks p) EC_Invalid
    (require (\<not> po_max_concessions_per_contract p > of_nat kMaxCollectionItems) EC_OutOfRange
    (require (\<not> po_minimum_protected_served p > of_nat kMaxCollectionItems) EC_OutOfRange
    (require (\<not> (po_search_node_budget p = 0 \<or> po_search_node_budget p > 100000000)) EC_OutOfRange
    (require (po_evidence_freshness_ticks p \<noteq> 0) EC_Invalid
      EC_Ok)))))))))))))"

fun select_loop ::
    "ServiceClass \<Rightarrow> u64 \<Rightarrow> GuaranteeKind option \<Rightarrow> PolicyRule option \<Rightarrow> PolicyRule list \<Rightarrow>
     PolicyRule option" where
  "select_loop c s t best [] = best"
| "select_loop c s t best (r # rs) =
     (if \<not> PolicyRule_matches r c s t then select_loop c s t best rs
      else case best of
             None \<Rightarrow> select_loop c s t (Some r) rs
           | Some b \<Rightarrow> if pr_precedence r < pr_precedence b then select_loop c s t (Some r) rs
                       else select_loop c s t best rs)"

definition select_rule ::
    "Policy \<Rightarrow> ServiceClass \<Rightarrow> u64 \<Rightarrow> GuaranteeKind option \<Rightarrow> PolicyRule option" where
  "select_rule p c s t = select_loop c s t None (po_rules p)"

definition class_profile :: "Policy \<Rightarrow> ServiceClass \<Rightarrow> ClassProfile option" where
  "class_profile p c = find_ptr (\<lambda>q. cp_service_class q = c) (po_class_profiles p)"

definition evidence_action :: "Policy \<Rightarrow> EvidenceState \<Rightarrow> DegradeAction" where
  "evidence_action p s =
     (case s of
        ES_Known \<Rightarrow> DA_Protect
      | ES_Unknown \<Rightarrow> po_unknown_evidence_action p
      | ES_Stale \<Rightarrow> po_stale_evidence_action p
      | ES_Conflict \<Rightarrow> po_conflict_evidence_action p
      | ES_Invalid \<Rightarrow> po_invalid_evidence_action p
      | ES_Unsupported \<Rightarrow> po_unsupported_evidence_action p)"

fun upsert_all :: "ConcessionBound list \<Rightarrow> GuaranteeEnvelope \<Rightarrow> GuaranteeEnvelope result" where
  "upsert_all [] e = Inr e"
| "upsert_all (b # bs) e =
     (case GuaranteeEnvelope_upsert b e of Inl err \<Rightarrow> Inl err | Inr e' \<Rightarrow> upsert_all bs e')"

definition compose_envelopes ::
    "GuaranteeEnvelope \<Rightarrow> GuaranteeEnvelope \<Rightarrow> u32 \<Rightarrow> GuaranteeEnvelope result" where
  "compose_envelopes contract_envelope class_ceiling max_concessions =
     (case upsert_all (ge_bounds contract_envelope) empty_envelope of
        Inl e \<Rightarrow> Inl e
      | Inr e1 \<Rightarrow>
          (case upsert_all (ge_bounds class_ceiling) e1 of
             Inl e \<Rightarrow> Inl e
           | Inr e2 \<Rightarrow>
               (case GuaranteeEnvelope_normalize e2 of
                  Inl e \<Rightarrow> Inl e
                | Inr e3 \<Rightarrow>
                    let cap = max_concessions;
                        cap = (if ge_max_concessions contract_envelope < cap
                               then ge_max_concessions contract_envelope else cap);
                        cap = (if ge_max_concessions class_ceiling < cap
                               then ge_max_concessions class_ceiling else cap)
                    in Inr (e3\<lparr>ge_max_concessions := cap\<rparr>))))"

definition effective_envelope :: "Policy \<Rightarrow> ServiceContract \<Rightarrow> GuaranteeEnvelope result" where
  "effective_envelope p c =
     (case class_profile p (sc_service_class c) of
        None \<Rightarrow> Inl EC_NotFound
      | Some q \<Rightarrow>
          if protected_obligation c \<or> \<not> cp_may_be_degraded q then Inr empty_envelope
          else compose_envelopes (sc_envelope c) (cp_ceiling q) (po_max_concessions_per_contract p))"

definition rule_less :: "PolicyRule \<Rightarrow> PolicyRule \<Rightarrow> bool" where
  "rule_less a b \<longleftrightarrow>
     (if pr_precedence a \<noteq> pr_precedence b then pr_precedence a < pr_precedence b
      else pr_id a < pr_id b)"

definition rule_digest_into :: "PolicyRule \<Rightarrow> digest64 \<Rightarrow> digest64" where
  "rule_digest_into r =
     update_u16 (DegradeAction_code (pr_action r)) \<circ>
     update_u16 (case pr_trigger r of None \<Rightarrow> 0 | Some t \<Rightarrow> GuaranteeKind_code t) \<circ>
     update_u64 (case pr_scope r of None \<Rightarrow> 0 | Some s \<Rightarrow> s) \<circ>
     update_u16 (case pr_service_class r of None \<Rightarrow> 0 | Some c \<Rightarrow> ServiceClass_code c) \<circ>
     update_u32 (pr_precedence r) \<circ> update_u64 (pr_id r)"

definition Policy_digest :: "Policy \<Rightarrow> digest64" where
  "Policy_digest p =
     (update_u64 (po_evidence_freshness_ticks p) \<circ> update_u64 (po_search_node_budget p) \<circ>
      update_u32 (po_minimum_protected_served p) \<circ> update_u32 (po_minimum_dwell_ticks p) \<circ>
      update_u32 (po_max_concessions_per_contract p) \<circ> update_u64 (po_minimum_ttl_ticks p) \<circ>
      update_u64 (po_default_ttl_ticks p) \<circ> update_bool (po_protect_first p) \<circ>
      update_u16 (DegradeAction_code (po_unsupported_evidence_action p)) \<circ>
      update_u16 (DegradeAction_code (po_invalid_evidence_action p)) \<circ>
      update_u16 (DegradeAction_code (po_conflict_evidence_action p)) \<circ>
      update_u16 (DegradeAction_code (po_stale_evidence_action p)) \<circ>
      update_u16 (DegradeAction_code (po_unknown_evidence_action p)) \<circ>
      fold (\<lambda>q. update_bool (cp_may_be_degraded q) \<circ>
              update_u64 (GuaranteeEnvelope_digest (cp_ceiling q)) \<circ>
              update_u16 (ServiceClass_code (cp_service_class q))) (po_class_profiles p) \<circ>
      update_u32 (of_nat (length (po_class_profiles p))) \<circ>
      fold rule_digest_into (sort_by rule_less (po_rules p)) \<circ>
      update_u32 (of_nat (length (po_rules p))) \<circ>
      update_u64 (po_generation p) \<circ> update_u64 (po_id p)) kFnvOffset"

text \<open>\<open>empty_policy\<close>: the member initialisers of \<open>Policy\<close> with the given identity.\<close>

definition empty_policy :: "u64 \<Rightarrow> u64 \<Rightarrow> Policy" where
  "empty_policy i g = \<lparr>po_id = i, po_generation = g, po_rules = [], po_class_profiles = [],
     po_unknown_evidence_action = DA_Refuse, po_stale_evidence_action = DA_Refuse,
     po_conflict_evidence_action = DA_Refuse, po_invalid_evidence_action = DA_Refuse,
     po_unsupported_evidence_action = DA_Refuse, po_protect_first = True,
     po_default_ttl_ticks = 1000, po_minimum_ttl_ticks = 1, po_max_concessions_per_contract = 4,
     po_minimum_dwell_ticks = 0, po_minimum_protected_served = 0, po_search_node_budget = 50000,
     po_evidence_freshness_ticks = 100\<rparr>"

section \<open>Rule selection\<close>

lemma sort_by_less_sorted: "sorted (sort_by (<) (xs :: 'a :: linorder list))"
proof -
  have "sorted_wrt (\<lambda>a b. \<not> b < a) (sort_by (<) xs)"
    by (rule strict_weak_order.sorted_sort_by [OF key_less_swo [of "\<lambda>x. x"]])
  then show ?thesis
    by (simp add: not_less)
qed

lemma no_adjacent_equal_sort_by:
  "\<not> has_adjacent_equal (sort_by (<) (xs :: 'a :: linorder list)) \<longleftrightarrow> distinct xs"
  using sorted_has_adjacent_equal [OF sort_by_less_sorted [of xs]]
    distinct_map_sort_by [of "\<lambda>x. x" "(<)" xs] by simp

lemma policy_ok_distinct:
  assumes "Policy_validate p = EC_Ok"
  shows "distinct (map pr_precedence (po_rules p)) \<and>
    distinct (map (\<lambda>q. ServiceClass_code (cp_service_class q)) (po_class_profiles p))"
  using assms by (simp add: Policy_validate_def status_simps no_adjacent_equal_sort_by)

lemma profiles_validate_ok:
  "profiles_validate ps = EC_Ok \<longleftrightarrow> list_all (\<lambda>p. ClassProfile_validate p = EC_Ok) ps"
  by (induction ps) (simp_all add: status_simps)

lemma policy_ok_profile:
  assumes "Policy_validate p = EC_Ok" and "class_profile p c = Some q"
  shows "env_invar (cp_ceiling q) \<and> (cp_service_class q = SC_Protected \<longrightarrow> \<not> cp_may_be_degraded q)"
proof -
  have "q \<in> set (po_class_profiles p)"
    using assms(2) by (auto simp: class_profile_def dest: find_ptr_SomeD)
  then have "ClassProfile_validate q = EC_Ok"
    using assms(1) by (simp add: Policy_validate_def status_simps profiles_validate_ok list_all_iff)
  then show ?thesis
    by (auto simp: ClassProfile_validate_def status_simps)
qed

text \<open>The specification: a matching rule with no matching rule of lower precedence.\<close>

definition best_match ::
    "PolicyRule set \<Rightarrow> ServiceClass \<Rightarrow> u64 \<Rightarrow> GuaranteeKind option \<Rightarrow> PolicyRule \<Rightarrow> bool" where
  "best_match R c s t b \<longleftrightarrow> b \<in> R \<and> PolicyRule_matches b c s t \<and>
     (\<forall>r \<in> R. PolicyRule_matches r c s t \<longrightarrow> pr_precedence b \<le> pr_precedence r)"

definition best_so_far ::
    "PolicyRule set \<Rightarrow> ServiceClass \<Rightarrow> u64 \<Rightarrow> GuaranteeKind option \<Rightarrow> PolicyRule option \<Rightarrow> bool" where
  "best_so_far R c s t best \<longleftrightarrow>
     (case best of
        None \<Rightarrow> \<forall>r \<in> R. \<not> PolicyRule_matches r c s t
      | Some b \<Rightarrow> best_match R c s t b)"

lemma best_so_far_step:
  assumes "best_so_far R c s t best"
  shows "\<not> PolicyRule_matches r c s t \<Longrightarrow> best_so_far (insert r R) c s t best"
    and "PolicyRule_matches r c s t \<Longrightarrow> best = None \<Longrightarrow> best_so_far (insert r R) c s t (Some r)"
    and "PolicyRule_matches r c s t \<Longrightarrow> best = Some b \<Longrightarrow> pr_precedence r < pr_precedence b \<Longrightarrow>
      best_so_far (insert r R) c s t (Some r)"
    and "PolicyRule_matches r c s t \<Longrightarrow> best = Some b \<Longrightarrow> \<not> pr_precedence r < pr_precedence b \<Longrightarrow>
      best_so_far (insert r R) c s t best"
  using assms by (auto simp: best_so_far_def best_match_def not_less split: option.splits
      intro: less_imp_le dest: order.strict_trans2)

lemma select_loop_spec:
  "best_so_far R c s t best \<Longrightarrow> best_so_far (R \<union> set rs) c s t (select_loop c s t best rs)"
proof (induction rs arbitrary: best R)
  case (Cons r rs)
  have "best_so_far (insert r R) c s t best' \<Longrightarrow>
      best_so_far (R \<union> set (r # rs)) c s t (select_loop c s t best' rs)" for best'
    using Cons.IH [of "insert r R" best'] by simp
  with best_so_far_step [OF Cons.prems] show ?case
    by (cases best) simp_all
qed simp

lemma select_rule_spec: "best_so_far (set (po_rules p)) c s t (select_rule p c s t)"
  using select_loop_spec [of "{}" c s t None "po_rules p"] by (simp add: select_rule_def best_so_far_def)

lemma best_match_unique:
  assumes "distinct (map pr_precedence rs)" and "best_match (set rs) c s t a" and "best_match (set rs) c s t b"
  shows "a = b"
proof -
  have "pr_precedence a = pr_precedence b" and "a \<in> set rs" and "b \<in> set rs"
    using assms(2,3) by (auto simp: best_match_def intro: antisym)
  then show ?thesis
    using assms(1) by (auto simp: distinct_map dest: inj_onD)
qed

interpretation rule_order: strict_weak_order rule_less
  by unfold_locales (auto simp: rule_less_def split: if_splits)

text \<open>
  Rule selection is deterministic and order independent. In a policy that validates, at most one
  rule is a matching rule of least precedence and \<open>select_rule\<close> returns it (nothing exactly when no
  rule matches); storing the same rules in another order changes neither the selection nor the
  policy digest.
\<close>

theorem rule_selection:
  assumes "Policy_validate p = EC_Ok" and "mset rs = mset (po_rules p)"
  shows "(select_rule p c s t = Some b \<longleftrightarrow> best_match (set (po_rules p)) c s t b) \<and>
    (select_rule p c s t = None \<longleftrightarrow> (\<forall>r \<in> set (po_rules p). \<not> PolicyRule_matches r c s t)) \<and>
    select_rule (p\<lparr>po_rules := rs\<rparr>) c s t = select_rule p c s t \<and>
    Policy_digest (p\<lparr>po_rules := rs\<rparr>) = Policy_digest p"
proof -
  have dist: "distinct (map pr_precedence (po_rules p))"
    using policy_ok_distinct [OF assms(1)] by simp
  have spec: "select_rule q c s t = Some b \<longleftrightarrow> best_match (set (po_rules q)) c s t b"
    if "set (po_rules q) = set (po_rules p)" for q b
  proof (cases "select_rule q c s t")
    case None
    then show ?thesis
      using select_rule_spec [of q c s t] by (auto simp: best_so_far_def best_match_def)
  next
    case (Some a)
    then have "best_match (set (po_rules q)) c s t a"
      using select_rule_spec [of q c s t] by (simp add: best_so_far_def)
    then show ?thesis
      using best_match_unique [OF dist] that Some by auto
  qed
  have none: "select_rule p c s t = None \<longleftrightarrow> (\<forall>r \<in> set (po_rules p). \<not> PolicyRule_matches r c s t)"
  proof (cases "select_rule p c s t")
    case (Some a)
    then show ?thesis
      using spec [of p a] by (auto simp: best_match_def)
  qed (use select_rule_spec [of p c s t] in \<open>simp add: best_so_far_def\<close>)
  have sets: "set rs = set (po_rules p)"
    using assms(2) by (metis set_mset_mset)
  have "select_rule (p\<lparr>po_rules := rs\<rparr>) c s t = Some b \<longleftrightarrow> select_rule p c s t = Some b" for b
    using spec [of p b] spec [of "p\<lparr>po_rules := rs\<rparr>" b] sets by simp
  then have "select_rule (p\<lparr>po_rules := rs\<rparr>) c s t = select_rule p c s t"
    by (cases "select_rule p c s t"; cases "select_rule (p\<lparr>po_rules := rs\<rparr>) c s t") auto
  moreover have "sort_by rule_less rs = sort_by rule_less (po_rules p)"
  proof (rule rule_order.sort_by_perm [OF assms(2)])
    show "rule_less a b \<or> rule_less b a" if "a \<in> set rs" "b \<in> set rs" "a \<noteq> b" for a b
      using that dist sets by (auto simp: rule_less_def distinct_map dest: inj_onD)
  qed
  moreover have "length rs = length (po_rules p)"
    using assms(2) by (metis size_mset)
  ultimately show ?thesis
    using spec [of p b] none by (simp add: Policy_digest_def)
qed

definition sample_rules :: "PolicyRule list" where
  "sample_rules =
     [\<lparr>pr_id = 1, pr_precedence = 9, pr_service_class = None, pr_scope = None, pr_trigger = None,
       pr_action = DA_Refuse\<rparr>,
      \<lparr>pr_id = 2, pr_precedence = 4, pr_service_class = Some SC_Standard, pr_scope = None,
       pr_trigger = Some GK_Bandwidth, pr_action = DA_Degrade\<rparr>]"

definition sample_policy :: Policy where
  "sample_policy = (empty_policy 1 1)\<lparr>po_rules := sample_rules,
     po_class_profiles := [\<lparr>cp_service_class = SC_Standard,
       cp_ceiling = \<lparr>ge_bounds = [\<lparr>cb_kind = GK_Bandwidth, cb_weakest_allowed_value = 2\<rparr>],
         ge_max_concessions = 2\<rparr>, cp_may_be_degraded = True\<rparr>]\<rparr>"

lemma sample_policy_ok: "Policy_validate sample_policy = EC_Ok"
  by (simp add: sample_policy_def sample_rules_def empty_policy_def Policy_validate_def status_simps
      valid_id_def PolicyRule_validate_def ClassProfile_validate_def env_invar_def bound_in_domain_def
      kMaxBandwidthKbps_def kMaxCollectionItems_def)

theorem rule_selection_witness:
  "select_rule (sample_policy\<lparr>po_rules := rev sample_rules\<rparr>) SC_Standard 7 (Some GK_Bandwidth) =
   Some (sample_rules ! 1)"
proof -
  have rs: "mset (rev sample_rules) = mset (po_rules sample_policy)"
    by (simp add: sample_policy_def)
  have "select_rule sample_policy SC_Standard 7 (Some GK_Bandwidth) = Some (sample_rules ! 1)"
    by (simp add: sample_policy_def sample_rules_def select_rule_def PolicyRule_matches_def)
  with rule_selection [OF sample_policy_ok rs, of SC_Standard 7 "Some GK_Bandwidth"] show ?thesis
    by simp
qed

section \<open>Composition of envelopes\<close>

definition bound_value :: "GuaranteeEnvelope \<Rightarrow> GuaranteeKind \<Rightarrow> u64 option" where
  "bound_value e k = map_option cb_weakest_allowed_value (GuaranteeEnvelope_find e k)"

text \<open>How the two bounds for a kind combine; a bound on one side only is taken over.\<close>

definition merge_opt :: "GuaranteeKind \<Rightarrow> u64 option \<Rightarrow> u64 option \<Rightarrow> u64 option" where
  "merge_opt k x y = (case (x, y) of
     (None, _) \<Rightarrow> y | (_, None) \<Rightarrow> x | (Some a, Some b) \<Rightarrow> Some (merge_bound k a b))"

lemma merge_opt_None [simp]: "merge_opt k None y = y" "merge_opt k x None = x"
  by (simp_all add: merge_opt_def split: option.splits)

lemma merge_bound_domain:
  "a \<le> max_value_for k \<Longrightarrow> b \<le> max_value_for k \<Longrightarrow> merge_bound k a b \<le> max_value_for k"
  by (simp add: merge_bound_def min_def max_def)

lemma update_first_bound_domain:
  "list_all bound_in_domain bs \<Longrightarrow> bound_in_domain b \<Longrightarrow> list_all bound_in_domain (update_first_bound b bs)"
  by (induction bs) (auto simp: bound_in_domain_def merge_bound_domain)

lemma key_sorted_update_first: "key_sorted cb_kind (update_first_bound b bs) = key_sorted cb_kind bs"
  by (simp add: key_sorted_def)

lemma upsert_correct:
  assumes "env_invar e" and "bound_in_domain b"
  shows "\<exists>e'. GuaranteeEnvelope_upsert b e = Inr e' \<and> env_invar e' \<and>
    ge_max_concessions e' = ge_max_concessions e \<and>
    (\<forall>k. bound_value e' k =
       (if k = cb_kind b then merge_opt k (bound_value e k) (Some (cb_weakest_allowed_value b))
        else bound_value e k))"
proof (cases "find_ptr (\<lambda>x. cb_kind x = cb_kind b) (ge_bounds e)")
  case None
  then have absent: "GuaranteeEnvelope_find e (cb_kind b) = None"
    using assms(1) by (auto simp: envelope.lookup_eq_None dest: find_ptr_NoneD)
  have "cb_kind b \<notin> cb_kind ` set (ge_bounds e)"
    using None by (auto simp: find_None_iff)
  then obtain bs where bs: "key_insert cb_kind b (ge_bounds e) = Some bs"
    using assms(1) key_insert_eq_None_iff [of cb_kind "ge_bounds e" b] by (auto simp: env_invar_def)
  then have ins: "GuaranteeEnvelope_insert b e = Inr (e\<lparr>ge_bounds := bs\<rparr>)"
    using assms(2) by (simp add: GuaranteeEnvelope_insert_def)
  then have "GuaranteeEnvelope_upsert b e = Inr (e\<lparr>ge_bounds := bs\<rparr>)"
    using assms(2) None by (simp add: GuaranteeEnvelope_upsert_def)
  then show ?thesis
    using envelope_insert.insert_invar [OF assms(1)] envelope_insert.insert_lookup [OF assms(1)] ins absent
    by (auto simp: bound_value_def)
next
  case (Some x)
  then obtain old where old: "GuaranteeEnvelope_find e (cb_kind b) = Some old"
    using assms(1) find_ptr_SomeD [OF Some] by (metis envelope.lookup_key)
  let ?e = "e\<lparr>ge_bounds := update_first_bound b (ge_bounds e)\<rparr>"
  have "GuaranteeEnvelope_upsert b e = Inr ?e"
    using assms(2) Some by (simp add: GuaranteeEnvelope_upsert_def)
  moreover have "env_invar ?e"
    using assms by (simp add: env_invar_def update_first_bound_domain key_sorted_update_first)
  ultimately show ?thesis
    using assms(1) old by (auto simp: bound_value_def GuaranteeEnvelope_find_def key_find_update_first
        env_invar_def merge_opt_def split: option.splits)
qed

lemma upsert_all_correct:
  assumes "env_invar e" and "list_all bound_in_domain bs" and "key_sorted cb_kind bs"
  shows "\<exists>e'. upsert_all bs e = Inr e' \<and> env_invar e' \<and> ge_max_concessions e' = ge_max_concessions e \<and>
    (\<forall>k. bound_value e' k = merge_opt k (bound_value e k)
       (map_option cb_weakest_allowed_value (key_find cb_kind k bs)))"
  using assms
proof (induction bs arbitrary: e)
  case (Cons b bs)
  obtain e1 where e1: "GuaranteeEnvelope_upsert b e = Inr e1" "env_invar e1"
      "ge_max_concessions e1 = ge_max_concessions e"
      "\<forall>k. bound_value e1 k =
       (if k = cb_kind b then merge_opt k (bound_value e k) (Some (cb_weakest_allowed_value b))
        else bound_value e k)"
    using upsert_correct [of e b] Cons.prems by auto
  obtain e2 where e2: "upsert_all bs e1 = Inr e2" "env_invar e2"
      "ge_max_concessions e2 = ge_max_concessions e1"
      "\<forall>k. bound_value e2 k = merge_opt k (bound_value e1 k)
        (map_option cb_weakest_allowed_value (key_find cb_kind k bs))"
    using Cons.IH [OF e1(2)] Cons.prems by auto
  have absent: "key_find cb_kind (cb_kind b) bs = None"
    using Cons.prems by (auto simp: key_find_eq_None_iff)
  have before: "key_find cb_kind k bs = None" if "k < cb_kind b" for k
    using Cons.prems that by (force simp: key_find_eq_None_iff)
  show ?case
    using e1 e2 absent before by (auto simp: not_less le_less)
qed simp

lemma normalize_envelope_id:
  assumes "env_invar e"
  shows "GuaranteeEnvelope_normalize e = Inr e"
proof -
  have check: "envelope_check_from prev bs = EC_Ok"
    if "list_all bound_in_domain bs" "key_sorted cb_kind bs" "\<And>p b. prev = Some p \<Longrightarrow> b \<in> set bs \<Longrightarrow> p < cb_kind b"
    for prev bs
    using that
  proof (induction bs arbitrary: prev)
    case (Cons b bs)
    then have "envelope_check_from (Some (cb_kind b)) bs = EC_Ok"
      by (intro Cons.IH) auto
    moreover have "prev \<noteq> Some (cb_kind b)"
      using Cons.prems(3) by fastforce
    ultimately show ?case
      using Cons.prems(1) by (simp add: status_simps)
  qed simp
  have "sort_by (\<lambda>a b. cb_kind a < cb_kind b) (ge_bounds e) = ge_bounds e"
  proof (rule strict_weak_order.sort_by_sorted_id [OF key_less_swo])
    have "sorted_wrt (\<lambda>a b. \<not> cb_kind b < cb_kind a) bs" if "key_sorted cb_kind bs" for bs
      using that by (induction bs) auto
    from this [of "ge_bounds e"] show "sorted_wrt (\<lambda>a b. \<not> cb_kind b < cb_kind a) (ge_bounds e)"
      using assms by (simp add: env_invar_def)
  qed
  moreover have "envelope_check_from None (ge_bounds e) = EC_Ok"
    using assms by (intro check) (simp_all add: env_invar_def)
  ultimately show ?thesis
    by (simp add: GuaranteeEnvelope_normalize_def)
qed

lemma compose_correct:
  assumes "env_invar a" and "env_invar c"
  shows "\<exists>e. compose_envelopes a c m = Inr e \<and> env_invar e \<and>
    ge_max_concessions e = min m (min (ge_max_concessions a) (ge_max_concessions c)) \<and>
    (\<forall>k. bound_value e k = merge_opt k (bound_value a k) (bound_value c k))"
proof -
  have empty: "env_invar empty_envelope" "bound_value empty_envelope k = None" for k
    by (simp_all add: env_invar_def empty_envelope_def bound_value_def GuaranteeEnvelope_find_def)
  obtain e1 where e1: "upsert_all (ge_bounds a) empty_envelope = Inr e1" "env_invar e1"
      "\<forall>k. bound_value e1 k = bound_value a k"
    using upsert_all_correct [OF empty(1), of "ge_bounds a"] assms(1) empty(2)
    by (auto simp: env_invar_def bound_value_def GuaranteeEnvelope_find_def)
  obtain e2 where e2: "upsert_all (ge_bounds c) e1 = Inr e2" "env_invar e2"
      "\<forall>k. bound_value e2 k = merge_opt k (bound_value a k) (bound_value c k)"
    using upsert_all_correct [OF e1(2), of "ge_bounds c"] assms(2) e1(3)
    by (auto simp: env_invar_def bound_value_def GuaranteeEnvelope_find_def)
  let ?e = "\<lambda>cap. e2\<lparr>ge_max_concessions := cap\<rparr>"
  have "env_invar (?e cap) \<and> bound_value (?e cap) k = bound_value e2 k" for cap k
    using e2(2) by (simp add: env_invar_def bound_value_def GuaranteeEnvelope_find_def)
  then show ?thesis
    using e1(1) e2(1,3) normalize_envelope_id [OF e2(2)]
    by (auto simp: compose_envelopes_def Let_def min_def not_less)
qed

text \<open>
  Composing a contract envelope with a class ceiling takes the smallest concession budget, but
  the union of what the two bounds of a kind admit: where both have a bound, a value is admitted
  when either admits it, and where only one has a bound that bound is used. The comments in
  \<open>policy.hpp\<close> and \<open>policy.cpp\<close> say that the stricter bound per kind is kept.
\<close>

theorem compose_envelopes_admits_union:
  assumes "GuaranteeEnvelope_validate a = EC_Ok" and "GuaranteeEnvelope_validate c = EC_Ok"
  shows "\<exists>e. compose_envelopes a c m = Inr e \<and> GuaranteeEnvelope_validate e = EC_Ok \<and>
    ge_max_concessions e = min m (min (ge_max_concessions a) (ge_max_concessions c)) \<and>
    (\<forall>k. case (bound_value a k, bound_value c k, bound_value e k) of
       (Some x, Some y, Some z) \<Rightarrow>
         (\<forall>v. bound_accepts k z v \<longleftrightarrow> bound_accepts k x v \<or> bound_accepts k y v)
     | (Some x, None, z) \<Rightarrow> z = Some x
     | (None, y, z) \<Rightarrow> z = y
     | _ \<Rightarrow> False)"
proof -
  obtain e where e: "compose_envelopes a c m = Inr e" "env_invar e"
      "ge_max_concessions e = min m (min (ge_max_concessions a) (ge_max_concessions c))"
      "\<forall>k. bound_value e k = merge_opt k (bound_value a k) (bound_value c k)"
    using compose_correct [of a c m] assms by auto
  then show ?thesis
    by (intro exI [of _ e]) (auto simp: merge_opt_def merge_bound_accepts split: option.splits)
qed

theorem compose_envelopes_admits_union_witness:
  "\<exists>e. compose_envelopes
      \<lparr>ge_bounds = [\<lparr>cb_kind = GK_Bandwidth, cb_weakest_allowed_value = 8\<rparr>], ge_max_concessions = 2\<rparr>
      \<lparr>ge_bounds = [\<lparr>cb_kind = GK_Bandwidth, cb_weakest_allowed_value = 2\<rparr>], ge_max_concessions = 1\<rparr> 4 =
    Inr e \<and> ge_max_concessions e = 1"
proof -
  let ?a = "\<lparr>ge_bounds = [\<lparr>cb_kind = GK_Bandwidth, cb_weakest_allowed_value = 8\<rparr>], ge_max_concessions = 2\<rparr>"
  let ?c = "\<lparr>ge_bounds = [\<lparr>cb_kind = GK_Bandwidth, cb_weakest_allowed_value = 2\<rparr>], ge_max_concessions = 1\<rparr>"
  have "GuaranteeEnvelope_validate ?a = EC_Ok" and "GuaranteeEnvelope_validate ?c = EC_Ok"
    by code_simp+
  from compose_envelopes_admits_union [OF this, of 4] obtain e where
      "compose_envelopes ?a ?c 4 = Inr e"
      "ge_max_concessions e = min 4 (min (ge_max_concessions ?a) (ge_max_concessions ?c))"
    by blast
  then show ?thesis
    by (intro exI [of _ e]) (simp add: min_def word_le_nat_alt)
qed

text \<open>
  A change the composed envelope tolerates is tolerated by the contract's own envelope or by the class ceiling.
\<close>

lemma composed_floor:
  assumes "\<forall>k. bound_value e k = merge_opt k (bound_value a k) (bound_value c k)"
    and "g_comparator base = comparator_for (g_kind base)" and "within_floor e base v"
  shows "within_floor a base v \<or> within_floor c base v"
proof -
  have floor: "floor_for x (g_kind base) y = (case bound_value x (g_kind base) of None \<Rightarrow> y | Some w \<Rightarrow> w)" for x y
    by (simp add: floor_for_def bound_value_def split: option.split)
  show ?thesis
    using assms(3) merge_bound_accepts [of "g_kind base" _ _ v]
    by (auto simp: within_floor_def floor assms(1,2) merge_opt_def bound_accepts_def split: option.splits if_splits)
qed

lemma effective_envelope_profile:
  assumes "class_profile p (sc_service_class c) = Some q" and "env_invar (sc_envelope c)" and "env_invar (cp_ceiling q)"
  obtains e where "effective_envelope p c = Inr e"
    "ge_max_concessions e \<le> ge_max_concessions (sc_envelope c)"
    "ge_max_concessions e \<le> ge_max_concessions (cp_ceiling q)" "ge_max_concessions e \<le> po_max_concessions_per_contract p"
    "protected_obligation c \<or> \<not> cp_may_be_degraded q \<Longrightarrow> ge_max_concessions e = 0"
    "ge_max_concessions e \<noteq> 0 \<Longrightarrow>
       \<forall>k. bound_value e k = merge_opt k (bound_value (sc_envelope c) k) (bound_value (cp_ceiling q) k)"
proof (cases "protected_obligation c \<or> \<not> cp_may_be_degraded q")
  case True
  then show ?thesis
    using assms(1) by (intro that [of empty_envelope]) (simp_all add: effective_envelope_def empty_envelope_def)
next
  case False
  then show ?thesis
    using compose_correct [OF assms(2,3), of "po_max_concessions_per_contract p"] assms(1)
    by (auto simp: effective_envelope_def min_le_iff_disj intro!: that)
qed

text \<open>
  C15. Protected obligations are never given room, and degradable ones no more than was agreed. For a valid policy
  with a profile for the class of a valid contract there is an effective envelope. It permits the original
  guarantees. Whatever else it permits keeps the kinds of the original, changes no more values than the contract's budget, the
  class ceiling's budget and the policy's budget allow, and changes a value only to one within the bound of the
  contract's own envelope or of the class ceiling. For a protected contract, or a class declared not degradable, it permits
  the original and nothing else, however generous the envelope and the ceiling are.
\<close>

theorem effective_envelope_protects:
  assumes "Policy_validate p = EC_Ok" and "ServiceContract_validate c = EC_Ok"
    and "class_profile p (sc_service_class c) = Some q"
  shows "\<exists>e. effective_envelope p c = Inr e \<and> permits e (sc_original c) (sc_original c) \<and>
    (\<forall>a. GuaranteeSet_validate a = EC_Ok \<longrightarrow> permits e (sc_original c) a \<longrightarrow>
       kinds a = kinds (sc_original c) \<and>
       length (filter (changed a) (sc_original c)) \<le>
         unat (min (ge_max_concessions (sc_envelope c)) (min (ge_max_concessions (cp_ceiling q)) (po_max_concessions_per_contract p))) \<and>
       (\<forall>base \<in> set (sc_original c). \<forall>g. GuaranteeSet_find a (g_kind base) = Some g \<longrightarrow> g_value g \<noteq> g_value base \<longrightarrow>
          within_floor (sc_envelope c) base (g_value g) \<or> within_floor (cp_ceiling q) base (g_value g)) \<and>
       (protected_obligation c \<or> \<not> cp_may_be_degraded q \<longrightarrow> a = sc_original c))"
proof -
  let ?m = "min (ge_max_concessions (sc_envelope c)) (min (ge_max_concessions (cp_ceiling q)) (po_max_concessions_per_contract p))"
  have inv: "set_invar (sc_original c)" "env_invar (sc_envelope c)" "env_invar (cp_ceiling q)"
    using assms policy_ok_profile [OF assms(1,3)] by (simp_all add: contract_ok_iff validate_envelope_against_ok)
  obtain e where e: "effective_envelope p c = Inr e" "ge_max_concessions e \<le> ?m"
      "protected_obligation c \<or> \<not> cp_may_be_degraded q \<Longrightarrow> ge_max_concessions e = 0"
      "ge_max_concessions e \<noteq> 0 \<Longrightarrow>
         \<forall>k. bound_value e k = merge_opt k (bound_value (sc_envelope c) k) (bound_value (cp_ceiling q) k)"
    by (rule effective_envelope_profile [OF assms(3) inv(2,3)]) simp
  have own: "permits e (sc_original c) (sc_original c)"
    using inv(1) by (auto simp: permits_exact changed_def guarantee_set.lookup_key)
  have "kinds a = kinds (sc_original c) \<and> length (filter (changed a) (sc_original c)) \<le> unat (ge_max_concessions e) \<and>
      (\<forall>base \<in> set (sc_original c). \<forall>g. GuaranteeSet_find a (g_kind base) = Some g \<longrightarrow> g_value g \<noteq> g_value base \<longrightarrow>
         ge_max_concessions e \<noteq> 0 \<and> within_floor e base (g_value g))"
    if "set_invar a" "permits e (sc_original c) a" for a
    using that inv(1) by (auto simp: permits_exact changed_def guarantee_set.lookup_key split: if_splits)
  moreover have "unat (ge_max_concessions e) \<le> unat ?m"
    using e(2) by (simp only: word_le_nat_alt)
  moreover have "a = sc_original c" if "permits e (sc_original c) a" "protected_obligation c \<or> \<not> cp_may_be_degraded q" for a
    using that e(3) by (simp add: permits_def)
  moreover have "within_floor (sc_envelope c) base v \<or> within_floor (cp_ceiling q) base v"
    if "base \<in> set (sc_original c)" "ge_max_concessions e \<noteq> 0" "within_floor e base v" for base v
    using composed_floor [OF e(4) set_invar_comparator] that inv(1) by blast
  ultimately show ?thesis
    using e(1) own unfolding validate_ok_iff by (intro exI [of _ e]) (meson order.trans)
qed

text \<open>An envelope and a ceiling that both allow a concession, in a class that is not degradable.\<close>

definition unyielding_policy :: Policy where
  "unyielding_policy = (empty_policy 1 1)\<lparr>po_rules := sample_rules, po_max_concessions_per_contract := 4,
     po_class_profiles := [\<lparr>cp_service_class = SC_Standard,
       cp_ceiling = \<lparr>ge_bounds = [\<lparr>cb_kind = GK_Bandwidth, cb_weakest_allowed_value = 2\<rparr>],
         ge_max_concessions = 2\<rparr>, cp_may_be_degraded = False\<rparr>]\<rparr>"

definition generous_contract :: ServiceContract where
  "generous_contract = sample_contract\<lparr>sc_service_class := SC_Standard,
     sc_envelope := \<lparr>ge_bounds = [\<lparr>cb_kind = GK_Bandwidth, cb_weakest_allowed_value = 4\<rparr>], ge_max_concessions = 1\<rparr>\<rparr>"

theorem effective_envelope_protects_witness:
  "\<exists>e. effective_envelope unyielding_policy generous_contract = Inr e \<and>
     permits (sc_envelope generous_contract) (sc_original generous_contract) [mk_guarantee GK_Bandwidth 5 True] \<and>
     \<not> permits e (sc_original generous_contract) [mk_guarantee GK_Bandwidth 5 True] \<and>
     permits e (sc_original generous_contract) (sc_original generous_contract)"
proof -
  have "Policy_validate unyielding_policy = EC_Ok"
    by (simp add: unyielding_policy_def sample_rules_def empty_policy_def Policy_validate_def status_simps
      valid_id_def PolicyRule_validate_def ClassProfile_validate_def env_invar_def bound_in_domain_def
      kMaxBandwidthKbps_def kMaxCollectionItems_def)
  moreover have "ServiceContract_validate generous_contract = EC_Ok" and "sc_service_class generous_contract = SC_Standard"
    and "GuaranteeSet_validate [mk_guarantee GK_Bandwidth 5 True] = EC_Ok"
    and "[mk_guarantee GK_Bandwidth 5 True] \<noteq> sc_original generous_contract"
    and "permits (sc_envelope generous_contract) (sc_original generous_contract) [mk_guarantee GK_Bandwidth 5 True]"
    by code_simp+
  moreover have "class_profile unyielding_policy SC_Standard \<noteq> None"
    "\<not> cp_may_be_degraded (the (class_profile unyielding_policy SC_Standard))"
    by code_simp+
  ultimately show ?thesis
    using effective_envelope_protects [of unyielding_policy generous_contract] by (metis option.exhaust_sel)
qed

end
