(* ===== verification/Authority.thy ===== *)
theory Authority
  imports Policy
begin

unbundle bit_operations_syntax

text \<open>
  Authority binding and lifecycle: \<open>include/dmf/authority.hpp\<close> and \<open>src/domain/authority.cpp\<close>.
  \<open>AuthorityDelta\<close> is the bit set of the source, kept at its width of 32 bits. The grant lifecycle
  is a step relation; its invariants are proved by rule induction.
\<close>

section \<open>Bindings\<close>

record Incarnation =
  in_process :: u64
  in_boot :: u64
  in_boot_tick :: tick

definition Incarnation_valid :: "Incarnation \<Rightarrow> bool" where
  "Incarnation_valid i \<longleftrightarrow> valid_id (in_process i) \<and> valid_id (in_boot i)"

record AuthorityVector =
  av_coordinator_term :: u64
  av_boot :: u64
  av_fabric :: u64
  av_capacity :: u64
  av_policy :: u64
  av_evidence :: u64

definition AuthorityVector_valid :: "AuthorityVector \<Rightarrow> bool" where
  "AuthorityVector_valid v \<longleftrightarrow>
     valid_id (av_coordinator_term v) \<and> valid_id (av_boot v) \<and> valid_id (av_fabric v) \<and>
     valid_id (av_capacity v) \<and> valid_id (av_policy v) \<and> valid_id (av_evidence v)"

definition AuthorityVector_digest :: "AuthorityVector \<Rightarrow> digest64" where
  "AuthorityVector_digest v =
     (update_u64 (av_evidence v) \<circ> update_u64 (av_policy v) \<circ> update_u64 (av_capacity v) \<circ>
      update_u64 (av_fabric v) \<circ> update_u64 (av_boot v) \<circ> update_u64 (av_coordinator_term v)) kFnvOffset"

type_synonym AuthorityDelta = u32

definition AD_None :: AuthorityDelta where "AD_None = 0"
definition AD_CoordinatorTerm :: AuthorityDelta where "AD_CoordinatorTerm = push_bit 0 1"
definition AD_Boot :: AuthorityDelta where "AD_Boot = push_bit 1 1"
definition AD_Fabric :: AuthorityDelta where "AD_Fabric = push_bit 2 1"
definition AD_Capacity :: AuthorityDelta where "AD_Capacity = push_bit 3 1"
definition AD_Policy :: AuthorityDelta where "AD_Policy = push_bit 4 1"
definition AD_Evidence :: AuthorityDelta where "AD_Evidence = push_bit 5 1"
definition AD_Contract :: AuthorityDelta where "AD_Contract = push_bit 6 1"
definition AD_ContractGeneration :: AuthorityDelta where "AD_ContractGeneration = push_bit 7 1"
definition AD_Subject :: AuthorityDelta where "AD_Subject = push_bit 8 1"
definition AD_SubjectGeneration :: AuthorityDelta where "AD_SubjectGeneration = push_bit 9 1"
definition AD_Scope :: AuthorityDelta where "AD_Scope = push_bit 10 1"

lemmas AD_defs = AD_None_def AD_CoordinatorTerm_def AD_Boot_def AD_Fabric_def AD_Capacity_def
  AD_Policy_def AD_Evidence_def AD_Contract_def AD_ContractGeneration_def AD_Subject_def
  AD_SubjectGeneration_def AD_Scope_def

definition has_flag :: "AuthorityDelta \<Rightarrow> AuthorityDelta \<Rightarrow> bool" where
  "has_flag v flag \<longleftrightarrow> v AND flag \<noteq> 0"

definition invalidates_authority :: "AuthorityDelta \<Rightarrow> bool" where
  "invalidates_authority v \<longleftrightarrow> v \<noteq> 0"

record AuthorityBinding =
  ab_vector :: AuthorityVector
  ab_contract :: u64
  ab_contract_generation :: u64
  ab_subject :: u64
  ab_subject_generation :: u64
  ab_scope :: u64

definition AuthorityBinding_valid :: "AuthorityBinding \<Rightarrow> bool" where
  "AuthorityBinding_valid b \<longleftrightarrow>
     AuthorityVector_valid (ab_vector b) \<and> valid_id (ab_contract b) \<and>
     valid_id (ab_contract_generation b) \<and> valid_id (ab_subject b) \<and>
     valid_id (ab_subject_generation b) \<and> valid_id (ab_scope b)"

definition flag_if :: "bool \<Rightarrow> AuthorityDelta \<Rightarrow> AuthorityDelta \<Rightarrow> AuthorityDelta" where
  "flag_if c flag delta = (if c then delta OR flag else delta)"

definition classify :: "AuthorityBinding \<Rightarrow> AuthorityBinding \<Rightarrow> AuthorityDelta" where
  "classify a b =
     (let v = ab_vector a; w = ab_vector b
      in flag_if (ab_scope a \<noteq> ab_scope b) AD_Scope
        (flag_if (ab_subject_generation a \<noteq> ab_subject_generation b) AD_SubjectGeneration
        (flag_if (ab_subject a \<noteq> ab_subject b) AD_Subject
        (flag_if (ab_contract_generation a \<noteq> ab_contract_generation b) AD_ContractGeneration
        (flag_if (ab_contract a \<noteq> ab_contract b) AD_Contract
        (flag_if (av_evidence v \<noteq> av_evidence w) AD_Evidence
        (flag_if (av_policy v \<noteq> av_policy w) AD_Policy
        (flag_if (av_capacity v \<noteq> av_capacity w) AD_Capacity
        (flag_if (av_fabric v \<noteq> av_fabric w) AD_Fabric
        (flag_if (av_boot v \<noteq> av_boot w) AD_Boot
        (flag_if (av_coordinator_term v \<noteq> av_coordinator_term w) AD_CoordinatorTerm
          AD_None)))))))))))"

definition AuthorityBinding_digest :: "AuthorityBinding \<Rightarrow> digest64" where
  "AuthorityBinding_digest b =
     (update_u64 (ab_scope b) \<circ> update_u64 (ab_subject_generation b) \<circ> update_u64 (ab_subject b) \<circ>
      update_u64 (ab_contract_generation b) \<circ> update_u64 (ab_contract b) \<circ>
      update_u64 (AuthorityVector_digest (ab_vector b))) kFnvOffset"

section \<open>The authority ladder and the grant lifecycle\<close>

datatype AuthorityLevel =
    AL_None
  | AL_Observed
  | AL_Eligible
  | AL_Recommended
  | AL_Authorized
  | AL_Acknowledged
  | AL_Applied

primrec AuthorityLevel_code :: "AuthorityLevel \<Rightarrow> u16" where
  "AuthorityLevel_code AL_None = 0"
| "AuthorityLevel_code AL_Observed = 1"
| "AuthorityLevel_code AL_Eligible = 2"
| "AuthorityLevel_code AL_Recommended = 3"
| "AuthorityLevel_code AL_Authorized = 4"
| "AuthorityLevel_code AL_Acknowledged = 5"
| "AuthorityLevel_code AL_Applied = 6"

definition AuthorityLevel_all :: "AuthorityLevel list" where
  "AuthorityLevel_all =
     [AL_None, AL_Observed, AL_Eligible, AL_Recommended,
      AL_Authorized, AL_Acknowledged, AL_Applied]"

interpretation authoritylevel_wire: wire_enum AuthorityLevel_code AuthorityLevel_all
proof
  show "enum_decode AuthorityLevel_code AuthorityLevel_all (AuthorityLevel_code e) = Some e" for e
    by (cases e) (simp_all add: enum_decode_def AuthorityLevel_all_def)
qed

definition is_authority :: "AuthorityLevel \<Rightarrow> bool" where
  "is_authority v \<longleftrightarrow> AuthorityLevel_code v \<ge> AuthorityLevel_code AL_Authorized"

definition is_verified_effect :: "AuthorityLevel \<Rightarrow> bool" where
  "is_verified_effect v \<longleftrightarrow> v = AL_Applied"

datatype GrantState =
    GS_Issued
  | GS_Acknowledged
  | GS_Applied
  | GS_Fenced
  | GS_Expired
  | GS_Revoked

primrec GrantState_code :: "GrantState \<Rightarrow> u16" where
  "GrantState_code GS_Issued = 1"
| "GrantState_code GS_Acknowledged = 2"
| "GrantState_code GS_Applied = 3"
| "GrantState_code GS_Fenced = 4"
| "GrantState_code GS_Expired = 5"
| "GrantState_code GS_Revoked = 6"

definition GrantState_all :: "GrantState list" where
  "GrantState_all =
     [GS_Issued, GS_Acknowledged, GS_Applied, GS_Fenced,
      GS_Expired, GS_Revoked]"

interpretation grantstate_wire: wire_enum GrantState_code GrantState_all
proof
  show "enum_decode GrantState_code GrantState_all (GrantState_code e) = Some e" for e
    by (cases e) (simp_all add: enum_decode_def GrantState_all_def)
qed

definition grant_state_terminal :: "GrantState \<Rightarrow> bool" where
  "grant_state_terminal v \<longleftrightarrow> v = GS_Fenced \<or> v = GS_Expired \<or> v = GS_Revoked"

definition grant_state_live :: "GrantState \<Rightarrow> bool" where
  "grant_state_live v \<longleftrightarrow> \<not> grant_state_terminal v"

definition grant_transition_allowed :: "GrantState \<Rightarrow> GrantState \<Rightarrow> bool" where
  "grant_transition_allowed from_state to_state \<longleftrightarrow>
     (if from_state = to_state then False
      else if grant_state_terminal from_state then False
      else case from_state of
        GS_Issued \<Rightarrow> to_state \<in> {GS_Acknowledged, GS_Applied, GS_Fenced, GS_Expired, GS_Revoked}
      | GS_Acknowledged \<Rightarrow> to_state \<in> {GS_Applied, GS_Fenced, GS_Expired, GS_Revoked}
      | GS_Applied \<Rightarrow> to_state \<in> {GS_Fenced, GS_Expired, GS_Revoked}
      | _ \<Rightarrow> False)"

datatype FenceReason =
    FR_TopologyChange
  | FR_CapacityChange
  | FR_PolicyChange
  | FR_ContractChange
  | FR_CoordinatorTermAdvance
  | FR_BootAdvance
  | FR_Expiry
  | FR_Revocation
  | FR_SessionLoss
  | FR_Manual
  | FR_AuthorityUnprovable
  | FR_Restored

primrec FenceReason_code :: "FenceReason \<Rightarrow> u16" where
  "FenceReason_code FR_TopologyChange = 1"
| "FenceReason_code FR_CapacityChange = 2"
| "FenceReason_code FR_PolicyChange = 3"
| "FenceReason_code FR_ContractChange = 4"
| "FenceReason_code FR_CoordinatorTermAdvance = 5"
| "FenceReason_code FR_BootAdvance = 6"
| "FenceReason_code FR_Expiry = 7"
| "FenceReason_code FR_Revocation = 8"
| "FenceReason_code FR_SessionLoss = 9"
| "FenceReason_code FR_Manual = 10"
| "FenceReason_code FR_AuthorityUnprovable = 11"
| "FenceReason_code FR_Restored = 12"

definition FenceReason_all :: "FenceReason list" where
  "FenceReason_all =
     [FR_TopologyChange, FR_CapacityChange, FR_PolicyChange, FR_ContractChange,
      FR_CoordinatorTermAdvance, FR_BootAdvance, FR_Expiry, FR_Revocation,
      FR_SessionLoss, FR_Manual, FR_AuthorityUnprovable, FR_Restored]"

interpretation fencereason_wire: wire_enum FenceReason_code FenceReason_all
proof
  show "enum_decode FenceReason_code FenceReason_all (FenceReason_code e) = Some e" for e
    by (cases e) (simp_all add: enum_decode_def FenceReason_all_def)
qed

definition fence_reason_for :: "AuthorityDelta \<Rightarrow> FenceReason" where
  "fence_reason_for delta =
     (if has_flag delta AD_Boot then FR_BootAdvance
      else if has_flag delta AD_CoordinatorTerm then FR_CoordinatorTermAdvance
      else if has_flag delta AD_Fabric then FR_TopologyChange
      else if has_flag delta AD_Capacity then FR_CapacityChange
      else if has_flag delta AD_Policy then FR_PolicyChange
      else if has_flag delta AD_Contract \<or> has_flag delta AD_ContractGeneration \<or>
              has_flag delta AD_Subject \<or> has_flag delta AD_SubjectGeneration \<or>
              has_flag delta AD_Scope then FR_ContractChange
      else if has_flag delta AD_Evidence then FR_AuthorityUnprovable
      else FR_Manual)"

record FenceRecord =
  fr_id :: u64
  fr_grant :: u64
  fr_reason :: FenceReason
  fr_delta :: AuthorityDelta
  fr_prior :: AuthorityBinding
  fr_current :: AuthorityBinding
  fr_fenced_tick :: tick

definition FenceRecord_validate :: "FenceRecord \<Rightarrow> status" where
  "FenceRecord_validate f =
     require (valid_id (fr_id f)) EC_InvalidArgument
       (require (valid_id (fr_grant f)) EC_InvalidArgument EC_Ok)"

definition FenceRecord_digest :: "FenceRecord \<Rightarrow> digest64" where
  "FenceRecord_digest f =
     (update_u64 (fr_fenced_tick f) \<circ> update_u64 (AuthorityBinding_digest (fr_current f)) \<circ>
      update_u64 (AuthorityBinding_digest (fr_prior f)) \<circ> update_u32 (fr_delta f) \<circ>
      update_u16 (FenceReason_code (fr_reason f)) \<circ> update_u64 (fr_grant f) \<circ>
      update_u64 (fr_id f)) kFnvOffset"

section \<open>The delta names exactly the components that differ\<close>

lemma has_flag_push_bit: "has_flag v (push_bit n 1) \<longleftrightarrow> bit v n" if "n < 32"
proof -
  have "v AND push_bit n 1 = (if bit v n then push_bit n 1 else 0)"
    by (rule bit_word_eqI) (use that in \<open>auto simp: bit_simps\<close>)
  moreover have "push_bit n 1 \<noteq> (0 :: u32)"
  proof
    assume "push_bit n 1 = (0 :: u32)"
    then have "bit (push_bit n 1 :: u32) n = bit (0 :: u32) n"
      by (rule arg_cong)
    then show False
      using that by (simp add: bit_simps)
  qed
  ultimately show ?thesis
    by (simp add: has_flag_def)
qed

lemma has_flag_bits:
  "has_flag v AD_CoordinatorTerm = bit v 0" "has_flag v AD_Boot = bit v 1"
  "has_flag v AD_Fabric = bit v 2" "has_flag v AD_Capacity = bit v 3"
  "has_flag v AD_Policy = bit v 4" "has_flag v AD_Evidence = bit v 5"
  "has_flag v AD_Contract = bit v 6" "has_flag v AD_ContractGeneration = bit v 7"
  "has_flag v AD_Subject = bit v 8" "has_flag v AD_SubjectGeneration = bit v 9"
  "has_flag v AD_Scope = bit v 10"
  unfolding AD_defs by (rule has_flag_push_bit, simp)+

lemma bit_flag_if:
  "n < 32 \<Longrightarrow> bit (flag_if c (push_bit m 1) delta) n \<longleftrightarrow> (c \<and> m = n) \<or> bit delta n"
  by (auto simp: flag_if_def bit_simps)

lemma bit_classify:
  assumes "n < 32"
  shows "bit (classify a b) n \<longleftrightarrow>
    (n = 0 \<and> av_coordinator_term (ab_vector a) \<noteq> av_coordinator_term (ab_vector b)) \<or>
    (n = 1 \<and> av_boot (ab_vector a) \<noteq> av_boot (ab_vector b)) \<or>
    (n = 2 \<and> av_fabric (ab_vector a) \<noteq> av_fabric (ab_vector b)) \<or>
    (n = 3 \<and> av_capacity (ab_vector a) \<noteq> av_capacity (ab_vector b)) \<or>
    (n = 4 \<and> av_policy (ab_vector a) \<noteq> av_policy (ab_vector b)) \<or>
    (n = 5 \<and> av_evidence (ab_vector a) \<noteq> av_evidence (ab_vector b)) \<or>
    (n = 6 \<and> ab_contract a \<noteq> ab_contract b) \<or>
    (n = 7 \<and> ab_contract_generation a \<noteq> ab_contract_generation b) \<or>
    (n = 8 \<and> ab_subject a \<noteq> ab_subject b) \<or>
    (n = 9 \<and> ab_subject_generation a \<noteq> ab_subject_generation b) \<or>
    (n = 10 \<and> ab_scope a \<noteq> ab_scope b)"
  unfolding classify_def Let_def AD_defs using assms
  by (simp only: bit_flag_if bit_0_eq) auto

lemma classify_eq_0: "classify a b = 0 \<longleftrightarrow> a = b"
proof
  assume "classify a b = 0"
  then have "\<not> bit (classify a b) n" for n
    by simp
  then have bits: "n < 32 \<Longrightarrow> \<not> bit (classify a b) n" for n
    by blast
  have "ab_vector a = ab_vector b"
    using bits [of 0] bits [of 1] bits [of 2] bits [of 3] bits [of 4] bits [of 5]
    by (simp add: bit_classify)
  then show "a = b"
    using bits [of 6] bits [of 7] bits [of 8] bits [of 9] bits [of 10] by (simp add: bit_classify)
next
  show "a = b \<Longrightarrow> classify a b = 0"
    by (simp add: classify_def flag_if_def AD_None_def)
qed

text \<open>
  The authority delta between two bindings is exact: each of its eleven flags is set exactly
  when the component it names differs, so authority is invalidated exactly when the bindings are
  not equal; and the fence reason derived from it is a real cause (never \<open>Manual\<close>) exactly when
  something differs.
\<close>

theorem authority_delta_exact:
  "(has_flag (classify a b) AD_CoordinatorTerm \<longleftrightarrow>
      av_coordinator_term (ab_vector a) \<noteq> av_coordinator_term (ab_vector b)) \<and>
   (has_flag (classify a b) AD_Boot \<longleftrightarrow> av_boot (ab_vector a) \<noteq> av_boot (ab_vector b)) \<and>
   (has_flag (classify a b) AD_Fabric \<longleftrightarrow> av_fabric (ab_vector a) \<noteq> av_fabric (ab_vector b)) \<and>
   (has_flag (classify a b) AD_Capacity \<longleftrightarrow> av_capacity (ab_vector a) \<noteq> av_capacity (ab_vector b)) \<and>
   (has_flag (classify a b) AD_Policy \<longleftrightarrow> av_policy (ab_vector a) \<noteq> av_policy (ab_vector b)) \<and>
   (has_flag (classify a b) AD_Evidence \<longleftrightarrow> av_evidence (ab_vector a) \<noteq> av_evidence (ab_vector b)) \<and>
   (has_flag (classify a b) AD_Contract \<longleftrightarrow> ab_contract a \<noteq> ab_contract b) \<and>
   (has_flag (classify a b) AD_ContractGeneration \<longleftrightarrow>
      ab_contract_generation a \<noteq> ab_contract_generation b) \<and>
   (has_flag (classify a b) AD_Subject \<longleftrightarrow> ab_subject a \<noteq> ab_subject b) \<and>
   (has_flag (classify a b) AD_SubjectGeneration \<longleftrightarrow>
      ab_subject_generation a \<noteq> ab_subject_generation b) \<and>
   (has_flag (classify a b) AD_Scope \<longleftrightarrow> ab_scope a \<noteq> ab_scope b) \<and>
   (invalidates_authority (classify a b) \<longleftrightarrow> a \<noteq> b) \<and>
   (fence_reason_for (classify a b) \<noteq> FR_Manual \<longleftrightarrow> a \<noteq> b)"
proof -
  have vec: "ab_vector a = ab_vector b \<longleftrightarrow>
      av_coordinator_term (ab_vector a) = av_coordinator_term (ab_vector b) \<and>
      av_boot (ab_vector a) = av_boot (ab_vector b) \<and> av_fabric (ab_vector a) = av_fabric (ab_vector b) \<and>
      av_capacity (ab_vector a) = av_capacity (ab_vector b) \<and>
      av_policy (ab_vector a) = av_policy (ab_vector b) \<and>
      av_evidence (ab_vector a) = av_evidence (ab_vector b)"
    by (auto intro: AuthorityVector.equality)
  have eq: "a = b \<longleftrightarrow> ab_vector a = ab_vector b \<and> ab_contract a = ab_contract b \<and>
      ab_contract_generation a = ab_contract_generation b \<and> ab_subject a = ab_subject b \<and>
      ab_subject_generation a = ab_subject_generation b \<and> ab_scope a = ab_scope b"
    by (auto intro: AuthorityBinding.equality)
  show ?thesis
    unfolding fence_reason_for_def invalidates_authority_def classify_eq_0 has_flag_bits
    by (simp add: bit_classify eq vec)
qed

section \<open>Lifecycle of a grant\<close>

text \<open>One legal transition, and the reachable histories of a grant issued as \<open>Issued\<close>.\<close>

inductive grant_run :: "GrantState list \<Rightarrow> GrantState \<Rightarrow> bool" where
  issued: "grant_run [] GS_Issued"
| step: "grant_run h s \<Longrightarrow> grant_transition_allowed s s' \<Longrightarrow> grant_run (h @ [s]) s'"

primrec stage :: "GrantState \<Rightarrow> nat" where
  "stage GS_Issued = 0"
| "stage GS_Acknowledged = 1"
| "stage GS_Applied = 2"
| "stage GS_Fenced = 3"
| "stage GS_Expired = 3"
| "stage GS_Revoked = 3"

lemma transition_stage: "grant_transition_allowed s s' \<Longrightarrow> stage s < stage s'"
  by (cases s; cases s') (simp_all add: grant_transition_allowed_def grant_state_terminal_def)

lemma transition_from_live: "grant_transition_allowed s s' \<Longrightarrow> grant_state_live s"
  by (simp add: grant_transition_allowed_def grant_state_live_def split: if_splits)

text \<open>
  The grant lifecycle is a strictly forward state machine: along every history of legal
  transitions from \<open>Issued\<close> the grant was live at every earlier point, no state is ever revisited,
  a terminal state has no successor, and no history makes more than three transitions.
\<close>

theorem grant_lifecycle:
  assumes "grant_run h s"
  shows "list_all grant_state_live h \<and> distinct (h @ [s]) \<and> length h \<le> 3 \<and>
    (grant_state_terminal s \<longrightarrow> (\<forall>s'. \<not> grant_run (h @ [s]) s'))"
proof -
  have "list_all grant_state_live h \<and> sorted_wrt (<) (map stage (h @ [s])) \<and> length h \<le> stage s"
    using assms
  proof (induction rule: grant_run.induct)
    case (step h s s')
    have "stage s < stage s'" and "grant_state_live s"
      using step.hyps(2) by (rule transition_stage, rule transition_from_live)
    then show ?case
      using step.IH by (auto simp: sorted_wrt_append intro: order.strict_trans)
  qed simp
  moreover have "stage s \<le> 3"
    by (cases s) simp_all
  moreover have "distinct (h @ [s])" if "sorted_wrt (<) (map stage (h @ [s]))"
    using that by (metis distinct_map strict_sorted_iff)
  moreover have "\<not> grant_run (h @ [s]) s'" if "grant_state_terminal s" for s'
  proof
    assume "grant_run (h @ [s]) s'"
    then have "grant_transition_allowed s s'"
      by (cases rule: grant_run.cases) auto
    then show False
      using that transition_from_live by (auto simp: grant_state_live_def)
  qed
  ultimately show ?thesis
    by auto
qed

theorem grant_lifecycle_witness:
  "list_all grant_state_live [GS_Issued, GS_Applied] \<and> (\<forall>s. \<not> grant_run [GS_Issued, GS_Applied, GS_Fenced] s)"
proof -
  have "grant_run [GS_Issued] GS_Applied"
    using grant_run.step [OF grant_run.issued, of GS_Applied]
    by (simp add: grant_transition_allowed_def grant_state_terminal_def)
  from grant_run.step [OF this, of GS_Fenced] have "grant_run [GS_Issued, GS_Applied] GS_Fenced"
    by (simp add: grant_transition_allowed_def grant_state_terminal_def)
  from grant_lifecycle [OF this] show ?thesis
    by (simp add: grant_state_terminal_def)
qed

end
