(* ===== verification/Decision.thy ===== *)
theory Decision
  imports Authority
begin

text \<open>
  Allocation plans and decisions: \<open>include/dmf/decision.hpp\<close> and \<open>src/domain/decision.cpp\<close>.
  The explanation and rendering functions are presentation only and are not modelled.
\<close>

record GuaranteeSupport =
  gs_kind :: GuaranteeKind
  gs_support :: SupportTri
  gs_reason :: ReasonCode

record AllocationWork =
  aw_nodes_visited :: u64
  aw_nodes_pruned :: u64
  aw_budget :: u64
  aw_budget_exhausted :: bool

record AllocationEntry =
  ae_contract :: u64
  ae_contract_generation :: u64
  ae_scope :: u64
  ae_admitted :: bool
  ae_full :: bool
  ae_approved :: guarantee_set
  ae_delta :: GuaranteeDelta
  ae_allocated_bandwidth_kbps :: u64
  ae_outcome :: DecisionOutcome
  ae_reason :: ReasonCode

definition new_entry :: AllocationEntry where
  "new_entry = \<lparr>ae_contract = 0, ae_contract_generation = 0, ae_scope = 0, ae_admitted = False,
     ae_full = False, ae_approved = [], ae_delta = empty_delta, ae_allocated_bandwidth_kbps = 0,
     ae_outcome = DO_Refused, ae_reason = RC_None\<rparr>"

record InfeasibilityCertificate =
  ic_required_protected :: u32
  ic_available_protected :: u32
  ic_minimum_demand_kbps :: u64
  ic_offered_capacity_kbps :: u64
  ic_valid :: bool

definition new_certificate :: InfeasibilityCertificate where
  "new_certificate = \<lparr>ic_required_protected = 0, ic_available_protected = 0,
     ic_minimum_demand_kbps = 0, ic_offered_capacity_kbps = 0, ic_valid = False\<rparr>"

record AllocationPlan =
  ap_id :: u64
  ap_authority :: AuthorityVector
  ap_scope :: u64
  ap_capacity_generation :: u64
  ap_status :: PlanStatus
  ap_entries :: "AllocationEntry list"
  ap_available_bandwidth_kbps :: u64
  ap_allocated_bandwidth_kbps :: u64
  ap_work :: AllocationWork
  ap_certificate :: InfeasibilityCertificate
  ap_planned_tick :: tick
  ap_protected_shortfall :: bool

definition no_vector :: AuthorityVector where
  "no_vector = \<lparr>av_coordinator_term = 0, av_boot = 0, av_fabric = 0, av_capacity = 0,
     av_policy = 0, av_evidence = 0\<rparr>"

definition new_plan :: AllocationPlan where
  "new_plan = \<lparr>ap_id = 0, ap_authority = no_vector, ap_scope = 0, ap_capacity_generation = 0,
     ap_status = PS_Invalid, ap_entries = [], ap_available_bandwidth_kbps = 0,
     ap_allocated_bandwidth_kbps = 0,
     ap_work = \<lparr>aw_nodes_visited = 0, aw_nodes_pruned = 0, aw_budget = 0, aw_budget_exhausted = False\<rparr>,
     ap_certificate = new_certificate, ap_planned_tick = 0, ap_protected_shortfall = False\<rparr>"

definition AllocationPlan_find :: "AllocationPlan \<Rightarrow> u64 \<Rightarrow> AllocationEntry option" where
  "AllocationPlan_find p contract = find_ptr (\<lambda>e. ae_contract e = contract) (ap_entries p)"

definition entry_digest_into :: "AllocationEntry \<Rightarrow> digest64 \<Rightarrow> digest64" where
  "entry_digest_into e =
     update_u16 (ReasonCode_code (ae_reason e)) \<circ> update_u16 (DecisionOutcome_code (ae_outcome e)) \<circ>
     update_u64 (ae_allocated_bandwidth_kbps e) \<circ> update_u64 (GuaranteeSet_digest (ae_approved e)) \<circ>
     update_bool (ae_full e) \<circ> update_bool (ae_admitted e) \<circ>
     update_u64 (ae_contract_generation e) \<circ> update_u64 (ae_contract e)"

definition AllocationPlan_digest :: "AllocationPlan \<Rightarrow> digest64" where
  "AllocationPlan_digest p =
     (update_bool (ap_protected_shortfall p) \<circ>
      update_u64 (ic_offered_capacity_kbps (ap_certificate p)) \<circ>
      update_u64 (ic_minimum_demand_kbps (ap_certificate p)) \<circ>
      update_u32 (ic_available_protected (ap_certificate p)) \<circ>
      update_u32 (ic_required_protected (ap_certificate p)) \<circ>
      update_bool (ic_valid (ap_certificate p)) \<circ>
      fold entry_digest_into (ap_entries p) \<circ> update_u32 (of_nat (length (ap_entries p))) \<circ>
      update_u64 (ap_allocated_bandwidth_kbps p) \<circ> update_u64 (ap_available_bandwidth_kbps p) \<circ>
      update_u16 (PlanStatus_code (ap_status p)) \<circ> update_u64 (ap_capacity_generation p) \<circ>
      update_u64 (ap_scope p) \<circ> update_u64 (AuthorityVector_digest (ap_authority p)) \<circ>
      update_u64 (ap_id p)) kFnvOffset"

record Decision =
  de_id :: u64
  de_binding :: AuthorityBinding
  de_service_class :: ServiceClass
  de_protected_obligation :: bool
  de_priority :: u32
  de_outcome :: DecisionOutcome
  de_max_authority :: AuthorityLevel
  de_original :: guarantee_set
  de_approved :: guarantee_set
  de_delta :: GuaranteeDelta
  de_primary_reason :: ReasonCode
  de_reasons :: "ReasonCode list"
  de_support :: "GuaranteeSupport list"
  de_evidence :: EvidenceVector
  de_evidence_state :: EvidenceState
  de_plan_status :: PlanStatus
  de_escalation_required :: bool
  de_provenance :: ProvenanceClass
  de_decided_tick :: tick
  de_expires_tick :: tick

definition Decision_validate :: "Decision \<Rightarrow> status" where
  "Decision_validate d =
     require (valid_id (de_id d)) EC_InvalidArgument
    (require (AuthorityBinding_valid (de_binding d)) EC_InvalidArgument
    (and_then (GuaranteeSet_validate (de_original d))
    (and_then (GuaranteeSet_validate (de_approved d))
    (require (classify_weakening (de_original d) (de_approved d) = WR_WeakensOrEquals) EC_Invalid
    (require (\<not> (is_authorising (de_outcome d) \<and>
        AuthorityLevel_code (de_max_authority d) < AuthorityLevel_code AL_Recommended)) EC_InvalidState
    (require (\<not> (is_authorising (de_outcome d) \<and> \<not> evidence_is_authoritative (de_evidence_state d) \<and>
        de_outcome d = DO_Full)) EC_InvalidState
    (require (\<not> (\<not> is_authorising (de_outcome d) \<and> \<not> GuaranteeDelta_empty (de_delta d))) EC_InvalidState
      EC_Ok)))))))"

definition Decision_digest :: "Decision \<Rightarrow> digest64" where
  "Decision_digest d =
     (update_u64 (de_expires_tick d) \<circ> update_u64 (de_decided_tick d) \<circ>
      update_u16 (ProvenanceClass_code (de_provenance d)) \<circ> update_bool (de_escalation_required d) \<circ>
      update_u16 (PlanStatus_code (de_plan_status d)) \<circ>
      update_u16 (EvidenceState_code (de_evidence_state d)) \<circ>
      update_u64 (EvidenceVector_digest (de_evidence d)) \<circ>
      fold (\<lambda>r. update_u16 (ReasonCode_code r)) (de_reasons d) \<circ>
      update_u32 (of_nat (length (de_reasons d))) \<circ>
      update_u16 (ReasonCode_code (de_primary_reason d)) \<circ>
      update_u64 (GuaranteeDelta_digest (de_delta d)) \<circ>
      update_u64 (GuaranteeSet_digest (de_approved d)) \<circ>
      update_u64 (GuaranteeSet_digest (de_original d)) \<circ>
      update_u16 (AuthorityLevel_code (de_max_authority d)) \<circ>
      update_u16 (DecisionOutcome_code (de_outcome d)) \<circ> update_u32 (de_priority d) \<circ>
      update_bool (de_protected_obligation d) \<circ>
      update_u16 (ServiceClass_code (de_service_class d)) \<circ>
      update_u64 (AuthorityBinding_digest (de_binding d)) \<circ> update_u64 (de_id d)) kFnvOffset"

text \<open>A decision together with the plan it came from.\<close>

record EvaluationView = Decision +
  vw_plan :: AllocationPlan

lemma decision_ok_iff:
  "Decision_validate d = EC_Ok \<longleftrightarrow>
   valid_id (de_id d) \<and> AuthorityBinding_valid (de_binding d) \<and>
   weakens_or_equals (de_original d) (de_approved d) \<and>
   (is_authorising (de_outcome d) \<longrightarrow>
      AuthorityLevel_code AL_Recommended \<le> AuthorityLevel_code (de_max_authority d)) \<and>
   (de_outcome d = DO_Full \<longrightarrow> de_evidence_state d = ES_Known) \<and>
   (\<not> is_authorising (de_outcome d) \<longrightarrow> de_delta d = empty_delta)"
proof -
  have "GuaranteeDelta_empty x \<longleftrightarrow> x = empty_delta" for x
    by (cases x) (simp add: GuaranteeDelta_empty_def empty_delta_def)
  moreover have "is_authorising DO_Full"
    by (simp add: is_authorising_def)
  ultimately show ?thesis
    by (auto simp: Decision_validate_def status_simps weakens_or_equals_def classify_weakening_def
        evidence_is_authoritative_def not_less)
qed

end
