(* ===== verification/Rigid_Search.thy ===== *)
theory Rigid_Search
  imports Decision
begin

text \<open>
  The exact branch and bound over rigid contracts: \<open>RigidItem\<close> and \<open>RigidSearch\<close> of
  \<open>src/engine/allocator.cpp\<close>.

  The recursion \<open>run(index, ...)\<close> over \<open>items[index..)\<close> is a recursion over that suffix; the vector
  \<open>current\<close> of the source, pushed before and popped after the recursive call, is an argument. All
  other members of the search object are the record \<open>rigid_search\<close>. The theory proves that the
  fractional bound is an upper bound on every completion, that the incumbent is always a feasible
  selection, and that a search that was not cut off returns the optimum.
\<close>

section \<open>The search\<close>

record RigidItem =
  ri_contract :: ServiceContract
  ri_weight :: u64
  ri_value :: u64

record rigid_search =
  rs_budget :: u64
  rs_nodes :: u64
  rs_pruned :: u64
  rs_exhausted :: bool
  rs_best_value :: u64
  rs_best_count :: u64
  rs_best_priority :: u64
  rs_best_selection :: "u32 list"

definition new_search :: "u64 \<Rightarrow> rigid_search" where
  "new_search budget = \<lparr>rs_budget = budget, rs_nodes = 0, rs_pruned = 0, rs_exhausted = False,
     rs_best_value = 0, rs_best_count = 0, rs_best_priority = 0, rs_best_selection = []\<rparr>"

definition saturating :: "u64 option \<Rightarrow> u64" where
  "saturating v = (case v of None \<Rightarrow> u64_max | Some x \<Rightarrow> x)"

definition rs_consider :: "u64 \<Rightarrow> u64 \<Rightarrow> u64 \<Rightarrow> u32 list \<Rightarrow> rigid_search \<Rightarrow> rigid_search" where
  "rs_consider cnt priority value current s =
     (let better_count = cnt > rs_best_count s;
          better_priority = (cnt = rs_best_count s \<and> priority > rs_best_priority s);
          better_tie = (cnt = rs_best_count s \<and> priority = rs_best_priority s \<and>
                        vec_less current (rs_best_selection s))
      in if \<not> better_count \<and> \<not> better_priority \<and> \<not> better_tie then s
         else s\<lparr>rs_best_count := cnt, rs_best_priority := priority, rs_best_value := value,
                rs_best_selection := current\<rparr>)"

text \<open>The loop of \<open>bound\<close> over the suffix with its locals \<open>remaining\<close> and \<open>total\<close>.\<close>

fun rs_bound :: "RigidItem list \<Rightarrow> u64 \<Rightarrow> u64 \<Rightarrow> u64" where
  "rs_bound [] remaining tot = tot"
| "rs_bound (item # items) remaining tot =
     (if ri_weight item \<le> remaining
      then rs_bound items (remaining - ri_weight item) (saturating (checked_add tot (ri_value item)))
      else if ri_weight item = 0 then rs_bound items remaining tot
      else case checked_mul (ri_value item) remaining of
             None \<Rightarrow> u64_max
           | Some scaled \<Rightarrow> saturating (checked_add tot (scaled div ri_weight item)))"

definition ri_priority :: "RigidItem \<Rightarrow> u64" where
  "ri_priority item = ucast (sc_priority (ri_contract item))"

definition rs_visit :: "rigid_search \<Rightarrow> rigid_search" where
  "rs_visit s = s\<lparr>rs_nodes := rs_nodes s + 1\<rparr>"

definition rs_prune :: "rigid_search \<Rightarrow> rigid_search" where
  "rs_prune s = s\<lparr>rs_pruned := rs_pruned s + 1\<rparr>"

fun rs_run ::
    "nat \<Rightarrow> RigidItem list \<Rightarrow> u64 \<Rightarrow> u64 \<Rightarrow> u64 \<Rightarrow> u64 \<Rightarrow> u32 list \<Rightarrow> rigid_search \<Rightarrow> rigid_search" where
  "rs_run index [] remaining cnt priority value current s =
     (if rs_exhausted s then s
      else if rs_nodes s \<ge> rs_budget s then s\<lparr>rs_exhausted := True\<rparr>
      else rs_consider cnt priority value current (rs_visit s))"
| "rs_run index (item # items) remaining cnt priority value current s =
     (if rs_exhausted s then s
      else if rs_nodes s \<ge> rs_budget s then s\<lparr>rs_exhausted := True\<rparr>
      else let s = rs_visit s
           in if cnt + of_nat (length (item # items)) < rs_best_count s then rs_prune s
              else if saturating (checked_add value (rs_bound (item # items) remaining 0)) < rs_best_value s
              then rs_prune s
              else let s = (if ri_weight item \<le> remaining
                            then (case (checked_sub remaining (ri_weight item), checked_add cnt 1,
                                        checked_add priority (ri_priority item),
                                        checked_add value (ri_value item)) of
                                    (Some r, Some c, Some p, Some v) \<Rightarrow>
                                      rs_run (Suc index) items r c p v (current @ [of_nat index]) s
                                  | _ \<Rightarrow> s\<lparr>rs_exhausted := True\<rparr>)
                            else rs_prune s)
                   in rs_run (Suc index) items remaining cnt priority value current s)"

section \<open>Selections and the objective\<close>

text \<open>All sub-selections of a list of items: the chosen positions, counted from \<open>i\<close>, and the chosen
  items.\<close>

fun picks :: "nat \<Rightarrow> RigidItem list \<Rightarrow> (u32 list \<times> RigidItem list) list" where
  "picks i [] = [([], [])]"
| "picks i (x # xs) =
     picks (Suc i) xs @ map (\<lambda>(js, ys). (of_nat i # js, x # ys)) (picks (Suc i) xs)"

definition weights :: "RigidItem list \<Rightarrow> nat" where
  "weights ys = sum_list (map (\<lambda>x. unat (ri_weight x)) ys)"

definition total_value :: "RigidItem list \<Rightarrow> nat" where
  "total_value ys = sum_list (map (\<lambda>x. unat (ri_value x)) ys)"

definition priorities :: "RigidItem list \<Rightarrow> nat" where
  "priorities ys = sum_list (map (\<lambda>x. unat (sc_priority (ri_contract x))) ys)"

lemmas sums_defs = weights_def total_value_def priorities_def

lemma sums_simps [simp]:
  "weights [] = 0" "weights (x # xs) = unat (ri_weight x) + weights xs"
  "weights (xs @ ys) = weights xs + weights ys"
  "total_value [] = 0" "total_value (x # xs) = unat (ri_value x) + total_value xs"
  "total_value (xs @ ys) = total_value xs + total_value ys"
  "priorities [] = 0" "priorities (x # xs) = unat (sc_priority (ri_contract x)) + priorities xs"
  "priorities (xs @ ys) = priorities xs + priorities ys"
  by (simp_all add: sums_defs)

lemma picks_subseq: "(js, ys) \<in> set (picks i xs) \<Longrightarrow> subseq ys xs \<and> length js = length ys"
  by (induction i xs arbitrary: js ys rule: picks.induct) auto

lemma subseq_subset: "subseq ys xs \<Longrightarrow> set ys \<subseteq> set xs"
  by (induction rule: list_emb.induct) auto

lemma subseq_sums:
  "subseq ys xs \<Longrightarrow> weights ys \<le> weights xs \<and> total_value ys \<le> total_value xs \<and>
   priorities ys \<le> priorities xs \<and> length ys \<le> length xs"
  by (induction rule: list_emb.induct) auto

text \<open>A candidate is its count, its priority sum and its positions; \<open>better\<close> is the order in which the
  search prefers candidates.\<close>

definition better :: "nat \<times> nat \<times> u32 list \<Rightarrow> nat \<times> nat \<times> u32 list \<Rightarrow> bool" where
  "better a b \<longleftrightarrow> (case (a, b) of ((c, p, js), (c', p', js')) \<Rightarrow>
     c > c' \<or> c = c' \<and> (p > p' \<or> p = p' \<and> vec_less js js'))"

interpretation better: strict_weak_order better
proof
  show "\<not> better b a" if "better a b" for a b
    using that vec_less_asym by (auto simp: better_def split: prod.splits)
  show "better a b \<or> better b c" if "better a c" for a b c
  proof -
    have "vec_less xs zs \<Longrightarrow> vec_less xs ys \<or> vec_less ys zs" for xs ys zs :: "u32 list"
      using vec_less_linear vec_less_trans by blast
    with that show ?thesis
      by (auto simp: better_def split: prod.splits)
  qed
qed

definition incumbent :: "rigid_search \<Rightarrow> nat \<times> nat \<times> u32 list" where
  "incumbent s = (unat (rs_best_count s), unat (rs_best_priority s), rs_best_selection s)"

lemma incumbent_visit [simp]: "incumbent (rs_visit s) = incumbent s" "incumbent (rs_prune s) = incumbent s"
  "incumbent (s\<lparr>rs_exhausted := b\<rparr>) = incumbent s"
  by (simp_all add: incumbent_def rs_visit_def rs_prune_def)

lemma consider_incumbent:
  "incumbent (rs_consider cnt priority value current s) =
   (if better (unat cnt, unat priority, current) (incumbent s)
    then (unat cnt, unat priority, current) else incumbent s)"
  by (auto simp: rs_consider_def Let_def incumbent_def better_def word_less_nat_alt word_unat_eq_iff)

section \<open>The fractional bound\<close>

text \<open>The bound without the machine arithmetic.\<close>

fun lp :: "RigidItem list \<Rightarrow> nat \<Rightarrow> nat" where
  "lp [] r = 0"
| "lp (x # xs) r =
     (if unat (ri_weight x) \<le> r then unat (ri_value x) + lp xs (r - unat (ri_weight x))
      else unat (ri_value x) * r div unat (ri_weight x))"

lemma unat_div_u64: "unat (a div b :: u64) = unat a div unat b"
  by (rule unat_div)

lemma saturating_cases: "saturating v = u64_max \<or> v = Some (saturating v)"
  by (cases v) (simp_all add: saturating_def)

lemma saturating_max [simp]: "saturating (checked_add u64_max x) = u64_max"
proof (cases "checked_add u64_max x")
  case (Some y)
  then have "unat y = unat (u64_max) + unat x"
    by (simp only: checked_add_Some_iff)
  moreover have "unat y < 2 ^ 64"
    by (rule unat_u64_bound)
  ultimately have "unat y = unat (u64_max)"
    by simp
  then have "y = u64_max"
    by (rule unsigned_word_eqI)
  then show ?thesis
    using Some by (simp add: saturating_def)
qed (simp add: saturating_def)

lemma rs_bound_max: "rs_bound items remaining u64_max = u64_max"
  by (induction items arbitrary: remaining) (auto split: option.split)

lemma rs_bound_exact:
  "rs_bound items remaining tot = u64_max \<or>
   unat (rs_bound items remaining tot) = unat tot + lp items (unat remaining)"
proof (induction items arbitrary: remaining tot)
  case (Cons x xs)
  show ?case
  proof (cases "ri_weight x \<le> remaining")
    case True
    then have le: "unat (ri_weight x) \<le> unat remaining"
      and sub: "unat (remaining - ri_weight x) = unat remaining - unat (ri_weight x)"
      by (simp_all add: word_le_nat_alt unat_sub)
    show ?thesis
    proof (cases "checked_add tot (ri_value x)")
      case None
      then show ?thesis
        using True rs_bound_max by (simp add: saturating_def)
    next
      case (Some t)
      then have "unat t = unat tot + unat (ri_value x)"
        by (simp only: checked_add_Some_iff)
      then show ?thesis
        using True le sub Some Cons.IH [of "remaining - ri_weight x" t]
        by (simp add: saturating_def add.assoc)
    qed
  next
    case False
    then have gt: "\<not> unat (ri_weight x) \<le> unat remaining" and nz: "ri_weight x \<noteq> 0"
      by (auto simp: word_le_nat_alt)
    show ?thesis
    proof (cases "checked_mul (ri_value x) remaining")
      case None
      then show ?thesis
        using False nz by simp
    next
      case (Some scaled)
      then have sc: "unat scaled = unat (ri_value x) * unat remaining"
        by (simp only: checked_mul_Some_iff)
      let ?a = "checked_add tot (scaled div ri_weight x)"
      have eq: "rs_bound (x # xs) remaining tot = saturating ?a"
        using False nz Some by simp
      show ?thesis
        using saturating_cases [of ?a]
      proof
        assume "?a = Some (saturating ?a)"
        then have "unat (saturating ?a) = unat tot + unat (scaled div ri_weight x)"
          by (simp only: checked_add_Some_iff)
        then show ?thesis
          unfolding eq using gt sc by (simp add: unat_div_u64)
      next
        assume "saturating ?a = u64_max"
        then show ?thesis
          unfolding eq ..
      qed
    qed
  qed
qed simp

text \<open>What the descending density order gives: an earlier item is at least as dense as a later one.\<close>

definition denser :: "RigidItem \<Rightarrow> RigidItem \<Rightarrow> bool" where
  "denser x y \<longleftrightarrow> unat (ri_value y) * unat (ri_weight x) \<le> unat (ri_value x) * unat (ri_weight y)"

text \<open>The items that \<open>bound\<close> takes whole, and what is left when it stops.\<close>

fun split_fit :: "RigidItem list \<Rightarrow> nat \<Rightarrow> RigidItem list \<times> RigidItem list \<times> nat" where
  "split_fit [] r = ([], [], r)"
| "split_fit (x # xs) r =
     (if unat (ri_weight x) \<le> r
      then (case split_fit xs (r - unat (ri_weight x)) of (ps, qs, r') \<Rightarrow> (x # ps, qs, r'))
      else ([], x # xs, r))"

lemma split_fit_spec:
  "split_fit xs r = (ps, qs, r') \<Longrightarrow>
   xs = ps @ qs \<and> weights ps + r' = r \<and> (qs \<noteq> [] \<longrightarrow> r' < unat (ri_weight (hd qs))) \<and>
   lp xs r = total_value ps +
     (case qs of [] \<Rightarrow> 0 | k # _ \<Rightarrow> unat (ri_value k) * r' div unat (ri_weight k))"
  by (induction xs r arbitrary: ps qs r' rule: split_fit.induct) (auto split: if_splits prod.splits)

lemma subseq_nonneg_sum:
  fixes f :: "'a \<Rightarrow> int"
  assumes "subseq ys xs" and "\<And>x. x \<in> set xs \<Longrightarrow> 0 \<le> f x"
  shows "sum_list (map f ys) \<le> sum_list (map f xs)"
  using assms
proof (induction rule: list_emb.induct)
  case (list_emb_Cons xs ys y)
  then have "sum_list (map f xs) \<le> sum_list (map f ys)" and "0 \<le> f y"
    by auto
  then show ?case by simp
qed (auto intro!: sum_list_nonneg)

lemma sum_list_nonpos:
  fixes f :: "'a \<Rightarrow> int"
  shows "(\<And>x. x \<in> set xs \<Longrightarrow> f x \<le> 0) \<Longrightarrow> sum_list (map f xs) \<le> 0"
  by (induction xs) (auto intro: add_nonpos_nonpos)

text \<open>Surplus of an item over the density of the first item \<open>k\<close> that does not fit.\<close>

definition surplus :: "RigidItem \<Rightarrow> RigidItem \<Rightarrow> int" where
  "surplus k x = int (unat (ri_weight k)) * int (unat (ri_value x)) -
     int (unat (ri_value k)) * int (unat (ri_weight x))"

lemma sum_surplus:
  "sum_list (map (surplus k) ys) =
   int (unat (ri_weight k)) * int (total_value ys) - int (unat (ri_value k)) * int (weights ys)"
  by (induction ys) (simp_all add: surplus_def algebra_simps)

lemma int_mult_le: "a * b \<le> c * d \<longleftrightarrow> int a * int b \<le> int d * int c" for a b c d :: nat
  by (metis mult.commute of_nat_le_iff of_nat_mult)

lemma denser_surplus: "denser x k \<longleftrightarrow> 0 \<le> surplus k x" "denser k x \<longleftrightarrow> surplus k x \<le> 0"
  unfolding denser_def surplus_def int_mult_le by (simp_all add: mult.commute)

text \<open>No selection that fits is worth more than the bound (weak duality at the density of the first
  item that does not fit).\<close>

lemma lp_upper_bound:
  assumes "sorted_wrt denser xs" and "subseq ys xs" and "weights ys \<le> r"
  shows "total_value ys \<le> lp xs r"
proof -
  obtain ps qs r' where sp: "split_fit xs r = (ps, qs, r')"
    by (cases "split_fit xs r")
  note spec = split_fit_spec [OF sp]
  show ?thesis
  proof (cases qs)
    case Nil
    then show ?thesis
      using spec subseq_sums [OF assms(2)] by auto
  next
    case (Cons k rest)
    obtain ys1 ys2 where ys: "ys = ys1 @ ys2" "subseq ys1 ps" "subseq ys2 qs"
      using assms(2) spec subseq_appendE by blast
    have "\<forall>x \<in> set ps. denser x k" and "\<forall>x \<in> set rest. denser k x"
      using assms(1) spec Cons by (auto simp: sorted_wrt_append)
    then have "\<forall>x \<in> set ps. 0 \<le> surplus k x" and "\<forall>x \<in> set rest. surplus k x \<le> 0"
      by (simp_all add: denser_surplus(1) [of _ k] denser_surplus(2) [of k])
    moreover have "surplus k k = 0"
      by (simp add: surplus_def)
    ultimately have dens: "\<forall>x \<in> set ps. 0 \<le> surplus k x" "\<forall>x \<in> set qs. surplus k x \<le> 0"
      using Cons by simp_all
    have "sum_list (map (surplus k) ys1) \<le> sum_list (map (surplus k) ps)"
      using ys(2) dens(1) by (intro subseq_nonneg_sum) auto
    moreover have "sum_list (map (surplus k) ys2) \<le> 0"
      using subseq_subset [OF ys(3)] dens(2) by (intro sum_list_nonpos) auto
    ultimately have "sum_list (map (surplus k) ys) \<le> sum_list (map (surplus k) ps)"
      by (simp add: ys(1))
    then have "int (unat (ri_weight k)) * int (total_value ys) \<le>
        int (unat (ri_weight k)) * int (total_value ps) +
        int (unat (ri_value k)) * (int (weights ys) - int (weights ps))"
      by (simp add: sum_surplus algebra_simps)
    also have "\<dots> \<le> int (unat (ri_weight k)) * int (total_value ps) + int (unat (ri_value k)) * int r'"
      using spec assms(3) by (intro add_left_mono mult_left_mono) auto
    finally have "int (unat (ri_weight k) * total_value ys) \<le>
        int (unat (ri_weight k) * total_value ps + unat (ri_value k) * r')"
      by simp
    then have le: "unat (ri_weight k) * total_value ys \<le>
        unat (ri_weight k) * total_value ps + unat (ri_value k) * r'"
      by (simp only: of_nat_le_iff)
    have pos: "0 < unat (ri_weight k)"
      using spec Cons by auto
    have "total_value ys = unat (ri_weight k) * total_value ys div unat (ri_weight k)"
      using pos by simp
    also have "\<dots> \<le> (unat (ri_weight k) * total_value ps + unat (ri_value k) * r') div unat (ri_weight k)"
      using le by (rule div_le_mono)
    also have "\<dots> = total_value ps + unat (ri_value k) * r' div unat (ri_weight k)"
      using pos by simp
    finally show ?thesis
      using spec Cons by auto
  qed
qed

section \<open>The incumbent is feasible and the search is bounded\<close>

text \<open>\<open>solution cap R s\<close>: the incumbent of \<open>s\<close> is a selection of the items \<open>R\<close> that fits \<open>cap\<close>, with
  its count, priority sum and value recorded exactly.\<close>

definition solution :: "nat \<Rightarrow> RigidItem list \<Rightarrow> rigid_search \<Rightarrow> bool" where
  "solution cap R s \<longleftrightarrow> (\<exists>ys. (rs_best_selection s, ys) \<in> set (picks 0 R) \<and> weights ys \<le> cap \<and>
     unat (rs_best_count s) = length ys \<and> unat (rs_best_priority s) = priorities ys \<and>
     unat (rs_best_value s) = total_value ys)"

text \<open>A node of the search: the suffix \<open>items\<close> starts at position \<open>index\<close> of \<open>R\<close>, and \<open>taken\<close> is what
  the path to the node has chosen.\<close>

definition node ::
    "nat \<Rightarrow> RigidItem list \<Rightarrow> nat \<Rightarrow> RigidItem list \<Rightarrow> u64 \<Rightarrow> u64 \<Rightarrow> u64 \<Rightarrow> u64 \<Rightarrow> u32 list \<Rightarrow>
     RigidItem list \<Rightarrow> bool" where
  "node cap R index items remaining cnt priority value current taken \<longleftrightarrow>
     (\<forall>(js, ys) \<in> set (picks index items). (current @ js, taken @ ys) \<in> set (picks 0 R)) \<and>
     weights taken + unat remaining = cap \<and> unat cnt = length taken \<and>
     unat priority = priorities taken \<and> unat value = total_value taken"

lemma node_skip:
  "node cap R index (x # xs) remaining cnt priority value current taken \<Longrightarrow>
   node cap R (Suc index) xs remaining cnt priority value current taken"
  by (auto simp: node_def)

lemma unat_ri_priority [simp]: "unat (ri_priority x) = unat (sc_priority (ri_contract x))"
  by (simp add: ri_priority_def)

lemma node_take:
  assumes "node cap R index (x # xs) remaining cnt priority value current taken"
    and "checked_sub remaining (ri_weight x) = Some r" and "checked_add cnt 1 = Some c"
    and "checked_add priority (ri_priority x) = Some p" and "checked_add value (ri_value x) = Some v"
  shows "node cap R (Suc index) xs r c p v (current @ [of_nat index]) (taken @ [x])"
proof -
  have "unat r = unat remaining - unat (ri_weight x)" and "unat (ri_weight x) \<le> unat remaining"
    and "unat c = unat cnt + 1" and "unat p = unat priority + unat (ri_priority x)"
    and "unat v = unat value + unat (ri_value x)"
    using assms(2-5) by (simp_all only: checked_sub_Some_iff checked_add_Some_iff) simp_all
  moreover have "(current @ of_nat index # js, taken @ x # ys) \<in> set (picks 0 R)"
    if "(js, ys) \<in> set (picks (Suc index) xs)" for js ys
    using assms(1) that by (fastforce simp: node_def)
  ultimately show ?thesis
    using assms(1) by (auto simp: node_def)
qed

lemma node_leaf:
  assumes "node cap R index [] remaining cnt priority value current taken" and "solution cap R s"
  shows "solution cap R (rs_consider cnt priority value current s)"
proof -
  have "(current, taken) \<in> set (picks 0 R)" and "weights taken \<le> cap" and "unat cnt = length taken"
    and "unat priority = priorities taken" and "unat value = total_value taken"
    using assms(1) by (auto simp: node_def)
  then show ?thesis
    using assms(2) by (auto simp: rs_consider_def Let_def solution_def)
qed

lemma solution_frame [simp]:
  "solution cap R (rs_visit s) = solution cap R s" "solution cap R (rs_prune s) = solution cap R s"
  "solution cap R (s\<lparr>rs_exhausted := b\<rparr>) = solution cap R s"
  by (simp_all add: solution_def rs_visit_def rs_prune_def)

lemma new_search_solution: "solution cap R (new_search budget)"
proof -
  have "([], []) \<in> set (picks i R)" for i
    by (induction i R rule: picks.induct) auto
  then show ?thesis
    by (auto simp: solution_def new_search_def intro!: exI [of _ "[]"])
qed

lemma root_node: "node (unat capacity) R 0 R capacity 0 0 0 [] []"
  by (simp add: node_def)

text \<open>The recursive step in the shape the proofs use.\<close>

definition rs_take ::
    "nat \<Rightarrow> RigidItem \<Rightarrow> RigidItem list \<Rightarrow> u64 \<Rightarrow> u64 \<Rightarrow> u64 \<Rightarrow> u64 \<Rightarrow> u32 list \<Rightarrow> rigid_search \<Rightarrow>
     rigid_search" where
  "rs_take index item items remaining cnt priority value current s =
     (if ri_weight item \<le> remaining
      then (case (checked_sub remaining (ri_weight item), checked_add cnt 1,
                  checked_add priority (ri_priority item), checked_add value (ri_value item)) of
              (Some r, Some c, Some p, Some v) \<Rightarrow>
                rs_run (Suc index) items r c p v (current @ [of_nat index]) s
            | _ \<Rightarrow> s\<lparr>rs_exhausted := True\<rparr>)
      else rs_prune s)"

definition cut :: "RigidItem list \<Rightarrow> u64 \<Rightarrow> u64 \<Rightarrow> u64 \<Rightarrow> rigid_search \<Rightarrow> bool" where
  "cut items remaining cnt value s \<longleftrightarrow>
     cnt + of_nat (length items) < rs_best_count s \<or>
     saturating (checked_add value (rs_bound items remaining 0)) < rs_best_value s"

lemma rs_run_Cons:
  "rs_run index (item # items) remaining cnt priority value current s =
   (if rs_exhausted s then s
    else if rs_nodes s \<ge> rs_budget s then s\<lparr>rs_exhausted := True\<rparr>
    else if cut (item # items) remaining cnt value (rs_visit s) then rs_prune (rs_visit s)
    else rs_run (Suc index) items remaining cnt priority value current
      (rs_take index item items remaining cnt priority value current (rs_visit s)))"
  by (simp add: cut_def rs_take_def Let_def del: rs_bound.simps)

declare rs_run.simps(2) [simp del]

lemma rs_take_cases:
  obtains (take) r c p v where "ri_weight item \<le> remaining"
      "checked_sub remaining (ri_weight item) = Some r" "checked_add cnt 1 = Some c"
      "checked_add priority (ri_priority item) = Some p" "checked_add val (ri_value item) = Some v"
      "rs_take index item items remaining cnt priority val current s =
        rs_run (Suc index) items r c p v (current @ [of_nat index]) s"
  | (overflow) "ri_weight item \<le> remaining"
      "rs_take index item items remaining cnt priority val current s = s\<lparr>rs_exhausted := True\<rparr>"
      "checked_sub remaining (ri_weight item) = None \<or> checked_add cnt 1 = None \<or>
       checked_add priority (ri_priority item) = None \<or> checked_add val (ri_value item) = None"
  | (skip) "\<not> ri_weight item \<le> remaining"
      "rs_take index item items remaining cnt priority val current s = rs_prune s"
  by (cases "ri_weight item \<le> remaining"; cases "checked_sub remaining (ri_weight item)";
      cases "checked_add cnt 1"; cases "checked_add priority (ri_priority item)";
      cases "checked_add val (ri_value item)") (auto simp: rs_take_def)

text \<open>The three shapes of a step of the search give one induction principle for all its invariants.\<close>

lemma rs_run_induct [consumes 1, case_names stop leaf cut branch]:
  assumes "node cap R index items remaining cnt priority value current taken"
    and "\<And>s. P s (s\<lparr>rs_exhausted := True\<rparr>)" "\<And>s. P s s"
    and leaf: "\<And>index remaining cnt priority value current taken s.
      node cap R index [] remaining cnt priority value current taken \<Longrightarrow> \<not> rs_exhausted s \<Longrightarrow>
      rs_nodes s < rs_budget s \<Longrightarrow> P s (rs_consider cnt priority value current (rs_visit s))"
    and cut: "\<And>s. \<not> rs_exhausted s \<Longrightarrow> rs_nodes s < rs_budget s \<Longrightarrow> P s (rs_prune (rs_visit s))"
    and prune: "\<And>s. P s (rs_prune s)" and trans: "\<And>a b c. P a b \<Longrightarrow> P b c \<Longrightarrow> P a c"
    and visit: "\<And>s. \<not> rs_exhausted s \<Longrightarrow> rs_nodes s < rs_budget s \<Longrightarrow> P s (rs_visit s)"
  shows "P s (rs_run index items remaining cnt priority value current s)"
  using assms(1)
proof (induction items arbitrary: index remaining cnt priority "value" current taken s)
  case Nil
  then show ?case
    using assms(2,3) leaf by (simp add: not_le)
next
  case (Cons x xs)
  have skip: "P s' (rs_run (Suc index) xs remaining cnt priority value current s')" for s'
    using Cons.IH [OF node_skip [OF Cons.prems]] .
  have take: "P s' (rs_take index x xs remaining cnt priority value current s')" for s'
  proof (cases rule: rs_take_cases [where item = x and remaining = remaining and cnt = cnt
        and priority = priority and val = "value" and index = index and items = xs and current = current
        and s = s'])
    case (take r c p v)
    then show ?thesis
      using Cons.IH [OF node_take [OF Cons.prems take(2-5)]] by simp
  qed (use assms(2) prune in simp_all)
  show ?case
    unfolding rs_run_Cons using assms(2,3) cut trans [OF visit trans [OF take skip]] by (simp add: not_le)
qed

lemma run_solution:
  assumes "node cap R index items remaining cnt priority value current taken" and "solution cap R s"
  shows "solution cap R (rs_run index items remaining cnt priority value current s)"
proof -
  have "solution cap R s \<longrightarrow> solution cap R (rs_run index items remaining cnt priority value current s)"
    using assms(1) by (rule rs_run_induct) (simp_all add: node_leaf)
  then show ?thesis
    using assms(2) by simp
qed

definition work_le :: "rigid_search \<Rightarrow> rigid_search \<Rightarrow> bool" where
  "work_le s t \<longleftrightarrow> rs_budget t = rs_budget s \<and> (rs_nodes s \<le> rs_budget s \<longrightarrow>
     rs_nodes t \<le> rs_budget s \<and> rs_nodes s \<le> rs_nodes t) \<and>
     \<not> better (incumbent s) (incumbent t) \<and> (rs_exhausted s \<longrightarrow> rs_exhausted t)"

lemma work_le_trans: "work_le a b \<Longrightarrow> work_le b c \<Longrightarrow> work_le a c"
  unfolding work_le_def using better.negtrans [of "incumbent a" "incumbent c" "incumbent b"]
  by auto

lemma work_le_visit:
  assumes "rs_nodes s < rs_budget s"
  shows "work_le s (rs_visit s)"
proof -
  have lt: "unat (rs_nodes s) < unat (rs_budget s)"
    using assms by (simp add: word_less_nat_alt)
  then have "unat (rs_nodes s + 1) = unat (rs_nodes s) + 1"
    using unat_u64_bound [of "rs_budget s"] by (intro unat_plus_one) simp
  then show ?thesis
    using lt by (simp add: work_le_def rs_visit_def better.irrefl word_le_nat_alt incumbent_def)
qed

lemma run_work:
  assumes "node cap R index items remaining cnt priority value current taken"
  shows "work_le s (rs_run index items remaining cnt priority value current s)"
  using assms
proof (rule rs_run_induct)
  fix remaining cnt priority "value" :: u64 and current and s :: rigid_search
  assume "rs_nodes s < rs_budget s"
  then have "work_le s (rs_visit s)"
    by (rule work_le_visit)
  moreover have "work_le (rs_visit s) (rs_consider cnt priority value current (rs_visit s))"
    using better.asym by (auto simp: work_le_def consider_incumbent better.irrefl)
      (simp_all add: rs_consider_def Let_def)
  ultimately show "work_le s (rs_consider cnt priority value current (rs_visit s))"
    by (rule work_le_trans)
next
  fix s :: rigid_search
  assume "rs_nodes s < rs_budget s"
  then have v: "work_le s (rs_visit s)"
    by (rule work_le_visit)
  then show "work_le s (rs_visit s)" .
  have "work_le (rs_visit s) (rs_prune (rs_visit s))"
    by (simp add: work_le_def rs_prune_def better.irrefl incumbent_def)
  with v show "work_le s (rs_prune (rs_visit s))"
    by (rule work_le_trans)
next
  show "work_le a b \<Longrightarrow> work_le b c \<Longrightarrow> work_le a c" for a b c
    by (rule work_le_trans)
qed (simp_all add: work_le_def rs_prune_def better.irrefl incumbent_def)

section \<open>Optimality\<close>

text \<open>The value of an item encodes the lexicographic objective: \<open>big\<close> per item, plus its priority, with
  \<open>big\<close> above every attainable priority sum.\<close>

definition encodes :: "nat \<Rightarrow> RigidItem list \<Rightarrow> bool" where
  "encodes big R \<longleftrightarrow> priorities R < big \<and>
     list_all (\<lambda>x. unat (ri_value x) = big + unat (sc_priority (ri_contract x))) R"

lemma encodes_total:
  "list_all (\<lambda>x. unat (ri_value x) = big + unat (sc_priority (ri_contract x))) ys \<Longrightarrow>
   total_value ys = length ys * big + priorities ys"
  by (induction ys) simp_all

lemma encodes_picks:
  assumes "encodes big R" and "(js, ys) \<in> set (picks i R)"
  shows "total_value ys = length ys * big + priorities ys \<and> priorities ys < big"
proof -
  have sub: "subseq ys R"
    using picks_subseq [OF assms(2)] by simp
  then have "list_all (\<lambda>x. unat (ri_value x) = big + unat (sc_priority (ri_contract x))) ys"
    using assms(1) subseq_subset [OF sub] by (auto simp: encodes_def list_all_iff)
  then show ?thesis
    using encodes_total subseq_sums [OF sub] assms(1) by (auto simp: encodes_def)
qed

lemma lexicographic_value:
  fixes big c c' p p' :: nat
  assumes "c * big + p < c' * big + p'" and "p' < big"
  shows "c < c' \<or> (c = c' \<and> p < p')"
proof (rule ccontr)
  assume n: "\<not> ?thesis"
  then have "c' < c \<or> (c = c' \<and> p' \<le> p)"
    by auto
  then show False
  proof
    assume "c' < c"
    then have "Suc c' * big \<le> c * big"
      by (intro mult_le_mono1) simp
    then show False
      using assms by simp
  qed (use assms in simp)
qed

text \<open>A pruned node has no completion that the search would prefer to its incumbent.\<close>

lemma cut_sound:
  assumes node: "node cap R index items remaining cnt priority value current taken"
    and "solution cap R s" and enc: "encodes big R" and "sorted_wrt denser items"
    and "length taken + length items < 2 ^ 64" and "cut items remaining cnt value s"
    and pick: "(js, ys) \<in> set (picks index items)" and "weights ys \<le> unat remaining"
  shows "\<not> better (length (taken @ ys), priorities (taken @ ys), current @ js) (incumbent s)"
proof -
  have sub: "subseq ys items"
    using picks_subseq [OF pick] by simp
  have full: "(current @ js, taken @ ys) \<in> set (picks 0 R)"
    using node pick by (auto simp: node_def)
  obtain zs where zs: "(rs_best_selection s, zs) \<in> set (picks 0 R)"
      "unat (rs_best_count s) = length zs" "unat (rs_best_priority s) = priorities zs"
      "unat (rs_best_value s) = total_value zs"
    using assms(2) by (auto simp: solution_def)
  have inc: "incumbent s = (length zs, priorities zs, rs_best_selection s)"
    using zs by (simp add: incumbent_def)
  from assms(6) show ?thesis
    unfolding cut_def
  proof
    assume "cnt + of_nat (length items) < rs_best_count s"
    moreover have "unat (cnt + of_nat (length items)) = length taken + length items"
      using node assms(5) by (simp add: node_def unat_word_ariths unsigned_of_nat take_bit_nat_eq_self)
    ultimately have "length taken + length items < length zs"
      using zs by (simp add: word_less_nat_alt)
    then show ?thesis
      using subseq_sums [OF sub] by (auto simp: inc better_def)
  next
    let ?b = "rs_bound items remaining 0"
    assume lt: "saturating (checked_add value ?b) < rs_best_value s"
    then have "saturating (checked_add value ?b) \<noteq> u64_max"
      by (metis leD u64_max_greatest)
    then have "checked_add value ?b = Some (saturating (checked_add value ?b))"
      using saturating_cases by blast
    then have sum: "unat (saturating (checked_add value ?b)) = unat value + unat ?b"
      by (simp only: checked_add_Some_iff)
    have "?b \<noteq> u64_max \<or> unat value = 0"
    proof (rule ccontr)
      assume "\<not> ?thesis"
      then have "unat (saturating (checked_add value ?b)) \<ge> 2 ^ 64"
        using sum by simp
      then show False
        using unat_u64_bound [of "saturating (checked_add value ?b)"] by simp
    qed
    moreover have "?b \<noteq> u64_max" if "unat value = 0"
    proof
      assume "?b = u64_max"
      then have "unat (saturating (checked_add value ?b)) = unat (u64_max)"
        using sum that by simp
      then show False
        using \<open>saturating (checked_add value ?b) \<noteq> u64_max\<close> unsigned_word_eqI by blast
    qed
    ultimately have "unat ?b = lp items (unat remaining)"
      using rs_bound_exact [of items remaining 0] by auto
    moreover have "total_value ys \<le> lp items (unat remaining)"
      using assms(4) sub assms(8) by (rule lp_upper_bound)
    moreover have "unat value = total_value taken"
      using node by (simp add: node_def)
    ultimately have "total_value (taken @ ys) < total_value zs"
      using lt sum zs(4) by (simp add: word_less_nat_alt)
    then have "length (taken @ ys) < length zs \<or>
        (length (taken @ ys) = length zs \<and> priorities (taken @ ys) < priorities zs)"
      using encodes_picks [OF enc full] encodes_picks [OF enc zs(1)] lexicographic_value by metis
    then show ?thesis
      by (auto simp: inc better_def)
  qed
qed

lemma take_solution:
  assumes "node cap R index (x # xs) remaining cnt priority value current taken" and "solution cap R s"
  shows "solution cap R (rs_take index x xs remaining cnt priority value current s)"
proof (cases rule: rs_take_cases [where item = x and remaining = remaining and cnt = cnt
      and priority = priority and val = "value" and index = index and items = xs and current = current
      and s = s])
  case (take r c p v)
  then show ?thesis
    using run_solution [OF node_take [OF assms(1) take(2-5)] assms(2)] by simp
qed (use assms(2) in simp_all)

lemma run_optimal:
  assumes "node cap R index items remaining cnt priority value current taken"
    and "solution cap R s" and "encodes big R" and "sorted_wrt denser items"
    and "length taken + length items < 2 ^ 64"
    and "\<not> rs_exhausted (rs_run index items remaining cnt priority value current s)"
    and "(js, ys) \<in> set (picks index items)" and "weights ys \<le> unat remaining"
  shows "\<not> better (length (taken @ ys), priorities (taken @ ys), current @ js)
    (incumbent (rs_run index items remaining cnt priority value current s))"
  using assms
proof (induction items arbitrary: index remaining cnt priority "value" current taken s js ys)
  case Nil
  then have "unat cnt = length taken" and "unat priority = priorities taken"
    by (simp_all add: node_def)
  then show ?case
    using Nil.prems(6,7) by (auto simp: consider_incumbent better.irrefl split: if_splits)
next
  case (Cons x xs)
  let ?s = "rs_visit s"
  have live: "\<not> rs_exhausted s" "rs_nodes s < rs_budget s"
    using Cons.prems(6) by (auto simp: rs_run_Cons not_le split: if_splits)
  show ?case
  proof (cases "cut (x # xs) remaining cnt value ?s")
    case True
    have "solution cap R ?s"
      using Cons.prems(2) by simp
    from cut_sound [OF Cons.prems(1) this Cons.prems(3,4,5) True Cons.prems(7,8)] show ?thesis
      using True live by (simp add: rs_run_Cons not_le)
  next
    case False
    define t where "t = rs_take index x xs remaining cnt priority value current ?s"
    have run: "rs_run index (x # xs) remaining cnt priority value current s =
        rs_run (Suc index) xs remaining cnt priority value current t"
      using False live by (simp add: rs_run_Cons t_def not_le)
    note skip = node_skip [OF Cons.prems(1)]
    have sol: "solution cap R t"
      unfolding t_def using Cons.prems(1,2) by (intro take_solution) simp_all
    have mono: "\<not> rs_exhausted t"
        "\<not> better (incumbent t) (incumbent (rs_run (Suc index) xs remaining cnt priority value current t))"
      using run_work [OF skip, of t] Cons.prems(6) unfolding run by (auto simp: work_le_def)
    have sorted: "sorted_wrt denser xs" and len: "length taken + length xs < 2 ^ 64"
      using Cons.prems(4,5) by simp_all
    from Cons.prems(7) consider "(js, ys) \<in> set (picks (Suc index) xs)"
      | js' ys' where "js = of_nat index # js'" "ys = x # ys'" "(js', ys') \<in> set (picks (Suc index) xs)"
      by auto
    then show ?thesis
    proof cases
      case 1
      then show ?thesis
        unfolding run using Cons.IH [OF skip sol Cons.prems(3) sorted len _ 1 Cons.prems(8)]
          Cons.prems(6) run by simp
    next
      case 2
      then have le: "ri_weight x \<le> remaining"
        using Cons.prems(8) by (simp add: word_le_nat_alt)
      show ?thesis
      proof (cases rule: rs_take_cases [where item = x and remaining = remaining and cnt = cnt
            and priority = priority and val = "value" and index = index and items = xs
            and current = current and s = ?s])
        case (take r c p v)
        have "unat r = unat remaining - unat (ri_weight x)"
          using take(2) by (simp only: checked_sub_Some_iff)
        then have w: "weights ys' \<le> unat r"
          using 2 Cons.prems(8) by simp
        have t: "t = rs_run (Suc index) xs r c p v (current @ [of_nat index]) ?s"
          using take by (simp add: t_def)
        have "\<not> better (length ((taken @ [x]) @ ys'), priorities ((taken @ [x]) @ ys'),
            (current @ [of_nat index]) @ js') (incumbent t)"
          unfolding t
        proof (rule Cons.IH [OF node_take [OF Cons.prems(1) take(2-5)] _ Cons.prems(3) sorted _ _ 2(3) w])
          show "solution cap R ?s"
            using Cons.prems(2) by simp
          show "length (taken @ [x]) + length xs < 2 ^ 64"
            using Cons.prems(5) by simp
          show "\<not> rs_exhausted (rs_run (Suc index) xs r c p v (current @ [of_nat index]) ?s)"
            using mono(1) t by simp
        qed
        then show ?thesis
          unfolding run using better.negtrans mono(2) 2 by fastforce
      next
        case overflow
        then show ?thesis
          using mono(1) by (simp add: t_def)
      qed (use le in simp)
    qed
  qed
qed

section \<open>What the search guarantees\<close>

definition rigid_search_of :: "RigidItem list \<Rightarrow> u64 \<Rightarrow> u64 \<Rightarrow> rigid_search" where
  "rigid_search_of items capacity budget = rs_run 0 items capacity 0 0 0 [] (new_search budget)"

lemma search_solution: "solution (unat capacity) items (rigid_search_of items capacity budget)"
  unfolding rigid_search_of_def using root_node new_search_solution by (rule run_solution)

lemma search_work: "work_le (new_search budget) (rigid_search_of items capacity budget)"
  unfolding rigid_search_of_def using root_node by (rule run_work)

lemma search_optimal:
  assumes "sorted_wrt denser items" and "encodes big items" and "length items < 2 ^ 32"
    and "\<not> rs_exhausted (rigid_search_of items capacity budget)"
    and "(js, ys) \<in> set (picks 0 items)" and "weights ys \<le> unat capacity"
  shows "\<not> better (length ys, priorities ys, js) (incumbent (rigid_search_of items capacity budget))"
  using run_optimal [OF root_node new_search_solution assms(2,1) _ _ assms(5)] assms(3,4,6)
  by (simp add: rigid_search_of_def)

text \<open>
  The incumbent of the search is always a legal plan: whatever the items, the capacity and the node
  budget, and whether or not the search was cut off, the selection it returns names distinct
  positions of the item list whose demands together fit the capacity, the reported count, priority
  sum and value are exact, and the search never visits more nodes than its budget.
\<close>

theorem rigid_search_feasible:
  "\<exists>ys. (rs_best_selection (rigid_search_of items capacity budget), ys) \<in> set (picks 0 items) \<and>
     subseq ys items \<and> weights ys \<le> unat capacity \<and>
     unat (rs_best_count (rigid_search_of items capacity budget)) = length ys \<and>
     unat (rs_best_priority (rigid_search_of items capacity budget)) = priorities ys \<and>
     unat (rs_best_value (rigid_search_of items capacity budget)) = total_value ys \<and>
     rs_nodes (rigid_search_of items capacity budget) \<le> budget"
  using search_solution search_work picks_subseq
  by (fastforce simp: solution_def work_le_def new_search_def)

text \<open>
  C5. A search that completes inside its node budget is exact. If the items are in descending density
  order, their values encode the lexicographic objective (a base above the priority sum, plus the
  priority) and there are fewer than \<open>2 ^ 32\<close> of them, then no selection of items that fits the
  capacity serves more contracts than the returned one, or as many with a larger priority sum, or
  ties both and has a lexicographically smaller position list. In particular neither the
  fractional bound nor the count bound ever cuts off the optimum.
\<close>

theorem rigid_search_optimal:
  assumes "sorted_wrt denser items" and "encodes big items" and "length items < 2 ^ 32"
    and "\<not> rs_exhausted (rigid_search_of items capacity budget)"
    and "(js, ys) \<in> set (picks 0 items)" and "weights ys \<le> unat capacity"
  shows "\<not> better (length ys, priorities ys, js) (incumbent (rigid_search_of items capacity budget))"
  using assms by (rule search_optimal)

definition sample_items :: "RigidItem list" where
  "sample_items =
     [\<lparr>ri_contract = sample_contract, ri_weight = 9, ri_value = 16\<rparr>,
      \<lparr>ri_contract = sample_contract\<lparr>sc_id := 2, sc_priority := 1\<rparr>, ri_weight = 8, ri_value = 12\<rparr>]"

theorem rigid_search_optimal_witness:
  "\<not> better (1, 1, [1]) (incumbent (rigid_search_of sample_items 10 50))"
proof -
  have "sorted_wrt denser sample_items"
    by (simp add: sample_items_def denser_def)
  moreover have "encodes 11 sample_items"
    by (simp add: sample_items_def encodes_def sample_contract_def)
  moreover have "length sample_items < 2 ^ 32"
    by (simp add: sample_items_def)
  moreover have "\<not> rs_exhausted (rigid_search_of sample_items 10 50)"
    by code_simp
  moreover have "([1], [sample_items ! 1]) \<in> set (picks 0 sample_items)"
    by (simp add: sample_items_def)
  moreover have "weights [sample_items ! 1] \<le> unat (10 :: u64)"
    by (simp add: sample_items_def)
  ultimately have "\<not> better (length [sample_items ! 1], priorities [sample_items ! 1], [1])
      (incumbent (rigid_search_of sample_items 10 50))"
    by (rule rigid_search_optimal)
  then show ?thesis
    by (simp add: sample_items_def sample_contract_def)
qed

section \<open>The search completes\<close>

lemma node_bounds:
  assumes "node cap R index (x # xs) remaining cnt priority value current taken"
  shows "priorities taken + unat (sc_priority (ri_contract x)) \<le> priorities R \<and>
    total_value taken + unat (ri_value x) \<le> total_value R \<and> length taken + 1 \<le> length R"
proof -
  have "([], []) \<in> set (picks (Suc index) xs)"
    by (induction "Suc index" xs arbitrary: index rule: picks.induct) auto
  then have "(current @ [of_nat index], taken @ [x]) \<in> set (picks 0 R)"
    using assms by (fastforce simp: node_def)
  then have "subseq (taken @ [x]) R"
    using picks_subseq by blast
  then show ?thesis
    using subseq_sums by fastforce
qed

lemma run_completes:
  assumes "node cap R index items remaining cnt priority value current taken"
    and "total_value R < 2 ^ 64" and "priorities R < 2 ^ 64" and "length R < 2 ^ 64"
    and "\<not> rs_exhausted s" and "unat (rs_nodes s) + 2 ^ (length items + 1) \<le> unat (rs_budget s) + 1"
  shows "\<not> rs_exhausted (rs_run index items remaining cnt priority value current s) \<and>
    unat (rs_nodes (rs_run index items remaining cnt priority value current s)) + 1 \<le>
      unat (rs_nodes s) + 2 ^ (length items + 1)"
  using assms(1,5,6)
proof (induction items arbitrary: index remaining cnt priority "value" current taken s)
  case Nil
  have "rs_nodes s < rs_budget s"
    using Nil.prems(3) by (simp add: word_less_nat_alt)
  moreover from this have "unat (rs_nodes s + 1) = unat (rs_nodes s) + 1"
    using unat_u64_bound [of "rs_budget s"] by (intro unat_plus_one) (simp add: word_less_nat_alt)
  ultimately show ?case
    using Nil.prems(2) by (simp add: not_le rs_consider_def Let_def rs_visit_def)
next
  case (Cons x xs)
  let ?s = "rs_visit s"
  have pow: "(2 :: nat) ^ (length xs + 1) \<ge> 2" "(2 :: nat) ^ (length (x # xs) + 1) = 2 * 2 ^ (length xs + 1)"
    by simp_all
  define P where "P = (2 :: nat) ^ length xs"
  have P: "P \<noteq> 0" "unat (rs_nodes s) + 4 * P \<le> unat (rs_budget s) + 1"
    using Cons.prems(3) by (simp_all add: P_def)
  have pow1: "(2 :: nat) ^ (length xs + 1) = 2 * P"
    by (simp add: P_def)
  from P have live: "rs_nodes s < rs_budget s"
    unfolding word_less_nat_alt by linarith
  then have vis: "unat (rs_nodes ?s) = unat (rs_nodes s) + 1" "rs_budget ?s = rs_budget s" "\<not> rs_exhausted ?s"
    using unat_u64_bound [of "rs_budget s"] unat_plus_one [of "rs_nodes s"] Cons.prems(2)
    by (simp_all add: rs_visit_def word_less_nat_alt)
  have fits: "unat (rs_nodes ?s) + 2 ^ (length xs + 1) \<le> unat (rs_budget ?s) + 1"
    unfolding pow1 vis using P by linarith
  define t where "t = rs_take index x xs remaining cnt priority value current ?s"
  have t: "\<not> rs_exhausted t \<and> unat (rs_nodes t) + 1 \<le> unat (rs_nodes ?s) + 2 ^ (length xs + 1) \<and>
      rs_budget t = rs_budget s"
    unfolding t_def
  proof (cases rule: rs_take_cases [where item = x and remaining = remaining and cnt = cnt
        and priority = priority and val = "value" and index = index and items = xs
        and current = current and s = ?s])
    case (take r c p v)
    note nt = node_take [OF Cons.prems(1) take(2-5)]
    show "\<not> rs_exhausted (rs_take index x xs remaining cnt priority value current ?s) \<and>
        unat (rs_nodes (rs_take index x xs remaining cnt priority value current ?s)) + 1
          \<le> unat (rs_nodes ?s) + 2 ^ (length xs + 1) \<and>
        rs_budget (rs_take index x xs remaining cnt priority value current ?s) = rs_budget s"
      using Cons.IH [OF nt vis(3) fits] run_work [OF nt, of ?s] vis(2) take(6)
      by (simp add: work_le_def)
  next
    case overflow
    note b = node_bounds [OF Cons.prems(1)]
    have "checked_sub remaining (ri_weight x) \<noteq> None"
      using overflow(1) by (simp add: checked_sub_def)
    moreover have "checked_add cnt 1 \<noteq> None"
      unfolding checked_add_None_iff using b Cons.prems(1) assms(4) by (simp add: node_def)
    moreover have "checked_add priority (ri_priority x) \<noteq> None"
      unfolding checked_add_None_iff using b Cons.prems(1) assms(3) by (simp add: node_def)
    moreover have "checked_add value (ri_value x) \<noteq> None"
      unfolding checked_add_None_iff using b Cons.prems(1) assms(2) by (simp add: node_def)
    ultimately show "\<not> rs_exhausted (rs_take index x xs remaining cnt priority value current ?s) \<and>
        unat (rs_nodes (rs_take index x xs remaining cnt priority value current ?s)) + 1
          \<le> unat (rs_nodes ?s) + 2 ^ (length xs + 1) \<and>
        rs_budget (rs_take index x xs remaining cnt priority value current ?s) = rs_budget s"
      using overflow(3) by auto
  qed (use vis pow in \<open>simp_all add: rs_prune_def\<close>)
  show ?case
  proof (cases "cut (x # xs) remaining cnt value ?s")
    case True
    then show ?thesis
      using live vis pow Cons.prems(2) by (simp add: rs_run_Cons not_le rs_prune_def)
  next
    case False
    have "rs_run index (x # xs) remaining cnt priority value current s =
        rs_run (Suc index) xs remaining cnt priority value current t"
      using False live Cons.prems(2) by (simp add: rs_run_Cons t_def not_le)
    moreover have "unat (rs_nodes t) + 2 ^ (length xs + 1) \<le> unat (rs_budget t) + 1"
      using t vis(1) Cons.prems(3) pow(2) by simp
    ultimately show ?thesis
      using Cons.IH [OF node_skip [OF Cons.prems(1)], of t] t vis(1) pow(2) by simp
  qed
qed

text \<open>
  C38. The search terminates with a proof whenever its budget covers the full tree: for \<open>n\<close> items whose
  values sum below \<open>2 ^ 64\<close>, a node budget of \<open>2 ^ (n + 1) - 1\<close> is enough for the search never to
  report exhaustion.
\<close>

theorem rigid_search_completes:
  assumes "total_value items < 2 ^ 64" and "encodes big items" and "length items < 2 ^ 64"
    and "2 ^ (length items + 1) - 1 \<le> unat budget"
  shows "\<not> rs_exhausted (rigid_search_of items capacity budget)"
proof -
  have "priorities items \<le> total_value items"
    using encodes_total [of big items] assms(2) by (simp add: encodes_def)
  then have "priorities items < 2 ^ 64"
    using assms(1) by simp
  then show ?thesis
    unfolding rigid_search_of_def
    using run_completes [OF root_node assms(1) _ assms(3), of "new_search budget"] assms(4)
    by (simp add: new_search_def)
qed

theorem rigid_search_completes_witness:
  "\<not> rs_exhausted (rigid_search_of sample_items 10 7)"
proof (rule rigid_search_completes)
  show "total_value sample_items < 2 ^ 64" and "length sample_items < 2 ^ 64"
    by (simp_all add: sample_items_def)
  show "encodes 11 sample_items"
    by (simp add: sample_items_def encodes_def sample_contract_def)
  show "2 ^ (length sample_items + 1) - 1 \<le> unat (7 :: u64)"
    by (simp add: sample_items_def)
qed

end
