(* ===== verification/Allocator.thy ===== *)
theory Allocator
  imports Rigid_Search
begin

text \<open>
  Scope allocation: \<open>src/engine/allocator.cpp\<close> with the request types of \<open>include/dmf/engine.hpp\<close>.

  \<open>allocate_scope\<close> is the composition of the phases of the source function: canonical order,
  assessment of every contract, infeasibility certificate, exact rigid selection, flexible
  allocation in precedence order, and the entries of the plan. The parallel vectors \<open>served\<close>,
  \<open>admitted\<close>, \<open>allocations\<close>, \<open>approved_sets\<close>, \<open>outcomes\<close> and \<open>reasons\<close>, all indexed like
  \<open>assessments\<close>, are one list of slots; a pointer to a contract of the request is the contract, and
  the comparison of two such pointers is the comparison of their identities, which the function
  has checked to be distinct.
\<close>

section \<open>Requests and assessments\<close>

record EvaluationContext =
  ec_binding :: AuthorityBinding
  ec_now :: tick
  ec_decision_id :: u64
  ec_plan_id :: u64
  ec_provenance :: ProvenanceClass

record AllocationRequest =
  ar_scope :: u64
  ar_contracts :: "ServiceContract list"
  ar_capability :: "CapabilitySnapshot option"
  ar_evidence :: "EvidenceVector option"
  ar_policy :: "Policy option"
  ar_context :: EvaluationContext

definition is_rigid :: "ServiceContract \<Rightarrow> bool" where
  "is_rigid c \<longleftrightarrow> protected_obligation c \<or> frozen c"

definition allocation_precedes :: "ServiceContract \<Rightarrow> ServiceContract \<Rightarrow> bool \<Rightarrow> bool" where
  "allocation_precedes a b protect_first \<longleftrightarrow>
     (let ra = class_rank (sc_service_class a); rb = class_rank (sc_service_class b)
      in if protect_first
         then (if ra \<noteq> rb then ra < rb
               else if sc_priority a \<noteq> sc_priority b then sc_priority a > sc_priority b
               else sc_id a < sc_id b)
         else (if sc_priority a \<noteq> sc_priority b then sc_priority a > sc_priority b
               else if ra \<noteq> rb then ra < rb
               else sc_id a < sc_id b))"

record Assessment =
  as_contract :: ServiceContract
  as_rigid :: bool
  as_admissible :: bool
  as_non_bandwidth_full :: bool
  as_approved :: guarantee_set
  as_outcome :: DecisionOutcome
  as_reason :: ReasonCode
  as_escalation :: bool
  as_needs_bandwidth :: bool
  as_demand :: u64
  as_floor :: u64
  as_frozen :: bool

definition new_assessment :: "ServiceContract \<Rightarrow> Assessment" where
  "new_assessment c = \<lparr>as_contract = c, as_rigid = False, as_admissible = False,
     as_non_bandwidth_full = True, as_approved = [], as_outcome = DO_Refused, as_reason = RC_None,
     as_escalation = False, as_needs_bandwidth = False, as_demand = 0, as_floor = 0,
     as_frozen = False\<rparr>"

definition capability_value_for :: "CapabilitySnapshot \<Rightarrow> GuaranteeKind \<Rightarrow> u64" where
  "capability_value_for c k =
     (case k of
        GK_Availability \<Rightarrow> ucast (cs_reachable_ppm c)
      | GK_Bandwidth \<Rightarrow> cs_bandwidth_kbps c
      | GK_LatencyP99 \<Rightarrow> cs_rtt_p99_us c
      | GK_PathDiversity \<Rightarrow> ucast (cs_path_diversity c)
      | GK_Durability \<Rightarrow> (if cs_synchronous_durability c then kMaxDurabilityLevel else 0)
      | GK_Reachability \<Rightarrow> ucast (cs_node_coverage_ppm c))"

primrec evidence_reason :: "EvidenceState \<Rightarrow> ReasonCode" where
  "evidence_reason ES_Unknown = RC_EvidenceUnknown"
| "evidence_reason ES_Stale = RC_EvidenceStale"
| "evidence_reason ES_Conflict = RC_EvidenceConflict"
| "evidence_reason ES_Invalid = RC_EvidenceInvalid"
| "evidence_reason ES_Unsupported = RC_EvidenceUnsupported"
| "evidence_reason ES_Known = RC_None"

definition apply_evidence_action :: "Policy \<Rightarrow> EvidenceState \<Rightarrow> Assessment \<Rightarrow> Assessment" where
  "apply_evidence_action p state a =
     (let a = a\<lparr>as_reason := evidence_reason state\<rparr>
      in case evidence_action p state of
           DA_Protect \<Rightarrow> a\<lparr>as_outcome := DO_Refused, as_admissible := False\<rparr>
         | DA_Refuse \<Rightarrow> a\<lparr>as_outcome := DO_Refused, as_admissible := False\<rparr>
         | DA_Escalate \<Rightarrow>
             a\<lparr>as_outcome := DO_Escalated, as_admissible := False, as_escalation := True\<rparr>
         | DA_Degrade \<Rightarrow>
             a\<lparr>as_outcome := DO_Indeterminate, as_admissible := False, as_escalation := True\<rparr>)"

text \<open>An early return of \<open>assess\<close>: outcome, reason and, where the source sets it, escalation.\<close>

definition give_up :: "DecisionOutcome \<Rightarrow> ReasonCode \<Rightarrow> bool \<Rightarrow> Assessment \<Rightarrow> Assessment" where
  "give_up out reason escalate a =
     a\<lparr>as_outcome := out, as_reason := reason, as_escalation := as_escalation a \<or> escalate\<rparr>"

text \<open>Pass 1 over \<open>contract.original.items()\<close>: \<open>Inl\<close> is an early return, \<open>Inr\<close> the assessment with
  the shortfalls collected so far.\<close>

fun assess_pass1 ::
    "CapabilitySnapshot \<Rightarrow> guarantee list \<Rightarrow> Assessment \<Rightarrow> GuaranteeKind list \<Rightarrow>
     Assessment + Assessment \<times> GuaranteeKind list" where
  "assess_pass1 cap [] a shortfalls = Inr (a, shortfalls)"
| "assess_pass1 cap (g # gs) a shortfalls =
     (case supports cap g of
        ST_Supported \<Rightarrow>
          (case GuaranteeSet_insert g (as_approved a) of
             Inl _ \<Rightarrow> Inl (give_up DO_Invalid RC_ContractInvalid False a)
           | Inr s \<Rightarrow> assess_pass1 cap gs (a\<lparr>as_approved := s\<rparr>) shortfalls)
      | ST_Invalid \<Rightarrow> Inl (give_up DO_Indeterminate RC_EvidenceInvalid True a)
      | ST_NotModelled \<Rightarrow> Inl (give_up DO_Indeterminate RC_EvidenceUnsupported True a)
      | ST_Indeterminate \<Rightarrow> Inl (give_up DO_Indeterminate RC_EvidenceUnknown True a)
      | ST_NotSupported \<Rightarrow> assess_pass1 cap gs a (shortfalls @ [g_kind g]))"

text \<open>Pass 2 over the shortfalls: \<open>Inl\<close> is an early return.\<close>

fun assess_pass2 ::
    "ServiceContract \<Rightarrow> CapabilitySnapshot \<Rightarrow> GuaranteeEnvelope \<Rightarrow> GuaranteeKind list \<Rightarrow> Assessment \<Rightarrow>
     Assessment + Assessment" where
  "assess_pass2 c cap limits [] a = Inr a"
| "assess_pass2 c cap limits (k # ks) a =
     (let a = (if k \<noteq> GK_Bandwidth then a\<lparr>as_non_bandwidth_full := False\<rparr> else a)
      in case GuaranteeSet_find (sc_original c) k of
           None \<Rightarrow> Inl (give_up DO_Invalid RC_ContractInvalid False a)
         | Some g \<Rightarrow>
             let bound = floor_for limits k (g_value g);
                 observed = capability_value_for cap k;
                 exceeded = Inl (give_up DO_Unsupported RC_PolicyEnvelopeExceeded True (a\<lparr>as_approved := []\<rparr>));
                 weaken = (\<lambda>v. case GuaranteeSet_upsert_kind k v (g_hard g) (as_approved a) of
                             Inl _ \<Rightarrow> Inl (give_up DO_Invalid RC_ContractInvalid False a)
                           | Inr s \<Rightarrow> assess_pass2 c cap limits ks (a\<lparr>as_approved := s\<rparr>))
             in if k = GK_Bandwidth then weaken bound
                else if g_comparator g = CM_AtLeast
                then (if observed < bound then exceeded else weaken (min (g_value g) observed))
                else (if observed > bound then exceeded else weaken (max (g_value g) observed)))"

text \<open>What follows pass 1.\<close>

definition assess_shortfalls ::
    "ServiceContract \<Rightarrow> CapabilitySnapshot \<Rightarrow> Policy \<Rightarrow> GuaranteeEnvelope \<Rightarrow> Assessment \<Rightarrow>
     GuaranteeKind list \<Rightarrow> Assessment" where
  "assess_shortfalls c cap p limits a shortfalls =
     (if shortfalls = []
      then a\<lparr>as_non_bandwidth_full := True, as_admissible := True, as_outcome := DO_Full,
             as_reason := RC_OriginalObligationsSupportable\<rparr>
      else let rule = select_rule p (sc_service_class c) (sc_scope c) (Some (hd shortfalls));
               none = a\<lparr>as_approved := []\<rparr>;
               reason = shortfall_reason cap (the (GuaranteeSet_find (sc_original c) (hd shortfalls)))
           in if as_rigid a
              then (let none = none\<lparr>as_admissible := False\<rparr>
                    in if rule \<noteq> None \<and> pr_action (the rule) = DA_Escalate
                       then give_up DO_Escalated RC_PolicyRequiresProtection True none
                       else give_up DO_Refused RC_ProtectedObligationUnmet False none)
              else case rule of
                     None \<Rightarrow> give_up DO_Unsupported RC_PolicyNoRule True none
                   | Some r \<Rightarrow>
                       (case pr_action r of
                          DA_Refuse \<Rightarrow> give_up DO_Refused reason False none
                        | DA_Escalate \<Rightarrow> give_up DO_Escalated RC_ProtectedObligationUnmet True none
                        | DA_Protect \<Rightarrow> give_up DO_Refused RC_PolicyRequiresProtection False none
                        | DA_Degrade \<Rightarrow>
                            (case assess_pass2 c cap limits shortfalls (a\<lparr>as_non_bandwidth_full := True\<rparr>) of
                               Inl a' \<Rightarrow> a'
                             | Inr a' \<Rightarrow>
                                 if \<not> permits limits (sc_original c) (as_approved a')
                                 then give_up DO_Unsupported RC_PolicyEnvelopeExceeded True
                                        (a'\<lparr>as_approved := []\<rparr>)
                                 else a'\<lparr>as_admissible := True, as_outcome := DO_Degraded,
                                         as_reason := reason\<rparr>)))"

definition start_assessment :: "ServiceContract \<Rightarrow> Assessment" where
  "start_assessment c = (new_assessment c)\<lparr>as_rigid := is_rigid c, as_frozen := frozen c,
     as_demand := bandwidth_demand c, as_floor := bandwidth_floor c,
     as_needs_bandwidth := bandwidth_demand c > 0\<rparr>"

definition assess :: "ServiceContract \<Rightarrow> CapabilitySnapshot \<Rightarrow> Policy \<Rightarrow> Assessment" where
  "assess c cap p =
     (let a = start_assessment c
      in if \<not> usable cap then apply_evidence_action p (cs_state cap) a
         else case effective_envelope p c of
                Inl e \<Rightarrow> give_up DO_Unsupported
                  (if e = EC_NotFound then RC_NoRuleForServiceClass else RC_PolicyNoRule) True a
              | Inr limits \<Rightarrow>
                  (case assess_pass1 cap (sc_original c) a [] of
                     Inl a' \<Rightarrow> a'
                   | Inr (a', shortfalls) \<Rightarrow> assess_shortfalls c cap p limits a' shortfalls))"

section \<open>Phases of allocate\_scope\<close>

definition scope_entry :: "AllocationRequest \<Rightarrow> ServiceContract \<Rightarrow> AllocationEntry" where
  "scope_entry req c = new_entry\<lparr>ae_contract := sc_id c, ae_contract_generation := sc_generation c,
     ae_scope := ar_scope req\<rparr>"

text \<open>The assessment loop: entries pushed for contracts out of scope or inactive, and the assessments.\<close>

fun assess_all ::
    "AllocationRequest \<Rightarrow> CapabilitySnapshot \<Rightarrow> Policy \<Rightarrow> ServiceContract list \<Rightarrow>
     (AllocationEntry list \<times> Assessment list) result" where
  "assess_all req cap p [] = Inr ([], [])"
| "assess_all req cap p (c # cs) =
     (if sc_scope c \<noteq> ar_scope req \<or> \<not> sc_active c
      then let reason = (if sc_scope c \<noteq> ar_scope req then RC_ScopeUnknown else RC_None);
               entry = (scope_entry req c)\<lparr>ae_outcome := DO_Refused, ae_reason := reason\<rparr>;
               inactive = (new_assessment c)\<lparr>as_outcome := DO_Refused, as_reason := reason\<rparr>
           in case assess_all req cap p cs of
                Inl e \<Rightarrow> Inl e
              | Inr (entries, assessments) \<Rightarrow> Inr (entry # entries, inactive # assessments)
      else if ServiceContract_validate c \<noteq> EC_Ok then Inl (ServiceContract_validate c)
      else case assess_all req cap p cs of
             Inl e \<Rightarrow> Inl e
           | Inr (entries, assessments) \<Rightarrow> Inr (entries, assess c cap p # assessments))"

text \<open>Sum of the smallest demands, with the overflow the source treats as impossible.\<close>

fun demand_sum :: "u64 list \<Rightarrow> u64 \<Rightarrow> u64 \<times> bool" where
  "demand_sum [] acc = (acc, False)"
| "demand_sum (d # ds) acc =
     (case checked_add acc d of None \<Rightarrow> (acc, True) | Some s \<Rightarrow> demand_sum ds s)"

definition infeasibility :: "u32 \<Rightarrow> u64 list \<Rightarrow> u64 \<Rightarrow> InfeasibilityCertificate option" where
  "infeasibility required demands capacity =
     (if required > 0
      then let demands = sort_by (<) demands;
               few = length demands < unat required;
               (minimum_demand, overflow) =
                 (if few then (0, False) else demand_sum (take (unat required) demands) 0);
               impossible = few \<or> overflow \<or> (\<not> few \<and> minimum_demand > capacity)
           in if impossible
              then Some \<lparr>ic_required_protected = required,
                ic_available_protected = of_nat (length demands),
                ic_minimum_demand_kbps = minimum_demand, ic_offered_capacity_kbps = capacity,
                ic_valid = True\<rparr>
              else None
      else None)"

fun priority_sum :: "Assessment list \<Rightarrow> u64 \<Rightarrow> u64 option" where
  "priority_sum [] acc = Some acc"
| "priority_sum (a # as) acc =
     (case checked_add acc (ucast (sc_priority (as_contract a))) of
        None \<Rightarrow> None
      | Some s \<Rightarrow> priority_sum as s)"

fun rigid_items :: "u64 \<Rightarrow> Assessment list \<Rightarrow> RigidItem list option" where
  "rigid_items big [] = Some []"
| "rigid_items big (a # as) =
     (case checked_add big (ucast (sc_priority (as_contract a))) of
        None \<Rightarrow> None
      | Some v \<Rightarrow> map_option ((#) \<lparr>ri_contract = as_contract a, ri_weight = as_demand a, ri_value = v\<rparr>)
          (rigid_items big as))"

definition density_less :: "RigidItem \<Rightarrow> RigidItem \<Rightarrow> bool" where
  "density_less a b \<longleftrightarrow>
     (let lhs = checked_mul (ri_value a) (ri_weight b);
          rhs = checked_mul (ri_value b) (ri_weight a)
      in if lhs \<noteq> None \<and> rhs \<noteq> None \<and> lhs \<noteq> rhs then the lhs > the rhs
         else if ri_weight a \<noteq> ri_weight b then ri_weight a < ri_weight b
         else if ri_value a \<noteq> ri_value b then ri_value a > ri_value b
         else sc_id (ri_contract a) < sc_id (ri_contract b))"

text \<open>One row of the parallel vectors.\<close>

record slot =
  sl_assessment :: Assessment
  sl_served :: bool
  sl_admitted :: bool
  sl_allocation :: u64
  sl_approved :: guarantee_set
  sl_outcome :: DecisionOutcome
  sl_reason :: ReasonCode

definition new_slot :: "Assessment \<Rightarrow> slot" where
  "new_slot a = \<lparr>sl_assessment = a, sl_served = False, sl_admitted = False, sl_allocation = 0,
     sl_approved = as_approved a, sl_outcome = as_outcome a, sl_reason = as_reason a\<rparr>"

abbreviation sl_contract :: "slot \<Rightarrow> ServiceContract" where
  "sl_contract s \<equiv> as_contract (sl_assessment s)"

text \<open>Marking the first slot of a contract as served.\<close>

fun mark_first :: "u64 \<Rightarrow> slot list \<Rightarrow> slot list option" where
  "mark_first i [] = None"
| "mark_first i (s # ss) =
     (if sc_id (sl_contract s) = i then Some (s\<lparr>sl_served := True\<rparr> # ss)
      else map_option ((#) s) (mark_first i ss))"

text \<open>The loop over \<open>best_selection\<close>; a contract that no slot holds leaves \<open>remaining\<close> alone.\<close>

fun mark_served :: "RigidItem list \<Rightarrow> slot list \<Rightarrow> u64 \<Rightarrow> (slot list \<times> u64) result" where
  "mark_served [] slots remaining = Inr (slots, remaining)"
| "mark_served (item # items) slots remaining =
     (case mark_first (sc_id (ri_contract item)) slots of
        None \<Rightarrow> mark_served items slots remaining
      | Some slots' \<Rightarrow>
          (case checked_sub remaining (ri_weight item) of
             None \<Rightarrow> Inl EC_Underflow
           | Some rest \<Rightarrow> mark_served items slots' rest))"

definition rigid_slot :: "slot \<Rightarrow> bool" where
  "rigid_slot s \<longleftrightarrow> as_admissible (sl_assessment s) \<and> as_rigid (sl_assessment s)"

definition flexible_slot :: "slot \<Rightarrow> bool" where
  "flexible_slot s \<longleftrightarrow> as_admissible (sl_assessment s) \<and> \<not> as_rigid (sl_assessment s)"

text \<open>The body of the loop over \<open>rigid_indices\<close>.\<close>

definition settle_rigid :: "u64 \<Rightarrow> slot \<Rightarrow> slot" where
  "settle_rigid remaining s =
     (let a = sl_assessment s
      in if \<not> sl_served s
         then (let a = a\<lparr>as_admissible := False\<rparr>;
                   a = (if as_outcome a = DO_Full \<or> as_outcome a = DO_Degraded
                        then a\<lparr>as_outcome := DO_Refused,
                               as_reason := (if as_demand a > remaining then RC_ResourceExhausted
                                             else RC_ProtectedObligationUnmet)\<rparr>
                        else a)
               in s\<lparr>sl_assessment := a, sl_outcome := as_outcome a, sl_reason := as_reason a\<rparr>)
         else s\<lparr>sl_admitted := True, sl_allocation := as_demand a, sl_outcome := DO_Full,
                sl_reason := RC_OriginalObligationsSupportable\<rparr>)"

definition refuse_slot :: "ReasonCode \<Rightarrow> slot \<Rightarrow> slot" where
  "refuse_slot reason s =
     s\<lparr>sl_assessment := (sl_assessment s)\<lparr>as_admissible := False, as_outcome := DO_Refused,
         as_reason := reason\<rparr>,
       sl_outcome := DO_Refused, sl_reason := reason\<rparr>"

text \<open>The body of the flexible loop: the slot afterwards and the capacity left.\<close>

definition settle_flexible :: "Policy \<Rightarrow> u64 \<Rightarrow> slot \<Rightarrow> (slot \<times> u64) result" where
  "settle_flexible p remaining s =
     (let a = (sl_assessment s)\<lparr>as_admissible := True\<rparr>;
          s = s\<lparr>sl_assessment := a\<rparr>;
          allocated = (if as_needs_bandwidth a then min (as_demand a) remaining else 0)
      in if as_needs_bandwidth a \<and> allocated < as_floor a
         then Inr (refuse_slot RC_ResourceExhausted s, remaining)
         else case (if as_needs_bandwidth a
                    then GuaranteeSet_upsert_kind GK_Bandwidth allocated True (as_approved a)
                    else Inr (as_approved a)) of
                Inl e \<Rightarrow> Inl e
              | Inr approved \<Rightarrow>
                  let original = sc_original (as_contract a)
                  in if (case effective_envelope p (as_contract a) of
                           Inl _ \<Rightarrow> True
                         | Inr env \<Rightarrow> \<not> permits env original approved)
                     then Inr (refuse_slot RC_PolicyEnvelopeExceeded s, remaining)
                     else case checked_sub remaining allocated of
                            None \<Rightarrow> Inl EC_Underflow
                          | Some rest \<Rightarrow>
                              let out = (if approved = original then DO_Full else DO_Degraded)
                              in Inr (s\<lparr>sl_admitted := True, sl_allocation := allocated,
                                   sl_approved := approved, sl_outcome := out,
                                   sl_reason := (if out = DO_Full then RC_OriginalObligationsSupportable
                                                 else RC_ConcessionWithinEnvelope)\<rparr>, rest))"

fun flexible_loop :: "Policy \<Rightarrow> nat list \<Rightarrow> u64 \<Rightarrow> slot list \<Rightarrow> (slot list \<times> u64) result" where
  "flexible_loop p [] remaining slots = Inr (slots, remaining)"
| "flexible_loop p (i # is) remaining slots =
     (case settle_flexible p remaining (slots ! i) of
        Inl e \<Rightarrow> Inl e
      | Inr (s, rest) \<Rightarrow> flexible_loop p is rest (slots[i := s]))"

definition slot_entry :: "AllocationRequest \<Rightarrow> slot \<Rightarrow> AllocationEntry result" where
  "slot_entry req s =
     (let e = (scope_entry req (sl_contract s))\<lparr>ae_admitted := sl_admitted s,
                ae_allocated_bandwidth_kbps := sl_allocation s\<rparr>
      in if sl_admitted s
         then (case compute_delta (sc_original (sl_contract s)) (sl_approved s) RC_ConcessionWithinEnvelope of
                 Inl err \<Rightarrow> Inl err
               | Inr delta \<Rightarrow>
                   let full = GuaranteeDelta_empty delta
                   in Inr (e\<lparr>ae_approved := sl_approved s, ae_delta := delta, ae_full := full,
                        ae_outcome := (if full then DO_Full else DO_Degraded),
                        ae_reason := (if full then RC_OriginalObligationsSupportable
                                      else if sl_reason s = RC_OriginalObligationsSupportable \<or>
                                              sl_reason s = RC_None then RC_FabricCapabilityShortfall
                                      else sl_reason s)\<rparr>))
         else Inr (e\<lparr>ae_full := False, ae_reason := sl_reason s,
                ae_outcome := (if sl_outcome s = DO_Degraded \<and> protected_obligation (sl_contract s)
                               then DO_Refused else sl_outcome s)\<rparr>))"

fun slot_entries ::
    "AllocationRequest \<Rightarrow> slot list \<Rightarrow> u64 \<Rightarrow> (AllocationEntry list \<times> u64) result" where
  "slot_entries req [] tot = Inr ([], tot)"
| "slot_entries req (s # ss) tot =
     (case slot_entry req s of
        Inl e \<Rightarrow> Inl e
      | Inr entry \<Rightarrow>
          (case checked_add tot (sl_allocation s) of
             None \<Rightarrow> Inl EC_Overflow
           | Some t \<Rightarrow>
               (case slot_entries req ss t of
                  Inl e \<Rightarrow> Inl e
                | Inr (entries, tot') \<Rightarrow> Inr (entry # entries, tot'))))"

definition entry_less :: "AllocationEntry \<Rightarrow> AllocationEntry \<Rightarrow> bool" where
  "entry_less a b \<longleftrightarrow> ae_contract a < ae_contract b"

definition contract_id_less :: "ServiceContract \<Rightarrow> ServiceContract \<Rightarrow> bool" where
  "contract_id_less a b \<longleftrightarrow> sc_id a < sc_id b"

definition base_plan :: "AllocationRequest \<Rightarrow> CapabilitySnapshot \<Rightarrow> Policy \<Rightarrow> AllocationPlan" where
  "base_plan req cap p = new_plan\<lparr>ap_id := ec_plan_id (ar_context req),
     ap_authority := ab_vector (ec_binding (ar_context req)), ap_scope := ar_scope req,
     ap_planned_tick := ec_now (ar_context req), ap_capacity_generation := cs_generation cap,
     ap_available_bandwidth_kbps := cs_bandwidth_kbps cap,
     ap_work := \<lparr>aw_nodes_visited = 0, aw_nodes_pruned = 0, aw_budget = po_search_node_budget p,
                 aw_budget_exhausted = False\<rparr>\<rparr>"

definition infeasible_plan ::
    "AllocationRequest \<Rightarrow> AllocationPlan \<Rightarrow> InfeasibilityCertificate \<Rightarrow> AllocationEntry list \<Rightarrow>
     ServiceContract list \<Rightarrow> AllocationPlan" where
  "infeasible_plan req plan certificate early contracts =
     plan\<lparr>ap_certificate := certificate, ap_status := PS_ProvenInfeasible, ap_protected_shortfall := True,
       ap_entries := sort_by entry_less (early @ map (\<lambda>c. (scope_entry req c)
         \<lparr>ae_outcome := DO_Escalated, ae_reason := RC_ResourceExhausted\<rparr>) contracts)\<rparr>"

text \<open>The exact rigid selection: the search and its items, or the overflow errors.\<close>

definition rigid_selection ::
    "Policy \<Rightarrow> u64 \<Rightarrow> Assessment list \<Rightarrow> (rigid_search \<times> RigidItem list) result" where
  "rigid_selection p capacity rigid =
     (case priority_sum rigid 0 of
        None \<Rightarrow> Inl EC_Overflow
      | Some priority_total \<Rightarrow>
          (case checked_add priority_total 1 of
             None \<Rightarrow> Inl EC_Overflow
           | Some big \<Rightarrow>
               (case rigid_items big rigid of
                  None \<Rightarrow> Inl EC_Overflow
                | Some items \<Rightarrow>
                    let items = sort_by density_less items
                    in Inr (rigid_search_of items capacity (po_search_node_budget p), items))))"

definition flexible_order :: "Policy \<Rightarrow> slot list \<Rightarrow> nat list" where
  "flexible_order p slots =
     sort_by (\<lambda>a b. allocation_precedes (sl_contract (slots ! a)) (sl_contract (slots ! b)) (po_protect_first p))
       (filter (\<lambda>i. flexible_slot (slots ! i)) [0..<length slots])"

text \<open>Everything after the certificate: marking, the two settling loops and the entries.\<close>

definition finish_plan ::
    "AllocationRequest \<Rightarrow> CapabilitySnapshot \<Rightarrow> Policy \<Rightarrow> AllocationPlan \<Rightarrow> AllocationEntry list \<Rightarrow>
     Assessment list \<Rightarrow> AllocationPlan result" where
  "finish_plan req cap p plan early assessments =
     (let rigid = filter (\<lambda>a. as_admissible a \<and> as_rigid a) assessments
      in case rigid_selection p (cs_bandwidth_kbps cap) rigid of
           Inl e \<Rightarrow> Inl e
         | Inr (search, items) \<Rightarrow>
             (case mark_served (map (\<lambda>j. items ! unat j) (rs_best_selection search))
                     (map new_slot assessments) (cs_bandwidth_kbps cap) of
                Inl e \<Rightarrow> Inl e
              | Inr (slots, remaining) \<Rightarrow>
                  let settled = map (\<lambda>s. if rigid_slot s then settle_rigid remaining s else s) slots;
                      shortfall = list_ex (\<lambda>s. rigid_slot s \<and> \<not> sl_served s) slots
                  in case flexible_loop p (flexible_order p slots) remaining settled of
                       Inl e \<Rightarrow> Inl e
                     | Inr (final, rest) \<Rightarrow>
                         (case slot_entries req final 0 of
                            Inl e \<Rightarrow> Inl e
                          | Inr (entries, tot) \<Rightarrow>
                              if tot > ap_available_bandwidth_kbps plan then Inl EC_Overflow
                              else Inr (plan\<lparr>
                                ap_status := (if rigid = [] then PS_Optimal
                                              else if rs_exhausted search then PS_SearchLimitReached
                                              else PS_Optimal),
                                ap_work := \<lparr>aw_nodes_visited = rs_nodes search,
                                  aw_nodes_pruned = rs_pruned search, aw_budget = po_search_node_budget p,
                                  aw_budget_exhausted = rs_exhausted search\<rparr>,
                                ap_protected_shortfall := shortfall,
                                ap_allocated_bandwidth_kbps := tot,
                                ap_entries := sort_by entry_less (early @ entries)\<rparr>))))"

definition allocate_scope :: "AllocationRequest \<Rightarrow> AllocationPlan result" where
  "allocate_scope req =
     (case (ar_capability req, ar_policy req) of
        (Some cap, Some p) \<Rightarrow>
          if \<not> valid_id (ar_scope req) then Inl EC_InvalidArgument
          else if cs_scope cap \<noteq> ar_scope req then Inl EC_InvalidArgument
          else if Policy_validate p \<noteq> EC_Ok then Inl (Policy_validate p)
          else let contracts = sort_by contract_id_less (ar_contracts req)
               in if has_adjacent_equal (map sc_id contracts) then Inl EC_AlreadyExists
                  else case assess_all req cap p contracts of
                         Inl e \<Rightarrow> Inl e
                       | Inr (early, assessments) \<Rightarrow>
                           let demands = map as_demand
                                 (filter (\<lambda>a. as_admissible a \<and> as_rigid a) assessments)
                           in case infeasibility (po_minimum_protected_served p) demands
                                     (cs_bandwidth_kbps cap) of
                                Some certificate \<Rightarrow>
                                  Inr (infeasible_plan req (base_plan req cap p) certificate early contracts)
                              | None \<Rightarrow> finish_plan req cap p (base_plan req cap p) early assessments
      | _ \<Rightarrow> Inl EC_InvalidArgument)"

section \<open>What an assessment says\<close>

text \<open>The fields that the passes never touch.\<close>

definition frame :: "Assessment \<Rightarrow> ServiceContract \<times> bool \<times> u64 \<times> u64 \<times> bool" where
  "frame a = (as_contract a, as_rigid a, as_demand a, as_floor a, as_needs_bandwidth a)"

lemma frame_simps [simp]:
  "frame (a\<lparr>as_approved := s\<rparr>) = frame a" "frame (a\<lparr>as_admissible := b\<rparr>) = frame a"
  "frame (a\<lparr>as_outcome := out\<rparr>) = frame a" "frame (a\<lparr>as_reason := r\<rparr>) = frame a"
  "frame (a\<lparr>as_escalation := e\<rparr>) = frame a" "frame (a\<lparr>as_non_bandwidth_full := n\<rparr>) = frame a"
  "frame (give_up out r e a) = frame a"
  by (simp_all add: frame_def give_up_def)

lemma give_up_simps [simp]:
  "as_admissible (give_up out r e a) = as_admissible a" "as_outcome (give_up out r e a) = out"
  "as_approved (give_up out r e a) = as_approved a"
  by (simp_all add: give_up_def)

lemma pass1_frame:
  "assess_pass1 cap gs a sf = Inr (a', sf') \<Longrightarrow> frame a' = frame a \<and> as_admissible a' = as_admissible a"
  "assess_pass1 cap gs a sf = Inl a' \<Longrightarrow> frame a' = frame a \<and> as_admissible a' = as_admissible a \<and>
     \<not> is_authorising (as_outcome a')"
  by (induction cap gs a sf rule: assess_pass1.induct)
    (auto simp: is_authorising_def split: SupportTri.splits sum.splits)

lemma pass2_frame:
  "assess_pass2 c cap limits ks a = Inr a' \<Longrightarrow> frame a' = frame a \<and> as_admissible a' = as_admissible a"
  "assess_pass2 c cap limits ks a = Inl a' \<Longrightarrow> frame a' = frame a \<and> as_admissible a' = as_admissible a \<and>
     \<not> is_authorising (as_outcome a')"
  by (induction c cap limits ks a rule: assess_pass2.induct)
    (auto simp: is_authorising_def Let_def split: option.splits sum.splits if_splits)

text \<open>Pass 1 keeps exactly the supported guarantees and lists the kinds of the others.\<close>

lemma pass1_sets:
  assumes "assess_pass1 cap gs a sf = Inr (a', sf')" and "set_invar (as_approved a)"
  shows "set_invar (as_approved a') \<and>
    set (as_approved a') = set (as_approved a) \<union> {g \<in> set gs. supports cap g = ST_Supported} \<and>
    sf' = sf @ map g_kind (filter (\<lambda>g. supports cap g \<noteq> ST_Supported) gs) \<and>
    (\<forall>g \<in> set gs. supports cap g = ST_Supported \<or> supports cap g = ST_NotSupported)"
  using assms
proof (induction gs arbitrary: a sf)
  case (Cons g gs)
  show ?case
  proof (cases "supports cap g")
    case ST_Supported
    then obtain s where s: "GuaranteeSet_insert g (as_approved a) = Inr s"
        "assess_pass1 cap gs (a\<lparr>as_approved := s\<rparr>) sf = Inr (a', sf')"
      using Cons.prems(1) by (auto split: sum.splits)
    have inv: "set_invar s"
      using guarantee_insert.insert_invar [OF Cons.prems(2)] s(1) by simp
    have "key_insert g_kind g (as_approved a) = Some s"
      using s(1) by (auto simp: GuaranteeSet_insert_def split: if_splits option.splits)
    then have "set s = insert g (set (as_approved a))"
      by (rule key_insert_set)
    with Cons.IH [OF s(2)] inv ST_Supported show ?thesis
      by auto
  next
    case ST_NotSupported
    then show ?thesis
      using Cons.prems Cons.IH [of a "sf @ [g_kind g]"] by auto
  qed (use Cons.prems in auto)
qed simp

lemma pass1_full:
  assumes "assess_pass1 cap original a [] = Inr (a', [])" and "set_invar original" and "as_approved a = []"
  shows "as_approved a' = original \<and> list_all (\<lambda>g. supports cap g = ST_Supported) original"
proof -
  have p: "set_invar (as_approved a')" "set (as_approved a') = {g \<in> set original. supports cap g = ST_Supported}"
      "filter (\<lambda>g. supports cap g \<noteq> ST_Supported) original = []"
    using pass1_sets [OF assms(1)] assms(3) by auto
  have all: "list_all (\<lambda>g. supports cap g = ST_Supported) original"
    using p(3) by (simp add: filter_empty_conv list_all_iff)
  then have "set (as_approved a') = set original"
    using p(2) by (auto simp: list_all_iff)
  then show ?thesis
    using key_sorted_ext p(1) assms(2) all by (auto simp: set_invar_def)
qed

text \<open>A candidate that is a weakening apart from its bandwidth value, which the flexible loop replaces.\<close>

definition weakens_but_bandwidth :: "guarantee_set \<Rightarrow> guarantee_set \<Rightarrow> bool" where
  "weakens_but_bandwidth original approved \<longleftrightarrow> set_invar approved \<and>
     (\<forall>p \<in> set approved. \<exists>b. GuaranteeSet_find original (g_kind p) = Some b \<and>
        (g_kind p = GK_Bandwidth \<or> no_stronger b p))"

lemma weakens_but_bandwidth_refl: "set_invar s \<Longrightarrow> weakens_but_bandwidth s s"
  by (auto simp: weakens_but_bandwidth_def guarantee_set.lookup_key)

lemma upsert_weakens_but_bandwidth:
  assumes "weakens_but_bandwidth original s" and "GuaranteeSet_upsert_kind k v h s = Inr t"
    and "GuaranteeSet_find original k = Some b"
    and "k = GK_Bandwidth \<or> no_stronger b (mk_guarantee k v h)"
  shows "weakens_but_bandwidth original t"
proof -
  have inv: "set_invar s"
    using assms(1) by (simp add: weakens_but_bandwidth_def)
  have up: "opt_of_result (GuaranteeSet_upsert (mk_guarantee k v h) s) = Some t"
    using assms(2) by (simp add: GuaranteeSet_upsert_kind_def)
  have kind: "g_kind (mk_guarantee k v h) = k"
    by (simp add: mk_guarantee_def)
  have "set_invar t"
    using guarantee_upsert.insert_invar [OF inv up] .
  moreover have "set t = insert (mk_guarantee k v h) {y \<in> set s. g_kind y \<noteq> k}"
    using guarantee_upsert.insert_elems [OF inv up] kind by simp
  ultimately show ?thesis
    using assms(1,3,4) kind by (auto simp: weakens_but_bandwidth_def)
qed

lemma pass2_weakens:
  assumes "assess_pass2 c cap limits ks a = Inr a'" and "set_invar (sc_original c)"
    and "weakens_but_bandwidth (sc_original c) (as_approved a)"
  shows "weakens_but_bandwidth (sc_original c) (as_approved a')"
  using assms(1,3)
proof (induction ks arbitrary: a)
  case (Cons k ks)
  obtain g where g: "GuaranteeSet_find (sc_original c) k = Some g"
    using Cons.prems(1) by (auto simp: Let_def split: option.splits)
  have gk: "g_kind g = k" "g_comparator g = comparator_for k"
    using g assms(2) set_invar_comparator by (auto simp: guarantee_set.lookup_eq_Some)
  define a1 where "a1 = (if k \<noteq> GK_Bandwidth then a\<lparr>as_non_bandwidth_full := False\<rparr> else a)"
  have a1: "as_approved a1 = as_approved a"
    by (simp add: a1_def)
  obtain v s where v: "GuaranteeSet_upsert_kind k v (g_hard g) (as_approved a1) = Inr s"
      "assess_pass2 c cap limits ks (a1\<lparr>as_approved := s\<rparr>) = Inr a'"
      "k = GK_Bandwidth \<or> (if g_comparator g = CM_AtLeast then v \<le> g_value g else g_value g \<le> v)"
    using Cons.prems(1) g by (auto simp: Let_def a1_def split: if_splits sum.splits)
  have "k = GK_Bandwidth \<or> no_stronger g (mk_guarantee k v (g_hard g))"
    using v(3) gk by (auto simp: no_stronger_def mk_guarantee_def)
  then have "weakens_but_bandwidth (sc_original c) s"
    using upsert_weakens_but_bandwidth [OF _ v(1) g] Cons.prems(2) a1 by simp
  then show ?case
    using Cons.IH [OF v(2)] by simp
qed simp

text \<open>What every later phase relies on: the contract's own numbers, and what admissible means.\<close>

definition assessed :: "ServiceContract \<Rightarrow> CapabilitySnapshot \<Rightarrow> Policy \<Rightarrow> Assessment \<Rightarrow> bool" where
  "assessed c cap p a \<longleftrightarrow>
     frame a = (c, is_rigid c, bandwidth_demand c, bandwidth_floor c, bandwidth_demand c > 0) \<and>
     (as_admissible a \<longrightarrow> usable cap \<and> is_authorising (as_outcome a) \<and>
        weakens_but_bandwidth (sc_original c) (as_approved a) \<and>
        (is_rigid c \<longrightarrow> as_approved a = sc_original c \<and>
           list_all (\<lambda>g. supports cap g = ST_Supported) (sc_original c))) \<and>
     (\<not> as_admissible a \<longrightarrow> \<not> is_authorising (as_outcome a))"

lemma start_assessment_frame [simp]:
  "frame (start_assessment c) =
     (c, is_rigid c, bandwidth_demand c, bandwidth_floor c, bandwidth_demand c > 0)"
  "\<not> as_admissible (start_assessment c)" "as_approved (start_assessment c) = []"
  by (simp_all add: start_assessment_def new_assessment_def frame_def)

lemma evidence_action_assessed:
  "frame (apply_evidence_action p state a) = frame a" "\<not> as_admissible (apply_evidence_action p state a)"
  "\<not> is_authorising (as_outcome (apply_evidence_action p state a))"
  by (simp_all add: apply_evidence_action_def Let_def is_authorising_def split: DegradeAction.splits)

lemma as_rigid_frame: "frame a = (c, r, x) \<Longrightarrow> as_rigid a = r \<and> as_contract a = c"
  by (simp add: frame_def)

lemma shortfalls_assessed:
  assumes "set_invar (sc_original c)" and "usable cap"
    and "assess_pass1 cap (sc_original c) (start_assessment c) [] = Inr (a, sf)"
  shows "assessed c cap p (assess_shortfalls c cap p limits a sf)"
proof -
  have fr: "frame a = (c, is_rigid c, bandwidth_demand c, bandwidth_floor c, bandwidth_demand c > 0)"
    and na: "\<not> as_admissible a"
    using pass1_frame(1) [OF assms(3)] by simp_all
  have rig: "as_rigid a = is_rigid c"
    using as_rigid_frame [OF fr] by simp
  have set: "set_invar (as_approved a)" "set (as_approved a) \<subseteq> set (sc_original c)"
    using pass1_sets [OF assms(3)] by auto
  have wk: "weakens_but_bandwidth (sc_original c) (as_approved a)"
    using set assms(1) by (auto simp: weakens_but_bandwidth_def guarantee_set.lookup_key subset_iff)
  show ?thesis
  proof (cases "sf = []")
    case True
    then show ?thesis
      using pass1_full [OF _ assms(1)] assms(2,3) fr wk
      by (simp add: assess_shortfalls_def assessed_def is_authorising_def)
  next
    case False
    show ?thesis
    proof (cases "as_rigid a")
      case True
      then show ?thesis
        using False fr by (simp add: assess_shortfalls_def assessed_def is_authorising_def Let_def)
    next
      case flexible: False
      show ?thesis
      proof (cases "\<exists>r. select_rule p (sc_service_class c) (sc_scope c) (Some (hd sf)) = Some r \<and>
            pr_action r = DA_Degrade")
        case True
        then show ?thesis
          using False flexible fr na rig assms(2) wk
            pass2_frame [of c cap limits sf "a\<lparr>as_non_bandwidth_full := True\<rparr>"]
            pass2_weakens [of c cap limits sf "a\<lparr>as_non_bandwidth_full := True\<rparr>", OF _ assms(1)]
          by (auto simp: assess_shortfalls_def assessed_def is_authorising_def Let_def
              split: sum.split)
      next
        case other: False
        then show ?thesis
          using False flexible fr na
          by (auto simp: assess_shortfalls_def assessed_def is_authorising_def Let_def
              split: option.split DegradeAction.split)
      qed
    qed
  qed
qed

lemma assess_assessed:
  assumes "set_invar (sc_original c)"
  shows "assessed c cap p (assess c cap p)"
proof (cases "usable cap")
  case False
  then show ?thesis
    by (simp add: assess_def assessed_def evidence_action_assessed)
next
  case usable: True
  show ?thesis
  proof (cases "effective_envelope p c")
    case (Inl e)
    then show ?thesis
      using usable by (simp add: assess_def assessed_def is_authorising_def)
  next
    case (Inr limits)
    show ?thesis
    proof (cases "assess_pass1 cap (sc_original c) (start_assessment c) []")
      case (Inl a)
      then show ?thesis
        using usable Inr pass1_frame(2) [OF Inl] by (simp add: assess_def assessed_def)
    next
      case (Inr r)
      then show ?thesis
        using usable \<open>effective_envelope p c = Inr limits\<close> shortfalls_assessed [OF assms usable]
        by (cases r) (simp add: assess_def)
    qed
  qed
qed

text \<open>The assessment of each contract, active in scope or not.\<close>

definition assessment_of ::
    "AllocationRequest \<Rightarrow> CapabilitySnapshot \<Rightarrow> Policy \<Rightarrow> ServiceContract \<Rightarrow> Assessment \<Rightarrow> bool" where
  "assessment_of req cap p c a \<longleftrightarrow> as_contract a = c \<and>
     (if sc_scope c \<noteq> ar_scope req \<or> \<not> sc_active c
      then \<not> as_admissible a \<and> as_outcome a = DO_Refused
      else ServiceContract_validate c = EC_Ok \<and> assessed c cap p a \<and> a = assess c cap p)"

lemma assess_all_Inr:
  "assess_all req cap p cs = Inr (early, as) \<Longrightarrow> list_all2 (assessment_of req cap p) cs as"
proof (induction cs arbitrary: early as)
  case (Cons c cs)
  obtain early' as' a where rest: "assess_all req cap p cs = Inr (early', as')" and as: "as = a # as'"
      and a: "if sc_scope c \<noteq> ar_scope req \<or> \<not> sc_active c
        then as_contract a = c \<and> \<not> as_admissible a \<and> as_outcome a = DO_Refused
        else ServiceContract_validate c = EC_Ok \<and> a = assess c cap p"
    using Cons.prems by (auto simp: Let_def new_assessment_def split: sum.splits if_splits)
  have "assessment_of req cap p c a"
  proof (cases "sc_scope c \<noteq> ar_scope req \<or> \<not> sc_active c")
    case False
    then have ok: "ServiceContract_validate c = EC_Ok" and eq: "a = assess c cap p"
      using a by auto
    then have "assessed c cap p (assess c cap p)"
      by (intro assess_assessed contract_ok_invar)
    then show ?thesis
      using False ok eq by (simp add: assessment_of_def assessed_def frame_def)
  qed (use a in \<open>simp add: assessment_of_def\<close>)
  then show ?case
    using Cons.IH [OF rest] as by simp
qed simp

definition early_entries :: "AllocationRequest \<Rightarrow> ServiceContract list \<Rightarrow> AllocationEntry list" where
  "early_entries req cs = map (\<lambda>c. (scope_entry req c)\<lparr>ae_outcome := DO_Refused,
     ae_reason := (if sc_scope c \<noteq> ar_scope req then RC_ScopeUnknown else RC_None)\<rparr>)
     (filter (\<lambda>c. sc_scope c \<noteq> ar_scope req \<or> \<not> sc_active c) cs)"

lemma assess_all_early: "assess_all req cap p cs = Inr (early, as) \<Longrightarrow> early = early_entries req cs"
proof (induction cs arbitrary: early as)
  case (Cons c cs)
  then show ?case
    by (cases "sc_scope c \<noteq> ar_scope req \<or> \<not> sc_active c")
      (auto simp: Let_def early_entries_def split: sum.splits if_splits)
qed (simp add: early_entries_def)

end
