(* ===== verification/Allocator_Rigid.thy ===== *)
theory Allocator_Rigid
  imports Complex_Main Allocator
begin

text \<open>
  The rigid phase of \<open>allocate_scope\<close>: why the items handed to the exact search are in density
  order and carry the lexicographic objective, and what marking the selection does to the slots.
\<close>

section \<open>The density order\<close>

text \<open>The comparator of the source without its overflow fallback.\<close>

definition exact_density_less :: "RigidItem \<Rightarrow> RigidItem \<Rightarrow> bool" where
  "exact_density_less a b \<longleftrightarrow>
     (let lhs = unat (ri_value a) * unat (ri_weight b); rhs = unat (ri_value b) * unat (ri_weight a)
      in if lhs \<noteq> rhs then lhs > rhs
         else if ri_weight a \<noteq> ri_weight b then ri_weight a < ri_weight b
         else if ri_value a \<noteq> ri_value b then ri_value a > ri_value b
         else sc_id (ri_contract a) < sc_id (ri_contract b))"

definition no_product_overflow :: "RigidItem list \<Rightarrow> bool" where
  "no_product_overflow items \<longleftrightarrow>
     (\<forall>a \<in> set items. \<forall>b \<in> set items. unat (ri_value a) * unat (ri_weight b) < 2 ^ 64)"

lemma checked_mul_exact:
  fixes a b :: u64
  assumes "unat a * unat b < 2 ^ 64"
  shows "checked_mul a b = Some (a * b) \<and> unat (a * b) = unat a * unat b"
proof -
  have "checked_mul a b \<noteq> None"
    unfolding checked_mul_None_iff using assms by simp
  then obtain c where c: "checked_mul a b = Some c"
    by blast
  then have "unat c = unat a * unat b"
    by (simp only: checked_mul_Some_iff)
  moreover have "unat (a * b) = unat a * unat b"
    using assms by (simp add: unat_word_ariths)
  ultimately have "c = a * b"
    by (metis unsigned_word_eqI)
  then show ?thesis
    using c \<open>unat (a * b) = unat a * unat b\<close> by simp
qed

lemma density_less_exact:
  assumes "no_product_overflow items" and "a \<in> set items" and "b \<in> set items"
  shows "density_less a b = exact_density_less a b"
proof -
  have "unat (ri_value a) * unat (ri_weight b) < 2 ^ 64" and "unat (ri_value b) * unat (ri_weight a) < 2 ^ 64"
    using assms by (auto simp: no_product_overflow_def)
  then obtain l r where l: "checked_mul (ri_value a) (ri_weight b) = Some l"
      "unat l = unat (ri_value a) * unat (ri_weight b)"
    and r: "checked_mul (ri_value b) (ri_weight a) = Some r"
      "unat r = unat (ri_value b) * unat (ri_weight a)"
    using checked_mul_exact by blast
  have "l = r \<longleftrightarrow> unat (ri_value a) * unat (ri_weight b) = unat (ri_value b) * unat (ri_weight a)"
    using l(2) r(2) by (simp add: word_unat_eq_iff)
  moreover have "r < l \<longleftrightarrow> unat (ri_value b) * unat (ri_weight a) < unat (ri_value a) * unat (ri_weight b)"
    using l(2) r(2) by (simp add: word_less_nat_alt)
  ultimately show ?thesis
    unfolding density_less_def exact_density_less_def Let_def l(1) r(1) by simp
qed

text \<open>The exact comparator compares a key: items without weight first, then by density, weight, value
  and identity.\<close>

definition density_key :: "RigidItem \<Rightarrow> bool \<times> rat \<times> nat \<times> int \<times> u64" where
  "density_key a =
     (ri_weight a \<noteq> 0,
      if ri_weight a = 0 then 0 else - (of_nat (unat (ri_value a)) / of_nat (unat (ri_weight a))),
      unat (ri_weight a), - int (unat (ri_value a)), sc_id (ri_contract a))"

lemma cross_multiply:
  fixes v w v' w' :: nat
  assumes "w > 0" and "w' > 0"
  shows "(of_nat v / of_nat w :: rat) < of_nat v' / of_nat w' \<longleftrightarrow> v * w' < v' * w"
proof -
  have "(of_nat v / of_nat w :: rat) < of_nat v' / of_nat w' \<longleftrightarrow>
      (of_nat v * of_nat w' :: rat) < of_nat v' * of_nat w"
    using assms by (simp add: field_simps)
  also have "\<dots> \<longleftrightarrow> v * w' < v' * w"
    by (metis of_nat_less_iff of_nat_mult)
  finally show ?thesis .
qed

lemma exact_density_less_key: "exact_density_less a b \<longleftrightarrow> density_key a < density_key b"
proof -
  have gt0: "0 < unat w" if "w \<noteq> 0" for w :: u64
    using that by (simp add: unat_gt_0)
  have val: "- int (unat v) < - int (unat v') \<longleftrightarrow> v > v'" "- int (unat v) \<le> - int (unat v') \<longleftrightarrow> v \<ge> v'"
      "unat v < unat v' \<longleftrightarrow> v < v'" "unat v \<le> unat v' \<longleftrightarrow> v \<le> v'" for v v' :: u64
    by (simp_all only: neg_less_iff_less neg_le_iff_le of_nat_less_iff of_nat_le_iff word_less_nat_alt
        word_le_nat_alt)
  consider (a0) "ri_weight a = 0" | (b0) "ri_weight a \<noteq> 0" "ri_weight b = 0"
    | (pos) "ri_weight a \<noteq> 0" "ri_weight b \<noteq> 0"
    by blast
  then show ?thesis
  proof cases
    case b0
    then show ?thesis
      using gt0 [OF b0(1)]
      by (auto simp: exact_density_less_def density_key_def Let_def less_prod_simp val)
  next
    case pos
    define x where "x = unat (ri_value a) * unat (ri_weight b)"
    define y where "y = unat (ri_value b) * unat (ri_weight a)"
    define da :: rat where "da = of_nat (unat (ri_value a)) / of_nat (unat (ri_weight a))"
    define db :: rat where "db = of_nat (unat (ri_value b)) / of_nat (unat (ri_weight b))"
    have "da < db \<longleftrightarrow> x < y" and "db < da \<longleftrightarrow> y < x"
      unfolding da_def db_def x_def y_def using gt0 [OF pos(1)] gt0 [OF pos(2)]
      by (simp_all only: cross_multiply)
    then show ?thesis
      unfolding exact_density_less_def density_key_def Let_def x_def [symmetric] y_def [symmetric]
        da_def [symmetric] db_def [symmetric] less_prod_simp less_bool_def less_eq_prod_simp val
      using pos by (auto simp: not_less antisym_conv1)
  next
    case a0
    then show ?thesis
      unfolding exact_density_less_def density_key_def Let_def less_prod_simp less_eq_prod_simp val
      using gt0 [of "ri_weight b"] by (auto simp: word_gt_0 not_less antisym_conv1)
  qed
qed

interpretation exact_density: strict_weak_order exact_density_less
  unfolding exact_density_less_key by (rule key_less_swo)

lemma density_sorted:
  assumes "no_product_overflow items"
  shows "sorted_wrt denser (sort_by density_less items)"
proof -
  have "sort_by density_less items = sort_by exact_density_less items"
    using density_less_exact [OF assms] by (rule sort_by_cong)
  moreover have "denser a b" if "\<not> exact_density_less b a" for a b
    using that by (auto simp: denser_def exact_density_less_def Let_def split: if_splits)
  ultimately show ?thesis
    using sorted_wrt_mono_rel [OF _ exact_density.sorted_sort_by [of items]] by metis
qed

section \<open>The items\<close>

lemma priority_sum_exact:
  "priority_sum as acc = Some t \<longleftrightarrow>
   unat t = unat acc + sum_list (map (\<lambda>a. unat (sc_priority (as_contract a))) as)"
proof (induction as arbitrary: acc)
  case Nil
  then show ?case
    by (auto simp: word_unat_eq_iff)
next
  case (Cons a as)
  let ?p = "ucast (sc_priority (as_contract a)) :: u64"
  have p: "unat ?p = unat (sc_priority (as_contract a))"
    by simp
  show ?case
  proof (cases "checked_add acc ?p")
    case None
    then have "2 ^ 64 \<le> unat acc + unat (sc_priority (as_contract a))"
      unfolding checked_add_None_iff p by simp
    then show ?thesis
      using None unat_u64_bound [of t] by simp
  next
    case (Some s)
    then have "unat s = unat acc + unat (sc_priority (as_contract a))"
      by (simp only: checked_add_Some_iff p)
    then show ?thesis
      using Some Cons.IH [of s] by (simp add: add.assoc)
  qed
qed

definition item_for :: "u64 \<Rightarrow> Assessment \<Rightarrow> RigidItem \<Rightarrow> bool" where
  "item_for big a x \<longleftrightarrow> ri_contract x = as_contract a \<and> ri_weight x = as_demand a \<and>
     unat (ri_value x) = unat big + unat (sc_priority (as_contract a))"

lemma rigid_items_exact: "rigid_items big as = Some items \<Longrightarrow> list_all2 (item_for big) as items"
proof (induction as arbitrary: items)
  case (Cons a as)
  obtain v rest where v: "checked_add big (ucast (sc_priority (as_contract a))) = Some v"
      "rigid_items big as = Some rest"
      "items = \<lparr>ri_contract = as_contract a, ri_weight = as_demand a, ri_value = v\<rparr> # rest"
    using Cons.prems by (auto split: option.splits)
  have "unat v = unat big + unat (ucast (sc_priority (as_contract a)) :: u64)"
    using v(1) by (simp only: checked_add_Some_iff)
  then show ?case
    using Cons.IH [OF v(2)] v(3) by (simp add: item_for_def)
qed simp


lemma rigid_selection_items:
  assumes "rigid_selection p capacity rigid = Inr (search, items)"
  obtains big raw where "list_all2 (item_for big) rigid raw" and "items = sort_by density_less raw"
    and "search = rigid_search_of items capacity (po_search_node_budget p)"
    and "unat big = sum_list (map (\<lambda>a. unat (sc_priority (as_contract a))) rigid) + 1"
    and "encodes (unat big) items"
proof -
  obtain t big raw where r: "priority_sum rigid 0 = Some t" "checked_add t 1 = Some big"
      "rigid_items big rigid = Some raw" "items = sort_by density_less raw"
      "search = rigid_search_of items capacity (po_search_node_budget p)"
    using assms by (auto simp: rigid_selection_def Let_def split: option.splits)
  have all: "list_all2 (item_for big) rigid raw"
    using r(3) by (rule rigid_items_exact)
  have "unat t = sum_list (map (\<lambda>a. unat (sc_priority (as_contract a))) rigid)"
    using r(1) by (simp add: priority_sum_exact)
  moreover have "unat big = unat t + unat (1 :: u64)"
    using r(2) by (simp only: checked_add_Some_iff)
  ultimately have big: "unat big = sum_list (map (\<lambda>a. unat (sc_priority (as_contract a))) rigid) + 1"
    by simp
  have "map (\<lambda>x. unat (sc_priority (ri_contract x))) raw = map (\<lambda>a. unat (sc_priority (as_contract a))) rigid"
    using all by (induction rule: list_all2_induct) (simp_all add: item_for_def)
  then have "priorities raw < unat big"
    using big by (simp add: priorities_def)
  moreover have "priorities items = priorities raw"
    unfolding priorities_def using r(4) by (metis mset_map mset_sort_by sum_mset_sum_list)
  moreover have "list_all (\<lambda>x. unat (ri_value x) = unat big + unat (sc_priority (ri_contract x))) raw"
    using all by (induction rule: list_all2_induct) (simp_all add: item_for_def)
  ultimately have "encodes (unat big) items"
    using r(4) by (simp add: encodes_def list_all_iff)
  then show thesis
    using that all big r(4,5) by blast
qed

lemma nth_shift:
  assumes "list_all (\<lambda>j. Suc i \<le> unat j) js"
  shows "map (\<lambda>j. (x # xs) ! (unat j - i)) js = map (\<lambda>j. xs ! (unat j - Suc i)) js"
    "list_all (\<lambda>j. i \<le> unat j) js"
proof -
  have "(x # xs) ! (unat j - i) = xs ! (unat j - Suc i)" if "j \<in> set js" for j
  proof -
    have "unat j - i = Suc (unat j - Suc i)"
      using assms that by (auto simp: list_all_iff)
    then show ?thesis by simp
  qed
  then show "map (\<lambda>j. (x # xs) ! (unat j - i)) js = map (\<lambda>j. xs ! (unat j - Suc i)) js"
    by simp
  show "list_all (\<lambda>j. i \<le> unat j) js"
    using assms by (auto simp: list_all_iff dest: Suc_leD)
qed

lemma picks_nth:
  "(js, ys) \<in> set (picks i xs) \<Longrightarrow> i + length xs \<le> 2 ^ 32 \<Longrightarrow>
   list_all (\<lambda>j. i \<le> unat j) js \<and> map (\<lambda>j. xs ! (unat j - i)) js = ys"
proof (induction xs arbitrary: i js ys)
  case (Cons x xs)
  have i: "unat (of_nat i :: u32) = i"
    using Cons.prems(2) by (simp add: unat_of_nat take_bit_nat_eq_self)
  have IH: "list_all (\<lambda>j. Suc i \<le> unat j) js' \<and> map (\<lambda>j. xs ! (unat j - Suc i)) js' = ys'"
    if "(js', ys') \<in> set (picks (Suc i) xs)" for js' ys'
    using Cons.IH [OF that] Cons.prems(2) by simp
  from Cons.prems(1) consider "(js, ys) \<in> set (picks (Suc i) xs)"
    | js' ys' where "js = of_nat i # js'" "ys = x # ys'" "(js', ys') \<in> set (picks (Suc i) xs)"
    by auto
  then show ?case
    using IH nth_shift i by cases fastforce+
qed simp

section \<open>Marking the selection\<close>

definition serve :: "u64 set \<Rightarrow> slot \<Rightarrow> slot" where
  "serve ids s = (if sc_id (sl_contract s) \<in> ids then s\<lparr>sl_served := True\<rparr> else s)"

lemma serve_simps [simp]:
  "sl_assessment (serve ids s) = sl_assessment s" "sl_admitted (serve ids s) = sl_admitted s"
  "sl_allocation (serve ids s) = sl_allocation s" "sl_approved (serve ids s) = sl_approved s"
  "sl_outcome (serve ids s) = sl_outcome s" "sl_reason (serve ids s) = sl_reason s"
  "sl_served (serve ids s) = (sl_served s \<or> sc_id (sl_contract s) \<in> ids)"
  "serve {} s = s"
  by (simp_all add: serve_def)

lemma serve_serve: "serve A (serve B s) = serve (A \<union> B) s"
  by (simp add: serve_def)

abbreviation slot_ids :: "slot list \<Rightarrow> u64 list" where
  "slot_ids slots \<equiv> map (\<lambda>s. sc_id (sl_contract s)) slots"

lemma mark_first_serve:
  assumes "distinct (slot_ids slots)" and "i \<in> set (slot_ids slots)"
  shows "mark_first i slots = Some (map (serve {i}) slots)"
  using assms
proof (induction slots)
  case (Cons s ss)
  show ?case
  proof (cases "sc_id (sl_contract s) = i")
    case True
    have "map (serve {i}) ss = ss"
      using Cons.prems(1) True by (intro map_idI) (auto simp: serve_def image_iff)
    then show ?thesis
      using True by (simp add: serve_def [of _ s])
  next
    case False
    then show ?thesis
      using Cons by (simp add: serve_def)
  qed
qed simp

lemma mark_served_serve:
  assumes "distinct (slot_ids slots)" and "(\<lambda>x. sc_id (ri_contract x)) ` set ys \<subseteq> set (slot_ids slots)"
    and "weights ys \<le> unat remaining"
  shows "\<exists>rest. mark_served ys slots remaining =
      Inr (map (serve ((\<lambda>x. sc_id (ri_contract x)) ` set ys)) slots, rest) \<and>
    unat rest + weights ys = unat remaining"
  using assms
proof (induction ys arbitrary: slots remaining)
  case Nil
  then show ?case by simp
next
  case (Cons y ys)
  let ?i = "sc_id (ri_contract y)"
  have first: "mark_first ?i slots = Some (map (serve {?i}) slots)"
    using Cons.prems by (intro mark_first_serve) simp_all
  obtain r where r: "checked_sub remaining (ri_weight y) = Some r"
    using Cons.prems(3) checked_sub_None_iff [of remaining "ri_weight y"] by fastforce
  then have "unat r = unat remaining - unat (ri_weight y)"
    by (simp only: checked_sub_Some_iff)
  then have rv: "unat remaining = unat r + unat (ri_weight y)"
    using Cons.prems(3) by simp
  have ids: "slot_ids (map (serve {?i}) slots) = slot_ids slots"
    by simp
  obtain rest where rest: "mark_served ys (map (serve {?i}) slots) r =
        Inr (map (serve ((\<lambda>x. sc_id (ri_contract x)) ` set ys)) (map (serve {?i}) slots), rest)"
      "unat rest + weights ys = unat r"
  proof -
    have "(\<lambda>x. sc_id (ri_contract x)) ` set ys \<subseteq> set (slot_ids slots)" and "weights ys \<le> unat r"
      using Cons.prems(2,3) rv by simp_all
    then show thesis
      using Cons.IH [of "map (serve {?i}) slots" r, unfolded ids, OF Cons.prems(1)] that by blast
  qed
  have "serve ((\<lambda>x. sc_id (ri_contract x)) ` set ys) (serve {?i} s) =
      serve ((\<lambda>x. sc_id (ri_contract x)) ` set (y # ys)) s" for s
    by (simp add: serve_serve)
  then show ?case
    using first r rest rv by (simp add: comp_def)
qed

end
