(* ===== verification/Allocator_Plan.thy ===== *)
theory Allocator_Plan
  imports Allocator_Rigid
begin

text \<open>
  What a plan of \<open>allocate_scope\<close> promises: an admitted contract is inside its obligations and inside
  the envelope, a rigid contract is served whole or not at all, bandwidth is never over-committed,
  and the plan does not depend on the order of the request.
\<close>

section \<open>The slots at the end of the run\<close>

definition slot_ok :: "AllocationRequest \<Rightarrow> CapabilitySnapshot \<Rightarrow> Policy \<Rightarrow> slot \<Rightarrow> bool" where
  "slot_ok req cap p s \<longleftrightarrow>
     (let c = sl_contract s
      in (sl_admitted s \<longrightarrow> sc_scope c = ar_scope req \<and> sc_active c \<and> ServiceContract_validate c = EC_Ok \<and>
            usable cap \<and>
            (if is_rigid c
             then sl_approved s = sc_original c \<and> sl_allocation s = bandwidth_demand c \<and>
                  list_all (\<lambda>g. supports cap g = ST_Supported) (sc_original c)
             else (\<exists>env. effective_envelope p c = Inr env \<and> permits env (sc_original c) (sl_approved s)) \<and>
                  (bandwidth_demand c > 0 \<longrightarrow> bandwidth_floor c \<le> sl_allocation s \<and>
                     sl_allocation s \<le> bandwidth_demand c \<and>
                     GuaranteeSet_find (sl_approved s) GK_Bandwidth =
                       Some (mk_guarantee GK_Bandwidth (sl_allocation s) True)) \<and>
                  (bandwidth_demand c = 0 \<longrightarrow> sl_allocation s = 0))) \<and>
         (\<not> sl_admitted s \<longrightarrow> sl_allocation s = 0 \<and> \<not> is_authorising (sl_outcome s)))"

lemma upsert_kind_find:
  assumes "set_invar s" and "GuaranteeSet_upsert_kind k v h s = Inr t"
  shows "GuaranteeSet_find t k = Some (mk_guarantee k v h)"
proof -
  have up: "opt_of_result (GuaranteeSet_upsert (mk_guarantee k v h) s) = Some t"
    using assms(2) by (simp add: GuaranteeSet_upsert_kind_def)
  have kind: "g_kind (mk_guarantee k v h) = k"
    by (simp add: mk_guarantee_def)
  have "set_invar t"
    using guarantee_upsert.insert_invar [OF assms(1) up] .
  moreover have "mk_guarantee k v h \<in> set t"
    using guarantee_upsert.insert_elems [OF assms(1) up] kind by simp
  ultimately show ?thesis
    using kind by (simp add: guarantee_set.lookup_eq_Some)
qed

text \<open>A rigid slot before and after the loop over \<open>rigid_indices\<close>.\<close>

lemma settle_rigid_ok:
  assumes "assessment_of req cap p c (sl_assessment s)" and "rigid_slot s" and "\<not> sl_admitted s"
    and "sl_allocation s = 0" and "sl_approved s = as_approved (sl_assessment s)"
  shows "slot_ok req cap p (settle_rigid r s) \<and> sl_contract (settle_rigid r s) = c \<and>
    sl_admitted (settle_rigid r s) = sl_served s \<and>
    sl_allocation (settle_rigid r s) = (if sl_served s then as_demand (sl_assessment s) else 0)"
proof -
  have active: "sc_scope c = ar_scope req" "sc_active c"
    using assms(1,2) by (auto simp: assessment_of_def rigid_slot_def split: if_splits)
  then have a: "as_contract (sl_assessment s) = c" "ServiceContract_validate c = EC_Ok"
      "assessed c cap p (sl_assessment s)"
    using assms(1) by (auto simp: assessment_of_def)
  then show ?thesis
    using assms(2-5) active
    by (auto simp: slot_ok_def settle_rigid_def rigid_slot_def assessed_def frame_def Let_def is_authorising_def)
qed

lemma settle_flexible_ok:
  assumes "assessment_of req cap p c (sl_assessment s)" and "flexible_slot s" and "\<not> sl_admitted s"
    and "sl_allocation s = 0" and "settle_flexible p r s = Inr (s', r')"
  shows "slot_ok req cap p s' \<and> sl_contract s' = c \<and> unat r' + unat (sl_allocation s') = unat r"
proof -
  have active: "sc_scope c = ar_scope req" "sc_active c"
    using assms(1,2) by (auto simp: assessment_of_def flexible_slot_def split: if_splits)
  define a where "a = (sl_assessment s)\<lparr>as_admissible := True\<rparr>"
  have c: "as_contract (sl_assessment s) = c" "ServiceContract_validate c = EC_Ok"
      "assessed c cap p (sl_assessment s)"
    using assms(1) active by (auto simp: assessment_of_def)
  then have a: "as_contract a = c" "\<not> is_rigid c" "as_demand a = bandwidth_demand c"
      "as_floor a = bandwidth_floor c" "as_needs_bandwidth a = (bandwidth_demand c > 0)" "usable cap"
      "set_invar (as_approved a)"
    using assms(2) by (auto simp: a_def assessed_def frame_def flexible_slot_def weakens_but_bandwidth_def)
  define allocated where "allocated = (if as_needs_bandwidth a then min (as_demand a) r else 0)"
  have le: "allocated \<le> r" "allocated \<le> bandwidth_demand c"
    using a(3) by (auto simp: allocated_def min_def)
  then have sub: "checked_sub r allocated = Some (r - allocated)" "unat (r - allocated) + unat allocated = unat r"
    by (simp_all add: checked_sub_def not_less unat_sub word_le_nat_alt)
  note unfold = settle_flexible_def Let_def a_def [symmetric] allocated_def [symmetric]
  show ?thesis
  proof (cases "s' = refuse_slot RC_ResourceExhausted (s\<lparr>sl_assessment := a\<rparr>) \<and> r' = r \<or>
      s' = refuse_slot RC_PolicyEnvelopeExceeded (s\<lparr>sl_assessment := a\<rparr>) \<and> r' = r")
    case True
    then show ?thesis
      using assms(3,4) a(1) by (auto simp: refuse_slot_def slot_ok_def Let_def is_authorising_def)
  next
    case False
    obtain approved env where ok: "\<not> (as_needs_bandwidth a \<and> allocated < as_floor a)"
        "(if as_needs_bandwidth a then GuaranteeSet_upsert_kind GK_Bandwidth allocated True (as_approved a)
          else Inr (as_approved a)) = Inr approved"
        "effective_envelope p c = Inr env" "permits env (sc_original c) approved"
        "sl_admitted s'" "sl_allocation s' = allocated" "sl_approved s' = approved" "sl_assessment s' = a"
        "r' = r - allocated"
      using assms(5) False a(1) sub(1) unfolding unfold by (auto split: if_splits sum.splits)
    have "bandwidth_demand c > 0 \<Longrightarrow> GuaranteeSet_find approved GK_Bandwidth =
        Some (mk_guarantee GK_Bandwidth allocated True)"
      using ok(2) a(5) upsert_kind_find [OF a(7)] by simp
    moreover have "bandwidth_demand c = 0 \<Longrightarrow> allocated = 0"
      using a(5) by (simp add: allocated_def)
    ultimately show ?thesis
      using ok a c active le sub(2) by (auto simp: slot_ok_def Let_def)
  qed
qed

text \<open>The allocated bandwidth of the slots, and its change by one update.\<close>

definition allocated_sum :: "slot list \<Rightarrow> nat" where
  "allocated_sum slots = sum_list (map (\<lambda>s. unat (sl_allocation s)) slots)"

lemma allocated_sum_update:
  assumes "i < length slots" and "sl_allocation (slots ! i) = 0"
  shows "allocated_sum (slots[i := s]) = allocated_sum slots + unat (sl_allocation s)"
proof -
  have "sum_list (map f (xs[i := y])) = sum_list (map f xs) + f y"
    if "i < length xs" "f (xs ! i) = 0" for f :: "slot \<Rightarrow> nat" and xs i y
    using that
  proof (induction xs arbitrary: i)
    case (Cons x xs)
    then show ?case by (cases i) auto
  qed simp
  then show ?thesis
    using assms by (simp add: allocated_sum_def)
qed

lemma flexible_loop_ok:
  assumes "flexible_loop p ixs r slots = Inr (final, rest)" and "distinct ixs"
    and "\<And>i. i \<in> set ixs \<Longrightarrow> i < length slots \<and> flexible_slot (slots ! i) \<and> \<not> sl_admitted (slots ! i) \<and>
      sl_allocation (slots ! i) = 0 \<and> assessment_of req cap p (sl_contract (slots ! i)) (sl_assessment (slots ! i))"
  shows "length final = length slots \<and> unat rest + allocated_sum final = unat r + allocated_sum slots \<and>
    (\<forall>i < length slots. sl_contract (final ! i) = sl_contract (slots ! i) \<and>
       (if i \<in> set ixs then slot_ok req cap p (final ! i) else final ! i = slots ! i))"
  using assms
proof (induction ixs arbitrary: r slots)
  case (Cons i ixs)
  obtain s r' where s: "settle_flexible p r (slots ! i) = Inr (s, r')"
      "flexible_loop p ixs r' (slots[i := s]) = Inr (final, rest)"
    using Cons.prems(1) by (auto split: sum.splits)
  note i = Cons.prems(3) [of i, simplified]
  have ok: "slot_ok req cap p s" "sl_contract s = sl_contract (slots ! i)" "unat r' + unat (sl_allocation s) = unat r"
    using settle_flexible_ok [of req cap p _ "slots ! i" r s r'] i s(1) by auto
  have ne: "i \<notin> set ixs" and d: "distinct ixs"
    using Cons.prems(2) by simp_all
  have prems: "j < length (slots[i := s]) \<and> flexible_slot (slots[i := s] ! j) \<and>
      \<not> sl_admitted (slots[i := s] ! j) \<and> sl_allocation (slots[i := s] ! j) = 0 \<and>
      assessment_of req cap p (sl_contract (slots[i := s] ! j)) (sl_assessment (slots[i := s] ! j))"
    if "j \<in> set ixs" for j
    using Cons.prems(3) [of j] that ne by (cases "j = i") auto
  note IH = Cons.IH [OF s(2) d prems]
  have "unat rest + allocated_sum final = unat r + allocated_sum slots"
    using IH ok(3) allocated_sum_update [of i slots s] i by simp
  moreover have "sl_contract (final ! j) = sl_contract (slots ! j) \<and>
      (if j \<in> set (i # ixs) then slot_ok req cap p (final ! j) else final ! j = slots ! j)"
    if "j < length slots" for j
    using IH that ok(1,2) ne by (cases "j = i") (auto simp: nth_list_update)
  ultimately show ?case
    using IH by simp
qed simp

lemma slot_entries_ok:
  "slot_entries req slots tot = Inr (entries, tot') \<Longrightarrow>
   list_all2 (\<lambda>s e. slot_entry req s = Inr e) slots entries \<and> unat tot' = unat tot + allocated_sum slots"
proof (induction slots arbitrary: tot entries)
  case (Cons s ss)
  obtain e t es where e: "slot_entry req s = Inr e" "checked_add tot (sl_allocation s) = Some t"
      "slot_entries req ss t = Inr (es, tot')" "entries = e # es"
    using Cons.prems by (auto split: sum.splits option.splits)
  have "unat t = unat tot + unat (sl_allocation s)"
    using e(2) by (simp only: checked_add_Some_iff)
  then show ?case
    using Cons.IH [OF e(3)] e(1,4) by (simp add: allocated_sum_def)
qed (simp add: allocated_sum_def)

section \<open>The run after the certificate\<close>

abbreviation item_ids :: "RigidItem list \<Rightarrow> u64 set" where
  "item_ids ys \<equiv> (\<lambda>x. sc_id (ri_contract x)) ` set ys"

definition rigid_of :: "Assessment list \<Rightarrow> Assessment list" where
  "rigid_of assessments = filter (\<lambda>a. as_admissible a \<and> as_rigid a) assessments"

lemma item_for_ids:
  assumes "list_all2 (item_for big) rigid raw"
  shows "map (\<lambda>x. sc_id (ri_contract x)) raw = map (\<lambda>a. sc_id (as_contract a)) rigid"
    "map ri_weight raw = map as_demand rigid" "length raw = length rigid"
  using assms by (induction rule: list_all2_induct) (simp_all add: item_for_def)

lemma subseq_filter_key:
  assumes "subseq ys xs" and "distinct (map f xs)"
  shows "filter (\<lambda>x. f x \<in> f ` set ys) xs = ys"
  using assms
proof (induction rule: list_emb.induct)
  case (list_emb_Cons ys xs x)
  then have "f x \<notin> f ` set ys"
    using subseq_subset by fastforce
  then show ?case
    using list_emb_Cons by simp
next
  case (list_emb_Cons2 x y ys xs)
  then have "f y \<notin> f ` set xs"
    by simp
  then have "filter (\<lambda>z. f z \<in> insert (f y) (f ` set ys)) xs = filter (\<lambda>z. f z \<in> f ` set ys) xs"
    by (intro filter_cong) (auto, metis image_eqI)
  then show ?case
    using list_emb_Cons2 by simp
qed simp

lemma weights_mset: "weights xs = (\<Sum>x \<in># mset xs. unat (ri_weight x))"
  by (induction xs) simp_all

text \<open>The weight of a selection is the demand of the assessments it names.\<close>

lemma selection_weight:
  assumes "list_all2 (item_for big) rigid raw" and "subseq ys (sort_by density_less raw)"
    and "distinct (map (\<lambda>a. sc_id (as_contract a)) rigid)"
  shows "weights ys =
    sum_list (map (\<lambda>a. if sc_id (as_contract a) \<in> item_ids ys then unat (as_demand a) else 0) rigid)"
proof -
  have "distinct (map (\<lambda>x. sc_id (ri_contract x)) (sort_by density_less raw))"
    using assms(3) item_for_ids(1) [OF assms(1)] by simp
  note chosen = subseq_filter_key [OF assms(2) this]
  define sel where "sel = (\<lambda>x :: RigidItem. sc_id (ri_contract x) \<in> item_ids ys)"
  have "mset (filter sel (sort_by density_less raw)) = mset (filter sel raw)"
    by simp
  then have "weights (filter sel (sort_by density_less raw)) = weights (filter sel raw)"
    by (simp only: weights_mset)
  then have "weights ys = weights (filter (\<lambda>x. sc_id (ri_contract x) \<in> item_ids ys) raw)"
    using chosen by (simp add: sel_def)
  also have "\<dots> = sum_list (map (\<lambda>a. if sc_id (as_contract a) \<in> item_ids ys then unat (as_demand a) else 0) rigid)"
    using assms(1) by (induction rule: list_all2_induct) (simp_all add: item_for_def)
  finally show ?thesis .
qed

lemma sum_list_filter_if:
  "sum_list (map f (filter P xs)) = sum_list (map (\<lambda>x. if P x then f x else (0 :: nat)) xs)"
  by (induction xs) auto

text \<open>The slots after the loop over \<open>rigid_indices\<close>.\<close>

definition settled_slots :: "u64 set \<Rightarrow> u64 \<Rightarrow> Assessment list \<Rightarrow> slot list" where
  "settled_slots ids r assessments =
     map (\<lambda>s. if rigid_slot s then settle_rigid r s else s) (map (serve ids) (map new_slot assessments))"

lemma new_slot_simps [simp]:
  "sl_assessment (new_slot a) = a" "\<not> sl_admitted (new_slot a)" "\<not> sl_served (new_slot a)"
  "sl_allocation (new_slot a) = 0" "sl_approved (new_slot a) = as_approved a" "sl_outcome (new_slot a) = as_outcome a"
  by (simp_all add: new_slot_def)

lemma settled_slot_ok:
  assumes "assessment_of req cap p c a" and "s = serve ids (new_slot a)"
    and "t = (if rigid_slot s then settle_rigid r s else s)"
  shows "sl_contract t = c" "\<not> flexible_slot s \<Longrightarrow> slot_ok req cap p t"
    "flexible_slot s \<Longrightarrow> t = s"
    "sl_allocation t = (if as_admissible a \<and> as_rigid a \<and> sc_id c \<in> ids then as_demand a else 0)"
    "\<not> flexible_slot s \<Longrightarrow> sl_admitted t = (as_admissible a \<and> sc_id c \<in> ids)"
proof -
  have c: "as_contract a = c"
    using assms(1) by (simp add: assessment_of_def)
  have rig: "rigid_slot s \<longleftrightarrow> as_admissible a \<and> as_rigid a" and flex: "flexible_slot s \<longleftrightarrow> as_admissible a \<and> \<not> as_rigid a"
    using assms(2) by (simp_all add: rigid_slot_def flexible_slot_def)
  have "\<not> as_admissible a \<Longrightarrow> \<not> is_authorising (as_outcome a)"
    using assms(1) by (auto simp: assessment_of_def assessed_def is_authorising_def split: if_splits)
  then have plain: "\<not> as_admissible a \<Longrightarrow> slot_ok req cap p s"
    using assms(2) by (simp add: slot_ok_def Let_def)
  note settle = settle_rigid_ok [of req cap p c s r]
  show "sl_contract t = c" "\<not> flexible_slot s \<Longrightarrow> slot_ok req cap p t"
    "flexible_slot s \<Longrightarrow> t = s"
    "sl_allocation t = (if as_admissible a \<and> as_rigid a \<and> sc_id c \<in> ids then as_demand a else 0)"
    "\<not> flexible_slot s \<Longrightarrow> sl_admitted t = (as_admissible a \<and> sc_id c \<in> ids)"
    using settle plain c rig flex assms by auto
qed

lemma assessments_ids:
  assumes "list_all2 (assessment_of req cap p) cs as"
  shows "map as_contract as = cs" "map (\<lambda>a. sc_id (as_contract a)) as = map sc_id cs" "length as = length cs"
  using assms by (induction rule: list_all2_induct) (simp_all add: assessment_of_def)

lemma rigid_phase:
  assumes "rigid_selection p capacity (rigid_of as) = Inr (search, items)"
    and "list_all2 (assessment_of req cap p) cs as" and "distinct (map sc_id cs)" and "length cs < 2 ^ 32"
  obtains ys rest where "(rs_best_selection search, ys) \<in> set (picks 0 items)"
    and "mark_served (map (\<lambda>j. items ! unat j) (rs_best_selection search)) (map new_slot as) capacity =
      Inr (map (serve (item_ids ys)) (map new_slot as), rest)"
    and "unat rest + weights ys = unat capacity"
    and "weights ys = allocated_sum (settled_slots (item_ids ys) rest as)"
    and "incumbent search = (length ys, priorities ys, rs_best_selection search)"
proof -
  obtain big raw where raw: "list_all2 (item_for big) (rigid_of as) raw" "items = sort_by density_less raw"
      "search = rigid_search_of items capacity (po_search_node_budget p)"
    using rigid_selection_items [OF assms(1)] by metis
  obtain ys where ys: "(rs_best_selection search, ys) \<in> set (picks 0 items)" "weights ys \<le> unat capacity"
      "unat (rs_best_count search) = length ys" "unat (rs_best_priority search) = priorities ys"
    using search_solution raw(3) unfolding solution_def by metis
  have sub: "subseq ys items"
    using picks_subseq ys(1) by blast
  have dist: "distinct (map (\<lambda>a. sc_id (as_contract a)) (rigid_of as))"
    using assms(3) assessments_ids(2) [OF assms(2)] by (simp add: rigid_of_def distinct_map_filter)
  have "length (rigid_of as) \<le> length as"
    by (simp add: rigid_of_def)
  then have "length items \<le> 2 ^ 32"
    using raw(2) item_for_ids(3) [OF raw(1)] assessments_ids(3) [OF assms(2)] assms(4) by simp
  then have nth: "map (\<lambda>j. items ! unat j) (rs_best_selection search) = ys"
    using picks_nth [OF ys(1)] by simp
  have "item_ids ys \<subseteq> set (map (\<lambda>a. sc_id (as_contract a)) (rigid_of as))"
    using subseq_subset [OF sub] raw(2) item_for_ids(1) [OF raw(1), symmetric] by auto
  then have ids: "item_ids ys \<subseteq> set (slot_ids (map new_slot as))"
    by (auto simp: rigid_of_def)
  moreover have "distinct (slot_ids (map new_slot as))"
    using assms(3) assessments_ids(2) [OF assms(2)] by (simp add: comp_def)
  ultimately obtain rest where rest: "mark_served ys (map new_slot as) capacity =
      Inr (map (serve (item_ids ys)) (map new_slot as), rest)" "unat rest + weights ys = unat capacity"
    using mark_served_serve ys(2) by blast
  have "weights ys = sum_list (map (\<lambda>a. if sc_id (as_contract a) \<in> item_ids ys then unat (as_demand a) else 0) (rigid_of as))"
    using selection_weight raw(1) sub raw(2) dist by blast
  also have "\<dots> = allocated_sum (settled_slots (item_ids ys) rest as)"
    using assms(2) unfolding rigid_of_def sum_list_filter_if allocated_sum_def settled_slots_def
  proof (induction rule: list_all2_induct)
    case (Cons c cs a as)
    then show ?case
      using settled_slot_ok(4) [OF Cons(1) refl refl, of "item_ids ys" rest]
      by (auto simp: assessment_of_def comp_def split: if_splits)
  qed simp
  finally show thesis
    using that [OF ys(1), unfolded nth, OF rest] ys(3,4) by (simp add: incumbent_def)
qed

lemma flexible_order_members:
  "set (flexible_order p slots) = {i. i < length slots \<and> flexible_slot (slots ! i)}"
  "distinct (flexible_order p slots)"
proof -
  show "set (flexible_order p slots) = {i. i < length slots \<and> flexible_slot (slots ! i)}"
    by (auto simp: flexible_order_def)
  have "distinct (map (\<lambda>i. i) (flexible_order p slots))"
    unfolding flexible_order_def by (simp only: distinct_map_sort_by) simp
  then show "distinct (flexible_order p slots)"
    by simp
qed

text \<open>The flexible phase: every slot ends well, the rigid ones as the rigid phase left them.\<close>

lemma flexible_phase:
  assumes "list_all2 (assessment_of req cap p) cs as"
    and "flexible_loop p (flexible_order p (map (serve ids) (map new_slot as))) r (settled_slots ids r as) =
      Inr (final, rest)"
  shows "list_all2 (\<lambda>c s. sl_contract s = c \<and> slot_ok req cap p s) cs final"
    "list_all2 (\<lambda>a s. as_rigid a \<or> \<not> as_admissible a \<longrightarrow>
      sl_admitted s = (as_admissible a \<and> sc_id (as_contract a) \<in> ids)) as final"
    "unat rest + allocated_sum final = unat r + allocated_sum (settled_slots ids r as)"
proof -
  define slots where "slots = map (serve ids) (map new_slot as)"
  have len: "length slots = length as" "length (settled_slots ids r as) = length as" "length cs = length as"
    using assms(1) by (simp_all add: slots_def settled_slots_def list_all2_lengthD)
  have settled: "settled_slots ids r as ! i = (if rigid_slot (slots ! i) then settle_rigid r (slots ! i) else slots ! i)"
      "slots ! i = serve ids (new_slot (as ! i))" "assessment_of req cap p (cs ! i) (as ! i)" if "i < length as" for i
    using that assms(1) by (simp_all add: settled_slots_def slots_def list_all2_nthD2)
  note slot = settled_slot_ok [OF settled(3) settled(2) settled(1)]
  have flex: "i < length as" "flexible_slot (slots ! i)" if "i \<in> set (flexible_order p slots)" for i
    using that len by (simp_all add: flexible_order_members)
  have pre: "i < length (settled_slots ids r as) \<and> flexible_slot (settled_slots ids r as ! i) \<and>
      \<not> sl_admitted (settled_slots ids r as ! i) \<and> sl_allocation (settled_slots ids r as ! i) = 0 \<and>
      assessment_of req cap p (sl_contract (settled_slots ids r as ! i)) (sl_assessment (settled_slots ids r as ! i))"
    if "i \<in> set (flexible_order p slots)" for i
  proof -
    note i = flex [OF that]
    have "settled_slots ids r as ! i = serve ids (new_slot (as ! i))"
      using slot(3) [OF i(1) i(1) i(1)] i settled(2) by simp
    moreover have "as_contract (as ! i) = cs ! i"
      using settled(3) [OF i(1)] by (simp add: assessment_of_def)
    ultimately show ?thesis
      using i settled(2,3) [OF i(1)] len by (simp add: flexible_slot_def)
  qed
  note loop = flexible_loop_ok [OF assms(2) [folded slots_def] flexible_order_members(2) pre]
  show "unat rest + allocated_sum final = unat r + allocated_sum (settled_slots ids r as)"
    using loop by blast
  have final: "length final = length as" and contract: "sl_contract (final ! i) = cs ! i"
    and ok: "slot_ok req cap p (final ! i)" if "i < length as" for i
    using loop that slot(1,2) len by (auto simp: flexible_order_members split: if_splits)
  have len_final: "length final = length as"
    using loop len by simp
  show "list_all2 (\<lambda>c s. sl_contract s = c \<and> slot_ok req cap p s) cs final"
    using contract ok len_final len by (simp add: list_all2_conv_all_nth)
  have "sl_admitted (final ! i) = (as_admissible (as ! i) \<and> sc_id (as_contract (as ! i)) \<in> ids)"
    if i: "i < length as" "as_rigid (as ! i) \<or> \<not> as_admissible (as ! i)" for i
  proof -
    have flex: "\<not> flexible_slot (slots ! i)"
      using i settled(2) by (auto simp: flexible_slot_def)
    then have "final ! i = settled_slots ids r as ! i"
      using loop i(1) len by (auto simp: flexible_order_members split: if_splits)
    then show ?thesis
      using slot(5) [OF i(1) i(1) i(1) flex] settled(3) [OF i(1)] by (simp add: assessment_of_def)
  qed
  then show "list_all2 (\<lambda>a s. as_rigid a \<or> \<not> as_admissible a \<longrightarrow>
      sl_admitted s = (as_admissible a \<and> sc_id (as_contract a) \<in> ids)) as final"
    using len_final by (simp add: list_all2_conv_all_nth)
qed

lemma finish_plan_run:
  assumes "finish_plan req cap p plan early as = Inr plan'"
    and "list_all2 (assessment_of req cap p) cs as" and "distinct (map sc_id cs)" and "length cs < 2 ^ 32"
  obtains search items ys final entries tot where
    "rigid_selection p (cs_bandwidth_kbps cap) (rigid_of as) = Inr (search, items)"
    "(rs_best_selection search, ys) \<in> set (picks 0 items)"
    "incumbent search = (length ys, priorities ys, rs_best_selection search)"
    "weights ys \<le> unat (cs_bandwidth_kbps cap)"
    "list_all2 (\<lambda>c s. sl_contract s = c \<and> slot_ok req cap p s) cs final"
    "list_all2 (\<lambda>a s. as_rigid a \<or> \<not> as_admissible a \<longrightarrow>
      sl_admitted s = (as_admissible a \<and> sc_id (as_contract a) \<in> item_ids ys)) as final"
    "list_all2 (\<lambda>s e. slot_entry req s = Inr e) final entries"
    "unat tot = allocated_sum final" "allocated_sum final \<le> unat (cs_bandwidth_kbps cap)"
    "ap_entries plan' = sort_by entry_less (early @ entries)"
    "ap_allocated_bandwidth_kbps plan' = tot"
    "ap_available_bandwidth_kbps plan' = ap_available_bandwidth_kbps plan"
    "ap_status plan' = (if rigid_of as \<noteq> [] \<and> rs_exhausted search then PS_SearchLimitReached else PS_Optimal)"
proof -
  obtain search items where sel: "rigid_selection p (cs_bandwidth_kbps cap) (rigid_of as) = Inr (search, items)"
    using assms(1) by (auto simp: finish_plan_def rigid_of_def Let_def split: sum.splits)
  obtain ys r where ys: "(rs_best_selection search, ys) \<in> set (picks 0 items)"
      "mark_served (map (\<lambda>j. items ! unat j) (rs_best_selection search)) (map new_slot as) (cs_bandwidth_kbps cap) =
        Inr (map (serve (item_ids ys)) (map new_slot as), r)"
      "unat r + weights ys = unat (cs_bandwidth_kbps cap)"
      "weights ys = allocated_sum (settled_slots (item_ids ys) r as)"
      "incumbent search = (length ys, priorities ys, rs_best_selection search)"
    using rigid_phase [OF sel assms(2-4)] by blast
  define slots where "slots = map (serve (item_ids ys)) (map new_slot as)"
  have settled: "map (\<lambda>s. if rigid_slot s then settle_rigid r s else s) slots = settled_slots (item_ids ys) r as"
    by (simp add: settled_slots_def slots_def)
  note run = assms(1) [unfolded finish_plan_def rigid_of_def [symmetric] sel Let_def ys(2) sum.case prod.case,
      folded slots_def, unfolded settled]
  obtain final rest where loop: "flexible_loop p (flexible_order p slots) r (settled_slots (item_ids ys) r as) = Inr (final, rest)"
    using run by (auto split: sum.splits)
  obtain entries tot where ent: "slot_entries req final 0 = Inr (entries, tot)"
    using run [unfolded loop sum.case prod.case] by (auto split: sum.splits)
  have plan: "ap_entries plan' = sort_by entry_less (early @ entries)" "ap_allocated_bandwidth_kbps plan' = tot"
    "ap_available_bandwidth_kbps plan' = ap_available_bandwidth_kbps plan"
    "ap_status plan' = (if rigid_of as \<noteq> [] \<and> rs_exhausted search then PS_SearchLimitReached else PS_Optimal)"
    using run [unfolded loop ent sum.case prod.case] by (auto split: if_splits)
  note flex = flexible_phase [OF assms(2) loop [unfolded slots_def]]
  have "unat rest + allocated_sum final = unat (cs_bandwidth_kbps cap)"
    using flex(3) ys(3,4) by simp
  then have fits: "allocated_sum final \<le> unat (cs_bandwidth_kbps cap)"
    by simp
  have entries: "list_all2 (\<lambda>s e. slot_entry req s = Inr e) final entries" "unat tot = allocated_sum final"
    using slot_entries_ok [OF ent] by simp_all
  have "weights ys \<le> unat (cs_bandwidth_kbps cap)"
    using ys(3) by simp
  then show thesis
    by (rule that [OF sel ys(1,5) _ flex(1,2) entries fits plan])
qed

interpretation contract_id: strict_weak_order contract_id_less
  unfolding contract_id_less_def by (rule key_less_swo)

lemma contracts_distinct:
  "\<not> has_adjacent_equal (map sc_id (sort_by contract_id_less cs)) \<longleftrightarrow> distinct (map sc_id cs)"
proof -
  have "sorted (map sc_id (sort_by contract_id_less cs))"
    using contract_id.sorted_sort_by [of cs] by (simp add: sorted_map contract_id_less_def not_less)
  then show ?thesis
    by (simp add: sorted_has_adjacent_equal)
qed

text \<open>How a successful call ran: the checks it passed, the assessments, and which of the two plans it
  returned.\<close>

lemma allocate_scope_run:
  assumes "allocate_scope req = Inr plan"
  obtains cap p cs as where "ar_capability req = Some cap" "ar_policy req = Some p"
    "cs = sort_by contract_id_less (ar_contracts req)" "distinct (map sc_id cs)"
    "valid_id (ar_scope req)" "cs_scope cap = ar_scope req" "Policy_validate p = EC_Ok"
    "list_all2 (assessment_of req cap p) cs as"
    "(\<exists>certificate. infeasibility (po_minimum_protected_served p) (map as_demand (rigid_of as))
          (cs_bandwidth_kbps cap) = Some certificate \<and>
        plan = infeasible_plan req (base_plan req cap p) certificate (early_entries req cs) cs) \<or>
     infeasibility (po_minimum_protected_served p) (map as_demand (rigid_of as)) (cs_bandwidth_kbps cap) = None \<and>
       finish_plan req cap p (base_plan req cap p) (early_entries req cs) as = Inr plan"
proof -
  obtain cap p where o: "ar_capability req = Some cap" "ar_policy req = Some p"
    using assms by (auto simp: allocate_scope_def split: option.splits)
  define cs where "cs = sort_by contract_id_less (ar_contracts req)"
  note run = assms [unfolded allocate_scope_def o option.case prod.case Let_def, folded cs_def]
  have chk: "valid_id (ar_scope req)" "cs_scope cap = ar_scope req" "Policy_validate p = EC_Ok"
      "\<not> has_adjacent_equal (map sc_id cs)"
    using run by (auto split: if_splits)
  then have dist: "distinct (map sc_id cs)"
    using contracts_distinct [of "ar_contracts req"] by (simp add: cs_def)
  obtain early as where as: "assess_all req cap p cs = Inr (early, as)"
    using run chk by (auto split: sum.splits)
  have early: "early = early_entries req cs"
    using as by (rule assess_all_early)
  note run' = run [unfolded as sum.case prod.case, folded rigid_of_def]
  show thesis
  proof (rule that [OF o cs_def dist chk(1-3) assess_all_Inr [OF as]])
    show "(\<exists>certificate. infeasibility (po_minimum_protected_served p) (map as_demand (rigid_of as))
          (cs_bandwidth_kbps cap) = Some certificate \<and>
        plan = infeasible_plan req (base_plan req cap p) certificate (early_entries req cs) cs) \<or>
     infeasibility (po_minimum_protected_served p) (map as_demand (rigid_of as)) (cs_bandwidth_kbps cap) = None \<and>
       finish_plan req cap p (base_plan req cap p) (early_entries req cs) as = Inr plan"
      using run' chk early
      by (cases "infeasibility (po_minimum_protected_served p) (map as_demand (rigid_of as)) (cs_bandwidth_kbps cap)")
        simp_all
  qed
qed

section \<open>What the entries say\<close>

lemma full_delta: "compute_delta s s reason = Inr d \<Longrightarrow> GuaranteeDelta_empty d"
proof -
  assume d: "compute_delta s s reason = Inr d"
  then have inv: "set_invar s"
    using weakens_invar by (auto simp: compute_delta_Inr)
  have none: "concession_of s g = None \<and> withdrawal_of s reason g = None" if "g \<in> set s" for g
    using guarantee_set.lookup_key [OF inv that] by (simp add: concession_of_def withdrawal_of_def)
  show ?thesis
    using d none by (simp add: compute_delta_Inr GuaranteeDelta_empty_def map_filter_None)
qed

text \<open>An entry that promises nothing.\<close>

definition denied :: "AllocationEntry \<Rightarrow> bool" where
  "denied e \<longleftrightarrow> \<not> ae_admitted e \<and> ae_approved e = [] \<and> ae_delta e = empty_delta \<and> \<not> ae_full e \<and>
     ae_allocated_bandwidth_kbps e = 0 \<and> \<not> is_authorising (ae_outcome e)"

definition entry_for :: "AllocationRequest \<Rightarrow> ServiceContract \<Rightarrow> AllocationEntry \<Rightarrow> bool" where
  "entry_for req c e \<longleftrightarrow> ae_contract e = sc_id c \<and> ae_contract_generation e = sc_generation c \<and>
     ae_scope e = ar_scope req"

lemma scope_entry_for [simp]: "entry_for req c (scope_entry req c)"
  by (simp add: entry_for_def scope_entry_def)

text \<open>What an admitted entry stands for.\<close>

definition honours_contract ::
    "AllocationRequest \<Rightarrow> CapabilitySnapshot \<Rightarrow> Policy \<Rightarrow> ServiceContract \<Rightarrow> AllocationEntry \<Rightarrow> bool" where
  "honours_contract req cap p c e \<longleftrightarrow>
     sc_scope c = ar_scope req \<and> sc_active c \<and> ServiceContract_validate c = EC_Ok \<and> usable cap \<and>
     weakens_or_equals (sc_original c) (ae_approved e) \<and>
     compute_delta (sc_original c) (ae_approved e) RC_ConcessionWithinEnvelope = Inr (ae_delta e) \<and>
     ae_full e = GuaranteeDelta_empty (ae_delta e) \<and>
     ae_outcome e = (if ae_full e then DO_Full else DO_Degraded) \<and>
     (if is_rigid c
      then ae_full e \<and> ae_approved e = sc_original c \<and> ae_allocated_bandwidth_kbps e = bandwidth_demand c \<and>
           list_all (\<lambda>g. supports cap g = ST_Supported) (sc_original c)
      else (\<exists>env. effective_envelope p c = Inr env \<and> permits env (sc_original c) (ae_approved e)) \<and>
           (bandwidth_demand c > 0 \<longrightarrow> bandwidth_floor c \<le> ae_allocated_bandwidth_kbps e \<and>
              ae_allocated_bandwidth_kbps e \<le> bandwidth_demand c \<and>
              GuaranteeSet_find (ae_approved e) GK_Bandwidth =
                Some (mk_guarantee GK_Bandwidth (ae_allocated_bandwidth_kbps e) True)) \<and>
           (bandwidth_demand c = 0 \<longrightarrow> ae_allocated_bandwidth_kbps e = 0))"

lemma slot_entry_ok:
  assumes "slot_ok req cap p s" and "slot_entry req s = Inr e"
  shows "entry_for req (sl_contract s) e \<and> ae_admitted e = sl_admitted s \<and>
    ae_allocated_bandwidth_kbps e = sl_allocation s \<and>
    (if ae_admitted e then honours_contract req cap p (sl_contract s) e else denied e)"
proof (cases "sl_admitted s")
  case False
  then show ?thesis
    using assms
    by (auto simp: slot_entry_def slot_ok_def Let_def entry_for_def scope_entry_def new_entry_def denied_def is_authorising_def)
next
  case True
  let ?c = "sl_contract s"
  obtain delta where delta: "compute_delta (sc_original ?c) (sl_approved s) RC_ConcessionWithinEnvelope = Inr delta"
    using True assms(2) by (auto simp: slot_entry_def Let_def split: sum.splits)
  then have e: "entry_for req ?c e" "ae_admitted e" "ae_allocated_bandwidth_kbps e = sl_allocation s"
      "ae_approved e = sl_approved s" "ae_delta e = delta" "ae_full e = GuaranteeDelta_empty delta"
      "ae_outcome e = (if ae_full e then DO_Full else DO_Degraded)"
    using True assms(2) by (auto simp: slot_entry_def Let_def entry_for_def scope_entry_def)
  have "weakens_or_equals (sc_original ?c) (sl_approved s)"
    using delta by (simp add: compute_delta_Inr)
  moreover have "is_rigid ?c \<Longrightarrow> GuaranteeDelta_empty delta"
    using True assms(1) delta full_delta by (auto simp: slot_ok_def Let_def)
  ultimately show ?thesis
    using True assms(1) delta e by (auto simp: slot_ok_def honours_contract_def Let_def)
qed

lemma slot_entry_allocated: "slot_entry req s = Inr e \<Longrightarrow> ae_allocated_bandwidth_kbps e = sl_allocation s"
  by (auto simp: slot_entry_def Let_def split: if_splits sum.splits)

lemma early_entries_denied: "e \<in> set (early_entries req cs) \<Longrightarrow> \<exists>c \<in> set cs. entry_for req c e \<and> denied e"
  by (auto simp: early_entries_def entry_for_def scope_entry_def denied_def new_entry_def is_authorising_def)

text \<open>Every entry of a plan, whichever way the plan came about.\<close>

lemma plan_entry:
  assumes "allocate_scope req = Inr plan" and "length (ar_contracts req) < 2 ^ 32" and "e \<in> set (ap_entries plan)"
    and "ar_capability req = Some cap" and "ar_policy req = Some p"
  shows "\<exists>c \<in> set (ar_contracts req). entry_for req c e \<and>
    (if ae_admitted e then honours_contract req cap p c e else denied e)"
proof -
  obtain cs as where run: "cs = sort_by contract_id_less (ar_contracts req)" "distinct (map sc_id cs)"
      "list_all2 (assessment_of req cap p) cs as"
      "(\<exists>certificate. plan = infeasible_plan req (base_plan req cap p) certificate (early_entries req cs) cs) \<or>
       finish_plan req cap p (base_plan req cap p) (early_entries req cs) as = Inr plan"
    using allocate_scope_run [OF assms(1)] assms(4,5) by (metis option.inject)
  have cs: "set cs = set (ar_contracts req)" "length cs < 2 ^ 32"
    using run(1) assms(2) by simp_all
  from run(4) show ?thesis
  proof
    assume "\<exists>certificate. plan = infeasible_plan req (base_plan req cap p) certificate (early_entries req cs) cs"
    then have "e \<in> set (early_entries req cs) \<or>
        (\<exists>c \<in> set cs. e = (scope_entry req c)\<lparr>ae_outcome := DO_Escalated, ae_reason := RC_ResourceExhausted\<rparr>)"
      using assms(3) by (auto simp: infeasible_plan_def)
    then show ?thesis
      using early_entries_denied [of e req cs] cs(1)
      by (fastforce simp: entry_for_def scope_entry_def new_entry_def denied_def is_authorising_def)
  next
    assume fin: "finish_plan req cap p (base_plan req cap p) (early_entries req cs) as = Inr plan"
    obtain final entries where f: "list_all2 (\<lambda>c s. sl_contract s = c \<and> slot_ok req cap p s) cs final"
        "list_all2 (\<lambda>s e. slot_entry req s = Inr e) final entries"
        "ap_entries plan = sort_by entry_less (early_entries req cs @ entries)"
      by (rule finish_plan_run [OF fin run(3,2) cs(2)])
    from assms(3) f(3) consider "e \<in> set (early_entries req cs)" | "e \<in> set entries"
      by auto
    then show ?thesis
    proof cases
      case 2
      then obtain i where i: "i < length entries" "entries ! i = e"
        by (auto simp: in_set_conv_nth)
      then have "slot_entry req (final ! i) = Inr e" "sl_contract (final ! i) = cs ! i" "slot_ok req cap p (final ! i)"
          "cs ! i \<in> set cs"
        using f(1,2) by (auto simp: list_all2_conv_all_nth)
      then show ?thesis
        using slot_entry_ok cs(1) by metis
    qed (use early_entries_denied cs(1) in \<open>fastforce simp: denied_def\<close>)
  qed
qed

section \<open>A concrete request\<close>

text \<open>A protected contract that needs 50 and a standard one that needs 60 but may be degraded to 30, on a
  fabric that offers 90.\<close>

definition planning_policy :: Policy where
  "planning_policy = sample_policy\<lparr>po_class_profiles := po_class_profiles sample_policy @
     [\<lparr>cp_service_class = SC_Protected, cp_ceiling = empty_envelope, cp_may_be_degraded = False\<rparr>]\<rparr>"

definition rigid_contract :: ServiceContract where
  "rigid_contract = sample_contract\<lparr>sc_scope := 7, sc_original := [mk_guarantee GK_Bandwidth 50 True]\<rparr>"

definition flexible_contract :: ServiceContract where
  "flexible_contract = sample_contract\<lparr>sc_id := 2, sc_scope := 7, sc_service_class := SC_Standard,
     sc_original := [mk_guarantee GK_Bandwidth 60 True],
     sc_envelope := \<lparr>ge_bounds = [\<lparr>cb_kind = GK_Bandwidth, cb_weakest_allowed_value = 30\<rparr>],
       ge_max_concessions = 1\<rparr>\<rparr>"

definition sample_context :: EvaluationContext where
  "sample_context =
     \<lparr>ec_binding = \<lparr>ab_vector = no_vector, ab_contract = 1, ab_contract_generation = 1,
        ab_subject = 1, ab_subject_generation = 1, ab_scope = 7\<rparr>,
      ec_now = 10, ec_decision_id = 1, ec_plan_id = 1, ec_provenance = PC_Synthetic\<rparr>"

definition sample_request :: AllocationRequest where
  "sample_request = \<lparr>ar_scope = 7, ar_contracts = [flexible_contract, rigid_contract],
     ar_capability = Some sample_capability, ar_evidence = None, ar_policy = Some planning_policy,
     ar_context = sample_context\<rparr>"

definition sample_plan :: AllocationPlan where
  "sample_plan = (base_plan sample_request sample_capability sample_policy)\<lparr>ap_status := PS_Optimal,
     ap_entries :=
       [(scope_entry sample_request rigid_contract)\<lparr>ae_admitted := True, ae_full := True,
           ae_approved := [mk_guarantee GK_Bandwidth 50 True], ae_allocated_bandwidth_kbps := 50,
           ae_outcome := DO_Full, ae_reason := RC_OriginalObligationsSupportable\<rparr>,
        (scope_entry sample_request flexible_contract)\<lparr>ae_admitted := True, ae_full := False,
           ae_approved := [mk_guarantee GK_Bandwidth 40 True],
           ae_delta := \<lparr>dl_concessions = [\<lparr>c_kind = GK_Bandwidth, c_original_value = 60, c_approved_value = 40\<rparr>],
             dl_withdrawals = []\<rparr>, ae_allocated_bandwidth_kbps := 40,
           ae_outcome := DO_Degraded, ae_reason := RC_ConcessionWithinEnvelope\<rparr>],
     ap_allocated_bandwidth_kbps := 90,
     ap_work := \<lparr>aw_nodes_visited = 3, aw_nodes_pruned = 0, aw_budget = 50000, aw_budget_exhausted = False\<rparr>\<rparr>"


definition sample_assessment :: "ServiceContract \<Rightarrow> Assessment" where
  "sample_assessment c = (start_assessment c)
     \<lparr>as_approved := sc_original c, as_admissible := True,
      as_outcome := DO_Full, as_reason := RC_OriginalObligationsSupportable\<rparr>"

lemma planning_policy_ok: "Policy_validate planning_policy = EC_Ok"
  by (simp add: planning_policy_def empty_envelope_def sample_policy_def sample_rules_def empty_policy_def
      Policy_validate_def status_simps valid_id_def PolicyRule_validate_def ClassProfile_validate_def
      env_invar_def bound_in_domain_def kMaxBandwidthKbps_def kMaxCollectionItems_def)

lemma sample_contracts:
  "sort_by contract_id_less (ar_contracts sample_request) =
   [rigid_contract, flexible_contract]"
  "sc_id rigid_contract \<noteq> sc_id flexible_contract"
  by code_simp+

lemma sample_assessments:
  "assess_all sample_request sample_capability planning_policy
     [rigid_contract, flexible_contract] =
   Inr ([], [sample_assessment rigid_contract, sample_assessment flexible_contract])"
  by code_simp

lemma sample_finish:
  "finish_plan sample_request sample_capability planning_policy
     (base_plan sample_request sample_capability planning_policy)
     [] [sample_assessment rigid_contract, sample_assessment flexible_contract] = Inr sample_plan"
  by code_simp

lemma sample_request_fields:
  "ar_capability sample_request = Some sample_capability"
  "ar_policy sample_request = Some planning_policy"
  "valid_id (ar_scope sample_request)" "cs_scope sample_capability = ar_scope sample_request"
  "po_minimum_protected_served planning_policy = 0" "length (ar_contracts sample_request) = 2"
  by (simp_all add: sample_request_def sample_capability_def valid_id_def planning_policy_def sample_policy_def
      empty_policy_def)

lemma sample_allocation: "allocate_scope sample_request = Inr sample_plan"
  unfolding allocate_scope_def using sample_request_fields planning_policy_ok
  by (simp add: Let_def sample_contracts sample_assessments sample_finish infeasibility_def
      del: assess_all.simps)

section \<open>Guarantees of a plan\<close>

text \<open>
  C1. A plan never authorises more than the contracts and the policy allow. Every entry of a plan that
  \<open>allocate_scope\<close> returns belongs to a contract of the request; an entry that is not admitted
  approves nothing, allocates nothing and has a non-authorising outcome; an admitted entry belongs
  to a valid contract that is active in the scope, was decided on usable evidence, approves a
  weakening of the contract's original guarantees with the exact delta and outcome for it, and is
  inside the effective envelope with its bandwidth between the contract's floor and its demand,
  unless the contract is rigid (protected or frozen): then it is admitted with the original
  guarantees, every one of them supported, and its full demand.
\<close>

theorem plan_within_obligations:
  assumes "allocate_scope req = Inr plan" and "length (ar_contracts req) < 2 ^ 32"
    and "ar_capability req = Some cap" and "ar_policy req = Some p" and "e \<in> set (ap_entries plan)"
  shows "\<exists>c \<in> set (ar_contracts req). entry_for req c e \<and>
    (if ae_admitted e then honours_contract req cap p c e else denied e)"
  using plan_entry assms by blast

theorem plan_within_obligations_witness:
  "\<exists>c \<in> set (ar_contracts sample_request). entry_for sample_request c (ap_entries sample_plan ! 1) \<and>
     honours_contract sample_request sample_capability planning_policy c
       (ap_entries sample_plan ! 1)"
proof -
  have "ae_admitted (ap_entries sample_plan ! 1)" and "ap_entries sample_plan ! 1 \<in> set (ap_entries sample_plan)"
    by (simp_all add: sample_plan_def)
  with plan_within_obligations [OF sample_allocation _ sample_request_fields(1,2)] show ?thesis
    using sample_request_fields(6) by fastforce
qed

lemma plan_allocation:
  assumes "allocate_scope req = Inr plan" and "length (ar_contracts req) < 2 ^ 32"
    and "ar_capability req = Some cap"
  shows "sum_list (map (\<lambda>e. unat (ae_allocated_bandwidth_kbps e)) (ap_entries plan)) =
      unat (ap_allocated_bandwidth_kbps plan) \<and>
    ap_allocated_bandwidth_kbps plan \<le> cs_bandwidth_kbps cap \<and>
    ap_available_bandwidth_kbps plan = cs_bandwidth_kbps cap"
proof -
  let ?sum = "\<lambda>es. sum_list (map (\<lambda>e. unat (ae_allocated_bandwidth_kbps e)) es)"
  note sort = sum_list_sort_by
  obtain p cs as where run: "cs = sort_by contract_id_less (ar_contracts req)" "distinct (map sc_id cs)"
      "list_all2 (assessment_of req cap p) cs as"
      "(\<exists>certificate. plan = infeasible_plan req (base_plan req cap p) certificate (early_entries req cs) cs) \<or>
       finish_plan req cap p (base_plan req cap p) (early_entries req cs) as = Inr plan"
    using allocate_scope_run [OF assms(1)] assms(3) by (metis option.inject)
  have early: "?sum (early_entries req cs) = 0"
    using early_entries_denied [of _ req cs] by (fastforce simp: sum_list_eq_0_iff denied_def)
  have avail: "ap_available_bandwidth_kbps (base_plan req cap p) = cs_bandwidth_kbps cap"
    by (simp add: base_plan_def)
  from run(4) show ?thesis
  proof
    assume "\<exists>certificate. plan = infeasible_plan req (base_plan req cap p) certificate (early_entries req cs) cs"
    then show ?thesis
      using early by (auto simp: infeasible_plan_def sort avail sum_list_eq_0_iff scope_entry_def new_entry_def
          base_plan_def new_plan_def)
  next
    assume fin: "finish_plan req cap p (base_plan req cap p) (early_entries req cs) as = Inr plan"
    have len: "length cs < 2 ^ 32"
      using run(1) assms(2) by simp
    obtain final entries tot where f: "list_all2 (\<lambda>c s. sl_contract s = c \<and> slot_ok req cap p s) cs final"
        "list_all2 (\<lambda>s e. slot_entry req s = Inr e) final entries" "unat tot = allocated_sum final"
        "allocated_sum final \<le> unat (cs_bandwidth_kbps cap)"
        "ap_entries plan = sort_by entry_less (early_entries req cs @ entries)"
        "ap_allocated_bandwidth_kbps plan = tot"
        "ap_available_bandwidth_kbps plan = ap_available_bandwidth_kbps (base_plan req cap p)"
      by (rule finish_plan_run [OF fin run(3,2) len])
    have "?sum entries = allocated_sum final"
      using f(2) unfolding allocated_sum_def
      by (induction rule: list_all2_induct) (auto simp: slot_entry_allocated)
    then show ?thesis
      using f early avail by (simp add: sort word_le_nat_alt)
  qed
qed

text \<open>
  C6. Bandwidth is never over-committed: in every plan the recorded total is the exact sum of the
  allocations of its entries and stays within the bandwidth the capability snapshot offers.
\<close>

theorem plan_never_overcommits:
  assumes "allocate_scope req = Inr plan" and "length (ar_contracts req) < 2 ^ 32"
    and "ar_capability req = Some cap"
  shows "sum_list (map (\<lambda>e. unat (ae_allocated_bandwidth_kbps e)) (ap_entries plan)) =
      unat (ap_allocated_bandwidth_kbps plan) \<and>
    ap_allocated_bandwidth_kbps plan \<le> cs_bandwidth_kbps cap \<and>
    ap_available_bandwidth_kbps plan = cs_bandwidth_kbps cap"
  using assms by (rule plan_allocation)

theorem plan_never_overcommits_witness:
  "ap_allocated_bandwidth_kbps sample_plan \<le> cs_bandwidth_kbps sample_capability \<and>
   sum_list (map (\<lambda>e. unat (ae_allocated_bandwidth_kbps e)) (ap_entries sample_plan)) =
     unat (ap_allocated_bandwidth_kbps sample_plan)"
  using plan_never_overcommits [OF sample_allocation _ sample_request_fields(1)] sample_request_fields(6) by simp

section \<open>Independence of the request order\<close>

lemma request_frame [simp]:
  "scope_entry (req\<lparr>ar_contracts := cs\<rparr>) c = scope_entry req c"
  "base_plan (req\<lparr>ar_contracts := cs\<rparr>) cap p = base_plan req cap p"
  "infeasible_plan (req\<lparr>ar_contracts := cs\<rparr>) plan certificate early contracts =
   infeasible_plan req plan certificate early contracts"
  "slot_entry (req\<lparr>ar_contracts := cs\<rparr>) s = slot_entry req s"
  "ar_scope (req\<lparr>ar_contracts := cs\<rparr>) = ar_scope req" "ar_contracts (req\<lparr>ar_contracts := cs\<rparr>) = cs"
  "ar_capability (req\<lparr>ar_contracts := cs\<rparr>) = ar_capability req"
  "ar_policy (req\<lparr>ar_contracts := cs\<rparr>) = ar_policy req"
  by (simp_all add: scope_entry_def base_plan_def infeasible_plan_def slot_entry_def)

lemma request_frame_lists [simp]:
  "assess_all (req\<lparr>ar_contracts := cs\<rparr>) cap p xs = assess_all req cap p xs"
  "slot_entries (req\<lparr>ar_contracts := cs\<rparr>) slots tot = slot_entries req slots tot"
  by (induction xs) (simp_all, induction slots arbitrary: tot, simp_all split: sum.split option.split)

lemma request_frame_finish [simp]:
  "finish_plan (req\<lparr>ar_contracts := cs\<rparr>) cap p plan early as = finish_plan req cap p plan early as"
  unfolding finish_plan_def request_frame_lists ..

text \<open>
  C39. The plan depends on which contracts are requested, never on the order in which the caller lists
  them: permuting the request changes neither the plan nor the error.
\<close>

theorem plan_order_independent:
  assumes "mset xs = mset ys"
  shows "allocate_scope (req\<lparr>ar_contracts := xs\<rparr>) = allocate_scope (req\<lparr>ar_contracts := ys\<rparr>)"
proof (cases "distinct (map sc_id xs)")
  case True
  have "sort_by contract_id_less xs = sort_by contract_id_less ys"
  proof (rule contract_id.sort_by_perm [OF assms])
    show "contract_id_less a b \<or> contract_id_less b a" if "a \<in> set xs" "b \<in> set xs" "a \<noteq> b" for a b
    proof -
      have "sc_id a \<noteq> sc_id b"
        using that True by (auto simp: distinct_map dest: inj_onD)
      then show ?thesis
        unfolding contract_id_less_def by (simp only: neq_iff)
    qed
  qed
  then show ?thesis
    unfolding allocate_scope_def request_frame request_frame_lists request_frame_finish by (simp only:)
next
  case False
  moreover have "mset (map sc_id xs) = mset (map sc_id ys)"
    using assms by simp
  ultimately have "\<not> distinct (map sc_id ys)"
    by (metis mset_eq_imp_distinct_iff)
  with False have "has_adjacent_equal (map sc_id (sort_by contract_id_less xs))"
      "has_adjacent_equal (map sc_id (sort_by contract_id_less ys))"
    by (simp_all flip: contracts_distinct)
  then show ?thesis
    by (simp add: allocate_scope_def Let_def split: option.split)
qed

theorem plan_order_independent_witness:
  "allocate_scope (sample_request\<lparr>ar_contracts := [rigid_contract, flexible_contract]\<rparr>) = Inr sample_plan"
proof -
  have "mset [rigid_contract, flexible_contract] = mset [flexible_contract, rigid_contract]"
    by simp
  moreover have "sample_request\<lparr>ar_contracts := [flexible_contract, rigid_contract]\<rparr> = sample_request"
    by (simp add: sample_request_def)
  ultimately show ?thesis
    using plan_order_independent [of "[rigid_contract, flexible_contract]"] sample_allocation by metis
qed

end
