(* ===== verification/Allocator_Optimal.thy ===== *)
theory Allocator_Optimal
  imports Allocator_Plan
begin

text \<open>
  What the status of a plan proves: an optimal plan serves as many rigid contracts as any selection
  could, with the largest priority sum among those, and an infeasibility certificate is right.
\<close>

section \<open>Which rigid contracts can be served\<close>

text \<open>The contracts the rigid selection chooses from, said without the assessment: active in scope,
  rigid, every original guarantee supported by usable evidence, and a class profile in the policy.\<close>

definition servable :: "AllocationRequest \<Rightarrow> CapabilitySnapshot \<Rightarrow> Policy \<Rightarrow> ServiceContract \<Rightarrow> bool" where
  "servable req cap p c \<longleftrightarrow> sc_scope c = ar_scope req \<and> sc_active c \<and> is_rigid c \<and> usable cap \<and>
     (case effective_envelope p c of Inl _ \<Rightarrow> False | Inr _ \<Rightarrow> True) \<and>
     list_all (\<lambda>g. supports cap g = ST_Supported) (sc_original c)"

lemma pass1_supported:
  assumes "set_invar (as_approved a @ gs)" and "list_all (\<lambda>g. supports cap g = ST_Supported) gs"
  shows "assess_pass1 cap gs a sf = Inr (a\<lparr>as_approved := as_approved a @ gs\<rparr>, sf)"
  using assms
proof (induction gs arbitrary: a)
  case (Cons g gs)
  have "Guarantee_valid g"
    using Cons.prems(1) by (simp add: set_invar_def)
  moreover have "g_kind y < g_kind g" if "y \<in> set (as_approved a)" for y
    using Cons.prems(1) that by (simp add: set_invar_def key_sorted_def sorted_wrt_append)
  ultimately have "GuaranteeSet_insert g (as_approved a) = Inr (as_approved a @ [g])"
    by (simp add: GuaranteeSet_insert_def key_insert_last)
  then show ?case
    using Cons by simp
qed simp

text \<open>A rigid contract is admissible exactly when it is servable.\<close>

lemma rigid_admissible_iff:
  assumes "ServiceContract_validate c = EC_Ok" and "is_rigid c"
    and "sc_scope c = ar_scope req" and "sc_active c"
  shows "as_admissible (assess c cap p) \<longleftrightarrow> servable req cap p c"
proof
  assume adm: "as_admissible (assess c cap p)"
  have inv: "set_invar (sc_original c)"
    using assms(1) by (rule contract_ok_invar)
  then have "assessed c cap p (assess c cap p)"
    by (rule assess_assessed)
  moreover have "effective_envelope p c = Inl e \<Longrightarrow> False" for e
    using adm calculation by (simp add: assess_def assessed_def)
  ultimately show "servable req cap p c"
    using adm assms by (auto simp: servable_def assessed_def split: sum.splits)
next
  assume s: "servable req cap p c"
  then obtain env where env: "effective_envelope p c = Inr env"
    by (auto simp: servable_def split: sum.splits)
  have "assess_pass1 cap (sc_original c) (start_assessment c) [] =
      Inr ((start_assessment c)\<lparr>as_approved := sc_original c\<rparr>, [])"
    using pass1_supported [of "start_assessment c" "sc_original c" cap "[]"] s contract_ok_invar [OF assms(1)]
    by (simp add: servable_def)
  then show "as_admissible (assess c cap p)"
    using s env by (simp add: assess_def servable_def assess_shortfalls_def)
qed

text \<open>The rigid assessments are those of the servable contracts, in order.\<close>

lemma rigid_of_servable:
  assumes "list_all2 (assessment_of req cap p) cs as"
  shows "map as_contract (rigid_of as) = filter (servable req cap p) cs"
    "map as_demand (rigid_of as) = map bandwidth_demand (filter (servable req cap p) cs)"
proof -
  have one: "(as_admissible a \<and> as_rigid a \<longleftrightarrow> servable req cap p c) \<and> as_contract a = c \<and>
      (as_admissible a \<longrightarrow> as_demand a = bandwidth_demand c)"
    if "assessment_of req cap p c a" for c a
  proof (cases "sc_scope c \<noteq> ar_scope req \<or> \<not> sc_active c")
    case True
    then show ?thesis
      using that by (auto simp: assessment_of_def servable_def)
  next
    case False
    then have a: "a = assess c cap p" "as_contract a = c" "ServiceContract_validate c = EC_Ok"
        "as_rigid a = is_rigid c" "as_demand a = bandwidth_demand c"
      using that by (auto simp: assessment_of_def assessed_def frame_def)
    then show ?thesis
      using False rigid_admissible_iff [of c req cap p] by (auto simp: servable_def)
  qed
  from assms show "map as_contract (rigid_of as) = filter (servable req cap p) cs"
    by (induction rule: list_all2_induct) (use one in \<open>auto simp: rigid_of_def\<close>)
  from assms show "map as_demand (rigid_of as) = map bandwidth_demand (filter (servable req cap p) cs)"
    by (induction rule: list_all2_induct) (use one in \<open>auto simp: rigid_of_def\<close>)
qed

section \<open>The infeasibility certificate\<close>

lemma smallest_sum:
  fixes xs :: "nat list"
  assumes "sorted xs" and "M \<subseteq># mset xs"
  shows "sum_list (take (size M) xs) \<le> sum_mset M"
  using assms
proof (induction xs arbitrary: M)
  case (Cons x xs)
  show ?case
  proof (cases "x \<in># M")
    case True
    then obtain N where N: "M = add_mset x N"
      by (metis mset_add)
    then show ?thesis
      using Cons by simp
  next
    case False
    have sub: "M \<subseteq># mset xs"
    proof (rule mset_subset_eqI)
      show "count M a \<le> count (mset xs) a" for a
        using False mset_subset_eq_count [OF Cons.prems(2), of a] by (cases "a = x") (auto simp: not_in_iff)
    qed
    have "sum_list (take k (y # ys)) \<le> sum_list (take k ys)"
      if "sorted (y # ys)" "k \<le> length ys" for k y and ys :: "nat list"
      using that
    proof (induction ys arbitrary: k y)
      case (Cons z zs)
      then show ?case by (cases k) (auto intro!: add_mono)
    qed simp
    then have "sum_list (take (size M) (x # xs)) \<le> sum_list (take (size M) xs)"
      using Cons.prems(1) size_mset_mono [OF sub] by simp
    then show ?thesis
      using Cons.IH [OF _ sub] Cons.prems(1) by simp
  qed
qed simp

lemma demand_sum_exact:
  "demand_sum ds acc = (s, overflow) \<Longrightarrow>
   if overflow then 2 ^ 64 \<le> unat acc + sum_list (map unat ds) else unat s = unat acc + sum_list (map unat ds)"
proof (induction ds arbitrary: acc)
  case (Cons d ds)
  show ?case
  proof (cases "checked_add acc d")
    case None
    then have "2 ^ 64 \<le> unat acc + unat d"
      unfolding checked_add_None_iff by simp
    then show ?thesis
      using Cons.prems None by auto
  next
    case (Some t)
    then have "unat t = unat acc + unat d"
      by (simp only: checked_add_Some_iff)
    then show ?thesis
      using Cons.IH [of t] Cons.prems Some by (auto simp: add.assoc split: if_splits)
  qed
qed simp

text \<open>A certificate means that no multiset of the required size taken from the demands fits.\<close>

lemma infeasibility_sound:
  assumes "infeasibility required demands capacity = Some certificate"
    and "M \<subseteq># mset demands" and "size M = unat required"
  shows "unat capacity < (\<Sum>d \<in># M. unat d)"
proof -
  define ds where "ds = sort_by (<) demands"
  have len: "size M \<le> length demands"
    using assms(2) size_mset_mono by fastforce
  have pos: "required > 0"
    using assms(1) by (auto simp: infeasibility_def split: if_splits)
  obtain s overflow where d: "demand_sum (take (unat required) ds) 0 = (s, overflow)"
    by (cases "demand_sum (take (unat required) ds) 0")
  have "overflow \<or> s > capacity"
    using assms(1,3) len pos d by (auto simp: infeasibility_def Let_def ds_def split: if_splits)
  moreover have "unat capacity < 2 ^ 64"
    by (rule unat_u64_bound)
  ultimately have low: "unat capacity < sum_list (map unat (take (unat required) ds))"
    using demand_sum_exact [OF d] by (auto simp: word_less_nat_alt split: if_splits)
  have "sorted (map unat ds)"
    using sort_by_less_sorted [of demands]
    by (auto simp: ds_def sorted_map word_le_nat_alt elim: sorted_wrt_mono_rel [rotated])
  moreover have "image_mset unat M \<subseteq># mset (map unat ds)"
    using assms(2) by (simp add: ds_def image_mset_subseteq_mono)
  ultimately have "sum_list (take (size (image_mset unat M)) (map unat ds)) \<le> sum_mset (image_mset unat M)"
    by (rule smallest_sum)
  then show ?thesis
    using low assms(3) by (simp add: take_map)
qed


section \<open>Selections as sets of contracts\<close>

abbreviation demand_of :: "ServiceContract set \<Rightarrow> nat" where
  "demand_of S \<equiv> (\<Sum>c \<in> S. unat (bandwidth_demand c))"

abbreviation priority_of :: "ServiceContract set \<Rightarrow> nat" where
  "priority_of S \<equiv> (\<Sum>c \<in> S. unat (sc_priority c))"

lemma picks_Nil: "([], []) \<in> set (picks i xs)"
  by (induction xs arbitrary: i) auto

lemma subseq_picks: "subseq ys xs \<Longrightarrow> \<exists>js. (js, ys) \<in> set (picks i xs)"
proof (induction arbitrary: i rule: list_emb.induct)
  case (list_emb_Nil xs)
  show ?case
    using picks_Nil by blast
next
  case (list_emb_Cons ys xs x)
  then obtain js where "(js, ys) \<in> set (picks (Suc i) xs)"
    by blast
  then show ?case by auto
next
  case (list_emb_Cons2 x y ys xs)
  then obtain js where "(js, ys) \<in> set (picks (Suc i) xs)"
    by blast
  then have "(of_nat i # js, y # ys) \<in> set (picks i (y # xs))"
    by force
  then show ?case
    using list_emb_Cons2 by blast
qed

text \<open>The items of the selection against the contracts they stand for.\<close>

lemma items_contracts:
  assumes "list_all2 (item_for big) (rigid_of as) raw"
    and "list_all2 (assessment_of req cap p) cs as"
  shows "map ri_contract raw = filter (servable req cap p) cs"
    "x \<in> set raw \<Longrightarrow> ri_weight x = bandwidth_demand (ri_contract x)"
proof -
  have "map ri_contract raw = map as_contract (rigid_of as)"
    using assms(1) by (induction rule: list_all2_induct) (simp_all add: item_for_def)
  then show eq: "map ri_contract raw = filter (servable req cap p) cs"
    using rigid_of_servable(1) [OF assms(2)] by simp
  have "map ri_weight raw = map bandwidth_demand (map ri_contract raw)"
    using item_for_ids(2) [OF assms(1)] rigid_of_servable(2) [OF assms(2)] eq by simp
  then show "x \<in> set raw \<Longrightarrow> ri_weight x = bandwidth_demand (ri_contract x)"
    by (simp add: comp_def)
qed

lemma selection_sums:
  assumes "distinct (map ri_contract ys)" and "\<And>x. x \<in> set ys \<Longrightarrow> ri_weight x = bandwidth_demand (ri_contract x)"
  shows "length ys = card (ri_contract ` set ys)" "weights ys = demand_of (ri_contract ` set ys)"
    "priorities ys = priority_of (ri_contract ` set ys)"
proof -
  have set: "ri_contract ` set ys = set (map ri_contract ys)"
    by simp
  have sum: "sum f (ri_contract ` set ys) = sum_list (map (\<lambda>x. f (ri_contract x)) ys)" for f :: "ServiceContract \<Rightarrow> nat"
    unfolding set using sum.distinct_set_conv_list [OF assms(1), of f] by (simp add: comp_def)
  show "length ys = card (ri_contract ` set ys)"
    unfolding set using distinct_card [OF assms(1)] by simp
  show "weights ys = demand_of (ri_contract ` set ys)"
    unfolding sum weights_def using assms(2) by (metis (mono_tags, lifting) map_eq_conv)
  show "priorities ys = priority_of (ri_contract ` set ys)"
    unfolding sum priorities_def ..
qed

section \<open>No overflow in the density comparison\<close>

lemma assessed_bounds:
  assumes "list_all2 (assessment_of req cap p) cs as" and "a \<in> set (rigid_of as)"
  shows "unat (sc_priority (as_contract a)) \<le> 1000000" "unat (as_demand a) \<le> 1000000000"
proof -
  obtain c where c: "assessment_of req cap p c a" "as_admissible a"
    using assms by (auto simp: rigid_of_def list_all2_conv_all_nth in_set_conv_nth)
  then have ok: "ServiceContract_validate c = EC_Ok" and a: "as_contract a = c" "as_demand a = bandwidth_demand c"
    by (auto simp: assessment_of_def assessed_def frame_def split: if_splits)
  have "sc_priority c \<le> kMaxServicePriority"
    using ok by (simp add: contract_ok_iff)
  then show "unat (sc_priority (as_contract a)) \<le> 1000000"
    using a by (simp add: kMaxServicePriority_def word_le_nat_alt)
  have "bandwidth_demand c \<le> kMaxBandwidthKbps"
    using contract_ok_invar [OF ok] by (rule bandwidth_demand_le)
  then show "unat (as_demand a) \<le> 1000000000"
    using a by (simp add: kMaxBandwidthKbps_def word_le_nat_alt)
qed

lemma sum_list_bound: "(\<And>x. x \<in> set xs \<Longrightarrow> f x \<le> (k :: nat)) \<Longrightarrow> sum_list (map f xs) \<le> length xs * k"
  by (induction xs) (auto intro: add_mono)

lemma few_contracts_no_overflow:
  assumes "list_all2 (assessment_of req cap p) cs as" and "list_all2 (item_for big) (rigid_of as) raw"
    and "unat big = sum_list (map (\<lambda>a. unat (sc_priority (as_contract a))) (rigid_of as)) + 1"
    and "length cs \<le> 18000"
  shows "no_product_overflow raw"
  unfolding no_product_overflow_def
proof (intro ballI)
  have len: "length (rigid_of as) \<le> 18000"
  proof -
    have "length (rigid_of as) \<le> length as"
      by (simp add: rigid_of_def)
    then show ?thesis
      using list_all2_lengthD [OF assms(1)] assms(4) by linarith
  qed
  have "sum_list (map (\<lambda>a. unat (sc_priority (as_contract a))) (rigid_of as)) \<le> length (rigid_of as) * 1000000"
    using assessed_bounds(1) [OF assms(1)] by (intro sum_list_bound) simp
  then have big: "unat big \<le> 18000 * 1000000 + 1"
    using assms(3) len by simp
  fix x y assume xy: "x \<in> set raw" "y \<in> set raw"
  have "\<exists>a \<in> set (rigid_of as). item_for big a z" if "z \<in> set raw" for z
    using assms(2) that by (metis in_set_conv_nth list_all2_conv_all_nth)
  then obtain a b where ab: "a \<in> set (rigid_of as)" "item_for big a x" "b \<in> set (rigid_of as)" "item_for big b y"
    using xy by blast
  have "unat (ri_value x) \<le> 18001000001" and "unat (ri_weight y) \<le> 1000000000"
    using ab(2,4) big assessed_bounds(1) [OF assms(1) ab(1)] assessed_bounds(2) [OF assms(1) ab(3)]
    by (simp_all add: item_for_def)
  then have "unat (ri_value x) * unat (ri_weight y) \<le> 18001000001 * 1000000000"
    by (rule mult_le_mono)
  then show "unat (ri_value x) * unat (ri_weight y) < 2 ^ 64"
    by simp
qed

section \<open>An optimal plan\<close>

definition served_rigid :: "AllocationRequest \<Rightarrow> AllocationPlan \<Rightarrow> ServiceContract set" where
  "served_rigid req plan = {c \<in> set (ar_contracts req). is_rigid c \<and>
     (\<exists>e \<in> set (ap_entries plan). ae_admitted e \<and> ae_contract e = sc_id c)}"

text \<open>An admitted entry for a contract is an admitted slot at its position.\<close>

lemma admitted_entry_slot:
  assumes "distinct (map sc_id cs)"
    and "list_all2 (\<lambda>c s. sl_contract s = c \<and> slot_ok req cap p s) cs final"
    and "list_all2 (\<lambda>s e. slot_entry req s = Inr e) final entries"
    and "ap_entries plan = sort_by entry_less (early_entries req cs @ entries)" and "i < length cs"
  shows "(\<exists>e \<in> set (ap_entries plan). ae_admitted e \<and> ae_contract e = sc_id (cs ! i)) \<longleftrightarrow> sl_admitted (final ! i)"
proof -
  have len: "length final = length cs" "length entries = length cs"
    using assms(2,3) by (simp_all add: list_all2_lengthD [symmetric])
  have entry: "ae_contract (entries ! j) = sc_id (cs ! j) \<and> ae_admitted (entries ! j) = sl_admitted (final ! j)"
    if "j < length cs" for j
    using slot_entry_ok [of req cap p "final ! j" "entries ! j"] assms(2,3) that len
    by (auto simp: list_all2_conv_all_nth entry_for_def)
  have early: "\<not> ae_admitted e" if "e \<in> set (early_entries req cs)" for e
    using early_entries_denied [OF that] by (auto simp: denied_def)
  show ?thesis
  proof
    assume "\<exists>e \<in> set (ap_entries plan). ae_admitted e \<and> ae_contract e = sc_id (cs ! i)"
    then obtain j where j: "j < length cs" "ae_admitted (entries ! j)" "ae_contract (entries ! j) = sc_id (cs ! i)"
      using early assms(4) len by (auto simp: in_set_conv_nth)
    then have "map sc_id cs ! j = map sc_id cs ! i"
      using entry [OF j(1)] assms(5) by simp
    then have "j = i"
      using nth_eq_iff_index_eq [OF assms(1)] j(1) assms(5) by simp
    then show "sl_admitted (final ! i)"
      using j entry by simp
  next
    assume "sl_admitted (final ! i)"
    then show "\<exists>e \<in> set (ap_entries plan). ae_admitted e \<and> ae_contract e = sc_id (cs ! i)"
      using entry assms(4,5) len by (auto intro!: bexI [of _ "entries ! i"])
  qed
qed

text \<open>A rigid slot is admitted exactly when the selection holds its contract.\<close>

lemma admitted_rigid_slot:
  assumes "assessment_of req cap p c a" and "is_rigid c" and "c \<in> set cs" and "distinct (map sc_id cs)"
    and "as_rigid a \<or> \<not> as_admissible a \<longrightarrow>
      sl_admitted s = (as_admissible a \<and> sc_id (as_contract a) \<in> item_ids ys)"
    and "ri_contract ` set ys \<subseteq> set (filter (servable req cap p) cs)"
  shows "sl_admitted s \<longleftrightarrow> c \<in> ri_contract ` set ys"
proof -
  have "as_rigid a \<or> \<not> as_admissible a" "as_contract a = c"
    using assms(1,2) by (auto simp: assessment_of_def assessed_def frame_def split: if_splits)
  then have "sl_admitted s \<longleftrightarrow> as_admissible a \<and> sc_id c \<in> item_ids ys"
    using assms(5) by simp
  moreover have "sc_id c \<in> item_ids ys \<longleftrightarrow> c \<in> ri_contract ` set ys"
  proof -
    have inj: "inj_on sc_id (set cs)" and "item_ids ys = sc_id ` ri_contract ` set ys"
      using assms(4) by (simp_all add: distinct_map image_image)
    moreover have "ri_contract ` set ys \<subseteq> set cs"
      using assms(6) by auto
    ultimately show ?thesis
      using inj_on_image_mem_iff [OF inj assms(3)] by simp
  qed
  moreover have "as_admissible a" if "c \<in> ri_contract ` set ys"
  proof -
    have s: "servable req cap p c"
      using subsetD [OF assms(6) that] by simp
    then have act: "sc_scope c = ar_scope req" "sc_active c"
      by (simp_all add: servable_def)
    then have "ServiceContract_validate c = EC_Ok" "a = assess c cap p"
      using assms(1) by (simp_all add: assessment_of_def)
    then show ?thesis
      using rigid_admissible_iff [OF _ assms(2) act] s by simp
  qed
  ultimately show ?thesis by blast
qed

text \<open>The rigid contracts a finished plan admits are those of the selection.\<close>

lemma served_selection:
  assumes "list_all2 (assessment_of req cap p) cs as" and "distinct (map sc_id cs)"
    and "set cs = set (ar_contracts req)"
    and "list_all2 (\<lambda>c s. sl_contract s = c \<and> slot_ok req cap p s) cs final"
    and "list_all2 (\<lambda>a s. as_rigid a \<or> \<not> as_admissible a \<longrightarrow>
      sl_admitted s = (as_admissible a \<and> sc_id (as_contract a) \<in> item_ids ys)) as final"
    and "list_all2 (\<lambda>s e. slot_entry req s = Inr e) final entries"
    and "ap_entries plan = sort_by entry_less (early_entries req cs @ entries)"
    and "ri_contract ` set ys \<subseteq> set (filter (servable req cap p) cs)"
  shows "served_rigid req plan = ri_contract ` set ys"
proof -
  have "(\<exists>e \<in> set (ap_entries plan). ae_admitted e \<and> ae_contract e = sc_id c) \<longleftrightarrow> c \<in> ri_contract ` set ys"
    if "c \<in> set cs" "is_rigid c" for c
  proof -
    obtain i where i: "i < length cs" "cs ! i = c"
      using \<open>c \<in> set cs\<close> by (auto simp: in_set_conv_nth)
    have "sl_admitted (final ! i) \<longleftrightarrow> c \<in> ri_contract ` set ys"
      using assms(1,5) i
      by (intro admitted_rigid_slot [of req cap p c "as ! i" cs, OF _ that(2,1) assms(2) _ assms(8)])
        (auto simp: list_all2_conv_all_nth)
    then show ?thesis
      using admitted_entry_slot [OF assms(2,4,6,7) i(1)] i(2) by simp
  qed
  moreover have "ri_contract ` set ys \<subseteq> {c \<in> set cs. is_rigid c}"
    using assms(8) by (auto simp: servable_def)
  ultimately show ?thesis
    unfolding served_rigid_def assms(3) [symmetric] by blast
qed

text \<open>A selection of servable contracts, as a choice of items.\<close>

lemma selection_items:
  assumes "list_all2 (item_for big) (rigid_of as) raw" and "list_all2 (assessment_of req cap p) cs as"
    and "distinct (map sc_id cs)" and "S \<subseteq> set (filter (servable req cap p) cs)"
  shows "\<exists>js ys. (js, ys) \<in> set (picks 0 (sort_by density_less raw)) \<and> length ys = card S \<and>
    weights ys = demand_of S \<and> priorities ys = priority_of S"
proof -
  note raw = items_contracts [OF assms(1,2)]
  define ys where "ys = filter (\<lambda>x. ri_contract x \<in> S) (sort_by density_less raw)"
  have "distinct cs"
    using assms(3) by (simp add: distinct_map)
  then have "distinct (map ri_contract (sort_by density_less raw))"
    using raw(1) by simp
  then have dist: "distinct (map ri_contract ys)"
    unfolding ys_def by (rule distinct_map_filter)
  have weight: "ri_weight x = bandwidth_demand (ri_contract x)" if "x \<in> set ys" for x
    using raw(2) that by (simp add: ys_def)
  note sums = selection_sums [OF dist weight]
  have "ri_contract ` set raw = set (filter (servable req cap p) cs)"
    using raw(1) by (metis set_map)
  then have "ri_contract ` set ys = S"
    using assms(4) by (auto simp: ys_def)
  moreover obtain js where "(js, ys) \<in> set (picks 0 (sort_by density_less raw))"
    using subseq_picks [of ys] unfolding ys_def by (metis subseq_filter_left)
  ultimately show ?thesis
    using sums by metis
qed

definition no_better :: "ServiceContract set \<Rightarrow> ServiceContract set \<Rightarrow> bool" where
  "no_better S T \<longleftrightarrow> card S < card T \<or> card S = card T \<and> priority_of S \<le> priority_of T"

lemma finish_plan_served:
  assumes "finish_plan req cap p plan (early_entries req cs) as = Inr plan'"
    and "list_all2 (assessment_of req cap p) cs as" and "distinct (map sc_id cs)"
    and "set cs = set (ar_contracts req)" and "length cs < 2 ^ 32"
  obtains search items big raw where
    "list_all2 (item_for big) (rigid_of as) raw" "items = sort_by density_less raw"
    "search = rigid_search_of items (cs_bandwidth_kbps cap) (po_search_node_budget p)"
    "unat big = sum_list (map (\<lambda>a. unat (sc_priority (as_contract a))) (rigid_of as)) + 1"
    "encodes (unat big) items"
    "incumbent search = (card (served_rigid req plan'), priority_of (served_rigid req plan'), rs_best_selection search)"
    "served_rigid req plan' \<subseteq> set (filter (servable req cap p) cs)"
    "demand_of (served_rigid req plan') \<le> unat (cs_bandwidth_kbps cap)"
    "ap_status plan' = (if rigid_of as \<noteq> [] \<and> rs_exhausted search then PS_SearchLimitReached else PS_Optimal)"
proof -
  obtain search items ys final entries where run:
      "rigid_selection p (cs_bandwidth_kbps cap) (rigid_of as) = Inr (search, items)"
      "(rs_best_selection search, ys) \<in> set (picks 0 items)"
      "incumbent search = (length ys, priorities ys, rs_best_selection search)"
      "weights ys \<le> unat (cs_bandwidth_kbps cap)"
      "list_all2 (\<lambda>c s. sl_contract s = c \<and> slot_ok req cap p s) cs final"
      "list_all2 (\<lambda>a s. as_rigid a \<or> \<not> as_admissible a \<longrightarrow>
        sl_admitted s = (as_admissible a \<and> sc_id (as_contract a) \<in> item_ids ys)) as final"
      "list_all2 (\<lambda>s e. slot_entry req s = Inr e) final entries"
      "ap_entries plan' = sort_by entry_less (early_entries req cs @ entries)"
      "ap_status plan' = (if rigid_of as \<noteq> [] \<and> rs_exhausted search then PS_SearchLimitReached else PS_Optimal)"
    by (rule finish_plan_run [OF assms(1-3,5)])
  obtain big raw where raw: "list_all2 (item_for big) (rigid_of as) raw" "items = sort_by density_less raw"
      "search = rigid_search_of items (cs_bandwidth_kbps cap) (po_search_node_budget p)"
      "unat big = sum_list (map (\<lambda>a. unat (sc_priority (as_contract a))) (rigid_of as)) + 1"
      "encodes (unat big) items"
    by (rule rigid_selection_items [OF run(1)])
  note contracts = items_contracts [OF raw(1) assms(2)]
  have sub: "subseq ys items"
    using picks_subseq run(2) by blast
  then have "set ys \<subseteq> set raw"
    using subseq_subset raw(2) by fastforce
  then have inside: "ri_contract ` set ys \<subseteq> set (filter (servable req cap p) cs)"
    and weight: "\<And>x. x \<in> set ys \<Longrightarrow> ri_weight x = bandwidth_demand (ri_contract x)"
    using contracts by (metis image_mono set_map) (use contracts(2) \<open>set ys \<subseteq> set raw\<close> in blast)
  have "distinct cs"
    using assms(3) by (simp add: distinct_map)
  then have "distinct (map ri_contract items)"
    using contracts(1) raw(2) by simp
  then have "distinct (map ri_contract ys)"
    using subseq_filter_key [OF sub] distinct_map_filter by metis
  note sums = selection_sums [OF this weight]
  have "served_rigid req plan' = ri_contract ` set ys"
    by (rule served_selection [OF assms(2,3,4) run(5,6,7,8) inside])
  then show thesis
    using that [OF raw _ _ _ run(9)] run(3,4) inside sums by simp
qed


lemma finish_plan_optimal:
  assumes "finish_plan req cap p plan (early_entries req cs) as = Inr plan'"
    and "list_all2 (assessment_of req cap p) cs as" and "distinct (map sc_id cs)"
    and "set cs = set (ar_contracts req)" and "length cs \<le> 18000" and "ap_status plan' = PS_Optimal"
    and "S \<subseteq> set (filter (servable req cap p) cs)" and "demand_of S \<le> unat (cs_bandwidth_kbps cap)"
  shows "no_better S (served_rigid req plan')"
proof -
  have len: "length cs < 2 ^ 32"
    using assms(5) by simp
  obtain search items big raw where run:
      "list_all2 (item_for big) (rigid_of as) raw" "items = sort_by density_less raw"
      "search = rigid_search_of items (cs_bandwidth_kbps cap) (po_search_node_budget p)"
      "unat big = sum_list (map (\<lambda>a. unat (sc_priority (as_contract a))) (rigid_of as)) + 1"
      "encodes (unat big) items"
      "incumbent search = (card (served_rigid req plan'), priority_of (served_rigid req plan'), rs_best_selection search)"
      "ap_status plan' = (if rigid_of as \<noteq> [] \<and> rs_exhausted search then PS_SearchLimitReached else PS_Optimal)"
    by (rule finish_plan_served [OF assms(1-4) len])
  show ?thesis
  proof (cases "rigid_of as = []")
    case True
    then have "S = {}"
      using rigid_of_servable(1) [OF assms(2)] assms(7) by simp
    then show ?thesis
      by (auto simp: no_better_def)
  next
    case False
    then have live: "\<not> rs_exhausted search"
      using run(7) assms(6) by auto
    obtain js ys where ys: "(js, ys) \<in> set (picks 0 items)" "length ys = card S" "weights ys = demand_of S"
        "priorities ys = priority_of S"
      using selection_items [OF run(1) assms(2,3,7)] run(2) by blast
    have sorted: "sorted_wrt denser items"
      unfolding run(2) by (rule density_sorted [OF few_contracts_no_overflow [OF assms(2) run(1,4) assms(5)]])
    have "length items \<le> length cs"
      using run(2) item_for_ids(3) [OF run(1)] rigid_of_servable(1) [OF assms(2)]
      by (metis length_filter_le length_map length_sort_by)
    then have "\<not> better (length ys, priorities ys, js) (incumbent search)"
      using search_optimal [OF sorted run(5) _ _ ys(1)] live len ys(3) assms(8) unfolding run(3) by simp
    then show ?thesis
      using run(6) ys(2,4) by (auto simp: better_def no_better_def not_less)
  qed
qed

section \<open>What the plan status proves\<close>

text \<open>
  C4. The plan status \<open>Optimal\<close> is a proof. For a request of at most 18000 contracts, the rigid contracts
  an optimal plan admits are servable and fit the offered bandwidth, and no set of servable rigid
  contracts that fits it is larger, or equally large with a larger priority sum. Servable means
  active in the scope, rigid, with every original guarantee supported by usable evidence and a
  profile for its class in the policy. (Above 18000 contracts of maximal demand and priority the
  products compared by the density order can leave 64 bits.)
\<close>

theorem optimal_plan_serves_most:
  assumes "allocate_scope req = Inr plan" and "ap_status plan = PS_Optimal"
    and "length (ar_contracts req) \<le> 18000"
    and "ar_capability req = Some cap" and "ar_policy req = Some p"
  shows "served_rigid req plan \<subseteq> {c \<in> set (ar_contracts req). servable req cap p c} \<and>
    demand_of (served_rigid req plan) \<le> unat (cs_bandwidth_kbps cap) \<and>
    (\<forall>S \<subseteq> {c \<in> set (ar_contracts req). servable req cap p c}.
       demand_of S \<le> unat (cs_bandwidth_kbps cap) \<longrightarrow>
       card S < card (served_rigid req plan) \<or>
       card S = card (served_rigid req plan) \<and> priority_of S \<le> priority_of (served_rigid req plan))"
proof -
  obtain cs as where run: "cs = sort_by contract_id_less (ar_contracts req)" "distinct (map sc_id cs)"
      "list_all2 (assessment_of req cap p) cs as"
      "(\<exists>certificate. plan = infeasible_plan req (base_plan req cap p) certificate (early_entries req cs) cs) \<or>
       finish_plan req cap p (base_plan req cap p) (early_entries req cs) as = Inr plan"
    using allocate_scope_run [OF assms(1)] assms(4,5) by (metis option.inject)
  have cs: "set cs = set (ar_contracts req)" "length cs \<le> 18000" "length cs < 2 ^ 32"
    using run(1) assms(3) by simp_all
  have fin: "finish_plan req cap p (base_plan req cap p) (early_entries req cs) as = Inr plan"
    using run(4) assms(2) by (auto simp: infeasible_plan_def)
  have cands: "{c \<in> set (ar_contracts req). servable req cap p c} = set (filter (servable req cap p) cs)"
    using cs(1) by simp
  have "served_rigid req plan \<subseteq> set (filter (servable req cap p) cs) \<and>
      demand_of (served_rigid req plan) \<le> unat (cs_bandwidth_kbps cap)"
    by (rule finish_plan_served [OF fin run(3,2) cs(1,3)]) blast
  then show ?thesis
    unfolding cands using finish_plan_optimal [OF fin run(3,2) cs(1,2) assms(2)] by (auto simp: no_better_def)
qed

theorem optimal_plan_serves_most_witness:
  "served_rigid sample_request sample_plan \<subseteq>
     {c \<in> set (ar_contracts sample_request). servable sample_request sample_capability planning_policy c} \<and>
   card {rigid_contract} \<le> card (served_rigid sample_request sample_plan)"
proof -
  have "servable sample_request sample_capability planning_policy rigid_contract"
    by code_simp
  moreover have "demand_of {rigid_contract} \<le> unat (cs_bandwidth_kbps sample_capability)"
    by code_simp
  moreover have "rigid_contract \<in> set (ar_contracts sample_request)"
    by (simp add: sample_request_def)
  moreover have "ap_status sample_plan = PS_Optimal"
    by (simp add: sample_plan_def)
  ultimately show ?thesis
    using optimal_plan_serves_most [OF sample_allocation _ _ sample_request_fields(1,2)] sample_request_fields(6)
    by (auto dest!: spec [of _ "{rigid_contract}"])
qed

lemma finish_plan_status: "finish_plan req cap p plan early as = Inr plan' \<Longrightarrow> ap_status plan' \<noteq> PS_ProvenInfeasible"
  by (auto simp: finish_plan_def Let_def split: sum.splits if_splits)

text \<open>
  C21. \<open>ProvenInfeasible\<close> is a proof too. A plan has this status only when the policy demands a minimum of
  protected service and no set of that many servable rigid contracts fits the offered bandwidth; the
  plan then carries a valid certificate with that minimum, denies every contract and reports the
  protected shortfall.
\<close>

theorem infeasibility_certificate_sound:
  assumes "allocate_scope req = Inr plan" and "ap_status plan = PS_ProvenInfeasible"
    and "ar_capability req = Some cap" and "ar_policy req = Some p"
  shows "ic_valid (ap_certificate plan) \<and>
    ic_required_protected (ap_certificate plan) = po_minimum_protected_served p \<and>
    ap_protected_shortfall plan \<and> list_all denied (ap_entries plan) \<and>
    (\<forall>S \<subseteq> {c \<in> set (ar_contracts req). servable req cap p c}.
       card S = unat (po_minimum_protected_served p) \<longrightarrow> unat (cs_bandwidth_kbps cap) < demand_of S)"
proof -
  obtain cs as where run: "cs = sort_by contract_id_less (ar_contracts req)" "distinct (map sc_id cs)"
      "list_all2 (assessment_of req cap p) cs as"
      "(\<exists>certificate. infeasibility (po_minimum_protected_served p) (map as_demand (rigid_of as))
          (cs_bandwidth_kbps cap) = Some certificate \<and>
        plan = infeasible_plan req (base_plan req cap p) certificate (early_entries req cs) cs) \<or>
       finish_plan req cap p (base_plan req cap p) (early_entries req cs) as = Inr plan"
    using allocate_scope_run [OF assms(1)] assms(3,4) by (metis option.inject)
  then obtain certificate where cert: "infeasibility (po_minimum_protected_served p) (map as_demand (rigid_of as))
        (cs_bandwidth_kbps cap) = Some certificate"
      "plan = infeasible_plan req (base_plan req cap p) certificate (early_entries req cs) cs"
    using finish_plan_status assms(2) by metis
  have "unat (cs_bandwidth_kbps cap) < demand_of S"
    if S: "S \<subseteq> {c \<in> set (ar_contracts req). servable req cap p c}" "card S = unat (po_minimum_protected_served p)" for S
  proof -
    have "distinct cs" and sub: "S \<subseteq> set (filter (servable req cap p) cs)"
      using run(1,2) S(1) by (auto simp: distinct_map)
    then have "mset_set S \<subseteq># mset (filter (servable req cap p) cs)"
      by (metis distinct_filter finite_set mset_set_set subset_imp_msubset_mset_set)
    then have "image_mset bandwidth_demand (mset_set S) \<subseteq># mset (map as_demand (rigid_of as))"
      using rigid_of_servable(2) [OF run(3)] image_mset_subseteq_mono by fastforce
    from infeasibility_sound [OF cert(1) this] show ?thesis
      using S(2) finite_subset [OF sub] by (simp add: sum_unfold_sum_mset image_mset.compositionality comp_def)
  qed
  moreover have "list_all denied (ap_entries plan)"
    using early_entries_denied [of _ req cs] unfolding cert(2)
    by (auto simp: infeasible_plan_def list_all_iff denied_def scope_entry_def new_entry_def is_authorising_def)
  moreover have "ic_valid certificate \<and> ic_required_protected certificate = po_minimum_protected_served p"
    using cert(1) by (auto simp: infeasibility_def Let_def split: if_splits prod.splits)
  ultimately show ?thesis
    unfolding cert(2) by (simp add: infeasible_plan_def)
qed

text \<open>The sample request under a policy that demands two protected contracts, of which there is one.\<close>

definition strict_policy :: Policy where
  "strict_policy = planning_policy\<lparr>po_minimum_protected_served := 2\<rparr>"

definition strict_request :: AllocationRequest where
  "strict_request = sample_request\<lparr>ar_policy := Some strict_policy\<rparr>"

definition strict_plan :: AllocationPlan where
  "strict_plan = infeasible_plan strict_request (base_plan strict_request sample_capability strict_policy)
     \<lparr>ic_required_protected = 2, ic_available_protected = 1, ic_minimum_demand_kbps = 0,
      ic_offered_capacity_kbps = 90, ic_valid = True\<rparr> [] [rigid_contract, flexible_contract]"

lemma strict_allocation: "allocate_scope strict_request = Inr strict_plan"
proof -
  have pol: "Policy_validate strict_policy = EC_Ok"
    by (simp add: strict_policy_def planning_policy_def empty_envelope_def sample_policy_def sample_rules_def
        empty_policy_def Policy_validate_def status_simps valid_id_def PolicyRule_validate_def
        ClassProfile_validate_def env_invar_def bound_in_domain_def kMaxBandwidthKbps_def
        kMaxCollectionItems_def)
  have req: "ar_capability strict_request = Some sample_capability" "ar_policy strict_request = Some strict_policy"
      "valid_id (ar_scope strict_request)" "cs_scope sample_capability = ar_scope strict_request"
      "ar_contracts strict_request = ar_contracts sample_request"
    by (simp_all add: strict_request_def sample_request_def sample_capability_def valid_id_def)
  have as: "assess_all strict_request sample_capability strict_policy [rigid_contract, flexible_contract] =
      Inr ([], [sample_assessment rigid_contract, sample_assessment flexible_contract])"
    by code_simp
  have inf: "infeasibility (po_minimum_protected_served strict_policy)
      (map as_demand (filter (\<lambda>a. as_admissible a \<and> as_rigid a)
        [sample_assessment rigid_contract, sample_assessment flexible_contract])) (cs_bandwidth_kbps sample_capability) =
      Some \<lparr>ic_required_protected = 2, ic_available_protected = 1, ic_minimum_demand_kbps = 0,
        ic_offered_capacity_kbps = 90, ic_valid = True\<rparr>"
    by code_simp
  have "\<not> has_adjacent_equal (map sc_id [rigid_contract, flexible_contract])"
    using sample_contracts(2) by simp
  then show ?thesis
    unfolding allocate_scope_def using req pol sample_contracts
    by (simp add: Let_def as inf strict_plan_def del: assess_all.simps filter.simps list.map)
qed

theorem infeasibility_certificate_sound_witness:
  "ic_valid (ap_certificate strict_plan) \<and> ap_protected_shortfall strict_plan \<and>
   list_all denied (ap_entries strict_plan)"
proof -
  have "ap_status strict_plan = PS_ProvenInfeasible"
    by (simp add: strict_plan_def infeasible_plan_def)
  from infeasibility_certificate_sound [OF strict_allocation this] show ?thesis
    by (simp add: strict_request_def sample_request_def)
qed

end
