(* ===== verification/Evaluator.thy ===== *)
theory Evaluator
  imports Allocator_Plan
begin

text \<open>
  Single-contract evaluation: \<open>src/engine/evaluator.cpp\<close>. A null pointer of the request is \<open>None\<close>; every
  early \<open>return invalid_decision(request)\<close> of the source is a branch of the model.
\<close>

record ContractEvaluationRequest =
  er_contract :: "ServiceContract option"
  er_capability :: "CapabilitySnapshot option"
  er_evidence :: "EvidenceVector option"
  er_policy :: "Policy option"
  er_context :: EvaluationContext
  er_allocation :: "AllocationEntry option"
  er_plan_status :: PlanStatus

definition no_binding :: AuthorityBinding where
  "no_binding = \<lparr>ab_vector = no_vector, ab_contract = 0, ab_contract_generation = 0, ab_subject = 0,
     ab_subject_generation = 0, ab_scope = 0\<rparr>"

definition new_decision :: Decision where
  "new_decision = \<lparr>de_id = 0, de_binding = no_binding, de_service_class = SC_Standard,
     de_protected_obligation = False, de_priority = 0, de_outcome = DO_Invalid, de_max_authority = AL_None,
     de_original = [], de_approved = [], de_delta = empty_delta, de_primary_reason = RC_None,
     de_reasons = [], de_support = [], de_evidence = new_evidence_vector kMaxCollectionItems,
     de_evidence_state = ES_Unknown, de_plan_status = PS_Invalid, de_escalation_required = False,
     de_provenance = PC_Synthetic, de_decided_tick = 0, de_expires_tick = 0\<rparr>"

definition push_unique :: "ReasonCode \<Rightarrow> ReasonCode list \<Rightarrow> ReasonCode list" where
  "push_unique reason reasons =
     (if reason = RC_None \<or> length reasons \<ge> kMaxReasonsPerDecision \<or> reason \<in> set reasons then reasons
      else reasons @ [reason])"

definition invalid_decision :: "ContractEvaluationRequest \<Rightarrow> Decision" where
  "invalid_decision req =
     (let d = new_decision\<lparr>de_id := ec_decision_id (er_context req), de_binding := ec_binding (er_context req),
            de_decided_tick := ec_now (er_context req), de_expires_tick := ec_now (er_context req),
            de_provenance := ec_provenance (er_context req), de_outcome := DO_Invalid,
            de_primary_reason := RC_ContractInvalid, de_reasons := [RC_ContractInvalid],
            de_max_authority := AL_None, de_plan_status := PS_Invalid, de_evidence_state := ES_Unknown,
            de_escalation_required := True\<rparr>
      in case er_contract req of
           None \<Rightarrow> d
         | Some c \<Rightarrow> d\<lparr>de_service_class := sc_service_class c,
             de_protected_obligation := protected_obligation c, de_priority := sc_priority c,
             de_original := sc_original c\<rparr>)"

definition binding_matches :: "AuthorityBinding \<Rightarrow> ServiceContract \<Rightarrow> CapabilitySnapshot \<Rightarrow> bool" where
  "binding_matches b c cap \<longleftrightarrow> ab_contract b = sc_id c \<and> ab_contract_generation b = sc_generation c \<and>
     ab_subject b = sc_subject c \<and> ab_subject_generation b = sc_subject_generation c \<and>
     ab_scope b = sc_scope c \<and> ab_scope b = cs_scope cap"

definition support_entry :: "CapabilitySnapshot \<Rightarrow> guarantee \<Rightarrow> GuaranteeSupport" where
  "support_entry cap g = \<lparr>gs_kind = g_kind g, gs_support = supports cap g,
     gs_reason = (if supports cap g = ST_Supported then RC_None else shortfall_reason cap g)\<rparr>"

text \<open>The allocation the decision is built on: the one supplied, or that of a single-contract plan.\<close>

definition allocation_for ::
    "ContractEvaluationRequest \<Rightarrow> ServiceContract \<Rightarrow> CapabilitySnapshot \<Rightarrow> Policy \<Rightarrow>
     (AllocationEntry \<times> PlanStatus) option" where
  "allocation_for req c cap p =
     (case er_allocation req of
        Some e \<Rightarrow> Some (e, er_plan_status req)
      | None \<Rightarrow>
          (case allocate_scope \<lparr>ar_scope = sc_scope c, ar_contracts = [c], ar_capability = Some cap,
                  ar_evidence = er_evidence req, ar_policy = Some p, ar_context = er_context req\<rparr> of
             Inl _ \<Rightarrow> None
           | Inr plan \<Rightarrow> map_option (\<lambda>e. (e, ap_status plan)) (AllocationPlan_find plan (sc_id c))))"

definition decision_authority :: "DecisionOutcome \<Rightarrow> ServiceContract \<Rightarrow> CapabilitySnapshot \<Rightarrow> AuthorityLevel" where
  "decision_authority out c cap =
     (if is_authorising out then AL_Recommended
      else if out = DO_Invalid then AL_None
      else if \<not> is_rigid c \<and> usable cap then AL_Eligible
      else AL_Observed)"

definition escalates :: "DecisionOutcome \<Rightarrow> bool \<Rightarrow> PlanStatus \<Rightarrow> bool" where
  "escalates out protected status \<longleftrightarrow>
     out = DO_Escalated \<or> out = DO_Unsupported \<or> out = DO_Indeterminate \<or>
     (out = DO_Refused \<and> protected) \<or> status = PS_ProvenInfeasible"

definition decision_reasons ::
    "ReasonCode \<Rightarrow> GuaranteeSupport list \<Rightarrow> PlanStatus \<Rightarrow> CapabilitySnapshot \<Rightarrow> ReasonCode list" where
  "decision_reasons reason support status cap =
     (let rs = push_unique reason [];
          rs = fold (\<lambda>e. push_unique (gs_reason e)) support rs;
          rs = (if status = PS_ProvenInfeasible then push_unique RC_ResourceExhausted rs else rs);
          rs = (if status = PS_SearchLimitReached then push_unique RC_SearchLimitReached rs else rs)
      in if cs_origin cap = OC_Synthetic \<or> cs_origin cap = OC_Unspecified
         then push_unique RC_HardwareNotExercised rs else rs)"

definition decision_expiry :: "bool \<Rightarrow> Policy \<Rightarrow> tick \<Rightarrow> tick" where
  "decision_expiry authorising p now =
     (if authorising
      then let ttl = (if po_minimum_ttl_ticks p > po_default_ttl_ticks p then po_minimum_ttl_ticks p
                      else po_default_ttl_ticks p)
           in (case checked_add now ttl of None \<Rightarrow> u64_max | Some t \<Rightarrow> t)
      else now)"

definition evaluate_contract :: "ContractEvaluationRequest \<Rightarrow> Decision" where
  "evaluate_contract req =
     (case (er_contract req, er_capability req, er_policy req) of
        (Some c, Some cap, Some p) \<Rightarrow>
          let ctx = er_context req
          in if ServiceContract_validate c \<noteq> EC_Ok \<or> Policy_validate p \<noteq> EC_Ok \<or>
                \<not> valid_id (ec_decision_id ctx) \<or> \<not> AuthorityBinding_valid (ec_binding ctx) \<or>
                \<not> binding_matches (ec_binding ctx) c cap
             then invalid_decision req
             else (case allocation_for req c cap p of
                     None \<Rightarrow> invalid_decision req
                   | Some (e, status) \<Rightarrow>
                       let support = map (support_entry cap) (sc_original c);
                           d = new_decision\<lparr>de_id := ec_decision_id ctx, de_binding := ec_binding ctx,
                             de_service_class := sc_service_class c,
                             de_protected_obligation := protected_obligation c,
                             de_priority := sc_priority c, de_original := sc_original c,
                             de_decided_tick := ec_now ctx, de_provenance := ec_provenance ctx,
                             de_evidence_state := cs_state cap,
                             de_evidence := (case er_evidence req of None \<Rightarrow> de_evidence new_decision
                                             | Some v \<Rightarrow> v),
                             de_support := support, de_plan_status := status,
                             de_approved := ae_approved e, de_delta := ae_delta e,
                             de_outcome := ae_outcome e, de_primary_reason := ae_reason e,
                             de_max_authority := decision_authority (ae_outcome e) c cap,
                             de_escalation_required := escalates (ae_outcome e) (protected_obligation c) status,
                             de_reasons := decision_reasons (ae_reason e) support status cap,
                             de_expires_tick := decision_expiry (is_authorising (ae_outcome e)) p (ec_now ctx)\<rparr>
                       in if Decision_validate d = EC_Ok then d else invalid_decision req)
      | _ \<Rightarrow> invalid_decision req)"

definition full_service_supported :: "ServiceContract \<Rightarrow> CapabilitySnapshot \<Rightarrow> bool" where
  "full_service_supported c cap \<longleftrightarrow> usable cap \<and> ServiceContract_validate c = EC_Ok \<and>
     list_all (\<lambda>g. supports cap g = ST_Supported) (sc_original c)"

section \<open>What a decision promises\<close>

lemma invalid_decision_simps [simp]:
  "de_outcome (invalid_decision req) = DO_Invalid" "de_max_authority (invalid_decision req) = AL_None"
  "de_delta (invalid_decision req) = empty_delta" "de_approved (invalid_decision req) = []"
  "de_expires_tick (invalid_decision req) = ec_now (er_context req)"
  "de_escalation_required (invalid_decision req)"
  by (simp_all add: invalid_decision_def new_decision_def Let_def split: option.split)

lemma decision_expiry_ge: "now \<le> decision_expiry authorising p now"
proof -
  have "now \<le> t" if "checked_add now x = Some t" for x t
    using that by (simp add: word_le_nat_alt checked_add_Some_iff)
  then show ?thesis
    by (auto simp: decision_expiry_def Let_def u64_max_greatest split: option.split)
qed

text \<open>The entry of a plan computed for one contract.\<close>

lemma allocation_for_single:
  assumes "allocation_for req c cap p = Some (e, status)" and "er_allocation req = None"
  shows "if ae_admitted e
    then honours_contract \<lparr>ar_scope = sc_scope c, ar_contracts = [c], ar_capability = Some cap,
           ar_evidence = er_evidence req, ar_policy = Some p, ar_context = er_context req\<rparr> cap p c e
    else denied e"
proof -
  define areq where "areq = \<lparr>ar_scope = sc_scope c, ar_contracts = [c], ar_capability = Some cap,
    ar_evidence = er_evidence req, ar_policy = Some p, ar_context = er_context req\<rparr>"
  obtain plan where plan: "allocate_scope areq = Inr plan" "AllocationPlan_find plan (sc_id c) = Some e"
    using assms by (auto simp: allocation_for_def areq_def split: sum.splits)
  then have "e \<in> set (ap_entries plan)"
    by (auto simp: AllocationPlan_find_def dest: find_ptr_SomeD)
  from plan_entry [OF plan(1) _ this] show ?thesis
    by (auto simp: areq_def)
qed

text \<open>A decision is the invalid one, or it was built and passed its own validation.\<close>

lemma evaluate_contract_cases:
  obtains (invalid) "evaluate_contract req = invalid_decision req"
  | (built) c cap p e status where "er_contract req = Some c" "er_capability req = Some cap"
      "er_policy req = Some p" "ServiceContract_validate c = EC_Ok"
      "binding_matches (ec_binding (er_context req)) c cap"
      "allocation_for req c cap p = Some (e, status)"
      "Decision_validate (evaluate_contract req) = EC_Ok"
      "de_original (evaluate_contract req) = sc_original c" "de_binding (evaluate_contract req) = ec_binding (er_context req)"
      "de_outcome (evaluate_contract req) = ae_outcome e" "de_approved (evaluate_contract req) = ae_approved e"
      "de_delta (evaluate_contract req) = ae_delta e"
      "de_max_authority (evaluate_contract req) = decision_authority (ae_outcome e) c cap"
      "de_evidence_state (evaluate_contract req) = cs_state cap"
      "de_expires_tick (evaluate_contract req) =
        decision_expiry (is_authorising (ae_outcome e)) p (ec_now (er_context req))"
proof (cases "evaluate_contract req = invalid_decision req")
  case False
  then obtain c cap p where o: "er_contract req = Some c" "er_capability req = Some cap" "er_policy req = Some p"
    by (auto simp: evaluate_contract_def split: option.splits)
  have chk: "ServiceContract_validate c = EC_Ok" "binding_matches (ec_binding (er_context req)) c cap"
    using False by (auto simp: evaluate_contract_def o Let_def split: if_splits)
  obtain e status where e: "allocation_for req c cap p = Some (e, status)"
    using False by (fastforce simp: evaluate_contract_def o Let_def split: if_splits option.splits)
  note eq = evaluate_contract_def [of req, unfolded o option.case prod.case Let_def e]
  show ?thesis
    by (rule built [OF o chk e]) (use False in \<open>auto simp: eq split: if_splits\<close>)
qed (rule invalid)

text \<open>
  C19. An evaluation never promises more than the contract and never becomes authority by itself.
  Whatever is passed in, including an allocation computed elsewhere, the result is the explicit invalid decision or
  passes its own validation, and whatever its outcome it carries the contract's original guarantees and approves nothing
  or a weakening of them. A decision with an authorising
  outcome passes its own validation, is bound to the contract and generations of the request,
  reaches exactly the
  level \<open>Recommended\<close>, does not expire before it was made, and claims full service only on known
  evidence. When the evaluator computed the allocation itself, the evidence is usable and a rigid
  contract is approved at exactly its original guarantees, all of them supported. Every other
  decision carries an empty delta, expires at once and stays below \<open>Recommended\<close>.
\<close>

theorem evaluation_never_exceeds_contract:
  "(evaluate_contract req = invalid_decision req \<or> Decision_validate (evaluate_contract req) = EC_Ok) \<and>
   (case er_contract req of
      None \<Rightarrow> evaluate_contract req = invalid_decision req \<and> de_approved (evaluate_contract req) = []
    | Some c \<Rightarrow> de_original (evaluate_contract req) = sc_original c \<and>
        (de_approved (evaluate_contract req) = [] \<or>
         weakens_or_equals (sc_original c) (de_approved (evaluate_contract req)))) \<and>
   (if is_authorising (de_outcome (evaluate_contract req))
   then \<exists>c cap. er_contract req = Some c \<and> er_capability req = Some cap \<and>
     Decision_validate (evaluate_contract req) = EC_Ok \<and>
     binding_matches (de_binding (evaluate_contract req)) c cap \<and>
     de_original (evaluate_contract req) = sc_original c \<and>
     weakens_or_equals (sc_original c) (de_approved (evaluate_contract req)) \<and>
     de_max_authority (evaluate_contract req) = AL_Recommended \<and>
     \<not> is_authority (de_max_authority (evaluate_contract req)) \<and>
     ec_now (er_context req) \<le> de_expires_tick (evaluate_contract req) \<and>
     (if de_outcome (evaluate_contract req) = DO_Full then cs_state cap = ES_Known else True) \<and>
     (if er_allocation req = None
      then usable cap \<and>
        (if is_rigid c
         then de_approved (evaluate_contract req) = sc_original c \<and> de_outcome (evaluate_contract req) = DO_Full \<and>
           full_service_supported c cap
         else True)
      else True)
   else de_delta (evaluate_contract req) = empty_delta \<and>
     de_expires_tick (evaluate_contract req) = ec_now (er_context req) \<and>
     AuthorityLevel_code (de_max_authority (evaluate_contract req)) < AuthorityLevel_code AL_Recommended)"
proof (cases rule: evaluate_contract_cases [of req])
  case invalid
  then show ?thesis
    by (simp add: is_authorising_def invalid_decision_def new_decision_def Let_def split: option.split)
next
  case (built c cap p e status)
  note ok = built(7) [unfolded decision_ok_iff built(8-15)]
  show ?thesis
  proof (cases "is_authorising (ae_outcome e)")
    case False
    then show ?thesis
      using ok by (simp add: built decision_expiry_def decision_authority_def)
  next
    case True
    have self: "usable cap \<and> (is_rigid c \<longrightarrow> ae_approved e = sc_original c \<and> ae_outcome e = DO_Full \<and>
        full_service_supported c cap)" if "er_allocation req = None"
      using allocation_for_single [OF built(6) that] True built(4)
      by (auto simp: denied_def honours_contract_def full_service_supported_def split: if_splits)
    show ?thesis
      using True ok self built(1-9)
      by (auto simp: built(10-15) decision_authority_def is_authority_def decision_expiry_ge)
  qed
qed

end
