(* ===== verification/Reference_Solver.thy ===== *)
theory Reference_Solver
  imports Allocator_Optimal Evaluator
begin

text \<open>
  The exhaustive reference solver: \<open>src/engine/reference_solver.cpp\<close>, and its agreement with the
  production allocator.
\<close>

section \<open>The solver\<close>

record ReferenceSolution =
  rf_served_count :: u64
  rf_priority_sum :: u64
  rf_served :: "u64 list"
  rf_complete :: bool
  rf_subsets_examined :: u64

definition candidate :: "AllocationRequest \<Rightarrow> CapabilitySnapshot \<Rightarrow> ServiceContract \<Rightarrow> bool" where
  "candidate req cap c \<longleftrightarrow> \<not> (sc_scope c \<noteq> ar_scope req \<or> \<not> sc_active c) \<and> is_rigid c \<and>
     full_service_supported c cap"

text \<open>The loop over \<open>bit\<close> for one mask with its locals \<open>weight\<close>, \<open>served\<close>, \<open>priority\<close> and \<open>ids\<close>; \<open>None\<close>
  is \<open>overflow\<close>.\<close>

fun subset_loop ::
    "u64 \<Rightarrow> nat \<Rightarrow> ServiceContract list \<Rightarrow> u64 \<Rightarrow> u64 \<Rightarrow> u64 \<Rightarrow> u64 list \<Rightarrow>
     (u64 \<times> u64 \<times> u64 \<times> u64 list) option" where
  "subset_loop msk i [] weight served priority ids = Some (weight, served, priority, ids)"
| "subset_loop msk i (c # cs) weight served priority ids =
     (if \<not> bit msk i then subset_loop msk (Suc i) cs weight served priority ids
      else case checked_add weight (bandwidth_demand c) of
             None \<Rightarrow> None
           | Some w \<Rightarrow>
               (case checked_add priority (ucast (sc_priority c)) of
                  None \<Rightarrow> None
                | Some p \<Rightarrow> subset_loop msk (Suc i) cs w (served + 1) p (ids @ [sc_id c])))"

type_synonym reference_best = "u64 \<times> u64 \<times> u64 list"

text \<open>One iteration of the mask loop on \<open>best_count\<close>, \<open>best_priority\<close> and \<open>best_ids\<close>.\<close>

definition mask_step ::
    "ServiceContract list \<Rightarrow> u64 \<Rightarrow> u64 \<Rightarrow> reference_best \<Rightarrow> reference_best" where
  "mask_step cs capacity msk best =
     (case subset_loop msk 0 cs 0 0 0 [] of
        None \<Rightarrow> best
      | Some (weight, served, priority, ids) \<Rightarrow>
          if weight > capacity then best
          else (case best of (best_count, best_priority, best_ids) \<Rightarrow>
                  if served > best_count \<or> (served = best_count \<and> priority > best_priority) \<or>
                     (served = best_count \<and> priority = best_priority \<and> vec_less ids best_ids)
                  then (served, priority, ids) else best))"

definition reference_solve_rigid :: "AllocationRequest \<Rightarrow> u64 \<Rightarrow> ReferenceSolution result" where
  "reference_solve_rigid req max_subsets =
     (case (ar_capability req, ar_policy req) of
        (Some cap, Some _) \<Rightarrow>
          let cs = sort_by contract_id_less (filter (candidate req cap) (ar_contracts req));
              n = length cs
          in if n \<ge> 63 then Inl EC_SearchLimitReached
             else if (2 :: u64) ^ n > max_subsets then Inl EC_SearchLimitReached
             else (case fold (mask_step cs (cs_bandwidth_kbps cap)) (map of_nat [0..<2 ^ n]) (0, 0, []) of
                     (best_count, best_priority, best_ids) \<Rightarrow>
                       Inr \<lparr>rf_served_count = best_count, rf_priority_sum = best_priority,
                         rf_served = best_ids, rf_complete = True, rf_subsets_examined = 2 ^ n\<rparr>)
      | _ \<Rightarrow> Inl EC_InvalidArgument)"

section \<open>One mask\<close>

text \<open>The candidates a mask selects.\<close>

fun chosen :: "nat \<Rightarrow> nat \<Rightarrow> 'a list \<Rightarrow> 'a list" where
  "chosen m i [] = []"
| "chosen m i (c # cs) = (if bit m i then c # chosen m (Suc i) cs else chosen m (Suc i) cs)"

lemma chosen_subseq: "subseq (chosen m i cs) cs"
  by (induction cs arbitrary: i) auto

lemma chosen_filter:
  "(\<And>j. j < length cs \<Longrightarrow> bit m (i + j) = P (cs ! j)) \<Longrightarrow> chosen m i cs = filter P cs"
proof (induction cs arbitrary: i)
  case (Cons c cs)
  have "bit m i = P c"
    using Cons.prems [of 0] by simp
  moreover have "chosen m (Suc i) cs = filter P cs"
  proof (rule Cons.IH)
    show "bit m (Suc i + j) = P (cs ! j)" if "j < length cs" for j
      using Cons.prems [of "Suc j"] that by simp
  qed
  ultimately show ?case by simp
qed simp

lemma chosen_every_subset: "\<exists>m < 2 ^ length cs. chosen m 0 cs = filter P cs"
proof (intro exI conjI)
  let ?m = "horner_sum of_bool 2 (map P cs) :: nat"
  show "?m < 2 ^ length cs"
    using horner_sum_of_bool_2_less [of "map P cs"] by simp
  show "chosen ?m 0 cs = filter P cs"
    by (rule chosen_filter) (simp add: bit_horner_sum_bit_iff)
qed

definition list_demand :: "ServiceContract list \<Rightarrow> nat" where
  "list_demand cs = sum_list (map (\<lambda>c. unat (bandwidth_demand c)) cs)"

definition list_priority :: "ServiceContract list \<Rightarrow> nat" where
  "list_priority cs = sum_list (map (\<lambda>c. unat (sc_priority c)) cs)"

lemma list_sums_simps [simp]:
  "list_demand [] = 0" "list_demand (c # cs) = unat (bandwidth_demand c) + list_demand cs"
  "list_priority [] = 0" "list_priority (c # cs) = unat (sc_priority c) + list_priority cs"
  by (simp_all add: list_demand_def list_priority_def)

text \<open>Without overflow one mask yields the exact sums of its selection.\<close>

lemma subset_loop_exact:
  assumes "m < 2 ^ 63" and "i + length cs \<le> 63"
    and "unat weight + list_demand cs < 2 ^ 64" and "unat priority + list_priority cs < 2 ^ 64"
    and "unat served + length cs < 2 ^ 64"
  shows "\<exists>w s p ids'. subset_loop (of_nat m) i cs weight served priority ids = Some (w, s, p, ids') \<and>
    unat w = unat weight + list_demand (chosen m i cs) \<and> unat s = unat served + length (chosen m i cs) \<and>
    unat p = unat priority + list_priority (chosen m i cs)"
  using assms(2-)
proof (induction cs arbitrary: i weight served priority ids)
  case (Cons c cs)
  have bit: "bit (of_nat m :: u64) i = bit m i"
    using Cons.prems(1) by (simp add: bit_of_nat_iff)
  show ?case
  proof (cases "bit m i")
    case False
    then show ?thesis
      using Cons.IH [of "Suc i" weight priority served ids] Cons.prems bit by simp
  next
    case True
    obtain w where w: "checked_add weight (bandwidth_demand c) = Some w"
      using checked_add_None_iff [of weight "bandwidth_demand c"] Cons.prems(2) by fastforce
    then have wv: "unat w = unat weight + unat (bandwidth_demand c)"
      by (simp only: checked_add_Some_iff)
    obtain p where p: "checked_add priority (ucast (sc_priority c)) = Some p"
      using checked_add_None_iff [of priority "ucast (sc_priority c)"] Cons.prems(3) by fastforce
    then have pv: "unat p = unat priority + unat (sc_priority c)"
      by (simp only: checked_add_Some_iff unat_ucast_u32_u64)
    have sv: "unat (served + 1) = unat served + 1"
      using Cons.prems(4) by (intro unat_plus_one) simp
    show ?thesis
      using Cons.IH [of "Suc i" w p "served + 1" "ids @ [sc_id c]"] Cons.prems True bit w p wv pv sv
      by (simp add: add.assoc)
  qed
qed simp

section \<open>All masks\<close>

definition covers :: "ServiceContract list \<Rightarrow> u64 \<Rightarrow> nat list \<Rightarrow> reference_best \<Rightarrow> bool" where
  "covers cs capacity ms best \<longleftrightarrow> (case best of (cnt, priority, ids) \<Rightarrow>
     (\<exists>ys. subseq ys cs \<and> list_demand ys \<le> unat capacity \<and> unat cnt = length ys \<and> unat priority = list_priority ys) \<and>
     (\<forall>m \<in> set ms. list_demand (chosen m 0 cs) \<le> unat capacity \<longrightarrow>
        length (chosen m 0 cs) < unat cnt \<or>
        length (chosen m 0 cs) = unat cnt \<and> list_priority (chosen m 0 cs) \<le> unat priority))"

lemma mask_step_covers:
  assumes "covers cs capacity ms best" and "m < 2 ^ 63" and "length cs \<le> 63"
    and "list_demand cs < 2 ^ 64" and "list_priority cs < 2 ^ 64"
  shows "covers cs capacity (ms @ [m]) (mask_step cs capacity (of_nat m) best)"
proof -
  obtain w s p ids where loop: "subset_loop (of_nat m) 0 cs 0 0 0 [] = Some (w, s, p, ids)"
      "unat w = list_demand (chosen m 0 cs)" "unat s = length (chosen m 0 cs)" "unat p = list_priority (chosen m 0 cs)"
    using subset_loop_exact [of m 0 cs 0 0 0 "[]"] assms by auto
  obtain cnt priority best_ids where best: "best = (cnt, priority, best_ids)"
    by (cases best)
  show ?thesis
    using assms(1) chosen_subseq [of m 0 cs]
    unfolding covers_def mask_step_def loop(1) best
    by (auto simp: loop(2-) word_less_nat_alt word_unat_eq_iff [of s] word_unat_eq_iff [of p] not_less)
qed

lemma mask_loop_covers:
  assumes "list_all (\<lambda>m. m < 2 ^ 63) ms" and "length cs \<le> 63" and "list_demand cs < 2 ^ 64" and "list_priority cs < 2 ^ 64"
  shows "covers cs capacity ms (fold (mask_step cs capacity) (map of_nat ms) (0, 0, []))"
  using assms(1)
proof (induction ms rule: rev_induct)
  case Nil
  have "subseq [] cs \<and> list_demand [] \<le> unat capacity \<and> unat (0 :: u64) = length ([] :: ServiceContract list) \<and>
      unat (0 :: u64) = list_priority []"
    by simp
  then show ?case
    unfolding covers_def by (auto intro: exI [of _ "[]"])
next
  case (snoc m ms)
  then show ?case
    using mask_step_covers [OF _ _ assms(2-)] by simp
qed

lemma subset_sums:
  assumes "distinct cs"
  shows "length cs = card (set cs)" "list_demand cs = demand_of (set cs)" "list_priority cs = priority_of (set cs)"
  using assms by (simp_all add: distinct_card list_demand_def list_priority_def sum.distinct_set_conv_list)

text \<open>The mask loop over all subsets returns the optimum over all subsets that fit.\<close>

lemma reference_optimum:
  assumes "fold (mask_step cs capacity) (map of_nat [0..<2 ^ length cs]) (0, 0, []) = (cnt, priority, ids)"
    and "distinct cs" and "length cs < 63" and "list_demand cs < 2 ^ 64" and "list_priority cs < 2 ^ 64"
  shows "\<exists>S \<subseteq> set cs. demand_of S \<le> unat capacity \<and> unat cnt = card S \<and> unat priority = priority_of S \<and>
    (\<forall>T \<subseteq> set cs. demand_of T \<le> unat capacity \<longrightarrow> no_better T S)"
proof -
  have "m < 2 ^ 63" if "m < 2 ^ length cs" for m :: nat
  proof -
    have "(2 :: nat) ^ length cs \<le> 2 ^ 63"
      using assms(3) by (intro power_increasing) simp_all
    then show ?thesis
      using that by linarith
  qed
  then have "list_all (\<lambda>m. m < 2 ^ 63) [0..<2 ^ length cs]"
    by (simp add: list_all_iff)
  from mask_loop_covers [OF this _ assms(4,5), of capacity] assms(1,3)
  have cov: "covers cs capacity [0..<2 ^ length cs] (cnt, priority, ids)"
    by simp
  then obtain ys where ys: "subseq ys cs" "list_demand ys \<le> unat capacity" "unat cnt = length ys" "unat priority = list_priority ys"
    by (auto simp: covers_def)
  have all: "length (chosen m 0 cs) < unat cnt \<or>
      length (chosen m 0 cs) = unat cnt \<and> list_priority (chosen m 0 cs) \<le> unat priority"
    if "m < 2 ^ length cs" "list_demand (chosen m 0 cs) \<le> unat capacity" for m
    using cov that by (simp add: covers_def)
  have dist: "distinct ys"
    using subseq_filter_key [OF ys(1), of "\<lambda>x. x"] assms(2) by (metis distinct_filter list.map_ident)
  have "no_better T (set ys)" if T: "T \<subseteq> set cs" "demand_of T \<le> unat capacity" for T
  proof -
    obtain m where m: "m < 2 ^ length cs" "chosen m 0 cs = filter (\<lambda>c. c \<in> T) cs"
      using chosen_every_subset by blast
    have "set (filter (\<lambda>c. c \<in> T) cs) = T"
      using T(1) by auto
    then have sums: "length (chosen m 0 cs) = card T" "list_demand (chosen m 0 cs) = demand_of T"
        "list_priority (chosen m 0 cs) = priority_of T"
      using subset_sums [of "filter (\<lambda>c. c \<in> T) cs"] assms(2) m(2) by simp_all
    then have "card T < unat cnt \<or> card T = unat cnt \<and> priority_of T \<le> unat priority"
      using all [OF m(1)] T(2) by simp
    then show ?thesis
      using ys(3,4) subset_sums [OF dist] by (simp add: no_better_def)
  qed
  then show ?thesis
    using ys subset_sums [OF dist] subseq_subset [OF ys(1)] by (intro exI [of _ "set ys"]) simp
qed

section \<open>Agreement with the allocator\<close>

text \<open>Where the policy has a profile for its class, a candidate of the reference solver is a servable
  contract of the allocator, and conversely.\<close>

lemma envelope_exists:
  assumes "Policy_validate p = EC_Ok" and "ServiceContract_validate c = EC_Ok"
    and "class_profile p (sc_service_class c) \<noteq> None"
  shows "\<exists>env. effective_envelope p c = Inr env"
proof -
  obtain q where q: "class_profile p (sc_service_class c) = Some q"
    using assms(3) by blast
  have "env_invar (cp_ceiling q)" and "env_invar (sc_envelope c)"
    using policy_ok_profile [OF assms(1) q] contract_ok_envelope [OF assms(2)]
    by (simp_all add: validate_envelope_against_ok)
  then obtain e where "compose_envelopes (sc_envelope c) (cp_ceiling q) (po_max_concessions_per_contract p) = Inr e"
    using compose_correct by blast
  then show ?thesis
    using q by (simp add: effective_envelope_def)
qed

lemma candidate_servable:
  assumes "Policy_validate p = EC_Ok" and "sc_scope c = ar_scope req \<and> sc_active c \<Longrightarrow> ServiceContract_validate c = EC_Ok"
    and "is_rigid c \<Longrightarrow> class_profile p (sc_service_class c) \<noteq> None"
  shows "candidate req cap c \<longleftrightarrow> servable req cap p c"
  using envelope_exists [of p c] assms
  by (auto simp: candidate_def servable_def full_service_supported_def split: sum.split)

lemma assessments_valid:
  assumes "list_all2 (assessment_of req cap p) cs as" and "c \<in> set cs" and "sc_scope c = ar_scope req \<and> sc_active c"
  shows "ServiceContract_validate c = EC_Ok"
proof -
  obtain a where "assessment_of req cap p c a"
    using assms(1,2) by (metis in_set_conv_nth list_all2_conv_all_nth)
  then show ?thesis
    using assms(3) by (simp add: assessment_of_def)
qed

lemma candidate_sums:
  assumes "\<And>c. c \<in> set cs \<Longrightarrow> ServiceContract_validate c = EC_Ok" and "length cs < 63"
  shows "list_demand cs < 2 ^ 64" "list_priority cs < 2 ^ 64"
proof -
  have "unat (bandwidth_demand c) \<le> 1000000000" and "unat (sc_priority c) \<le> 1000000" if "c \<in> set cs" for c
    using bandwidth_demand_le [OF contract_ok_invar [OF assms(1) [OF that]]] assms(1) [OF that]
    by (simp_all add: kMaxBandwidthKbps_def kMaxServicePriority_def word_le_nat_alt contract_ok_iff)
  then have "list_demand cs \<le> length cs * 1000000000" and "list_priority cs \<le> length cs * 1000000"
    unfolding list_demand_def list_priority_def by (auto intro!: sum_list_bound)
  then show "list_demand cs < 2 ^ 64" and "list_priority cs < 2 ^ 64"
    using assms(2) by simp_all
qed

lemma no_better_antisym: "no_better S T \<Longrightarrow> no_better T S \<Longrightarrow> card S = card T \<and> priority_of S = priority_of T"
  by (auto simp: no_better_def)

text \<open>What the reference solver computes: the optimum over all sets of candidates that fit.\<close>

lemma reference_solution_optimum:
  assumes "reference_solve_rigid req max_subsets = Inr sol" and "ar_capability req = Some cap"
    and "distinct (ar_contracts req)"
  shows "\<exists>S \<subseteq> {c \<in> set (ar_contracts req). candidate req cap c}. demand_of S \<le> unat (cs_bandwidth_kbps cap) \<and>
    unat (rf_served_count sol) = card S \<and> unat (rf_priority_sum sol) = priority_of S \<and>
    (\<forall>T \<subseteq> {c \<in> set (ar_contracts req). candidate req cap c}.
       demand_of T \<le> unat (cs_bandwidth_kbps cap) \<longrightarrow> no_better T S)"
proof -
  define cs where "cs = sort_by contract_id_less (filter (candidate req cap) (ar_contracts req))"
  have set: "set cs = {c \<in> set (ar_contracts req). candidate req cap c}"
    by (auto simp: cs_def)
  have "distinct (map (\<lambda>c. c) cs)"
    using assms(3) unfolding cs_def by (simp only: distinct_map_sort_by) simp
  then have dist: "distinct cs"
    by simp
  obtain best_ids where run: "length cs < 63"
      "fold (mask_step cs (cs_bandwidth_kbps cap)) (map of_nat [0..<2 ^ length cs]) (0, 0, []) =
        (rf_served_count sol, rf_priority_sum sol, best_ids)"
    using assms(1,2)
    by (auto simp: reference_solve_rigid_def Let_def cs_def [symmetric] split: option.splits if_splits prod.splits)
  have "ServiceContract_validate c = EC_Ok" if "c \<in> set cs" for c
    using that by (simp add: set candidate_def full_service_supported_def)
  note bounds = candidate_sums [OF this run(1)]
  show ?thesis
    using reference_optimum [OF run(2) dist run(1) bounds] unfolding set .
qed

text \<open>
  C16. The production allocator agrees with the exhaustive reference solver. Whenever an allocation of at
  most 18000 contracts is reported optimal, the reference solver answers for the same request, and the
  policy has a profile for the class of every rigid contract, both serve the same number of rigid
  contracts with the same priority sum. (Without a profile the allocator refuses a contract that
  the reference solver still counts.)
\<close>

theorem reference_solver_agrees:
  assumes "allocate_scope req = Inr plan" and "ap_status plan = PS_Optimal"
    and "reference_solve_rigid req max_subsets = Inr sol"
    and "length (ar_contracts req) \<le> 18000"
    and "ar_capability req = Some cap" and "ar_policy req = Some p"
    and "\<And>c. c \<in> set (ar_contracts req) \<Longrightarrow> is_rigid c \<Longrightarrow> class_profile p (sc_service_class c) \<noteq> None"
  shows "unat (rf_served_count sol) = card (served_rigid req plan) \<and>
    unat (rf_priority_sum sol) = priority_of (served_rigid req plan)"
proof -
  obtain cs as where run: "cs = sort_by contract_id_less (ar_contracts req)" "distinct (map sc_id cs)"
      "Policy_validate p = EC_Ok" "list_all2 (assessment_of req cap p) cs as"
      "(\<exists>certificate. plan = infeasible_plan req (base_plan req cap p) certificate (early_entries req cs) cs) \<or>
       finish_plan req cap p (base_plan req cap p) (early_entries req cs) as = Inr plan"
    using allocate_scope_run [OF assms(1)] assms(5,6) by (metis option.inject)
  have cs: "set cs = set (ar_contracts req)" "length cs \<le> 18000" "length cs < 2 ^ 32"
    using run(1) assms(4) by simp_all
  have fin: "finish_plan req cap p (base_plan req cap p) (early_entries req cs) as = Inr plan"
    using run(5) assms(2) by (auto simp: infeasible_plan_def)
  have "distinct (map sc_id (ar_contracts req))"
    using run(1,2) by simp
  then have dist: "distinct (ar_contracts req)"
    by (simp add: distinct_map)
  have "candidate req cap c \<longleftrightarrow> servable req cap p c" if "c \<in> set (ar_contracts req)" for c
    using candidate_servable [OF run(3)] assms(7) [OF that] assessments_valid [OF run(4)] that cs(1) by blast
  then have cands: "{c \<in> set (ar_contracts req). candidate req cap c} = set (filter (servable req cap p) cs)"
    using cs(1) by auto
  obtain S where S: "S \<subseteq> set (filter (servable req cap p) cs)" "demand_of S \<le> unat (cs_bandwidth_kbps cap)"
      "unat (rf_served_count sol) = card S" "unat (rf_priority_sum sol) = priority_of S"
      "\<forall>T \<subseteq> set (filter (servable req cap p) cs). demand_of T \<le> unat (cs_bandwidth_kbps cap) \<longrightarrow> no_better T S"
    using reference_solution_optimum [OF assms(3,5) dist] unfolding cands by blast
  have "served_rigid req plan \<subseteq> set (filter (servable req cap p) cs)"
      "demand_of (served_rigid req plan) \<le> unat (cs_bandwidth_kbps cap)"
    by (rule finish_plan_served [OF fin run(4,2) cs(1,3)]; blast)+
  then have "no_better (served_rigid req plan) S"
    using S(5) by blast
  moreover have "no_better S (served_rigid req plan)"
    by (rule finish_plan_optimal [OF fin run(4,2) cs(1,2) assms(2) S(1,2)])
  ultimately show ?thesis
    using no_better_antisym S(3,4) by metis
qed


theorem reference_solver_agrees_witness:
  "\<exists>sol. reference_solve_rigid sample_request 16 = Inr sol \<and>
     unat (rf_served_count sol) = card (served_rigid sample_request sample_plan)"
proof -
  have sol: "reference_solve_rigid sample_request 16 =
      Inr \<lparr>rf_served_count = 1, rf_priority_sum = 5, rf_served = [1], rf_complete = True, rf_subsets_examined = 2\<rparr>"
    by code_simp
  have "class_profile planning_policy (sc_service_class c) \<noteq> None" if "c \<in> set (ar_contracts sample_request)" for c
    using that by (auto simp: sample_request_def class_profile_def planning_policy_def sample_policy_def
        rigid_contract_def flexible_contract_def sample_contract_def)
  moreover have "ap_status sample_plan = PS_Optimal"
    by (simp add: sample_plan_def)
  ultimately show ?thesis
    using reference_solver_agrees [OF sample_allocation _ sol _ sample_request_fields(1,2)] sol
      sample_request_fields(6) by auto
qed

end
