(* ===== verification/Validator.thy ===== *)
theory Validator
  imports Reference_Solver
begin

text \<open>
  Independent plan validation: \<open>src/engine/validator.cpp\<close>. A report is a record; \<open>flag\<close> is the guarded call
  of \<open>report\<close> the source writes for every check. The detail text of an issue is not modelled, and a
  request carries no null contract.
\<close>

section \<open>The validator\<close>

record ValidationIssue =
  vi_contract :: u64
  vi_reason :: ReasonCode

record ValidationReport =
  vr_valid :: bool
  vr_entries_checked :: u64
  vr_violations :: u64
  vr_issues :: "ValidationIssue list"

definition new_report :: ValidationReport where
  "new_report = \<lparr>vr_valid = False, vr_entries_checked = 0, vr_violations = 0, vr_issues = []\<rparr>"

definition report :: "u64 \<Rightarrow> ReasonCode \<Rightarrow> ValidationReport \<Rightarrow> ValidationReport" where
  "report c reason r = r\<lparr>vr_issues := vr_issues r @ [\<lparr>vi_contract = c, vi_reason = reason\<rparr>],
     vr_violations := vr_violations r + 1\<rparr>"

definition flag :: "bool \<Rightarrow> u64 \<Rightarrow> ReasonCode \<Rightarrow> ValidationReport \<Rightarrow> ValidationReport" where
  "flag bad c reason r = (if bad then report c reason r else r)"

definition check_header ::
    "AllocationPlan \<Rightarrow> AllocationRequest \<Rightarrow> CapabilitySnapshot \<Rightarrow> ServiceContract list \<Rightarrow> ValidationReport \<Rightarrow>
     ValidationReport" where
  "check_header plan req cap expected r =
     (let r = flag (ap_scope plan \<noteq> ar_scope req) 0 RC_ScopeUnknown r;
          r = flag (ap_capacity_generation plan \<noteq> cs_generation cap) 0 RC_AuthorityGenerationChanged r;
          r = flag (ap_available_bandwidth_kbps plan \<noteq> cs_bandwidth_kbps cap) 0 RC_FabricCapabilityShortfall r;
          r = flag (ap_status plan = PS_ProvenInfeasible \<and> \<not> ic_valid (ap_certificate plan)) 0
                RC_ResourceExhausted r;
          r = flag (ap_status plan = PS_Optimal \<and> aw_budget_exhausted (ap_work plan)) 0
                RC_SearchLimitReached r
      in flag (length (ap_entries plan) \<noteq> length expected) 0 RC_ContractInvalid r)"

definition check_refused :: "AllocationEntry \<Rightarrow> ValidationReport \<Rightarrow> ValidationReport" where
  "check_refused e r =
     (let c = ae_contract e;
          r = flag (ae_approved e \<noteq> []) c RC_ContractInvalid r;
          r = flag (ae_allocated_bandwidth_kbps e \<noteq> 0) c RC_ContractInvalid r
      in flag (is_authorising (ae_outcome e)) c RC_ContractInvalid r)"

text \<open>The checks of an admitted entry up to the bandwidth accounting.\<close>

definition check_admitted ::
    "Policy \<Rightarrow> ServiceContract \<Rightarrow> AllocationEntry \<Rightarrow> ValidationReport \<Rightarrow> ValidationReport" where
  "check_admitted p c e r =
     (let i = ae_contract e;
          original = sc_original c;
          r = flag (classify_weakening original (ae_approved e) \<noteq> WR_WeakensOrEquals) i
                RC_PolicyEnvelopeExceeded r;
          r = (case compute_delta original (ae_approved e) RC_ConcessionWithinEnvelope of
                 Inr d \<Rightarrow> flag (GuaranteeDelta_digest d \<noteq> GuaranteeDelta_digest (ae_delta e)) i
                            RC_ContractInvalid r
               | Inl _ \<Rightarrow> report i RC_ContractInvalid r);
          r = (case effective_envelope p c of
                 Inl _ \<Rightarrow> report i RC_PolicyNoRule r
               | Inr env \<Rightarrow> flag (\<not> permits env original (ae_approved e)) i RC_PolicyEnvelopeExceeded r);
          r = flag (is_rigid c \<and> \<not> GuaranteeDelta_empty (ae_delta e)) i RC_ProtectedObligationUnmet r;
          r = flag (ae_full e \<noteq> GuaranteeDelta_empty (ae_delta e)) i RC_ContractInvalid r;
          r = flag (ae_allocated_bandwidth_kbps e > bandwidth_demand c) i RC_ContractInvalid r
      in flag (ae_allocated_bandwidth_kbps e \<noteq> 0 \<and> ae_allocated_bandwidth_kbps e < bandwidth_floor c) i
           RC_ResourceExhausted r)"

text \<open>One iteration of the entry loop; \<open>prev\<close> is \<open>previous_id\<close>, absent on the first entry.\<close>

definition check_entry ::
    "Policy \<Rightarrow> ServiceContract list \<Rightarrow> u64 option \<Rightarrow> AllocationEntry \<Rightarrow> u64 \<times> ValidationReport \<Rightarrow>
     u64 \<times> ValidationReport" where
  "check_entry p expected prev e s =
     (case s of (tot, r) \<Rightarrow>
        let i = ae_contract e;
            r = r\<lparr>vr_entries_checked := vr_entries_checked r + 1\<rparr>;
            r = flag (case prev of None \<Rightarrow> False | Some q \<Rightarrow> i \<le> q) i RC_ContractInvalid r
        in case find_ptr (\<lambda>c. sc_id c = i) expected of
             None \<Rightarrow> (tot, report i RC_ContractInvalid r)
           | Some c \<Rightarrow>
               let r = flag (ae_contract_generation e \<noteq> sc_generation c) i RC_ContractGenerationChanged r;
                   r = flag (ae_scope e \<noteq> sc_scope c) i RC_ScopeUnknown r
               in if \<not> ae_admitted e then (tot, check_refused e r)
                  else let r = check_admitted p c e r
                       in (case checked_add tot (ae_allocated_bandwidth_kbps e) of
                             None \<Rightarrow> (u64_max, report i RC_ArithmeticOverflow r)
                           | Some t \<Rightarrow> (t, r)))"

fun check_entries ::
    "Policy \<Rightarrow> ServiceContract list \<Rightarrow> u64 option \<Rightarrow> AllocationEntry list \<Rightarrow> u64 \<times> ValidationReport \<Rightarrow>
     u64 \<times> ValidationReport" where
  "check_entries p expected prev [] s = s"
| "check_entries p expected prev (e # es) s =
     check_entries p expected (Some (ae_contract e)) es (check_entry p expected prev e s)"

definition validate_plan :: "AllocationPlan \<Rightarrow> AllocationRequest \<Rightarrow> ValidationReport" where
  "validate_plan plan req =
     (case (ar_policy req, ar_capability req) of
        (Some p, Some cap) \<Rightarrow>
          let expected = sort_by contract_id_less (ar_contracts req);
              r = check_header plan req cap expected new_report;
              (tot, r) = check_entries p expected None (ap_entries plan) (0, r);
              r = flag (tot > ap_available_bandwidth_kbps plan) 0 RC_ResourceExhausted r;
              r = flag (ap_allocated_bandwidth_kbps plan \<noteq> tot) 0 RC_ArithmeticOverflow r
          in r\<lparr>vr_valid := (vr_violations r = 0)\<rparr>
      | _ \<Rightarrow> report 0 RC_ContractInvalid new_report)"

section \<open>Counting the issues\<close>

lemma flag_Nil [simp]: "vr_issues (flag bad c reason r) = [] \<longleftrightarrow> \<not> bad \<and> vr_issues r = []"
  by (simp add: flag_def report_def)

lemma report_not_Nil [simp]: "vr_issues (report c reason r) \<noteq> []"
  by (simp add: report_def)

lemma issues_checked [simp]: "vr_issues (r\<lparr>vr_entries_checked := n\<rparr>) = vr_issues r"
  "vr_violations (r\<lparr>vr_entries_checked := n\<rparr>) = vr_violations r"
  by simp_all

text \<open>The counter follows the list, and a step adds at most \<open>k\<close> issues.\<close>

definition adds :: "nat \<Rightarrow> ValidationReport \<Rightarrow> ValidationReport \<Rightarrow> bool" where
  "adds k r r' \<longleftrightarrow> length (vr_issues r') \<le> length (vr_issues r) + k \<and>
     (vr_violations r = of_nat (length (vr_issues r)) \<longrightarrow> vr_violations r' = of_nat (length (vr_issues r')))"

lemma adds_refl: "adds k r r"
  by (simp add: adds_def)

lemma adds_report: "0 < k \<Longrightarrow> adds (k - 1) r x \<Longrightarrow> adds k r (report c reason x)"
  by (auto simp: adds_def report_def)

lemma adds_mono: "adds j r x \<Longrightarrow> j \<le> k \<Longrightarrow> adds k r x"
  by (simp add: adds_def)

lemma adds_flag: "0 < k \<Longrightarrow> adds (k - 1) r x \<Longrightarrow> adds k r (flag bad c reason x)"
  using adds_report [of k r x] adds_mono [of "k - 1" r x k] by (simp add: flag_def)

lemma adds_trans: "adds j r r' \<Longrightarrow> adds k r' r'' \<Longrightarrow> adds (j + k) r r''"
  by (simp add: adds_def)

lemma adds_checked: "adds k r x \<Longrightarrow> adds k r (x\<lparr>vr_entries_checked := n\<rparr>)"
  by (simp add: adds_def)

lemmas adds_intros = adds_flag adds_report adds_checked adds_refl

lemma check_header_adds: "adds 6 r (check_header plan req cap expected r)"
  unfolding check_header_def Let_def by (intro adds_intros) simp_all

lemma check_refused_adds: "adds 3 r (check_refused e r)"
  unfolding check_refused_def Let_def by (intro adds_intros) simp_all

lemma check_admitted_adds: "adds 7 r (check_admitted p c e r)"
  unfolding check_admitted_def Let_def
  by (cases "compute_delta (sc_original c) (ae_approved e) RC_ConcessionWithinEnvelope";
      cases "effective_envelope p c"; simp; intro adds_intros; simp)

lemma check_entry_adds:
  assumes "check_entry p expected prev e (tot, r) = (tot', r')"
  shows "adds 11 r r'"
proof -
  define r1 where "r1 = flag (case prev of None \<Rightarrow> False | Some q \<Rightarrow> ae_contract e \<le> q) (ae_contract e) RC_ContractInvalid
    (r\<lparr>vr_entries_checked := vr_entries_checked r + 1\<rparr>)"
  have r1: "adds 1 r r1"
    unfolding r1_def by (intro adds_intros) simp_all
  show ?thesis
  proof (cases "find_ptr (\<lambda>c. sc_id c = ae_contract e) expected")
    case None
    then have "r' = report (ae_contract e) RC_ContractInvalid r1"
      using assms by (simp add: check_entry_def r1_def Let_def)
    then show ?thesis
      using adds_trans [OF r1, of 10 r'] by (simp add: adds_intros)
  next
    case (Some c)
    define r2 where "r2 = flag (ae_scope e \<noteq> sc_scope c) (ae_contract e) RC_ScopeUnknown
      (flag (ae_contract_generation e \<noteq> sc_generation c) (ae_contract e) RC_ContractGenerationChanged r1)"
    have r2: "adds 3 r r2"
    proof -
      have "adds 2 r1 r2"
        unfolding r2_def by (intro adds_intros) simp_all
      from adds_trans [OF r1 this] show ?thesis by (simp add: numeral_3_eq_3)
    qed
    have "r' = check_refused e r2 \<or> r' = check_admitted p c e r2 \<or>
        r' = report (ae_contract e) RC_ArithmeticOverflow (check_admitted p c e r2)"
      using assms Some by (auto simp: check_entry_def r1_def r2_def Let_def split: if_splits option.splits)
    moreover have "adds 11 r (report (ae_contract e) RC_ArithmeticOverflow (check_admitted p c e r2))"
      using adds_trans [OF r2 check_admitted_adds [of r2 p c e]] by (intro adds_report) simp_all
    moreover have "adds 11 r (check_refused e r2)" and "adds 11 r (check_admitted p c e r2)"
      using adds_trans [OF r2 check_refused_adds [of r2 e]] adds_trans [OF r2 check_admitted_adds [of r2 p c e]]
      by (simp_all add: adds_def)
    ultimately show ?thesis by blast
  qed
qed

lemma check_entries_adds:
  "check_entries p expected prev es (tot, r) = (tot', r') \<Longrightarrow> adds (11 * length es) r r'"
proof (induction es arbitrary: prev tot r)
  case (Cons e es)
  obtain t x where x: "check_entry p expected prev e (tot, r) = (t, x)"
    by (cases "check_entry p expected prev e (tot, r)")
  then show ?case
    using Cons adds_trans [OF check_entry_adds [OF x]] by fastforce
qed (simp add: adds_refl)

text \<open>A plan is valid exactly when no check reported anything.\<close>

lemma validate_plan_valid_iff:
  assumes "ar_policy req = Some p" and "ar_capability req = Some cap" and "length (ap_entries plan) < 2 ^ 32"
    and "check_entries p (sort_by contract_id_less (ar_contracts req)) None (ap_entries plan)
      (0, check_header plan req cap (sort_by contract_id_less (ar_contracts req)) new_report) = (tot, r)"
  shows "vr_valid (validate_plan plan req) \<longleftrightarrow> vr_issues r = [] \<and>
    tot \<le> ap_available_bandwidth_kbps plan \<and> ap_allocated_bandwidth_kbps plan = tot"
proof -
  define r' where "r' = flag (ap_allocated_bandwidth_kbps plan \<noteq> tot) 0 RC_ArithmeticOverflow
    (flag (tot > ap_available_bandwidth_kbps plan) 0 RC_ResourceExhausted r)"
  have valid: "vr_valid (validate_plan plan req) \<longleftrightarrow> vr_violations r' = 0"
    by (simp add: validate_plan_def assms(1,2,4) Let_def r'_def)
  have "adds (6 + 11 * length (ap_entries plan)) new_report r"
    using adds_trans [OF check_header_adds check_entries_adds [OF assms(4)]] .
  moreover have "adds 2 r r'"
    unfolding r'_def by (intro adds_intros) simp_all
  ultimately have "adds (6 + 11 * length (ap_entries plan) + 2) new_report r'"
    by (rule adds_trans)
  then have count: "vr_violations r' = of_nat (length (vr_issues r'))" and "length (vr_issues r') < 2 ^ 64"
    using assms(3) by (simp_all add: adds_def new_report_def)
  then have "unat (vr_violations r') = length (vr_issues r')"
    by (simp add: unat_of_nat take_bit_nat_eq_self)
  then have "vr_violations r' = 0 \<longleftrightarrow> vr_issues r' = []"
    by (metis length_0_conv unat_eq_0)
  then show ?thesis
    unfolding valid by (auto simp: r'_def not_less)
qed

section \<open>What the checks say\<close>

definition admitted_valid :: "Policy \<Rightarrow> ServiceContract \<Rightarrow> AllocationEntry \<Rightarrow> bool" where
  "admitted_valid p c e \<longleftrightarrow>
     (\<exists>d. compute_delta (sc_original c) (ae_approved e) RC_ConcessionWithinEnvelope = Inr d \<and>
        GuaranteeDelta_digest d = GuaranteeDelta_digest (ae_delta e)) \<and>
     (\<exists>env. effective_envelope p c = Inr env \<and> permits env (sc_original c) (ae_approved e)) \<and>
     (is_rigid c \<longrightarrow> GuaranteeDelta_empty (ae_delta e)) \<and> ae_full e = GuaranteeDelta_empty (ae_delta e) \<and>
     ae_allocated_bandwidth_kbps e \<le> bandwidth_demand c \<and>
     (ae_allocated_bandwidth_kbps e \<noteq> 0 \<longrightarrow> bandwidth_floor c \<le> ae_allocated_bandwidth_kbps e)"

definition refused_valid :: "AllocationEntry \<Rightarrow> bool" where
  "refused_valid e \<longleftrightarrow> ae_approved e = [] \<and> ae_allocated_bandwidth_kbps e = 0 \<and> \<not> is_authorising (ae_outcome e)"

definition entry_valid :: "Policy \<Rightarrow> ServiceContract list \<Rightarrow> AllocationEntry \<Rightarrow> bool" where
  "entry_valid p expected e \<longleftrightarrow>
     (\<exists>c. find_ptr (\<lambda>c. sc_id c = ae_contract e) expected = Some c \<and>
        ae_contract_generation e = sc_generation c \<and> ae_scope e = sc_scope c \<and>
        (if ae_admitted e then admitted_valid p c e else refused_valid e))"

lemma check_refused_clean: "vr_issues (check_refused e r) = [] \<longleftrightarrow> vr_issues r = [] \<and> refused_valid e"
  by (auto simp: check_refused_def refused_valid_def Let_def)

lemma check_admitted_clean: "vr_issues (check_admitted p c e r) = [] \<longleftrightarrow> vr_issues r = [] \<and> admitted_valid p c e"
proof -
  have weak: "classify_weakening (sc_original c) (ae_approved e) = WR_WeakensOrEquals"
    if "compute_delta (sc_original c) (ae_approved e) RC_ConcessionWithinEnvelope = Inr d" for d
    using that by (simp add: compute_delta_Inr weakens_or_equals_def)
  show ?thesis
    by (cases "compute_delta (sc_original c) (ae_approved e) RC_ConcessionWithinEnvelope";
        cases "effective_envelope p c") (auto simp: check_admitted_def admitted_valid_def Let_def weak not_less)
qed

text \<open>Identities strictly increase from \<open>prev\<close> on.\<close>

definition after :: "u64 option \<Rightarrow> u64 \<Rightarrow> bool" where
  "after prev i = (case prev of None \<Rightarrow> True | Some q \<Rightarrow> q < i)"

definition alloc_sum :: "AllocationEntry list \<Rightarrow> nat" where
  "alloc_sum es = sum_list (map (\<lambda>e. unat (ae_allocated_bandwidth_kbps e)) es)"

lemma check_entry_clean:
  assumes "check_entry p expected prev e (tot, r) = (tot', r')"
  shows "vr_issues r' = [] \<longleftrightarrow> vr_issues r = [] \<and> after prev (ae_contract e) \<and> entry_valid p expected e \<and>
    unat tot + unat (ae_allocated_bandwidth_kbps e) < 2 ^ 64"
    and "vr_issues r' = [] \<Longrightarrow> unat tot' = unat tot + unat (ae_allocated_bandwidth_kbps e)"
proof -
  have prev: "(case prev of None \<Rightarrow> False | Some q \<Rightarrow> ae_contract e \<le> q) \<longleftrightarrow> \<not> after prev (ae_contract e)"
    by (simp add: after_def not_less split: option.split)
  have over: "checked_add tot (ae_allocated_bandwidth_kbps e) = None \<longleftrightarrow>
      \<not> unat tot + unat (ae_allocated_bandwidth_kbps e) < 2 ^ 64"
    unfolding checked_add_None_iff by (simp add: not_less)
  have bound: "unat tot < 2 ^ 64"
    using unat_u64_bound [of tot] by simp
  have "(vr_issues r' = [] \<longleftrightarrow> vr_issues r = [] \<and> after prev (ae_contract e) \<and> entry_valid p expected e \<and>
      unat tot + unat (ae_allocated_bandwidth_kbps e) < 2 ^ 64) \<and>
      (vr_issues r' = [] \<longrightarrow> unat tot' = unat tot + unat (ae_allocated_bandwidth_kbps e))"
  proof (cases "find_ptr (\<lambda>c. sc_id c = ae_contract e) expected")
    case None
    then show ?thesis
      using assms by (auto simp: check_entry_def entry_valid_def Let_def)
  next
    case (Some c)
    show ?thesis
    proof (cases "ae_admitted e")
      case False
      then show ?thesis
        using assms Some bound
        by (auto simp: check_entry_def entry_valid_def Let_def check_refused_clean prev refused_valid_def)
    next
      case True
      show ?thesis
      proof (cases "checked_add tot (ae_allocated_bandwidth_kbps e)")
        case None
        then show ?thesis
          using assms Some True over by (auto simp: check_entry_def Let_def)
      next
        case (Some t)
        then have "unat t = unat tot + unat (ae_allocated_bandwidth_kbps e)"
          by (simp only: checked_add_Some_iff)
        then show ?thesis
          using assms \<open>find_ptr _ expected = Some c\<close> True Some over
          by (auto simp: check_entry_def entry_valid_def Let_def check_admitted_clean prev)
      qed
    qed
  qed
  then show "vr_issues r' = [] \<longleftrightarrow> vr_issues r = [] \<and> after prev (ae_contract e) \<and> entry_valid p expected e \<and>
      unat tot + unat (ae_allocated_bandwidth_kbps e) < 2 ^ 64"
    and "vr_issues r' = [] \<Longrightarrow> unat tot' = unat tot + unat (ae_allocated_bandwidth_kbps e)"
    by blast+
qed

lemma alloc_sum_simps [simp]: "alloc_sum [] = 0"
  "alloc_sum (e # es) = unat (ae_allocated_bandwidth_kbps e) + alloc_sum es"
  by (simp_all add: alloc_sum_def)

lemma check_entries_clean:
  assumes "check_entries p expected prev es (tot, r) = (tot', r')"
  shows "(vr_issues r' = [] \<longleftrightarrow> vr_issues r = [] \<and> list_all (entry_valid p expected) es \<and>
      sorted_wrt (<) (map ae_contract es) \<and> (es \<noteq> [] \<longrightarrow> after prev (ae_contract (hd es))) \<and>
      unat tot + alloc_sum es < 2 ^ 64) \<and> (vr_issues r' = [] \<longrightarrow> unat tot' = unat tot + alloc_sum es)"
  using assms
proof (induction es arbitrary: prev tot r)
  case Nil
  then show ?case
    using unat_u64_bound [of tot] by auto
next
  case (Cons e es)
  obtain t x where x: "check_entry p expected prev e (tot, r) = (t, x)"
    by (cases "check_entry p expected prev e (tot, r)")
  note step = check_entry_clean [OF x]
  have ih: "vr_issues r' = [] \<longleftrightarrow> vr_issues x = [] \<and> list_all (entry_valid p expected) es \<and>
      sorted_wrt (<) (map ae_contract es) \<and> (es \<noteq> [] \<longrightarrow> ae_contract e < ae_contract (hd es)) \<and>
      unat t + alloc_sum es < 2 ^ 64" and tot': "vr_issues r' = [] \<longrightarrow> unat tot' = unat t + alloc_sum es"
    using Cons.IH [of "Some (ae_contract e)" t x] Cons.prems x by (simp_all add: after_def)
  have sorted: "sorted_wrt (<) (map ae_contract (e # es)) \<longleftrightarrow>
      sorted_wrt (<) (map ae_contract es) \<and> (es \<noteq> [] \<longrightarrow> ae_contract e < ae_contract (hd es))"
    by (cases es) (auto intro: less_trans)
  show ?case
  proof (cases "vr_issues x = []")
    case True
    then have "unat t = unat tot + unat (ae_allocated_bandwidth_kbps e)"
      by (rule step(2))
    then show ?thesis
      using True step(1) ih tot' sorted by (simp add: add.assoc)
  next
    case False
    then have "\<not> (vr_issues r = [] \<and> after prev (ae_contract e) \<and> entry_valid p expected e \<and>
        unat tot + alloc_sum (e # es) < 2 ^ 64)"
      using step(1) by auto
    then show ?thesis
      using False ih by auto
  qed
qed

section \<open>Soundness\<close>

lemma check_header_clean:
  "vr_issues (check_header plan req cap expected new_report) = [] \<longleftrightarrow>
   ap_scope plan = ar_scope req \<and> ap_capacity_generation plan = cs_generation cap \<and>
   ap_available_bandwidth_kbps plan = cs_bandwidth_kbps cap \<and>
   (ap_status plan = PS_ProvenInfeasible \<longrightarrow> ic_valid (ap_certificate plan)) \<and>
   (ap_status plan = PS_Optimal \<longrightarrow> \<not> aw_budget_exhausted (ap_work plan)) \<and>
   length (ap_entries plan) = length expected"
  by (auto simp: check_header_def Let_def new_report_def)

text \<open>What the validator accepts, exactly.\<close>

lemma validate_plan_exact:
  assumes "ar_policy req = Some p" and "ar_capability req = Some cap" and "length (ap_entries plan) < 2 ^ 32"
  shows "vr_valid (validate_plan plan req) \<longleftrightarrow>
    vr_issues (check_header plan req cap (sort_by contract_id_less (ar_contracts req)) new_report) = [] \<and>
    list_all (entry_valid p (sort_by contract_id_less (ar_contracts req))) (ap_entries plan) \<and>
    sorted_wrt (<) (map ae_contract (ap_entries plan)) \<and>
    alloc_sum (ap_entries plan) = unat (ap_allocated_bandwidth_kbps plan) \<and>
    ap_allocated_bandwidth_kbps plan \<le> ap_available_bandwidth_kbps plan"
proof -
  obtain tot r where run: "check_entries p (sort_by contract_id_less (ar_contracts req)) None (ap_entries plan)
      (0, check_header plan req cap (sort_by contract_id_less (ar_contracts req)) new_report) = (tot, r)"
    by (rule prod.exhaust)
  note clean = check_entries_clean [OF run]
  have "alloc_sum (ap_entries plan) < 2 ^ 64" if "alloc_sum (ap_entries plan) = unat (ap_allocated_bandwidth_kbps plan)"
    using unat_u64_bound [of "ap_allocated_bandwidth_kbps plan"] that by simp
  moreover have "vr_issues r = [] \<Longrightarrow> ap_allocated_bandwidth_kbps plan = tot \<longleftrightarrow>
      alloc_sum (ap_entries plan) = unat (ap_allocated_bandwidth_kbps plan)"
    using clean by (auto simp: word_unat_eq_iff)
  ultimately show ?thesis
    unfolding validate_plan_valid_iff [OF assms run] using clean by (auto simp: after_def)
qed

lemma entry_valid_expected:
  assumes "entry_valid p (sort_by lt cs) e"
  shows "\<exists>c \<in> set cs. sc_id c = ae_contract e \<and> (if ae_admitted e then admitted_valid p c e else refused_valid e)"
  using assms find_ptr_SomeD unfolding entry_valid_def by fastforce

text \<open>
  C11. The validator is sound without trusting the planner. If it accepts a plan, whatever produced it,
  then every contract of the request has exactly one entry, in increasing identity order; every
  admitted entry weakens its contract only inside the effective envelope of the policy, records the
  exact delta by digest and degrades no rigid contract; every refused entry promises nothing; and the
  recorded total is the exact sum of the allocations and within the capability's bandwidth.
\<close>

theorem validator_sound:
  assumes "vr_valid (validate_plan plan req)" and "ar_policy req = Some p" and "ar_capability req = Some cap"
    and "length (ap_entries plan) < 2 ^ 32"
  shows "map ae_contract (ap_entries plan) = sorted_list_of_set (sc_id ` set (ar_contracts req)) \<and>
    distinct (map sc_id (ar_contracts req)) \<and>
    (\<forall>e \<in> set (ap_entries plan). \<exists>c \<in> set (ar_contracts req). sc_id c = ae_contract e \<and>
       (if ae_admitted e then admitted_valid p c e else refused_valid e)) \<and>
    sum_list (map (\<lambda>e. unat (ae_allocated_bandwidth_kbps e)) (ap_entries plan)) =
      unat (ap_allocated_bandwidth_kbps plan) \<and>
    ap_allocated_bandwidth_kbps plan \<le> cs_bandwidth_kbps cap"
proof -
  let ?ids = "map ae_contract (ap_entries plan)" and ?want = "map sc_id (ar_contracts req)"
  note valid = assms(1) [unfolded validate_plan_exact [OF assms(2-4)] check_header_clean]
  have entries: "\<forall>e \<in> set (ap_entries plan). \<exists>c \<in> set (ar_contracts req). sc_id c = ae_contract e \<and>
      (if ae_admitted e then admitted_valid p c e else refused_valid e)"
    using valid entry_valid_expected by (fastforce simp: list_all_iff)
  have strict: "distinct ?ids" "sorted ?ids"
    using valid by (simp_all add: strict_sorted_iff)
  have sub: "set ?ids \<subseteq> set ?want"
    using entries by (force intro: image_eqI)
  have len: "length ?ids = length ?want"
    using valid by simp
  have "card (set ?ids) = length ?want"
    using distinct_card [OF strict(1)] len by simp
  moreover have "card (set ?ids) \<le> card (set ?want)" and "card (set ?want) \<le> length ?want"
    using sub by (simp_all only: card_mono List.finite_set card_length)
  ultimately have card: "card (set ?want) = length ?want" "card (set ?ids) = card (set ?want)"
    by linarith+
  then have "distinct ?want" and eq: "set ?ids = set ?want"
    using card_distinct card_subset_eq [OF _ sub] by blast+
  moreover have "?ids = sorted_list_of_set (set ?ids)"
    using strict sorted_list_of_set.idem_if_sorted_distinct by metis
  ultimately show ?thesis
    using entries valid by (auto simp: alloc_sum_def)
qed

section \<open>The plans of the allocator\<close>

lemma permits_refl:
  assumes "set_invar s"
  shows "permits e s s"
proof -
  have "permits_items e s n bs" if "set bs \<subseteq> set s" for n bs
    using that by (induction bs) (simp_all add: guarantee_set.lookup_key [OF assms])
  then show ?thesis
    using guarantee_set.lookup_key [OF assms] by (simp add: permits_def list_all_iff)
qed

lemma early_entries_Nil:
  "(\<And>c. c \<in> set cs \<Longrightarrow> sc_scope c = ar_scope req \<and> sc_active c) \<Longrightarrow> early_entries req cs = []"
  by (simp add: early_entries_def)

interpretation entry_id: strict_weak_order entry_less
  unfolding entry_less_def by (rule key_less_swo)

lemma sorted_entries_ids:
  assumes "map ae_contract es = map sc_id (sort_by contract_id_less cs)" and "distinct (map sc_id cs)"
  shows "map ae_contract (sort_by entry_less es) = map sc_id (sort_by contract_id_less cs)"
proof -
  have "sorted (map ae_contract (sort_by entry_less es))"
    using entry_id.sorted_sort_by [of es] by (simp add: sorted_map entry_less_def not_less)
  moreover have "sorted (map sc_id (sort_by contract_id_less cs))"
    using contract_id.sorted_sort_by [of cs] by (simp add: sorted_map contract_id_less_def not_less)
  moreover have "mset (map ae_contract (sort_by entry_less es)) = mset (map sc_id (sort_by contract_id_less cs))"
    using assms(1) by (metis mset_map mset_sort_by)
  ultimately show ?thesis
    by (metis properties_for_sort)
qed

text \<open>With every contract active in scope no entry is pushed early, and a plan has the entries of its
  contracts in order.\<close>

lemma plan_ids:
  assumes "allocate_scope req = Inr plan" and "length (ar_contracts req) < 2 ^ 32"
    and "\<And>c. c \<in> set (ar_contracts req) \<Longrightarrow> sc_scope c = ar_scope req \<and> sc_active c"
  shows "map ae_contract (ap_entries plan) = map sc_id (sort_by contract_id_less (ar_contracts req))"
proof -
  obtain cap p cs as where run: "cs = sort_by contract_id_less (ar_contracts req)" "distinct (map sc_id cs)"
      "list_all2 (assessment_of req cap p) cs as"
      "(\<exists>certificate. plan = infeasible_plan req (base_plan req cap p) certificate (early_entries req cs) cs) \<or>
       finish_plan req cap p (base_plan req cap p) (early_entries req cs) as = Inr plan"
    using allocate_scope_run [OF assms(1)] by metis
  have early: "early_entries req cs = []"
    using run(1) assms(3) by (intro early_entries_Nil) simp
  have len: "length cs < 2 ^ 32" and dist: "distinct (map sc_id (ar_contracts req))"
    using run(1,2) assms(2) by simp_all
  have "\<exists>es. map ae_contract es = map sc_id cs \<and> ap_entries plan = sort_by entry_less es"
    using run(4)
  proof
    assume "\<exists>certificate. plan = infeasible_plan req (base_plan req cap p) certificate (early_entries req cs) cs"
    then show ?thesis
      by (intro exI [of _ "map (\<lambda>c. (scope_entry req c)\<lparr>ae_outcome := DO_Escalated, ae_reason := RC_ResourceExhausted\<rparr>) cs"])
        (auto simp: infeasible_plan_def early scope_entry_def)
  next
    assume fin: "finish_plan req cap p (base_plan req cap p) (early_entries req cs) as = Inr plan"
    obtain final entries where f: "list_all2 (\<lambda>c s. sl_contract s = c \<and> slot_ok req cap p s) cs final"
        "list_all2 (\<lambda>s e. slot_entry req s = Inr e) final entries"
        "ap_entries plan = sort_by entry_less (early_entries req cs @ entries)"
      by (rule finish_plan_run [OF fin run(3,2) len])
    have "ae_contract (entries ! i) = sc_id (cs ! i)" if "i < length cs" for i
      using slot_entry_ok [of req cap p "final ! i" "entries ! i"] f(1,2) that
      by (auto simp: list_all2_conv_all_nth entry_for_def)
    then have "map ae_contract entries = map sc_id cs"
      using f(1,2) by (intro nth_equalityI) (auto simp: list_all2_conv_all_nth)
    then show ?thesis
      using f(3) early by auto
  qed
  then show ?thesis
    using sorted_entries_ids [OF _ dist] run(1) by metis
qed

text \<open>The fields of a plan that the header checks read.\<close>

lemma empty_search: "budget \<noteq> 0 \<Longrightarrow> \<not> rs_exhausted (rigid_search_of [] capacity budget)"
  by (simp add: rigid_search_of_def new_search_def rs_visit_def rs_consider_def Let_def)

lemma plan_header:
  assumes "allocate_scope req = Inr plan" and "ar_policy req = Some p" and "ar_capability req = Some cap"
  shows "ap_scope plan = ar_scope req" "ap_capacity_generation plan = cs_generation cap"
    "ap_available_bandwidth_kbps plan = cs_bandwidth_kbps cap"
    "ap_status plan = PS_ProvenInfeasible \<Longrightarrow> ic_valid (ap_certificate plan)"
    "ap_status plan = PS_Optimal \<Longrightarrow> \<not> aw_budget_exhausted (ap_work plan)"
proof -
  obtain cs as where run: "Policy_validate p = EC_Ok"
      "(\<exists>certificate. infeasibility (po_minimum_protected_served p) (map as_demand (rigid_of as))
          (cs_bandwidth_kbps cap) = Some certificate \<and>
        plan = infeasible_plan req (base_plan req cap p) certificate (early_entries req cs) cs) \<or>
       finish_plan req cap p (base_plan req cap p) (early_entries req cs) as = Inr plan"
    using allocate_scope_run [OF assms(1)] assms(2,3) by (metis option.inject)
  have "po_search_node_budget p \<noteq> 0"
    using run(1) by (simp add: Policy_validate_def status_simps)
  note search = empty_search [OF this]
  have "ap_scope plan = ar_scope req \<and> ap_capacity_generation plan = cs_generation cap \<and>
      ap_available_bandwidth_kbps plan = cs_bandwidth_kbps cap \<and>
      (ap_status plan = PS_ProvenInfeasible \<longrightarrow> ic_valid (ap_certificate plan)) \<and>
      (ap_status plan = PS_Optimal \<longrightarrow> \<not> aw_budget_exhausted (ap_work plan))"
    using run(2)
  proof
    assume "\<exists>certificate. infeasibility (po_minimum_protected_served p) (map as_demand (rigid_of as))
          (cs_bandwidth_kbps cap) = Some certificate \<and>
        plan = infeasible_plan req (base_plan req cap p) certificate (early_entries req cs) cs"
    then show ?thesis
      by (auto simp: infeasible_plan_def base_plan_def infeasibility_def Let_def split: if_splits prod.splits)
  next
    assume fin: "finish_plan req cap p (base_plan req cap p) (early_entries req cs) as = Inr plan"
    obtain search items where sel: "rigid_selection p (cs_bandwidth_kbps cap) (rigid_of as) = Inr (search, items)"
      using fin by (auto simp: finish_plan_def rigid_of_def Let_def split: sum.splits)
    have "rigid_of as = [] \<Longrightarrow> \<not> rs_exhausted search"
      using sel search by (auto simp: rigid_selection_def checked_add_def Let_def split: option.splits if_splits)
    then show ?thesis
      using fin unfolding finish_plan_def rigid_of_def [symmetric] Let_def sel sum.case prod.case
      by (auto simp: base_plan_def split: sum.splits if_splits)
  qed
  then show "ap_scope plan = ar_scope req" "ap_capacity_generation plan = cs_generation cap"
    "ap_available_bandwidth_kbps plan = cs_bandwidth_kbps cap"
    "ap_status plan = PS_ProvenInfeasible \<Longrightarrow> ic_valid (ap_certificate plan)"
    "ap_status plan = PS_Optimal \<Longrightarrow> \<not> aw_budget_exhausted (ap_work plan)"
    by blast+
qed

text \<open>What an admitted entry promises is what the validator asks of it.\<close>

lemma honours_admitted_valid:
  assumes "honours_contract req cap p c e" and "effective_envelope p c = Inr env"
  shows "admitted_valid p c e"
proof -
  note h = assms(1) [unfolded honours_contract_def]
  have inv: "set_invar (sc_original c)" and floor: "bandwidth_floor c \<le> bandwidth_demand c"
    using h contract_ok_invar bandwidth_floor_le_demand by auto
  have "ae_allocated_bandwidth_kbps e \<le> bandwidth_demand c \<and>
      (ae_allocated_bandwidth_kbps e \<noteq> 0 \<longrightarrow> bandwidth_floor c \<le> ae_allocated_bandwidth_kbps e)"
    using h floor by (cases "bandwidth_demand c = 0") (auto simp: word_gt_0 split: if_splits)
  then show ?thesis
    using h assms(2) permits_refl [OF inv, of env] by (auto simp: admitted_valid_def split: if_splits)
qed

lemma admitted_envelope:
  assumes "allocate_scope req = Inr plan" and "length (ar_contracts req) < 2 ^ 32" and "e \<in> set (ap_entries plan)"
    and "ar_capability req = Some cap" and "ar_policy req = Some p" and "c \<in> set (ar_contracts req)"
    and "entry_for req c e" and "ae_admitted e" and "honours_contract req cap p c e"
  shows "\<exists>env. effective_envelope p c = Inr env"
proof (cases "is_rigid c")
  case False
  then show ?thesis
    using assms(9) by (auto simp: honours_contract_def)
next
  case True
  obtain cs as where run: "cs = sort_by contract_id_less (ar_contracts req)" "distinct (map sc_id cs)"
      "list_all2 (assessment_of req cap p) cs as"
      "(\<exists>certificate. plan = infeasible_plan req (base_plan req cap p) certificate (early_entries req cs) cs) \<or>
       finish_plan req cap p (base_plan req cap p) (early_entries req cs) as = Inr plan"
    using allocate_scope_run [OF assms(1)] assms(4,5) by (metis option.inject)
  have cs: "set cs = set (ar_contracts req)" "length cs < 2 ^ 32"
    using run(1) assms(2) by simp_all
  have "\<not> ae_admitted x" if "x \<in> set (early_entries req cs)" for x
    using early_entries_denied [OF that] by (auto simp: denied_def)
  then have "plan \<noteq> infeasible_plan req (base_plan req cap p) certificate (early_entries req cs) cs" for certificate
    using assms(3,8) by (auto simp: infeasible_plan_def scope_entry_def new_entry_def)
  then have fin: "finish_plan req cap p (base_plan req cap p) (early_entries req cs) as = Inr plan"
    using run(4) by blast
  have "served_rigid req plan \<subseteq> set (filter (servable req cap p) cs)"
    by (rule finish_plan_served [OF fin run(3,2) cs])
  moreover have "c \<in> served_rigid req plan"
    using True assms(3,6,7,8) by (auto simp: served_rigid_def entry_for_def)
  ultimately show ?thesis
    by (cases "effective_envelope p c") (auto simp: servable_def)
qed

text \<open>
  C17. The allocator's plans pass the independent validator: when every contract of the request is
  active and in scope, every plan \<open>allocate_scope\<close> returns, optimal, cut off or proven infeasible,
  is accepted without an issue.
\<close>

theorem validator_accepts_plans:
  assumes "allocate_scope req = Inr plan" and "length (ar_contracts req) < 2 ^ 32"
    and "\<And>c. c \<in> set (ar_contracts req) \<Longrightarrow> sc_scope c = ar_scope req \<and> sc_active c"
  shows "vr_valid (validate_plan plan req)"
proof -
  obtain cap p where o: "ar_capability req = Some cap" "ar_policy req = Some p"
      and dist: "distinct (map sc_id (sort_by contract_id_less (ar_contracts req)))"
    by (rule allocate_scope_run [OF assms(1)]) blast
  let ?cs = "sort_by contract_id_less (ar_contracts req)"
  note ids = plan_ids [OF assms] and header = plan_header [OF assms(1) o(2,1)]
  have len: "length (ap_entries plan) = length ?cs"
    using arg_cong [OF ids, of length] by simp
  have "sorted (map sc_id ?cs)"
    using contract_id.sorted_sort_by [of "ar_contracts req"] by (simp add: sorted_map contract_id_less_def not_less)
  then have sorted: "sorted_wrt (<) (map ae_contract (ap_entries plan))"
    using ids dist by (simp add: strict_sorted_iff)
  have "entry_valid p ?cs e" if e: "e \<in> set (ap_entries plan)" for e
  proof -
    obtain c where c: "c \<in> set (ar_contracts req)" "entry_for req c e"
        "if ae_admitted e then honours_contract req cap p c e else denied e"
      using plan_entry [OF assms(1,2) e o] by blast
    have "find_ptr (\<lambda>x. sc_id x = ae_contract e) ?cs = Some c"
      using find_ptr_distinct [OF dist, of c] c(1,2) by (simp add: entry_for_def)
    moreover have "ae_admitted e \<Longrightarrow> admitted_valid p c e"
      using admitted_envelope [OF assms(1,2) e o c(1,2)] c(3) honours_admitted_valid by auto
    moreover have "\<not> ae_admitted e \<Longrightarrow> refused_valid e"
      using c(3) by (simp add: denied_def refused_valid_def)
    ultimately show ?thesis
      using c(2) assms(3) [OF c(1)] by (auto simp: entry_valid_def entry_for_def)
  qed
  then show ?thesis
    using validate_plan_exact [OF o(2,1), of plan] header len sorted plan_allocation [OF assms(1,2) o(1)] assms(2)
    by (simp add: check_header_clean list_all_iff alloc_sum_def)
qed

theorem validator_accepts_plans_witness: "vr_valid (validate_plan sample_plan sample_request)"
proof (rule validator_accepts_plans [OF sample_allocation])
  show "length (ar_contracts sample_request) < 2 ^ 32"
    using sample_request_fields(6) by simp
  show "sc_scope c = ar_scope sample_request \<and> sc_active c" if "c \<in> set (ar_contracts sample_request)" for c
    using that by (auto simp: sample_request_def rigid_contract_def flexible_contract_def sample_contract_def)
qed

theorem validator_sound_witness:
  "map ae_contract (ap_entries sample_plan) = sorted_list_of_set (sc_id ` set (ar_contracts sample_request))"
proof -
  have "vr_valid (validate_plan sample_plan sample_request)"
    by code_simp
  moreover have "length (ap_entries sample_plan) < 2 ^ 32"
    by (simp add: sample_plan_def)
  ultimately show ?thesis
    using validator_sound [OF _ sample_request_fields(2,1)] by blast
qed

end
