(* ===== verification/Grant.thy ===== *)
theory Grant
  imports Decision
begin

text \<open>
  Grants and restoration records: \<open>include/dmf/grant.hpp\<close> and \<open>src/domain/grant.cpp\<close>.
\<close>

datatype PreconditionKind =
    PK_EvidenceKnown
  | PK_CapabilitySupports
  | PK_NoActiveFence
  | PK_PolicyPermits
  | PK_ContractUnchanged
  | PK_MinimumDwell
  | PK_ScopeRecovered
  | PK_AuthorityUnchanged
  | PK_EscalationClear

primrec PreconditionKind_code :: "PreconditionKind \<Rightarrow> u16" where
  "PreconditionKind_code PK_EvidenceKnown = 1"
| "PreconditionKind_code PK_CapabilitySupports = 2"
| "PreconditionKind_code PK_NoActiveFence = 3"
| "PreconditionKind_code PK_PolicyPermits = 4"
| "PreconditionKind_code PK_ContractUnchanged = 5"
| "PreconditionKind_code PK_MinimumDwell = 6"
| "PreconditionKind_code PK_ScopeRecovered = 7"
| "PreconditionKind_code PK_AuthorityUnchanged = 8"
| "PreconditionKind_code PK_EscalationClear = 9"

definition PreconditionKind_all :: "PreconditionKind list" where
  "PreconditionKind_all =
     [PK_EvidenceKnown, PK_CapabilitySupports, PK_NoActiveFence, PK_PolicyPermits,
      PK_ContractUnchanged, PK_MinimumDwell, PK_ScopeRecovered, PK_AuthorityUnchanged,
      PK_EscalationClear]"

interpretation preconditionkind_wire: wire_enum PreconditionKind_code PreconditionKind_all
proof
  show "enum_decode PreconditionKind_code PreconditionKind_all (PreconditionKind_code e) = Some e" for e
    by (cases e) (simp_all add: enum_decode_def PreconditionKind_all_def)
qed

record RestorationPrecondition =
  rp_kind :: PreconditionKind
  rp_guarantee :: GuaranteeKind
  rp_scope :: u64
  rp_required_value :: u64
  rp_dwell_ticks :: u64

record Grant =
  gr_id :: u64
  gr_decision :: u64
  gr_binding :: AuthorityBinding
  gr_service_class :: ServiceClass
  gr_protected_obligation :: bool
  gr_original :: guarantee_set
  gr_degraded :: guarantee_set
  gr_delta :: GuaranteeDelta
  gr_reason :: ReasonCode
  gr_evidence :: EvidenceVector
  gr_evidence_state :: EvidenceState
  gr_preconditions :: "RestorationPrecondition list"
  gr_sequence :: u64
  gr_last_attempt :: u64
  gr_issued_tick :: tick
  gr_expires_tick :: tick
  gr_last_transition_tick :: tick
  gr_state :: GrantState
  gr_provenance :: ProvenanceClass

definition Grant_validate :: "Grant \<Rightarrow> status" where
  "Grant_validate g =
     require (valid_id (gr_id g)) EC_InvalidArgument
    (require (valid_id (gr_decision g)) EC_InvalidArgument
    (require (AuthorityBinding_valid (gr_binding g)) EC_InvalidArgument
    (require (valid_id (gr_sequence g)) EC_InvalidArgument
    (require (\<not> gr_expires_tick g < gr_issued_tick g) EC_Invalid
    (and_then (GuaranteeSet_validate (gr_original g))
    (and_then (GuaranteeSet_validate (gr_degraded g))
    (require (classify_weakening (gr_original g) (gr_degraded g) = WR_WeakensOrEquals) EC_Invalid
    (require (\<not> (gr_protected_obligation g \<and> \<not> GuaranteeDelta_empty (gr_delta g))) EC_InvalidState
      EC_Ok))))))))"

definition Grant_live :: "Grant \<Rightarrow> bool" where
  "Grant_live g = grant_state_live (gr_state g)"

definition authority_level :: "Grant \<Rightarrow> AuthorityLevel" where
  "authority_level g =
     (case gr_state g of
        GS_Issued \<Rightarrow> AL_Authorized
      | GS_Acknowledged \<Rightarrow> AL_Acknowledged
      | GS_Applied \<Rightarrow> AL_Applied
      | GS_Fenced \<Rightarrow> AL_None
      | GS_Expired \<Rightarrow> AL_None
      | GS_Revoked \<Rightarrow> AL_None)"

definition expired_at :: "Grant \<Rightarrow> tick \<Rightarrow> bool" where
  "expired_at g now \<longleftrightarrow> now > gr_expires_tick g"

definition precondition_digest_into :: "RestorationPrecondition \<Rightarrow> digest64 \<Rightarrow> digest64" where
  "precondition_digest_into p =
     update_u64 (rp_dwell_ticks p) \<circ> update_u64 (rp_required_value p) \<circ> update_u64 (rp_scope p) \<circ>
     update_u16 (GuaranteeKind_code (rp_guarantee p)) \<circ> update_u16 (PreconditionKind_code (rp_kind p))"

definition Grant_digest :: "Grant \<Rightarrow> digest64" where
  "Grant_digest g =
     (fold precondition_digest_into (gr_preconditions g) \<circ>
      update_u32 (of_nat (length (gr_preconditions g))) \<circ>
      update_u16 (ProvenanceClass_code (gr_provenance g)) \<circ> update_u16 (GrantState_code (gr_state g)) \<circ>
      update_u64 (gr_last_transition_tick g) \<circ> update_u64 (gr_expires_tick g) \<circ>
      update_u64 (gr_issued_tick g) \<circ> update_u64 (gr_last_attempt g) \<circ> update_u64 (gr_sequence g) \<circ>
      update_u16 (EvidenceState_code (gr_evidence_state g)) \<circ>
      update_u64 (EvidenceVector_digest (gr_evidence g)) \<circ> update_u16 (ReasonCode_code (gr_reason g)) \<circ>
      update_u64 (GuaranteeDelta_digest (gr_delta g)) \<circ>
      update_u64 (GuaranteeSet_digest (gr_degraded g)) \<circ>
      update_u64 (GuaranteeSet_digest (gr_original g)) \<circ> update_bool (gr_protected_obligation g) \<circ>
      update_u16 (ServiceClass_code (gr_service_class g)) \<circ>
      update_u64 (AuthorityBinding_digest (gr_binding g)) \<circ> update_u64 (gr_decision g) \<circ>
      update_u64 (gr_id g)) kFnvOffset"

datatype PreconditionResult =
    PT_Satisfied
  | PT_NotSatisfied
  | PT_Indeterminate
  | PT_Unsupported

primrec PreconditionResult_code :: "PreconditionResult \<Rightarrow> u16" where
  "PreconditionResult_code PT_Satisfied = 1"
| "PreconditionResult_code PT_NotSatisfied = 2"
| "PreconditionResult_code PT_Indeterminate = 3"
| "PreconditionResult_code PT_Unsupported = 4"

definition PreconditionResult_all :: "PreconditionResult list" where
  "PreconditionResult_all =
     [PT_Satisfied, PT_NotSatisfied, PT_Indeterminate, PT_Unsupported]"

interpretation preconditionresult_wire: wire_enum PreconditionResult_code PreconditionResult_all
proof
  show "enum_decode PreconditionResult_code PreconditionResult_all (PreconditionResult_code e) = Some e" for e
    by (cases e) (simp_all add: enum_decode_def PreconditionResult_all_def)
qed

record PreconditionEvaluation =
  pe_precondition :: RestorationPrecondition
  pe_result :: PreconditionResult
  pe_reason :: ReasonCode

record RestorationEvaluation =
  re_outcome :: RestorationOutcome
  re_grant :: u64
  re_decision :: u64
  re_binding :: AuthorityBinding
  re_original :: guarantee_set
  re_degraded :: guarantee_set
  re_preconditions :: "PreconditionEvaluation list"
  re_primary_reason :: ReasonCode
  re_evidence_state :: EvidenceState
  re_provenance :: ProvenanceClass
  re_evaluated_tick :: tick

definition RestorationEvaluation_validate :: "RestorationEvaluation \<Rightarrow> status" where
  "RestorationEvaluation_validate r =
     require (valid_id (re_grant r)) EC_InvalidArgument
    (require (AuthorityBinding_valid (re_binding r)) EC_InvalidArgument
    (and_then (GuaranteeSet_validate (re_original r))
    (and_then (GuaranteeSet_validate (re_degraded r))
    (require (weakens_or_equals (re_original r) (re_degraded r)) EC_InvalidState
    (require (\<not> (re_outcome r = RO_Proven \<and> \<not> evidence_is_authoritative (re_evidence_state r)))
       EC_InvalidState
    (require (re_outcome r = RO_Proven \<longrightarrow>
         list_all (\<lambda>e. pe_result e = PT_Satisfied) (re_preconditions r)) EC_InvalidState
      EC_Ok))))))"

definition RestorationEvaluation_digest :: "RestorationEvaluation \<Rightarrow> digest64" where
  "RestorationEvaluation_digest r =
     (update_u64 (re_evaluated_tick r) \<circ> update_u16 (EvidenceState_code (re_evidence_state r)) \<circ>
      update_u16 (ReasonCode_code (re_primary_reason r)) \<circ>
      fold (\<lambda>e. update_u16 (ReasonCode_code (pe_reason e)) \<circ>
              update_u16 (PreconditionResult_code (pe_result e)) \<circ>
              precondition_digest_into (pe_precondition e)) (re_preconditions r) \<circ>
      update_u32 (of_nat (length (re_preconditions r))) \<circ>
      update_u64 (GuaranteeSet_digest (re_degraded r)) \<circ>
      update_u64 (GuaranteeSet_digest (re_original r)) \<circ>
      update_u64 (AuthorityBinding_digest (re_binding r)) \<circ> update_u64 (re_decision r) \<circ>
      update_u64 (re_grant r) \<circ> update_u16 (RestorationOutcome_code (re_outcome r))) kFnvOffset"

lemma grant_ok_iff:
  "Grant_validate g = EC_Ok \<longleftrightarrow>
   valid_id (gr_id g) \<and> valid_id (gr_decision g) \<and> AuthorityBinding_valid (gr_binding g) \<and>
   valid_id (gr_sequence g) \<and> gr_issued_tick g \<le> gr_expires_tick g \<and>
   weakens_or_equals (gr_original g) (gr_degraded g) \<and>
   (gr_protected_obligation g \<longrightarrow> GuaranteeDelta_empty (gr_delta g))"
  by (auto simp: Grant_validate_def status_simps weakens_or_equals_def classify_weakening_def not_less)

lemma authority_level_live: "is_authority (authority_level g) \<longleftrightarrow> Grant_live g"
  by (cases "gr_state g") (simp_all add: authority_level_def is_authority_def Grant_live_def
      grant_state_live_def grant_state_terminal_def)

end
