(* ===== verification/Restoration.thy ===== *)
theory Restoration
  imports Grant Evaluator
begin

text \<open>
  Restoration evaluation: \<open>src/engine/restoration.cpp\<close>. A null pointer of the request is \<open>None\<close>; each
  \<open>break\<close> of \<open>evaluate_one\<close> is a branch that returns a result and a reason.
\<close>

record RestorationRequest =
  rr_grant :: "Grant option"
  rr_contract :: "ServiceContract option"
  rr_capability :: "CapabilitySnapshot option"
  rr_evidence :: "EvidenceVector option"
  rr_policy :: "Policy option"
  rr_current_authority :: AuthorityVector
  rr_fence_active :: bool
  rr_now :: tick
  rr_provenance :: ProvenanceClass

definition new_precondition :: "PreconditionKind \<Rightarrow> u64 \<Rightarrow> RestorationPrecondition" where
  "new_precondition k s = \<lparr>rp_kind = k, rp_guarantee = GK_Availability, rp_scope = s, rp_required_value = 0,
     rp_dwell_ticks = 0\<rparr>"

definition push_precondition ::
    "RestorationPrecondition \<Rightarrow> RestorationPrecondition list \<Rightarrow> RestorationPrecondition list" where
  "push_precondition p ps = (if length ps < kMaxPreconditions then ps @ [p] else ps)"

definition support_precondition :: "u64 \<Rightarrow> guarantee \<Rightarrow> RestorationPrecondition" where
  "support_precondition s g =
     (new_precondition PK_CapabilitySupports s)\<lparr>rp_guarantee := g_kind g, rp_required_value := g_value g\<rparr>"

definition make_preconditions :: "ServiceContract \<Rightarrow> Policy \<Rightarrow> RestorationPrecondition list" where
  "make_preconditions c p =
     (let s = sc_scope c;
          ps = push_precondition (new_precondition PK_EvidenceKnown s) [];
          ps = push_precondition (new_precondition PK_ScopeRecovered s) ps;
          ps = fold (\<lambda>g. push_precondition (support_precondition s g)) (sc_original c) ps;
          ps = push_precondition (new_precondition PK_PolicyPermits s) ps;
          ps = push_precondition (new_precondition PK_ContractUnchanged s) ps;
          ps = push_precondition (new_precondition PK_NoActiveFence s) ps;
          ps = push_precondition (new_precondition PK_AuthorityUnchanged s) ps
      in push_precondition ((new_precondition PK_MinimumDwell s)\<lparr>rp_dwell_ticks := ucast (po_minimum_dwell_ticks p)\<rparr>) ps)"

definition indeterminate_reason :: "EvidenceState \<Rightarrow> ReasonCode" where
  "indeterminate_reason s =
     (case s of
        ES_Stale \<Rightarrow> RC_EvidenceStale
      | ES_Conflict \<Rightarrow> RC_EvidenceConflict
      | ES_Invalid \<Rightarrow> RC_EvidenceInvalid
      | ES_Unsupported \<Rightarrow> RC_EvidenceUnsupported
      | ES_Unknown \<Rightarrow> RC_EvidenceUnknown
      | ES_Known \<Rightarrow> RC_EvidenceUnknown)"

text \<open>The \<open>switch\<close> of \<open>evaluate_one\<close>: the result and the reason it stores.\<close>

definition judge_precondition ::
    "RestorationPrecondition \<Rightarrow> RestorationRequest \<Rightarrow> Policy \<Rightarrow> ServiceContract \<Rightarrow>
     PreconditionResult \<times> ReasonCode" where
  "judge_precondition pc req p c =
     (case rp_kind pc of
        PK_EvidenceKnown \<Rightarrow>
          (case rr_capability req of
             None \<Rightarrow> (PT_Indeterminate, RC_EvidenceUnknown)
           | Some cap \<Rightarrow>
               if usable cap then (PT_Satisfied, RC_None)
               else if cs_state cap = ES_Known then (PT_Satisfied, RC_None)
               else (PT_Indeterminate, indeterminate_reason (cs_state cap)))
      | PK_ScopeRecovered \<Rightarrow>
          (case rr_capability req of
             None \<Rightarrow> (PT_Indeterminate, RC_EvidenceUnknown)
           | Some cap \<Rightarrow>
               if cs_topology cap = FT_Partitioned \<or> cs_topology cap = FT_Isolated
               then (PT_NotSatisfied, RC_FabricPartitioned)
               else (PT_Satisfied, RC_None))
      | PK_CapabilitySupports \<Rightarrow>
          (case (rr_capability req, GuaranteeSet_find (sc_original c) (rp_guarantee pc)) of
             (Some cap, Some demand) \<Rightarrow>
               (case supports cap demand of
                  ST_Supported \<Rightarrow> (PT_Satisfied, RC_None)
                | ST_NotSupported \<Rightarrow> (PT_NotSatisfied, shortfall_reason cap demand)
                | ST_Indeterminate \<Rightarrow> (PT_Indeterminate, shortfall_reason cap demand)
                | ST_NotModelled \<Rightarrow> (PT_Unsupported, RC_EvidenceUnsupported)
                | ST_Invalid \<Rightarrow> (PT_Unsupported, RC_EvidenceInvalid))
           | _ \<Rightarrow> (PT_Indeterminate, RC_EvidenceUnknown))
      | PK_PolicyPermits \<Rightarrow>
          (if (case select_rule p (sc_service_class c) (sc_scope c) None of
                 None \<Rightarrow> False
               | Some r \<Rightarrow> pr_action r = DA_Refuse \<or> pr_action r = DA_Escalate)
           then (PT_NotSatisfied, RC_PolicyNoRule)
           else case class_profile p (sc_service_class c) of
                  None \<Rightarrow> (PT_Unsupported, RC_NoRuleForServiceClass)
                | Some _ \<Rightarrow> (PT_Satisfied, RC_None))
      | PK_ContractUnchanged \<Rightarrow>
          (case rr_grant req of
             None \<Rightarrow> (PT_NotSatisfied, RC_ContractInvalid)
           | Some g \<Rightarrow>
               let b = gr_binding g
               in if ab_contract b \<noteq> sc_id c \<or> ab_contract_generation b \<noteq> sc_generation c
                  then (PT_NotSatisfied, RC_ContractGenerationChanged)
                  else if ab_subject b \<noteq> sc_subject c \<or> ab_subject_generation b \<noteq> sc_subject_generation c
                  then (PT_NotSatisfied, RC_AuthorityGenerationChanged)
                  else (PT_Satisfied, RC_None))
      | PK_NoActiveFence \<Rightarrow>
          (if rr_fence_active req then (PT_NotSatisfied, RC_AuthorityGenerationChanged)
           else (PT_Satisfied, RC_None))
      | PK_AuthorityUnchanged \<Rightarrow>
          (case rr_grant req of
             None \<Rightarrow> (PT_NotSatisfied, RC_AuthorityGenerationChanged)
           | Some g \<Rightarrow>
               let current = (gr_binding g)\<lparr>ab_vector := rr_current_authority req\<rparr>;
                   delta = classify (gr_binding g) current
               in if invalidates_authority delta
                  then (PT_NotSatisfied,
                        if has_flag delta AD_Boot then RC_BootIncarnationAdvanced
                        else if has_flag delta AD_CoordinatorTerm then RC_CoordinatorEpochAdvanced
                        else RC_AuthorityGenerationChanged)
                  else (PT_Satisfied, RC_None))
      | PK_MinimumDwell \<Rightarrow>
          (case rr_grant req of
             None \<Rightarrow> (PT_NotSatisfied, RC_ContractInvalid)
           | Some g \<Rightarrow>
               if rr_now req < gr_issued_tick g then (PT_NotSatisfied, RC_DwellRequirementUnmet)
               else (case checked_sub (rr_now req) (gr_issued_tick g) of
                       None \<Rightarrow> (PT_NotSatisfied, RC_DwellRequirementUnmet)
                     | Some held \<Rightarrow>
                         if held < rp_dwell_ticks pc then (PT_NotSatisfied, RC_DwellRequirementUnmet)
                         else (PT_Satisfied, RC_None)))
      | PK_EscalationClear \<Rightarrow> (PT_Satisfied, RC_None))"

definition evaluate_one ::
    "RestorationPrecondition \<Rightarrow> RestorationRequest \<Rightarrow> Policy \<Rightarrow> ServiceContract \<Rightarrow> PreconditionEvaluation" where
  "evaluate_one pc req p c =
     (case judge_precondition pc req p c of
        (res, reason) \<Rightarrow> \<lparr>pe_precondition = pc, pe_result = res, pe_reason = reason\<rparr>)"

definition blocks_authority :: "PreconditionKind \<Rightarrow> bool" where
  "blocks_authority k \<longleftrightarrow> k = PK_NoActiveFence \<or> k = PK_PolicyPermits \<or> k = PK_AuthorityUnchanged \<or>
     k = PK_ContractUnchanged"

definition new_restoration :: RestorationEvaluation where
  "new_restoration = \<lparr>re_outcome = RO_Invalid, re_grant = 0, re_decision = 0, re_binding = no_binding,
     re_original = [], re_degraded = [], re_preconditions = [], re_primary_reason = RC_None,
     re_evidence_state = ES_Unknown, re_provenance = PC_Synthetic, re_evaluated_tick = 0\<rparr>"

text \<open>The evaluation as it stands before the first early return.\<close>

definition start_restoration :: "RestorationRequest \<Rightarrow> RestorationEvaluation" where
  "start_restoration req =
     (let e = new_restoration\<lparr>re_evaluated_tick := rr_now req, re_provenance := rr_provenance req\<rparr>;
          e = (case rr_grant req of
                 None \<Rightarrow> e
               | Some g \<Rightarrow> e\<lparr>re_grant := gr_id g, re_decision := gr_decision g, re_binding := gr_binding g\<rparr>);
          e = (case rr_contract req of None \<Rightarrow> e | Some c \<Rightarrow> e\<lparr>re_original := sc_original c\<rparr>);
          e = (case rr_grant req of None \<Rightarrow> e | Some g \<Rightarrow> e\<lparr>re_degraded := gr_degraded g\<rparr>)
      in e\<lparr>re_evidence_state := (case rr_capability req of None \<Rightarrow> ES_Unknown | Some cap \<Rightarrow> cs_state cap),
           re_outcome := RO_Invalid, re_primary_reason := RC_ContractInvalid\<rparr>)"

definition dead_grant_reason :: "GrantState \<Rightarrow> ReasonCode \<Rightarrow> ReasonCode" where
  "dead_grant_reason s r =
     (case s of
        GS_Fenced \<Rightarrow> RC_AuthorityGenerationChanged
      | GS_Expired \<Rightarrow> RC_AuthorityExpired
      | GS_Revoked \<Rightarrow> RC_AuthorityRevoked
      | GS_Issued \<Rightarrow> r
      | GS_Acknowledged \<Rightarrow> r
      | GS_Applied \<Rightarrow> r)"

text \<open>The loop over the preconditions: the flags and the first reason.\<close>

record restoration_flags =
  rf_unsupported :: bool
  rf_blocking :: bool
  rf_not_satisfied :: bool
  rf_indeterminate :: bool
  rf_primary :: ReasonCode

definition note_result :: "PreconditionEvaluation \<Rightarrow> restoration_flags \<Rightarrow> restoration_flags" where
  "note_result e f =
     (if pe_result e = PT_Satisfied then f
      else let f = (if rf_primary f = RC_None then f\<lparr>rf_primary := pe_reason e\<rparr> else f)
           in case pe_result e of
                PT_Unsupported \<Rightarrow> f\<lparr>rf_unsupported := True\<rparr>
              | PT_Indeterminate \<Rightarrow> f\<lparr>rf_indeterminate := True\<rparr>
              | PT_NotSatisfied \<Rightarrow>
                  (let f = f\<lparr>rf_not_satisfied := True\<rparr>
                   in if blocks_authority (rp_kind (pe_precondition e)) then f\<lparr>rf_blocking := True\<rparr> else f)
              | PT_Satisfied \<Rightarrow> f)"

definition settle_outcome :: "restoration_flags \<Rightarrow> RestorationOutcome \<times> ReasonCode" where
  "settle_outcome f =
     (if rf_unsupported f \<or> rf_blocking f then (RO_Refused, rf_primary f)
      else if rf_not_satisfied f then (RO_NotProven, rf_primary f)
      else if rf_indeterminate f then (RO_Indeterminate, rf_primary f)
      else (RO_Proven, RC_OriginalObligationsSupportable))"

definition evaluate_restoration :: "RestorationRequest \<Rightarrow> RestorationEvaluation" where
  "evaluate_restoration req =
     (let e = start_restoration req
      in case (rr_grant req, rr_contract req, rr_policy req) of
           (Some g, Some c, Some p) \<Rightarrow>
             if Grant_validate g \<noteq> EC_Ok \<or> ServiceContract_validate c \<noteq> EC_Ok \<or> Policy_validate p \<noteq> EC_Ok then e
             else if \<not> Grant_live g
             then e\<lparr>re_outcome := RO_Refused,
                    re_primary_reason := dead_grant_reason (gr_state g) (re_primary_reason e)\<rparr>
             else let pcs = (if gr_preconditions g = [] then make_preconditions c p else gr_preconditions g);
                      results = map (\<lambda>pc. evaluate_one pc req p c) pcs;
                      f = fold note_result results
                            \<lparr>rf_unsupported = False, rf_blocking = False, rf_not_satisfied = False,
                             rf_indeterminate = False, rf_primary = RC_None\<rparr>;
                      (outcome, reason) = settle_outcome f;
                      e = e\<lparr>re_preconditions := results, re_outcome := outcome, re_primary_reason := reason\<rparr>
                  in if RestorationEvaluation_validate e \<noteq> EC_Ok
                     then new_restoration\<lparr>re_outcome := RO_Invalid, re_grant := re_grant e,
                            re_decision := re_decision e, re_binding := re_binding e,
                            re_evaluated_tick := rr_now req, re_provenance := rr_provenance req\<rparr>
                     else e
         | _ \<Rightarrow> e)"

section \<open>The outcome of the loop\<close>

definition satisfied :: "PreconditionEvaluation \<Rightarrow> bool" where
  "satisfied e \<longleftrightarrow> pe_result e = PT_Satisfied"

lemma note_result_step:
  "rf_unsupported (note_result e f) \<longleftrightarrow> rf_unsupported f \<or> pe_result e = PT_Unsupported"
  "rf_indeterminate (note_result e f) \<longleftrightarrow> rf_indeterminate f \<or> pe_result e = PT_Indeterminate"
  "rf_not_satisfied (note_result e f) \<longleftrightarrow> rf_not_satisfied f \<or> pe_result e = PT_NotSatisfied"
  "rf_blocking (note_result e f) \<longleftrightarrow> rf_blocking f \<or>
     pe_result e = PT_NotSatisfied \<and> blocks_authority (rp_kind (pe_precondition e))"
  by (cases "pe_result e"; simp add: note_result_def Let_def)+

lemma fold_flag:
  assumes "\<And>e f. flag (note_result e f) \<longleftrightarrow> flag f \<or> P e"
  shows "flag (fold note_result es f) \<longleftrightarrow> flag f \<or> list_ex P es"
  by (induction es arbitrary: f) (auto simp: assms)

lemmas note_result_flags = note_result_step [THEN fold_flag]

abbreviation no_flags :: restoration_flags where
  "no_flags \<equiv> \<lparr>rf_unsupported = False, rf_blocking = False, rf_not_satisfied = False, rf_indeterminate = False,
     rf_primary = RC_None\<rparr>"

lemma settle_proven: "fst (settle_outcome (fold note_result es no_flags)) = RO_Proven \<longleftrightarrow> list_all satisfied es"
proof -
  have "satisfied e \<longleftrightarrow> pe_result e \<noteq> PT_Unsupported \<and> pe_result e \<noteq> PT_Indeterminate \<and> pe_result e \<noteq> PT_NotSatisfied" for e
    by (cases "pe_result e") (simp_all add: satisfied_def)
  then show ?thesis
    by (auto simp: settle_outcome_def note_result_flags list_all_iff list_ex_iff)
qed

text \<open>When restoration is proven, exactly.\<close>

definition preconditions_of :: "Grant \<Rightarrow> ServiceContract \<Rightarrow> Policy \<Rightarrow> RestorationPrecondition list" where
  "preconditions_of g c p = (if gr_preconditions g = [] then make_preconditions c p else gr_preconditions g)"

lemma proven_iff:
  assumes "rr_grant req = Some g" and "rr_contract req = Some c" and "rr_policy req = Some p"
  shows "re_outcome (evaluate_restoration req) = RO_Proven \<longleftrightarrow>
    Grant_validate g = EC_Ok \<and> ServiceContract_validate c = EC_Ok \<and> Policy_validate p = EC_Ok \<and> Grant_live g \<and>
    list_all (\<lambda>pc. fst (judge_precondition pc req p c) = PT_Satisfied) (preconditions_of g c p) \<and>
    (\<exists>cap. rr_capability req = Some cap \<and> cs_state cap = ES_Known) \<and>
    weakens_or_equals (sc_original c) (gr_degraded g)"
proof -
  define results where "results = map (\<lambda>pc. evaluate_one pc req p c) (preconditions_of g c p)"
  obtain out reason where out: "settle_outcome (fold note_result results no_flags) = (out, reason)"
    by (rule prod.exhaust)
  define e where "e = (start_restoration req)\<lparr>re_preconditions := results, re_outcome := out, re_primary_reason := reason\<rparr>"
  have all: "out = RO_Proven \<longleftrightarrow> list_all satisfied results"
    using settle_proven [of results] out by simp
  have results: "list_all satisfied results \<longleftrightarrow>
      list_all (\<lambda>pc. fst (judge_precondition pc req p c) = PT_Satisfied) (preconditions_of g c p)"
    by (simp add: results_def satisfied_def evaluate_one_def list_all_iff case_prod_unfold)
  have state: "re_evidence_state e = ES_Known \<longleftrightarrow> (\<exists>cap. rr_capability req = Some cap \<and> cs_state cap = ES_Known)"
    by (simp add: e_def start_restoration_def Let_def split: option.split)
  have fields: "re_grant e = gr_id g" "re_binding e = gr_binding g" "re_original e = sc_original c"
      "re_degraded e = gr_degraded g" "re_outcome e = out" "re_preconditions e = results"
    using assms by (simp_all add: e_def start_restoration_def Let_def)
  have ok: "RestorationEvaluation_validate e = EC_Ok \<longleftrightarrow>
      re_evidence_state e = ES_Known \<and> weakens_or_equals (sc_original c) (gr_degraded g)"
    if "out = RO_Proven" "Grant_validate g = EC_Ok" "ServiceContract_validate c = EC_Ok"
  proof -
    have "list_all (\<lambda>e. pe_result e = PT_Satisfied) results"
      using that(1) all by (simp add: satisfied_def [abs_def])
    moreover have "GuaranteeSet_validate (gr_degraded g) = EC_Ok" "GuaranteeSet_validate (sc_original c) = EC_Ok"
      using that weakens_invar contract_ok_invar by (auto simp: grant_ok_iff)
    ultimately show ?thesis
      using that by (auto simp: RestorationEvaluation_validate_def status_simps fields grant_ok_iff
          evidence_is_authoritative_def)
  qed
  have run: "evaluate_restoration req =
      (if Grant_validate g \<noteq> EC_Ok \<or> ServiceContract_validate c \<noteq> EC_Ok \<or> Policy_validate p \<noteq> EC_Ok
       then start_restoration req
       else if \<not> Grant_live g
       then (start_restoration req)\<lparr>re_outcome := RO_Refused, re_primary_reason :=
         dead_grant_reason (gr_state g) (re_primary_reason (start_restoration req))\<rparr>
       else if RestorationEvaluation_validate e \<noteq> EC_Ok
       then new_restoration\<lparr>re_outcome := RO_Invalid, re_grant := re_grant e, re_decision := re_decision e,
         re_binding := re_binding e, re_evaluated_tick := rr_now req, re_provenance := rr_provenance req\<rparr>
       else e)"
    unfolding evaluate_restoration_def assms Let_def option.case prod.case preconditions_of_def [symmetric]
      results_def [symmetric] out e_def [symmetric] ..
  have start: "re_outcome (start_restoration req) = RO_Invalid"
    by (simp add: start_restoration_def Let_def)
  show ?thesis
    unfolding run using start ok fields(5) all results state by auto
qed

section \<open>The preconditions the engine derives\<close>

lemma push_precondition_short: "length ps < 32 \<Longrightarrow> push_precondition p ps = ps @ [p]"
  by (simp add: push_precondition_def kMaxPreconditions_def)

lemma fold_push_precondition:
  "length ps + length gs \<le> 32 \<Longrightarrow> fold (\<lambda>g. push_precondition (f g)) gs ps = ps @ map f gs"
  by (induction gs arbitrary: ps) (simp_all add: push_precondition_short)

lemma make_preconditions_eq:
  assumes "set_invar (sc_original c)"
  shows "make_preconditions c p =
    [new_precondition PK_EvidenceKnown (sc_scope c), new_precondition PK_ScopeRecovered (sc_scope c)] @
    map (support_precondition (sc_scope c)) (sc_original c) @
    map (\<lambda>k. new_precondition k (sc_scope c))
      [PK_PolicyPermits, PK_ContractUnchanged, PK_NoActiveFence, PK_AuthorityUnchanged] @
    [(new_precondition PK_MinimumDwell (sc_scope c))\<lparr>rp_dwell_ticks := ucast (po_minimum_dwell_ticks p)\<rparr>]"
  using set_invar_length [OF assms]
  by (simp add: make_preconditions_def Let_def push_precondition_short fold_push_precondition)

text \<open>What the engine asks for, said of the world rather than of the checks.\<close>

definition restorable ::
    "RestorationRequest \<Rightarrow> Grant \<Rightarrow> ServiceContract \<Rightarrow> Policy \<Rightarrow> CapabilitySnapshot \<Rightarrow> bool" where
  "restorable req g c p cap \<longleftrightarrow>
     usable cap \<and> cs_topology cap \<notin> {FT_Partitioned, FT_Isolated} \<and>
     list_all (\<lambda>d. supports cap d = ST_Supported) (sc_original c) \<and>
     (\<forall>r. select_rule p (sc_service_class c) (sc_scope c) None = Some r \<longrightarrow> pr_action r \<notin> {DA_Refuse, DA_Escalate}) \<and>
     class_profile p (sc_service_class c) \<noteq> None \<and>
     gr_binding g = \<lparr>ab_vector = rr_current_authority req, ab_contract = sc_id c,
       ab_contract_generation = sc_generation c, ab_subject = sc_subject c,
       ab_subject_generation = sc_subject_generation c, ab_scope = ab_scope (gr_binding g)\<rparr> \<and>
     \<not> rr_fence_active req \<and>
     unat (gr_issued_tick g) + unat (po_minimum_dwell_ticks p) \<le> unat (rr_now req)"

lemma judge_capability:
  assumes "rr_capability req = Some cap"
  shows "fst (judge_precondition (new_precondition PK_EvidenceKnown s) req p c) = PT_Satisfied \<longleftrightarrow> usable cap"
    "fst (judge_precondition (new_precondition PK_ScopeRecovered s) req p c) = PT_Satisfied \<longleftrightarrow>
      cs_topology cap \<notin> {FT_Partitioned, FT_Isolated}"
    "set_invar (sc_original c) \<Longrightarrow> d \<in> set (sc_original c) \<Longrightarrow>
      fst (judge_precondition (support_precondition s d) req p c) = PT_Satisfied \<longleftrightarrow> supports cap d = ST_Supported"
  using assms
  by (auto simp: judge_precondition_def new_precondition_def support_precondition_def usable_def
      guarantee_set.lookup_key split: SupportTri.split)

lemma judge_policy:
  "fst (judge_precondition (new_precondition PK_PolicyPermits s) req p c) = PT_Satisfied \<longleftrightarrow>
   (\<forall>r. select_rule p (sc_service_class c) (sc_scope c) None = Some r \<longrightarrow> pr_action r \<notin> {DA_Refuse, DA_Escalate}) \<and>
   class_profile p (sc_service_class c) \<noteq> None"
  by (auto simp: judge_precondition_def new_precondition_def split: option.split)

lemma same_vector: "b = b\<lparr>ab_vector := v\<rparr> \<longleftrightarrow> ab_vector b = v"
  by (cases b) simp

lemma judge_grant:
  assumes "rr_grant req = Some g"
  shows "fst (judge_precondition (new_precondition PK_ContractUnchanged s) req p c) = PT_Satisfied \<longleftrightarrow>
      ab_contract (gr_binding g) = sc_id c \<and> ab_contract_generation (gr_binding g) = sc_generation c \<and>
      ab_subject (gr_binding g) = sc_subject c \<and> ab_subject_generation (gr_binding g) = sc_subject_generation c"
    "fst (judge_precondition (new_precondition PK_NoActiveFence s) req p c) = PT_Satisfied \<longleftrightarrow> \<not> rr_fence_active req"
    "fst (judge_precondition (new_precondition PK_AuthorityUnchanged s) req p c) = PT_Satisfied \<longleftrightarrow>
      ab_vector (gr_binding g) = rr_current_authority req"
  using assms
  by (auto simp: judge_precondition_def new_precondition_def Let_def invalidates_authority_def classify_eq_0
      same_vector)

lemma judge_dwell:
  fixes n :: u64
  assumes "rr_grant req = Some g"
  shows "fst (judge_precondition ((new_precondition PK_MinimumDwell s)\<lparr>rp_dwell_ticks := n\<rparr>) req p c) = PT_Satisfied \<longleftrightarrow>
    unat (gr_issued_tick g) + unat n \<le> unat (rr_now req)"
proof (cases "rr_now req < gr_issued_tick g")
  case False
  then have sub: "checked_sub (rr_now req) (gr_issued_tick g) = Some (rr_now req - gr_issued_tick g)"
      "unat (rr_now req - gr_issued_tick g) = unat (rr_now req) - unat (gr_issued_tick g)"
      "unat (gr_issued_tick g) \<le> unat (rr_now req)"
    by (simp_all add: checked_sub_def not_less unat_sub word_le_nat_alt)
  then show ?thesis
    using assms False by (auto simp: judge_precondition_def new_precondition_def word_less_nat_alt)
qed (use assms in \<open>auto simp: judge_precondition_def new_precondition_def word_less_nat_alt\<close>)

lemma derived_preconditions_iff:
  assumes "rr_grant req = Some g" and "rr_capability req = Some cap" and "set_invar (sc_original c)"
  shows "list_all (\<lambda>pc. fst (judge_precondition pc req p c) = PT_Satisfied) (make_preconditions c p) \<longleftrightarrow>
    restorable req g c p cap"
proof -
  have binding: "gr_binding g = \<lparr>ab_vector = rr_current_authority req, ab_contract = sc_id c,
      ab_contract_generation = sc_generation c, ab_subject = sc_subject c,
      ab_subject_generation = sc_subject_generation c, ab_scope = ab_scope (gr_binding g)\<rparr> \<longleftrightarrow>
      ab_contract (gr_binding g) = sc_id c \<and> ab_contract_generation (gr_binding g) = sc_generation c \<and>
      ab_subject (gr_binding g) = sc_subject c \<and> ab_subject_generation (gr_binding g) = sc_subject_generation c \<and>
      ab_vector (gr_binding g) = rr_current_authority req"
    by (cases "gr_binding g") auto
  have dwell: "unat (ucast (po_minimum_dwell_ticks p) :: u64) = unat (po_minimum_dwell_ticks p)"
    by simp
  show ?thesis
    unfolding make_preconditions_eq [OF assms(3)] restorable_def binding
    using judge_capability(3) [OF assms(2,3)]
    by (auto simp: judge_capability(1,2) [OF assms(2)] judge_policy judge_grant [OF assms(1)]
        judge_dwell [OF assms(1)] dwell list_all_iff)
qed

text \<open>
  C18. Restoration needs positive proof: whatever preconditions a grant recorded, \<open>evaluate_restoration\<close>
  answers PROVEN only for a valid live grant whose every precondition is satisfied, under evidence that
  is KNOWN now; the original obligation of the contract covers the degraded one.
\<close>

theorem restoration_needs_proof:
  assumes "re_outcome (evaluate_restoration req) = RO_Proven"
  shows "\<exists>g c p cap. rr_grant req = Some g \<and> rr_contract req = Some c \<and> rr_policy req = Some p \<and>
    rr_capability req = Some cap \<and> cs_state cap = ES_Known \<and> Grant_live g \<and> Grant_validate g = EC_Ok \<and>
    ServiceContract_validate c = EC_Ok \<and> Policy_validate p = EC_Ok \<and>
    weakens_or_equals (sc_original c) (gr_degraded g) \<and>
    list_all (\<lambda>pc. fst (judge_precondition pc req p c) = PT_Satisfied) (preconditions_of g c p)"
proof (cases "rr_grant req = None \<or> rr_contract req = None \<or> rr_policy req = None")
  case True
  then have "re_outcome (evaluate_restoration req) = RO_Invalid"
    by (auto simp: evaluate_restoration_def start_restoration_def Let_def split: option.split)
  then show ?thesis
    using assms by simp
next
  case False
  then obtain g c p where "rr_grant req = Some g" "rr_contract req = Some c" "rr_policy req = Some p"
    by auto
  then show ?thesis
    using assms proven_iff by auto
qed


text \<open>A grant of 40 against an original of 60, looked at ten ticks later under a fabric that offers 90.\<close>

definition sample_authority :: AuthorityVector where
  "sample_authority = \<lparr>av_coordinator_term = 1, av_boot = 1, av_fabric = 1, av_capacity = 1, av_policy = 1,
     av_evidence = 1\<rparr>"

definition sample_grant :: Grant where
  "sample_grant = \<lparr>gr_id = 1, gr_decision = 1,
     gr_binding = \<lparr>ab_vector = sample_authority, ab_contract = 2, ab_contract_generation = 1, ab_subject = 1,
       ab_subject_generation = 1, ab_scope = 7\<rparr>,
     gr_service_class = SC_Standard, gr_protected_obligation = False,
     gr_original = [mk_guarantee GK_Bandwidth 60 True], gr_degraded = [mk_guarantee GK_Bandwidth 40 True],
     gr_delta = \<lparr>dl_concessions = [\<lparr>c_kind = GK_Bandwidth, c_original_value = 60, c_approved_value = 40\<rparr>],
       dl_withdrawals = []\<rparr>,
     gr_reason = RC_ConcessionWithinEnvelope, gr_evidence = sample_vector, gr_evidence_state = ES_Known,
     gr_preconditions = [], gr_sequence = 1, gr_last_attempt = 0, gr_issued_tick = 2, gr_expires_tick = 100,
     gr_last_transition_tick = 2, gr_state = GS_Applied, gr_provenance = PC_Synthetic\<rparr>"

definition calm_policy :: Policy where
  "calm_policy = planning_policy\<lparr>po_rules := []\<rparr>"

definition sample_restoration :: RestorationRequest where
  "sample_restoration = \<lparr>rr_grant = Some sample_grant, rr_contract = Some flexible_contract,
     rr_capability = Some sample_capability, rr_evidence = None, rr_policy = Some calm_policy,
     rr_current_authority = sample_authority, rr_fence_active = False, rr_now = 12,
     rr_provenance = PC_Synthetic\<rparr>"

lemma calm_policy_ok: "Policy_validate calm_policy = EC_Ok"
  by (simp add: calm_policy_def planning_policy_def empty_envelope_def sample_policy_def empty_policy_def
      Policy_validate_def status_simps valid_id_def ClassProfile_validate_def
      env_invar_def bound_in_domain_def kMaxBandwidthKbps_def kMaxCollectionItems_def)

lemma sample_grant_ok:
  "Grant_validate sample_grant = EC_Ok" "Grant_live sample_grant"
  "ServiceContract_validate flexible_contract = EC_Ok"
  "restorable sample_restoration sample_grant flexible_contract calm_policy sample_capability"
  subgoal by code_simp
  subgoal by code_simp
  subgoal by code_simp
  subgoal by (simp add: restorable_def sample_restoration_def sample_grant_def sample_authority_def
      calm_policy_def select_rule_def class_profile_def planning_policy_def sample_policy_def empty_policy_def
      flexible_contract_def sample_contract_def sample_capability_def supports_def usable_def mk_guarantee_def
      Guarantee_valid_def kMaxBandwidthKbps_def)
  done

lemma sample_restoration_fields:
  "rr_grant sample_restoration = Some sample_grant" "rr_contract sample_restoration = Some flexible_contract"
  "rr_policy sample_restoration = Some calm_policy" "rr_capability sample_restoration = Some sample_capability"
  "gr_preconditions sample_grant = []" "gr_original sample_grant = sc_original flexible_contract"
  by (simp_all add: sample_restoration_def sample_grant_def flexible_contract_def)


theorem restoration_needs_proof_witness:
  "\<exists>g. rr_grant sample_restoration = Some g \<and> Grant_live g"
proof -
  have "re_outcome (evaluate_restoration sample_restoration) = RO_Proven"
    unfolding proven_iff [OF sample_restoration_fields(1-3)]
    using sample_restoration_fields sample_grant_ok calm_policy_ok
      derived_preconditions_iff [OF sample_restoration_fields(1,4) contract_ok_invar [OF sample_grant_ok(3)]]
    by (auto simp: preconditions_of_def restorable_def usable_def grant_ok_iff)
  from restoration_needs_proof [OF this] show ?thesis
    by blast
qed

end
