(* ===== verification/Codec_Base.thy ===== *)
theory Codec_Base
  imports Bytes
begin

text \<open>
  The shape of \<open>src/codec/codec.cpp\<close>: an encoder is a sequence of writes, a decoder a sequence of reads with
  the status checks between them. The combinators name the statements the decoders are made of, the
  predicate \<open>codes\<close> says that a decoder reads back what an encoder wrote, \<open>delivers\<close> what a decoder
  hands out, and the locale \<open>record_codec\<close> is the contract every type of the file meets.
\<close>

section \<open>Statements of encoders and decoders\<close>

definition write_all :: "(byte_writer \<Rightarrow> byte_writer) list \<Rightarrow> byte_writer \<Rightarrow> byte_writer" where
  "write_all fs w = fold (\<lambda>f. f) fs w"

definition write_each :: "('a \<Rightarrow> byte_writer \<Rightarrow> byte_writer) \<Rightarrow> 'a list \<Rightarrow> byte_writer \<Rightarrow> byte_writer" where
  "write_each put xs w = fold put xs w"

definition write_size :: "'a list \<Rightarrow> byte_writer \<Rightarrow> byte_writer" where
  "write_size xs = ByteWriter_u32 (of_nat (length xs))"

definition write_optional ::
    "('a \<Rightarrow> byte_writer \<Rightarrow> byte_writer) \<Rightarrow> 'a option \<Rightarrow> byte_writer \<Rightarrow> byte_writer" where
  "write_optional put v w =
     (case v of
        None \<Rightarrow> ByteWriter_boolean False w
      | Some x \<Rightarrow> put x (ByteWriter_boolean True w))"

type_synonym 'a getter = "byte_reader \<Rightarrow> 'a \<times> byte_reader"
type_synonym 'a decoder = "byte_reader \<Rightarrow> 'a result \<times> byte_reader"

definition read_optional :: "'a getter \<Rightarrow> 'a option getter" where
  "read_optional get r =
     (case ByteReader_boolean r of
        (True, r') \<Rightarrow> (case get r' of (x, r'') \<Rightarrow> (Some x, r''))
      | (False, r') \<Rightarrow> (None, r'))"

primrec read_many :: "nat \<Rightarrow> 'a getter \<Rightarrow> 'a list getter" where
  "read_many 0 get r = ([], r)"
| "read_many (Suc n) get r =
     (case get r of (x, r') \<Rightarrow> case read_many n get r' of (xs, r'') \<Rightarrow> (x # xs, r''))"

definition dec_return :: "'a \<Rightarrow> 'a decoder" where
  "dec_return v r = (Inr v, r)"

definition dec_fail :: "error_code \<Rightarrow> 'a decoder" where
  "dec_fail e r = (Inl e, r)"

text \<open>A read that cannot fail by itself: the reader remembers the error.\<close>

definition dec_field :: "'b getter \<Rightarrow> ('b \<Rightarrow> 'a decoder) \<Rightarrow> 'a decoder" where
  "dec_field get k r = (case get r of (x, r') \<Rightarrow> k x r')"

text \<open>\<open>if (!reader.ok()) return Status(reader.error());\<close>\<close>

definition dec_ok :: "'a decoder \<Rightarrow> 'a decoder" where
  "dec_ok d r = (if br_ok r then d r else (Inl (br_error r), r))"

text \<open>\<open>status = decode(reader, x); if (!status.ok()) return status;\<close>\<close>

definition dec_sub :: "'b decoder \<Rightarrow> ('b \<Rightarrow> 'a decoder) \<Rightarrow> 'a decoder" where
  "dec_sub d k r = (case d r of (Inl e, r') \<Rightarrow> (Inl e, r') | (Inr x, r') \<Rightarrow> k x r')"

text \<open>\<open>status = candidate.validate(); if (!status.ok()) return status;\<close> and \<open>return bad(...)\<close>.\<close>

definition dec_check :: "status \<Rightarrow> 'a decoder \<Rightarrow> 'a decoder" where
  "dec_check s d = (if s = EC_Ok then d else dec_fail s)"

definition dec_guard :: "bool \<Rightarrow> 'a decoder \<Rightarrow> 'a decoder" where
  "dec_guard c d = (if c then d else dec_fail EC_Invalid)"

text \<open>The counted loops: \<open>add\<close> is \<open>push_back\<close> or a fallible \<open>insert\<close>.\<close>

primrec dec_loop :: "nat \<Rightarrow> 'b decoder \<Rightarrow> ('b \<Rightarrow> 's \<Rightarrow> 's result) \<Rightarrow> 's \<Rightarrow> 's decoder" where
  "dec_loop 0 d add s = dec_return s"
| "dec_loop (Suc n) d add s =
     dec_sub d (\<lambda>x. case add x s of Inl e \<Rightarrow> dec_fail e | Inr s' \<Rightarrow> dec_loop n d add s')"

definition push_back :: "'a \<Rightarrow> 'a list \<Rightarrow> 'a list result" where
  "push_back x xs = Inr (xs @ [x])"

definition dec_items ::
    "u32 \<Rightarrow> 'b decoder \<Rightarrow> ('b \<Rightarrow> 's \<Rightarrow> 's result) \<Rightarrow> 's \<Rightarrow> ('s \<Rightarrow> 'a decoder) \<Rightarrow> 'a decoder" where
  "dec_items limit d add s k =
     dec_field (ByteReader_count limit) (\<lambda>n. dec_ok (dec_sub (dec_loop (unat n) d add s) k))"

definition dec_values :: "u32 \<Rightarrow> 'b getter \<Rightarrow> ('b list \<Rightarrow> 'a decoder) \<Rightarrow> 'a decoder" where
  "dec_values limit get k =
     dec_field (ByteReader_count limit) (\<lambda>n. dec_ok (dec_field (read_many (unat n) get) k))"

definition decode_finish :: "byte_reader \<Rightarrow> status" where
  "decode_finish r =
     (if \<not> br_ok r then br_error r
      else if \<not> ByteReader_at_end r then EC_TrailingGarbage
      else EC_Ok)"

section \<open>Reading back\<close>

definition emits :: "(byte_writer \<Rightarrow> byte_writer) \<Rightarrow> u8 list \<Rightarrow> bool" where
  "emits f bs \<longleftrightarrow> (\<forall>w. bw_ok (f w) \<longrightarrow> f w = w\<lparr>bw_data := bw_data w @ bs\<rparr>)"

definition stands_at :: "byte_reader \<Rightarrow> u8 list \<Rightarrow> bool" where
  "stands_at r bs \<longleftrightarrow> br_ok r \<and> (\<exists>rest. drop (br_position r) (br_data r) = bs @ rest)"

definition past :: "u8 list \<Rightarrow> byte_reader \<Rightarrow> byte_reader" where
  "past bs r = r\<lparr>br_position := br_position r + length bs\<rparr>"

definition gets :: "'a getter \<Rightarrow> u8 list \<Rightarrow> 'a \<Rightarrow> bool" where
  "gets get bs v \<longleftrightarrow> (\<forall>r. stands_at r bs \<longrightarrow> get r = (v, past bs r))"

definition reads :: "'a decoder \<Rightarrow> u8 list \<Rightarrow> 'a \<Rightarrow> bool" where
  "reads d bs v \<longleftrightarrow> (\<forall>r. stands_at r bs \<longrightarrow> d r = (Inr v, past bs r))"

text \<open>A field written and got back; a value encoded and decoded back.\<close>

definition field_codes :: "(byte_writer \<Rightarrow> byte_writer) \<Rightarrow> 'a getter \<Rightarrow> 'a \<Rightarrow> bool" where
  "field_codes f get v \<longleftrightarrow> (\<exists>bs. emits f bs \<and> gets get bs v)"

definition codes :: "(byte_writer \<Rightarrow> byte_writer) \<Rightarrow> 'a decoder \<Rightarrow> 'a \<Rightarrow> bool" where
  "codes f d v \<longleftrightarrow> (\<exists>bs. emits f bs \<and> reads d bs v)"

lemma stands_at_append: "stands_at r (as @ bs) \<Longrightarrow> stands_at r as \<and> stands_at (past as r) bs"
proof -
  assume s: "stands_at r (as @ bs)"
  then obtain rest where d: "drop (br_position r) (br_data r) = as @ bs @ rest"
    by (auto simp: stands_at_def)
  have "drop (br_position r + length as) (br_data r) = drop (length as) (drop (br_position r) (br_data r))"
    by (simp add: add.commute)
  also have "\<dots> = bs @ rest"
    unfolding d by simp
  finally show ?thesis
    using s d by (auto simp: stands_at_def past_def)
qed

lemma past_append: "past bs (past as r) = past (as @ bs) r"
  by (simp add: past_def)

lemma past_Nil [simp]: "past [] r = r"
  by (simp add: past_def)

lemma emits_Nil: "emits (write_all []) []"
  by (simp add: emits_def write_all_def)

lemma emits_Cons: "emits f as \<Longrightarrow> emits (write_all fs) bs \<Longrightarrow> emits (write_all (f # fs)) (as @ bs)"
proof -
  assume f: "emits f as" and fs: "emits (write_all fs) bs"
  show ?thesis
    unfolding emits_def
  proof (intro allI impI)
    fix w assume ok: "bw_ok (write_all (f # fs) w)"
    then have "write_all fs (f w) = (f w)\<lparr>bw_data := bw_data (f w) @ bs\<rparr>"
      using fs by (simp add: emits_def write_all_def)
    moreover from this ok have "bw_ok (f w)"
      by (simp add: write_all_def)
    then have "f w = w\<lparr>bw_data := bw_data w @ as\<rparr>"
      using f by (simp add: emits_def)
    ultimately show "write_all (f # fs) w = w\<lparr>bw_data := bw_data w @ as @ bs\<rparr>"
      by (simp add: write_all_def)
  qed
qed

lemma write_each_Cons: "write_each put (x # xs) = write_all [put x, write_each put xs]"
  by (simp add: fun_eq_iff write_all_def write_each_def)

lemma write_each_Nil: "write_each put [] = write_all []"
  by (simp add: fun_eq_iff write_all_def write_each_def)

lemma emits_single: "emits (write_all [f]) bs \<longleftrightarrow> emits f bs"
  by (simp add: emits_def write_all_def)

text \<open>The fields.\<close>

lemma ByteWriter_raw_emits: "emits (ByteWriter_raw bs) bs"
  by (simp add: emits_def ByteWriter_raw_ok)

lemma field_codes_put_get:
  assumes "field_codec put get enc (\<lambda>_ _. True)" and "emits (put v) (enc v)"
  shows "field_codes (put v) get v"
  unfolding field_codes_def gets_def stands_at_def past_def
  using assms field_codec.get_enc [OF assms(1)] by blast

lemma field_codes_u64: "field_codes (ByteWriter_u64 v) ByteReader_u64 v"
  by (rule field_codes_put_get [OF u64_field.field_codec_axioms])
    (simp add: ByteWriter_u64_def [abs_def] ByteWriter_raw_emits)

lemma field_codes_u32: "field_codes (ByteWriter_u32 v) ByteReader_u32 v"
  by (rule field_codes_put_get [OF u32_field.field_codec_axioms])
    (simp add: ByteWriter_u32_def [abs_def] ByteWriter_raw_emits)

lemma field_codes_bool: "field_codes (ByteWriter_boolean v) ByteReader_boolean v"
  by (rule field_codes_put_get [OF bool_field.field_codec_axioms])
    (simp add: ByteWriter_boolean_def [abs_def] ByteWriter_u8_def enc_bool_def le_bytes_u8 ByteWriter_raw_emits)

lemma field_codes_enum: "wire_enum code all \<Longrightarrow> field_codes (write_enum code v) (read_enum code all fallback) v"
  by (rule field_codes_put_get [OF enum_field_codec])
    (simp_all add: write_enum_def [abs_def] ByteWriter_u16_def ByteWriter_raw_emits)

lemma unat_u32_bound: "unat (x :: u32) < 2 ^ 32"
  using unsigned_less [of x] by simp

lemma unat_of_nat_le: "n \<le> unat limit \<Longrightarrow> unat (of_nat n :: u32) = n" for limit :: u32
  using unat_u32_bound [of limit] by (simp add: unat_of_nat take_bit_nat_eq_self)

lemma field_codes_count:
  assumes "length xs \<le> unat limit"
  shows "field_codes (write_size xs) (ByteReader_count limit) (of_nat (length xs))"
proof -
  have "unat (of_nat (length xs) :: u32) = length xs"
    using assms by (rule unat_of_nat_le)
  then have le: "\<not> limit < (of_nat (length xs) :: u32)"
    using assms by (simp add: word_less_nat_alt)
  obtain bs where bs: "emits (write_size xs) bs" "gets ByteReader_u32 bs (of_nat (length xs))"
    using field_codes_u32 by (auto simp: field_codes_def write_size_def)
  have "gets (ByteReader_count limit) bs (of_nat (length xs))"
    unfolding gets_def
  proof (intro allI impI)
    fix r assume r: "stands_at r bs"
    then have "ByteReader_u32 r = (of_nat (length xs), past bs r)" and "br_ok r" and "br_ok (past bs r)"
      using bs(2) by (simp_all add: gets_def stands_at_def past_def)
    then show "ByteReader_count limit r = (of_nat (length xs), past bs r)"
      using le by (simp add: ByteReader_count_def)
  qed
  with bs(1) show ?thesis
    by (auto simp: field_codes_def)
qed

lemma field_codes_optional:
  assumes "\<And>x. v = Some x \<Longrightarrow> field_codes (put x) get x"
  shows "field_codes (write_optional put v) (read_optional get) v"
proof (cases v)
  case None
  obtain bs where "emits (ByteWriter_boolean False) bs" "gets ByteReader_boolean bs False"
    using field_codes_bool by (auto simp: field_codes_def)
  then show ?thesis
    using None by (auto simp: field_codes_def gets_def read_optional_def write_optional_def [abs_def])
next
  case (Some x)
  obtain as where as: "emits (ByteWriter_boolean True) as" "gets ByteReader_boolean as True"
    using field_codes_bool by (auto simp: field_codes_def)
  obtain bs where bs: "emits (put x) bs" "gets get bs x"
    using assms [OF Some] by (auto simp: field_codes_def)
  have "write_optional put v = write_all [ByteWriter_boolean True, put x]"
    using Some by (simp add: fun_eq_iff write_optional_def write_all_def)
  then have "emits (write_optional put v) (as @ bs)"
    using emits_Cons [OF as(1)] bs(1) by (simp add: emits_single)
  moreover have "gets (read_optional get) (as @ bs) v"
    using as(2) bs(2) Some
    by (auto simp: gets_def read_optional_def past_append dest!: stands_at_append)
  ultimately show ?thesis
    by (auto simp: field_codes_def)
qed

lemma field_codes_many:
  assumes "\<And>x. x \<in> set xs \<Longrightarrow> field_codes (put x) get x"
  shows "field_codes (write_each put xs) (read_many (length xs) get) xs"
  using assms
proof (induction xs)
  case Nil
  show ?case
    using emits_Nil by (auto simp: field_codes_def gets_def write_each_Nil intro!: exI [of _ "[]"])
next
  case (Cons x xs)
  obtain as where as: "emits (put x) as" "gets get as x"
    using Cons.prems by (force simp: field_codes_def)
  obtain bs where bs: "emits (write_each put xs) bs" "gets (read_many (length xs) get) bs xs"
    using Cons by (force simp: field_codes_def)
  have "emits (write_each put (x # xs)) (as @ bs)"
    unfolding write_each_Cons using emits_Cons [OF as(1)] bs(1) by (simp add: emits_single)
  moreover have "gets (read_many (length (x # xs)) get) (as @ bs) (x # xs)"
    using as(2) bs(2) by (auto simp: gets_def past_append dest!: stands_at_append)
  ultimately show ?case
    unfolding field_codes_def by blast
qed

lemmas field_codes_intros = field_codes_u64 field_codes_u32 field_codes_bool field_codes_enum

text \<open>The statements of a decoder against those of the encoder.\<close>

lemma codes_return: "v = x \<Longrightarrow> codes (write_all []) (dec_return x) v"
  using emits_Nil by (auto simp: codes_def reads_def dec_return_def intro!: exI [of _ "[]"])

lemma codes_field:
  assumes "field_codes f get x" and "codes (write_all fs) (k x) v"
  shows "codes (write_all (f # fs)) (dec_field get k) v"
proof -
  obtain as bs where b: "emits f as" "gets get as x" "emits (write_all fs) bs" "reads (k x) bs v"
    using assms by (auto simp: field_codes_def codes_def)
  then have "reads (dec_field get k) (as @ bs) v"
    by (auto simp: reads_def gets_def dec_field_def past_append dest!: stands_at_append)
  then show ?thesis
    using emits_Cons [OF b(1,3)] by (auto simp: codes_def)
qed

lemma codes_sub:
  assumes "codes f d x" and "codes (write_all fs) (k x) v"
  shows "codes (write_all (f # fs)) (dec_sub d k) v"
proof -
  obtain as bs where b: "emits f as" "reads d as x" "emits (write_all fs) bs" "reads (k x) bs v"
    using assms by (auto simp: codes_def)
  then have "reads (dec_sub d k) (as @ bs) v"
    by (auto simp: reads_def dec_sub_def past_append dest!: stands_at_append)
  then show ?thesis
    using emits_Cons [OF b(1,3)] by (auto simp: codes_def)
qed

lemmas codes_u64 = codes_field [OF field_codes_u64]
lemmas codes_u32 = codes_field [OF field_codes_u32]
lemmas codes_bool = codes_field [OF field_codes_bool]
lemmas codes_enum = codes_field [OF field_codes_enum]
lemmas codes_optional = codes_field [OF field_codes_optional]

lemma codes_ok: "codes f d v \<Longrightarrow> codes f (dec_ok d) v"
  by (auto simp: codes_def reads_def dec_ok_def stands_at_def)

lemma codes_check: "s = EC_Ok \<Longrightarrow> codes f d v \<Longrightarrow> codes f (dec_check s d) v"
  by (simp add: dec_check_def)

lemma codes_guard: "c \<Longrightarrow> codes f d v \<Longrightarrow> codes f (dec_guard c d) v"
  by (simp add: dec_guard_def)

lemma codes_let_guard:
  "x = v \<Longrightarrow> P v \<Longrightarrow> codes (write_all []) (let c = x in dec_guard (P c) (dec_return c)) v"
  by (simp add: dec_guard_def codes_return)

lemma codes_let_check:
  "x = v \<Longrightarrow> S v = EC_Ok \<Longrightarrow> codes (write_all []) (let c = x in dec_check (S c) (dec_return c)) v"
  by (simp add: dec_check_def codes_return)

text \<open>The loop: \<open>add_all\<close> is what its body does to the accumulator.\<close>

primrec add_all :: "('b \<Rightarrow> 's \<Rightarrow> 's result) \<Rightarrow> 'b list \<Rightarrow> 's \<Rightarrow> 's result" where
  "add_all add [] s = Inr s"
| "add_all add (x # xs) s = (case add x s of Inl e \<Rightarrow> Inl e | Inr s' \<Rightarrow> add_all add xs s')"

lemma add_all_push_back: "add_all push_back xs ys = Inr (ys @ xs)"
  by (induction xs arbitrary: ys) (simp_all add: push_back_def)

lemma codes_loop:
  assumes "\<And>x. x \<in> set xs \<Longrightarrow> codes (put x) d x" and "add_all add xs s = Inr t"
  shows "codes (write_each put xs) (dec_loop (length xs) d add s) t"
  using assms
proof (induction xs arbitrary: s)
  case Nil
  then show ?case
    by (simp add: write_each_Nil codes_return)
next
  case (Cons x xs)
  obtain s' where s': "add x s = Inr s'" "add_all add xs s' = Inr t"
    using Cons.prems(2) by (auto split: sum.splits)
  have "codes (write_all [write_each put xs]) (dec_loop (length xs) d add s') t"
    using Cons.IH [OF _ s'(2)] Cons.prems(1) by (simp add: codes_def emits_single)
  then show ?case
    unfolding write_each_Cons using Cons.prems(1) s'(1) by (auto intro!: codes_sub)
qed

lemma codes_items:
  assumes "length xs \<le> unat limit" and "\<And>x. x \<in> set xs \<Longrightarrow> codes (put x) d x"
    and "add_all add xs s = Inr t" and "codes (write_all fs) (k t) v"
  shows "codes (write_all (write_size xs # write_each put xs # fs)) (dec_items limit d add s k) v"
proof -
  have "unat (of_nat (length xs) :: u32) = length xs"
    using assms(1) by (rule unat_of_nat_le)
  then have "codes (write_each put xs) (dec_loop (unat (of_nat (length xs) :: u32)) d add s) t"
    using codes_loop [OF assms(2,3)] by simp
  then show ?thesis
    unfolding dec_items_def
    by (intro codes_field [OF field_codes_count] codes_ok codes_sub) (use assms(1,4) in simp_all)
qed

lemma codes_list:
  assumes "length xs \<le> unat limit" and "\<And>x. x \<in> set xs \<Longrightarrow> codes (put x) d x" and "codes (write_all fs) (k xs) v"
  shows "codes (write_all (write_size xs # write_each put xs # fs)) (dec_items limit d push_back [] k) v"
  using assms by (intro codes_items) (simp_all add: add_all_push_back)

lemma codes_fields_list:
  assumes "length xs \<le> unat limit" and "\<And>x. x \<in> set xs \<Longrightarrow> field_codes (put x) get x"
    and "codes (write_all fs) (k xs) v"
  shows "codes (write_all (write_size xs # write_each put xs # fs))
    (dec_values limit get k) v"
proof -
  have "unat (of_nat (length xs) :: u32) = length xs"
    using assms(1) by (rule unat_of_nat_le)
  then have "field_codes (write_each put xs) (read_many (unat (of_nat (length xs) :: u32)) get) xs"
    using field_codes_many [OF assms(2)] by simp
  then show ?thesis
    unfolding dec_values_def
    by (intro codes_field [OF field_codes_count] codes_ok codes_field) (use assms(1,3) in simp_all)
qed

lemmas codes_intros = codes_u64 codes_u32 codes_bool codes_enum codes_optional codes_fields_list codes_return codes_ok
  codes_let_guard codes_let_check codes_check codes_guard field_codes_intros

section \<open>What a decoder hands out\<close>

definition advances :: "'a getter \<Rightarrow> bool" where
  "advances get \<longleftrightarrow> (\<forall>r. br_position r \<le> length (br_data r) \<longrightarrow> reader_advances r (snd (get r)))"

text \<open>From a reader inside its buffer, and one that is ok if \<open>ok\<close>: the decoder stays inside the buffer, and
  a value it returns satisfies \<open>P\<close> and leaves the reader ok.\<close>

definition delivers_from :: "bool \<Rightarrow> 'a decoder \<Rightarrow> ('a \<Rightarrow> bool) \<Rightarrow> bool" where
  "delivers_from ok d P \<longleftrightarrow>
     (\<forall>r. br_position r \<le> length (br_data r) \<and> (ok \<longrightarrow> br_ok r) \<longrightarrow>
        reader_advances r (snd (d r)) \<and> (\<forall>v. fst (d r) = Inr v \<longrightarrow> br_ok (snd (d r)) \<and> P v))"

abbreviation delivers :: "'a decoder \<Rightarrow> ('a \<Rightarrow> bool) \<Rightarrow> bool" where
  "delivers \<equiv> delivers_from False"

lemma reader_advances_refl: "br_position r \<le> length (br_data r) \<Longrightarrow> reader_advances r r"
  by (simp add: reader_advances_def)

lemma advances_le: "advances (ByteReader_le n)"
  by (simp add: advances_def reader_advances_le)

lemma advances_fields: "advances ByteReader_u64" "advances ByteReader_u32" "advances ByteReader_u16"
  "advances ByteReader_boolean" "advances (ByteReader_count limit)"
  using advances_le reader_advances_boolean reader_advances_blob
  by (simp_all add: ByteReader_u64_def [abs_def] ByteReader_u32_def [abs_def] ByteReader_u16_def [abs_def]
      advances_def)

lemma advances_step: "advances get \<Longrightarrow> get r = (x, r') \<Longrightarrow> br_position r \<le> length (br_data r) \<Longrightarrow> reader_advances r r'"
  unfolding advances_def by (metis snd_conv)

lemma advances_enum: "advances (read_enum code all fallback)"
  unfolding advances_def
proof (intro allI impI)
  fix r :: byte_reader assume r: "br_position r \<le> length (br_data r)"
  obtain v r' where v: "ByteReader_u16 r = (v, r')"
    by (cases "ByteReader_u16 r")
  then have adv: "reader_advances r r'"
    using advances_step [OF advances_fields(3) _ r] by blast
  then show "reader_advances r (snd (read_enum code all fallback r))"
    using v reader_advances_trans [OF adv reader_advances_fail [OF reader_advances_bound [OF adv]]]
    by (auto simp: read_enum_def split: option.split)
qed

lemma advances_optional:
  assumes "advances get"
  shows "advances (read_optional get)"
  unfolding advances_def
proof (intro allI impI)
  fix r :: byte_reader assume r: "br_position r \<le> length (br_data r)"
  obtain b r' where b: "ByteReader_boolean r = (b, r')"
    by (cases "ByteReader_boolean r")
  obtain x r'' where x: "get r' = (x, r'')"
    by (cases "get r'")
  have adv: "reader_advances r r'"
    using advances_step [OF advances_fields(4) b r] .
  then have "reader_advances r' r''"
    using advances_step [OF assms x] reader_advances_bound by blast
  then show "reader_advances r (snd (read_optional get r))"
    using b x adv reader_advances_trans [OF adv] by (cases b) (auto simp: read_optional_def)
qed

lemma advances_many:
  assumes "advances get"
  shows "advances (read_many n get)"
proof (induction n)
  case (Suc n)
  show ?case
    unfolding advances_def
  proof (intro allI impI)
    fix r :: byte_reader assume r: "br_position r \<le> length (br_data r)"
    obtain x r' where x: "get r = (x, r')"
      by (cases "get r")
    obtain xs r'' where xs: "read_many n get r' = (xs, r'')"
      by (cases "read_many n get r'")
    have adv: "reader_advances r r'"
      using advances_step [OF assms x r] .
    then have "reader_advances r' r''"
      using advances_step [OF Suc xs] reader_advances_bound by blast
    then show "reader_advances r (snd (read_many (Suc n) get r))"
      using x xs reader_advances_trans [OF adv] by simp
  qed
qed (simp add: advances_def reader_advances_refl)

lemmas advances_intros = advances_fields advances_enum advances_optional advances_many

lemma delivers_return: "P v \<Longrightarrow> delivers_from True (dec_return v) P"
  by (simp add: delivers_from_def dec_return_def reader_advances_refl)

lemma delivers_fail: "delivers_from ok (dec_fail e) P"
  by (simp add: delivers_from_def dec_fail_def reader_advances_refl)

lemma delivers_weaken: "delivers_from False d P \<Longrightarrow> delivers_from ok d P"
  by (auto simp: delivers_from_def)

lemma delivers_field:
  assumes "advances get" and "\<And>x. delivers (k x) P"
  shows "delivers_from ok (dec_field get k) P"
  unfolding delivers_from_def
proof (intro allI impI)
  fix r :: byte_reader assume r: "br_position r \<le> length (br_data r) \<and> (ok \<longrightarrow> br_ok r)"
  obtain x r' where x: "get r = (x, r')"
    by (cases "get r")
  then have adv: "reader_advances r r'"
    using advances_step [OF assms(1)] r by blast
  then show "reader_advances r (snd (dec_field get k r)) \<and>
      (\<forall>v. fst (dec_field get k r) = Inr v \<longrightarrow> br_ok (snd (dec_field get k r)) \<and> P v)"
    using assms(2) [of x] reader_advances_bound [OF adv] reader_advances_trans [OF adv]
    by (simp add: dec_field_def x delivers_from_def)
qed

lemma delivers_sub:
  assumes "delivers_from ok d Q" and "\<And>x. Q x \<Longrightarrow> delivers_from True (k x) P"
  shows "delivers_from ok (dec_sub d k) P"
  unfolding delivers_from_def
proof (intro allI impI)
  fix r :: byte_reader assume r: "br_position r \<le> length (br_data r) \<and> (ok \<longrightarrow> br_ok r)"
  obtain res r' where res: "d r = (res, r')"
    by (cases "d r")
  then have adv: "reader_advances r r'" and q: "\<And>x. res = Inr x \<Longrightarrow> br_ok r' \<and> Q x"
    using assms(1) r by (auto simp: delivers_from_def)
  show "reader_advances r (snd (dec_sub d k r)) \<and>
      (\<forall>v. fst (dec_sub d k r) = Inr v \<longrightarrow> br_ok (snd (dec_sub d k r)) \<and> P v)"
  proof (cases res)
    case (Inl e)
    then show ?thesis
      using adv by (simp add: dec_sub_def res)
  next
    case (Inr x)
    then show ?thesis
      using assms(2) [of x] q [OF Inr] reader_advances_bound [OF adv] reader_advances_trans [OF adv]
      by (auto simp: dec_sub_def res delivers_from_def)
  qed
qed

lemma delivers_ok: "delivers_from True d P \<Longrightarrow> delivers_from ok (dec_ok d) P"
  by (auto simp: delivers_from_def dec_ok_def reader_advances_refl)

lemma delivers_check: "(s = EC_Ok \<Longrightarrow> delivers_from ok d P) \<Longrightarrow> delivers_from ok (dec_check s d) P"
  by (simp add: dec_check_def delivers_fail)

lemma delivers_guard: "(c \<Longrightarrow> delivers_from ok d P) \<Longrightarrow> delivers_from ok (dec_guard c d) P"
  by (simp add: dec_guard_def delivers_fail)

lemma delivers_let_guard:
  "(P x \<Longrightarrow> Q x) \<Longrightarrow> delivers_from True (let c = x in dec_guard (P c) (dec_return c)) Q"
  by (simp add: dec_guard_def delivers_return delivers_fail)

lemma delivers_let_check:
  "(S x = EC_Ok \<Longrightarrow> Q x) \<Longrightarrow> delivers_from True (let c = x in dec_check (S c) (dec_return c)) Q"
  by (simp add: dec_check_def delivers_return delivers_fail)

text \<open>A counted loop keeps an invariant of its accumulator.\<close>

lemma delivers_loop:
  assumes "delivers d Q" and "\<And>x i s s'. Q x \<Longrightarrow> I i s \<Longrightarrow> add x s = Inr s' \<Longrightarrow> I (Suc i) s'" and "I i s"
  shows "delivers_from True (dec_loop n d add s) (I (i + n))"
  using assms(3)
proof (induction n arbitrary: i s)
  case (Suc n)
  have "delivers_from True (case add x s of Inl e \<Rightarrow> dec_fail e | Inr s' \<Rightarrow> dec_loop n d add s') (I (i + Suc n))"
    if "Q x" for x
    using Suc.IH [of "Suc i"] assms(2) [OF that Suc.prems] by (cases "add x s") (simp_all add: delivers_fail)
  then show ?case
    unfolding dec_loop.simps by (rule delivers_sub [OF delivers_weaken [OF assms(1)]])
qed (simp add: delivers_return)

lemma advances_count_le: "fst (ByteReader_count limit r) \<le> limit"
  by (simp add: ByteReader_count_def not_less split: prod.split)

lemma delivers_items:
  assumes "delivers d Q" and "\<And>x i s s'. Q x \<Longrightarrow> I i s \<Longrightarrow> add x s = Inr s' \<Longrightarrow> I (Suc i) s'" and "I 0 s"
    and "\<And>n t. n \<le> unat limit \<Longrightarrow> I n t \<Longrightarrow> delivers_from True (k t) P"
  shows "delivers_from ok (dec_items limit d add s k) P"
proof -
  have step: "delivers (dec_ok (dec_sub (dec_loop (unat n) d add s) k)) P" if "n \<le> limit" for n
    using delivers_loop [where I = I and i = 0, OF assms(1,2,3)] assms(4) that
    by (intro delivers_ok delivers_sub [where Q = "I (unat n)"]) (simp_all add: word_le_nat_alt)
  have "dec_items limit d add s k =
      dec_field (ByteReader_count limit) (\<lambda>n. if n \<le> limit then dec_ok (dec_sub (dec_loop (unat n) d add s) k)
        else dec_fail EC_Invalid)"
    using advances_count_le [of limit] by (simp add: fun_eq_iff dec_items_def dec_field_def split: prod.split) (metis fst_conv)
  then show ?thesis
    by (simp add: delivers_field advances_fields step delivers_fail)
qed

lemma delivers_list:
  assumes "delivers d Q" and "\<And>xs. length xs \<le> unat limit \<Longrightarrow> list_all Q xs \<Longrightarrow> delivers_from True (k xs) P"
  shows "delivers_from ok (dec_items limit d push_back [] k) P"
  by (rule delivers_items [where I = "\<lambda>i xs. length xs = i \<and> list_all Q xs", OF assms(1)])
    (use assms(2) in \<open>auto simp: push_back_def\<close>)

lemma read_many_length: "length (fst (read_many n get r)) = n"
  by (induction n arbitrary: r) (simp_all split: prod.split, metis fst_conv)

lemma delivers_fields_list:
  assumes "advances get" and "\<And>xs. length xs \<le> unat limit \<Longrightarrow> delivers (k xs) P"
  shows "delivers_from ok (dec_values limit get k) P"
proof -
  have "dec_values limit get k =
      dec_field (ByteReader_count limit) (\<lambda>n. dec_ok (dec_field (read_many (unat n) get)
        (\<lambda>xs. if length xs \<le> unat limit then k xs else dec_fail EC_Invalid)))"
    using advances_count_le [of limit] read_many_length [of _ get]
    by (simp add: fun_eq_iff dec_values_def dec_field_def dec_ok_def word_le_nat_alt split: prod.split) (metis fst_conv)
  then show ?thesis
    using assms by (simp add: delivers_field advances_fields advances_many delivers_ok delivers_fail)
qed

lemmas delivers_intros = delivers_fields_list delivers_field advances_intros delivers_ok delivers_let_guard
  delivers_let_check delivers_check delivers_guard delivers_return

section \<open>The contract of a codec\<close>

text \<open>What a store or a socket relies on: a value whose encoding the writer accepted is read back from
  those bytes with nothing left over, and whatever bytes arrive, a decoder stays inside its buffer and
  hands out only values of its domain.\<close>

definition round_trips :: "('a \<Rightarrow> byte_writer \<Rightarrow> byte_writer) \<Rightarrow> 'a decoder \<Rightarrow> 'a \<Rightarrow> bool" where
  "round_trips encode decode v \<longleftrightarrow>
     (\<forall>t m m'. bw_ok (encode v (new_writer t m)) \<longrightarrow>
        (\<exists>r. decode (new_reader (bw_data (encode v (new_writer t m))) m') = (Inr v, r) \<and>
             decode_finish r = EC_Ok))"

definition decodes_safely :: "'a decoder \<Rightarrow> ('a \<Rightarrow> bool) \<Rightarrow> u8 list \<Rightarrow> nat \<Rightarrow> bool" where
  "decodes_safely decode valid bs m \<longleftrightarrow>
     (case decode (new_reader bs m) of (res, r) \<Rightarrow>
        br_data r = bs \<and> br_position r \<le> length bs \<and>
        (case res of Inl _ \<Rightarrow> True | Inr v \<Rightarrow> valid v \<and> br_ok r))"

text \<open>\<open>valid\<close> is the exact domain: valid values survive the round trip, and whatever bytes arrive, the
  decoder hands out nothing else.\<close>

locale record_codec =
  fixes encode :: "'a \<Rightarrow> byte_writer \<Rightarrow> byte_writer"
    and decode :: "'a decoder"
    and valid :: "'a \<Rightarrow> bool"
  assumes codes_valid: "valid v \<Longrightarrow> codes (encode v) decode v"
    and delivers_valid: "delivers decode valid"
begin

lemma codes_then:
  "valid x \<Longrightarrow> codes (write_all fs) (k x) v \<Longrightarrow> codes (write_all (encode x # fs)) (dec_sub decode k) v"
  by (rule codes_sub [OF codes_valid])

lemma codes_list_then:
  "length xs \<le> unat limit \<Longrightarrow> list_all valid xs \<Longrightarrow> codes (write_all fs) (k xs) v \<Longrightarrow>
   codes (write_all (write_size xs # write_each encode xs # fs)) (dec_items limit decode push_back [] k) v"
  by (rule codes_list) (simp_all add: codes_valid list_all_iff)

lemma delivers_then:
  "(\<And>x. valid x \<Longrightarrow> delivers_from True (k x) P) \<Longrightarrow> delivers_from ok (dec_sub decode k) P"
  by (rule delivers_sub [OF delivers_weaken [OF delivers_valid]])

lemma delivers_list_then:
  "(\<And>xs. length xs \<le> unat limit \<Longrightarrow> list_all valid xs \<Longrightarrow> delivers_from True (k xs) P) \<Longrightarrow>
   delivers_from ok (dec_items limit decode push_back [] k) P"
  by (rule delivers_list [OF delivers_valid])

lemma decode_encode:
  assumes "valid v" and "bw_ok (encode v (new_writer t m))"
  shows "\<exists>r. decode (new_reader (bw_data (encode v (new_writer t m))) m') = (Inr v, r) \<and> decode_finish r = EC_Ok"
proof -
  obtain bs where bs: "emits (encode v) bs" "reads decode bs v"
    using codes_valid [OF assms(1)] by (auto simp: codes_def)
  then have "encode v (new_writer t m) = (new_writer t m)\<lparr>bw_data := bw_data (new_writer t m) @ bs\<rparr>"
    using assms(2) by (simp only: emits_def)
  then have data: "bw_data (encode v (new_writer t m)) = bs"
    by (simp add: new_writer_def)
  have "stands_at (new_reader bs m') bs"
    by (simp add: stands_at_def new_reader_def)
  then have "decode (new_reader bs m') = (Inr v, past bs (new_reader bs m'))"
    using bs(2) by (simp add: reads_def)
  then show ?thesis
    unfolding data by (simp add: decode_finish_def past_def new_reader_def ByteReader_at_end_def)
qed

lemma encode_inj:
  assumes "valid v" and "valid v'" and "bw_ok (encode v (new_writer t m))" and "bw_ok (encode v' (new_writer t m))"
    and "bw_data (encode v (new_writer t m)) = bw_data (encode v' (new_writer t m))"
  shows "v = v'"
  using decode_encode [OF assms(1,3)] decode_encode [OF assms(2,4)] assms(5) by (metis Inr_inject prod.inject)

lemma decode_new:
  assumes "decode (new_reader bs m) = (res, r)"
  shows "reader_advances (new_reader bs m) r" "res = Inr v \<Longrightarrow> br_ok r \<and> valid v"
proof -
  have "br_position (new_reader bs m) \<le> length (br_data (new_reader bs m))"
    by (simp add: new_reader_def)
  then show "reader_advances (new_reader bs m) r" "res = Inr v \<Longrightarrow> br_ok r \<and> valid v"
    using delivers_valid assms unfolding delivers_from_def by (metis fst_conv snd_conv)+
qed

lemma decode_valid: "decode (new_reader bs m) = (Inr v, r) \<Longrightarrow> valid v \<and> br_ok r"
  using decode_new(2) by blast

lemma decode_bounds: "decode (new_reader bs m) = (res, r) \<Longrightarrow> br_data r = bs \<and> br_position r \<le> length bs"
  using decode_new(1) by (fastforce simp: new_reader_def reader_advances_def)

lemma round: "valid v \<Longrightarrow> round_trips encode decode v"
  using decode_encode by (simp add: round_trips_def)

lemma safe: "decodes_safely decode valid bs m"
  using decode_bounds [of bs m] decode_valid [of bs m]
  by (auto simp: decodes_safely_def split: prod.split sum.split)

end

end
