(* ===== verification/Codec.thy ===== *)
theory Codec
  imports Codec_Base Grant
begin

text \<open>
  Canonical serialisation of the domain types: \<open>src/codec/codec.cpp\<close>. For every type the encoder, the decoder,
  the predicate that is its exact domain, and the interpretation of \<open>record_codec\<close> on them.
\<close>

definition kMaxEvidenceItems :: u32 where "kMaxEvidenceItems = 2 ^ 16"
definition kMaxSupportEntries :: u32 where "kMaxSupportEntries = 16"
definition kMaxPreconditionEvaluations :: u32 where "kMaxPreconditionEvaluations = 32"
definition kMaxPlanEntries :: u32 where "kMaxPlanEntries = 2 ^ 20"
definition kMaxRulesPerPolicy :: u32 where "kMaxRulesPerPolicy = 4096"
definition kMaxClassProfiles :: u32 where "kMaxClassProfiles = 8"

section \<open>Guarantees\<close>

definition encode_Guarantee :: "guarantee \<Rightarrow> byte_writer \<Rightarrow> byte_writer" where
  "encode_Guarantee v = write_all
     [write_enum GuaranteeKind_code (g_kind v), write_enum Comparator_code (g_comparator v),
      ByteWriter_u64 (g_value v), ByteWriter_boolean (g_hard v)]"

definition decode_Guarantee :: "guarantee decoder" where
  "decode_Guarantee =
     dec_field (read_enum GuaranteeKind_code GuaranteeKind_all GK_Availability) (\<lambda>kind.
     dec_field (read_enum Comparator_code Comparator_all CM_AtLeast) (\<lambda>comparator.
     dec_field ByteReader_u64 (\<lambda>val.
     dec_field ByteReader_boolean (\<lambda>hard.
     dec_ok (
     let c = \<lparr>g_kind = kind, g_comparator = comparator, g_value = val, g_hard = hard\<rparr>
     in dec_guard (Guarantee_valid c) (dec_return c))))))"

definition encode_GuaranteeSet :: "guarantee_set \<Rightarrow> byte_writer \<Rightarrow> byte_writer" where
  "encode_GuaranteeSet v = write_all [write_size v, write_each encode_Guarantee v]"

definition decode_GuaranteeSet :: "guarantee_set decoder" where
  "decode_GuaranteeSet = dec_items kMaxGuaranteesPerSet decode_Guarantee GuaranteeSet_insert [] dec_return"

definition concession_in_domain :: "Concession \<Rightarrow> bool" where
  "concession_in_domain c \<longleftrightarrow>
     \<not> (c_original_value c > max_value_for (c_kind c) \<or> c_approved_value c > max_value_for (c_kind c))"

definition encode_Concession :: "Concession \<Rightarrow> byte_writer \<Rightarrow> byte_writer" where
  "encode_Concession v = write_all
     [write_enum GuaranteeKind_code (c_kind v), ByteWriter_u64 (c_original_value v),
      ByteWriter_u64 (c_approved_value v)]"

definition decode_Concession :: "Concession decoder" where
  "decode_Concession =
     dec_field (read_enum GuaranteeKind_code GuaranteeKind_all GK_Availability) (\<lambda>kind.
     dec_field ByteReader_u64 (\<lambda>original_value.
     dec_field ByteReader_u64 (\<lambda>approved_value.
     dec_ok (
     let c = \<lparr>c_kind = kind, c_original_value = original_value, c_approved_value = approved_value\<rparr>
     in dec_guard (concession_in_domain c) (dec_return c)))))"

definition withdrawal_in_domain :: "GuaranteeWithdrawal \<Rightarrow> bool" where
  "withdrawal_in_domain w \<longleftrightarrow> \<not> wd_original_value w > max_value_for (wd_kind w)"

definition encode_GuaranteeWithdrawal :: "GuaranteeWithdrawal \<Rightarrow> byte_writer \<Rightarrow> byte_writer" where
  "encode_GuaranteeWithdrawal v = write_all
     [write_enum GuaranteeKind_code (wd_kind v), ByteWriter_u64 (wd_original_value v),
      write_enum ReasonCode_code (wd_reason v)]"

definition decode_GuaranteeWithdrawal :: "GuaranteeWithdrawal decoder" where
  "decode_GuaranteeWithdrawal =
     dec_field (read_enum GuaranteeKind_code GuaranteeKind_all GK_Availability) (\<lambda>kind.
     dec_field ByteReader_u64 (\<lambda>original_value.
     dec_field (read_enum ReasonCode_code ReasonCode_all RC_None) (\<lambda>reason.
     dec_ok (
     let c = \<lparr>wd_kind = kind, wd_original_value = original_value, wd_reason = reason\<rparr>
     in dec_guard (withdrawal_in_domain c) (dec_return c)))))"

definition encode_GuaranteeDelta :: "GuaranteeDelta \<Rightarrow> byte_writer \<Rightarrow> byte_writer" where
  "encode_GuaranteeDelta v = write_all
     [write_size (dl_concessions v), write_each encode_Concession (dl_concessions v),
      write_size (dl_withdrawals v), write_each encode_GuaranteeWithdrawal (dl_withdrawals v)]"

definition decode_GuaranteeDelta :: "GuaranteeDelta decoder" where
  "decode_GuaranteeDelta =
     dec_items kMaxDeltaEntries decode_Concession push_back [] (\<lambda>concessions.
     dec_items kMaxDeltaEntries decode_GuaranteeWithdrawal push_back [] (\<lambda>withdrawals.
     dec_return \<lparr>dl_concessions = concessions, dl_withdrawals = withdrawals\<rparr>))"

definition encode_ConcessionBound :: "ConcessionBound \<Rightarrow> byte_writer \<Rightarrow> byte_writer" where
  "encode_ConcessionBound v = write_all
     [write_enum GuaranteeKind_code (cb_kind v), ByteWriter_u64 (cb_weakest_allowed_value v)]"

definition decode_ConcessionBound :: "ConcessionBound decoder" where
  "decode_ConcessionBound =
     dec_field (read_enum GuaranteeKind_code GuaranteeKind_all GK_Availability) (\<lambda>kind.
     dec_field ByteReader_u64 (\<lambda>weakest_allowed_value.
     dec_ok (
     let c = \<lparr>cb_kind = kind, cb_weakest_allowed_value = weakest_allowed_value\<rparr>
     in dec_guard (bound_in_domain c) (dec_return c))))"

definition encode_GuaranteeEnvelope :: "GuaranteeEnvelope \<Rightarrow> byte_writer \<Rightarrow> byte_writer" where
  "encode_GuaranteeEnvelope v = write_all
     [write_size (ge_bounds v), write_each encode_ConcessionBound (ge_bounds v),
      ByteWriter_u32 (ge_max_concessions v)]"

definition decode_GuaranteeEnvelope :: "GuaranteeEnvelope decoder" where
  "decode_GuaranteeEnvelope =
     dec_items kMaxEnvelopeBounds decode_ConcessionBound GuaranteeEnvelope_insert empty_envelope (\<lambda>e.
     dec_field ByteReader_u32 (\<lambda>max_concessions.
     dec_ok (
     let c = e\<lparr>ge_max_concessions := max_concessions\<rparr>
     in dec_check (GuaranteeEnvelope_validate c) (dec_return c))))"

section \<open>Contract and evidence\<close>

definition encode_ServiceContract :: "ServiceContract \<Rightarrow> byte_writer \<Rightarrow> byte_writer" where
  "encode_ServiceContract v = write_all
     [ByteWriter_u64 (sc_id v), ByteWriter_u64 (sc_generation v), ByteWriter_u64 (sc_scope v),
      ByteWriter_u64 (sc_subject v), ByteWriter_u64 (sc_subject_generation v),
      write_enum ServiceClass_code (sc_service_class v), ByteWriter_boolean (sc_non_degradable v),
      ByteWriter_u32 (sc_priority v), encode_GuaranteeSet (sc_original v),
      encode_GuaranteeEnvelope (sc_envelope v), ByteWriter_u64 (sc_registered_tick v),
      ByteWriter_boolean (sc_active v)]"

definition decode_ServiceContract :: "ServiceContract decoder" where
  "decode_ServiceContract =
     dec_field ByteReader_u64 (\<lambda>i.
     dec_field ByteReader_u64 (\<lambda>generation.
     dec_field ByteReader_u64 (\<lambda>scope.
     dec_field ByteReader_u64 (\<lambda>subject.
     dec_field ByteReader_u64 (\<lambda>subject_generation.
     dec_field (read_enum ServiceClass_code ServiceClass_all SC_Standard) (\<lambda>service_class.
     dec_field ByteReader_boolean (\<lambda>non_degradable.
     dec_field ByteReader_u32 (\<lambda>priority.
     dec_sub decode_GuaranteeSet (\<lambda>original.
     dec_sub decode_GuaranteeEnvelope (\<lambda>envelope.
     dec_field ByteReader_u64 (\<lambda>registered_tick.
     dec_field ByteReader_boolean (\<lambda>active.
     dec_ok (
     let c = \<lparr>sc_id = i, sc_generation = generation, sc_scope = scope, sc_subject = subject,
        sc_subject_generation = subject_generation, sc_service_class = service_class,
        sc_non_degradable = non_degradable, sc_priority = priority, sc_original = original,
        sc_envelope = envelope, sc_registered_tick = registered_tick, sc_active = active\<rparr>
     in dec_check (ServiceContract_validate c) (dec_return c))))))))))))))"

definition encode_EvidenceItem :: "EvidenceItem \<Rightarrow> byte_writer \<Rightarrow> byte_writer" where
  "encode_EvidenceItem v = write_all
     [ByteWriter_u64 (ei_id v), ByteWriter_u64 (ei_publisher v),
      ByteWriter_u64 (ei_publisher_boot v), ByteWriter_u64 (ei_generation v),
      write_enum EvidenceKind_code (ei_kind v), ByteWriter_u64 (ei_scope v),
      write_enum EvidenceState_code (ei_state v), ByteWriter_u64 (ei_value v),
      ByteWriter_u64 (ei_observed_tick v), write_enum OriginClass_code (ei_origin v)]"

definition decode_EvidenceItem :: "EvidenceItem decoder" where
  "decode_EvidenceItem =
     dec_field ByteReader_u64 (\<lambda>i.
     dec_field ByteReader_u64 (\<lambda>publisher.
     dec_field ByteReader_u64 (\<lambda>publisher_boot.
     dec_field ByteReader_u64 (\<lambda>generation.
     dec_field (read_enum EvidenceKind_code EvidenceKind_all EK_FabricTopology) (\<lambda>kind.
     dec_field ByteReader_u64 (\<lambda>scope.
     dec_field (read_enum EvidenceState_code EvidenceState_all ES_Unknown) (\<lambda>st.
     dec_field ByteReader_u64 (\<lambda>val.
     dec_field ByteReader_u64 (\<lambda>observed_tick.
     dec_field (read_enum OriginClass_code OriginClass_all OC_Unspecified) (\<lambda>origin.
     dec_ok (
     let c = \<lparr>ei_id = i, ei_publisher = publisher, ei_publisher_boot = publisher_boot,
        ei_generation = generation, ei_kind = kind, ei_scope = scope, ei_state = st,
        ei_value = val, ei_observed_tick = observed_tick, ei_origin = origin\<rparr>
     in dec_check (EvidenceItem_validate c) (dec_return c))))))))))))"

definition encode_EvidenceVector :: "EvidenceVector \<Rightarrow> byte_writer \<Rightarrow> byte_writer" where
  "encode_EvidenceVector v = write_all [write_size (ev_items v), write_each encode_EvidenceItem (ev_items v)]"

definition decode_EvidenceVector :: "EvidenceVector decoder" where
  "decode_EvidenceVector =
     dec_items kMaxEvidenceItems decode_EvidenceItem EvidenceVector_push
       (new_evidence_vector kMaxCollectionItems) (\<lambda>c.
     case EvidenceVector_normalize c of Inl e \<Rightarrow> dec_fail e | Inr v \<Rightarrow> dec_return v)"

definition capability_in_domain :: "CapabilitySnapshot \<Rightarrow> bool" where
  "capability_in_domain c \<longleftrightarrow>
     \<not> (cs_bandwidth_kbps c > kMaxBandwidthKbps \<or> cs_rtt_p99_us c > kMaxLatencyUs \<or>
        ucast (cs_path_diversity c) > kMaxPathDiversity \<or> ucast (cs_reachable_ppm c) > kPpmScale \<or>
        ucast (cs_node_coverage_ppm c) > kPpmScale)"

definition encode_CapabilitySnapshot :: "CapabilitySnapshot \<Rightarrow> byte_writer \<Rightarrow> byte_writer" where
  "encode_CapabilitySnapshot v = write_all
     [ByteWriter_u64 (cs_scope v), ByteWriter_u64 (cs_generation v),
      write_enum EvidenceState_code (cs_state v),
      write_enum FabricTopologyClass_code (cs_topology v), ByteWriter_u64 (cs_bandwidth_kbps v),
      ByteWriter_u64 (cs_rtt_p99_us v), ByteWriter_u32 (cs_path_diversity v),
      ByteWriter_u32 (cs_reachable_ppm v), ByteWriter_u32 (cs_node_coverage_ppm v),
      ByteWriter_boolean (cs_synchronous_durability v), ByteWriter_u64 (cs_observed_tick v),
      write_enum OriginClass_code (cs_origin v)]"

definition decode_CapabilitySnapshot :: "CapabilitySnapshot decoder" where
  "decode_CapabilitySnapshot =
     dec_field ByteReader_u64 (\<lambda>scope.
     dec_field ByteReader_u64 (\<lambda>generation.
     dec_field (read_enum EvidenceState_code EvidenceState_all ES_Unknown) (\<lambda>st.
     dec_field (read_enum FabricTopologyClass_code FabricTopologyClass_all FT_FullMesh) (\<lambda>topology.
     dec_field ByteReader_u64 (\<lambda>bandwidth_kbps.
     dec_field ByteReader_u64 (\<lambda>rtt_p99_us.
     dec_field ByteReader_u32 (\<lambda>path_diversity.
     dec_field ByteReader_u32 (\<lambda>reachable_ppm.
     dec_field ByteReader_u32 (\<lambda>node_coverage_ppm.
     dec_field ByteReader_boolean (\<lambda>synchronous_durability.
     dec_field ByteReader_u64 (\<lambda>observed_tick.
     dec_field (read_enum OriginClass_code OriginClass_all OC_Unspecified) (\<lambda>origin.
     dec_ok (
     let c = \<lparr>cs_scope = scope, cs_generation = generation, cs_state = st, cs_topology = topology,
        cs_bandwidth_kbps = bandwidth_kbps, cs_rtt_p99_us = rtt_p99_us,
        cs_path_diversity = path_diversity, cs_reachable_ppm = reachable_ppm,
        cs_node_coverage_ppm = node_coverage_ppm,
        cs_synchronous_durability = synchronous_durability, cs_observed_tick = observed_tick,
        cs_origin = origin\<rparr>
     in dec_guard (capability_in_domain c) (dec_return c))))))))))))))"

section \<open>Authority\<close>

definition encode_AuthorityVector :: "AuthorityVector \<Rightarrow> byte_writer \<Rightarrow> byte_writer" where
  "encode_AuthorityVector v = write_all
     [ByteWriter_u64 (av_coordinator_term v), ByteWriter_u64 (av_boot v),
      ByteWriter_u64 (av_fabric v), ByteWriter_u64 (av_capacity v), ByteWriter_u64 (av_policy v),
      ByteWriter_u64 (av_evidence v)]"

definition decode_AuthorityVector :: "AuthorityVector decoder" where
  "decode_AuthorityVector =
     dec_field ByteReader_u64 (\<lambda>coordinator_term.
     dec_field ByteReader_u64 (\<lambda>boot.
     dec_field ByteReader_u64 (\<lambda>fabric.
     dec_field ByteReader_u64 (\<lambda>capacity.
     dec_field ByteReader_u64 (\<lambda>policy.
     dec_field ByteReader_u64 (\<lambda>evidence.
     dec_ok (
     dec_return \<lparr>av_coordinator_term = coordinator_term, av_boot = boot, av_fabric = fabric,
        av_capacity = capacity, av_policy = policy, av_evidence = evidence\<rparr>)))))))"

definition encode_AuthorityBinding :: "AuthorityBinding \<Rightarrow> byte_writer \<Rightarrow> byte_writer" where
  "encode_AuthorityBinding v = write_all
     [encode_AuthorityVector (ab_vector v), ByteWriter_u64 (ab_contract v),
      ByteWriter_u64 (ab_contract_generation v), ByteWriter_u64 (ab_subject v),
      ByteWriter_u64 (ab_subject_generation v), ByteWriter_u64 (ab_scope v)]"

definition decode_AuthorityBinding :: "AuthorityBinding decoder" where
  "decode_AuthorityBinding =
     dec_sub decode_AuthorityVector (\<lambda>vector.
     dec_field ByteReader_u64 (\<lambda>contract.
     dec_field ByteReader_u64 (\<lambda>contract_generation.
     dec_field ByteReader_u64 (\<lambda>subject.
     dec_field ByteReader_u64 (\<lambda>subject_generation.
     dec_field ByteReader_u64 (\<lambda>scope.
     dec_ok (
     dec_return \<lparr>ab_vector = vector, ab_contract = contract, ab_contract_generation = contract_generation,
        ab_subject = subject, ab_subject_generation = subject_generation, ab_scope = scope\<rparr>)))))))"

section \<open>Decision and plan\<close>

definition encode_GuaranteeSupport :: "GuaranteeSupport \<Rightarrow> byte_writer \<Rightarrow> byte_writer" where
  "encode_GuaranteeSupport v = write_all
     [write_enum GuaranteeKind_code (gs_kind v), write_enum SupportTri_code (gs_support v),
      write_enum ReasonCode_code (gs_reason v)]"

definition decode_GuaranteeSupport :: "GuaranteeSupport decoder" where
  "decode_GuaranteeSupport =
     dec_field (read_enum GuaranteeKind_code GuaranteeKind_all GK_Availability) (\<lambda>kind.
     dec_field (read_enum SupportTri_code SupportTri_all ST_Indeterminate) (\<lambda>support.
     dec_field (read_enum ReasonCode_code ReasonCode_all RC_None) (\<lambda>reason.
     dec_ok (
     dec_return \<lparr>gs_kind = kind, gs_support = support, gs_reason = reason\<rparr>))))"

definition encode_AllocationWork :: "AllocationWork \<Rightarrow> byte_writer \<Rightarrow> byte_writer" where
  "encode_AllocationWork v = write_all
     [ByteWriter_u64 (aw_nodes_visited v), ByteWriter_u64 (aw_nodes_pruned v),
      ByteWriter_u64 (aw_budget v), ByteWriter_boolean (aw_budget_exhausted v)]"

definition decode_AllocationWork :: "AllocationWork decoder" where
  "decode_AllocationWork =
     dec_field ByteReader_u64 (\<lambda>nodes_visited.
     dec_field ByteReader_u64 (\<lambda>nodes_pruned.
     dec_field ByteReader_u64 (\<lambda>budget.
     dec_field ByteReader_boolean (\<lambda>budget_exhausted.
     dec_ok (
     dec_return \<lparr>aw_nodes_visited = nodes_visited, aw_nodes_pruned = nodes_pruned, aw_budget = budget,
        aw_budget_exhausted = budget_exhausted\<rparr>)))))"

definition encode_AllocationEntry :: "AllocationEntry \<Rightarrow> byte_writer \<Rightarrow> byte_writer" where
  "encode_AllocationEntry v = write_all
     [ByteWriter_u64 (ae_contract v), ByteWriter_u64 (ae_contract_generation v),
      ByteWriter_u64 (ae_scope v), ByteWriter_boolean (ae_admitted v),
      ByteWriter_boolean (ae_full v), encode_GuaranteeSet (ae_approved v),
      encode_GuaranteeDelta (ae_delta v), ByteWriter_u64 (ae_allocated_bandwidth_kbps v),
      write_enum DecisionOutcome_code (ae_outcome v), write_enum ReasonCode_code (ae_reason v)]"

definition decode_AllocationEntry :: "AllocationEntry decoder" where
  "decode_AllocationEntry =
     dec_field ByteReader_u64 (\<lambda>contract.
     dec_field ByteReader_u64 (\<lambda>contract_generation.
     dec_field ByteReader_u64 (\<lambda>scope.
     dec_field ByteReader_boolean (\<lambda>admitted.
     dec_field ByteReader_boolean (\<lambda>full.
     dec_sub decode_GuaranteeSet (\<lambda>approved.
     dec_sub decode_GuaranteeDelta (\<lambda>delta.
     dec_field ByteReader_u64 (\<lambda>allocated_bandwidth_kbps.
     dec_field (read_enum DecisionOutcome_code DecisionOutcome_all DO_Invalid) (\<lambda>outcome.
     dec_field (read_enum ReasonCode_code ReasonCode_all RC_None) (\<lambda>reason.
     dec_ok (
     let c = \<lparr>ae_contract = contract, ae_contract_generation = contract_generation, ae_scope = scope,
        ae_admitted = admitted, ae_full = full, ae_approved = approved, ae_delta = delta,
        ae_allocated_bandwidth_kbps = allocated_bandwidth_kbps, ae_outcome = outcome,
        ae_reason = reason\<rparr>
     in dec_guard (\<not> ae_allocated_bandwidth_kbps c > kMaxBandwidthKbps) (dec_return c))))))))))))"

definition encode_AllocationPlan :: "AllocationPlan \<Rightarrow> byte_writer \<Rightarrow> byte_writer" where
  "encode_AllocationPlan v = write_all
     [ByteWriter_u64 (ap_id v), encode_AuthorityVector (ap_authority v), ByteWriter_u64 (ap_scope v),
      ByteWriter_u64 (ap_capacity_generation v), write_enum PlanStatus_code (ap_status v),
      write_size (ap_entries v), write_each encode_AllocationEntry (ap_entries v),
      ByteWriter_u64 (ap_available_bandwidth_kbps v), ByteWriter_u64 (ap_allocated_bandwidth_kbps v),
      encode_AllocationWork (ap_work v), ByteWriter_boolean (ic_valid (ap_certificate v)),
      ByteWriter_u32 (ic_required_protected (ap_certificate v)),
      ByteWriter_u32 (ic_available_protected (ap_certificate v)),
      ByteWriter_u64 (ic_minimum_demand_kbps (ap_certificate v)),
      ByteWriter_u64 (ic_offered_capacity_kbps (ap_certificate v)),
      ByteWriter_u64 (ap_planned_tick v), ByteWriter_boolean (ap_protected_shortfall v)]"

definition decode_AllocationPlan :: "AllocationPlan decoder" where
  "decode_AllocationPlan =
     dec_field ByteReader_u64 (\<lambda>i.
     dec_sub decode_AuthorityVector (\<lambda>authority.
     dec_field ByteReader_u64 (\<lambda>scope.
     dec_field ByteReader_u64 (\<lambda>capacity_generation.
     dec_field (read_enum PlanStatus_code PlanStatus_all PS_Invalid) (\<lambda>status.
     dec_items kMaxPlanEntries decode_AllocationEntry push_back [] (\<lambda>entries.
     dec_field ByteReader_u64 (\<lambda>available.
     dec_field ByteReader_u64 (\<lambda>allocated.
     dec_sub decode_AllocationWork (\<lambda>work.
     dec_field ByteReader_boolean (\<lambda>valid.
     dec_field ByteReader_u32 (\<lambda>required_protected.
     dec_field ByteReader_u32 (\<lambda>available_protected.
     dec_field ByteReader_u64 (\<lambda>minimum_demand.
     dec_field ByteReader_u64 (\<lambda>offered_capacity.
     dec_field ByteReader_u64 (\<lambda>planned_tick.
     dec_field ByteReader_boolean (\<lambda>protected_shortfall.
     dec_ok (
     dec_return \<lparr>ap_id = i, ap_authority = authority, ap_scope = scope,
       ap_capacity_generation = capacity_generation, ap_status = status, ap_entries = entries,
       ap_available_bandwidth_kbps = available, ap_allocated_bandwidth_kbps = allocated, ap_work = work,
       ap_certificate = \<lparr>ic_required_protected = required_protected,
         ic_available_protected = available_protected, ic_minimum_demand_kbps = minimum_demand,
         ic_offered_capacity_kbps = offered_capacity, ic_valid = valid\<rparr>,
       ap_planned_tick = planned_tick, ap_protected_shortfall = protected_shortfall\<rparr>)))))))))))))))))"

definition encode_Decision :: "Decision \<Rightarrow> byte_writer \<Rightarrow> byte_writer" where
  "encode_Decision v = write_all
     [ByteWriter_u64 (de_id v), encode_AuthorityBinding (de_binding v),
      write_enum ServiceClass_code (de_service_class v),
      ByteWriter_boolean (de_protected_obligation v), ByteWriter_u32 (de_priority v),
      write_enum DecisionOutcome_code (de_outcome v),
      write_enum AuthorityLevel_code (de_max_authority v), encode_GuaranteeSet (de_original v),
      encode_GuaranteeSet (de_approved v), encode_GuaranteeDelta (de_delta v),
      write_enum ReasonCode_code (de_primary_reason v), write_size (de_reasons v),
      write_each (write_enum ReasonCode_code) (de_reasons v), write_size (de_support v),
      write_each encode_GuaranteeSupport (de_support v), encode_EvidenceVector (de_evidence v),
      write_enum EvidenceState_code (de_evidence_state v),
      write_enum PlanStatus_code (de_plan_status v), ByteWriter_boolean (de_escalation_required v),
      write_enum ProvenanceClass_code (de_provenance v), ByteWriter_u64 (de_decided_tick v),
      ByteWriter_u64 (de_expires_tick v)]"

definition decode_Decision :: "Decision decoder" where
  "decode_Decision =
     dec_field ByteReader_u64 (\<lambda>i.
     dec_sub decode_AuthorityBinding (\<lambda>binding.
     dec_field (read_enum ServiceClass_code ServiceClass_all SC_Standard) (\<lambda>service_class.
     dec_field ByteReader_boolean (\<lambda>protected_obligation.
     dec_field ByteReader_u32 (\<lambda>priority.
     dec_field (read_enum DecisionOutcome_code DecisionOutcome_all DO_Invalid) (\<lambda>outcome.
     dec_field (read_enum AuthorityLevel_code AuthorityLevel_all AL_None) (\<lambda>max_authority.
     dec_sub decode_GuaranteeSet (\<lambda>original.
     dec_sub decode_GuaranteeSet (\<lambda>approved.
     dec_sub decode_GuaranteeDelta (\<lambda>delta.
     dec_field (read_enum ReasonCode_code ReasonCode_all RC_None) (\<lambda>primary_reason.
     dec_values (of_nat kMaxReasonsPerDecision) (read_enum ReasonCode_code ReasonCode_all RC_None) (\<lambda>reasons.
     dec_items kMaxSupportEntries decode_GuaranteeSupport push_back [] (\<lambda>support.
     dec_sub decode_EvidenceVector (\<lambda>evidence.
     dec_field (read_enum EvidenceState_code EvidenceState_all ES_Unknown) (\<lambda>evidence_state.
     dec_field (read_enum PlanStatus_code PlanStatus_all PS_Invalid) (\<lambda>plan_status.
     dec_field ByteReader_boolean (\<lambda>escalation_required.
     dec_field (read_enum ProvenanceClass_code ProvenanceClass_all PC_Synthetic) (\<lambda>provenance.
     dec_field ByteReader_u64 (\<lambda>decided_tick.
     dec_field ByteReader_u64 (\<lambda>expires_tick.
     dec_ok (
     let c = \<lparr>de_id = i, de_binding = binding, de_service_class = service_class,
        de_protected_obligation = protected_obligation, de_priority = priority,
        de_outcome = outcome, de_max_authority = max_authority, de_original = original,
        de_approved = approved, de_delta = delta, de_primary_reason = primary_reason,
        de_reasons = reasons, de_support = support, de_evidence = evidence,
        de_evidence_state = evidence_state, de_plan_status = plan_status,
        de_escalation_required = escalation_required, de_provenance = provenance,
        de_decided_tick = decided_tick, de_expires_tick = expires_tick\<rparr>
     in dec_check (Decision_validate c) (dec_return c))))))))))))))))))))))"

section \<open>Grant, fence and restoration\<close>

definition precondition_in_domain :: "RestorationPrecondition \<Rightarrow> bool" where
  "precondition_in_domain p \<longleftrightarrow> \<not> rp_required_value p > max_value_for (rp_guarantee p)"

definition encode_RestorationPrecondition :: "RestorationPrecondition \<Rightarrow> byte_writer \<Rightarrow> byte_writer" where
  "encode_RestorationPrecondition v = write_all
     [write_enum PreconditionKind_code (rp_kind v), write_enum GuaranteeKind_code (rp_guarantee v),
      ByteWriter_u64 (rp_scope v), ByteWriter_u64 (rp_required_value v),
      ByteWriter_u64 (rp_dwell_ticks v)]"

definition decode_RestorationPrecondition :: "RestorationPrecondition decoder" where
  "decode_RestorationPrecondition =
     dec_field (read_enum PreconditionKind_code PreconditionKind_all PK_EvidenceKnown) (\<lambda>kind.
     dec_field (read_enum GuaranteeKind_code GuaranteeKind_all GK_Availability) (\<lambda>guarantee.
     dec_field ByteReader_u64 (\<lambda>scope.
     dec_field ByteReader_u64 (\<lambda>required_value.
     dec_field ByteReader_u64 (\<lambda>dwell_ticks.
     dec_ok (
     let c = \<lparr>rp_kind = kind, rp_guarantee = guarantee, rp_scope = scope,
        rp_required_value = required_value, rp_dwell_ticks = dwell_ticks\<rparr>
     in dec_guard (precondition_in_domain c) (dec_return c)))))))"

definition encode_PreconditionEvaluation :: "PreconditionEvaluation \<Rightarrow> byte_writer \<Rightarrow> byte_writer" where
  "encode_PreconditionEvaluation v = write_all
     [encode_RestorationPrecondition (pe_precondition v),
      write_enum PreconditionResult_code (pe_result v), write_enum ReasonCode_code (pe_reason v)]"

definition decode_PreconditionEvaluation :: "PreconditionEvaluation decoder" where
  "decode_PreconditionEvaluation =
     dec_sub decode_RestorationPrecondition (\<lambda>precondition.
     dec_field (read_enum PreconditionResult_code PreconditionResult_all PT_Indeterminate) (\<lambda>result.
     dec_field (read_enum ReasonCode_code ReasonCode_all RC_None) (\<lambda>reason.
     dec_ok (
     dec_return \<lparr>pe_precondition = precondition, pe_result = result, pe_reason = reason\<rparr>))))"

definition encode_RestorationEvaluation :: "RestorationEvaluation \<Rightarrow> byte_writer \<Rightarrow> byte_writer" where
  "encode_RestorationEvaluation v = write_all
     [write_enum RestorationOutcome_code (re_outcome v), ByteWriter_u64 (re_grant v),
      ByteWriter_u64 (re_decision v), encode_AuthorityBinding (re_binding v),
      encode_GuaranteeSet (re_original v), encode_GuaranteeSet (re_degraded v),
      write_size (re_preconditions v),
      write_each encode_PreconditionEvaluation (re_preconditions v),
      write_enum ReasonCode_code (re_primary_reason v),
      write_enum EvidenceState_code (re_evidence_state v),
      write_enum ProvenanceClass_code (re_provenance v), ByteWriter_u64 (re_evaluated_tick v)]"

definition decode_RestorationEvaluation :: "RestorationEvaluation decoder" where
  "decode_RestorationEvaluation =
     dec_field (read_enum RestorationOutcome_code RestorationOutcome_all RO_Invalid) (\<lambda>outcome.
     dec_field ByteReader_u64 (\<lambda>grant.
     dec_field ByteReader_u64 (\<lambda>decision.
     dec_sub decode_AuthorityBinding (\<lambda>binding.
     dec_sub decode_GuaranteeSet (\<lambda>original.
     dec_sub decode_GuaranteeSet (\<lambda>degraded.
     dec_items kMaxPreconditionEvaluations decode_PreconditionEvaluation push_back [] (\<lambda>preconditions.
     dec_field (read_enum ReasonCode_code ReasonCode_all RC_None) (\<lambda>primary_reason.
     dec_field (read_enum EvidenceState_code EvidenceState_all ES_Unknown) (\<lambda>evidence_state.
     dec_field (read_enum ProvenanceClass_code ProvenanceClass_all PC_Synthetic) (\<lambda>provenance.
     dec_field ByteReader_u64 (\<lambda>evaluated_tick.
     dec_ok (
     let c = \<lparr>re_outcome = outcome, re_grant = grant, re_decision = decision, re_binding = binding,
        re_original = original, re_degraded = degraded, re_preconditions = preconditions,
        re_primary_reason = primary_reason, re_evidence_state = evidence_state,
        re_provenance = provenance, re_evaluated_tick = evaluated_tick\<rparr>
     in dec_check (RestorationEvaluation_validate c) (dec_return c)))))))))))))"

definition encode_Grant :: "Grant \<Rightarrow> byte_writer \<Rightarrow> byte_writer" where
  "encode_Grant v = write_all
     [ByteWriter_u64 (gr_id v), ByteWriter_u64 (gr_decision v),
      encode_AuthorityBinding (gr_binding v), write_enum ServiceClass_code (gr_service_class v),
      ByteWriter_boolean (gr_protected_obligation v), encode_GuaranteeSet (gr_original v),
      encode_GuaranteeSet (gr_degraded v), encode_GuaranteeDelta (gr_delta v),
      write_enum ReasonCode_code (gr_reason v), encode_EvidenceVector (gr_evidence v),
      write_enum EvidenceState_code (gr_evidence_state v), write_size (gr_preconditions v),
      write_each encode_RestorationPrecondition (gr_preconditions v),
      ByteWriter_u64 (gr_sequence v), ByteWriter_u64 (gr_last_attempt v),
      ByteWriter_u64 (gr_issued_tick v), ByteWriter_u64 (gr_expires_tick v),
      ByteWriter_u64 (gr_last_transition_tick v), write_enum GrantState_code (gr_state v),
      write_enum ProvenanceClass_code (gr_provenance v)]"

definition decode_Grant :: "Grant decoder" where
  "decode_Grant =
     dec_field ByteReader_u64 (\<lambda>i.
     dec_field ByteReader_u64 (\<lambda>decision.
     dec_sub decode_AuthorityBinding (\<lambda>binding.
     dec_field (read_enum ServiceClass_code ServiceClass_all SC_Standard) (\<lambda>service_class.
     dec_field ByteReader_boolean (\<lambda>protected_obligation.
     dec_sub decode_GuaranteeSet (\<lambda>original.
     dec_sub decode_GuaranteeSet (\<lambda>degraded.
     dec_sub decode_GuaranteeDelta (\<lambda>delta.
     dec_field (read_enum ReasonCode_code ReasonCode_all RC_None) (\<lambda>reason.
     dec_sub decode_EvidenceVector (\<lambda>evidence.
     dec_field (read_enum EvidenceState_code EvidenceState_all ES_Unknown) (\<lambda>evidence_state.
     dec_items (of_nat kMaxPreconditions) decode_RestorationPrecondition push_back [] (\<lambda>preconditions.
     dec_field ByteReader_u64 (\<lambda>sequence.
     dec_field ByteReader_u64 (\<lambda>last_attempt.
     dec_field ByteReader_u64 (\<lambda>issued_tick.
     dec_field ByteReader_u64 (\<lambda>expires_tick.
     dec_field ByteReader_u64 (\<lambda>last_transition_tick.
     dec_field (read_enum GrantState_code GrantState_all GS_Issued) (\<lambda>st.
     dec_field (read_enum ProvenanceClass_code ProvenanceClass_all PC_Synthetic) (\<lambda>provenance.
     dec_ok (
     let c = \<lparr>gr_id = i, gr_decision = decision, gr_binding = binding,
        gr_service_class = service_class, gr_protected_obligation = protected_obligation,
        gr_original = original, gr_degraded = degraded, gr_delta = delta, gr_reason = reason,
        gr_evidence = evidence, gr_evidence_state = evidence_state,
        gr_preconditions = preconditions, gr_sequence = sequence, gr_last_attempt = last_attempt,
        gr_issued_tick = issued_tick, gr_expires_tick = expires_tick,
        gr_last_transition_tick = last_transition_tick, gr_state = st, gr_provenance = provenance\<rparr>
     in dec_check (Grant_validate c) (dec_return c)))))))))))))))))))))"

definition known_flags :: u32 where
  "known_flags = AD_CoordinatorTerm OR AD_Boot OR AD_Fabric OR AD_Capacity OR AD_Policy OR AD_Evidence OR
     AD_Contract OR AD_ContractGeneration OR AD_Subject OR AD_SubjectGeneration OR AD_Scope"

definition encode_FenceRecord :: "FenceRecord \<Rightarrow> byte_writer \<Rightarrow> byte_writer" where
  "encode_FenceRecord v = write_all
     [ByteWriter_u64 (fr_id v), ByteWriter_u64 (fr_grant v), write_enum FenceReason_code (fr_reason v),
      ByteWriter_u32 (fr_delta v), encode_AuthorityBinding (fr_prior v),
      encode_AuthorityBinding (fr_current v), ByteWriter_u64 (fr_fenced_tick v)]"

definition decode_FenceRecord :: "FenceRecord decoder" where
  "decode_FenceRecord =
     dec_field ByteReader_u64 (\<lambda>i.
     dec_field ByteReader_u64 (\<lambda>grant.
     dec_field (read_enum FenceReason_code FenceReason_all FR_Manual) (\<lambda>reason.
     dec_field ByteReader_u32 (\<lambda>delta.
     dec_ok (
     dec_guard (delta AND NOT known_flags = 0) (
     dec_sub decode_AuthorityBinding (\<lambda>prior.
     dec_sub decode_AuthorityBinding (\<lambda>current.
     dec_field ByteReader_u64 (\<lambda>fenced_tick.
     dec_ok (
     let c = \<lparr>fr_id = i, fr_grant = grant, fr_reason = reason, fr_delta = delta, fr_prior = prior,
        fr_current = current, fr_fenced_tick = fenced_tick\<rparr>
     in dec_check (FenceRecord_validate c) (dec_return c)))))))))))"

section \<open>Policy\<close>

definition encode_PolicyRule :: "PolicyRule \<Rightarrow> byte_writer \<Rightarrow> byte_writer" where
  "encode_PolicyRule v = write_all
     [ByteWriter_u64 (pr_id v), ByteWriter_u32 (pr_precedence v),
      write_optional (write_enum ServiceClass_code) (pr_service_class v),
      write_optional ByteWriter_u64 (pr_scope v),
      write_optional (write_enum GuaranteeKind_code) (pr_trigger v),
      write_enum DegradeAction_code (pr_action v)]"

definition decode_PolicyRule :: "PolicyRule decoder" where
  "decode_PolicyRule =
     dec_field ByteReader_u64 (\<lambda>i.
     dec_field ByteReader_u32 (\<lambda>precedence.
     dec_field (read_optional (read_enum ServiceClass_code ServiceClass_all SC_Standard)) (\<lambda>service_class.
     dec_ok (
     dec_field (read_optional ByteReader_u64) (\<lambda>scope.
     dec_ok (
     dec_field (read_optional (read_enum GuaranteeKind_code GuaranteeKind_all GK_Availability)) (\<lambda>trigger.
     dec_field (read_enum DegradeAction_code DegradeAction_all DA_Refuse) (\<lambda>action.
     dec_ok (
     let c = \<lparr>pr_id = i, pr_precedence = precedence, pr_service_class = service_class,
        pr_scope = scope, pr_trigger = trigger, pr_action = action\<rparr>
     in dec_check (PolicyRule_validate c) (dec_return c))))))))))"

definition encode_ClassProfile :: "ClassProfile \<Rightarrow> byte_writer \<Rightarrow> byte_writer" where
  "encode_ClassProfile v = write_all
     [write_enum ServiceClass_code (cp_service_class v), encode_GuaranteeEnvelope (cp_ceiling v),
      ByteWriter_boolean (cp_may_be_degraded v)]"

definition decode_ClassProfile :: "ClassProfile decoder" where
  "decode_ClassProfile =
     dec_field (read_enum ServiceClass_code ServiceClass_all SC_Standard) (\<lambda>service_class.
     dec_sub decode_GuaranteeEnvelope (\<lambda>ceiling.
     dec_field ByteReader_boolean (\<lambda>may_be_degraded.
     dec_ok (
     let c = \<lparr>cp_service_class = service_class, cp_ceiling = ceiling,
        cp_may_be_degraded = may_be_degraded\<rparr>
     in dec_check (ClassProfile_validate c) (dec_return c)))))"

definition encode_Policy :: "Policy \<Rightarrow> byte_writer \<Rightarrow> byte_writer" where
  "encode_Policy v = write_all
     [ByteWriter_u64 (po_id v), ByteWriter_u64 (po_generation v), write_size (po_rules v),
      write_each encode_PolicyRule (po_rules v), write_size (po_class_profiles v),
      write_each encode_ClassProfile (po_class_profiles v),
      write_enum DegradeAction_code (po_unknown_evidence_action v),
      write_enum DegradeAction_code (po_stale_evidence_action v),
      write_enum DegradeAction_code (po_conflict_evidence_action v),
      write_enum DegradeAction_code (po_invalid_evidence_action v),
      write_enum DegradeAction_code (po_unsupported_evidence_action v),
      ByteWriter_boolean (po_protect_first v), ByteWriter_u64 (po_default_ttl_ticks v),
      ByteWriter_u64 (po_minimum_ttl_ticks v), ByteWriter_u32 (po_max_concessions_per_contract v),
      ByteWriter_u32 (po_minimum_dwell_ticks v), ByteWriter_u32 (po_minimum_protected_served v),
      ByteWriter_u64 (po_search_node_budget v), ByteWriter_u64 (po_evidence_freshness_ticks v)]"

definition decode_Policy :: "Policy decoder" where
  "decode_Policy =
     dec_field ByteReader_u64 (\<lambda>i.
     dec_field ByteReader_u64 (\<lambda>generation.
     dec_items kMaxRulesPerPolicy decode_PolicyRule push_back [] (\<lambda>rules.
     dec_items kMaxClassProfiles decode_ClassProfile push_back [] (\<lambda>class_profiles.
     dec_field (read_enum DegradeAction_code DegradeAction_all DA_Refuse) (\<lambda>unknown_evidence_action.
     dec_field (read_enum DegradeAction_code DegradeAction_all DA_Refuse) (\<lambda>stale_evidence_action.
     dec_field (read_enum DegradeAction_code DegradeAction_all DA_Refuse) (\<lambda>conflict_evidence_action.
     dec_field (read_enum DegradeAction_code DegradeAction_all DA_Refuse) (\<lambda>invalid_evidence_action.
     dec_field (read_enum DegradeAction_code DegradeAction_all DA_Refuse) (\<lambda>unsupported_evidence_action.
     dec_field ByteReader_boolean (\<lambda>protect_first.
     dec_field ByteReader_u64 (\<lambda>default_ttl_ticks.
     dec_field ByteReader_u64 (\<lambda>minimum_ttl_ticks.
     dec_field ByteReader_u32 (\<lambda>max_concessions_per_contract.
     dec_field ByteReader_u32 (\<lambda>minimum_dwell_ticks.
     dec_field ByteReader_u32 (\<lambda>minimum_protected_served.
     dec_field ByteReader_u64 (\<lambda>search_node_budget.
     dec_field ByteReader_u64 (\<lambda>evidence_freshness_ticks.
     dec_ok (
     let c = \<lparr>po_id = i, po_generation = generation, po_rules = rules,
        po_class_profiles = class_profiles, po_unknown_evidence_action = unknown_evidence_action,
        po_stale_evidence_action = stale_evidence_action,
        po_conflict_evidence_action = conflict_evidence_action,
        po_invalid_evidence_action = invalid_evidence_action,
        po_unsupported_evidence_action = unsupported_evidence_action,
        po_protect_first = protect_first, po_default_ttl_ticks = default_ttl_ticks,
        po_minimum_ttl_ticks = minimum_ttl_ticks,
        po_max_concessions_per_contract = max_concessions_per_contract,
        po_minimum_dwell_ticks = minimum_dwell_ticks,
        po_minimum_protected_served = minimum_protected_served,
        po_search_node_budget = search_node_budget,
        po_evidence_freshness_ticks = evidence_freshness_ticks\<rparr>
     in dec_check (if installed c then Policy_validate c else EC_Ok) (dec_return c)))))))))))))))))))"

end
