(* ===== verification/Codec_Laws.thy ===== *)
theory Codec_Laws
  imports Codec
begin

text \<open>
  Every type of \<open>src/codec/codec.cpp\<close> meets the contract \<open>record_codec\<close>, with its exact domain.
\<close>

lemmas wire_enums =
  guaranteekind_wire.wire_enum_axioms comparator_wire.wire_enum_axioms reasoncode_wire.wire_enum_axioms
  serviceclass_wire.wire_enum_axioms evidencekind_wire.wire_enum_axioms evidencestate_wire.wire_enum_axioms
  originclass_wire.wire_enum_axioms fabrictopologyclass_wire.wire_enum_axioms supporttri_wire.wire_enum_axioms
  decisionoutcome_wire.wire_enum_axioms planstatus_wire.wire_enum_axioms authoritylevel_wire.wire_enum_axioms
  provenanceclass_wire.wire_enum_axioms preconditionkind_wire.wire_enum_axioms
  preconditionresult_wire.wire_enum_axioms restorationoutcome_wire.wire_enum_axioms
  grantstate_wire.wire_enum_axioms fencereason_wire.wire_enum_axioms degradeaction_wire.wire_enum_axioms

lemmas codec_intros = codes_intros wire_enums

section \<open>Guarantees\<close>

interpretation guarantee_codec: record_codec encode_Guarantee decode_Guarantee Guarantee_valid
proof
  show "codes (encode_Guarantee v) decode_Guarantee v" if "Guarantee_valid v" for v
    unfolding encode_Guarantee_def decode_Guarantee_def
    by (intro codec_intros) (use that in simp_all)
  show "delivers decode_Guarantee Guarantee_valid"
    unfolding decode_Guarantee_def by (intro delivers_intros)
qed

lemma insert_all_last:
  assumes "set_invar (s @ xs)"
  shows "add_all GuaranteeSet_insert xs s = Inr (s @ xs)"
  using assms
proof (induction xs arbitrary: s)
  case (Cons x xs)
  have "Guarantee_valid x" and "\<And>y. y \<in> set s \<Longrightarrow> g_kind y < g_kind x"
    using Cons.prems by (simp_all add: set_invar_def key_sorted_def sorted_wrt_append)
  then have "GuaranteeSet_insert x s = Inr (s @ [x])"
    by (simp add: GuaranteeSet_insert_def key_insert_last)
  then show ?case
    using Cons by simp
qed simp

interpretation guarantee_set_codec: record_codec encode_GuaranteeSet decode_GuaranteeSet set_invar
proof
  show "codes (encode_GuaranteeSet v) decode_GuaranteeSet v" if "set_invar v" for v
    unfolding encode_GuaranteeSet_def decode_GuaranteeSet_def
  proof (intro codes_items [where t = v] guarantee_codec.codes_valid codes_return refl)
    show "length v \<le> unat kMaxGuaranteesPerSet"
      using set_invar_length [OF that] by (simp add: kMaxGuaranteesPerSet_def)
    show "Guarantee_valid x" if "x \<in> set v" for x
      using \<open>set_invar v\<close> that by (simp add: set_invar_def list_all_iff)
    show "add_all GuaranteeSet_insert v [] = Inr v"
      using insert_all_last [of "[]" v] that by simp
  qed
  show "delivers decode_GuaranteeSet set_invar"
    unfolding decode_GuaranteeSet_def
    by (rule delivers_items [where I = "\<lambda>_. set_invar", OF guarantee_codec.delivers_valid])
      (auto simp: delivers_return intro: guarantee_insert.insert_invar)
qed

interpretation concession_codec: record_codec encode_Concession decode_Concession concession_in_domain
proof
  show "codes (encode_Concession v) decode_Concession v" if "concession_in_domain v" for v
    unfolding encode_Concession_def decode_Concession_def
    by (intro codec_intros) (use that in simp_all)
  show "delivers decode_Concession concession_in_domain"
    unfolding decode_Concession_def by (intro delivers_intros)
qed

interpretation withdrawal_codec: record_codec encode_GuaranteeWithdrawal decode_GuaranteeWithdrawal withdrawal_in_domain
proof
  show "codes (encode_GuaranteeWithdrawal v) decode_GuaranteeWithdrawal v" if "withdrawal_in_domain v" for v
    unfolding encode_GuaranteeWithdrawal_def decode_GuaranteeWithdrawal_def
    by (intro codec_intros) (use that in simp_all)
  show "delivers decode_GuaranteeWithdrawal withdrawal_in_domain"
    unfolding decode_GuaranteeWithdrawal_def by (intro delivers_intros)
qed

definition delta_in_domain :: "GuaranteeDelta \<Rightarrow> bool" where
  "delta_in_domain d \<longleftrightarrow>
     length (dl_concessions d) \<le> unat kMaxDeltaEntries \<and> list_all concession_in_domain (dl_concessions d) \<and>
     length (dl_withdrawals d) \<le> unat kMaxDeltaEntries \<and> list_all withdrawal_in_domain (dl_withdrawals d)"

interpretation delta_codec: record_codec encode_GuaranteeDelta decode_GuaranteeDelta delta_in_domain
proof
  show "codes (encode_GuaranteeDelta v) decode_GuaranteeDelta v" if "delta_in_domain v" for v
    unfolding encode_GuaranteeDelta_def decode_GuaranteeDelta_def
    by (intro codec_intros concession_codec.codes_list_then withdrawal_codec.codes_list_then)
      (use that in \<open>simp_all add: delta_in_domain_def\<close>)
  show "delivers decode_GuaranteeDelta delta_in_domain"
    unfolding decode_GuaranteeDelta_def
    by (intro delivers_intros concession_codec.delivers_list_then withdrawal_codec.delivers_list_then)
      (simp add: delta_in_domain_def)
qed

interpretation bound_codec: record_codec encode_ConcessionBound decode_ConcessionBound bound_in_domain
proof
  show "codes (encode_ConcessionBound v) decode_ConcessionBound v" if "bound_in_domain v" for v
    unfolding encode_ConcessionBound_def decode_ConcessionBound_def
    by (intro codec_intros) (use that in simp_all)
  show "delivers decode_ConcessionBound bound_in_domain"
    unfolding decode_ConcessionBound_def by (intro delivers_intros)
qed

lemma bounds_insert_last:
  assumes "list_all bound_in_domain bs" and "key_sorted cb_kind (ge_bounds e @ bs)"
  shows "add_all GuaranteeEnvelope_insert bs e = Inr (e\<lparr>ge_bounds := ge_bounds e @ bs\<rparr>)"
  using assms
proof (induction bs arbitrary: e)
  case (Cons b bs)
  have "\<And>y. y \<in> set (ge_bounds e) \<Longrightarrow> cb_kind y < cb_kind b"
    using Cons.prems by (simp add: key_sorted_def sorted_wrt_append)
  then have "GuaranteeEnvelope_insert b e = Inr (e\<lparr>ge_bounds := ge_bounds e @ [b]\<rparr>)"
    using Cons.prems(1) by (simp add: GuaranteeEnvelope_insert_def key_insert_last)
  then show ?case
    using Cons.IH [of "e\<lparr>ge_bounds := ge_bounds e @ [b]\<rparr>"] Cons.prems by simp
qed simp

lemma env_invar_length: "env_invar e \<Longrightarrow> length (ge_bounds e) \<le> 6"
proof -
  assume "env_invar e"
  then have "distinct (map cb_kind (ge_bounds e))"
    using key_sorted_distinct by (auto simp: env_invar_def)
  then have "length (ge_bounds e) = card (set (map cb_kind (ge_bounds e)))"
    by (metis distinct_card length_map)
  also have "\<dots> \<le> 6"
    using card_mono [OF finite_GuaranteeKind, of "set (map cb_kind (ge_bounds e))"] by (simp add: card_GuaranteeKind)
  finally show ?thesis .
qed

interpretation envelope_codec: record_codec encode_GuaranteeEnvelope decode_GuaranteeEnvelope env_invar
proof
  show "codes (encode_GuaranteeEnvelope v) decode_GuaranteeEnvelope v" if "env_invar v" for v
  proof -
    have "add_all GuaranteeEnvelope_insert (ge_bounds v) empty_envelope = Inr (empty_envelope\<lparr>ge_bounds := ge_bounds v\<rparr>)"
      using bounds_insert_last [of "ge_bounds v" empty_envelope] that by (simp add: env_invar_def empty_envelope_def)
    moreover have "codes (write_all [ByteWriter_u32 (ge_max_concessions v)])
        (dec_field ByteReader_u32 (\<lambda>m. dec_ok (
           let c = empty_envelope\<lparr>ge_bounds := ge_bounds v, ge_max_concessions := m\<rparr>
           in dec_check (GuaranteeEnvelope_validate c) (dec_return c)))) v"
      by (intro codec_intros) (use that in \<open>simp_all add: empty_envelope_def\<close>)
    ultimately show ?thesis
      unfolding encode_GuaranteeEnvelope_def decode_GuaranteeEnvelope_def
      using env_invar_length [OF that] that
      by (intro codes_items bound_codec.codes_valid)
        (auto simp: env_invar_def list_all_iff kMaxEnvelopeBounds_def)
  qed
  show "delivers decode_GuaranteeEnvelope env_invar"
    unfolding decode_GuaranteeEnvelope_def
    by (rule delivers_items [where I = "\<lambda>_ _. True", OF bound_codec.delivers_valid])
      (auto intro!: delivers_intros)
qed

section \<open>Contract and evidence\<close>

interpretation contract_codec: record_codec encode_ServiceContract decode_ServiceContract "\<lambda>c. ServiceContract_validate c = EC_Ok"
proof
  show "codes (encode_ServiceContract v) decode_ServiceContract v" if "(\<lambda>c. ServiceContract_validate c = EC_Ok) v" for v
    unfolding encode_ServiceContract_def decode_ServiceContract_def
    by (intro codec_intros guarantee_set_codec.codes_then envelope_codec.codes_then) (use that in \<open>auto simp: contract_ok_iff validate_envelope_against_ok\<close>)
  show "delivers decode_ServiceContract (\<lambda>c. ServiceContract_validate c = EC_Ok)"
    unfolding decode_ServiceContract_def
    by (intro delivers_intros guarantee_set_codec.delivers_then envelope_codec.delivers_then) (auto simp: contract_ok_iff validate_envelope_against_ok)
qed

interpretation item_codec: record_codec encode_EvidenceItem decode_EvidenceItem "\<lambda>i. EvidenceItem_validate i = EC_Ok"
proof
  show "codes (encode_EvidenceItem v) decode_EvidenceItem v" if "(\<lambda>i. EvidenceItem_validate i = EC_Ok) v" for v
    unfolding encode_EvidenceItem_def decode_EvidenceItem_def
    by (intro codec_intros) (use that in simp_all)
  show "delivers decode_EvidenceItem (\<lambda>i. EvidenceItem_validate i = EC_Ok)"
    unfolding decode_EvidenceItem_def
    by (intro delivers_intros) simp_all
qed

text \<open>A normalised vector within the bounds of the wire.\<close>

definition evidence_normal :: "EvidenceVector \<Rightarrow> bool" where
  "evidence_normal v \<longleftrightarrow>
     key_sorted src (ev_items v) \<and> list_all EvidenceItem_identified (ev_items v) \<and>
     list_all (\<lambda>i. EvidenceItem_validate i = EC_Ok) (ev_items v) \<and>
     length (ev_items v) \<le> unat kMaxEvidenceItems \<and> ev_limit v = kMaxCollectionItems"

lemma supersede_all:
  assumes "key_sorted src (kept @ is)" and "list_all EvidenceItem_identified is"
    and "list_all (\<lambda>i. EvidenceItem_validate i = EC_Ok) is"
  shows "supersede kept is = Inr (kept @ is)"
  using assms
proof (induction "is" arbitrary: kept)
  case (Cons i "is")
  have "src (last kept) < src i" if "kept \<noteq> []"
    using Cons.prems(1) last_in_set [OF that] by (simp add: key_sorted_def sorted_wrt_append)
  then have "\<not> (kept \<noteq> [] \<and> same_source (last kept) i)"
    by (auto simp flip: src_eq)
  then show ?case
    using Cons.IH [of "kept @ [i]"] Cons.prems by auto
qed simp

lemma normalize_normal:
  assumes "evidence_normal v"
  shows "EvidenceVector_normalize v = Inr v"
proof -
  have "sorted_wrt (\<lambda>a b. \<not> evidence_item_less b a) (ev_items v)"
    using assms evidence_item_less_src evidence_order.asym
    by (auto simp: evidence_normal_def key_sorted_def sorted_wrt_map elim!: sorted_wrt_mono_rel [rotated])
  then show ?thesis
    using assms supersede_all [of "[]" "ev_items v"]
    by (simp add: EvidenceVector_normalize_def evidence_order.sort_by_sorted_id evidence_normal_def)
qed

lemma push_all:
  assumes "list_all EvidenceItem_identified is" and "list_all (\<lambda>i. EvidenceItem_validate i = EC_Ok) is"
    and "length (ev_items v) + length is \<le> ev_limit v"
  shows "add_all EvidenceVector_push is v = Inr (v\<lparr>ev_items := ev_items v @ is\<rparr>)"
  using assms
proof (induction "is" arbitrary: v)
  case (Cons i "is")
  then show ?case
    using Cons.IH [of "v\<lparr>ev_items := ev_items v @ [i]\<rparr>"] by (simp add: EvidenceVector_push_def)
qed simp

lemma normalized_normal:
  assumes "EvidenceVector_normalize c = Inr v" and "list_all (\<lambda>i. EvidenceItem_validate i = EC_Ok) (ev_items c)"
    and "length (ev_items c) \<le> unat kMaxEvidenceItems" and "ev_limit c = kMaxCollectionItems"
  shows "evidence_normal v"
proof -
  obtain kept where kept: "supersede [] (sort_by evidence_item_less (ev_items c)) = Inr kept" "v = c\<lparr>ev_items := kept\<rparr>"
    using assms(1) by (auto simp: EvidenceVector_normalize_def split: sum.splits)
  have k: "key_sorted src kept" "list_all EvidenceItem_identified kept" "set kept \<subseteq> set (ev_items c)"
    using supersede_invar [OF kept(1)] evidence_order.sorted_sort_by [of "ev_items c"] by (simp_all add: key_sorted_def)
  have "distinct kept"
    using key_sorted_distinct [OF k(1)] by (simp add: distinct_map)
  then have "length kept \<le> length (ev_items c)"
    using k(3) by (metis card_length card_mono distinct_card finite_set order_trans)
  then show ?thesis
    using k kept(2) assms(2-4) by (auto simp: evidence_normal_def list_all_iff)
qed

interpretation vector_codec: record_codec encode_EvidenceVector decode_EvidenceVector evidence_normal
proof
  show "codes (encode_EvidenceVector v) decode_EvidenceVector v" if "evidence_normal v" for v
  proof -
    have "add_all EvidenceVector_push (ev_items v) (new_evidence_vector kMaxCollectionItems) = Inr v"
      using push_all [of "ev_items v" "new_evidence_vector kMaxCollectionItems"] that
      by (simp add: evidence_normal_def new_evidence_vector_def kMaxEvidenceItems_def kMaxCollectionItems_def)
    then show ?thesis
      unfolding encode_EvidenceVector_def decode_EvidenceVector_def
      by (intro codes_items item_codec.codes_valid)
        (use that in \<open>auto simp: evidence_normal_def list_all_iff normalize_normal [OF that] intro: codes_return\<close>)
  qed
  show "delivers decode_EvidenceVector evidence_normal"
    unfolding decode_EvidenceVector_def
  proof (rule delivers_items [where I = "\<lambda>i c. length (ev_items c) = i \<and> ev_limit c = kMaxCollectionItems \<and>
        list_all (\<lambda>i. EvidenceItem_validate i = EC_Ok) (ev_items c)", OF item_codec.delivers_valid])
    show "delivers_from True (case EvidenceVector_normalize t of Inl e \<Rightarrow> dec_fail e | Inr v \<Rightarrow> dec_return v) evidence_normal"
      if "n \<le> unat kMaxEvidenceItems" and "length (ev_items t) = n \<and> ev_limit t = kMaxCollectionItems \<and>
        list_all (\<lambda>i. EvidenceItem_validate i = EC_Ok) (ev_items t)" for n t
      using that normalized_normal [of t]
      by (cases "EvidenceVector_normalize t") (auto intro: delivers_fail delivers_return)
  qed (auto simp: new_evidence_vector_def EvidenceVector_push_def split: if_splits)
qed

interpretation capability_codec: record_codec encode_CapabilitySnapshot decode_CapabilitySnapshot "capability_in_domain"
proof
  show "codes (encode_CapabilitySnapshot v) decode_CapabilitySnapshot v" if "(capability_in_domain) v" for v
    unfolding encode_CapabilitySnapshot_def decode_CapabilitySnapshot_def
    by (intro codec_intros) (use that in simp_all)
  show "delivers decode_CapabilitySnapshot (capability_in_domain)"
    unfolding decode_CapabilitySnapshot_def
    by (intro delivers_intros) simp_all
qed

section \<open>Authority\<close>

interpretation authority_vector_codec: record_codec encode_AuthorityVector decode_AuthorityVector "\<lambda>_. True"
proof
  show "codes (encode_AuthorityVector v) decode_AuthorityVector v" if "(\<lambda>_. True) v" for v
    unfolding encode_AuthorityVector_def decode_AuthorityVector_def
    by (intro codec_intros) (use that in simp_all)
  show "delivers decode_AuthorityVector (\<lambda>_. True)"
    unfolding decode_AuthorityVector_def
    by (intro delivers_intros) simp_all
qed

interpretation binding_codec: record_codec encode_AuthorityBinding decode_AuthorityBinding "\<lambda>_. True"
proof
  show "codes (encode_AuthorityBinding v) decode_AuthorityBinding v" if "(\<lambda>_. True) v" for v
    unfolding encode_AuthorityBinding_def decode_AuthorityBinding_def
    by (intro codec_intros authority_vector_codec.codes_then) (use that in simp_all)
  show "delivers decode_AuthorityBinding (\<lambda>_. True)"
    unfolding decode_AuthorityBinding_def
    by (intro delivers_intros authority_vector_codec.delivers_then) simp_all
qed

section \<open>Decision and plan\<close>

interpretation support_codec: record_codec encode_GuaranteeSupport decode_GuaranteeSupport "\<lambda>_. True"
proof
  show "codes (encode_GuaranteeSupport v) decode_GuaranteeSupport v" if "(\<lambda>_. True) v" for v
    unfolding encode_GuaranteeSupport_def decode_GuaranteeSupport_def
    by (intro codec_intros) (use that in simp_all)
  show "delivers decode_GuaranteeSupport (\<lambda>_. True)"
    unfolding decode_GuaranteeSupport_def
    by (intro delivers_intros) simp_all
qed

interpretation work_codec: record_codec encode_AllocationWork decode_AllocationWork "\<lambda>_. True"
proof
  show "codes (encode_AllocationWork v) decode_AllocationWork v" if "(\<lambda>_. True) v" for v
    unfolding encode_AllocationWork_def decode_AllocationWork_def
    by (intro codec_intros) (use that in simp_all)
  show "delivers decode_AllocationWork (\<lambda>_. True)"
    unfolding decode_AllocationWork_def
    by (intro delivers_intros) simp_all
qed

definition entry_encodable :: "AllocationEntry \<Rightarrow> bool" where
  "entry_encodable e \<longleftrightarrow> set_invar (ae_approved e) \<and> delta_in_domain (ae_delta e) \<and>
     ae_allocated_bandwidth_kbps e \<le> kMaxBandwidthKbps"

interpretation entry_codec: record_codec encode_AllocationEntry decode_AllocationEntry "entry_encodable"
proof
  show "codes (encode_AllocationEntry v) decode_AllocationEntry v" if "(entry_encodable) v" for v
    unfolding encode_AllocationEntry_def decode_AllocationEntry_def
    by (intro codec_intros guarantee_set_codec.codes_then delta_codec.codes_then) (use that in \<open>auto simp: entry_encodable_def\<close>)
  show "delivers decode_AllocationEntry (entry_encodable)"
    unfolding decode_AllocationEntry_def
    by (intro delivers_intros guarantee_set_codec.delivers_then delta_codec.delivers_then) (auto simp: entry_encodable_def)
qed

definition plan_encodable :: "AllocationPlan \<Rightarrow> bool" where
  "plan_encodable p \<longleftrightarrow> length (ap_entries p) \<le> unat kMaxPlanEntries \<and> list_all entry_encodable (ap_entries p)"

interpretation plan_codec: record_codec encode_AllocationPlan decode_AllocationPlan "plan_encodable"
proof
  show "codes (encode_AllocationPlan v) decode_AllocationPlan v" if "(plan_encodable) v" for v
    unfolding encode_AllocationPlan_def decode_AllocationPlan_def
    by (intro codec_intros authority_vector_codec.codes_then work_codec.codes_then entry_codec.codes_list_then) (use that in \<open>auto simp: plan_encodable_def\<close>)
  show "delivers decode_AllocationPlan (plan_encodable)"
    unfolding decode_AllocationPlan_def
    by (intro delivers_intros authority_vector_codec.delivers_then work_codec.delivers_then entry_codec.delivers_list_then) (auto simp: plan_encodable_def)
qed

definition decision_encodable :: "Decision \<Rightarrow> bool" where
  "decision_encodable d \<longleftrightarrow> Decision_validate d = EC_Ok \<and> delta_in_domain (de_delta d) \<and>
     length (de_reasons d) \<le> kMaxReasonsPerDecision \<and> length (de_support d) \<le> unat kMaxSupportEntries \<and>
     evidence_normal (de_evidence d)"

lemma decision_sets: "Decision_validate d = EC_Ok \<Longrightarrow> set_invar (de_original d) \<and> set_invar (de_approved d)"
  by (simp add: Decision_validate_def status_simps)

lemma kMaxReasons_unat: "unat (of_nat kMaxReasonsPerDecision :: u32) = kMaxReasonsPerDecision"
  "unat (of_nat kMaxPreconditions :: u32) = kMaxPreconditions"
  by (simp_all add: kMaxReasonsPerDecision_def kMaxPreconditions_def)

interpretation decision_codec: record_codec encode_Decision decode_Decision "decision_encodable"
proof
  show "codes (encode_Decision v) decode_Decision v" if "(decision_encodable) v" for v
    unfolding encode_Decision_def decode_Decision_def
    by (intro codec_intros binding_codec.codes_then guarantee_set_codec.codes_then delta_codec.codes_then vector_codec.codes_then support_codec.codes_list_then) (use that in \<open>auto simp: decision_encodable_def decision_sets kMaxReasons_unat list_all_iff\<close>)
  show "delivers decode_Decision (decision_encodable)"
    unfolding decode_Decision_def
    by (intro delivers_intros binding_codec.delivers_then guarantee_set_codec.delivers_then delta_codec.delivers_then vector_codec.delivers_then support_codec.delivers_list_then) (auto simp: decision_encodable_def decision_sets kMaxReasons_unat list_all_iff)
qed

section \<open>Grant, fence and restoration\<close>

interpretation precondition_codec: record_codec encode_RestorationPrecondition decode_RestorationPrecondition "precondition_in_domain"
proof
  show "codes (encode_RestorationPrecondition v) decode_RestorationPrecondition v" if "(precondition_in_domain) v" for v
    unfolding encode_RestorationPrecondition_def decode_RestorationPrecondition_def
    by (intro codec_intros) (use that in simp_all)
  show "delivers decode_RestorationPrecondition (precondition_in_domain)"
    unfolding decode_RestorationPrecondition_def
    by (intro delivers_intros) simp_all
qed

interpretation precondition_evaluation_codec: record_codec encode_PreconditionEvaluation decode_PreconditionEvaluation "\<lambda>e. precondition_in_domain (pe_precondition e)"
proof
  show "codes (encode_PreconditionEvaluation v) decode_PreconditionEvaluation v" if "(\<lambda>e. precondition_in_domain (pe_precondition e)) v" for v
    unfolding encode_PreconditionEvaluation_def decode_PreconditionEvaluation_def
    by (intro codec_intros precondition_codec.codes_then) (use that in simp_all)
  show "delivers decode_PreconditionEvaluation (\<lambda>e. precondition_in_domain (pe_precondition e))"
    unfolding decode_PreconditionEvaluation_def
    by (intro delivers_intros precondition_codec.delivers_then) simp_all
qed

definition restoration_encodable :: "RestorationEvaluation \<Rightarrow> bool" where
  "restoration_encodable r \<longleftrightarrow> RestorationEvaluation_validate r = EC_Ok \<and>
     length (re_preconditions r) \<le> unat kMaxPreconditionEvaluations \<and>
     list_all (\<lambda>e. precondition_in_domain (pe_precondition e)) (re_preconditions r)"

lemma restoration_sets:
  "RestorationEvaluation_validate r = EC_Ok \<Longrightarrow> set_invar (re_original r) \<and> set_invar (re_degraded r)"
  by (simp add: RestorationEvaluation_validate_def status_simps)

interpretation restoration_codec: record_codec encode_RestorationEvaluation decode_RestorationEvaluation "restoration_encodable"
proof
  show "codes (encode_RestorationEvaluation v) decode_RestorationEvaluation v" if "(restoration_encodable) v" for v
    unfolding encode_RestorationEvaluation_def decode_RestorationEvaluation_def
    by (intro codec_intros binding_codec.codes_then guarantee_set_codec.codes_then precondition_evaluation_codec.codes_list_then) (use that in \<open>auto simp: restoration_encodable_def restoration_sets\<close>)
  show "delivers decode_RestorationEvaluation (restoration_encodable)"
    unfolding decode_RestorationEvaluation_def
    by (intro delivers_intros binding_codec.delivers_then guarantee_set_codec.delivers_then precondition_evaluation_codec.delivers_list_then) (auto simp: restoration_encodable_def restoration_sets)
qed

definition grant_encodable :: "Grant \<Rightarrow> bool" where
  "grant_encodable g \<longleftrightarrow> Grant_validate g = EC_Ok \<and> delta_in_domain (gr_delta g) \<and> evidence_normal (gr_evidence g) \<and>
     length (gr_preconditions g) \<le> kMaxPreconditions \<and> list_all precondition_in_domain (gr_preconditions g)"

lemma grant_sets: "Grant_validate g = EC_Ok \<Longrightarrow> set_invar (gr_original g) \<and> set_invar (gr_degraded g)"
  by (simp add: Grant_validate_def status_simps)

interpretation grant_codec: record_codec encode_Grant decode_Grant "grant_encodable"
proof
  show "codes (encode_Grant v) decode_Grant v" if "(grant_encodable) v" for v
    unfolding encode_Grant_def decode_Grant_def
    by (intro codec_intros binding_codec.codes_then guarantee_set_codec.codes_then delta_codec.codes_then vector_codec.codes_then precondition_codec.codes_list_then) (use that in \<open>auto simp: grant_encodable_def grant_sets kMaxReasons_unat\<close>)
  show "delivers decode_Grant (grant_encodable)"
    unfolding decode_Grant_def
    by (intro delivers_intros binding_codec.delivers_then guarantee_set_codec.delivers_then delta_codec.delivers_then vector_codec.delivers_then precondition_codec.delivers_list_then) (auto simp: grant_encodable_def grant_sets kMaxReasons_unat)
qed

definition fence_encodable :: "FenceRecord \<Rightarrow> bool" where
  "fence_encodable f \<longleftrightarrow> FenceRecord_validate f = EC_Ok \<and> fr_delta f AND NOT known_flags = 0"

interpretation fence_codec: record_codec encode_FenceRecord decode_FenceRecord "fence_encodable"
proof
  show "codes (encode_FenceRecord v) decode_FenceRecord v" if "(fence_encodable) v" for v
    unfolding encode_FenceRecord_def decode_FenceRecord_def
    by (intro codec_intros binding_codec.codes_then) (use that in \<open>auto simp: fence_encodable_def\<close>)
  show "delivers decode_FenceRecord (fence_encodable)"
    unfolding decode_FenceRecord_def
    by (intro delivers_intros binding_codec.delivers_then) (auto simp: fence_encodable_def)
qed

section \<open>Policy\<close>

interpretation rule_codec: record_codec encode_PolicyRule decode_PolicyRule "\<lambda>r. PolicyRule_validate r = EC_Ok"
proof
  show "codes (encode_PolicyRule v) decode_PolicyRule v" if "(\<lambda>r. PolicyRule_validate r = EC_Ok) v" for v
    unfolding encode_PolicyRule_def decode_PolicyRule_def
    by (intro codec_intros) (use that in simp_all)
  show "delivers decode_PolicyRule (\<lambda>r. PolicyRule_validate r = EC_Ok)"
    unfolding decode_PolicyRule_def
    by (intro delivers_intros) simp_all
qed

interpretation profile_codec: record_codec encode_ClassProfile decode_ClassProfile "\<lambda>p. ClassProfile_validate p = EC_Ok"
proof
  show "codes (encode_ClassProfile v) decode_ClassProfile v" if "(\<lambda>p. ClassProfile_validate p = EC_Ok) v" for v
    unfolding encode_ClassProfile_def decode_ClassProfile_def
    by (intro codec_intros envelope_codec.codes_then) (use that in \<open>auto simp: ClassProfile_validate_def status_simps\<close>)
  show "delivers decode_ClassProfile (\<lambda>p. ClassProfile_validate p = EC_Ok)"
    unfolding decode_ClassProfile_def
    by (intro delivers_intros envelope_codec.delivers_then) (auto simp: ClassProfile_validate_def status_simps)
qed

definition policy_encodable :: "Policy \<Rightarrow> bool" where
  "policy_encodable p \<longleftrightarrow> length (po_rules p) \<le> unat kMaxRulesPerPolicy \<and>
     list_all (\<lambda>r. PolicyRule_validate r = EC_Ok) (po_rules p) \<and>
     length (po_class_profiles p) \<le> unat kMaxClassProfiles \<and>
     list_all (\<lambda>c. ClassProfile_validate c = EC_Ok) (po_class_profiles p) \<and>
     (installed p \<longrightarrow> Policy_validate p = EC_Ok)"

interpretation policy_codec: record_codec encode_Policy decode_Policy "policy_encodable"
proof
  show "codes (encode_Policy v) decode_Policy v" if "(policy_encodable) v" for v
    unfolding encode_Policy_def decode_Policy_def
    by (intro codec_intros rule_codec.codes_list_then profile_codec.codes_list_then) (use that in \<open>auto simp: policy_encodable_def\<close>)
  show "delivers decode_Policy (policy_encodable)"
    unfolding decode_Policy_def
    by (intro delivers_intros rule_codec.delivers_list_then profile_codec.delivers_list_then) (auto simp: policy_encodable_def)
qed

section \<open>Properties\<close>

text \<open>
  C22. Serialisation is lossless on the domain of every durable record: contracts, policies, evidence,
  decisions, plans, grants, fences and restorations that are valid (and within the codec's element
  counts) are decoded from their own encoding, field for field, with no trailing bytes.
\<close>

theorem codec_round_trip:
  "(ServiceContract_validate c = EC_Ok \<longrightarrow> round_trips encode_ServiceContract decode_ServiceContract c) \<and>
   (policy_encodable p \<longrightarrow> round_trips encode_Policy decode_Policy p) \<and>
   (evidence_normal v \<longrightarrow> round_trips encode_EvidenceVector decode_EvidenceVector v) \<and>
   (capability_in_domain k \<longrightarrow> round_trips encode_CapabilitySnapshot decode_CapabilitySnapshot k) \<and>
   (decision_encodable d \<longrightarrow> round_trips encode_Decision decode_Decision d) \<and>
   (plan_encodable a \<longrightarrow> round_trips encode_AllocationPlan decode_AllocationPlan a) \<and>
   (grant_encodable g \<longrightarrow> round_trips encode_Grant decode_Grant g) \<and>
   (fence_encodable f \<longrightarrow> round_trips encode_FenceRecord decode_FenceRecord f) \<and>
   (restoration_encodable e \<longrightarrow> round_trips encode_RestorationEvaluation decode_RestorationEvaluation e)"
  by (intro conjI impI contract_codec.round policy_codec.round vector_codec.round capability_codec.round
      decision_codec.round plan_codec.round grant_codec.round fence_codec.round restoration_codec.round)

lemma sample_capability_encodes:
  "capability_in_domain sample_capability" "bw_ok (encode_CapabilitySnapshot sample_capability (new_writer 4096 64))"
  subgoal by code_simp
  subgoal by (simp add: encode_CapabilitySnapshot_def write_all_def write_enum_def ByteWriter_u64_def ByteWriter_u32_def
      ByteWriter_u16_def ByteWriter_u8_def ByteWriter_boolean_def ByteWriter_raw_def ByteWriter_ensure_def new_writer_def Let_def)
  done

theorem codec_round_trip_witness:
  "\<exists>r. decode_CapabilitySnapshot
      (new_reader (bw_data (encode_CapabilitySnapshot sample_capability (new_writer 4096 64))) 64) =
     (Inr sample_capability, r) \<and> decode_finish r = EC_Ok"
proof -
  have "round_trips encode_CapabilitySnapshot decode_CapabilitySnapshot sample_capability"
    using codec_round_trip [where k = sample_capability] sample_capability_encodes(1) by blast
  then show ?thesis
    using sample_capability_encodes(2) by (simp add: round_trips_def)
qed

text \<open>
  C23. Decoders validate before they materialise: whatever bytes arrive, a decoder either reports an error
  or hands out a value that passes the type's own validation, and in both cases it stays inside the
  buffer it was given.
\<close>

theorem decoders_are_safe:
  "decodes_safely decode_ServiceContract (\<lambda>c. ServiceContract_validate c = EC_Ok) bs m \<and>
   decodes_safely decode_Policy policy_encodable bs m \<and>
   decodes_safely decode_EvidenceVector evidence_normal bs m \<and>
   decodes_safely decode_CapabilitySnapshot capability_in_domain bs m \<and>
   decodes_safely decode_Decision decision_encodable bs m \<and>
   decodes_safely decode_AllocationPlan plan_encodable bs m \<and>
   decodes_safely decode_Grant grant_encodable bs m \<and>
   decodes_safely decode_FenceRecord fence_encodable bs m \<and>
   decodes_safely decode_RestorationEvaluation restoration_encodable bs m"
  by (intro conjI contract_codec.safe policy_codec.safe vector_codec.safe capability_codec.safe
      decision_codec.safe plan_codec.safe grant_codec.safe fence_codec.safe restoration_codec.safe)

section \<open>A policy that validates but cannot be read back\<close>

lemma codes_emits: "codes f d v \<Longrightarrow> \<exists>bs. emits f bs"
  by (auto simp: codes_def)

lemma field_codes_emits: "field_codes f get v \<Longrightarrow> \<exists>bs. emits f bs"
  by (auto simp: field_codes_def)

lemmas plain_emits = field_codes_u64 [THEN field_codes_emits] field_codes_u32 [THEN field_codes_emits]
  field_codes_bool [THEN field_codes_emits] field_codes_enum [THEN field_codes_emits]

lemma write_size_emits: "\<exists>bs. emits (write_size xs) bs"
  unfolding write_size_def by (rule plain_emits)

lemma write_all_emits: "list_all (\<lambda>f. \<exists>bs. emits f bs) fs \<Longrightarrow> \<exists>bs. emits (write_all fs) bs"
  by (induction fs) (auto intro: emits_Nil emits_Cons)

lemma write_each_emits: "list_all (\<lambda>x. \<exists>bs. emits (put x) bs) xs \<Longrightarrow> \<exists>bs. emits (write_each put xs) bs"
  by (induction xs) (auto simp: write_each_Cons write_each_Nil intro!: emits_Nil write_all_emits)

text \<open>A policy may validate with up to \<open>kMaxCollectionItems\<close> rules, and is then written, but the decoder accepts
  only \<open>kMaxRulesPerPolicy\<close>.\<close>

lemma rules_validate_all: "rules_validate prev rs = EC_Ok \<Longrightarrow> list_all (\<lambda>r. PolicyRule_validate r = EC_Ok) rs"
  by (induction prev rs rule: rules_validate.induct) (auto simp: status_simps split: option.splits)

lemma policy_over_limit_rejected:
  assumes "unat kMaxRulesPerPolicy < length (po_rules p)" and "Policy_validate p = EC_Ok"
    and "bw_ok (encode_Policy p (new_writer t m))"
  shows "fst (decode_Policy (new_reader (bw_data (encode_Policy p (new_writer t m))) m')) = Inl EC_CapacityExceeded"
proof -
  have rules: "list_all (\<lambda>r. PolicyRule_validate r = EC_Ok) (po_rules p)" "length (po_rules p) \<le> kMaxCollectionItems"
      "list_all (\<lambda>c. ClassProfile_validate c = EC_Ok) (po_class_profiles p)"
    using assms(2) by (auto simp: Policy_validate_def status_simps profiles_validate_ok dest: rules_validate_all)
  obtain as bs cs where fields: "emits (ByteWriter_u64 (po_id p)) as" "gets ByteReader_u64 as (po_id p)"
      "emits (ByteWriter_u64 (po_generation p)) bs" "gets ByteReader_u64 bs (po_generation p)"
      "emits (write_size (po_rules p)) cs" "gets ByteReader_u32 cs (of_nat (length (po_rules p)))"
    using field_codes_u64 [of "po_id p"] field_codes_u64 [of "po_generation p"]
      field_codes_u32 [of "of_nat (length (po_rules p))"] by (auto simp: field_codes_def write_size_def)
  define fs where "fs = [write_each encode_PolicyRule (po_rules p), write_size (po_class_profiles p),
    write_each encode_ClassProfile (po_class_profiles p),
    write_enum DegradeAction_code (po_unknown_evidence_action p),
    write_enum DegradeAction_code (po_stale_evidence_action p),
    write_enum DegradeAction_code (po_conflict_evidence_action p),
    write_enum DegradeAction_code (po_invalid_evidence_action p),
    write_enum DegradeAction_code (po_unsupported_evidence_action p),
    ByteWriter_boolean (po_protect_first p), ByteWriter_u64 (po_default_ttl_ticks p),
    ByteWriter_u64 (po_minimum_ttl_ticks p), ByteWriter_u32 (po_max_concessions_per_contract p),
    ByteWriter_u32 (po_minimum_dwell_ticks p), ByteWriter_u32 (po_minimum_protected_served p),
    ByteWriter_u64 (po_search_node_budget p), ByteWriter_u64 (po_evidence_freshness_ticks p)]"
  have fs: "encode_Policy p = write_all (ByteWriter_u64 (po_id p) # ByteWriter_u64 (po_generation p) #
      write_size (po_rules p) # fs)"
    by (simp only: encode_Policy_def fs_def)
  have "\<exists>bs. emits (write_each encode_PolicyRule (po_rules p)) bs"
      "\<exists>bs. emits (write_each encode_ClassProfile (po_class_profiles p)) bs"
    using rules
    by (simp_all add: write_each_emits list_all_iff codes_emits [OF rule_codec.codes_valid]
        codes_emits [OF profile_codec.codes_valid])
  then have "list_all (\<lambda>f. \<exists>bs. emits f bs) fs"
    by (simp add: fs_def write_size_emits plain_emits plain_emits(4) [OF degradeaction_wire.wire_enum_axioms])
  then obtain ds where ds: "emits (write_all fs) ds"
    using write_all_emits by blast
  have "emits (encode_Policy p) (as @ bs @ cs @ ds)"
    unfolding fs using fields ds by (intro emits_Cons)
  then have data: "bw_data (encode_Policy p (new_writer t m)) = as @ bs @ cs @ ds"
    using assms(3) unfolding emits_def by (metis (no_types, lifting) append_Nil byte_writer.select_convs(1)
        byte_writer.surjective byte_writer.update_convs(1) new_writer_def)
  let ?r = "new_reader (as @ bs @ cs @ ds) m'"
  have "stands_at ?r (as @ bs @ cs)"
    by (simp add: stands_at_def new_reader_def)
  then have at: "stands_at ?r as" "stands_at (past as ?r) bs" "stands_at (past bs (past as ?r)) cs"
    by (auto dest!: stands_at_append)
  let ?r3 = "past cs (past bs (past as ?r))"
  have "br_ok ?r3" and ok2: "br_ok (past bs (past as ?r))"
    by (simp_all add: past_def new_reader_def)
  moreover have "kMaxRulesPerPolicy < (of_nat (length (po_rules p)) :: u32)"
    using assms(1) rules(2) by (simp add: word_less_nat_alt unat_of_nat take_bit_nat_eq_self kMaxCollectionItems_def)
  ultimately have count: "ByteReader_count kMaxRulesPerPolicy (past bs (past as ?r)) =
      (0, ?r3\<lparr>br_error := EC_CapacityExceeded\<rparr>)"
    using fields(6) at(3) by (simp add: gets_def ByteReader_count_def ByteReader_fail_def)
  show ?thesis
    unfolding data decode_Policy_def
    using fields(2,4) at count by (simp add: dec_field_def gets_def dec_items_def dec_ok_def)
qed

end
