(* ===== verification/Accounting.thy ===== *)
theory Accounting
  imports Codec_Laws
begin

text \<open>
  Exact accounting: \<open>include/dmf/accounting.hpp\<close> and \<open>src/runtime/accounting.cpp\<close>. The counter block, the facade
  with its overflow-checked increments, the closure identities and the serialisation of the block. The
  facade does not own the block: the store keeps it inside the durable state, so the operations below
  take the facade with the block it currently points at and return it updated. The mutex is not
  modelled; every operation takes it exactly once around its whole body, so each is one atomic step.
\<close>

section \<open>The counter block and the facade\<close>

record AccountingCounters =
  ac_decisions_total :: u64
  ac_decisions_full :: u64
  ac_decisions_degraded :: u64
  ac_decisions_refused :: u64
  ac_decisions_escalated :: u64
  ac_decisions_unsupported :: u64
  ac_decisions_indeterminate :: u64
  ac_decisions_invalid :: u64
  ac_grants_issued :: u64
  ac_grants_acknowledged :: u64
  ac_grants_applied :: u64
  ac_grants_fenced :: u64
  ac_grants_expired :: u64
  ac_grants_revoked :: u64
  ac_grants_pruned :: u64
  ac_grants_released :: u64
  ac_fences_total :: u64
  ac_fences_pruned :: u64
  ac_evidence_published :: u64
  ac_evidence_rejected :: u64
  ac_evidence_superseded :: u64
  ac_plans_total :: u64
  ac_plans_optimal :: u64
  ac_plans_feasible :: u64
  ac_plans_infeasible :: u64
  ac_plans_search_limit :: u64
  ac_allocator_nodes_visited :: u64
  ac_frames_received :: u64
  ac_frames_sent :: u64
  ac_frames_rejected :: u64
  ac_frames_oversized :: u64
  ac_sessions_opened :: u64
  ac_sessions_closed :: u64
  ac_sessions_rejected :: u64
  ac_requests_rejected :: u64
  ac_journal_records_written :: u64
  ac_journal_records_read :: u64
  ac_journal_bytes_written :: u64
  ac_snapshots_taken :: u64
  ac_snapshots_loaded :: u64
  ac_torn_tails_recovered :: u64
  ac_boots :: u64
  ac_term_advances :: u64
  ac_restorations_proven :: u64
  ac_restorations_refused :: u64

definition no_counters :: AccountingCounters where
  "no_counters = \<lparr>ac_decisions_total = 0, ac_decisions_full = 0, ac_decisions_degraded = 0,
     ac_decisions_refused = 0, ac_decisions_escalated = 0, ac_decisions_unsupported = 0,
     ac_decisions_indeterminate = 0, ac_decisions_invalid = 0, ac_grants_issued = 0,
     ac_grants_acknowledged = 0, ac_grants_applied = 0, ac_grants_fenced = 0, ac_grants_expired = 0,
     ac_grants_revoked = 0, ac_grants_pruned = 0, ac_grants_released = 0, ac_fences_total = 0,
     ac_fences_pruned = 0, ac_evidence_published = 0, ac_evidence_rejected = 0,
     ac_evidence_superseded = 0, ac_plans_total = 0, ac_plans_optimal = 0, ac_plans_feasible = 0,
     ac_plans_infeasible = 0, ac_plans_search_limit = 0, ac_allocator_nodes_visited = 0,
     ac_frames_received = 0, ac_frames_sent = 0, ac_frames_rejected = 0, ac_frames_oversized = 0,
     ac_sessions_opened = 0, ac_sessions_closed = 0, ac_sessions_rejected = 0,
     ac_requests_rejected = 0, ac_journal_records_written = 0, ac_journal_records_read = 0,
     ac_journal_bytes_written = 0, ac_snapshots_taken = 0, ac_snapshots_loaded = 0,
     ac_torn_tails_recovered = 0, ac_boots = 0, ac_term_advances = 0, ac_restorations_proven = 0,
     ac_restorations_refused = 0\<rparr>"

text \<open>\<open>at_writable\<close> says whether the facade was built from a mutable block (\<open>mutable_\<close> is not null).\<close>

record Accounting =
  at_counters :: AccountingCounters
  at_writable :: bool

text \<open>\<open>status = f(); if (!status.ok()) return status; return g();\<close>\<close>

definition status_then :: "('s \<Rightarrow> status \<times> 's) \<Rightarrow> ('s \<Rightarrow> status \<times> 's) \<Rightarrow> 's \<Rightarrow> status \<times> 's" where
  "status_then f g s = (case f s of (e, s') \<Rightarrow> if e = EC_Ok then g s' else (e, s'))"

definition bump ::
    "(AccountingCounters \<Rightarrow> u64) \<Rightarrow> ((u64 \<Rightarrow> u64) \<Rightarrow> AccountingCounters \<Rightarrow> AccountingCounters) \<Rightarrow> u64 \<Rightarrow>
     Accounting \<Rightarrow> status \<times> Accounting" where
  "bump get upd delta a =
     (if \<not> at_writable a then (EC_InvalidState, a)
      else case checked_add (get (at_counters a)) delta of
             None \<Rightarrow> (EC_Overflow, a)
           | Some v \<Rightarrow> (EC_Ok, a\<lparr>at_counters := upd (\<lambda>_. v) (at_counters a)\<rparr>))"

definition Accounting_replace :: "AccountingCounters \<Rightarrow> Accounting \<Rightarrow> status \<times> Accounting" where
  "Accounting_replace c a =
     (if \<not> at_writable a then (EC_InvalidState, a) else (EC_Ok, a\<lparr>at_counters := c\<rparr>))"

definition record_decision :: "DecisionOutcome \<Rightarrow> Accounting \<Rightarrow> status \<times> Accounting" where
  "record_decision outcome =
     status_then (bump ac_decisions_total ac_decisions_total_update 1)
       (case outcome of
          DO_Full \<Rightarrow> bump ac_decisions_full ac_decisions_full_update 1
        | DO_Degraded \<Rightarrow> bump ac_decisions_degraded ac_decisions_degraded_update 1
        | DO_Refused \<Rightarrow> bump ac_decisions_refused ac_decisions_refused_update 1
        | DO_Escalated \<Rightarrow> bump ac_decisions_escalated ac_decisions_escalated_update 1
        | DO_Unsupported \<Rightarrow> bump ac_decisions_unsupported ac_decisions_unsupported_update 1
        | DO_Indeterminate \<Rightarrow> bump ac_decisions_indeterminate ac_decisions_indeterminate_update 1
        | DO_Invalid \<Rightarrow> bump ac_decisions_invalid ac_decisions_invalid_update 1)"

definition record_plan :: "PlanStatus \<Rightarrow> u64 \<Rightarrow> Accounting \<Rightarrow> status \<times> Accounting" where
  "record_plan st nodes_visited =
     status_then (bump ac_plans_total ac_plans_total_update 1)
       (status_then (bump ac_allocator_nodes_visited ac_allocator_nodes_visited_update nodes_visited)
         (case st of
            PS_Optimal \<Rightarrow> bump ac_plans_optimal ac_plans_optimal_update 1
          | PS_Feasible \<Rightarrow> bump ac_plans_feasible ac_plans_feasible_update 1
          | PS_ProvenInfeasible \<Rightarrow> bump ac_plans_infeasible ac_plans_infeasible_update 1
          | PS_SearchLimitReached \<Rightarrow> bump ac_plans_search_limit ac_plans_search_limit_update 1
          | PS_Indeterminate \<Rightarrow> Pair EC_Ok
          | PS_Invalid \<Rightarrow> Pair EC_Ok))"

definition record_grant_issued :: "Accounting \<Rightarrow> status \<times> Accounting" where
  "record_grant_issued = bump ac_grants_issued ac_grants_issued_update 1"

definition record_grant_acknowledged :: "Accounting \<Rightarrow> status \<times> Accounting" where
  "record_grant_acknowledged = bump ac_grants_acknowledged ac_grants_acknowledged_update 1"

definition record_grant_applied :: "Accounting \<Rightarrow> status \<times> Accounting" where
  "record_grant_applied = bump ac_grants_applied ac_grants_applied_update 1"

definition record_grant_fenced :: "Accounting \<Rightarrow> status \<times> Accounting" where
  "record_grant_fenced = bump ac_grants_fenced ac_grants_fenced_update 1"

definition record_grant_expired :: "Accounting \<Rightarrow> status \<times> Accounting" where
  "record_grant_expired = bump ac_grants_expired ac_grants_expired_update 1"

definition record_grant_revoked :: "Accounting \<Rightarrow> status \<times> Accounting" where
  "record_grant_revoked = bump ac_grants_revoked ac_grants_revoked_update 1"

definition record_evidence_published :: "Accounting \<Rightarrow> status \<times> Accounting" where
  "record_evidence_published = bump ac_evidence_published ac_evidence_published_update 1"

definition record_evidence_rejected :: "Accounting \<Rightarrow> status \<times> Accounting" where
  "record_evidence_rejected = bump ac_evidence_rejected ac_evidence_rejected_update 1"

definition record_frame_received :: "Accounting \<Rightarrow> status \<times> Accounting" where
  "record_frame_received = bump ac_frames_received ac_frames_received_update 1"

definition record_frame_sent :: "Accounting \<Rightarrow> status \<times> Accounting" where
  "record_frame_sent = bump ac_frames_sent ac_frames_sent_update 1"

definition record_session_opened :: "Accounting \<Rightarrow> status \<times> Accounting" where
  "record_session_opened = bump ac_sessions_opened ac_sessions_opened_update 1"

definition record_session_closed :: "Accounting \<Rightarrow> status \<times> Accounting" where
  "record_session_closed = bump ac_sessions_closed ac_sessions_closed_update 1"

definition record_session_rejected :: "Accounting \<Rightarrow> status \<times> Accounting" where
  "record_session_rejected = bump ac_sessions_rejected ac_sessions_rejected_update 1"

definition record_request_rejected :: "Accounting \<Rightarrow> status \<times> Accounting" where
  "record_request_rejected = bump ac_requests_rejected ac_requests_rejected_update 1"

definition record_snapshot_taken :: "Accounting \<Rightarrow> status \<times> Accounting" where
  "record_snapshot_taken = bump ac_snapshots_taken ac_snapshots_taken_update 1"

definition record_snapshot_loaded :: "Accounting \<Rightarrow> status \<times> Accounting" where
  "record_snapshot_loaded = bump ac_snapshots_loaded ac_snapshots_loaded_update 1"

definition record_torn_tail :: "Accounting \<Rightarrow> status \<times> Accounting" where
  "record_torn_tail = bump ac_torn_tails_recovered ac_torn_tails_recovered_update 1"

definition record_boot :: "Accounting \<Rightarrow> status \<times> Accounting" where
  "record_boot = bump ac_boots ac_boots_update 1"

definition record_term_advance :: "Accounting \<Rightarrow> status \<times> Accounting" where
  "record_term_advance = bump ac_term_advances ac_term_advances_update 1"

definition record_restoration_proven :: "Accounting \<Rightarrow> status \<times> Accounting" where
  "record_restoration_proven = bump ac_restorations_proven ac_restorations_proven_update 1"

definition record_restoration_refused :: "Accounting \<Rightarrow> status \<times> Accounting" where
  "record_restoration_refused = bump ac_restorations_refused ac_restorations_refused_update 1"

definition record_grant_pruned :: "u64 \<Rightarrow> Accounting \<Rightarrow> status \<times> Accounting" where
  "record_grant_pruned n = bump ac_grants_pruned ac_grants_pruned_update n"

definition record_fences :: "u64 \<Rightarrow> Accounting \<Rightarrow> status \<times> Accounting" where
  "record_fences n = bump ac_fences_total ac_fences_total_update n"

definition record_fences_pruned :: "u64 \<Rightarrow> Accounting \<Rightarrow> status \<times> Accounting" where
  "record_fences_pruned n = bump ac_fences_pruned ac_fences_pruned_update n"

definition record_evidence_superseded :: "u64 \<Rightarrow> Accounting \<Rightarrow> status \<times> Accounting" where
  "record_evidence_superseded n = bump ac_evidence_superseded ac_evidence_superseded_update n"

definition record_journal_read :: "u64 \<Rightarrow> Accounting \<Rightarrow> status \<times> Accounting" where
  "record_journal_read n = bump ac_journal_records_read ac_journal_records_read_update n"

definition record_frame_rejected :: "bool \<Rightarrow> Accounting \<Rightarrow> status \<times> Accounting" where
  "record_frame_rejected oversized =
     status_then (bump ac_frames_rejected ac_frames_rejected_update 1)
       (if oversized then bump ac_frames_oversized ac_frames_oversized_update 1 else Pair EC_Ok)"

definition record_journal_write :: "u64 \<Rightarrow> u64 \<Rightarrow> Accounting \<Rightarrow> status \<times> Accounting" where
  "record_journal_write records bytes =
     status_then (bump ac_journal_records_written ac_journal_records_written_update records)
       (bump ac_journal_bytes_written ac_journal_bytes_written_update bytes)"

section \<open>Closure\<close>

record ClosureViolation =
  cv_identity :: string
  cv_expected :: u64
  cv_observed :: u64

record ClosureReport =
  cr_closed :: bool
  cr_violations :: "ClosureViolation list"

record ClosureInputs =
  ci_live_grants :: u64
  ci_retained_terminated_grants :: u64
  ci_retained_fences :: u64
  ci_retained_decisions :: u64

definition add_violation :: "string \<Rightarrow> u64 \<Rightarrow> u64 \<Rightarrow> ClosureReport \<Rightarrow> ClosureReport" where
  "add_violation name expected observed r =
     (if 32 \<le> length (cr_violations r) then r
      else r\<lparr>cr_violations := cr_violations r @
        [\<lparr>cv_identity = name, cv_expected = expected, cv_observed = observed\<rparr>]\<rparr>)"

text \<open>The report is threaded with the running conjunction \<open>ok\<close> in its field \<open>closed\<close>.\<close>

definition equal_or :: "string \<Rightarrow> u64 \<Rightarrow> u64 \<Rightarrow> ClosureReport \<Rightarrow> ClosureReport" where
  "equal_or name expected observed r =
     (if expected = observed then r else (add_violation name expected observed r)\<lparr>cr_closed := False\<rparr>)"

definition at_most_or :: "string \<Rightarrow> u64 \<Rightarrow> u64 \<Rightarrow> u64 \<Rightarrow> u64 \<Rightarrow> ClosureReport \<Rightarrow> ClosureReport" where
  "at_most_or name small large expected observed r =
     (if small > large then (add_violation name expected observed r)\<lparr>cr_closed := False\<rparr> else r)"

definition decision_sum :: "AccountingCounters \<Rightarrow> u64" where
  "decision_sum c = ac_decisions_full c + ac_decisions_degraded c + ac_decisions_refused c + ac_decisions_escalated c +
     ac_decisions_unsupported c + ac_decisions_indeterminate c + ac_decisions_invalid c"

definition plan_sum :: "AccountingCounters \<Rightarrow> u64" where
  "plan_sum c = ac_plans_optimal c + ac_plans_feasible c + ac_plans_infeasible c + ac_plans_search_limit c"

definition terminated :: "AccountingCounters \<Rightarrow> u64" where
  "terminated c = ac_grants_fenced c + ac_grants_expired c + ac_grants_revoked c"

definition check_closure :: "ClosureInputs \<Rightarrow> Accounting \<Rightarrow> ClosureReport" where
  "check_closure inputs a =
     (let c = at_counters a;
          live = ci_live_grants inputs; retained = ci_retained_terminated_grants inputs;
          pruned = ac_grants_pruned c; issued = ac_grants_issued c
      in fold (\<lambda>f. f)
           [equal_or ''decisions_total == sum(by outcome)'' (ac_decisions_total c) (decision_sum c),
            at_most_or ''plan outcomes exceed plans_total'' (plan_sum c) (ac_plans_total c)
              (ac_plans_total c) (plan_sum c),
            equal_or ''grants_issued == live + retained_terminated + pruned'' issued (live + retained + pruned),
            equal_or ''grants_terminated == retained_terminated + pruned'' (terminated c) (retained + pruned),
            equal_or ''fences_total == retained_fences + fences_pruned'' (ac_fences_total c)
              (ci_retained_fences inputs + ac_fences_pruned c),
            at_most_or ''acknowledgements exceed issued grants'' (ac_grants_acknowledged c) issued
              issued (ac_grants_acknowledged c),
            at_most_or ''applications exceed acknowledgements'' (ac_grants_applied c) (ac_grants_acknowledged c)
              (ac_grants_acknowledged c) (ac_grants_applied c),
            at_most_or ''fewer fences than terminated grants'' (terminated c) (ac_fences_total c)
              (terminated c) (ac_fences_total c),
            at_most_or ''sessions closed exceed sessions opened'' (ac_sessions_closed c) (ac_sessions_opened c)
              (ac_sessions_opened c) (ac_sessions_closed c),
            at_most_or ''oversized frames exceed rejected frames'' (ac_frames_oversized c) (ac_frames_rejected c)
              (ac_frames_rejected c) (ac_frames_oversized c)]
           \<lparr>cr_closed = True, cr_violations = []\<rparr>)"

section \<open>Serialisation\<close>

definition counter_fields :: "AccountingCounters \<Rightarrow> u64 list" where
  "counter_fields v =
     [ac_decisions_total v, ac_decisions_full v, ac_decisions_degraded v, ac_decisions_refused v,
      ac_decisions_escalated v, ac_decisions_unsupported v, ac_decisions_indeterminate v,
      ac_decisions_invalid v, ac_grants_issued v, ac_grants_acknowledged v, ac_grants_applied v,
      ac_grants_fenced v, ac_grants_expired v, ac_grants_revoked v, ac_grants_pruned v,
      ac_grants_released v, ac_fences_total v, ac_fences_pruned v, ac_evidence_published v,
      ac_evidence_rejected v, ac_evidence_superseded v, ac_plans_total v, ac_plans_optimal v,
      ac_plans_feasible v, ac_plans_infeasible v, ac_plans_search_limit v,
      ac_allocator_nodes_visited v, ac_frames_received v, ac_frames_sent v, ac_frames_rejected v,
      ac_frames_oversized v, ac_sessions_opened v, ac_sessions_closed v, ac_sessions_rejected v,
      ac_requests_rejected v, ac_journal_records_written v, ac_journal_records_read v,
      ac_journal_bytes_written v, ac_snapshots_taken v, ac_snapshots_loaded v,
      ac_torn_tails_recovered v, ac_boots v, ac_term_advances v, ac_restorations_proven v,
      ac_restorations_refused v]"

definition encode_AccountingCounters :: "AccountingCounters \<Rightarrow> byte_writer \<Rightarrow> byte_writer" where
  "encode_AccountingCounters v = write_each ByteWriter_u64 (counter_fields v)"

definition decode_AccountingCounters :: "AccountingCounters decoder" where
  "decode_AccountingCounters =
     dec_field ByteReader_u64 (\<lambda>decisions_total.
     dec_field ByteReader_u64 (\<lambda>decisions_full.
     dec_field ByteReader_u64 (\<lambda>decisions_degraded.
     dec_field ByteReader_u64 (\<lambda>decisions_refused.
     dec_field ByteReader_u64 (\<lambda>decisions_escalated.
     dec_field ByteReader_u64 (\<lambda>decisions_unsupported.
     dec_field ByteReader_u64 (\<lambda>decisions_indeterminate.
     dec_field ByteReader_u64 (\<lambda>decisions_invalid.
     dec_field ByteReader_u64 (\<lambda>grants_issued.
     dec_field ByteReader_u64 (\<lambda>grants_acknowledged.
     dec_field ByteReader_u64 (\<lambda>grants_applied.
     dec_field ByteReader_u64 (\<lambda>grants_fenced.
     dec_field ByteReader_u64 (\<lambda>grants_expired.
     dec_field ByteReader_u64 (\<lambda>grants_revoked.
     dec_field ByteReader_u64 (\<lambda>grants_pruned.
     dec_field ByteReader_u64 (\<lambda>grants_released.
     dec_field ByteReader_u64 (\<lambda>fences_total.
     dec_field ByteReader_u64 (\<lambda>fences_pruned.
     dec_field ByteReader_u64 (\<lambda>evidence_published.
     dec_field ByteReader_u64 (\<lambda>evidence_rejected.
     dec_field ByteReader_u64 (\<lambda>evidence_superseded.
     dec_field ByteReader_u64 (\<lambda>plans_total.
     dec_field ByteReader_u64 (\<lambda>plans_optimal.
     dec_field ByteReader_u64 (\<lambda>plans_feasible.
     dec_field ByteReader_u64 (\<lambda>plans_infeasible.
     dec_field ByteReader_u64 (\<lambda>plans_search_limit.
     dec_field ByteReader_u64 (\<lambda>allocator_nodes_visited.
     dec_field ByteReader_u64 (\<lambda>frames_received.
     dec_field ByteReader_u64 (\<lambda>frames_sent.
     dec_field ByteReader_u64 (\<lambda>frames_rejected.
     dec_field ByteReader_u64 (\<lambda>frames_oversized.
     dec_field ByteReader_u64 (\<lambda>sessions_opened.
     dec_field ByteReader_u64 (\<lambda>sessions_closed.
     dec_field ByteReader_u64 (\<lambda>sessions_rejected.
     dec_field ByteReader_u64 (\<lambda>requests_rejected.
     dec_field ByteReader_u64 (\<lambda>journal_records_written.
     dec_field ByteReader_u64 (\<lambda>journal_records_read.
     dec_field ByteReader_u64 (\<lambda>journal_bytes_written.
     dec_field ByteReader_u64 (\<lambda>snapshots_taken.
     dec_field ByteReader_u64 (\<lambda>snapshots_loaded.
     dec_field ByteReader_u64 (\<lambda>torn_tails_recovered.
     dec_field ByteReader_u64 (\<lambda>boots.
     dec_field ByteReader_u64 (\<lambda>term_advances.
     dec_field ByteReader_u64 (\<lambda>restorations_proven.
     dec_field ByteReader_u64 (\<lambda>restorations_refused.
     dec_ok (dec_return
       \<lparr>ac_decisions_total = decisions_total, ac_decisions_full = decisions_full,
        ac_decisions_degraded = decisions_degraded, ac_decisions_refused = decisions_refused,
        ac_decisions_escalated = decisions_escalated,
        ac_decisions_unsupported = decisions_unsupported,
        ac_decisions_indeterminate = decisions_indeterminate,
        ac_decisions_invalid = decisions_invalid, ac_grants_issued = grants_issued,
        ac_grants_acknowledged = grants_acknowledged, ac_grants_applied = grants_applied,
        ac_grants_fenced = grants_fenced, ac_grants_expired = grants_expired,
        ac_grants_revoked = grants_revoked, ac_grants_pruned = grants_pruned,
        ac_grants_released = grants_released, ac_fences_total = fences_total,
        ac_fences_pruned = fences_pruned, ac_evidence_published = evidence_published,
        ac_evidence_rejected = evidence_rejected, ac_evidence_superseded = evidence_superseded,
        ac_plans_total = plans_total, ac_plans_optimal = plans_optimal,
        ac_plans_feasible = plans_feasible, ac_plans_infeasible = plans_infeasible,
        ac_plans_search_limit = plans_search_limit,
        ac_allocator_nodes_visited = allocator_nodes_visited, ac_frames_received = frames_received,
        ac_frames_sent = frames_sent, ac_frames_rejected = frames_rejected,
        ac_frames_oversized = frames_oversized, ac_sessions_opened = sessions_opened,
        ac_sessions_closed = sessions_closed, ac_sessions_rejected = sessions_rejected,
        ac_requests_rejected = requests_rejected,
        ac_journal_records_written = journal_records_written,
        ac_journal_records_read = journal_records_read,
        ac_journal_bytes_written = journal_bytes_written, ac_snapshots_taken = snapshots_taken,
        ac_snapshots_loaded = snapshots_loaded, ac_torn_tails_recovered = torn_tails_recovered,
        ac_boots = boots, ac_term_advances = term_advances,
        ac_restorations_proven = restorations_proven, ac_restorations_refused = restorations_refused\<rparr>))))))))))))))))))))))))))))))))))))))))))))))"


lemmas counter_writes_def = encode_AccountingCounters_def counter_fields_def

lemma write_each_fields: "write_each put xs = write_all (map put xs)"
  by (simp add: fun_eq_iff write_each_def write_all_def fold_map comp_def)

interpretation counters_codec: record_codec encode_AccountingCounters decode_AccountingCounters "\<lambda>_. True"
proof
  show "codes (encode_AccountingCounters v) decode_AccountingCounters v" if "(\<lambda>_. True) v" for v
    unfolding counter_writes_def write_each_fields list.map decode_AccountingCounters_def
    by (intro codec_intros) (use that in simp_all)
  show "delivers decode_AccountingCounters (\<lambda>_. True)"
    unfolding decode_AccountingCounters_def
    by (intro delivers_intros) simp_all
qed

section \<open>What the counters satisfy\<close>

text \<open>One call of the facade, whatever status it returns.\<close>

inductive acct_step :: "Accounting \<Rightarrow> Accounting \<Rightarrow> bool" where
  record_decision: "acct_step a (snd (record_decision outcome a))"
| record_plan: "acct_step a (snd (record_plan st n a))"
| record_grant_issued: "acct_step a (snd (record_grant_issued a))"
| record_grant_acknowledged: "acct_step a (snd (record_grant_acknowledged a))"
| record_grant_applied: "acct_step a (snd (record_grant_applied a))"
| record_grant_fenced: "acct_step a (snd (record_grant_fenced a))"
| record_grant_expired: "acct_step a (snd (record_grant_expired a))"
| record_grant_revoked: "acct_step a (snd (record_grant_revoked a))"
| record_evidence_published: "acct_step a (snd (record_evidence_published a))"
| record_evidence_rejected: "acct_step a (snd (record_evidence_rejected a))"
| record_frame_received: "acct_step a (snd (record_frame_received a))"
| record_frame_sent: "acct_step a (snd (record_frame_sent a))"
| record_session_opened: "acct_step a (snd (record_session_opened a))"
| record_session_closed: "acct_step a (snd (record_session_closed a))"
| record_session_rejected: "acct_step a (snd (record_session_rejected a))"
| record_request_rejected: "acct_step a (snd (record_request_rejected a))"
| record_snapshot_taken: "acct_step a (snd (record_snapshot_taken a))"
| record_snapshot_loaded: "acct_step a (snd (record_snapshot_loaded a))"
| record_torn_tail: "acct_step a (snd (record_torn_tail a))"
| record_boot: "acct_step a (snd (record_boot a))"
| record_term_advance: "acct_step a (snd (record_term_advance a))"
| record_restoration_proven: "acct_step a (snd (record_restoration_proven a))"
| record_restoration_refused: "acct_step a (snd (record_restoration_refused a))"
| record_grant_pruned: "acct_step a (snd (record_grant_pruned n a))"
| record_fences: "acct_step a (snd (record_fences n a))"
| record_fences_pruned: "acct_step a (snd (record_fences_pruned n a))"
| record_evidence_superseded: "acct_step a (snd (record_evidence_superseded n a))"
| record_journal_read: "acct_step a (snd (record_journal_read n a))"
| record_frame_rejected: "acct_step a (snd (record_frame_rejected b a))"
| record_journal_write: "acct_step a (snd (record_journal_write r b a))"


lemmas acct_op_defs = record_plan_def record_grant_issued_def record_grant_acknowledged_def record_grant_applied_def
  record_grant_fenced_def record_grant_expired_def record_grant_revoked_def record_evidence_published_def
  record_evidence_rejected_def record_frame_received_def record_frame_sent_def record_session_opened_def
  record_session_closed_def record_session_rejected_def record_request_rejected_def record_snapshot_taken_def
  record_snapshot_loaded_def record_torn_tail_def record_boot_def record_term_advance_def
  record_restoration_proven_def record_restoration_refused_def record_grant_pruned_def record_fences_def
  record_fences_pruned_def record_evidence_superseded_def record_journal_read_def record_frame_rejected_def
  record_journal_write_def record_decision_def

lemma bump_result:
  "bump get upd d a = (s, a') \<Longrightarrow>
     (s \<noteq> EC_Ok \<and> a' = a) \<or>
     (s = EC_Ok \<and> (\<exists>v. unat v = unat (get (at_counters a)) + unat d \<and>
        a' = a\<lparr>at_counters := upd (\<lambda>_. v) (at_counters a)\<rparr>))"
  by (auto simp: bump_def checked_iffs split: if_splits option.splits)

lemma snd_bump:
  "snd (bump get upd d a) =
     (if at_writable a \<and> unat (get (at_counters a)) + unat d < 2 ^ 64
      then a\<lparr>at_counters := upd (\<lambda>_. get (at_counters a) + d) (at_counters a)\<rparr> else a)"
  by (auto simp: bump_def checked_add_def checked_add_overflow_iff)

lemma fst_bump:
  "fst (bump get upd d a) = EC_Ok \<longleftrightarrow> at_writable a \<and> unat (get (at_counters a)) + unat d < 2 ^ 64"
  by (auto simp: bump_def checked_iffs split: option.splits)

lemma snd_status_then: "snd (status_then f g s) = (if fst (f s) = EC_Ok then snd (g (snd (f s))) else snd (f s))"
  by (simp add: status_then_def split: prod.split)

lemma unat_bumped: "unat x + unat d < 2 ^ 64 \<Longrightarrow> unat (x + d) = unat x + unat d" for x d :: u64
  by (simp add: unat_word_ariths)

text \<open>The identities that concern counters only, over the natural numbers: no sum of theirs has wrapped.\<close>

definition well_counted :: "AccountingCounters \<Rightarrow> bool" where
  "well_counted c \<longleftrightarrow>
     unat (ac_decisions_total c) =
       unat (ac_decisions_full c) + unat (ac_decisions_degraded c) + unat (ac_decisions_refused c) +
       unat (ac_decisions_escalated c) + unat (ac_decisions_unsupported c) + unat (ac_decisions_indeterminate c) +
       unat (ac_decisions_invalid c) \<and>
     unat (ac_plans_optimal c) + unat (ac_plans_feasible c) + unat (ac_plans_infeasible c) +
       unat (ac_plans_search_limit c) \<le> unat (ac_plans_total c) \<and>
     unat (ac_frames_oversized c) \<le> unat (ac_frames_rejected c)"

lemmas step_simps = snd_status_then snd_bump fst_bump unat_bumped

lemma step_well_counted: "acct_step a a' \<Longrightarrow> well_counted (at_counters a) \<Longrightarrow> well_counted (at_counters a')"
proof (induction rule: acct_step.cases)
  case (record_decision a outcome)
  then show ?case
    by (cases outcome) (simp_all add: record_decision_def step_simps well_counted_def)
next
  case (record_plan a st n)
  then show ?case
    by (cases st) (simp_all add: record_plan_def step_simps well_counted_def)
qed (simp_all add: acct_op_defs step_simps well_counted_def)

definition no_less :: "AccountingCounters \<Rightarrow> AccountingCounters \<Rightarrow> bool" where
  "no_less c d \<longleftrightarrow> list_all2 (\<le>) (counter_fields c) (counter_fields d)"

lemma no_less_refl: "no_less c c"
  by (simp add: no_less_def list_all2_refl)

lemma no_less_trans: "no_less a b \<Longrightarrow> no_less b c \<Longrightarrow> no_less a c"
  unfolding no_less_def by (rule list_all2_trans [OF order_trans])

lemma bump_grows: "unat x + unat d < 2 ^ 64 \<Longrightarrow> x \<le> x + d" for x d :: u64
  by (simp add: word_le_nat_alt unat_bumped)

lemma step_no_less: "acct_step a a' \<Longrightarrow> no_less (at_counters a) (at_counters a')"
proof (induction rule: acct_step.cases)
  case (record_decision a outcome)
  then show ?case
    by (cases outcome) (simp_all add: record_decision_def step_simps no_less_def counter_fields_def bump_grows)
next
  case (record_plan a st n)
  then show ?case
    by (cases st) (simp_all add: record_plan_def step_simps no_less_def counter_fields_def bump_grows)
qed (simp_all add: acct_op_defs step_simps no_less_def counter_fields_def bump_grows)

text \<open>
  Accounting is exact and monotone. Whatever sequence of \<open>record_*\<close> calls the runtime makes, and whether
  they succeed or are refused for overflow, no counter ever decreases, the decision outcomes add up
  to the number of decisions (as numbers, not modulo \<open>2^64\<close>), the plan outcomes never exceed the number of
  plans and the oversized frames never exceed the rejected ones.
\<close>

theorem accounting_exact:
  assumes "acct_step\<^sup>*\<^sup>* a a'" and "well_counted (at_counters a)"
  shows "well_counted (at_counters a') \<and> no_less (at_counters a) (at_counters a')"
  using assms
proof (induction rule: rtranclp_induct)
  case base
  then show ?case by (simp add: no_less_refl)
next
  case (step b c)
  then show ?case by (meson no_less_trans step_no_less step_well_counted)
qed

theorem accounting_exact_witness:
  "well_counted (at_counters (snd (record_frame_rejected True (snd (record_decision DO_Degraded
     \<lparr>at_counters = no_counters, at_writable = True\<rparr>)))))"
proof -
  let ?a = "\<lparr>at_counters = no_counters, at_writable = True\<rparr>"
  have "acct_step\<^sup>*\<^sup>* ?a (snd (record_frame_rejected True (snd (record_decision DO_Degraded ?a))))"
    by (rule rtranclp.rtrancl_into_rtrancl [where b = "snd (record_decision DO_Degraded ?a)"])
      (auto intro: acct_step.record_decision acct_step.record_frame_rejected)
  moreover have "well_counted (at_counters ?a)"
    by (simp add: no_counters_def well_counted_def)
  ultimately show ?thesis
    using accounting_exact by blast
qed

section \<open>The closure report\<close>

text \<open>The identities of \<open>check_closure\<close>, in the arithmetic of the code.\<close>

definition closure_holds :: "ClosureInputs \<Rightarrow> AccountingCounters \<Rightarrow> bool" where
  "closure_holds i c \<longleftrightarrow>
     ac_decisions_total c = decision_sum c \<and> plan_sum c \<le> ac_plans_total c \<and>
     ac_grants_issued c = ci_live_grants i + ci_retained_terminated_grants i + ac_grants_pruned c \<and>
     terminated c = ci_retained_terminated_grants i + ac_grants_pruned c \<and>
     ac_fences_total c = ci_retained_fences i + ac_fences_pruned c \<and>
     ac_grants_acknowledged c \<le> ac_grants_issued c \<and> ac_grants_applied c \<le> ac_grants_acknowledged c \<and>
     terminated c \<le> ac_fences_total c \<and> ac_sessions_closed c \<le> ac_sessions_opened c \<and>
     ac_frames_oversized c \<le> ac_frames_rejected c"

text \<open>A running report: closed exactly while nothing was added.\<close>

definition report_after :: "nat \<Rightarrow> bool \<Rightarrow> ClosureReport \<Rightarrow> bool" where
  "report_after n ok r \<longleftrightarrow> length (cr_violations r) \<le> n \<and> cr_closed r = ok \<and> (cr_violations r = [] \<longleftrightarrow> ok)"

lemma report_after_count: "report_after n ok r \<Longrightarrow> n = m \<Longrightarrow> report_after m ok r"
  by simp

definition tests :: "(ClosureReport \<Rightarrow> ClosureReport) \<Rightarrow> bool \<Rightarrow> bool" where
  "tests f c \<longleftrightarrow> (\<forall>n ok r. n < 32 \<longrightarrow> report_after n ok r \<longrightarrow> report_after (Suc n) (ok \<and> c) (f r))"

lemma tests_or [intro]:
  "tests (equal_or name e obs) (e = obs)" "tests (at_most_or name small large e obs) (small \<le> large)"
  by (auto simp: tests_def report_after_def equal_or_def at_most_or_def add_violation_def)

lemma report_after_checks:
  "list_all2 tests fs cs \<Longrightarrow> n + length fs \<le> 32 \<Longrightarrow> report_after n ok r \<Longrightarrow>
   report_after (n + length fs) (ok \<and> list_all (\<lambda>c. c) cs) (fold (\<lambda>f. f) fs r)"
proof (induction fs cs arbitrary: n ok r rule: list_all2_induct)
  case (Cons f fs c cs)
  then have "report_after (Suc n + length fs) ((ok \<and> c) \<and> list_all (\<lambda>c. c) cs) (fold (\<lambda>f. f) fs (f r))"
    by (intro Cons.IH) (auto simp: tests_def)
  then show ?case by simp
qed simp

lemma check_closure_exact:
  "cr_closed (check_closure i a) \<longleftrightarrow> closure_holds i (at_counters a)"
  "cr_violations (check_closure i a) = [] \<longleftrightarrow> cr_closed (check_closure i a)"
proof -
  let ?c = "at_counters a"
  have "report_after 10 (True \<and> list_all (\<lambda>c. c)
      [ac_decisions_total ?c = decision_sum ?c, plan_sum ?c \<le> ac_plans_total ?c,
       ac_grants_issued ?c = ci_live_grants i + ci_retained_terminated_grants i + ac_grants_pruned ?c,
       terminated ?c = ci_retained_terminated_grants i + ac_grants_pruned ?c,
       ac_fences_total ?c = ci_retained_fences i + ac_fences_pruned ?c,
       ac_grants_acknowledged ?c \<le> ac_grants_issued ?c, ac_grants_applied ?c \<le> ac_grants_acknowledged ?c,
       terminated ?c \<le> ac_fences_total ?c, ac_sessions_closed ?c \<le> ac_sessions_opened ?c,
       ac_frames_oversized ?c \<le> ac_frames_rejected ?c]) (check_closure i a)"
    unfolding check_closure_def Let_def
    by (rule report_after_checks [where n = 0, THEN report_after_count]) (auto simp: report_after_def)
  then show "cr_closed (check_closure i a) \<longleftrightarrow> closure_holds i (at_counters a)"
    "cr_violations (check_closure i a) = [] \<longleftrightarrow> cr_closed (check_closure i a)"
    by (auto simp: report_after_def closure_holds_def)
qed

end
