(* ===== verification/Durable_State.thy ===== *)
theory Durable_State
  imports Accounting Restoration
begin

text \<open>
  The durable projection of the runtime: the record types, the store configuration and \<open>DurableState\<close> with its
  serialisation (\<open>include/dmf/store.hpp\<close> and the first part of \<open>src/store/state_store.cpp\<close>). Sizes of vectors and
  the retention bounds, which are \<open>std::size_t\<close>, are natural numbers; where the code multiplies a bound the wrap
  at \<open>2^64\<close> is written out.
\<close>

datatype RecordType =
    RT_ContractRegistered
  | RT_ContractRetired
  | RT_PolicyInstalled
  | RT_FabricGenerationAdvanced
  | RT_CapacityGenerationAdvanced
  | RT_EvidencePublished
  | RT_GrantIssued
  | RT_GrantAcknowledged
  | RT_GrantApplied
  | RT_GrantFenced
  | RT_GrantExpired
  | RT_GrantRevoked
  | RT_DecisionRecorded
  | RT_BootAdvanced
  | RT_CoordinatorTermAdvanced
  | RT_TornTailObserved
  | RT_RestorationProven
  | RT_RestorationRefused
  | RT_AccountingCheckpoint
  | RT_EvidenceGenerationAdvanced
  | RT_GrantRebound

primrec RecordType_code :: "RecordType \<Rightarrow> u16" where
  "RecordType_code RT_ContractRegistered = 1"
| "RecordType_code RT_ContractRetired = 2"
| "RecordType_code RT_PolicyInstalled = 3"
| "RecordType_code RT_FabricGenerationAdvanced = 4"
| "RecordType_code RT_CapacityGenerationAdvanced = 5"
| "RecordType_code RT_EvidencePublished = 6"
| "RecordType_code RT_GrantIssued = 7"
| "RecordType_code RT_GrantAcknowledged = 8"
| "RecordType_code RT_GrantApplied = 9"
| "RecordType_code RT_GrantFenced = 10"
| "RecordType_code RT_GrantExpired = 11"
| "RecordType_code RT_GrantRevoked = 12"
| "RecordType_code RT_DecisionRecorded = 13"
| "RecordType_code RT_BootAdvanced = 14"
| "RecordType_code RT_CoordinatorTermAdvanced = 15"
| "RecordType_code RT_TornTailObserved = 16"
| "RecordType_code RT_RestorationProven = 17"
| "RecordType_code RT_RestorationRefused = 18"
| "RecordType_code RT_AccountingCheckpoint = 19"
| "RecordType_code RT_EvidenceGenerationAdvanced = 20"
| "RecordType_code RT_GrantRebound = 21"

definition RecordType_all :: "RecordType list" where
  "RecordType_all =
     [RT_ContractRegistered, RT_ContractRetired, RT_PolicyInstalled,
      RT_FabricGenerationAdvanced, RT_CapacityGenerationAdvanced, RT_EvidencePublished,
      RT_GrantIssued, RT_GrantAcknowledged, RT_GrantApplied, RT_GrantFenced,
      RT_GrantExpired, RT_GrantRevoked, RT_DecisionRecorded, RT_BootAdvanced,
      RT_CoordinatorTermAdvanced, RT_TornTailObserved, RT_RestorationProven,
      RT_RestorationRefused, RT_AccountingCheckpoint, RT_EvidenceGenerationAdvanced,
      RT_GrantRebound]"

interpretation recordtype_wire: wire_enum RecordType_code RecordType_all
proof
  show "enum_decode RecordType_code RecordType_all (RecordType_code e) = Some e" for e
    by (cases e) (simp_all add: enum_decode_def RecordType_all_def)
qed

datatype RecoveryOutcome =
    RV_FreshStore
  | RV_CleanReopen
  | RV_TornTailRecovered
  | RV_Corrupt
  | RV_VersionUnsupported
  | RV_IntegrityFailure
  | RV_SequenceFailure

primrec RecoveryOutcome_code :: "RecoveryOutcome \<Rightarrow> u16" where
  "RecoveryOutcome_code RV_FreshStore = 1"
| "RecoveryOutcome_code RV_CleanReopen = 2"
| "RecoveryOutcome_code RV_TornTailRecovered = 3"
| "RecoveryOutcome_code RV_Corrupt = 4"
| "RecoveryOutcome_code RV_VersionUnsupported = 5"
| "RecoveryOutcome_code RV_IntegrityFailure = 6"
| "RecoveryOutcome_code RV_SequenceFailure = 7"

definition RecoveryOutcome_all :: "RecoveryOutcome list" where
  "RecoveryOutcome_all =
     [RV_FreshStore, RV_CleanReopen, RV_TornTailRecovered, RV_Corrupt,
      RV_VersionUnsupported, RV_IntegrityFailure, RV_SequenceFailure]"

interpretation recoveryoutcome_wire: wire_enum RecoveryOutcome_code RecoveryOutcome_all
proof
  show "enum_decode RecoveryOutcome_code RecoveryOutcome_all (RecoveryOutcome_code e) = Some e" for e
    by (cases e) (simp_all add: enum_decode_def RecoveryOutcome_all_def)
qed

record StoreConfig =
  so_root :: string
  so_max_journal_bytes :: u64
  so_max_records_per_segment :: u64
  so_max_snapshot_bytes :: u64
  so_max_retained_grants :: nat
  so_max_retained_fences :: nat
  so_max_retained_decisions :: nat
  so_max_retained_evidence :: nat
  so_max_retained_contracts :: nat
  so_crash_before_record :: u64
  so_crash_after_write_record :: u64
  so_crash_after_record :: u64
  so_read_only :: bool

definition size_mul :: "nat \<Rightarrow> nat \<Rightarrow> nat" where
  "size_mul a b = (a * b) mod 2 ^ 64"

record DurableState =
  ds_boot :: u64
  ds_term :: u64
  ds_last_commit_tick :: tick
  ds_policy :: Policy
  ds_contracts :: "ServiceContract list"
  ds_grants :: "Grant list"
  ds_fences :: "FenceRecord list"
  ds_decisions :: "Decision list"
  ds_restorations :: "RestorationEvaluation list"
  ds_historical_evidence :: EvidenceVector
  ds_evidence_generation :: u64
  ds_capacity_generation :: u64
  ds_fabric_generation :: u64
  ds_counters :: AccountingCounters
  ds_journal_sequence :: u64
  ds_journal_records :: u64
  ds_boot_count :: u64
  ds_grant_id_high_water :: u64
  ds_decision_id_high_water :: u64
  ds_fence_id_high_water :: u64
  ds_evidence_id_high_water :: u64
  ds_plan_id_high_water :: u64

definition new_state :: DurableState where
  "new_state = \<lparr>ds_boot = 0, ds_term = 0, ds_last_commit_tick = 0, ds_policy = empty_policy 0 0, ds_contracts = [],
     ds_grants = [], ds_fences = [], ds_decisions = [], ds_restorations = [],
     ds_historical_evidence = new_evidence_vector kMaxCollectionItems, ds_evidence_generation = 0,
     ds_capacity_generation = 0, ds_fabric_generation = 0, ds_counters = no_counters, ds_journal_sequence = 0,
     ds_journal_records = 0, ds_boot_count = 0, ds_grant_id_high_water = 0, ds_decision_id_high_water = 0,
     ds_fence_id_high_water = 0, ds_evidence_id_high_water = 0, ds_plan_id_high_water = 0\<rparr>"

definition live_grant_count :: "DurableState \<Rightarrow> nat" where
  "live_grant_count s = length (filter Grant_live (ds_grants s))"

definition terminated_grant_count :: "DurableState \<Rightarrow> nat" where
  "terminated_grant_count s = length (filter (\<lambda>g. \<not> Grant_live g) (ds_grants s))"

definition encode_DurableState :: "DurableState \<Rightarrow> byte_writer \<Rightarrow> byte_writer" where
  "encode_DurableState v = write_all
     [ByteWriter_u64 (ds_boot v), ByteWriter_u64 (ds_term v), ByteWriter_u64 (ds_last_commit_tick v),
      encode_Policy (ds_policy v),
      write_size (ds_contracts v), write_each encode_ServiceContract (ds_contracts v),
      write_size (ds_grants v), write_each encode_Grant (ds_grants v),
      write_size (ds_fences v), write_each encode_FenceRecord (ds_fences v),
      write_size (ds_decisions v), write_each encode_Decision (ds_decisions v),
      write_size (ds_restorations v), write_each encode_RestorationEvaluation (ds_restorations v),
      encode_EvidenceVector (ds_historical_evidence v),
      ByteWriter_u64 (ds_evidence_generation v), ByteWriter_u64 (ds_capacity_generation v),
      ByteWriter_u64 (ds_fabric_generation v), encode_AccountingCounters (ds_counters v),
      ByteWriter_u64 (ds_journal_sequence v), ByteWriter_u64 (ds_journal_records v),
      ByteWriter_u64 (ds_boot_count v), ByteWriter_u64 (ds_grant_id_high_water v),
      ByteWriter_u64 (ds_decision_id_high_water v), ByteWriter_u64 (ds_fence_id_high_water v),
      ByteWriter_u64 (ds_evidence_id_high_water v), ByteWriter_u64 (ds_plan_id_high_water v)]"

definition decode_DurableState :: "DurableState decoder" where
  "decode_DurableState =
     dec_field ByteReader_u64 (\<lambda>boot.
     dec_field ByteReader_u64 (\<lambda>trm.
     dec_field ByteReader_u64 (\<lambda>last_commit_tick.
     dec_sub decode_Policy (\<lambda>policy.
     dec_items kMaxPlanEntries decode_ServiceContract push_back [] (\<lambda>contracts.
     dec_items kMaxPlanEntries decode_Grant push_back [] (\<lambda>grants.
     dec_items kMaxPlanEntries decode_FenceRecord push_back [] (\<lambda>fences.
     dec_items kMaxPlanEntries decode_Decision push_back [] (\<lambda>decisions.
     dec_items kMaxPlanEntries decode_RestorationEvaluation push_back [] (\<lambda>restorations.
     dec_sub decode_EvidenceVector (\<lambda>historical_evidence.
     dec_field ByteReader_u64 (\<lambda>evidence_generation.
     dec_field ByteReader_u64 (\<lambda>capacity_generation.
     dec_field ByteReader_u64 (\<lambda>fabric_generation.
     dec_sub decode_AccountingCounters (\<lambda>counters.
     dec_field ByteReader_u64 (\<lambda>journal_sequence.
     dec_field ByteReader_u64 (\<lambda>journal_records.
     dec_field ByteReader_u64 (\<lambda>boot_count.
     dec_field ByteReader_u64 (\<lambda>grant_id_high_water.
     dec_field ByteReader_u64 (\<lambda>decision_id_high_water.
     dec_field ByteReader_u64 (\<lambda>fence_id_high_water.
     dec_field ByteReader_u64 (\<lambda>evidence_id_high_water.
     dec_field ByteReader_u64 (\<lambda>plan_id_high_water.
     dec_ok (
     let c = \<lparr>ds_boot = boot, ds_term = trm, ds_last_commit_tick = last_commit_tick, ds_policy = policy,
        ds_contracts = contracts, ds_grants = grants, ds_fences = fences, ds_decisions = decisions,
        ds_restorations = restorations, ds_historical_evidence = historical_evidence,
        ds_evidence_generation = evidence_generation, ds_capacity_generation = capacity_generation,
        ds_fabric_generation = fabric_generation, ds_counters = counters, ds_journal_sequence = journal_sequence,
        ds_journal_records = journal_records, ds_boot_count = boot_count,
        ds_grant_id_high_water = grant_id_high_water, ds_decision_id_high_water = decision_id_high_water,
        ds_fence_id_high_water = fence_id_high_water, ds_evidence_id_high_water = evidence_id_high_water,
        ds_plan_id_high_water = plan_id_high_water\<rparr>
     in dec_guard (\<not> (installed (ds_policy c) \<and> \<not> status_ok (Policy_validate (ds_policy c)))) (dec_return c)
     )))))))))))))))))))))))"

section \<open>Snapshots are lossless\<close>

definition state_encodable :: "DurableState \<Rightarrow> bool" where
  "state_encodable s \<longleftrightarrow>
     policy_encodable (ds_policy s) \<and>
     length (ds_contracts s) \<le> unat kMaxPlanEntries \<and> list_all (\<lambda>c. ServiceContract_validate c = EC_Ok) (ds_contracts s) \<and>
     length (ds_grants s) \<le> unat kMaxPlanEntries \<and> list_all grant_encodable (ds_grants s) \<and>
     length (ds_fences s) \<le> unat kMaxPlanEntries \<and> list_all fence_encodable (ds_fences s) \<and>
     length (ds_decisions s) \<le> unat kMaxPlanEntries \<and> list_all decision_encodable (ds_decisions s) \<and>
     length (ds_restorations s) \<le> unat kMaxPlanEntries \<and> list_all restoration_encodable (ds_restorations s) \<and>
     evidence_normal (ds_historical_evidence s)"

interpretation state_codec: record_codec encode_DurableState decode_DurableState state_encodable
proof
  show "codes (encode_DurableState v) decode_DurableState v" if "state_encodable v" for v
    unfolding encode_DurableState_def decode_DurableState_def
    by (intro codec_intros policy_codec.codes_then contract_codec.codes_list_then grant_codec.codes_list_then
        fence_codec.codes_list_then decision_codec.codes_list_then restoration_codec.codes_list_then
        vector_codec.codes_then counters_codec.codes_then)
      (use that in \<open>auto simp: state_encodable_def policy_encodable_def\<close>)
  show "delivers decode_DurableState state_encodable"
    unfolding decode_DurableState_def
    by (intro delivers_intros policy_codec.delivers_then contract_codec.delivers_list_then grant_codec.delivers_list_then
        fence_codec.delivers_list_then decision_codec.delivers_list_then restoration_codec.delivers_list_then
        vector_codec.delivers_then counters_codec.delivers_then)
      (auto simp: state_encodable_def)
qed

end
