(* ===== verification/Journal.thy ===== *)
theory Journal
  imports Durable_State
begin

text \<open>
  Journal framing (\<open>src/store/journal.cpp\<close>, \<open>journal.hpp\<close>): the fixed headers, the record frame and the footer of a
  segment, as byte lists. Every fixed block ends with the CRC-32C of what precedes it; a record's payload carries
  its own. The lemmas show what recovery relies on: frames are read back, their length is known in advance, and
  a block with one damaged byte is never accepted.
\<close>

section \<open>Trailing checksums\<close>

definition kDurableFormatVersion :: u32 where "kDurableFormatVersion = 1"

definition kJournalMagic :: "u8 list" where "kJournalMagic = [68, 77, 70, 74]"
definition kRecordMagic :: "u8 list" where "kRecordMagic = [68, 77, 70, 82]"
definition kJournalFooterMagic :: "u8 list" where "kJournalFooterMagic = [68, 77, 70, 69]"

definition kJournalHeaderSize :: nat where "kJournalHeaderSize = 28"
definition kRecordHeaderSize :: nat where "kRecordHeaderSize = 28"
definition kRecordTrailerSize :: nat where "kRecordTrailerSize = 4"
definition kJournalFooterSize :: nat where "kJournalFooterSize = 28"
definition kMaxRecordPayload :: nat where "kMaxRecordPayload = 4 * 2 ^ 20"

lemmas magic_defs = kJournalMagic_def kRecordMagic_def kJournalFooterMagic_def
lemmas frame_sizes = kJournalHeaderSize_def kRecordHeaderSize_def kRecordTrailerSize_def kJournalFooterSize_def

definition write_magic :: "u8 list \<Rightarrow> byte_writer \<Rightarrow> byte_writer" where
  "write_magic magic = write_all (map ByteWriter_u8 magic)"

text \<open>\<open>writer.u32(crc32c(writer.data(), writer.size()))\<close>.\<close>

definition write_crc :: "byte_writer \<Rightarrow> byte_writer" where
  "write_crc w = ByteWriter_u32 (crc32c (bw_data w) 0) w"

definition magic_matches :: "u8 list \<Rightarrow> u8 list \<Rightarrow> bool" where
  "magic_matches bytes magic \<longleftrightarrow> (\<forall>i < 4. bytes ! i = magic ! i)"

definition read_u32_at :: "nat \<Rightarrow> u8 list \<Rightarrow> u32" where
  "read_u32_at i bytes = le_value (take 4 (drop i bytes))"

definition check_trailing_crc :: "u8 list \<Rightarrow> status" where
  "check_trailing_crc bytes =
     (let size = length bytes
      in if size < 4 then EC_Truncated
         else if read_u32_at (size - 4) bytes \<noteq> crc32c (take (size - 4) bytes) 0 then EC_IntegrityFailure
         else EC_Ok)"

section \<open>Blocks of a segment\<close>

record JournalHeader =
  jh_version :: u32
  jh_boot :: u64
  jh_base_sequence :: u64

record RecordHeader =
  rh_version :: u32
  rh_type :: RecordType
  rh_flags :: u16
  rh_sequence :: u64
  rh_payload_length :: u32

record JournalFooter =
  jf_record_count :: u64
  jf_last_sequence :: u64

definition encode_journal_header :: "JournalHeader \<Rightarrow> u8 list" where
  "encode_journal_header h =
     bw_data (write_all
       [write_magic kJournalMagic, ByteWriter_u32 (jh_version h), ByteWriter_u64 (jh_boot h),
        ByteWriter_u64 (jh_base_sequence h), write_crc]
       (new_writer 64 kMaxBlobBytes))"

definition decode_journal_header :: "u8 list \<Rightarrow> JournalHeader result" where
  "decode_journal_header bytes =
     (if length bytes \<noteq> kJournalHeaderSize then Inl EC_Truncated
      else if \<not> magic_matches bytes kJournalMagic then Inl EC_Corrupt
      else if check_trailing_crc bytes \<noteq> EC_Ok then Inl (check_trailing_crc bytes)
      else fst (dec_field (ByteReader_raw 4) (\<lambda>_.
                dec_field ByteReader_u32 (\<lambda>version.
                dec_field ByteReader_u64 (\<lambda>boot.
                dec_field ByteReader_u64 (\<lambda>base_sequence.
                dec_ok (
                  if version \<noteq> kDurableFormatVersion then dec_fail EC_VersionUnsupported
                  else if \<not> valid_id boot then dec_fail EC_Corrupt
                  else dec_return \<lparr>jh_version = version, jh_boot = boot, jh_base_sequence = base_sequence\<rparr>)))))
                (new_reader bytes kMaxBlobBytes)))"

definition encode_record :: "RecordHeader \<Rightarrow> u8 list \<Rightarrow> u8 list" where
  "encode_record h payload =
     bw_data (write_all
       [write_magic kRecordMagic, ByteWriter_u32 (rh_version h), write_enum RecordType_code (rh_type h),
        ByteWriter_u16 (rh_flags h), ByteWriter_u64 (rh_sequence h), write_size payload, write_crc,
        ByteWriter_raw payload, ByteWriter_u32 (crc32c payload 0)]
       (new_writer (kRecordHeaderSize + length payload + kRecordTrailerSize) kMaxBlobBytes))"

definition decode_record_header :: "u8 list \<Rightarrow> RecordHeader result" where
  "decode_record_header bytes =
     (if length bytes \<noteq> kRecordHeaderSize then Inl EC_Truncated
      else if \<not> magic_matches bytes kRecordMagic then Inl EC_Corrupt
      else if check_trailing_crc bytes \<noteq> EC_Ok then Inl (check_trailing_crc bytes)
      else fst (dec_field (ByteReader_raw 4) (\<lambda>_.
                dec_field ByteReader_u32 (\<lambda>version.
                dec_field (read_enum RecordType_code RecordType_all RT_AccountingCheckpoint) (\<lambda>type.
                dec_field ByteReader_u16 (\<lambda>flags.
                dec_field ByteReader_u64 (\<lambda>sequence.
                dec_field ByteReader_u32 (\<lambda>payload_length.
                dec_ok (
                  if version \<noteq> kDurableFormatVersion then dec_fail EC_VersionUnsupported
                  else if unat payload_length > kMaxRecordPayload then dec_fail EC_CapacityExceeded
                  else if flags \<noteq> 0 then dec_fail EC_Invalid
                  else dec_return \<lparr>rh_version = version, rh_type = type, rh_flags = flags, rh_sequence = sequence,
                                   rh_payload_length = payload_length\<rparr>)))))))
                (new_reader bytes kMaxBlobBytes)))"

definition encode_journal_footer :: "JournalFooter \<Rightarrow> u8 list" where
  "encode_journal_footer f =
     bw_data (write_all
       [write_magic kJournalFooterMagic, ByteWriter_u32 kDurableFormatVersion, ByteWriter_u64 (jf_record_count f),
        ByteWriter_u64 (jf_last_sequence f), write_crc]
       (new_writer kJournalFooterSize kMaxBlobBytes))"

definition decode_journal_footer :: "u8 list \<Rightarrow> JournalFooter result" where
  "decode_journal_footer bytes =
     (if length bytes \<noteq> kJournalFooterSize then Inl EC_Truncated
      else if \<not> magic_matches bytes kJournalFooterMagic then Inl EC_Corrupt
      else if check_trailing_crc bytes \<noteq> EC_Ok then Inl (check_trailing_crc bytes)
      else fst (dec_field (ByteReader_raw 4) (\<lambda>_.
                dec_field ByteReader_u32 (\<lambda>version.
                dec_field ByteReader_u64 (\<lambda>record_count.
                dec_field ByteReader_u64 (\<lambda>last_sequence.
                dec_ok (
                  if version \<noteq> kDurableFormatVersion then dec_fail EC_VersionUnsupported
                  else dec_return \<lparr>jf_record_count = record_count, jf_last_sequence = last_sequence\<rparr>)))))
                (new_reader bytes kMaxBlobBytes)))"

section \<open>What the encoders write\<close>

lemma raw_room:
  "bw_ok w \<Longrightarrow> length (bw_data w) + length bs \<le> bw_max_total w \<Longrightarrow> bw_max_total w < 2 ^ 64 \<Longrightarrow>
   ByteWriter_raw bs w = w\<lparr>bw_data := bw_data w @ bs\<rparr>"
  by (simp add: ByteWriter_raw_def ByteWriter_ensure_def)

lemma write_all_Cons: "write_all (f # fs) w = write_all fs (f w)"
  by (simp add: write_all_def)

lemma write_all_Nil: "write_all [] w = w"
  by (simp add: write_all_def)

lemmas writes = write_all_Cons write_all_Nil write_crc_def write_enum_def write_size_def ByteWriter_u8_def
  ByteWriter_u16_def ByteWriter_u32_def ByteWriter_u64_def

lemma write_magic_room:
  "bw_ok w \<Longrightarrow> length (bw_data w) + length magic \<le> bw_max_total w \<Longrightarrow> bw_max_total w < 2 ^ 64 \<Longrightarrow>
   write_magic magic w = w\<lparr>bw_data := bw_data w @ magic\<rparr>"
proof (induction magic arbitrary: w)
  case (Cons b magic)
  then have "ByteWriter_u8 b w = w\<lparr>bw_data := bw_data w @ [b]\<rparr>"
    by (simp add: ByteWriter_u8_def raw_room)
  then show ?case
    using Cons.IH [of "w\<lparr>bw_data := bw_data w @ [b]\<rparr>"] Cons.prems by (simp add: write_magic_def write_all_Cons)
qed (simp add: write_magic_def write_all_Nil)

definition with_crc :: "u8 list \<Rightarrow> u8 list" where
  "with_crc body = body @ le_bytes 4 (crc32c body 0)"

definition header_body :: "JournalHeader \<Rightarrow> u8 list" where
  "header_body h = kJournalMagic @ le_bytes 4 (jh_version h) @ le_bytes 8 (jh_boot h) @ le_bytes 8 (jh_base_sequence h)"

definition record_body :: "RecordHeader \<Rightarrow> nat \<Rightarrow> u8 list" where
  "record_body h n = kRecordMagic @ le_bytes 4 (rh_version h) @ le_bytes 2 (RecordType_code (rh_type h)) @
     le_bytes 2 (rh_flags h) @ le_bytes 8 (rh_sequence h) @ le_bytes 4 (of_nat n :: u32)"

definition footer_body :: "JournalFooter \<Rightarrow> u8 list" where
  "footer_body f = kJournalFooterMagic @ le_bytes 4 kDurableFormatVersion @ le_bytes 8 (jf_record_count f) @
     le_bytes 8 (jf_last_sequence f)"

lemma length_bodies [simp]:
  "length (header_body h) = 24" "length (record_body r n) = 24" "length (footer_body f) = 24"
  "length (with_crc body) = length body + 4"
  by (simp_all add: header_body_def record_body_def footer_body_def with_crc_def magic_defs)

lemma encode_journal_header_eq: "encode_journal_header h = with_crc (header_body h)"
  unfolding encode_journal_header_def
  by (simp add: writes write_magic_room raw_room new_writer_def with_crc_def header_body_def kJournalMagic_def)

lemma encode_journal_footer_eq: "encode_journal_footer f = with_crc (footer_body f)"
  unfolding encode_journal_footer_def
  by (simp add: writes write_magic_room raw_room new_writer_def with_crc_def footer_body_def kJournalFooterMagic_def
      kJournalFooterSize_def)

lemma encode_record_eq:
  "length payload < 2 ^ 63 \<Longrightarrow>
   encode_record h payload = with_crc (record_body h (length payload)) @ with_crc payload"
  unfolding encode_record_def
  by (simp add: writes write_magic_room raw_room new_writer_def with_crc_def record_body_def kRecordMagic_def
      kRecordHeaderSize_def kRecordTrailerSize_def)

section \<open>Checksummed blocks\<close>

lemma le_bytes_le_value:
  assumes "length bs = n" and "LENGTH('a :: len) = 8 * n"
  shows "le_bytes n (le_value bs :: 'a word) = bs"
proof (rule nth_equalityI)
  fix i assume "i < length (le_bytes n (le_value bs :: 'a word))"
  then have i: "i < n"
    by simp
  show "le_bytes n (le_value bs :: 'a word) ! i = bs ! i"
  proof (rule bit_word_eqI)
    fix k assume "k < LENGTH(8)"
    then have k: "k < 8"
      by simp
    then have "(8 * i + k) div 8 = i" and "(8 * i + k) mod 8 = k" and "8 * i + k < 8 * n"
      using i by auto
    then show "bit (le_bytes n (le_value bs :: 'a word) ! i) k = bit (bs ! i) k"
      using i k assms by (simp add: le_bytes_def bit_unsigned_iff bit_drop_bit_eq bit_le_value)
  qed
qed (simp add: assms(1))

lemma check_with_crc: "check_trailing_crc (with_crc body) = EC_Ok"
  by (simp add: check_trailing_crc_def with_crc_def read_u32_at_def le_value_le_bytes Let_def)

lemma check_trailing_crc_iff: "check_trailing_crc bs = EC_Ok \<longleftrightarrow> (\<exists>body. bs = with_crc body)"
proof
  assume ok: "check_trailing_crc bs = EC_Ok"
  define body where "body = take (length bs - 4) bs"
  have len: "4 \<le> length bs" and "le_value (drop (length bs - 4) bs) = crc32c body 0"
    using ok by (auto simp: check_trailing_crc_def read_u32_at_def Let_def body_def split: if_splits)
  then have "le_bytes 4 (crc32c body 0) = drop (length bs - 4) bs"
    using le_bytes_le_value [of "drop (length bs - 4) bs" 4, where 'a = 32] by simp
  then have "bs = with_crc body"
    by (simp add: with_crc_def body_def)
  then show "\<exists>body. bs = with_crc body" ..
qed (auto simp: check_with_crc)

lemma crc32c_byte_differs:
  assumes "b \<noteq> c"
  shows "crc32c (pre @ b # post) seed \<noteq> crc32c (pre @ c # post) seed"
proof
  assume "crc32c (pre @ b # post) seed = crc32c (pre @ c # post) seed"
  then have "foldl crc32c_byte (crc32c_byte (foldl crc32c_byte (NOT seed) pre) b) post =
      foldl crc32c_byte (crc32c_byte (foldl crc32c_byte (NOT seed) pre) c) post"
    by (simp add: crc32c_def)
  then show False
    using assms by (blast dest: foldl_crc32c_inj crc32c_byte_inj_right)
qed

lemma crc32c_update_differs:
  assumes "i < length bs" and "b \<noteq> bs ! i"
  shows "crc32c (bs[i := b]) 0 \<noteq> crc32c bs 0"
  using crc32c_byte_differs [OF assms(2), of "take i bs" "drop (Suc i) bs" 0] assms(1)
  by (simp add: upd_conv_take_nth_drop flip: id_take_nth_drop)

lemma le_value_inj:
  assumes "le_value bs = (le_value cs :: u32)" and "length bs = 4" and "length cs = 4"
  shows "bs = cs"
proof -
  have "bs = le_bytes 4 (le_value bs :: u32)"
    by (rule le_bytes_le_value [symmetric]) (simp_all add: assms(2))
  also have "\<dots> = le_bytes 4 (le_value cs :: u32)"
    by (simp only: assms(1))
  also have "\<dots> = cs"
    by (rule le_bytes_le_value) (simp_all add: assms(3))
  finally show ?thesis .
qed

text \<open>One damaged byte, anywhere in the block or in its checksum, is detected.\<close>

lemma check_detects_byte:
  assumes ok: "check_trailing_crc bs = EC_Ok" and i: "i < length bs" and b: "b \<noteq> bs ! i"
  shows "check_trailing_crc (bs[i := b]) = EC_IntegrityFailure"
proof -
  define n where "n = length bs - 4"
  have n: "length bs = n + 4" and stored: "le_value (drop n bs) = crc32c (take n bs) 0"
    using ok by (auto simp: check_trailing_crc_def read_u32_at_def Let_def n_def split: if_splits)
  have "le_value (drop n (bs[i := b])) \<noteq> crc32c (take n (bs[i := b])) 0"
  proof (cases "i < n")
    case True
    then show ?thesis
      using stored b n crc32c_update_differs [of i "take n bs" b] by (simp add: take_update_swap)
  next
    case False
    then have "(drop n bs)[i - n := b] ! (i - n) \<noteq> drop n bs ! (i - n)"
      using i b n by simp
    then have "drop n (bs[i := b]) \<noteq> drop n bs"
      using False i by (metis drop_update_swap linorder_not_less)
    then have "(le_value (drop n (bs[i := b])) :: u32) \<noteq> le_value (drop n bs)"
      using le_value_inj n by (metis (no_types) add_diff_cancel_left' length_drop length_list_update)
    then show ?thesis
      using stored False by simp
  qed
  then show ?thesis
    using n by (simp add: check_trailing_crc_def read_u32_at_def Let_def)
qed

section \<open>The decoders accept exactly what the encoders write\<close>

lemma raw_at:
  "n \<le> length bs - p \<Longrightarrow> ByteReader_raw n \<lparr>br_data = bs, br_position = p, br_max_blob = m, br_error = EC_Ok\<rparr> =
   (take n (drop p bs), \<lparr>br_data = bs, br_position = p + n, br_max_blob = m, br_error = EC_Ok\<rparr>)"
  by (simp add: ByteReader_raw_def ByteReader_remaining_def)

lemma le_at:
  "n \<le> length bs - p \<Longrightarrow> ByteReader_le n \<lparr>br_data = bs, br_position = p, br_max_blob = m, br_error = EC_Ok\<rparr> =
   (le_value (take n (drop p bs)), \<lparr>br_data = bs, br_position = p + n, br_max_blob = m, br_error = EC_Ok\<rparr>)"
  by (simp add: ByteReader_le_def ByteReader_remaining_def)

lemmas reading = new_reader_def raw_at le_at ByteReader_u16_def ByteReader_u32_def ByteReader_u64_def
  dec_field_def dec_ok_def dec_fail_def dec_return_def

lemma magic_matches_iff: "length magic = 4 \<Longrightarrow> 4 \<le> length bs \<Longrightarrow> magic_matches bs magic \<longleftrightarrow> take 4 bs = magic"
  by (auto simp: magic_matches_def list_eq_iff_nth_eq)

lemma take_split: "take (n + k) bs = take n bs @ take k (drop n bs)"
  by (rule take_add)

lemma check_split: "check_trailing_crc bs = EC_Ok \<Longrightarrow> bs = with_crc (take (length bs - 4) bs)"
  by (auto simp: check_trailing_crc_iff with_crc_def)

lemma le_bytes_slice:
  "k + n \<le> length bs \<Longrightarrow> LENGTH('a :: len) = 8 * n \<Longrightarrow> le_bytes n (le_value (take n (drop k bs)) :: 'a word) = take n (drop k bs)"
  by (rule le_bytes_le_value) simp_all

text \<open>The journal header and the footer are a magic, a 32-bit and two 64-bit fields.\<close>

lemma block_split:
  assumes "length bs = 28" and "check_trailing_crc bs = EC_Ok"
  shows "bs = with_crc (take 4 bs @ le_bytes 4 (le_value (take 4 (drop 4 bs)) :: u32) @
    le_bytes 8 (le_value (take 8 (drop 8 bs)) :: u64) @ le_bytes 8 (le_value (take 8 (drop 16 bs)) :: u64))"
proof -
  have "take 24 bs = take 4 bs @ take 4 (drop 4 bs) @ take 8 (drop 8 bs) @ take 8 (drop 16 bs)"
    using take_split [of 4 20 bs] take_split [of 4 16 "drop 4 bs"] take_split [of 8 8 "drop 8 bs"] by simp
  then show ?thesis
    using check_split [OF assms(2)] assms(1) by (simp add: le_bytes_slice)
qed

lemma decode_journal_header_fields:
  assumes "length bs = 28" and "take 4 bs = kJournalMagic" and "check_trailing_crc bs = EC_Ok"
  shows "decode_journal_header bs =
    (let version = le_value (take 4 (drop 4 bs)); boot = le_value (take 8 (drop 8 bs))
     in if version \<noteq> kDurableFormatVersion then Inl EC_VersionUnsupported
        else if \<not> valid_id boot then Inl EC_Corrupt
        else Inr \<lparr>jh_version = version, jh_boot = boot, jh_base_sequence = le_value (take 8 (drop 16 bs))\<rparr>)"
  using assms by (simp add: decode_journal_header_def magic_matches_iff kJournalMagic_def frame_sizes reading Let_def)

lemma decode_journal_footer_fields:
  assumes "length bs = 28" and "take 4 bs = kJournalFooterMagic" and "check_trailing_crc bs = EC_Ok"
  shows "decode_journal_footer bs =
    (if le_value (take 4 (drop 4 bs)) \<noteq> kDurableFormatVersion then Inl EC_VersionUnsupported
     else Inr \<lparr>jf_record_count = le_value (take 8 (drop 8 bs)), jf_last_sequence = le_value (take 8 (drop 16 bs))\<rparr>)"
  using assms by (simp add: decode_journal_footer_def magic_matches_iff kJournalFooterMagic_def frame_sizes reading)

lemma magic_4 [simp]: "length kJournalMagic = 4" "length kRecordMagic = 4" "length kJournalFooterMagic = 4"
  by (simp_all add: magic_defs)

lemma header_ok_block:
  "decode_journal_header bs = Inr h \<Longrightarrow>
   length bs = 28 \<and> take 4 bs = kJournalMagic \<and> check_trailing_crc bs = EC_Ok"
  by (auto simp: decode_journal_header_def kJournalHeaderSize_def magic_matches_iff split: if_splits)

lemma footer_ok_block:
  "decode_journal_footer bs = Inr f \<Longrightarrow>
   length bs = 28 \<and> take 4 bs = kJournalFooterMagic \<and> check_trailing_crc bs = EC_Ok"
  by (auto simp: decode_journal_footer_def kJournalFooterSize_def magic_matches_iff split: if_splits)

lemma record_ok_block:
  "decode_record_header bs = Inr r \<Longrightarrow>
   length bs = 28 \<and> take 4 bs = kRecordMagic \<and> check_trailing_crc bs = EC_Ok"
  by (auto simp: decode_record_header_def kRecordHeaderSize_def magic_matches_iff split: if_splits)

lemma journal_header_exact:
  "decode_journal_header bs = Inr h \<longleftrightarrow>
   bs = encode_journal_header h \<and> jh_version h = kDurableFormatVersion \<and> valid_id (jh_boot h)"
proof
  assume d: "decode_journal_header bs = Inr h"
  note block = header_ok_block [OF d]
  show "bs = encode_journal_header h \<and> jh_version h = kDurableFormatVersion \<and> valid_id (jh_boot h)"
    using d block block_split [of bs] decode_journal_header_fields [of bs]
    by (auto simp: encode_journal_header_eq header_body_def Let_def split: if_splits)
next
  assume a: "bs = encode_journal_header h \<and> jh_version h = kDurableFormatVersion \<and> valid_id (jh_boot h)"
  then have bs: "bs = with_crc (header_body h)"
    by (simp add: encode_journal_header_eq)
  have "take 4 bs = kJournalMagic" "take 4 (drop 4 bs) = le_bytes 4 (jh_version h)"
    "take 8 (drop 8 bs) = le_bytes 8 (jh_boot h)" "take 8 (drop 16 bs) = le_bytes 8 (jh_base_sequence h)"
    by (simp_all add: bs with_crc_def header_body_def)
  moreover have "length bs = 28" "check_trailing_crc bs = EC_Ok"
    by (simp_all add: bs check_with_crc)
  ultimately show "decode_journal_header bs = Inr h"
    using a by (simp add: decode_journal_header_fields le_value_le_bytes Let_def)
qed

lemma journal_footer_exact: "decode_journal_footer bs = Inr f \<longleftrightarrow> bs = encode_journal_footer f"
proof
  assume d: "decode_journal_footer bs = Inr f"
  note block = footer_ok_block [OF d]
  show "bs = encode_journal_footer f"
    using d block block_split [of bs] decode_journal_footer_fields [of bs]
    by (auto simp: encode_journal_footer_eq footer_body_def split: if_splits)
next
  assume "bs = encode_journal_footer f"
  then have bs: "bs = with_crc (footer_body f)"
    by (simp add: encode_journal_footer_eq)
  have "take 4 bs = kJournalFooterMagic" "take 4 (drop 4 bs) = le_bytes 4 kDurableFormatVersion"
    "take 8 (drop 8 bs) = le_bytes 8 (jf_record_count f)" "take 8 (drop 16 bs) = le_bytes 8 (jf_last_sequence f)"
    by (simp_all add: bs with_crc_def footer_body_def)
  moreover have "length bs = 28" "check_trailing_crc bs = EC_Ok"
    by (simp_all add: bs check_with_crc)
  ultimately show "decode_journal_footer bs = Inr f"
    by (simp add: decode_journal_footer_fields le_value_le_bytes)
qed

section \<open>Record headers\<close>

definition record_header_ok :: "RecordHeader \<Rightarrow> bool" where
  "record_header_ok h \<longleftrightarrow> rh_version h = kDurableFormatVersion \<and> rh_flags h = 0 \<and>
     unat (rh_payload_length h) \<le> kMaxRecordPayload"

lemma decode_record_header_fields:
  assumes "length bs = 28" and "take 4 bs = kRecordMagic" and "check_trailing_crc bs = EC_Ok"
  shows "decode_record_header bs =
    (let version = le_value (take 4 (drop 4 bs)); payload_length = le_value (take 4 (drop 20 bs));
         flags = le_value (take 2 (drop 10 bs))
     in case enum_decode RecordType_code RecordType_all (le_value (take 2 (drop 8 bs))) of
          None \<Rightarrow> Inl EC_InvalidEnum
        | Some type \<Rightarrow>
           if version \<noteq> kDurableFormatVersion then Inl EC_VersionUnsupported
           else if unat payload_length > kMaxRecordPayload then Inl EC_CapacityExceeded
           else if flags \<noteq> 0 then Inl EC_Invalid
           else Inr \<lparr>rh_version = version, rh_type = type, rh_flags = flags,
                      rh_sequence = le_value (take 8 (drop 12 bs)), rh_payload_length = payload_length\<rparr>)"
  using assms
  by (simp add: decode_record_header_def magic_matches_iff kRecordMagic_def frame_sizes reading read_enum_def Let_def
      ByteReader_le_def ByteReader_fail_def ByteReader_remaining_def split: option.split)

lemma record_block_split:
  assumes "length bs = 28" and "check_trailing_crc bs = EC_Ok"
  shows "bs = with_crc (take 4 bs @ le_bytes 4 (le_value (take 4 (drop 4 bs)) :: u32) @
    le_bytes 2 (le_value (take 2 (drop 8 bs)) :: u16) @ le_bytes 2 (le_value (take 2 (drop 10 bs)) :: u16) @
    le_bytes 8 (le_value (take 8 (drop 12 bs)) :: u64) @ le_bytes 4 (le_value (take 4 (drop 20 bs)) :: u32))"
proof -
  have "take 24 bs = take 4 bs @ take 4 (drop 4 bs) @ take 2 (drop 8 bs) @ take 2 (drop 10 bs) @
      take 8 (drop 12 bs) @ take 4 (drop 20 bs)"
    using take_split [of 4 20 bs] take_split [of 4 16 "drop 4 bs"] take_split [of 2 14 "drop 8 bs"]
      take_split [of 2 12 "drop 10 bs"] take_split [of 8 4 "drop 12 bs"] by simp
  then show ?thesis
    using check_split [OF assms(2)] assms(1) by (simp add: le_bytes_slice)
qed

lemma record_header_exact:
  "decode_record_header bs = Inr h \<longleftrightarrow>
   bs = with_crc (record_body h (unat (rh_payload_length h))) \<and> record_header_ok h"
proof
  assume d: "decode_record_header bs = Inr h"
  note block = record_ok_block [OF d]
  obtain "type" where e: "enum_decode RecordType_code RecordType_all (le_value (take 2 (drop 8 bs))) = Some type"
    and rest: "record_header_ok h" "rh_version h = le_value (take 4 (drop 4 bs))" "rh_type h = type"
      "rh_flags h = le_value (take 2 (drop 10 bs))" "rh_sequence h = le_value (take 8 (drop 12 bs))"
      "rh_payload_length h = le_value (take 4 (drop 20 bs))"
    using d block decode_record_header_fields [of bs]
    by (auto simp: record_header_ok_def Let_def split: if_splits option.splits)
  from e have "RecordType_code type = le_value (take 2 (drop 8 bs))"
    by (simp add: recordtype_wire.decode_eq_Some)
  with rest show "bs = with_crc (record_body h (unat (rh_payload_length h))) \<and> record_header_ok h"
    using block record_block_split [of bs] by (simp add: record_body_def)
next
  assume a: "bs = with_crc (record_body h (unat (rh_payload_length h))) \<and> record_header_ok h"
  have "take 4 bs = kRecordMagic" "take 4 (drop 4 bs) = le_bytes 4 (rh_version h)"
    "take 2 (drop 8 bs) = le_bytes 2 (RecordType_code (rh_type h))" "take 2 (drop 10 bs) = le_bytes 2 (rh_flags h)"
    "take 8 (drop 12 bs) = le_bytes 8 (rh_sequence h)" "take 4 (drop 20 bs) = le_bytes 4 (rh_payload_length h)"
    using a by (simp_all add: with_crc_def record_body_def)
  moreover have "length bs = 28" "check_trailing_crc bs = EC_Ok"
    using a by (simp_all add: check_with_crc)
  ultimately show "decode_record_header bs = Inr h"
    using a by (simp add: decode_record_header_fields le_value_le_bytes recordtype_wire.decode_code
        record_header_ok_def Let_def)
qed

lemma encode_record_parts:
  assumes "length payload = unat (rh_payload_length h)"
  shows "encode_record h payload = with_crc (record_body h (unat (rh_payload_length h))) @ with_crc payload"
proof -
  have "length payload < 2 ^ 63"
    using assms unat_u32_bound [of "rh_payload_length h"] by simp
  then show ?thesis
    using assms by (simp add: encode_record_eq)
qed

text \<open>
  The framing of the journal is canonical: the three block decoders accept exactly the bytes the encoders
  write. A journal header is accepted as \<open>h\<close> if and only if the bytes are the encoding of \<open>h\<close>, the version is
  the supported one and the boot incarnation is set; a footer if and only if the bytes are its encoding; a record
  header if and only if the bytes are the first 28 bytes of a frame that \<open>encode_record\<close> writes for a payload of
  the declared length, with the supported version, no flags and a length within the bound.
\<close>

theorem journal_blocks_exact:
  "(decode_journal_header bs = Inr h \<longleftrightarrow>
      bs = encode_journal_header h \<and> jh_version h = kDurableFormatVersion \<and> valid_id (jh_boot h)) \<and>
   (decode_journal_footer bs = Inr f \<longleftrightarrow> bs = encode_journal_footer f) \<and>
   (decode_record_header bs = Inr r \<longleftrightarrow>
      (\<exists>payload. length payload = unat (rh_payload_length r) \<and>
         bs = take kRecordHeaderSize (encode_record r payload) \<and> record_header_ok r))"
proof -
  have "take kRecordHeaderSize (encode_record r payload) = with_crc (record_body r (unat (rh_payload_length r)))"
    if "length payload = unat (rh_payload_length r)" for payload
    by (simp add: encode_record_parts [OF that] kRecordHeaderSize_def)
  moreover have "\<exists>payload :: u8 list. length payload = unat (rh_payload_length r)"
    by (rule exI [of _ "replicate _ 0"]) (rule length_replicate)
  ultimately show ?thesis
    by (auto simp: journal_header_exact journal_footer_exact record_header_exact)
qed

text \<open>What a refusal for damage looks like: a wrong magic or a failed checksum.\<close>

definition refused :: "'a result \<Rightarrow> bool" where
  "refused r \<longleftrightarrow> r = Inl EC_Corrupt \<or> r = Inl EC_IntegrityFailure"

lemma damaged_header_refused:
  assumes "decode_journal_header bs = Inr h" and "i < length bs" and "b \<noteq> bs ! i"
  shows "refused (decode_journal_header (bs[i := b]))"
  using header_ok_block [OF assms(1)] check_detects_byte [OF _ assms(2,3)]
  by (auto simp: decode_journal_header_def refused_def kJournalHeaderSize_def)

lemma damaged_footer_refused:
  assumes "decode_journal_footer bs = Inr f" and "i < length bs" and "b \<noteq> bs ! i"
  shows "refused (decode_journal_footer (bs[i := b]))"
  using footer_ok_block [OF assms(1)] check_detects_byte [OF _ assms(2,3)]
  by (auto simp: decode_journal_footer_def refused_def kJournalFooterSize_def)

lemma damaged_record_refused:
  assumes "decode_record_header bs = Inr r" and "i < length bs" and "b \<noteq> bs ! i"
  shows "refused (decode_record_header (bs[i := b]))"
  using record_ok_block [OF assms(1)] check_detects_byte [OF _ assms(2,3)]
  by (auto simp: decode_record_header_def refused_def kRecordHeaderSize_def)

end
