(* ===== verification/Snapshot.thy ===== *)
theory Snapshot
  imports Journal
begin

text \<open>
  Snapshot framing and the names of the durable files (\<open>src/store/snapshot.cpp\<close>, \<open>snapshot.hpp\<close>). A snapshot is a
  checksummed header, the payload and a checksummed footer that repeats the payload checksum.
\<close>

section \<open>File names\<close>

definition kNameDigits :: nat where "kNameDigits = 20"

text \<open>\<open>%020llu\<close>: twenty decimal digits hold every 64-bit value.\<close>

definition format_digits :: "nat \<Rightarrow> nat \<Rightarrow> string" where
  "format_digits k n = map (\<lambda>i. char_of (48 + n div 10 ^ i mod 10)) (rev [0..<k])"

definition format_sequence_name :: "string \<Rightarrow> u64 \<Rightarrow> string \<Rightarrow> string" where
  "format_sequence_name stem sequence ext = stem @ format_digits kNameDigits (unat sequence) @ ext"

fun parse_digits :: "string \<Rightarrow> u64 \<Rightarrow> u64 result" where
  "parse_digits [] v = Inr v"
| "parse_digits (raw # rest) v =
     (if of_char raw < (48 :: nat) \<or> of_char raw > (57 :: nat) then Inl EC_InvalidArgument
      else case checked_mul v 10 of
             None \<Rightarrow> Inl EC_Overflow
           | Some shifted \<Rightarrow>
              (case checked_add shifted (of_nat (of_char raw - 48)) of
                 None \<Rightarrow> Inl EC_Overflow
               | Some next_value \<Rightarrow> parse_digits rest next_value))"

definition parse_sequence_name :: "string \<Rightarrow> string \<Rightarrow> string \<Rightarrow> u64 result" where
  "parse_sequence_name name stem ext =
     (if length name \<le> length stem + length ext then Inl EC_InvalidArgument
      else if take (length stem) name \<noteq> stem then Inl EC_InvalidArgument
      else if drop (length name - length ext) name \<noteq> ext then Inl EC_InvalidArgument
      else let digits = take (length name - length stem - length ext) (drop (length stem) name)
           in if digits = [] \<or> length digits > 20 then Inl EC_InvalidArgument
              else parse_digits digits 0)"

definition snapshot_file_name :: "u64 \<Rightarrow> string" where
  "snapshot_file_name sequence = format_sequence_name ''snapshot-'' sequence ''.dmfs''"

definition parse_snapshot_file_name :: "string \<Rightarrow> u64 result" where
  "parse_snapshot_file_name name = parse_sequence_name name ''snapshot-'' ''.dmfs''"

definition journal_file_name :: "u64 \<Rightarrow> string" where
  "journal_file_name base_sequence = format_sequence_name ''journal-'' base_sequence ''.dmfj''"

definition parse_journal_file_name :: "string \<Rightarrow> u64 result" where
  "parse_journal_file_name name = parse_sequence_name name ''journal-'' ''.dmfj''"

lemma length_format_digits [simp]: "length (format_digits k n) = k"
  by (simp add: format_digits_def)

lemma format_digits_Suc: "format_digits (Suc k) n = char_of (48 + n div 10 ^ k mod 10) # format_digits k n"
  by (simp add: format_digits_def)

text \<open>The digits are read back: \<open>v\<close> holds the value of the digits already read.\<close>

lemma parse_format_digits:
  assumes "unat v = n div 10 ^ k" and "n < 2 ^ 64"
  shows "parse_digits (format_digits k n) v = Inr (of_nat n)"
  using assms
proof (induction k arbitrary: v)
  case 0
  then show ?case
    by (simp add: format_digits_def word_unat_eq_iff unat_of_nat take_bit_nat_eq_self)
next
  case (Suc k)
  define d where "d = n div 10 ^ k mod 10"
  have d: "d < 10"
    by (simp add: d_def)
  have "n div 10 ^ Suc k = n div 10 ^ k div 10"
    by (simp add: mult.commute [of 10] flip: div_mult2_eq)
  then have step: "n div 10 ^ k = 10 * (n div 10 ^ Suc k) + d"
    by (simp add: d_def)
  have small: "n div 10 ^ k < 2 ^ 64"
    using Suc.prems(2) by (meson div_le_dividend le_less_trans)
  obtain shifted where m: "checked_mul v 10 = Some shifted" "unat shifted = unat v * 10"
    using small step Suc.prems(1) checked_mul_None_iff [of v 10] by (cases "checked_mul v 10") (auto simp: checked_mul_Some_iff)
  obtain next_value where a: "checked_add shifted (of_nat d) = Some next_value" "unat next_value = n div 10 ^ k"
    using small step Suc.prems(1) m(2) d checked_add_None_iff [of shifted "of_nat d"]
    by (cases "checked_add shifted (of_nat d)") (auto simp: checked_add_Some_iff unat_of_nat take_bit_nat_eq_self)
  have "of_char (char_of (48 + d) :: char) = 48 + d"
    using d by simp
  then show ?case
    using m(1) a(1) d Suc.IH [OF a(2) Suc.prems(2)] by (simp add: format_digits_Suc flip: d_def)
qed

lemma parse_format_name:
  "parse_sequence_name (format_sequence_name stem sequence ext) stem ext = Inr sequence"
proof -
  have "unat sequence < 2 ^ 64"
    using unsigned_less [of sequence] by simp
  then have "parse_digits (format_digits 20 (unat sequence)) 0 = Inr (of_nat (unat sequence))"
    by (intro parse_format_digits) simp_all
  moreover have "format_digits 20 (unat sequence) \<noteq> []"
    by (metis length_format_digits list.size(3) zero_neq_numeral)
  ultimately show ?thesis
    by (simp add: parse_sequence_name_def format_sequence_name_def kNameDigits_def)
qed

lemma name_inj:
  "snapshot_file_name a = snapshot_file_name b \<longleftrightarrow> a = b"
  "journal_file_name a = journal_file_name b \<longleftrightarrow> a = b"
  "snapshot_file_name a \<noteq> journal_file_name b"
  using parse_format_name [of "''snapshot-''" _ "''.dmfs''"] parse_format_name [of "''journal-''" _ "''.dmfj''"]
  by (metis snapshot_file_name_def sum.inject(2)) (metis journal_file_name_def sum.inject(2) parse_format_name,
      simp add: snapshot_file_name_def journal_file_name_def format_sequence_name_def)

section \<open>Snapshot frames\<close>

definition kSnapshotMagic :: "u8 list" where "kSnapshotMagic = [68, 77, 70, 83]"
definition kSnapshotFooterMagic :: "u8 list" where "kSnapshotFooterMagic = [68, 77, 70, 70]"
definition kSnapshotHeaderSize :: nat where "kSnapshotHeaderSize = 32"
definition kSnapshotFooterSize :: nat where "kSnapshotFooterSize = 16"

record SnapshotHeader =
  sh_version :: u32
  sh_sequence :: u64
  sh_payload_length :: u64
  sh_payload_crc :: u32

definition read_u64_at :: "nat \<Rightarrow> u8 list \<Rightarrow> u64" where
  "read_u64_at i bytes = le_value (take 8 (drop i bytes))"

definition encode_snapshot :: "SnapshotHeader \<Rightarrow> u8 list \<Rightarrow> u8 list" where
  "encode_snapshot h payload =
     (let payload_crc = crc32c payload 0
      in bw_data (write_all
           [write_magic kSnapshotMagic, ByteWriter_u32 (sh_version h), ByteWriter_u64 (sh_sequence h),
            ByteWriter_u64 (of_nat (length payload)), ByteWriter_u32 payload_crc, write_crc,
            ByteWriter_raw payload,
            write_magic kSnapshotFooterMagic, ByteWriter_u32 (sh_version h), ByteWriter_u32 payload_crc,
            (\<lambda>w. ByteWriter_u32 (crc32c (take 12 (drop (kSnapshotHeaderSize + length payload) (bw_data w))) 0) w)]
           (new_writer (kSnapshotHeaderSize + length payload + kSnapshotFooterSize) kMaxBlobBytes)))"

definition expected_size :: "u64 \<Rightarrow> u64 option" where
  "expected_size payload_length =
     checked_add (case checked_add (of_nat kSnapshotHeaderSize) payload_length of None \<Rightarrow> - 1 | Some n \<Rightarrow> n)
       (of_nat kSnapshotFooterSize)"

definition decode_snapshot :: "u8 list \<Rightarrow> nat \<Rightarrow> (SnapshotHeader \<times> u8 list) result" where
  "decode_snapshot bytes max_payload =
     (if length bytes < kSnapshotHeaderSize + kSnapshotFooterSize then Inl EC_Truncated
      else if \<not> magic_matches bytes kSnapshotMagic then Inl EC_Corrupt
      else if read_u32_at 28 bytes \<noteq> crc32c (take 28 bytes) 0 then Inl EC_IntegrityFailure
      else let candidate = \<lparr>sh_version = read_u32_at 4 bytes, sh_sequence = read_u64_at 8 bytes,
                            sh_payload_length = read_u64_at 16 bytes, sh_payload_crc = read_u32_at 24 bytes\<rparr>
      in if sh_version candidate \<noteq> kDurableFormatVersion then Inl EC_VersionUnsupported
      else if unat (sh_payload_length candidate) > max_payload then Inl EC_CapacityExceeded
      else if expected_size (sh_payload_length candidate) = None \<or>
              expected_size (sh_payload_length candidate) \<noteq> Some (of_nat (length bytes)) then Inl EC_Corrupt
      else let payload_size = unat (sh_payload_length candidate);
               payload = take payload_size (drop kSnapshotHeaderSize bytes);
               footer = drop payload_size (drop kSnapshotHeaderSize bytes)
      in if crc32c payload 0 \<noteq> sh_payload_crc candidate then Inl EC_IntegrityFailure
      else if \<not> magic_matches footer kSnapshotFooterMagic then Inl EC_Corrupt
      else if read_u32_at 4 footer \<noteq> kDurableFormatVersion then Inl EC_VersionUnsupported
      else if read_u32_at 8 footer \<noteq> sh_payload_crc candidate then Inl EC_IntegrityFailure
      else if read_u32_at 12 footer \<noteq> crc32c (take 12 footer) 0 then Inl EC_IntegrityFailure
      else Inr (candidate, payload))"

definition snapshot_body :: "SnapshotHeader \<Rightarrow> u8 list \<Rightarrow> u8 list" where
  "snapshot_body h payload = kSnapshotMagic @ le_bytes 4 (sh_version h) @ le_bytes 8 (sh_sequence h) @
     le_bytes 8 (of_nat (length payload) :: u64) @ le_bytes 4 (crc32c payload 0)"

definition snapshot_footer :: "SnapshotHeader \<Rightarrow> u8 list \<Rightarrow> u8 list" where
  "snapshot_footer h payload = kSnapshotFooterMagic @ le_bytes 4 (sh_version h) @ le_bytes 4 (crc32c payload 0)"

lemma snapshot_magic_4 [simp]: "length kSnapshotMagic = 4" "length kSnapshotFooterMagic = 4"
  by (simp_all add: kSnapshotMagic_def kSnapshotFooterMagic_def)

lemma length_snapshot_bodies [simp]: "length (snapshot_body h p) = 28" "length (snapshot_footer h p) = 12"
  by (simp_all add: snapshot_body_def snapshot_footer_def)

lemma encode_snapshot_eq:
  "length payload < 2 ^ 63 \<Longrightarrow>
   encode_snapshot h payload = with_crc (snapshot_body h payload) @ payload @ with_crc (snapshot_footer h payload)"
  unfolding encode_snapshot_def
  by (simp add: writes write_magic_room raw_room new_writer_def with_crc_def snapshot_body_def snapshot_footer_def
      kSnapshotHeaderSize_def kSnapshotFooterSize_def Let_def)

text \<open>The blocks of an accepted snapshot.\<close>

lemma expected_size_iff:
  "expected_size n = Some m \<longleftrightarrow> unat n + 48 < 2 ^ 64 \<and> unat m = unat n + 48"
proof (cases "checked_add (32 :: u64) n")
  case None
  then have "2 ^ 64 \<le> 32 + unat n"
    by (simp add: checked_add_None_iff)
  moreover have "checked_add (- 1 :: u64) 16 = None"
    by code_simp
  ultimately show ?thesis
    using None by (simp add: expected_size_def kSnapshotHeaderSize_def kSnapshotFooterSize_def)
next
  case (Some k)
  then have "unat k = 32 + unat n"
    by (simp add: checked_add_Some_iff)
  moreover have "expected_size n = checked_add k 16"
    using Some by (simp add: expected_size_def kSnapshotHeaderSize_def kSnapshotFooterSize_def)
  ultimately show ?thesis
    by (auto simp: checked_add_Some_iff)
qed

definition snapshot_layout :: "u8 list \<Rightarrow> SnapshotHeader \<Rightarrow> u8 list \<Rightarrow> bool" where
  "snapshot_layout bs h payload \<longleftrightarrow>
     length bs = length payload + 48 \<and> take (length payload) (drop 32 bs) = payload \<and>
     take 4 bs = kSnapshotMagic \<and> take 4 (drop (32 + length payload) bs) = kSnapshotFooterMagic \<and>
     check_trailing_crc (take 32 bs) = EC_Ok \<and> check_trailing_crc (drop (32 + length payload) bs) = EC_Ok \<and>
     read_u32_at 4 bs = kDurableFormatVersion \<and> read_u32_at 4 (drop (32 + length payload) bs) = kDurableFormatVersion \<and>
     sh_version h = kDurableFormatVersion \<and> sh_sequence h = read_u64_at 8 bs \<and>
     read_u64_at 16 bs = of_nat (length payload) \<and> sh_payload_length h = of_nat (length payload) \<and>
     read_u32_at 24 bs = crc32c payload 0 \<and> read_u32_at 8 (drop (32 + length payload) bs) = crc32c payload 0 \<and>
     sh_payload_crc h = crc32c payload 0"

lemma check_32:
  "32 \<le> length bs \<Longrightarrow> check_trailing_crc (take 32 bs) = EC_Ok \<longleftrightarrow> read_u32_at 28 bs = crc32c (take 28 bs) 0"
  by (simp add: check_trailing_crc_def read_u32_at_def drop_take min_def)

lemma check_16:
  "length bs = 16 \<Longrightarrow> check_trailing_crc bs = EC_Ok \<longleftrightarrow> read_u32_at 12 bs = crc32c (take 12 bs) 0"
  by (simp add: check_trailing_crc_def read_u32_at_def)

lemma decode_snapshot_iff:
  assumes "length bs < 2 ^ 64"
  shows "decode_snapshot bs limit = Inr (h, payload) \<longleftrightarrow> snapshot_layout bs h payload \<and> length payload \<le> limit"
proof (cases "length bs < 48")
  case True
  then show ?thesis
    by (simp add: decode_snapshot_def snapshot_layout_def kSnapshotHeaderSize_def kSnapshotFooterSize_def)
next
  case False
  define n where "n = unat (read_u64_at 16 bs)"
  have size: "unat (of_nat (length bs) :: u64) = length bs"
    using assms by (simp add: unat_of_nat take_bit_nat_eq_self)
  have "expected_size (read_u64_at 16 bs) = Some (of_nat (length bs)) \<longleftrightarrow> length bs = n + 48"
    using assms unfolding expected_size_iff size n_def by auto
  moreover have "read_u64_at 16 bs = of_nat (length payload) \<longleftrightarrow> length payload = n" if "length bs = length payload + 48"
    using that assms by (auto simp: n_def word_unat_eq_iff unat_of_nat take_bit_nat_eq_self)
  ultimately show ?thesis
    using False assms
    by (auto simp: decode_snapshot_def snapshot_layout_def kSnapshotHeaderSize_def kSnapshotFooterSize_def Let_def
        magic_matches_iff check_32 check_16 add.commute simp flip: n_def split: if_splits)
qed

lemma snapshot_header_split:
  assumes "length bs = 32" and "check_trailing_crc bs = EC_Ok"
  shows "bs = with_crc (take 4 bs @ le_bytes 4 (read_u32_at 4 bs) @ le_bytes 8 (read_u64_at 8 bs) @
    le_bytes 8 (read_u64_at 16 bs) @ le_bytes 4 (read_u32_at 24 bs))"
proof -
  have "take 28 bs = take 4 bs @ take 4 (drop 4 bs) @ take 8 (drop 8 bs) @ take 8 (drop 16 bs) @ take 4 (drop 24 bs)"
    using take_split [of 4 24 bs] take_split [of 4 20 "drop 4 bs"] take_split [of 8 12 "drop 8 bs"]
      take_split [of 8 4 "drop 16 bs"] by simp
  then show ?thesis
    using check_split [OF assms(2)] assms(1) by (simp add: le_bytes_slice read_u32_at_def read_u64_at_def)
qed

lemma snapshot_footer_split:
  assumes "length bs = 16" and "check_trailing_crc bs = EC_Ok"
  shows "bs = with_crc (take 4 bs @ le_bytes 4 (read_u32_at 4 bs) @ le_bytes 4 (read_u32_at 8 bs))"
proof -
  have "take 12 bs = take 4 bs @ take 4 (drop 4 bs) @ take 4 (drop 8 bs)"
    using take_split [of 4 8 bs] take_split [of 4 4 "drop 4 bs"] by simp
  then show ?thesis
    using check_split [OF assms(2)] assms(1) by (simp add: le_bytes_slice read_u32_at_def)
qed

lemma read_at_take: "i + 4 \<le> n \<Longrightarrow> read_u32_at i (take n bs) = read_u32_at i bs"
  "i + 8 \<le> n \<Longrightarrow> read_u64_at i (take n bs) = read_u64_at i bs"
  by (simp_all add: read_u32_at_def read_u64_at_def drop_take min_def)

lemma snapshot_layout_eq:
  assumes "snapshot_layout bs h payload"
  shows "bs = with_crc (snapshot_body h payload) @ payload @ with_crc (snapshot_footer h payload)"
proof -
  define n where "n = length payload"
  have e: "read_u64_at 16 bs = of_nat (length payload)" "read_u32_at 24 bs = crc32c payload 0"
    "read_u32_at 8 (drop (32 + n) bs) = crc32c payload 0" "read_u32_at 4 (drop (32 + n) bs) = sh_version h"
    "read_u32_at 4 bs = sh_version h" "read_u64_at 8 bs = sh_sequence h"
    using assms by (simp_all add: snapshot_layout_def n_def)
  have "bs = take 32 bs @ take n (drop 32 bs) @ drop (32 + n) bs"
    using take_split [of 32 n bs] by (metis append.assoc append_take_drop_id)
  moreover have "take n (drop 32 bs) = payload"
    using assms by (simp add: snapshot_layout_def n_def)
  moreover have "take 32 bs = with_crc (snapshot_body h payload)"
    using assms snapshot_header_split [of "take 32 bs"] unfolding snapshot_layout_def
    by (simp add: snapshot_body_def read_at_take min_def e)
  moreover have "drop (32 + n) bs = with_crc (snapshot_footer h payload)"
    using assms snapshot_footer_split [of "drop (32 + n) bs"] unfolding snapshot_layout_def
    by (simp add: snapshot_footer_def e flip: n_def)
  ultimately show ?thesis
    by simp
qed

definition snapshot_header_ok :: "SnapshotHeader \<Rightarrow> u8 list \<Rightarrow> bool" where
  "snapshot_header_ok h payload \<longleftrightarrow> sh_version h = kDurableFormatVersion \<and>
     sh_payload_length h = of_nat (length payload) \<and> sh_payload_crc h = crc32c payload 0"

lemma encode_snapshot_layout:
  assumes "length payload < 2 ^ 63" and "snapshot_header_ok h payload"
  shows "snapshot_layout (encode_snapshot h payload) h payload"
  using assms check_with_crc [of "snapshot_body h payload"] check_with_crc [of "snapshot_footer h payload"]
  by (simp add: snapshot_layout_def encode_snapshot_eq snapshot_header_ok_def)
    (simp add: with_crc_def snapshot_body_def snapshot_footer_def read_u32_at_def read_u64_at_def le_value_le_bytes)

text \<open>
  C36. Snapshot framing is canonical: a buffer is accepted as header \<open>h\<close> and payload \<open>p\<close> if and only if it is exactly
  what \<open>encode_snapshot\<close> writes for them, with the supported version, the true payload length and checksum in the
  header, and a payload within the configured bound. (A C++ vector holds fewer than \<open>2^63\<close> bytes.)
\<close>

theorem snapshot_exact:
  assumes "length bs < 2 ^ 63" and "length payload < 2 ^ 63"
  shows "decode_snapshot bs limit = Inr (h, payload) \<longleftrightarrow>
    bs = encode_snapshot h payload \<and> snapshot_header_ok h payload \<and> length payload \<le> limit"
proof -
  have "decode_snapshot bs limit = Inr (h, payload) \<longleftrightarrow> snapshot_layout bs h payload \<and> length payload \<le> limit"
    using assms(1) by (intro decode_snapshot_iff) simp
  moreover have "bs = encode_snapshot h payload \<and> snapshot_header_ok h payload" if "snapshot_layout bs h payload"
    using snapshot_layout_eq [OF that] that
    by (simp add: encode_snapshot_eq [OF assms(2)] snapshot_header_ok_def snapshot_layout_def)
  moreover note encode_snapshot_layout [OF assms(2), of h]
  ultimately show ?thesis
    by blast
qed

theorem snapshot_exact_witness:
  "decode_snapshot (encode_snapshot \<lparr>sh_version = 1, sh_sequence = 7, sh_payload_length = 0, sh_payload_crc = crc32c [] 0\<rparr> [])
     4096 = Inr (\<lparr>sh_version = 1, sh_sequence = 7, sh_payload_length = 0, sh_payload_crc = crc32c [] 0\<rparr>, [])"
  using snapshot_exact [of "encode_snapshot \<lparr>sh_version = 1, sh_sequence = 7, sh_payload_length = 0,
      sh_payload_crc = crc32c [] 0\<rparr> []" "[]"]
  by (simp add: encode_snapshot_eq snapshot_header_ok_def kDurableFormatVersion_def)

text \<open>
  C35. A snapshot with one damaged byte is never loaded: changing any single byte of an accepted snapshot, in the
  header, the payload, the footer or a checksum, makes \<open>decode_snapshot\<close> refuse it.
\<close>

theorem damaged_snapshot_refused:
  assumes "decode_snapshot bs limit = Inr (h, payload)" and "length bs < 2 ^ 63"
    and "i < length bs" and "b \<noteq> bs ! i"
  shows "\<exists>e. decode_snapshot (bs[i := b]) limit = Inl e"
proof (rule ccontr)
  assume "\<not> ?thesis"
  then obtain h' payload' where d: "decode_snapshot (bs[i := b]) limit = Inr (h', payload')"
    by (metis sum.exhaust surj_pair)
  have l: "snapshot_layout bs h payload"
    using assms(1,2) decode_snapshot_iff [of bs limit h payload] by simp
  have l': "snapshot_layout (bs[i := b]) h' payload'"
    using d assms(2) decode_snapshot_iff [of "bs[i := b]" limit h' payload'] by simp
  define n where "n = length payload"
  have n: "length bs = n + 48" "length payload' = n"
    using l l' by (simp_all add: snapshot_layout_def n_def)
  consider "i < 32" | "32 \<le> i" "i < 32 + n" | "32 + n \<le> i"
    by linarith
  then show False
  proof cases
    case 1
    then have "take 32 (bs[i := b]) = (take 32 bs)[i := b]"
      by (simp add: take_update_swap)
    then show False
      using l l' n 1 assms(4) check_detects_byte [of "take 32 bs" i b] by (simp add: snapshot_layout_def)
  next
    case 2
    then have "payload' = payload[i - 32 := b]"
      using l l' n by (simp add: snapshot_layout_def drop_update_swap take_update_swap flip: n_def)
    moreover have "read_u32_at 24 (bs[i := b]) = read_u32_at 24 bs"
      using 2 by (simp add: read_u32_at_def drop_update_swap take_update_cancel)
    moreover have "payload ! (i - 32) = bs ! i"
    proof -
      have "payload = take n (drop 32 bs)"
        using l by (simp add: snapshot_layout_def n_def)
      then have "payload ! (i - 32) = take n (drop 32 bs) ! (i - 32)"
        by (rule arg_cong)
      then show ?thesis
        using 2 n by simp
    qed
    moreover have "i - 32 < length payload"
      using 2 unfolding n_def by linarith
    moreover have "read_u32_at 24 bs = crc32c payload 0" "read_u32_at 24 (bs[i := b]) = crc32c payload' 0"
      using l l' by (simp_all add: snapshot_layout_def)
    ultimately show False
      using assms(4) crc32c_update_differs [of "i - 32" payload b] by metis
  next
    case 3
    then have "drop (32 + n) (bs[i := b]) = (drop (32 + n) bs)[i - (32 + n) := b]"
      by (simp add: drop_update_swap)
    then show False
      using l l' n 3 assms(3,4) check_detects_byte [of "drop (32 + n) bs" "i - (32 + n)" b]
      by (simp add: snapshot_layout_def flip: n_def)
  qed
qed

theorem damaged_snapshot_refused_witness:
  "\<exists>e. decode_snapshot ((encode_snapshot \<lparr>sh_version = 1, sh_sequence = 7, sh_payload_length = 1,
      sh_payload_crc = crc32c [3] 0\<rparr> [3])[32 := 4]) 4096 = Inl e"
proof -
  let ?h = "\<lparr>sh_version = 1, sh_sequence = 7, sh_payload_length = 1, sh_payload_crc = crc32c [3] 0\<rparr>"
  have "snapshot_layout (encode_snapshot ?h [3]) ?h [3]"
    by (rule encode_snapshot_layout) (simp_all add: snapshot_header_ok_def kDurableFormatVersion_def)
  then have "decode_snapshot (encode_snapshot ?h [3]) 4096 = Inr (?h, [3])"
    by (subst decode_snapshot_iff) (simp_all add: snapshot_layout_def)
  then show ?thesis
    by (rule damaged_snapshot_refused) (simp_all add: encode_snapshot_eq nth_append)
qed

end
