(* ===== verification/File_Io.thy ===== *)
theory File_Io
  imports Snapshot "HOL-Library.AList"
begin

text \<open>
  The store root as the durable layer sees it through \<open>src/store/file_io.cpp\<close>: the directory entries with their
  contents and the lock. The wrappers translate operating system calls; the model gives each call its success case
  (a path that is absent is the one failure the store meets in an error-free run), so that what follows is about
  the order and the content of the writes. A write of a file that replaces it (staging file, flush, rename) is one
  step: the staging file is never read.
\<close>

record StoreRoot =
  sr_exists :: bool
  sr_files :: "(string \<times> u8 list) list"
  sr_locked :: bool

definition file_bytes :: "string \<Rightarrow> StoreRoot \<Rightarrow> u8 list option" where
  "file_bytes name w = map_of (sr_files w) name"

definition file_exists :: "string \<Rightarrow> StoreRoot \<Rightarrow> bool" where
  "file_exists name w \<longleftrightarrow> file_bytes name w \<noteq> None"

definition put_file :: "string \<Rightarrow> u8 list \<Rightarrow> StoreRoot \<Rightarrow> StoreRoot" where
  "put_file name bytes w = w\<lparr>sr_files := AList.update name bytes (sr_files w)\<rparr>"

definition remove_file :: "string \<Rightarrow> StoreRoot \<Rightarrow> StoreRoot" where
  "remove_file name w = w\<lparr>sr_files := AList.delete name (sr_files w)\<rparr>"

definition ensure_directory :: "StoreRoot \<Rightarrow> StoreRoot" where
  "ensure_directory w = w\<lparr>sr_exists := True\<rparr>"

text \<open>\<open>open(O_CREAT | O_APPEND)\<close>, then \<open>write\<close> and \<open>ftruncate\<close> on the descriptor.\<close>

definition open_append :: "string \<Rightarrow> StoreRoot \<Rightarrow> StoreRoot" where
  "open_append name w = (if file_exists name w then w else put_file name [] w)"

definition write_all_to :: "string \<Rightarrow> u8 list \<Rightarrow> StoreRoot \<Rightarrow> StoreRoot" where
  "write_all_to name bytes w =
     put_file name ((case file_bytes name w of None \<Rightarrow> [] | Some old \<Rightarrow> old) @ bytes) w"

definition truncate_file :: "string \<Rightarrow> nat \<Rightarrow> StoreRoot \<Rightarrow> StoreRoot" where
  "truncate_file name n w =
     (let old = (case file_bytes name w of None \<Rightarrow> [] | Some old \<Rightarrow> old)
      in put_file name (take n old @ replicate (n - length old) 0) w)"

definition read_file :: "string \<Rightarrow> nat \<Rightarrow> StoreRoot \<Rightarrow> u8 list result" where
  "read_file name max_bytes w =
     (case file_bytes name w of
        None \<Rightarrow> Inl EC_IoError
      | Some bytes \<Rightarrow> if length bytes > max_bytes then Inl EC_CapacityExceeded else Inr bytes)"

definition write_file_atomic :: "string \<Rightarrow> u8 list \<Rightarrow> StoreRoot \<Rightarrow> StoreRoot" where
  "write_file_atomic name bytes w = put_file name bytes (remove_file (name @ ''.staging'') w)"

fun string_less :: "string \<Rightarrow> string \<Rightarrow> bool" where
  "string_less xs [] \<longleftrightarrow> False"
| "string_less [] (y # ys) \<longleftrightarrow> True"
| "string_less (x # xs) (y # ys) \<longleftrightarrow>
     (of_char x :: nat) < of_char y \<or> x = y \<and> string_less xs ys"

definition list_directory :: "StoreRoot \<Rightarrow> string list result" where
  "list_directory w =
     (if length (sr_files w) > kMaxCollectionItems then Inl EC_CapacityExceeded
      else Inr (sort_by string_less (map fst (sr_files w))))"

definition LockFile_acquire :: "string \<Rightarrow> StoreRoot \<Rightarrow> status \<times> StoreRoot" where
  "LockFile_acquire name w =
     (let w = open_append name w
      in if sr_locked w then (EC_AlreadyExists, w) else (EC_Ok, w\<lparr>sr_locked := True\<rparr>))"

definition LockFile_release :: "bool \<Rightarrow> StoreRoot \<Rightarrow> StoreRoot" where
  "LockFile_release held w = (if held then w\<lparr>sr_locked := False\<rparr> else w)"

section \<open>Directory laws\<close>

lemma file_bytes_put [simp]:
  "file_bytes name (put_file name' bytes w) = (if name = name' then Some bytes else file_bytes name w)"
  by (simp add: file_bytes_def put_file_def update_conv)

lemma file_bytes_remove [simp]:
  "file_bytes name (remove_file name' w) = (if name = name' then None else file_bytes name w)"
  by (simp add: file_bytes_def remove_file_def delete_conv)

lemma file_bytes_open_append:
  "file_bytes name (open_append name' w) =
     (if name = name' \<and> file_bytes name w = None then Some [] else file_bytes name w)"
  by (auto simp: open_append_def file_exists_def)

lemma file_bytes_write_all_to [simp]:
  "file_bytes name (write_all_to name' bytes w) =
     (if name = name' then Some ((case file_bytes name w of None \<Rightarrow> [] | Some old \<Rightarrow> old) @ bytes) else file_bytes name w)"
  by (simp add: write_all_to_def)

lemma file_bytes_write_file_atomic:
  "file_bytes name (write_file_atomic name' bytes w) =
     (if name = name' then Some bytes else if name = name' @ ''.staging'' then None else file_bytes name w)"
  by (simp add: write_file_atomic_def)

end
