(* ===== verification/Grant_Table.thy ===== *)
theory Grant_Table
  imports Restoration
begin

text \<open>
  The grant index of the coordinator: class \<open>GrantTable\<close> of \<open>include/dmf/runtime.hpp\<close>, implemented at the end of
  \<open>src/runtime/evidence_store.cpp\<close>. The hash map from identities to positions is an association list in insertion
  order, so that its size is a length; \<open>emplace\<close> does not overwrite.
\<close>

record GrantTable =
  gt_index :: "(u64 \<times> nat) list"
  gt_live_ids :: "u64 list"
  gt_max_live :: nat

definition new_grant_table :: "nat \<Rightarrow> GrantTable" where
  "new_grant_table max_live = \<lparr>gt_index = [], gt_live_ids = [], gt_max_live = max_live\<rparr>"

definition emplace :: "u64 \<Rightarrow> nat \<Rightarrow> (u64 \<times> nat) list \<Rightarrow> (u64 \<times> nat) list" where
  "emplace k i m = (case map_of m k of None \<Rightarrow> m @ [(k, i)] | Some _ \<Rightarrow> m)"

fun rebuild_loop :: "nat \<Rightarrow> Grant list \<Rightarrow> GrantTable \<Rightarrow> GrantTable" where
  "rebuild_loop i [] t = t"
| "rebuild_loop i (g # gs) t =
     rebuild_loop (Suc i) gs
       (t\<lparr>gt_index := emplace (gr_id g) i (gt_index t),
          gt_live_ids := gt_live_ids t @ (if Grant_live g then [gr_id g] else [])\<rparr>)"

definition GrantTable_rebuild :: "Grant list \<Rightarrow> GrantTable \<Rightarrow> GrantTable" where
  "GrantTable_rebuild gs t =
     (let t' = rebuild_loop 0 gs (t\<lparr>gt_index := [], gt_live_ids := []\<rparr>)
      in t'\<lparr>gt_live_ids := sort (gt_live_ids t')\<rparr>)"

definition note_insert :: "Grant \<Rightarrow> GrantTable \<Rightarrow> status \<times> GrantTable" where
  "note_insert g t =
     (if map_of (gt_index t) (gr_id g) \<noteq> None then (EC_AlreadyExists, t)
      else if Grant_live g \<and> length (gt_live_ids t) \<ge> gt_max_live t then (EC_Exhausted, t)
      else (EC_Ok, t\<lparr>gt_index := emplace (gr_id g) (length (gt_index t)) (gt_index t),
                     gt_live_ids := (if Grant_live g then sort (gt_live_ids t @ [gr_id g]) else gt_live_ids t)\<rparr>))"

text \<open>\<open>std::lower_bound\<close> on the sorted identities, and the erasure at that position.\<close>

definition lower_bound :: "u64 \<Rightarrow> u64 list \<Rightarrow> nat" where
  "lower_bound k ks = length (takeWhile (\<lambda>x. x < k) ks)"

definition note_transition :: "u64 \<Rightarrow> GrantState \<Rightarrow> GrantState \<Rightarrow> GrantTable \<Rightarrow> status \<times> GrantTable" where
  "note_transition k from_state to_state t =
     (if map_of (gt_index t) k = None then (EC_NotFound, t)
      else if grant_state_live from_state \<and> grant_state_terminal to_state then
        (let p = lower_bound k (gt_live_ids t)
         in (EC_Ok, if p < length (gt_live_ids t) \<and> gt_live_ids t ! p = k
                    then t\<lparr>gt_live_ids := take p (gt_live_ids t) @ drop (Suc p) (gt_live_ids t)\<rparr> else t))
      else (EC_Ok, t))"

definition GrantTable_find :: "GrantTable \<Rightarrow> Grant list \<Rightarrow> u64 \<Rightarrow> Grant option" where
  "GrantTable_find t gs k =
     (case map_of (gt_index t) k of
        None \<Rightarrow> None
      | Some p \<Rightarrow> if p \<ge> length gs then None else Some (gs ! p))"

definition live_count :: "GrantTable \<Rightarrow> nat" where
  "live_count t = length (gt_live_ids t)"

definition terminated_count :: "GrantTable \<Rightarrow> nat" where
  "terminated_count t = length (gt_index t) - length (gt_live_ids t)"

section \<open>Keeping the index in step with the durable table\<close>

definition in_step :: "GrantTable \<Rightarrow> Grant list \<Rightarrow> bool" where
  "in_step t gs \<longleftrightarrow>
     distinct (map gr_id gs) \<and> gt_index t = zip (map gr_id gs) [0..<length gs] \<and>
     gt_live_ids t = sort (map gr_id (filter Grant_live gs))"

definition find_by_id :: "Grant list \<Rightarrow> u64 \<Rightarrow> Grant option" where
  "find_by_id gs k = find_ptr (\<lambda>g. gr_id g = k) gs"

lemma rebuild_loop_result:
  assumes "distinct (map fst (gt_index t) @ map gr_id gs)"
  shows "rebuild_loop i gs t =
    t\<lparr>gt_index := gt_index t @ zip (map gr_id gs) [i..<i + length gs],
      gt_live_ids := gt_live_ids t @ map gr_id (filter Grant_live gs)\<rparr>"
  using assms
proof (induction gs arbitrary: i t)
  case (Cons g gs)
  have "map_of (gt_index t) (gr_id g) = None"
    using Cons.prems by (auto simp: map_of_eq_None_iff)
  moreover have "[i..<i + length (g # gs)] = i # [Suc i..<Suc i + length gs]"
    by (simp add: upt_rec)
  ultimately show ?case
    using Cons.prems by (simp add: Cons.IH emplace_def)
qed simp

lemma rebuild_in_step: "distinct (map gr_id gs) \<Longrightarrow> in_step (GrantTable_rebuild gs t) gs"
  by (simp add: GrantTable_rebuild_def Let_def rebuild_loop_result in_step_def)

lemma index_of_zip:
  assumes "distinct (map gr_id gs)" and "p < length gs"
  shows "map_of (zip (map gr_id gs) [0..<length gs]) (gr_id (gs ! p)) = Some p"
proof -
  have "(gr_id (gs ! p), p) \<in> set (zip (map gr_id gs) [0..<length gs])"
    using assms(2) by (auto simp: in_set_zip intro!: exI [of _ p])
  moreover have "distinct (map fst (zip (map gr_id gs) [0..<length gs]))"
    using assms(1) by simp
  ultimately show ?thesis
    by simp
qed

lemma find_in_step:
  assumes "in_step t gs"
  shows "GrantTable_find t gs k = find_by_id gs k"
proof (cases "k \<in> gr_id ` set gs")
  case True
  then obtain p where p: "p < length gs" "k = gr_id (gs ! p)"
    by (auto simp: in_set_conv_nth)
  have "GrantTable_find t gs k = Some (gs ! p)"
    using assms p index_of_zip [of gs p] by (simp add: in_step_def GrantTable_find_def)
  moreover have "find_by_id gs k = Some (gs ! p)"
    unfolding find_by_id_def p(2) using assms p(1) by (intro find_ptr_distinct) (simp_all add: in_step_def)
  ultimately show ?thesis by simp
next
  case False
  then have "map_of (gt_index t) k = None"
    using assms by (simp add: in_step_def)
  moreover have "find_by_id gs k = None"
    using False by (auto simp: find_by_id_def find_None_iff)
  ultimately show ?thesis by (simp add: GrantTable_find_def)
qed

lemma index_domain: "in_step t gs \<Longrightarrow> map_of (gt_index t) k = None \<longleftrightarrow> k \<notin> gr_id ` set gs"
  by (simp add: in_step_def map_of_eq_None_iff flip: set_map)

lemma insert_in_step:
  assumes "in_step t gs" and "note_insert g t = (EC_Ok, t')"
  shows "in_step t' (gs @ [g])"
proof -
  have new: "gr_id g \<notin> gr_id ` set gs"
    using assms index_domain [OF assms(1)] by (auto simp: note_insert_def split: if_splits)
  moreover have "emplace (gr_id g) n (gt_index t) = gt_index t @ [(gr_id g, n)]" for n
    using new index_domain [OF assms(1), of "gr_id g"] by (simp add: emplace_def split: option.split)
  moreover have "zip (map gr_id (gs @ [g])) [0..<length (gs @ [g])] =
      zip (map gr_id gs) [0..<length gs] @ [(gr_id g, length gs)]"
    by simp
  ultimately show ?thesis
    using assms by (auto simp: note_insert_def in_step_def intro!: sort_mset split: if_splits)
qed


lemma erase_lower_bound:
  assumes "sorted ks" and "distinct ks" and "k \<in> set ks"
  shows "lower_bound k ks < length ks" "ks ! lower_bound k ks = k"
    "take (lower_bound k ks) ks @ drop (Suc (lower_bound k ks)) ks = remove1 k ks"
  using assms unfolding lower_bound_def
  by (induction ks) (auto simp: order.strict_iff_order)

definition move_grant :: "u64 \<Rightarrow> (Grant \<Rightarrow> Grant) \<Rightarrow> Grant list \<Rightarrow> Grant list" where
  "move_grant k f gs = assign_first (\<lambda>g. gr_id g = k) f gs"

lemma live_after_move:
  assumes "distinct (map gr_id gs)" and "\<And>h. gr_id (f h) = gr_id h" and "g \<in> set gs" and "Grant_live g"
  shows "mset (map gr_id (filter Grant_live (move_grant (gr_id g) f gs))) =
    (if Grant_live (f g) then mset (map gr_id (filter Grant_live gs))
     else mset (map gr_id (filter Grant_live gs)) - {#gr_id g#})"
  using assms(1,3,4)
proof (induction gs)
  case (Cons h gs)
  show ?case
  proof (cases "h = g")
    case True
    then show ?thesis using Cons.prems assms(2) by (auto simp: move_grant_def)
  next
    case False
    then have "gr_id h \<noteq> gr_id g" "g \<in> set gs"
      using Cons.prems by auto
    moreover have "gr_id g \<in># mset (map gr_id (filter Grant_live gs))"
      using Cons.prems \<open>g \<in> set gs\<close> by auto
    ultimately show ?thesis using Cons by (auto simp: move_grant_def)
  qed
qed simp

lemma transition_in_step:
  assumes "in_step t gs" and "g \<in> set gs" and "grant_transition_allowed (gr_state g) to_state"
    and "\<And>h. gr_id (f h) = gr_id h" and "gr_state (f g) = to_state"
  shows "fst (note_transition (gr_id g) (gr_state g) to_state t) = EC_Ok"
    and "in_step (snd (note_transition (gr_id g) (gr_state g) to_state t)) (move_grant (gr_id g) f gs)"
proof -
  let ?live = "map gr_id (filter Grant_live gs)"
  have d: "distinct (map gr_id gs)" and live: "Grant_live g"
    using assms(1,3) transition_from_live by (auto simp: in_step_def Grant_live_def)
  have known: "map_of (gt_index t) (gr_id g) \<noteq> None"
    using index_domain [OF assms(1)] assms(2) by blast
  then show "fst (note_transition (gr_id g) (gr_state g) to_state t) = EC_Ok"
    by (auto simp: note_transition_def Let_def)
  have keys: "map gr_id (move_grant (gr_id g) f gs) = map gr_id gs" "length (move_grant (gr_id g) f gs) = length gs"
    using assms(4) by (simp_all add: move_grant_def assign_first_keys)
  note moved = live_after_move [OF d assms(4) assms(2) live]
  have "distinct ?live"
    using d by (simp add: distinct_map_filter)
  moreover have "gr_id g \<in> set ?live"
    using assms(2) live by auto
  ultimately have erased: "sort (map gr_id (filter Grant_live (move_grant (gr_id g) f gs))) =
      take (lower_bound (gr_id g) (sort ?live)) (sort ?live) @ drop (Suc (lower_bound (gr_id g) (sort ?live))) (sort ?live)"
    if "grant_state_terminal to_state"
    using that moved assms(5) by (subst erase_lower_bound(3))
      (auto simp: Grant_live_def grant_state_live_def intro!: properties_for_sort sorted_remove1)
  have "sort (map gr_id (filter Grant_live (move_grant (gr_id g) f gs))) = sort ?live" if "\<not> grant_state_terminal to_state"
    using that moved assms(5) by (intro sort_mset) (simp add: Grant_live_def grant_state_live_def)
  then show "in_step (snd (note_transition (gr_id g) (gr_state g) to_state t)) (move_grant (gr_id g) f gs)"
    using known assms(1) live erased keys d erase_lower_bound(1,2) [of "sort ?live" "gr_id g"] \<open>distinct ?live\<close> \<open>gr_id g \<in> set ?live\<close>
    by (auto simp: note_transition_def Let_def in_step_def Grant_live_def)
qed


section \<open>Properties\<close>

text \<open>
  How the coordinator drives the index beside the durable table: it is rebuilt from the table, told of every grant
  appended to it and of every legal transition of a grant in it. \<open>f\<close> is what the durable table does to the
  grant; it keeps the identity.
\<close>

inductive tracked :: "GrantTable \<Rightarrow> Grant list \<Rightarrow> bool" where
  built: "distinct (map gr_id gs) \<Longrightarrow> tracked (GrantTable_rebuild gs t) gs"
| issued: "tracked t gs \<Longrightarrow> note_insert g t = (EC_Ok, t') \<Longrightarrow> tracked t' (gs @ [g])"
| moved: "tracked t gs \<Longrightarrow> g \<in> set gs \<Longrightarrow> grant_transition_allowed (gr_state g) to_state \<Longrightarrow>
    (\<And>h. gr_id (f h) = gr_id h) \<Longrightarrow> gr_state (f g) = to_state \<Longrightarrow>
    tracked (snd (note_transition (gr_id g) (gr_state g) to_state t)) (move_grant (gr_id g) f gs)"

lemma tracked_in_step: "tracked t gs \<Longrightarrow> in_step t gs"
  by (induction rule: tracked.induct) (auto intro: rebuild_in_step insert_in_step transition_in_step)

text \<open>
  The grant index is a faithful projection of the durable table. As long as it is rebuilt, extended and
  moved together with the table, a lookup through it returns exactly the grant with that identity, and the
  live and terminated counts it reports are those of the table.
\<close>

theorem grant_index_faithful:
  assumes "tracked t gs"
  shows "GrantTable_find t gs k = find_by_id gs k \<and>
    live_count t = length (filter Grant_live gs) \<and>
    terminated_count t = length (filter (\<lambda>g. \<not> Grant_live g) gs) \<and>
    set (gt_live_ids t) = gr_id ` {g \<in> set gs. Grant_live g}"
proof -
  have "length gs = length (filter Grant_live gs) + length (filter (\<lambda>g. \<not> Grant_live g) gs)"
    by (simp add: sum_length_filter_compl)
  then show ?thesis
    using tracked_in_step [OF assms] find_in_step [of t gs k]
    by (auto simp: in_step_def live_count_def terminated_count_def)
qed

theorem grant_index_faithful_witness:
  "GrantTable_find (snd (note_insert (sample_grant\<lparr>gr_id := 5\<rparr>) (GrantTable_rebuild [sample_grant] (new_grant_table 4))))
     [sample_grant, sample_grant\<lparr>gr_id := 5\<rparr>] 5 = Some (sample_grant\<lparr>gr_id := 5\<rparr>)"
proof -
  let ?t = "GrantTable_rebuild [sample_grant] (new_grant_table 4)" and ?g = "sample_grant\<lparr>gr_id := 5\<rparr>"
  have "note_insert ?g ?t = (EC_Ok, snd (note_insert ?g ?t))"
    by (simp add: note_insert_def GrantTable_rebuild_def Let_def emplace_def new_grant_table_def sample_grant_def)
  then have "tracked (snd (note_insert ?g ?t)) ([sample_grant] @ [?g])"
    by (intro tracked.issued [OF tracked.built]) simp_all
  from grant_index_faithful [OF this, of 5] show ?thesis
    by (simp add: find_by_id_def sample_grant_def)
qed

end
