(* ===== verification/Store_Records.thy ===== *)
theory Store_Records
  imports Durable_State Grant_Table
begin

text \<open>
  The durable records: what a record's payload holds, how it is decoded, how it changes the durable state
  (\<open>apply_record\<close>, used for live mutation and for replay alike) and the bounded retention of \<open>prune\<close>
  (\<open>src/store/state_store.cpp\<close>). The accounting facade of the store points at the counters inside the state, so
  the operations take and return one state.
\<close>

section \<open>Payloads\<close>

definition new_contract :: ServiceContract where
  "new_contract = \<lparr>sc_id = 0, sc_generation = 0, sc_scope = 0, sc_subject = 0, sc_subject_generation = 0,
     sc_service_class = SC_Standard, sc_non_degradable = False, sc_priority = 0, sc_original = [],
     sc_envelope = empty_envelope, sc_registered_tick = 0, sc_active = True\<rparr>"

definition new_item :: EvidenceItem where
  "new_item = \<lparr>ei_id = 0, ei_publisher = 0, ei_publisher_boot = 0, ei_generation = 0, ei_kind = EK_FabricTopology,
     ei_scope = 0, ei_state = ES_Unknown, ei_value = 0, ei_observed_tick = 0, ei_origin = OC_Unspecified\<rparr>"

definition new_fence :: FenceRecord where
  "new_fence = \<lparr>fr_id = 0, fr_grant = 0, fr_reason = FR_Manual, fr_delta = AD_None, fr_prior = no_binding,
     fr_current = no_binding, fr_fenced_tick = 0\<rparr>"

definition new_grant :: Grant where
  "new_grant = \<lparr>gr_id = 0, gr_decision = 0, gr_binding = no_binding, gr_service_class = SC_Standard,
     gr_protected_obligation = False, gr_original = [], gr_degraded = [], gr_delta = empty_delta,
     gr_reason = RC_None, gr_evidence = new_evidence_vector kMaxCollectionItems, gr_evidence_state = ES_Unknown,
     gr_preconditions = [], gr_sequence = 0, gr_last_attempt = 0, gr_issued_tick = 0, gr_expires_tick = 0,
     gr_last_transition_tick = 0, gr_state = GS_Issued, gr_provenance = PC_Synthetic\<rparr>"

record RecordPayload =
  rp_contract :: ServiceContract
  rp_grant :: Grant
  rp_fence :: FenceRecord
  rp_decision :: Decision
  rp_evidence :: EvidenceItem
  rp_restoration :: RestorationEvaluation
  rp_policy :: Policy
  rp_counters :: AccountingCounters
  rp_binding :: AuthorityBinding
  rp_id :: u64
  rp_sequence :: u64
  rp_attempt :: u64
  rp_tick :: tick
  rp_value :: u64

definition new_payload :: RecordPayload where
  "new_payload = \<lparr>rp_contract = new_contract, rp_grant = new_grant, rp_fence = new_fence, rp_decision = new_decision,
     rp_evidence = new_item, rp_restoration = new_restoration, rp_policy = empty_policy 0 0,
     rp_counters = no_counters, rp_binding = no_binding, rp_id = 0, rp_sequence = 0, rp_attempt = 0,
     rp_tick = 0, rp_value = 0\<rparr>"

definition payload_id :: "RecordPayload decoder" where
  "payload_id = dec_field ByteReader_u64 (\<lambda>i. dec_ok (dec_return (new_payload\<lparr>rp_id := i\<rparr>)))"

definition payload_sequence :: "RecordPayload decoder" where
  "payload_sequence = dec_field ByteReader_u64 (\<lambda>n. dec_ok (dec_return (new_payload\<lparr>rp_sequence := n\<rparr>)))"

definition payload_move :: "RecordPayload decoder" where
  "payload_move =
     dec_field ByteReader_u64 (\<lambda>i.
     dec_field ByteReader_u64 (\<lambda>t.
     dec_field ByteReader_u64 (\<lambda>a.
     dec_field ByteReader_u64 (\<lambda>n.
     dec_ok (dec_return (new_payload\<lparr>rp_id := i, rp_tick := t, rp_attempt := a, rp_sequence := n\<rparr>))))))"

definition payload_fence :: "RecordPayload decoder" where
  "payload_fence = dec_sub decode_FenceRecord (\<lambda>f. dec_return (new_payload\<lparr>rp_fence := f\<rparr>))"

primrec decode_record_payload :: "RecordType \<Rightarrow> RecordPayload decoder" where
  "decode_record_payload RT_ContractRegistered =
     dec_sub decode_ServiceContract (\<lambda>c. dec_return (new_payload\<lparr>rp_contract := c\<rparr>))"
| "decode_record_payload RT_ContractRetired = payload_id"
| "decode_record_payload RT_TornTailObserved = payload_id"
| "decode_record_payload RT_PolicyInstalled =
     dec_sub decode_Policy (\<lambda>p. dec_return (new_payload\<lparr>rp_policy := p\<rparr>))"
| "decode_record_payload RT_FabricGenerationAdvanced = payload_sequence"
| "decode_record_payload RT_CapacityGenerationAdvanced = payload_sequence"
| "decode_record_payload RT_EvidenceGenerationAdvanced = payload_sequence"
| "decode_record_payload RT_CoordinatorTermAdvanced = payload_sequence"
| "decode_record_payload RT_EvidencePublished =
     dec_sub decode_EvidenceItem (\<lambda>i. dec_return (new_payload\<lparr>rp_evidence := i\<rparr>))"
| "decode_record_payload RT_GrantIssued =
     dec_sub decode_Grant (\<lambda>g. dec_return (new_payload\<lparr>rp_grant := g\<rparr>))"
| "decode_record_payload RT_GrantAcknowledged = payload_move"
| "decode_record_payload RT_GrantApplied = payload_move"
| "decode_record_payload RT_GrantFenced = payload_fence"
| "decode_record_payload RT_GrantExpired = payload_fence"
| "decode_record_payload RT_GrantRevoked = payload_fence"
| "decode_record_payload RT_GrantRebound =
     dec_field ByteReader_u64 (\<lambda>i.
     dec_sub decode_AuthorityBinding (\<lambda>b.
     dec_ok (dec_return (new_payload\<lparr>rp_id := i, rp_binding := b\<rparr>))))"
| "decode_record_payload RT_DecisionRecorded =
     dec_sub decode_Decision (\<lambda>d. dec_return (new_payload\<lparr>rp_decision := d\<rparr>))"
| "decode_record_payload RT_BootAdvanced =
     dec_field ByteReader_u64 (\<lambda>i.
     dec_field ByteReader_u64 (\<lambda>n.
     dec_field ByteReader_u64 (\<lambda>t.
     dec_ok (dec_return (new_payload\<lparr>rp_id := i, rp_sequence := n, rp_tick := t\<rparr>)))))"
| "decode_record_payload RT_RestorationProven =
     dec_sub decode_RestorationEvaluation (\<lambda>e.
     dec_guard (\<not> re_outcome e \<noteq> RO_Proven) (dec_return (new_payload\<lparr>rp_restoration := e\<rparr>)))"
| "decode_record_payload RT_RestorationRefused =
     dec_sub decode_RestorationEvaluation (\<lambda>e. dec_return (new_payload\<lparr>rp_restoration := e\<rparr>))"
| "decode_record_payload RT_AccountingCheckpoint =
     dec_sub decode_AccountingCounters (\<lambda>c. dec_return (new_payload\<lparr>rp_counters := c\<rparr>))"

section \<open>Applying a record\<close>

text \<open>The store's accounting facade: its block is the one inside the state.\<close>

definition acct :: "(Accounting \<Rightarrow> status \<times> Accounting) \<Rightarrow> DurableState \<Rightarrow> status \<times> DurableState" where
  "acct f s = (case f \<lparr>at_counters = ds_counters s, at_writable = True\<rparr> of
                 (e, a) \<Rightarrow> (e, s\<lparr>ds_counters := at_counters a\<rparr>))"

definition find_grant :: "DurableState \<Rightarrow> u64 \<Rightarrow> Grant option" where
  "find_grant s k = find_ptr (\<lambda>g. gr_id g = k) (ds_grants s)"

definition assign_grant :: "u64 \<Rightarrow> (Grant \<Rightarrow> Grant) \<Rightarrow> DurableState \<Rightarrow> DurableState" where
  "assign_grant k f s = s\<lparr>ds_grants := assign_first (\<lambda>g. gr_id g = k) f (ds_grants s)\<rparr>"

definition moved_grant :: "GrantState \<Rightarrow> tick \<Rightarrow> u64 \<Rightarrow> u64 \<Rightarrow> Grant \<Rightarrow> Grant" where
  "moved_grant next_state t attempt sequence g =
     (let g = g\<lparr>gr_state := next_state, gr_last_transition_tick := t\<rparr>;
          g = (if valid_id attempt then g\<lparr>gr_last_attempt := attempt\<rparr> else g)
      in if valid_id sequence then g\<lparr>gr_sequence := sequence\<rparr> else g)"

definition transition_grant ::
    "u64 \<Rightarrow> GrantState \<Rightarrow> tick \<Rightarrow> u64 \<Rightarrow> u64 \<Rightarrow> DurableState \<Rightarrow> status \<times> DurableState" where
  "transition_grant k next_state t attempt sequence s =
     (case find_grant s k of
        None \<Rightarrow> (EC_NotFound, s)
      | Some g \<Rightarrow>
          if \<not> grant_transition_allowed (gr_state g) next_state then (EC_InvalidState, s)
          else (EC_Ok, assign_grant k (moved_grant next_state t attempt sequence) s))"

definition register_record :: "ServiceContract \<Rightarrow> StoreConfig \<Rightarrow> DurableState \<Rightarrow> status \<times> DurableState" where
  "register_record c cfg s =
     (if list_ex (\<lambda>x. sc_id x = sc_id c) (ds_contracts s)
      then (EC_Ok, s\<lparr>ds_contracts := assign_first (\<lambda>x. sc_id x = sc_id c) (\<lambda>_. c) (ds_contracts s)\<rparr>)
      else if length (ds_contracts s) \<ge> so_max_retained_contracts cfg then (EC_CapacityExceeded, s)
      else (EC_Ok, s\<lparr>ds_contracts := ds_contracts s @ [c]\<rparr>))"

definition retire_record :: "u64 \<Rightarrow> DurableState \<Rightarrow> status \<times> DurableState" where
  "retire_record k s =
     (if list_ex (\<lambda>x. sc_id x = k) (ds_contracts s)
      then (EC_Ok, s\<lparr>ds_contracts := assign_first (\<lambda>x. sc_id x = k) (\<lambda>x. x\<lparr>sc_active := False\<rparr>) (ds_contracts s)\<rparr>)
      else (EC_NotFound, s))"

definition evidence_record :: "EvidenceItem \<Rightarrow> DurableState \<Rightarrow> status \<times> DurableState" where
  "evidence_record i s =
     (case EvidenceVector_push i (ds_historical_evidence s) of
        Inl e \<Rightarrow> (e, s)
      | Inr pushed \<Rightarrow>
         (case EvidenceVector_normalize pushed of
            Inl e \<Rightarrow> (e, s\<lparr>ds_historical_evidence :=
                               pushed\<lparr>ev_items := sort_by evidence_item_less (ev_items pushed)\<rparr>\<rparr>)
          | Inr normal \<Rightarrow>
             (EC_Ok, s\<lparr>ds_historical_evidence := normal,
                       ds_evidence_generation :=
                         (if ei_generation i > ds_evidence_generation s then ei_generation i else ds_evidence_generation s),
                       ds_evidence_id_high_water :=
                         (if ei_id i > ds_evidence_id_high_water s then ei_id i else ds_evidence_id_high_water s)\<rparr>)))"

definition issue_record :: "Grant \<Rightarrow> StoreConfig \<Rightarrow> DurableState \<Rightarrow> status \<times> DurableState" where
  "issue_record g cfg s =
     (if list_ex (\<lambda>x. gr_id x = gr_id g) (ds_grants s) then (EC_AlreadyExists, s)
      else if live_grant_count s \<ge> so_max_retained_grants cfg then (EC_CapacityExceeded, s)
      else acct record_grant_issued
             (s\<lparr>ds_grants := ds_grants s @ [g],
                ds_grant_id_high_water :=
                  (if gr_id g > ds_grant_id_high_water s then gr_id g else ds_grant_id_high_water s)\<rparr>))"

definition add_fence :: "FenceRecord \<Rightarrow> DurableState \<Rightarrow> status \<times> DurableState" where
  "add_fence f s =
     (EC_Ok, s\<lparr>ds_fences := ds_fences s @ [f],
               ds_fence_id_high_water := (if fr_id f > ds_fence_id_high_water s then fr_id f else ds_fence_id_high_water s)\<rparr>)"

definition count_end :: "GrantState \<Rightarrow> Accounting \<Rightarrow> status \<times> Accounting" where
  "count_end next_state =
     (case next_state of
        GS_Fenced \<Rightarrow> record_grant_fenced
      | GS_Expired \<Rightarrow> record_grant_expired
      | GS_Revoked \<Rightarrow> record_grant_revoked
      | _ \<Rightarrow> Pair EC_Ok)"

definition fence_record :: "GrantState \<Rightarrow> FenceRecord \<Rightarrow> DurableState \<Rightarrow> status \<times> DurableState" where
  "fence_record next_state f =
     status_then (transition_grant (fr_grant f) next_state (fr_fenced_tick f) 0 0)
    (status_then (add_fence f)
    (status_then (acct (record_fences 1))
       (acct (count_end next_state))))"

definition same_obligation :: "AuthorityBinding \<Rightarrow> AuthorityBinding \<Rightarrow> bool" where
  "same_obligation a b \<longleftrightarrow>
     \<not> (ab_contract a \<noteq> ab_contract b \<or> ab_contract_generation a \<noteq> ab_contract_generation b \<or>
        ab_subject a \<noteq> ab_subject b \<or> ab_subject_generation a \<noteq> ab_subject_generation b \<or>
        ab_scope a \<noteq> ab_scope b)"

definition rebind_record :: "u64 \<Rightarrow> AuthorityBinding \<Rightarrow> DurableState \<Rightarrow> status \<times> DurableState" where
  "rebind_record k b s =
     (case find_grant s k of
        None \<Rightarrow> (EC_NotFound, s)
      | Some g \<Rightarrow>
          if \<not> Grant_live g then (EC_InvalidState, s)
          else if \<not> same_obligation (gr_binding g) b then (EC_Invalid, s)
          else (EC_Ok, assign_grant k (\<lambda>g. g\<lparr>gr_binding := b\<rparr>) s))"

definition decision_record :: "Decision \<Rightarrow> DurableState \<Rightarrow> status \<times> DurableState" where
  "decision_record d s =
     acct (record_decision (de_outcome d))
       (s\<lparr>ds_decisions := ds_decisions s @ [d],
          ds_decision_id_high_water :=
            (if de_id d > ds_decision_id_high_water s then de_id d else ds_decision_id_high_water s)\<rparr>)"

definition boot_record :: "u64 \<Rightarrow> u64 \<Rightarrow> tick \<Rightarrow> DurableState \<Rightarrow> status \<times> DurableState" where
  "boot_record boot trm t s =
     (if \<not> valid_id boot \<or> \<not> valid_id trm then (EC_Invalid, s)
      else if valid_id (ds_boot s) \<and> boot \<le> ds_boot s then (EC_SequenceRegression, s)
      else if valid_id (ds_term s) \<and> trm < ds_term s then (EC_SequenceRegression, s)
      else let s = s\<lparr>ds_boot := boot, ds_term := trm, ds_last_commit_tick := t\<rparr>
           in case checked_add (ds_boot_count s) 1 of
                None \<Rightarrow> (EC_Overflow, s)
              | Some n \<Rightarrow> status_then (acct record_boot) (acct record_term_advance) (s\<lparr>ds_boot_count := n\<rparr>))"

definition term_record :: "u64 \<Rightarrow> DurableState \<Rightarrow> status \<times> DurableState" where
  "term_record trm s =
     (if \<not> valid_id trm then (EC_Invalid, s)
      else if valid_id (ds_term s) \<and> trm \<le> ds_term s then (EC_SequenceRegression, s)
      else acct record_term_advance (s\<lparr>ds_term := trm\<rparr>))"

primrec apply_record :: "RecordType \<Rightarrow> RecordPayload \<Rightarrow> StoreConfig \<Rightarrow> DurableState \<Rightarrow> status \<times> DurableState" where
  "apply_record RT_ContractRegistered p cfg s = register_record (rp_contract p) cfg s"
| "apply_record RT_ContractRetired p cfg s = retire_record (rp_id p) s"
| "apply_record RT_PolicyInstalled p cfg s = (EC_Ok, s\<lparr>ds_policy := rp_policy p\<rparr>)"
| "apply_record RT_FabricGenerationAdvanced p cfg s = (EC_Ok, s\<lparr>ds_fabric_generation := rp_sequence p\<rparr>)"
| "apply_record RT_CapacityGenerationAdvanced p cfg s = (EC_Ok, s\<lparr>ds_capacity_generation := rp_sequence p\<rparr>)"
| "apply_record RT_EvidenceGenerationAdvanced p cfg s = (EC_Ok, s\<lparr>ds_evidence_generation := rp_sequence p\<rparr>)"
| "apply_record RT_EvidencePublished p cfg s = evidence_record (rp_evidence p) s"
| "apply_record RT_GrantIssued p cfg s = issue_record (rp_grant p) cfg s"
| "apply_record RT_GrantAcknowledged p cfg s =
     status_then (transition_grant (rp_id p) GS_Acknowledged (rp_tick p) (rp_attempt p) (rp_sequence p))
       (acct record_grant_acknowledged) s"
| "apply_record RT_GrantApplied p cfg s =
     status_then (transition_grant (rp_id p) GS_Applied (rp_tick p) (rp_attempt p) (rp_sequence p))
       (acct record_grant_applied) s"
| "apply_record RT_GrantFenced p cfg s = fence_record GS_Fenced (rp_fence p) s"
| "apply_record RT_GrantExpired p cfg s = fence_record GS_Expired (rp_fence p) s"
| "apply_record RT_GrantRevoked p cfg s = fence_record GS_Revoked (rp_fence p) s"
| "apply_record RT_GrantRebound p cfg s = rebind_record (rp_id p) (rp_binding p) s"
| "apply_record RT_DecisionRecorded p cfg s = decision_record (rp_decision p) s"
| "apply_record RT_BootAdvanced p cfg s = boot_record (rp_id p) (rp_sequence p) (rp_tick p) s"
| "apply_record RT_CoordinatorTermAdvanced p cfg s = term_record (rp_sequence p) s"
| "apply_record RT_TornTailObserved p cfg s = acct record_torn_tail s"
| "apply_record RT_RestorationProven p cfg s = (EC_Ok, s\<lparr>ds_restorations := ds_restorations s @ [rp_restoration p]\<rparr>)"
| "apply_record RT_RestorationRefused p cfg s = (EC_Ok, s\<lparr>ds_restorations := ds_restorations s @ [rp_restoration p]\<rparr>)"
| "apply_record RT_AccountingCheckpoint p cfg s = acct (Accounting_replace (rp_counters p)) s"

section \<open>Retention\<close>

text \<open>
  The sorts below break ties by identity; only two restorations of the same grant at the same tick compare
  equal, for which \<open>std::sort\<close> leaves the order open and the model keeps the order of insertion.
\<close>

definition newest_grant_less :: "Grant \<Rightarrow> Grant \<Rightarrow> bool" where
  "newest_grant_less a b \<longleftrightarrow>
     (if gr_last_transition_tick a \<noteq> gr_last_transition_tick b
      then gr_last_transition_tick a > gr_last_transition_tick b else gr_id a > gr_id b)"

definition grant_id_less :: "Grant \<Rightarrow> Grant \<Rightarrow> bool" where
  "grant_id_less a b \<longleftrightarrow> gr_id a < gr_id b"

definition prune_grants :: "StoreConfig \<Rightarrow> DurableState \<Rightarrow> status \<times> DurableState" where
  "prune_grants cfg s =
     (let live = live_grant_count s;
          budget = (if so_max_retained_grants cfg > live then so_max_retained_grants cfg - live else 0);
          retained_live = filter Grant_live (ds_grants s);
          ended = sort_by newest_grant_less (filter (\<lambda>g. \<not> Grant_live g) (ds_grants s));
          store = (\<lambda>kept s. (EC_Ok, s\<lparr>ds_grants := sort_by grant_id_less (retained_live @ kept)\<rparr>))
      in if length ended > budget
         then status_then (acct (record_grant_pruned (of_nat (length ended - budget)))) (store (take budget ended)) s
         else store ended s)"

definition newest_fence_less :: "FenceRecord \<Rightarrow> FenceRecord \<Rightarrow> bool" where
  "newest_fence_less a b \<longleftrightarrow>
     (if fr_fenced_tick a \<noteq> fr_fenced_tick b then fr_fenced_tick a > fr_fenced_tick b else fr_id a > fr_id b)"

definition fence_id_less :: "FenceRecord \<Rightarrow> FenceRecord \<Rightarrow> bool" where
  "fence_id_less a b \<longleftrightarrow> fr_id a < fr_id b"

definition prune_fences :: "StoreConfig \<Rightarrow> DurableState \<Rightarrow> status \<times> DurableState" where
  "prune_fences cfg s =
     (let bound = so_max_retained_fences cfg
      in if length (ds_fences s) > bound
         then acct (record_fences_pruned (of_nat (length (ds_fences s) - bound)))
                (s\<lparr>ds_fences := sort_by fence_id_less (take bound (sort_by newest_fence_less (ds_fences s)))\<rparr>)
         else (EC_Ok, s))"

definition newest_decision_less :: "Decision \<Rightarrow> Decision \<Rightarrow> bool" where
  "newest_decision_less a b \<longleftrightarrow>
     (if de_decided_tick a \<noteq> de_decided_tick b then de_decided_tick a > de_decided_tick b else de_id a > de_id b)"

definition decision_id_less :: "Decision \<Rightarrow> Decision \<Rightarrow> bool" where
  "decision_id_less a b \<longleftrightarrow> de_id a < de_id b"

definition prune_decisions :: "StoreConfig \<Rightarrow> DurableState \<Rightarrow> status \<times> DurableState" where
  "prune_decisions cfg s =
     (let bound = so_max_retained_decisions cfg
      in (EC_Ok, if length (ds_decisions s) > bound
                 then s\<lparr>ds_decisions := sort_by decision_id_less (take bound (sort_by newest_decision_less (ds_decisions s)))\<rparr>
                 else s))"

definition newest_restoration_less :: "RestorationEvaluation \<Rightarrow> RestorationEvaluation \<Rightarrow> bool" where
  "newest_restoration_less a b \<longleftrightarrow>
     (if re_evaluated_tick a \<noteq> re_evaluated_tick b then re_evaluated_tick a > re_evaluated_tick b
      else re_grant a > re_grant b)"

definition prune_restorations :: "StoreConfig \<Rightarrow> DurableState \<Rightarrow> status \<times> DurableState" where
  "prune_restorations cfg s =
     (let bound = so_max_retained_decisions cfg
      in (EC_Ok, if length (ds_restorations s) > bound
                 then s\<lparr>ds_restorations := take bound (sort_by newest_restoration_less (ds_restorations s))\<rparr>
                 else s))"

definition newest_evidence_less :: "EvidenceItem \<Rightarrow> EvidenceItem \<Rightarrow> bool" where
  "newest_evidence_less a b \<longleftrightarrow>
     (if ei_observed_tick a \<noteq> ei_observed_tick b then ei_observed_tick a > ei_observed_tick b else ei_id a > ei_id b)"

definition prune_evidence :: "StoreConfig \<Rightarrow> DurableState \<Rightarrow> status \<times> DurableState" where
  "prune_evidence cfg s =
     (let bound = so_max_retained_evidence cfg
      in if length (ev_items (ds_historical_evidence s)) \<ge> bound
         then let keep = (if bound > 4 then size_mul bound 3 div 4 else 0);
                  items = take keep (sort_by newest_evidence_less (ev_items (ds_historical_evidence s)))
              in case add_all EvidenceVector_push items (new_evidence_vector (length items + 1)) of
                   Inl e \<Rightarrow> (e, s)
                 | Inr rebuilt \<Rightarrow>
                    (case EvidenceVector_normalize rebuilt of
                       Inl e \<Rightarrow> (e, s)
                     | Inr normal \<Rightarrow> (EC_Ok, s\<lparr>ds_historical_evidence := normal\<rparr>))
         else (EC_Ok, s))"

definition prune :: "StoreConfig \<Rightarrow> DurableState \<Rightarrow> status \<times> DurableState" where
  "prune cfg =
     status_then (prune_grants cfg) (status_then (prune_fences cfg) (status_then (prune_decisions cfg)
       (status_then (prune_restorations cfg) (prune_evidence cfg))))"

end
