(* ===== verification/Store_Ledger.thy ===== *)
theory Store_Ledger
  imports Store_Records
begin

text \<open>
  The accounting identities of the durable state: a ledger over the natural numbers that every record of the runtime, the
  retention and the counted events keep, and from which the closure check of the code follows.
\<close>

section \<open>Counting grants through a change\<close>

lemma count_assign_first:
  "find_ptr P xs = Some x \<Longrightarrow>
   length (filter Q (assign_first P f xs)) + (if Q x then 1 else 0) = length (filter Q xs) + (if Q (f x) then 1 else 0)"
  by (induction xs) (auto split: if_splits)

lemma acct_bump:
  "acct (bump get upd d) s = (EC_Ok, s') \<longleftrightarrow>
   unat (get (ds_counters s)) + unat d < 2 ^ 64 \<and>
   s' = s\<lparr>ds_counters := upd (\<lambda>_. get (ds_counters s) + d) (ds_counters s)\<rparr>"
  by (auto simp: acct_def bump_def checked_add_def checked_add_overflow_iff)

lemma status_then_Ok: "status_then f g s = (EC_Ok, s') \<longleftrightarrow> (\<exists>m. f s = (EC_Ok, m) \<and> g m = (EC_Ok, s'))"
  by (auto simp: status_then_def split: prod.splits)

definition in_state :: "GrantState \<Rightarrow> DurableState \<Rightarrow> nat" where
  "in_state st s = length (filter (\<lambda>g. gr_state g = st) (ds_grants s))"

lemma moved_grant_fields [simp]:
  "gr_id (moved_grant n t a q g) = gr_id g" "gr_state (moved_grant n t a q g) = n"
  "gr_original (moved_grant n t a q g) = gr_original g" "gr_degraded (moved_grant n t a q g) = gr_degraded g"
  "gr_binding (moved_grant n t a q g) = gr_binding g" "gr_decision (moved_grant n t a q g) = gr_decision g"
  by (simp_all add: moved_grant_def Let_def)

lemma transition_Ok:
  "transition_grant k n t a q s = (EC_Ok, s') \<longleftrightarrow>
   (\<exists>g. find_grant s k = Some g \<and> grant_transition_allowed (gr_state g) n \<and>
        s' = assign_grant k (moved_grant n t a q) s)"
  by (auto simp: transition_grant_def split: option.splits if_splits)

section \<open>The ledger\<close>

text \<open>
  The closure identities over the natural numbers, with the two facts that make them inductive: a grant still
  in \<open>Issued\<close> has not been counted as acknowledged, one in \<open>Acknowledged\<close> has not been counted as applied. The parameter
  \<open>early\<close> is the number of grants that were reported applied without an acknowledgement before.
\<close>

definition ended_count :: "AccountingCounters \<Rightarrow> nat" where
  "ended_count c = unat (ac_grants_fenced c) + unat (ac_grants_expired c) + unat (ac_grants_revoked c)"

definition ledger :: "nat \<Rightarrow> DurableState \<Rightarrow> bool" where
  "ledger early s \<longleftrightarrow>
     (let c = ds_counters s in
      unat (ac_grants_issued c) = live_grant_count s + terminated_grant_count s + unat (ac_grants_pruned c) \<and>
      ended_count c = terminated_grant_count s + unat (ac_grants_pruned c) \<and>
      unat (ac_fences_total c) = length (ds_fences s) + unat (ac_fences_pruned c) \<and>
      ended_count c \<le> unat (ac_fences_total c) \<and>
      unat (ac_grants_acknowledged c) + in_state GS_Issued s \<le> unat (ac_grants_issued c) \<and>
      unat (ac_grants_applied c) + in_state GS_Acknowledged s \<le> unat (ac_grants_acknowledged c) + early \<and>
      well_counted c \<and> ac_sessions_closed c \<le> ac_sessions_opened c)"

definition closure_inputs :: "DurableState \<Rightarrow> ClosureInputs" where
  "closure_inputs s = \<lparr>ci_live_grants = of_nat (live_grant_count s),
     ci_retained_terminated_grants = of_nat (terminated_grant_count s),
     ci_retained_fences = of_nat (length (ds_fences s)), ci_retained_decisions = of_nat (length (ds_decisions s))\<rparr>"

definition books_closed :: "DurableState \<Rightarrow> bool" where
  "books_closed s \<longleftrightarrow> cr_closed (check_closure (closure_inputs s) \<lparr>at_counters = ds_counters s, at_writable = True\<rparr>)"

lemma ledgerD:
  assumes "ledger early s"
  shows "unat (ac_grants_issued (ds_counters s)) =
      live_grant_count s + terminated_grant_count s + unat (ac_grants_pruned (ds_counters s))"
    and "ended_count (ds_counters s) = terminated_grant_count s + unat (ac_grants_pruned (ds_counters s))"
    and "unat (ac_fences_total (ds_counters s)) = length (ds_fences s) + unat (ac_fences_pruned (ds_counters s))"
    and "ended_count (ds_counters s) \<le> unat (ac_fences_total (ds_counters s))"
    and "unat (ac_grants_acknowledged (ds_counters s)) \<le> unat (ac_grants_issued (ds_counters s))"
    and "unat (ac_grants_applied (ds_counters s)) \<le> unat (ac_grants_acknowledged (ds_counters s)) + early"
    and "well_counted (ds_counters s)" and "ac_sessions_closed (ds_counters s) \<le> ac_sessions_opened (ds_counters s)"
  using assms by (auto simp: ledger_def Let_def)

lemma unat_add_le: "unat (a + b) \<le> unat a + unat b" for a b :: u64
  by (simp add: unat_word_ariths)

lemma well_counted_sums:
  assumes "well_counted c"
  shows "ac_decisions_total c = decision_sum c" and "plan_sum c \<le> ac_plans_total c"
proof -
  have "unat (ac_decisions_total c) =
       unat (ac_decisions_full c) + unat (ac_decisions_degraded c) + unat (ac_decisions_refused c) +
       unat (ac_decisions_escalated c) + unat (ac_decisions_unsupported c) + unat (ac_decisions_indeterminate c) +
       unat (ac_decisions_invalid c)"
    using assms by (simp add: well_counted_def)
  from arg_cong [where f = "of_nat :: nat \<Rightarrow> u64", OF this] show "ac_decisions_total c = decision_sum c"
    by (simp add: decision_sum_def)
  have "unat (plan_sum c) \<le> unat (ac_plans_optimal c) + unat (ac_plans_feasible c) + unat (ac_plans_infeasible c) +
      unat (ac_plans_search_limit c)"
    unfolding plan_sum_def by (intro order_trans [OF unat_add_le] add_mono unat_add_le) simp_all
  then show "plan_sum c \<le> ac_plans_total c"
    using assms by (simp add: well_counted_def word_le_nat_alt)
qed

lemma ledger_closed:
  assumes "ledger early s"
  shows "books_closed s \<longleftrightarrow> ac_grants_applied (ds_counters s) \<le> ac_grants_acknowledged (ds_counters s)"
proof -
  let ?c = "ds_counters s"
  note l = ledgerD [OF assms]
  have e: "terminated ?c = of_nat (ended_count ?c)"
    by (simp add: terminated_def ended_count_def)
  have "ended_count ?c < 2 ^ 64"
    using l(4) unsigned_less [of "ac_fences_total ?c", where ?'a = nat] by simp
  then have "unat (terminated ?c) = ended_count ?c"
    by (simp add: e unat_of_nat take_bit_nat_eq_self)
  moreover have "ac_grants_issued ?c = of_nat (live_grant_count s) + of_nat (terminated_grant_count s) + ac_grants_pruned ?c"
    using arg_cong [where f = "of_nat :: nat \<Rightarrow> u64", OF l(1)] by simp
  moreover have "terminated ?c = of_nat (terminated_grant_count s) + ac_grants_pruned ?c"
    unfolding e l(2) by simp
  moreover have "ac_fences_total ?c = of_nat (length (ds_fences s)) + ac_fences_pruned ?c"
    using arg_cong [where f = "of_nat :: nat \<Rightarrow> u64", OF l(3)] by simp
  moreover have "ac_frames_oversized ?c \<le> ac_frames_rejected ?c"
    using l(7) by (simp add: well_counted_def word_le_nat_alt)
  ultimately show ?thesis
    using l(4,5,8) well_counted_sums [OF l(7)]
    by (simp add: books_closed_def check_closure_exact closure_holds_def closure_inputs_def word_le_nat_alt)
qed


lemmas grant_counts_def = live_grant_count_def terminated_grant_count_def in_state_def
lemmas ledger_unfold = ledger_def Let_def grant_counts_def ended_count_def well_counted_def

lemma assign_counts:
  assumes "find_grant s k = Some g"
  shows "live_grant_count (assign_grant k f s) + (if Grant_live g then 1 else 0) =
      live_grant_count s + (if Grant_live (f g) then 1 else 0)"
    and "terminated_grant_count (assign_grant k f s) + (if Grant_live g then 0 else 1) =
      terminated_grant_count s + (if Grant_live (f g) then 0 else 1)"
    and "in_state st (assign_grant k f s) + (if gr_state g = st then 1 else 0) =
      in_state st s + (if gr_state (f g) = st then 1 else 0)"
  using count_assign_first [OF assms [unfolded find_grant_def], of Grant_live f]
    count_assign_first [OF assms [unfolded find_grant_def], of "\<lambda>g. \<not> Grant_live g" f]
    count_assign_first [OF assms [unfolded find_grant_def], of "\<lambda>g. gr_state g = st" f]
  by (auto simp: grant_counts_def assign_grant_def)

lemma transition_found:
  assumes "transition_grant k n t a q s = (EC_Ok, s')"
  obtains g where "find_grant s k = Some g" "grant_transition_allowed (gr_state g) n"
  using assms by (auto simp: transition_Ok)

lemma transition_counts:
  assumes "transition_grant k n t a q s = (EC_Ok, s')" and "find_grant s k = Some g"
  shows "live_grant_count s' + 1 = live_grant_count s + (if grant_state_live n then 1 else 0)"
    and "terminated_grant_count s' = terminated_grant_count s + (if grant_state_live n then 0 else 1)"
    and "in_state st s' + (if gr_state g = st then 1 else 0) = in_state st s + (if n = st then 1 else 0)"
    and "ds_counters s' = ds_counters s" "ds_fences s' = ds_fences s"
proof -
  have g: "grant_transition_allowed (gr_state g) n" and s': "s' = assign_grant k (moved_grant n t a q) s"
    using assms by (auto simp: transition_Ok)
  have "Grant_live g"
    using transition_from_live [OF g] by (simp add: Grant_live_def)
  then show "live_grant_count s' + 1 = live_grant_count s + (if grant_state_live n then 1 else 0)"
    "terminated_grant_count s' = terminated_grant_count s + (if grant_state_live n then 0 else 1)"
    "in_state st s' + (if gr_state g = st then 1 else 0) = in_state st s + (if n = st then 1 else 0)"
    "ds_counters s' = ds_counters s" "ds_fences s' = ds_fences s"
    using assign_counts(1,2) [OF assms(2), of "moved_grant n t a q"] assign_counts(3) [OF assms(2), where f = "moved_grant n t a q"]
    by (auto simp: s' Grant_live_def assign_grant_def)
qed

lemma counts_counters [simp]:
  "live_grant_count (s\<lparr>ds_counters := c\<rparr>) = live_grant_count s"
  "terminated_grant_count (s\<lparr>ds_counters := c\<rparr>) = terminated_grant_count s"
  "in_state st (s\<lparr>ds_counters := c\<rparr>) = in_state st s"
  by (simp_all add: grant_counts_def)

lemma ledger_same:
  assumes "ledger early s" and "ds_counters s' = ds_counters s" and "ds_grants s' = ds_grants s" and "ds_fences s' = ds_fences s"
  shows "ledger early s'"
  using assms by (simp add: ledger_def Let_def grant_counts_def)

lemmas bumps_def = record_grant_issued_def record_grant_acknowledged_def record_grant_applied_def record_fences_def
  record_grant_fenced_def record_grant_expired_def record_grant_revoked_def record_boot_def record_term_advance_def
  record_torn_tail_def record_grant_pruned_def record_fences_pruned_def

lemma issue_ledger:
  assumes "ledger early s" and "issue_record g cfg s = (EC_Ok, s')" and "gr_state g = GS_Issued"
  shows "ledger early s'"
  using assms
  by (auto simp: issue_record_def bumps_def acct_bump unat_bumped ledger_unfold Grant_live_def grant_state_live_def
      grant_state_terminal_def split: if_splits)

lemma acknowledge_ledger:
  assumes "ledger early s" and "status_then (transition_grant k GS_Acknowledged t a q) (acct record_grant_acknowledged) s = (EC_Ok, s')"
  shows "ledger early s'"
proof -
  obtain m where tr: "transition_grant k GS_Acknowledged t a q s = (EC_Ok, m)"
    and ac: "acct record_grant_acknowledged m = (EC_Ok, s')"
    using assms(2) by (auto simp: status_then_Ok)
  obtain g where g: "find_grant s k = Some g" "grant_transition_allowed (gr_state g) GS_Acknowledged"
    using transition_found [OF tr] .
  have "gr_state g = GS_Issued"
    using g(2) by (cases "gr_state g") (auto simp: grant_transition_allowed_def grant_state_terminal_def)
  then have "in_state GS_Issued m + 1 = in_state GS_Issued s" "in_state GS_Acknowledged m = in_state GS_Acknowledged s + 1"
    using transition_counts(3) [OF tr g(1), of GS_Issued] transition_counts(3) [OF tr g(1), of GS_Acknowledged] by simp_all
  then show ?thesis
    using assms(1) ac transition_counts(1,2,4,5) [OF tr g(1)]
    by (auto simp: bumps_def acct_bump unat_bumped ledger_def Let_def ended_count_def well_counted_def
        grant_state_live_def grant_state_terminal_def)
qed

lemma applied_ledger:
  assumes "ledger early s" and "status_then (transition_grant k GS_Applied t a q) (acct record_grant_applied) s = (EC_Ok, s')"
    and "find_grant s k = Some g"
  shows "ledger (if gr_state g = GS_Issued then early + 1 else early) s'"
proof -
  obtain m where tr: "transition_grant k GS_Applied t a q s = (EC_Ok, m)"
    and ac: "acct record_grant_applied m = (EC_Ok, s')"
    using assms(2) by (auto simp: status_then_Ok)
  have "gr_state g = GS_Issued \<or> gr_state g = GS_Acknowledged"
    using tr assms(3)
    by (cases "gr_state g") (auto simp: transition_Ok grant_transition_allowed_def grant_state_terminal_def)
  then have "in_state GS_Issued m \<le> in_state GS_Issued s"
    "if gr_state g = GS_Issued then in_state GS_Acknowledged m = in_state GS_Acknowledged s
     else in_state GS_Acknowledged m + 1 = in_state GS_Acknowledged s"
    using transition_counts(3) [OF tr assms(3), of GS_Issued] transition_counts(3) [OF tr assms(3), of GS_Acknowledged]
    by auto
  then show ?thesis
    using assms(1) ac transition_counts(1,2,4,5) [OF tr assms(3)]
    by (auto simp: bumps_def acct_bump unat_bumped ledger_def Let_def ended_count_def well_counted_def
        grant_state_live_def grant_state_terminal_def split: if_splits)
qed

lemma fence_ledger:
  assumes "ledger early s" and "fence_record n f s = (EC_Ok, s')" and "n \<in> {GS_Fenced, GS_Expired, GS_Revoked}"
  shows "ledger early s'"
proof -
  obtain m where tr: "transition_grant (fr_grant f) n (fr_fenced_tick f) 0 0 s = (EC_Ok, m)"
    and rest: "status_then (add_fence f) (status_then (acct (record_fences 1)) (acct (count_end n))) m = (EC_Ok, s')"
    using assms(2) by (auto simp: fence_record_def status_then_Ok)
  obtain g where g: "find_grant s (fr_grant f) = Some g" "grant_transition_allowed (gr_state g) n"
    using transition_found [OF tr] .
  have "in_state GS_Issued m \<le> in_state GS_Issued s" "in_state GS_Acknowledged m \<le> in_state GS_Acknowledged s"
    using assms(3) transition_counts(3) [OF tr g(1), of GS_Issued] transition_counts(3) [OF tr g(1), of GS_Acknowledged]
    by auto
  moreover have "live_grant_count m + 1 = live_grant_count s" "terminated_grant_count m = terminated_grant_count s + 1"
    using assms(3) transition_counts(1,2) [OF tr g(1)] by (auto simp: grant_state_live_def grant_state_terminal_def)
  moreover have "live_grant_count (m\<lparr>ds_fences := x, ds_fence_id_high_water := y\<rparr>) = live_grant_count m"
    "terminated_grant_count (m\<lparr>ds_fences := x, ds_fence_id_high_water := y\<rparr>) = terminated_grant_count m"
    "in_state st (m\<lparr>ds_fences := x, ds_fence_id_high_water := y\<rparr>) = in_state st m" for x y st
    by (simp_all add: grant_counts_def)
  ultimately show ?thesis
    using assms(1,3) rest transition_counts(4,5) [OF tr g(1)]
    by (auto simp: status_then_Ok add_fence_def count_end_def bumps_def acct_bump unat_bumped ledger_def Let_def
        ended_count_def well_counted_def)
qed


lemma acct_fields:
  "acct f s = (e, s') \<Longrightarrow> ds_grants s' = ds_grants s \<and> ds_fences s' = ds_fences s \<and>
     s' = s\<lparr>ds_counters := at_counters (snd (f \<lparr>at_counters = ds_counters s, at_writable = True\<rparr>))\<rparr>"
  by (auto simp: acct_def split: prod.splits)

lemma decision_ledger:
  assumes "ledger early s" and "decision_record d s = (EC_Ok, s')"
  shows "ledger early s'"
proof -
  let ?a = "\<lparr>at_counters = ds_counters s, at_writable = True\<rparr>"
  let ?c = "at_counters (snd (record_decision (de_outcome d) ?a))"
  obtain m where m: "s' = m\<lparr>ds_counters := ?c\<rparr>" "ds_grants m = ds_grants s" "ds_fences m = ds_fences s"
    using acct_fields [OF assms(2) [unfolded decision_record_def]] by auto
  have "well_counted ?c"
    using step_well_counted [OF acct_step.record_decision] ledgerD(7) [OF assms(1)] by fastforce
  moreover have "ac_grants_issued ?c = ac_grants_issued (ds_counters s)" "ac_grants_pruned ?c = ac_grants_pruned (ds_counters s)"
    "ac_grants_acknowledged ?c = ac_grants_acknowledged (ds_counters s)" "ac_grants_applied ?c = ac_grants_applied (ds_counters s)"
    "ended_count ?c = ended_count (ds_counters s)" "ac_fences_total ?c = ac_fences_total (ds_counters s)"
    "ac_fences_pruned ?c = ac_fences_pruned (ds_counters s)" "ac_sessions_closed ?c = ac_sessions_closed (ds_counters s)"
    "ac_sessions_opened ?c = ac_sessions_opened (ds_counters s)"
    by (cases "de_outcome d"; simp add: record_decision_def snd_status_then snd_bump ended_count_def)+
  ultimately show ?thesis
    using assms(1) m by (simp add: ledger_def Let_def grant_counts_def)
qed

lemma rebind_ledger:
  assumes "ledger early s" and "rebind_record k b s = (EC_Ok, s')"
  shows "ledger early s'"
proof -
  obtain g where g: "find_grant s k = Some g" "s' = assign_grant k (\<lambda>g. g\<lparr>gr_binding := b\<rparr>) s"
    using assms(2) by (auto simp: rebind_record_def split: option.splits if_splits)
  have "live_grant_count s' = live_grant_count s" "terminated_grant_count s' = terminated_grant_count s"
    "in_state st s' = in_state st s" for st
    using assign_counts(1,2) [OF g(1), of "\<lambda>g. g\<lparr>gr_binding := b\<rparr>"]
      assign_counts(3) [OF g(1), where f = "\<lambda>g. g\<lparr>gr_binding := b\<rparr>"]
    by (auto simp: g(2) Grant_live_def split: if_splits)
  then show ?thesis
    using assms(1) by (simp add: ledger_def Let_def g(2) assign_grant_def)
qed

lemma boot_ledger: "ledger early s \<Longrightarrow> boot_record b trm t s = (EC_Ok, s') \<Longrightarrow> ledger early s'"
  by (auto simp: boot_record_def Let_def status_then_Ok bumps_def acct_bump ledger_unfold split: if_splits option.splits)

lemma plain_ledger:
  "ledger early s \<Longrightarrow> register_record c cfg s = (EC_Ok, s') \<Longrightarrow> ledger early s'"
  "ledger early s \<Longrightarrow> retire_record k s = (EC_Ok, s') \<Longrightarrow> ledger early s'"
  "ledger early s \<Longrightarrow> evidence_record i s = (EC_Ok, s') \<Longrightarrow> ledger early s'"
  by (erule ledger_same; auto simp: register_record_def retire_record_def evidence_record_def split: if_splits sum.splits)+

lemma term_ledger: "ledger early s \<Longrightarrow> term_record trm s = (EC_Ok, s') \<Longrightarrow> ledger early s'"
  by (auto simp: term_record_def bumps_def acct_bump ledger_unfold split: if_splits)

lemma torn_ledger: "ledger early s \<Longrightarrow> acct record_torn_tail s = (EC_Ok, s') \<Longrightarrow> ledger early s'"
  by (auto simp: bumps_def acct_bump ledger_unfold)

text \<open>
  The records the runtime writes: a grant is recorded in state \<open>Issued\<close>, and a checkpoint holds the counters of the state it
  is taken from, up to the counters of journal writes, which the append itself has moved on. Every other record is
  unrestricted.
\<close>

definition runtime_record :: "RecordType \<Rightarrow> RecordPayload \<Rightarrow> DurableState \<Rightarrow> bool" where
  "runtime_record ty p s \<longleftrightarrow>
     (case ty of
        RT_GrantIssued \<Rightarrow> gr_state (rp_grant p) = GS_Issued
      | RT_AccountingCheckpoint \<Rightarrow>
          ds_counters s = (rp_counters p)\<lparr>ac_journal_records_written := ac_journal_records_written (ds_counters s),
            ac_journal_bytes_written := ac_journal_bytes_written (ds_counters s)\<rparr>
      | _ \<Rightarrow> True)"

text \<open>A grant reported applied that nobody acknowledged.\<close>

definition skips_acknowledgement :: "RecordType \<Rightarrow> RecordPayload \<Rightarrow> DurableState \<Rightarrow> bool" where
  "skips_acknowledgement ty p s \<longleftrightarrow>
     ty = RT_GrantApplied \<and> (case find_grant s (rp_id p) of None \<Rightarrow> False | Some g \<Rightarrow> gr_state g = GS_Issued)"

lemma checkpoint_ledger:
  assumes "ledger early s" and "runtime_record RT_AccountingCheckpoint p s"
    and "acct (Accounting_replace (rp_counters p)) s = (EC_Ok, s')"
  shows "ledger early s'"
proof -
  have "s' = s\<lparr>ds_counters := rp_counters p\<rparr>"
    using assms(3) by (simp add: acct_def Accounting_replace_def)
  moreover obtain a b where "ds_counters s = (rp_counters p)\<lparr>ac_journal_records_written := a, ac_journal_bytes_written := b\<rparr>"
    using assms(2) by (auto simp: runtime_record_def)
  ultimately show ?thesis
    using assms(1) by (simp add: ledger_def Let_def ended_count_def well_counted_def)
qed

lemma apply_ledger:
  assumes "ledger early s" and "apply_record ty p cfg s = (EC_Ok, s')" and "runtime_record ty p s"
  shows "ledger (if skips_acknowledgement ty p s then early + 1 else early) s'"
proof (cases ty)
  case RT_GrantApplied
  obtain m where "transition_grant (rp_id p) GS_Applied (rp_tick p) (rp_attempt p) (rp_sequence p) s = (EC_Ok, m)"
    using assms(2) RT_GrantApplied by (auto simp: status_then_Ok)
  then obtain g where g: "find_grant s (rp_id p) = Some g"
    by (rule transition_found)
  then show ?thesis
    using applied_ledger [OF assms(1) _ g] assms(2) RT_GrantApplied by (auto simp: skips_acknowledgement_def)
next
  case RT_ContractRegistered
  with assms show ?thesis by (simp add: runtime_record_def skips_acknowledgement_def) (blast intro: plain_ledger)
next
  case RT_ContractRetired
  with assms show ?thesis by (simp add: runtime_record_def skips_acknowledgement_def) (blast intro: plain_ledger)
next
  case RT_PolicyInstalled
  with assms show ?thesis by (auto intro!: ledger_same [OF assms(1)] simp: skips_acknowledgement_def)
next
  case RT_FabricGenerationAdvanced
  with assms show ?thesis by (auto intro!: ledger_same [OF assms(1)] simp: skips_acknowledgement_def)
next
  case RT_CapacityGenerationAdvanced
  with assms show ?thesis by (auto intro!: ledger_same [OF assms(1)] simp: skips_acknowledgement_def)
next
  case RT_EvidencePublished
  with assms show ?thesis by (simp add: runtime_record_def skips_acknowledgement_def) (blast intro: plain_ledger)
next
  case RT_GrantIssued
  with assms show ?thesis by (simp add: runtime_record_def skips_acknowledgement_def) (rule issue_ledger)
next
  case RT_GrantAcknowledged
  with assms show ?thesis by (simp add: runtime_record_def skips_acknowledgement_def) (rule acknowledge_ledger)
next
  case RT_GrantFenced
  with assms show ?thesis by (auto intro: fence_ledger [OF assms(1)] simp: skips_acknowledgement_def)
next
  case RT_GrantExpired
  with assms show ?thesis by (auto intro: fence_ledger [OF assms(1)] simp: skips_acknowledgement_def)
next
  case RT_GrantRevoked
  with assms show ?thesis by (auto intro: fence_ledger [OF assms(1)] simp: skips_acknowledgement_def)
next
  case RT_DecisionRecorded
  with assms show ?thesis by (simp add: runtime_record_def skips_acknowledgement_def) (rule decision_ledger)
next
  case RT_BootAdvanced
  with assms show ?thesis by (simp add: runtime_record_def skips_acknowledgement_def) (rule boot_ledger)
next
  case RT_CoordinatorTermAdvanced
  with assms show ?thesis by (simp add: runtime_record_def skips_acknowledgement_def) (rule term_ledger)
next
  case RT_TornTailObserved
  with assms show ?thesis by (simp add: runtime_record_def skips_acknowledgement_def) (rule torn_ledger)
next
  case RT_RestorationProven
  with assms show ?thesis by (auto intro!: ledger_same [OF assms(1)] simp: skips_acknowledgement_def)
next
  case RT_RestorationRefused
  with assms show ?thesis by (auto intro!: ledger_same [OF assms(1)] simp: skips_acknowledgement_def)
next
  case RT_EvidenceGenerationAdvanced
  with assms show ?thesis by (auto intro!: ledger_same [OF assms(1)] simp: skips_acknowledgement_def)
next
  case RT_GrantRebound
  with assms show ?thesis by (simp add: runtime_record_def skips_acknowledgement_def) (rule rebind_ledger)
next
  case RT_AccountingCheckpoint
  with assms show ?thesis by (simp add: skips_acknowledgement_def) (rule checkpoint_ledger)
qed


section \<open>Retention keeps the books and the live grants\<close>

lemma length_filter_sort_by: "length (filter P (sort_by lt xs)) = length (filter P xs)"
  by (metis mset_filter mset_sort_by size_mset)

lemma pruned_count:
  fixes x :: u64
  assumes "unat x + unat (of_nat n :: u64) < 2 ^ 64" and "n < 2 ^ 64"
  shows "unat (x + of_nat n) = unat x + n"
  using assms by (simp add: unat_bumped unat_of_nat take_bit_nat_eq_self)

lemma terminated_bound: "ledger early s \<Longrightarrow> terminated_grant_count s < 2 ^ 64"
  using ledgerD(1) [of early s] unat_u64_bound [of "ac_grants_issued (ds_counters s)"] by simp

text \<open>What \<open>prune_grants\<close> leaves: every live grant, and the newest terminated ones.\<close>

definition kept_grants :: "StoreConfig \<Rightarrow> DurableState \<Rightarrow> Grant list" where
  "kept_grants cfg s =
     take (so_max_retained_grants cfg - live_grant_count s)
       (sort_by newest_grant_less (filter (\<lambda>g. \<not> Grant_live g) (ds_grants s)))"

lemma prune_grants_Ok:
  assumes "prune_grants cfg s = (EC_Ok, s')"
  obtains "s' = s\<lparr>ds_grants := sort_by grant_id_less (filter Grant_live (ds_grants s) @ kept_grants cfg s)\<rparr>"
      "length (kept_grants cfg s) = terminated_grant_count s"
  | n where "terminated_grant_count s = length (kept_grants cfg s) + n"
      "unat (ac_grants_pruned (ds_counters s)) + unat (of_nat n :: u64) < 2 ^ 64"
      "s' = s\<lparr>ds_grants := sort_by grant_id_less (filter Grant_live (ds_grants s) @ kept_grants cfg s),
              ds_counters := (ds_counters s)\<lparr>ac_grants_pruned := ac_grants_pruned (ds_counters s) + of_nat n\<rparr>\<rparr>"
proof -
  let ?ended = "sort_by newest_grant_less (filter (\<lambda>g. \<not> Grant_live g) (ds_grants s))"
  let ?budget = "so_max_retained_grants cfg - live_grant_count s"
  have b: "(if so_max_retained_grants cfg > live_grant_count s then ?budget else 0) = ?budget"
    by auto
  have len: "length ?ended = terminated_grant_count s"
    by (simp add: terminated_grant_count_def)
  show thesis
  proof (cases "length ?ended > ?budget")
    case True
    then have "s' = s\<lparr>ds_grants := sort_by grant_id_less (filter Grant_live (ds_grants s) @ kept_grants cfg s),
        ds_counters := (ds_counters s)\<lparr>ac_grants_pruned := ac_grants_pruned (ds_counters s) +
          of_nat (terminated_grant_count s - ?budget)\<rparr>\<rparr>"
      "unat (ac_grants_pruned (ds_counters s)) + unat (of_nat (terminated_grant_count s - ?budget) :: u64) < 2 ^ 64"
      using assms len by (auto simp: prune_grants_def Let_def b status_then_Ok bumps_def acct_bump kept_grants_def)
    moreover have "length (kept_grants cfg s) = ?budget"
      using True by (simp add: kept_grants_def)
    ultimately show thesis
      using True len by (intro that(2) [of "terminated_grant_count s - ?budget"]) simp_all
  next
    case False
    then show thesis
      using assms len by (intro that(1)) (auto simp: prune_grants_def Let_def b kept_grants_def)
  qed
qed

lemma pruned_grant_counts:
  fixes cfg s
  defines "gs \<equiv> sort_by grant_id_less (filter Grant_live (ds_grants s) @ kept_grants cfg s)"
  shows "length (filter Grant_live gs) = live_grant_count s"
    and "length (filter (\<lambda>g. \<not> Grant_live g) gs) = length (kept_grants cfg s)"
    and "st \<in> {GS_Issued, GS_Acknowledged} \<Longrightarrow> length (filter (\<lambda>g. gr_state g = st) gs) = in_state st s"
proof -
  have dead: "\<not> Grant_live g" if "g \<in> set (kept_grants cfg s)" for g
    using that in_set_takeD by (fastforce simp: kept_grants_def)
  have "filter Grant_live (kept_grants cfg s) = []" "filter (\<lambda>g. \<not> Grant_live g) (kept_grants cfg s) = kept_grants cfg s"
    using dead by (simp_all add: filter_empty_conv filter_id_conv)
  then show "length (filter Grant_live gs) = live_grant_count s"
    "length (filter (\<lambda>g. \<not> Grant_live g) gs) = length (kept_grants cfg s)"
    by (simp_all add: gs_def length_filter_sort_by live_grant_count_def)
  assume st: "st \<in> {GS_Issued, GS_Acknowledged}"
  then have "Grant_live g" if "gr_state g = st" for g
    using that by (auto simp: Grant_live_def grant_state_live_def grant_state_terminal_def)
  then have "filter (\<lambda>g. gr_state g = st) (filter Grant_live (ds_grants s)) = filter (\<lambda>g. gr_state g = st) (ds_grants s)"
    "filter (\<lambda>g. gr_state g = st) (kept_grants cfg s) = []"
    using dead by (auto simp: filter_empty_conv intro!: filter_cong)
  then show "length (filter (\<lambda>g. gr_state g = st) gs) = in_state st s"
    by (simp add: gs_def length_filter_sort_by in_state_def)
qed

lemma prune_grants_ledger:
  assumes "ledger early s" and "prune_grants cfg s = (EC_Ok, s')"
  shows "ledger early s'"
  using assms(2)
proof (rule prune_grants_Ok)
  assume s': "s' = s\<lparr>ds_grants := sort_by grant_id_less (filter Grant_live (ds_grants s) @ kept_grants cfg s)\<rparr>"
    and "length (kept_grants cfg s) = terminated_grant_count s"
  then have "live_grant_count s' = live_grant_count s" "terminated_grant_count s' = terminated_grant_count s"
    "in_state GS_Issued s' = in_state GS_Issued s" "in_state GS_Acknowledged s' = in_state GS_Acknowledged s"
    using pruned_grant_counts [where s = s and cfg = cfg] by (simp_all add: grant_counts_def)
  then show "ledger early s'"
    using assms(1) by (simp add: ledger_def Let_def s')
next
  fix n
  assume n: "terminated_grant_count s = length (kept_grants cfg s) + n"
    and room: "unat (ac_grants_pruned (ds_counters s)) + unat (of_nat n :: u64) < 2 ^ 64"
    and s': "s' = s\<lparr>ds_grants := sort_by grant_id_less (filter Grant_live (ds_grants s) @ kept_grants cfg s),
        ds_counters := (ds_counters s)\<lparr>ac_grants_pruned := ac_grants_pruned (ds_counters s) + of_nat n\<rparr>\<rparr>"
  have "live_grant_count s' = live_grant_count s" "terminated_grant_count s' = length (kept_grants cfg s)"
    "in_state GS_Issued s' = in_state GS_Issued s" "in_state GS_Acknowledged s' = in_state GS_Acknowledged s"
    using pruned_grant_counts [where s = s and cfg = cfg] by (simp_all add: s' grant_counts_def)
  moreover have "unat (ac_grants_pruned (ds_counters s) + of_nat n) = unat (ac_grants_pruned (ds_counters s)) + n"
    using terminated_bound [OF assms(1)] n by (intro pruned_count [OF room]) simp
  ultimately show "ledger early s'"
    using assms(1) n by (simp add: ledger_def Let_def s' ended_count_def well_counted_def)
qed

lemma prune_fences_ledger:
  assumes "ledger early s" and "prune_fences cfg s = (EC_Ok, s')"
  shows "ledger early s'"
proof (cases "length (ds_fences s) > so_max_retained_fences cfg")
  case True
  let ?n = "length (ds_fences s) - so_max_retained_fences cfg"
  have "length (ds_fences s) < 2 ^ 64"
    using ledgerD(3) [OF assms(1)] unat_u64_bound [of "ac_fences_total (ds_counters s)"] by simp
  then have "unat (ac_fences_pruned (ds_counters s) + of_nat ?n) = unat (ac_fences_pruned (ds_counters s)) + ?n"
    using assms(2) True by (intro pruned_count) (auto simp: prune_fences_def Let_def bumps_def acct_bump)
  then show ?thesis
    using assms True by (auto simp: prune_fences_def Let_def bumps_def acct_bump ledger_def ended_count_def well_counted_def
        grant_counts_def)
qed (use assms in \<open>simp add: prune_fences_def Let_def\<close>)

lemma prune_ledger:
  assumes "ledger early s" and "prune cfg s = (EC_Ok, s')"
  shows "ledger early s'"
proof -
  obtain a b c d where run: "prune_grants cfg s = (EC_Ok, a)" "prune_fences cfg a = (EC_Ok, b)" "prune_decisions cfg b = (EC_Ok, c)"
      "prune_restorations cfg c = (EC_Ok, d)" "prune_evidence cfg d = (EC_Ok, s')"
    using assms(2) by (auto simp: prune_def status_then_Ok)
  have "ledger early b"
    using run(1,2) assms(1) by (blast intro: prune_fences_ledger prune_grants_ledger)
  then have "ledger early c"
    using run(3) by (intro ledger_same [OF \<open>ledger early b\<close>]) (auto simp: prune_decisions_def Let_def)
  then have "ledger early d"
    using run(4) by (intro ledger_same [OF \<open>ledger early c\<close>]) (auto simp: prune_restorations_def Let_def)
  then show ?thesis
    using run(5) by (intro ledger_same [OF \<open>ledger early d\<close>]) (auto simp: prune_evidence_def Let_def split: if_splits sum.splits)
qed


section \<open>Events that are counted without a record\<close>

text \<open>What the server and the coordinator count directly in the counters of the state.\<close>

definition side_events :: "(Accounting \<Rightarrow> status \<times> Accounting) set" where
  "side_events =
     {record_frame_received, record_frame_sent, record_session_opened, record_session_rejected, record_request_rejected,
      record_evidence_published, record_evidence_rejected, record_snapshot_taken, record_snapshot_loaded,
      record_restoration_proven, record_restoration_refused} \<union>
     range record_frame_rejected \<union> range record_evidence_superseded \<union> range record_journal_read \<union>
     {record_journal_write r b | r b. True} \<union> {record_plan st k | st k. True}"

lemma side_event_step: "f \<in> side_events \<Longrightarrow> acct_step a (snd (f a))"
  by (auto simp: side_events_def intro: acct_step.intros)

text \<open>What such an event leaves alone.\<close>

definition same_books :: "AccountingCounters \<Rightarrow> AccountingCounters \<Rightarrow> bool" where
  "same_books c c' \<longleftrightarrow>
     ac_grants_issued c' = ac_grants_issued c \<and> ac_grants_pruned c' = ac_grants_pruned c \<and>
     ac_grants_acknowledged c' = ac_grants_acknowledged c \<and> ac_grants_applied c' = ac_grants_applied c \<and>
     ended_count c' = ended_count c \<and> ac_fences_total c' = ac_fences_total c \<and> ac_fences_pruned c' = ac_fences_pruned c \<and>
     ac_sessions_closed c' = ac_sessions_closed c \<and> ac_sessions_opened c \<le> ac_sessions_opened c'"

lemma plan_books: "same_books (at_counters a) (at_counters (snd (record_plan st k a)))"
  by (cases st) (simp_all add: same_books_def record_plan_def snd_status_then snd_bump ended_count_def)

lemma side_event_books: "f \<in> side_events \<Longrightarrow> same_books (at_counters a) (at_counters (snd (f a)))"
  using plan_books
  by (auto simp: side_events_def)
    (auto simp: same_books_def acct_op_defs snd_status_then snd_bump ended_count_def word_le_nat_alt unat_bumped)

lemma snd_acct:
  "snd (acct f s) = s\<lparr>ds_counters := at_counters (snd (f \<lparr>at_counters = ds_counters s, at_writable = True\<rparr>))\<rparr>"
  by (simp add: acct_def split: prod.split)

lemma side_event_ledger:
  assumes "ledger early s" and "f \<in> side_events"
  shows "ledger early (snd (acct f s))"
proof -
  let ?a = "\<lparr>at_counters = ds_counters s, at_writable = True\<rparr>"
  have "well_counted (at_counters (snd (f ?a)))"
    using step_well_counted [OF side_event_step [OF assms(2), of ?a]] ledgerD(7) [OF assms(1)] by simp
  then show ?thesis
    using assms(1) side_event_books [OF assms(2), of ?a]
    by (auto simp: snd_acct ledger_def Let_def same_books_def)
qed

lemma session_closed_ledger:
  assumes "ledger early s" and "ac_sessions_closed (ds_counters s) < ac_sessions_opened (ds_counters s)"
  shows "ledger early (snd (acct record_session_closed s))"
proof -
  let ?a = "\<lparr>at_counters = ds_counters s, at_writable = True\<rparr>"
  have "well_counted (at_counters (snd (record_session_closed ?a)))"
    using step_well_counted [OF acct_step.record_session_closed [of ?a]] ledgerD(7) [OF assms(1)] by simp
  then show ?thesis
    using assms
    by (auto simp: snd_acct ledger_def Let_def record_session_closed_def snd_bump ended_count_def word_less_nat_alt
        word_le_nat_alt unat_bumped split: if_splits)
qed

section \<open>When the books close\<close>

text \<open>
  The durable states a store goes through, with the number of grants that were applied early: accepted records, retention,
  and events that are only counted; a session is closed after it was opened.
\<close>

inductive committed :: "StoreConfig \<Rightarrow> nat \<Rightarrow> DurableState \<Rightarrow> bool" for cfg where
  fresh: "committed cfg 0 new_state"
| recorded: "committed cfg early s \<Longrightarrow> runtime_record ty p s \<Longrightarrow> apply_record ty p cfg s = (EC_Ok, s') \<Longrightarrow>
    committed cfg (if skips_acknowledgement ty p s then early + 1 else early) s'"
| pruned: "committed cfg early s \<Longrightarrow> prune cfg s = (EC_Ok, s') \<Longrightarrow> committed cfg early s'"
| counted: "committed cfg early s \<Longrightarrow> f \<in> side_events \<Longrightarrow> committed cfg early (snd (acct f s))"
| closed: "committed cfg early s \<Longrightarrow> ac_sessions_closed (ds_counters s) < ac_sessions_opened (ds_counters s) \<Longrightarrow>
    committed cfg early (snd (acct record_session_closed s))"

lemma new_state_ledger: "ledger 0 new_state"
  by (simp add: ledger_unfold new_state_def no_counters_def)

lemma committed_ledger: "committed cfg early s \<Longrightarrow> ledger early s"
proof (induction rule: committed.induct)
  case (recorded early s ty p s')
  then show ?case
    by (blast intro: apply_ledger)
qed (auto intro: new_state_ledger prune_ledger side_event_ledger session_closed_ledger)


definition small_store :: StoreConfig where
  "small_store = \<lparr>so_root = ''store'', so_max_journal_bytes = 8388608, so_max_records_per_segment = 200000,
     so_max_snapshot_bytes = 67108864, so_max_retained_grants = 4, so_max_retained_fences = 4,
     so_max_retained_decisions = 4, so_max_retained_evidence = 8, so_max_retained_contracts = 4,
     so_crash_before_record = 0, so_crash_after_write_record = 0, so_crash_after_record = 0, so_read_only = False\<rparr>"

definition issued_grant :: "u64 \<Rightarrow> Grant" where
  "issued_grant k = sample_grant\<lparr>gr_id := k, gr_state := GS_Issued\<rparr>"

definition issued_state :: DurableState where
  "issued_state = snd (apply_record RT_GrantIssued (new_payload\<lparr>rp_grant := issued_grant 1\<rparr>) small_store new_state)"

lemma issued_state_committed:
  "apply_record RT_GrantIssued (new_payload\<lparr>rp_grant := issued_grant 1\<rparr>) small_store new_state = (EC_Ok, issued_state)"
  "committed small_store 0 issued_state"
proof -
  have "fst (apply_record RT_GrantIssued (new_payload\<lparr>rp_grant := issued_grant 1\<rparr>) small_store new_state) = EC_Ok"
    by (simp add: issue_record_def new_state_def live_grant_count_def small_store_def acct_def record_grant_issued_def bump_def
        checked_add_def no_counters_def)
  then show r: "apply_record RT_GrantIssued (new_payload\<lparr>rp_grant := issued_grant 1\<rparr>) small_store new_state = (EC_Ok, issued_state)"
    by (simp add: issued_state_def prod_eq_iff)
  show "committed small_store 0 issued_state"
    using committed.recorded [OF committed.fresh _ r]
    by (simp add: runtime_record_def skips_acknowledgement_def issued_grant_def)
qed

lemma issued_state_eq:
  "issued_state = new_state\<lparr>ds_grants := [issued_grant 1], ds_grant_id_high_water := 1,
     ds_counters := no_counters\<lparr>ac_grants_issued := 1\<rparr>\<rparr>"
  by (simp add: issued_state_def issue_record_def new_state_def live_grant_count_def small_store_def acct_def
      record_grant_issued_def bump_def checked_add_def no_counters_def issued_grant_def)

text \<open>
  The lifecycle lets a grant be reported applied straight from \<open>Issued\<close>, which counts an application without an
  acknowledgement: the books of the resulting state do not close.
\<close>

definition early_state :: DurableState where
  "early_state = snd (apply_record RT_GrantApplied (new_payload\<lparr>rp_id := 1\<rparr>) small_store issued_state)"

lemma early_state_committed:
  "apply_record RT_GrantApplied (new_payload\<lparr>rp_id := 1\<rparr>) small_store issued_state = (EC_Ok, early_state)"
  "committed small_store 1 early_state"
  "ac_grants_applied (ds_counters early_state) = 1" "ac_grants_acknowledged (ds_counters early_state) = 0"
proof -
  let ?p = "new_payload\<lparr>rp_id := 1\<rparr>"
  let ?m = "assign_grant 1 (moved_grant GS_Applied (rp_tick ?p) (rp_attempt ?p) (rp_sequence ?p)) issued_state"
  have "transition_grant 1 GS_Applied (rp_tick ?p) (rp_attempt ?p) (rp_sequence ?p) issued_state = (EC_Ok, ?m)"
    by (simp add: transition_grant_def find_grant_def issued_state_eq issued_grant_def grant_transition_allowed_def grant_state_terminal_def)
  moreover have "acct record_grant_applied ?m = (EC_Ok, ?m\<lparr>ds_counters := no_counters\<lparr>ac_grants_issued := 1, ac_grants_applied := 1\<rparr>\<rparr>)"
    by (simp add: bumps_def acct_bump assign_grant_def issued_state_eq no_counters_def)
  ultimately have r: "apply_record RT_GrantApplied ?p small_store issued_state =
      (EC_Ok, ?m\<lparr>ds_counters := no_counters\<lparr>ac_grants_issued := 1, ac_grants_applied := 1\<rparr>\<rparr>)"
    by (simp add: status_then_def)
  then show *: "apply_record RT_GrantApplied ?p small_store issued_state = (EC_Ok, early_state)"
    by (simp add: early_state_def)
  have "ds_counters early_state = no_counters\<lparr>ac_grants_issued := 1, ac_grants_applied := 1\<rparr>"
    unfolding early_state_def r by simp
  then show "ac_grants_applied (ds_counters early_state) = 1" "ac_grants_acknowledged (ds_counters early_state) = 0"
    by (simp_all add: no_counters_def)
  have "skips_acknowledgement RT_GrantApplied ?p issued_state"
    by (simp add: skips_acknowledgement_def find_grant_def issued_state_eq issued_grant_def)
  then show "committed small_store 1 early_state"
    using committed.recorded [OF issued_state_committed(2) _ *] by (simp add: runtime_record_def)
qed


end
