(* ===== verification/Store_Lifecycle.thy ===== *)
theory Store_Lifecycle
  imports Store_Ledger
begin

text \<open>
  What a durable record may do to the retained tables, and what retention may drop.
\<close>

section \<open>Records respect the lifecycle\<close>

text \<open>How a retained grant may look after one record: what it promises never changes, a terminated one not at all.\<close>

definition grant_evolves :: "Grant \<Rightarrow> Grant \<Rightarrow> bool" where
  "grant_evolves g h \<longleftrightarrow>
     gr_id h = gr_id g \<and> gr_decision h = gr_decision g \<and> gr_original h = gr_original g \<and> gr_degraded h = gr_degraded g \<and>
     same_obligation (gr_binding g) (gr_binding h) \<and>
     (gr_state h = gr_state g \<or> grant_transition_allowed (gr_state g) (gr_state h)) \<and> (\<not> Grant_live g \<longrightarrow> h = g)"

definition tables_ok :: "DurableState \<Rightarrow> bool" where
  "tables_ok s \<longleftrightarrow>
     distinct (map gr_id (ds_grants s)) \<and> (\<forall>g \<in> set (ds_grants s). gr_id g \<le> ds_grant_id_high_water s) \<and>
     distinct (map sc_id (ds_contracts s))"

definition state_evolves :: "DurableState \<Rightarrow> DurableState \<Rightarrow> bool" where
  "state_evolves s t \<longleftrightarrow>
     (\<forall>g \<in> set (ds_grants s). \<exists>h \<in> set (ds_grants t). grant_evolves g h) \<and>
     ds_boot s \<le> ds_boot t \<and> ds_term s \<le> ds_term t \<and>
     ds_grant_id_high_water s \<le> ds_grant_id_high_water t \<and> ds_decision_id_high_water s \<le> ds_decision_id_high_water t \<and>
     ds_fence_id_high_water s \<le> ds_fence_id_high_water t \<and> ds_evidence_id_high_water s \<le> ds_evidence_id_high_water t"

lemma grant_evolves_refl: "grant_evolves g g"
  by (simp add: grant_evolves_def same_obligation_def)

text \<open>A change that leaves the grants alone and moves boot, term and identities forward only.\<close>

lemma evolves_frame:
  assumes "tables_ok s" and "ds_grants t = ds_grants s" and "distinct (map sc_id (ds_contracts t))"
    and "ds_boot s \<le> ds_boot t" and "ds_term s \<le> ds_term t" and "ds_grant_id_high_water t = ds_grant_id_high_water s"
    and "ds_decision_id_high_water s \<le> ds_decision_id_high_water t" and "ds_fence_id_high_water s \<le> ds_fence_id_high_water t"
    and "ds_evidence_id_high_water s \<le> ds_evidence_id_high_water t"
  shows "tables_ok t \<and> state_evolves s t"
  using assms grant_evolves_refl by (auto simp: tables_ok_def state_evolves_def)

lemma evolves_assign:
  assumes "tables_ok s" and "find_grant s k = Some g" and "grant_evolves g (f g)"
    and "\<And>x. gr_id (f x) = gr_id x"
    and "ds_grants t = ds_grants (assign_grant k f s)" and "ds_contracts t = ds_contracts s"
    and "ds_boot t = ds_boot s" and "ds_term t = ds_term s" and "ds_grant_id_high_water t = ds_grant_id_high_water s"
    and "ds_decision_id_high_water t = ds_decision_id_high_water s" and "ds_fence_id_high_water s \<le> ds_fence_id_high_water t"
    and "ds_evidence_id_high_water t = ds_evidence_id_high_water s"
  shows "tables_ok t \<and> state_evolves s t"
proof -
  have d: "distinct (map gr_id (ds_grants s))"
    using assms(1) by (simp add: tables_ok_def)
  have g: "g \<in> set (ds_grants s)" "gr_id g = k"
    using find_ptr_SomeD assms(2) by (fastforce simp: find_grant_def)+
  have t: "ds_grants t = map (\<lambda>x. if gr_id x = k then f x else x) (ds_grants s)"
    using assign_first_distinct [OF d] by (simp add: assms(5) assign_grant_def)
  have ev: "grant_evolves x (if gr_id x = k then f x else x)" if "x \<in> set (ds_grants s)" for x
  proof (cases "gr_id x = k")
    case True
    then have "x = g"
      using d g that by (auto simp: distinct_map inj_on_def)
    then show ?thesis using assms(3) True by simp
  qed (simp add: grant_evolves_refl)
  have "\<forall>x \<in> set (ds_grants s). \<exists>h \<in> set (ds_grants t). grant_evolves x h"
    using ev unfolding t set_map by blast
  moreover have ids: "map gr_id (ds_grants t) = map gr_id (ds_grants s)"
    using assms(4) by (simp add: t)
  moreover have "gr_id ` set (ds_grants t) = gr_id ` set (ds_grants s)"
    using ids by (metis set_map)
  then have "\<forall>h \<in> set (ds_grants t). gr_id h \<le> ds_grant_id_high_water s"
    using assms(1) by (force simp: tables_ok_def)
  ultimately show ?thesis
    using assms(1,6-12) by (simp add: tables_ok_def state_evolves_def)
qed

lemma acct_evolves:
  assumes "acct f m = (st, t)"
  shows "ds_grants t = ds_grants m" "ds_contracts t = ds_contracts m" "ds_boot t = ds_boot m" "ds_term t = ds_term m"
    "ds_grant_id_high_water t = ds_grant_id_high_water m" "ds_decision_id_high_water t = ds_decision_id_high_water m"
    "ds_fence_id_high_water t = ds_fence_id_high_water m" "ds_evidence_id_high_water t = ds_evidence_id_high_water m"
  using assms by (auto simp: acct_def split: prod.splits)

lemma moved_evolves: "grant_transition_allowed (gr_state g) n \<Longrightarrow> grant_evolves g (moved_grant n t a q g)"
  using transition_from_live [of "gr_state g" n]
  by (simp add: grant_evolves_def same_obligation_def Grant_live_def)

text \<open>A transition followed by anything that touches no grant.\<close>

lemma transition_then_evolves:
  assumes "tables_ok s" and "status_then (transition_grant k n tk a q) rest s = (st, t)"
    and "\<And>m. rest m = (st, t) \<Longrightarrow> ds_grants t = ds_grants m \<and> ds_contracts t = ds_contracts m \<and> ds_boot t = ds_boot m \<and>
      ds_term t = ds_term m \<and> ds_grant_id_high_water t = ds_grant_id_high_water m \<and>
      ds_decision_id_high_water t = ds_decision_id_high_water m \<and> ds_fence_id_high_water m \<le> ds_fence_id_high_water t \<and>
      ds_evidence_id_high_water t = ds_evidence_id_high_water m"
  shows "tables_ok t \<and> state_evolves s t"
proof (cases "transition_grant k n tk a q s")
  case (Pair e m)
  show ?thesis
  proof (cases "e = EC_Ok")
    case True
    then obtain g where g: "find_grant s k = Some g" "grant_transition_allowed (gr_state g) n"
      and m: "m = assign_grant k (moved_grant n tk a q) s"
      using Pair by (auto simp: transition_Ok)
    have "rest m = (st, t)"
      using assms(2) Pair True by (simp add: status_then_def)
    from assms(3) [OF this] show ?thesis
      by (intro evolves_assign [OF assms(1) g(1), where f = "moved_grant n tk a q"] moved_evolves [OF g(2)])
        (auto simp: m assign_grant_def)
  next
    case False
    then have "t = s"
      using assms(2) Pair by (auto simp: status_then_def transition_grant_def split: option.splits if_splits)
    then show ?thesis
      using assms(1) by (intro evolves_frame) (simp_all add: tables_ok_def)
  qed
qed


lemma issue_evolves:
  assumes "tables_ok s" and "issue_record g cfg s = (st, t)"
  shows "tables_ok t \<and> state_evolves s t"
proof (cases "ds_grants t = ds_grants s")
  case True
  then have "t = s"
    using assms(2) acct_evolves(1) by (fastforce simp: issue_record_def split: if_splits)
  then show ?thesis
    using assms(1) by (intro evolves_frame) (simp_all add: tables_ok_def)
next
  case False
  then obtain m where m: "m = s\<lparr>ds_grants := ds_grants s @ [g],
        ds_grant_id_high_water := (if gr_id g > ds_grant_id_high_water s then gr_id g else ds_grant_id_high_water s)\<rparr>"
      "acct record_grant_issued m = (st, t)" and new: "\<not> list_ex (\<lambda>x. gr_id x = gr_id g) (ds_grants s)"
    using assms(2) by (auto simp: issue_record_def split: if_splits)
  show ?thesis
    using assms(1) new acct_evolves [OF m(2)] grant_evolves_refl
    by (auto simp: m(1) tables_ok_def state_evolves_def list_ex_iff intro: order_trans)
qed

lemma fence_evolves:
  assumes "tables_ok s" and "fence_record n f s = (st, t)"
  shows "tables_ok t \<and> state_evolves s t"
  using assms(1) assms(2) [unfolded fence_record_def]
proof (rule transition_then_evolves)
  fix m
  assume "status_then (add_fence f) (status_then (acct (record_fences 1)) (acct (count_end n))) m = (st, t)"
  then show "ds_grants t = ds_grants m \<and> ds_contracts t = ds_contracts m \<and> ds_boot t = ds_boot m \<and>
      ds_term t = ds_term m \<and> ds_grant_id_high_water t = ds_grant_id_high_water m \<and>
      ds_decision_id_high_water t = ds_decision_id_high_water m \<and> ds_fence_id_high_water m \<le> ds_fence_id_high_water t \<and>
      ds_evidence_id_high_water t = ds_evidence_id_high_water m"
    by (auto simp: status_then_def add_fence_def acct_def split: prod.splits if_splits)
qed

lemma move_evolves:
  assumes "tables_ok s" and "status_then (transition_grant k n tk a q) (acct f) s = (st, t)"
  shows "tables_ok t \<and> state_evolves s t"
  using assms by (rule transition_then_evolves) (simp add: acct_evolves)

lemma rebind_evolves:
  assumes "tables_ok s" and "rebind_record k b s = (st, t)"
  shows "tables_ok t \<and> state_evolves s t"
proof (cases "t = s")
  case False
  then obtain g where g: "find_grant s k = Some g" "Grant_live g" "same_obligation (gr_binding g) b"
    and t: "t = assign_grant k (\<lambda>g. g\<lparr>gr_binding := b\<rparr>) s"
    using assms(2) by (auto simp: rebind_record_def split: option.splits if_splits)
  then show ?thesis
    by (intro evolves_assign [OF assms(1) g(1)]) (auto simp: grant_evolves_def assign_grant_def)
qed (use assms(1) in \<open>intro evolves_frame; simp add: tables_ok_def\<close>)

lemma contract_evolves:
  assumes "tables_ok s"
  shows "register_record c cfg s = (st, t) \<Longrightarrow> tables_ok t \<and> state_evolves s t"
    and "retire_record k s = (st, t) \<Longrightarrow> tables_ok t \<and> state_evolves s t"
proof -
  have keys: "map sc_id (assign_first (\<lambda>x. sc_id x = sc_id c) (\<lambda>_. c) (ds_contracts s)) = map sc_id (ds_contracts s)"
    "map sc_id (assign_first (\<lambda>x. sc_id x = k) (\<lambda>x. x\<lparr>sc_active := False\<rparr>) (ds_contracts s)) = map sc_id (ds_contracts s)"
    by (rule assign_first_keys; simp)+
  show "register_record c cfg s = (st, t) \<Longrightarrow> tables_ok t \<and> state_evolves s t"
    using assms keys
    by (intro evolves_frame) (auto simp: register_record_def tables_ok_def list_ex_iff split: if_splits, blast)
  show "retire_record k s = (st, t) \<Longrightarrow> tables_ok t \<and> state_evolves s t"
    using assms keys by (intro evolves_frame) (auto simp: retire_record_def tables_ok_def split: if_splits)
qed

lemma boot_evolves:
  assumes "tables_ok s" and "boot_record b trm tk s = (st, t)"
  shows "tables_ok t \<and> state_evolves s t"
proof -
  have "ds_boot s \<le> ds_boot t \<and> ds_term s \<le> ds_term t \<and> ds_grants t = ds_grants s \<and> ds_contracts t = ds_contracts s \<and>
      ds_grant_id_high_water t = ds_grant_id_high_water s \<and> ds_decision_id_high_water t = ds_decision_id_high_water s \<and>
      ds_fence_id_high_water t = ds_fence_id_high_water s \<and> ds_evidence_id_high_water t = ds_evidence_id_high_water s"
    using assms(2) by (auto simp: boot_record_def Let_def valid_id_def status_then_def acct_def
        split: if_splits option.splits prod.splits)
  then show ?thesis
    using assms(1) by (intro evolves_frame) (auto simp: tables_ok_def)
qed

lemma term_evolves:
  assumes "tables_ok s" and "term_record trm s = (st, t)"
  shows "tables_ok t \<and> state_evolves s t"
proof -
  have "ds_term s \<le> ds_term t \<and> ds_grants t = ds_grants s \<and> ds_contracts t = ds_contracts s \<and> ds_boot t = ds_boot s \<and>
      ds_grant_id_high_water t = ds_grant_id_high_water s \<and> ds_decision_id_high_water t = ds_decision_id_high_water s \<and>
      ds_fence_id_high_water t = ds_fence_id_high_water s \<and> ds_evidence_id_high_water t = ds_evidence_id_high_water s"
    using assms(2) by (auto simp: term_record_def valid_id_def acct_def split: if_splits prod.splits)
  then show ?thesis
    using assms(1) by (intro evolves_frame) (auto simp: tables_ok_def)
qed


lemma decision_evolves:
  assumes "tables_ok s" and "decision_record d s = (st, t)"
  shows "tables_ok t \<and> state_evolves s t"
  using assms(1) acct_evolves [OF assms(2) [unfolded decision_record_def]]
  by (intro evolves_frame) (auto simp: tables_ok_def)

lemma evidence_evolves:
  assumes "tables_ok s" and "evidence_record i s = (st, t)"
  shows "tables_ok t \<and> state_evolves s t"
  using assms by (intro evolves_frame) (auto simp: evidence_record_def tables_ok_def split: sum.splits)

lemma counters_evolve:
  assumes "tables_ok s" and "acct f s = (st, t)"
  shows "tables_ok t \<and> state_evolves s t"
  using assms(1) acct_evolves [OF assms(2)] by (intro evolves_frame) (auto simp: tables_ok_def)

lemma plain_evolves:
  assumes "tables_ok s"
  shows "tables_ok (s\<lparr>ds_policy := p\<rparr>) \<and> state_evolves s (s\<lparr>ds_policy := p\<rparr>)"
    and "tables_ok (s\<lparr>ds_fabric_generation := n\<rparr>) \<and> state_evolves s (s\<lparr>ds_fabric_generation := n\<rparr>)"
    and "tables_ok (s\<lparr>ds_capacity_generation := n\<rparr>) \<and> state_evolves s (s\<lparr>ds_capacity_generation := n\<rparr>)"
    and "tables_ok (s\<lparr>ds_evidence_generation := n\<rparr>) \<and> state_evolves s (s\<lparr>ds_evidence_generation := n\<rparr>)"
    and "tables_ok (s\<lparr>ds_restorations := rs\<rparr>) \<and> state_evolves s (s\<lparr>ds_restorations := rs\<rparr>)"
  by (rule evolves_frame [OF assms]; use assms in \<open>simp add: tables_ok_def\<close>)+

lemmas evolves_rules = contract_evolves issue_evolves fence_evolves move_evolves rebind_evolves boot_evolves term_evolves
  decision_evolves evidence_evolves counters_evolve

text \<open>
  C25. No record can rewrite history. Whatever record is applied to a well-formed durable state, and whether it is accepted
  or refused, every retained grant is still there with the same promise, original and obligation, moved at
  most along a legal lifecycle transition, and not at all once it is terminated; grant and contract identities stay
  unique, and boot incarnation, coordinator term and every identity high-water mark never move back.
\<close>

theorem records_respect_lifecycle:
  assumes "tables_ok s" and "apply_record ty p cfg s = (st, t)"
  shows "tables_ok t \<and> state_evolves s t"
proof (cases ty)
  case RT_PolicyInstalled
  with assms show ?thesis by (auto intro: plain_evolves(1) [THEN conjunct1] plain_evolves(1) [THEN conjunct2])
next
  case RT_FabricGenerationAdvanced
  with assms show ?thesis by (auto intro: plain_evolves(2) [THEN conjunct1] plain_evolves(2) [THEN conjunct2])
next
  case RT_CapacityGenerationAdvanced
  with assms show ?thesis by (auto intro: plain_evolves(3) [THEN conjunct1] plain_evolves(3) [THEN conjunct2])
next
  case RT_EvidenceGenerationAdvanced
  with assms show ?thesis by (auto intro: plain_evolves(4) [THEN conjunct1] plain_evolves(4) [THEN conjunct2])
next
  case RT_RestorationProven
  with assms show ?thesis by (auto intro: plain_evolves(5) [THEN conjunct1] plain_evolves(5) [THEN conjunct2])
next
  case RT_RestorationRefused
  with assms show ?thesis by (auto intro: plain_evolves(5) [THEN conjunct1] plain_evolves(5) [THEN conjunct2])
qed (use assms(2) in \<open>auto dest: evolves_rules [OF assms(1)]\<close>)


theorem records_respect_lifecycle_witness:
  "tables_ok (snd (apply_record RT_GrantRevoked (new_payload\<lparr>rp_fence := new_fence\<lparr>fr_id := 1, fr_grant := 1\<rparr>\<rparr>)
     small_store issued_state))"
proof -
  have "tables_ok issued_state"
    by (simp add: tables_ok_def issued_state_eq new_state_def issued_grant_def)
  then show ?thesis
    by (rule conjunct1 [OF records_respect_lifecycle [OF _ prod.collapse [symmetric]]])
qed

section \<open>Retention\<close>

interpretation newest_grant_order: strict_weak_order newest_grant_less
  by unfold_locales (auto simp: newest_grant_less_def split: if_splits)

lemma prune_grants_keeps:
  assumes "prune_grants cfg s = (EC_Ok, a)"
  shows "ds_grants a = sort_by grant_id_less (filter Grant_live (ds_grants s) @ kept_grants cfg s)"
    and "ds_fences a = ds_fences s" "ds_contracts a = ds_contracts s" "ds_policy a = ds_policy s"
    "ds_grant_id_high_water a = ds_grant_id_high_water s"
  by (rule prune_grants_Ok [OF assms]; simp)+

lemma prune_rest_keeps:
  "prune_fences cfg a = (EC_Ok, b) \<Longrightarrow> ds_grants b = ds_grants a \<and> ds_contracts b = ds_contracts a \<and> ds_policy b = ds_policy a \<and>
     ds_grant_id_high_water b = ds_grant_id_high_water a \<and> set (ds_fences b) \<subseteq> set (ds_fences a) \<and>
     length (ds_fences b) \<le> so_max_retained_fences cfg"
  "prune_decisions cfg a = (EC_Ok, b) \<Longrightarrow> ds_grants b = ds_grants a \<and> ds_contracts b = ds_contracts a \<and>
     ds_policy b = ds_policy a \<and> ds_grant_id_high_water b = ds_grant_id_high_water a \<and> ds_fences b = ds_fences a"
  "prune_restorations cfg a = (EC_Ok, b) \<Longrightarrow> ds_grants b = ds_grants a \<and> ds_contracts b = ds_contracts a \<and>
     ds_policy b = ds_policy a \<and> ds_grant_id_high_water b = ds_grant_id_high_water a \<and> ds_fences b = ds_fences a"
  "prune_evidence cfg a = (EC_Ok, b) \<Longrightarrow> ds_grants b = ds_grants a \<and> ds_contracts b = ds_contracts a \<and>
     ds_policy b = ds_policy a \<and> ds_grant_id_high_water b = ds_grant_id_high_water a \<and> ds_fences b = ds_fences a"
  by (auto simp: prune_fences_def prune_decisions_def prune_restorations_def prune_evidence_def Let_def bumps_def acct_bump
      split: if_splits sum.splits dest: in_set_takeD)

text \<open>
  What retention of a table promises: of \<open>old\<close> it keeps as many entries as the bound allows, no others, and
  none of those it drops is newer than one it keeps.
\<close>

definition keeps_newest :: "('a \<Rightarrow> u64) \<Rightarrow> nat \<Rightarrow> 'a list \<Rightarrow> 'a list \<Rightarrow> bool" where
  "keeps_newest tick bound old kept \<longleftrightarrow>
     mset kept \<subseteq># mset old \<and> length kept = min bound (length old) \<and>
     (\<forall>x \<in># mset old - mset kept. \<forall>y \<in> set kept. tick x \<le> tick y)"

lemma keeps_newest_mset: "mset ys = mset zs \<Longrightarrow> keeps_newest tick n xs ys \<longleftrightarrow> keeps_newest tick n xs zs"
  unfolding keeps_newest_def by (metis mset_eq_length mset_eq_setD)

lemma keeps_newest_all: "length xs \<le> n \<Longrightarrow> keeps_newest tick n xs xs"
  by (simp add: keeps_newest_def)

lemma keeps_newest_take:
  assumes "strict_weak_order lt" and "\<And>x y. \<not> lt x y \<Longrightarrow> tick x \<le> tick y"
  shows "keeps_newest tick n xs (take n (sort_by lt xs))"
proof -
  let ?s = "sort_by lt xs"
  have split: "mset xs = mset (take n ?s) + mset (drop n ?s)"
    by (metis append_take_drop_id mset_append mset_sort_by)
  have "sorted_wrt (\<lambda>a b. \<not> lt b a) (take n ?s @ drop n ?s)"
    using strict_weak_order.sorted_sort_by [OF assms(1)] by simp
  then have "\<forall>x \<in> set (drop n ?s). \<forall>y \<in> set (take n ?s). tick x \<le> tick y"
    using assms(2) unfolding sorted_wrt_append by blast
  then show ?thesis
    by (simp add: keeps_newest_def split)
qed

interpretation newest_fence_order: strict_weak_order newest_fence_less
  by unfold_locales (auto simp: newest_fence_less_def split: if_splits)

interpretation newest_decision_order: strict_weak_order newest_decision_less
  by unfold_locales (auto simp: newest_decision_less_def split: if_splits)

interpretation newest_restoration_order: strict_weak_order newest_restoration_less
  by unfold_locales (auto simp: newest_restoration_less_def split: if_splits)

interpretation newest_evidence_order: strict_weak_order newest_evidence_less
  by unfold_locales (auto simp: newest_evidence_less_def split: if_splits)

lemma newest_grants: "keeps_newest gr_last_transition_tick n gs (take n (sort_by newest_grant_less gs))"
  by (rule keeps_newest_take [OF newest_grant_order.strict_weak_order_axioms])
    (auto simp: newest_grant_less_def split: if_splits)

lemma newest_fences: "keeps_newest fr_fenced_tick n fs (take n (sort_by newest_fence_less fs))"
  by (rule keeps_newest_take [OF newest_fence_order.strict_weak_order_axioms])
    (auto simp: newest_fence_less_def split: if_splits)

lemma newest_decisions: "keeps_newest de_decided_tick n ds (take n (sort_by newest_decision_less ds))"
  by (rule keeps_newest_take [OF newest_decision_order.strict_weak_order_axioms])
    (auto simp: newest_decision_less_def split: if_splits)

lemma newest_restorations: "keeps_newest re_evaluated_tick n rs (take n (sort_by newest_restoration_less rs))"
  by (rule keeps_newest_take [OF newest_restoration_order.strict_weak_order_axioms])
    (auto simp: newest_restoration_less_def split: if_splits)

lemma newest_evidence: "keeps_newest ei_observed_tick n es (take n (sort_by newest_evidence_less es))"
  by (rule keeps_newest_take [OF newest_evidence_order.strict_weak_order_axioms])
    (auto simp: newest_evidence_less_def split: if_splits)

text \<open>What retention makes of the historical evidence.\<close>

definition evidence_kept :: "StoreConfig \<Rightarrow> EvidenceItem list \<Rightarrow> EvidenceItem list \<Rightarrow> bool" where
  "evidence_kept cfg old new \<longleftrightarrow>
     (if length old < so_max_retained_evidence cfg then new = old
      else \<exists>recent. keeps_newest ei_observed_tick
             (if so_max_retained_evidence cfg > 4 then size_mul (so_max_retained_evidence cfg) 3 div 4 else 0) old recent \<and>
           set new \<subseteq> set recent \<and> length new \<le> length recent \<and>
           (\<forall>i \<in> set recent. \<exists>j \<in> set new. same_source i j \<and> ei_generation i \<le> ei_generation j))"

lemma errors_not_Ok:
  "add_all EvidenceVector_push xs v \<noteq> Inl EC_Ok" "supersede kept items \<noteq> Inl EC_Ok"
  subgoal by (induction xs arbitrary: v) (auto simp: EvidenceVector_push_def split: sum.splits if_splits)
  subgoal by (induction kept items rule: supersede.induct) auto
  done

lemma pushed_items: "add_all EvidenceVector_push xs v = Inr w \<Longrightarrow> ev_items w = ev_items v @ xs"
  by (induction xs arbitrary: v) (auto simp: EvidenceVector_push_def split: sum.splits if_splits)

lemma supersede_length: "supersede kept items = Inr r \<Longrightarrow> length r \<le> length kept + length items"
  by (induction kept items rule: supersede.induct) (auto split: if_splits)

lemma prune_evidence_kept:
  assumes "prune_evidence cfg s = (EC_Ok, t)"
  shows "evidence_kept cfg (ev_items (ds_historical_evidence s)) (ev_items (ds_historical_evidence t))"
proof (cases "length (ev_items (ds_historical_evidence s)) < so_max_retained_evidence cfg")
  case True
  then show ?thesis
    using assms by (simp add: prune_evidence_def evidence_kept_def)
next
  case False
  let ?n = "if so_max_retained_evidence cfg > 4 then size_mul (so_max_retained_evidence cfg) 3 div 4 else 0"
  let ?recent = "take ?n (sort_by newest_evidence_less (ev_items (ds_historical_evidence s)))"
  obtain w normal where run: "add_all EvidenceVector_push ?recent (new_evidence_vector (length ?recent + 1)) = Inr w"
      "EvidenceVector_normalize w = Inr normal" "ds_historical_evidence t = normal"
    using assms False
    by (auto simp: prune_evidence_def Let_def errors_not_Ok EvidenceVector_normalize_def split: sum.splits if_splits)
  have items: "ev_items w = ?recent"
    using pushed_items [OF run(1)] by (simp add: new_evidence_vector_def)
  have "length (ev_items normal) \<le> length ?recent"
    using run(2) supersede_length [of "[]"] items by (fastforce simp: EvidenceVector_normalize_def split: sum.splits)
  moreover have "set (ev_items normal) \<subseteq> set ?recent \<and>
      (\<forall>i \<in> set ?recent. \<exists>j \<in> set (ev_items normal). same_source i j \<and> ei_generation i \<le> ei_generation j)"
    using normalize_keeps_newest [OF run(2), unfolded items] by (elim conjE) (rule conjI)
  ultimately show ?thesis
    using False newest_evidence [of ?n] run(3) unfolding evidence_kept_def if_not_P [OF False] by blast
qed

lemma prune_stages_keep:
  "prune_fences cfg a = (EC_Ok, b) \<Longrightarrow>
     keeps_newest fr_fenced_tick (so_max_retained_fences cfg) (ds_fences a) (ds_fences b) \<and>
     ds_decisions b = ds_decisions a \<and> ds_restorations b = ds_restorations a \<and>
     ds_historical_evidence b = ds_historical_evidence a"
  "prune_decisions cfg a = (EC_Ok, b) \<Longrightarrow>
     keeps_newest de_decided_tick (so_max_retained_decisions cfg) (ds_decisions a) (ds_decisions b) \<and>
     ds_restorations b = ds_restorations a \<and> ds_historical_evidence b = ds_historical_evidence a"
  "prune_restorations cfg a = (EC_Ok, b) \<Longrightarrow>
     keeps_newest re_evaluated_tick (so_max_retained_decisions cfg) (ds_restorations a) (ds_restorations b) \<and>
     ds_decisions b = ds_decisions a \<and> ds_historical_evidence b = ds_historical_evidence a"
  "prune_evidence cfg a = (EC_Ok, b) \<Longrightarrow> ds_decisions b = ds_decisions a \<and> ds_restorations b = ds_restorations a"
  by (auto simp: prune_fences_def prune_decisions_def prune_restorations_def prune_evidence_def Let_def bumps_def acct_bump
      newest_fences newest_decisions newest_restorations keeps_newest_all keeps_newest_mset [OF mset_sort_by]
      split: if_splits sum.splits)

lemma prune_grants_rest:
  assumes "prune_grants cfg s = (EC_Ok, a)"
  shows "ds_decisions a = ds_decisions s" "ds_restorations a = ds_restorations s"
    "ds_historical_evidence a = ds_historical_evidence s"
  by (rule prune_grants_Ok [OF assms]; simp)+

text \<open>
  C26. Retention is bounded, drops the oldest and never touches authority. Pruning keeps every live grant exactly as it is and
  leaves contracts, policy and the grant identity high-water mark alone. Of the terminated grants it keeps the
  newest, as many as the bound leaves beside the live ones; of the fences, decisions and restorations the newest, as many as
  their bounds allow; nothing is invented. Historical evidence below its bound is left alone; at the bound it is
  rebuilt from the newest three quarters (none when the bound is at most four), of which only the observation with the highest
  generation of each source is kept.
\<close>

theorem prune_keeps_live:
  assumes "prune cfg s = (EC_Ok, t)"
  shows "mset (filter Grant_live (ds_grants t)) = mset (filter Grant_live (ds_grants s)) \<and>
    keeps_newest gr_last_transition_tick (so_max_retained_grants cfg - live_grant_count s)
      (filter (\<lambda>g. \<not> Grant_live g) (ds_grants s)) (filter (\<lambda>g. \<not> Grant_live g) (ds_grants t)) \<and>
    length (ds_grants t) \<le> max (live_grant_count s) (so_max_retained_grants cfg) \<and>
    keeps_newest fr_fenced_tick (so_max_retained_fences cfg) (ds_fences s) (ds_fences t) \<and>
    keeps_newest de_decided_tick (so_max_retained_decisions cfg) (ds_decisions s) (ds_decisions t) \<and>
    keeps_newest re_evaluated_tick (so_max_retained_decisions cfg) (ds_restorations s) (ds_restorations t) \<and>
    evidence_kept cfg (ev_items (ds_historical_evidence s)) (ev_items (ds_historical_evidence t)) \<and>
    ds_contracts t = ds_contracts s \<and> ds_policy t = ds_policy s \<and> ds_grant_id_high_water t = ds_grant_id_high_water s"
proof -
  obtain a b c d where run: "prune_grants cfg s = (EC_Ok, a)" "prune_fences cfg a = (EC_Ok, b)" "prune_decisions cfg b = (EC_Ok, c)"
      "prune_restorations cfg c = (EC_Ok, d)" "prune_evidence cfg d = (EC_Ok, t)"
    using assms by (auto simp: prune_def status_then_Ok)
  note kept = prune_grants_keeps [OF run(1)] prune_rest_keeps(1) [OF run(2)] prune_rest_keeps(2) [OF run(3)]
    prune_rest_keeps(3) [OF run(4)] prune_rest_keeps(4) [OF run(5)]
  note stages = prune_grants_rest [OF run(1)] prune_stages_keep(1) [OF run(2)] prune_stages_keep(2) [OF run(3)]
    prune_stages_keep(3) [OF run(4)] prune_stages_keep(4) [OF run(5)] prune_evidence_kept [OF run(5)]
  let ?dead = "\<lambda>gs. filter (\<lambda>g. \<not> Grant_live g) gs"
  have grants: "mset (ds_grants t) = mset (filter Grant_live (ds_grants s)) + mset (kept_grants cfg s)"
    using kept by simp
  have "\<forall>g \<in> set (kept_grants cfg s). \<not> Grant_live g"
    by (auto simp: kept_grants_def dest!: in_set_takeD)
  then have "filter_mset Grant_live (mset (kept_grants cfg s)) = {#}"
    and "filter_mset (\<lambda>g. \<not> Grant_live g) (mset (kept_grants cfg s)) = mset (kept_grants cfg s)"
    by (auto simp: filter_mset_eq_conv simp flip: mset_filter)
  then have live: "mset (filter Grant_live (ds_grants t)) = mset (filter Grant_live (ds_grants s))"
    and ended: "mset (?dead (ds_grants t)) = mset (kept_grants cfg s)"
    by (simp_all add: grants filter_filter_mset)
  have "keeps_newest gr_last_transition_tick (so_max_retained_grants cfg - live_grant_count s) (?dead (ds_grants s)) (?dead (ds_grants t))"
    unfolding keeps_newest_mset [OF ended] kept_grants_def by (rule newest_grants)
  moreover have "length (ds_grants t) \<le> max (live_grant_count s) (so_max_retained_grants cfg)"
    using arg_cong [OF grants, of size] by (simp add: kept_grants_def live_grant_count_def flip: mset_filter)
  moreover have "keeps_newest fr_fenced_tick (so_max_retained_fences cfg) (ds_fences s) (ds_fences t)"
    using kept stages by simp
  moreover have "keeps_newest de_decided_tick (so_max_retained_decisions cfg) (ds_decisions s) (ds_decisions t)"
    "keeps_newest re_evaluated_tick (so_max_retained_decisions cfg) (ds_restorations s) (ds_restorations t)"
    "evidence_kept cfg (ev_items (ds_historical_evidence s)) (ev_items (ds_historical_evidence t))"
    using stages by simp_all
  moreover have "ds_contracts t = ds_contracts s \<and> ds_policy t = ds_policy s \<and> ds_grant_id_high_water t = ds_grant_id_high_water s"
    using kept by simp
  ultimately show ?thesis
    using live by blast
qed

definition crowded_state :: DurableState where
  "crowded_state = new_state\<lparr>ds_grants := [sample_grant\<lparr>gr_id := 1, gr_state := GS_Fenced\<rparr>, issued_grant 2],
     ds_fences := [new_fence\<lparr>fr_id := 1, fr_fenced_tick := 3\<rparr>, new_fence\<lparr>fr_id := 2, fr_fenced_tick := 7\<rparr>]\<rparr>"

lemma keeps_newest_one:
  assumes "keeps_newest tick 1 [x, y] kept" and "tick x < tick y"
  shows "kept = [y]"
proof -
  obtain z where z: "kept = [z]"
    using assms(1) by (auto simp: keeps_newest_def length_Suc_conv)
  then have "z = x \<or> z = y"
    using assms(1) by (auto simp: keeps_newest_def dest: mset_subset_eqD)
  then show ?thesis
    using assms z by (auto simp: keeps_newest_def)
qed

theorem prune_keeps_live_witness:
  "\<exists>t. prune (small_store\<lparr>so_max_retained_grants := 1, so_max_retained_fences := 1\<rparr>) crowded_state = (EC_Ok, t) \<and>
     mset (filter Grant_live (ds_grants t)) = {#issued_grant 2#} \<and>
     ds_fences t = [new_fence\<lparr>fr_id := 2, fr_fenced_tick := 7\<rparr>]"
proof -
  let ?cfg = "small_store\<lparr>so_max_retained_grants := 1, so_max_retained_fences := 1\<rparr>"
  have "fst (prune ?cfg crowded_state) = EC_Ok"
    by (simp add: crowded_state_def small_store_def new_state_def issued_grant_def sample_grant_def prune_def status_then_def
        prune_grants_def prune_fences_def prune_decisions_def prune_restorations_def prune_evidence_def live_grant_count_def
        Grant_live_def grant_state_live_def grant_state_terminal_def Let_def acct_def record_grant_pruned_def bump_def
        record_fences_pruned_def checked_add_def no_counters_def new_evidence_vector_def)
  then have p: "prune ?cfg crowded_state = (EC_Ok, snd (prune ?cfg crowded_state))"
    by (simp add: prod_eq_iff)
  moreover have "filter Grant_live (ds_grants crowded_state) = [issued_grant 2]"
    by (simp add: crowded_state_def issued_grant_def Grant_live_def grant_state_live_def grant_state_terminal_def)
  moreover have "ds_fences (snd (prune ?cfg crowded_state)) = [new_fence\<lparr>fr_id := 2, fr_fenced_tick := 7\<rparr>]"
    by (rule keeps_newest_one [of fr_fenced_tick "new_fence\<lparr>fr_id := 1, fr_fenced_tick := 3\<rparr>"])
      (use prune_keeps_live [OF p] in \<open>simp_all add: crowded_state_def\<close>)
  ultimately show ?thesis
    using prune_keeps_live [OF p] by auto
qed


section \<open>Where retention goes wrong\<close>

text \<open>
  Retention of historical evidence gives the rebuilt vector a limit of one more than the observations it was rebuilt
  from: from then on the store holds at most three quarters of the configured bound plus one, and refuses every
  further \<open>EvidencePublished\<close> record once it is there.
\<close>

lemma push_limit: "add_all EvidenceVector_push xs v = Inr w \<Longrightarrow> ev_limit w = ev_limit v"
  by (induction xs arbitrary: v) (auto simp: EvidenceVector_push_def split: sum.splits if_splits)

lemma evidence_retention_shrinks_limit:
  assumes "prune_evidence cfg s = (EC_Ok, t)"
    and "so_max_retained_evidence cfg \<le> length (ev_items (ds_historical_evidence s))" and "4 < so_max_retained_evidence cfg"
  shows "ev_limit (ds_historical_evidence t) \<le> size_mul (so_max_retained_evidence cfg) 3 div 4 + 1"
  using assms
  by (auto simp: prune_evidence_def Let_def EvidenceVector_normalize_def new_evidence_vector_def errors_not_Ok
      dest!: push_limit split: sum.splits)

lemma full_evidence_refused:
  "ev_limit (ds_historical_evidence s) \<le> length (ev_items (ds_historical_evidence s)) \<Longrightarrow> fst (evidence_record i s) \<noteq> EC_Ok"
  by (auto simp: evidence_record_def EvidenceVector_push_def)

text \<open>
  Retention reorders and shrinks the grant table, but nothing rebuilds the coordinator's index then: a lookup through
  the old index answers with another grant.
\<close>

definition unsorted_grants :: "Grant list" where
  "unsorted_grants = [issued_grant 3, sample_grant\<lparr>gr_id := 2, gr_state := GS_Fenced\<rparr>, issued_grant 1]"

lemma pruned_table_outdates_index:
  "map_option gr_id (GrantTable_find (GrantTable_rebuild unsorted_grants (new_grant_table 4))
     (ds_grants (snd (prune_grants (small_store\<lparr>so_max_retained_grants := 1\<rparr>) (new_state\<lparr>ds_grants := unsorted_grants\<rparr>)))) 3)
   = Some 1"
proof -
  have "ds_grants (snd (prune_grants (small_store\<lparr>so_max_retained_grants := 1\<rparr>) (new_state\<lparr>ds_grants := unsorted_grants\<rparr>))) =
      [issued_grant 1, issued_grant 3]"
    by (simp add: unsorted_grants_def prune_grants_def Let_def live_grant_count_def issued_grant_def sample_grant_def
        Grant_live_def grant_state_live_def grant_state_terminal_def status_then_def acct_def record_grant_pruned_def bump_def
        checked_add_def new_state_def no_counters_def small_store_def grant_id_less_def)
  then show ?thesis
    by (simp add: GrantTable_find_def GrantTable_rebuild_def Let_def unsorted_grants_def emplace_def issued_grant_def
        new_grant_table_def)
qed

end
