(* ===== verification/State_Store.thy ===== *)
theory State_Store
  imports File_Io Store_Lifecycle
begin

text \<open>
  The durable store (\<open>StateStore\<close> of \<open>src/store/state_store.cpp\<close>): appending records, recovery, snapshots and
  closing. The operations take the members of \<open>StateStore::Impl\<close> and the store root and return both. A configured
  crash boundary ends the process: the operation then has no result, and the store root keeps what was written
  before it.
\<close>

section \<open>The store\<close>

datatype 'a outcome = Done 'a | Crashed

record StoreImpl =
  im_config :: StoreConfig
  im_state :: DurableState
  im_recovery :: RecoveryOutcome
  im_recovery_detail :: string
  im_journal :: "string option"
  im_lock :: bool
  im_journal_name :: string
  im_base_sequence :: u64
  im_records_in_segment :: u64
  im_bytes_in_segment :: u64
  im_closed :: bool

definition new_impl :: "StoreConfig \<Rightarrow> StoreImpl" where
  "new_impl cfg = \<lparr>im_config = cfg, im_state = new_state, im_recovery = RV_FreshStore, im_recovery_detail = [],
     im_journal = None, im_lock = False, im_journal_name = [], im_base_sequence = 0, im_records_in_segment = 0,
     im_bytes_in_segment = 0, im_closed = False\<rparr>"

type_synonym store = "StoreImpl \<times> StoreRoot"

definition decode_payload :: "RecordType \<Rightarrow> u8 list \<Rightarrow> RecordPayload result" where
  "decode_payload type payload =
     (case decode_record_payload type (new_reader payload kMaxBlobBytes) of
        (Inl e, _) \<Rightarrow> Inl e
      | (Inr decoded, r) \<Rightarrow> if decode_finish r \<noteq> EC_Ok then Inl (decode_finish r) else Inr decoded)"

definition record_frame_header :: "RecordType \<Rightarrow> u64 \<Rightarrow> u8 list \<Rightarrow> RecordHeader" where
  "record_frame_header type sequence payload =
     \<lparr>rh_version = kDurableFormatVersion, rh_type = type, rh_flags = 0, rh_sequence = sequence,
      rh_payload_length = of_nat (length payload)\<rparr>"

definition retention_due :: "StoreConfig \<Rightarrow> DurableState \<Rightarrow> bool" where
  "retention_due cfg s \<longleftrightarrow>
     length (ds_grants s) > size_mul (so_max_retained_grants cfg) 2 \<or>
     length (ds_fences s) > size_mul (so_max_retained_fences cfg) 2 \<or>
     length (ds_decisions s) > size_mul (so_max_retained_decisions cfg) 2 \<or>
     length (ev_items (ds_historical_evidence s)) \<ge> so_max_retained_evidence cfg"

definition prune_when_due :: "StoreConfig \<Rightarrow> DurableState \<Rightarrow> status \<times> DurableState" where
  "prune_when_due cfg s = (if retention_due cfg s then prune cfg s else (EC_Ok, s))"

definition append_batched :: "RecordType \<Rightarrow> u8 list \<Rightarrow> store \<Rightarrow> status \<times> store" where
  "append_batched type payload st =
     (case st of (impl, w) \<Rightarrow>
      if im_closed impl then (EC_InvalidState, impl, w)
      else if so_read_only (im_config impl) then (EC_InvalidState, impl, w)
      else if length payload > kMaxRecordPayload then (EC_CapacityExceeded, impl, w)
      else case decode_payload type payload of
        Inl e \<Rightarrow> (e, impl, w)
      | Inr decoded \<Rightarrow>
      (case checked_add (ds_journal_sequence (im_state impl)) 1 of
        None \<Rightarrow> (EC_Overflow, impl, w)
      | Some sequence \<Rightarrow>
         let bytes = encode_record (record_frame_header type sequence payload) payload
         in case im_journal impl of
              None \<Rightarrow> (EC_IoError, impl, w)
            | Some name \<Rightarrow>
               let w = write_all_to name bytes w;
                   impl = impl\<lparr>im_state := (im_state impl)\<lparr>ds_journal_sequence := sequence\<rparr>\<rparr>
               in case checked_add (ds_journal_records (im_state impl)) 1 of
                    None \<Rightarrow> (EC_Overflow, impl, w)
                  | Some records \<Rightarrow>
                     let impl = impl\<lparr>im_state := (im_state impl)\<lparr>ds_journal_records := records\<rparr>,
                                     im_records_in_segment := im_records_in_segment impl + 1\<rparr>
                     in case checked_add (im_bytes_in_segment impl) (of_nat (length bytes)) of
                          None \<Rightarrow> (EC_Overflow, impl, w)
                        | Some total_bytes \<Rightarrow>
                           (case status_then (acct (record_journal_write 1 (of_nat (length bytes))))
                                  (status_then (apply_record type decoded (im_config impl))
                                               (prune_when_due (im_config impl)))
                                  (im_state impl) of
                              (e, s) \<Rightarrow> (e, impl\<lparr>im_state := s, im_bytes_in_segment := total_bytes\<rparr>, w))))"

definition store_flush :: "store \<Rightarrow> status" where
  "store_flush st =
     (case st of (impl, w) \<Rightarrow>
      if im_closed impl then EC_InvalidState
      else if so_read_only (im_config impl) then EC_InvalidState
      else case im_journal impl of None \<Rightarrow> EC_InvalidState | Some _ \<Rightarrow> EC_Ok)"

text \<open>A crash boundary that is configured (not zero) and equals the ordinal of this append.\<close>

definition crash_at :: "u64 \<Rightarrow> u64 \<Rightarrow> bool" where
  "crash_at boundary ordinal \<longleftrightarrow> boundary \<noteq> 0 \<and> boundary = ordinal"

definition store_append :: "RecordType \<Rightarrow> u8 list \<Rightarrow> store \<Rightarrow> status outcome \<times> store" where
  "store_append type payload st =
     (let cfg = im_config (fst st);
          ordinal = ds_journal_records (im_state (fst st)) + 1
      in if crash_at (so_crash_before_record cfg) ordinal then (Crashed, st)
         else case append_batched type payload st of (e, st') \<Rightarrow>
           if e \<noteq> EC_Ok then (Done e, st')
           else if crash_at (so_crash_after_write_record cfg) ordinal then (Crashed, st')
           else if store_flush st' \<noteq> EC_Ok then (Done (store_flush st'), st')
           else if crash_at (so_crash_after_record cfg) ordinal then (Crashed, st')
           else (Done EC_Ok, st'))"

definition rotation_due :: "StoreImpl \<Rightarrow> bool" where
  "rotation_due impl \<longleftrightarrow>
     \<not> so_read_only (im_config impl) \<and>
     (im_records_in_segment impl \<ge> so_max_records_per_segment (im_config impl) \<or>
      im_bytes_in_segment impl \<ge> so_max_journal_bytes (im_config impl))"

definition close_store :: "store \<Rightarrow> status \<times> store" where
  "close_store st =
     (case st of (impl, w) \<Rightarrow>
      if im_closed impl then (EC_Ok, impl, w)
      else let w = LockFile_release (im_lock impl) w;
               impl = impl\<lparr>im_closed := True, im_lock := False\<rparr>
           in if so_read_only (im_config impl) then (EC_Ok, impl, w)
              else case im_journal impl of
                     None \<Rightarrow> (EC_Ok, impl, w)
                   | Some name \<Rightarrow>
                      (EC_Ok, impl\<lparr>im_journal := None\<rparr>,
                       write_all_to name
                         (encode_journal_footer \<lparr>jf_record_count = im_records_in_segment impl,
                            jf_last_sequence = ds_journal_sequence (im_state impl)\<rparr>) w))"

section \<open>Snapshots and rotation\<close>

definition segment_header :: "u64 \<Rightarrow> u64 \<Rightarrow> u8 list" where
  "segment_header boot base = encode_journal_header
     \<lparr>jh_version = kDurableFormatVersion, jh_boot = boot, jh_base_sequence = base\<rparr>"

definition segment_boot :: "DurableState \<Rightarrow> u64" where
  "segment_boot s = (if valid_id (ds_boot s) then ds_boot s else 1)"

definition checkpoint_bytes :: "DurableState \<Rightarrow> u8 list" where
  "checkpoint_bytes s = bw_data (encode_AccountingCounters (ds_counters s) (new_writer kMaxDocumentBytes kMaxBlobBytes))"

definition state_writer :: "StoreConfig \<Rightarrow> DurableState \<Rightarrow> byte_writer" where
  "state_writer cfg s =
     encode_DurableState s (new_writer (min (unat (so_max_snapshot_bytes cfg)) kMaxDocumentBytes) kMaxBlobBytes)"

definition stale_snapshot :: "u64 \<Rightarrow> string \<Rightarrow> bool" where
  "stale_snapshot newest name \<longleftrightarrow>
     (case parse_snapshot_file_name name of Inr parsed \<Rightarrow> parsed < newest | Inl _ \<Rightarrow> False)"

definition stale_journal :: "string \<Rightarrow> string \<Rightarrow> string \<Rightarrow> bool" where
  "stale_journal next_name previous_name name \<longleftrightarrow>
     \<not> isl (parse_journal_file_name name) \<and> isl (parse_snapshot_file_name name) \<and>
     name \<noteq> next_name \<and> name \<noteq> previous_name"

definition remove_files :: "string list \<Rightarrow> StoreRoot \<Rightarrow> StoreRoot" where
  "remove_files names w = fold remove_file names w"

text \<open>The part after the checkpoint record: the snapshot, the successor segment and the removal of what they supersede.\<close>

definition write_snapshot :: "store \<Rightarrow> status \<times> store" where
  "write_snapshot st =
     (case st of (impl, w) \<Rightarrow>
      let sequence = ds_journal_sequence (im_state impl);
          writer = state_writer (im_config impl) (im_state impl)
      in if \<not> bw_ok writer then (EC_CapacityExceeded, impl, w)
         else
           let payload = bw_data writer;
               header = \<lparr>sh_version = kDurableFormatVersion, sh_sequence = sequence,
                         sh_payload_length = of_nat (length payload), sh_payload_crc = 0\<rparr>;
               w = write_file_atomic (snapshot_file_name sequence) (encode_snapshot header payload) w;
               impl = impl\<lparr>im_state := snd (acct record_snapshot_taken (im_state impl))\<rparr>;
               journal_bytes = segment_header (segment_boot (im_state impl)) sequence;
               next_name = journal_file_name sequence;
               w = open_append next_name (write_file_atomic next_name journal_bytes w);
               previous_name = im_journal_name impl;
               impl = impl\<lparr>im_journal := Some next_name, im_journal_name := next_name, im_base_sequence := sequence,
                           im_records_in_segment := 0, im_bytes_in_segment := of_nat (length journal_bytes)\<rparr>
           in case list_directory w of
                Inl e \<Rightarrow> (e, impl, w)
              | Inr names \<Rightarrow>
                 (EC_Ok, impl,
                  remove_files (filter (stale_journal next_name previous_name) names)
                   (remove_files (if previous_name \<noteq> [] \<and> previous_name \<noteq> next_name then [previous_name] else [])
                     (remove_files (filter (stale_snapshot sequence) names) w))))"

definition take_snapshot :: "store \<Rightarrow> status outcome \<times> store" where
  "take_snapshot st =
     (case st of (impl, w) \<Rightarrow>
      if im_closed impl then (Done EC_InvalidState, impl, w)
      else if so_read_only (im_config impl) then (Done EC_InvalidState, impl, w)
      else if store_flush (impl, w) \<noteq> EC_Ok then (Done (store_flush (impl, w)), impl, w)
      else case prune (im_config impl) (im_state impl) of (e, s) \<Rightarrow>
        let impl = impl\<lparr>im_state := s\<rparr>
        in if e \<noteq> EC_Ok then (Done e, impl, w)
           else case store_append RT_AccountingCheckpoint (checkpoint_bytes s) (impl, w) of
                  (Crashed, st') \<Rightarrow> (Crashed, st')
                | (Done e, st') \<Rightarrow>
                   if e \<noteq> EC_Ok then (Done e, st')
                   else (case write_snapshot st' of (e, st'') \<Rightarrow> (Done e, st'')))"

section \<open>Recovery\<close>

text \<open>\<open>bytes\<close> is the whole segment; \<open>consumed\<close> is the read position, \<open>expected\<close> the next sequence number.\<close>

record Replay =
  rl_state :: DurableState
  rl_consumed :: nat
  rl_expected :: u64
  rl_count :: u64
  rl_footer :: bool
  rl_torn :: bool
  rl_torn_bytes :: nat

function replay :: "StoreConfig \<Rightarrow> bool \<Rightarrow> u8 list \<Rightarrow> nat \<Rightarrow> u64 \<Rightarrow> u64 \<Rightarrow> DurableState \<Rightarrow> Replay result" where
  "replay cfg have_snapshot bytes consumed expected cnt s =
     (let file_size = length bytes;
          here = \<lparr>rl_state = s, rl_consumed = consumed, rl_expected = expected, rl_count = cnt,
                  rl_footer = False, rl_torn = False, rl_torn_bytes = 0\<rparr>
      in if \<not> consumed < file_size then Inr here
      else let remaining = file_size - consumed;
               record_header = take kRecordHeaderSize (drop consumed bytes)
      in if length record_header = kJournalFooterSize \<and> magic_matches record_header kJournalFooterMagic
         then (case decode_journal_footer record_header of
                 Inl e \<Rightarrow> Inl e
               | Inr footer \<Rightarrow>
                  if jf_record_count footer \<noteq> cnt \<or> jf_last_sequence footer + 1 \<noteq> expected then Inl EC_Corrupt
                  else Inr (here\<lparr>rl_footer := True, rl_consumed := consumed + kJournalFooterSize\<rparr>))
      else if remaining < kRecordHeaderSize
           then if have_snapshot then Inl EC_Corrupt
                else Inr (here\<lparr>rl_torn := True, rl_torn_bytes := remaining\<rparr>)
      else case decode_record_header record_header of
        Inl e \<Rightarrow> Inl e
      | Inr r \<Rightarrow>
          if rh_sequence r \<noteq> expected then Inl EC_SequenceRegression
          else let start = consumed + kRecordHeaderSize;
                   needed = unat (rh_payload_length r) + kRecordTrailerSize
          in if start + needed > file_size
             then Inr (here\<lparr>rl_torn := True, rl_torn_bytes := file_size - start, rl_consumed := start\<rparr>)
             else let payload = take (unat (rh_payload_length r)) (drop start bytes);
                      stored_crc = read_u32_at (start + unat (rh_payload_length r)) bytes
             in if stored_crc \<noteq> crc32c payload 0 then Inl EC_IntegrityFailure
             else case decode_payload (rh_type r) payload of
               Inl e \<Rightarrow> Inl e
             | Inr decoded \<Rightarrow>
                (case apply_record (rh_type r) decoded cfg s of (e, s') \<Rightarrow>
                   if e \<noteq> EC_Ok then Inl e
                   else replay cfg have_snapshot bytes (start + needed) (expected + 1) (cnt + 1) s'))"
  by pat_completeness auto
termination
  by (relation "measure (\<lambda>(cfg, have_snapshot, bytes, consumed, expected, cnt, s). length bytes - consumed)")
    (auto simp: kRecordHeaderSize_def)

declare replay.simps [simp del]

definition text_bytes :: "string \<Rightarrow> u8 list" where
  "text_bytes text = map (\<lambda>c. of_nat (of_char c)) text"

definition check_config :: "StoreConfig \<Rightarrow> status" where
  "check_config cfg =
     (if so_root cfg = [] then EC_InvalidArgument
      else if \<not> is_text_safe (text_bytes (so_root cfg)) \<or> length (so_root cfg) > 4096 then EC_InvalidArgument
      else if so_max_retained_evidence cfg = 0 \<or> so_max_retained_grants cfg = 0 \<or> so_max_retained_fences cfg = 0
           then EC_InvalidArgument
      else EC_Ok)"

definition enter_root :: "StoreConfig \<Rightarrow> store \<Rightarrow> status \<times> store" where
  "enter_root cfg st =
     (case st of (impl, w) \<Rightarrow>
      if so_read_only cfg then (if sr_exists w then EC_Ok else EC_NotFound, impl, w)
      else case LockFile_acquire ''store.lock'' (ensure_directory w) of (e, w) \<Rightarrow>
             (e, impl\<lparr>im_lock := (e = EC_Ok)\<rparr>, w))"

definition is_staging :: "string \<Rightarrow> bool" where
  "is_staging name \<longleftrightarrow> length name > 8 \<and> drop (length name - 8) name = ''.staging''"

definition snapshot_sequences :: "string list \<Rightarrow> u64 list" where
  "snapshot_sequences names =
     sort (List.map_filter (\<lambda>name. case parse_snapshot_file_name name of Inr n \<Rightarrow> Some n | Inl _ \<Rightarrow> None) names)"

definition journal_sequences :: "string list \<Rightarrow> u64 list" where
  "journal_sequences names =
     sort (List.map_filter (\<lambda>name. case parse_snapshot_file_name name of
                                  Inr _ \<Rightarrow> None
                                | Inl _ \<Rightarrow> (case parse_journal_file_name name of Inr n \<Rightarrow> Some n | Inl _ \<Rightarrow> None)) names)"

definition load_snapshot :: "StoreConfig \<Rightarrow> u64 \<Rightarrow> StoreRoot \<Rightarrow> DurableState result" where
  "load_snapshot cfg sequence w =
     (case read_file (snapshot_file_name sequence) (unat (so_max_snapshot_bytes cfg + 4096)) w of
        Inl e \<Rightarrow> Inl e
      | Inr bytes \<Rightarrow>
         (case decode_snapshot bytes (unat (so_max_snapshot_bytes cfg)) of
            Inl e \<Rightarrow> Inl e
          | Inr (header, payload) \<Rightarrow>
             if sh_sequence header \<noteq> sequence then Inl EC_Corrupt
             else case decode_DurableState (new_reader payload kMaxBlobBytes) of
                    (Inl e, _) \<Rightarrow> Inl e
                  | (Inr s, r) \<Rightarrow> if decode_finish r \<noteq> EC_Ok then Inl (decode_finish r)
                                   else Inr (snd (acct record_snapshot_loaded s))))"

text \<open>The header of the active segment, then its records.\<close>

definition replay_segment :: "StoreConfig \<Rightarrow> bool \<Rightarrow> u64 \<Rightarrow> u8 list \<Rightarrow> DurableState \<Rightarrow> Replay result" where
  "replay_segment cfg have_snapshot active_base bytes s =
     (if length bytes < kJournalHeaderSize then Inl EC_Truncated
      else case decode_journal_header (take kJournalHeaderSize bytes) of
        Inl e \<Rightarrow> Inl e
      | Inr h \<Rightarrow>
         if jh_base_sequence h \<noteq> active_base then Inl EC_Corrupt
         else case replay cfg have_snapshot bytes kJournalHeaderSize (active_base + 1) 0 s of
                Inl e \<Rightarrow> Inl e
              | Inr r \<Rightarrow> if \<not> rl_torn r \<and> rl_consumed r < length bytes then Inl EC_TrailingGarbage else Inr r)"

definition recovery_text :: "bool \<Rightarrow> bool \<Rightarrow> Replay \<Rightarrow> string" where
  "recovery_text read_only have_snapshot r =
     (if rl_torn r
      then if read_only then ''a torn journal tail is present; a read-only open leaves it untouched''
           else ''discarded a torn journal tail and truncated the segment; every committed record was retained''
      else if have_snapshot
           then if rl_footer r then ''segment closed cleanly'' else ''segment replayed to its end''
      else ''journal replayed without a snapshot'')"

text \<open>What the replay leaves in the store: the outcome, the durable ordinals and the position in the segment.\<close>

definition adopt_replay :: "bool \<Rightarrow> string \<Rightarrow> u64 \<Rightarrow> nat \<Rightarrow> Replay \<Rightarrow> StoreImpl \<Rightarrow> status \<times> StoreImpl" where
  "adopt_replay have_snapshot active_name active_base file_size r impl =
     (let impl = impl\<lparr>im_recovery := (if rl_torn r then RV_TornTailRecovered else RV_CleanReopen),
                      im_recovery_detail := recovery_text (so_read_only (im_config impl)) have_snapshot r\<rparr>
      in case (if rl_torn r then acct record_torn_tail (rl_state r) else (EC_Ok, rl_state r)) of (e, s) \<Rightarrow>
        if e \<noteq> EC_Ok then (e, impl\<lparr>im_state := s\<rparr>)
        else case checked_add (ds_journal_records s) (rl_count r) of
          None \<Rightarrow> (EC_Overflow, impl\<lparr>im_state := s\<rparr>)
        | Some records \<Rightarrow>
           (EC_Ok,
            impl\<lparr>im_state := snd (acct (record_journal_read (rl_count r))
                    (s\<lparr>ds_journal_records := records, ds_journal_sequence := rl_expected r - 1\<rparr>)),
                 im_records_in_segment := rl_count r, im_bytes_in_segment := of_nat file_size,
                 im_journal_name := active_name, im_base_sequence := active_base\<rparr>))"

text \<open>Which file the store appends to from now on.\<close>

definition reopen_segment :: "bool \<Rightarrow> store \<Rightarrow> store" where
  "reopen_segment saw_footer st =
     (case st of (impl, w) \<Rightarrow>
      let active_name = im_journal_name impl
      in if saw_footer
         then let base = ds_journal_sequence (im_state impl);
                  successor = journal_file_name base
              in if successor = active_name
                 then (impl\<lparr>im_journal := Some active_name, im_bytes_in_segment := of_nat kJournalHeaderSize,
                            im_records_in_segment := 0\<rparr>,
                       truncate_file active_name kJournalHeaderSize (open_append active_name w))
                 else let bytes = segment_header (segment_boot (im_state impl)) base
                      in (impl\<lparr>im_journal := Some successor, im_journal_name := successor, im_base_sequence := base,
                               im_bytes_in_segment := of_nat (length bytes), im_records_in_segment := 0\<rparr>,
                          open_append successor (write_file_atomic successor bytes w))
         else (impl\<lparr>im_journal := Some active_name\<rparr>, open_append active_name w))"

definition torn_tail_bytes :: "nat \<Rightarrow> u8 list" where
  "torn_tail_bytes n = bw_data (ByteWriter_u64 (of_nat n) (new_writer 16 kMaxBlobBytes))"

definition recover_segment :: "bool \<Rightarrow> string \<Rightarrow> u64 \<Rightarrow> u8 list \<Rightarrow> store \<Rightarrow> status outcome \<times> store" where
  "recover_segment have_snapshot active_name active_base bytes st =
     (case st of (impl, w) \<Rightarrow>
      case replay_segment (im_config impl) have_snapshot active_base bytes (im_state impl) of
        Inl e \<Rightarrow> (Done e, impl, w)
      | Inr r \<Rightarrow>
         let w = (if rl_torn r \<and> \<not> so_read_only (im_config impl)
                  then truncate_file active_name (rl_consumed r) (open_append active_name w) else w)
         in case adopt_replay have_snapshot active_name active_base (length bytes) r impl of (e, impl) \<Rightarrow>
           if e \<noteq> EC_Ok then (Done e, impl, w)
           else if so_read_only (im_config impl) then (Done EC_Ok, impl, w)
           else let st = reopen_segment (rl_footer r) (impl, w)
                in if rl_torn r then store_append RT_TornTailObserved (torn_tail_bytes (rl_torn_bytes r)) st
                   else (Done EC_Ok, st))"

definition start_segment :: "bool \<Rightarrow> string \<Rightarrow> u64 \<Rightarrow> store \<Rightarrow> store" where
  "start_segment have_snapshot active_name active_base st =
     (case st of (impl, w) \<Rightarrow>
      let outcome = (if have_snapshot then RV_CleanReopen else RV_FreshStore)
      in if so_read_only (im_config impl)
         then (impl\<lparr>im_recovery := outcome,
                    im_recovery_detail := ''read-only open: no journal segment is present''\<rparr>, w)
         else let bytes = segment_header 1 active_base
              in (impl\<lparr>im_journal := Some active_name, im_journal_name := active_name, im_base_sequence := active_base,
                       im_bytes_in_segment := of_nat (length bytes), im_recovery := outcome,
                       im_recovery_detail := (if have_snapshot then ''snapshot loaded without a journal segment''
                                              else ''new store created'')\<rparr>,
                  open_append active_name (write_file_atomic active_name bytes w)))"

definition remove_superseded :: "u64 list \<Rightarrow> u64 list \<Rightarrow> u64 option \<Rightarrow> store \<Rightarrow> store" where
  "remove_superseded journals snapshots loaded st =
     (case st of (impl, w) \<Rightarrow>
      if so_read_only (im_config impl) then (impl, w)
      else (impl,
            remove_files (map snapshot_file_name
              (filter (\<lambda>n. \<not> (case loaded of Some m \<Rightarrow> n \<ge> m | None \<Rightarrow> False)) snapshots))
             (remove_files (map journal_file_name (filter (\<lambda>n. \<not> n \<ge> im_base_sequence impl) journals)) w)))"

text \<open>The body of \<open>open\<close> once the root is entered.\<close>

definition recover :: "store \<Rightarrow> status outcome \<times> store" where
  "recover st =
     (case st of (impl, w) \<Rightarrow>
      let cfg = im_config impl
      in case list_directory w of
        Inl e \<Rightarrow> (Done e, impl, w)
      | Inr names \<Rightarrow>
         let w = (if so_read_only cfg then w else remove_files (filter is_staging names) w);
             snapshots = snapshot_sequences names;
             journals = journal_sequences names;
             newest = (if snapshots = [] then None else Some (last snapshots))
         in case (case newest of None \<Rightarrow> Inr (im_state impl) | Some n \<Rightarrow> load_snapshot cfg n w) of
              Inl e \<Rightarrow> (Done e, impl, w)
            | Inr s \<Rightarrow>
               let have_snapshot = (newest \<noteq> None);
                   active_base = (case newest of None \<Rightarrow> im_base_sequence impl | Some n \<Rightarrow> n);
                   impl = impl\<lparr>im_state := s, im_base_sequence := active_base\<rparr>;
                   active_name = journal_file_name active_base
               in case (case file_bytes active_name w of
                          Some bytes \<Rightarrow> recover_segment have_snapshot active_name active_base bytes (impl, w)
                        | None \<Rightarrow> (Done EC_Ok, start_segment have_snapshot active_name active_base (impl, w))) of
                    (Crashed, st') \<Rightarrow> (Crashed, st')
                  | (Done e, st') \<Rightarrow>
                     if e \<noteq> EC_Ok then (Done e, st')
                     else (Done EC_Ok, remove_superseded journals snapshots newest st'))"

text \<open>
  \<open>StateStore::open\<close>: on any failure after its construction the half-open store is destroyed, which closes it.
  A crash keeps the lock in the operating system's hands, which releases it with the process.
\<close>

definition open_store :: "StoreConfig \<Rightarrow> StoreRoot \<Rightarrow> StoreImpl result outcome \<times> StoreRoot" where
  "open_store cfg w =
     (if check_config cfg \<noteq> EC_Ok then (Done (Inl (check_config cfg)), w)
      else case enter_root cfg (new_impl cfg, w) of (e, st) \<Rightarrow>
        if e \<noteq> EC_Ok then (Done (Inl e), snd (snd (close_store st)))
        else case recover st of
               (Crashed, st') \<Rightarrow> (Crashed, LockFile_release (im_lock (fst st')) (snd st'))
             | (Done e, st') \<Rightarrow>
                if e \<noteq> EC_Ok then (Done (Inl e), snd (snd (close_store st')))
                else (Done (Inr (fst st')), snd st'))"

end
