(* ===== verification/Store_View.thy ===== *)
theory Store_View
  imports State_Store
begin

text \<open>
  Some members of the durable state describe the store itself rather than what was committed: the position in the
  journal and the counters of journal and snapshot activity. Applying a record neither reads nor changes them, so two
  stores that agree on everything else commit alike.
\<close>

record JournalView =
  jv_sequence :: u64
  jv_records :: u64
  jv_written :: u64
  jv_read :: u64
  jv_bytes :: u64
  jv_taken :: u64
  jv_loaded :: u64

definition dress_counters :: "JournalView \<Rightarrow> AccountingCounters \<Rightarrow> AccountingCounters" where
  "dress_counters v c = c\<lparr>ac_journal_records_written := jv_written v, ac_journal_records_read := jv_read v,
     ac_journal_bytes_written := jv_bytes v, ac_snapshots_taken := jv_taken v, ac_snapshots_loaded := jv_loaded v\<rparr>"

definition dress :: "JournalView \<Rightarrow> DurableState \<Rightarrow> DurableState" where
  "dress v s = s\<lparr>ds_journal_sequence := jv_sequence v, ds_journal_records := jv_records v,
     ds_counters := dress_counters v (ds_counters s)\<rparr>"

definition view_of :: "DurableState \<Rightarrow> JournalView" where
  "view_of s = \<lparr>jv_sequence = ds_journal_sequence s, jv_records = ds_journal_records s,
     jv_written = ac_journal_records_written (ds_counters s), jv_read = ac_journal_records_read (ds_counters s),
     jv_bytes = ac_journal_bytes_written (ds_counters s), jv_taken = ac_snapshots_taken (ds_counters s),
     jv_loaded = ac_snapshots_loaded (ds_counters s)\<rparr>"

definition same_commitments :: "DurableState \<Rightarrow> DurableState \<Rightarrow> bool" where
  "same_commitments s t \<longleftrightarrow> (\<exists>v. t = dress v s)"

lemma dress_dress [simp]: "dress v (dress v' s) = dress v s"
  by (simp add: dress_def dress_counters_def)

lemma dress_view_of [simp]: "dress (view_of s) s = s"
  by (simp add: dress_def dress_counters_def view_of_def)

lemma same_commitments_refl [simp]: "same_commitments s s"
  by (metis dress_view_of same_commitments_def)

lemma same_commitments_sym: "same_commitments s t \<Longrightarrow> same_commitments t s"
  unfolding same_commitments_def by (metis dress_dress dress_view_of)

lemma same_commitments_trans: "same_commitments s t \<Longrightarrow> same_commitments t u \<Longrightarrow> same_commitments s u"
  unfolding same_commitments_def by auto

lemma same_commitments_dress [simp]: "same_commitments s (dress v t) \<longleftrightarrow> same_commitments s t"
  unfolding same_commitments_def by (metis dress_dress dress_view_of)

lemma dress_select [simp]:
  "ds_boot (dress v s) = ds_boot s" "ds_term (dress v s) = ds_term s"
  "ds_policy (dress v s) = ds_policy s" "ds_contracts (dress v s) = ds_contracts s"
  "ds_grants (dress v s) = ds_grants s" "ds_fences (dress v s) = ds_fences s"
  "ds_decisions (dress v s) = ds_decisions s" "ds_restorations (dress v s) = ds_restorations s"
  "ds_historical_evidence (dress v s) = ds_historical_evidence s"
  "ds_evidence_generation (dress v s) = ds_evidence_generation s"
  "ds_boot_count (dress v s) = ds_boot_count s"
  "ds_grant_id_high_water (dress v s) = ds_grant_id_high_water s"
  "ds_decision_id_high_water (dress v s) = ds_decision_id_high_water s"
  "ds_fence_id_high_water (dress v s) = ds_fence_id_high_water s"
  "ds_evidence_id_high_water (dress v s) = ds_evidence_id_high_water s"
  by (simp_all add: dress_def)

section \<open>Operations that do not look at the view\<close>

definition view_blind :: "(DurableState \<Rightarrow> status \<times> DurableState) \<Rightarrow> bool" where
  "view_blind f \<longleftrightarrow> (\<forall>v s. f (dress v s) = apsnd (dress v) (f s))"

lemma view_blind_then: "view_blind f \<Longrightarrow> view_blind g \<Longrightarrow> view_blind (status_then f g)"
  by (auto simp: view_blind_def status_then_def split: prod.split)

lemma view_blind_Pair: "(\<And>v s. f (dress v s) = dress v (f s)) \<Longrightarrow> view_blind (\<lambda>s. (e, f s))"
  by (simp add: view_blind_def)

lemma view_blind_bump:
  assumes "\<And>v c. get (dress_counters v c) = get c"
    and "\<And>v x c. upd (\<lambda>_. x) (dress_counters v c) = dress_counters v (upd (\<lambda>_. x) c)"
  shows "view_blind (acct (bump get upd n))"
  using assms by (auto simp: view_blind_def acct_def bump_def dress_def split: option.split)

lemma acct_bump_then: "acct (status_then (bump get upd n) g) = status_then (acct (bump get upd n)) (acct g)"
  by (auto simp: fun_eq_iff acct_def bump_def status_then_def split: prod.split option.split)

lemma view_blind_count:
  "view_blind (acct record_grant_issued)" "view_blind (acct record_grant_acknowledged)"
  "view_blind (acct record_grant_applied)" "view_blind (acct record_grant_fenced)"
  "view_blind (acct record_grant_expired)" "view_blind (acct record_grant_revoked)"
  "view_blind (acct (record_fences n))" "view_blind (acct record_boot)" "view_blind (acct record_term_advance)"
  "view_blind (acct record_torn_tail)"
  unfolding record_grant_issued_def record_grant_acknowledged_def record_grant_applied_def record_grant_fenced_def
    record_grant_expired_def record_grant_revoked_def record_fences_def record_boot_def record_term_advance_def
    record_torn_tail_def
  by (intro view_blind_bump; simp add: dress_counters_def)+

lemma view_blind_decision: "view_blind (acct (record_decision d))"
proof -
  have "view_blind (acct (bump ac_decisions_total ac_decisions_total_update n))" for n
    by (rule view_blind_bump) (simp_all add: dress_counters_def)
  then show ?thesis
    unfolding record_decision_def acct_bump_then
    by (cases d) (auto intro!: view_blind_then view_blind_bump simp: dress_counters_def)
qed

lemma view_blindD: "view_blind f \<Longrightarrow> f (dress v s) = apsnd (dress v) (f s)"
  by (simp add: view_blind_def)

lemma view_blind_transition: "view_blind (transition_grant k n t a q)"
  by (auto simp: view_blind_def transition_grant_def find_grant_def assign_grant_def dress_def split: option.split)

lemma view_blind_end: "view_blind (acct (count_end n))"
proof -
  have "view_blind (acct (Pair EC_Ok))"
    by (simp add: view_blind_def acct_def dress_def)
  then show ?thesis
    by (cases n) (simp_all add: count_end_def view_blind_count)
qed

lemma view_blind_fence: "view_blind (fence_record n f)"
  unfolding fence_record_def
  by (intro view_blind_then view_blind_transition view_blind_count view_blind_end)
    (simp add: view_blind_def add_fence_def dress_def)

lemma view_blind_simple:
  "view_blind (register_record c cfg)" "view_blind (retire_record k)" "view_blind (evidence_record i)"
  "view_blind (rebind_record k b)"
  by (auto simp: view_blind_def register_record_def retire_record_def evidence_record_def rebind_record_def
      find_grant_def assign_grant_def dress_def split: option.split sum.split)

lemma view_blind_after:
  "view_blind f \<Longrightarrow> (\<And>v s. g (dress v s) = dress v (g s)) \<Longrightarrow> view_blind (\<lambda>s. f (g s))"
  by (simp add: view_blind_def)

lemma view_blind_if:
  "(\<And>v s. c (dress v s) = c s) \<Longrightarrow> view_blind f \<Longrightarrow> view_blind g \<Longrightarrow> view_blind (\<lambda>s. if c s then f s else g s)"
  by (simp add: view_blind_def)

lemma view_blind_refuse: "view_blind (\<lambda>s. (e, s))"
  by (simp add: view_blind_def)

lemma view_blind_issue: "view_blind (issue_record g cfg)"
  unfolding issue_record_def [abs_def]
  by (intro view_blind_if view_blind_refuse view_blind_after [OF view_blind_count(1)])
    (simp_all add: live_grant_count_def, simp add: dress_def)

lemma view_blind_decide: "view_blind (decision_record d)"
  unfolding decision_record_def [abs_def]
  by (rule view_blind_after [OF view_blind_decision]) (simp add: dress_def)

lemma view_blind_term: "view_blind (term_record q)"
  unfolding term_record_def [abs_def]
  by (intro view_blind_if view_blind_refuse view_blind_after [OF view_blind_count(9)]) (simp_all, simp add: dress_def)

lemma view_blind_boot: "view_blind (boot_record b q t)"
proof -
  let ?counted = "status_then (acct record_boot) (acct record_term_advance)"
  let ?set = "\<lambda>s. s\<lparr>ds_boot := b, ds_term := q, ds_last_commit_tick := t\<rparr>"
  have "view_blind ?counted"
    by (intro view_blind_then view_blind_count)
  then have "view_blind (\<lambda>s. case checked_add (ds_boot_count s) 1 of
      None \<Rightarrow> (EC_Overflow, ?set s) | Some n \<Rightarrow> ?counted ((?set s)\<lparr>ds_boot_count := n\<rparr>))"
  proof -
    have "?set (dress v s) = dress v (?set s)" "(?set (dress v s))\<lparr>ds_boot_count := n\<rparr> = dress v ((?set s)\<lparr>ds_boot_count := n\<rparr>)"
      for v s n
      by (simp_all add: dress_def)
    then show ?thesis
      using view_blindD [OF \<open>view_blind ?counted\<close>] by (simp add: view_blind_def split: option.split)
  qed
  then show ?thesis
    unfolding boot_record_def [abs_def] Let_def
    by (intro view_blind_if view_blind_refuse) simp_all
qed

lemma view_blind_set:
  "(\<And>v s. f (dress v s) = dress v (f s)) \<Longrightarrow> view_blind (\<lambda>s. (EC_Ok, f s))"
  by (simp add: view_blind_def)

lemma apply_record_blind:
  assumes "type \<noteq> RT_AccountingCheckpoint"
  shows "view_blind (apply_record type p cfg)"
proof (cases type)
  case RT_GrantAcknowledged
  then show ?thesis
    using view_blind_then [OF view_blind_transition view_blind_count(2)] by (simp add: view_blind_def)
next
  case RT_GrantApplied
  then show ?thesis
    using view_blind_then [OF view_blind_transition view_blind_count(3)] by (simp add: view_blind_def)
qed (use assms view_blind_simple view_blind_issue view_blind_fence view_blind_decide view_blind_boot view_blind_term
      view_blind_count(10) in \<open>auto simp: view_blind_def, auto simp: dress_def\<close>)

lemma apply_record_same:
  assumes "same_commitments s t"
  shows "fst (apply_record type p cfg s) = fst (apply_record type p cfg t) \<and>
    same_commitments (snd (apply_record type p cfg s)) (snd (apply_record type p cfg t))"
proof (cases "type = RT_AccountingCheckpoint")
  case True
  obtain v where "t = dress v s"
    using assms by (auto simp: same_commitments_def)
  moreover have "\<exists>w. s\<lparr>ds_journal_sequence := a, ds_journal_records := b, ds_counters := c\<rparr> = dress w (s\<lparr>ds_counters := c\<rparr>)" for a b c
    by (rule exI [of _ "view_of (s\<lparr>ds_journal_sequence := a, ds_journal_records := b, ds_counters := c\<rparr>)"])
      (simp add: dress_def dress_counters_def view_of_def)
  ultimately show ?thesis
    using True by (simp add: acct_def Accounting_replace_def dress_def same_commitments_def)
next
  case False
  then show ?thesis
    using assms view_blindD [OF apply_record_blind [OF False]] by (auto simp: same_commitments_def)
qed

end
