(* ===== verification/Decoder_Errors.thy ===== *)
theory Decoder_Errors
  imports Store_Records
begin

text \<open>
  A decoder that refuses its input says so: the status it returns is never \<open>Ok\<close>. Callers test \<open>status.ok()\<close>
  only, so a refusal with an \<open>Ok\<close> code would be taken for a decoded value.
\<close>

definition honest :: "'a decoder \<Rightarrow> bool" where
  "honest d \<longleftrightarrow> (\<forall>r. fst (d r) \<noteq> Inl EC_Ok)"

definition honest_add :: "('b \<Rightarrow> 's \<Rightarrow> 's result) \<Rightarrow> bool" where
  "honest_add add \<longleftrightarrow> (\<forall>x s. add x s \<noteq> Inl EC_Ok)"

lemma honest_return: "honest (dec_return v)"
  by (simp add: honest_def dec_return_def)

lemma honest_fail: "e \<noteq> EC_Ok \<Longrightarrow> honest (dec_fail e)"
  by (simp add: honest_def dec_fail_def)

lemma honest_field: "(\<And>x. honest (k x)) \<Longrightarrow> honest (dec_field get k)"
  by (simp add: honest_def dec_field_def split: prod.split)

lemma honest_ok: "honest d \<Longrightarrow> honest (dec_ok d)"
  by (simp add: honest_def dec_ok_def)

lemma honest_sub: "honest d \<Longrightarrow> (\<And>x. honest (k x)) \<Longrightarrow> honest (dec_sub d k)"
  unfolding honest_def dec_sub_def by (auto split: prod.split sum.split) (metis fst_conv)

lemma honest_check: "honest d \<Longrightarrow> honest (dec_check s d)"
  by (simp add: dec_check_def honest_fail)

lemma honest_guard: "honest d \<Longrightarrow> honest (dec_guard c d)"
  by (simp add: dec_guard_def honest_fail)

lemma honest_let: "(\<And>x. x = v \<Longrightarrow> honest (f x)) \<Longrightarrow> honest (let x = v in f x)"
  by simp

lemma honest_loop: "honest d \<Longrightarrow> honest_add add \<Longrightarrow> honest (dec_loop n d add s)"
proof (induction n arbitrary: s)
  case (Suc n)
  then have "honest (case add x s of Inl e \<Rightarrow> dec_fail e | Inr s' \<Rightarrow> dec_loop n d add s')" for x
    by (auto simp: honest_add_def intro!: honest_fail split: sum.split)
  with Suc.prems(1) show ?case
    by (simp add: honest_sub)
qed (simp add: honest_return)

lemma honest_items: "honest d \<Longrightarrow> honest_add add \<Longrightarrow> (\<And>x. honest (k x)) \<Longrightarrow> honest (dec_items limit d add s k)"
  unfolding dec_items_def by (intro honest_field honest_ok honest_sub honest_loop)

lemma honest_values: "(\<And>x. honest (k x)) \<Longrightarrow> honest (dec_values limit get k)"
  unfolding dec_values_def by (intro honest_field honest_ok)

lemma honest_push_back: "honest_add push_back"
  by (simp add: honest_add_def push_back_def)

lemma honest_adds:
  "honest_add GuaranteeSet_insert" "honest_add GuaranteeEnvelope_insert" "honest_add EvidenceVector_push"
  by (auto simp: honest_add_def GuaranteeSet_insert_def GuaranteeEnvelope_insert_def EvidenceVector_push_def
      split: if_splits option.splits)

lemmas honest_intros = honest_return honest_let honest_ok honest_check honest_guard honest_items honest_values
  honest_field honest_sub honest_push_back honest_adds

lemma supersede_honest: "supersede kept is \<noteq> Inl EC_Ok"
  by (induction kept "is" rule: supersede.induct) (auto split: if_splits)

section \<open>Every decoder\<close>

lemma honest_Guarantee: "honest decode_Guarantee"
  unfolding decode_Guarantee_def by (intro honest_intros)

lemma honest_GuaranteeSet: "honest decode_GuaranteeSet"
  unfolding decode_GuaranteeSet_def by (intro honest_intros honest_Guarantee)

lemma honest_Concession: "honest decode_Concession"
  unfolding decode_Concession_def by (intro honest_intros)

lemma honest_GuaranteeWithdrawal: "honest decode_GuaranteeWithdrawal"
  unfolding decode_GuaranteeWithdrawal_def by (intro honest_intros)

lemma honest_GuaranteeDelta: "honest decode_GuaranteeDelta"
  unfolding decode_GuaranteeDelta_def by (intro honest_intros honest_Concession honest_GuaranteeWithdrawal)

lemma honest_ConcessionBound: "honest decode_ConcessionBound"
  unfolding decode_ConcessionBound_def by (intro honest_intros)

lemma honest_GuaranteeEnvelope: "honest decode_GuaranteeEnvelope"
  unfolding decode_GuaranteeEnvelope_def by (intro honest_intros honest_ConcessionBound)

lemma honest_ServiceContract: "honest decode_ServiceContract"
  unfolding decode_ServiceContract_def by (intro honest_intros honest_GuaranteeSet honest_GuaranteeEnvelope)

lemma honest_EvidenceItem: "honest decode_EvidenceItem"
  unfolding decode_EvidenceItem_def by (intro honest_intros)

lemma honest_EvidenceVector: "honest decode_EvidenceVector"
  unfolding decode_EvidenceVector_def
  by (intro honest_intros honest_EvidenceItem)
    (auto simp: EvidenceVector_normalize_def supersede_honest intro!: honest_return honest_fail split: sum.split)

lemma honest_AuthorityVector: "honest decode_AuthorityVector"
  unfolding decode_AuthorityVector_def by (intro honest_intros)

lemma honest_AuthorityBinding: "honest decode_AuthorityBinding"
  unfolding decode_AuthorityBinding_def by (intro honest_intros honest_AuthorityVector)

lemma honest_GuaranteeSupport: "honest decode_GuaranteeSupport"
  unfolding decode_GuaranteeSupport_def by (intro honest_intros)

lemma honest_Decision: "honest decode_Decision"
  unfolding decode_Decision_def by (intro honest_intros honest_AuthorityBinding honest_GuaranteeSet honest_GuaranteeDelta honest_GuaranteeSupport honest_EvidenceVector)

lemma honest_RestorationPrecondition: "honest decode_RestorationPrecondition"
  unfolding decode_RestorationPrecondition_def by (intro honest_intros)

lemma honest_PreconditionEvaluation: "honest decode_PreconditionEvaluation"
  unfolding decode_PreconditionEvaluation_def by (intro honest_intros honest_RestorationPrecondition)

lemma honest_RestorationEvaluation: "honest decode_RestorationEvaluation"
  unfolding decode_RestorationEvaluation_def by (intro honest_intros honest_AuthorityBinding honest_GuaranteeSet honest_PreconditionEvaluation)

lemma honest_Grant: "honest decode_Grant"
  unfolding decode_Grant_def by (intro honest_intros honest_AuthorityBinding honest_GuaranteeSet honest_GuaranteeDelta honest_EvidenceVector honest_RestorationPrecondition)

lemma honest_FenceRecord: "honest decode_FenceRecord"
  unfolding decode_FenceRecord_def by (intro honest_intros honest_AuthorityBinding)

lemma honest_PolicyRule: "honest decode_PolicyRule"
  unfolding decode_PolicyRule_def by (intro honest_intros)

lemma honest_ClassProfile: "honest decode_ClassProfile"
  unfolding decode_ClassProfile_def by (intro honest_intros honest_GuaranteeEnvelope)

lemma honest_Policy: "honest decode_Policy"
  unfolding decode_Policy_def by (intro honest_intros honest_PolicyRule honest_ClassProfile)

lemma honest_AccountingCounters: "honest decode_AccountingCounters"
  unfolding decode_AccountingCounters_def by (intro honest_intros)

lemma honest_record_payload: "honest (decode_record_payload type)"
  by (cases type)
    (auto simp: payload_id_def payload_sequence_def payload_move_def payload_fence_def
      intro!: honest_intros honest_ServiceContract honest_Policy honest_EvidenceItem honest_Grant honest_FenceRecord
        honest_AuthorityBinding honest_Decision honest_RestorationEvaluation honest_AccountingCounters)

end
