(* ===== verification/Store_Recovery.thy ===== *)
theory Store_Recovery
  imports Store_View Decoder_Errors
begin

text \<open>
  What recovery reconstructs: the replay of a segment is the application of its records in order, damage is
  refused, and the state a snapshot holds is the state that comes back.
\<close>

section \<open>Replay of a segment\<close>

fun frames :: "u64 \<Rightarrow> (RecordType \<times> u8 list) list \<Rightarrow> u8 list" where
  "frames n [] = []"
| "frames n ((type, payload) # rs) = encode_record (record_frame_header type n payload) payload @ frames (n + 1) rs"

fun apply_all :: "StoreConfig \<Rightarrow> (RecordType \<times> u8 list) list \<Rightarrow> DurableState \<Rightarrow> DurableState result" where
  "apply_all cfg [] s = Inr s"
| "apply_all cfg ((type, payload) # rs) s =
     (case decode_payload type payload of
        Inl e \<Rightarrow> Inl e
      | Inr decoded \<Rightarrow>
         (case apply_record type decoded cfg s of (e, s') \<Rightarrow>
            if e \<noteq> EC_Ok then Inl e else apply_all cfg rs s'))"

definition fits_journal :: "(RecordType \<times> u8 list) list \<Rightarrow> bool" where
  "fits_journal rs \<longleftrightarrow> list_all (\<lambda>(_, payload). length payload \<le> kMaxRecordPayload) rs"

lemma fits_journal_Cons [simp]:
  "fits_journal ((type, payload) # rs) \<longleftrightarrow> length payload \<le> kMaxRecordPayload \<and> fits_journal rs"
  by (simp add: fits_journal_def)

lemma payload_length_word:
  "length payload \<le> kMaxRecordPayload \<Longrightarrow> unat (of_nat (length payload) :: u32) = length payload"
  by (simp add: kMaxRecordPayload_def unat_of_nat take_bit_nat_eq_self)

lemma encode_frame_parts:
  assumes "length payload \<le> kMaxRecordPayload"
  shows "encode_record (record_frame_header type n payload) payload =
    with_crc (record_body (record_frame_header type n payload) (length payload)) @ with_crc payload"
  using assms by (intro encode_record_eq) (simp add: kMaxRecordPayload_def)

lemma record_header_ok_frame:
  "length payload \<le> kMaxRecordPayload \<Longrightarrow> record_header_ok (record_frame_header type n payload)"
  by (simp add: record_header_ok_def record_frame_header_def payload_length_word)

lemma decode_frame_header:
  assumes "length payload \<le> kMaxRecordPayload"
  shows "decode_record_header (with_crc (record_body (record_frame_header type n payload) (length payload))) =
    Inr (record_frame_header type n payload)"
  unfolding record_header_exact
  using assms record_header_ok_frame [OF assms] by (simp add: record_frame_header_def payload_length_word)

lemma record_is_no_footer: "\<not> magic_matches (with_crc (record_body r n)) kJournalFooterMagic"
  by (simp add: magic_matches_iff with_crc_def record_body_def kRecordMagic_def kJournalFooterMagic_def)

lemma length_frame:
  "length payload \<le> kMaxRecordPayload \<Longrightarrow>
   length (encode_record (record_frame_header type n payload) payload) = 32 + length payload"
  by (simp add: encode_frame_parts)

lemma replay_step:
  assumes p: "length payload \<le> kMaxRecordPayload"
    and bytes: "bytes = pre @ encode_record (record_frame_header type n payload) payload @ post"
  shows "replay cfg hs bytes (length pre) n cnt s =
    (case decode_payload type payload of
       Inl e \<Rightarrow> Inl e
     | Inr decoded \<Rightarrow>
        (case apply_record type decoded cfg s of (e, s') \<Rightarrow>
           if e \<noteq> EC_Ok then Inl e
           else replay cfg hs bytes (length pre + 28 + (length payload + 4)) (n + 1) (cnt + 1) s'))"
proof -
  let ?h = "record_frame_header type n payload"
  have hdr: "take 28 (drop (length pre) bytes) = with_crc (record_body ?h (length payload))"
    by (simp add: bytes encode_frame_parts [OF p])
  have len: "length bytes = length pre + (32 + length payload) + length post"
    by (simp add: bytes length_frame [OF p])
  have pay: "take (length payload) (drop (length pre + 28) bytes) = payload"
    by (simp add: bytes encode_frame_parts [OF p] with_crc_def)
  have crc: "read_u32_at (length pre + 28 + length payload) bytes = crc32c payload 0"
    by (simp add: bytes encode_frame_parts [OF p] read_u32_at_def with_crc_def le_value_le_bytes)
  have fields: "rh_sequence ?h = n" "rh_type ?h = type" "unat (rh_payload_length ?h) = length payload"
    by (simp_all add: record_frame_header_def payload_length_word [OF p])
  show ?thesis
    using len record_is_no_footer [of ?h "length payload"]
    by (subst replay.simps, unfold frame_sizes Let_def hdr decode_frame_header [OF p] sum.case fields pay crc)
      (simp add: ac_simps)
qed

text \<open>A run of well-formed frames is replayed by applying its records in order, wherever the run stands.\<close>

lemma replay_frames:
  assumes "fits_journal rs" and "bytes = pre @ frames n rs @ post"
  shows "replay cfg hs bytes (length pre) n cnt s =
    (case apply_all cfg rs s of
       Inl e \<Rightarrow> Inl e
     | Inr s' \<Rightarrow> replay cfg hs bytes (length (pre @ frames n rs)) (n + of_nat (length rs)) (cnt + of_nat (length rs)) s')"
  using assms
proof (induction rs arbitrary: pre n cnt s)
  case Nil
  then show ?case
    by simp
next
  case (Cons r rs)
  obtain "type" payload where r: "r = (type, payload)"
    by (cases r)
  let ?frame = "encode_record (record_frame_header type n payload) payload"
  have p: "length payload \<le> kMaxRecordPayload" and fits: "fits_journal rs"
    using Cons.prems(1) by (simp_all add: r)
  have next_pre: "length (pre @ ?frame) = length pre + 28 + (length payload + 4)"
    by (simp add: length_frame [OF p])
  have "bytes = (pre @ ?frame) @ frames (n + 1) rs @ post"
    using Cons.prems(2) by (simp add: r)
  note rest = Cons.IH [OF fits this, unfolded next_pre]
  have "bytes = pre @ ?frame @ (frames (n + 1) rs @ post)"
    using Cons.prems(2) by (simp add: r)
  note step = replay_step [OF p this, of cfg hs cnt s]
  have eqs: "n + 1 + of_nat (length rs) = n + of_nat (length (r # rs))"
    "cnt + 1 + of_nat (length rs) = cnt + of_nat (length (r # rs))"
    "(pre @ ?frame) @ frames (n + 1) rs = pre @ frames n (r # rs)"
    by (simp_all add: r)
  show ?case
    unfolding step
    by (simp only: rest eqs) (simp add: r split: sum.split prod.split)
qed

lemma apply_all_append:
  "apply_all cfg (rs @ rs') s = (case apply_all cfg rs s of Inl e \<Rightarrow> Inl e | Inr s' \<Rightarrow> apply_all cfg rs' s')"
  by (induction cfg rs s rule: apply_all.induct) (auto split: sum.split prod.split)

lemma frames_append: "frames n (rs @ rs') = frames n rs @ frames (n + of_nat (length rs)) rs'"
  by (induction n rs rule: frames.induct) (simp_all add: add.assoc)

lemma fits_journal_append [simp]: "fits_journal (rs @ rs') \<longleftrightarrow> fits_journal rs \<and> fits_journal rs'"
  by (simp add: fits_journal_def)

section \<open>The tail of a segment\<close>

definition segment_end :: "DurableState \<Rightarrow> nat \<Rightarrow> u64 \<Rightarrow> u64 \<Rightarrow> Replay" where
  "segment_end s consumed expected cnt =
     \<lparr>rl_state = s, rl_consumed = consumed, rl_expected = expected, rl_count = cnt,
      rl_footer = False, rl_torn = False, rl_torn_bytes = 0\<rparr>"

lemma replay_end: "replay cfg hs bytes (length bytes) expected cnt s = Inr (segment_end s (length bytes) expected cnt)"
  by (subst replay.simps) (simp add: segment_end_def)

lemma length_footer [simp]: "length (encode_journal_footer f) = 28"
  by (simp add: encode_journal_footer_eq)

lemma replay_footer:
  assumes "bytes = pre @ encode_journal_footer f"
  shows "replay cfg hs bytes (length pre) expected cnt s =
    (if jf_record_count f \<noteq> cnt \<or> jf_last_sequence f + 1 \<noteq> expected then Inl EC_Corrupt
     else Inr (segment_end s (length bytes) expected cnt\<lparr>rl_footer := True\<rparr>))"
proof -
  have hdr: "take 28 (drop (length pre) bytes) = encode_journal_footer f"
    using assms by simp
  have "decode_journal_footer (encode_journal_footer f) = Inr f"
    by (simp add: journal_footer_exact)
  moreover from this have "magic_matches (encode_journal_footer f) kJournalFooterMagic"
    using footer_ok_block by (simp add: magic_matches_iff)
  ultimately show ?thesis
    using assms by (subst replay.simps) (simp add: frame_sizes hdr segment_end_def Let_def)
qed

section \<open>A store and its journal\<close>

definition segment_bytes :: "u64 \<Rightarrow> u64 \<Rightarrow> (RecordType \<times> u8 list) list \<Rightarrow> u8 list" where
  "segment_bytes boot base rs = segment_header boot base @ frames (base + 1) rs"

text \<open>
  The store has committed the records \<open>rs\<close> since the state \<open>s0\<close> its active segment starts from: the segment holds
  exactly their frames, and the live state is what applying them gives, up to the store's own view.
\<close>

definition in_sync :: "DurableState \<Rightarrow> (RecordType \<times> u8 list) list \<Rightarrow> store \<Rightarrow> bool" where
  "in_sync s0 rs st \<longleftrightarrow>
     (case st of (impl, w) \<Rightarrow>
      \<not> im_closed impl \<and> \<not> so_read_only (im_config impl) \<and> fits_journal rs \<and>
      im_journal impl = Some (im_journal_name impl) \<and> im_journal_name impl = journal_file_name (im_base_sequence impl) \<and>
      (\<exists>boot. valid_id boot \<and>
         file_bytes (im_journal_name impl) w = Some (segment_bytes boot (im_base_sequence impl) rs)) \<and>
      im_records_in_segment impl = of_nat (length rs) \<and>
      ds_journal_sequence (im_state impl) = im_base_sequence impl + of_nat (length rs) \<and>
      unat (ds_journal_records s0) + length rs < 2 ^ 64 \<and>
      ds_journal_records (im_state impl) = ds_journal_records s0 + of_nat (length rs) \<and>
      (\<exists>s. apply_all (im_config impl) rs s0 = Inr s \<and> same_commitments s (im_state impl)))"

lemma retention_due_same: "same_commitments s t \<Longrightarrow> retention_due cfg s = retention_due cfg t"
  by (auto simp: same_commitments_def retention_due_def)

lemma view_kept: "view_blind f \<Longrightarrow> view_of (snd (f s)) = view_of s"
proof -
  assume "view_blind f"
  then have "f s = apsnd (dress (view_of s)) (f s)"
    using view_blindD [of f "view_of s" s] by simp
  then have "snd (f s) = dress (view_of s) (snd (f s))"
    by (metis snd_apsnd)
  moreover have "view_of (dress v t) = v" for v t
    by (simp add: view_of_def dress_def dress_counters_def)
  ultimately show ?thesis
    by metis
qed

lemma apply_record_position:
  "ds_journal_records (snd (apply_record type p cfg s)) = ds_journal_records s \<and>
   ds_journal_sequence (snd (apply_record type p cfg s)) = ds_journal_sequence s"
proof (cases "type = RT_AccountingCheckpoint")
  case True
  then show ?thesis
    by (simp add: acct_def Accounting_replace_def)
next
  case False
  then show ?thesis
    using view_kept [OF apply_record_blind [OF False], of p cfg s] by (simp add: view_of_def)
qed

lemma apply_record_positionD:
  "apply_record type p cfg s = (e, s') \<Longrightarrow>
   ds_journal_records s' = ds_journal_records s \<and> ds_journal_sequence s' = ds_journal_sequence s"
  using apply_record_position [of type p cfg s] by simp

lemma apply_all_position:
  "apply_all cfg rs s = Inr s' \<Longrightarrow> ds_journal_records s' = ds_journal_records s"
proof (induction cfg rs s rule: apply_all.induct)
  case (2 cfg "type" payload rs s)
  then show ?case
    by (auto dest: apply_record_positionD split: sum.splits prod.splits if_splits)
qed simp

lemma acct_journal_write:
  assumes "acct (record_journal_write a b) s = (EC_Ok, s')"
  shows "same_commitments s s' \<and> ds_journal_records s' = ds_journal_records s \<and>
    ds_journal_sequence s' = ds_journal_sequence s"
proof -
  obtain m where "acct (bump ac_journal_records_written ac_journal_records_written_update a) s = (EC_Ok, m)"
    and "acct (bump ac_journal_bytes_written ac_journal_bytes_written_update b) m = (EC_Ok, s')"
    using assms unfolding record_journal_write_def acct_bump_then by (auto simp: status_then_Ok)
  then have "s' = dress (view_of s') s \<and> ds_journal_records s' = ds_journal_records s \<and>
      ds_journal_sequence s' = ds_journal_sequence s"
    unfolding acct_bump by (simp add: dress_def dress_counters_def view_of_def)
  then show ?thesis
    unfolding same_commitments_def by blast
qed

lemma same_position: "same_commitments s (s\<lparr>ds_journal_sequence := a, ds_journal_records := b\<rparr>)"
  unfolding same_commitments_def
  by (rule exI [of _ "view_of (s\<lparr>ds_journal_sequence := a, ds_journal_records := b\<rparr>)"])
    (simp add: dress_def dress_counters_def view_of_def)

lemma decode_payload_honest: "decode_payload type payload \<noteq> Inl EC_Ok"
  using honest_record_payload [of type]
  by (auto simp: decode_payload_def honest_def split: prod.splits sum.splits) (metis fst_conv)

text \<open>The shape of a successful append.\<close>

lemma append_batched_Ok:
  assumes "append_batched type payload (impl, w) = (EC_Ok, impl', w')"
  shows "\<exists>decoded n k b s1 s2 name.
    \<not> im_closed impl \<and> \<not> so_read_only (im_config impl) \<and>
    length payload \<le> kMaxRecordPayload \<and> decode_payload type payload = Inr decoded \<and>
    checked_add (ds_journal_sequence (im_state impl)) 1 = Some n \<and> im_journal impl = Some name \<and>
    checked_add (ds_journal_records (im_state impl)) 1 = Some k \<and>
    w' = write_all_to name (encode_record (record_frame_header type n payload) payload) w \<and>
    acct (record_journal_write 1 (of_nat (length (encode_record (record_frame_header type n payload) payload))))
      ((im_state impl)\<lparr>ds_journal_sequence := n, ds_journal_records := k\<rparr>) = (EC_Ok, s1) \<and>
    apply_record type decoded (im_config impl) s1 = (EC_Ok, s2) \<and>
    prune_when_due (im_config impl) s2 = (EC_Ok, im_state impl') \<and>
    impl' = impl\<lparr>im_records_in_segment := im_records_in_segment impl + 1, im_state := im_state impl',
                 im_bytes_in_segment := b\<rparr>"
  using assms decode_payload_honest [of type payload] unfolding append_batched_def Let_def
  by (auto split: if_splits sum.splits option.splits prod.splits simp: status_then_Ok)

lemma append_in_sync:
  assumes sync: "in_sync s0 rs (impl, w)"
    and app: "append_batched type payload (impl, w) = (EC_Ok, impl', w')"
    and quiet: "\<And>s. apply_all (im_config impl) (rs @ [(type, payload)]) s0 = Inr s \<Longrightarrow> \<not> retention_due (im_config impl) s"
  shows "in_sync s0 (rs @ [(type, payload)]) (impl', w')"
proof -
  let ?cfg = "im_config impl"
  obtain decoded n k b s1 s2 name where p: "length payload \<le> kMaxRecordPayload"
    and dec: "decode_payload type payload = Inr decoded"
    and n: "checked_add (ds_journal_sequence (im_state impl)) 1 = Some n" and name: "im_journal impl = Some name"
    and k: "checked_add (ds_journal_records (im_state impl)) 1 = Some k"
    and w': "w' = write_all_to name (encode_record (record_frame_header type n payload) payload) w"
    and s1: "acct (record_journal_write 1 (of_nat (length (encode_record (record_frame_header type n payload) payload))))
      ((im_state impl)\<lparr>ds_journal_sequence := n, ds_journal_records := k\<rparr>) = (EC_Ok, s1)"
    and s2: "apply_record type decoded ?cfg s1 = (EC_Ok, s2)"
    and pruned: "prune_when_due ?cfg s2 = (EC_Ok, im_state impl')"
    and impl': "impl' = impl\<lparr>im_records_in_segment := im_records_in_segment impl + 1, im_state := im_state impl',
                 im_bytes_in_segment := b\<rparr>"
    using append_batched_Ok [OF app] by blast
  obtain boot s where boot: "valid_id boot"
      "file_bytes (im_journal_name impl) w = Some (segment_bytes boot (im_base_sequence impl) rs)"
    and s: "apply_all ?cfg rs s0 = Inr s" "same_commitments s (im_state impl)"
    using sync by (auto simp: in_sync_def)
  have seq: "ds_journal_sequence (im_state impl) = im_base_sequence impl + of_nat (length rs)"
    and jrn: "name = im_journal_name impl"
    using sync name by (auto simp: in_sync_def)
  have n': "n = im_base_sequence impl + 1 + of_nat (length rs)"
    using n seq by (auto simp: checked_add_def split: if_splits)
  have k': "k = ds_journal_records (im_state impl) + 1"
    and room: "unat (ds_journal_records (im_state impl)) + 1 < 2 ^ 64"
    using k checked_add_Some_iff [of "ds_journal_records (im_state impl)" 1 k]
    by (simp_all add: checked_add_def split: if_splits)
  note pos1 = acct_journal_write [OF s1]
  have "same_commitments s s1"
    using s(2) same_position pos1 same_commitments_trans by blast
  then obtain s' where s': "apply_record type decoded ?cfg s = (EC_Ok, s')" "same_commitments s' s2"
    using apply_record_same [of s s1 "type" decoded ?cfg] s2 by (cases "apply_record type decoded ?cfg s") auto
  have all: "apply_all ?cfg (rs @ [(type, payload)]) s0 = Inr s'"
    using s(1) dec s'(1) by (simp add: apply_all_append)
  have "im_state impl' = s2"
    using quiet [OF all] retention_due_same [OF s'(2)] pruned by (simp add: prune_when_due_def)
  moreover have "ds_journal_records s2 = k" "ds_journal_sequence s2 = n"
    using apply_record_positionD [OF s2] pos1 by simp_all
  moreover have "file_bytes (im_journal_name impl) w' =
      Some (segment_bytes boot (im_base_sequence impl) (rs @ [(type, payload)]))"
    using boot(2) by (simp add: w' jrn segment_bytes_def frames_append n' add.commute add.left_commute)
  moreover have "unat (ds_journal_records s0) + length (rs @ [(type, payload)]) < 2 ^ 64"
  proof -
    have "unat (ds_journal_records s0) + length rs < 2 ^ 64"
      and "ds_journal_records (im_state impl) = ds_journal_records s0 + of_nat (length rs)"
      using sync by (simp_all add: in_sync_def)
    then have "unat (ds_journal_records (im_state impl)) = unat (ds_journal_records s0) + length rs"
      by (simp add: unat_word_ariths unat_of_nat take_bit_nat_eq_self)
    then show ?thesis
      using room by simp
  qed
  ultimately show ?thesis
    using sync boot(1) all s'(2) p k' n' impl'
    by (simp add: in_sync_def fits_journal_def ac_simps) blast
qed

section \<open>The store root\<close>

definition names_of :: "StoreRoot \<Rightarrow> string list" where
  "names_of w = sort_by string_less (map fst (sr_files w))"

lemma list_directory_names: "length (sr_files w) \<le> kMaxCollectionItems \<Longrightarrow> list_directory w = Inr (names_of w)"
  by (simp add: list_directory_def names_of_def)

lemma file_exists_name: "file_bytes name w = Some bytes \<Longrightarrow> name \<in> fst ` set (sr_files w)"
  unfolding file_bytes_def by (metis map_of_eq_None_iff option.simps(3))

lemma put_file_names: "file_bytes name w \<noteq> None \<Longrightarrow> map fst (sr_files (put_file name bytes w)) = map fst (sr_files w)"
  using file_exists_name by (fastforce simp: put_file_def update_keys)

lemma write_all_to_names:
  assumes "file_bytes name w \<noteq> None"
  shows "names_of (write_all_to name bytes w) = names_of w"
    and "length (sr_files (write_all_to name bytes w)) = length (sr_files w)"
  using put_file_names [OF assms] unfolding names_of_def write_all_to_def
  by (simp_all only: flip: length_map [of fst])

lemma file_bytes_remove_files:
  "file_bytes name (remove_files names w) = (if name \<in> set names then None else file_bytes name w)"
  by (induction names arbitrary: w) (simp_all add: remove_files_def)

lemma last_of_drop: "length xs > n \<Longrightarrow> drop (length xs - Suc n) xs = ys \<Longrightarrow> last xs = last ys"
  by (metis diff_less last_drop length_greater_0_conv list.size(3) not_less_zero zero_less_Suc)

lemma not_staging [simp]: "\<not> is_staging (journal_file_name n)" "\<not> is_staging (snapshot_file_name n)"
proof -
  have g: "last name = CHR ''g''" if "is_staging name" for name
    using that last_of_drop [of 7 name "''.staging''"] by (simp add: is_staging_def)
  show "\<not> is_staging (journal_file_name n)"
    using g [of "journal_file_name n"] by (auto simp: journal_file_name_def format_sequence_name_def)
  show "\<not> is_staging (snapshot_file_name n)"
    using g [of "snapshot_file_name n"] by (auto simp: snapshot_file_name_def format_sequence_name_def)
qed

text \<open>The snapshots of a root as a set, and which of them recovery starts from.\<close>

definition snapshots_in :: "StoreRoot \<Rightarrow> u64 set" where
  "snapshots_in w = {n. \<exists>name \<in> fst ` set (sr_files w). parse_snapshot_file_name name = Inr n}"

lemma set_snapshot_sequences: "set (snapshot_sequences (names_of w)) = snapshots_in w"
proof -
  have "(case parse_snapshot_file_name name of Inr n \<Rightarrow> Some n | Inl _ \<Rightarrow> None) = Some n \<longleftrightarrow>
      parse_snapshot_file_name name = Inr n" for name n
    by (cases "parse_snapshot_file_name name") simp_all
  then show ?thesis
    by (simp add: snapshot_sequences_def names_of_def snapshots_in_def map_filter_set)
qed

lemma last_sort: "xs \<noteq> [] \<Longrightarrow> last (sort xs) = Max (set xs)" for xs :: "'a :: linorder list"
proof -
  assume "xs \<noteq> []"
  then have ne: "sort xs \<noteq> []"
    by (metis set_empty set_sort)
  have "y \<le> last (sort xs)" if "y \<in> set (sort xs)" for y
  proof -
    have "sorted (butlast (sort xs) @ [last (sort xs)])" and "y \<in> set (butlast (sort xs) @ [last (sort xs)])"
      using ne that by simp_all
    then show ?thesis
      by (auto simp: sorted_append)
  qed
  then show ?thesis
    using last_in_set [OF ne] by (intro Max_eqI [symmetric]) simp_all
qed

definition newest_snapshot :: "StoreRoot \<Rightarrow> u64 option" where
  "newest_snapshot w = (if snapshots_in w = {} then None else Some (Max (snapshots_in w)))"

lemma newest_snapshot_code:
  "newest_snapshot w = (if snapshot_sequences (names_of w) = [] then None else Some (last (snapshot_sequences (names_of w))))"
proof -
  obtain xs where xs: "snapshot_sequences (names_of w) = sort xs"
    unfolding snapshot_sequences_def by blast
  then have "set xs = snapshots_in w"
    using set_snapshot_sequences [of w] by simp
  then show ?thesis
    unfolding newest_snapshot_def xs using last_sort [of xs] by (auto simp flip: set_empty)
qed

definition starts_from :: "StoreConfig \<Rightarrow> StoreRoot \<Rightarrow> u64 \<Rightarrow> DurableState \<Rightarrow> bool" where
  "starts_from cfg w base s0 \<longleftrightarrow>
     (case newest_snapshot w of
        None \<Rightarrow> base = 0 \<and> s0 = new_state
      | Some n \<Rightarrow> n = base \<and> load_snapshot cfg base w = Inr s0)"

lemma parse_snapshot_name: "parse_snapshot_file_name (snapshot_file_name n) = Inr n"
  by (simp add: parse_snapshot_file_name_def snapshot_file_name_def parse_format_name)

lemma finite_snapshots: "finite (snapshots_in w)"
  by (metis List.finite_set set_snapshot_sequences)

lemma load_snapshot_cong:
  "file_bytes (snapshot_file_name n) w = file_bytes (snapshot_file_name n) w' \<Longrightarrow> load_snapshot cfg n w = load_snapshot cfg n w'"
  by (simp add: load_snapshot_def read_file_def)

lemma load_snapshot_exists: "load_snapshot cfg n w = Inr s \<Longrightarrow> file_bytes (snapshot_file_name n) w \<noteq> None"
  by (cases "file_bytes (snapshot_file_name n) w") (simp_all add: load_snapshot_def read_file_def)

text \<open>Removing files other than the newest snapshot does not change where recovery starts.\<close>

lemma starts_from_cong:
  assumes "starts_from cfg w base s0" and "fst ` set (sr_files w') \<subseteq> fst ` set (sr_files w)"
    and "file_bytes (snapshot_file_name base) w' = file_bytes (snapshot_file_name base) w"
  shows "starts_from cfg w' base s0"
proof -
  have sub: "snapshots_in w' \<subseteq> snapshots_in w"
    using assms(2) unfolding snapshots_in_def by blast
  show ?thesis
  proof (cases "snapshots_in w = {}")
    case True
    then show ?thesis
      using assms(1) sub by (simp add: starts_from_def newest_snapshot_def)
  next
    case False
    then have base: "base = Max (snapshots_in w)" and load: "load_snapshot cfg base w = Inr s0"
      using assms(1) by (auto simp: starts_from_def newest_snapshot_def)
    have "file_bytes (snapshot_file_name base) w' \<noteq> None"
      using load_snapshot_exists [OF load] assms(3) by simp
    then have "base \<in> snapshots_in w'"
      using file_exists_name [of "snapshot_file_name base" w'] parse_snapshot_name
      unfolding snapshots_in_def by blast
    moreover from this have "Max (snapshots_in w') = base"
      using sub base finite_snapshots by (metis Max_eqI Max_ge subsetD)
    ultimately show ?thesis
      using load load_snapshot_cong [OF assms(3)] by (auto simp: starts_from_def newest_snapshot_def)
  qed
qed

lemma remove_files_names: "fst ` set (sr_files (remove_files names w)) = fst ` set (sr_files w) - set names"
proof (induction names arbitrary: w)
  case (Cons name names)
  have "fst ` set (AList.delete name xs) = fst ` set xs - {name}" for xs :: "(string \<times> u8 list) list"
    by (simp add: delete_keys flip: set_map)
  then show ?case
    using Cons [of "remove_file name w"] by (auto simp: remove_files_def remove_file_def)
qed (simp add: remove_files_def)

section \<open>Recovery of a store in sync\<close>

lemma length_segment_header [simp]: "length (segment_header boot base) = 28"
  by (simp add: segment_header_def encode_journal_header_eq)

lemma decode_segment_header:
  "valid_id boot \<Longrightarrow> decode_journal_header (segment_header boot base) =
     Inr \<lparr>jh_version = kDurableFormatVersion, jh_boot = boot, jh_base_sequence = base\<rparr>"
  by (simp add: journal_header_exact segment_header_def)

lemma replay_segment_bytes:
  assumes "fits_journal rs" and "valid_id boot"
  shows "replay_segment cfg hs base (segment_bytes boot base rs) s0 =
    (case apply_all cfg rs s0 of
       Inl e \<Rightarrow> Inl e
     | Inr s \<Rightarrow> Inr (segment_end s (length (segment_bytes boot base rs)) (base + 1 + of_nat (length rs)) (of_nat (length rs))))"
proof -
  let ?bytes = "segment_bytes boot base rs"
  have "?bytes = segment_header boot base @ frames (base + 1) rs @ []"
    by (simp add: segment_bytes_def)
  note records = replay_frames [OF assms(1) this, of cfg hs 0 s0]
  have len: "length (segment_header boot base @ frames (base + 1) rs) = length ?bytes"
    by (simp add: segment_bytes_def)
  have "take 28 ?bytes = segment_header boot base" "\<not> length ?bytes < 28"
    by (simp_all add: segment_bytes_def)
  then show ?thesis
    using records unfolding len replay_end
    by (simp add: replay_segment_def kJournalHeaderSize_def decode_segment_header [OF assms(2)] segment_end_def
        split: sum.split)
qed

lemma adopt_clean_replay:
  assumes "checked_add (ds_journal_records s) cnt = Some records"
  shows "adopt_replay hs name base n (segment_end s consumed expected cnt) impl =
    (EC_Ok, impl\<lparr>im_recovery := RV_CleanReopen,
       im_recovery_detail := recovery_text (so_read_only (im_config impl)) hs (segment_end s consumed expected cnt),
       im_state := snd (acct (record_journal_read cnt)
          (s\<lparr>ds_journal_records := records, ds_journal_sequence := expected - 1\<rparr>)),
       im_records_in_segment := cnt, im_bytes_in_segment := of_nat n,
       im_journal_name := name, im_base_sequence := base\<rparr>)"
  using assms by (simp add: adopt_replay_def segment_end_def)

lemma acct_journal_read:
  "same_commitments s (snd (acct (record_journal_read n) s)) \<and>
   ds_journal_records (snd (acct (record_journal_read n) s)) = ds_journal_records s \<and>
   ds_journal_sequence (snd (acct (record_journal_read n) s)) = ds_journal_sequence s"
proof -
  let ?s = "snd (acct (record_journal_read n) s)"
  have "?s = dress (view_of ?s) s"
    by (auto simp: acct_def record_journal_read_def bump_def dress_def dress_counters_def view_of_def split: option.split)
  moreover have "ds_journal_records ?s = ds_journal_records s" "ds_journal_sequence ?s = ds_journal_sequence s"
    by (auto simp: acct_def record_journal_read_def bump_def split: option.split)
  ultimately show ?thesis
    unfolding same_commitments_def by blast
qed

definition reachable_root :: "StoreConfig \<Rightarrow> StoreRoot \<Rightarrow> bool" where
  "reachable_root cfg w \<longleftrightarrow> check_config cfg = EC_Ok \<and> \<not> so_read_only cfg \<and> sr_exists w \<and>
     file_exists ''store.lock'' w \<and> length (sr_files w) \<le> kMaxCollectionItems"

definition reopened :: "StoreConfig \<Rightarrow> bool \<Rightarrow> u64 \<Rightarrow> u8 list \<Rightarrow> (RecordType \<times> u8 list) list \<Rightarrow> DurableState \<Rightarrow> StoreImpl" where
  "reopened cfg hs base bytes rs s =
     (let r = segment_end s (length bytes) (base + 1 + of_nat (length rs)) (of_nat (length rs))
      in (new_impl cfg)\<lparr>im_lock := True, im_recovery := RV_CleanReopen,
           im_recovery_detail := recovery_text False hs r,
           im_state := snd (acct (record_journal_read (of_nat (length rs)))
             (s\<lparr>ds_journal_records := ds_journal_records s + of_nat (length rs),
                ds_journal_sequence := base + of_nat (length rs)\<rparr>)),
           im_records_in_segment := of_nat (length rs), im_bytes_in_segment := of_nat (length bytes),
           im_journal_name := journal_file_name base, im_base_sequence := base,
           im_journal := Some (journal_file_name base)\<rparr>)"

lemma recover_segment_clean:
  assumes rs: "fits_journal rs" and boot: "valid_id boot" and bytes: "bytes = segment_bytes boot base rs"
    and content: "file_bytes (journal_file_name base) w = Some bytes"
    and all: "apply_all cfg rs s0 = Inr s" and room: "unat (ds_journal_records s0) + length rs < 2 ^ 64"
    and rw: "\<not> so_read_only cfg"
    and impl: "impl = (new_impl cfg)\<lparr>im_lock := True, im_state := s0, im_base_sequence := base\<rparr>"
  shows "recover_segment hs (journal_file_name base) base bytes (impl, w) = (Done EC_Ok, reopened cfg hs base bytes rs s, w)"
proof -
  have cfg: "im_config impl = cfg" "im_state impl = s0"
    by (simp_all add: impl new_impl_def)
  have records: "ds_journal_records s = ds_journal_records s0"
    using apply_all_position [OF all] .
  have "checked_add (ds_journal_records s) (of_nat (length rs)) = Some (ds_journal_records s + of_nat (length rs))"
    using room by (simp add: checked_add_Some_iff records unat_word_ariths unat_of_nat take_bit_nat_eq_self)
  note adopt = adopt_clean_replay [OF this]
  have "replay_segment cfg hs base bytes s0 =
      Inr (segment_end s (length bytes) (base + 1 + of_nat (length rs)) (of_nat (length rs)))"
    using replay_segment_bytes [OF rs boot, of cfg hs base s0] all by (simp add: bytes)
  then show ?thesis
    using content rw
    by (simp add: recover_segment_def cfg adopt reopen_segment_def)
      (simp add: segment_end_def reopened_def impl new_impl_def open_append_def file_exists_def Let_def)
qed

lemma reopened_in_sync:
  assumes "fits_journal rs" and "valid_id boot" and "bytes = segment_bytes boot base rs"
    and "file_bytes (journal_file_name base) w = Some bytes" and "apply_all cfg rs s0 = Inr s"
    and "unat (ds_journal_records s0) + length rs < 2 ^ 64" and "\<not> so_read_only cfg"
  shows "in_sync s0 rs (reopened cfg hs base bytes rs s, w)"
proof -
  let ?impl = "reopened cfg hs base bytes rs s"
  note read = acct_journal_read [of "s\<lparr>ds_journal_records := ds_journal_records s + of_nat (length rs),
    ds_journal_sequence := base + of_nat (length rs)\<rparr>" "of_nat (length rs)"]
  have swap: "s\<lparr>ds_journal_records := a, ds_journal_sequence := b\<rparr> = s\<lparr>ds_journal_sequence := b, ds_journal_records := a\<rparr>" for a b
    by simp
  have "same_commitments s (im_state ?impl)"
    using read same_position same_commitments_trans by (simp add: reopened_def Let_def swap) blast
  moreover have "ds_journal_records s = ds_journal_records s0"
    by (rule apply_all_position [OF assms(5)])
  moreover have "ds_journal_records (im_state ?impl) = ds_journal_records s + of_nat (length rs)"
    "ds_journal_sequence (im_state ?impl) = base + of_nat (length rs)"
    using read by (simp_all add: reopened_def Let_def)
  moreover have "im_config ?impl = cfg" "im_journal_name ?impl = journal_file_name base" "im_base_sequence ?impl = base"
    "im_journal ?impl = Some (journal_file_name base)" "im_records_in_segment ?impl = of_nat (length rs)"
    "\<not> im_closed ?impl"
    by (simp_all add: reopened_def Let_def new_impl_def)
  ultimately show ?thesis
    using assms by (auto simp: in_sync_def)
qed

lemma journal_kept:
  "file_bytes (journal_file_name base)
     (remove_files (map snapshot_file_name ns) (remove_files (map journal_file_name (filter (\<lambda>n. \<not> n \<ge> base) ms)) w)) =
   file_bytes (journal_file_name base) w"
  by (auto simp: file_bytes_remove_files name_inj) (metis name_inj(3))

lemma remove_files_flags [simp]:
  "sr_exists (remove_files names w) = sr_exists w" "sr_locked (remove_files names w) = sr_locked w"
  by (induction names arbitrary: w) (simp_all add: remove_files_def remove_file_def)

lemma lock_name: "''store.lock'' \<noteq> journal_file_name n" "''store.lock'' \<noteq> snapshot_file_name n" "\<not> is_staging ''store.lock''"
  by (simp_all add: journal_file_name_def snapshot_file_name_def format_sequence_name_def is_staging_def)

lemma remove_files_length: "length (sr_files (remove_files names w)) \<le> length (sr_files w)"
proof (induction names arbitrary: w)
  case (Cons name names)
  have "length (sr_files (remove_file name w)) \<le> length (sr_files w)"
    by (simp add: remove_file_def AList.delete_eq)
  then show ?case
    using Cons [of "remove_file name w"] by (simp add: remove_files_def)
qed (simp add: remove_files_def)

lemma recover_in_sync:
  assumes sync: "in_sync s0 rs (impl, w)" and start: "starts_from cfg w base s0"
    and cfg: "cfg = im_config impl" "base = im_base_sequence impl" and small: "length (sr_files w) \<le> kMaxCollectionItems"
  shows "\<exists>impl' w'. recover ((new_impl cfg)\<lparr>im_lock := True\<rparr>, w) = (Done EC_Ok, impl', w') \<and>
    in_sync s0 rs (impl', w') \<and> starts_from cfg w' base s0 \<and> im_config impl' = cfg \<and> im_base_sequence impl' = base \<and>
    im_recovery impl' = RV_CleanReopen \<and> sr_exists w' = sr_exists w \<and> sr_locked w' = sr_locked w \<and>
    file_bytes ''store.lock'' w' = file_bytes ''store.lock'' w \<and> length (sr_files w') \<le> length (sr_files w)"
proof -
  define w1 where "w1 = remove_files (filter is_staging (names_of w)) w"
  obtain boot s where rs: "fits_journal rs" and boot: "valid_id boot"
    and content: "file_bytes (journal_file_name base) w = Some (segment_bytes boot base rs)"
    and all: "apply_all cfg rs s0 = Inr s" and room: "unat (ds_journal_records s0) + length rs < 2 ^ 64"
    and rw: "\<not> so_read_only cfg"
    using sync cfg by (auto simp: in_sync_def)
  define bytes where "bytes = segment_bytes boot base rs"
  have content1: "file_bytes (journal_file_name base) w1 = Some bytes"
    using content by (simp add: w1_def file_bytes_remove_files bytes_def)
  have snap1: "file_bytes (snapshot_file_name n) w1 = file_bytes (snapshot_file_name n) w" for n
    by (simp add: w1_def file_bytes_remove_files)
  have newest: "(case newest_snapshot w of None \<Rightarrow> Inr new_state | Some n \<Rightarrow> load_snapshot cfg n w1) = Inr s0"
    "(case newest_snapshot w of None \<Rightarrow> 0 | Some n \<Rightarrow> n) = base"
    using start load_snapshot_cong [OF snap1] by (auto simp: starts_from_def split: option.splits)
  define hs where "hs \<longleftrightarrow> newest_snapshot w \<noteq> None"
  define impl1 where "impl1 = reopened cfg hs base bytes rs s"
  have seg: "recover_segment hs (journal_file_name base) base bytes
      ((new_impl cfg)\<lparr>im_lock := True, im_state := s0, im_base_sequence := base\<rparr>, w1) = (Done EC_Ok, impl1, w1)"
    unfolding impl1_def
    by (rule recover_segment_clean [OF rs boot bytes_def content1 all room rw refl])
  have impl1: "im_config impl1 = cfg" "im_base_sequence impl1 = base" "im_recovery impl1 = RV_CleanReopen"
    by (simp_all add: impl1_def reopened_def Let_def new_impl_def)
  define w2 where "w2 = snd (remove_superseded (journal_sequences (names_of w)) (snapshot_sequences (names_of w))
    (newest_snapshot w) (impl1, w1))"
  have impl0: "im_config ((new_impl cfg)\<lparr>im_lock := True\<rparr>) = cfg" "im_state ((new_impl cfg)\<lparr>im_lock := True\<rparr>) = new_state"
    "im_base_sequence ((new_impl cfg)\<lparr>im_lock := True\<rparr>) = 0"
    by (simp_all add: new_impl_def)
  have r: "recover ((new_impl cfg)\<lparr>im_lock := True\<rparr>, w) = (Done EC_Ok, impl1, w2)"
    unfolding recover_def prod.case Let_def impl0 list_directory_names [OF small] sum.case newest_snapshot_code [symmetric]
      if_not_P [OF rw] w1_def [symmetric] newest content1 option.case hs_def [symmetric] seg outcome.case
    by (simp add: w2_def remove_superseded_def)
  have w2: "w2 = remove_files (map snapshot_file_name (filter (\<lambda>n. \<not> (case newest_snapshot w of Some m \<Rightarrow> n \<ge> m | None \<Rightarrow> False))
        (snapshot_sequences (names_of w))))
      (remove_files (map journal_file_name (filter (\<lambda>n. \<not> n \<ge> base) (journal_sequences (names_of w)))) w1)"
    using rw by (simp add: w2_def remove_superseded_def impl1)
  have content2: "file_bytes (journal_file_name base) w2 = Some bytes"
    unfolding w2 journal_kept by (rule content1)
  have names2: "fst ` set (sr_files w2) \<subseteq> fst ` set (sr_files w)"
    unfolding w2 w1_def remove_files_names by blast
  have "file_bytes (snapshot_file_name base) w2 = file_bytes (snapshot_file_name base) w"
  proof -
    have "base \<notin> set (filter (\<lambda>n. \<not> (case newest_snapshot w of Some m \<Rightarrow> n \<ge> m | None \<Rightarrow> False))
        (snapshot_sequences (names_of w)))"
      using newest(2) by (auto simp: newest_snapshot_code split: if_splits)
    then show ?thesis
      unfolding w2 by (auto simp: file_bytes_remove_files name_inj snap1)
  qed
  then have "starts_from cfg w2 base s0"
    by (rule starts_from_cong [OF start names2])
  moreover have "in_sync s0 rs (impl1, w2)"
    unfolding impl1_def by (rule reopened_in_sync [OF rs boot bytes_def content2 all room rw])
  moreover have "sr_exists w2 = sr_exists w" "sr_locked w2 = sr_locked w"
    by (simp_all add: w2 w1_def)
  moreover have "file_bytes ''store.lock'' w2 = file_bytes ''store.lock'' w"
    using lock_name by (auto simp: w2 w1_def file_bytes_remove_files)
  moreover have "length (sr_files w2) \<le> length (sr_files w)"
    unfolding w2 w1_def by (intro order_trans [OF remove_files_length] order_refl)
  ultimately show ?thesis
    using r impl1 by blast
qed

end
