(* ===== verification/Encoder_Bounds.thy ===== *)
theory Encoder_Bounds
  imports Durable_State
begin

text \<open>
  The document bound of a writer: whatever is encoded, the buffer never grows past the bound the writer was built with.
  The store relies on it when it sizes the read of a snapshot it wrote.
\<close>

definition writes_within :: "(byte_writer \<Rightarrow> byte_writer) \<Rightarrow> bool" where
  "writes_within f \<longleftrightarrow>
     (\<forall>w. length (bw_data w) \<le> bw_max_total w \<longrightarrow>
        length (bw_data (f w)) \<le> bw_max_total w \<and> bw_max_total (f w) = bw_max_total w)"

lemma within_raw: "writes_within (ByteWriter_raw bs)"
  by (auto simp: writes_within_def ByteWriter_raw_def ByteWriter_ensure_def Let_def)

lemma within_fields:
  "writes_within (ByteWriter_u8 a)" "writes_within (ByteWriter_u16 b)" "writes_within (ByteWriter_u32 c)"
  "writes_within (ByteWriter_u64 d)" "writes_within (ByteWriter_boolean e)" "writes_within (write_enum code v)"
  "writes_within (write_size xs)"
  using within_raw
  by (simp_all add: writes_within_def ByteWriter_u8_def ByteWriter_u16_def ByteWriter_u32_def ByteWriter_u64_def
      ByteWriter_boolean_def write_enum_def write_size_def)

lemma within_Nil: "writes_within (write_all [])"
  by (simp add: writes_within_def write_all_def)

lemma within_comp: "writes_within f \<Longrightarrow> writes_within g \<Longrightarrow> writes_within (\<lambda>w. g (f w))"
  unfolding writes_within_def by metis

lemma within_Cons: "writes_within f \<Longrightarrow> writes_within (write_all fs) \<Longrightarrow> writes_within (write_all (f # fs))"
  using within_comp [of f "write_all fs"] by (simp add: write_all_def [abs_def] comp_def)

lemma within_each: "(\<And>x. writes_within (put x)) \<Longrightarrow> writes_within (write_each put xs)"
proof (induction xs)
  case Nil
  show ?case
    by (simp add: writes_within_def write_each_def)
next
  case (Cons x xs)
  then show ?case
    using within_comp [of "put x" "write_each put xs"] by (simp add: write_each_def [abs_def] comp_def)
qed

lemma within_optional: "(\<And>x. writes_within (put x)) \<Longrightarrow> writes_within (write_optional put v)"
  using within_fields(5) within_comp [of "ByteWriter_boolean True" "put _"]
  by (cases v) (simp_all add: write_optional_def [abs_def])

lemmas within_intros = within_Cons within_Nil within_each within_optional within_fields within_raw

lemma within_Guarantee: "writes_within (encode_Guarantee v)"
  unfolding encode_Guarantee_def by (intro within_intros)

lemma within_GuaranteeSet: "writes_within (encode_GuaranteeSet v)"
  unfolding encode_GuaranteeSet_def by (intro within_intros within_Guarantee)

lemma within_Concession: "writes_within (encode_Concession v)"
  unfolding encode_Concession_def by (intro within_intros)

lemma within_GuaranteeWithdrawal: "writes_within (encode_GuaranteeWithdrawal v)"
  unfolding encode_GuaranteeWithdrawal_def by (intro within_intros)

lemma within_GuaranteeDelta: "writes_within (encode_GuaranteeDelta v)"
  unfolding encode_GuaranteeDelta_def by (intro within_intros within_Concession within_GuaranteeWithdrawal)

lemma within_ConcessionBound: "writes_within (encode_ConcessionBound v)"
  unfolding encode_ConcessionBound_def by (intro within_intros)

lemma within_GuaranteeEnvelope: "writes_within (encode_GuaranteeEnvelope v)"
  unfolding encode_GuaranteeEnvelope_def by (intro within_intros within_ConcessionBound)

lemma within_ServiceContract: "writes_within (encode_ServiceContract v)"
  unfolding encode_ServiceContract_def by (intro within_intros within_GuaranteeSet within_GuaranteeEnvelope)

lemma within_EvidenceItem: "writes_within (encode_EvidenceItem v)"
  unfolding encode_EvidenceItem_def by (intro within_intros)

lemma within_EvidenceVector: "writes_within (encode_EvidenceVector v)"
  unfolding encode_EvidenceVector_def by (intro within_intros within_EvidenceItem)

lemma within_AuthorityVector: "writes_within (encode_AuthorityVector v)"
  unfolding encode_AuthorityVector_def by (intro within_intros)

lemma within_AuthorityBinding: "writes_within (encode_AuthorityBinding v)"
  unfolding encode_AuthorityBinding_def by (intro within_intros within_AuthorityVector)

lemma within_GuaranteeSupport: "writes_within (encode_GuaranteeSupport v)"
  unfolding encode_GuaranteeSupport_def by (intro within_intros)

lemma within_Decision: "writes_within (encode_Decision v)"
  unfolding encode_Decision_def by (intro within_intros within_AuthorityBinding within_GuaranteeSet within_GuaranteeDelta within_GuaranteeSupport within_EvidenceVector)

lemma within_RestorationPrecondition: "writes_within (encode_RestorationPrecondition v)"
  unfolding encode_RestorationPrecondition_def by (intro within_intros)

lemma within_PreconditionEvaluation: "writes_within (encode_PreconditionEvaluation v)"
  unfolding encode_PreconditionEvaluation_def by (intro within_intros within_RestorationPrecondition)

lemma within_RestorationEvaluation: "writes_within (encode_RestorationEvaluation v)"
  unfolding encode_RestorationEvaluation_def by (intro within_intros within_AuthorityBinding within_GuaranteeSet within_PreconditionEvaluation)

lemma within_Grant: "writes_within (encode_Grant v)"
  unfolding encode_Grant_def by (intro within_intros within_AuthorityBinding within_GuaranteeSet within_GuaranteeDelta within_EvidenceVector within_RestorationPrecondition)

lemma within_FenceRecord: "writes_within (encode_FenceRecord v)"
  unfolding encode_FenceRecord_def by (intro within_intros within_AuthorityBinding)

lemma within_PolicyRule: "writes_within (encode_PolicyRule v)"
  unfolding encode_PolicyRule_def by (intro within_intros)

lemma within_ClassProfile: "writes_within (encode_ClassProfile v)"
  unfolding encode_ClassProfile_def by (intro within_intros within_GuaranteeEnvelope)

lemma within_Policy: "writes_within (encode_Policy v)"
  unfolding encode_Policy_def by (intro within_intros within_PolicyRule within_ClassProfile)

lemma within_AccountingCounters: "writes_within (encode_AccountingCounters v)"
  unfolding encode_AccountingCounters_def by (intro within_intros)

lemma within_DurableState: "writes_within (encode_DurableState v)"
  unfolding encode_DurableState_def
  by (intro within_intros within_Policy within_ServiceContract within_Grant within_FenceRecord within_Decision
      within_RestorationEvaluation within_EvidenceVector within_AccountingCounters)

lemma within_new_writer: "writes_within f \<Longrightarrow> length (bw_data (f (new_writer n m))) \<le> n"
  unfolding writes_within_def new_writer_def by (drule spec [of _ "\<lparr>bw_data = [], bw_max_total = n, bw_max_blob = m, bw_ok = True\<rparr>"]) simp

end
