(* ===== verification/Store_Life.thy ===== *)
theory Store_Life
  imports Store_Recovery Encoder_Bounds
begin

text \<open>
  The life of a store between kills: opened on an empty root, it commits records, takes snapshots, is killed and opened
  again. After any such history the next open succeeds and brings back what was committed.
\<close>

lemma parse_snapshot_refuses:
  "\<exists>e. parse_snapshot_file_name (journal_file_name n) = Inl e" "\<exists>e. parse_snapshot_file_name ''store.lock'' = Inl e"
  by (simp_all add: parse_snapshot_file_name_def journal_file_name_def format_sequence_name_def parse_sequence_name_def
      Let_def)

definition healthy :: "StoreConfig \<Rightarrow> DurableState \<Rightarrow> (RecordType \<times> u8 list) list \<Rightarrow> store \<Rightarrow> bool" where
  "healthy cfg s0 rs st \<longleftrightarrow>
     (case st of (impl, w) \<Rightarrow>
      im_config impl = cfg \<and> in_sync s0 rs (impl, w) \<and> starts_from cfg w (im_base_sequence impl) s0 \<and>
      reachable_root cfg w \<and> unat (im_base_sequence impl) + length rs < 2 ^ 64)"

lemma open_healthy:
  assumes "healthy cfg s0 rs (impl, w)"
  shows "\<exists>impl' w'. open_store cfg (w\<lparr>sr_locked := False\<rparr>) = (Done (Inr impl'), w') \<and> healthy cfg s0 rs (impl', w') \<and>
    im_base_sequence impl' = im_base_sequence impl \<and> im_recovery impl' = RV_CleanReopen"
proof -
  define w1 where "w1 = w\<lparr>sr_locked := True\<rparr>"
  have h: "im_config impl = cfg" "in_sync s0 rs (impl, w)" "starts_from cfg w (im_base_sequence impl) s0"
    "reachable_root cfg w" "unat (im_base_sequence impl) + length rs < 2 ^ 64"
    using assms by (simp_all add: healthy_def)
  have bytes: "file_bytes name w1 = file_bytes name w" for name
    by (simp add: w1_def file_bytes_def)
  have "in_sync s0 rs (impl, w1)"
    using h(2) unfolding in_sync_def prod.case bytes .
  moreover have "starts_from cfg w1 (im_base_sequence impl) s0"
    by (rule starts_from_cong [OF h(3)]) (simp_all add: bytes, simp add: w1_def)
  moreover have "length (sr_files w1) \<le> kMaxCollectionItems"
    using h(4) by (simp add: reachable_root_def w1_def)
  ultimately obtain impl' w' where r: "recover ((new_impl cfg)\<lparr>im_lock := True\<rparr>, w1) = (Done EC_Ok, impl', w')"
    and s: "in_sync s0 rs (impl', w')" "starts_from cfg w' (im_base_sequence impl) s0" "im_config impl' = cfg"
      "im_base_sequence impl' = im_base_sequence impl" "im_recovery impl' = RV_CleanReopen"
      "sr_exists w' = sr_exists w1" "file_bytes ''store.lock'' w' = file_bytes ''store.lock'' w1"
      "length (sr_files w') \<le> length (sr_files w1)"
    using recover_in_sync [of s0 rs impl w1 cfg "im_base_sequence impl"] h(1) by blast
  have "LockFile_acquire ''store.lock'' (ensure_directory (w\<lparr>sr_locked := False\<rparr>)) = (EC_Ok, w1)"
    using h(4)
    by (simp add: LockFile_acquire_def ensure_directory_def open_append_def file_exists_def file_bytes_def
        reachable_root_def w1_def)
  then have "enter_root cfg (new_impl cfg, w\<lparr>sr_locked := False\<rparr>) = (EC_Ok, (new_impl cfg)\<lparr>im_lock := True\<rparr>, w1)"
    using h(4) by (simp add: enter_root_def reachable_root_def)
  then have "open_store cfg (w\<lparr>sr_locked := False\<rparr>) = (Done (Inr impl'), w')"
    using h(4) r by (simp add: open_store_def reachable_root_def)
  moreover have "reachable_root cfg w'"
    using h(4) s(6-8) by (simp add: reachable_root_def file_exists_def w1_def file_bytes_def)
  ultimately show ?thesis
    using s h(5) by (auto simp: healthy_def)
qed

section \<open>Snapshots\<close>

lemma staging_name: "length name > 0 \<Longrightarrow> is_staging (name @ ''.staging'')"
  by (simp add: is_staging_def)

lemma not_staging_of [simp]:
  "journal_file_name n \<noteq> journal_file_name m @ ''.staging''" "journal_file_name n \<noteq> snapshot_file_name m @ ''.staging''"
  "snapshot_file_name n \<noteq> journal_file_name m @ ''.staging''" "snapshot_file_name n \<noteq> snapshot_file_name m @ ''.staging''"
  "''store.lock'' \<noteq> journal_file_name m @ ''.staging''" "''store.lock'' \<noteq> snapshot_file_name m @ ''.staging''"
proof -
  have pos: "length (journal_file_name m) > 0" "length (snapshot_file_name m) > 0"
    by (simp_all add: journal_file_name_def snapshot_file_name_def format_sequence_name_def)
  note st = staging_name [OF pos(1)] staging_name [OF pos(2)]
  show "journal_file_name n \<noteq> journal_file_name m @ ''.staging''" "journal_file_name n \<noteq> snapshot_file_name m @ ''.staging''"
    "snapshot_file_name n \<noteq> journal_file_name m @ ''.staging''" "snapshot_file_name n \<noteq> snapshot_file_name m @ ''.staging''"
    "''store.lock'' \<noteq> journal_file_name m @ ''.staging''" "''store.lock'' \<noteq> snapshot_file_name m @ ''.staging''"
    using st not_staging lock_name(3) by metis+
qed

lemma in_files: "name \<in> fst ` set (sr_files w) \<longleftrightarrow> file_bytes name w \<noteq> None"
  by (simp add: file_bytes_def map_of_eq_None_iff)

lemma snapshots_in_bytes: "snapshots_in w = {n. \<exists>name. file_bytes name w \<noteq> None \<and> parse_snapshot_file_name name = Inr n}"
  unfolding snapshots_in_def Bex_def in_files by simp

lemma set_names_of: "set (names_of w) = {name. file_bytes name w \<noteq> None}"
  unfolding names_of_def set_sort_by set_map by (simp add: set_eq_iff in_files)

text \<open>The files after a snapshot, in terms of the files before.\<close>

definition snapshot_bytes :: "StoreConfig \<Rightarrow> DurableState \<Rightarrow> u8 list" where
  "snapshot_bytes cfg s = encode_snapshot
     \<lparr>sh_version = kDurableFormatVersion, sh_sequence = ds_journal_sequence s,
      sh_payload_length = of_nat (length (bw_data (state_writer cfg s))), sh_payload_crc = 0\<rparr> (bw_data (state_writer cfg s))"

definition after_snapshot :: "StoreConfig \<Rightarrow> DurableState \<Rightarrow> StoreRoot \<Rightarrow> StoreRoot" where
  "after_snapshot cfg s w =
     (let next_name = journal_file_name (ds_journal_sequence s)
      in open_append next_name (write_file_atomic next_name (segment_header (segment_boot s) (ds_journal_sequence s))
           (write_file_atomic (snapshot_file_name (ds_journal_sequence s)) (snapshot_bytes cfg s) w)))"

lemma segment_boot_taken: "segment_boot (snd (acct f s)) = segment_boot s"
  by (simp add: segment_boot_def acct_def split: prod.split)

lemma write_snapshot_Ok:
  assumes "write_snapshot (impl, w) = (EC_Ok, impl', w')"
  shows "bw_ok (state_writer (im_config impl) (im_state impl)) \<and>
    length (sr_files (after_snapshot (im_config impl) (im_state impl) w)) \<le> kMaxCollectionItems \<and>
    impl' = impl\<lparr>im_state := snd (acct record_snapshot_taken (im_state impl)),
      im_journal := Some (journal_file_name (ds_journal_sequence (im_state impl))),
      im_journal_name := journal_file_name (ds_journal_sequence (im_state impl)),
      im_base_sequence := ds_journal_sequence (im_state impl), im_records_in_segment := 0, im_bytes_in_segment := 28\<rparr> \<and>
    w' = (let names = names_of (after_snapshot (im_config impl) (im_state impl) w);
              next_name = journal_file_name (ds_journal_sequence (im_state impl)); previous_name = im_journal_name impl
          in remove_files (filter (stale_journal next_name previous_name) names)
               (remove_files (if previous_name \<noteq> [] \<and> previous_name \<noteq> next_name then [previous_name] else [])
                 (remove_files (filter (stale_snapshot (ds_journal_sequence (im_state impl))) names)
                   (after_snapshot (im_config impl) (im_state impl) w))))"
  using assms unfolding write_snapshot_def Let_def prod.case
  by (auto split: if_splits sum.splits
      simp: list_directory_def names_of_def after_snapshot_def snapshot_bytes_def segment_boot_taken Let_def)

lemma after_snapshot_bytes:
  "file_bytes name (after_snapshot cfg s w) =
     (if name = journal_file_name (ds_journal_sequence s) then Some (segment_header (segment_boot s) (ds_journal_sequence s))
      else if name = snapshot_file_name (ds_journal_sequence s) then Some (snapshot_bytes cfg s)
      else if name = journal_file_name (ds_journal_sequence s) @ ''.staging'' \<or>
              name = snapshot_file_name (ds_journal_sequence s) @ ''.staging'' then None
      else file_bytes name w)"
  by (auto simp: after_snapshot_def Let_def file_bytes_open_append file_bytes_write_file_atomic)

lemma write_snapshot_files:
  assumes ws: "write_snapshot (impl, w) = (EC_Ok, impl', w')"
    and name: "im_journal_name impl = journal_file_name base" and new: "base \<noteq> ds_journal_sequence (im_state impl)"
  shows "file_bytes (journal_file_name (ds_journal_sequence (im_state impl))) w' =
      Some (segment_header (segment_boot (im_state impl)) (ds_journal_sequence (im_state impl)))"
    and "file_bytes (snapshot_file_name (ds_journal_sequence (im_state impl))) w' =
      Some (snapshot_bytes (im_config impl) (im_state impl))"
    and "file_bytes ''store.lock'' w' = file_bytes ''store.lock'' w"
    and "n \<in> snapshots_in w' \<Longrightarrow>
      n = ds_journal_sequence (im_state impl) \<or> ds_journal_sequence (im_state impl) \<le> n \<and> n \<in> snapshots_in w"
    and "length (sr_files w') \<le> kMaxCollectionItems" and "sr_exists w' = sr_exists w" and "sr_locked w' = sr_locked w"
proof -
  let ?seq = "ds_journal_sequence (im_state impl)" and ?after = "after_snapshot (im_config impl) (im_state impl) w"
  let ?next = "journal_file_name ?seq" and ?prev = "journal_file_name base"
  have prev: "?prev \<noteq> ?next"
    using new by (simp add: name_inj)
  moreover have "?prev \<noteq> []"
    by (simp add: journal_file_name_def format_sequence_name_def)
  ultimately have cond: "?prev \<noteq> [] \<and> ?prev \<noteq> ?next"
    by simp
  have w': "w' = remove_files (filter (stale_journal ?next ?prev) (names_of ?after))
      (remove_files [?prev] (remove_files (filter (stale_snapshot ?seq) (names_of ?after)) ?after))"
    and small: "length (sr_files ?after) \<le> kMaxCollectionItems"
    using write_snapshot_Ok [OF ws] unfolding name Let_def if_P [OF cond] by blast+
  have bytes: "file_bytes x w' =
      (if stale_journal ?next ?prev x \<or> x = ?prev \<or> stale_snapshot ?seq x then None else file_bytes x ?after)" for x
    unfolding w' by (auto simp: file_bytes_remove_files set_names_of)
  have fresh: "\<not> stale_snapshot ?seq (journal_file_name k)" "\<not> stale_journal a b (snapshot_file_name k)" for a b k
    using parse_snapshot_refuses(1) [of k] by (auto simp: stale_snapshot_def stale_journal_def parse_snapshot_name)
  show "file_bytes ?next w' = Some (segment_header (segment_boot (im_state impl)) ?seq)"
    using fresh prev by (simp add: bytes stale_journal_def after_snapshot_bytes)
  show "file_bytes (snapshot_file_name ?seq) w' = Some (snapshot_bytes (im_config impl) (im_state impl))"
    using fresh by (simp add: bytes stale_snapshot_def parse_snapshot_name after_snapshot_bytes name_inj)
  have "isl (parse_journal_file_name ''store.lock'')"
    by (simp add: parse_journal_file_name_def parse_sequence_name_def)
  then show "file_bytes ''store.lock'' w' = file_bytes ''store.lock'' w"
    using lock_name parse_snapshot_refuses(2)
    by (auto simp: bytes stale_journal_def stale_snapshot_def after_snapshot_bytes)
  show "n = ?seq \<or> ?seq \<le> n \<and> n \<in> snapshots_in w" if n: "n \<in> snapshots_in w'"
  proof -
    obtain x where x: "file_bytes x w' \<noteq> None" "parse_snapshot_file_name x = Inr n"
      using n by (auto simp: snapshots_in_bytes)
    then have "?seq \<le> n" and "file_bytes x ?after \<noteq> None"
      by (auto simp: bytes stale_snapshot_def split: if_splits)
    moreover have "x \<noteq> ?next"
      using x(2) parse_snapshot_refuses(1) [of ?seq] by auto
    ultimately show ?thesis
      using x(2) by (auto simp: after_snapshot_bytes parse_snapshot_name snapshots_in_bytes split: if_splits)
  qed
  show "length (sr_files w') \<le> kMaxCollectionItems"
    unfolding w' by (intro order_trans [OF remove_files_length] small)
  show "sr_exists w' = sr_exists w" "sr_locked w' = sr_locked w"
    by (simp_all add: w' after_snapshot_def Let_def open_append_def write_file_atomic_def put_file_def remove_file_def)
qed

text \<open>What is read back from a snapshot.\<close>

definition config_sane :: "StoreConfig \<Rightarrow> bool" where
  "config_sane cfg \<longleftrightarrow> unat (so_max_snapshot_bytes cfg) + 4096 < 2 ^ 64"

lemma load_written_snapshot:
  assumes bytes: "file_bytes (snapshot_file_name (ds_journal_sequence s)) w = Some (snapshot_bytes cfg s)"
    and ok: "bw_ok (state_writer cfg s)" and enc: "state_encodable s" and sane: "config_sane cfg"
  shows "load_snapshot cfg (ds_journal_sequence s) w = Inr (snd (acct record_snapshot_loaded s))"
proof -
  define payload where "payload = bw_data (state_writer cfg s)"
  have len: "length payload \<le> min (unat (so_max_snapshot_bytes cfg)) kMaxDocumentBytes"
    unfolding payload_def state_writer_def by (rule within_new_writer [OF within_DurableState])
  then have small: "length payload < 2 ^ 63"
    by (simp add: kMaxDocumentBytes_def)
  define h where "h = \<lparr>sh_version = kDurableFormatVersion, sh_sequence = ds_journal_sequence s,
    sh_payload_length = of_nat (length payload), sh_payload_crc = crc32c payload 0\<rparr>"
  have sb: "snapshot_bytes cfg s = encode_snapshot h payload"
    using small by (simp add: snapshot_bytes_def encode_snapshot_eq h_def snapshot_body_def snapshot_footer_def
        flip: payload_def)
  have "snapshot_layout (encode_snapshot h payload) h payload"
    by (rule encode_snapshot_layout [OF small]) (simp add: snapshot_header_ok_def h_def)
  then have "decode_snapshot (snapshot_bytes cfg s) (unat (so_max_snapshot_bytes cfg)) = Inr (h, payload)"
    unfolding sb using len small by (subst decode_snapshot_iff) (simp_all add: encode_snapshot_eq)
  moreover have "length (snapshot_bytes cfg s) \<le> unat (so_max_snapshot_bytes cfg + 4096)"
    using len sane by (simp add: sb encode_snapshot_eq [OF small] config_sane_def unat_word_ariths)
  moreover obtain r where "decode_DurableState (new_reader payload kMaxBlobBytes) = (Inr s, r)" "decode_finish r = EC_Ok"
    using state_codec.round [OF enc] ok unfolding round_trips_def payload_def state_writer_def by blast
  ultimately show ?thesis
    using bytes by (simp add: load_snapshot_def read_file_def h_def)
qed

lemma acct_view_only:
  "same_commitments s (snd (acct record_snapshot_loaded s))" "same_commitments s (snd (acct record_snapshot_taken s))"
  "ds_journal_records (snd (acct f s)) = ds_journal_records s" "ds_journal_sequence (snd (acct f s)) = ds_journal_sequence s"
proof -
  show "same_commitments s (snd (acct record_snapshot_loaded s))"
    unfolding same_commitments_def
    by (rule exI [of _ "view_of (snd (acct record_snapshot_loaded s))"])
      (auto simp: acct_def record_snapshot_loaded_def bump_def dress_def dress_counters_def view_of_def split: option.split)
  show "same_commitments s (snd (acct record_snapshot_taken s))"
    unfolding same_commitments_def
    by (rule exI [of _ "view_of (snd (acct record_snapshot_taken s))"])
      (auto simp: acct_def record_snapshot_taken_def bump_def dress_def dress_counters_def view_of_def split: option.split)
qed (simp_all add: acct_def split: prod.split)

lemma store_append_Ok:
  "store_append type payload st = (Done EC_Ok, st') \<Longrightarrow> append_batched type payload st = (EC_Ok, st')"
  by (auto simp: store_append_def Let_def split: if_splits prod.splits)

lemma take_snapshot_Ok:
  assumes "take_snapshot (impl, w) = (Done EC_Ok, st')"
  shows "\<exists>s impl1 w1. append_batched RT_AccountingCheckpoint (checkpoint_bytes s) (impl\<lparr>im_state := s\<rparr>, w) = (EC_Ok, impl1, w1) \<and>
    prune (im_config impl) (im_state impl) = (EC_Ok, s) \<and> write_snapshot (impl1, w1) = (EC_Ok, st')"
  using assms unfolding take_snapshot_def Let_def
  by (auto split: if_splits prod.splits outcome.splits dest!: store_append_Ok)

lemma prune_position:
  "ds_journal_records (snd (prune cfg s)) = ds_journal_records s \<and>
   ds_journal_sequence (snd (prune cfg s)) = ds_journal_sequence s"
proof -
  define keeps where "keeps f \<longleftrightarrow> (\<forall>s. ds_journal_records (snd (f s)) = ds_journal_records s \<and>
    ds_journal_sequence (snd (f s)) = ds_journal_sequence s)" for f :: "DurableState \<Rightarrow> status \<times> DurableState"
  have seq: "keeps (status_then f g)" if "keeps f" "keeps g" for f g
    using that by (auto simp: keeps_def status_then_def split: prod.split) (metis snd_conv)+
  have acct: "keeps (acct f)" for f
    by (simp add: keeps_def acct_view_only)
  have "keeps (prune cfg)"
    unfolding prune_def
  proof (intro seq)
    show "keeps (prune_grants cfg)"
      using acct unfolding keeps_def prune_grants_def Let_def status_then_def
      by (auto split: prod.split) (metis snd_conv)+
    show "keeps (prune_fences cfg)"
      by (simp add: keeps_def prune_fences_def Let_def acct_view_only)
    show "keeps (prune_decisions cfg)" "keeps (prune_restorations cfg)"
      by (simp_all add: keeps_def prune_decisions_def prune_restorations_def Let_def)
    show "keeps (prune_evidence cfg)"
      by (auto simp: keeps_def prune_evidence_def Let_def split: sum.split)
  qed
  then show ?thesis
    by (simp add: keeps_def)
qed

lemma append_frame:
  assumes "append_batched type payload (impl, w) = (EC_Ok, impl', w')"
  shows "ds_journal_sequence (im_state impl') = ds_journal_sequence (im_state impl) + 1"
    and "unat (ds_journal_sequence (im_state impl)) + 1 < 2 ^ 64"
    and "ds_journal_records (im_state impl') = ds_journal_records (im_state impl) + 1"
    and "im_config impl' = im_config impl" and "im_journal_name impl' = im_journal_name impl"
    and "im_base_sequence impl' = im_base_sequence impl" and "im_closed impl' = im_closed impl"
    and "\<exists>name bytes. im_journal impl = Some name \<and> w' = write_all_to name bytes w"
proof -
  obtain decoded n k b s1 s2 name where n: "checked_add (ds_journal_sequence (im_state impl)) 1 = Some n"
    and name: "im_journal impl = Some name"
    and k: "checked_add (ds_journal_records (im_state impl)) 1 = Some k"
    and w': "w' = write_all_to name (encode_record (record_frame_header type n payload) payload) w"
    and s1: "acct (record_journal_write 1 (of_nat (length (encode_record (record_frame_header type n payload) payload))))
      ((im_state impl)\<lparr>ds_journal_sequence := n, ds_journal_records := k\<rparr>) = (EC_Ok, s1)"
    and s2: "apply_record type decoded (im_config impl) s1 = (EC_Ok, s2)"
    and pruned: "prune_when_due (im_config impl) s2 = (EC_Ok, im_state impl')"
    and impl': "impl' = impl\<lparr>im_records_in_segment := im_records_in_segment impl + 1, im_state := im_state impl',
                 im_bytes_in_segment := b\<rparr>"
    using append_batched_Ok [OF assms] by blast
  have "ds_journal_records (im_state impl') = ds_journal_records s2 \<and> ds_journal_sequence (im_state impl') = ds_journal_sequence s2"
    using pruned prune_position [of "im_config impl" s2] by (auto simp: prune_when_due_def split: if_splits)
  then have pos: "ds_journal_sequence (im_state impl') = n" "ds_journal_records (im_state impl') = k"
    using apply_record_positionD [OF s2] acct_journal_write [OF s1] by simp_all
  show "ds_journal_sequence (im_state impl') = ds_journal_sequence (im_state impl) + 1"
    "ds_journal_records (im_state impl') = ds_journal_records (im_state impl) + 1"
    using pos n k by (simp_all add: checked_add_def split: if_splits)
  show "unat (ds_journal_sequence (im_state impl)) + 1 < 2 ^ 64"
    using n checked_add_Some_iff [of "ds_journal_sequence (im_state impl)" 1 n] by simp
  show "im_config impl' = im_config impl" "im_journal_name impl' = im_journal_name impl"
    "im_base_sequence impl' = im_base_sequence impl" "im_closed impl' = im_closed impl"
    by (subst impl', simp)+
  show "\<exists>name bytes. im_journal impl = Some name \<and> w' = write_all_to name bytes w"
    using name w' by blast
qed

lemma snapshot_healthy:
  assumes h: "healthy cfg s0 rs (impl, w)" and snap: "take_snapshot (impl, w) = (Done EC_Ok, impl', w')"
    and enc: "state_encodable (im_state impl')" and sane: "config_sane cfg"
  shows "\<exists>s0'. healthy cfg s0' [] (impl', w')"
proof -
  obtain s impl1 w1 where app: "append_batched RT_AccountingCheckpoint (checkpoint_bytes s) (impl\<lparr>im_state := s\<rparr>, w) = (EC_Ok, impl1, w1)"
    and pr: "prune (im_config impl) (im_state impl) = (EC_Ok, s)" and ws: "write_snapshot (impl1, w1) = (EC_Ok, impl', w')"
    using take_snapshot_Ok [OF snap] by auto
  note fr = append_frame [OF app]
  have cfg: "im_config impl = cfg" and sync: "in_sync s0 rs (impl, w)" and base: "starts_from cfg w (im_base_sequence impl) s0"
    and root: "reachable_root cfg w" and room: "unat (im_base_sequence impl) + length rs < 2 ^ 64"
    using h by (simp_all add: healthy_def)
  have jn: "im_journal_name impl = journal_file_name (im_base_sequence impl)"
    "im_journal impl = Some (im_journal_name impl)"
    "ds_journal_sequence (im_state impl) = im_base_sequence impl + of_nat (length rs)"
    "file_bytes (im_journal_name impl) w \<noteq> None" "\<not> im_closed impl" "\<not> so_read_only cfg"
    using sync cfg by (auto simp: in_sync_def)
  define s1 where "s1 = im_state impl1"
  have s: "ds_journal_sequence s = ds_journal_sequence (im_state impl)"
    using prune_position [of "im_config impl" "im_state impl"] pr by simp
  have seq_nat: "unat (ds_journal_sequence s1) = unat (im_base_sequence impl) + length rs + 1"
  proof -
    have "unat (ds_journal_sequence s) = unat (im_base_sequence impl) + length rs"
      using room unfolding s jn(3) by (simp add: unat_word_ariths unat_of_nat take_bit_nat_eq_self)
    then show ?thesis
      using fr(1,2) by (simp add: s1_def unat_word_ariths)
  qed
  then have newer: "im_base_sequence impl < ds_journal_sequence s1"
    by (simp add: word_less_nat_alt)
  have name1: "im_journal_name impl1 = journal_file_name (im_base_sequence impl)" and cfg1: "im_config impl1 = cfg"
    using fr(4,5) jn(1) cfg by simp_all
  obtain jname bytes where w1: "w1 = write_all_to jname bytes w" and jname: "jname = im_journal_name impl"
    using fr(8) jn(2) by auto
  note files = write_snapshot_files [OF ws name1, folded s1_def, unfolded cfg1]
  have files': "file_bytes (journal_file_name (ds_journal_sequence s1)) w' =
      Some (segment_header (segment_boot s1) (ds_journal_sequence s1))"
    "file_bytes (snapshot_file_name (ds_journal_sequence s1)) w' = Some (snapshot_bytes cfg s1)"
    "file_bytes ''store.lock'' w' = file_bytes ''store.lock'' w1"
    "\<And>n. n \<in> snapshots_in w' \<Longrightarrow> n = ds_journal_sequence s1 \<or> ds_journal_sequence s1 \<le> n \<and> n \<in> snapshots_in w1"
    "length (sr_files w') \<le> kMaxCollectionItems" "sr_exists w' = sr_exists w1"
    using files newer by (auto simp: s1_def)
  have impl': "impl' = impl1\<lparr>im_state := snd (acct record_snapshot_taken s1),
      im_journal := Some (journal_file_name (ds_journal_sequence s1)),
      im_journal_name := journal_file_name (ds_journal_sequence s1),
      im_base_sequence := ds_journal_sequence s1, im_records_in_segment := 0, im_bytes_in_segment := 28\<rparr>"
    and ok: "bw_ok (state_writer cfg s1)"
    using write_snapshot_Ok [OF ws] cfg1 by (simp_all add: s1_def)
  define s0' where "s0' = snd (acct record_snapshot_loaded s1)"
  have "state_encodable s1"
    using enc by (simp add: impl' state_encodable_def acct_def split: prod.splits)
  then have load: "load_snapshot cfg (ds_journal_sequence s1) w' = Inr s0'"
    unfolding s0'_def by (rule load_written_snapshot [OF files'(2) ok _ sane])
  have same: "same_commitments s0' (im_state impl')"
    using same_commitments_trans [OF same_commitments_sym [OF acct_view_only(1)] acct_view_only(2), of s1]
    by (simp add: impl' s0'_def)
  have "segment_boot s1 \<noteq> 0"
    by (simp add: segment_boot_def valid_id_def)
  then have sync': "in_sync s0' [] (impl', w')"
    using jn fr(7) cfg1 files'(1) same unat_u64_bound [of "ds_journal_records s1"]
    by (auto simp: in_sync_def impl' segment_bytes_def fits_journal_def acct_view_only s0'_def valid_id_def)
  have "file_bytes x w1 \<noteq> None \<longleftrightarrow> file_bytes x w \<noteq> None" for x
    using jn(4) by (simp add: w1 jname)
  then have old: "snapshots_in w1 = snapshots_in w"
    unfolding snapshots_in_bytes by simp
  have upto: "n \<le> im_base_sequence impl" if "n \<in> snapshots_in w" for n
  proof -
    have "im_base_sequence impl = Max (snapshots_in w)"
      using base that by (auto simp: starts_from_def newest_snapshot_def split: if_splits)
    then show ?thesis
      using Max_ge [OF finite_snapshots that] by argo
  qed
  have "ds_journal_sequence s1 \<in> snapshots_in w'"
    using files'(2) parse_snapshot_name [of "ds_journal_sequence s1"] unfolding snapshots_in_bytes by auto
  moreover have "n = ds_journal_sequence s1" if "n \<in> snapshots_in w'" for n
    using files'(4) [OF that] upto [of n] newer unfolding old by force
  ultimately have only: "snapshots_in w' = {ds_journal_sequence s1}"
    by blast
  have "reachable_root cfg w'"
  proof -
    have "sr_exists w1 = sr_exists w" "file_bytes ''store.lock'' w1 \<noteq> None"
      using root by (simp_all add: w1 write_all_to_def put_file_def, simp add: reachable_root_def file_exists_def file_bytes_def update_conv)
    then show ?thesis
      using root files'(3,5,6) by (simp add: reachable_root_def file_exists_def)
  qed
  moreover have "starts_from cfg w' (ds_journal_sequence s1) s0'"
    using only load by (simp add: starts_from_def newest_snapshot_def)
  ultimately have "healthy cfg s0' [] (impl', w')"
    using cfg1 sync' unat_u64_bound [of "ds_journal_sequence s1"] by (simp add: healthy_def impl')
  then show ?thesis ..
qed

section \<open>Histories\<close>

text \<open>
  Replay does not prune: a record whose live application made the store drop history is replayed without that. Histories
  in which retention bites are left to the snapshot that follows the pruning.
\<close>

definition no_pruning :: "RecordType \<Rightarrow> u8 list \<Rightarrow> StoreImpl \<Rightarrow> bool" where
  "no_pruning type payload impl \<longleftrightarrow>
     (case decode_payload type payload of
        Inl _ \<Rightarrow> True
      | Inr decoded \<Rightarrow> \<not> retention_due (im_config impl) (snd (apply_record type decoded (im_config impl) (im_state impl))))"

text \<open>
  The histories considered. A store is created on an empty root and from then on commits records, one at a time or in a batch,
  takes snapshots, and is killed and opened again. An append that fails before anything is written leaves the store as it is and
  adds nothing. Left out are a clean close and a record that is refused after it was written, which lose state or block the
  next open (theory \<open>Store_Faults\<close>); an append that triggers retention; and events that are only counted, which no record
  makes durable.
\<close>

inductive life :: "StoreConfig \<Rightarrow> store \<Rightarrow> bool" for cfg where
  created: "sr_files w = [] \<Longrightarrow> \<not> sr_locked w \<Longrightarrow> \<not> so_read_only cfg \<Longrightarrow> open_store cfg w = (Done (Inr impl), w') \<Longrightarrow>
    life cfg (impl, w')"
| committed: "life cfg (impl, w) \<Longrightarrow> append_batched type payload (impl, w) = (EC_Ok, impl', w') \<Longrightarrow>
    no_pruning type payload impl \<Longrightarrow> life cfg (impl', w')"
| snapshotted: "life cfg (impl, w) \<Longrightarrow> take_snapshot (impl, w) = (Done EC_Ok, impl', w') \<Longrightarrow>
    state_encodable (im_state impl') \<Longrightarrow> life cfg (impl', w')"
| restarted: "life cfg (impl, w) \<Longrightarrow> open_store cfg (w\<lparr>sr_locked := False\<rparr>) = (Done (Inr impl'), w') \<Longrightarrow>
    life cfg (impl', w')"

lemma commit_healthy:
  assumes h: "healthy cfg s0 rs (impl, w)" and app: "append_batched type payload (impl, w) = (EC_Ok, impl', w')"
    and np: "no_pruning type payload impl"
  shows "healthy cfg s0 (rs @ [(type, payload)]) (impl', w')"
proof -
  have cfg: "im_config impl = cfg" and sync: "in_sync s0 rs (impl, w)" and base: "starts_from cfg w (im_base_sequence impl) s0"
    and root: "reachable_root cfg w" and room: "unat (im_base_sequence impl) + length rs < 2 ^ 64"
    using h by (simp_all add: healthy_def)
  note fr = append_frame [OF app]
  have "\<not> retention_due cfg s" if all: "apply_all cfg (rs @ [(type, payload)]) s0 = Inr s" for s
  proof -
    obtain t where t: "apply_all cfg rs s0 = Inr t" "same_commitments t (im_state impl)"
      using sync cfg by (auto simp: in_sync_def)
    obtain decoded where d: "decode_payload type payload = Inr decoded" "apply_record type decoded cfg t = (EC_Ok, s)"
      using all t(1) by (auto simp: apply_all_append split: sum.splits prod.splits if_splits)
    have "same_commitments s (snd (apply_record type decoded cfg (im_state impl)))"
      using apply_record_same [OF t(2), of "type" decoded cfg] d(2) by simp
    then show ?thesis
      using np d(1) cfg retention_due_same by (auto simp: no_pruning_def)
  qed
  then have sync': "in_sync s0 (rs @ [(type, payload)]) (impl', w')"
    using append_in_sync [OF sync app] cfg by simp
  obtain name bytes where w': "w' = write_all_to name bytes w" and name: "im_journal impl = Some name"
    using fr(8) by blast
  have jn: "name = journal_file_name (im_base_sequence impl)" "file_bytes name w \<noteq> None"
    "ds_journal_sequence (im_state impl) = im_base_sequence impl + of_nat (length rs)"
    using sync name by (auto simp: in_sync_def)
  have names: "fst ` set (sr_files w') = fst ` set (sr_files w)"
    using jn(2) by (auto simp: set_eq_iff in_files w')
  have "starts_from cfg w' (im_base_sequence impl) s0"
    using names name_inj(3) by (intro starts_from_cong [OF base]) (auto simp: w' jn(1))
  moreover have "length (sr_files w') = length (sr_files w)"
    unfolding w' by (rule write_all_to_names(2) [OF jn(2)])
  moreover have "unat (im_base_sequence impl) + length (rs @ [(type, payload)]) < 2 ^ 64"
    using fr(2) room unfolding jn(3) by (simp add: unat_word_ariths unat_of_nat take_bit_nat_eq_self)
  moreover have "file_exists ''store.lock'' w' = file_exists ''store.lock'' w"
    using lock_name(1) by (simp add: file_exists_def w' jn(1))
  moreover have "sr_exists w' = sr_exists w"
    by (simp add: w' write_all_to_def put_file_def)
  ultimately show ?thesis
    using sync' fr(4,6) cfg root by (simp add: healthy_def reachable_root_def)
qed

definition first_root :: "StoreRoot \<Rightarrow> StoreRoot" where
  "first_root w = w\<lparr>sr_exists := True, sr_files := [(''store.lock'', [])], sr_locked := True\<rparr>"

lemma no_sequences: "snapshot_sequences [''store.lock''] = []" "journal_sequences [''store.lock''] = []"
  by (simp_all add: snapshot_sequences_def journal_sequences_def map_filter_simps parse_snapshot_file_name_def
      parse_journal_file_name_def parse_sequence_name_def)

lemma recover_first:
  assumes "\<not> so_read_only cfg"
  shows "recover ((new_impl cfg)\<lparr>im_lock := True\<rparr>, first_root w) =
    (Done EC_Ok, start_segment False (journal_file_name 0) 0 ((new_impl cfg)\<lparr>im_lock := True\<rparr>, first_root w))"
proof -
  have "list_directory (first_root w) = Inr [''store.lock'']"
    by (simp add: list_directory_def first_root_def kMaxCollectionItems_def)
  moreover have "file_bytes (journal_file_name 0) (first_root w) = None"
    using lock_name(1) [of 0] by (simp add: file_bytes_def first_root_def)
  moreover have "(new_impl cfg)\<lparr>im_lock := True, im_state := new_state, im_base_sequence := 0\<rparr> = (new_impl cfg)\<lparr>im_lock := True\<rparr>"
    by (simp add: new_impl_def)
  ultimately show ?thesis
    using assms lock_name(3) no_sequences
    by (simp add: recover_def Let_def remove_files_def)
      (simp add: new_impl_def start_segment_def remove_superseded_def remove_files_def Let_def)
qed

lemma open_first:
  assumes "sr_files w = []" and "\<not> sr_locked w" and "\<not> so_read_only cfg" and "check_config cfg = EC_Ok"
  shows "open_store cfg w =
    (case start_segment False (journal_file_name 0) 0 ((new_impl cfg)\<lparr>im_lock := True\<rparr>, first_root w) of
       (impl, w') \<Rightarrow> (Done (Inr impl), w'))"
proof -
  have "LockFile_acquire ''store.lock'' (ensure_directory w) = (EC_Ok, first_root w)"
    using assms(1,2)
    by (simp add: LockFile_acquire_def ensure_directory_def open_append_def file_exists_def file_bytes_def put_file_def
        first_root_def)
  then show ?thesis
    using assms recover_first [of cfg w] by (simp add: open_store_def enter_root_def split: prod.split)
qed

lemma created_healthy:
  assumes files: "sr_files w = []" and rw: "\<not> so_read_only cfg" and op: "open_store cfg w = (Done (Inr impl), w')"
  shows "healthy cfg new_state [] (impl, w')"
proof -
  have ok: "check_config cfg = EC_Ok"
    using op by (auto simp: open_store_def split: if_splits)
  have "LockFile_acquire ''store.lock'' (ensure_directory w) =
      (if sr_locked w then EC_AlreadyExists else EC_Ok, first_root w)"
    using files
    by (simp add: LockFile_acquire_def ensure_directory_def open_append_def file_exists_def file_bytes_def put_file_def
        first_root_def)
  then have "\<not> sr_locked w" and enter: "enter_root cfg (new_impl cfg, w) = (EC_Ok, (new_impl cfg)\<lparr>im_lock := True\<rparr>, first_root w)"
    using op rw ok by (auto simp: open_store_def enter_root_def split: if_splits)
  have st: "(impl, w') = start_segment False (journal_file_name 0) 0 ((new_impl cfg)\<lparr>im_lock := True\<rparr>, first_root w)"
    using op ok enter recover_first [OF rw, of w] by (simp add: open_store_def) (metis prod.collapse)
  have w': "file_bytes name w' = (if name = journal_file_name 0 then Some (segment_header 1 0)
      else if name = ''store.lock'' then Some [] else None)" for name
  proof -
    have "name \<noteq> journal_file_name 0 @ ''.staging''" if "name = ''store.lock''"
      using that by simp
    then show ?thesis
      using st rw
      by (auto simp: start_segment_def new_impl_def Let_def file_bytes_open_append file_bytes_write_file_atomic)
        (auto simp: file_bytes_def first_root_def)
  qed
  have "snapshots_in w' = {}"
    using parse_snapshot_refuses by (auto simp: snapshots_in_bytes w' split: if_splits) (metis Inl_Inr_False)+
  then have start: "starts_from cfg w' 0 new_state"
    by (simp add: starts_from_def newest_snapshot_def)
  have impl: "im_config impl = cfg" "im_state impl = new_state" "im_journal impl = Some (journal_file_name 0)"
    "im_journal_name impl = journal_file_name 0" "im_base_sequence impl = 0" "im_records_in_segment impl = 0"
    "\<not> im_closed impl"
    using st rw by (simp_all add: start_segment_def new_impl_def Let_def)
  have sync: "in_sync new_state [] (impl, w')"
    using rw
    by (auto simp: in_sync_def impl w' segment_bytes_def fits_journal_def new_state_def valid_id_def intro: exI [of _ 1])
  have "w' = write_file_atomic (journal_file_name 0) (segment_header 1 0) (first_root w)"
    using st rw
    by (simp add: start_segment_def new_impl_def Let_def open_append_def file_exists_def file_bytes_write_file_atomic)
  then have "sr_exists w'" "length (sr_files w') \<le> 2"
    using lock_name(1) [of 0] not_staging_of(5) [of 0]
    by (simp_all add: write_file_atomic_def put_file_def remove_file_def first_root_def)
  then have "reachable_root cfg w'"
    using ok rw w' [of "''store.lock''"] by (simp add: reachable_root_def file_exists_def kMaxCollectionItems_def)
  then show ?thesis
    using sync start by (simp add: healthy_def impl)
qed

lemma life_healthy:
  assumes "life cfg st" and "config_sane cfg"
  shows "\<exists>s0 rs. healthy cfg s0 rs st"
  using assms(1)
proof induction
  case (created w impl w')
  then show ?case
    using created_healthy by blast
next
  case (committed impl w "type" payload impl' w')
  then show ?case
    using commit_healthy by blast
next
  case (snapshotted impl w impl' w')
  then show ?case
    using snapshot_healthy [OF _ _ _ assms(2)] by blast
next
  case (restarted impl w impl' w')
  then obtain s0 rs where "healthy cfg s0 rs (impl, w)"
    by blast
  then have "healthy cfg s0 rs (impl', w')"
    using open_healthy [of cfg s0 rs impl w] restarted.hyps(2) by auto
  then show ?case
    by blast
qed

lemma healthy_same:
  assumes "healthy cfg s0 rs (impl, w)" and "healthy cfg s0 rs (impl', w')" and "im_base_sequence impl' = im_base_sequence impl"
  shows "same_commitments (im_state impl) (im_state impl')"
    and "ds_journal_sequence (im_state impl') = ds_journal_sequence (im_state impl)"
    and "ds_journal_records (im_state impl') = ds_journal_records (im_state impl)"
proof -
  obtain s s' where "apply_all cfg rs s0 = Inr s" "same_commitments s (im_state impl)"
    and "apply_all cfg rs s0 = Inr s'" "same_commitments s' (im_state impl')"
    using assms(1,2) by (auto simp: healthy_def in_sync_def)
  then show "same_commitments (im_state impl) (im_state impl')"
    using same_commitments_sym same_commitments_trans by (metis sum.inject(2))
qed (use assms in \<open>simp_all add: healthy_def in_sync_def\<close>)


definition empty_root :: StoreRoot where
  "empty_root = \<lparr>sr_exists = False, sr_files = [], sr_locked = False\<rparr>"

definition term_payload :: "u8 list" where
  "term_payload = [1, 0, 0, 0, 0, 0, 0, 0]"

lemma decode_term_payload: "decode_payload RT_CoordinatorTermAdvanced term_payload = Inr (new_payload\<lparr>rp_sequence := 1\<rparr>)"
  by (simp add: decode_payload_def payload_sequence_def reading term_payload_def le_value_def decode_finish_def
      ByteReader_at_end_def)

lemma small_store_ok: "check_config small_store = EC_Ok" "\<not> so_read_only small_store" "config_sane small_store"
  by (simp_all add: check_config_def small_store_def text_bytes_def is_text_safe_def unsafe_char_def config_sane_def)

definition first_store :: store where
  "first_store = start_segment False (journal_file_name 0) 0 ((new_impl small_store)\<lparr>im_lock := True\<rparr>, first_root empty_root)"

definition second_store :: store where
  "second_store = snd (append_batched RT_CoordinatorTermAdvanced term_payload first_store)"

lemma first_store_state: "im_state (fst first_store) = new_state" "im_config (fst first_store) = small_store"
  "im_closed (fst first_store) = False" "im_journal (fst first_store) = Some (journal_file_name 0)"
  "im_bytes_in_segment (fst first_store) = 28" "im_records_in_segment (fst first_store) = 0"
  "im_base_sequence (fst first_store) = 0"
  by (simp_all add: first_store_def start_segment_def new_impl_def small_store_ok Let_def)

lemma second_store_Ok: "append_batched RT_CoordinatorTermAdvanced term_payload first_store = (EC_Ok, second_store)"
proof -
  have p: "length term_payload \<le> kMaxRecordPayload" and l: "length term_payload = 8"
    by (simp_all add: term_payload_def kMaxRecordPayload_def)
  obtain impl w where fs: "first_store = (impl, w)"
    by (cases first_store)
  note state = first_store_state [unfolded fs fst_conv]
  have "fst (append_batched RT_CoordinatorTermAdvanced term_payload first_store) = EC_Ok"
    unfolding fs
    by (simp add: append_batched_def state small_store_ok decode_term_payload p Let_def new_state_def
        length_frame [OF p] l checked_add_def status_then_def acct_def record_journal_write_def bump_def no_counters_def
        term_record_def valid_id_def record_term_advance_def new_payload_def prune_when_due_def retention_due_def
        new_evidence_vector_def small_store_def kMaxRecordPayload_def)
  then show ?thesis
    by (simp add: second_store_def prod_eq_iff)
qed

lemma first_life: "life small_store first_store"
proof -
  have "open_store small_store empty_root = (Done (Inr (fst first_store)), snd first_store)"
    by (subst open_first) (simp_all add: empty_root_def small_store_ok first_store_def split: prod.split)
  then have "life small_store (fst first_store, snd first_store)"
    by (intro life.created [of empty_root]) (simp_all add: empty_root_def small_store_ok)
  then show ?thesis
    by simp
qed

lemma second_life: "life small_store (fst second_store, snd second_store)"
proof (rule life.committed)
  show "life small_store (fst first_store, snd first_store)"
    using first_life by simp
  show "append_batched RT_CoordinatorTermAdvanced term_payload (fst first_store, snd first_store) =
      (EC_Ok, fst second_store, snd second_store)"
    using second_store_Ok by simp
  show "no_pruning RT_CoordinatorTermAdvanced term_payload (fst first_store)"
    by (simp add: no_pruning_def decode_term_payload first_store_state term_record_def new_payload_def new_state_def
        valid_id_def acct_def record_term_advance_def bump_def retention_due_def new_evidence_vector_def small_store_def
        checked_add_def no_counters_def)
qed


end
