(* ===== verification/Store_Faults.thy ===== *)
theory Store_Faults
  imports Store_Life
begin

text \<open>
  Where the store falls short of what its comments promise: a record that is refused after it was written makes every open
  fail until a snapshot is taken, and a clean close without a snapshot loses the whole state two opens later.
\<close>

lemma open_via_recover:
  assumes "reachable_root cfg w" and "recover ((new_impl cfg)\<lparr>im_lock := True\<rparr>, w\<lparr>sr_locked := True\<rparr>) = (Done e, st)"
  shows "\<exists>w'. open_store cfg (w\<lparr>sr_locked := False\<rparr>) = (Done (if e = EC_Ok then Inr (fst st) else Inl e), w') \<and>
    (e = EC_Ok \<longrightarrow> w' = snd st)"
proof -
  have "LockFile_acquire ''store.lock'' (ensure_directory (w\<lparr>sr_locked := False\<rparr>)) = (EC_Ok, w\<lparr>sr_locked := True\<rparr>)"
    using assms(1)
    by (simp add: LockFile_acquire_def ensure_directory_def open_append_def file_exists_def file_bytes_def reachable_root_def)
  then have "enter_root cfg (new_impl cfg, w\<lparr>sr_locked := False\<rparr>) =
      (EC_Ok, (new_impl cfg)\<lparr>im_lock := True\<rparr>, w\<lparr>sr_locked := True\<rparr>)"
    using assms(1) by (simp add: enter_root_def reachable_root_def)
  then show ?thesis
    using assms by (simp add: open_store_def reachable_root_def)
qed

lemma lock_bit [simp]: "file_bytes name (w\<lparr>sr_locked := b\<rparr>) = file_bytes name w"
  "newest_snapshot (w\<lparr>sr_locked := b\<rparr>) = newest_snapshot w" "names_of (w\<lparr>sr_locked := b\<rparr>) = names_of w"
  by (simp_all add: file_bytes_def newest_snapshot_def snapshots_in_def names_of_def)

section \<open>A refused record poisons the journal\<close>

text \<open>Recovery once it is known where it starts: everything is up to the active segment.\<close>

lemma recover_via_segment:
  assumes start: "starts_from cfg w base s0" and content: "file_bytes (journal_file_name base) w = Some bytes"
    and rw: "\<not> so_read_only cfg" and small: "length (sr_files w) \<le> kMaxCollectionItems"
    and w1: "w1 = remove_files (filter is_staging (names_of w)) w"
  shows "recover ((new_impl cfg)\<lparr>im_lock := True\<rparr>, w) =
    (case recover_segment (newest_snapshot w \<noteq> None) (journal_file_name base) base bytes
            ((new_impl cfg)\<lparr>im_lock := True, im_state := s0, im_base_sequence := base\<rparr>, w1) of
       (Crashed, st') \<Rightarrow> (Crashed, st')
     | (Done e, st') \<Rightarrow>
        if e \<noteq> EC_Ok then (Done e, st')
        else (Done EC_Ok, remove_superseded (journal_sequences (names_of w)) (snapshot_sequences (names_of w)) (newest_snapshot w) st'))"
proof -
  have content1: "file_bytes (journal_file_name base) w1 = Some bytes"
    using content by (simp add: w1 file_bytes_remove_files)
  have snap1: "file_bytes (snapshot_file_name n) w1 = file_bytes (snapshot_file_name n) w" for n
    by (simp add: w1 file_bytes_remove_files)
  have newest: "(case newest_snapshot w of None \<Rightarrow> Inr new_state | Some n \<Rightarrow> load_snapshot cfg n w1) = Inr s0"
    "(case newest_snapshot w of None \<Rightarrow> 0 | Some n \<Rightarrow> n) = base"
    using start load_snapshot_cong [OF snap1] by (auto simp: starts_from_def split: option.splits)
  have impl0: "im_config ((new_impl cfg)\<lparr>im_lock := True\<rparr>) = cfg" "im_state ((new_impl cfg)\<lparr>im_lock := True\<rparr>) = new_state"
    "im_base_sequence ((new_impl cfg)\<lparr>im_lock := True\<rparr>) = 0"
    by (simp_all add: new_impl_def)
  show ?thesis
    unfolding recover_def prod.case Let_def impl0 list_directory_names [OF small] sum.case newest_snapshot_code [symmetric]
      if_not_P [OF rw] w1 [symmetric] newest content1 option.case
    by (rule refl)
qed

lemma replay_refused:
  assumes "fits_journal rs" and "valid_id boot" and "apply_all cfg rs s0 = Inl e"
  shows "replay_segment cfg hs base (segment_bytes boot base rs @ tail) s0 = Inl e"
proof -
  let ?bytes = "segment_bytes boot base rs @ tail"
  have "?bytes = segment_header boot base @ frames (base + 1) rs @ tail"
    by (simp add: segment_bytes_def)
  note records = replay_frames [OF assms(1) this, of cfg hs 0 s0]
  have "take 28 ?bytes = segment_header boot base" "\<not> length ?bytes < 28"
    by (simp_all add: segment_bytes_def)
  then show ?thesis
    using records assms(3) by (simp add: replay_segment_def kJournalHeaderSize_def decode_segment_header [OF assms(2)])
qed

text \<open>A segment that only changed its content leaves everything else of the root as it was.\<close>

lemma grown_root:
  assumes "reachable_root cfg w" and "starts_from cfg w base s0"
    and "file_bytes (journal_file_name base) w \<noteq> None" and "file_bytes (journal_file_name base) w' \<noteq> None"
    and "\<And>x. x \<noteq> journal_file_name base \<Longrightarrow> file_bytes x w' = file_bytes x w" and "sr_exists w' = sr_exists w"
    and "length (sr_files w') = length (sr_files w)"
  shows "reachable_root cfg w' \<and> starts_from cfg w' base s0"
proof -
  have "fst ` set (sr_files w') = fst ` set (sr_files w)"
    using assms(3-5) by (auto simp: set_eq_iff in_files) metis+
  then have "starts_from cfg w' base s0"
    using assms(5) name_inj(3) by (intro starts_from_cong [OF assms(2)]) auto
  moreover have "file_bytes ''store.lock'' w' = file_bytes ''store.lock'' w"
    using lock_name(1) by (intro assms(5)) simp
  ultimately show ?thesis
    using assms(1,6,7) by (simp add: reachable_root_def file_exists_def)
qed

text \<open>A root whose active segment holds a record that the replay refuses, whatever follows it.\<close>

definition poisoned :: "StoreConfig \<Rightarrow> u64 \<Rightarrow> error_code \<Rightarrow> StoreRoot \<Rightarrow> bool" where
  "poisoned cfg base e w \<longleftrightarrow>
     reachable_root cfg w \<and>
     (\<exists>s0 boot rs tail. valid_id boot \<and> fits_journal rs \<and> apply_all cfg rs s0 = Inl e \<and> starts_from cfg w base s0 \<and>
        file_bytes (journal_file_name base) w = Some (segment_bytes boot base rs @ tail))"

lemma poisoned_cong:
  assumes "poisoned cfg base e w" and "fst ` set (sr_files w') \<subseteq> fst ` set (sr_files w)"
    and "file_bytes (snapshot_file_name base) w' = file_bytes (snapshot_file_name base) w"
    and "file_bytes (journal_file_name base) w' = map_option (\<lambda>bytes. bytes @ added) (file_bytes (journal_file_name base) w)"
    and "file_bytes ''store.lock'' w' = file_bytes ''store.lock'' w" and "sr_exists w' = sr_exists w"
    and "length (sr_files w') \<le> length (sr_files w)"
  shows "poisoned cfg base e w'"
  using assms starts_from_cong [OF _ assms(2,3)] unfolding poisoned_def reachable_root_def file_exists_def by fastforce

lemma open_poisoned:
  assumes p: "poisoned cfg base e w" and e: "e \<noteq> EC_Ok"
  shows "\<exists>w'. open_store cfg (w\<lparr>sr_locked := False\<rparr>) = (Done (Inl e), w') \<and> poisoned cfg base e w'"
proof -
  obtain s0 boot rs tail where boot: "valid_id boot" and rs: "fits_journal rs" and bad: "apply_all cfg rs s0 = Inl e"
    and start: "starts_from cfg w base s0" and root: "reachable_root cfg w"
    and content: "file_bytes (journal_file_name base) w = Some (segment_bytes boot base rs @ tail)"
    using p by (auto simp: poisoned_def)
  define w0 where "w0 = w\<lparr>sr_locked := True\<rparr>"
  define w1 where "w1 = remove_files (filter is_staging (names_of w0)) w0"
  let ?impl = "(new_impl cfg)\<lparr>im_lock := True, im_state := s0, im_base_sequence := base\<rparr>"
  have start0: "starts_from cfg w0 base s0" and rw: "\<not> so_read_only cfg" and small: "length (sr_files w0) \<le> kMaxCollectionItems"
    using starts_from_cong [OF start, of w0] root by (simp_all add: w0_def reachable_root_def)
  have impl: "im_config ?impl = cfg" "im_state ?impl = s0"
    by (simp_all add: new_impl_def)
  have "recover_segment hs (journal_file_name base) base (segment_bytes boot base rs @ tail) (?impl, w1) = (Done e, ?impl, w1)" for hs
    unfolding recover_segment_def prod.case impl replay_refused [OF rs boot bad] by simp
  then have r: "recover ((new_impl cfg)\<lparr>im_lock := True\<rparr>, w0) = (Done e, ?impl, w1)"
    using recover_via_segment [OF start0 _ rw small w1_def] content e by (simp add: w0_def)
  have "LockFile_acquire ''store.lock'' (ensure_directory (w\<lparr>sr_locked := False\<rparr>)) = (EC_Ok, w0)"
    using root
    by (simp add: LockFile_acquire_def ensure_directory_def open_append_def file_exists_def file_bytes_def reachable_root_def w0_def)
  then have "enter_root cfg (new_impl cfg, w\<lparr>sr_locked := False\<rparr>) = (EC_Ok, (new_impl cfg)\<lparr>im_lock := True\<rparr>, w0)"
    using root by (simp add: enter_root_def reachable_root_def)
  then have "open_store cfg (w\<lparr>sr_locked := False\<rparr>) = (Done (Inl e), snd (snd (close_store (?impl, w1))))"
    using root r e by (simp add: open_store_def reachable_root_def)
  moreover have "snd (snd (close_store (?impl, w1))) = w1\<lparr>sr_locked := False\<rparr>"
    using rw by (simp add: close_store_def new_impl_def Let_def LockFile_release_def)
  moreover have "poisoned cfg base e (w1\<lparr>sr_locked := False\<rparr>)"
    using lock_name(3) remove_files_names [of "filter is_staging (names_of w0)" w0] remove_files_length [of _ w0]
    by (intro poisoned_cong [OF p, where added = "[]"])
      (auto simp: w1_def file_bytes_remove_files w0_def option.map_ident)
  ultimately show ?thesis
    by simp
qed

text \<open>An append, whatever it returns, leaves the root as it is or adds a frame to the active segment.\<close>

lemma append_batched_root:
  assumes "append_batched type payload (impl, w) = (e, impl', w')"
  shows "im_journal impl' = im_journal impl \<and>
    (w' = w \<or> (\<exists>name bytes. im_journal impl = Some name \<and> w' = write_all_to name bytes w))"
  using assms unfolding append_batched_def Let_def by (auto split: if_splits sum.splits option.splits prod.splits)

lemma append_poisoned:
  assumes p: "poisoned cfg base e w" and j: "im_journal impl = Some (journal_file_name base)"
    and app: "append_batched type payload (impl, w) = (e', impl', w')"
  shows "poisoned cfg base e w' \<and> im_journal impl' = Some (journal_file_name base)"
proof (cases "w' = w")
  case False
  then obtain bytes where w': "w' = write_all_to (journal_file_name base) bytes w" and j': "im_journal impl' = Some (journal_file_name base)"
    using append_batched_root [OF app] j by auto
  have here: "file_bytes (journal_file_name base) w \<noteq> None"
    using p by (auto simp: poisoned_def)
  then have names: "fst ` set (sr_files w') = fst ` set (sr_files w)"
    by (auto simp: set_eq_iff in_files w')
  have "sr_exists w' = sr_exists w"
    by (simp add: w' write_all_to_def put_file_def)
  then have "poisoned cfg base e w'"
    using names here write_all_to_names(2) [OF here, of bytes] lock_name(1) name_inj(3)
    by (intro poisoned_cong [OF p, where added = bytes]) (auto simp: w')
  then show ?thesis
    using j' by simp
qed (use append_batched_root [OF app] p j in simp)

text \<open>What may happen next: the process goes on appending, then it is gone and the root is opened again and again.\<close>

definition keep_appending :: "(RecordType \<times> u8 list) list \<Rightarrow> store \<Rightarrow> store" where
  "keep_appending later st = fold (\<lambda>(type, payload) st. snd (append_batched type payload st)) later st"

primrec reopen :: "StoreConfig \<Rightarrow> nat \<Rightarrow> StoreRoot \<Rightarrow> StoreRoot" where
  "reopen cfg 0 w = w"
| "reopen cfg (Suc n) w = snd (open_store cfg ((reopen cfg n w)\<lparr>sr_locked := False\<rparr>))"

lemma keep_appending_poisoned:
  "poisoned cfg base e w \<Longrightarrow> im_journal impl = Some (journal_file_name base) \<Longrightarrow>
   poisoned cfg base e (snd (keep_appending later (impl, w)))"
proof (induction later arbitrary: impl w)
  case (Cons r later)
  obtain "type" payload where r: "r = (type, payload)"
    by (cases r)
  obtain e' impl' w' where app: "append_batched type payload (impl, w) = (e', impl', w')"
    by (cases "append_batched type payload (impl, w)") auto
  show ?case
    using Cons.IH append_poisoned [OF Cons.prems app] by (simp add: keep_appending_def r app)
qed (simp add: keep_appending_def)

lemma reopen_poisoned: "poisoned cfg base e w \<Longrightarrow> e \<noteq> EC_Ok \<Longrightarrow> poisoned cfg base e (reopen cfg n w)"
proof (induction n)
  case (Suc n)
  then show ?case
    using open_poisoned [of cfg base e "reopen cfg n w"] by auto
qed simp

text \<open>
  C30. A record is written before it is applied. When \<open>apply_record\<close> refuses it, the append fails, but the frame is already in
  the segment: whatever the process appends after it (without a snapshot, which would start a new segment), and however
  often the root has been opened since, the next open replays the record and fails with the same error.
\<close>

theorem refused_record_poisons_journal:
  assumes h: "healthy cfg s0 rs (impl, w)" and p: "length payload \<le> kMaxRecordPayload"
    and d: "decode_payload type payload = Inr decoded"
    and room: "unat (ds_journal_sequence (im_state impl)) + 1 < 2 ^ 64"
    and app: "append_batched type payload (impl, w) = (e, impl', w')"
    and bad: "fst (apply_record type decoded cfg (im_state impl)) = e'" "e' \<noteq> EC_Ok"
  shows "e \<noteq> EC_Ok \<and>
    (\<forall>later n. \<exists>w''. open_store cfg ((reopen cfg n (snd (keep_appending later (impl', w'))))\<lparr>sr_locked := False\<rparr>) =
       (Done (Inl e'), w''))"
proof -
  have cfg: "im_config impl = cfg" and sync: "in_sync s0 rs (impl, w)" and start: "starts_from cfg w (im_base_sequence impl) s0"
    and root: "reachable_root cfg w"
    using h by (simp_all add: healthy_def)
  define base where "base = im_base_sequence impl"
  define n where "n = ds_journal_sequence (im_state impl) + 1"
  obtain boot t where content: "file_bytes (journal_file_name base) w = Some (segment_bytes boot base rs)" and boot: "valid_id boot"
    and t: "apply_all cfg rs s0 = Inr t" "same_commitments t (im_state impl)"
    and jn: "im_journal impl = Some (journal_file_name base)" "\<not> im_closed impl" "\<not> so_read_only cfg" "fits_journal rs"
      "ds_journal_sequence (im_state impl) = base + of_nat (length rs)"
    using sync cfg by (auto simp: in_sync_def base_def)
  have next_n: "checked_add (ds_journal_sequence (im_state impl)) 1 = Some n"
    using room by (simp add: checked_add_Some_iff n_def unat_word_ariths)
  have w': "w' = write_all_to (journal_file_name base) (encode_record (record_frame_header type n payload) payload) w"
    using app p d next_n jn(1-3) cfg unfolding append_batched_def Let_def prod.case
    by (auto split: option.splits prod.splits)
  have refuse: "fst (apply_record type decoded cfg s) = e'" if "same_commitments s (im_state impl)" for s
    using apply_record_same [OF that] bad(1) by simp
  have "e \<noteq> EC_Ok"
  proof
    assume "e = EC_Ok"
    then obtain decoded' k s1 s2 where "decode_payload type payload = Inr decoded'"
      and s1: "acct (record_journal_write 1 (of_nat (length (encode_record (record_frame_header type n payload) payload))))
        ((im_state impl)\<lparr>ds_journal_sequence := n, ds_journal_records := k\<rparr>) = (EC_Ok, s1)"
      and "apply_record type decoded' cfg s1 = (EC_Ok, s2)"
      using append_batched_Ok [of "type" payload impl w impl' w'] app next_n cfg by auto
    moreover have "same_commitments s1 (im_state impl)"
      using same_commitments_trans [OF same_position] acct_journal_write [OF s1] same_commitments_sym by blast
    ultimately show False
      using refuse [of s1] d bad(2) by simp
  qed
  have all: "apply_all cfg (rs @ [(type, payload)]) s0 = Inl e'"
    using t refuse [OF t(2)] d bad(2) by (cases "apply_record type decoded cfg t") (simp add: apply_all_append)
  have content': "file_bytes (journal_file_name base) w' = Some (segment_bytes boot base (rs @ [(type, payload)]) @ [])"
    using content by (simp add: w' segment_bytes_def frames_append n_def jn(5) ac_simps)
  have "reachable_root cfg w' \<and> starts_from cfg w' base s0"
  proof (rule grown_root [OF root start [folded base_def]])
    show "length (sr_files w') = length (sr_files w)" "sr_exists w' = sr_exists w"
      using content write_all_to_names(2) [of "journal_file_name base" w] by (simp_all add: w') (simp add: write_all_to_def put_file_def)
  qed (use content content' in \<open>simp_all add: w'\<close>)
  moreover have "fits_journal (rs @ [(type, payload)])"
    using jn(4) p by (simp add: fits_journal_def)
  ultimately have "poisoned cfg base e' w'"
    using content' all boot unfolding poisoned_def by blast
  moreover have "im_journal impl' = Some (journal_file_name base)"
    using append_batched_root [OF app] jn(1) by simp
  ultimately show ?thesis
    using \<open>e \<noteq> EC_Ok\<close> keep_appending_poisoned reopen_poisoned open_poisoned bad(2) by meson
qed

lemma first_store_healthy: "healthy small_store new_state [] first_store"
proof -
  have "open_store small_store empty_root = (Done (Inr (fst first_store)), snd first_store)"
    by (subst open_first) (simp_all add: empty_root_def small_store_ok first_store_def split: prod.split)
  then have "healthy small_store new_state [] (fst first_store, snd first_store)"
    by (intro created_healthy [of empty_root]) (simp_all add: empty_root_def small_store_ok)
  then show ?thesis
    by simp
qed

lemma first_no_pruning: "no_pruning RT_CoordinatorTermAdvanced term_payload (fst first_store)"
  by (simp add: no_pruning_def decode_term_payload first_store_state term_record_def new_payload_def new_state_def
      valid_id_def acct_def record_term_advance_def bump_def retention_due_def new_evidence_vector_def small_store_def
      checked_add_def no_counters_def)

lemma first_store_files:
  "map fst (sr_files (snd first_store)) = [''store.lock'', journal_file_name 0]"
  using lock_name(1) [of 0] not_staging_of(5) [of 0] not_staging_of(1) [of 0 0]
  by (simp add: first_store_def start_segment_def new_impl_def Let_def open_append_def file_exists_def small_store_ok
      file_bytes_write_file_atomic) (simp add: write_file_atomic_def put_file_def remove_file_def first_root_def)

definition poisoned_store :: store where
  "poisoned_store = snd (append_batched RT_ContractRetired term_payload first_store)"

theorem refused_record_poisons_journal_witness:
  "\<exists>w. open_store small_store ((reopen small_store 2
      (snd (keep_appending [(RT_CoordinatorTermAdvanced, term_payload)] poisoned_store)))\<lparr>sr_locked := False\<rparr>) =
    (Done (Inl EC_NotFound), w)"
proof -
  have d: "decode_payload RT_ContractRetired term_payload = Inr (new_payload\<lparr>rp_id := 1\<rparr>)"
    by (simp add: decode_payload_def payload_id_def reading term_payload_def le_value_def decode_finish_def
        ByteReader_at_end_def)
  have room: "unat (ds_journal_sequence (im_state (fst first_store))) + 1 < 2 ^ 64"
    and bad: "fst (apply_record RT_ContractRetired (new_payload\<lparr>rp_id := 1\<rparr>) small_store (im_state (fst first_store))) = EC_NotFound"
    by (simp_all add: first_store_state new_state_def retire_record_def)
  have p: "length term_payload \<le> kMaxRecordPayload"
    by (simp add: term_payload_def kMaxRecordPayload_def)
  have app: "append_batched RT_ContractRetired term_payload (fst first_store, snd first_store) =
      (fst (append_batched RT_ContractRetired term_payload first_store), fst poisoned_store, snd poisoned_store)"
    by (simp add: poisoned_store_def)
  show ?thesis
    using refused_record_poisons_journal [OF _ p d room app bad] first_store_healthy by (simp del: reopen.simps)
qed

section \<open>A clean close without a snapshot\<close>

definition closed_segment :: "u64 \<Rightarrow> u64 \<Rightarrow> (RecordType \<times> u8 list) list \<Rightarrow> u8 list" where
  "closed_segment boot base rs = segment_bytes boot base rs @
     encode_journal_footer \<lparr>jf_record_count = of_nat (length rs), jf_last_sequence = base + of_nat (length rs)\<rparr>"

lemma replay_closed_segment:
  assumes "fits_journal rs" and "valid_id boot" and "apply_all cfg rs s0 = Inr s"
  shows "replay_segment cfg hs base (closed_segment boot base rs) s0 =
    Inr (segment_end s (length (closed_segment boot base rs)) (base + 1 + of_nat (length rs)) (of_nat (length rs))\<lparr>rl_footer := True\<rparr>)"
proof -
  let ?f = "\<lparr>jf_record_count = of_nat (length rs), jf_last_sequence = base + of_nat (length rs)\<rparr> :: JournalFooter"
  let ?bytes = "closed_segment boot base rs"
  have "?bytes = segment_header boot base @ frames (base + 1) rs @ encode_journal_footer ?f"
    by (simp add: closed_segment_def segment_bytes_def)
  note records = replay_frames [OF assms(1) this, of cfg hs 0 s0]
  have "?bytes = (segment_header boot base @ frames (base + 1) rs) @ encode_journal_footer ?f"
    by (simp add: closed_segment_def segment_bytes_def)
  note footer = replay_footer [OF this, of cfg hs "base + 1 + of_nat (length rs)" "of_nat (length rs)" s]
  have "take 28 ?bytes = segment_header boot base" "\<not> length ?bytes < 28"
    by (simp_all add: closed_segment_def segment_bytes_def)
  then show ?thesis
    using records footer assms(3)
    by (simp add: replay_segment_def kJournalHeaderSize_def decode_segment_header [OF assms(2)] segment_end_def ac_simps)
qed

text \<open>The successor segment that \<open>open\<close> starts after a footer.\<close>

definition succeeded :: "StoreConfig \<Rightarrow> bool \<Rightarrow> u64 \<Rightarrow> u8 list \<Rightarrow> (RecordType \<times> u8 list) list \<Rightarrow> DurableState \<Rightarrow> StoreImpl" where
  "succeeded cfg hs base bytes rs s =
     (let r = segment_end s (length bytes) (base + 1 + of_nat (length rs)) (of_nat (length rs))\<lparr>rl_footer := True\<rparr>;
          next_base = base + of_nat (length rs)
      in (new_impl cfg)\<lparr>im_lock := True, im_recovery := RV_CleanReopen,
           im_recovery_detail := recovery_text False hs r,
           im_state := snd (acct (record_journal_read (of_nat (length rs)))
             (s\<lparr>ds_journal_records := ds_journal_records s + of_nat (length rs),
                ds_journal_sequence := next_base\<rparr>)),
           im_bytes_in_segment := 28, im_records_in_segment := 0,
           im_journal_name := journal_file_name next_base, im_base_sequence := next_base,
           im_journal := Some (journal_file_name next_base)\<rparr>)"

lemma recover_segment_closed:
  assumes rs: "fits_journal rs" and boot: "valid_id boot" and bytes: "bytes = closed_segment boot base rs"
    and all: "apply_all cfg rs s0 = Inr s" and room: "unat (ds_journal_records s0) + length rs < 2 ^ 64"
    and rw: "\<not> so_read_only cfg" and new: "base + of_nat (length rs) \<noteq> base"
    and impl: "impl = (new_impl cfg)\<lparr>im_lock := True, im_state := s0, im_base_sequence := base\<rparr>"
  shows "\<exists>hdr. recover_segment hs (journal_file_name base) base bytes (impl, w) =
    (Done EC_Ok, succeeded cfg hs base bytes rs s,
     open_append (journal_file_name (base + of_nat (length rs)))
       (write_file_atomic (journal_file_name (base + of_nat (length rs))) hdr w))"
proof -
  have cfg: "im_config impl = cfg" "im_state impl = s0"
    by (simp_all add: impl new_impl_def)
  have records: "ds_journal_records s = ds_journal_records s0"
    using apply_all_position [OF all] .
  have add: "checked_add (ds_journal_records s) (of_nat (length rs)) = Some (ds_journal_records s + of_nat (length rs))"
    using room by (simp add: checked_add_Some_iff records unat_word_ariths unat_of_nat take_bit_nat_eq_self)
  note rp = replay_closed_segment [OF rs boot all, of hs base, folded bytes]
  have seq: "ds_journal_sequence (snd (acct (record_journal_read k) s')) = ds_journal_sequence s'" for k s'
    by (rule acct_view_only(4))
  show ?thesis
    using rw new
    by (simp add: recover_segment_def cfg rp adopt_replay_def segment_end_def add)
      (simp add: reopen_segment_def name_inj seq segment_end_def succeeded_def impl new_impl_def Let_def, rule exI, rule refl)
qed

lemma recover_without_snapshot:
  assumes none: "newest_snapshot w = None" and rw: "\<not> so_read_only cfg" and small: "length (sr_files w) \<le> kMaxCollectionItems"
    and w1: "w1 = remove_files (filter is_staging (names_of w)) w"
    and impl: "impl = (new_impl cfg)\<lparr>im_lock := True\<rparr>"
  shows "recover (impl, w) =
    (case (case file_bytes (journal_file_name 0) w of
             Some bytes \<Rightarrow> recover_segment False (journal_file_name 0) 0 bytes (impl, w1)
           | None \<Rightarrow> (Done EC_Ok, start_segment False (journal_file_name 0) 0 (impl, w1))) of
       (Crashed, st') \<Rightarrow> (Crashed, st')
     | (Done e, st') \<Rightarrow>
        if e \<noteq> EC_Ok then (Done e, st') else (Done EC_Ok, remove_superseded (journal_sequences (names_of w)) [] None st'))"
proof -
  have impl0: "im_config impl = cfg" "im_state impl = new_state" "im_base_sequence impl = 0"
    "impl\<lparr>im_state := new_state, im_base_sequence := 0\<rparr> = impl"
    by (simp_all add: impl new_impl_def)
  have none': "snapshot_sequences (names_of w) = []"
    using none by (simp add: newest_snapshot_code split: if_splits)
  have same: "file_bytes (journal_file_name 0) w1 = file_bytes (journal_file_name 0) w"
    by (simp add: w1 file_bytes_remove_files)
  have "(None \<noteq> (None :: u64 option)) = False"
    by simp
  then show ?thesis
    unfolding recover_def prod.case Let_def impl0 list_directory_names [OF small] sum.case if_not_P [OF rw] w1 [symmetric]
      none' if_P [OF refl] option.case impl0 same
    by (simp only:)
qed

lemma journal_listed: "file_bytes (journal_file_name n) w \<noteq> None \<Longrightarrow> n \<in> set (journal_sequences (names_of w))"
proof -
  assume "file_bytes (journal_file_name n) w \<noteq> None"
  then have "journal_file_name n \<in> set (names_of w)"
    by (simp add: set_names_of)
  moreover have "parse_journal_file_name (journal_file_name n) = Inr n"
    by (simp add: parse_journal_file_name_def journal_file_name_def parse_format_name)
  ultimately show ?thesis
    using parse_snapshot_refuses(1) [of n] by (force simp: journal_sequences_def map_filter_set)
qed

lemma reachable_root_cong:
  assumes "reachable_root cfg w" and "sr_exists w' = sr_exists w" and "file_bytes ''store.lock'' w' \<noteq> None"
    and "length (sr_files w') \<le> kMaxCollectionItems"
  shows "reachable_root cfg w'"
  using assms by (simp add: reachable_root_def file_exists_def)

lemma snapshots_none_cong:
  assumes "newest_snapshot w = None" and "\<And>x. file_bytes x w' \<noteq> None \<Longrightarrow> file_bytes x w \<noteq> None \<or> (\<exists>n. x = journal_file_name n)"
  shows "newest_snapshot w' = None"
proof -
  have "snapshots_in w = {}"
    using assms(1) by (simp add: newest_snapshot_def split: if_splits)
  moreover have "n \<in> snapshots_in w" if n: "n \<in> snapshots_in w'" for n
  proof -
    obtain x where x: "file_bytes x w' \<noteq> None" "parse_snapshot_file_name x = Inr n"
      using n unfolding snapshots_in_bytes by blast
    then have "\<nexists>k. x = journal_file_name k"
      using parse_snapshot_refuses(1) by (metis sum.distinct(1))
    then show ?thesis
      using assms(2) [OF x(1)] x(2) by (auto simp: snapshots_in_bytes)
  qed
  ultimately show ?thesis
    by (auto simp: newest_snapshot_def)
qed

lemma length_update: "length (AList.update k v xs) \<le> Suc (length xs)"
  by (induction xs) auto

lemma open_append_length: "length (sr_files (open_append name (write_file_atomic name bytes w))) \<le> Suc (length (sr_files w))"
proof -
  have "open_append name (write_file_atomic name bytes w) = write_file_atomic name bytes w"
    by (simp add: open_append_def file_exists_def file_bytes_write_file_atomic)
  then show ?thesis
    using length_update [of name bytes "AList.delete (name @ ''.staging'') (sr_files w)"]
      length_delete_le [of "name @ ''.staging''" "sr_files w"]
    by (simp add: write_file_atomic_def put_file_def remove_file_def)
qed

text \<open>The first open after the close: the state is there, the segment that holds it is removed.\<close>

lemma reopen_closed:
  assumes rs: "fits_journal rs" "rs \<noteq> []" "length rs < 2 ^ 64" and boot: "valid_id boot"
    and content: "file_bytes (journal_file_name 0) w = Some (closed_segment boot 0 rs)"
    and all: "apply_all cfg rs new_state = Inr s" and none: "newest_snapshot w = None" and root: "reachable_root cfg w"
    and few: "length (sr_files w) < kMaxCollectionItems"
  shows "\<exists>w'. open_store cfg (w\<lparr>sr_locked := False\<rparr>) =
      (Done (Inr (succeeded cfg False 0 (closed_segment boot 0 rs) rs s)), w') \<and>
    file_bytes (journal_file_name 0) w' = None \<and> newest_snapshot w' = None \<and> reachable_root cfg w'"
proof -
  define n :: u64 where "n = of_nat (length rs)"
  define impl where "impl = succeeded cfg False 0 (closed_segment boot 0 rs) rs s"
  define w0 where "w0 = w\<lparr>sr_locked := True\<rparr>"
  define w1 where "w1 = remove_files (filter is_staging (names_of w0)) w0"
  have n: "n \<noteq> 0" and n_nat: "unat n = length rs"
    using rs(2,3) by (simp_all add: n_def word_unat_eq_iff unat_of_nat take_bit_nat_eq_self)
  have rw: "\<not> so_read_only cfg"
    using root by (simp add: reachable_root_def)
  have "unat (ds_journal_records new_state) + length rs < 2 ^ 64"
    using rs(3) by (simp add: new_state_def)
  moreover have "(new_impl cfg)\<lparr>im_lock := True\<rparr> = (new_impl cfg)\<lparr>im_lock := True, im_state := new_state, im_base_sequence := 0\<rparr>"
    by (simp add: new_impl_def)
  moreover have "0 + of_nat (length rs) \<noteq> (0 :: u64)"
    using n by (simp add: n_def)
  ultimately obtain hdr where seg: "recover_segment False (journal_file_name 0) 0 (closed_segment boot 0 rs)
      ((new_impl cfg)\<lparr>im_lock := True\<rparr>, w1) =
      (Done EC_Ok, impl, open_append (journal_file_name n) (write_file_atomic (journal_file_name n) hdr w1))"
    using recover_segment_closed [OF rs(1) boot refl all _ rw, of 0 _ False w1] unfolding n_def impl_def by auto
  define w2 where "w2 = open_append (journal_file_name n) (write_file_atomic (journal_file_name n) hdr w1)"
  have impl: "im_config impl = cfg" "im_base_sequence impl = n"
    by (simp_all add: impl_def succeeded_def new_impl_def Let_def n_def)
  define js where "js = filter (\<lambda>k. \<not> k \<ge> n) (journal_sequences (names_of w0))"
  define w3 where "w3 = remove_files (map journal_file_name js) w2"
  have "recover ((new_impl cfg)\<lparr>im_lock := True\<rparr>, w0) = (Done EC_Ok, impl, w3)"
    using content none few rw root
    by (subst recover_without_snapshot [OF _ rw _ w1_def refl])
      (simp_all add: w0_def seg impl remove_superseded_def w3_def w2_def js_def reachable_root_def remove_files_def [of "[]"])
  then have open1: "open_store cfg (w\<lparr>sr_locked := False\<rparr>) = (Done (Inr impl), w3)"
    using open_via_recover [OF root, of EC_Ok] by (auto simp: w0_def)
  have bytes2: "file_bytes x w2 = (if x = journal_file_name n then Some hdr
      else if x = journal_file_name n @ ''.staging'' \<or> x \<in> set (filter is_staging (names_of w0)) then None else file_bytes x w)" for x
    by (auto simp: w2_def file_bytes_open_append file_bytes_write_file_atomic w1_def file_bytes_remove_files w0_def)
  have bytes3: "file_bytes x w3 = (if x \<in> journal_file_name ` set js then None else file_bytes x w2)" for x
    by (simp add: w3_def file_bytes_remove_files)
  have "0 \<in> set js"
    using journal_listed [of 0 w0] content n by (simp add: js_def w0_def word_neq_0_conv)
  then have gone: "file_bytes (journal_file_name 0) w3 = None"
    by (simp add: bytes3)
  have still: "newest_snapshot w3 = None"
    by (rule snapshots_none_cong [OF none]) (auto simp: bytes3 bytes2 split: if_splits)
  have "file_bytes ''store.lock'' w \<noteq> None"
    using root by (simp add: reachable_root_def file_exists_def)
  then have lock: "file_bytes ''store.lock'' w3 \<noteq> None"
    using lock_name by (auto simp: bytes3 bytes2)
  have "length (sr_files w2) \<le> Suc (length (sr_files w))"
    using open_append_length [of "journal_file_name n" hdr w1] remove_files_length [of "filter is_staging (names_of w0)" w0]
    by (simp add: w2_def w1_def w0_def)
  then have "length (sr_files w3) \<le> kMaxCollectionItems"
    using few remove_files_length [of "map journal_file_name js" w2] by (simp add: w3_def)
  moreover have "sr_exists w3 = sr_exists w"
    by (simp add: w3_def w2_def w1_def w0_def open_append_def write_file_atomic_def put_file_def remove_file_def)
  ultimately have "reachable_root cfg w3"
    using reachable_root_cong [OF root _ lock] by simp
  then show ?thesis
    using open1 gone still unfolding impl_def by blast
qed

text \<open>The second open after the close: nothing is left, and the store says it is new.\<close>

lemma open_fresh:
  assumes gone: "file_bytes (journal_file_name 0) w = None" and none: "newest_snapshot w = None" and root: "reachable_root cfg w"
  shows "\<exists>impl w'. open_store cfg (w\<lparr>sr_locked := False\<rparr>) = (Done (Inr impl), w') \<and>
    im_recovery impl = RV_FreshStore \<and> im_state impl = new_state"
proof -
  define w0 where "w0 = w\<lparr>sr_locked := True\<rparr>"
  have rw: "\<not> so_read_only cfg" and small: "length (sr_files w0) \<le> kMaxCollectionItems"
    using root by (simp_all add: reachable_root_def w0_def)
  have none0: "newest_snapshot w0 = None" and gone0: "file_bytes (journal_file_name 0) w0 = None"
    using none gone by (simp_all add: w0_def)
  obtain impl w1 where seg: "start_segment False (journal_file_name 0) 0
      ((new_impl cfg)\<lparr>im_lock := True\<rparr>, remove_files (filter is_staging (names_of w0)) w0) = (impl, w1)"
    by fastforce
  have impl: "im_recovery impl = RV_FreshStore" "im_state impl = new_state"
    using seg rw by (auto simp: start_segment_def new_impl_def Let_def)
  obtain w' where st: "recover ((new_impl cfg)\<lparr>im_lock := True\<rparr>, w0) = (Done EC_Ok, impl, w')"
    by (cases "so_read_only (im_config impl)")
      (simp_all add: recover_without_snapshot [OF none0 rw small refl refl] gone0 seg remove_superseded_def)
  show ?thesis
    using open_via_recover [OF root st [unfolded w0_def]] impl by auto
qed

text \<open>
  C29. A store that is closed cleanly before its first snapshot loses everything. \<open>close\<close> ends the segment with a footer.
  The first open after it replays the segment and restores the commitments, but because of the footer it starts a successor
  segment and removes the replayed one as superseded, without writing a snapshot: the restored state is nowhere on disk.
  The second open, here after a kill with nothing committed in between, finds neither the first segment nor a snapshot and
  reports a new, empty store. The hypotheses say that the store is in a healthy state with at least one record, that no
  snapshot was taken, and that the directory has room for one more file.
\<close>

theorem close_without_snapshot_loses_state:
  assumes h: "healthy cfg s0 rs (impl, w)" and none: "newest_snapshot w = None" and rs: "rs \<noteq> []"
    and few: "length (sr_files w) < kMaxCollectionItems" and cl: "close_store (impl, w) = (e, impl1, w1)"
  shows "\<exists>impl2 w2 impl3 w3. e = EC_Ok \<and>
    open_store cfg (w1\<lparr>sr_locked := False\<rparr>) = (Done (Inr impl2), w2) \<and> im_recovery impl2 = RV_CleanReopen \<and>
    same_commitments (im_state impl) (im_state impl2) \<and>
    open_store cfg (w2\<lparr>sr_locked := False\<rparr>) = (Done (Inr impl3), w3) \<and> im_recovery impl3 = RV_FreshStore \<and>
    im_state impl3 = new_state"
proof -
  have cfg: "im_config impl = cfg" and sync: "in_sync s0 rs (impl, w)" and start: "starts_from cfg w (im_base_sequence impl) s0"
    and root: "reachable_root cfg w" and room: "unat (im_base_sequence impl) + length rs < 2 ^ 64"
    using h by (simp_all add: healthy_def)
  have base: "im_base_sequence impl = 0" "s0 = new_state"
    using start none by (simp_all add: starts_from_def)
  define name where "name = journal_file_name 0"
  obtain boot t where content: "file_bytes name w = Some (segment_bytes boot 0 rs)" and boot: "valid_id boot"
    and t: "apply_all cfg rs new_state = Inr t" "same_commitments t (im_state impl)"
    and jn: "im_journal impl = Some name" "\<not> im_closed impl" "\<not> so_read_only cfg" "fits_journal rs"
      "ds_journal_sequence (im_state impl) = of_nat (length rs)" "im_records_in_segment impl = of_nat (length rs)"
    using sync cfg base by (auto simp: in_sync_def name_def)
  define foot where "foot = encode_journal_footer \<lparr>jf_record_count = of_nat (length rs), jf_last_sequence = of_nat (length rs)\<rparr>"
  have e: "e = EC_Ok" and w1: "w1 = write_all_to name foot (LockFile_release (im_lock impl) w)"
    using cl jn cfg by (auto simp: close_store_def Let_def foot_def)
  have bytes: "file_bytes x w1 = (if x = name then Some (closed_segment boot 0 rs) else file_bytes x w)" for x
    using content by (simp add: w1 LockFile_release_def closed_segment_def foot_def)
  have same_len: "length (sr_files w1) = length (sr_files w)"
    using write_all_to_names(2) [of name "LockFile_release (im_lock impl) w" foot] content
    by (simp add: w1 LockFile_release_def split: if_splits)
  have none1: "newest_snapshot w1 = None"
    by (rule snapshots_none_cong [OF none]) (auto simp: bytes name_def split: if_splits)
  have "file_bytes ''store.lock'' w1 \<noteq> None"
    using root lock_name(1) [of 0] by (simp add: bytes name_def reachable_root_def file_exists_def)
  then have root1: "reachable_root cfg w1"
    using reachable_root_cong [OF root] same_len few
    by (simp add: w1 LockFile_release_def write_all_to_def put_file_def)
  obtain w2 where o1: "open_store cfg (w1\<lparr>sr_locked := False\<rparr>) =
      (Done (Inr (succeeded cfg False 0 (closed_segment boot 0 rs) rs t)), w2)"
    and after: "file_bytes (journal_file_name 0) w2 = None" "newest_snapshot w2 = None" "reachable_root cfg w2"
    using reopen_closed [OF jn(4) rs _ boot _ t(1) none1 root1] room base few same_len
    by (auto simp: bytes name_def)
  have swap: "t\<lparr>ds_journal_records := a, ds_journal_sequence := b\<rparr> = t\<lparr>ds_journal_sequence := b, ds_journal_records := a\<rparr>" for a b
    by simp
  have "same_commitments t (im_state (succeeded cfg False 0 (closed_segment boot 0 rs) rs t))"
    using acct_journal_read same_position same_commitments_trans by (simp add: succeeded_def Let_def swap) blast
  then have "same_commitments (im_state impl) (im_state (succeeded cfg False 0 (closed_segment boot 0 rs) rs t))"
    using t(2) same_commitments_sym same_commitments_trans by blast
  moreover have "im_recovery (succeeded cfg False 0 (closed_segment boot 0 rs) rs t) = RV_CleanReopen"
    by (simp add: succeeded_def Let_def)
  ultimately show ?thesis
    using e o1 open_fresh [OF after] by blast
qed

theorem close_without_snapshot_loses_state_witness:
  "\<exists>impl1 w1 impl2 w2 impl3 w3. close_store second_store = (EC_Ok, impl1, w1) \<and>
    open_store small_store (w1\<lparr>sr_locked := False\<rparr>) = (Done (Inr impl2), w2) \<and> im_recovery impl2 = RV_CleanReopen \<and>
    open_store small_store (w2\<lparr>sr_locked := False\<rparr>) = (Done (Inr impl3), w3) \<and> im_recovery impl3 = RV_FreshStore"
proof -
  obtain impl w where st: "second_store = (impl, w)"
    by (cases second_store)
  have h: "healthy small_store new_state [(RT_CoordinatorTermAdvanced, term_payload)] (impl, w)"
    using commit_healthy [of small_store new_state "[]" "fst first_store" "snd first_store"] first_store_healthy
      second_store_Ok first_no_pruning by (simp add: st)
  obtain name bytes where w: "w = write_all_to name bytes (snd first_store)" and name: "name = journal_file_name 0"
    using append_frame(8) [of RT_CoordinatorTermAdvanced term_payload "fst first_store" "snd first_store" impl w]
      second_store_Ok first_store_state(4) by (auto simp: st)
  have "file_bytes name (snd first_store) \<noteq> None"
    unfolding in_files [symmetric] set_map [symmetric] first_store_files name by simp
  moreover have "newest_snapshot (snd first_store) = None"
    using first_store_files parse_snapshot_refuses(1) [of 0] parse_snapshot_refuses(2)
    by (auto simp: newest_snapshot_def snapshots_in_def simp flip: set_map)
  ultimately have len: "length (sr_files w) = length (sr_files (snd first_store))"
    and none: "newest_snapshot w = None"
    using write_all_to_names(2) [of name "snd first_store" bytes]
      snapshots_none_cong [of "snd first_store" "write_all_to name bytes (snd first_store)"]
    by (simp_all add: w name file_bytes_write_all_to split: if_splits)
  have "length (sr_files (snd first_store)) \<le> 2"
    using arg_cong [OF first_store_files, of length] by simp
  then have "length (sr_files w) < kMaxCollectionItems"
    by (simp add: len kMaxCollectionItems_def)
  then show ?thesis
    using close_without_snapshot_loses_state [OF h none] by (cases "close_store (impl, w)") (auto simp: st)
qed

end
