(* ===== verification/Store_Torn.thy ===== *)
theory Store_Torn
  imports Store_Faults
begin

text \<open>
  A write that stops in the middle of a record. Replay keeps every record before it; what the repair leaves in the segment
  depends on how many bytes of the record arrived.
\<close>

abbreviation frame_of :: "RecordType \<Rightarrow> u64 \<Rightarrow> u8 list \<Rightarrow> u8 list" where
  "frame_of type n payload \<equiv> encode_record (record_frame_header type n payload) payload"

definition torn_at :: "DurableState \<Rightarrow> nat \<Rightarrow> nat \<Rightarrow> u64 \<Rightarrow> nat \<Rightarrow> Replay" where
  "torn_at s consumed n base cnt =
     \<lparr>rl_state = s, rl_consumed = consumed, rl_expected = base + 1 + of_nat cnt, rl_count = of_nat cnt,
      rl_footer = False, rl_torn = True, rl_torn_bytes = n\<rparr>"

lemma replay_short:
  assumes "bytes = pre @ part" and "part \<noteq> []" and "length part < 28"
  shows "replay cfg hs bytes (length pre) n cnt s =
    (if hs then Inl EC_Corrupt
     else Inr (segment_end s (length pre) n cnt\<lparr>rl_torn := True, rl_torn_bytes := length part\<rparr>))"
  using assms by (subst replay.simps) (simp add: frame_sizes segment_end_def Let_def)

lemma replay_headless:
  assumes p: "length payload \<le> kMaxRecordPayload" and bytes: "bytes = pre @ take 28 (frame_of type n payload) @ rest"
    and short: "length rest < length payload + 4"
  shows "replay cfg hs bytes (length pre) n cnt s =
    Inr (segment_end s (length pre + 28) n cnt\<lparr>rl_torn := True, rl_torn_bytes := length rest\<rparr>)"
proof -
  let ?h = "record_frame_header type n payload"
  have hdr: "take 28 (drop (length pre) bytes) = with_crc (record_body ?h (length payload))"
    by (simp add: bytes encode_frame_parts [OF p])
  have len: "length bytes = length pre + 28 + length rest"
    by (simp add: bytes length_frame [OF p])
  have fields: "rh_sequence ?h = n" "unat (rh_payload_length ?h) = length payload"
    by (simp_all add: record_frame_header_def payload_length_word [OF p])
  show ?thesis
    using len short record_is_no_footer [of ?h "length payload"]
    by (subst replay.simps, unfold frame_sizes Let_def hdr decode_frame_header [OF p] sum.case fields)
      (simp add: segment_end_def)
qed

lemma replay_torn_segment:
  assumes rs: "fits_journal rs" and boot: "valid_id boot" and all: "apply_all cfg rs s0 = Inr s"
    and tail: "replay cfg hs (segment_bytes boot base rs @ part) (length (segment_bytes boot base rs))
      (base + 1 + of_nat (length rs)) (of_nat (length rs)) s = result"
    and ends: "\<And>r. result = Inr r \<Longrightarrow> rl_torn r \<or> rl_consumed r = length (segment_bytes boot base rs @ part)"
  shows "replay_segment cfg hs base (segment_bytes boot base rs @ part) s0 = result"
proof -
  define bytes where "bytes = segment_bytes boot base rs @ part"
  have "bytes = segment_header boot base @ frames (base + 1) rs @ part"
    by (simp add: bytes_def segment_bytes_def)
  note records = replay_frames [OF rs this, of cfg hs 0 s0]
  have hdr: "take 28 bytes = segment_header boot base" "\<not> length bytes < 28"
    by (simp_all add: bytes_def segment_bytes_def)
  have "replay cfg hs bytes 28 (base + 1) 0 s0 = result"
    using records all tail [folded bytes_def] by (simp add: segment_bytes_def)
  then show ?thesis
    using ends unfolding bytes_def [symmetric] replay_segment_def
    by (auto simp: kJournalHeaderSize_def hdr decode_segment_header [OF boot] split: sum.split)
qed

lemma torn_tail_cases:
  assumes "fits_journal rs" and "valid_id boot" and "apply_all cfg rs s0 = Inr s"
    and p: "length payload \<le> kMaxRecordPayload" and k: "k < length payload + 32"
    and seg: "seg = segment_bytes boot base rs" and part: "part = take k (frame_of type (base + 1 + of_nat (length rs)) payload)"
  shows "replay_segment cfg hs base (seg @ part) s0 =
    (if k = 0 then Inr (segment_end s (length seg) (base + 1 + of_nat (length rs)) (of_nat (length rs)))
     else if k < 28 then if hs then Inl EC_Corrupt else Inr (torn_at s (length seg) k base (length rs))
     else Inr (torn_at s (length seg + 28) (k - 28) base (length rs)))"
proof -
  let ?f = "frame_of type (base + 1 + of_nat (length rs)) payload"
  have len: "length part = k"
    using k by (simp add: part length_frame [OF p])
  consider (none) "k = 0" | (short) "0 < k" "k < 28" | (headed) "28 \<le> k"
    by linarith
  then show ?thesis
  proof cases
    case none
    then show ?thesis
      using replay_torn_segment [OF assms(1-3), where part = "[]"]
      by (simp add: part seg replay_end) (simp add: segment_end_def)
  next
    case short
    have "part \<noteq> []"
      using len short by auto
    note tail = replay_short [OF refl this, unfolded len, OF short(2)]
    show ?thesis
      unfolding seg
      using short by (intro replay_torn_segment [OF assms(1-3)], subst tail) (auto simp: torn_at_def segment_end_def split: if_splits)
  next
    case headed
    define rest where "rest = take (k - 28) (drop 28 ?f)"
    have part': "part = take 28 ?f @ rest"
      using headed take_add [of 28 "k - 28" ?f] by (simp add: part rest_def)
    have rest_len: "length rest = k - 28"
      using len part' length_frame [OF p] by (simp add: rest_def)
    have tail: "replay cfg hs (seg @ part) (length seg) (base + 1 + of_nat (length rs)) (of_nat (length rs)) s =
        Inr (torn_at s (length seg + 28) (k - 28) base (length rs))"
      using k headed
      by (subst replay_headless [OF p, where rest = rest and pre = seg]) (simp_all add: part' rest_len torn_at_def segment_end_def)
    show ?thesis
      unfolding seg
      using headed by (intro replay_torn_segment [OF assms(1-3)], subst tail [unfolded seg]) (auto simp: torn_at_def)
  qed
qed

text \<open>
  C27. What recovery makes of a write that was cut off. For a segment with committed records and the first \<open>k\<close> bytes of the
  next record, replay applies exactly the committed records, never part of the torn one. With no byte of it the segment ends
  cleanly; with fewer bytes than a record header the tail is torn, except that a store with a snapshot is refused as corrupt;
  with the header and part of the payload the tail is torn and the position the repair truncates to lies behind the header.
\<close>

theorem torn_append_recovery:
  assumes "fits_journal rs" and "valid_id boot" and "apply_all cfg rs s0 = Inr s"
    and "length payload \<le> kMaxRecordPayload" and "k < length payload + 32"
  shows "replay_segment cfg hs base
      (segment_bytes boot base rs @ take k (frame_of type (base + 1 + of_nat (length rs)) payload)) s0 =
    (if k = 0 then Inr (segment_end s (length (segment_bytes boot base rs)) (base + 1 + of_nat (length rs)) (of_nat (length rs)))
     else if k < 28 then if hs then Inl EC_Corrupt else Inr (torn_at s (length (segment_bytes boot base rs)) k base (length rs))
     else Inr (torn_at s (length (segment_bytes boot base rs) + 28) (k - 28) base (length rs)))"
  by (rule torn_tail_cases [OF assms refl refl])

theorem torn_append_recovery_witness:
  "replay_segment small_store False 0 (segment_bytes 1 0 [] @ take 30 (frame_of RT_CoordinatorTermAdvanced 1 term_payload)) new_state =
     Inr (torn_at new_state 56 2 0 0) \<and>
   replay_segment small_store True 0 (segment_bytes 1 0 [] @ take 5 (frame_of RT_CoordinatorTermAdvanced 1 term_payload)) new_state =
     Inl EC_Corrupt"
  using torn_append_recovery [of "[]" 1 small_store new_state new_state term_payload 30 False 0 RT_CoordinatorTermAdvanced]
    torn_append_recovery [of "[]" 1 small_store new_state new_state term_payload 5 True 0 RT_CoordinatorTermAdvanced]
  by (simp add: fits_journal_def valid_id_def term_payload_def kMaxRecordPayload_def segment_bytes_def)

end
