(* ===== verification/Evidence_Store.thy ===== *)
theory Evidence_Store
  imports Codec_Laws
begin

text \<open>
  The live evidence frontier: class \<open>EvidenceStore\<close> of \<open>include/dmf/runtime.hpp\<close> and
  \<open>src/runtime/evidence_store.cpp\<close>. It keeps the current observations and, per publisher, the highest
  incarnation seen. The hash map of incarnations is a partial function.
\<close>

record EvidenceStore =
  es_live :: EvidenceVector
  es_publisher_incarnation :: "u64 \<rightharpoonup> u64"

definition new_evidence_store :: "nat \<Rightarrow> EvidenceStore" where
  "new_evidence_store limit = \<lparr>es_live = new_evidence_vector limit, es_publisher_incarnation = Map.empty\<rparr>"

definition EvidenceStore_reset_limit :: "nat \<Rightarrow> EvidenceStore \<Rightarrow> EvidenceStore" where
  "EvidenceStore_reset_limit limit s = s\<lparr>es_live := new_evidence_vector limit\<rparr>"

definition EvidenceStore_clear :: "EvidenceStore \<Rightarrow> EvidenceStore" where
  "EvidenceStore_clear s = s\<lparr>es_live := new_evidence_vector (ev_limit (es_live s))\<rparr>"

definition newer_incarnation :: "EvidenceItem \<Rightarrow> EvidenceStore \<Rightarrow> bool" where
  "newer_incarnation i s \<longleftrightarrow>
     (case es_publisher_incarnation s (ei_publisher i) of None \<Rightarrow> False | Some known \<Rightarrow> known < ei_publisher_boot i)"

definition replaced_by :: "EvidenceItem \<Rightarrow> EvidenceStore \<Rightarrow> EvidenceItem \<Rightarrow> bool" where
  "replaced_by i s existing \<longleftrightarrow>
     ei_scope existing = ei_scope i \<and> ei_kind existing = ei_kind i \<and>
     (ei_publisher existing = ei_publisher i \<or>
      (newer_incarnation i s \<and> ei_publisher existing = ei_publisher i))"

text \<open>The loop over the live items; the flag is \<open>superseded\<close>, which is set also when a later step fails.\<close>

fun rebuild_live ::
    "EvidenceItem \<Rightarrow> EvidenceStore \<Rightarrow> EvidenceItem list \<Rightarrow> bool \<Rightarrow> EvidenceVector \<Rightarrow> EvidenceVector result \<times> bool" where
  "rebuild_live i s [] superseded rebuilt = (Inr rebuilt, superseded)"
| "rebuild_live i s (existing # rest) superseded rebuilt =
     (if replaced_by i s existing
      then rebuild_live i s rest (superseded \<or> ei_publisher existing = ei_publisher i) rebuilt
      else case EvidenceVector_push existing rebuilt of
             Inl e \<Rightarrow> (Inl e, superseded)
           | Inr rebuilt' \<Rightarrow> rebuild_live i s rest superseded rebuilt')"

definition EvidenceStore_publish :: "EvidenceItem \<Rightarrow> EvidenceStore \<Rightarrow> status \<times> bool \<times> EvidenceStore" where
  "EvidenceStore_publish i s =
     (let st = EvidenceItem_validate i;
          known = es_publisher_incarnation s (ei_publisher i)
      in if st \<noteq> EC_Ok then (st, False, s)
         else if (case known of None \<Rightarrow> False | Some b \<Rightarrow> ei_publisher_boot i < b) then (EC_Stale, False, s)
         else case rebuild_live i s (ev_items (es_live s)) (newer_incarnation i s)
                     (new_evidence_vector (ev_limit (es_live s))) of
                (Inl e, superseded) \<Rightarrow> (e, superseded, s)
              | (Inr rebuilt, superseded) \<Rightarrow>
                 (case EvidenceVector_push i rebuilt of
                    Inl e \<Rightarrow> (e, superseded, s)
                  | Inr pushed \<Rightarrow>
                     (case EvidenceVector_normalize pushed of
                        Inl e \<Rightarrow> (e, superseded, s)
                      | Inr normal \<Rightarrow>
                         (EC_Ok, superseded,
                          \<lparr>es_live = normal,
                           es_publisher_incarnation =
                             (if known = None \<or> newer_incarnation i s
                              then (es_publisher_incarnation s)(ei_publisher i \<mapsto> ei_publisher_boot i)
                              else es_publisher_incarnation s)\<rparr>))))"

definition EvidenceStore_capability ::
    "EvidenceStore \<Rightarrow> u64 \<Rightarrow> u64 \<Rightarrow> FreshnessWindow \<Rightarrow> CapabilitySnapshot result" where
  "EvidenceStore_capability s scope generation freshness = derive_capability (es_live s) scope generation freshness"

definition EvidenceStore_has_scope :: "EvidenceStore \<Rightarrow> u64 \<Rightarrow> bool" where
  "EvidenceStore_has_scope s scope \<longleftrightarrow> list_ex (\<lambda>i. ei_scope i = scope) (ev_items (es_live s))"

section \<open>The frontier\<close>

text \<open>
  One identified observation per source, within the limit, and none from an incarnation above the one
  recorded for its publisher.
\<close>

definition frontier :: "EvidenceStore \<Rightarrow> bool" where
  "frontier s \<longleftrightarrow>
     key_sorted src (ev_items (es_live s)) \<and> list_all EvidenceItem_identified (ev_items (es_live s)) \<and>
     length (ev_items (es_live s)) \<le> ev_limit (es_live s) \<and>
     (\<forall>i \<in> set (ev_items (es_live s)).
        \<exists>b. es_publisher_incarnation s (ei_publisher i) = Some b \<and> ei_publisher_boot i \<le> b)"

definition others :: "EvidenceItem \<Rightarrow> EvidenceStore \<Rightarrow> EvidenceItem list" where
  "others i s = filter (\<lambda>e. \<not> same_source e i) (ev_items (es_live s))"

lemma replaced_by_source: "replaced_by i s e \<longleftrightarrow> same_source e i"
  by (auto simp: replaced_by_def same_source_def)

lemma identified_ok: "EvidenceItem_identified i \<Longrightarrow> EvidenceItem_validate i = EC_Ok"
  by (simp add: EvidenceItem_identified_def)

lemma rebuild_live_result:
  assumes "list_all EvidenceItem_identified es" and "length (ev_items v) + length es \<le> ev_limit v"
  shows "rebuild_live i s es flag v =
    (Inr (v\<lparr>ev_items := ev_items v @ filter (\<lambda>e. \<not> same_source e i) es\<rparr>), flag \<or> list_ex (\<lambda>e. same_source e i) es)"
  using assms
proof (induction es arbitrary: flag v)
  case (Cons e es)
  then show ?case
    by (auto simp: replaced_by_source EvidenceVector_push_def identified_ok)
      (auto simp: same_source_def)
qed simp


lemma normalize_distinct:
  assumes "distinct (map src (ev_items v))" and "list_all EvidenceItem_identified (ev_items v)"
  shows "EvidenceVector_normalize v = Inr (v\<lparr>ev_items := sort_by evidence_item_less (ev_items v)\<rparr>)"
    and "key_sorted src (sort_by evidence_item_less (ev_items v))"
proof -
  let ?s = "sort_by evidence_item_less (ev_items v)"
  have "distinct (map src ?s)"
    using assms(1) by simp
  then have "sorted_wrt (\<lambda>a b. src a \<noteq> src b) ?s"
    by (auto simp: distinct_conv_nth sorted_wrt_iff_nth_less)
  moreover have "sorted_wrt (\<lambda>a b. \<not> evidence_item_less b a) ?s"
    by (rule evidence_order.sorted_sort_by)
  ultimately show k: "key_sorted src ?s"
    unfolding key_sorted_def
    by (auto simp: sorted_wrt_iff_nth_less sorted_wrt_map dest: evidence_item_less_src) (metis evidence_item_less_src linorder_less_linear)
  have "list_all EvidenceItem_identified ?s" "list_all (\<lambda>i. EvidenceItem_validate i = EC_Ok) ?s"
    using assms(2) identified_ok by (auto simp: list_all_iff)
  then show "EvidenceVector_normalize v = Inr (v\<lparr>ev_items := ?s\<rparr>)"
    using supersede_all [of "[]" ?s] k by (simp add: EvidenceVector_normalize_def)
qed

lemma others_append:
  assumes "frontier s" and "EvidenceItem_identified i"
  shows "distinct (map src (others i s @ [i]))" and "list_all EvidenceItem_identified (others i s @ [i])"
proof -
  have "distinct (map src (ev_items (es_live s)))"
    using assms(1) by (intro key_sorted_distinct) (simp add: frontier_def)
  then have "distinct (map src (others i s))"
    unfolding others_def by (rule distinct_map_filter)
  then show "distinct (map src (others i s @ [i]))"
    by (auto simp: others_def src_eq same_source_def)
  show "list_all EvidenceItem_identified (others i s @ [i])"
    using assms by (auto simp: frontier_def others_def list_all_iff)
qed

definition incarnation_after :: "EvidenceItem \<Rightarrow> EvidenceStore \<Rightarrow> u64 \<rightharpoonup> u64" where
  "incarnation_after i s = (es_publisher_incarnation s)(ei_publisher i \<mapsto> ei_publisher_boot i)"

lemma publish_result:
  assumes "frontier s"
  shows "EvidenceStore_publish i s =
    (let superseded = (newer_incarnation i s \<or> list_ex (\<lambda>e. same_source e i) (ev_items (es_live s)))
     in if EvidenceItem_validate i \<noteq> EC_Ok then (EvidenceItem_validate i, False, s)
        else if \<exists>b. es_publisher_incarnation s (ei_publisher i) = Some b \<and> ei_publisher_boot i < b then (EC_Stale, False, s)
        else if \<not> EvidenceItem_identified i then (EC_InvalidArgument, superseded, s)
        else if ev_limit (es_live s) \<le> length (others i s) then (EC_CapacityExceeded, superseded, s)
        else (EC_Ok, superseded,
              \<lparr>es_live = (es_live s)\<lparr>ev_items := sort_by evidence_item_less (others i s @ [i])\<rparr>,
               es_publisher_incarnation = incarnation_after i s\<rparr>))"
proof -
  have loop: "rebuild_live i s (ev_items (es_live s)) flag (new_evidence_vector (ev_limit (es_live s))) =
      (Inr ((es_live s)\<lparr>ev_items := others i s\<rparr>), flag \<or> list_ex (\<lambda>e. same_source e i) (ev_items (es_live s)))" for flag
    using assms rebuild_live_result [of "ev_items (es_live s)" "new_evidence_vector (ev_limit (es_live s))"]
    by (simp add: frontier_def new_evidence_vector_def others_def)
  have norm: "EvidenceVector_normalize ((es_live s)\<lparr>ev_items := others i s @ [i]\<rparr>) =
      Inr ((es_live s)\<lparr>ev_items := sort_by evidence_item_less (others i s @ [i])\<rparr>)" if "EvidenceItem_identified i"
    using normalize_distinct(1) [of "(es_live s)\<lparr>ev_items := others i s @ [i]\<rparr>"] others_append [OF assms that]
    by simp
  have same: "es_publisher_incarnation s = incarnation_after i s"
    if "es_publisher_incarnation s (ei_publisher i) = Some b" "\<not> ei_publisher_boot i < b" "\<not> newer_incarnation i s" for b
    using that by (auto simp: newer_incarnation_def incarnation_after_def fun_eq_iff)
  show ?thesis
    by (auto simp: EvidenceStore_publish_def Let_def loop EvidenceVector_push_def norm incarnation_after_def
        split: option.splits dest: same)
qed


section \<open>Properties\<close>

definition admissible :: "EvidenceItem \<Rightarrow> EvidenceStore \<Rightarrow> bool" where
  "admissible i s \<longleftrightarrow>
     EvidenceItem_identified i \<and> length (others i s) < ev_limit (es_live s) \<and>
     (\<forall>b. es_publisher_incarnation s (ei_publisher i) = Some b \<longrightarrow> b \<le> ei_publisher_boot i)"

lemma publish_frontier:
  assumes "frontier s" and "admissible i s"
  shows "frontier \<lparr>es_live = (es_live s)\<lparr>ev_items := sort_by evidence_item_less (others i s @ [i])\<rparr>,
           es_publisher_incarnation = incarnation_after i s\<rparr>"
proof -
  let ?v = "(es_live s)\<lparr>ev_items := others i s @ [i]\<rparr>"
  have "EvidenceItem_identified i"
    using assms(2) by (simp add: admissible_def)
  note app = others_append [OF assms(1) this]
  then have "key_sorted src (sort_by evidence_item_less (others i s @ [i]))"
    using normalize_distinct(2) [of ?v] by simp
  moreover have "\<exists>b. incarnation_after i s (ei_publisher e) = Some b \<and> ei_publisher_boot e \<le> b"
    if "e = i \<or> e \<in> set (others i s)" for e
    using that assms unfolding frontier_def others_def admissible_def incarnation_after_def
    by (cases "ei_publisher e = ei_publisher i") (auto intro: order_trans)
  ultimately show ?thesis
    using app assms(2) by (auto simp: frontier_def admissible_def list_all_iff)
qed

text \<open>
  C37. Publishing keeps the evidence frontier: there is never more than one observation per publisher, scope
  and kind, and none above the incarnation recorded for its publisher. An observation is
  accepted exactly when it is valid and identified, does not come from a superseded incarnation of its
  publisher, and there is room; it then replaces the one from the same source and nothing else, and the
  publisher's incarnation moves up to it. Everything else is refused and changes nothing. Generations play no
  part: an observation with a lower generation replaces one with a higher, and a newer incarnation leaves the observations of
  its publisher for other scopes and kinds live. \<open>runtime.hpp\<close> promises otherwise: that the higher generation
  wins within an incarnation, and that a newer incarnation supersedes everything its publisher contributed.
\<close>

theorem publish_keeps_frontier:
  assumes "frontier s" and "EvidenceStore_publish i s = (st, superseded, s')"
  shows "frontier s' \<and> (st = EC_Ok \<longleftrightarrow> admissible i s) \<and>
    (if admissible i s
     then set (ev_items (es_live s')) = insert i {e \<in> set (ev_items (es_live s)). \<not> same_source e i} \<and>
          es_publisher_incarnation s' = (es_publisher_incarnation s)(ei_publisher i \<mapsto> ei_publisher_boot i)
     else s' = s)"
proof -
  have "EvidenceItem_validate i = EC_Ok" if "EvidenceItem_identified i"
    using that by (rule identified_ok)
  then have ok: "(st, s') =
      (if admissible i s then (EC_Ok, \<lparr>es_live = (es_live s)\<lparr>ev_items := sort_by evidence_item_less (others i s @ [i])\<rparr>,
           es_publisher_incarnation = incarnation_after i s\<rparr>) else (st, s))" "st = EC_Ok \<longleftrightarrow> admissible i s"
    using assms(2) unfolding publish_result [OF assms(1)]
    by (auto simp: Let_def admissible_def not_less not_le split: if_splits)
  show ?thesis
  proof (cases "admissible i s")
    case True
    then show ?thesis
      using ok publish_frontier [OF assms(1) True] by (auto simp: others_def incarnation_after_def)
  next
    case False
    then show ?thesis
      using ok assms(1) by simp
  qed
qed

definition sample_frontier :: EvidenceStore where
  "sample_frontier = \<lparr>es_live = \<lparr>ev_items = [(sample_item 1 EK_FabricTopology 1)\<lparr>ei_generation := 9\<rparr>], ev_limit = 4\<rparr>,
     es_publisher_incarnation = [ei_publisher (sample_item 1 EK_FabricTopology 1) \<mapsto> 1]\<rparr>"

text \<open>An observation of generation 1 replaces one of generation 9.\<close>

theorem publish_keeps_frontier_witness:
  "frontier (snd (snd (EvidenceStore_publish (sample_item 2 EK_FabricTopology 3) sample_frontier))) \<and>
   set (ev_items (es_live (snd (snd (EvidenceStore_publish (sample_item 2 EK_FabricTopology 3) sample_frontier))))) =
     {sample_item 2 EK_FabricTopology 3}"
proof -
  let ?i = "sample_item 2 EK_FabricTopology 3"
  have "EvidenceItem_identified ((sample_item 1 EK_FabricTopology 1)\<lparr>ei_generation := 9\<rparr>)"
    by code_simp
  then have f: "frontier sample_frontier"
    by (simp add: frontier_def sample_frontier_def key_sorted_def) (simp add: sample_item_def)
  obtain st superseded s' where r: "EvidenceStore_publish ?i sample_frontier = (st, superseded, s')"
    by (cases "EvidenceStore_publish ?i sample_frontier")
  have "fst (EvidenceStore_publish ?i sample_frontier) = EC_Ok"
    by code_simp
  then have "admissible ?i sample_frontier"
    using publish_keeps_frontier [OF f r] by (simp add: r)
  moreover have "{e \<in> set (ev_items (es_live sample_frontier)). \<not> same_source e ?i} = {}"
    by (simp add: sample_frontier_def same_source_def sample_item_def)
  ultimately show ?thesis
    using publish_keeps_frontier [OF f r] by (auto simp: r)
qed

text \<open>
  The header promises that within one incarnation the higher generation wins and that a newer incarnation
  supersedes everything its publisher contributed. The code replaces the observation of the same
  source whatever its generation, and leaves the other sources of the older incarnation in place.
\<close>

lemma older_generation_replaces_newer:
  "let i = sample_item 1 EK_PathDiversity 3;
       s = snd (snd (EvidenceStore_publish (i\<lparr>ei_generation := 9\<rparr>) (new_evidence_store 4)))
   in ev_items (es_live (snd (snd (EvidenceStore_publish (i\<lparr>ei_id := 2, ei_generation := 1\<rparr>) s)))) =
        [i\<lparr>ei_id := 2, ei_generation := 1\<rparr>]"
  by code_simp

lemma older_incarnation_stays_live:
  "let i = sample_item 1 EK_PathDiversity 3; j = sample_item 2 EK_FabricTopology 1;
       s = snd (snd (EvidenceStore_publish i (new_evidence_store 4)))
   in i \<in> set (ev_items (es_live (snd (snd (EvidenceStore_publish (j\<lparr>ei_publisher_boot := 2\<rparr>) s)))))"
  by code_simp

end
