(* ===== verification/Coordinator.thy ===== *)
theory Coordinator
  imports State_Store Evidence_Store
begin

text \<open>
  The coordinator (\<open>src/runtime/coordinator.cpp\<close>): the members of \<open>Coordinator::Impl\<close> as a record and the handlers that
  run under its lock as state transformers. A handler that returns a \<open>Status\<close> or a \<open>Result\<close> is an action: it maps a
  coordinator to an error or a value and the coordinator it leaves behind; when the store's crash boundary is hit the
  process ends and there is no value. The hash maps that are only looked up and assigned are partial functions.
\<close>

unbundle bit_operations_syntax

section \<open>State\<close>

datatype PrincipalRole = PR_Observer | PR_Operator | PR_Administrator

primrec PrincipalRole_code :: "PrincipalRole \<Rightarrow> u16" where
  "PrincipalRole_code PR_Observer = 1"
| "PrincipalRole_code PR_Operator = 2"
| "PrincipalRole_code PR_Administrator = 3"

record RevalidateReport =
  rv_evaluated :: u64
  rv_fenced :: u64
  rv_expired :: u64

record CoordinatorConfig =
  cc_store :: StoreConfig
  cc_max_evidence_items :: nat
  cc_max_live_grants :: nat
  cc_max_contracts :: nat
  cc_max_decisions :: nat
  cc_snapshot_interval_records :: u64
  cc_principals :: "(u8 list \<times> PrincipalRole) list"
  cc_allow_anonymous_sessions :: bool
  cc_origin :: OriginClass

record Coordinator =
  co_config :: CoordinatorConfig
  co_store :: store
  co_evidence :: EvidenceStore
  co_grants :: GrantTable
  co_decision_ids :: u64
  co_grant_ids :: u64
  co_fence_ids :: u64
  co_evidence_ids :: u64
  co_plan_ids :: u64
  co_attempt_ids :: u64
  co_contract_index :: "u64 \<rightharpoonup> nat"
  co_scope_index :: "u64 \<rightharpoonup> u64 list"
  co_session_roles :: "u64 \<rightharpoonup> PrincipalRole"
  co_scope_capability_digest :: "u64 \<rightharpoonup> u64"
  co_policy_installed :: bool
  co_stopped :: bool
  co_clock :: tick

abbreviation co_state :: "Coordinator \<Rightarrow> DurableState" where
  "co_state c \<equiv> im_state (fst (co_store c))"

definition co_state_update :: "(DurableState \<Rightarrow> DurableState) \<Rightarrow> Coordinator \<Rightarrow> Coordinator" where
  "co_state_update f c =
     c\<lparr>co_store := ((fst (co_store c))\<lparr>im_state := f (co_state c)\<rparr>, snd (co_store c))\<rparr>"

section \<open>Actions\<close>

type_synonym 'a action = "Coordinator \<Rightarrow> 'a result outcome \<times> Coordinator"

definition co_return :: "'a \<Rightarrow> 'a action" where
  "co_return x c = (Done (Inr x), c)"

definition co_fail :: "error_code \<Rightarrow> 'a action" where
  "co_fail e c = (Done (Inl e), c)"

definition co_attempt :: "'a action \<Rightarrow> ('a result \<Rightarrow> 'b action) \<Rightarrow> 'b action" where
  "co_attempt m f c = (case m c of (Done r, c') \<Rightarrow> f r c' | (Crashed, c') \<Rightarrow> (Crashed, c'))"

definition co_bind :: "'a action \<Rightarrow> ('a \<Rightarrow> 'b action) \<Rightarrow> 'b action" where
  "co_bind m f = co_attempt m (\<lambda>r. case r of Inl e \<Rightarrow> co_fail e | Inr x \<Rightarrow> f x)"

definition co_then :: "unit action \<Rightarrow> 'b action \<Rightarrow> 'b action" where
  "co_then m k = co_bind m (\<lambda>_. k)"

text \<open>\<open>(void)status\<close>: the outcome is dropped, a crash is not.\<close>

definition co_ignore :: "'a action \<Rightarrow> 'b action \<Rightarrow> 'b action" where
  "co_ignore m k = co_attempt m (\<lambda>_. k)"

definition co_read :: "(Coordinator \<Rightarrow> 'a action) \<Rightarrow> 'a action" where
  "co_read f c = f c c"

definition co_modify :: "(Coordinator \<Rightarrow> Coordinator) \<Rightarrow> 'a action \<Rightarrow> 'a action" where
  "co_modify f k c = k (f c)"

definition co_lift :: "'a result \<Rightarrow> 'a action" where
  "co_lift r = (case r of Inl e \<Rightarrow> co_fail e | Inr x \<Rightarrow> co_return x)"

definition of_status :: "status \<Rightarrow> unit result" where
  "of_status e = (if e = EC_Ok then Inr () else Inl e)"

definition co_require :: "bool \<Rightarrow> error_code \<Rightarrow> 'a action \<Rightarrow> 'a action" where
  "co_require b e k = (if b then k else co_fail e)"

section \<open>Helpers\<close>

definition constant_time_equals :: "u8 list \<Rightarrow> u8 list \<Rightarrow> bool" where
  "constant_time_equals a b \<longleftrightarrow> length a = length b \<and> fold (\<lambda>(x, y) d. d OR (x XOR y)) (zip a b) 0 = 0"

definition append_record :: "RecordType \<Rightarrow> u8 list \<Rightarrow> unit action" where
  "append_record type payload c =
     (case store_append type payload (co_store c) of
        (Done e, st) \<Rightarrow> (Done (of_status e), c\<lparr>co_store := st\<rparr>)
      | (Crashed, st) \<Rightarrow> (Crashed, c\<lparr>co_store := st\<rparr>))"

definition encode_body :: "('a \<Rightarrow> byte_writer \<Rightarrow> byte_writer) \<Rightarrow> 'a \<Rightarrow> u8 list" where
  "encode_body enc v = bw_data (enc v (new_writer kMaxDocumentBytes kMaxBlobBytes))"

definition encode_counter_body :: "u64 \<Rightarrow> u8 list" where
  "encode_counter_body n = bw_data (ByteWriter_u64 n (new_writer 16 kMaxBlobBytes))"

definition current_authority :: "DurableState \<Rightarrow> AuthorityVector" where
  "current_authority s =
     \<lparr>av_coordinator_term = ds_term s, av_boot = ds_boot s, av_fabric = ds_fabric_generation s,
      av_capacity = ds_capacity_generation s, av_policy = po_generation (ds_policy s),
      av_evidence = ds_evidence_generation s\<rparr>"

definition find_contract :: "Coordinator \<Rightarrow> u64 \<Rightarrow> ServiceContract option" where
  "find_contract c k =
     (case co_contract_index c k of
        None \<Rightarrow> None
      | Some i \<Rightarrow> if i \<ge> length (ds_contracts (co_state c)) then None else Some (ds_contracts (co_state c) ! i))"

text \<open>\<open>emplace\<close> keeps an entry that is already there; \<open>scope_index[scope].push_back\<close> starts from an empty list.\<close>

definition index_contract :: "u64 \<Rightarrow> nat \<Rightarrow> Coordinator \<Rightarrow> Coordinator" where
  "index_contract k i c =
     (case co_contract_index c k of None \<Rightarrow> c\<lparr>co_contract_index := (co_contract_index c)(k \<mapsto> i)\<rparr> | Some _ \<Rightarrow> c)"

definition push_scope :: "u64 \<Rightarrow> u64 \<Rightarrow> Coordinator \<Rightarrow> Coordinator" where
  "push_scope scope k c =
     c\<lparr>co_scope_index := (co_scope_index c)(scope \<mapsto>
         (case co_scope_index c scope of None \<Rightarrow> [] | Some ks \<Rightarrow> ks) @ [k])\<rparr>"

definition sort_scopes :: "Coordinator \<Rightarrow> Coordinator" where
  "sort_scopes c = c\<lparr>co_scope_index := (\<lambda>scope. map_option sort (co_scope_index c scope))\<rparr>"

definition sort_scope :: "u64 \<Rightarrow> Coordinator \<Rightarrow> Coordinator" where
  "sort_scope scope c =
     c\<lparr>co_scope_index := (co_scope_index c)(scope \<mapsto>
         sort (case co_scope_index c scope of None \<Rightarrow> [] | Some ks \<Rightarrow> ks))\<rparr>"

fun index_contracts :: "nat \<Rightarrow> ServiceContract list \<Rightarrow> Coordinator \<Rightarrow> Coordinator" where
  "index_contracts i [] c = c"
| "index_contracts i (k # ks) c =
     index_contracts (Suc i) ks
       (let c = index_contract (sc_id k) i c
        in if sc_active k then push_scope (sc_scope k) (sc_id k) c else c)"

definition rebuild_contract_index :: "Coordinator \<Rightarrow> Coordinator" where
  "rebuild_contract_index c =
     sort_scopes (index_contracts 0 (ds_contracts (co_state c))
       (c\<lparr>co_contract_index := Map.empty, co_scope_index := Map.empty\<rparr>))"

definition current_binding_for_grant :: "Grant \<Rightarrow> AuthorityVector \<Rightarrow> AuthorityBinding" where
  "current_binding_for_grant g current = (gr_binding g)\<lparr>ab_vector := current\<rparr>"

definition freshness_for :: "DurableState \<Rightarrow> tick \<Rightarrow> bool \<Rightarrow> FreshnessWindow" where
  "freshness_for s now enforced =
     \<lparr>fw_now = now, fw_budget_ticks = po_evidence_freshness_ticks (ds_policy s), fw_enforced = enforced\<rparr>"

definition count_event :: "(Accounting \<Rightarrow> status \<times> Accounting) \<Rightarrow> Coordinator \<Rightarrow> Coordinator" where
  "count_event f = co_state_update (\<lambda>s. snd (acct f s))"

definition allocate_id ::
    "(Coordinator \<Rightarrow> u64) \<Rightarrow> ((u64 \<Rightarrow> u64) \<Rightarrow> Coordinator \<Rightarrow> Coordinator) \<Rightarrow> (u64 option \<Rightarrow> 'a action) \<Rightarrow> 'a action" where
  "allocate_id ids ids_update k c =
     (case IdAllocator_allocate (ids c) of (i, nxt) \<Rightarrow> k i (ids_update (\<lambda>_. nxt) c))"

definition note_grants :: "(GrantTable \<Rightarrow> status \<times> GrantTable) \<Rightarrow> unit action" where
  "note_grants f c = (case f (co_grants c) of (e, t) \<Rightarrow> (Done (of_status e), c\<lparr>co_grants := t\<rparr>))"

abbreviation retained_grant :: "Coordinator \<Rightarrow> u64 \<Rightarrow> Grant option" where
  "retained_grant c k \<equiv> GrantTable_find (co_grants c) (ds_grants (co_state c)) k"

section \<open>Fencing\<close>

definition fence_type :: "FenceReason \<Rightarrow> RecordType" where
  "fence_type reason =
     (if reason = FR_Revocation \<or> reason = FR_Restored then RT_GrantRevoked
      else if reason = FR_Expiry then RT_GrantExpired
      else RT_GrantFenced)"

definition fence_state :: "RecordType \<Rightarrow> GrantState" where
  "fence_state type =
     (if type = RT_GrantExpired then GS_Expired else if type = RT_GrantRevoked then GS_Revoked else GS_Fenced)"

definition fence_grant_locked :: "u64 \<Rightarrow> FenceReason \<Rightarrow> AuthorityDelta \<Rightarrow> tick \<Rightarrow> FenceRecord action" where
  "fence_grant_locked k reason delta now = co_read (\<lambda>c.
     case retained_grant c k of
       None \<Rightarrow> co_fail EC_NotFound
     | Some g \<Rightarrow>
        co_require (Grant_live g) EC_InvalidState
       (allocate_id co_fence_ids co_fence_ids_update (\<lambda>fence_id.
        case fence_id of
          None \<Rightarrow> co_fail EC_Exhausted
        | Some f \<Rightarrow>
           let record = \<lparr>fr_id = f, fr_grant = k, fr_reason = reason, fr_delta = delta, fr_prior = gr_binding g,
                         fr_current = (gr_binding g)\<lparr>ab_vector := current_authority (co_state c)\<rparr>,
                         fr_fenced_tick = now\<rparr>;
               type = fence_type reason
           in co_then (append_record type (encode_body encode_FenceRecord record))
             (co_then (note_grants (note_transition k (gr_state g) (fence_state type)))
               (co_return record)))))"

section \<open>Evaluation\<close>

definition provenance_of :: "OriginClass \<Rightarrow> ProvenanceClass" where
  "provenance_of origin =
     (case origin of OC_Real \<Rightarrow> PC_Real | OC_Unsupported \<Rightarrow> PC_Unsupported
      | OC_Unspecified \<Rightarrow> PC_Synthetic | OC_Synthetic \<Rightarrow> PC_Synthetic)"

definition evaluation_context :: "Coordinator \<Rightarrow> ServiceContract \<Rightarrow> u64 \<Rightarrow> u64 \<Rightarrow> EvaluationContext" where
  "evaluation_context c k decision_id plan_id =
     \<lparr>ec_binding = \<lparr>ab_vector = current_authority (co_state c), ab_contract = sc_id k,
                     ab_contract_generation = sc_generation k, ab_subject = sc_subject k,
                     ab_subject_generation = sc_subject_generation k, ab_scope = sc_scope k\<rparr>,
      ec_now = co_clock c, ec_decision_id = decision_id, ec_plan_id = plan_id,
      ec_provenance = provenance_of (cc_origin (co_config c))\<rparr>"

text \<open>Every contract of the scope contends; a scope that is not indexed has the contract alone.\<close>

definition contending :: "Coordinator \<Rightarrow> ServiceContract \<Rightarrow> ServiceContract list" where
  "contending c k =
     (let members = (case co_scope_index c (sc_scope k) of
                       None \<Rightarrow> []
                     | Some ids \<Rightarrow> List.map_filter (find_contract c) ids)
      in if members = [] then [k] else members)"

definition allocation_request :: "Coordinator \<Rightarrow> ServiceContract \<Rightarrow> CapabilitySnapshot \<Rightarrow> EvaluationContext \<Rightarrow> AllocationRequest" where
  "allocation_request c k capability context =
     \<lparr>ar_scope = sc_scope k, ar_contracts = contending c k, ar_capability = Some capability,
      ar_evidence = Some (es_live (co_evidence c)), ar_policy = Some (ds_policy (co_state c)), ar_context = context\<rparr>"

definition evaluation_request ::
    "Coordinator \<Rightarrow> ServiceContract \<Rightarrow> CapabilitySnapshot \<Rightarrow> EvaluationContext \<Rightarrow> AllocationEntry \<Rightarrow> PlanStatus \<Rightarrow>
     ContractEvaluationRequest" where
  "evaluation_request c k capability context e plan_status =
     \<lparr>er_contract = Some k, er_capability = Some capability, er_evidence = Some (es_live (co_evidence c)),
      er_policy = Some (ds_policy (co_state c)), er_context = context, er_allocation = Some e,
      er_plan_status = plan_status\<rparr>"

definition scope_capability :: "u64 \<Rightarrow> bool \<Rightarrow> tick \<Rightarrow> Coordinator \<Rightarrow> CapabilitySnapshot result" where
  "scope_capability scope enforced now c =
     EvidenceStore_capability (co_evidence c) scope (ds_capacity_generation (co_state c))
       (freshness_for (co_state c) now enforced)"

text \<open>The result is the decision together with the plan (\<open>out_plan\<close>).\<close>

definition evaluate_locked :: "u64 \<Rightarrow> (Decision \<times> AllocationPlan) action" where
  "evaluate_locked contract = co_read (\<lambda>c.
     case find_contract c contract of
       None \<Rightarrow> co_fail EC_NotFound
     | Some k \<Rightarrow>
        co_require (co_policy_installed c) EC_InvalidState
       (co_bind (co_lift (scope_capability (sc_scope k) True (co_clock c) c)) (\<lambda>capability.
        allocate_id co_decision_ids co_decision_ids_update (\<lambda>decision_id.
        case decision_id of
          None \<Rightarrow> co_fail EC_Exhausted
        | Some d \<Rightarrow>
        allocate_id co_plan_ids co_plan_ids_update (\<lambda>plan_id.
        case plan_id of
          None \<Rightarrow> co_fail EC_Exhausted
        | Some p \<Rightarrow>
           let context = evaluation_context c k d p
           in co_bind (co_lift (allocate_scope (allocation_request c k capability context))) (\<lambda>plan.
              case AllocationPlan_find plan (sc_id k) of
                None \<Rightarrow> co_fail EC_InvalidState
              | Some e \<Rightarrow>
                 let decision = evaluate_contract (evaluation_request c k capability context e (ap_status plan))
                 in co_modify (co_plan_ids_update (\<lambda>n. IdAllocator_observe n p))
                   (co_require (Decision_validate decision = EC_Ok) EC_InvalidState
                   (co_then (append_record RT_DecisionRecorded (encode_body encode_Decision decision))
                     (co_return (decision, plan))))))))))"

section \<open>The sweep\<close>

definition authority_mask :: AuthorityDelta where
  "authority_mask = AD_Boot OR AD_CoordinatorTerm OR AD_Policy OR AD_Contract OR AD_ContractGeneration OR AD_Subject OR
     AD_SubjectGeneration OR AD_Scope"

text \<open>A fence of the sweep: when it succeeds it is counted, otherwise the sweep goes on.\<close>

definition sweep_fence ::
    "u64 \<Rightarrow> FenceReason \<Rightarrow> AuthorityDelta \<Rightarrow> tick \<Rightarrow> (RevalidateReport \<Rightarrow> RevalidateReport) \<Rightarrow> RevalidateReport \<Rightarrow>
     RevalidateReport action" where
  "sweep_fence k reason delta now tally report =
     co_attempt (fence_grant_locked k reason delta now) (\<lambda>r. co_return (if isl r then report else tally report))"

definition tally_fenced :: "RevalidateReport \<Rightarrow> RevalidateReport" where
  "tally_fenced report = report\<lparr>rv_fenced := rv_fenced report + 1\<rparr>"

definition tally_expired :: "RevalidateReport \<Rightarrow> RevalidateReport" where
  "tally_expired report = report\<lparr>rv_expired := rv_expired report + 1\<rparr>"

definition rebind_bytes :: "u64 \<Rightarrow> AuthorityBinding \<Rightarrow> u8 list" where
  "rebind_bytes k binding =
     bw_data (encode_AuthorityBinding binding (ByteWriter_u64 k (new_writer kMaxDocumentBytes kMaxBlobBytes)))"

definition still_serviceable :: "Grant \<Rightarrow> (Decision \<times> AllocationPlan) result \<Rightarrow> bool" where
  "still_serviceable g r =
     (case r of
        Inl _ \<Rightarrow> False
      | Inr (d, _) \<Rightarrow> is_authorising (de_outcome d) \<and> weakens_or_equals (de_approved d) (gr_degraded g))"

definition sweep_one :: "tick \<Rightarrow> AuthorityVector \<Rightarrow> u64 \<Rightarrow> RevalidateReport \<Rightarrow> RevalidateReport action" where
  "sweep_one now current k report = co_read (\<lambda>c.
     case retained_grant c k of
       None \<Rightarrow> co_return report
     | Some g \<Rightarrow>
        if \<not> Grant_live g then co_return report
        else let report = report\<lparr>rv_evaluated := rv_evaluated report + 1\<rparr>
        in if expired_at g now then sweep_fence k FR_Expiry AD_None now tally_expired report
        else let delta = classify (gr_binding g) (current_binding_for_grant g current)
        in if \<not> invalidates_authority delta then co_return report
        else let authority_delta = delta AND authority_mask
        in if invalidates_authority authority_delta
           then sweep_fence k (fence_reason_for authority_delta) authority_delta now tally_fenced report
        else co_attempt (evaluate_locked (ab_contract (gr_binding g))) (\<lambda>decision.
             if \<not> still_serviceable g decision
             then sweep_fence k (fence_reason_for delta) delta now tally_fenced report
             else co_attempt (append_record RT_GrantRebound (rebind_bytes k (current_binding_for_grant g current))) (\<lambda>rebound.
               if isl rebound then sweep_fence k FR_AuthorityUnprovable delta now tally_fenced report
               else co_return report)))"

fun sweep_loop :: "tick \<Rightarrow> AuthorityVector \<Rightarrow> u64 list \<Rightarrow> RevalidateReport \<Rightarrow> RevalidateReport action" where
  "sweep_loop now current [] report = co_return report"
| "sweep_loop now current (k # ks) report = co_bind (sweep_one now current k report) (sweep_loop now current ks)"

definition sweep_locked :: "tick \<Rightarrow> RevalidateReport action" where
  "sweep_locked now = co_read (\<lambda>c.
     sweep_loop now (current_authority (co_state c)) (gt_live_ids (co_grants c))
       \<lparr>rv_evaluated = 0, rv_fenced = 0, rv_expired = 0\<rparr>)"

section \<open>Acquiring authority\<close>

definition grant_from_decision ::
    "u64 \<Rightarrow> u64 \<Rightarrow> ServiceContract \<Rightarrow> Decision \<Rightarrow> Policy \<Rightarrow> tick \<Rightarrow> Grant" where
  "grant_from_decision grant_id attempt_id k d p now =
     \<lparr>gr_id = grant_id, gr_decision = de_id d, gr_binding = de_binding d, gr_service_class = sc_service_class k,
      gr_protected_obligation = protected_obligation k, gr_original = de_original d, gr_degraded = de_approved d,
      gr_delta = de_delta d, gr_reason = de_primary_reason d, gr_evidence = de_evidence d,
      gr_evidence_state = de_evidence_state d, gr_preconditions = make_preconditions k p, gr_sequence = 1,
      gr_last_attempt = attempt_id, gr_issued_tick = now, gr_expires_tick = de_expires_tick d,
      gr_last_transition_tick = now, gr_state = GS_Issued, gr_provenance = de_provenance d\<rparr>"

definition raise_grant_high_water :: "u64 \<Rightarrow> DurableState \<Rightarrow> DurableState" where
  "raise_grant_high_water k s = (if k > ds_grant_id_high_water s then s\<lparr>ds_grant_id_high_water := k\<rparr> else s)"

definition acquire_locked :: "u64 \<Rightarrow> tick \<Rightarrow> Grant action" where
  "acquire_locked contract now = co_read (\<lambda>c.
     co_require (\<not> co_stopped c) EC_Shutdown
    (case find_contract c contract of
       None \<Rightarrow> co_fail EC_NotFound
     | Some k \<Rightarrow>
        co_bind (evaluate_locked contract) (\<lambda>(d, _).
        co_require (is_authorising (de_outcome d)) EC_Refused
       (co_read (\<lambda>c.
        co_require (live_count (co_grants c) < cc_max_live_grants (co_config c)) EC_Exhausted
       (allocate_id co_grant_ids co_grant_ids_update (\<lambda>grant_id.
        allocate_id co_attempt_ids co_attempt_ids_update (\<lambda>attempt_id.
        case (grant_id, attempt_id) of
          (Some g, Some a) \<Rightarrow>
           let grant = grant_from_decision g a k d (ds_policy (co_state c)) now
           in co_then (co_lift (of_status (Grant_validate grant)))
             (co_then (append_record RT_GrantIssued (encode_body encode_Grant grant))
             (co_then (note_grants (note_insert grant))
             (co_modify (co_state_update (raise_grant_high_water g))
             (co_modify (co_attempt_ids_update (\<lambda>n. IdAllocator_observe n a))
               (co_return grant)))))
        | _ \<Rightarrow> co_fail EC_Exhausted))))))))"

end
