(* ===== verification/Coordinator_Ops.thy ===== *)
theory Coordinator_Ops
  imports Coordinator
begin

text \<open>
  The rest of the coordinator's handlers (\<open>src/runtime/coordinator.cpp\<close>): policy, contracts, evidence, the progress of a
  grant, restoration, start-up and shutdown.
\<close>

section \<open>Policy and contracts\<close>

definition install_policy_locked :: "Policy \<Rightarrow> unit action" where
  "install_policy_locked policy = co_read (\<lambda>c.
     co_then (co_lift (of_status (Policy_validate policy)))
    (let installed_generation = po_generation (ds_policy (co_state c))
     in co_require (\<not> (valid_id installed_generation \<and> po_generation policy \<le> installed_generation)) EC_SequenceRegression
       (co_then (append_record RT_PolicyInstalled (encode_body encode_Policy policy))
       (co_modify (co_policy_installed_update (\<lambda>_. True))
       (co_read (\<lambda>c. co_ignore (sweep_locked (co_clock c))
         (co_return ())))))))"

definition stored_contract :: "ServiceContract \<Rightarrow> ServiceContract option \<Rightarrow> ServiceContract" where
  "stored_contract k existing =
     (if valid_id (sc_generation k) then k
      else k\<lparr>sc_generation := (case existing of Some e \<Rightarrow> sc_generation e + 1 | None \<Rightarrow> 1)\<rparr>)"

definition generation_regressed :: "ServiceContract \<Rightarrow> ServiceContract option \<Rightarrow> bool" where
  "generation_regressed stored existing =
     (case existing of None \<Rightarrow> False | Some e \<Rightarrow> sc_generation stored < sc_generation e)"

definition same_definition :: "ServiceContract \<Rightarrow> ServiceContract option \<Rightarrow> bool" where
  "same_definition stored existing =
     (case existing of
        None \<Rightarrow> False
      | Some e \<Rightarrow> sc_generation stored = sc_generation e \<and> ServiceContract_digest e = ServiceContract_digest stored)"

definition register_contract_locked :: "ServiceContract \<Rightarrow> unit action" where
  "register_contract_locked contract = co_read (\<lambda>c.
     let existing = find_contract c (sc_id contract);
         stored = stored_contract contract existing
     in co_then (co_lift (of_status (ServiceContract_validate stored)))
       (co_require (\<not> generation_regressed stored existing) EC_SequenceRegression
       (if same_definition stored existing
        then co_return ()
        else co_require (\<not> (existing = None \<and> length (ds_contracts (co_state c)) \<ge> cc_max_contracts (co_config c))) EC_Exhausted
            (co_then (append_record RT_ContractRegistered (encode_body encode_ServiceContract stored))
              (if existing = None
               then co_modify (\<lambda>c. sort_scope (sc_scope stored) (push_scope (sc_scope stored) (sc_id stored)
                      (index_contract (sc_id stored) (length (ds_contracts (co_state c)) - 1) c))) (co_return ())
               else co_return ())))))"

fun prepare_contracts ::
    "Coordinator \<Rightarrow> ServiceContract list \<Rightarrow> ServiceContract list \<Rightarrow> ServiceContract list result" where
  "prepare_contracts c [] prepared = Inr prepared"
| "prepare_contracts c (contract # rest) prepared =
     (let existing = find_contract c (sc_id contract);
          stored = stored_contract contract existing
      in if ServiceContract_validate stored \<noteq> EC_Ok then Inl (ServiceContract_validate stored)
         else if generation_regressed stored existing then Inl EC_SequenceRegression
         else if existing = None \<and> length (ds_contracts (co_state c)) + length prepared \<ge> cc_max_contracts (co_config c)
              then Inl EC_Exhausted
         else prepare_contracts c rest (prepared @ [stored]))"

definition append_record_batched :: "RecordType \<Rightarrow> u8 list \<Rightarrow> unit action" where
  "append_record_batched type payload c =
     (case append_batched type payload (co_store c) of (e, st) \<Rightarrow> (Done (of_status e), c\<lparr>co_store := st\<rparr>))"

fun register_prepared :: "ServiceContract list \<Rightarrow> unit action" where
  "register_prepared [] = co_return ()"
| "register_prepared (stored # rest) = co_read (\<lambda>c.
     let is_new = (find_contract c (sc_id stored) = None)
     in co_then (append_record_batched RT_ContractRegistered (encode_body encode_ServiceContract stored))
         (if is_new
          then co_modify (\<lambda>c. push_scope (sc_scope stored) (sc_id stored)
                 (index_contract (sc_id stored) (length (ds_contracts (co_state c)) - 1) c)) (register_prepared rest)
          else register_prepared rest))"

definition register_contracts :: "ServiceContract list \<Rightarrow> unit action" where
  "register_contracts contracts = co_read (\<lambda>c.
     co_bind (co_lift (prepare_contracts c contracts [])) (\<lambda>prepared.
     co_then (register_prepared prepared)
    (co_read (\<lambda>c. co_then (co_lift (of_status (store_flush (co_store c))))
    (co_modify sort_scopes (co_return ()))))))"

section \<open>Evidence\<close>

text \<open>A generation that was never set starts at 1; \<open>advance_generation\<close> appends the successor of the current one.\<close>

definition ensure_generation :: "(DurableState \<Rightarrow> u64) \<Rightarrow> RecordType \<Rightarrow> unit action" where
  "ensure_generation generation type = co_read (\<lambda>c.
     if valid_id (generation (co_state c)) then co_return () else append_record type (encode_counter_body 1))"

definition advance_generation :: "(DurableState \<Rightarrow> u64) \<Rightarrow> RecordType \<Rightarrow> unit action" where
  "advance_generation generation type = co_read (\<lambda>c.
     case StrongUInt_next (generation (co_state c)) of
       None \<Rightarrow> co_fail EC_Exhausted
     | Some n \<Rightarrow> append_record type (encode_counter_body n))"

definition stamped_item :: "tick \<Rightarrow> EvidenceItem \<Rightarrow> EvidenceItem" where
  "stamped_item clock i = (if ei_observed_tick i = 0 then i\<lparr>ei_observed_tick := clock\<rparr> else i)"

text \<open>The durable effects of an observation that changed what a scope can do.\<close>

definition commit_observation :: "EvidenceItem \<Rightarrow> bool \<Rightarrow> unit action" where
  "commit_observation stamped first_observation =
     co_then (append_record RT_EvidencePublished (encode_body encode_EvidenceItem stamped))
    (co_then (ensure_generation ds_fabric_generation RT_FabricGenerationAdvanced)
    (co_then (if first_observation then advance_generation ds_fabric_generation RT_FabricGenerationAdvanced else co_return ())
    (co_then (ensure_generation ds_capacity_generation RT_CapacityGenerationAdvanced)
    (co_then (advance_generation ds_capacity_generation RT_CapacityGenerationAdvanced)
    (co_then (ensure_generation ds_evidence_generation RT_EvidenceGenerationAdvanced)
    (co_then (advance_generation ds_evidence_generation RT_EvidenceGenerationAdvanced)
    (co_read (\<lambda>c. co_ignore (sweep_locked (co_clock c)) (co_return ())))))))))"

definition publish_stamped :: "EvidenceItem \<Rightarrow> unit action" where
  "publish_stamped stamped = co_read (\<lambda>c.
     case EvidenceStore_publish stamped (co_evidence c) of
       (e, superseded, es) \<Rightarrow>
        if e \<noteq> EC_Ok then co_modify (co_evidence_update (\<lambda>_. es)) (co_modify (count_event record_evidence_rejected) (co_fail e))
        else
          co_modify (co_evidence_update (\<lambda>_. es))
         (co_modify (count_event record_evidence_published)
         (co_modify (if superseded then count_event (record_evidence_superseded 1) else id)
         (co_read (\<lambda>c.
          co_bind (co_lift (scope_capability (ei_scope stamped) False (co_clock c) c)) (\<lambda>capability.
          let digest = CapabilitySnapshot_digest capability;
              previous = co_scope_capability_digest c (ei_scope stamped)
          in if previous = Some digest then co_return ()
             else co_modify (co_scope_capability_digest_update (\<lambda>m. m(ei_scope stamped \<mapsto> digest)))
                 (commit_observation stamped (previous = None))))))))"

definition publish_evidence_locked :: "EvidenceItem \<Rightarrow> unit action" where
  "publish_evidence_locked i = co_read (\<lambda>c.
     let stamped = stamped_item (co_clock c) i
     in co_require (\<not> ei_observed_tick stamped > co_clock c) EC_InvalidArgument
       (if valid_id (ei_id stamped) then publish_stamped stamped
        else allocate_id co_evidence_ids co_evidence_ids_update (\<lambda>k.
             case k of None \<Rightarrow> co_fail EC_Exhausted | Some n \<Rightarrow> publish_stamped (stamped\<lparr>ei_id := n\<rparr>))))"

section \<open>The progress of a grant\<close>

definition move_bytes :: "u64 \<Rightarrow> tick \<Rightarrow> u64 \<Rightarrow> u64 \<Rightarrow> u8 list" where
  "move_bytes k now attempt sequence =
     bw_data (ByteWriter_u64 sequence (ByteWriter_u64 attempt (ByteWriter_u64 now (ByteWriter_u64 k (new_writer 48 kMaxBlobBytes)))))"

text \<open>\<open>acknowledge_locked\<close> and \<open>report_applied_locked\<close> differ in the target state and the record type only.\<close>

definition advance_grant :: "GrantState \<Rightarrow> RecordType \<Rightarrow> u64 \<Rightarrow> u64 \<Rightarrow> tick \<Rightarrow> Grant action" where
  "advance_grant target type k attempt now = co_read (\<lambda>c.
     case retained_grant c k of
       None \<Rightarrow> co_fail EC_NotFound
     | Some g \<Rightarrow>
        co_require (Grant_live g) EC_InvalidState
       (if expired_at g now then co_ignore (fence_grant_locked k FR_Expiry AD_None now) (co_fail EC_Stale)
        else co_require (valid_id attempt \<and> attempt = gr_last_attempt g) EC_ReplayDetected
            (co_require (grant_transition_allowed (gr_state g) target) EC_InvalidState
            (allocate_id co_attempt_ids co_attempt_ids_update (\<lambda>next_attempt.
             case (next_attempt, StrongUInt_next (gr_sequence g)) of
               (Some a, Some n) \<Rightarrow>
                co_then (append_record type (move_bytes k now a n))
               (co_then (note_grants (note_transition k (gr_state g) target))
               (co_modify (co_attempt_ids_update (\<lambda>nxt. IdAllocator_observe nxt a))
               (co_read (\<lambda>c. case retained_grant c k of None \<Rightarrow> co_fail EC_NotFound | Some updated \<Rightarrow> co_return updated))))
             | _ \<Rightarrow> co_fail EC_Exhausted)))))"

definition acknowledge_locked :: "u64 \<Rightarrow> u64 \<Rightarrow> tick \<Rightarrow> Grant action" where
  "acknowledge_locked = advance_grant GS_Acknowledged RT_GrantAcknowledged"

definition report_applied_locked :: "u64 \<Rightarrow> u64 \<Rightarrow> tick \<Rightarrow> Grant action" where
  "report_applied_locked = advance_grant GS_Applied RT_GrantApplied"

section \<open>Restoration\<close>

definition restoration_request :: "Coordinator \<Rightarrow> Grant \<Rightarrow> ServiceContract \<Rightarrow> CapabilitySnapshot \<Rightarrow> tick \<Rightarrow> RestorationRequest" where
  "restoration_request c g k capability now =
     \<lparr>rr_grant = Some g, rr_contract = Some k, rr_capability = Some capability,
      rr_evidence = Some (es_live (co_evidence c)), rr_policy = Some (ds_policy (co_state c)),
      rr_current_authority = current_authority (co_state c), rr_fence_active = False, rr_now = now,
      rr_provenance = gr_provenance g\<rparr>"

definition request_restoration_locked :: "u64 \<Rightarrow> tick \<Rightarrow> RestorationEvaluation action" where
  "request_restoration_locked grant now = co_read (\<lambda>c.
     case retained_grant c grant of
       None \<Rightarrow> co_fail EC_NotFound
     | Some g \<Rightarrow>
     (case find_contract c (ab_contract (gr_binding g)) of
       None \<Rightarrow> co_fail EC_NotFound
     | Some k \<Rightarrow>
        co_bind (co_lift (scope_capability (ab_scope (gr_binding g)) True (co_clock c) c)) (\<lambda>capability.
        let evaluation = evaluate_restoration (restoration_request c g k capability now)
        in if re_outcome evaluation = RO_Proven
           then co_then (append_record RT_RestorationProven (encode_body encode_RestorationEvaluation evaluation))
               (co_modify (count_event record_restoration_proven)
               (co_ignore (fence_grant_locked grant FR_Restored AD_None now)
                 (co_return evaluation)))
           else co_then (append_record RT_RestorationRefused (encode_body encode_RestorationEvaluation evaluation))
               (co_modify (count_event record_restoration_refused)
                 (co_return evaluation)))))"

section \<open>The clock\<close>

definition Coordinator_advance :: "u64 \<Rightarrow> Coordinator \<Rightarrow> tick \<times> Coordinator" where
  "Coordinator_advance delta c =
     (let t = (case checked_add (co_clock c) delta of Some n \<Rightarrow> n | None \<Rightarrow> u64_max)
      in (t, c\<lparr>co_clock := t\<rparr>))"

section \<open>Start-up and shutdown\<close>

definition coordinator_store_config :: "CoordinatorConfig \<Rightarrow> StoreConfig" where
  "coordinator_store_config cfg =
     (cc_store cfg)\<lparr>so_max_retained_grants := max (so_max_retained_grants (cc_store cfg)) (cc_max_live_grants cfg),
                    so_max_retained_decisions := max (so_max_retained_decisions (cc_store cfg)) (cc_max_decisions cfg)\<rparr>"

definition initial_coordinator :: "CoordinatorConfig \<Rightarrow> store \<Rightarrow> Coordinator" where
  "initial_coordinator cfg st =
     (let s = im_state (fst st)
      in \<lparr>co_config = cfg, co_store = st,
          co_evidence = EvidenceStore_reset_limit (cc_max_evidence_items cfg) (new_evidence_store (2 ^ 14)),
          co_grants = GrantTable_rebuild (ds_grants s) (new_grant_table (cc_max_live_grants cfg)),
          co_decision_ids = IdAllocator_observe 1 (ds_decision_id_high_water s),
          co_grant_ids = IdAllocator_observe 1 (ds_grant_id_high_water s),
          co_fence_ids = IdAllocator_observe 1 (ds_fence_id_high_water s),
          co_evidence_ids = IdAllocator_observe 1 (ds_evidence_id_high_water s),
          co_plan_ids = IdAllocator_observe 1 (ds_plan_id_high_water s),
          co_attempt_ids = 1,
          co_contract_index = Map.empty, co_scope_index = Map.empty, co_session_roles = Map.empty,
          co_scope_capability_digest = Map.empty, co_policy_installed = False, co_stopped = False,
          co_clock = (if ds_last_commit_tick s > 0 then ds_last_commit_tick s else 1)\<rparr>)"

definition boot_bytes :: "u64 \<Rightarrow> u64 \<Rightarrow> tick \<Rightarrow> u8 list" where
  "boot_bytes boot trm clock =
     bw_data (ByteWriter_u64 clock (ByteWriter_u64 trm (ByteWriter_u64 boot (new_writer 32 kMaxBlobBytes))))"

definition successor_or_first :: "u64 \<Rightarrow> u64 option" where
  "successor_or_first n = (if valid_id n then StrongUInt_next n else Some 1)"

definition boot_fence :: "u64 \<Rightarrow> Grant \<Rightarrow> tick \<Rightarrow> FenceRecord" where
  "boot_fence f g clock =
     \<lparr>fr_id = f, fr_grant = gr_id g, fr_reason = FR_BootAdvance, fr_delta = AD_Boot, fr_prior = gr_binding g,
      fr_current = gr_binding g, fr_fenced_tick = clock\<rparr>"

fun fence_previous :: "u64 list \<Rightarrow> unit action" where
  "fence_previous [] = co_return ()"
| "fence_previous (k # ks) = co_read (\<lambda>c.
     case retained_grant c k of
       None \<Rightarrow> fence_previous ks
     | Some g \<Rightarrow>
        allocate_id co_fence_ids co_fence_ids_update (\<lambda>fence_id.
        case fence_id of
          None \<Rightarrow> co_return ()
        | Some f \<Rightarrow>
           co_then (append_record RT_GrantFenced (encode_body encode_FenceRecord (boot_fence f g (co_clock c))))
             (fence_previous ks)))"

definition bootstrap_generations :: "bool \<Rightarrow> bool \<Rightarrow> bool \<Rightarrow> unit action" where
  "bootstrap_generations fabric_missing capacity_missing evidence_missing =
     co_then (if fabric_missing then append_record RT_FabricGenerationAdvanced (encode_counter_body 1) else co_return ())
    (co_then (if capacity_missing then append_record RT_CapacityGenerationAdvanced (encode_counter_body 1) else co_return ())
    (if evidence_missing then append_record RT_EvidenceGenerationAdvanced (encode_counter_body 1) else co_return ()))"

definition settle_coordinator :: "Coordinator \<Rightarrow> Coordinator" where
  "settle_coordinator c =
     (let c = rebuild_contract_index (c\<lparr>co_grants := GrantTable_rebuild (ds_grants (co_state c)) (co_grants c)\<rparr>);
          p = ds_policy (co_state c)
      in c\<lparr>co_evidence := EvidenceStore_clear (co_evidence c),
           co_policy_installed := (installed p \<and> Policy_validate p = EC_Ok),
           co_scope_capability_digest := Map.empty, co_stopped := False\<rparr>)"

definition boot_coordinator :: "unit action" where
  "boot_coordinator = co_read (\<lambda>c.
     case (successor_or_first (ds_boot (co_state c)), successor_or_first (ds_term (co_state c))) of
       (Some next_boot, Some next_term) \<Rightarrow>
         co_then (append_record RT_BootAdvanced (boot_bytes next_boot next_term (co_clock c)))
        (co_read (\<lambda>c.
         co_then (bootstrap_generations (\<not> valid_id (ds_fabric_generation (co_state c)))
                    (\<not> valid_id (ds_capacity_generation (co_state c))) (\<not> valid_id (ds_evidence_generation (co_state c))))
        (co_read (\<lambda>c.
         co_then (fence_previous (map gr_id (filter Grant_live (ds_grants (co_state c)))))
           (co_modify settle_coordinator (co_return ()))))))
     | _ \<Rightarrow> co_fail EC_Exhausted)"

definition Coordinator_stop :: "unit action" where
  "Coordinator_stop c =
     (if co_stopped c then (Done (Inr ()), c)
      else let c = c\<lparr>co_stopped := True\<rparr>
      in if im_closed (fst (co_store c)) then (Done (Inr ()), c)
      else let c = c\<lparr>co_grants := GrantTable_rebuild (ds_grants (co_state c)) (co_grants c)\<rparr>
      in case take_snapshot (co_store c) of
           (Crashed, st) \<Rightarrow> (Crashed, c\<lparr>co_store := st\<rparr>)
         | (Done _, st) \<Rightarrow>
            (case close_store st of (e, st) \<Rightarrow> (Done (of_status e), c\<lparr>co_store := st\<rparr>)))"

text \<open>What a process that ends leaves on disk: the files, without its lock.\<close>

definition killed :: "Coordinator \<Rightarrow> StoreRoot" where
  "killed c = LockFile_release (im_lock (fst (co_store c))) (snd (co_store c))"

text \<open>
  \<open>create\<close>: when it fails after the store was opened, the destructor of the coordinator stops it again.
\<close>

definition Coordinator_create :: "CoordinatorConfig \<Rightarrow> StoreRoot \<Rightarrow> Coordinator result outcome \<times> StoreRoot" where
  "Coordinator_create cfg w =
     (case open_store (coordinator_store_config cfg) w of
        (Crashed, w') \<Rightarrow> (Crashed, w')
      | (Done (Inl e), w') \<Rightarrow> (Done (Inl e), w')
      | (Done (Inr impl), w') \<Rightarrow>
         (case boot_coordinator (initial_coordinator cfg (impl, w')) of
            (Crashed, c) \<Rightarrow> (Crashed, killed c)
          | (Done (Inr _), c) \<Rightarrow> (Done (Inr c), snd (co_store c))
          | (Done (Inl e), c) \<Rightarrow>
             (case Coordinator_stop c of
                (Crashed, c') \<Rightarrow> (Crashed, killed c')
              | (Done _, c') \<Rightarrow> (Done (Inl e), snd (co_store c')))))"

end
