(* ===== verification/Coordinator_Laws.thy ===== *)
theory Coordinator_Laws
  imports Coordinator_Ops Store_Life
begin

unbundle bit_operations_syntax

text \<open>
  What the coordinator's handlers guarantee: authority is handed out only on an authorising decision for the current
  generations, an attempt identity is spent when it is used, and a restart leaves no grant of an earlier incarnation alive.
\<close>

section \<open>Rules for actions\<close>

text \<open>A composed action that delivers a value, in terms of its parts.\<close>

named_theorems delivered

lemma delivered_return [delivered]: "co_return x c = (Done (Inr y), c') \<longleftrightarrow> x = y \<and> c = c'"
  by (simp add: co_return_def)

lemma delivered_fail [delivered]: "co_fail e c = (Done (Inr y), c') \<longleftrightarrow> False"
  by (simp add: co_fail_def)

lemma delivered_bind [delivered]:
  "co_bind m f c = (Done (Inr y), c') \<longleftrightarrow> (\<exists>x c1. m c = (Done (Inr x), c1) \<and> f x c1 = (Done (Inr y), c'))"
  by (auto simp: co_bind_def co_attempt_def co_fail_def split: prod.splits outcome.splits sum.splits)

lemma delivered_then [delivered]:
  "co_then m k c = (Done (Inr y), c') \<longleftrightarrow> (\<exists>c1. m c = (Done (Inr ()), c1) \<and> k c1 = (Done (Inr y), c'))"
  unfolding co_then_def delivered_bind by (metis (full_types) old.unit.exhaust)

lemma delivered_ignore [delivered]:
  "co_ignore m k c = (Done (Inr y), c') \<longleftrightarrow> (\<exists>r c1. m c = (Done r, c1) \<and> k c1 = (Done (Inr y), c'))"
  by (auto simp: co_ignore_def co_attempt_def split: prod.splits outcome.splits)

lemma delivered_read [delivered]: "co_read f c = (Done (Inr y), c') \<longleftrightarrow> f c c = (Done (Inr y), c')"
  by (simp add: co_read_def)

lemma delivered_modify [delivered]: "co_modify g k c = (Done (Inr y), c') \<longleftrightarrow> k (g c) = (Done (Inr y), c')"
  by (simp add: co_modify_def)

lemma delivered_require [delivered]:
  "co_require b e k c = (Done (Inr y), c') \<longleftrightarrow> b \<and> k c = (Done (Inr y), c')"
  by (simp add: co_require_def co_fail_def)

lemma delivered_lift [delivered]: "co_lift r c = (Done (Inr y), c') \<longleftrightarrow> r = Inr y \<and> c = c'"
  by (auto simp: co_lift_def co_return_def co_fail_def split: sum.splits)

lemma of_status_Inr [delivered]: "of_status e = Inr u \<longleftrightarrow> e = EC_Ok"
  by (simp add: of_status_def)

lemma delivered_note [delivered]:
  "note_grants f c = (Done (Inr u), c') \<longleftrightarrow> (\<exists>t. f (co_grants c) = (EC_Ok, t) \<and> c' = c\<lparr>co_grants := t\<rparr>)"
  by (auto simp: note_grants_def of_status_def split: prod.splits)

lemma delivered_allocate [delivered]:
  "allocate_id ids upd k c = (Done (Inr y), c') \<longleftrightarrow>
   (\<exists>i nxt. IdAllocator_allocate (ids c) = (i, nxt) \<and> k i (upd (\<lambda>_. nxt) c) = (Done (Inr y), c'))"
  by (auto simp: allocate_id_def split: prod.split)

lemma delivered_option [delivered]:
  "(case x of None \<Rightarrow> co_fail e | Some v \<Rightarrow> f v) c = (Done (Inr y), c') \<longleftrightarrow> (\<exists>v. x = Some v \<and> f v c = (Done (Inr y), c'))"
  by (simp add: delivered split: option.split)

lemma delivered_append:
  "append_record type payload c = (Done (Inr u), c') \<longleftrightarrow>
   (\<exists>st. store_append type payload (co_store c) = (Done EC_Ok, st) \<and> c' = c\<lparr>co_store := st\<rparr>)"
  by (auto simp: append_record_def of_status_def split: prod.splits outcome.splits if_splits)

text \<open>What a successful append does to the durable state.\<close>

lemma append_record_effect:
  assumes "append_record type payload c = (Done (Inr u), c')"
  shows "\<exists>decoded s0 s. decode_payload type payload = Inr decoded \<and>
    same_commitments (co_state c) s0 \<and>
    apply_record type decoded (im_config (fst (co_store c))) s0 = (EC_Ok, s) \<and>
    prune_when_due (im_config (fst (co_store c))) s = (EC_Ok, co_state c') \<and>
    im_config (fst (co_store c')) = im_config (fst (co_store c)) \<and> (\<exists>st. c' = c\<lparr>co_store := st\<rparr>)"
proof -
  obtain impl w where st: "co_store c = (impl, w)"
    by (cases "co_store c")
  obtain impl' w' where app: "append_batched type payload (impl, w) = (EC_Ok, impl', w')" and c': "c' = c\<lparr>co_store := (impl', w')\<rparr>"
    using assms unfolding delivered_append st by (auto dest!: store_append_Ok)
  then obtain decoded n k s1 s2 len where "decode_payload type payload = Inr decoded"
    and s1: "acct (record_journal_write 1 len) ((im_state impl)\<lparr>ds_journal_sequence := n, ds_journal_records := k\<rparr>) = (EC_Ok, s1)"
    and "apply_record type decoded (im_config impl) s1 = (EC_Ok, s2)" "prune_when_due (im_config impl) s2 = (EC_Ok, im_state impl')"
    using append_batched_Ok [OF app] by blast
  moreover have "im_config impl' = im_config impl"
    by (rule append_frame(4) [OF app])
  moreover have "same_commitments (im_state impl) s1"
    using same_commitments_trans [OF same_position] acct_journal_write [OF s1] by blast
  ultimately show ?thesis
    unfolding c' st by auto
qed

section \<open>Acquiring authority\<close>

lemma evaluate_delivers:
  assumes "evaluate_locked contract c = (Done (Inr (d, plan)), c')"
  shows "\<exists>k req. find_contract c contract = Some k \<and> co_policy_installed c \<and> d = evaluate_contract req \<and>
    er_contract req = Some k \<and> ab_vector (ec_binding (er_context req)) = current_authority (co_state c) \<and>
    er_policy req = Some (ds_policy (co_state c)) \<and> Decision_validate d = EC_Ok"
  using assms unfolding evaluate_locked_def
  by (auto simp: delivered Let_def) (auto simp: evaluation_request_def evaluation_context_def)

lemma acquire_delivers:
  assumes "acquire_locked contract now c = (Done (Inr g), c')"
  shows "\<exists>k d plan c0 c1 c2. \<not> co_stopped c \<and> co_policy_installed c \<and> find_contract c contract = Some k \<and>
    ServiceContract_validate k = EC_Ok \<and> evaluate_locked contract c = (Done (Inr (d, plan)), c0) \<and>
    is_authorising (de_outcome d) \<and> Decision_validate d = EC_Ok \<and> gr_decision g = de_id d \<and>
    gr_degraded g = de_approved d \<and> live_count (co_grants c0) < cc_max_live_grants (co_config c0) \<and>
    ab_vector (gr_binding g) = current_authority (co_state c) \<and> ab_contract (gr_binding g) = sc_id k \<and>
    ab_contract_generation (gr_binding g) = sc_generation k \<and> ab_scope (gr_binding g) = sc_scope k \<and>
    gr_original g = sc_original k \<and> classify_weakening (gr_original g) (gr_degraded g) = WR_WeakensOrEquals \<and>
    Grant_validate g = EC_Ok \<and> gr_state g = GS_Issued \<and> gr_issued_tick g = now \<and>
    append_record RT_GrantIssued (encode_body encode_Grant g) c1 = (Done (Inr ()), c2) \<and>
    snd (co_store c') = snd (co_store c2)"
proof -
  obtain k d plan c1 i a p where c: "\<not> co_stopped c" and k: "find_contract c contract = Some k"
    and ev: "evaluate_locked contract c = (Done (Inr (d, plan)), c1)" and auth: "is_authorising (de_outcome d)"
    and room: "live_count (co_grants c1) < cc_max_live_grants (co_config c1)"
    and g: "g = grant_from_decision i a k d p now" and valid: "Grant_validate g = EC_Ok"
    and app: "\<exists>c2 c3. append_record RT_GrantIssued (encode_body encode_Grant g) c2 = (Done (Inr ()), c3) \<and>
      snd (co_store c') = snd (co_store c3)"
    using assms unfolding acquire_locked_def
    by (auto simp: delivered Let_def co_state_update_def) blast
  obtain req where req: "d = evaluate_contract req" "er_contract req = Some k" "co_policy_installed c"
    "ab_vector (ec_binding (er_context req)) = current_authority (co_state c)" "Decision_validate d = EC_Ok"
    using evaluate_delivers [OF ev] k by auto
  show ?thesis
  proof (cases rule: evaluate_contract_cases [of req])
    case invalid
    then show ?thesis
      using auth req(1) by (simp add: is_authorising_def)
  next
    case (built k' cap p' e status)
    then have "de_binding d = ec_binding (er_context req)" "de_original d = sc_original k" "k' = k"
      "binding_matches (ec_binding (er_context req)) k cap" "ServiceContract_validate k = EC_Ok"
      using req by auto
    then show ?thesis
      using c k req valid app ev auth room unfolding g
      by (auto simp: grant_from_decision_def binding_matches_def Grant_validate_def require_def and_then_def split: if_splits)
  qed
qed

text \<open>
  C8. Authority is handed out only on a proof. When \<open>acquire\<close> delivers a grant, the coordinator was running with an
  installed policy and room for another live grant, the contract was registered, and the grant carries the outcome of
  the evaluation of that contract, a valid decision that authorises: it is bound to that contract and to the coordinator's current authority vector, it carries the contract's original guarantees and a
  weakening of them, it passes its own validation, it is issued now and the journal holds its record.
\<close>

theorem acquire_is_backed:
  "case acquire_locked contract now c of
     (Done (Inr g), c') \<Rightarrow>
       (\<exists>k d plan c0 c1 c2. \<not> co_stopped c \<and> co_policy_installed c \<and> find_contract c contract = Some k \<and>
          ServiceContract_validate k = EC_Ok \<and> evaluate_locked contract c = (Done (Inr (d, plan)), c0) \<and>
          is_authorising (de_outcome d) \<and> Decision_validate d = EC_Ok \<and> gr_decision g = de_id d \<and>
          gr_degraded g = de_approved d \<and> live_count (co_grants c0) < cc_max_live_grants (co_config c0) \<and>
          ab_vector (gr_binding g) = current_authority (co_state c) \<and> ab_contract (gr_binding g) = sc_id k \<and>
          ab_contract_generation (gr_binding g) = sc_generation k \<and> ab_scope (gr_binding g) = sc_scope k \<and>
          gr_original g = sc_original k \<and> classify_weakening (gr_original g) (gr_degraded g) = WR_WeakensOrEquals \<and>
          Grant_validate g = EC_Ok \<and> gr_state g = GS_Issued \<and> gr_issued_tick g = now \<and>
          append_record RT_GrantIssued (encode_body encode_Grant g) c1 = (Done (Inr ()), c2) \<and>
          snd (co_store c') = snd (co_store c2))
   | _ \<Rightarrow> True"
  using acquire_delivers [of contract now c] by (auto split: prod.split outcome.split sum.split)

section \<open>Restart\<close>

text \<open>Retention stays quiet while at most \<open>n\<close> fences are added.\<close>

definition quiet :: "StoreConfig \<Rightarrow> nat \<Rightarrow> DurableState \<Rightarrow> bool" where
  "quiet cfg n s \<longleftrightarrow>
     length (ds_grants s) \<le> size_mul (so_max_retained_grants cfg) 2 \<and>
     length (ds_fences s) + n \<le> size_mul (so_max_retained_fences cfg) 2 \<and>
     length (ds_decisions s) \<le> size_mul (so_max_retained_decisions cfg) 2 \<and>
     length (ev_items (ds_historical_evidence s)) < so_max_retained_evidence cfg"

lemma quiet_not_due: "quiet cfg n s \<Longrightarrow> \<not> retention_due cfg s"
  by (auto simp: quiet_def retention_due_def)

definition same_tables :: "DurableState \<Rightarrow> DurableState \<Rightarrow> bool" where
  "same_tables s t \<longleftrightarrow> ds_grants t = ds_grants s \<and> ds_fences t = ds_fences s \<and> ds_decisions t = ds_decisions s \<and>
     ds_historical_evidence t = ds_historical_evidence s"

lemma same_tables_trans: "same_tables s t \<Longrightarrow> same_tables t u \<Longrightarrow> same_tables s u"
  by (simp add: same_tables_def)

lemma quiet_same: "same_tables s t \<Longrightarrow> quiet cfg n t = quiet cfg n s"
  by (simp add: same_tables_def quiet_def)

lemma same_tables_commit: "same_commitments s t \<Longrightarrow> same_tables s t"
  by (auto simp: same_tables_def same_commitments_def)

lemma same_tables_acct: "acct f s = (e, t) \<Longrightarrow> same_tables s t"
  by (auto simp: same_tables_def acct_def split: prod.splits)

text \<open>A step that changes the store only, and not its tables.\<close>

definition calm :: "Coordinator \<Rightarrow> Coordinator \<Rightarrow> bool" where
  "calm c c' \<longleftrightarrow> same_tables (co_state c) (co_state c') \<and> im_config (fst (co_store c')) = im_config (fst (co_store c)) \<and>
     (\<exists>st. c' = c\<lparr>co_store := st\<rparr>)"

lemma calm_refl: "calm c c"
  unfolding calm_def same_tables_def by (intro conjI exI [of _ "co_store c"]) simp_all

lemma calm_trans: "calm c c' \<Longrightarrow> calm c' c'' \<Longrightarrow> calm c c''"
  unfolding calm_def same_tables_def by (elim conjE exE) (intro conjI exI [of _ "co_store c''"]; simp)

lemma calm_quiet:
  "calm c c' \<Longrightarrow> quiet (im_config (fst (co_store c'))) n (co_state c') = quiet (im_config (fst (co_store c))) n (co_state c)"
  using quiet_same [of "co_state c" "co_state c'"] by (simp add: calm_def)

text \<open>Records that leave the tables alone.\<close>

definition bookkeeping :: "RecordType \<Rightarrow> bool" where
  "bookkeeping type \<longleftrightarrow>
     type \<in> {RT_BootAdvanced, RT_FabricGenerationAdvanced, RT_CapacityGenerationAdvanced, RT_EvidenceGenerationAdvanced}"

lemma boot_record_Ok:
  assumes "boot_record boot trm t s = (EC_Ok, s')"
  shows "same_tables s s' \<and> ds_boot s' = boot \<and> ds_term s' = trm"
proof -
  obtain n m where "acct record_boot (s\<lparr>ds_boot := boot, ds_term := trm, ds_last_commit_tick := t, ds_boot_count := n\<rparr>) = (EC_Ok, m)"
    and "acct record_term_advance m = (EC_Ok, s')"
    using assms by (auto simp: boot_record_def Let_def status_then_Ok split: if_splits option.splits)
  then show ?thesis
    by (auto simp: acct_def same_tables_def split: prod.splits)
qed

lemma bookkeeping_applied:
  assumes "apply_record type p cfg s = (EC_Ok, s')" and "bookkeeping type"
  shows "same_tables s s' \<and> (type \<noteq> RT_BootAdvanced \<longrightarrow> ds_boot s' = ds_boot s \<and> ds_term s' = ds_term s) \<and>
    (type = RT_BootAdvanced \<longrightarrow> ds_boot s' = rp_id p \<and> ds_term s' = rp_sequence p)"
  using assms boot_record_Ok by (auto simp: bookkeeping_def same_tables_def)

lemma append_bookkeeping:
  assumes app: "append_record type payload c = (Done (Inr u), c')" and b: "bookkeeping type"
    and q: "quiet (im_config (fst (co_store c))) n (co_state c)"
  shows "calm c c' \<and> (type \<noteq> RT_BootAdvanced \<longrightarrow> ds_boot (co_state c') = ds_boot (co_state c) \<and> ds_term (co_state c') = ds_term (co_state c)) \<and>
    (\<forall>p. type = RT_BootAdvanced \<and> decode_payload type payload = Inr p \<longrightarrow>
       ds_boot (co_state c') = rp_id p \<and> ds_term (co_state c') = rp_sequence p)"
proof -
  obtain p s0 s where p: "decode_payload type payload = Inr p" and s0: "same_commitments (co_state c) s0"
    and s: "apply_record type p (im_config (fst (co_store c))) s0 = (EC_Ok, s)"
    and pr: "prune_when_due (im_config (fst (co_store c))) s = (EC_Ok, co_state c')"
    and rest: "im_config (fst (co_store c')) = im_config (fst (co_store c))" "\<exists>st. c' = c\<lparr>co_store := st\<rparr>"
    using append_record_effect [OF app] by blast
  note ap = bookkeeping_applied [OF s b]
  have tables: "same_tables (co_state c) s"
    using same_tables_trans [OF same_tables_commit [OF s0]] ap by blast
  then have "co_state c' = s"
    using pr quiet_not_due [of "im_config (fst (co_store c))" n s] q quiet_same by (simp add: prune_when_due_def)
  moreover have "ds_boot s0 = ds_boot (co_state c)" "ds_term s0 = ds_term (co_state c)"
    using s0 by (auto simp: same_commitments_def)
  ultimately show ?thesis
    using tables rest ap p by (auto simp: calm_def)
qed

text \<open>A fence record has a fixed size, far below the document bound, so what is written is what is read back.\<close>

lemma fence_writer_ok: "bw_ok (encode_FenceRecord f (new_writer kMaxDocumentBytes kMaxBlobBytes))"
  by (simp add: encode_FenceRecord_def encode_AuthorityBinding_def encode_AuthorityVector_def write_all_def write_enum_def
      ByteWriter_u64_def ByteWriter_u32_def ByteWriter_u16_def ByteWriter_raw_def ByteWriter_ensure_def new_writer_def
      kMaxDocumentBytes_def Let_def)

lemma decode_fence_body:
  assumes "fence_encodable f" and "type \<in> {RT_GrantFenced, RT_GrantExpired, RT_GrantRevoked}"
  shows "decode_payload type (encode_body encode_FenceRecord f) = Inr (new_payload\<lparr>rp_fence := f\<rparr>)"
proof -
  obtain r where "decode_FenceRecord (new_reader (encode_body encode_FenceRecord f) kMaxBlobBytes) = (Inr f, r)" "decode_finish r = EC_Ok"
    using fence_codec.round [OF assms(1)] fence_writer_ok unfolding round_trips_def encode_body_def by blast
  then show ?thesis
    using assms(2) by (auto simp: decode_payload_def payload_fence_def dec_sub_def dec_return_def)
qed

lemma fence_record_Ok:
  assumes "fence_record n f s = (EC_Ok, s')"
  shows "ds_grants s' = assign_first (\<lambda>g. gr_id g = fr_grant f) (moved_grant n (fr_fenced_tick f) 0 0) (ds_grants s) \<and>
    ds_fences s' = ds_fences s @ [f] \<and> ds_decisions s' = ds_decisions s \<and>
    ds_historical_evidence s' = ds_historical_evidence s \<and> ds_boot s' = ds_boot s \<and> ds_term s' = ds_term s"
proof -
  obtain m hw where m: "acct (record_fences 1) ((assign_grant (fr_grant f) (moved_grant n (fr_fenced_tick f) 0 0) s)
      \<lparr>ds_fences := ds_fences s @ [f], ds_fence_id_high_water := hw\<rparr>) = (EC_Ok, m)" and s': "acct (count_end n) m = (EC_Ok, s')"
    using assms by (auto simp: fence_record_def status_then_Ok transition_Ok add_fence_def assign_grant_def)
  have "ds_grants m = ds_grants s' \<and> ds_fences m = ds_fences s' \<and> ds_decisions m = ds_decisions s' \<and>
      ds_historical_evidence m = ds_historical_evidence s' \<and> ds_boot m = ds_boot s' \<and> ds_term m = ds_term s'"
    using s' by (auto simp: acct_def split: prod.splits)
  then show ?thesis
    using m by (auto simp: acct_def assign_grant_def split: prod.splits)
qed

lemma append_fence:
  assumes app: "append_record type (encode_body encode_FenceRecord f) c = (Done (Inr u), c')" and enc: "fence_encodable f"
    and "type": "type \<in> {RT_GrantFenced, RT_GrantExpired, RT_GrantRevoked}"
    and q: "quiet (im_config (fst (co_store c))) (Suc n) (co_state c)"
  shows "ds_grants (co_state c') =
      assign_first (\<lambda>g. gr_id g = fr_grant f) (moved_grant (fence_state type) (fr_fenced_tick f) 0 0) (ds_grants (co_state c)) \<and>
    ds_fences (co_state c') = ds_fences (co_state c) @ [f] \<and>
    quiet (im_config (fst (co_store c'))) n (co_state c') \<and> ds_boot (co_state c') = ds_boot (co_state c) \<and>
    ds_term (co_state c') = ds_term (co_state c) \<and>
    im_config (fst (co_store c')) = im_config (fst (co_store c)) \<and> (\<exists>st. c' = c\<lparr>co_store := st\<rparr>)"
proof -
  let ?cfg = "im_config (fst (co_store c))"
  obtain p s0 s where p: "decode_payload type (encode_body encode_FenceRecord f) = Inr p"
    and s0: "same_commitments (co_state c) s0" and s: "apply_record type p ?cfg s0 = (EC_Ok, s)"
    and pr: "prune_when_due ?cfg s = (EC_Ok, co_state c')"
    and rest: "im_config (fst (co_store c')) = ?cfg" "\<exists>st. c' = c\<lparr>co_store := st\<rparr>"
    using append_record_effect [OF app] by blast
  have "rp_fence p = f"
    using p decode_fence_body [OF enc "type"] by (metis RecordPayload.select_convs(3) RecordPayload.surjective RecordPayload.update_convs(3) sum.inject(2))
  then have "fence_record (fence_state type) f s0 = (EC_Ok, s)"
    using s "type" by (auto simp: fence_state_def)
  note fr = fence_record_Ok [OF this]
  have same: "ds_grants s0 = ds_grants (co_state c)" "ds_fences s0 = ds_fences (co_state c)"
    "ds_decisions s0 = ds_decisions (co_state c)" "ds_historical_evidence s0 = ds_historical_evidence (co_state c)"
    "ds_boot s0 = ds_boot (co_state c)" "ds_term s0 = ds_term (co_state c)"
    using s0 by (auto simp: same_commitments_def)
  have q': "quiet ?cfg n s"
    using q fr by (auto simp: quiet_def same)
  then have "co_state c' = s"
    using pr quiet_not_due [OF q'] by (simp add: prune_when_due_def)
  then show ?thesis
    using fr rest q' by (simp add: same)
qed

text \<open>The loop over the grants that were alive before the restart.\<close>

definition indexed :: "GrantTable \<Rightarrow> Grant list \<Rightarrow> bool" where
  "indexed t gs \<longleftrightarrow> distinct (map gr_id gs) \<and> gt_index t = zip (map gr_id gs) [0..<length gs]"

lemma indexed_find: "indexed t gs \<Longrightarrow> GrantTable_find t gs k = find_by_id gs k"
  using find_in_step [of "t\<lparr>gt_live_ids := sort (map gr_id (filter Grant_live gs))\<rparr>" gs k]
  by (simp add: indexed_def in_step_def GrantTable_find_def)

lemma live_after_fence:
  assumes "distinct (map gr_id gs)" and "\<not> grant_state_live n"
  shows "filter Grant_live (assign_first (\<lambda>g. gr_id g = k) (moved_grant n t 0 0) gs) = filter (\<lambda>g. gr_id g \<noteq> k) (filter Grant_live gs)"
proof -
  have "map (\<lambda>x. if gr_id x = k then moved_grant n t 0 0 x else x) xs = xs" if "\<forall>x \<in> set xs. gr_id x \<noteq> k" for xs
    using that by (auto intro: map_idI)
  then show ?thesis
    using assms
    by (subst assign_first_distinct [of gr_id]) (auto simp: filter_map comp_def Grant_live_def intro!: filter_cong)
qed

text \<open>Before the loop over \<open>n\<close> more grants, and one step of it.\<close>

definition fence_ready :: "nat \<Rightarrow> Coordinator \<Rightarrow> bool" where
  "fence_ready n c \<longleftrightarrow>
     indexed (co_grants c) (ds_grants (co_state c)) \<and> (\<forall>g \<in> set (ds_grants (co_state c)). valid_id (gr_id g)) \<and>
     quiet (im_config (fst (co_store c))) n (co_state c) \<and> co_fence_ids c \<noteq> 0 \<and> unat (co_fence_ids c) + n < 2 ^ 64"

lemma fence_ready_less: "fence_ready (Suc n) c \<Longrightarrow> fence_ready n c"
  by (simp add: fence_ready_def quiet_def)

lemma boot_fence_encodable:
  assumes "valid_id f" and "valid_id (gr_id g)"
  shows "fence_encodable (boot_fence f g t)"
  using assms
  by (simp add: fence_encodable_def boot_fence_def FenceRecord_validate_def require_def valid_id_def known_flags_def
      AD_Boot_def AD_CoordinatorTerm_def AD_Fabric_def AD_Capacity_def AD_Policy_def AD_Evidence_def AD_Contract_def
      AD_ContractGeneration_def AD_Subject_def AD_SubjectGeneration_def AD_Scope_def)

definition boot_fenced :: "u64 \<Rightarrow> tick \<Rightarrow> Grant list \<Rightarrow> Grant list" where
  "boot_fenced k t gs = assign_first (\<lambda>g. gr_id g = k) (moved_grant GS_Fenced t 0 0) gs"

lemma boot_fenced_ids: "map gr_id (boot_fenced k t gs) = map gr_id gs"
  unfolding boot_fenced_def by (rule assign_first_keys) simp

lemma fence_step:
  assumes ready: "fence_ready (Suc n) c" and g: "retained_grant c k = Some g"
    and app: "append_record RT_GrantFenced (encode_body encode_FenceRecord (boot_fence (co_fence_ids c) g (co_clock c)))
      (c\<lparr>co_fence_ids := co_fence_ids c + 1\<rparr>) = (Done (Inr ()), c1)"
  shows "fence_ready n c1 \<and> ds_grants (co_state c1) = boot_fenced k (co_clock c) (ds_grants (co_state c)) \<and>
    ds_boot (co_state c1) = ds_boot (co_state c) \<and> ds_term (co_state c1) = ds_term (co_state c)"
proof -
  have id: "gr_id g = k" "valid_id (gr_id g)"
    using g ready indexed_find [of "co_grants c" "ds_grants (co_state c)"]
    by (auto simp: fence_ready_def find_by_id_def dest: find_ptr_SomeD)
  have enc: "fence_encodable (boot_fence (co_fence_ids c) g (co_clock c))"
    using boot_fence_encodable id(2) ready by (simp add: fence_ready_def valid_id_def)
  have q: "quiet (im_config (fst (co_store (c\<lparr>co_fence_ids := co_fence_ids c + 1\<rparr>)))) (Suc n)
      (co_state (c\<lparr>co_fence_ids := co_fence_ids c + 1\<rparr>))"
    using ready by (simp add: fence_ready_def)
  have st: "ds_grants (co_state c1) = boot_fenced k (co_clock c) (ds_grants (co_state c))"
    "quiet (im_config (fst (co_store c1))) n (co_state c1)" "ds_boot (co_state c1) = ds_boot (co_state c)"
    "ds_term (co_state c1) = ds_term (co_state c)" "\<exists>st. c1 = c\<lparr>co_fence_ids := co_fence_ids c + 1, co_store := st\<rparr>"
    using append_fence [OF app enc _ q] by (auto simp: boot_fence_def boot_fenced_def id(1) fence_state_def)
  have ids: "map gr_id (ds_grants (co_state c1)) = map gr_id (ds_grants (co_state c))"
    unfolding st(1) by (rule boot_fenced_ids)
  have frame: "co_grants c1 = co_grants c" "co_fence_ids c1 = co_fence_ids c + 1"
    using st(5) by auto
  have "indexed (co_grants c1) (ds_grants (co_state c1))"
    using ready ids map_eq_imp_length_eq [OF ids] by (simp add: fence_ready_def indexed_def frame)
  moreover have "\<forall>g \<in> set (ds_grants (co_state c1)). valid_id (gr_id g)"
    using ready arg_cong [OF ids, of "list_all valid_id"] by (simp add: fence_ready_def list.pred_map list_all_iff)
  moreover have "co_fence_ids c1 \<noteq> 0" "unat (co_fence_ids c1) + n < 2 ^ 64"
    using ready by (simp_all add: fence_ready_def frame unat_word_ariths word_unat_eq_iff)
  ultimately show ?thesis
    using st by (simp add: fence_ready_def)
qed

lemma fence_allocated:
  "fence_ready (Suc n) c \<Longrightarrow> IdAllocator_allocate (co_fence_ids c) = (Some (co_fence_ids c), co_fence_ids c + 1)"
  using checked_add_Some_iff [of "co_fence_ids c" 1 "co_fence_ids c + 1"]
  by (simp add: fence_ready_def IdAllocator_allocate_def unat_word_ariths)

lemma fence_previous_result:
  assumes "fence_previous ks c = (Done (Inr ()), c')" and "fence_ready (length ks) c"
    and "gr_id ` set (filter Grant_live (ds_grants (co_state c))) \<subseteq> set ks"
  shows "filter Grant_live (ds_grants (co_state c')) = [] \<and>
    map gr_id (ds_grants (co_state c')) = map gr_id (ds_grants (co_state c)) \<and>
    ds_boot (co_state c') = ds_boot (co_state c) \<and> ds_term (co_state c') = ds_term (co_state c)"
  using assms
proof (induction ks arbitrary: c)
  case Nil
  then show ?case
    by (auto simp: delivered)
next
  case (Cons k ks)
  have index: "indexed (co_grants c) (ds_grants (co_state c))"
    using Cons.prems(2) by (simp add: fence_ready_def)
  show ?case
  proof (cases "retained_grant c k")
    case None
    then have "k \<notin> gr_id ` set (ds_grants (co_state c))"
      using indexed_find [OF index] find_ptr_NoneD by (fastforce simp: find_by_id_def)
    then have "gr_id ` set (filter Grant_live (ds_grants (co_state c))) \<subseteq> set ks"
      using Cons.prems(3) by fastforce
    then show ?thesis
      using Cons.prems None fence_ready_less by (intro Cons.IH) (simp_all add: delivered)
  next
    case (Some g)
    obtain c1 where app: "append_record RT_GrantFenced (encode_body encode_FenceRecord (boot_fence (co_fence_ids c) g (co_clock c)))
        (c\<lparr>co_fence_ids := co_fence_ids c + 1\<rparr>) = (Done (Inr ()), c1)"
      and rest: "fence_previous ks c1 = (Done (Inr ()), c')"
      using Cons.prems(1,2) Some fence_allocated by (auto simp: delivered)
    note st = fence_step [OF _ Some app, of "length ks"]
    have "gr_id ` set (filter Grant_live (ds_grants (co_state c1))) \<subseteq> set ks"
      using st Cons.prems(2,3) index live_after_fence [of "ds_grants (co_state c)" GS_Fenced k "co_clock c"]
      by (auto simp: boot_fenced_def indexed_def grant_state_live_def grant_state_terminal_def)
    then show ?thesis
      using Cons.IH [OF rest] st Cons.prems(2) boot_fenced_ids by simp
  qed
qed

lemma boot_bytes_decoded:
  "decode_payload RT_BootAdvanced (boot_bytes boot trm clock) = Inr (new_payload\<lparr>rp_id := boot, rp_sequence := trm, rp_tick := clock\<rparr>)"
proof -
  have "boot_bytes boot trm clock = le_bytes 8 boot @ le_bytes 8 trm @ le_bytes 8 clock"
    by (simp add: boot_bytes_def ByteWriter_u64_def ByteWriter_raw_def ByteWriter_ensure_def new_writer_def Let_def)
  then show ?thesis
    by (simp add: decode_payload_def reading le_value_le_bytes decode_finish_def ByteReader_at_end_def)
qed

lemma successor_later: "successor_or_first n = Some m \<Longrightarrow> n < m"
  by (auto simp: successor_or_first_def StrongUInt_next_def checked_add_Some_iff valid_id_def word_less_nat_alt unat_gt_0 split: if_splits)

lemma settle_same [simp]: "co_store (settle_coordinator c) = co_store c"
proof -
  have "co_store (index_contracts i ks c) = co_store c" for i ks c
    by (induction i ks c rule: index_contracts.induct)
      (simp_all add: Let_def push_scope_def index_contract_def split: option.split)
  then show ?thesis
    by (simp add: settle_coordinator_def rebuild_contract_index_def sort_scopes_def Let_def)
qed

lemma settle_grants: "\<exists>t. co_grants (settle_coordinator c) = GrantTable_rebuild (ds_grants (co_state c)) t"
proof -
  have "co_grants (index_contracts i ks c) = co_grants c" for i ks c
    by (induction i ks c rule: index_contracts.induct)
      (simp_all add: Let_def push_scope_def index_contract_def split: option.split)
  then show ?thesis
    by (auto simp: settle_coordinator_def rebuild_contract_index_def sort_scopes_def Let_def)
qed

lemma observed:
  assumes "unat n + 1 < 2 ^ 64"
  shows "IdAllocator_observe 1 n = n + 1" and "unat (n + 1) = unat n + 1"
proof -
  have "checked_add n 1 = Some (n + 1)"
    using assms by (simp add: checked_add_Some_iff unat_word_ariths)
  moreover show "unat (n + 1) = unat n + 1"
    using assms by (simp add: unat_word_ariths)
  ultimately show "IdAllocator_observe 1 n = n + 1"
    using assms by (auto simp: IdAllocator_observe_def Let_def word_less_nat_alt word_unat_eq_iff)
qed

lemma append_generation:
  assumes "(if missing then append_record type (encode_counter_body 1) else co_return ()) c = (Done (Inr ()), c')"
    and "bookkeeping type" "type \<noteq> RT_BootAdvanced" and "quiet (im_config (fst (co_store c))) n (co_state c)"
  shows "calm c c' \<and> ds_boot (co_state c') = ds_boot (co_state c) \<and> ds_term (co_state c') = ds_term (co_state c)"
  using assms append_bookkeeping [of type "encode_counter_body 1" c "()" c' n] calm_refl
  by (cases missing) (auto simp: delivered)

lemma bootstrap_calm:
  assumes "bootstrap_generations x y z c = (Done (Inr ()), c')" and "quiet (im_config (fst (co_store c))) n (co_state c)"
  shows "calm c c' \<and> ds_boot (co_state c') = ds_boot (co_state c) \<and> ds_term (co_state c') = ds_term (co_state c)"
proof -
  obtain c1 c2 where steps:
    "(if x then append_record RT_FabricGenerationAdvanced (encode_counter_body 1) else co_return ()) c = (Done (Inr ()), c1)"
    "(if y then append_record RT_CapacityGenerationAdvanced (encode_counter_body 1) else co_return ()) c1 = (Done (Inr ()), c2)"
    "(if z then append_record RT_EvidenceGenerationAdvanced (encode_counter_body 1) else co_return ()) c2 = (Done (Inr ()), c')"
    using assms(1) unfolding bootstrap_generations_def delivered_then by blast
  note s1 = append_generation [OF steps(1) _ _ assms(2)]
  then have q1: "quiet (im_config (fst (co_store c1))) n (co_state c1)"
    using calm_quiet [of c c1] assms(2) by (simp add: bookkeeping_def)
  note s2 = append_generation [OF steps(2) _ _ this]
  then have "quiet (im_config (fst (co_store c2))) n (co_state c2)"
    using calm_quiet [of c1 c2] q1 by (simp add: bookkeeping_def)
  note s3 = append_generation [OF steps(3) _ _ this]
  show ?thesis
    using s1 s2 s3 calm_trans [of c c1 c2] calm_trans [of c c2 c'] by (simp add: bookkeeping_def)
qed

lemma boot_steps:
  assumes boot: "boot_coordinator c = (Done (Inr ()), c')" and q: "quiet (im_config (fst (co_store c))) n (co_state c)"
  shows "\<exists>c1 c2. calm c c1 \<and> ds_boot (co_state c) < ds_boot (co_state c1) \<and> ds_term (co_state c) < ds_term (co_state c1) \<and>
    fence_previous (map gr_id (filter Grant_live (ds_grants (co_state c1)))) c1 = (Done (Inr ()), c2) \<and> c' = settle_coordinator c2"
proof -
  obtain b t ca cb c2 where bt: "successor_or_first (ds_boot (co_state c)) = Some b" "successor_or_first (ds_term (co_state c)) = Some t"
    and a: "append_record RT_BootAdvanced (boot_bytes b t (co_clock c)) c = (Done (Inr ()), ca)"
    and g: "bootstrap_generations (\<not> valid_id (ds_fabric_generation (co_state ca)))
        (\<not> valid_id (ds_capacity_generation (co_state ca))) (\<not> valid_id (ds_evidence_generation (co_state ca))) ca = (Done (Inr ()), cb)"
    and f: "fence_previous (map gr_id (filter Grant_live (ds_grants (co_state cb)))) cb = (Done (Inr ()), c2)"
    and c': "c' = settle_coordinator c2"
    using boot unfolding boot_coordinator_def by (auto simp: delivered)
  have sa: "calm c ca" "ds_boot (co_state ca) = b" "ds_term (co_state ca) = t"
    using append_bookkeeping [OF a _ q] by (auto simp: boot_bytes_decoded bookkeeping_def)
  note sb = bootstrap_calm [OF g, of n]
  show ?thesis
    using sa sb q calm_quiet [OF sa(1)] calm_trans [OF sa(1)] f c' successor_later [OF bt(1)] successor_later [OF bt(2)]
    by (intro exI [of _ cb] exI [of _ c2]) simp
qed

lemma initial_ready:
  assumes "distinct (map gr_id (ds_grants (im_state (fst st))))" and "list_all (\<lambda>g. valid_id (gr_id g)) (ds_grants (im_state (fst st)))"
    and "quiet (im_config (fst st)) n (im_state (fst st))" and "unat (ds_fence_id_high_water (im_state (fst st))) + n + 1 < 2 ^ 64"
  shows "fence_ready n (initial_coordinator cfg st)"
proof -
  have "unat (co_fence_ids (initial_coordinator cfg st)) = unat (ds_fence_id_high_water (im_state (fst st))) + 1"
    using observed [of "ds_fence_id_high_water (im_state (fst st))"] assms(4) by (simp add: initial_coordinator_def Let_def)
  moreover from this have "co_fence_ids (initial_coordinator cfg st) \<noteq> 0"
    by (metis Suc_eq_plus1 nat.distinct(1) unat_0)
  ultimately show ?thesis
    using assms rebuild_in_step [OF assms(1)]
    by (simp add: fence_ready_def initial_coordinator_def Let_def in_step_def indexed_def list_all_iff)
qed

lemma calm_ready: "calm c c' \<Longrightarrow> fence_ready n c' = fence_ready n c"
  using calm_quiet [of c c' n] by (auto simp: calm_def fence_ready_def same_tables_def)

lemma fence_ready_le: "fence_ready n c \<Longrightarrow> m \<le> n \<Longrightarrow> fence_ready m c"
  by (auto simp: fence_ready_def quiet_def)

text \<open>What a boot sequence that gets through leaves behind.\<close>

lemma boot_result:
  assumes boot: "boot_coordinator c0 = (Done (Inr ()), c)" and ready: "fence_ready (length (ds_grants (co_state c0))) c0"
  shows "ds_boot (co_state c0) < ds_boot (co_state c) \<and> ds_term (co_state c0) < ds_term (co_state c) \<and>
    map gr_id (ds_grants (co_state c)) = map gr_id (ds_grants (co_state c0)) \<and>
    list_all (\<lambda>g. \<not> Grant_live g) (ds_grants (co_state c)) \<and>
    in_step (co_grants c) (ds_grants (co_state c)) \<and> live_count (co_grants c) = 0"
proof -
  obtain c1 c2 where c1: "calm c0 c1" "ds_boot (co_state c0) < ds_boot (co_state c1)" "ds_term (co_state c0) < ds_term (co_state c1)"
    and f: "fence_previous (map gr_id (filter Grant_live (ds_grants (co_state c1)))) c1 = (Done (Inr ()), c2)"
    and c: "c = settle_coordinator c2"
    using boot_steps [OF boot, of "length (ds_grants (co_state c0))"] ready by (auto simp: fence_ready_def)
  have same: "ds_grants (co_state c1) = ds_grants (co_state c0)"
    using c1(1) by (auto simp: calm_def same_tables_def)
  have "fence_ready (length (map gr_id (filter Grant_live (ds_grants (co_state c1))))) c1"
    using fence_ready_le [of "length (ds_grants (co_state c0))" c1] ready calm_ready [OF c1(1)] by (simp add: same)
  then have "filter Grant_live (ds_grants (co_state c2)) = [] \<and>
      map gr_id (ds_grants (co_state c2)) = map gr_id (ds_grants (co_state c0)) \<and>
      ds_boot (co_state c2) = ds_boot (co_state c1) \<and> ds_term (co_state c2) = ds_term (co_state c1)"
    using fence_previous_result [OF f] by (auto simp: same)
  moreover obtain t where "co_grants c = GrantTable_rebuild (ds_grants (co_state c2)) t"
    using settle_grants [of c2] c by blast
  moreover from calculation have "in_step (co_grants c) (ds_grants (co_state c2))"
    using rebuild_in_step [of "ds_grants (co_state c2)"] ready by (simp add: fence_ready_def indexed_def)
  ultimately show ?thesis
    using c c1 by (auto simp: list_all_iff filter_empty_conv in_step_def live_count_def)
qed

definition sample_config :: CoordinatorConfig where
  "sample_config = \<lparr>cc_store = small_store, cc_max_evidence_items = 16, cc_max_live_grants = 4, cc_max_contracts = 4,
     cc_max_decisions = 4, cc_snapshot_interval_records = 8192, cc_principals = [([7], PR_Operator)],
     cc_allow_anonymous_sessions = False, cc_origin = OC_Synthetic\<rparr>"

definition restarted_store :: store where
  "restarted_store = ((new_impl small_store)\<lparr>im_state := new_state\<lparr>ds_grants := [issued_grant 1, sample_grant\<lparr>gr_id := 2\<rparr>]\<rparr>\<rparr>,
     empty_root)"

section \<open>Attempts\<close>

lemma move_bytes_decoded:
  assumes "type \<in> {RT_GrantAcknowledged, RT_GrantApplied}"
  shows "decode_payload type (move_bytes k now a n) =
    Inr (new_payload\<lparr>rp_id := k, rp_tick := now, rp_attempt := a, rp_sequence := n\<rparr>)"
proof -
  have "move_bytes k now a n = le_bytes 8 k @ le_bytes 8 now @ le_bytes 8 a @ le_bytes 8 n"
    by (simp add: move_bytes_def ByteWriter_u64_def ByteWriter_raw_def ByteWriter_ensure_def new_writer_def Let_def)
  then show ?thesis
    using assms by (auto simp: decode_payload_def payload_move_def reading le_value_le_bytes decode_finish_def ByteReader_at_end_def)
qed

definition progress :: "GrantState \<Rightarrow> RecordType \<Rightarrow> bool" where
  "progress target type \<longleftrightarrow> (target, type) \<in> {(GS_Acknowledged, RT_GrantAcknowledged), (GS_Applied, RT_GrantApplied)}"

lemma append_move:
  assumes app: "append_record type (move_bytes k now a n) c = (Done (Inr u), c')" and p: "progress target type"
    and q: "quiet (im_config (fst (co_store c))) m (co_state c)"
  shows "ds_grants (co_state c') = move_grant k (moved_grant target now a n) (ds_grants (co_state c)) \<and>
    (\<exists>st. c' = c\<lparr>co_store := st\<rparr>)"
proof -
  let ?cfg = "im_config (fst (co_store c))"
  obtain d s0 s where d: "decode_payload type (move_bytes k now a n) = Inr d"
    and s0: "same_commitments (co_state c) s0" and s: "apply_record type d ?cfg s0 = (EC_Ok, s)"
    and pr: "prune_when_due ?cfg s = (EC_Ok, co_state c')" and rest: "\<exists>st. c' = c\<lparr>co_store := st\<rparr>"
    using append_record_effect [OF app] by blast
  have "d = new_payload\<lparr>rp_id := k, rp_tick := now, rp_attempt := a, rp_sequence := n\<rparr>"
    using d p by (auto simp: move_bytes_decoded progress_def)
  then obtain f t where "transition_grant k target now a n s0 = (EC_Ok, t)" "acct f t = (EC_Ok, s)"
    using s p by (auto simp: progress_def status_then_Ok new_payload_def)
  then have t: "ds_grants s = move_grant k (moved_grant target now a n) (ds_grants s0) \<and> ds_fences s = ds_fences s0 \<and>
      ds_decisions s = ds_decisions s0 \<and> ds_historical_evidence s = ds_historical_evidence s0"
    by (auto simp: transition_Ok assign_grant_def move_grant_def acct_def split: prod.splits)
  have same: "ds_grants s0 = ds_grants (co_state c)" "ds_fences s0 = ds_fences (co_state c)"
    "ds_decisions s0 = ds_decisions (co_state c)" "ds_historical_evidence s0 = ds_historical_evidence (co_state c)"
    using s0 by (auto simp: same_commitments_def)
  have "quiet ?cfg m s"
    using q t by (simp add: quiet_def same move_grant_def)
  then have "co_state c' = s"
    using pr quiet_not_due by (simp add: prune_when_due_def)
  then show ?thesis
    using t rest by (simp add: same)
qed

lemma advance_delivers:
  assumes adv: "advance_grant target type k attempt now c = (Done (Inr g'), c')" and p: "progress target type"
    and sync: "in_step (co_grants c) (ds_grants (co_state c))" and q: "quiet (im_config (fst (co_store c))) m (co_state c)"
  shows "\<exists>g n. g \<in> set (ds_grants (co_state c)) \<and> gr_id g = k \<and> Grant_live g \<and> \<not> expired_at g now \<and> attempt = gr_last_attempt g \<and>
    grant_transition_allowed (gr_state g) target \<and> g' = moved_grant target now (co_attempt_ids c) n g \<and>
    valid_id (co_attempt_ids c) \<and> retained_grant c' k = Some g' \<and> in_step (co_grants c') (ds_grants (co_state c'))"
proof -
  obtain g n a nxt c1 t where g: "retained_grant c k = Some g" and live: "Grant_live g" "\<not> expired_at g now"
    and att: "attempt = gr_last_attempt g" and ok: "grant_transition_allowed (gr_state g) target"
    and al: "IdAllocator_allocate (co_attempt_ids c) = (Some a, nxt)"
    and app: "append_record type (move_bytes k now a n) (c\<lparr>co_attempt_ids := nxt\<rparr>) = (Done (Inr ()), c1)"
    and nt: "note_transition k (gr_state g) target (co_grants c1) = (EC_Ok, t)"
    and ret: "retained_grant c' k = Some g'" and c': "co_grants c' = t" "co_state c' = co_state c1"
    using adv unfolding advance_grant_def by (auto simp: delivered split: if_splits)
  have gk: "g \<in> set (ds_grants (co_state c))" "gr_id g = k"
    using g find_in_step [OF sync] by (auto simp: find_by_id_def dest: find_ptr_SomeD)
  have a: "a = co_attempt_ids c" "valid_id a"
    using al by (auto simp: IdAllocator_allocate_def valid_id_def split: if_splits)
  have "quiet (im_config (fst (co_store (c\<lparr>co_attempt_ids := nxt\<rparr>)))) m (co_state (c\<lparr>co_attempt_ids := nxt\<rparr>))"
    using q by simp
  note mv = append_move [OF app p this]
  let ?f = "moved_grant target now a n"
  have gs: "ds_grants (co_state c') = move_grant k ?f (ds_grants (co_state c))" and same: "co_grants c1 = co_grants c"
    using mv by (auto simp: c')
  have sync': "in_step (co_grants c') (ds_grants (co_state c'))"
    unfolding gs c'(1) using transition_in_step(2) [OF sync gk(1) ok, of ?f] nt by (simp add: same gk(2))
  have "find_by_id (move_grant k ?f (ds_grants (co_state c))) k = Some (?f g)"
  proof -
    have d: "distinct (map gr_id (ds_grants (co_state c)))"
      using sync by (simp add: in_step_def)
    then have "move_grant k ?f (ds_grants (co_state c)) = map (\<lambda>x. if gr_id x = k then ?f x else x) (ds_grants (co_state c))"
      unfolding move_grant_def by (rule assign_first_distinct)
    moreover have "distinct (map gr_id (move_grant k ?f (ds_grants (co_state c))))"
      using d by (simp add: move_grant_def assign_first_keys)
    moreover have "?f g \<in> set (move_grant k ?f (ds_grants (co_state c)))"
      using gk calculation(1) by force
    ultimately show ?thesis
      unfolding find_by_id_def using find_ptr_distinct [of gr_id _ "?f g"] by (simp add: gk(2))
  qed
  then have "g' = ?f g"
    using ret find_in_step [OF sync'] by (simp add: gs)
  then show ?thesis
    using gk live att ok a ret sync' by blast
qed

text \<open>
  C10. An attempt identity is spent when it is used. A successful acknowledgement or report moves exactly the named live and
  unexpired grant along an allowed transition, returns it with a fresh attempt identity and keeps the grant index in step
  with the table; presenting the same attempt again, for either operation, is then refused as a replay and changes
  nothing, until the grant expires. The hypotheses say that the index is in step, that retention does not prune, and that
  the attempt was handed out before.
\<close>

theorem attempt_is_spent:
  assumes "progress target type" and "in_step (co_grants c) (ds_grants (co_state c))"
    and "quiet (im_config (fst (co_store c))) 0 (co_state c)" and "attempt < co_attempt_ids c"
  shows "case advance_grant target type k attempt now c of
      (Done (Inr g), c') \<Rightarrow>
        gr_id g = k \<and> gr_state g = target \<and> gr_last_attempt g \<noteq> attempt \<and>
        in_step (co_grants c') (ds_grants (co_state c')) \<and>
        (expired_at g later \<or> advance_grant target' type' k attempt later c' = (Done (Inl EC_ReplayDetected), c'))
    | _ \<Rightarrow> True"
proof (cases "\<exists>g c'. advance_grant target type k attempt now c = (Done (Inr g), c')")
  case True
  then obtain g' c' where adv: "advance_grant target type k attempt now c = (Done (Inr g'), c')"
    by blast
  from advance_delivers [OF adv assms(1-3)] obtain g n where g: "gr_id g = k" "attempt = gr_last_attempt g"
    and g': "g' = moved_grant target now (co_attempt_ids c) n g" and v: "valid_id (co_attempt_ids c)"
    and ret: "retained_grant c' k = Some g'" and sync: "in_step (co_grants c') (ds_grants (co_state c'))"
    by blast
  have new: "gr_last_attempt g' = co_attempt_ids c"
    using v by (simp add: g' moved_grant_def Let_def)
  have "Grant_live g'"
    using assms(1) by (auto simp: g' Grant_live_def progress_def grant_state_live_def grant_state_terminal_def)
  moreover have "attempt \<noteq> co_attempt_ids c"
    using assms(4) by simp
  ultimately have "advance_grant target' type' k attempt later c' = (Done (Inl EC_ReplayDetected), c')" if "\<not> expired_at g' later"
    using that ret new by (simp add: advance_grant_def co_read_def co_require_def co_fail_def)
  then show ?thesis
    using adv g g' new assms(4) sync by auto
qed (auto split: prod.split outcome.split sum.split)

section \<open>What the sweep compares\<close>

text \<open>
  The sweep compares a grant's binding with the same binding under the current vector. A live, unexpired grant with the
  current vector is left alone, whatever generation its contract has by now.
\<close>

lemma sweep_blind_to_contract:
  assumes "retained_grant c k = Some g" and "Grant_live g" and "\<not> expired_at g now" and "ab_vector (gr_binding g) = current"
  shows "sweep_one now current k report c = (Done (Inr (report\<lparr>rv_evaluated := rv_evaluated report + 1\<rparr>)), c)"
proof -
  have "current_binding_for_grant g current = gr_binding g"
    using assms(4) by (simp add: current_binding_for_grant_def)
  then have "classify (gr_binding g) (current_binding_for_grant g current) = 0"
    by (simp add: classify_eq_0)
  then show ?thesis
    using assms(1-3) by (simp add: sweep_one_def co_read_def co_return_def invalidates_authority_def Let_def AD_None_def)
qed

end
