(* ===== verification/Store_Room.thy ===== *)
theory Store_Room
  imports Coordinator_Laws
begin

text \<open>
  When an append succeeds: a store that is open and far from the limits of its counters accepts every record that decodes
  and applies, and a document whose size is bounded is written in full.
\<close>

section \<open>Room in the store\<close>

text \<open>\<open>store_room n\<close>: the store is open and \<open>n\<close> more records cannot exhaust any of its counters.\<close>

definition store_room :: "nat \<Rightarrow> StoreImpl \<Rightarrow> bool" where
  "store_room n impl \<longleftrightarrow>
     \<not> im_closed impl \<and> im_journal impl \<noteq> None \<and> \<not> so_read_only (im_config impl) \<and>
     so_crash_before_record (im_config impl) = 0 \<and> so_crash_after_write_record (im_config impl) = 0 \<and>
     so_crash_after_record (im_config impl) = 0 \<and>
     unat (ds_journal_sequence (im_state impl)) + n < 2 ^ 64 \<and>
     unat (ds_journal_records (im_state impl)) + n < 2 ^ 64 \<and>
     unat (ac_journal_records_written (ds_counters (im_state impl))) + n < 2 ^ 64 \<and>
     unat (im_bytes_in_segment impl) + n * (32 + kMaxRecordPayload) < 2 ^ 64 \<and>
     unat (ac_journal_bytes_written (ds_counters (im_state impl))) + n * (32 + kMaxRecordPayload) < 2 ^ 64"

lemma checked_add_small:
  fixes a :: u64
  assumes "unat a + n < 2 ^ 64"
  shows "\<exists>b. checked_add a (of_nat n) = Some b \<and> unat b = unat a + n"
proof -
  have n: "unat (of_nat n :: u64) = n"
    using assms by (simp add: unat_of_nat)
  then obtain b where "checked_add a (of_nat n) = Some b"
    using assms checked_add_None_iff [of a "of_nat n"] by (cases "checked_add a (of_nat n)") auto
  then show ?thesis
    using checked_add_Some_iff [of a "of_nat n" b] n by auto
qed

lemma append_batched_delivers:
  assumes room: "store_room (Suc n) impl" and len: "length payload \<le> kMaxRecordPayload"
    and dec: "decode_payload type payload = Inr p" and no: "type \<noteq> RT_AccountingCheckpoint"
    and app: "apply_record type p (im_config impl) (im_state impl) = (EC_Ok, s)" and due: "\<not> retention_due (im_config impl) s"
  shows "\<exists>impl' w'. append_batched type payload (impl, w) = (EC_Ok, impl', w') \<and> store_room n impl' \<and>
    same_commitments s (im_state impl') \<and> im_config impl' = im_config impl"
proof -
  let ?s = "im_state impl"
  let ?m = "32 + length payload"
  have m: "?m \<le> 32 + kMaxRecordPayload"
    using len by simp
  obtain q where q: "checked_add (ds_journal_sequence ?s) 1 = Some q" "unat q = unat (ds_journal_sequence ?s) + 1"
    using checked_add_small [of "ds_journal_sequence ?s" 1] room by (auto simp: store_room_def)
  obtain k where k: "checked_add (ds_journal_records ?s) 1 = Some k" "unat k = unat (ds_journal_records ?s) + 1"
    using checked_add_small [of "ds_journal_records ?s" 1] room by (auto simp: store_room_def)
  obtain a where a: "checked_add (ac_journal_records_written (ds_counters ?s)) 1 = Some a"
      "unat a = unat (ac_journal_records_written (ds_counters ?s)) + 1"
    using checked_add_small [of "ac_journal_records_written (ds_counters ?s)" 1] room by (auto simp: store_room_def)
  obtain b where b: "checked_add (im_bytes_in_segment impl) (of_nat ?m) = Some b" "unat b = unat (im_bytes_in_segment impl) + ?m"
    using checked_add_small [of "im_bytes_in_segment impl" ?m] room m by (auto simp: store_room_def)
  obtain d where d: "checked_add (ac_journal_bytes_written (ds_counters ?s)) (of_nat ?m) = Some d"
      "unat d = unat (ac_journal_bytes_written (ds_counters ?s)) + ?m"
    using checked_add_small [of "ac_journal_bytes_written (ds_counters ?s)" ?m] room m by (auto simp: store_room_def)
  obtain name where name: "im_journal impl = Some name"
    using room by (auto simp: store_room_def)
  define v where "v = (view_of ?s)\<lparr>jv_sequence := q, jv_records := k, jv_written := a, jv_bytes := d\<rparr>"
  have written: "acct (record_journal_write 1 (of_nat ?m)) (?s\<lparr>ds_journal_sequence := q, ds_journal_records := k\<rparr>) =
      (EC_Ok, dress v ?s)"
    using a d by (simp add: acct_def record_journal_write_def status_then_def bump_def dress_def dress_counters_def v_def view_of_def)
  have applied: "apply_record type p (im_config impl) (dress v ?s) = (EC_Ok, dress v s)"
    using view_blindD [OF apply_record_blind [OF no]] app by simp
  have kept: "prune_when_due (im_config impl) (dress v s) = (EC_Ok, dress v s)"
    using due by (simp add: prune_when_due_def retention_due_def)
  have "append_batched type payload (impl, w) = (EC_Ok,
      impl\<lparr>im_state := dress v s, im_records_in_segment := im_records_in_segment impl + 1, im_bytes_in_segment := b\<rparr>,
      write_all_to name (encode_record (record_frame_header type q payload) payload) w)"
    using room len dec q(1) name k(1) b(1) written applied kept
    by (simp add: append_batched_def store_room_def Let_def length_frame [OF len] status_then_def)
  moreover have "store_room n (impl\<lparr>im_state := dress v s, im_records_in_segment := im_records_in_segment impl + 1,
      im_bytes_in_segment := b\<rparr>)"
    using room q(2) k(2) a(2) b(2) d(2) m
    by (simp add: store_room_def dress_def dress_counters_def v_def view_of_def)
  ultimately show ?thesis
    by (auto simp: same_commitments_def)
qed

lemma append_record_delivers:
  assumes "store_room (Suc n) (fst (co_store c))" and "length payload \<le> kMaxRecordPayload"
    and "decode_payload type payload = Inr p" and "type \<noteq> RT_AccountingCheckpoint"
    and "apply_record type p (im_config (fst (co_store c))) (co_state c) = (EC_Ok, s)"
    and "\<not> retention_due (im_config (fst (co_store c))) s"
  shows "\<exists>st. append_record type payload c = (Done (Inr ()), c\<lparr>co_store := st\<rparr>) \<and> store_room n (fst st) \<and>
    same_commitments s (im_state (fst st)) \<and> im_config (fst st) = im_config (fst (co_store c))"
proof -
  obtain impl w where st: "co_store c = (impl, w)"
    by (cases "co_store c")
  obtain impl' w' where app: "append_batched type payload (impl, w) = (EC_Ok, impl', w')" and r: "store_room n impl'"
    "same_commitments s (im_state impl')" "im_config impl' = im_config impl"
    using append_batched_delivers [of n impl payload "type" p s w] assms st by auto
  have "store_append type payload (co_store c) = (Done EC_Ok, impl', w')"
    using app r(1) assms(1) st
    by (auto simp: store_append_def Let_def crash_at_def store_room_def store_flush_def)
  then show ?thesis
    using r st by (auto simp: append_record_def of_status_def)
qed

section \<open>Room for a document\<close>

text \<open>\<open>costs f n\<close>: writing \<open>f\<close> takes at most \<open>n\<close> bytes and succeeds when they are there.\<close>

definition costs :: "(byte_writer \<Rightarrow> byte_writer) \<Rightarrow> nat \<Rightarrow> bool" where
  "costs f n \<longleftrightarrow>
     (\<forall>w. bw_ok w \<and> length (bw_data w) + n \<le> bw_max_total w \<and> bw_max_total w < 2 ^ 64 \<longrightarrow>
        bw_ok (f w) \<and> length (bw_data (f w)) \<le> length (bw_data w) + n \<and> bw_max_total (f w) = bw_max_total w)"

lemma costs_raw: "costs (ByteWriter_raw bs) (length bs)"
  by (auto simp: costs_def ByteWriter_raw_def ByteWriter_ensure_def Let_def)

lemma costs_fields:
  "costs (ByteWriter_u64 d) 8" "costs (ByteWriter_u32 c) 4" "costs (ByteWriter_boolean e) 1"
  "costs (write_enum code v) 2" "costs (write_size xs) 4"
  using costs_raw
  by (auto simp: costs_def ByteWriter_raw_def ByteWriter_ensure_def Let_def ByteWriter_u8_def ByteWriter_u16_def
      ByteWriter_u32_def ByteWriter_u64_def ByteWriter_boolean_def write_enum_def write_size_def)

lemma costs_comp:
  assumes f: "costs f m" and g: "costs g n"
  shows "costs (\<lambda>w. g (f w)) (m + n)"
  unfolding costs_def
proof (intro allI impI)
  fix w :: byte_writer
  assume w: "bw_ok w \<and> length (bw_data w) + (m + n) \<le> bw_max_total w \<and> bw_max_total w < 2 ^ 64"
  then have "bw_ok (f w) \<and> length (bw_data (f w)) \<le> length (bw_data w) + m \<and> bw_max_total (f w) = bw_max_total w"
    using f by (simp add: costs_def)
  moreover from this have "bw_ok (g (f w)) \<and> length (bw_data (g (f w))) \<le> length (bw_data (f w)) + n \<and>
      bw_max_total (g (f w)) = bw_max_total (f w)"
    using g w by (simp add: costs_def)
  ultimately show "bw_ok (g (f w)) \<and> length (bw_data (g (f w))) \<le> length (bw_data w) + (m + n) \<and>
      bw_max_total (g (f w)) = bw_max_total w"
    by simp
qed

lemma costs_Nil: "costs (write_all []) 0"
  by (simp add: costs_def write_all_def)

lemma costs_Cons: "costs f m \<Longrightarrow> costs (write_all fs) n \<Longrightarrow> costs (write_all (f # fs)) (m + n)"
  using costs_comp [of f m "write_all fs" n] by (simp add: write_all_def [abs_def] comp_def)

lemma costs_each: "(\<And>x. costs (put x) k) \<Longrightarrow> costs (write_each put xs) (length xs * k)"
proof (induction xs)
  case Nil
  show ?case
    by (simp add: costs_def write_each_def)
next
  case (Cons x xs)
  then show ?case
    using costs_comp [of "put x" k "write_each put xs"] by (simp add: write_each_def [abs_def] comp_def)
qed

lemmas costs_intros = costs_Cons costs_Nil costs_each costs_fields

lemma costs_eq: "costs f m \<Longrightarrow> m = n \<Longrightarrow> costs f n"
  by simp

lemma costs_record:
  "costs (encode_Guarantee g) 13"
  "costs (encode_AuthorityVector a) 48"
  "costs (encode_Concession c) 18"
  "costs (encode_GuaranteeWithdrawal wd) 12"
  "costs (encode_EvidenceItem i) 62"
  "costs (encode_GuaranteeSupport s) 6"
  "costs (encode_RestorationPrecondition p) 28"
  subgoal unfolding encode_Guarantee_def by (rule costs_eq, (rule costs_intros)+) simp
  subgoal unfolding encode_AuthorityVector_def by (rule costs_eq, (rule costs_intros)+) simp
  subgoal unfolding encode_Concession_def by (rule costs_eq, (rule costs_intros)+) simp
  subgoal unfolding encode_GuaranteeWithdrawal_def by (rule costs_eq, (rule costs_intros)+) simp
  subgoal unfolding encode_EvidenceItem_def by (rule costs_eq, (rule costs_intros)+) simp
  subgoal unfolding encode_GuaranteeSupport_def by (rule costs_eq, (rule costs_intros)+) simp
  subgoal unfolding encode_RestorationPrecondition_def by (rule costs_eq, (rule costs_intros)+) simp
  done

lemma costs_binding: "costs (encode_AuthorityBinding b) (48 + 40)"
proof -
  have "costs (encode_AuthorityBinding b) (48 + (8 + (8 + (8 + (8 + (8 + 0))))))"
    unfolding encode_AuthorityBinding_def by (intro costs_intros costs_record)
  then show ?thesis
    by simp
qed

lemma costs_sets:
  "costs (encode_GuaranteeSet v) (4 + (length v * 13 + 0))"
  "costs (encode_GuaranteeDelta d) (4 + (length (dl_concessions d) * 18 + (4 + (length (dl_withdrawals d) * 12 + 0))))"
  "costs (encode_EvidenceVector e) (4 + (length (ev_items e) * 62 + 0))"
  unfolding encode_GuaranteeSet_def encode_GuaranteeDelta_def encode_EvidenceVector_def
  by (intro costs_intros costs_record)+

lemma costs_writer:
  assumes "costs (enc v) n" and "n \<le> kMaxDocumentBytes"
  shows "bw_ok (enc v (new_writer kMaxDocumentBytes kMaxBlobBytes))" "length (encode_body enc v) \<le> n"
  using assms unfolding costs_def encode_body_def
  by (auto simp: new_writer_def kMaxDocumentBytes_def dest!: spec [of _ "new_writer kMaxDocumentBytes kMaxBlobBytes"])

lemma costs_le: "costs f m \<Longrightarrow> m \<le> n \<Longrightarrow> costs f n"
  by (auto simp: costs_def)

lemma costs_Decision:
  "costs (encode_Decision d) (200 + 13 * length (de_original d) + 13 * length (de_approved d) +
     18 * length (dl_concessions (de_delta d)) + 12 * length (dl_withdrawals (de_delta d)) + 2 * length (de_reasons d) +
     6 * length (de_support d) + 62 * length (ev_items (de_evidence d)))"
  unfolding encode_Decision_def
  by (rule costs_le, (rule costs_Cons costs_Nil costs_each costs_fields costs_record costs_binding costs_sets)+) simp

lemma costs_Grant:
  "costs (encode_Grant g) (200 + 13 * length (gr_original g) + 13 * length (gr_degraded g) +
     18 * length (dl_concessions (gr_delta g)) + 12 * length (dl_withdrawals (gr_delta g)) +
     28 * length (gr_preconditions g) + 62 * length (ev_items (gr_evidence g)))"
  unfolding encode_Grant_def
  by (rule costs_le, (rule costs_Cons costs_Nil costs_each costs_fields costs_record costs_binding costs_sets)+) simp

end
