(* ===== verification/Store_Repair.thy ===== *)
theory Store_Repair
  imports Store_Torn Store_Room
begin

text \<open>
  What becomes of a store whose torn tail was repaired: the header of the torn record stays in the segment, and what
  the store commits behind it is taken for the payload of that record at the next open.
\<close>

section \<open>The repair\<close>

text \<open>What a durable state holds besides its counters and its position in the journal.\<close>

definition holdings :: "DurableState \<Rightarrow> DurableState" where
  "holdings s = s\<lparr>ds_counters := no_counters, ds_journal_sequence := 0, ds_journal_records := 0\<rparr>"

lemma same_commitments_holdings: "same_commitments s t \<Longrightarrow> holdings t = holdings s"
  by (auto simp: same_commitments_def holdings_def dress_def)

lemma acct_holdings: "holdings (snd (acct f s)) = holdings s"
  by (simp add: holdings_def acct_def split: prod.split)

text \<open>
  What the repair needs besides the segment: no configured crash, no counter at its limit, retention not due. \<open>n\<close> is the
  number of further records there is room for.
\<close>

definition repair_room :: "StoreConfig \<Rightarrow> u64 \<Rightarrow> nat \<Rightarrow> nat \<Rightarrow> nat \<Rightarrow> DurableState \<Rightarrow> bool" where
  "repair_room cfg base cnt len n s \<longleftrightarrow>
     so_crash_before_record cfg = 0 \<and> so_crash_after_write_record cfg = 0 \<and> so_crash_after_record cfg = 0 \<and>
     unat base + cnt + n < 2 ^ 64 \<and> unat (ds_journal_records s) + cnt + n < 2 ^ 64 \<and>
     unat (ac_torn_tails_recovered (ds_counters s)) + 2 < 2 ^ 64 \<and>
     unat (ac_journal_records_written (ds_counters s)) + n < 2 ^ 64 \<and>
     len + n * (32 + kMaxRecordPayload) < 2 ^ 64 \<and>
     unat (ac_journal_bytes_written (ds_counters s)) + n * (32 + kMaxRecordPayload) < 2 ^ 64 \<and> \<not> retention_due cfg s"

lemma torn_record: "decode_payload RT_TornTailObserved (torn_tail_bytes n) = Inr (new_payload\<lparr>rp_id := of_nat n\<rparr>)"
  "length (torn_tail_bytes n) = 8"
proof -
  have "torn_tail_bytes n = le_bytes 8 (of_nat n :: u64)"
    by (simp add: torn_tail_bytes_def ByteWriter_u64_def ByteWriter_raw_def ByteWriter_ensure_def new_writer_def Let_def)
  then show "decode_payload RT_TornTailObserved (torn_tail_bytes n) = Inr (new_payload\<lparr>rp_id := of_nat n\<rparr>)" "length (torn_tail_bytes n) = 8"
    by (simp_all add: decode_payload_def payload_id_def reading le_value_le_bytes decode_finish_def ByteReader_at_end_def)
qed

lemma torn_tail_counted:
  assumes "unat (ac_torn_tails_recovered (ds_counters s)) + 1 < 2 ^ 64"
  shows "\<exists>t. acct record_torn_tail s = (EC_Ok, t) \<and> holdings t = holdings s \<and>
    ds_journal_records t = ds_journal_records s \<and> ds_journal_sequence t = ds_journal_sequence s \<and>
    unat (ac_torn_tails_recovered (ds_counters t)) = unat (ac_torn_tails_recovered (ds_counters s)) + 1 \<and>
    ac_journal_records_written (ds_counters t) = ac_journal_records_written (ds_counters s) \<and>
    ac_journal_bytes_written (ds_counters t) = ac_journal_bytes_written (ds_counters s) \<and>
    retention_due cfg t = retention_due cfg s"
proof -
  obtain b where b: "checked_add (ac_torn_tails_recovered (ds_counters s)) 1 = Some b"
      "unat b = unat (ac_torn_tails_recovered (ds_counters s)) + 1"
    using checked_add_small [of "ac_torn_tails_recovered (ds_counters s)" 1] assms by auto
  show ?thesis
    using b by (simp add: acct_def record_torn_tail_def bump_def holdings_def retention_due_def)
qed

lemma retention_of_holdings: "holdings s = holdings t \<Longrightarrow> retention_due cfg s = retention_due cfg t"
proof -
  have "retention_due cfg (holdings x) = retention_due cfg x" for x
    by (simp add: holdings_def retention_due_def)
  then show "holdings s = holdings t \<Longrightarrow> retention_due cfg s = retention_due cfg t"
    by metis
qed

lemma read_counted:
  "holdings (snd (acct (record_journal_read n) s)) = holdings s"
  "ds_journal_records (snd (acct (record_journal_read n) s)) = ds_journal_records s"
  "ds_journal_sequence (snd (acct (record_journal_read n) s)) = ds_journal_sequence s"
  "ac_torn_tails_recovered (ds_counters (snd (acct (record_journal_read n) s))) = ac_torn_tails_recovered (ds_counters s)"
  "ac_journal_records_written (ds_counters (snd (acct (record_journal_read n) s))) = ac_journal_records_written (ds_counters s)"
  "ac_journal_bytes_written (ds_counters (snd (acct (record_journal_read n) s))) = ac_journal_bytes_written (ds_counters s)"
  by (auto simp: acct_def record_journal_read_def bump_def holdings_def split: option.split)

text \<open>The segment after the repair: the committed records, the torn header, and the record that reports the torn tail.\<close>

definition repaired_bytes :: "u8 list \<Rightarrow> RecordType \<Rightarrow> u64 \<Rightarrow> u8 list \<Rightarrow> nat \<Rightarrow> u8 list" where
  "repaired_bytes seg type n payload torn =
     seg @ take 28 (frame_of type n payload) @ frame_of RT_TornTailObserved n (torn_tail_bytes torn)"

lemma report_torn_tail:
  assumes room: "store_room (Suc m) impl" and torn: "unat (ac_torn_tails_recovered (ds_counters (im_state impl))) + 1 < 2 ^ 64"
    and due: "\<not> retention_due (im_config impl) (im_state impl)" and name: "im_journal impl = Some name"
  shows "\<exists>impl'. store_append RT_TornTailObserved (torn_tail_bytes k) (impl, w) =
      (Done EC_Ok, impl', write_all_to name (frame_of RT_TornTailObserved (ds_journal_sequence (im_state impl) + 1) (torn_tail_bytes k)) w) \<and>
    holdings (im_state impl') = holdings (im_state impl) \<and> store_room m impl' \<and> im_recovery impl' = im_recovery impl \<and>
    im_config impl' = im_config impl \<and> im_base_sequence impl' = im_base_sequence impl \<and> im_journal impl' = im_journal impl"
proof -
  obtain t where t: "acct record_torn_tail (im_state impl) = (EC_Ok, t)" "holdings t = holdings (im_state impl)"
      "retention_due (im_config impl) t = retention_due (im_config impl) (im_state impl)"
    using torn_tail_counted [OF torn, of "im_config impl"] by blast
  have p: "length (torn_tail_bytes k) \<le> kMaxRecordPayload"
    by (simp add: torn_record kMaxRecordPayload_def)
  obtain impl' w' where app: "append_batched RT_TornTailObserved (torn_tail_bytes k) (impl, w) = (EC_Ok, impl', w')"
    and r: "store_room m impl'" "same_commitments t (im_state impl')" "im_config impl' = im_config impl"
    using append_batched_delivers [OF room p torn_record(1), of t w] t(1,3) due by auto
  obtain n s' x where n: "checked_add (ds_journal_sequence (im_state impl)) 1 = Some n"
    and w': "w' = write_all_to name (frame_of RT_TornTailObserved n (torn_tail_bytes k)) w"
    and impl': "impl' = impl\<lparr>im_records_in_segment := im_records_in_segment impl + 1, im_state := s', im_bytes_in_segment := x\<rparr>"
    using append_batched_Ok [OF app] name by (metis option.inject)
  have n': "n = ds_journal_sequence (im_state impl) + 1"
    using n by (simp add: checked_add_def split: if_splits)
  have "store_append RT_TornTailObserved (torn_tail_bytes k) (impl, w) = (Done EC_Ok, impl', w')"
    using app room r(1) by (auto simp: store_append_def Let_def crash_at_def store_room_def store_flush_def)
  moreover have "holdings (im_state impl') = holdings (im_state impl)"
    using same_commitments_holdings [OF r(2)] t(2) by simp
  ultimately show ?thesis
    using r w' n' by (simp add: impl')
qed

lemma replay_repaired:
  assumes "fits_journal rs" and "valid_id boot" and "apply_all cfg rs s0 = Inr s"
    and p: "length payload \<le> kMaxRecordPayload" and short: "length rest < length payload + 4"
  shows "replay_segment cfg hs base
      (segment_bytes boot base rs @ take 28 (frame_of type (base + 1 + of_nat (length rs)) payload) @ rest) s0 =
    Inr (torn_at s (length (segment_bytes boot base rs) + 28) (length rest) base (length rs))"
proof -
  let ?seg = "segment_bytes boot base rs"
  let ?f = "frame_of type (base + 1 + of_nat (length rs)) payload"
  have "replay cfg hs (?seg @ take 28 ?f @ rest) (length ?seg) (base + 1 + of_nat (length rs)) (of_nat (length rs)) s =
      Inr (torn_at s (length ?seg + 28) (length rest) base (length rs))"
    using replay_headless [OF p refl short] by (simp add: torn_at_def segment_end_def)
  from replay_torn_segment [OF assms(1-3) this] show ?thesis
    by (simp add: torn_at_def)
qed

lemma recover_segment_torn:
  assumes rs: "fits_journal rs" and boot: "valid_id boot" and all: "apply_all cfg rs s0 = Inr s"
    and seg: "seg = segment_bytes boot base rs" and n: "n = base + 1 + of_nat (length rs)"
    and p: "length payload \<le> kMaxRecordPayload" and short: "length rest < length payload + 4"
    and bytes: "bytes = seg @ take 28 (frame_of type n payload) @ rest"
    and content: "file_bytes (journal_file_name base) w = Some bytes" and rw: "\<not> so_read_only cfg"
    and room: "repair_room cfg base (length rs) (length bytes) (Suc m) s"
    and impl: "impl = (new_impl cfg)\<lparr>im_lock := True, im_state := s0, im_base_sequence := base\<rparr>"
  shows "\<exists>impl' w'. recover_segment hs (journal_file_name base) base bytes (impl, w) = (Done EC_Ok, impl', w') \<and>
    im_recovery impl' = RV_TornTailRecovered \<and> holdings (im_state impl') = holdings s \<and> store_room m impl' \<and>
    im_config impl' = cfg \<and> im_base_sequence impl' = base \<and> im_journal impl' = Some (journal_file_name base) \<and>
    file_bytes (journal_file_name base) w' = Some (repaired_bytes seg type n payload (length rest)) \<and>
    (\<forall>x. x \<noteq> journal_file_name base \<longrightarrow> file_bytes x w' = file_bytes x w) \<and> sr_exists w' = sr_exists w \<and>
    length (sr_files w') = length (sr_files w)"
proof -
  let ?name = "journal_file_name base"
  define w1 where "w1 = put_file ?name (seg @ take 28 (frame_of type n payload)) w"
  have cfg: "im_config impl = cfg" "im_state impl = s0"
    by (simp_all add: impl new_impl_def)
  have replay: "replay_segment cfg hs base bytes s0 = Inr (torn_at s (length seg + 28) (length rest) base (length rs))"
    unfolding bytes seg n by (rule replay_repaired [OF rs boot all p short])
  have head: "length (take 28 (frame_of type n payload)) = 28"
    by (simp add: length_frame [OF p])
  have "truncate_file ?name (length seg + 28) (open_append ?name w) = w1"
    using content head by (simp add: truncate_file_def open_append_def file_exists_def bytes w1_def)
  note trunc = this
  obtain t where t: "acct record_torn_tail s = (EC_Ok, t)" "holdings t = holdings s" "ds_journal_records t = ds_journal_records s"
      "unat (ac_torn_tails_recovered (ds_counters t)) = unat (ac_torn_tails_recovered (ds_counters s)) + 1"
      "ac_journal_records_written (ds_counters t) = ac_journal_records_written (ds_counters s)"
      "ac_journal_bytes_written (ds_counters t) = ac_journal_bytes_written (ds_counters s)"
    using torn_tail_counted [of s cfg] room by (auto simp: repair_room_def)
  obtain k where k: "checked_add (ds_journal_records t) (of_nat (length rs)) = Some k"
      "unat k = unat (ds_journal_records s) + length rs"
    using checked_add_small [of "ds_journal_records t" "length rs"] room t(3) by (auto simp: repair_room_def)
  define u where "u = snd (acct (record_journal_read (of_nat (length rs))) (t\<lparr>ds_journal_records := k, ds_journal_sequence := base + of_nat (length rs)\<rparr>))"
  define impl2 where "impl2 = impl\<lparr>im_recovery := RV_TornTailRecovered,
      im_recovery_detail := recovery_text False hs (torn_at s (length seg + 28) (length rest) base (length rs)),
      im_state := u, im_records_in_segment := of_nat (length rs), im_bytes_in_segment := of_nat (length bytes),
      im_journal_name := ?name, im_base_sequence := base, im_journal := Some ?name\<rparr>"
  have adopt: "adopt_replay hs ?name base (length bytes) (torn_at s (length seg + 28) (length rest) base (length rs)) impl =
      (EC_Ok, impl\<lparr>im_recovery := RV_TornTailRecovered,
      im_recovery_detail := recovery_text False hs (torn_at s (length seg + 28) (length rest) base (length rs)),
      im_state := u, im_records_in_segment := of_nat (length rs), im_bytes_in_segment := of_nat (length bytes),
      im_journal_name := ?name, im_base_sequence := base\<rparr>)"
    using t(1) k(1) rw by (simp add: adopt_replay_def torn_at_def u_def cfg ac_simps)
  have reopen: "reopen_segment False (impl\<lparr>im_recovery := RV_TornTailRecovered,
      im_recovery_detail := recovery_text False hs (torn_at s (length seg + 28) (length rest) base (length rs)),
      im_state := u, im_records_in_segment := of_nat (length rs), im_bytes_in_segment := of_nat (length bytes),
      im_journal_name := ?name, im_base_sequence := base\<rparr>, w1) = (impl2, w1)"
    by (simp add: reopen_segment_def impl2_def open_append_def file_exists_def w1_def Let_def)
  have run: "recover_segment hs ?name base bytes (impl, w) = store_append RT_TornTailObserved (torn_tail_bytes (length rest)) (impl2, w1)"
    unfolding recover_segment_def prod.case cfg replay sum.case
    using rw adopt reopen trunc by (simp add: torn_at_def cfg Let_def)
  have u: "holdings u = holdings s" "ds_journal_sequence u = base + of_nat (length rs)" "ds_journal_records u = k"
    "unat (ac_torn_tails_recovered (ds_counters u)) = unat (ac_torn_tails_recovered (ds_counters s)) + 1"
    "ac_journal_records_written (ds_counters u) = ac_journal_records_written (ds_counters s)"
    "ac_journal_bytes_written (ds_counters u) = ac_journal_bytes_written (ds_counters s)"
    using t unfolding u_def read_counted by (simp_all add: holdings_def)
  have "unat (base + of_nat (length rs)) = unat base + length rs"
    using room by (simp add: repair_room_def unat_word_ariths unat_of_nat take_bit_nat_eq_self)
  then have "store_room (Suc m) impl2"
    using room u(2-6) k(2) rw
    by (simp add: store_room_def impl2_def repair_room_def impl new_impl_def unat_of_nat take_bit_nat_eq_self)
  moreover have "unat (ac_torn_tails_recovered (ds_counters (im_state impl2))) + 1 < 2 ^ 64"
    using room u(4) by (simp add: impl2_def repair_room_def)
  moreover have "\<not> retention_due (im_config impl2) (im_state impl2)"
    using room retention_of_holdings [OF u(1), of cfg] by (simp add: impl2_def repair_room_def cfg)
  moreover have "im_journal impl2 = Some ?name"
    by (simp add: impl2_def)
  ultimately obtain impl' where r: "store_append RT_TornTailObserved (torn_tail_bytes (length rest)) (impl2, w1) =
      (Done EC_Ok, impl', write_all_to ?name (frame_of RT_TornTailObserved (ds_journal_sequence (im_state impl2) + 1) (torn_tail_bytes (length rest))) w1)"
    "holdings (im_state impl') = holdings (im_state impl2)" "store_room m impl'" "im_recovery impl' = im_recovery impl2"
    "im_config impl' = im_config impl2" "im_base_sequence impl' = im_base_sequence impl2" "im_journal impl' = im_journal impl2"
    using report_torn_tail by blast
  define w' where "w' = write_all_to ?name (frame_of RT_TornTailObserved n (torn_tail_bytes (length rest))) w1"
  have "ds_journal_sequence (im_state impl2) + 1 = n"
    using u(2) by (simp add: impl2_def n ac_simps)
  then have "recover_segment hs ?name base bytes (impl, w) = (Done EC_Ok, impl', w')"
    using run r(1) by (simp add: w'_def)
  moreover have "file_bytes x w' = (if x = ?name then Some (repaired_bytes seg type n payload (length rest)) else file_bytes x w)" for x
    by (simp add: w'_def w1_def repaired_bytes_def)
  moreover have "sr_exists w' = sr_exists w"
    by (simp add: w'_def w1_def write_all_to_def put_file_def)
  moreover have "length (sr_files w') = length (sr_files w)"
    using write_all_to_names(2) [of ?name w1] put_file_names [of ?name w] content
    by (simp add: w'_def w1_def) (metis length_map option.distinct(1))
  ultimately show ?thesis
    using r(2-7) u(1) by (simp add: impl2_def cfg)
qed

text \<open>Opening a root whose segment ends in a torn header and something shorter than the payload it announces.\<close>

lemma open_torn:
  assumes root: "reachable_root cfg w" and start: "starts_from cfg w base s0"
    and rs: "fits_journal rs" and boot: "valid_id boot" and all: "apply_all cfg rs s0 = Inr s"
    and seg: "seg = segment_bytes boot base rs" and n: "n = base + 1 + of_nat (length rs)"
    and p: "length payload \<le> kMaxRecordPayload" and short: "length rest < length payload + 4"
    and content: "file_bytes (journal_file_name base) w = Some (seg @ take 28 (frame_of type n payload) @ rest)"
    and room: "repair_room cfg base (length rs) (length (seg @ take 28 (frame_of type n payload) @ rest)) (Suc m) s"
  shows "\<exists>impl' w'. open_store cfg (w\<lparr>sr_locked := False\<rparr>) = (Done (Inr impl'), w') \<and>
    im_recovery impl' = RV_TornTailRecovered \<and> holdings (im_state impl') = holdings s \<and> store_room m impl' \<and>
    im_config impl' = cfg \<and> im_journal impl' = Some (journal_file_name base) \<and>
    file_bytes (journal_file_name base) w' = Some (repaired_bytes seg type n payload (length rest)) \<and>
    reachable_root cfg w' \<and> starts_from cfg w' base s0"
proof -
  let ?name = "journal_file_name base"
  let ?bytes = "seg @ take 28 (frame_of type n payload) @ rest"
  let ?impl = "(new_impl cfg)\<lparr>im_lock := True, im_state := s0, im_base_sequence := base\<rparr>"
  define w0 where "w0 = w\<lparr>sr_locked := True\<rparr>"
  define w1 where "w1 = remove_files (filter is_staging (names_of w0)) w0"
  have start0: "starts_from cfg w0 base s0" and rw: "\<not> so_read_only cfg" and small: "length (sr_files w0) \<le> kMaxCollectionItems"
    using starts_from_cong [OF start, of w0] root by (simp_all add: w0_def reachable_root_def)
  have content0: "file_bytes ?name w0 = Some ?bytes" and content1: "file_bytes ?name w1 = Some ?bytes"
    using content by (simp_all add: w1_def w0_def file_bytes_remove_files)
  obtain impl' w2 where seg2: "recover_segment (newest_snapshot w0 \<noteq> None) ?name base ?bytes (?impl, w1) = (Done EC_Ok, impl', w2)"
    and r: "im_recovery impl' = RV_TornTailRecovered" "holdings (im_state impl') = holdings s" "store_room m impl'" "im_config impl' = cfg"
      "im_base_sequence impl' = base" "im_journal impl' = Some ?name"
    and content2: "file_bytes ?name w2 = Some (repaired_bytes seg type n payload (length rest))"
    and others: "\<And>x. x \<noteq> ?name \<Longrightarrow> file_bytes x w2 = file_bytes x w1" and ex: "sr_exists w2 = sr_exists w1" "length (sr_files w2) = length (sr_files w1)"
    using recover_segment_torn [OF rs boot all seg n p short refl content1 rw room refl] by blast
  define w3 where "w3 = snd (remove_superseded (journal_sequences (names_of w0)) (snapshot_sequences (names_of w0)) (newest_snapshot w0) (impl', w2))"
  have "recover ((new_impl cfg)\<lparr>im_lock := True\<rparr>, w0) = (Done EC_Ok, impl', w3)"
    using recover_via_segment [OF start0 content0 rw small w1_def] seg2 by (simp add: w3_def remove_superseded_def)
  then have opened: "open_store cfg (w\<lparr>sr_locked := False\<rparr>) = (Done (Inr impl'), w3)"
    using open_via_recover [OF root, of EC_Ok] by (auto simp: w0_def)
  have w3: "w3 = remove_files (map snapshot_file_name (filter (\<lambda>n. \<not> (case newest_snapshot w0 of Some m \<Rightarrow> n \<ge> m | None \<Rightarrow> False))
        (snapshot_sequences (names_of w0))))
      (remove_files (map journal_file_name (filter (\<lambda>n. \<not> n \<ge> base) (journal_sequences (names_of w0)))) w2)"
    using rw by (simp add: w3_def remove_superseded_def r)
  have content3: "file_bytes ?name w3 = Some (repaired_bytes seg type n payload (length rest))"
    unfolding w3 journal_kept by (rule content2)
  have names12: "fst ` set (sr_files w2) = fst ` set (sr_files w1)"
    using others content1 content2 by (auto simp: set_eq_iff in_files) (metis option.distinct(1))+
  have names: "fst ` set (sr_files w3) \<subseteq> fst ` set (sr_files w0)"
    unfolding w3 remove_files_names names12 w1_def by blast
  have "base \<notin> set (filter (\<lambda>n. \<not> (case newest_snapshot w0 of Some m \<Rightarrow> n \<ge> m | None \<Rightarrow> False)) (snapshot_sequences (names_of w0)))"
    using start0 by (auto simp: starts_from_def newest_snapshot_code split: if_splits)
  then have "file_bytes (snapshot_file_name base) w3 = file_bytes (snapshot_file_name base) w0"
    unfolding w3 using others [of "snapshot_file_name base"] name_inj
    by (auto simp: file_bytes_remove_files w1_def)
  then have start3: "starts_from cfg w3 base s0"
    by (rule starts_from_cong [OF start0 names])
  have "file_bytes ''store.lock'' w3 = file_bytes ''store.lock'' w"
    using lock_name others [of "''store.lock''"] by (auto simp: w3 file_bytes_remove_files w1_def w0_def)
  moreover have "sr_exists w3 = sr_exists w"
    using ex(1) by (simp add: w3 w1_def w0_def)
  moreover have "length (sr_files w3) \<le> kMaxCollectionItems"
  proof -
    have "length (sr_files w3) \<le> length (sr_files w2)"
      unfolding w3 by (intro order_trans [OF remove_files_length] order_refl)
    also have "\<dots> \<le> length (sr_files w0)"
      unfolding ex(2) w1_def by (rule remove_files_length)
    finally show ?thesis
      using small by simp
  qed
  ultimately have "reachable_root cfg w3"
    using root by (simp add: reachable_root_def file_exists_def)
  then show ?thesis
    using opened r content3 start3 by blast
qed

section \<open>What is committed behind a repaired tail\<close>

fun commit_all :: "(RecordType \<times> u8 list) list \<Rightarrow> store \<Rightarrow> store option" where
  "commit_all [] st = Some st"
| "commit_all ((type, payload) # rs) st =
     (case store_append type payload st of (Done EC_Ok, st') \<Rightarrow> commit_all rs st' | _ \<Rightarrow> None)"

definition frames_length :: "(RecordType \<times> u8 list) list \<Rightarrow> nat" where
  "frames_length rs = (\<Sum>(type, payload) \<leftarrow> rs. 32 + length payload)"

text \<open>Committing only adds bytes to the active segment.\<close>

lemma commit_all_root:
  "commit_all later (impl, w) = Some (impl', w') \<Longrightarrow> im_journal impl = Some name \<Longrightarrow> file_bytes name w = Some bytes \<Longrightarrow>
   \<exists>added. file_bytes name w' = Some (bytes @ added) \<and> length added = frames_length later \<and>
     (\<forall>x. x \<noteq> name \<longrightarrow> file_bytes x w' = file_bytes x w) \<and> sr_exists w' = sr_exists w \<and> length (sr_files w') = length (sr_files w)"
proof (induction later arbitrary: impl w bytes)
  case Nil
  then show ?case
    by (simp add: frames_length_def)
next
  case (Cons r later)
  obtain "type" payload where r: "r = (type, payload)"
    by (cases r)
  obtain impl1 w1 where app: "store_append type payload (impl, w) = (Done EC_Ok, impl1, w1)" and rest: "commit_all later (impl1, w1) = Some (impl', w')"
    using Cons.prems(1) by (auto simp: r split: prod.splits outcome.splits error_code.splits)
  note app = store_append_Ok [OF app]
  obtain n where p: "length payload \<le> kMaxRecordPayload" and w1: "w1 = write_all_to name (frame_of type n payload) w"
    using append_batched_Ok [OF app] Cons.prems(2) by (metis option.inject)
  have name1: "im_journal impl1 = Some name"
    using append_batched_root [OF app] Cons.prems(2) by simp
  have bytes1: "file_bytes name w1 = Some (bytes @ frame_of type n payload)"
    using Cons.prems(3) by (simp add: w1)
  obtain added where "file_bytes name w' = Some ((bytes @ frame_of type n payload) @ added)" "length added = frames_length later"
    "\<forall>x. x \<noteq> name \<longrightarrow> file_bytes x w' = file_bytes x w1" "sr_exists w' = sr_exists w1" "length (sr_files w') = length (sr_files w1)"
    using Cons.IH [OF rest name1 bytes1] by blast
  moreover have "length (sr_files w1) = length (sr_files w)" "sr_exists w1 = sr_exists w"
    using write_all_to_names(2) [of name w] Cons.prems(3) by (simp_all add: w1) (simp add: write_all_to_def put_file_def)
  ultimately show ?case
    by (intro exI [of _ "frame_of type n payload @ added"]) (simp add: frames_length_def r length_frame [OF p] w1)
qed

lemma repair_room_le: "repair_room cfg base cnt len n s \<Longrightarrow> len' \<le> len \<Longrightarrow> repair_room cfg base cnt len' n s"
  by (auto simp: repair_room_def)

text \<open>
  C28. Records committed after the repair of a torn payload are lost. A healthy store is killed while a record is being
  written, when its header and part of the rest have reached the segment. The next open repairs the tail and restores what was
  committed. But the repair leaves the header of the torn record in the segment, and everything the store then appends with
  success is written behind it: as long as those records are together shorter than the payload that header announces, less 36
  bytes for the record of the repair itself, the open after the next kill takes them for that payload, repairs
  the tail again and restores only what was committed before the first kill (counters and journal position apart). The
  hypotheses say that no counter is at its limit and that retention is not due.
\<close>

theorem repaired_tail_swallows_commits:
  assumes h: "healthy cfg s0 rs (impl, w)" and all: "apply_all cfg rs s0 = Inr s"
    and p: "length payload \<le> kMaxRecordPayload" and k: "28 \<le> k" "k < length payload + 32"
    and room: "repair_room cfg (im_base_sequence impl) (length rs)
      (length (the (file_bytes (im_journal_name impl) w)) + 32 + kMaxRecordPayload) 1 s"
    and torn: "wt = write_all_to (im_journal_name impl) (take k (frame_of type (ds_journal_sequence (im_state impl) + 1) payload)) w"
  shows "\<exists>impl1 w1. open_store cfg (wt\<lparr>sr_locked := False\<rparr>) = (Done (Inr impl1), w1) \<and>
    im_recovery impl1 = RV_TornTailRecovered \<and> holdings (im_state impl1) = holdings (im_state impl) \<and>
    (\<forall>later impl2 w2. commit_all later (impl1, w1) = Some (impl2, w2) \<longrightarrow> 36 + frames_length later < length payload \<longrightarrow>
       (\<exists>impl3 w3. open_store cfg (w2\<lparr>sr_locked := False\<rparr>) = (Done (Inr impl3), w3) \<and>
          im_recovery impl3 = RV_TornTailRecovered \<and> holdings (im_state impl3) = holdings (im_state impl)))"
proof -
  define base where "base = im_base_sequence impl"
  define n where "n = base + 1 + of_nat (length rs)"
  let ?name = "journal_file_name base"
  let ?f = "frame_of type n payload"
  have cfg: "im_config impl = cfg" and sync: "in_sync s0 rs (impl, w)" and start: "starts_from cfg w base s0" and root: "reachable_root cfg w"
    using h by (simp_all add: healthy_def base_def)
  obtain boot where content: "file_bytes ?name w = Some (segment_bytes boot base rs)" and boot: "valid_id boot" and rs: "fits_journal rs"
    and jn: "im_journal_name impl = ?name" "ds_journal_sequence (im_state impl) + 1 = n" and same: "same_commitments s (im_state impl)"
    using sync cfg all by (auto simp: in_sync_def base_def n_def ac_simps)
  define seg where "seg = segment_bytes boot base rs"
  define rest where "rest = take (k - 28) (drop 28 ?f)"
  have head: "length (take 28 ?f) = 28"
    by (simp add: length_frame [OF p])
  have frag: "take k ?f = take 28 ?f @ rest"
    using k(1) take_add [of 28 "k - 28" ?f] by (simp add: rest_def)
  have short: "length rest < length payload + 4"
    using k by (simp add: rest_def length_frame [OF p])
  have wt: "wt = write_all_to ?name (take 28 ?f @ rest) w"
    by (simp add: torn jn frag)
  have content_t: "file_bytes ?name wt = Some (seg @ take 28 ?f @ rest)"
    using content by (simp add: wt seg_def)
  have root_t: "reachable_root cfg wt \<and> starts_from cfg wt base s0"
  proof (rule grown_root [OF root start])
    show "length (sr_files wt) = length (sr_files w)" "sr_exists wt = sr_exists w"
      using write_all_to_names(2) [of ?name w] content by (simp_all add: wt) (simp add: write_all_to_def put_file_def)
  qed (use content in \<open>simp_all add: wt\<close>)
  have len: "length (the (file_bytes (im_journal_name impl) w)) = length seg"
    using content by (simp add: jn seg_def)
  have room': "repair_room cfg base (length rs) (length (seg @ take 28 ?f @ tail)) (Suc 0) s" if "length tail < length payload + 4" for tail
    by (rule repair_room_le [OF room [folded base_def, unfolded len One_nat_def]]) (use that p head in simp)
  have held: "holdings (im_state impl) = holdings s"
    by (rule same_commitments_holdings [OF same])
  obtain impl1 w1 where o1: "open_store cfg (wt\<lparr>sr_locked := False\<rparr>) = (Done (Inr impl1), w1)" "im_recovery impl1 = RV_TornTailRecovered"
      "holdings (im_state impl1) = holdings s" "im_journal impl1 = Some ?name"
      "file_bytes ?name w1 = Some (repaired_bytes seg type n payload (length rest))" "reachable_root cfg w1" "starts_from cfg w1 base s0"
    using open_torn [OF root_t [THEN conjunct1] root_t [THEN conjunct2] rs boot all seg_def n_def p short content_t room' [OF short]] by blast
  have "\<exists>impl3 w3. open_store cfg (w2\<lparr>sr_locked := False\<rparr>) = (Done (Inr impl3), w3) \<and> im_recovery impl3 = RV_TornTailRecovered \<and>
      holdings (im_state impl3) = holdings s"
    if later: "commit_all later (impl1, w1) = Some (impl2, w2)" "36 + frames_length later < length payload" for later impl2 w2
  proof -
    let ?t = "frame_of RT_TornTailObserved n (torn_tail_bytes (length rest))"
    obtain added where a: "file_bytes ?name w2 = Some (repaired_bytes seg type n payload (length rest) @ added)" "length added = frames_length later"
      "\<forall>x. x \<noteq> ?name \<longrightarrow> file_bytes x w2 = file_bytes x w1" "sr_exists w2 = sr_exists w1" "length (sr_files w2) = length (sr_files w1)"
      using commit_all_root [OF later(1) o1(4,5)] by blast
    have root2: "reachable_root cfg w2 \<and> starts_from cfg w2 base s0"
      by (rule grown_root [OF o1(6,7)]) (use a o1(5) in simp_all)
    have "length (torn_tail_bytes (length rest)) \<le> kMaxRecordPayload"
      by (simp add: torn_record kMaxRecordPayload_def)
    then have short2: "length (?t @ added) < length payload + 4"
      using later(2) a(2) by (simp add: length_frame torn_record)
    have content2: "file_bytes ?name w2 = Some (seg @ take 28 ?f @ (?t @ added))"
      using a(1) by (simp add: repaired_bytes_def)
    show ?thesis
      using open_torn [OF root2 [THEN conjunct1] root2 [THEN conjunct2] rs boot all seg_def n_def p short2 content2 room' [OF short2]] by blast
  qed
  then show ?thesis
    using o1(1-3) held by (intro exI [of _ impl1] exI [of _ w1]) simp
qed

text \<open>
  A registration cut short after twelve bytes of its payload; the term advanced after the restart is gone after the next.
\<close>

definition long_payload :: "u8 list" where
  "long_payload = replicate 100 0"

definition torn_root :: StoreRoot where
  "torn_root = write_all_to (journal_file_name 0) (take 40 (frame_of RT_ContractRegistered 1 long_payload)) (snd first_store)"

lemma holdings_fabric: "holdings s = holdings t \<Longrightarrow> ds_fabric_generation s = ds_fabric_generation t"
proof -
  have "ds_fabric_generation (holdings x) = ds_fabric_generation x" for x
    by (simp add: holdings_def)
  then show "holdings s = holdings t \<Longrightarrow> ds_fabric_generation s = ds_fabric_generation t"
    by metis
qed

lemma first_store_segment:
  obtains boot where "valid_id boot" "file_bytes (journal_file_name 0) (snd first_store) = Some (segment_bytes boot 0 [])"
    "im_journal_name (fst first_store) = journal_file_name 0"
    "reachable_root small_store (snd first_store)" "starts_from small_store (snd first_store) 0 new_state"
proof -
  have h: "healthy small_store new_state [] (fst first_store, snd first_store)"
    using first_store_healthy by simp
  have "im_journal_name (fst first_store) = journal_file_name 0"
    "\<exists>boot. valid_id boot \<and> file_bytes (im_journal_name (fst first_store)) (snd first_store) = Some (segment_bytes boot 0 [])"
    using h unfolding healthy_def in_sync_def prod.case first_store_state by metis+
  moreover have "reachable_root small_store (snd first_store)" "starts_from small_store (snd first_store) 0 new_state"
    using h unfolding healthy_def prod.case first_store_state by simp_all
  ultimately show thesis
    using that by metis
qed

lemma long_payload_fits: "length long_payload = 100" "length long_payload \<le> kMaxRecordPayload"
  by (simp_all add: long_payload_def kMaxRecordPayload_def)

lemma fresh_repair_room: "len \<le> 2 * kMaxRecordPayload \<Longrightarrow> m \<le> 2 \<Longrightarrow> repair_room small_store 0 0 len m new_state"
  by (simp add: repair_room_def small_store_def new_state_def no_counters_def kMaxRecordPayload_def retention_due_def size_mul_def
      new_evidence_vector_def)

text \<open>After the repair the store goes on as if nothing had happened: it commits a record.\<close>

lemma torn_root_goes_on:
  assumes "open_store small_store (torn_root\<lparr>sr_locked := False\<rparr>) = (Done (Inr impl1), w1)"
  shows "\<exists>impl2 w2. store_append RT_FabricGenerationAdvanced term_payload (impl1, w1) = (Done EC_Ok, impl2, w2) \<and>
    ds_fabric_generation (im_state impl2) = 1"
proof -
  let ?f = "frame_of RT_ContractRegistered 1 long_payload"
  obtain boot where boot: "valid_id boot" and content: "file_bytes (journal_file_name 0) (snd first_store) = Some (segment_bytes boot 0 [])"
    and root: "reachable_root small_store (snd first_store)" "starts_from small_store (snd first_store) 0 new_state"
    by (rule first_store_segment)
  have frag: "take 40 ?f = take 28 ?f @ take 12 (drop 28 ?f)"
    using take_add [of 28 12 ?f] by simp
  have content_t: "file_bytes (journal_file_name 0) torn_root = Some (segment_bytes boot 0 [] @ take 28 ?f @ take 12 (drop 28 ?f))"
    using content by (simp add: torn_root_def frag)
  have root_t: "reachable_root small_store torn_root \<and> starts_from small_store torn_root 0 new_state"
  proof (rule grown_root [OF root])
    show "length (sr_files torn_root) = length (sr_files (snd first_store))" "sr_exists torn_root = sr_exists (snd first_store)"
      using write_all_to_names(2) [of "journal_file_name 0" "snd first_store"] content
      by (simp_all add: torn_root_def) (simp add: write_all_to_def put_file_def)
  qed (use content in \<open>simp_all add: torn_root_def\<close>)
  have room: "repair_room small_store 0 (length ([] :: (RecordType \<times> u8 list) list))
      (length (segment_bytes boot 0 [] @ take 28 ?f @ take 12 (drop 28 ?f))) (Suc 1) new_state"
    using fresh_repair_room by (simp add: segment_bytes_def kMaxRecordPayload_def)
  have fits: "fits_journal []" and all: "apply_all small_store [] new_state = Inr new_state"
    and n: "1 = 0 + 1 + of_nat (length ([] :: (RecordType \<times> u8 list) list))"
    and short: "length (take 12 (drop 28 ?f)) < length long_payload + 4"
    by (simp_all add: fits_journal_def long_payload_fits)
  obtain impl' w' where o: "open_store small_store (torn_root\<lparr>sr_locked := False\<rparr>) = (Done (Inr impl'), w')"
    and held: "holdings (im_state impl') = holdings new_state" and sr: "store_room 1 impl'" and cfg: "im_config impl' = small_store"
    using open_torn [OF root_t [THEN conjunct1] root_t [THEN conjunct2] fits boot all refl n long_payload_fits(2) short content_t room] by blast
  have impl1: "impl1 = impl'" "w1 = w'"
    using assms o by simp_all
  let ?s = "(im_state impl')\<lparr>ds_fabric_generation := 1\<rparr>"
  have dec: "decode_payload RT_FabricGenerationAdvanced term_payload = Inr (new_payload\<lparr>rp_sequence := 1\<rparr>)"
    by (simp add: decode_payload_def payload_sequence_def reading term_payload_def le_value_def decode_finish_def ByteReader_at_end_def)
  have app: "apply_record RT_FabricGenerationAdvanced (new_payload\<lparr>rp_sequence := 1\<rparr>) (im_config impl') (im_state impl') = (EC_Ok, ?s)"
    by (simp add: new_payload_def)
  have "\<not> retention_due small_store new_state"
    using fresh_repair_room [of 0 1] by (simp add: repair_room_def)
  then have due: "\<not> retention_due (im_config impl') ?s"
    using retention_of_holdings [OF held, of small_store] by (simp add: retention_due_def cfg)
  have len: "length term_payload \<le> kMaxRecordPayload"
    by (simp add: term_payload_def kMaxRecordPayload_def)
  obtain impl2 w2 where app: "append_batched RT_FabricGenerationAdvanced term_payload (impl', w') = (EC_Ok, impl2, w2)"
    and r: "store_room 0 impl2" "same_commitments ?s (im_state impl2)"
    using append_batched_delivers [OF sr [unfolded One_nat_def] len dec _ app due, of w'] by blast
  have "store_append RT_FabricGenerationAdvanced term_payload (impl', w') = (Done EC_Ok, impl2, w2)"
    using app sr r(1) by (auto simp: store_append_def Let_def crash_at_def store_room_def store_flush_def)
  moreover have "ds_fabric_generation (im_state impl2) = 1"
    using holdings_fabric [OF same_commitments_holdings [OF r(2)]] by simp
  ultimately show ?thesis
    unfolding impl1 by blast
qed

theorem repaired_tail_swallows_commits_witness:
  "\<exists>impl1 w1 impl2 w2 impl3 w3. open_store small_store (torn_root\<lparr>sr_locked := False\<rparr>) = (Done (Inr impl1), w1) \<and>
    store_append RT_FabricGenerationAdvanced term_payload (impl1, w1) = (Done EC_Ok, impl2, w2) \<and> ds_fabric_generation (im_state impl2) = 1 \<and>
    open_store small_store (w2\<lparr>sr_locked := False\<rparr>) = (Done (Inr impl3), w3) \<and> ds_fabric_generation (im_state impl3) = 0"
proof -
  obtain impl w where st: "first_store = (impl, w)"
    by (cases first_store)
  obtain boot where content: "file_bytes (journal_file_name 0) w = Some (segment_bytes boot 0 [])" and name: "im_journal_name impl = journal_file_name 0"
    by (rule first_store_segment) (simp add: st)
  have h: "healthy small_store new_state [] (impl, w)"
    using first_store_healthy by (simp add: st)
  have torn: "torn_root = write_all_to (im_journal_name impl)
      (take 40 (frame_of RT_ContractRegistered (ds_journal_sequence (im_state impl) + 1) long_payload)) w"
    using first_store_state(1) name by (simp add: torn_root_def st new_state_def)
  have room: "repair_room small_store (im_base_sequence impl) (length ([] :: (RecordType \<times> u8 list) list))
      (length (the (file_bytes (im_journal_name impl) w)) + 32 + kMaxRecordPayload) 1 new_state"
    using content name first_store_state(7) fresh_repair_room by (simp add: st segment_bytes_def kMaxRecordPayload_def)
  obtain impl1 w1 where o1: "open_store small_store (torn_root\<lparr>sr_locked := False\<rparr>) = (Done (Inr impl1), w1)"
    and later: "\<And>later impl2 w2. commit_all later (impl1, w1) = Some (impl2, w2) \<Longrightarrow> 36 + frames_length later < length long_payload \<Longrightarrow>
       \<exists>impl3 w3. open_store small_store (w2\<lparr>sr_locked := False\<rparr>) = (Done (Inr impl3), w3) \<and> holdings (im_state impl3) = holdings (im_state impl)"
    using repaired_tail_swallows_commits [OF h _ long_payload_fits(2) _ _ room torn] long_payload_fits(1) by (auto simp: fits_journal_def) metis
  obtain impl2 w2 where app: "store_append RT_FabricGenerationAdvanced term_payload (impl1, w1) = (Done EC_Ok, impl2, w2)"
    and new: "ds_fabric_generation (im_state impl2) = 1"
    using torn_root_goes_on [OF o1] by blast
  have "36 + frames_length [(RT_FabricGenerationAdvanced, term_payload)] < length long_payload"
    by (simp add: frames_length_def term_payload_def long_payload_fits)
  then obtain impl3 w3 where o3: "open_store small_store (w2\<lparr>sr_locked := False\<rparr>) = (Done (Inr impl3), w3)"
    "holdings (im_state impl3) = holdings (im_state impl)"
    using later [of "[(RT_FabricGenerationAdvanced, term_payload)]"] app by auto
  have "ds_fabric_generation (im_state impl3) = 0"
    using holdings_fabric [OF o3(2)] first_store_state(1) by (simp add: st new_state_def)
  then show ?thesis
    using o1 app new o3(1) by blast
qed

end
