(* ===== verification/Acquire_Run.thy ===== *)
theory Acquire_Run
  imports Store_Room
begin

text \<open>
  A coordinator that issues a grant: a registered contract, an installed policy and fresh evidence, taken through the
  evaluation, the journal record of the decision, the grant and its journal record.
\<close>

section \<open>A coordinator that can decide\<close>

definition run_evidence :: EvidenceVector where
  "run_evidence = sample_vector\<lparr>ev_limit := kMaxCollectionItems\<rparr>"

definition run_state :: DurableState where
  "run_state = new_state\<lparr>ds_contracts := [rigid_contract], ds_policy := calm_policy, ds_boot := 1, ds_term := 1,
     ds_fabric_generation := 1, ds_capacity_generation := 3, ds_evidence_generation := 1\<rparr>"

definition run_coordinator :: Coordinator where
  "run_coordinator =
     (initial_coordinator sample_config ((fst first_store)\<lparr>im_state := run_state\<rparr>, snd first_store))
      \<lparr>co_policy_installed := True, co_evidence := \<lparr>es_live = run_evidence, es_publisher_incarnation = [1 \<mapsto> 1]\<rparr>,
       co_clock := 12, co_contract_index := [1 \<mapsto> 0], co_scope_index := [7 \<mapsto> [1]]\<rparr>"

definition run_context :: EvaluationContext where
  "run_context =
     \<lparr>ec_binding = \<lparr>ab_vector = sample_authority\<lparr>av_capacity := 3\<rparr>, ab_contract = 1, ab_contract_generation = 1,
        ab_subject = 1, ab_subject_generation = 1, ab_scope = 7\<rparr>,
      ec_now = 12, ec_decision_id = 1, ec_plan_id = 1, ec_provenance = PC_Synthetic\<rparr>"

definition run_request :: "EvidenceVector \<Rightarrow> AllocationRequest" where
  "run_request v = \<lparr>ar_scope = 7, ar_contracts = [rigid_contract], ar_capability = Some sample_capability,
     ar_evidence = Some v, ar_policy = Some calm_policy, ar_context = run_context\<rparr>"

definition run_entry :: "EvidenceVector \<Rightarrow> AllocationEntry" where
  "run_entry v = (scope_entry (run_request v) rigid_contract)\<lparr>ae_admitted := True, ae_full := True,
     ae_approved := [mk_guarantee GK_Bandwidth 50 True], ae_allocated_bandwidth_kbps := 50,
     ae_outcome := DO_Full, ae_reason := RC_OriginalObligationsSupportable\<rparr>"

definition run_plan :: "EvidenceVector \<Rightarrow> AllocationPlan" where
  "run_plan v = (base_plan (run_request v) sample_capability calm_policy)\<lparr>ap_status := PS_Optimal,
     ap_entries := [run_entry v], ap_allocated_bandwidth_kbps := 50,
     ap_work := \<lparr>aw_nodes_visited = 3, aw_nodes_pruned = 0, aw_budget = 50000, aw_budget_exhausted = False\<rparr>\<rparr>"

definition run_decision :: "EvidenceVector \<Rightarrow> Decision" where
  "run_decision v = \<lparr>de_id = 1, de_binding = ec_binding run_context, de_service_class = SC_Protected,
     de_protected_obligation = True, de_priority = 5, de_outcome = DO_Full, de_max_authority = AL_Recommended,
     de_original = sc_original rigid_contract, de_approved = sc_original rigid_contract, de_delta = empty_delta,
     de_primary_reason = RC_OriginalObligationsSupportable,
     de_reasons = [RC_OriginalObligationsSupportable, RC_HardwareNotExercised],
     de_support = [\<lparr>gs_kind = GK_Bandwidth, gs_support = ST_Supported, gs_reason = RC_None\<rparr>], de_evidence = v,
     de_evidence_state = ES_Known, de_plan_status = PS_Optimal, de_escalation_required = False,
     de_provenance = PC_Synthetic, de_decided_tick = 12, de_expires_tick = 1012\<rparr>"

lemma run_capability:
  "derive_capability (sample_vector\<lparr>ev_limit := n\<rparr>) 7 3 \<lparr>fw_now = 12, fw_budget_ticks = 100, fw_enforced = True\<rparr> = Inr sample_capability"
  by code_simp

lemma run_assessments:
  "assess_all (run_request v) sample_capability calm_policy [rigid_contract] = Inr ([], [sample_assessment rigid_contract])"
  by code_simp

lemma run_finish:
  "finish_plan (run_request v) sample_capability calm_policy (base_plan (run_request v) sample_capability calm_policy)
     [] [sample_assessment rigid_contract] = Inr (run_plan v)"
  by code_simp

lemma run_calm: "Policy_validate calm_policy = EC_Ok"
  by (simp add: calm_policy_def planning_policy_def empty_envelope_def sample_policy_def sample_rules_def empty_policy_def
      Policy_validate_def status_simps valid_id_def ClassProfile_validate_def
      env_invar_def bound_in_domain_def kMaxBandwidthKbps_def kMaxCollectionItems_def)

lemma run_allocation: "allocate_scope (run_request v) = Inr (run_plan v)"
proof -
  have "sort_by contract_id_less (ar_contracts (run_request v)) = [rigid_contract]"
    by code_simp
  moreover have "ar_capability (run_request v) = Some sample_capability" "ar_policy (run_request v) = Some calm_policy"
    "valid_id (ar_scope (run_request v))" "cs_scope sample_capability = ar_scope (run_request v)"
    "po_minimum_protected_served calm_policy = 0" "length (ar_contracts (run_request v)) = 1"
    by (simp_all add: run_request_def sample_capability_def valid_id_def calm_policy_def planning_policy_def sample_policy_def
        empty_policy_def)
  ultimately show ?thesis
    unfolding allocate_scope_def using run_calm
    by (simp add: Let_def run_assessments run_finish infeasibility_def del: assess_all.simps)
qed

lemma run_decision_valid: "Decision_validate (run_decision v) = EC_Ok"
  by code_simp

lemma run_parts:
  "ServiceContract_validate rigid_contract = EC_Ok" "AuthorityBinding_valid (ec_binding run_context)"
  "binding_matches (ec_binding run_context) rigid_contract sample_capability" "protected_obligation rigid_contract"
  "map (support_entry sample_capability) (sc_original rigid_contract) = de_support (run_decision v)"
  "decision_reasons RC_OriginalObligationsSupportable (de_support (run_decision v)) PS_Optimal sample_capability = de_reasons (run_decision v)"
  "decision_expiry True calm_policy 12 = 1012" "escalates DO_Full True PS_Optimal = False"
  "decision_authority DO_Full rigid_contract sample_capability = AL_Recommended"
  by code_simp+

lemma run_evaluation:
  "evaluate_contract \<lparr>er_contract = Some rigid_contract, er_capability = Some sample_capability,
     er_evidence = Some v, er_policy = Some calm_policy, er_context = run_context, er_allocation = Some (run_entry v),
     er_plan_status = PS_Optimal\<rparr> = run_decision v"
proof -
  have entry: "ae_approved (run_entry v) = sc_original rigid_contract" "ae_delta (run_entry v) = empty_delta"
    "ae_outcome (run_entry v) = DO_Full" "ae_reason (run_entry v) = RC_OriginalObligationsSupportable"
    by code_simp+
  have fields: "valid_id (ec_decision_id run_context)" "ec_decision_id run_context = 1" "ec_now run_context = 12" "ec_provenance run_context = PC_Synthetic"
    "sc_service_class rigid_contract = SC_Protected" "sc_priority rigid_contract = 5" "cs_state sample_capability = ES_Known"
    "is_authorising DO_Full"
    by code_simp+
  show ?thesis
    using run_parts run_decision_valid [of v] run_calm entry fields
    by (simp add: evaluate_contract_def allocation_for_def Let_def) (simp add: new_decision_def run_decision_def)
qed


section \<open>The run\<close>

lemma run_normal: "evidence_normal run_evidence" "length (ev_items run_evidence) = 7"
proof -
  have "list_all EvidenceItem_identified (ev_items sample_vector)" "list_all (\<lambda>i. EvidenceItem_validate i = EC_Ok) (ev_items sample_vector)"
    by code_simp+
  moreover have "key_sorted src (ev_items sample_vector)"
    by code_simp
  moreover show "length (ev_items run_evidence) = 7"
    by (simp add: run_evidence_def sample_vector_def)
  ultimately show "evidence_normal run_evidence"
    by (simp add: evidence_normal_def run_evidence_def kMaxEvidenceItems_def)
qed

definition run_grant :: Grant where
  "run_grant = grant_from_decision 1 1 rigid_contract (run_decision run_evidence) calm_policy 12"

lemma run_grant_sizes:
  "Grant_validate (grant_from_decision 1 1 rigid_contract (run_decision v) calm_policy 12) = EC_Ok"
  "list_all precondition_in_domain (make_preconditions rigid_contract calm_policy)"
  "length (make_preconditions rigid_contract calm_policy) = 8"
  "delta_in_domain empty_delta"
  by code_simp+

lemma run_grant_fields:
  "gr_delta run_grant = empty_delta" "gr_evidence run_grant = run_evidence"
  "gr_preconditions run_grant = make_preconditions rigid_contract calm_policy" "gr_state run_grant = GS_Issued" "gr_id run_grant = 1"
  "gr_original run_grant = sc_original rigid_contract" "gr_degraded run_grant = sc_original rigid_contract"
  by (simp_all add: run_grant_def grant_from_decision_def run_decision_def)

lemma run_codable: "decision_encodable (run_decision run_evidence)" "grant_encodable run_grant"
proof -
  have "Grant_validate run_grant = EC_Ok"
    using run_grant_sizes(1) by (simp add: run_grant_def)
  then show "grant_encodable run_grant"
    using run_grant_sizes(2-4) run_normal run_grant_fields(1-3) by (simp add: grant_encodable_def kMaxPreconditions_def)
  have "de_delta (run_decision run_evidence) = empty_delta" "length (de_reasons (run_decision run_evidence)) = 2"
    "length (de_support (run_decision run_evidence)) = 1" "de_evidence (run_decision run_evidence) = run_evidence"
    by (simp_all add: run_decision_def)
  then show "decision_encodable (run_decision run_evidence)"
    using run_decision_valid run_grant_sizes(4) run_normal(1)
    by (simp add: decision_encodable_def kMaxReasonsPerDecision_def kMaxSupportEntries_def)
qed

lemma run_lengths: "length (sc_original rigid_contract) = 1" "dl_concessions empty_delta = []" "dl_withdrawals empty_delta = []"
  by code_simp+

lemma run_bodies:
  "decode_payload RT_DecisionRecorded (encode_body encode_Decision (run_decision run_evidence)) =
     Inr (new_payload\<lparr>rp_decision := run_decision run_evidence\<rparr>)"
  "decode_payload RT_GrantIssued (encode_body encode_Grant run_grant) = Inr (new_payload\<lparr>rp_grant := run_grant\<rparr>)"
  "length (encode_body encode_Decision (run_decision run_evidence)) \<le> kMaxRecordPayload"
  "length (encode_body encode_Grant run_grant) \<le> kMaxRecordPayload"
proof -
  have d: "costs (encode_Decision (run_decision run_evidence)) 1000"
    by (rule costs_le [OF costs_Decision]) (simp add: run_decision_def run_lengths run_normal)
  have g: "costs (encode_Grant run_grant) 1000"
    by (rule costs_le [OF costs_Grant]) (simp add: run_grant_fields run_grant_sizes run_lengths run_normal)
  have small: "1000 \<le> kMaxDocumentBytes"
    by (simp add: kMaxDocumentBytes_def)
  note d = costs_writer [of encode_Decision, OF d small] and g = costs_writer [of encode_Grant, OF g small]
  show "length (encode_body encode_Decision (run_decision run_evidence)) \<le> kMaxRecordPayload"
    "length (encode_body encode_Grant run_grant) \<le> kMaxRecordPayload"
    using d(2) g(2) by (simp_all add: kMaxRecordPayload_def)
  obtain r where "decode_Decision (new_reader (encode_body encode_Decision (run_decision run_evidence)) kMaxBlobBytes) =
      (Inr (run_decision run_evidence), r)" "decode_finish r = EC_Ok"
    using decision_codec.round [OF run_codable(1)] d(1) unfolding round_trips_def encode_body_def by blast
  then show "decode_payload RT_DecisionRecorded (encode_body encode_Decision (run_decision run_evidence)) =
     Inr (new_payload\<lparr>rp_decision := run_decision run_evidence\<rparr>)"
    by (simp add: decode_payload_def dec_sub_def dec_return_def)
  obtain r where "decode_Grant (new_reader (encode_body encode_Grant run_grant) kMaxBlobBytes) = (Inr run_grant, r)" "decode_finish r = EC_Ok"
    using grant_codec.round [OF run_codable(2)] g(1) unfolding round_trips_def encode_body_def by blast
  then show "decode_payload RT_GrantIssued (encode_body encode_Grant run_grant) = Inr (new_payload\<lparr>rp_grant := run_grant\<rparr>)"
    by (simp add: decode_payload_def dec_sub_def dec_return_def)
qed

lemma run_coordinator_fields:
  "co_config run_coordinator = sample_config" "co_state run_coordinator = run_state"
  "find_contract run_coordinator 1 = Some rigid_contract" "co_policy_installed run_coordinator" "\<not> co_stopped run_coordinator"
  "co_decision_ids run_coordinator = 1" "co_plan_ids run_coordinator = 1" "co_grant_ids run_coordinator = 1"
  "co_attempt_ids run_coordinator = 1" "im_config (fst (co_store run_coordinator)) = small_store"
  "co_clock run_coordinator = 12" "contending run_coordinator rigid_contract = [rigid_contract]"
  "es_live (co_evidence run_coordinator) = run_evidence" "store_room 3 (fst (co_store run_coordinator))"
  "co_grants run_coordinator = GrantTable_rebuild [] (new_grant_table 4)"
proof -
  have scope: "sc_scope rigid_contract = 7"
    by (simp add: rigid_contract_def)
  show c: "co_config run_coordinator = sample_config" "co_state run_coordinator = run_state"
    "co_policy_installed run_coordinator" "\<not> co_stopped run_coordinator" 
    "co_attempt_ids run_coordinator = 1" "im_config (fst (co_store run_coordinator)) = small_store"
    "co_clock run_coordinator = 12" "es_live (co_evidence run_coordinator) = run_evidence"
    by (simp_all add: run_coordinator_def initial_coordinator_def Let_def first_store_state)
  show ids: "co_decision_ids run_coordinator = 1" "co_plan_ids run_coordinator = 1" "co_grant_ids run_coordinator = 1"
    "co_grants run_coordinator = GrantTable_rebuild [] (new_grant_table 4)"
    by (simp_all add: run_coordinator_def initial_coordinator_def Let_def run_state_def new_state_def IdAllocator_observe_def
        sample_config_def)
  show f: "find_contract run_coordinator 1 = Some rigid_contract"
    unfolding find_contract_def c(2) by (simp add: run_coordinator_def run_state_def)
  then show "contending run_coordinator rigid_contract = [rigid_contract]"
    by (simp add: contending_def scope run_coordinator_def [THEN arg_cong [of _ _ co_scope_index]] map_filter_simps)
  show "store_room 3 (fst (co_store run_coordinator))"
    by (simp add: store_room_def run_coordinator_def initial_coordinator_def Let_def first_store_state run_state_def new_state_def
        small_store_def no_counters_def kMaxRecordPayload_def)
qed

lemma run_decides:
  "\<exists>st. evaluate_locked 1 run_coordinator =
      (Done (Inr (run_decision run_evidence, run_plan run_evidence)),
       run_coordinator\<lparr>co_decision_ids := 2, co_plan_ids := 2, co_store := st\<rparr>) \<and>
    store_room 2 (fst st) \<and> im_config (fst st) = small_store \<and>
    same_commitments (snd (decision_record (run_decision run_evidence) run_state)) (im_state (fst st))"
proof -
  let ?d = "run_decision run_evidence"
  let ?c = "run_coordinator\<lparr>co_decision_ids := 2, co_plan_ids := 2\<rparr>"
  have cap: "scope_capability 7 True 12 run_coordinator = Inr sample_capability"
    using run_capability [of kMaxCollectionItems]
    by (simp add: scope_capability_def EvidenceStore_capability_def freshness_for_def run_coordinator_fields run_evidence_def
        run_state_def calm_policy_def planning_policy_def sample_policy_def empty_policy_def)
  have scope: "sc_scope rigid_contract = 7" "sc_id rigid_contract = 1"
    by (simp_all add: rigid_contract_def sample_contract_def)
  have ids: "IdAllocator_allocate 1 = (Some 1, 2)" "IdAllocator_observe 2 1 = 2"
    by code_simp+
  have ctx: "evaluation_context run_coordinator rigid_contract 1 1 = run_context"
    by (simp add: evaluation_context_def run_context_def run_coordinator_fields current_authority_def run_state_def sample_authority_def
        rigid_contract_def sample_contract_def calm_policy_def planning_policy_def sample_policy_def empty_policy_def
        sample_config_def provenance_of_def)
  have req: "allocation_request run_coordinator rigid_contract sample_capability run_context = run_request run_evidence"
    by (simp add: allocation_request_def run_request_def run_coordinator_fields scope run_state_def)
  have entry: "AllocationPlan_find (run_plan v) 1 = Some (run_entry v)" "ap_status (run_plan v) = PS_Optimal" for v
    by code_simp+
  have d: "evaluate_contract (evaluation_request run_coordinator rigid_contract sample_capability run_context (run_entry run_evidence)
      PS_Optimal) = ?d"
    using run_evaluation [of run_evidence] by (simp add: evaluation_request_def run_coordinator_fields run_state_def)
  have "apply_record RT_DecisionRecorded (new_payload\<lparr>rp_decision := ?d\<rparr>) small_store run_state =
      (EC_Ok, snd (decision_record ?d run_state))"
    by (simp add: decision_record_def acct_def record_decision_def run_decision_def run_state_def new_state_def bump_def
        no_counters_def checked_add_def status_then_def new_payload_def)
  moreover have "\<not> retention_due small_store (snd (decision_record ?d run_state))"
    by (simp add: decision_record_def acct_def record_decision_def run_decision_def run_state_def new_state_def bump_def
        no_counters_def checked_add_def status_then_def retention_due_def small_store_def size_mul_def new_evidence_vector_def)
  ultimately obtain st where st: "append_record RT_DecisionRecorded (encode_body encode_Decision ?d) ?c = (Done (Inr ()), ?c\<lparr>co_store := st\<rparr>)"
    "store_room 2 (fst st)" "im_config (fst st) = small_store"
    "same_commitments (snd (decision_record ?d run_state)) (im_state (fst st))"
    using append_record_delivers [of 2 ?c "encode_body encode_Decision ?d" RT_DecisionRecorded "new_payload\<lparr>rp_decision := ?d\<rparr>"
      "snd (decision_record ?d run_state)"] run_bodies(1,3) run_coordinator_fields
    by (auto simp: numeral_3_eq_3 numeral_2_eq_2)
  have "evaluate_locked 1 run_coordinator = (Done (Inr (?d, run_plan run_evidence)), ?c\<lparr>co_store := st\<rparr>)"
    using st(1) cap ids ctx req entry d run_allocation [of run_evidence] run_decision_valid [of run_evidence]
    by (simp add: evaluate_locked_def co_read_def run_coordinator_fields co_require_def co_bind_def co_attempt_def co_lift_def
        co_return_def scope allocate_id_def Let_def co_modify_def co_then_def comp_def)
  then show ?thesis
    using st by blast
qed

lemma run_acquires:
  "\<exists>c. acquire_locked 1 12 run_coordinator = (Done (Inr run_grant), c) \<and> store_room 1 (fst (co_store c)) \<and>
     im_config (fst (co_store c)) = small_store \<and> co_attempt_ids c = 2 \<and> ds_grants (co_state c) = [run_grant] \<and>
     in_step (co_grants c) [run_grant] \<and> quiet small_store 0 (co_state c) \<and> ac_grants_acknowledged (ds_counters (co_state c)) = 0"
proof -
  let ?s = "snd (decision_record (run_decision run_evidence) run_state)"
  obtain st where st: "evaluate_locked 1 run_coordinator =
      (Done (Inr (run_decision run_evidence, run_plan run_evidence)),
       run_coordinator\<lparr>co_decision_ids := 2, co_plan_ids := 2, co_store := st\<rparr>)"
    "store_room 2 (fst st)" "im_config (fst st) = small_store" "same_commitments ?s (im_state (fst st))"
    using run_decides by blast
  let ?c = "run_coordinator\<lparr>co_decision_ids := 2, co_plan_ids := 2, co_store := st, co_grant_ids := 2, co_attempt_ids := 2\<rparr>"
  let ?t = "snd (apply_record RT_GrantIssued (new_payload\<lparr>rp_grant := run_grant\<rparr>) small_store ?s)"
  have before: "ds_grants ?s = []" "ds_policy ?s = calm_policy" "fst (apply_record RT_GrantIssued (new_payload\<lparr>rp_grant := run_grant\<rparr>) small_store ?s) = EC_Ok"
    "quiet small_store 0 ?t" "ds_grants ?t = [run_grant]" "ac_grants_acknowledged (ds_counters ?t) = 0"
    by (simp_all add: decision_record_def acct_def record_decision_def run_decision_def run_state_def new_state_def bump_def
        no_counters_def checked_add_def status_then_def new_payload_def issue_record_def live_grant_count_def small_store_def
        record_grant_issued_def quiet_def size_mul_def new_evidence_vector_def)
  obtain v where v: "im_state (fst st) = dress v ?s"
    using st(4) by (auto simp: same_commitments_def)
  have issued: "apply_record RT_GrantIssued (new_payload\<lparr>rp_grant := run_grant\<rparr>) small_store (im_state (fst st)) = (EC_Ok, dress v ?t)"
    using view_blindD [OF apply_record_blind [of RT_GrantIssued "new_payload\<lparr>rp_grant := run_grant\<rparr>" small_store]] before(3)
    unfolding v by (simp add: prod_eq_iff)
  have "\<not> retention_due small_store (dress v ?t)"
    using quiet_not_due [OF before(4)] by (simp add: retention_due_def)
  then obtain st' where st': "append_record RT_GrantIssued (encode_body encode_Grant run_grant) ?c = (Done (Inr ()), ?c\<lparr>co_store := st'\<rparr>)"
    "store_room 1 (fst st')" "same_commitments (dress v ?t) (im_state (fst st'))" "im_config (fst st') = small_store"
    using append_record_delivers [of 1 ?c "encode_body encode_Grant run_grant" RT_GrantIssued "new_payload\<lparr>rp_grant := run_grant\<rparr>" "dress v ?t"]
      run_bodies(2,4) st(2,3) issued by (auto simp: numeral_2_eq_2)
  have noted: "fst (note_insert run_grant (GrantTable_rebuild [] (new_grant_table 4))) = EC_Ok"
    "in_step (snd (note_insert run_grant (GrantTable_rebuild [] (new_grant_table 4)))) [run_grant]"
    by (simp_all add: note_insert_def GrantTable_rebuild_def new_grant_table_def in_step_def emplace_def run_grant_fields Grant_live_def
        grant_state_live_def grant_state_terminal_def)
  have ids: "IdAllocator_allocate 1 = (Some 1, 2)" "IdAllocator_observe 2 1 = 2"
    by code_simp+
  have room: "live_count (GrantTable_rebuild [] (new_grant_table 4)) < cc_max_live_grants sample_config"
    by (simp add: live_count_def GrantTable_rebuild_def new_grant_table_def sample_config_def)
  have "is_authorising (de_outcome (run_decision run_evidence))" "Grant_validate run_grant = EC_Ok"
    using run_codable(2) by (simp_all add: run_decision_def is_authorising_def grant_encodable_def)
  then have acq: "acquire_locked 1 12 run_coordinator = (Done (Inr run_grant),
      co_attempt_ids_update (\<lambda>n. IdAllocator_observe n 1) (co_state_update (raise_grant_high_water 1)
        (?c\<lparr>co_store := st', co_grants := snd (note_insert run_grant (GrantTable_rebuild [] (new_grant_table 4)))\<rparr>)))"
    using st(1) st'(1) noted(1) ids room before(2) v
    by (auto simp: acquire_locked_def co_read_def run_coordinator_fields co_require_def co_bind_def co_attempt_def co_lift_def
        co_return_def allocate_id_def Let_def co_modify_def co_then_def comp_def run_grant_def [symmetric] of_status_def
        note_grants_def split: prod.split)
  obtain w where w: "im_state (fst st') = dress w ?t"
    using st'(3) by (auto simp: same_commitments_def)
  let ?raised = "raise_grant_high_water 1 (im_state (fst st'))"
  have "store_room 1 ((fst st')\<lparr>im_state := ?raised\<rparr>)"
    using st'(2) by (simp add: store_room_def raise_grant_high_water_def)
  moreover have "ds_grants ?raised = [run_grant]" "quiet small_store 0 ?raised" "ac_grants_acknowledged (ds_counters ?raised) = 0"
    using before(4-6) unfolding w by (simp_all add: raise_grant_high_water_def dress_def dress_counters_def quiet_def)
  ultimately show ?thesis
    using st'(4) noted(2) ids(2) acq by (auto simp: co_state_update_def split: prod.split)
qed

text \<open>The grant is acknowledged once with the attempt identity it was issued with.\<close>

lemma run_acknowledges:
  assumes "store_room 1 (fst (co_store c))" and "im_config (fst (co_store c)) = small_store" and "co_attempt_ids c = 2"
    and "ds_grants (co_state c) = [run_grant]" and "in_step (co_grants c) [run_grant]" and "quiet small_store 0 (co_state c)"
    and "ac_grants_acknowledged (ds_counters (co_state c)) = 0"
  shows "\<exists>g c'. acknowledge_locked 1 1 20 c = (Done (Inr g), c') \<and> \<not> expired_at g 21"
proof -
  let ?p = "new_payload\<lparr>rp_id := 1, rp_tick := 20, rp_attempt := 2, rp_sequence := 2\<rparr>"
  let ?f = "moved_grant GS_Acknowledged 20 2 2"
  let ?c = "c\<lparr>co_attempt_ids := 3\<rparr>"
  have g: "Grant_live run_grant" "\<not> expired_at run_grant 20" "\<not> expired_at (?f run_grant) 21" "gr_last_attempt run_grant = 1"
    "grant_transition_allowed (gr_state run_grant) GS_Acknowledged" "StrongUInt_next (gr_sequence run_grant) = Some 2"
    "gr_id (?f run_grant) = 1" "gr_id run_grant = 1"
    by (simp_all add: run_grant_def grant_from_decision_def run_decision_def Grant_live_def grant_state_live_def
        grant_state_terminal_def expired_at_def moved_grant_def Let_def grant_transition_allowed_def StrongUInt_next_def checked_add_def)
  let ?s = "snd (apply_record RT_GrantAcknowledged ?p small_store (co_state c))"
  have s: "apply_record RT_GrantAcknowledged ?p small_store (co_state c) = (EC_Ok, ?s)" "ds_grants ?s = [?f run_grant]"
    "\<not> retention_due small_store ?s"
    using assms(4,6,7) g
    by (simp_all add: new_payload_def status_then_def transition_grant_def find_grant_def assign_grant_def acct_def
        record_grant_acknowledged_def bump_def checked_add_def quiet_def retention_due_def)
  have "length (move_bytes 1 20 2 2) \<le> kMaxRecordPayload"
    by (simp add: move_bytes_def ByteWriter_u64_def ByteWriter_raw_def ByteWriter_ensure_def new_writer_def Let_def kMaxRecordPayload_def)
  then obtain st where st: "append_record RT_GrantAcknowledged (move_bytes 1 20 2 2) ?c = (Done (Inr ()), ?c\<lparr>co_store := st\<rparr>)"
    "same_commitments ?s (im_state (fst st))"
    using append_record_delivers [of 0 ?c "move_bytes 1 20 2 2" RT_GrantAcknowledged ?p ?s] s assms(1,2) move_bytes_decoded
    by auto
  have after: "ds_grants (im_state (fst st)) = [?f run_grant]"
    using st(2) s(2) by (auto simp: same_commitments_def dress_def)
  obtain t where t: "note_transition 1 (gr_state run_grant) GS_Acknowledged (co_grants c) = (EC_Ok, t)" "in_step t [?f run_grant]"
    using transition_in_step [OF assms(5) _ g(5), of ?f] g(8)
    by (cases "note_transition 1 (gr_state run_grant) GS_Acknowledged (co_grants c)") (auto simp: move_grant_def moved_grant_def Let_def)
  have found: "GrantTable_find (co_grants c) [run_grant] 1 = Some run_grant" "GrantTable_find t [?f run_grant] 1 = Some (?f run_grant)"
    using find_in_step [OF assms(5)] find_in_step [OF t(2)] g(7,8) by (simp_all add: find_by_id_def)
  have ids: "IdAllocator_allocate 2 = (Some 2, 3)" "valid_id 1"
    by code_simp+
  have "\<exists>c'. acknowledge_locked 1 1 20 c = (Done (Inr (?f run_grant)), c')"
    using st(1) t(1) found g(1-6) ids assms(3,4) after
    by (auto simp: acknowledge_locked_def advance_grant_def co_read_def co_require_def co_bind_def co_attempt_def co_lift_def
        co_return_def allocate_id_def Let_def co_modify_def co_then_def comp_def of_status_def note_grants_def split: prod.split)
  then show ?thesis
    using g(3) by blast
qed

theorem acquire_is_backed_witness:
  "\<exists>c d plan c0. acquire_locked 1 12 run_coordinator = (Done (Inr run_grant), c) \<and>
     evaluate_locked 1 run_coordinator = (Done (Inr (d, plan)), c0) \<and> is_authorising (de_outcome d) \<and>
     gr_degraded run_grant = de_approved d"
proof -
  obtain c where "acquire_locked 1 12 run_coordinator = (Done (Inr run_grant), c)"
    using run_acquires by blast
  then show ?thesis
    using acquire_is_backed [where contract = 1 and now = 12 and c = run_coordinator] by auto
qed

text \<open>
  The grant that was just issued is acknowledged with the attempt identity it came with; neither a second acknowledgement nor a
  report with that identity gets through.
\<close>

theorem attempt_is_spent_witness:
  "\<exists>c g c'. acquire_locked 1 12 run_coordinator = (Done (Inr run_grant), c) \<and> gr_last_attempt run_grant = 1 \<and>
     acknowledge_locked 1 1 20 c = (Done (Inr g), c') \<and> gr_state g = GS_Acknowledged \<and>
     acknowledge_locked 1 1 21 c' = (Done (Inl EC_ReplayDetected), c') \<and>
     report_applied_locked 1 1 21 c' = (Done (Inl EC_ReplayDetected), c')"
proof -
  obtain c where c: "acquire_locked 1 12 run_coordinator = (Done (Inr run_grant), c)" "store_room 1 (fst (co_store c))"
     "im_config (fst (co_store c)) = small_store" "co_attempt_ids c = 2" "ds_grants (co_state c) = [run_grant]"
     "in_step (co_grants c) [run_grant]" "quiet small_store 0 (co_state c)" "ac_grants_acknowledged (ds_counters (co_state c)) = 0"
    using run_acquires by blast
  obtain g c' where g: "acknowledge_locked 1 1 20 c = (Done (Inr g), c')" "\<not> expired_at g 21"
    using run_acknowledges [OF c(2-8)] by blast
  have "progress GS_Acknowledged RT_GrantAcknowledged" "gr_last_attempt run_grant = 1"
    by (simp_all add: progress_def run_grant_def grant_from_decision_def)
  with g c show ?thesis
    using attempt_is_spent [of GS_Acknowledged RT_GrantAcknowledged c 1 1 21 GS_Acknowledged RT_GrantAcknowledged 20]
      attempt_is_spent [of GS_Acknowledged RT_GrantAcknowledged c 1 1 21 GS_Applied RT_GrantApplied 20]
    by (auto simp: acknowledge_locked_def report_applied_locked_def)
qed

end
