(* ===== verification/Restart.thy ===== *)
theory Restart
  imports Store_Room
begin

text \<open>
  A restart gets through: with room in the store and in the counters every record of the boot sequence is accepted, so the
  authority of the previous incarnation is ended and not merely refused.
\<close>

section \<open>The records of the boot sequence\<close>

definition fence_room :: "nat \<Rightarrow> DurableState \<Rightarrow> bool" where
  "fence_room n s \<longleftrightarrow> unat (ac_fences_total (ds_counters s)) + n < 2 ^ 64 \<and> unat (ac_grants_fenced (ds_counters s)) + n < 2 ^ 64"

lemma fence_room_same: "same_commitments s t \<Longrightarrow> fence_room n t = fence_room n s"
  by (auto simp: same_commitments_def fence_room_def dress_def dress_counters_def)

definition boot_room :: "nat \<Rightarrow> DurableState \<Rightarrow> bool" where
  "boot_room n s \<longleftrightarrow>
     unat (ds_boot s) + 1 < 2 ^ 64 \<and> unat (ds_term s) + 1 < 2 ^ 64 \<and> unat (ds_boot_count s) + 1 < 2 ^ 64 \<and>
     unat (ac_boots (ds_counters s)) + 1 < 2 ^ 64 \<and> unat (ac_term_advances (ds_counters s)) + 1 < 2 ^ 64 \<and> fence_room n s"

lemma bump_delivers:
  assumes "unat (get (ds_counters s)) + 1 < 2 ^ 64"
  shows "\<exists>x. acct (bump get upd 1) s = (EC_Ok, s\<lparr>ds_counters := upd (\<lambda>_. x) (ds_counters s)\<rparr>) \<and> unat x = unat (get (ds_counters s)) + 1"
  using checked_add_small [of "get (ds_counters s)" 1] assms by (auto simp: acct_def bump_def)

lemma successor_exists:
  assumes "unat n + 1 < 2 ^ 64"
  shows "\<exists>m. successor_or_first n = Some m \<and> valid_id m"
  using checked_add_small [of n 1] assms
  by (auto simp: successor_or_first_def StrongUInt_next_def valid_id_def)

lemma boot_record_delivers:
  assumes "boot_room n s" and "successor_or_first (ds_boot s) = Some b" "valid_id b"
    and "successor_or_first (ds_term s) = Some t" "valid_id t"
  shows "\<exists>s'. boot_record b t now s = (EC_Ok, s') \<and> fence_room n s' \<and> same_tables s s'"
proof -
  obtain k where k: "checked_add (ds_boot_count s) 1 = Some k"
    using checked_add_small [of "ds_boot_count s" 1] assms(1) by (auto simp: boot_room_def)
  let ?s = "s\<lparr>ds_boot := b, ds_term := t, ds_last_commit_tick := now, ds_boot_count := k\<rparr>"
  obtain x where x: "acct record_boot ?s = (EC_Ok, ?s\<lparr>ds_counters := (ds_counters s)\<lparr>ac_boots := x\<rparr>\<rparr>)"
    using bump_delivers [of ac_boots ?s ac_boots_update] assms(1) by (auto simp: boot_room_def record_boot_def)
  let ?t = "?s\<lparr>ds_counters := (ds_counters s)\<lparr>ac_boots := x\<rparr>\<rparr>"
  obtain y where y: "acct record_term_advance ?t = (EC_Ok, ?t\<lparr>ds_counters := (ds_counters ?t)\<lparr>ac_term_advances := y\<rparr>\<rparr>)"
    using bump_delivers [of ac_term_advances ?t ac_term_advances_update] assms(1) by (auto simp: boot_room_def record_term_advance_def)
  have "\<not> b \<le> ds_boot s" "\<not> t < ds_term s"
    using successor_later [OF assms(2)] successor_later [OF assms(4)] by auto
  then have "boot_record b t now s = (EC_Ok, ?t\<lparr>ds_counters := (ds_counters ?t)\<lparr>ac_term_advances := y\<rparr>\<rparr>)"
    using assms k x y by (simp add: boot_record_def Let_def status_then_def)
  then show ?thesis
    using assms(1) by (simp add: boot_room_def fence_room_def same_tables_def)
qed

lemma fence_record_delivers:
  assumes "fence_room (Suc n) s" and "find_grant s (fr_grant f) = Some g" and "Grant_live g"
  shows "\<exists>s'. fence_record GS_Fenced f s = (EC_Ok, s') \<and> fence_room n s'"
proof -
  let ?s = "snd (add_fence f (assign_grant (fr_grant f) (moved_grant GS_Fenced (fr_fenced_tick f) 0 0) s))"
  have c: "ds_counters ?s = ds_counters s"
    by (simp add: add_fence_def assign_grant_def)
  obtain x where x: "acct (record_fences 1) ?s = (EC_Ok, ?s\<lparr>ds_counters := (ds_counters s)\<lparr>ac_fences_total := x\<rparr>\<rparr>)"
      "unat x = unat (ac_fences_total (ds_counters s)) + 1"
    using bump_delivers [of ac_fences_total ?s ac_fences_total_update] assms(1) c by (auto simp: fence_room_def record_fences_def)
  let ?t = "?s\<lparr>ds_counters := (ds_counters s)\<lparr>ac_fences_total := x\<rparr>\<rparr>"
  obtain y where y: "acct (count_end GS_Fenced) ?t = (EC_Ok, ?t\<lparr>ds_counters := (ds_counters ?t)\<lparr>ac_grants_fenced := y\<rparr>\<rparr>)"
      "unat y = unat (ac_grants_fenced (ds_counters s)) + 1"
    using bump_delivers [of ac_grants_fenced ?t ac_grants_fenced_update] assms(1)
    by (auto simp: fence_room_def record_grant_fenced_def count_end_def)
  have "grant_transition_allowed (gr_state g) GS_Fenced"
    using assms(3) by (cases "gr_state g") (simp_all add: Grant_live_def grant_state_live_def grant_state_terminal_def grant_transition_allowed_def)
  then have "fence_record GS_Fenced f s = (EC_Ok, ?t\<lparr>ds_counters := (ds_counters ?t)\<lparr>ac_grants_fenced := y\<rparr>\<rparr>)"
    using assms(2) x(1) y(1) by (simp add: fence_record_def status_then_def transition_grant_def add_fence_def)
  then show ?thesis
    using assms(1) x(2) y(2) by (simp add: fence_room_def)
qed

section \<open>Appending them\<close>

lemma counter_body: "encode_counter_body n = le_bytes 8 n"
  by (simp add: encode_counter_body_def ByteWriter_u64_def ByteWriter_raw_def ByteWriter_ensure_def new_writer_def Let_def)

lemma generation_decoded:
  assumes "type \<in> {RT_FabricGenerationAdvanced, RT_CapacityGenerationAdvanced, RT_EvidenceGenerationAdvanced}"
  shows "decode_payload type (encode_counter_body n) = Inr (new_payload\<lparr>rp_sequence := n\<rparr>)"
  using assms
  by (auto simp: counter_body decode_payload_def payload_sequence_def reading le_value_le_bytes decode_finish_def ByteReader_at_end_def)

lemma body_lengths:
  "length (boot_bytes boot trm clock) \<le> kMaxRecordPayload" "length (encode_counter_body n) \<le> kMaxRecordPayload"
  "length (encode_body encode_FenceRecord f) \<le> kMaxRecordPayload"
proof -
  have "costs (encode_FenceRecord f) 300"
    unfolding encode_FenceRecord_def
    by (rule costs_le, (rule costs_Cons costs_Nil costs_fields costs_binding)+) simp
  moreover have "300 \<le> kMaxDocumentBytes"
    by (simp add: kMaxDocumentBytes_def)
  ultimately have "length (encode_body encode_FenceRecord f) \<le> 300"
    by (rule costs_writer)
  then show "length (encode_body encode_FenceRecord f) \<le> kMaxRecordPayload"
    by (simp add: kMaxRecordPayload_def)
  show "length (boot_bytes boot trm clock) \<le> kMaxRecordPayload" "length (encode_counter_body n) \<le> kMaxRecordPayload"
    by (simp_all add: counter_body kMaxRecordPayload_def boot_bytes_def ByteWriter_u64_def ByteWriter_raw_def
        ByteWriter_ensure_def new_writer_def Let_def)
qed

lemma store_room_less: "store_room (Suc m) impl \<Longrightarrow> store_room m impl"
  by (auto simp: store_room_def)

lemma store_room_le: "m \<le> n \<Longrightarrow> store_room n impl \<Longrightarrow> store_room m impl"
  by (induction n rule: dec_induct) (auto dest: store_room_less)

text \<open>The room the rest of the sequence needs: \<open>m\<close> records, \<open>n\<close> of them fences.\<close>

definition restart_room :: "nat \<Rightarrow> nat \<Rightarrow> Coordinator \<Rightarrow> bool" where
  "restart_room m n c \<longleftrightarrow> store_room m (fst (co_store c)) \<and> fence_room n (co_state c) \<and>
     quiet (im_config (fst (co_store c))) n (co_state c)"

lemma bookkeeping_delivers:
  assumes room: "store_room (Suc m) (fst (co_store c))" and q: "quiet (im_config (fst (co_store c))) n (co_state c)"
    and p: "length payload \<le> kMaxRecordPayload" "decode_payload type payload = Inr p"
    and b: "bookkeeping type" and app: "apply_record type p (im_config (fst (co_store c))) (co_state c) = (EC_Ok, s)"
    and s: "fence_room n s"
  shows "\<exists>c'. append_record type payload c = (Done (Inr ()), c') \<and> restart_room m n c'"
proof -
  have "\<not> retention_due (im_config (fst (co_store c))) s"
    using quiet_not_due q quiet_same bookkeeping_applied [OF app b] by metis
  then obtain st where st: "append_record type payload c = (Done (Inr ()), c\<lparr>co_store := st\<rparr>)" "store_room m (fst st)"
    "same_commitments s (im_state (fst st))"
    using append_record_delivers [OF room p _ app] b by (auto simp: bookkeeping_def)
  have "quiet (im_config (fst (co_store (c\<lparr>co_store := st\<rparr>)))) n (co_state (c\<lparr>co_store := st\<rparr>))"
    using append_bookkeeping [OF st(1) b q] calm_quiet [of c "c\<lparr>co_store := st\<rparr>"] q by blast
  then show ?thesis
    using st fence_room_same [OF st(3)] s by (auto simp: restart_room_def)
qed

lemma generation_delivers:
  assumes room: "restart_room (Suc m) n c"
    and t: "type \<in> {RT_FabricGenerationAdvanced, RT_CapacityGenerationAdvanced, RT_EvidenceGenerationAdvanced}"
  shows "\<exists>c'. (if missing then append_record type (encode_counter_body 1) else co_return ()) c = (Done (Inr ()), c') \<and> restart_room m n c'"
proof (cases missing)
  case True
  obtain s where s: "apply_record type (new_payload\<lparr>rp_sequence := 1\<rparr>) (im_config (fst (co_store c))) (co_state c) = (EC_Ok, s)"
    "fence_room n s"
    using t room by (auto simp: restart_room_def fence_room_def)
  show ?thesis
    using bookkeeping_delivers [OF _ _ body_lengths(2) generation_decoded [OF t] _ s] room t True
    by (auto simp: restart_room_def bookkeeping_def)
next
  case False
  then show ?thesis
    using room store_room_less by (auto simp: restart_room_def co_return_def)
qed

lemma bootstrap_delivers:
  assumes "restart_room (m + 3) n c"
  shows "\<exists>c'. bootstrap_generations x y z c = (Done (Inr ()), c') \<and> restart_room m n c'"
proof -
  obtain c1 where c1: "(if x then append_record RT_FabricGenerationAdvanced (encode_counter_body 1) else co_return ()) c = (Done (Inr ()), c1)"
    "restart_room (Suc (Suc m)) n c1"
    using generation_delivers [of "Suc (Suc m)" n c RT_FabricGenerationAdvanced x] assms by (auto simp: numeral_3_eq_3)
  obtain c2 where c2: "(if y then append_record RT_CapacityGenerationAdvanced (encode_counter_body 1) else co_return ()) c1 = (Done (Inr ()), c2)"
    "restart_room (Suc m) n c2"
    using generation_delivers [OF c1(2), of RT_CapacityGenerationAdvanced y] by auto
  obtain c3 where c3: "(if z then append_record RT_EvidenceGenerationAdvanced (encode_counter_body 1) else co_return ()) c2 = (Done (Inr ()), c3)"
    "restart_room m n c3"
    using generation_delivers [OF c2(2), of RT_EvidenceGenerationAdvanced z] by auto
  show ?thesis
    unfolding bootstrap_generations_def delivered_then using c1(1) c2(1) c3 by blast
qed

lemma fence_delivers:
  assumes room: "restart_room (Suc m) (Suc n) c" and f: "fence_encodable f"
    and g: "find_grant (co_state c) (fr_grant f) = Some g" "Grant_live g"
  shows "\<exists>c'. append_record RT_GrantFenced (encode_body encode_FenceRecord f) c = (Done (Inr ()), c') \<and> restart_room m n c'"
proof -
  obtain s where s: "fence_record GS_Fenced f (co_state c) = (EC_Ok, s)" "fence_room n s"
    using fence_record_delivers [OF _ g] room by (auto simp: restart_room_def)
  have "quiet (im_config (fst (co_store c))) n s"
    using fence_record_Ok [OF s(1)] room by (auto simp: restart_room_def quiet_def)
  then obtain st where st: "append_record RT_GrantFenced (encode_body encode_FenceRecord f) c = (Done (Inr ()), c\<lparr>co_store := st\<rparr>)"
    "store_room m (fst st)" "same_commitments s (im_state (fst st))"
    using append_record_delivers [of m c "encode_body encode_FenceRecord f" RT_GrantFenced "new_payload\<lparr>rp_fence := f\<rparr>" s]
      room body_lengths(3) decode_fence_body [OF f] s(1) quiet_not_due by (auto simp: restart_room_def)
  then have "quiet (im_config (fst (co_store (c\<lparr>co_store := st\<rparr>)))) n (co_state (c\<lparr>co_store := st\<rparr>))"
    using append_fence [OF st(1) f, of n] room by (auto simp: restart_room_def)
  then show ?thesis
    using st fence_room_same [OF st(3)] s(2) by (auto simp: restart_room_def)
qed

lemma found_by_id:
  assumes "distinct (map gr_id gs)" and "g \<in> set gs" "gr_id g = k"
  shows "find_by_id gs k = Some g"
proof (cases "find_by_id gs k")
  case None
  then show ?thesis
    using assms(2,3) find_ptr_NoneD [of "\<lambda>g. gr_id g = k" gs] by (auto simp: find_by_id_def)
next
  case (Some h)
  then have "h \<in> set gs" "gr_id h = gr_id g"
    using assms(3) find_ptr_SomeD [of "\<lambda>g. gr_id g = k" gs h] by (auto simp: find_by_id_def)
  then show ?thesis
    using Some assms(1,2) inj_onD [of gr_id "set gs" h g] by (simp add: distinct_map)
qed

lemma fence_previous_delivers:
  assumes "fence_ready (length ks) c" and "restart_room (length ks) (length ks) c" and "distinct ks"
    and "set ks \<subseteq> gr_id ` set (filter Grant_live (ds_grants (co_state c)))"
  shows "\<exists>c'. fence_previous ks c = (Done (Inr ()), c')"
  using assms
proof (induction ks arbitrary: c)
  case Nil
  then show ?case
    by (simp add: co_return_def)
next
  case (Cons k ks)
  have index: "indexed (co_grants c) (ds_grants (co_state c))" "distinct (map gr_id (ds_grants (co_state c)))"
    using Cons.prems(1) by (simp_all add: fence_ready_def indexed_def)
  obtain g where g: "g \<in> set (ds_grants (co_state c))" "gr_id g = k" "Grant_live g"
    using Cons.prems(4) by auto
  have found: "find_by_id (ds_grants (co_state c)) k = Some g"
    by (rule found_by_id [OF index(2) g(1,2)])
  then have ret: "retained_grant c k = Some g"
    using indexed_find [OF index(1)] by simp
  let ?f = "boot_fence (co_fence_ids c) g (co_clock c)"
  let ?c = "c\<lparr>co_fence_ids := co_fence_ids c + 1\<rparr>"
  have "valid_id (co_fence_ids c)" "valid_id (gr_id g)"
    using Cons.prems(1) g(1) by (auto simp: fence_ready_def valid_id_def)
  then have "fence_encodable ?f"
    by (rule boot_fence_encodable)
  moreover have "restart_room (Suc (length ks)) (Suc (length ks)) ?c"
    using Cons.prems(2) by (simp add: restart_room_def)
  moreover have "find_grant (co_state ?c) (fr_grant ?f) = Some g"
    using found g(2) by (simp add: find_grant_def find_by_id_def boot_fence_def)
  ultimately obtain c1 where app: "append_record RT_GrantFenced (encode_body encode_FenceRecord ?f) ?c = (Done (Inr ()), c1)"
    and room: "restart_room (length ks) (length ks) c1"
    using fence_delivers g(3) by blast
  have st: "fence_ready (length ks) c1" "ds_grants (co_state c1) = boot_fenced k (co_clock c) (ds_grants (co_state c))"
    using fence_step [OF _ ret app, of "length ks"] Cons.prems(1) by simp_all
  have live: "filter Grant_live (ds_grants (co_state c1)) = filter (\<lambda>g. gr_id g \<noteq> k) (filter Grant_live (ds_grants (co_state c)))"
    unfolding st(2) boot_fenced_def
    by (rule live_after_fence [OF index(2)]) (simp add: grant_state_live_def grant_state_terminal_def)
  have "set ks \<subseteq> gr_id ` set (filter Grant_live (ds_grants (co_state c1)))"
  proof
    fix x
    assume "x \<in> set ks"
    then have "x \<noteq> k" "x \<in> gr_id ` set (filter Grant_live (ds_grants (co_state c)))"
      using Cons.prems(3,4) by auto
    then show "x \<in> gr_id ` set (filter Grant_live (ds_grants (co_state c1)))"
      unfolding live by auto
  qed
  then obtain c' where "fence_previous ks c1 = (Done (Inr ()), c')"
    using Cons.IH [OF st(1) room] Cons.prems(3) by auto
  then show ?case
    using ret app fence_allocated [of "length ks" c] Cons.prems(1) by (auto simp: delivered)
qed

lemma boot_delivers:
  assumes ready: "fence_ready (length (ds_grants (co_state c))) c"
    and room: "store_room (length (ds_grants (co_state c)) + 4) (fst (co_store c))" "boot_room (length (ds_grants (co_state c))) (co_state c)"
  shows "\<exists>c'. boot_coordinator c = (Done (Inr ()), c')"
proof -
  let ?n = "length (ds_grants (co_state c))"
  have q: "quiet (im_config (fst (co_store c))) ?n (co_state c)"
    using ready by (simp add: fence_ready_def)
  obtain b t where bt: "successor_or_first (ds_boot (co_state c)) = Some b" "valid_id b"
    "successor_or_first (ds_term (co_state c)) = Some t" "valid_id t"
    using successor_exists [of "ds_boot (co_state c)"] successor_exists [of "ds_term (co_state c)"] room(2)
    by (auto simp: boot_room_def)
  obtain s where s: "boot_record b t (co_clock c) (co_state c) = (EC_Ok, s)" "fence_room ?n s"
    using boot_record_delivers [OF room(2) bt] by blast
  have s': "apply_record RT_BootAdvanced (new_payload\<lparr>rp_id := b, rp_sequence := t, rp_tick := co_clock c\<rparr>)
      (im_config (fst (co_store c))) (co_state c) = (EC_Ok, s)"
    using s(1) by simp
  have "Suc (?n + 3) = ?n + 4"
    by simp
  then have large: "store_room (Suc (?n + 3)) (fst (co_store c))"
    using room(1) by (simp only:)
  obtain ca where a: "append_record RT_BootAdvanced (boot_bytes b t (co_clock c)) c = (Done (Inr ()), ca)" "restart_room (?n + 3) ?n ca"
    using bookkeeping_delivers [OF large q body_lengths(1) boot_bytes_decoded _ s' s(2)] by (auto simp: bookkeeping_def)
  obtain cb where g: "bootstrap_generations (\<not> valid_id (ds_fabric_generation (co_state ca)))
      (\<not> valid_id (ds_capacity_generation (co_state ca))) (\<not> valid_id (ds_evidence_generation (co_state ca))) ca = (Done (Inr ()), cb)"
    "restart_room ?n ?n cb"
    using bootstrap_delivers [OF a(2)] by blast
  have calm: "calm c cb"
    using append_bookkeeping [OF a(1) _ q] bootstrap_calm [OF g(1), of ?n] a(2) calm_trans [of c ca cb]
    by (simp add: bookkeeping_def restart_room_def)
  let ?ks = "map gr_id (filter Grant_live (ds_grants (co_state cb)))"
  have len: "length ?ks \<le> ?n"
    using calm by (simp add: calm_def same_tables_def)
  have rb: "fence_ready ?n cb"
    using calm_ready [OF calm] ready by simp
  have "distinct (map gr_id (ds_grants (co_state cb)))"
    using rb by (simp add: fence_ready_def indexed_def)
  then have "distinct ?ks"
    by (simp add: distinct_map inj_on_def)
  moreover have "restart_room (length ?ks) (length ?ks) cb"
    using g(2) len store_room_le [OF len] by (simp add: restart_room_def fence_room_def quiet_def)
  ultimately obtain c2 where "fence_previous ?ks cb = (Done (Inr ()), c2)"
    using fence_previous_delivers [of ?ks cb] fence_ready_le [OF rb len] by auto
  then show ?thesis
    using bt a(1) g(1) by (auto simp: boot_coordinator_def delivered)
qed

section \<open>A restart ends the previous incarnation\<close>

text \<open>
  C9. A restart leaves no authority of an earlier incarnation behind. On a store that is open and has room, the boot
  sequence of \<open>create\<close> gets through; afterwards boot incarnation and term have strictly advanced, every grant that was
  retained is still retained and none of them is live, and the grant index agrees with the durable table. The hypotheses
  say that identities are set and distinct, that retention does not prune while the fences are written, and that neither
  the fence identities nor the counters run out.
\<close>

theorem boot_fences_previous_authority:
  assumes "distinct (map gr_id (ds_grants (im_state (fst st))))" and "list_all (\<lambda>g. valid_id (gr_id g)) (ds_grants (im_state (fst st)))"
    and "quiet (im_config (fst st)) (length (ds_grants (im_state (fst st)))) (im_state (fst st))"
    and "unat (ds_fence_id_high_water (im_state (fst st))) + length (ds_grants (im_state (fst st))) + 1 < 2 ^ 64"
    and "store_room (length (ds_grants (im_state (fst st))) + 4) (fst st)"
    and "boot_room (length (ds_grants (im_state (fst st)))) (im_state (fst st))"
  shows "\<exists>c. boot_coordinator (initial_coordinator cfg st) = (Done (Inr ()), c) \<and>
    ds_boot (im_state (fst st)) < ds_boot (co_state c) \<and> ds_term (im_state (fst st)) < ds_term (co_state c) \<and>
    map gr_id (ds_grants (co_state c)) = map gr_id (ds_grants (im_state (fst st))) \<and>
    list_all (\<lambda>g. \<not> Grant_live g) (ds_grants (co_state c)) \<and>
    in_step (co_grants c) (ds_grants (co_state c)) \<and> live_count (co_grants c) = 0"
proof -
  have "co_store (initial_coordinator cfg st) = st"
    by (simp add: initial_coordinator_def Let_def)
  then show ?thesis
    using boot_delivers [of "initial_coordinator cfg st"] boot_result [of "initial_coordinator cfg st"] initial_ready [OF assms(1-4)] assms(5,6)
    by fastforce
qed

definition restarted_journal :: store where
  "restarted_journal = ((fst first_store)\<lparr>im_state := im_state (fst restarted_store)\<rparr>, snd first_store)"

theorem boot_fences_previous_authority_witness:
  "list_ex Grant_live (ds_grants (im_state (fst restarted_journal))) \<and>
   (\<exists>c. boot_coordinator (initial_coordinator sample_config restarted_journal) = (Done (Inr ()), c) \<and>
      list_all (\<lambda>g. \<not> Grant_live g) (ds_grants (co_state c)))"
  using boot_fences_previous_authority [of restarted_journal sample_config]
  by (auto simp: restarted_journal_def restarted_store_def new_impl_def new_state_def issued_grant_def sample_grant_def quiet_def
      small_store_def size_mul_def new_evidence_vector_def valid_id_def Grant_live_def grant_state_live_def
      grant_state_terminal_def first_store_state store_room_def boot_room_def fence_room_def no_counters_def kMaxRecordPayload_def)

end
