(* ===== verification/Frame.thy ===== *)
theory Frame
  imports Journal
begin

text \<open>
  The framed protocol (\<open>src/net/frame.cpp\<close>, \<open>include/dmf/net.hpp\<close>): message types and their request/acknowledgement pairs,
  the frame encoder and the incremental decoder. A value outside the enumeration, such as \<open>kNoMessageType\<close>, is \<open>None\<close>.
\<close>

section \<open>Message types\<close>

datatype MessageType =
    MT_Hello | MT_HelloAck
  | MT_PublishEvidence | MT_PublishEvidenceAck
  | MT_RegisterContract | MT_RegisterContractAck
  | MT_InstallPolicy | MT_InstallPolicyAck
  | MT_EvaluateContract | MT_EvaluateContractAck
  | MT_AcquireAuthority | MT_AcquireAuthorityAck
  | MT_AcknowledgeGrant | MT_AcknowledgeGrantAck
  | MT_ReportApplied | MT_ReportAppliedAck
  | MT_RequestRestoration | MT_RequestRestorationAck
  | MT_FenceGrant | MT_FenceGrantAck
  | MT_QueryStatus | MT_QueryStatusAck
  | MT_Revalidate | MT_RevalidateAck
  | MT_Goodbye | MT_GoodbyeAck

primrec MessageType_code :: "MessageType \<Rightarrow> u16" where
  "MessageType_code MT_Hello = 1"
| "MessageType_code MT_HelloAck = 2"
| "MessageType_code MT_PublishEvidence = 10"
| "MessageType_code MT_PublishEvidenceAck = 11"
| "MessageType_code MT_RegisterContract = 20"
| "MessageType_code MT_RegisterContractAck = 21"
| "MessageType_code MT_InstallPolicy = 30"
| "MessageType_code MT_InstallPolicyAck = 31"
| "MessageType_code MT_EvaluateContract = 40"
| "MessageType_code MT_EvaluateContractAck = 41"
| "MessageType_code MT_AcquireAuthority = 50"
| "MessageType_code MT_AcquireAuthorityAck = 51"
| "MessageType_code MT_AcknowledgeGrant = 60"
| "MessageType_code MT_AcknowledgeGrantAck = 61"
| "MessageType_code MT_ReportApplied = 70"
| "MessageType_code MT_ReportAppliedAck = 71"
| "MessageType_code MT_RequestRestoration = 80"
| "MessageType_code MT_RequestRestorationAck = 81"
| "MessageType_code MT_FenceGrant = 90"
| "MessageType_code MT_FenceGrantAck = 91"
| "MessageType_code MT_QueryStatus = 100"
| "MessageType_code MT_QueryStatusAck = 101"
| "MessageType_code MT_Revalidate = 110"
| "MessageType_code MT_RevalidateAck = 111"
| "MessageType_code MT_Goodbye = 120"
| "MessageType_code MT_GoodbyeAck = 121"

definition MessageType_all :: "MessageType list" where
  "MessageType_all =
     [MT_Hello, MT_HelloAck, MT_PublishEvidence, MT_PublishEvidenceAck,
      MT_RegisterContract, MT_RegisterContractAck, MT_InstallPolicy, MT_InstallPolicyAck,
      MT_EvaluateContract, MT_EvaluateContractAck, MT_AcquireAuthority, MT_AcquireAuthorityAck,
      MT_AcknowledgeGrant, MT_AcknowledgeGrantAck, MT_ReportApplied, MT_ReportAppliedAck,
      MT_RequestRestoration, MT_RequestRestorationAck, MT_FenceGrant, MT_FenceGrantAck,
      MT_QueryStatus, MT_QueryStatusAck, MT_Revalidate, MT_RevalidateAck,
      MT_Goodbye, MT_GoodbyeAck]"

interpretation messagetype_wire: wire_enum MessageType_code MessageType_all
proof
  show "enum_decode MessageType_code MessageType_all (MessageType_code e) = Some e" for e
    by (cases e) (simp_all add: enum_decode_def MessageType_all_def)
qed

primrec is_acknowledgement :: "MessageType \<Rightarrow> bool" where
  "is_acknowledgement MT_Hello = False"
| "is_acknowledgement MT_HelloAck = True"
| "is_acknowledgement MT_PublishEvidence = False"
| "is_acknowledgement MT_PublishEvidenceAck = True"
| "is_acknowledgement MT_RegisterContract = False"
| "is_acknowledgement MT_RegisterContractAck = True"
| "is_acknowledgement MT_InstallPolicy = False"
| "is_acknowledgement MT_InstallPolicyAck = True"
| "is_acknowledgement MT_EvaluateContract = False"
| "is_acknowledgement MT_EvaluateContractAck = True"
| "is_acknowledgement MT_AcquireAuthority = False"
| "is_acknowledgement MT_AcquireAuthorityAck = True"
| "is_acknowledgement MT_AcknowledgeGrant = False"
| "is_acknowledgement MT_AcknowledgeGrantAck = True"
| "is_acknowledgement MT_ReportApplied = False"
| "is_acknowledgement MT_ReportAppliedAck = True"
| "is_acknowledgement MT_RequestRestoration = False"
| "is_acknowledgement MT_RequestRestorationAck = True"
| "is_acknowledgement MT_FenceGrant = False"
| "is_acknowledgement MT_FenceGrantAck = True"
| "is_acknowledgement MT_QueryStatus = False"
| "is_acknowledgement MT_QueryStatusAck = True"
| "is_acknowledgement MT_Revalidate = False"
| "is_acknowledgement MT_RevalidateAck = True"
| "is_acknowledgement MT_Goodbye = False"
| "is_acknowledgement MT_GoodbyeAck = True"

definition is_request :: "MessageType \<Rightarrow> bool" where
  "is_request t \<longleftrightarrow> \<not> is_acknowledgement t"

definition acknowledgement_for :: "MessageType \<Rightarrow> MessageType option" where
  "acknowledgement_for t =
     (case t of
        MT_Hello \<Rightarrow> Some MT_HelloAck
      | MT_PublishEvidence \<Rightarrow> Some MT_PublishEvidenceAck
      | MT_RegisterContract \<Rightarrow> Some MT_RegisterContractAck
      | MT_InstallPolicy \<Rightarrow> Some MT_InstallPolicyAck
      | MT_EvaluateContract \<Rightarrow> Some MT_EvaluateContractAck
      | MT_AcquireAuthority \<Rightarrow> Some MT_AcquireAuthorityAck
      | MT_AcknowledgeGrant \<Rightarrow> Some MT_AcknowledgeGrantAck
      | MT_ReportApplied \<Rightarrow> Some MT_ReportAppliedAck
      | MT_RequestRestoration \<Rightarrow> Some MT_RequestRestorationAck
      | MT_FenceGrant \<Rightarrow> Some MT_FenceGrantAck
      | MT_QueryStatus \<Rightarrow> Some MT_QueryStatusAck
      | MT_Revalidate \<Rightarrow> Some MT_RevalidateAck
      | MT_Goodbye \<Rightarrow> Some MT_GoodbyeAck
      | _ \<Rightarrow> None)"

definition request_for :: "MessageType \<Rightarrow> MessageType option" where
  "request_for t =
     (case t of
        MT_HelloAck \<Rightarrow> Some MT_Hello
      | MT_PublishEvidenceAck \<Rightarrow> Some MT_PublishEvidence
      | MT_RegisterContractAck \<Rightarrow> Some MT_RegisterContract
      | MT_InstallPolicyAck \<Rightarrow> Some MT_InstallPolicy
      | MT_EvaluateContractAck \<Rightarrow> Some MT_EvaluateContract
      | MT_AcquireAuthorityAck \<Rightarrow> Some MT_AcquireAuthority
      | MT_AcknowledgeGrantAck \<Rightarrow> Some MT_AcknowledgeGrant
      | MT_ReportAppliedAck \<Rightarrow> Some MT_ReportApplied
      | MT_RequestRestorationAck \<Rightarrow> Some MT_RequestRestoration
      | MT_FenceGrantAck \<Rightarrow> Some MT_FenceGrant
      | MT_QueryStatusAck \<Rightarrow> Some MT_QueryStatus
      | MT_RevalidateAck \<Rightarrow> Some MT_Revalidate
      | MT_GoodbyeAck \<Rightarrow> Some MT_Goodbye
      | _ \<Rightarrow> None)"

text \<open>
  C40. Requests and acknowledgements pair up: every request type has exactly one acknowledgement and every acknowledgement
  exactly one request, the two tables are inverse to each other, and a type without a counterpart is reported as such.
\<close>

theorem request_acknowledgement_pairs:
  "(acknowledgement_for t = Some u \<longleftrightarrow> request_for u = Some t) \<and>
   (is_request t \<longleftrightarrow> (\<exists>u. acknowledgement_for t = Some u \<and> is_acknowledgement u)) \<and>
   (is_acknowledgement t \<longleftrightarrow> (\<exists>u. request_for t = Some u \<and> is_request u))"
  by (cases t; cases u) (simp_all add: acknowledgement_for_def request_for_def is_request_def)

section \<open>Frames\<close>

definition kWireProtocolVersion :: u16 where "kWireProtocolVersion = 1"
definition kFrameHeaderSize :: nat where "kFrameHeaderSize = 20"
definition kFrameTrailerSize :: nat where "kFrameTrailerSize = 4"
definition kMaxFramePayload :: u32 where "kMaxFramePayload = 2 ^ 20"
definition kSocketReadChunk :: nat where "kSocketReadChunk = 2 ^ 16"
definition kFrameMagic :: "u8 list" where "kFrameMagic = [68, 77, 70, 70]"

lemmas wire_sizes = kFrameHeaderSize_def kFrameTrailerSize_def kMaxFramePayload_def kSocketReadChunk_def

record FrameHeader =
  fh_version :: u16
  fh_type :: MessageType
  fh_flags :: u16
  fh_payload_length :: u32

record Frame =
  fm_header :: FrameHeader
  fm_payload :: "u8 list"

definition encode_frame :: "MessageType option \<Rightarrow> u8 list \<Rightarrow> u16 \<Rightarrow> u32 \<Rightarrow> u8 list result" where
  "encode_frame type payload flags max_payload =
     (case type of
        None \<Rightarrow> Inl EC_InvalidEnum
      | Some t \<Rightarrow>
         if length payload > unat max_payload then Inl EC_CapacityExceeded
         else if flags \<noteq> 0 then Inl EC_InvalidArgument
         else let w = write_all
                [write_magic kFrameMagic, ByteWriter_u16 kWireProtocolVersion, write_enum MessageType_code t,
                 ByteWriter_u16 flags, ByteWriter_u16 0, write_size payload, write_crc,
                 ByteWriter_raw payload, ByteWriter_u32 (crc32c payload 0)]
                (new_writer (kFrameHeaderSize + length payload + kFrameTrailerSize) kMaxBlobBytes)
              in if \<not> bw_ok w then Inl EC_CapacityExceeded else Inr (bw_data w))"

definition max_buffered :: "u32 \<Rightarrow> nat" where
  "max_buffered max_payload = unat max_payload + kFrameHeaderSize + kFrameTrailerSize + kSocketReadChunk"

record FrameReader =
  fd_buffer :: "u8 list"
  fd_offset :: nat
  fd_max_payload :: u32
  fd_error :: error_code

definition new_frame_reader :: "u32 \<Rightarrow> FrameReader" where
  "new_frame_reader max_payload =
     \<lparr>fd_buffer = [], fd_offset = 0,
      fd_max_payload = (if max_payload = 0 \<or> max_payload > kMaxFramePayload then kMaxFramePayload else max_payload),
      fd_error = EC_Ok\<rparr>"

definition FrameReader_reset :: "FrameReader \<Rightarrow> FrameReader" where
  "FrameReader_reset r = r\<lparr>fd_buffer := [], fd_offset := 0, fd_error := EC_Ok\<rparr>"

definition compact :: "FrameReader \<Rightarrow> FrameReader" where
  "compact r =
     (if fd_offset r = length (fd_buffer r) then r\<lparr>fd_buffer := [], fd_offset := 0\<rparr>
      else if fd_offset r > 0 then r\<lparr>fd_buffer := drop (fd_offset r) (fd_buffer r), fd_offset := 0\<rparr>
      else r)"

definition FrameReader_push :: "u8 list \<Rightarrow> FrameReader \<Rightarrow> status \<times> FrameReader" where
  "FrameReader_push bytes r =
     (if fd_error r \<noteq> EC_Ok then (fd_error r, r)
      else if length bytes = 0 then (EC_Ok, r)
      else let r = compact r;
               combined = length (fd_buffer r) + length bytes
           in if combined \<ge> 2 ^ 64 then (EC_Overflow, r\<lparr>fd_error := EC_Overflow\<rparr>)
              else if combined > max_buffered (fd_max_payload r)
                   then (EC_CapacityExceeded, r\<lparr>fd_error := EC_CapacityExceeded\<rparr>)
              else (EC_Ok, r\<lparr>fd_buffer := fd_buffer r @ bytes\<rparr>))"

definition read_u16_at :: "nat \<Rightarrow> u8 list \<Rightarrow> u16" where
  "read_u16_at i bytes = le_value (take 2 (drop i bytes))"

text \<open>The checks on the fixed header, in the order of the code; the result is the type and the payload length.\<close>

definition check_frame_header :: "u32 \<Rightarrow> u8 list \<Rightarrow> (MessageType \<times> u32) result" where
  "check_frame_header max_payload header =
     (if \<not> magic_matches header kFrameMagic then Inl EC_Corrupt
      else if read_u32_at 16 header \<noteq> crc32c (take 16 header) 0 then Inl EC_IntegrityFailure
      else if read_u16_at 4 header \<noteq> kWireProtocolVersion then Inl EC_VersionUnsupported
      else case enum_decode MessageType_code MessageType_all (read_u16_at 6 header) of
        None \<Rightarrow> Inl EC_InvalidEnum
      | Some t \<Rightarrow>
         if read_u16_at 8 header \<noteq> 0 then Inl EC_Invalid
         else if read_u16_at 10 header \<noteq> 0 then Inl EC_Corrupt
         else if read_u32_at 12 header > max_payload then Inl EC_CapacityExceeded
         else Inr (t, read_u32_at 12 header))"

definition FrameReader_next :: "FrameReader \<Rightarrow> Frame result \<times> FrameReader" where
  "FrameReader_next r =
     (if fd_error r \<noteq> EC_Ok then (Inl (fd_error r), r)
      else let header = drop (fd_offset r) (fd_buffer r);
               available = length (fd_buffer r) - fd_offset r
           in if available < kFrameHeaderSize then (Inl EC_NotFound, r)
              else case check_frame_header (fd_max_payload r) header of
                Inl e \<Rightarrow> (Inl e, r\<lparr>fd_error := e\<rparr>)
              | Inr (t, payload_length) \<Rightarrow>
                 let combined = kFrameHeaderSize + unat payload_length + kFrameTrailerSize
                 in if available < combined then (Inl EC_NotFound, r)
                    else let payload = take (unat payload_length) (drop kFrameHeaderSize header)
                    in if read_u32_at (kFrameHeaderSize + unat payload_length) header \<noteq> crc32c payload 0
                       then (Inl EC_IntegrityFailure, r\<lparr>fd_error := EC_IntegrityFailure\<rparr>)
                       else let r = r\<lparr>fd_offset := fd_offset r + combined\<rparr>
                            in (Inr \<lparr>fm_header = \<lparr>fh_version = kWireProtocolVersion, fh_type = t, fh_flags = 0,
                                                  fh_payload_length = payload_length\<rparr>, fm_payload = payload\<rparr>,
                                if fd_offset r = length (fd_buffer r) then r\<lparr>fd_buffer := [], fd_offset := 0\<rparr> else r))"

section \<open>The unread bytes of a reader\<close>

definition unread :: "FrameReader \<Rightarrow> u8 list" where
  "unread r = drop (fd_offset r) (fd_buffer r)"

definition frame_body :: "MessageType \<Rightarrow> nat \<Rightarrow> u8 list" where
  "frame_body t n = kFrameMagic @ le_bytes 2 kWireProtocolVersion @ le_bytes 2 (MessageType_code t) @ le_bytes 2 (0 :: u16) @
     le_bytes 2 (0 :: u16) @ le_bytes 4 (of_nat n :: u32)"

definition wire_frame :: "MessageType \<Rightarrow> u8 list \<Rightarrow> u8 list" where
  "wire_frame t payload = with_crc (frame_body t (length payload)) @ with_crc payload"

definition plain_frame :: "MessageType \<Rightarrow> u8 list \<Rightarrow> Frame" where
  "plain_frame t payload =
     \<lparr>fm_header = \<lparr>fh_version = kWireProtocolVersion, fh_type = t, fh_flags = 0, fh_payload_length = of_nat (length payload)\<rparr>,
      fm_payload = payload\<rparr>"

lemma length_frame_body [simp]: "length (frame_body t n) = 16"
  by (simp add: frame_body_def kFrameMagic_def)

lemma length_wire_frame [simp]: "length (wire_frame t payload) = 24 + length payload"
  by (simp add: wire_frame_def)

lemma encode_frame_iff:
  "encode_frame type payload flags m = Inr bs \<longleftrightarrow>
   (\<exists>t. type = Some t \<and> length payload \<le> unat m \<and> flags = 0 \<and> bs = wire_frame t payload)"
proof -
  show ?thesis
    using unat_u32_bound [of m] unfolding encode_frame_def
    by (auto simp: writes write_magic_room raw_room new_writer_def wire_frame_def with_crc_def frame_body_def
        kFrameMagic_def wire_sizes Let_def split: option.split)
qed

lemma check_wire_header:
  assumes "length payload \<le> unat m"
  shows "check_frame_header m (wire_frame t payload @ rest) = Inr (t, of_nat (length payload))"
proof -
  have "unat (of_nat (length payload) :: u32) = length payload"
    using assms unat_u32_bound [of m] by (simp add: unat_of_nat take_bit_nat_eq_self)
  then have "(of_nat (length payload) :: u32) \<le> m"
    using assms by (simp add: word_le_nat_alt)
  then show ?thesis
    by (simp add: check_frame_header_def magic_matches_iff read_u32_at_def read_u16_at_def wire_frame_def with_crc_def
        frame_body_def kFrameMagic_def le_value_le_bytes messagetype_wire.decode_code)
qed

lemma frame_length_word: "length payload \<le> unat (m :: u32) \<Longrightarrow> unat (of_nat (length payload) :: u32) = length payload"
  using unat_u32_bound [of m] by (simp add: unat_of_nat take_bit_nat_eq_self)

text \<open>A whole frame at the front of the unread bytes is delivered, and exactly its bytes are consumed.\<close>

lemma next_whole:
  assumes "fd_error r = EC_Ok" and "unread r = wire_frame t payload @ rest" and "length payload \<le> unat (fd_max_payload r)"
  shows "\<exists>r'. FrameReader_next r = (Inr (plain_frame t payload), r') \<and> unread r' = rest \<and> fd_error r' = EC_Ok \<and>
    fd_max_payload r' = fd_max_payload r"
proof -
  note n = frame_length_word [OF assms(3)]
  have len: "length (fd_buffer r) - fd_offset r = 24 + length payload + length rest"
    using arg_cong [OF assms(2), of length] by (simp add: unread_def)
  define bs where "bs = wire_frame t payload @ rest"
  have un: "drop (fd_offset r) (fd_buffer r) = bs"
    using assms(2) by (simp add: unread_def bs_def)
  have pay: "take (length payload) (drop 20 bs) = payload"
    by (simp add: bs_def wire_frame_def with_crc_def)
  have crc: "read_u32_at (20 + length payload) bs = crc32c payload 0"
    by (simp add: bs_def wire_frame_def with_crc_def read_u32_at_def le_value_le_bytes)
  have "drop (fd_offset r + (24 + length payload)) (fd_buffer r) = drop (24 + length payload) bs"
    by (simp add: un [symmetric] add.commute)
  then have rest: "drop (fd_offset r + (24 + length payload)) (fd_buffer r) = rest"
    by (simp add: bs_def)
  have combined: "20 + length payload + 4 = 24 + length payload"
    by simp
  show ?thesis
    using assms(1) len rest
    unfolding FrameReader_next_def un check_wire_header [OF assms(3), of t rest, folded bs_def] wire_sizes Let_def sum.case prod.case
      n pay crc combined
    by (auto simp: unread_def plain_frame_def)
qed

text \<open>Part of a frame is not an error: the reader asks for more and keeps what it has.\<close>

lemma slice_take: "i + n \<le> k \<Longrightarrow> take n (drop i (take k bs)) = take n (drop i bs)"
  by (simp add: drop_take)

lemma read_take:
  "i + 4 \<le> k \<Longrightarrow> read_u32_at i (take k bs) = read_u32_at i bs"
  "i + 2 \<le> k \<Longrightarrow> read_u16_at i (take k bs) = read_u16_at i bs"
  by (simp_all only: read_u32_at_def read_u16_at_def slice_take)

lemma check_take:
  assumes "20 \<le> length bs"
  shows "check_frame_header m (take 20 bs) = check_frame_header m bs"
proof -
  have "magic_matches (take 20 bs) kFrameMagic = magic_matches bs kFrameMagic" "take 16 (take 20 bs) = take 16 bs"
    using assms by (simp_all add: magic_matches_def)
  then show ?thesis
    by (simp only: check_frame_header_def) (simp add: read_take split: option.split)
qed

lemma next_part:
  assumes "fd_error r = EC_Ok" and "wire_frame t payload = unread r @ missing" and "missing \<noteq> []"
    and "length payload \<le> unat (fd_max_payload r)"
  shows "FrameReader_next r = (Inl EC_NotFound, r)"
proof -
  note n = frame_length_word [OF assms(4)]
  have len: "length (fd_buffer r) - fd_offset r = length (unread r)" "length (unread r) < 24 + length payload"
    using arg_cong [OF assms(2), of length] assms(3) by (simp_all add: unread_def)
  have "check_frame_header (fd_max_payload r) (unread r) = Inr (t, of_nat (length payload))" if "20 \<le> length (unread r)"
  proof -
    have "take 20 (unread r) = take 20 (wire_frame t payload)"
      using that by (simp add: assms(2))
    then show ?thesis
      using check_take [OF that] check_take [of "wire_frame t payload"] check_wire_header [OF assms(4), of t "[]"] by simp
  qed
  then show ?thesis
    using assms(1) len(2) unfolding FrameReader_next_def len(1) Let_def unread_def [symmetric] wire_sizes by (auto simp: n)
qed

lemma push_room:
  assumes "fd_error r = EC_Ok" and "length (unread r) + length bytes \<le> max_buffered (fd_max_payload r)"
    and "fd_offset r \<le> length (fd_buffer r)"
  shows "\<exists>r'. FrameReader_push bytes r = (EC_Ok, r') \<and> unread r' = unread r @ bytes \<and> fd_error r' = EC_Ok \<and>
    fd_max_payload r' = fd_max_payload r \<and> fd_offset r' \<le> length (fd_buffer r')"
proof -
  have c: "fd_buffer (compact r) = unread r" "fd_offset (compact r) = 0" "fd_max_payload (compact r) = fd_max_payload r"
    "fd_error (compact r) = EC_Ok"
    using assms(1,3) by (auto simp: compact_def unread_def)
  have "max_buffered (fd_max_payload r) < 2 ^ 64"
    using unat_u32_bound [of "fd_max_payload r"] by (simp add: max_buffered_def wire_sizes)
  then show ?thesis
    using assms c by (auto simp: FrameReader_push_def Let_def unread_def)
qed

section \<open>Reading a stream\<close>

lemma next_consumes: "FrameReader_next r = (Inr f, r') \<Longrightarrow> length (unread r') < length (unread r)"
  by (auto simp: FrameReader_next_def unread_def wire_sizes Let_def split: if_splits sum.splits prod.splits)

text \<open>The reading half of a session: frames are taken until the reader asks for more, then a chunk is pushed.\<close>

function drain :: "FrameReader \<Rightarrow> Frame list \<times> FrameReader" where
  "drain r =
     (case FrameReader_next r of
        (Inl e, r1) \<Rightarrow> ([], r1)
      | (Inr f, r1) \<Rightarrow> (case drain r1 of (fs, r2) \<Rightarrow> (f # fs, r2)))"
  by pat_completeness auto
termination
  by (relation "measure (\<lambda>r. length (unread r))") (auto dest!: next_consumes [OF sym])

declare drain.simps [simp del]

fun receive :: "FrameReader \<Rightarrow> u8 list list \<Rightarrow> Frame list \<times> FrameReader" where
  "receive r [] = drain r"
| "receive r (chunk # chunks) =
     (case drain r of (fs, r1) \<Rightarrow>
      case FrameReader_push chunk r1 of (e, r2) \<Rightarrow>
        if e \<noteq> EC_Ok then (fs, r2) else case receive r2 chunks of (gs, r3) \<Rightarrow> (fs @ gs, r3))"

definition sound_reader :: "FrameReader \<Rightarrow> bool" where
  "sound_reader r \<longleftrightarrow> fd_error r = EC_Ok \<and> fd_offset r \<le> length (fd_buffer r)"

definition stream :: "(MessageType \<times> u8 list) list \<Rightarrow> u8 list" where
  "stream ms = concat (map (\<lambda>(t, p). wire_frame t p) ms)"

lemma next_offset: "FrameReader_next r = (x, r') \<Longrightarrow> fd_offset r \<le> length (fd_buffer r) \<Longrightarrow> fd_offset r' \<le> length (fd_buffer r')"
  by (auto simp: FrameReader_next_def wire_sizes Let_def split: if_splits sum.splits prod.splits)

lemma append_prefix_cases:
  assumes "xs @ ys = us @ vs"
  obtains (whole) zs where "xs = us @ zs" "zs @ ys = vs" | (part) zs where "us = xs @ zs" "zs \<noteq> []"
  using assms by (metis append_eq_append_conv2 append_Nil2)

lemma drain_stream:
  assumes "sound_reader r" and "unread r @ rest = stream ms" and "list_all (\<lambda>(_, p). length p \<le> unat (fd_max_payload r)) ms"
  shows "\<exists>before after r'. ms = before @ after \<and> drain r = (map (\<lambda>(t, p). plain_frame t p) before, r') \<and>
    unread r' @ rest = stream after \<and> sound_reader r' \<and> fd_max_payload r' = fd_max_payload r \<and>
    (after = [] \<or> length (unread r') < 24 + length (snd (hd after)))"
  using assms
proof (induction ms arbitrary: r)
  case Nil
  then have "drain r = ([], r)"
    by (subst drain.simps) (simp add: FrameReader_next_def stream_def unread_def wire_sizes sound_reader_def)
  then show ?case
    using Nil by (intro exI [of _ "[]"] exI [of _ r]) simp
next
  case (Cons m ms)
  obtain t p where m: "m = (t, p)"
    by (cases m)
  have p: "length p \<le> unat (fd_max_payload r)"
    using Cons.prems(3) by (simp add: m)
  have "unread r @ rest = wire_frame t p @ stream ms"
    using Cons.prems(2) by (simp add: m stream_def)
  then show ?case
  proof (cases rule: append_prefix_cases)
    case (whole u)
    obtain r1 where r1: "FrameReader_next r = (Inr (plain_frame t p), r1)" "unread r1 = u" "fd_error r1 = EC_Ok"
      "fd_max_payload r1 = fd_max_payload r"
      using next_whole [OF _ whole(1) p] Cons.prems(1) by (auto simp: sound_reader_def)
    have "sound_reader r1"
      using r1 next_offset Cons.prems(1) by (auto simp: sound_reader_def)
    then obtain before after r' where d: "ms = before @ after" "drain r1 = (map (\<lambda>(t, p). plain_frame t p) before, r')"
      "unread r' @ rest = stream after" "sound_reader r'" "fd_max_payload r' = fd_max_payload r1"
      "after = [] \<or> length (unread r') < 24 + length (snd (hd after))"
      using Cons.IH [of r1] whole(2) r1 Cons.prems(3) by auto
    have "drain r = (map (\<lambda>(t, p). plain_frame t p) (m # before), r')"
      using r1(1) d(2) by (subst drain.simps) (simp add: m)
    then show ?thesis
      using d r1(4) by (intro exI [of _ "m # before"] exI [of _ after] exI [of _ r']) simp
  next
    case (part missing)
    have "drain r = ([], r)"
      using next_part [OF _ part p] Cons.prems(1) by (subst drain.simps) (simp add: sound_reader_def)
    moreover have "length (unread r) < 24 + length p"
      using arg_cong [OF part(1), of length] part(2) by simp
    ultimately show ?thesis
      using Cons.prems by (intro exI [of _ "[]"] exI [of _ "m # ms"] exI [of _ r]) (simp add: m)
  qed
qed

lemma receive_stream:
  assumes "sound_reader r" and "unread r @ concat chunks = stream ms"
    and "list_all (\<lambda>(_, p). length p \<le> unat (fd_max_payload r)) ms" and "list_all (\<lambda>c. length c \<le> kSocketReadChunk) chunks"
  shows "\<exists>r'. receive r chunks = (map (\<lambda>(t, p). plain_frame t p) ms, r') \<and> sound_reader r' \<and> unread r' = []"
  using assms
proof (induction chunks arbitrary: r ms)
  case Nil
  obtain before after r' where d: "ms = before @ after" "drain r = (map (\<lambda>(t, p). plain_frame t p) before, r')"
    "unread r' = stream after" "sound_reader r'" "after = [] \<or> length (unread r') < 24 + length (snd (hd after))"
    using drain_stream [OF Nil.prems(1), of "[]" ms] Nil.prems by auto
  have "after = []"
    using d(3,5) by (cases after) (auto simp: stream_def)
  then show ?case
    using d by (simp add: stream_def)
next
  case (Cons c chunks)
  obtain before after r1 where d: "ms = before @ after" "drain r = (map (\<lambda>(t, p). plain_frame t p) before, r1)"
    "unread r1 @ c @ concat chunks = stream after" "sound_reader r1" "fd_max_payload r1 = fd_max_payload r"
    "after = [] \<or> length (unread r1) < 24 + length (snd (hd after))"
    using drain_stream [OF Cons.prems(1), of "c @ concat chunks" ms] Cons.prems by auto
  have "length (unread r1) \<le> 24 + unat (fd_max_payload r)"
  proof (cases after)
    case Nil
    then show ?thesis
      using d(3) by (simp add: stream_def)
  next
    case (Cons x xs)
    then show ?thesis
      using d(1,6) Cons.prems(3) by (cases x) auto
  qed
  then have "length (unread r1) + length c \<le> max_buffered (fd_max_payload r1)"
    using d(5) Cons.prems(4) by (simp add: max_buffered_def wire_sizes)
  then obtain r2 where r2: "FrameReader_push c r1 = (EC_Ok, r2)" "unread r2 = unread r1 @ c" "sound_reader r2"
    "fd_max_payload r2 = fd_max_payload r1"
    using push_room d(4) by (auto simp: sound_reader_def)
  obtain r' where "receive r2 chunks = (map (\<lambda>(t, p). plain_frame t p) after, r')" "sound_reader r'" "unread r' = []"
    using Cons.IH [of r2 after] r2 d Cons.prems by auto
  then show ?case
    using d r2 by simp
qed

text \<open>
  C32. A stream of frames arrives as it was sent, however it is cut up. For any list of messages whose payloads fit the
  reader's bound, encoding succeeds for each of them, and whatever the pieces in which the socket delivers the bytes (none
  longer than the read chunk), the reading loop takes out exactly those messages in order, without an error and without a
  byte left over; the buffer bound is never hit.
\<close>

theorem frames_survive_chunking:
  assumes "list_all (\<lambda>(_, p). length p \<le> unat (fd_max_payload (new_frame_reader m))) ms"
    and "list_all2 (\<lambda>(t, p) bs. encode_frame (Some t) p 0 (fd_max_payload (new_frame_reader m)) = Inr bs) ms frames"
    and "concat chunks = concat frames" and "list_all (\<lambda>c. length c \<le> kSocketReadChunk) chunks"
  shows "\<exists>r. receive (new_frame_reader m) chunks = (map (\<lambda>(t, p). plain_frame t p) ms, r) \<and> fd_error r = EC_Ok \<and> unread r = []"
proof -
  have "concat frames = stream ms"
    using assms(2) by (induction rule: list_all2_induct) (auto simp: stream_def encode_frame_iff)
  then have "unread (new_frame_reader m) @ concat chunks = stream ms"
    using assms(3) by (simp add: unread_def new_frame_reader_def)
  moreover have "sound_reader (new_frame_reader m)"
    by (simp add: sound_reader_def new_frame_reader_def)
  ultimately show ?thesis
    using receive_stream [OF _ _ assms(1,4)] by (auto simp: sound_reader_def)
qed

theorem frames_survive_chunking_witness:
  "\<exists>r. receive (new_frame_reader 64) [wire_frame MT_Hello [1, 2], take 9 (wire_frame MT_Goodbye []), drop 9 (wire_frame MT_Goodbye [])] =
     ([plain_frame MT_Hello [1, 2], plain_frame MT_Goodbye []], r) \<and> fd_error r = EC_Ok"
proof -
  have "fd_max_payload (new_frame_reader 64) = 64"
    by (simp add: new_frame_reader_def kMaxFramePayload_def)
  then show ?thesis
    using frames_survive_chunking [of 64 "[(MT_Hello, [1, 2]), (MT_Goodbye, [])]" "[wire_frame MT_Hello [1, 2], wire_frame MT_Goodbye []]"
        "[wire_frame MT_Hello [1, 2], take 9 (wire_frame MT_Goodbye []), drop 9 (wire_frame MT_Goodbye [])]"]
    by (simp add: encode_frame_iff kSocketReadChunk_def del: receive.simps) blast
qed

section \<open>Damage\<close>

text \<open>After an error the reader is poisoned.\<close>

lemma reader_sticky:
  "fd_error r \<noteq> EC_Ok \<Longrightarrow> FrameReader_next r = (Inl (fd_error r), r) \<and> FrameReader_push bytes r = (fd_error r, r)"
  by (simp add: FrameReader_next_def FrameReader_push_def)

text \<open>
  C33. A damaged frame is never delivered. When one byte of an encoded frame, in its header, its payload or either checksum,
  arrives with another value, the decoder reports corruption or an integrity failure, delivers nothing and is poisoned: from
  then on every call returns the same error and no byte is interpreted.
\<close>

theorem damaged_frame_poisons_reader:
  assumes r: "fd_error r = EC_Ok" "unread r = (wire_frame t payload)[i := b] @ rest" and p: "length payload \<le> unat (fd_max_payload r)"
    and i: "i < length (wire_frame t payload)" "b \<noteq> wire_frame t payload ! i"
  shows "\<exists>e. e \<in> {EC_Corrupt, EC_IntegrityFailure} \<and> FrameReader_next r = (Inl e, r\<lparr>fd_error := e\<rparr>) \<and>
    FrameReader_next (r\<lparr>fd_error := e\<rparr>) = (Inl e, r\<lparr>fd_error := e\<rparr>) \<and>
    FrameReader_push bytes (r\<lparr>fd_error := e\<rparr>) = (e, r\<lparr>fd_error := e\<rparr>)"
proof -
  define bs where "bs = (wire_frame t payload)[i := b] @ rest"
  have un: "drop (fd_offset r) (fd_buffer r) = bs"
    using r(2) by (simp add: unread_def bs_def)
  have len: "length (fd_buffer r) - fd_offset r = 24 + length payload + length rest"
    using arg_cong [OF r(2), of length] by (simp add: unread_def)
  define head where "head = with_crc (frame_body t (length payload))"
  define tail where "tail = with_crc payload"
  have wf: "wire_frame t payload = head @ tail" and hl: "length head = 20" and tl: "length tail = length payload + 4"
    by (simp_all add: wire_frame_def head_def tail_def)
  have ok: "check_trailing_crc head = EC_Ok" "check_trailing_crc tail = EC_Ok"
    by (simp_all add: head_def tail_def check_with_crc)
  have "\<exists>e. e \<in> {EC_Corrupt, EC_IntegrityFailure} \<and> FrameReader_next r = (Inl e, r\<lparr>fd_error := e\<rparr>)"
  proof (cases "i < 20")
    case True
    have bs: "bs = head[i := b] @ tail @ rest"
      using True by (simp add: bs_def wf hl list_update_append)
    have "check_trailing_crc (head[i := b]) = EC_IntegrityFailure"
      using True i hl by (intro check_detects_byte [OF ok(1)]) (simp_all add: wf nth_append)
    then have "read_u32_at 16 (head[i := b]) \<noteq> crc32c (take 16 (head[i := b])) 0"
      by (simp add: check_trailing_crc_def hl Let_def split: if_splits)
    moreover have "read_u32_at 16 bs = read_u32_at 16 (head[i := b])" "take 16 bs = take 16 (head[i := b])"
      by (simp_all add: bs read_u32_at_def hl)
    ultimately have "check_frame_header m bs \<in> {Inl EC_Corrupt, Inl EC_IntegrityFailure}" for m
      by (simp add: check_frame_header_def)
    then show ?thesis
      using r(1) len unfolding FrameReader_next_def un Let_def wire_sizes
      by (auto split: sum.split) (metis Inl_inject Inl_Inr_False)+
  next
    case False
    define j where "j = i - 20"
    have bs: "bs = head @ tail[j := b] @ rest"
      using False by (simp add: bs_def wf hl list_update_append j_def)
    have "take 20 bs = take 20 (wire_frame t payload @ [])"
      by (simp add: bs wf hl)
    then have chk: "check_frame_header (fd_max_payload r) bs = Inr (t, of_nat (length payload))"
      using check_take [of bs] check_take [of "wire_frame t payload @ []"] check_wire_header [OF p, of t "[]"] by (simp add: bs hl)
    have "check_trailing_crc (tail[j := b]) = EC_IntegrityFailure"
      using False i hl tl by (intro check_detects_byte [OF ok(2)]) (simp_all add: wf nth_append j_def)
    then have "read_u32_at (length payload) (tail[j := b]) \<noteq> crc32c (take (length payload) (tail[j := b])) 0"
      by (simp add: check_trailing_crc_def tl Let_def split: if_splits)
    moreover have "read_u32_at (20 + length payload) bs = read_u32_at (length payload) (tail[j := b])"
      "take (length payload) (drop 20 bs) = take (length payload) (tail[j := b])"
      by (simp_all add: bs read_u32_at_def hl tl)
    ultimately show ?thesis
      using r(1) len unfolding FrameReader_next_def un Let_def wire_sizes chk sum.case prod.case frame_length_word [OF p]
      by auto
  qed
  then obtain e where e: "e \<in> {EC_Corrupt, EC_IntegrityFailure}" "FrameReader_next r = (Inl e, r\<lparr>fd_error := e\<rparr>)"
    by blast
  then have "fd_error (r\<lparr>fd_error := e\<rparr>) \<noteq> EC_Ok"
    by auto
  from reader_sticky [OF this] show ?thesis
    using e by auto
qed

definition garbled_reader :: FrameReader where
  "garbled_reader = (new_frame_reader 64)\<lparr>fd_buffer := (wire_frame MT_Goodbye [5])[20 := 6]\<rparr>"

theorem damaged_frame_poisons_reader_witness:
  "\<exists>e. e \<in> {EC_Corrupt, EC_IntegrityFailure} \<and> FrameReader_next garbled_reader = (Inl e, garbled_reader\<lparr>fd_error := e\<rparr>)"
  using damaged_frame_poisons_reader [of garbled_reader MT_Goodbye "[5]" 20 6 "[]"]
  by (simp add: garbled_reader_def new_frame_reader_def unread_def kMaxFramePayload_def wire_frame_def nth_append with_crc_def) blast

end
