(* ===== verification/Messages.thy ===== *)
theory Messages
  imports Frame Coordinator Codec_Laws
begin

text \<open>
  The protocol bodies of \<open>src/net/messages.cpp\<close>: the handshake, the request and response envelopes, the response
  bodies and the small request bodies. A text field is a length-prefixed blob whose length both sides bound, so the
  contract of a message is stated for readers and writers with the default blob bound; every codec of the domain
  layer meets it as well.
\<close>

section \<open>Bodies\<close>

definition kMaxTokenBytes :: nat where "kMaxTokenBytes = 256"
definition kMaxRoleBytes :: nat where "kMaxRoleBytes = 64"

primrec error_code_wire :: "error_code \<Rightarrow> u16" where
  "error_code_wire EC_Ok = 0"
| "error_code_wire EC_InvalidArgument = 1"
| "error_code_wire EC_OutOfRange = 2"
| "error_code_wire EC_CapacityExceeded = 3"
| "error_code_wire EC_Overflow = 4"
| "error_code_wire EC_NotFound = 5"
| "error_code_wire EC_AlreadyExists = 6"
| "error_code_wire EC_InvalidState = 7"
| "error_code_wire EC_Unsupported = 8"
| "error_code_wire EC_Unknown = 9"
| "error_code_wire EC_Stale = 10"
| "error_code_wire EC_Conflict = 11"
| "error_code_wire EC_Invalid = 12"
| "error_code_wire EC_Corrupt = 13"
| "error_code_wire EC_Truncated = 14"
| "error_code_wire EC_VersionUnsupported = 15"
| "error_code_wire EC_IntegrityFailure = 16"
| "error_code_wire EC_SequenceRegression = 17"
| "error_code_wire EC_ReplayDetected = 18"
| "error_code_wire EC_Unauthorized = 19"
| "error_code_wire EC_InvalidEnum = 20"
| "error_code_wire EC_TrailingGarbage = 21"
| "error_code_wire EC_SearchLimitReached = 22"
| "error_code_wire EC_Indeterminate = 23"
| "error_code_wire EC_Refused = 24"
| "error_code_wire EC_IoError = 25"
| "error_code_wire EC_Shutdown = 26"
| "error_code_wire EC_Exhausted = 27"
| "error_code_wire EC_NotSupportedByHost = 28"
| "error_code_wire EC_Underflow = 29"
| "error_code_wire EC_QuotaExceeded = 30"

definition error_code_all :: "error_code list" where
  "error_code_all =
     [EC_Ok, EC_InvalidArgument, EC_OutOfRange, EC_CapacityExceeded, EC_Overflow, EC_NotFound, EC_AlreadyExists,
      EC_InvalidState, EC_Unsupported, EC_Unknown, EC_Stale, EC_Conflict, EC_Invalid, EC_Corrupt, EC_Truncated,
      EC_VersionUnsupported, EC_IntegrityFailure, EC_SequenceRegression, EC_ReplayDetected, EC_Unauthorized,
      EC_InvalidEnum, EC_TrailingGarbage, EC_SearchLimitReached, EC_Indeterminate, EC_Refused, EC_IoError,
      EC_Shutdown, EC_Exhausted, EC_NotSupportedByHost, EC_Underflow, EC_QuotaExceeded]"

interpretation error_code_wires: wire_enum error_code_wire error_code_all
proof
  show "enum_decode error_code_wire error_code_all (error_code_wire e) = Some e" for e
    by (cases e) (simp_all add: enum_decode_def error_code_all_def)
qed

record HelloRequest =
  hq_protocol_version :: u32
  hq_process :: u64
  hq_boot :: u64
  hq_principal :: u64
  hq_token :: "u8 list"
  hq_role :: "u8 list"

record HelloResponse =
  hr_session :: u64
  hr_term :: u64
  hr_boot :: u64
  hr_authority :: AuthorityVector
  hr_detail :: "u8 list"

record RequestEnvelope =
  rq_session :: u64
  rq_sequence :: u64
  rq_term :: u64
  rq_boot :: u64

record ResponseEnvelope =
  rs_session :: u64
  rs_sequence :: u64
  rs_term :: u64
  rs_boot :: u64
  rs_code :: error_code
  rs_detail :: "u8 list"

record GrantBody =
  gb_grant :: Grant

record DecisionBody =
  db_decision :: Decision
  db_plan :: AllocationPlan

record StatusBody =
  sb_authority :: AuthorityVector
  sb_boot :: u64
  sb_term :: u64
  sb_evidence_generation :: u64
  sb_capacity_generation :: u64
  sb_fabric_generation :: u64
  sb_live_grants :: u64
  sb_retained_grants :: u64
  sb_retained_fences :: u64
  sb_retained_decisions :: u64
  sb_retained_contracts :: u64
  sb_journal_records :: u64
  sb_journal_bytes_in_segment :: u64
  sb_accounting_closed :: bool
  sb_policy_installed :: bool
  sb_policy_digest :: "u8 list"
  sb_recovery :: "u8 list"
  sb_recovery_detail :: "u8 list"

record RestorationBody =
  eb_evaluation :: RestorationEvaluation

record RevalidateBody =
  vb_evaluated :: u64
  vb_fenced :: u64
  vb_expired :: u64

definition HelloRequest_validate :: "HelloRequest \<Rightarrow> status" where
  "HelloRequest_validate h =
     (if hq_protocol_version h \<noteq> ucast kWireProtocolVersion then EC_VersionUnsupported
      else if \<not> valid_id (hq_process h) then EC_InvalidArgument
      else if \<not> valid_id (hq_boot h) then EC_InvalidArgument
      else if \<not> valid_id (hq_principal h) then EC_InvalidArgument
      else if length (hq_token h) > kMaxTokenBytes then EC_CapacityExceeded
      else if length (hq_role h) > kMaxRoleBytes then EC_CapacityExceeded
      else if \<not> is_text_safe (hq_token h) \<or> \<not> is_text_safe (hq_role h) then EC_InvalidArgument
      else EC_Ok)"

definition HelloResponse_validate :: "HelloResponse \<Rightarrow> status" where
  "HelloResponse_validate h =
     (if \<not> valid_id (hr_session h) then EC_InvalidArgument
      else if \<not> valid_id (hr_term h) then EC_InvalidArgument
      else if \<not> valid_id (hr_boot h) then EC_InvalidArgument
      else EC_Ok)"

definition RequestEnvelope_validate :: "RequestEnvelope \<Rightarrow> status" where
  "RequestEnvelope_validate e =
     (if \<not> valid_id (rq_session e) then EC_InvalidArgument
      else if \<not> valid_id (rq_sequence e) then EC_InvalidArgument
      else if \<not> valid_id (rq_term e) then EC_InvalidArgument
      else if \<not> valid_id (rq_boot e) then EC_InvalidArgument
      else EC_Ok)"

definition encode_HelloRequest :: "HelloRequest \<Rightarrow> byte_writer \<Rightarrow> byte_writer" where
  "encode_HelloRequest h = write_all
     [ByteWriter_u32 (hq_protocol_version h), ByteWriter_u64 (hq_process h), ByteWriter_u64 (hq_boot h),
      ByteWriter_u64 (hq_principal h), ByteWriter_blob (hq_token h), ByteWriter_blob (hq_role h)]"

definition decode_HelloRequest :: "HelloRequest decoder" where
  "decode_HelloRequest =
     dec_field ByteReader_u32 (\<lambda>version. dec_field ByteReader_u64 (\<lambda>process. dec_field ByteReader_u64 (\<lambda>boot.
     dec_field ByteReader_u64 (\<lambda>principal. dec_field ByteReader_blob (\<lambda>token. dec_field ByteReader_blob (\<lambda>role.
     dec_ok (let candidate = \<lparr>hq_protocol_version = version, hq_process = process, hq_boot = boot,
                              hq_principal = principal, hq_token = token, hq_role = role\<rparr>
             in dec_check (HelloRequest_validate candidate) (dec_return candidate))))))))"

definition encode_HelloResponse :: "HelloResponse \<Rightarrow> byte_writer \<Rightarrow> byte_writer" where
  "encode_HelloResponse h = write_all
     [ByteWriter_u64 (hr_session h), ByteWriter_u64 (hr_term h), ByteWriter_u64 (hr_boot h),
      encode_AuthorityVector (hr_authority h), ByteWriter_blob (hr_detail h)]"

definition decode_HelloResponse :: "HelloResponse decoder" where
  "decode_HelloResponse =
     dec_field ByteReader_u64 (\<lambda>session. dec_field ByteReader_u64 (\<lambda>trm. dec_field ByteReader_u64 (\<lambda>boot.
     dec_sub decode_AuthorityVector (\<lambda>authority. dec_field ByteReader_blob (\<lambda>detail.
     dec_ok (let candidate = \<lparr>hr_session = session, hr_term = trm, hr_boot = boot, hr_authority = authority,
                              hr_detail = detail\<rparr>
             in dec_check (HelloResponse_validate candidate) (dec_return candidate)))))))"

definition encode_RequestEnvelope :: "RequestEnvelope \<Rightarrow> byte_writer \<Rightarrow> byte_writer" where
  "encode_RequestEnvelope e = write_all
     [ByteWriter_u64 (rq_session e), ByteWriter_u64 (rq_sequence e), ByteWriter_u64 (rq_term e),
      ByteWriter_u64 (rq_boot e)]"

definition decode_RequestEnvelope :: "RequestEnvelope decoder" where
  "decode_RequestEnvelope =
     dec_field ByteReader_u64 (\<lambda>session. dec_field ByteReader_u64 (\<lambda>sequence. dec_field ByteReader_u64 (\<lambda>trm.
     dec_field ByteReader_u64 (\<lambda>boot.
     dec_ok (let candidate = \<lparr>rq_session = session, rq_sequence = sequence, rq_term = trm, rq_boot = boot\<rparr>
             in dec_check (RequestEnvelope_validate candidate) (dec_return candidate))))))"

definition encode_ResponseEnvelope :: "ResponseEnvelope \<Rightarrow> byte_writer \<Rightarrow> byte_writer" where
  "encode_ResponseEnvelope e = write_all
     [ByteWriter_u64 (rs_session e), ByteWriter_u64 (rs_sequence e), ByteWriter_u64 (rs_term e),
      ByteWriter_u64 (rs_boot e), write_enum error_code_wire (rs_code e), ByteWriter_blob (rs_detail e)]"

definition decode_ResponseEnvelope :: "ResponseEnvelope decoder" where
  "decode_ResponseEnvelope =
     dec_field ByteReader_u64 (\<lambda>session. dec_field ByteReader_u64 (\<lambda>sequence. dec_field ByteReader_u64 (\<lambda>trm.
     dec_field ByteReader_u64 (\<lambda>boot. dec_field (read_enum error_code_wire error_code_all EC_IoError) (\<lambda>code.
     dec_field ByteReader_blob (\<lambda>detail.
     dec_ok (dec_return \<lparr>rs_session = session, rs_sequence = sequence, rs_term = trm, rs_boot = boot,
                         rs_code = code, rs_detail = detail\<rparr>)))))))"

definition encode_GrantBody :: "GrantBody \<Rightarrow> byte_writer \<Rightarrow> byte_writer" where
  "encode_GrantBody b = encode_Grant (gb_grant b)"

definition decode_GrantBody :: "GrantBody decoder" where
  "decode_GrantBody = dec_sub decode_Grant (\<lambda>g. dec_return \<lparr>gb_grant = g\<rparr>)"

definition encode_DecisionBody :: "DecisionBody \<Rightarrow> byte_writer \<Rightarrow> byte_writer" where
  "encode_DecisionBody b = write_all [encode_Decision (db_decision b), encode_AllocationPlan (db_plan b)]"

definition decode_DecisionBody :: "DecisionBody decoder" where
  "decode_DecisionBody =
     dec_sub decode_Decision (\<lambda>d. dec_sub decode_AllocationPlan (\<lambda>p. dec_return \<lparr>db_decision = d, db_plan = p\<rparr>))"

definition encode_StatusBody :: "StatusBody \<Rightarrow> byte_writer \<Rightarrow> byte_writer" where
  "encode_StatusBody b = write_all
     [encode_AuthorityVector (sb_authority b), ByteWriter_u64 (sb_boot b), ByteWriter_u64 (sb_term b),
      ByteWriter_u64 (sb_evidence_generation b), ByteWriter_u64 (sb_capacity_generation b),
      ByteWriter_u64 (sb_fabric_generation b), ByteWriter_u64 (sb_live_grants b), ByteWriter_u64 (sb_retained_grants b),
      ByteWriter_u64 (sb_retained_fences b), ByteWriter_u64 (sb_retained_decisions b),
      ByteWriter_u64 (sb_retained_contracts b), ByteWriter_u64 (sb_journal_records b),
      ByteWriter_u64 (sb_journal_bytes_in_segment b), ByteWriter_boolean (sb_accounting_closed b),
      ByteWriter_boolean (sb_policy_installed b), ByteWriter_blob (sb_policy_digest b), ByteWriter_blob (sb_recovery b),
      ByteWriter_blob (sb_recovery_detail b)]"

definition decode_StatusBody :: "StatusBody decoder" where
  "decode_StatusBody =
     dec_sub decode_AuthorityVector (\<lambda>authority. dec_field ByteReader_u64 (\<lambda>boot. dec_field ByteReader_u64 (\<lambda>trm.
     dec_field ByteReader_u64 (\<lambda>evidence. dec_field ByteReader_u64 (\<lambda>capacity. dec_field ByteReader_u64 (\<lambda>fabric.
     dec_field ByteReader_u64 (\<lambda>live. dec_field ByteReader_u64 (\<lambda>grants. dec_field ByteReader_u64 (\<lambda>fences.
     dec_field ByteReader_u64 (\<lambda>decisions. dec_field ByteReader_u64 (\<lambda>contracts. dec_field ByteReader_u64 (\<lambda>records.
     dec_field ByteReader_u64 (\<lambda>bytes. dec_field ByteReader_boolean (\<lambda>closed. dec_field ByteReader_boolean (\<lambda>installed.
     dec_field ByteReader_blob (\<lambda>digest. dec_field ByteReader_blob (\<lambda>recovery. dec_field ByteReader_blob (\<lambda>detail.
     dec_ok (dec_return
       \<lparr>sb_authority = authority, sb_boot = boot, sb_term = trm, sb_evidence_generation = evidence,
        sb_capacity_generation = capacity, sb_fabric_generation = fabric, sb_live_grants = live,
        sb_retained_grants = grants, sb_retained_fences = fences, sb_retained_decisions = decisions,
        sb_retained_contracts = contracts, sb_journal_records = records, sb_journal_bytes_in_segment = bytes,
        sb_accounting_closed = closed, sb_policy_installed = installed, sb_policy_digest = digest,
        sb_recovery = recovery, sb_recovery_detail = detail\<rparr>)))))))))))))))))))"

definition encode_RestorationBody :: "RestorationBody \<Rightarrow> byte_writer \<Rightarrow> byte_writer" where
  "encode_RestorationBody b = encode_RestorationEvaluation (eb_evaluation b)"

definition decode_RestorationBody :: "RestorationBody decoder" where
  "decode_RestorationBody = dec_sub decode_RestorationEvaluation (\<lambda>e. dec_return \<lparr>eb_evaluation = e\<rparr>)"

definition encode_RevalidateBody :: "RevalidateBody \<Rightarrow> byte_writer \<Rightarrow> byte_writer" where
  "encode_RevalidateBody b =
     write_all [ByteWriter_u64 (vb_evaluated b), ByteWriter_u64 (vb_fenced b), ByteWriter_u64 (vb_expired b)]"

definition decode_RevalidateBody :: "RevalidateBody decoder" where
  "decode_RevalidateBody =
     dec_field ByteReader_u64 (\<lambda>evaluated. dec_field ByteReader_u64 (\<lambda>fenced. dec_field ByteReader_u64 (\<lambda>expired.
     dec_ok (dec_return \<lparr>vb_evaluated = evaluated, vb_fenced = fenced, vb_expired = expired\<rparr>))))"

section \<open>Request bodies\<close>

text \<open>A body must contain exactly one object.\<close>

definition decode_object_body :: "'a decoder \<Rightarrow> u8 list \<Rightarrow> 'a result" where
  "decode_object_body dec body =
     (case dec (new_reader body kMaxBlobBytes) of
        (Inl e, _) \<Rightarrow> Inl e
      | (Inr v, r) \<Rightarrow> if decode_finish r = EC_Ok then Inr v else Inl (decode_finish r))"

definition encode_id_body :: "u64 \<Rightarrow> u8 list" where
  "encode_id_body k = bw_data (ByteWriter_u64 k (new_writer 16 kMaxBlobBytes))"

definition decode_id_body :: "u8 list \<Rightarrow> u64 result" where
  "decode_id_body = decode_object_body (dec_field ByteReader_u64 (\<lambda>k. dec_ok (dec_return k)))"

definition encode_attempt_body :: "u64 \<Rightarrow> u64 \<Rightarrow> u8 list" where
  "encode_attempt_body grant attempt =
     bw_data (write_all [ByteWriter_u64 grant, ByteWriter_u64 attempt] (new_writer 32 kMaxBlobBytes))"

definition decode_attempt_body :: "u8 list \<Rightarrow> (u64 \<times> u64) result" where
  "decode_attempt_body = decode_object_body
     (dec_field ByteReader_u64 (\<lambda>grant. dec_field ByteReader_u64 (\<lambda>attempt. dec_ok (dec_return (grant, attempt)))))"

definition encode_fence_body :: "u64 \<Rightarrow> FenceReason \<Rightarrow> u8 list" where
  "encode_fence_body grant reason =
     bw_data (write_all [ByteWriter_u64 grant, write_enum FenceReason_code reason] (new_writer 32 kMaxBlobBytes))"

definition decode_fence_body :: "u8 list \<Rightarrow> (u64 \<times> FenceReason) result" where
  "decode_fence_body = decode_object_body
     (dec_field ByteReader_u64 (\<lambda>grant. dec_field (read_enum FenceReason_code FenceReason_all FR_Manual) (\<lambda>reason.
      dec_ok (dec_return (grant, reason)))))"

section \<open>The contract of a message\<close>

text \<open>
  As \<open>codes\<close> of the domain codecs, for writers and readers whose blob bound is the default one.
\<close>

definition wire_emits :: "(byte_writer \<Rightarrow> byte_writer) \<Rightarrow> u8 list \<Rightarrow> bool" where
  "wire_emits f bs \<longleftrightarrow>
     (\<forall>w. bw_ok (f w) \<longrightarrow> bw_ok w \<and> bw_max_blob (f w) = bw_max_blob w \<and>
        (bw_max_blob w = kMaxBlobBytes \<longrightarrow> f w = w\<lparr>bw_data := bw_data w @ bs\<rparr>))"

definition wire_stands :: "byte_reader \<Rightarrow> u8 list \<Rightarrow> bool" where
  "wire_stands r bs \<longleftrightarrow> stands_at r bs \<and> br_max_blob r = kMaxBlobBytes"

definition wire_field :: "(byte_writer \<Rightarrow> byte_writer) \<Rightarrow> 'a getter \<Rightarrow> 'a \<Rightarrow> bool" where
  "wire_field f get v \<longleftrightarrow> (\<exists>bs. wire_emits f bs \<and> (\<forall>r. wire_stands r bs \<longrightarrow> get r = (v, past bs r)))"

definition wire_codes :: "(byte_writer \<Rightarrow> byte_writer) \<Rightarrow> 'a decoder \<Rightarrow> 'a \<Rightarrow> bool" where
  "wire_codes f d v \<longleftrightarrow> (\<exists>bs. wire_emits f bs \<and> (\<forall>r. wire_stands r bs \<longrightarrow> d r = (Inr v, past bs r)))"

lemma wire_stands_append: "wire_stands r (as @ bs) \<Longrightarrow> wire_stands r as \<and> wire_stands (past as r) bs"
  using stands_at_append by (auto simp: wire_stands_def past_def)

lemma wire_emits_Cons:
  assumes f: "wire_emits f as" and fs: "wire_emits (write_all fs) bs"
  shows "wire_emits (write_all (f # fs)) (as @ bs)"
proof -
  have step: "write_all (f # fs) w = write_all fs (f w)" for w
    by (simp add: write_all_def)
  show ?thesis
    using f fs unfolding wire_emits_def step by (metis append.assoc byte_writer.select_convs(1) byte_writer.select_convs(3)
        byte_writer.surjective byte_writer.update_convs(1))
qed

lemma emits_wire: "emits f bs \<Longrightarrow> wire_emits f bs"
proof -
  assume f: "emits f bs"
  have "bw_ok w \<and> bw_max_blob (f w) = bw_max_blob w" if "bw_ok (f w)" for w
  proof -
    have e: "f w = w\<lparr>bw_data := bw_data w @ bs\<rparr>"
      using f that by (simp add: emits_def)
    show ?thesis
      using that by (subst (asm) e, subst e) simp
  qed
  then show ?thesis
    using f by (simp add: wire_emits_def emits_def)
qed

lemma field_codes_wire: "field_codes f get v \<Longrightarrow> wire_field f get v"
  unfolding field_codes_def wire_field_def gets_def wire_stands_def using emits_wire by blast

lemma codes_wire: "codes f d v \<Longrightarrow> wire_codes f d v"
  unfolding codes_def wire_codes_def reads_def wire_stands_def using emits_wire by blast

lemma ByteWriter_raw_bound [simp]: "bw_max_blob (ByteWriter_raw bs w) = bw_max_blob w"
  by (simp add: ByteWriter_raw_def ByteWriter_ensure_def Let_def split: prod.split)

lemma ByteWriter_blob_bound: "bw_max_blob (ByteWriter_blob text w) = bw_max_blob w"
  by (simp add: ByteWriter_blob_def ByteWriter_u32_def ByteWriter_ensure_def Let_def)

lemma ByteWriter_blob_sticky: "bw_ok (ByteWriter_blob text w) \<Longrightarrow> bw_ok w"
  by (simp add: ByteWriter_blob_def ByteWriter_u32_def ByteWriter_raw_def ByteWriter_ensure_def Let_def split: if_splits)

lemma wire_field_blob:
  assumes "length text \<le> kMaxBlobBytes"
  shows "wire_field (ByteWriter_blob text) ByteReader_blob text"
proof -
  have "wire_emits (ByteWriter_blob text) (enc_blob text)"
    using ByteWriter_blob_ok ByteWriter_blob_sticky by (simp add: wire_emits_def ByteWriter_blob_bound kMaxBlobBytes_def)
  moreover have "ByteReader_blob r = (text, past (enc_blob text) r)" if "wire_stands r (enc_blob text)" for r
    using that assms ByteReader_blob_enc [of r "text"]
    by (auto simp: wire_stands_def stands_at_def past_def fits_blob_def kMaxBlobBytes_def)
  ultimately show ?thesis
    by (auto simp: wire_field_def)
qed

lemma wire_codes_field:
  assumes "wire_field f get x" and "wire_codes (write_all fs) (k x) v"
  shows "wire_codes (write_all (f # fs)) (dec_field get k) v"
proof -
  obtain as bs where b: "wire_emits f as" "\<And>r. wire_stands r as \<Longrightarrow> get r = (x, past as r)"
    "wire_emits (write_all fs) bs" "\<And>r. wire_stands r bs \<Longrightarrow> k x r = (Inr v, past bs r)"
    using assms by (auto simp: wire_field_def wire_codes_def)
  then have "dec_field get k r = (Inr v, past (as @ bs) r)" if "wire_stands r (as @ bs)" for r
    using wire_stands_append [OF that] by (simp add: dec_field_def past_append)
  then show ?thesis
    using wire_emits_Cons [OF b(1,3)] by (auto simp: wire_codes_def)
qed

lemma wire_codes_sub:
  assumes "wire_codes f d x" and "wire_codes (write_all fs) (k x) v"
  shows "wire_codes (write_all (f # fs)) (dec_sub d k) v"
proof -
  obtain as bs where b: "wire_emits f as" "\<And>r. wire_stands r as \<Longrightarrow> d r = (Inr x, past as r)"
    "wire_emits (write_all fs) bs" "\<And>r. wire_stands r bs \<Longrightarrow> k x r = (Inr v, past bs r)"
    using assms by (auto simp: wire_codes_def)
  then have "dec_sub d k r = (Inr v, past (as @ bs) r)" if "wire_stands r (as @ bs)" for r
    using wire_stands_append [OF that] by (simp add: dec_sub_def past_append)
  then show ?thesis
    using wire_emits_Cons [OF b(1,3)] by (auto simp: wire_codes_def)
qed

lemma wire_codes_single: "wire_codes (write_all [f]) d v \<Longrightarrow> wire_codes f d v"
  by (simp add: wire_codes_def wire_emits_def write_all_def)

lemma wire_codes_ok: "wire_codes f d v \<Longrightarrow> wire_codes f (dec_ok d) v"
  by (auto simp: wire_codes_def wire_stands_def stands_at_def dec_ok_def)

lemma wire_codes_return: "v = x \<Longrightarrow> wire_codes (write_all []) (dec_return x) v"
  by (rule codes_wire) (rule codes_return)

lemma wire_codes_let_check:
  "x = v \<Longrightarrow> S v = EC_Ok \<Longrightarrow> wire_codes (write_all []) (let c = x in dec_check (S c) (dec_return c)) v"
  by (rule codes_wire) (rule codes_let_check)

lemmas wire_u64 = wire_codes_field [OF field_codes_u64 [THEN field_codes_wire]]
lemmas wire_u32 = wire_codes_field [OF field_codes_u32 [THEN field_codes_wire]]
lemmas wire_bool = wire_codes_field [OF field_codes_bool [THEN field_codes_wire]]
lemmas wire_code = wire_codes_field [OF field_codes_enum [OF error_code_wires.wire_enum_axioms, THEN field_codes_wire]]
lemmas wire_blob = wire_codes_field [OF wire_field_blob]

lemmas wire_intros = wire_u64 wire_u32 wire_bool wire_code wire_blob wire_codes_ok wire_codes_let_check wire_codes_return

lemma advances_blob: "advances ByteReader_blob"
  using reader_advances_blob by (simp add: advances_def)

lemmas wire_delivers = delivers_intros advances_blob

text \<open>
  \<open>fits\<close> is what a sender may hand to the encoder, \<open>valid\<close> what a receiver gets from the decoder. A message is found
  again in front of whatever follows it, which is how an envelope precedes its body.
\<close>

locale message_codec =
  fixes encode :: "'a \<Rightarrow> byte_writer \<Rightarrow> byte_writer"
    and decode :: "'a decoder"
    and fits :: "'a \<Rightarrow> bool"
    and valid :: "'a \<Rightarrow> bool"
  assumes wire: "fits v \<Longrightarrow> wire_codes (encode v) decode v"
    and delivered_valid: "delivers decode valid"
begin

lemma decode_front:
  assumes "fits v" and "bw_ok (encode v (new_writer t kMaxBlobBytes))"
  shows "decode (new_reader (bw_data (encode v (new_writer t kMaxBlobBytes)) @ rest) kMaxBlobBytes) =
     (Inr v, past (bw_data (encode v (new_writer t kMaxBlobBytes)))
        (new_reader (bw_data (encode v (new_writer t kMaxBlobBytes)) @ rest) kMaxBlobBytes))"
proof -
  obtain bs where bs: "wire_emits (encode v) bs" "\<And>r. wire_stands r bs \<Longrightarrow> decode r = (Inr v, past bs r)"
    using wire [OF assms(1)] by (auto simp: wire_codes_def)
  then have "encode v (new_writer t kMaxBlobBytes) =
      (new_writer t kMaxBlobBytes)\<lparr>bw_data := bw_data (new_writer t kMaxBlobBytes) @ bs\<rparr>"
    using assms(2) unfolding wire_emits_def by (metis byte_writer.select_convs(3) new_writer_def)
  then have data: "bw_data (encode v (new_writer t kMaxBlobBytes)) = bs"
    by (simp add: new_writer_def)
  show ?thesis
    unfolding data by (rule bs(2)) (simp add: wire_stands_def stands_at_def new_reader_def)
qed

lemma object_body:
  assumes "fits v" and "bw_ok (encode v (new_writer t kMaxBlobBytes))"
  shows "decode_object_body decode (bw_data (encode v (new_writer t kMaxBlobBytes))) = Inr v"
  using decode_front [OF assms, of "[]"]
  by (simp add: decode_object_body_def decode_finish_def past_def new_reader_def ByteReader_at_end_def)

lemma received_valid: "decode_object_body decode body = Inr v \<Longrightarrow> valid v"
proof -
  assume v: "decode_object_body decode body = Inr v"
  have "br_position (new_reader body kMaxBlobBytes) \<le> length (br_data (new_reader body kMaxBlobBytes))"
    by (simp add: new_reader_def)
  then show ?thesis
    using v delivered_valid unfolding delivers_from_def decode_object_body_def
    by (auto split: prod.splits sum.splits if_splits)
qed

end

sublocale record_codec \<subseteq> message_codec encode decode valid valid
  by unfold_locales (simp_all add: codes_wire codes_valid delivers_valid)

section \<open>Every body meets the contract\<close>

definition hello_response_fits :: "HelloResponse \<Rightarrow> bool" where
  "hello_response_fits h \<longleftrightarrow> HelloResponse_validate h = EC_Ok \<and> length (hr_detail h) \<le> kMaxBlobBytes"

definition response_fits :: "ResponseEnvelope \<Rightarrow> bool" where
  "response_fits e \<longleftrightarrow> length (rs_detail e) \<le> kMaxBlobBytes"

definition status_fits :: "StatusBody \<Rightarrow> bool" where
  "status_fits b \<longleftrightarrow> length (sb_policy_digest b) \<le> kMaxBlobBytes \<and> length (sb_recovery b) \<le> kMaxBlobBytes \<and>
     length (sb_recovery_detail b) \<le> kMaxBlobBytes"

lemma hello_texts:
  "HelloRequest_validate h = EC_Ok \<Longrightarrow> length (hq_token h) \<le> kMaxBlobBytes \<and> length (hq_role h) \<le> kMaxBlobBytes"
  by (simp add: HelloRequest_validate_def kMaxTokenBytes_def kMaxRoleBytes_def kMaxBlobBytes_def split: if_splits)

interpretation hello_request_message: message_codec encode_HelloRequest decode_HelloRequest
    "\<lambda>h. HelloRequest_validate h = EC_Ok" "\<lambda>h. HelloRequest_validate h = EC_Ok"
proof
  show "wire_codes (encode_HelloRequest v) decode_HelloRequest v" if "HelloRequest_validate v = EC_Ok" for v
    unfolding encode_HelloRequest_def decode_HelloRequest_def
    by (intro wire_intros) (use that hello_texts [OF that] in simp_all)
  show "delivers decode_HelloRequest (\<lambda>h. HelloRequest_validate h = EC_Ok)"
    unfolding decode_HelloRequest_def by (intro wire_delivers)
qed

interpretation hello_response_message: message_codec encode_HelloResponse decode_HelloResponse
    hello_response_fits "\<lambda>h. HelloResponse_validate h = EC_Ok"
proof
  show "wire_codes (encode_HelloResponse v) decode_HelloResponse v" if "hello_response_fits v" for v
    unfolding encode_HelloResponse_def decode_HelloResponse_def
    by (intro wire_intros wire_codes_sub [OF authority_vector_codec.wire])
      (use that in \<open>simp_all add: hello_response_fits_def\<close>)
  show "delivers decode_HelloResponse (\<lambda>h. HelloResponse_validate h = EC_Ok)"
    unfolding decode_HelloResponse_def by (intro wire_delivers authority_vector_codec.delivers_then)
qed

interpretation request_message: record_codec encode_RequestEnvelope decode_RequestEnvelope
    "\<lambda>e. RequestEnvelope_validate e = EC_Ok"
proof
  show "codes (encode_RequestEnvelope v) decode_RequestEnvelope v" if "RequestEnvelope_validate v = EC_Ok" for v
    unfolding encode_RequestEnvelope_def decode_RequestEnvelope_def
    by (intro codec_intros) (use that in simp_all)
  show "delivers decode_RequestEnvelope (\<lambda>e. RequestEnvelope_validate e = EC_Ok)"
    unfolding decode_RequestEnvelope_def by (intro delivers_intros)
qed

interpretation response_message: message_codec encode_ResponseEnvelope decode_ResponseEnvelope
    response_fits "\<lambda>_. True"
proof
  show "wire_codes (encode_ResponseEnvelope v) decode_ResponseEnvelope v" if "response_fits v" for v
    unfolding encode_ResponseEnvelope_def decode_ResponseEnvelope_def
    by (intro wire_intros) (use that in \<open>simp_all add: response_fits_def\<close>)
  show "delivers decode_ResponseEnvelope (\<lambda>_. True)"
    unfolding decode_ResponseEnvelope_def by (intro wire_delivers) simp
qed

lemma wire_codes_body: "codes f d x \<Longrightarrow> v = b x \<Longrightarrow> wire_codes f (dec_sub d (\<lambda>x. dec_return (b x))) v"
  by (rule wire_codes_single, rule wire_codes_sub [OF codes_wire wire_codes_return])

interpretation grant_message: message_codec encode_GrantBody decode_GrantBody
    "\<lambda>b. grant_encodable (gb_grant b)" "\<lambda>b. grant_encodable (gb_grant b)"
proof
  show "wire_codes (encode_GrantBody v) decode_GrantBody v" if "grant_encodable (gb_grant v)" for v
    unfolding encode_GrantBody_def decode_GrantBody_def
    by (rule wire_codes_body [OF grant_codec.codes_valid [OF that]]) simp
  show "delivers decode_GrantBody (\<lambda>b. grant_encodable (gb_grant b))"
    unfolding decode_GrantBody_def by (intro grant_codec.delivers_then delivers_return) simp
qed

interpretation restoration_message: message_codec encode_RestorationBody decode_RestorationBody
    "\<lambda>b. restoration_encodable (eb_evaluation b)" "\<lambda>b. restoration_encodable (eb_evaluation b)"
proof
  show "wire_codes (encode_RestorationBody v) decode_RestorationBody v" if "restoration_encodable (eb_evaluation v)" for v
    unfolding encode_RestorationBody_def decode_RestorationBody_def
    by (rule wire_codes_body [OF restoration_codec.codes_valid [OF that]]) simp
  show "delivers decode_RestorationBody (\<lambda>b. restoration_encodable (eb_evaluation b))"
    unfolding decode_RestorationBody_def by (intro restoration_codec.delivers_then delivers_return) simp
qed

interpretation decision_message: message_codec encode_DecisionBody decode_DecisionBody
    "\<lambda>b. decision_encodable (db_decision b) \<and> plan_encodable (db_plan b)"
    "\<lambda>b. decision_encodable (db_decision b) \<and> plan_encodable (db_plan b)"
proof
  show "wire_codes (encode_DecisionBody v) decode_DecisionBody v"
    if "decision_encodable (db_decision v) \<and> plan_encodable (db_plan v)" for v
    unfolding encode_DecisionBody_def decode_DecisionBody_def
    by (intro wire_codes_sub [OF decision_codec.wire] wire_codes_sub [OF plan_codec.wire] wire_codes_return)
      (use that in simp_all)
  show "delivers decode_DecisionBody (\<lambda>b. decision_encodable (db_decision b) \<and> plan_encodable (db_plan b))"
    unfolding decode_DecisionBody_def
    by (intro decision_codec.delivers_then plan_codec.delivers_then delivers_return) simp
qed

interpretation status_message: message_codec encode_StatusBody decode_StatusBody status_fits "\<lambda>_. True"
proof
  show "wire_codes (encode_StatusBody v) decode_StatusBody v" if "status_fits v" for v
    unfolding encode_StatusBody_def decode_StatusBody_def
    by (intro wire_intros wire_codes_sub [OF authority_vector_codec.wire])
      (use that in \<open>simp_all add: status_fits_def\<close>)
  show "delivers decode_StatusBody (\<lambda>_. True)"
    unfolding decode_StatusBody_def by (intro wire_delivers authority_vector_codec.delivers_then) simp_all
qed

interpretation revalidate_message: record_codec encode_RevalidateBody decode_RevalidateBody "\<lambda>_. True"
proof
  show "codes (encode_RevalidateBody v) decode_RevalidateBody v" if "(\<lambda>_. True) v" for v
    unfolding encode_RevalidateBody_def decode_RevalidateBody_def by (intro codec_intros) simp_all
  show "delivers decode_RevalidateBody (\<lambda>_. True)"
    unfolding decode_RevalidateBody_def by (intro delivers_intros) simp_all
qed

section \<open>Round trips\<close>

definition accepted :: "('a \<Rightarrow> byte_writer \<Rightarrow> byte_writer) \<Rightarrow> 'a \<Rightarrow> bool" where
  "accepted enc v \<longleftrightarrow> bw_ok (enc v (new_writer kMaxDocumentBytes kMaxBlobBytes))"

definition exchanged :: "('a \<Rightarrow> byte_writer \<Rightarrow> byte_writer) \<Rightarrow> 'a decoder \<Rightarrow> 'a \<Rightarrow> bool" where
  "exchanged enc dec v \<longleftrightarrow> (accepted enc v \<longrightarrow> decode_object_body dec (encode_body enc v) = Inr v)"

context message_codec
begin

lemma exchange: "fits v \<Longrightarrow> exchanged encode decode v"
  by (simp add: exchanged_def accepted_def encode_body_def object_body)

lemma split_body:
  assumes "fits v" and "accepted encode v"
  shows "\<exists>r. decode (new_reader (encode_body encode v @ body) kMaxBlobBytes) = (Inr v, r) \<and> br_ok r \<and>
    drop (br_position r) (encode_body encode v @ body) = body"
  using decode_front [OF assms(1), of kMaxDocumentBytes body] assms(2)
  by (simp add: accepted_def encode_body_def past_def new_reader_def)

end

lemma small_body:
  assumes "codes (write_all fs) dec v" and "bw_ok (write_all fs (new_writer t kMaxBlobBytes))"
  shows "decode_object_body dec (bw_data (write_all fs (new_writer t kMaxBlobBytes))) = Inr v"
proof -
  obtain bs where bs: "emits (write_all fs) bs" "reads dec bs v"
    using assms(1) by (auto simp: codes_def)
  then have "write_all fs (new_writer t kMaxBlobBytes) =
      (new_writer t kMaxBlobBytes)\<lparr>bw_data := bw_data (new_writer t kMaxBlobBytes) @ bs\<rparr>"
    using assms(2) unfolding emits_def by blast
  then have data: "bw_data (write_all fs (new_writer t kMaxBlobBytes)) = bs"
    by (simp add: new_writer_def)
  have "stands_at (new_reader bs kMaxBlobBytes) bs"
    by (simp add: stands_at_def new_reader_def)
  then show ?thesis
    using bs(2) unfolding data
    by (simp add: reads_def decode_object_body_def decode_finish_def past_def new_reader_def ByteReader_at_end_def)
qed

lemmas writer_eval = write_all_def write_enum_def ByteWriter_u64_def ByteWriter_u32_def ByteWriter_u16_def ByteWriter_u8_def
  ByteWriter_boolean_def ByteWriter_blob_def ByteWriter_raw_def ByteWriter_ensure_def new_writer_def Let_def

lemma id_body_exact: "decode_id_body (encode_id_body k) = Inr k"
proof -
  have "decode_object_body (dec_field ByteReader_u64 (\<lambda>k. dec_ok (dec_return k)))
      (bw_data (write_all [ByteWriter_u64 k] (new_writer 16 kMaxBlobBytes))) = Inr k"
    by (rule small_body, intro codec_intros refl, simp add: writer_eval)
  then show ?thesis
    by (simp add: decode_id_body_def encode_id_body_def write_all_def)
qed

lemma attempt_body_exact: "decode_attempt_body (encode_attempt_body grant attempt) = Inr (grant, attempt)"
  unfolding decode_attempt_body_def encode_attempt_body_def
  by (rule small_body, intro codec_intros refl, simp add: writer_eval)

lemma fence_body_exact: "decode_fence_body (encode_fence_body grant reason) = Inr (grant, reason)"
  unfolding decode_fence_body_def encode_fence_body_def
  by (rule small_body, intro codec_intros refl, simp add: writer_eval)

text \<open>
  C34. The two ends of a connection agree. Every protocol body that its encoder accepted and that is in the domain of
  its message is read back by the peer to the same value with nothing left over; an envelope is also found again in
  front of whatever body follows it, and the body is exactly the rest. The request bodies that carry bare
  identities are read back unconditionally.
\<close>

theorem messages_round_trip:
  "(HelloRequest_validate hq = EC_Ok \<longrightarrow> exchanged encode_HelloRequest decode_HelloRequest hq) \<and>
   (hello_response_fits hr \<longrightarrow> exchanged encode_HelloResponse decode_HelloResponse hr) \<and>
   (grant_encodable (gb_grant g) \<longrightarrow> exchanged encode_GrantBody decode_GrantBody g) \<and>
   (decision_encodable (db_decision d) \<and> plan_encodable (db_plan d) \<longrightarrow>
      exchanged encode_DecisionBody decode_DecisionBody d) \<and>
   (status_fits sb \<longrightarrow> exchanged encode_StatusBody decode_StatusBody sb) \<and>
   (restoration_encodable (eb_evaluation e) \<longrightarrow> exchanged encode_RestorationBody decode_RestorationBody e) \<and>
   exchanged encode_RevalidateBody decode_RevalidateBody v \<and>
   (RequestEnvelope_validate q = EC_Ok \<and> accepted encode_RequestEnvelope q \<longrightarrow>
      (\<exists>r. decode_RequestEnvelope (new_reader (encode_body encode_RequestEnvelope q @ body) kMaxBlobBytes) = (Inr q, r) \<and>
           br_ok r \<and> drop (br_position r) (encode_body encode_RequestEnvelope q @ body) = body)) \<and>
   (response_fits s \<and> accepted encode_ResponseEnvelope s \<longrightarrow>
      (\<exists>r. decode_ResponseEnvelope (new_reader (encode_body encode_ResponseEnvelope s @ body) kMaxBlobBytes) = (Inr s, r) \<and>
           br_ok r \<and> drop (br_position r) (encode_body encode_ResponseEnvelope s @ body) = body)) \<and>
   decode_id_body (encode_id_body k) = Inr k \<and>
   decode_attempt_body (encode_attempt_body k a) = Inr (k, a) \<and>
   decode_fence_body (encode_fence_body k reason) = Inr (k, reason)"
  by (intro conjI impI hello_request_message.exchange hello_response_message.exchange grant_message.exchange
      decision_message.exchange status_message.exchange restoration_message.exchange revalidate_message.exchange
      request_message.split_body response_message.split_body id_body_exact attempt_body_exact fence_body_exact) simp_all

definition sample_hello :: HelloRequest where
  "sample_hello = \<lparr>hq_protocol_version = 1, hq_process = 7, hq_boot = 1, hq_principal = 3, hq_token = [65, 66],
     hq_role = [67]\<rparr>"

theorem messages_round_trip_witness:
  "HelloRequest_validate sample_hello = EC_Ok \<and> accepted encode_HelloRequest sample_hello \<and>
   decode_object_body decode_HelloRequest (encode_body encode_HelloRequest sample_hello) = Inr sample_hello"
proof -
  have v: "HelloRequest_validate sample_hello = EC_Ok"
    by (simp add: HelloRequest_validate_def sample_hello_def kWireProtocolVersion_def valid_id_def kMaxTokenBytes_def
        kMaxRoleBytes_def is_text_safe_def unsafe_char_def)
  moreover have "accepted encode_HelloRequest sample_hello"
    by (simp add: accepted_def encode_HelloRequest_def sample_hello_def writer_eval kMaxDocumentBytes_def kMaxBlobBytes_def)
  moreover have "exchanged encode_HelloRequest decode_HelloRequest sample_hello"
    using messages_round_trip [where hq = sample_hello] v by blast
  ultimately show ?thesis
    by (simp add: exchanged_def)
qed

end
