(* ===== verification/Sessions.thy ===== *)
theory Sessions
  imports Messages Coordinator_Laws
begin

text \<open>
  The coordinator as the server sees it (\<open>src/runtime/coordinator.cpp\<close>, the \<open>SessionHandler\<close> of \<open>src/net/server.cpp\<close>):
  the handshake that turns a token into a role, the gate every request passes, the dispatch of the thirteen request
  types to the handlers, and the status report.
\<close>

section \<open>Roles\<close>

definition required_role :: "MessageType \<Rightarrow> PrincipalRole" where
  "required_role t =
     (if t \<in> {MT_RegisterContract, MT_InstallPolicy} then PR_Administrator
      else if t \<in> {MT_PublishEvidence, MT_AcquireAuthority, MT_AcknowledgeGrant, MT_ReportApplied,
                   MT_RequestRestoration, MT_FenceGrant} then PR_Operator
      else PR_Observer)"

text \<open>Every configured token is compared; the first that is equal gives the role.\<close>

definition token_role :: "u8 list \<Rightarrow> (u8 list \<times> PrincipalRole) list \<Rightarrow> PrincipalRole option" where
  "token_role token principals =
     fold (\<lambda>(name, role) found. if constant_time_equals token name \<and> found = None then Some role else found)
       principals None"

definition admitted_role :: "CoordinatorConfig \<Rightarrow> u8 list \<Rightarrow> PrincipalRole result" where
  "admitted_role cfg token =
     (if cc_allow_anonymous_sessions cfg then Inr PR_Administrator
      else if cc_principals cfg = [] then Inl EC_Unauthorized
      else case token_role token (cc_principals cfg) of None \<Rightarrow> Inl EC_Unauthorized | Some role \<Rightarrow> Inr role)"

definition new_hello_response :: HelloResponse where
  "new_hello_response = \<lparr>hr_session = 0, hr_term = 0, hr_boot = 0,
     hr_authority = \<lparr>av_coordinator_term = 0, av_boot = 0, av_fabric = 0, av_capacity = 0, av_policy = 0, av_evidence = 0\<rparr>,
     hr_detail = []\<rparr>"

definition on_hello :: "u64 \<Rightarrow> HelloRequest \<Rightarrow> HelloResponse action" where
  "on_hello session request =
     co_then (co_lift (of_status (HelloRequest_validate request)))
    (co_read (\<lambda>c.
     co_bind (co_lift (admitted_role (co_config c) (hq_token request))) (\<lambda>role.
     co_require (\<not> co_stopped c) EC_Shutdown
    (co_modify (co_session_roles_update (\<lambda>m. m(session \<mapsto> role)))
    (co_return (new_hello_response
       \<lparr>hr_term := ds_term (co_state c), hr_boot := ds_boot (co_state c),
        hr_authority := current_authority (co_state c), hr_detail := text_bytes ''session accepted''\<rparr>))))))"

section \<open>The status report\<close>

text \<open>\<open>%016llx\<close>.\<close>

definition hex_digit :: "nat \<Rightarrow> char" where
  "hex_digit d = char_of (if d < 10 then 48 + d else 87 + d)"

definition to_hex :: "u64 \<Rightarrow> string" where
  "to_hex n = map (\<lambda>i. hex_digit (unat n div 16 ^ i mod 16)) (rev [0..<16])"

primrec RecoveryOutcome_name :: "RecoveryOutcome \<Rightarrow> string" where
  "RecoveryOutcome_name RV_FreshStore = ''FRESH_STORE''"
| "RecoveryOutcome_name RV_CleanReopen = ''CLEAN_REOPEN''"
| "RecoveryOutcome_name RV_TornTailRecovered = ''TORN_TAIL_RECOVERED''"
| "RecoveryOutcome_name RV_Corrupt = ''CORRUPT''"
| "RecoveryOutcome_name RV_VersionUnsupported = ''VERSION_UNSUPPORTED''"
| "RecoveryOutcome_name RV_IntegrityFailure = ''INTEGRITY_FAILURE''"
| "RecoveryOutcome_name RV_SequenceFailure = ''SEQUENCE_FAILURE''"

definition describe_inputs :: "Coordinator \<Rightarrow> ClosureInputs" where
  "describe_inputs c =
     \<lparr>ci_live_grants = of_nat (live_count (co_grants c)),
      ci_retained_terminated_grants = of_nat (terminated_count (co_grants c)),
      ci_retained_fences = of_nat (length (ds_fences (co_state c))),
      ci_retained_decisions = of_nat (length (ds_decisions (co_state c)))\<rparr>"

definition describe_locked :: "Coordinator \<Rightarrow> StatusBody" where
  "describe_locked c =
     (let s = co_state c; impl = fst (co_store c)
      in \<lparr>sb_authority = current_authority s, sb_boot = ds_boot s, sb_term = ds_term s,
          sb_evidence_generation = ds_evidence_generation s, sb_capacity_generation = ds_capacity_generation s,
          sb_fabric_generation = ds_fabric_generation s, sb_live_grants = of_nat (live_count (co_grants c)),
          sb_retained_grants = of_nat (length (ds_grants s)), sb_retained_fences = of_nat (length (ds_fences s)),
          sb_retained_decisions = of_nat (length (ds_decisions s)),
          sb_retained_contracts = of_nat (length (ds_contracts s)), sb_journal_records = ds_journal_records s,
          sb_journal_bytes_in_segment = im_bytes_in_segment impl,
          sb_accounting_closed = cr_closed (check_closure (describe_inputs c) \<lparr>at_counters = ds_counters s, at_writable = True\<rparr>),
          sb_policy_installed = co_policy_installed c, sb_policy_digest = text_bytes (to_hex (Policy_digest (ds_policy s))),
          sb_recovery = text_bytes (RecoveryOutcome_name (im_recovery impl)),
          sb_recovery_detail = text_bytes (im_recovery_detail impl)\<rparr>)"

section \<open>Dispatch\<close>

text \<open>The plan a client is shown when the allocation produced no entry.\<close>

definition decision_body :: "Decision \<Rightarrow> AllocationPlan \<Rightarrow> DecisionBody" where
  "decision_body d plan =
     \<lparr>db_decision = d,
      db_plan = (if ap_entries plan = []
                 then plan\<lparr>ap_entries :=
                        [new_entry\<lparr>ae_contract := ab_contract (de_binding d),
                           ae_contract_generation := ab_contract_generation (de_binding d),
                           ae_scope := ab_scope (de_binding d), ae_admitted := is_authorising (de_outcome d),
                           ae_full := GuaranteeDelta_empty (de_delta d), ae_approved := de_approved d,
                           ae_delta := de_delta d, ae_outcome := de_outcome d, ae_reason := de_primary_reason d\<rparr>]\<rparr>
                 else plan)\<rparr>"

definition grant_reply :: "Grant \<Rightarrow> u8 list action" where
  "grant_reply g = co_return (encode_body encode_GrantBody \<lparr>gb_grant = g\<rparr>)"

definition restoration_reply :: "RestorationEvaluation \<Rightarrow> u8 list action" where
  "restoration_reply e = co_return (encode_body encode_RestorationBody \<lparr>eb_evaluation = e\<rparr>)"

definition revalidate_reply :: "RevalidateReport \<Rightarrow> u8 list action" where
  "revalidate_reply r = co_return (encode_body encode_RevalidateBody
     \<lparr>vb_evaluated = rv_evaluated r, vb_fenced = rv_fenced r, vb_expired = rv_expired r\<rparr>)"

definition dispatch :: "MessageType \<Rightarrow> u8 list \<Rightarrow> u8 list action" where
  "dispatch t body = co_read (\<lambda>c.
     case t of
       MT_PublishEvidence \<Rightarrow>
         co_bind (co_lift (decode_object_body decode_EvidenceItem body)) (\<lambda>item.
         co_then (publish_evidence_locked item) (co_return []))
     | MT_RegisterContract \<Rightarrow>
         co_bind (co_lift (decode_object_body decode_ServiceContract body)) (\<lambda>contract.
         co_then (register_contract_locked contract) (co_return []))
     | MT_InstallPolicy \<Rightarrow>
         co_bind (co_lift (decode_object_body decode_Policy body)) (\<lambda>policy.
         co_then (install_policy_locked policy) (co_return []))
     | MT_EvaluateContract \<Rightarrow>
         co_bind (co_lift (decode_id_body body)) (\<lambda>k.
         co_bind (evaluate_locked k) (\<lambda>(d, plan).
         co_return (encode_body encode_DecisionBody (decision_body d plan))))
     | MT_AcquireAuthority \<Rightarrow>
         co_bind (co_lift (decode_id_body body)) (\<lambda>k.
         co_bind (acquire_locked k (co_clock c)) grant_reply)
     | MT_AcknowledgeGrant \<Rightarrow>
         co_bind (co_lift (decode_attempt_body body)) (\<lambda>(grant, attempt).
         co_bind (acknowledge_locked grant attempt (co_clock c)) grant_reply)
     | MT_ReportApplied \<Rightarrow>
         co_bind (co_lift (decode_attempt_body body)) (\<lambda>(grant, attempt).
         co_bind (report_applied_locked grant attempt (co_clock c)) grant_reply)
     | MT_FenceGrant \<Rightarrow>
         co_bind (co_lift (decode_fence_body body)) (\<lambda>(grant, reason).
         co_bind (fence_grant_locked grant reason AD_None (co_clock c)) (\<lambda>_. co_return []))
     | MT_RequestRestoration \<Rightarrow>
         co_bind (co_lift (decode_id_body body)) (\<lambda>k.
         co_bind (request_restoration_locked k (co_clock c)) restoration_reply)
     | MT_Revalidate \<Rightarrow>
         co_bind (sweep_locked (co_clock c)) revalidate_reply
     | MT_QueryStatus \<Rightarrow>
         if body \<noteq> [] then co_fail EC_InvalidArgument
         else co_return (encode_body encode_StatusBody (describe_locked c))
     | MT_Goodbye \<Rightarrow>
         if body \<noteq> [] then co_fail EC_InvalidArgument else co_return []
     | _ \<Rightarrow> co_fail EC_Unsupported)"

text \<open>
  \<open>on_request\<close>: the response envelope is the caller's, stamped with the epoch; the action is what the request does
  and the body it returns.
\<close>

definition stamp_response :: "Coordinator \<Rightarrow> ResponseEnvelope \<Rightarrow> ResponseEnvelope" where
  "stamp_response c response =
     (if co_stopped c then response
      else response\<lparr>rs_term := ds_term (co_state c), rs_boot := ds_boot (co_state c)\<rparr>)"

definition request_gate :: "u64 \<Rightarrow> RequestEnvelope \<Rightarrow> MessageType \<Rightarrow> Coordinator \<Rightarrow> status" where
  "request_gate session envelope t c =
     (if co_stopped c then EC_Shutdown
      else case co_session_roles c session of
        None \<Rightarrow> EC_Unauthorized
      | Some role \<Rightarrow>
         if PrincipalRole_code role < PrincipalRole_code (required_role t) then EC_Unauthorized
         else if rq_term envelope \<noteq> ds_term (co_state c) then EC_Stale
         else if rq_boot envelope \<noteq> ds_boot (co_state c) then EC_Stale
         else EC_Ok)"

definition on_request :: "u64 \<Rightarrow> RequestEnvelope \<Rightarrow> MessageType \<Rightarrow> u8 list \<Rightarrow> u8 list action" where
  "on_request session envelope t body = co_read (\<lambda>c.
     co_then (co_lift (of_status (request_gate session envelope t c))) (dispatch t body))"

definition on_session_closed :: "u64 \<Rightarrow> Coordinator \<Rightarrow> Coordinator" where
  "on_session_closed session c = c\<lparr>co_session_roles := (co_session_roles c)(session := None)\<rparr>"

end
