(* ===== verification/Session_Laws.thy ===== *)
theory Session_Laws
  imports Sessions
begin

text \<open>
  What the sessions of a coordinator may change. A frame is a reflexive and transitive relation between the states
  before and after; the handlers an observer can reach keep every frame that allows decisions and the ending of
  grants, those an operator can reach every frame that allows all records but the administrative ones.
\<close>

section \<open>Frames\<close>

definition keeps :: "(Coordinator \<Rightarrow> Coordinator \<Rightarrow> bool) \<Rightarrow> 'a action \<Rightarrow> bool" where
  "keeps rel m \<longleftrightarrow> (\<forall>c. rel c (snd (m c)))"

locale coordinator_frame =
  fixes rel :: "Coordinator \<Rightarrow> Coordinator \<Rightarrow> bool"
  assumes rel_refl: "rel c c"
    and rel_trans: "rel a b \<Longrightarrow> rel b c \<Longrightarrow> rel a c"
begin

lemma keeps_return: "keeps rel (co_return x)"
  by (simp add: keeps_def co_return_def rel_refl)

lemma keeps_fail: "keeps rel (co_fail e)"
  by (simp add: keeps_def co_fail_def rel_refl)

lemma keeps_attempt:
  assumes "keeps rel m" and "\<And>r. keeps rel (f r)"
  shows "keeps rel (co_attempt m f)"
  unfolding keeps_def
proof
  fix c
  obtain r c' where m: "m c = (r, c')"
    by (cases "m c")
  then have first: "rel c c'"
    using assms(1) by (metis keeps_def snd_conv)
  show "rel c (snd (co_attempt m f c))"
  proof (cases r)
    case (Done x)
    then have "rel c' (snd (f x c'))"
      using assms(2) by (simp add: keeps_def)
    then show ?thesis
      using rel_trans [OF first] Done m by (simp add: co_attempt_def)
  qed (use first m in \<open>simp add: co_attempt_def\<close>)
qed

lemma keeps_bind: "keeps rel m \<Longrightarrow> (\<And>x. keeps rel (f x)) \<Longrightarrow> keeps rel (co_bind m f)"
  unfolding co_bind_def by (rule keeps_attempt) (auto split: sum.split intro: keeps_fail)

lemma keeps_then: "keeps rel m \<Longrightarrow> keeps rel k \<Longrightarrow> keeps rel (co_then m k)"
  unfolding co_then_def by (rule keeps_bind)

lemma keeps_ignore: "keeps rel m \<Longrightarrow> keeps rel k \<Longrightarrow> keeps rel (co_ignore m k)"
  unfolding co_ignore_def by (rule keeps_attempt)

lemma keeps_read: "(\<And>c. keeps rel (f c)) \<Longrightarrow> keeps rel (co_read f)"
  by (simp add: keeps_def co_read_def)

lemma keeps_modify: "(\<And>c. rel c (f c)) \<Longrightarrow> keeps rel k \<Longrightarrow> keeps rel (co_modify f k)"
  unfolding keeps_def co_modify_def using rel_trans by blast

lemma keeps_lift: "keeps rel (co_lift r)"
  unfolding co_lift_def by (cases r) (simp_all add: keeps_fail keeps_return)

lemma keeps_require: "keeps rel k \<Longrightarrow> keeps rel (co_require b e k)"
  by (simp add: co_require_def keeps_fail)

lemma keeps_allocate:
  "(\<And>f c. rel c (upd f c)) \<Longrightarrow> (\<And>i. keeps rel (k i)) \<Longrightarrow> keeps rel (allocate_id ids upd k)"
  unfolding keeps_def allocate_id_def using rel_trans by (auto split: prod.split) blast

lemma keeps_note: "(\<And>t c. rel c (c\<lparr>co_grants := t\<rparr>)) \<Longrightarrow> keeps rel (note_grants f)"
  by (simp add: keeps_def note_grants_def split: prod.split)

lemma keeps_option: "keeps rel a \<Longrightarrow> (\<And>x. keeps rel (f x)) \<Longrightarrow> keeps rel (case v of None \<Rightarrow> a | Some x \<Rightarrow> f x)"
  by (cases v) simp_all

lemma keeps_if: "keeps rel a \<Longrightarrow> keeps rel b \<Longrightarrow> keeps rel (if p then a else b)"
  by simp

lemma keeps_let: "(\<And>x. keeps rel (f x)) \<Longrightarrow> keeps rel (let x = v in f x)"
  by simp

lemma keeps_pair: "(\<And>x y. keeps rel (f x y)) \<Longrightarrow> keeps rel (case p of (x, y) \<Rightarrow> f x y)"
  by (cases p) simp

lemmas keeps_intros = keeps_return keeps_fail keeps_attempt keeps_bind keeps_then keeps_ignore keeps_read keeps_lift
  keeps_require keeps_option keeps_if keeps_let keeps_pair

end

text \<open>The handlers that every session can reach.\<close>

locale observer_frame = coordinator_frame +
  fixes allowed :: "RecordType set"
  assumes append: "t \<in> allowed \<Longrightarrow> keeps rel (append_record t payload)"
    and observed: "{RT_DecisionRecorded, RT_GrantFenced, RT_GrantExpired, RT_GrantRevoked, RT_GrantRebound} \<subseteq> allowed"
    and ids: "rel c (co_decision_ids_update f c)" "rel c (co_plan_ids_update f c)" "rel c (co_fence_ids_update f c)"
    and index: "rel c (c\<lparr>co_grants := t'\<rparr>)"
begin

lemmas keeps_steps = keeps_intros keeps_allocate [where upd = co_decision_ids_update, OF ids(1)]
  keeps_allocate [where upd = co_plan_ids_update, OF ids(2)]
  keeps_allocate [where upd = co_fence_ids_update, OF ids(3)]
  keeps_modify [where f = "co_plan_ids_update g" for g, OF ids(2)] keeps_note [OF index]

lemma fence_keeps: "keeps rel (fence_grant_locked k reason delta now)"
proof -
  have "fence_type reason \<in> allowed"
    using observed by (auto simp: fence_type_def)
  then show ?thesis
    unfolding fence_grant_locked_def Let_def by (intro keeps_steps append)
qed

lemma evaluate_keeps: "keeps rel (evaluate_locked contract)"
  unfolding evaluate_locked_def using observed by (intro keeps_steps append) auto

lemma sweep_keeps: "keeps rel (sweep_locked now)"
proof -
  have one: "keeps rel (sweep_one now current k report)" for current k report
    unfolding sweep_one_def sweep_fence_def using observed
    by (intro keeps_steps append fence_keeps evaluate_keeps) auto
  have "keeps rel (sweep_loop now current ks report)" for current ks report
    by (induction ks arbitrary: report) (simp_all add: keeps_return keeps_bind one)
  then show ?thesis
    unfolding sweep_locked_def by (intro keeps_read)
qed

lemma observer_dispatch: "required_role t = PR_Observer \<Longrightarrow> keeps rel (dispatch t body)"
  unfolding dispatch_def revalidate_reply_def
  by (intro keeps_read, cases t) (auto simp: required_role_def intro!: keeps_steps evaluate_keeps sweep_keeps)

end

text \<open>The handlers of the operators.\<close>

locale operator_frame = observer_frame +
  assumes operated: "{RT_EvidencePublished, RT_FabricGenerationAdvanced, RT_CapacityGenerationAdvanced,
      RT_EvidenceGenerationAdvanced, RT_GrantIssued, RT_GrantAcknowledged, RT_GrantApplied, RT_RestorationProven,
      RT_RestorationRefused} \<subseteq> allowed"
    and more_ids: "rel c (co_grant_ids_update f c)" "rel c (co_attempt_ids_update f c)" "rel c (co_evidence_ids_update f c)"
    and evidence: "rel c (co_evidence_update g c)" "rel c (co_scope_capability_digest_update h c)"
    and counted: "rel c (count_event ev c)"
    and raised: "rel c (co_state_update (raise_grant_high_water n) c)"
begin

lemmas keeps_more = keeps_steps keeps_allocate [where upd = co_grant_ids_update, OF more_ids(1)]
  keeps_allocate [where upd = co_attempt_ids_update, OF more_ids(2)]
  keeps_allocate [where upd = co_evidence_ids_update, OF more_ids(3)]

lemma acquire_keeps: "keeps rel (acquire_locked contract now)"
  unfolding acquire_locked_def using operated
  by (intro keeps_more evaluate_keeps append keeps_modify more_ids raised) auto

lemma advance_keeps: "type \<in> {RT_GrantAcknowledged, RT_GrantApplied} \<Longrightarrow> keeps rel (advance_grant target type k attempt now)"
  unfolding advance_grant_def using operated
  by (intro keeps_more fence_keeps append keeps_modify more_ids) auto

lemma restoration_keeps: "keeps rel (request_restoration_locked k now)"
  unfolding request_restoration_locked_def using operated
  by (intro keeps_more fence_keeps append keeps_modify counted) auto

lemma generation_keeps: "type \<in> allowed \<Longrightarrow> keeps rel (ensure_generation gen type) \<and> keeps rel (advance_generation gen type)"
  unfolding ensure_generation_def advance_generation_def by (intro conjI keeps_more append)

lemma observation_keeps: "keeps rel (commit_observation stamped first)"
  unfolding commit_observation_def using operated generation_keeps
  by (intro keeps_more append sweep_keeps) auto

lemma publish_keeps: "keeps rel (publish_evidence_locked i)"
proof -
  have counting: "rel c ((if b then count_event ev else id) c)" for b ev c
    by (simp add: counted rel_refl)
  have "keeps rel (publish_stamped stamped)" for stamped
    unfolding publish_stamped_def
    by (intro keeps_more keeps_modify evidence counted counting observation_keeps)
  then show ?thesis
    unfolding publish_evidence_locked_def by (intro keeps_more)
qed

lemma operator_dispatch: "required_role t \<noteq> PR_Administrator \<Longrightarrow> keeps rel (dispatch t body)"
proof (cases "required_role t")
  case PR_Operator
  then show ?thesis
    unfolding dispatch_def grant_reply_def restoration_reply_def acknowledge_locked_def report_applied_locked_def
    by (intro keeps_read, cases t)
      (auto simp: required_role_def intro!: keeps_more acquire_keeps advance_keeps restoration_keeps publish_keeps fence_keeps)
qed (use observer_dispatch in simp_all)

end

section \<open>Frames of the durable state\<close>

locale state_frame =
  fixes srel :: "DurableState \<Rightarrow> DurableState \<Rightarrow> bool" and allowed :: "RecordType set"
  assumes srel_refl: "srel s s"
    and srel_trans: "srel a b \<Longrightarrow> srel b c \<Longrightarrow> srel a c"
    and counters: "srel s (s\<lparr>ds_counters := n\<rparr>)"
    and position: "srel s (s\<lparr>ds_journal_sequence := m\<rparr>)" "srel s (s\<lparr>ds_journal_records := m\<rparr>)"
    and applied: "t \<in> allowed \<Longrightarrow> srel s (snd (apply_record t p cfg s))"
    and pruned: "srel s (snd (prune cfg s))"
begin

lemma srel_then:
  assumes "\<And>s. srel s (snd (f s))" and "\<And>s. srel s (snd (g s))"
  shows "srel s (snd (status_then f g s))"
  using assms(1) [of s] assms(2) srel_trans by (auto simp: status_then_def split: prod.split)

lemma acct_srel: "srel s (snd (acct f s))"
  by (simp add: acct_def counters split: prod.split)

lemma batched_srel:
  assumes "t \<in> allowed"
  shows "srel (im_state (fst st)) (im_state (fst (snd (append_batched t payload st))))"
proof -
  obtain impl w where st: "st = (impl, w)"
    by (cases st)
  have records: "srel s (s\<lparr>ds_journal_sequence := m, ds_journal_records := n\<rparr>)" for s m n
    using srel_trans position by blast
  have commit: "srel s (snd (status_then (acct f) (status_then (apply_record t p cfg) (prune_when_due cfg)) s))" for f p cfg s
    by (intro srel_then acct_srel applied assms) (simp add: prune_when_due_def srel_refl pruned)
  have "srel (im_state impl) (snd (status_then (acct f) (status_then (apply_record t p cfg) (prune_when_due cfg))
      ((im_state impl)\<lparr>ds_journal_sequence := m, ds_journal_records := n\<rparr>)))" for f p cfg m n
    using srel_trans [OF records commit] .
  then show ?thesis
    unfolding append_batched_def st
    by (auto simp: Let_def srel_refl position records split: sum.split option.split prod.split) (metis snd_conv)
qed

lemma append_srel: "t \<in> allowed \<Longrightarrow> srel (im_state (fst st)) (im_state (fst (snd (store_append t payload st))))"
  using batched_srel [of t st payload] by (auto simp: store_append_def Let_def srel_refl split: prod.split)

lemma append_record_srel:
  assumes "t \<in> allowed" and "append_record t payload c = (r, c')"
  shows "\<exists>st. c' = c\<lparr>co_store := st\<rparr> \<and> srel (co_state c) (co_state c')"
proof -
  obtain e st where e: "store_append t payload (co_store c) = (e, st)"
    by (cases "store_append t payload (co_store c)")
  then have "c' = c\<lparr>co_store := st\<rparr>"
    using assms(2) by (auto simp: append_record_def split: outcome.splits)
  then show ?thesis
    using append_srel [OF assms(1), of "co_store c" payload] e by (intro exI [of _ st]) simp
qed

end

definition administrative :: "RecordType set" where
  "administrative =
     {RT_ContractRegistered, RT_ContractRetired, RT_PolicyInstalled, RT_BootAdvanced, RT_CoordinatorTermAdvanced}"

text \<open>What only an administrator or a restart may change.\<close>

definition charter :: "DurableState \<Rightarrow> ServiceContract list \<times> Policy \<times> u64 \<times> u64" where
  "charter s = (ds_contracts s, ds_policy s, ds_boot s, ds_term s)"

lemma charter_frame [simp]:
  "charter (s\<lparr>ds_grants := gs\<rparr>) = charter s" "charter (s\<lparr>ds_fences := fs\<rparr>) = charter s"
  "charter (s\<lparr>ds_decisions := dd\<rparr>) = charter s" "charter (s\<lparr>ds_restorations := rr\<rparr>) = charter s"
  "charter (s\<lparr>ds_historical_evidence := ev\<rparr>) = charter s" "charter (s\<lparr>ds_counters := cs\<rparr>) = charter s"
  "charter (s\<lparr>ds_fabric_generation := n\<rparr>) = charter s" "charter (s\<lparr>ds_capacity_generation := n\<rparr>) = charter s"
  "charter (s\<lparr>ds_evidence_generation := n\<rparr>) = charter s" "charter (s\<lparr>ds_journal_sequence := n\<rparr>) = charter s"
  "charter (s\<lparr>ds_journal_records := n\<rparr>) = charter s" "charter (s\<lparr>ds_grant_id_high_water := n\<rparr>) = charter s"
  "charter (s\<lparr>ds_fence_id_high_water := n\<rparr>) = charter s" "charter (s\<lparr>ds_decision_id_high_water := n\<rparr>) = charter s"
  "charter (s\<lparr>ds_evidence_id_high_water := n\<rparr>) = charter s"
  by (simp_all add: charter_def)

lemma charter_acct [simp]: "charter (snd (acct f s)) = charter s"
  by (simp add: acct_def split: prod.split)

lemma charter_then: "(\<And>s. charter (snd (f s)) = charter s) \<Longrightarrow> (\<And>s. charter (snd (g s)) = charter s) \<Longrightarrow>
    charter (snd (status_then f g s)) = charter s"
  by (simp add: status_then_def split: prod.split) (metis snd_conv)

lemma charter_transition [simp]: "charter (snd (transition_grant k n t a m s)) = charter s"
  by (simp add: transition_grant_def assign_grant_def split: option.split)

lemma charter_applied: "t \<notin> administrative \<Longrightarrow> charter (snd (apply_record t p cfg s)) = charter s"
  by (cases t) (auto simp: administrative_def evidence_record_def issue_record_def fence_record_def add_fence_def
      rebind_record_def decision_record_def assign_grant_def intro!: charter_then split: sum.split option.split)

lemma charter_pruned: "charter (snd (prune cfg s)) = charter s"
  unfolding prune_def
  by (intro charter_then) (auto simp: prune_grants_def prune_fences_def prune_decisions_def prune_restorations_def
      prune_evidence_def Let_def intro!: charter_then split: sum.split)

text \<open>No grant that was not there before.\<close>

definition grants_within :: "DurableState \<Rightarrow> DurableState \<Rightarrow> bool" where
  "grants_within s s' \<longleftrightarrow> gr_id ` set (ds_grants s') \<subseteq> gr_id ` set (ds_grants s)"

lemma within_refl [simp]: "grants_within s s"
  by (simp add: grants_within_def)

lemma within_trans: "grants_within a b \<Longrightarrow> grants_within b c \<Longrightarrow> grants_within a c"
  by (auto simp: grants_within_def)

lemma within_acct [simp]: "grants_within s (snd (acct f s'))\<longleftrightarrow> grants_within s s'"
  by (simp add: acct_def grants_within_def split: prod.split)

lemma within_then: "(\<And>s. grants_within s (snd (f s))) \<Longrightarrow> (\<And>s. grants_within s (snd (g s))) \<Longrightarrow>
    grants_within s (snd (status_then f g s))"
  using within_trans by (simp add: status_then_def split: prod.split) (metis snd_conv)

lemma within_assign:
  assumes "\<And>g. gr_id (f g) = gr_id g"
  shows "grants_within s (assign_grant k f s)"
proof -
  have "map gr_id (assign_first (\<lambda>g. gr_id g = k) f (ds_grants s)) = map gr_id (ds_grants s)"
    using assms by (intro assign_first_keys) simp
  then have "gr_id ` set (assign_first (\<lambda>g. gr_id g = k) f (ds_grants s)) = gr_id ` set (ds_grants s)"
    by (metis set_map)
  then show ?thesis
    by (simp add: grants_within_def assign_grant_def)
qed

lemma within_transition [simp]: "grants_within s (snd (transition_grant k n t a m s))"
  by (auto simp: transition_grant_def moved_grant_def Let_def split: option.split intro!: within_assign)

definition observable :: "RecordType set" where
  "observable = {RT_DecisionRecorded, RT_GrantFenced, RT_GrantExpired, RT_GrantRevoked, RT_GrantRebound}"

lemma within_frame [simp]:
  "grants_within s (s'\<lparr>ds_fences := fs\<rparr>) \<longleftrightarrow> grants_within s s'"
  "grants_within s (s'\<lparr>ds_decisions := dd\<rparr>) \<longleftrightarrow> grants_within s s'"
  "grants_within s (s'\<lparr>ds_restorations := rr\<rparr>) \<longleftrightarrow> grants_within s s'"
  "grants_within s (s'\<lparr>ds_historical_evidence := ev\<rparr>) \<longleftrightarrow> grants_within s s'"
  "grants_within s (s'\<lparr>ds_counters := cs\<rparr>) \<longleftrightarrow> grants_within s s'"
  "grants_within s (s'\<lparr>ds_journal_sequence := n\<rparr>) \<longleftrightarrow> grants_within s s'"
  "grants_within s (s'\<lparr>ds_journal_records := n\<rparr>) \<longleftrightarrow> grants_within s s'"
  "grants_within s (s'\<lparr>ds_fence_id_high_water := n\<rparr>) \<longleftrightarrow> grants_within s s'"
  "grants_within s (s'\<lparr>ds_decision_id_high_water := n\<rparr>) \<longleftrightarrow> grants_within s s'"
  by (simp_all add: grants_within_def)

lemma within_applied: "t \<in> observable \<Longrightarrow> grants_within s (snd (apply_record t p cfg s))"
  by (auto simp: observable_def fence_record_def add_fence_def rebind_record_def decision_record_def
      intro!: within_then within_assign split: option.split)

lemma within_pruned: "grants_within s (snd (prune cfg s))"
  unfolding prune_def
proof (intro within_then)
  have "set (take budget (sort_by newest_grant_less (filter (\<lambda>g. \<not> Grant_live g) gs))) \<subseteq> set gs" for budget gs
    by (rule subset_trans [OF set_take_subset]) (auto simp: set_sort_by)
  then show "grants_within s (snd (prune_grants cfg s))" for s
    by (auto simp: prune_grants_def Let_def status_then_def grants_within_def acct_def set_sort_by split: prod.split)
qed (auto simp: prune_fences_def prune_decisions_def prune_restorations_def prune_evidence_def Let_def split: sum.split)

interpretation charter_frame: state_frame "\<lambda>s s'. charter s' = charter s" "- administrative"
  by unfold_locales (simp_all add: charter_applied charter_pruned)

interpretation observed_frame: state_frame "\<lambda>s s'. charter s' = charter s \<and> grants_within s s'" observable
proof
  show "charter (snd (apply_record t p cfg s)) = charter s \<and> grants_within s (snd (apply_record t p cfg s))"
    if "t \<in> observable" for t p cfg s
    using that within_applied by (auto simp: observable_def administrative_def intro: charter_applied)
qed (auto simp: charter_pruned within_pruned intro: within_trans)

section \<open>Ranks\<close>

text \<open>The part of the coordinator a session below administrator cannot touch, and what an observer leaves alone.\<close>

definition chartered :: "Coordinator \<Rightarrow> Coordinator \<Rightarrow> bool" where
  "chartered c c' \<longleftrightarrow> charter (co_state c') = charter (co_state c) \<and> co_policy_installed c' = co_policy_installed c \<and>
     co_contract_index c' = co_contract_index c \<and> co_scope_index c' = co_scope_index c \<and>
     co_session_roles c' = co_session_roles c \<and> co_config c' = co_config c \<and> co_stopped c' = co_stopped c"

definition watched :: "Coordinator \<Rightarrow> Coordinator \<Rightarrow> bool" where
  "watched c c' \<longleftrightarrow> chartered c c' \<and> grants_within (co_state c) (co_state c') \<and> co_evidence c' = co_evidence c \<and>
     co_grant_ids c' = co_grant_ids c"

interpretation operators: operator_frame chartered "- administrative"
proof
  show "keeps chartered (append_record t payload)" if ordinary: "t \<in> - administrative" for t payload
    unfolding keeps_def
  proof
    fix c
    obtain r c' where a: "append_record t payload c = (r, c')"
      by (cases "append_record t payload c")
    obtain st where "c' = c\<lparr>co_store := st\<rparr>"
      using charter_frame.append_record_srel [OF ordinary a] by blast
    then show "chartered c (snd (append_record t payload c))"
      using charter_frame.append_record_srel [OF ordinary a] a by (simp add: chartered_def)
  qed
qed (auto simp: chartered_def administrative_def co_state_update_def count_event_def raise_grant_high_water_def)

interpretation observers: observer_frame watched observable
proof
  show "keeps watched (append_record t payload)" if ordinary: "t \<in> observable" for t payload
    unfolding keeps_def
  proof
    fix c
    obtain r c' where a: "append_record t payload c = (r, c')"
      by (cases "append_record t payload c")
    obtain st where "c' = c\<lparr>co_store := st\<rparr>"
      using observed_frame.append_record_srel [OF ordinary a] by blast
    then show "watched c (snd (append_record t payload c))"
      using observed_frame.append_record_srel [OF ordinary a] a by (simp add: watched_def chartered_def)
  qed
qed (auto simp: watched_def chartered_def observable_def intro: within_trans)

section \<open>Runs of the session handler\<close>

text \<open>The calls of the session threads, in the order in which they take the coordinator's lock.\<close>

datatype session_call =
    Call_Hello u64 HelloRequest
  | Call_Request u64 RequestEnvelope MessageType "u8 list"
  | Call_Closed u64

primrec serve :: "session_call \<Rightarrow> Coordinator \<Rightarrow> Coordinator" where
  "serve (Call_Hello session request) c = snd (on_hello session request c)"
| "serve (Call_Request session envelope t body) c = snd (on_request session envelope t body c)"
| "serve (Call_Closed session) c = on_session_closed session c"

definition serve_all :: "session_call list \<Rightarrow> Coordinator \<Rightarrow> Coordinator" where
  "serve_all calls c = fold serve calls c"

text \<open>The roles that the tokens presented in a run stand for.\<close>

definition presented :: "CoordinatorConfig \<Rightarrow> session_call list \<Rightarrow> PrincipalRole set" where
  "presented cfg calls =
     {role. \<exists>session request. Call_Hello session request \<in> set calls \<and> admitted_role cfg (hq_token request) = Inr role}"

lemma on_hello_cases:
  "snd (on_hello session request c) = c \<or>
   (\<exists>role. admitted_role (co_config c) (hq_token request) = Inr role \<and> \<not> co_stopped c \<and>
      HelloRequest_validate request = EC_Ok \<and>
      snd (on_hello session request c) = c\<lparr>co_session_roles := (co_session_roles c)(session \<mapsto> role)\<rparr>)"
  by (auto simp: on_hello_def co_then_def co_bind_def co_attempt_def co_lift_def of_status_def co_read_def co_fail_def
      co_return_def co_require_def co_modify_def split: sum.split)

lemma on_request_refused: "request_gate session envelope t c \<noteq> EC_Ok \<Longrightarrow>
    on_request session envelope t body c = (Done (Inl (request_gate session envelope t c)), c)"
  by (simp add: on_request_def co_then_def co_bind_def co_attempt_def co_lift_def of_status_def co_read_def co_fail_def)

lemma on_request_served: "request_gate session envelope t c = EC_Ok \<Longrightarrow>
    on_request session envelope t body c = dispatch t body c"
  by (simp add: on_request_def co_then_def co_bind_def co_attempt_def co_lift_def of_status_def co_read_def co_return_def)

lemma gate_open: "request_gate session envelope t c = EC_Ok \<longleftrightarrow>
    \<not> co_stopped c \<and> (\<exists>role. co_session_roles c session = Some role \<and>
      \<not> PrincipalRole_code role < PrincipalRole_code (required_role t)) \<and>
    rq_term envelope = ds_term (co_state c) \<and> rq_boot envelope = ds_boot (co_state c)"
  by (auto simp: request_gate_def split: option.split)

locale ranked_sessions = coordinator_frame +
  fixes ranks :: "PrincipalRole set"
  assumes roles_cong: "rel c c' \<Longrightarrow> rel (c\<lparr>co_session_roles := m\<rparr>) (c'\<lparr>co_session_roles := m\<rparr>)"
    and same: "rel c c' \<Longrightarrow> co_session_roles c' = co_session_roles c \<and> co_config c' = co_config c"
    and reach: "role \<in> ranks \<Longrightarrow> \<not> PrincipalRole_code role < PrincipalRole_code (required_role t) \<Longrightarrow> keeps rel (dispatch t body)"
begin

definition within_ranks :: "Coordinator \<Rightarrow> Coordinator \<Rightarrow> bool" where
  "within_ranks c0 c \<longleftrightarrow> ran (co_session_roles c) \<subseteq> ranks \<and> rel (c0\<lparr>co_session_roles := co_session_roles c\<rparr>) c"

lemma serve_within:
  assumes inv: "within_ranks c0 c" and hello: "presented (co_config c0) [call] \<subseteq> ranks"
  shows "within_ranks c0 (serve call c)"
proof (cases call)
  case (Call_Hello session request)
  have config: "co_config c = co_config c0"
    using inv same [of "c0\<lparr>co_session_roles := co_session_roles c\<rparr>" c] by (simp add: within_ranks_def)
  show ?thesis
    using on_hello_cases [of session request c]
  proof
    assume "\<exists>role. admitted_role (co_config c) (hq_token request) = Inr role \<and> \<not> co_stopped c \<and>
      HelloRequest_validate request = EC_Ok \<and>
      snd (on_hello session request c) = c\<lparr>co_session_roles := (co_session_roles c)(session \<mapsto> role)\<rparr>"
    then obtain role where role: "admitted_role (co_config c) (hq_token request) = Inr role"
      "serve call c = c\<lparr>co_session_roles := (co_session_roles c)(session \<mapsto> role)\<rparr>"
      using Call_Hello by auto
    then have "role \<in> ranks"
      using hello config Call_Hello by (auto simp: presented_def)
    moreover have "ran ((co_session_roles c)(session \<mapsto> role)) \<subseteq> insert role (ran (co_session_roles c))"
      by (auto simp: ran_def)
    ultimately show ?thesis
      using inv roles_cong [of "c0\<lparr>co_session_roles := co_session_roles c\<rparr>" c] role(2)
      by (auto simp: within_ranks_def)
  qed (use inv Call_Hello in simp)
next
  case (Call_Request session envelope t body)
  show ?thesis
  proof (cases "request_gate session envelope t c = EC_Ok")
    case True
    then obtain role where "role \<in> ranks" "\<not> PrincipalRole_code role < PrincipalRole_code (required_role t)"
      using inv by (auto simp: gate_open within_ranks_def ran_def)
    then have "rel c (serve call c)"
      using reach on_request_served [OF True] Call_Request by (simp add: keeps_def)
    then show ?thesis
      using inv same [of c "serve call c"] rel_trans by (auto simp: within_ranks_def)
  qed (use inv Call_Request on_request_refused in simp)
next
  case (Call_Closed session)
  have "ran ((co_session_roles c)(session := None)) \<subseteq> ran (co_session_roles c)"
    by (auto simp: ran_def)
  then show ?thesis
    using inv Call_Closed roles_cong [of "c0\<lparr>co_session_roles := co_session_roles c\<rparr>" c]
    by (auto simp: within_ranks_def on_session_closed_def)
qed

lemma serve_all_within:
  "within_ranks c0 c \<Longrightarrow> presented (co_config c0) calls \<subseteq> ranks \<Longrightarrow> within_ranks c0 (serve_all calls c)"
proof (induction calls arbitrary: c)
  case (Cons call calls)
  have "presented (co_config c0) [call] \<subseteq> ranks" "presented (co_config c0) calls \<subseteq> ranks"
    using Cons.prems(2) by (auto simp: presented_def)
  then show ?case
    using Cons.IH serve_within Cons.prems(1) by (simp add: serve_all_def)
qed (simp add: serve_all_def)

lemma ranked_run:
  assumes "co_session_roles c = Map.empty" and "presented (co_config c) calls \<subseteq> ranks"
  shows "\<exists>m. rel (c\<lparr>co_session_roles := m\<rparr>) (serve_all calls c)"
proof -
  have same_roles: "c\<lparr>co_session_roles := co_session_roles c\<rparr> = c"
    by simp
  have "within_ranks c c"
    unfolding within_ranks_def same_roles by (simp add: assms(1) rel_refl)
  then have "within_ranks c (serve_all calls c)"
    using serve_all_within assms(2) by blast
  then show ?thesis
    unfolding within_ranks_def by blast
qed

end

interpretation below_administrator: ranked_sessions chartered "{PR_Observer, PR_Operator}"
proof
  show "keeps chartered (dispatch t body)"
    if "role \<in> {PR_Observer, PR_Operator}" "\<not> PrincipalRole_code role < PrincipalRole_code (required_role t)" for role t body
    using that by (intro operators.operator_dispatch) auto
qed (auto simp: chartered_def)

interpretation observers_only: ranked_sessions watched "{PR_Observer}"
proof
  show "keeps watched (dispatch t body)"
    if "role \<in> {PR_Observer}" "\<not> PrincipalRole_code role < PrincipalRole_code (required_role t)" for role t body
    using that by (intro observers.observer_dispatch, cases "required_role t") auto
qed (auto simp: watched_def chartered_def)

text \<open>
  C3. Privilege follows the token. Start from a coordinator without sessions and let any number of sessions interleave
  their handshakes, requests and closings. If none of the presented tokens stands for an administrator, the contracts,
  the policy, the boot incarnation and the term are what they were, whatever bytes the requests carried. If the tokens
  stand for observers only, no grant exists that did not exist before, no grant identity was spent and the live
  evidence is untouched. A request of a session that never completed a handshake, of a closed session, of too low a
  rank or from another epoch is refused and changes nothing at all.
\<close>

theorem privilege_follows_token:
  "(co_session_roles c = Map.empty \<and> PR_Administrator \<notin> presented (co_config c) calls \<longrightarrow>
      charter (co_state (serve_all calls c)) = charter (co_state c)) \<and>
   (co_session_roles c = Map.empty \<and> presented (co_config c) calls \<subseteq> {PR_Observer} \<longrightarrow>
      grants_within (co_state c) (co_state (serve_all calls c)) \<and> co_grant_ids (serve_all calls c) = co_grant_ids c \<and>
      co_evidence (serve_all calls c) = co_evidence c) \<and>
   ((\<forall>role. co_session_roles c session = Some role \<longrightarrow>
          PrincipalRole_code role < PrincipalRole_code (required_role t)) \<or>
      rq_term envelope \<noteq> ds_term (co_state c) \<or> rq_boot envelope \<noteq> ds_boot (co_state c) \<longrightarrow>
      serve (Call_Request session envelope t body) c = c)"
proof (intro conjI impI; (elim conjE)?)
  assume fresh: "co_session_roles c = Map.empty"
  show "charter (co_state (serve_all calls c)) = charter (co_state c)"
    if "PR_Administrator \<notin> presented (co_config c) calls"
  proof -
    have "presented (co_config c) calls \<subseteq> {PR_Observer, PR_Operator}"
      using that PrincipalRole.exhaust by blast
    then show ?thesis
      using below_administrator.ranked_run [OF fresh] by (auto simp: chartered_def)
  qed
  show "grants_within (co_state c) (co_state (serve_all calls c))"
    "co_grant_ids (serve_all calls c) = co_grant_ids c" "co_evidence (serve_all calls c) = co_evidence c"
    if "presented (co_config c) calls \<subseteq> {PR_Observer}"
    using observers_only.ranked_run [OF fresh that] by (auto simp: watched_def)
next
  assume "(\<forall>role. co_session_roles c session = Some role \<longrightarrow>
          PrincipalRole_code role < PrincipalRole_code (required_role t)) \<or>
      rq_term envelope \<noteq> ds_term (co_state c) \<or> rq_boot envelope \<noteq> ds_boot (co_state c)"
  then show "serve (Call_Request session envelope t body) c = c"
    using on_request_refused [of session envelope t c] gate_open [of session envelope t c] by auto
qed


definition operator_config :: CoordinatorConfig where
  "operator_config = sample_config\<lparr>cc_principals := [([65, 66], PR_Operator)]\<rparr>"

definition operator_calls :: "session_call list" where
  "operator_calls = [Call_Hello 1 sample_hello,
     Call_Request 1 \<lparr>rq_session = 1, rq_sequence = 1, rq_term = 1, rq_boot = 1\<rparr> MT_InstallPolicy []]"

lemma operator_presented: "presented operator_config operator_calls = {PR_Operator}"
proof -
  have "admitted_role operator_config (hq_token sample_hello) = Inr PR_Operator"
    by (simp add: admitted_role_def token_role_def operator_config_def sample_config_def sample_hello_def
        constant_time_equals_def)
  then show ?thesis
    by (auto simp: presented_def operator_calls_def)
qed

theorem privilege_follows_token_witness:
  "PR_Operator \<in> presented operator_config operator_calls \<and>
   charter (co_state (serve_all operator_calls (initial_coordinator operator_config restarted_store))) =
     charter (co_state (initial_coordinator operator_config restarted_store)) \<and>
   serve (Call_Request 1 \<lparr>rq_session = 1, rq_sequence = 1, rq_term = 1, rq_boot = 1\<rparr> MT_InstallPolicy [])
     (initial_coordinator operator_config restarted_store) = initial_coordinator operator_config restarted_store"
proof -
  let ?c = "initial_coordinator operator_config restarted_store"
  let ?e = "\<lparr>rq_session = 1, rq_sequence = 1, rq_term = 1, rq_boot = 1\<rparr>"
  have c: "co_session_roles ?c = Map.empty" "co_config ?c = operator_config"
    by (simp_all add: initial_coordinator_def Let_def)
  note claims = privilege_follows_token [of ?c operator_calls 1 MT_InstallPolicy ?e "[]"]
  have "charter (co_state (serve_all operator_calls ?c)) = charter (co_state ?c)"
    using claims c operator_presented by simp
  moreover have "serve (Call_Request 1 ?e MT_InstallPolicy []) ?c = ?c"
    using claims c(1) by simp
  ultimately show ?thesis
    by (simp add: operator_presented)
qed

end
