(* ===== verification/Server.thy ===== *)
theory Server
  imports Sessions
begin

text \<open>
  The server (\<open>src/net/server.cpp\<close>): the accept loop and the loop of one session thread. The handler is an argument,
  as it is in the source, and the coordinator is one. What the threads learn from outside (the stop flag, the bytes a
  read returns, whether a write succeeded, the wording of an error) is an input of each round. Handshakes, requests and
  closings take the coordinator's lock and are single steps; joining threads and releasing blocked reads is not modelled.
\<close>

section \<open>The handler\<close>

record 'c SessionHandler =
  hd_on_hello :: "u64 \<Rightarrow> HelloRequest \<Rightarrow> 'c \<Rightarrow> (status \<times> HelloResponse) outcome \<times> 'c"
  hd_on_request :: "u64 \<Rightarrow> RequestEnvelope \<Rightarrow> MessageType \<Rightarrow> u8 list \<Rightarrow> ResponseEnvelope \<Rightarrow> 'c \<Rightarrow>
     ((status \<times> u8 list) outcome \<times> ResponseEnvelope) \<times> 'c"
  hd_on_session_closed :: "u64 \<Rightarrow> 'c \<Rightarrow> 'c"
  hd_count :: "(Accounting \<Rightarrow> status \<times> Accounting) \<Rightarrow> 'c \<Rightarrow> 'c"

primrec status_outcome :: "'a \<Rightarrow> 'a result outcome \<Rightarrow> (status \<times> 'a) outcome" where
  "status_outcome dflt Crashed = Crashed"
| "status_outcome dflt (Done r) = Done (case r of Inl e \<Rightarrow> (e, dflt) | Inr v \<Rightarrow> (EC_Ok, v))"

definition coordinator_handler :: "Coordinator SessionHandler" where
  "coordinator_handler =
     \<lparr>hd_on_hello = \<lambda>session request c.
        case on_hello session request c of (r, c') \<Rightarrow> (status_outcome new_hello_response r, c'),
      hd_on_request = \<lambda>session envelope t body response c.
        case on_request session envelope t body c of (r, c') \<Rightarrow> ((status_outcome [] r, stamp_response c response), c'),
      hd_on_session_closed = on_session_closed,
      hd_count = count_event\<rparr>"

section \<open>One session\<close>

record ServerConfig =
  sv_port :: u16
  sv_max_sessions :: u64
  sv_max_frame_payload :: u32
  sv_max_requests_per_session :: nat
  sv_backlog :: nat

record SessionState =
  ss_id :: u64
  ss_reader :: FrameReader
  ss_handshaken :: bool
  ss_last_sequence :: u64
  ss_requests :: nat
  ss_hello :: "HelloRequest option"

definition new_session :: "ServerConfig \<Rightarrow> u64 \<Rightarrow> SessionState" where
  "new_session cfg session =
     \<lparr>ss_id = session, ss_reader = new_frame_reader (sv_max_frame_payload cfg), ss_handshaken = False,
      ss_last_sequence = 0, ss_requests = 0, ss_hello = None\<rparr>"

record SessionInput =
  si_stopping :: bool
  si_read :: "u8 list result"
  si_written :: bool
  si_detail :: "u8 list"

datatype verdict = Continue | Break | Died

record 'c round =
  rd_verdict :: verdict
  rd_session :: SessionState
  rd_sent :: "u8 list list"
  rd_handler :: 'c

definition leave :: "verdict \<Rightarrow> SessionState \<Rightarrow> 'c \<Rightarrow> 'c round" where
  "leave v ses c = \<lparr>rd_verdict = v, rd_session = ses, rd_sent = [], rd_handler = c\<rparr>"

definition new_response :: ResponseEnvelope where
  "new_response = \<lparr>rs_session = 0, rs_sequence = 0, rs_term = 0, rs_boot = 0, rs_code = EC_Ok, rs_detail = []\<rparr>"

definition response_writer :: "ResponseEnvelope \<Rightarrow> u8 list \<Rightarrow> byte_writer" where
  "response_writer envelope body =
     ByteWriter_raw body (encode_ResponseEnvelope envelope (new_writer kMaxDocumentBytes kMaxBlobBytes))"

text \<open>\<open>send_response\<close>, then the end of the round: a send that fails ends the session.\<close>

definition send_response ::
    "'c SessionHandler \<Rightarrow> ServerConfig \<Rightarrow> SessionInput \<Rightarrow> MessageType option \<Rightarrow> ResponseEnvelope \<Rightarrow> u8 list \<Rightarrow> verdict \<Rightarrow>
     SessionState \<Rightarrow> 'c \<Rightarrow> 'c round" where
  "send_response h cfg env t envelope body v ses c =
     (let w = response_writer envelope body
      in if \<not> bw_ok w then leave Break ses c
         else case encode_frame t (bw_data w) 0 (sv_max_frame_payload cfg) of
                Inl _ \<Rightarrow> leave Break ses c
              | Inr fr \<Rightarrow>
                 \<lparr>rd_verdict = (if si_written env then v else Break), rd_session = ses, rd_sent = [fr],
                  rd_handler = hd_count h record_frame_sent c\<rparr>)"

definition hello_round :: "'c SessionHandler \<Rightarrow> ServerConfig \<Rightarrow> SessionInput \<Rightarrow> u8 list \<Rightarrow> SessionState \<Rightarrow> 'c \<Rightarrow> 'c round" where
  "hello_round h cfg env payload ses c =
     (let refuse = (\<lambda>e c. send_response h cfg env (Some MT_HelloAck)
                      (new_response\<lparr>rs_code := e, rs_detail := si_detail env\<rparr>) [] Break ses c)
      in case decode_object_body decode_HelloRequest payload of
           Inl e \<Rightarrow> refuse e c
         | Inr request \<Rightarrow>
            if ss_handshaken ses then refuse EC_InvalidState c
            else case hd_on_hello h (ss_id ses) request c of
              (Crashed, c') \<Rightarrow> leave Died ses c'
            | (Done (e, response), c') \<Rightarrow>
               if e \<noteq> EC_Ok then refuse e c'
               else send_response h cfg env (Some MT_HelloAck)
                      (new_response\<lparr>rs_session := ss_id ses, rs_term := hr_term response, rs_boot := hr_boot response\<rparr>)
                      (encode_body encode_HelloResponse (response\<lparr>hr_session := ss_id ses\<rparr>)) Continue
                      (ses\<lparr>ss_handshaken := True, ss_hello := Some request\<rparr>) c')"

definition request_round ::
    "'c SessionHandler \<Rightarrow> ServerConfig \<Rightarrow> SessionInput \<Rightarrow> MessageType \<Rightarrow> u8 list \<Rightarrow> SessionState \<Rightarrow> 'c \<Rightarrow> 'c round" where
  "request_round h cfg env t payload ses c =
     (case decode_RequestEnvelope (new_reader payload kMaxBlobBytes) of (res, r) \<Rightarrow>
      let response = new_response\<lparr>rs_session := ss_id ses\<rparr>;
          reply = send_response h cfg env (acknowledgement_for t);
          refuse = (\<lambda>e response ses. reply (response\<lparr>rs_code := e, rs_detail := si_detail env\<rparr>) [] Break ses c)
      in case res of
           Inl e \<Rightarrow> refuse e response ses
         | Inr envelope \<Rightarrow>
            let response = response\<lparr>rs_sequence := rq_sequence envelope\<rparr>;
                counted = ses\<lparr>ss_requests := ss_requests ses + 1\<rparr>
            in if rq_session envelope \<noteq> ss_id ses then refuse EC_Unauthorized response ses
               else if valid_id (ss_last_sequence ses) \<and> rq_sequence envelope \<le> ss_last_sequence ses
                    then refuse EC_ReplayDetected response ses
               else if ss_requests counted > sv_max_requests_per_session cfg
                    then refuse EC_QuotaExceeded response counted
               else let served = counted\<lparr>ss_last_sequence := rq_sequence envelope\<rparr>;
                        verdict = (if t = MT_Goodbye then Break else Continue)
               in case hd_on_request h (ss_id ses) envelope t (drop (br_position r) payload) response c of
                    ((Crashed, _), c') \<Rightarrow> leave Died served c'
                  | ((Done (e, body), response), c') \<Rightarrow>
                     reply (if e = EC_Ok then response else response\<lparr>rs_code := e, rs_detail := si_detail env\<rparr>)
                       body verdict served c')"

definition frame_round :: "'c SessionHandler \<Rightarrow> ServerConfig \<Rightarrow> SessionInput \<Rightarrow> Frame \<Rightarrow> SessionState \<Rightarrow> 'c \<Rightarrow> 'c round" where
  "frame_round h cfg env fr ses c =
     (let c = hd_count h record_frame_received c;
          t = fh_type (fm_header fr)
      in if t = MT_Hello then hello_round h cfg env (fm_payload fr) ses c
         else if \<not> ss_handshaken ses then leave Break ses (hd_count h record_request_rejected c)
         else request_round h cfg env t (fm_payload fr) ses c)"

text \<open>One pass of the loop of \<open>run_session\<close>.\<close>

definition session_round :: "'c SessionHandler \<Rightarrow> ServerConfig \<Rightarrow> SessionInput \<Rightarrow> SessionState \<Rightarrow> 'c \<Rightarrow> 'c round" where
  "session_round h cfg env ses c =
     (if si_stopping env then leave Break ses c
      else case FrameReader_next (ss_reader ses) of
        (Inr fr, reader) \<Rightarrow> frame_round h cfg env fr (ses\<lparr>ss_reader := reader\<rparr>) c
      | (Inl e, reader) \<Rightarrow>
         let ses = ses\<lparr>ss_reader := reader\<rparr>;
             reject = (\<lambda>e ses. leave Break ses (hd_count h (record_frame_rejected (e = EC_CapacityExceeded)) c))
         in if e \<noteq> EC_NotFound then reject e ses
            else case si_read env of
                   Inl _ \<Rightarrow> leave Break ses c
                 | Inr [] \<Rightarrow> leave Break ses c
                 | Inr chunk \<Rightarrow>
                    (case FrameReader_push chunk reader of (e, reader) \<Rightarrow>
                       let ses = ses\<lparr>ss_reader := reader\<rparr>
                       in if e \<noteq> EC_Ok then reject e ses else leave Continue ses c))"

fun run_session :: "'c SessionHandler \<Rightarrow> ServerConfig \<Rightarrow> SessionInput list \<Rightarrow> SessionState \<Rightarrow> 'c \<Rightarrow> 'c round" where
  "run_session h cfg [] ses c = leave Continue ses c"
| "run_session h cfg (env # envs) ses c =
     (let first = session_round h cfg env ses c
      in if rd_verdict first \<noteq> Continue then first
         else let rest = run_session h cfg envs (rd_session first) (rd_handler first)
              in rest\<lparr>rd_sent := rd_sent first @ rd_sent rest\<rparr>)"

text \<open>\<open>session_loop\<close>: the teardown on the session thread once \<open>run_session\<close> has returned.\<close>

definition end_session :: "'c SessionHandler \<Rightarrow> SessionState \<Rightarrow> 'c \<Rightarrow> 'c" where
  "end_session h ses c = hd_on_session_closed h (ss_id ses) (hd_count h record_session_closed c)"

section \<open>Accepting connections\<close>

record ServerImpl =
  se_config :: ServerConfig
  se_sessions :: "u64 list"
  se_next_session :: u64
  se_active_sessions :: u64

definition new_server :: "ServerConfig \<Rightarrow> ServerImpl" where
  "new_server cfg = \<lparr>se_config = cfg, se_sessions = [], se_next_session = 1, se_active_sessions = 0\<rparr>"

record AcceptInput =
  ai_accepted :: bool
  ai_stopping :: bool
  ai_channel :: bool

definition accept_round :: "'c SessionHandler \<Rightarrow> AcceptInput \<Rightarrow> ServerImpl \<Rightarrow> 'c \<Rightarrow> verdict \<times> ServerImpl \<times> 'c" where
  "accept_round h env impl c =
     (if \<not> ai_accepted env then (Break, impl, c)
      else if ai_stopping env then (Break, impl, c)
      else if se_active_sessions impl \<ge> sv_max_sessions (se_config impl)
           then (Continue, impl, hd_count h record_session_rejected c)
      else let raw = se_next_session impl;
               impl = impl\<lparr>se_next_session := raw + 1\<rparr>
           in if raw = 0 then (Break, impl, c)
              else if \<not> ai_channel env then (Continue, impl, c)
              else (Continue,
                    impl\<lparr>se_active_sessions := se_active_sessions impl + 1, se_sessions := se_sessions impl @ [raw]\<rparr>,
                    hd_count h record_session_opened c))"

text \<open>The last statement of \<open>session_loop\<close>: the counter is a \<open>size_t\<close>, and the subtraction wraps.\<close>

definition session_ended :: "ServerImpl \<Rightarrow> ServerImpl" where
  "session_ended impl = impl\<lparr>se_active_sessions := se_active_sessions impl - 1\<rparr>"

end
