(* ===== verification/Server_Laws.thy ===== *)
theory Server_Laws
  imports Server
begin

text \<open>
  What a session thread lets through to its handler, whatever bytes the peer sends and however they are cut, and what
  the accept loop guarantees about the sessions it opens.
\<close>

section \<open>Recording the calls\<close>

datatype handler_call =
    HC_Hello u64 HelloRequest bool
  | HC_Request u64 RequestEnvelope MessageType "u8 list"

text \<open>A handler that behaves like \<open>h\<close> and writes down what it was called with, and whether a handshake was accepted.\<close>

definition recorded :: "'c SessionHandler \<Rightarrow> (handler_call list \<times> 'c) SessionHandler" where
  "recorded h =
     \<lparr>hd_on_hello = \<lambda>session request (log, c).
        case hd_on_hello h session request c of (r, c') \<Rightarrow>
          (r, log @ [HC_Hello session request (case r of Crashed \<Rightarrow> False | Done (e, _) \<Rightarrow> e = EC_Ok)], c'),
      hd_on_request = \<lambda>session envelope t body response (log, c).
        case hd_on_request h session envelope t body response c of (r, c') \<Rightarrow>
          (r, log @ [HC_Request session envelope t body], c'),
      hd_on_session_closed = \<lambda>session (log, c). (log, hd_on_session_closed h session c),
      hd_count = \<lambda>f (log, c). (log, hd_count h f c)\<rparr>"

primrec proper_request :: "u64 \<Rightarrow> handler_call \<Rightarrow> bool" where
  "proper_request session (HC_Hello s q ok) \<longleftrightarrow> False"
| "proper_request session (HC_Request s e t body) \<longleftrightarrow>
     s = session \<and> rq_session e = session \<and> RequestEnvelope_validate e = EC_Ok \<and> t \<noteq> MT_Hello"

primrec call_sequence :: "handler_call \<Rightarrow> u64" where
  "call_sequence (HC_Hello s q ok) = 0"
| "call_sequence (HC_Request s e t body) = rq_sequence e"

definition requests_in_order :: "u64 \<Rightarrow> nat \<Rightarrow> handler_call list \<Rightarrow> bool" where
  "requests_in_order session limit calls \<longleftrightarrow>
     length calls \<le> limit \<and> list_all (proper_request session) calls \<and> sorted_wrt (<) (map call_sequence calls)"

definition disciplined :: "u64 \<Rightarrow> nat \<Rightarrow> handler_call list \<Rightarrow> bool" where
  "disciplined session limit calls \<longleftrightarrow>
     (case calls of
        [] \<Rightarrow> True
      | HC_Hello s request ok # rest \<Rightarrow>
          s = session \<and> HelloRequest_validate request = EC_Ok \<and> (rest \<noteq> [] \<longrightarrow> ok) \<and> requests_in_order session limit rest
      | _ \<Rightarrow> False)"

section \<open>The invariant of the loop\<close>

definition in_session :: "ServerConfig \<Rightarrow> SessionState \<Rightarrow> handler_call list \<Rightarrow> bool" where
  "in_session cfg ses calls \<longleftrightarrow>
     (if ss_handshaken ses
      then \<exists>request rest. calls = HC_Hello (ss_id ses) request True # rest \<and> HelloRequest_validate request = EC_Ok \<and>
             requests_in_order (ss_id ses) (sv_max_requests_per_session cfg) rest \<and> length rest = ss_requests ses \<and>
             (\<forall>call\<in>set rest. call_sequence call \<le> ss_last_sequence ses)
      else calls = [] \<and> ss_requests ses = 0)"

definition keeps_discipline :: "ServerConfig \<Rightarrow> u64 \<Rightarrow> (handler_call list \<times> 'c) round \<Rightarrow> bool" where
  "keeps_discipline cfg session r \<longleftrightarrow>
     ss_id (rd_session r) = session \<and>
     disciplined session (sv_max_requests_per_session cfg) (fst (rd_handler r)) \<and>
     (rd_verdict r = Continue \<longrightarrow> in_session cfg (rd_session r) (fst (rd_handler r)))"

lemma in_session_disciplined: "in_session cfg ses calls \<Longrightarrow> disciplined (ss_id ses) (sv_max_requests_per_session cfg) calls"
  by (auto simp: in_session_def disciplined_def requests_in_order_def split: if_splits)

lemma recorded_count [simp]: "fst (hd_count (recorded h) f lc) = fst lc"
  by (simp add: recorded_def split: prod.split)

lemma in_session_reader [simp]: "in_session cfg (ses\<lparr>ss_reader := r\<rparr>) calls \<longleftrightarrow> in_session cfg ses calls"
  by (simp add: in_session_def)

lemma leave_keeps:
  "in_session cfg ses (fst lc) \<Longrightarrow> keeps_discipline cfg (ss_id ses) (leave v ses lc)"
  by (simp add: keeps_discipline_def leave_def in_session_disciplined)

lemma leave_ended:
  "disciplined (ss_id ses) (sv_max_requests_per_session cfg) (fst lc) \<Longrightarrow> v \<noteq> Continue \<Longrightarrow>
   keeps_discipline cfg (ss_id ses) (leave v ses lc)"
  by (simp add: keeps_discipline_def leave_def)

lemma send_keeps:
  assumes "disciplined (ss_id ses) (sv_max_requests_per_session cfg) (fst lc)"
    and "v = Continue \<Longrightarrow> in_session cfg ses (fst lc)"
  shows "keeps_discipline cfg (ss_id ses) (send_response (recorded h) cfg env t envelope body v ses lc)"
  using assms by (auto simp: send_response_def Let_def keeps_discipline_def leave_def split: sum.split)

lemma refuse_keeps:
  "disciplined (ss_id ses) (sv_max_requests_per_session cfg) (fst lc) \<Longrightarrow>
   keeps_discipline cfg (ss_id ses) (send_response (recorded h) cfg env t envelope body Break ses lc)"
  by (rule send_keeps) simp_all

lemma hello_keeps:
  assumes inv: "in_session cfg ses (fst lc)"
  shows "keeps_discipline cfg (ss_id ses) (hello_round (recorded h) cfg env payload ses lc)"
proof -
  obtain log c where lc: "lc = (log, c)"
    by (cases lc)
  note calm = in_session_disciplined [OF inv]
  show ?thesis
  proof (cases "decode_object_body decode_HelloRequest payload")
    case (Inl e)
    then show ?thesis
      using calm by (simp add: hello_round_def Let_def refuse_keeps)
  next
    case (Inr request)
    then have valid: "HelloRequest_validate request = EC_Ok"
      by (rule hello_request_message.received_valid)
    show ?thesis
    proof (cases "ss_handshaken ses")
      case True
      then show ?thesis
        using Inr calm by (simp add: hello_round_def Let_def refuse_keeps)
    next
      case False
      then have log: "log = []" "ss_requests ses = 0"
        using inv lc by (simp_all add: in_session_def)
      obtain r c' where r: "hd_on_hello h (ss_id ses) request c = (r, c')"
        by (cases "hd_on_hello h (ss_id ses) request c")
      have first: "disciplined (ss_id ses) limit [HC_Hello (ss_id ses) request ok]" for ok limit
        using valid by (simp add: disciplined_def requests_in_order_def)
      have opened: "in_session cfg (ses\<lparr>ss_handshaken := True, ss_hello := Some request\<rparr>) [HC_Hello (ss_id ses) request True]"
        using valid log by (simp add: in_session_def requests_in_order_def)
      have accepted: "keeps_discipline cfg (ss_id ses) (send_response (recorded h) cfg env t envelope body Continue
          (ses\<lparr>ss_handshaken := True, ss_hello := Some request\<rparr>) ([HC_Hello (ss_id ses) request True], c'))" for t envelope body
        using send_keeps [of "ses\<lparr>ss_handshaken := True, ss_hello := Some request\<rparr>" cfg
            "([HC_Hello (ss_id ses) request True], c')" Continue] opened first by simp
      show ?thesis
        using Inr False r log lc accepted first
        by (auto simp: hello_round_def Let_def recorded_def [of h, THEN arg_cong [where f = hd_on_hello]]
            intro!: leave_ended send_keeps split: outcome.split)
    qed
  qed
qed


lemma order_appended:
  assumes "requests_in_order session limit rest" and "length rest < limit"
    and "proper_request session call" and "\<And>x. x \<in> set rest \<Longrightarrow> call_sequence x < call_sequence call"
  shows "requests_in_order session limit (rest @ [call])"
  using assms by (auto simp: requests_in_order_def sorted_wrt_append)

lemma request_keeps:
  assumes inv: "in_session cfg ses (fst lc)" and shaken: "ss_handshaken ses" and t: "t \<noteq> MT_Hello"
  shows "keeps_discipline cfg (ss_id ses) (request_round (recorded h) cfg env t payload ses lc)"
proof -
  obtain log c where lc: "lc = (log, c)"
    by (cases lc)
  obtain res r where d: "decode_RequestEnvelope (new_reader payload kMaxBlobBytes) = (res, r)"
    by (cases "decode_RequestEnvelope (new_reader payload kMaxBlobBytes)")
  note calm = in_session_disciplined [OF inv]
  have refused: "keeps_discipline cfg (ss_id ses) (send_response (recorded h) cfg env k envelope body Break
      (ses\<lparr>ss_requests := n\<rparr>) lc)" for k envelope body n
    using refuse_keeps [of "ses\<lparr>ss_requests := n\<rparr>" cfg lc] calm by simp
  show ?thesis
  proof (cases res)
    case (Inl e)
    then show ?thesis
      using calm d by (simp add: request_round_def Let_def refuse_keeps)
  next
    case (Inr envelope)
    have valid: "RequestEnvelope_validate envelope = EC_Ok"
      using request_message.decode_valid d Inr by blast
    obtain request rest where rest: "log = HC_Hello (ss_id ses) request True # rest"
      "HelloRequest_validate request = EC_Ok" "requests_in_order (ss_id ses) (sv_max_requests_per_session cfg) rest"
      "length rest = ss_requests ses" "\<And>x. x \<in> set rest \<Longrightarrow> call_sequence x \<le> ss_last_sequence ses"
      using inv shaken lc by (auto simp: in_session_def)
    show ?thesis
    proof (cases "rq_session envelope = ss_id ses \<and> \<not> (valid_id (ss_last_sequence ses) \<and>
        rq_sequence envelope \<le> ss_last_sequence ses) \<and> ss_requests ses < sv_max_requests_per_session cfg")
      case False
      then show ?thesis
        using calm d Inr refused by (auto simp: request_round_def Let_def intro!: refuse_keeps)
    next
      case True
      define call where "call = HC_Request (ss_id ses) envelope t (drop (br_position r) payload)"
      define served where "served = ses\<lparr>ss_requests := Suc (ss_requests ses), ss_last_sequence := rq_sequence envelope\<rparr>"
      have proper: "proper_request (ss_id ses) call"
        using True valid t by (simp add: call_def)
      have later: "call_sequence x < call_sequence call" if "x \<in> set rest" for x
      proof -
        have "proper_request (ss_id ses) x"
          using rest(3) that by (auto simp: requests_in_order_def list_all_iff)
        then have "valid_id (call_sequence x)"
          by (cases x) (auto simp: RequestEnvelope_validate_def split: if_splits)
        then have "valid_id (ss_last_sequence ses)"
          using rest(5) [OF that] by (auto simp: valid_id_def)
        then show ?thesis
          using rest(5) [OF that] True by (auto simp: call_def)
      qed
      have order: "requests_in_order (ss_id ses) (sv_max_requests_per_session cfg) (rest @ [call])"
        using order_appended [OF rest(3) _ proper later] rest(4) True by simp
      have inv': "in_session cfg served (log @ [call])"
        using shaken rest(1,2,4) order later
        by (auto simp: in_session_def served_def call_def intro: order.strict_implies_order)
      have "ss_id served = ss_id ses"
        by (simp add: served_def)
      then have kept: "keeps_discipline cfg (ss_id ses) (send_response (recorded h) cfg env k e body v served (log @ [call], c'))"
        "keeps_discipline cfg (ss_id ses) (leave v served (log @ [call], c'))" for k e body v c'
        using send_keeps [of served cfg "(log @ [call], c')" v] leave_keeps [of cfg served "(log @ [call], c')"]
          inv' in_session_disciplined [OF inv'] by simp_all
      obtain q response' c' where q: "hd_on_request h (ss_id ses) envelope t (drop (br_position r) payload)
          (new_response\<lparr>rs_session := ss_id ses, rs_sequence := rq_sequence envelope\<rparr>) c = ((q, response'), c')"
        by (metis surj_pair)
      show ?thesis
        using d Inr True q kept lc
        by (auto simp: request_round_def Let_def recorded_def [of h, THEN arg_cong [where f = hd_on_request]]
            call_def [symmetric] served_def [symmetric] split: outcome.split)
    qed
  qed
qed


lemma round_keeps:
  assumes inv: "in_session cfg ses (fst lc)"
  shows "keeps_discipline cfg (ss_id ses) (session_round (recorded h) cfg env ses lc)"
proof -
  obtain r reader where n: "FrameReader_next (ss_reader ses) = (r, reader)"
    by (cases "FrameReader_next (ss_reader ses)")
  define ses' where "ses' = ses\<lparr>ss_reader := reader\<rparr>"
  have same: "ss_id ses' = ss_id ses" and inv': "in_session cfg ses' (fst lc)"
    using inv by (simp_all add: ses'_def)
  have still: "keeps_discipline cfg (ss_id ses) (leave v (ses\<lparr>ss_reader := x\<rparr>) lc')"
    if "fst lc' = fst lc" for v x and lc' :: "handler_call list \<times> 'a"
    using leave_keeps [of cfg "ses\<lparr>ss_reader := x\<rparr>" lc'] inv that by simp
  show ?thesis
  proof (cases r)
    case (Inr fr)
    have "keeps_discipline cfg (ss_id ses') (frame_round (recorded h) cfg env fr ses' lc)"
      unfolding frame_round_def Let_def
      by (cases "ss_handshaken ses'") (use inv' in \<open>auto intro!: hello_keeps request_keeps leave_keeps\<close>)
    then show ?thesis
      using n Inr leave_keeps [OF inv] same by (simp add: session_round_def ses'_def)
  next
    case (Inl e)
    show ?thesis
      using n Inl leave_keeps [OF inv]
      by (auto simp: session_round_def Let_def still split: sum.split list.split prod.split)
  qed
qed

lemma run_keeps:
  "in_session cfg ses (fst lc) \<Longrightarrow> keeps_discipline cfg (ss_id ses) (run_session (recorded h) cfg envs ses lc)"
proof (induction envs arbitrary: ses lc)
  case (Cons env envs)
  define first where "first = session_round (recorded h) cfg env ses lc"
  have kept: "keeps_discipline cfg (ss_id ses) first"
    unfolding first_def by (rule round_keeps [OF Cons.prems])
  show ?case
  proof (cases "rd_verdict first = Continue")
    case True
    then have "in_session cfg (rd_session first) (fst (rd_handler first))" "ss_id (rd_session first) = ss_id ses"
      using kept by (simp_all add: keeps_discipline_def)
    then have "keeps_discipline cfg (ss_id ses) (run_session (recorded h) cfg envs (rd_session first) (rd_handler first))"
      using Cons.IH by metis
    then show ?thesis
      using True by (simp add: first_def [symmetric] Let_def keeps_discipline_def)
  next
    case False
    then show ?thesis
      using kept by (simp add: first_def [symmetric] Let_def)
  qed
qed (simp add: leave_keeps)

section \<open>Recording changes nothing\<close>

definition erase :: "(handler_call list \<times> 'c) round \<Rightarrow> 'c round" where
  "erase r = \<lparr>rd_verdict = rd_verdict r, rd_session = rd_session r, rd_sent = rd_sent r, rd_handler = snd (rd_handler r)\<rparr>"

lemma erase_leave [simp]: "erase (leave v ses lc) = leave v ses (snd lc)"
  by (simp add: erase_def leave_def)

lemma erase_count [simp]: "snd (hd_count (recorded h) f lc) = hd_count h f (snd lc)"
  by (simp add: recorded_def split: prod.split)

lemma erase_send [simp]: "erase (send_response (recorded h) cfg env t envelope body v ses lc) =
    send_response h cfg env t envelope body v ses (snd lc)"
  by (auto simp: send_response_def Let_def erase_def leave_def split: sum.split)

lemma recorded_hello: "hd_on_hello (recorded h) session request lc =
    (case hd_on_hello h session request (snd lc) of (r, c') \<Rightarrow>
       (r, fst lc @ [HC_Hello session request (case r of Crashed \<Rightarrow> False | Done (e, _) \<Rightarrow> e = EC_Ok)], c'))"
  by (simp add: recorded_def split: prod.split)

lemma recorded_request: "hd_on_request (recorded h) session envelope t body response lc =
    (case hd_on_request h session envelope t body response (snd lc) of (r, c') \<Rightarrow>
       (r, fst lc @ [HC_Request session envelope t body], c'))"
  by (simp add: recorded_def split: prod.split)

lemma erase_hello [simp]:
  "erase (hello_round (recorded h) cfg env payload ses lc) = hello_round h cfg env payload ses (snd lc)"
  by (auto simp: hello_round_def Let_def recorded_hello split: sum.split prod.split outcome.split)

lemma erase_request [simp]:
  "erase (request_round (recorded h) cfg env t payload ses lc) = request_round h cfg env t payload ses (snd lc)"
proof -
  obtain res r where d: "decode_RequestEnvelope (new_reader payload kMaxBlobBytes) = (res, r)"
    by (cases "decode_RequestEnvelope (new_reader payload kMaxBlobBytes)")
  show ?thesis
    by (cases res) (auto simp: request_round_def d Let_def recorded_request split: prod.split outcome.split)
qed

lemma erase_round [simp]: "erase (session_round (recorded h) cfg env ses lc) = session_round h cfg env ses (snd lc)"
  by (auto simp: session_round_def frame_round_def Let_def split: sum.split list.split prod.split)

lemma erase_run: "erase (run_session (recorded h) cfg envs ses lc) = run_session h cfg envs ses (snd lc)"
proof (induction envs arbitrary: ses lc)
  case (Cons env envs)
  let ?r = "session_round (recorded h) cfg env ses lc"
  have r: "session_round h cfg env ses (snd lc) = erase ?r"
    by simp
  have parts: "rd_verdict (erase ?r) = rd_verdict ?r" "rd_session (erase ?r) = rd_session ?r"
    "rd_sent (erase ?r) = rd_sent ?r" "rd_handler (erase ?r) = snd (rd_handler ?r)"
    by (simp_all add: erase_def)
  show ?case
    unfolding run_session.simps Let_def r parts Cons.IH [symmetric] by (simp add: erase_def)
qed simp

text \<open>
  C20. Session discipline. Whatever the peer sends, however the bytes are cut into reads and whenever the server is
  stopped, the calls a session makes to its handler form a protocol: nothing at all, or first one valid handshake under
  the session's own identity and then, only if it was accepted, requests that carry that identity, are well formed, have
  strictly increasing sequence numbers (so no request is ever replayed) and are not more than the quota. The
  calls are those of the unmodified session: recording them changes neither what is sent nor what the handler does.
\<close>

theorem session_discipline:
  "disciplined session (sv_max_requests_per_session cfg)
     (fst (rd_handler (run_session (recorded h) cfg envs (new_session cfg session) ([], c)))) \<and>
   erase (run_session (recorded h) cfg envs (new_session cfg session) ([], c)) =
     run_session h cfg envs (new_session cfg session) c"
proof -
  have "in_session cfg (new_session cfg session) (fst ([], c))" "ss_id (new_session cfg session) = session"
    by (simp_all add: in_session_def new_session_def)
  then have "keeps_discipline cfg session (run_session (recorded h) cfg envs (new_session cfg session) ([], c))"
    using run_keeps by metis
  then show ?thesis
    by (simp add: keeps_discipline_def erase_run)
qed

section \<open>Accepting\<close>

text \<open>
  What the accept thread and the session threads do, one event after the other: a connection arrives, or the thread of
  an open session leaves \<open>run_session\<close> and tears the session down. Beside the server the state of a run holds the open
  sessions: the identities registered whose thread has not ended. A thread ends once, so an end event
  of any other session does not happen.
\<close>

datatype accept_event = Arrival AcceptInput | Session_End SessionState

primrec accept_event_step ::
  "'c SessionHandler \<Rightarrow> accept_event \<Rightarrow> verdict \<times> ServerImpl \<times> 'c \<times> u64 list \<Rightarrow> verdict \<times> ServerImpl \<times> 'c \<times> u64 list" where
  "accept_event_step h (Arrival env) st =
     (case st of (v, impl, c, running) \<Rightarrow>
        if v = Continue
        then case accept_round h env impl c of
               (v', impl', c') \<Rightarrow> (v', impl', c', running @ drop (length (se_sessions impl)) (se_sessions impl'))
        else (v, impl, c, running))"
| "accept_event_step h (Session_End ses) st =
     (case st of (v, impl, c, running) \<Rightarrow>
        if ss_id ses \<in> set running then (v, session_ended impl, end_session h ses c, remove1 (ss_id ses) running)
        else (v, impl, c, running))"

definition accept_run ::
  "'c SessionHandler \<Rightarrow> ServerConfig \<Rightarrow> accept_event list \<Rightarrow> 'c \<Rightarrow> verdict \<times> ServerImpl \<times> 'c \<times> u64 list" where
  "accept_run h cfg events c = fold (accept_event_step h) events (Continue, new_server cfg, c, [])"

definition orderly :: "ServerConfig \<Rightarrow> verdict \<times> ServerImpl \<times> 'c \<times> u64 list \<Rightarrow> bool" where
  "orderly cfg st \<longleftrightarrow>
     (case st of (v, impl, c, running) \<Rightarrow>
        se_config impl = cfg \<and> unat (se_active_sessions impl) = length running \<and> se_active_sessions impl \<le> sv_max_sessions cfg \<and>
        distinct running \<and> set running \<subseteq> set (se_sessions impl) \<and>
        sorted_wrt (<) (se_sessions impl) \<and> 0 \<notin> set (se_sessions impl) \<and>
        (v = Continue \<longrightarrow> se_next_session impl = 0 \<or> (\<forall>k\<in>set (se_sessions impl). k < se_next_session impl)))"

lemma next_or_wrapped: "raw + 1 = 0 \<or> raw < raw + 1" for raw :: u64
  using less_succ [of raw] by (cases "raw = u64_max") simp_all

lemma one_more:
  fixes x y :: u64
  assumes "x < y"
  shows "unat (x + 1) = Suc (unat x) \<and> x + 1 \<le> y"
proof -
  have "unat x + 1 \<le> unat y"
    using assms by (simp add: word_less_nat_alt)
  moreover from this have "unat (x + 1) = unat x + 1"
    using unat_u64_bound [of y] by (intro unat_plus_one) simp
  ultimately show ?thesis
    by (simp add: word_le_nat_alt)
qed

lemma one_less:
  fixes x :: u64
  assumes "0 < unat x"
  shows "unat (x - 1) = unat x - 1 \<and> x - 1 \<le> x"
proof -
  have "unat (x - 1) = unat x - 1"
    using assms by (intro unat_minus_one) auto
  then show ?thesis
    by (simp add: word_le_nat_alt)
qed

lemma orderly_arrival:
  assumes "orderly cfg (Continue, impl, c, running)"
  shows "orderly cfg (accept_event_step h (Arrival env) (Continue, impl, c, running))"
proof (cases "se_next_session impl = 0")
  case False
  have "se_next_session impl + 1 = 0 \<or> (\<forall>k\<in>insert (se_next_session impl) (set (se_sessions impl)). k < se_next_session impl + 1)"
    using next_or_wrapped [of "se_next_session impl"] assms False by (auto simp: orderly_def intro: less_trans)
  then show ?thesis
    using assms False one_more [of "se_active_sessions impl" "sv_max_sessions cfg"]
    by (auto simp: orderly_def accept_round_def Let_def sorted_wrt_append not_le)
qed (use assms in \<open>auto simp: orderly_def accept_round_def Let_def\<close>)

lemma orderly_end:
  assumes "orderly cfg (v, impl, c, running)"
  shows "orderly cfg (accept_event_step h (Session_End ses) (v, impl, c, running))"
proof (cases "ss_id ses \<in> set running")
  case True
  then have "0 < unat (se_active_sessions impl)"
    using assms by (auto simp: orderly_def)
  from one_less [OF this] show ?thesis
    using assms True by (auto simp: orderly_def session_ended_def length_remove1 dest: notin_set_remove1)
qed (use assms in simp)

lemma orderly_step: "orderly cfg st \<Longrightarrow> orderly cfg (accept_event_step h event st)"
proof (cases event; cases st)
  fix env v impl c running
  assume "orderly cfg st" "event = Arrival env" "st = (v, impl, c, running)"
  then show ?thesis
    using orderly_arrival [of cfg impl c running h env] by (cases "v = Continue") simp_all
next
  fix ses v impl c running
  assume "orderly cfg st" "event = Session_End ses" "st = (v, impl, c, running)"
  then show ?thesis
    using orderly_end [of cfg v impl c running h ses] by (simp only:)
qed

lemma orderly_run: "orderly cfg st \<Longrightarrow> orderly cfg (fold (accept_event_step h) events st)"
  by (induction events arbitrary: st) (simp_all add: orderly_step)

text \<open>
  C31. Session identities are never reused and open sessions never exceed their bound: whatever connections arrive, fail
  or are refused, and in whatever order open sessions end, the counter of active sessions is exactly the number of open
  sessions (it never wraps around), that number is at most \<open>max_sessions\<close>, the open sessions are distinct and registered, and
  the identities handed out are distinct, increasing and valid, even when the 64-bit identity counter wraps around (the
  accept loop ends there).
\<close>

theorem sessions_are_unique_and_bounded:
  "case accept_run h cfg events c of (v, impl, c', running) \<Rightarrow>
     unat (se_active_sessions impl) = length running \<and> length running \<le> unat (sv_max_sessions cfg) \<and>
     distinct running \<and> set running \<subseteq> set (se_sessions impl) \<and>
     sorted_wrt (<) (se_sessions impl) \<and> distinct (se_sessions impl) \<and> list_all valid_id (se_sessions impl)"
proof -
  have "orderly cfg (accept_run h cfg events c)"
    unfolding accept_run_def by (rule orderly_run) (simp add: orderly_def new_server_def)
  then show ?thesis
    by (auto simp: orderly_def strict_sorted_iff list_all_iff valid_id_def word_le_nat_alt split: prod.splits)
qed

end
