(* ===== verification/Client.thy ===== *)
theory Client
  imports Server_Laws
begin

text \<open>
  The client (\<open>src/net/client.cpp\<close>): connecting, the handshake, a call and the closing. What the socket returns to each
  read and whether a send succeeds are arguments.
\<close>

record ClientConfig =
  cl_host :: "u8 list"
  cl_port :: u16
  cl_process :: u64
  cl_boot :: u64
  cl_principal :: u64
  cl_token :: "u8 list"
  cl_role :: "u8 list"
  cl_max_frame_payload :: u32

record Client =
  ct_connected :: bool
  ct_reader :: FrameReader
  ct_config :: ClientConfig
  ct_session :: u64
  ct_term :: u64
  ct_boot :: u64
  ct_request_sequence :: u64

text \<open>\<open>started\<close> and \<open>opened\<close> are the results of the transport's start-up and of the connection attempt.\<close>

definition Client_connect :: "ClientConfig \<Rightarrow> status \<Rightarrow> status \<Rightarrow> Client \<Rightarrow> status \<times> Client" where
  "Client_connect cfg started opened ct =
     (if ct_connected ct then (EC_InvalidState, ct)
      else let ct = ct\<lparr>ct_config := cfg\<rparr>
           in if started \<noteq> EC_Ok then (started, ct)
              else if opened \<noteq> EC_Ok then (opened, ct)
              else (EC_Ok, ct\<lparr>ct_connected := True, ct_reader := FrameReader_reset (ct_reader ct), ct_session := 0,
                             ct_term := 0, ct_boot := 0, ct_request_sequence := 0\<rparr>))"

text \<open>
  \<open>inbound\<close> is what the successive reads of the socket return, an empty chunk being the end of the stream; the loop
  still waits (\<open>None\<close>) when they are used up.
\<close>

fun read_frame_from :: "FrameReader \<Rightarrow> u8 list result list \<Rightarrow> Frame result option \<times> FrameReader" where
  "read_frame_from reader inbound =
     (case FrameReader_next reader of
        (Inr fr, reader) \<Rightarrow> (Some (Inr fr), reader)
      | (Inl e, reader) \<Rightarrow>
         if e \<noteq> EC_NotFound then (Some (Inl e), reader)
         else (case inbound of
                 [] \<Rightarrow> (None, reader)
               | Inl e # _ \<Rightarrow> (Some (Inl e), reader)
               | Inr chunk # inbound \<Rightarrow>
                  if chunk = [] then (Some (Inl EC_Shutdown), reader)
                  else (case FrameReader_push chunk reader of (e, reader) \<Rightarrow>
                          if e \<noteq> EC_Ok then (Some (Inl e), reader) else read_frame_from reader inbound)))"

declare read_frame_from.simps [simp del]

text \<open>Sending: the bytes handed to the socket and the status of the write.\<close>

definition handshake_reply :: "Frame \<Rightarrow> Client \<Rightarrow> HelloResponse result \<times> Client" where
  "handshake_reply reply ct =
     (if fh_type (fm_header reply) \<noteq> MT_HelloAck then (Inl EC_InvalidState, ct)
      else case decode_ResponseEnvelope (new_reader (fm_payload reply) kMaxBlobBytes) of
        (Inl e, _) \<Rightarrow> (Inl e, ct)
      | (Inr envelope, r) \<Rightarrow>
         if rs_code envelope \<noteq> EC_Ok then (Inl (rs_code envelope), ct)
         else case decode_HelloResponse r of
                (Inl e, _) \<Rightarrow> (Inl e, ct)
              | (Inr response, r) \<Rightarrow>
                 if decode_finish r \<noteq> EC_Ok then (Inl (decode_finish r), ct)
                 else (Inr response, ct\<lparr>ct_session := hr_session response, ct_term := hr_term response,
                                        ct_boot := hr_boot response\<rparr>))"

definition hello_of :: "ClientConfig \<Rightarrow> HelloRequest" where
  "hello_of cfg = \<lparr>hq_protocol_version = ucast kWireProtocolVersion, hq_process = cl_process cfg, hq_boot = cl_boot cfg,
     hq_principal = cl_principal cfg, hq_token = cl_token cfg, hq_role = cl_role cfg\<rparr>"

definition Client_handshake :: "status \<Rightarrow> u8 list result list \<Rightarrow> Client \<Rightarrow> HelloResponse result option \<times> u8 list list \<times> Client" where
  "Client_handshake written inbound ct =
     (if \<not> ct_connected ct then (Some (Inl EC_InvalidState), [], ct)
      else let request = hello_of (ct_config ct)
      in if HelloRequest_validate request \<noteq> EC_Ok then (Some (Inl (HelloRequest_validate request)), [], ct)
      else case encode_frame (Some MT_Hello) (encode_body encode_HelloRequest request) 0 (cl_max_frame_payload (ct_config ct)) of
        Inl e \<Rightarrow> (Some (Inl e), [], ct)
      | Inr bytes \<Rightarrow>
         if written \<noteq> EC_Ok then (Some (Inl written), [bytes], ct)
         else case read_frame_from (ct_reader ct) inbound of
                (None, reader) \<Rightarrow> (None, [bytes], ct\<lparr>ct_reader := reader\<rparr>)
              | (Some (Inl e), reader) \<Rightarrow> (Some (Inl e), [bytes], ct\<lparr>ct_reader := reader\<rparr>)
              | (Some (Inr reply), reader) \<Rightarrow>
                 (case handshake_reply reply (ct\<lparr>ct_reader := reader\<rparr>) of (res, ct) \<Rightarrow> (Some res, [bytes], ct)))"

definition call_reply :: "MessageType \<Rightarrow> RequestEnvelope \<Rightarrow> Client \<Rightarrow> Frame \<Rightarrow> u8 list result" where
  "call_reply t envelope ct reply =
     (if Some (fh_type (fm_header reply)) \<noteq> acknowledgement_for t then Inl EC_InvalidState
      else case decode_ResponseEnvelope (new_reader (fm_payload reply) kMaxBlobBytes) of
        (Inl e, _) \<Rightarrow> Inl e
      | (Inr response, r) \<Rightarrow>
         if rs_session response \<noteq> ct_session ct then Inl EC_Unauthorized
         else if rs_sequence response \<noteq> rq_sequence envelope then Inl EC_SequenceRegression
         else if rs_code response \<noteq> EC_Ok then Inl (rs_code response)
         else Inr (fst (ByteReader_raw (ByteReader_remaining r) r)))"

definition request_writer :: "RequestEnvelope \<Rightarrow> u8 list \<Rightarrow> byte_writer" where
  "request_writer envelope body =
     ByteWriter_raw body (encode_RequestEnvelope envelope (new_writer kMaxDocumentBytes kMaxBlobBytes))"

definition Client_call ::
    "MessageType \<Rightarrow> u8 list \<Rightarrow> status \<Rightarrow> u8 list result list \<Rightarrow> Client \<Rightarrow> u8 list result option \<times> u8 list list \<times> Client" where
  "Client_call t body written inbound ct =
     (if \<not> ct_connected ct then (Some (Inl EC_InvalidState), [], ct)
      else if \<not> valid_id (ct_session ct) then (Some (Inl EC_InvalidState), [], ct)
      else if \<not> is_request t then (Some (Inl EC_InvalidArgument), [], ct)
      else case StrongUInt_next (ct_request_sequence ct) of
        None \<Rightarrow> (Some (Inl EC_Overflow), [], ct)
      | Some sequence \<Rightarrow>
         let envelope = \<lparr>rq_session = ct_session ct, rq_sequence = sequence, rq_term = ct_term ct, rq_boot = ct_boot ct\<rparr>;
             w = request_writer envelope body
         in if \<not> bw_ok w then (Some (Inl EC_CapacityExceeded), [], ct)
            else case encode_frame (Some t) (bw_data w) 0 (cl_max_frame_payload (ct_config ct)) of
              Inl e \<Rightarrow> (Some (Inl e), [], ct)
            | Inr bytes \<Rightarrow>
               if written \<noteq> EC_Ok then (Some (Inl written), [bytes], ct)
               else let ct = ct\<lparr>ct_request_sequence := sequence\<rparr>
                    in case read_frame_from (ct_reader ct) inbound of
                         (None, reader) \<Rightarrow> (None, [bytes], ct\<lparr>ct_reader := reader\<rparr>)
                       | (Some (Inl e), reader) \<Rightarrow> (Some (Inl e), [bytes], ct\<lparr>ct_reader := reader\<rparr>)
                       | (Some (Inr reply), reader) \<Rightarrow>
                          (Some (call_reply t envelope ct reply), [bytes], ct\<lparr>ct_reader := reader\<rparr>))"

definition Client_close :: "status \<Rightarrow> u8 list result list \<Rightarrow> Client \<Rightarrow> u8 list list \<times> Client" where
  "Client_close written inbound ct =
     (if \<not> ct_connected ct then ([], ct)
      else case (if valid_id (ct_session ct) then snd (Client_call MT_Goodbye [] written inbound ct) else ([], ct)) of
             (sent, ct) \<Rightarrow> (sent, ct\<lparr>ct_connected := False, ct_session := 0\<rparr>))"

end
