(* ===== verification/Remote_Call.thy ===== *)
theory Remote_Call
  imports Client Session_Laws
begin

text \<open>
  The protocol end to end: the client's request, the server's round and the client's reading of the reply, over a
  connection that delivers the bytes in pieces of any size.
\<close>

section \<open>Delivery in pieces\<close>

definition carries :: "u8 list list \<Rightarrow> u8 list \<Rightarrow> bool" where
  "carries chunks bytes \<longleftrightarrow> concat chunks = bytes \<and> list_all (\<lambda>c. c \<noteq> [] \<and> length c \<le> kSocketReadChunk) chunks"

definition idle_reader :: "FrameReader \<Rightarrow> bool" where
  "idle_reader r \<longleftrightarrow> sound_reader r \<and> unread r = []"

lemma partial_push:
  assumes "sound_reader r" and "unread r @ c @ rest = wire_frame t payload" and "c \<noteq> []" and "length c \<le> kSocketReadChunk"
    and "length payload \<le> unat (fd_max_payload r)"
  shows "FrameReader_next r = (Inl EC_NotFound, r)"
    and "\<exists>r'. FrameReader_push c r = (EC_Ok, r') \<and> unread r' = unread r @ c \<and> sound_reader r' \<and>
      fd_max_payload r' = fd_max_payload r"
proof -
  show "FrameReader_next r = (Inl EC_NotFound, r)"
    using next_part [of r t payload "c @ rest"] assms by (simp add: sound_reader_def)
  have "length (unread r) + length c \<le> 24 + length payload"
    using arg_cong [OF assms(2), of length] by simp
  then have "length (unread r) + length c \<le> max_buffered (fd_max_payload r)"
    using assms(5) by (simp add: max_buffered_def wire_sizes)
  then show "\<exists>r'. FrameReader_push c r = (EC_Ok, r') \<and> unread r' = unread r @ c \<and> sound_reader r' \<and>
      fd_max_payload r' = fd_max_payload r"
    using push_room [of r c] assms(1) by (auto simp: sound_reader_def)
qed

lemma whole_frame:
  assumes "sound_reader r" and "unread r = wire_frame t payload" and "length payload \<le> unat (fd_max_payload r)"
  shows "\<exists>r'. FrameReader_next r = (Inr (plain_frame t payload), r') \<and> idle_reader r' \<and> fd_max_payload r' = fd_max_payload r"
proof -
  obtain r' where "FrameReader_next r = (Inr (plain_frame t payload), r')" "unread r' = []" "fd_error r' = EC_Ok"
    "fd_max_payload r' = fd_max_payload r"
    using next_whole [of r t payload "[]"] assms by (auto simp: sound_reader_def)
  then show ?thesis
    using next_offset assms(1) by (auto simp: idle_reader_def sound_reader_def)
qed

lemma client_reads:
  assumes "sound_reader r" and "unread r @ concat chunks = wire_frame t payload"
    and "list_all (\<lambda>c. c \<noteq> [] \<and> length c \<le> kSocketReadChunk) chunks" and "length payload \<le> unat (fd_max_payload r)"
  shows "\<exists>r'. read_frame_from r (map Inr chunks) = (Some (Inr (plain_frame t payload)), r') \<and> idle_reader r' \<and>
    fd_max_payload r' = fd_max_payload r"
  using assms
proof (induction chunks arbitrary: r)
  case Nil
  then show ?case
    using whole_frame [of r t payload] by (auto simp: read_frame_from.simps)
next
  case (Cons c chunks)
  have n: "FrameReader_next r = (Inl EC_NotFound, r)"
    using partial_push(1) [of r c "concat chunks"] Cons.prems by simp
  obtain r1 where r1: "FrameReader_push c r = (EC_Ok, r1)" "unread r1 = unread r @ c" "sound_reader r1"
    "fd_max_payload r1 = fd_max_payload r"
    using partial_push(2) [of r c "concat chunks"] Cons.prems by auto
  obtain r' where "read_frame_from r1 (map Inr chunks) = (Some (Inr (plain_frame t payload)), r')" "idle_reader r'"
    "fd_max_payload r' = fd_max_payload r1"
    using Cons.IH [of r1] r1 Cons.prems by auto
  then show ?case
    using n r1 Cons.prems(3) by (subst read_frame_from.simps) simp
qed

definition feeds :: "SessionInput \<Rightarrow> u8 list \<Rightarrow> bool" where
  "feeds env chunk \<longleftrightarrow> \<not> si_stopping env \<and> si_read env = Inr chunk"

lemma single_round: "run_session h cfg [env] ses c = session_round h cfg env ses c"
  by (cases "session_round h cfg env ses c") (simp add: Let_def leave_def)

lemma server_reads:
  assumes "list_all2 feeds envs chunks" and "sound_reader (ss_reader ses)"
    and "unread (ss_reader ses) @ concat chunks = wire_frame t payload"
    and "list_all (\<lambda>c. c \<noteq> [] \<and> length c \<le> kSocketReadChunk) chunks"
    and "length payload \<le> unat (fd_max_payload (ss_reader ses))" and "\<not> si_stopping env"
  shows "\<exists>r'. run_session h cfg (envs @ [env]) ses c =
      frame_round h cfg env (plain_frame t payload) (ses\<lparr>ss_reader := r'\<rparr>) c \<and> idle_reader r'"
  using assms
proof (induction envs chunks arbitrary: ses rule: list_all2_induct)
  case Nil
  then show ?case
    using whole_frame [of "ss_reader ses" t payload] single_round [of h cfg env ses c]
    by (auto simp: session_round_def simp del: run_session.simps)
next
  case (Cons e envs chunk chunks)
  have n: "FrameReader_next (ss_reader ses) = (Inl EC_NotFound, ss_reader ses)"
    using partial_push(1) [of "ss_reader ses" chunk "concat chunks"] Cons.prems by simp
  obtain r1 where r1: "FrameReader_push chunk (ss_reader ses) = (EC_Ok, r1)" "unread r1 = unread (ss_reader ses) @ chunk"
    "sound_reader r1" "fd_max_payload r1 = fd_max_payload (ss_reader ses)"
    using partial_push(2) [of "ss_reader ses" chunk "concat chunks"] Cons.prems by auto
  have "session_round h cfg e ses c = leave Continue (ses\<lparr>ss_reader := r1\<rparr>) c"
    using n r1(1) Cons.hyps(1) Cons.prems(3) by (cases chunk) (auto simp: session_round_def feeds_def Let_def)
  then have step: "run_session h cfg ((e # envs) @ [env]) ses c = run_session h cfg (envs @ [env]) (ses\<lparr>ss_reader := r1\<rparr>) c"
    by (simp add: leave_def Let_def)
  show ?case
    unfolding step using Cons.IH [of "ses\<lparr>ss_reader := r1\<rparr>"] r1 Cons.prems by auto
qed

section \<open>What the messages look like\<close>

lemma writer_appends: "bw_ok w \<Longrightarrow> length (bw_data w) + length body \<le> bw_max_total w \<Longrightarrow> bw_max_total w < 2 ^ 64 \<Longrightarrow>
    ByteWriter_raw body w = w\<lparr>bw_data := bw_data w @ body\<rparr>"
  by (simp add: ByteWriter_raw_def ByteWriter_ensure_def Let_def)

lemma request_layout:
  fixes e :: RequestEnvelope
  defines "w \<equiv> encode_RequestEnvelope e (new_writer kMaxDocumentBytes kMaxBlobBytes)"
  shows "bw_ok w" and "length (bw_data w) = 32" and "bw_max_total w = kMaxDocumentBytes"
  by (simp_all add: w_def encode_RequestEnvelope_def writer_eval kMaxDocumentBytes_def)

lemma response_layout:
  fixes e :: ResponseEnvelope
  defines "w \<equiv> encode_ResponseEnvelope e (new_writer kMaxDocumentBytes kMaxBlobBytes)"
  assumes "length (rs_detail e) \<le> kMaxDetailBytes"
  shows "bw_ok w" and "length (bw_data w) = 38 + length (rs_detail e)" and "bw_max_total w = kMaxDocumentBytes"
  using assms(2)
  by (simp_all add: w_def encode_ResponseEnvelope_def writer_eval kMaxDocumentBytes_def kMaxBlobBytes_def kMaxDetailBytes_def)

lemma request_bytes:
  assumes "32 + length body \<le> kMaxDocumentBytes"
  shows "bw_ok (request_writer e body)" and "bw_data (request_writer e body) = encode_body encode_RequestEnvelope e @ body"
    and "length (bw_data (request_writer e body)) = 32 + length body"
  using writer_appends [of "encode_RequestEnvelope e (new_writer kMaxDocumentBytes kMaxBlobBytes)" body] request_layout [of e]
    assms by (simp_all add: request_writer_def encode_body_def kMaxDocumentBytes_def)

lemma response_bytes:
  assumes "length (rs_detail e) \<le> kMaxDetailBytes" and "38 + length (rs_detail e) + length body \<le> kMaxDocumentBytes"
  shows "bw_ok (response_writer e body)" and "bw_data (response_writer e body) = encode_body encode_ResponseEnvelope e @ body"
    and "length (bw_data (response_writer e body)) = 38 + length (rs_detail e) + length body"
  using writer_appends [of "encode_ResponseEnvelope e (new_writer kMaxDocumentBytes kMaxBlobBytes)" body]
    response_layout [OF assms(1)] assms(2) by (simp_all add: response_writer_def encode_body_def kMaxDocumentBytes_def)

lemma request_read:
  assumes "RequestEnvelope_validate e = EC_Ok"
  shows "\<exists>r. decode_RequestEnvelope (new_reader (encode_body encode_RequestEnvelope e @ body) kMaxBlobBytes) = (Inr e, r) \<and>
    drop (br_position r) (encode_body encode_RequestEnvelope e @ body) = body"
  using request_message.split_body [OF assms, of body] request_layout(1) [of e] by (auto simp: accepted_def)

lemma response_read:
  assumes "length (rs_detail e) \<le> kMaxDetailBytes"
  shows "\<exists>r. decode_ResponseEnvelope (new_reader (encode_body encode_ResponseEnvelope e @ body) kMaxBlobBytes) = (Inr e, r) \<and>
    fst (ByteReader_raw (ByteReader_remaining r) r) = body"
proof -
  define bytes where "bytes = encode_body encode_ResponseEnvelope e @ body"
  have "response_fits e" "accepted encode_ResponseEnvelope e"
    using assms response_layout(1) [OF assms] by (simp_all add: response_fits_def accepted_def kMaxDetailBytes_def kMaxBlobBytes_def)
  then obtain r where r: "decode_ResponseEnvelope (new_reader bytes kMaxBlobBytes) = (Inr e, r)" "br_ok r"
    "drop (br_position r) bytes = body"
    using response_message.split_body [of e body] by (auto simp: bytes_def)
  have "reader_advances (new_reader bytes kMaxBlobBytes) r"
    using response_message.delivered_valid r(1) unfolding delivers_from_def
    by (metis le0 new_reader_def byte_reader.select_convs(1,2) snd_conv)
  then have "br_data r = bytes" "br_position r \<le> length bytes"
    by (auto simp: reader_advances_def new_reader_def)
  moreover have "length body = length bytes - br_position r"
    using r(3) by (metis length_drop)
  ultimately have "fst (ByteReader_raw (ByteReader_remaining r) r) = body"
    using r(2,3) by (simp add: ByteReader_raw_def ByteReader_remaining_def)
  then show ?thesis
    using r(1) bytes_def by blast
qed

section \<open>A call and its answer\<close>

text \<open>The server's contract for a handler: it may stamp the epoch on the response, nothing else of it.\<close>

locale session_handler =
  fixes h :: "'c SessionHandler"
  assumes stamps: "hd_on_request h session envelope t body response c = ((r, response'), c') \<Longrightarrow>
    rs_session response' = rs_session response \<and> rs_sequence response' = rs_sequence response \<and>
    rs_code response' = rs_code response \<and> rs_detail response' = rs_detail response"

definition next_envelope :: "Client \<Rightarrow> RequestEnvelope" where
  "next_envelope ct = \<lparr>rq_session = ct_session ct, rq_sequence = ct_request_sequence ct + 1, rq_term = ct_term ct,
     rq_boot = ct_boot ct\<rparr>"

definition client_ready :: "Client \<Rightarrow> bool" where
  "client_ready ct \<longleftrightarrow> ct_connected ct \<and> valid_id (ct_session ct) \<and> valid_id (ct_term ct) \<and> valid_id (ct_boot ct) \<and>
     ct_request_sequence ct \<noteq> u64_max \<and> idle_reader (ct_reader ct)"

definition session_ready :: "ServerConfig \<Rightarrow> SessionState \<Rightarrow> Client \<Rightarrow> bool" where
  "session_ready cfg ses ct \<longleftrightarrow> ss_id ses = ct_session ct \<and> ss_handshaken ses \<and> idle_reader (ss_reader ses) \<and>
     ss_last_sequence ses \<le> ct_request_sequence ct \<and> ss_requests ses < sv_max_requests_per_session cfg"

definition request_fits :: "Client \<Rightarrow> SessionState \<Rightarrow> u8 list \<Rightarrow> bool" where
  "request_fits ct ses body \<longleftrightarrow> 32 + length body \<le> unat (cl_max_frame_payload (ct_config ct)) \<and>
     32 + length body \<le> unat (fd_max_payload (ss_reader ses)) \<and> 32 + length body \<le> kMaxDocumentBytes"

definition reply_fits :: "ServerConfig \<Rightarrow> Client \<Rightarrow> u8 list \<Rightarrow> u8 list \<Rightarrow> bool" where
  "reply_fits cfg ct detail body \<longleftrightarrow> length detail \<le> kMaxDetailBytes \<and>
     38 + length detail + length body \<le> unat (sv_max_frame_payload cfg) \<and>
     38 + length detail + length body \<le> unat (fd_max_payload (ct_reader ct)) \<and>
     38 + length detail + length body \<le> kMaxDocumentBytes"

lemma next_valid:
  assumes "client_ready ct"
  shows "RequestEnvelope_validate (next_envelope ct) = EC_Ok" and "StrongUInt_next (ct_request_sequence ct) = Some (ct_request_sequence ct + 1)"
proof -
  have "ct_request_sequence ct < ct_request_sequence ct + 1"
    using less_succ assms by (simp add: client_ready_def)
  then have "ct_request_sequence ct + 1 \<noteq> 0"
    by auto
  then show "RequestEnvelope_validate (next_envelope ct) = EC_Ok"
    using assms by (simp add: RequestEnvelope_validate_def next_envelope_def client_ready_def valid_id_def)
  show "StrongUInt_next (ct_request_sequence ct) = Some (ct_request_sequence ct + 1)"
    using assms by (simp add: StrongUInt_next_def checked_succ client_ready_def)
qed

lemma call_sends:
  assumes "client_ready ct" and "is_request t" and "request_fits ct ses body"
  shows "Client_call t body EC_Ok inbound ct =
    (let bytes = wire_frame t (encode_body encode_RequestEnvelope (next_envelope ct) @ body);
         ct' = ct\<lparr>ct_request_sequence := ct_request_sequence ct + 1\<rparr>
     in case read_frame_from (ct_reader ct) inbound of
          (None, reader) \<Rightarrow> (None, [bytes], ct'\<lparr>ct_reader := reader\<rparr>)
        | (Some (Inl e), reader) \<Rightarrow> (Some (Inl e), [bytes], ct'\<lparr>ct_reader := reader\<rparr>)
        | (Some (Inr reply), reader) \<Rightarrow>
           (Some (call_reply t (next_envelope ct) ct' reply), [bytes], ct'\<lparr>ct_reader := reader\<rparr>))"
proof -
  have doc: "32 + length body \<le> kMaxDocumentBytes"
    using assms(3) by (simp add: request_fits_def)
  have "encode_frame (Some t) (bw_data (request_writer (next_envelope ct) body)) 0 (cl_max_frame_payload (ct_config ct)) =
      Inr (wire_frame t (encode_body encode_RequestEnvelope (next_envelope ct) @ body))"
    using request_bytes [OF doc] assms(3) by (simp add: encode_frame_iff request_fits_def)
  then show ?thesis
    using assms(1,2) request_bytes(1) [OF doc, of "next_envelope ct"]
    unfolding Client_call_def next_valid(2) [OF assms(1)] option.case Let_def next_envelope_def [symmetric]
    by (simp add: client_ready_def)
qed

lemma request_has_acknowledgement: "is_request t \<Longrightarrow> \<exists>ack. acknowledgement_for t = Some ack"
  by (cases t) (simp_all add: is_request_def acknowledgement_for_def)

definition answer :: "status \<Rightarrow> u8 list \<Rightarrow> ResponseEnvelope \<Rightarrow> ResponseEnvelope" where
  "answer e detail response = (if e = EC_Ok then response else response\<lparr>rs_code := e, rs_detail := detail\<rparr>)"

definition fresh_response :: "Client \<Rightarrow> ResponseEnvelope" where
  "fresh_response ct = new_response\<lparr>rs_session := ct_session ct, rs_sequence := ct_request_sequence ct + 1\<rparr>"

context session_handler
begin

lemma answer_shape:
  assumes "hd_on_request h session envelope t body (fresh_response ct) c = ((r, response), c')"
  shows "rs_session (answer e detail response) = ct_session ct" "rs_sequence (answer e detail response) = ct_request_sequence ct + 1"
    "rs_code (answer e detail response) = e" "length (rs_detail (answer e detail response)) \<le> length detail"
  using stamps [OF assms] by (auto simp: answer_def fresh_response_def new_response_def)

lemma server_answers:
  assumes client: "client_ready ct" and ses: "session_ready cfg ses ct" and t: "is_request t" "t \<noteq> MT_Hello"
    and fits: "request_fits ct ses body" "reply_fits cfg ct (si_detail env) rbody"
    and handled: "hd_on_request h (ct_session ct) (next_envelope ct) t body (fresh_response ct)
      (hd_count h record_frame_received c) = ((Done (e, rbody), response), c')"
    and env: "\<not> si_stopping env" "si_written env"
    and chunks: "carries chunks (wire_frame t (encode_body encode_RequestEnvelope (next_envelope ct) @ body))"
      "list_all2 feeds envs chunks"
    and ack: "acknowledgement_for t = Some ack"
  shows "rd_sent (run_session h cfg (envs @ [env]) ses c) =
      [wire_frame ack (encode_body encode_ResponseEnvelope (answer e (si_detail env) response) @ rbody)] \<and>
    rd_handler (run_session h cfg (envs @ [env]) ses c) = hd_count h record_frame_sent c'"
proof -
  define payload where "payload = encode_body encode_RequestEnvelope (next_envelope ct) @ body"
  have doc: "32 + length body \<le> kMaxDocumentBytes"
    using fits(1) by (simp add: request_fits_def)
  have "length payload = 32 + length body"
    using request_bytes(2,3) [OF doc, of "next_envelope ct"] by (simp add: payload_def)
  then obtain reader where run: "run_session h cfg (envs @ [env]) ses c =
      frame_round h cfg env (plain_frame t payload) (ses\<lparr>ss_reader := reader\<rparr>) c"
    using server_reads [of envs chunks ses t payload env h cfg c] chunks ses fits(1) env(1)
    by (auto simp: carries_def session_ready_def idle_reader_def request_fits_def payload_def)
  obtain r where r: "decode_RequestEnvelope (new_reader payload kMaxBlobBytes) = (Inr (next_envelope ct), r)"
    "drop (br_position r) payload = body"
    using request_read [OF next_valid(1) [OF client], of body] by (auto simp: payload_def)
  have seq: "ct_request_sequence ct < ct_request_sequence ct + 1"
    using less_succ client by (simp add: client_ready_def)
  define reply where "reply = answer e (si_detail env) response"
  have detail: "length (rs_detail reply) \<le> kMaxDetailBytes"
    "38 + length (rs_detail reply) + length rbody \<le> unat (sv_max_frame_payload cfg)"
    "38 + length (rs_detail reply) + length rbody \<le> kMaxDocumentBytes"
    using answer_shape(4) [OF handled, of e "si_detail env"] fits(2) by (simp_all add: reply_def reply_fits_def)
  have frame: "encode_frame (Some ack) (bw_data (response_writer reply rbody)) 0 (sv_max_frame_payload cfg) =
      Inr (wire_frame ack (encode_body encode_ResponseEnvelope reply @ rbody))"
    using response_bytes(2,3) [OF detail(1,3)] detail(2) by (simp add: encode_frame_iff)
  have fresh: "new_response\<lparr>rs_session := ss_id ses, rs_sequence := rq_sequence (next_envelope ct)\<rparr> = fresh_response ct"
    using ses by (simp add: fresh_response_def next_envelope_def session_ready_def)
  have round: "request_round h cfg env t payload (ses\<lparr>ss_reader := reader\<rparr>) (hd_count h record_frame_received c) =
      send_response h cfg env (Some ack) reply rbody (if t = MT_Goodbye then Break else Continue)
        (ses\<lparr>ss_reader := reader, ss_requests := Suc (ss_requests ses), ss_last_sequence := ct_request_sequence ct + 1\<rparr>) c'"
    using ses seq handled r(2) fresh ack
    unfolding request_round_def r(1)
    by (auto simp: Let_def session_ready_def next_envelope_def reply_def answer_def)
  show ?thesis
    using t(2) ses round env(2) frame response_bytes(1) [OF detail(1,3)]
    unfolding run reply_def [symmetric]
    by (simp add: frame_round_def plain_frame_def Let_def session_ready_def send_response_def)
qed

lemma client_accepts:
  assumes client: "client_ready ct" and t: "is_request t" and fits: "request_fits ct ses body" "reply_fits cfg ct detail rbody"
    and handled: "hd_on_request h (ct_session ct) (next_envelope ct) t body (fresh_response ct) c = ((Done (e, rbody), response), c')"
    and chunks: "carries chunks (wire_frame ack (encode_body encode_ResponseEnvelope (answer e detail response) @ rbody))"
    and ack: "acknowledgement_for t = Some ack"
  shows "fst (Client_call t body EC_Ok (map Inr chunks) ct) = Some (if e = EC_Ok then Inr rbody else Inl e)"
proof -
  define reply where "reply = answer e detail response"
  have detail: "length (rs_detail reply) \<le> kMaxDetailBytes"
    "38 + length (rs_detail reply) + length rbody \<le> unat (fd_max_payload (ct_reader ct))"
    "38 + length (rs_detail reply) + length rbody \<le> kMaxDocumentBytes"
    using answer_shape(4) [OF handled, of e detail] fits(2) by (simp_all add: reply_def reply_fits_def)
  define payload where "payload = encode_body encode_ResponseEnvelope reply @ rbody"
  have "length payload \<le> unat (fd_max_payload (ct_reader ct))"
    using response_bytes(2,3) [OF detail(1,3)] detail(2) by (simp add: payload_def)
  then obtain reader where read: "read_frame_from (ct_reader ct) (map Inr chunks) =
      (Some (Inr (plain_frame ack payload)), reader)"
    using client_reads [of "ct_reader ct" chunks ack payload] chunks client
    by (auto simp: carries_def client_ready_def idle_reader_def payload_def reply_def)
  obtain r where r: "decode_ResponseEnvelope (new_reader payload kMaxBlobBytes) = (Inr reply, r)"
    "fst (ByteReader_raw (ByteReader_remaining r) r) = rbody"
    using response_read [OF detail(1), of rbody] by (auto simp: payload_def)
  have "call_reply t (next_envelope ct) (ct\<lparr>ct_request_sequence := n\<rparr>) (plain_frame ack payload) =
      (if e = EC_Ok then Inr rbody else Inl e)" for n
    using r ack answer_shape(1-3) [OF handled, of e detail]
    by (simp add: call_reply_def plain_frame_def next_envelope_def reply_def)
  then show ?thesis
    unfolding call_sends [OF client t fits(1)] Let_def read by simp
qed

end

interpretation served: session_handler coordinator_handler
  by unfold_locales (auto simp: coordinator_handler_def stamp_response_def split: prod.splits if_splits)

definition reply_body :: "u8 list result \<Rightarrow> u8 list" where
  "reply_body r = (case r of Inl _ \<Rightarrow> [] | Inr body \<Rightarrow> body)"

text \<open>
  C2. A remote call is exact. Take a client and a server session bound to each other after the handshake, and a request
  and a reply that fit the frame bounds. The client sends one frame; whatever the pieces in which it arrives, the server
  answers with one frame and leaves the coordinator as the request handler left it (up to the frame counters); and
  whatever the pieces in which the answer arrives, the client returns exactly what the coordinator's handler returned,
  its body or its error code.
\<close>

theorem remote_call_is_exact:
  assumes "client_ready ct" and "session_ready cfg ses ct" and "is_request t" and "t \<noteq> MT_Hello"
    and "on_request (ct_session ct) (next_envelope ct) t body (count_event record_frame_received c) = (Done r, c')"
    and "r \<noteq> Inl EC_Ok" and "request_fits ct ses body" and "reply_fits cfg ct detail (reply_body r)"
  shows "\<exists>f g. (\<forall>inbound. fst (snd (Client_call t body EC_Ok inbound ct)) = [f]) \<and>
    (\<forall>chunks envs env. carries chunks f \<and> list_all2 feeds envs chunks \<and> \<not> si_stopping env \<and> si_written env \<and>
       si_detail env = detail \<longrightarrow>
         rd_sent (run_session coordinator_handler cfg (envs @ [env]) ses c) = [g] \<and>
         rd_handler (run_session coordinator_handler cfg (envs @ [env]) ses c) = count_event record_frame_sent c') \<and>
    (\<forall>chunks. carries chunks g \<longrightarrow> fst (Client_call t body EC_Ok (map Inr chunks) ct) = Some r)"
proof -
  define e where "e = (case r of Inl e \<Rightarrow> e | Inr _ \<Rightarrow> EC_Ok)"
  define response where "response = stamp_response (count_event record_frame_received c) (fresh_response ct)"
  obtain ack where ack: "acknowledgement_for t = Some ack"
    using request_has_acknowledgement [OF assms(3)] by blast
  have handled: "hd_on_request coordinator_handler (ct_session ct) (next_envelope ct) t body (fresh_response ct)
      (hd_count coordinator_handler record_frame_received c) = ((Done (e, reply_body r), response), c')"
    using assms(5) by (cases r) (simp_all add: coordinator_handler_def e_def reply_body_def response_def)
  have r: "r = (if e = EC_Ok then Inr (reply_body r) else Inl e)"
    using assms(6) by (cases r) (simp_all add: e_def reply_body_def)
  show ?thesis
  proof (intro exI conjI allI impI)
    show "fst (snd (Client_call t body EC_Ok inbound ct)) = [wire_frame t (encode_body encode_RequestEnvelope (next_envelope ct) @ body)]" for inbound
      unfolding call_sends [OF assms(1,3,7)] by (auto simp: Let_def split: option.split sum.split prod.split)
    fix chunks envs and env :: SessionInput
    assume "carries chunks (wire_frame t (encode_body encode_RequestEnvelope (next_envelope ct) @ body)) \<and>
      list_all2 feeds envs chunks \<and> \<not> si_stopping env \<and> si_written env \<and> si_detail env = detail"
    then show "rd_sent (run_session coordinator_handler cfg (envs @ [env]) ses c) =
        [wire_frame ack (encode_body encode_ResponseEnvelope (answer e detail response) @ reply_body r)]"
      "rd_handler (run_session coordinator_handler cfg (envs @ [env]) ses c) = count_event record_frame_sent c'"
      using served.server_answers [OF assms(1-4,7) _ handled _ _ _ _ ack] assms(8)
      by (auto simp: coordinator_handler_def)
  next
    fix chunks
    assume "carries chunks (wire_frame ack (encode_body encode_ResponseEnvelope (answer e detail response) @ reply_body r))"
    then show "fst (Client_call t body EC_Ok (map Inr chunks) ct) = Some r"
      using served.client_accepts [OF assms(1,3,7,8) handled _ ack] r by simp
  qed
qed

definition sample_server :: ServerConfig where
  "sample_server = \<lparr>sv_port = 0, sv_max_sessions = 4, sv_max_frame_payload = 1024, sv_max_requests_per_session = 8, sv_backlog = 4\<rparr>"

definition sample_client :: Client where
  "sample_client = \<lparr>ct_connected = True, ct_reader = new_frame_reader 1024,
     ct_config = \<lparr>cl_host = [], cl_port = 0, cl_process = 7, cl_boot = 1, cl_principal = 3, cl_token = [65], cl_role = [],
       cl_max_frame_payload = 1024\<rparr>,
     ct_session = 1, ct_term = 1, ct_boot = 1, ct_request_sequence = 0\<rparr>"

definition watched_coordinator :: Coordinator where
  "watched_coordinator =
     (initial_coordinator sample_config
        ((new_impl small_store)\<lparr>im_state := new_state\<lparr>ds_boot := 1, ds_term := 1\<rparr>\<rparr>, empty_root))
      \<lparr>co_session_roles := [1 \<mapsto> PR_Observer]\<rparr>"

theorem remote_call_is_exact_witness:
  "\<exists>f g. fst (snd (Client_call MT_Goodbye [] EC_Ok [] sample_client)) = [f] \<and>
    (\<forall>chunks. carries chunks g \<longrightarrow> fst (Client_call MT_Goodbye [] EC_Ok (map Inr chunks) sample_client) = Some (Inr []))"
proof -
  define ses where "ses = (new_session sample_server 1)\<lparr>ss_handshaken := True\<rparr>"
  define c where "c = count_event record_frame_received watched_coordinator"
  have idle: "idle_reader (new_frame_reader 1024)" "fd_max_payload (new_frame_reader 1024) = 1024"
    by (simp_all add: idle_reader_def sound_reader_def unread_def new_frame_reader_def kMaxFramePayload_def)
  have ready: "client_ready sample_client" "session_ready sample_server ses sample_client"
    using idle by (simp_all add: client_ready_def session_ready_def sample_client_def ses_def sample_server_def new_session_def valid_id_def)
  have gate: "request_gate 1 (next_envelope sample_client) MT_Goodbye c = EC_Ok"
    by (simp add: gate_open c_def count_event_def co_state_update_def acct_def watched_coordinator_def initial_coordinator_def
        Let_def next_envelope_def sample_client_def required_role_def new_impl_def new_state_def split: prod.split)
  have "on_request 1 (next_envelope sample_client) MT_Goodbye [] c = (Done (Inr []), c)"
    using on_request_served [OF gate, of "[]"] by (simp add: dispatch_def co_read_def co_return_def)
  moreover have "request_fits sample_client ses []" "reply_fits sample_server sample_client [] (reply_body (Inr []))"
    using idle by (simp_all add: request_fits_def reply_fits_def reply_body_def sample_client_def sample_server_def ses_def new_session_def
        kMaxDocumentBytes_def kMaxDetailBytes_def)
  ultimately show ?thesis
    using remote_call_is_exact [OF ready, of MT_Goodbye "[]" watched_coordinator "Inr []" c "[]"]
    by (auto simp: is_request_def sample_client_def c_def)
qed

end
