(* ===== verification/Spec2Isabelle.thy ===== *)
theory Spec2Isabelle
  imports Allocator_Optimal Evaluator Reference_Solver Validator Restoration Codec_Laws
    Store_Repair Acquire_Run Restart Session_Laws Remote_Call Server_Laws
begin

text \<open>
  Verification library of Degraded Mode Fabric (DMF), a runtime that grants services a weaker but explicit level of
  service when the fabric they run on is degraded. Paths are relative to \<open>src/\<close>, the root of the repository.

  The program. Services register contracts (required guarantees and an envelope of permitted concessions). Publishers
  send evidence about the capacity of a scope. The engine compares the two under a policy and produces an allocation
  plan for the scope and a decision for one contract. On an authorising decision the coordinator issues a grant, which
  is bound to the generations it was decided under, and fences it when one of them moves. Every change goes through a
  durable store (a journal of records with snapshots), from which a restarted coordinator recovers, ending the
  authority of its predecessor. Clients reach the coordinator over a framed protocol through sessions whose role
  follows from a bearer token.

  Foundations.
  \<^item> \<open>Prelude\<close>: machine integers, \<open>std::sort\<close> over a strict weak order, and containers keyed by a field, with the
    interfaces \<open>strict_weak_order\<close>, \<open>keyed_container\<close> and \<open>keyed_insert\<close> that the components interpret.
  \<^item> \<open>Core\<close> and \<open>Reason\<close> (\<open>include/dmf/core.hpp\<close>, \<open>ids.hpp\<close>, \<open>reason.hpp\<close>, \<open>src/core\<close>): checked arithmetic, identities,
    error codes and the reason vocabulary, with the interface \<open>wire_enum\<close> of the enumerations that travel as numbers.
  \<^item> \<open>Bytes\<close> (\<open>src/core/core.cpp\<close>): CRC-32C, FNV-1a, the byte writer and reader, and the interface \<open>field_codec\<close>.

  Domain (\<open>include/dmf\<close>, \<open>src/domain\<close>).
  \<^item> \<open>Guarantee\<close>: guarantee sets, deltas and envelopes. The weakening test is entailment of the promised bounds; it lets a
    hard guarantee become soft.
  \<^item> \<open>Contract\<close>, \<open>Evidence\<close>, \<open>Policy\<close>, \<open>Authority\<close>, \<open>Decision\<close>, \<open>Grant\<close>: one theory for each header and source of
    that name. A known capability is backed by fresh and agreeing evidence for every field, and an effective envelope
    permits only the original guarantees where the contract or its class is protected.

  Engine (\<open>src/engine\<close>).
  \<^item> \<open>Rigid_Search\<close>: the branch and bound over the contracts that take all or nothing, with its optimality against all
    subsets and the node budget that makes it finish.
  \<^item> \<open>Allocator\<close>, \<open>Allocator_Rigid\<close>, \<open>Allocator_Plan\<close>, \<open>Allocator_Optimal\<close> (\<open>allocator.cpp\<close>): the whole of
    \<open>allocate_scope\<close>. A plan keeps every contract inside its obligations, never promises more than the capacity, does
    not depend on the order of the request, and its status and certificate mean what they say.
  \<^item> \<open>Evaluator\<close>, \<open>Reference_Solver\<close>, \<open>Validator\<close>, \<open>Restoration\<close>: the sources of those names. The exhaustive solver
    agrees with the search, the independent validator accepts the allocator's plans and rejects unsound ones, and a
    restoration is proven exactly when every precondition is.

  Serialisation (\<open>src/codec/codec.cpp\<close>).
  \<^item> \<open>Codec_Base\<close>, \<open>Codec\<close>, \<open>Codec_Laws\<close>: every encoder and decoder, each an instance of the interface \<open>record_codec\<close>
    on its exact domain. \<open>Decoder_Errors\<close> and \<open>Encoder_Bounds\<close>: a refusing decoder reports an error, and a writer
    never exceeds its bound.

  Durable store (\<open>src/store\<close>, \<open>include/dmf/store.hpp\<close>).
  \<^item> \<open>Durable_State\<close>, \<open>Store_Records\<close>: the state, the records, \<open>apply_record\<close> and \<open>prune\<close>. \<open>Store_Lifecycle\<close>: no record
    revives, rewrites or duplicates a grant, and retention keeps what is live and drops the oldest of the rest.
    \<open>Store_Ledger\<close>: the accounting closes, but for the grants that were reported applied without an acknowledgement.
  \<^item> \<open>Journal\<close>, \<open>Snapshot\<close>, \<open>File_Io\<close>: the two file formats, the file names and the files of the store root.
  \<^item> \<open>State_Store\<close>: \<open>open\<close>, \<open>append\<close>, \<open>append_batched\<close>, \<open>take_snapshot\<close> and \<open>close\<close> over the root.
    \<open>Store_Recovery\<close>, \<open>Store_View\<close> and \<open>Store_Life\<close>: replay is the application of the records in order, and a kill
    between two operations loses no committed record in a history of appends, snapshots and restarts. \<open>Store_Torn\<close>: a
    write cut off at any byte. \<open>Store_Faults\<close> and \<open>Store_Repair\<close>: the three situations in which the store loses or
    blocks committed state (a record refused after it was written, a clean close without a snapshot, a repaired tail).

  Runtime (\<open>src/runtime\<close>, \<open>include/dmf/runtime.hpp\<close>).
  \<^item> \<open>Accounting\<close>, \<open>Evidence_Store\<close>, \<open>Grant_Table\<close>: the counters, the live evidence frontier and the grant index.
  \<^item> \<open>Coordinator\<close>, \<open>Coordinator_Ops\<close>: the members of \<open>Coordinator::Impl\<close> and each handler that runs under its lock, as
    an action on that state which ends in a result or in a simulated crash of the store. \<open>Coordinator_Laws\<close>: authority
    is issued only on an authorising decision, and an attempt is spent when used. \<open>Store_Room\<close>: when an append succeeds.
    \<open>Acquire_Run\<close>: a run of \<open>acquire\<close> that ends with a grant, which is then acknowledged once. \<open>Restart\<close>: the boot sequence gets through and fences the
    previous incarnation.
  \<^item> \<open>Sessions\<close>: authentication, the gate of a request, the dispatch of every message type and the status report.
    \<open>Session_Laws\<close>: through the interfaces \<open>coordinator_frame\<close>, \<open>observer_frame\<close>, \<open>operator_frame\<close>, \<open>state_frame\<close> and
    \<open>ranked_sessions\<close>, that no sequence of requests changes more than the role of the token allows.

  Network (\<open>src/net\<close>, \<open>include/dmf/net.hpp\<close>).
  \<^item> \<open>Frame\<close>: the message types, the frame encoder and the incremental reader, which delivers the frames whatever the
    pieces they arrive in and delivers nothing after a damaged one. \<open>Messages\<close>: the bodies and envelopes, instances of
    the interface \<open>message_codec\<close>.
  \<^item> \<open>Server\<close>, \<open>Server_Laws\<close>: the rounds of a session thread and of the accept loop, for any handler, what reaches the
    handler, and how many sessions are open. \<open>Client\<close>: connecting, the handshake, a call and the closing. \<open>Remote_Call\<close>: both ends together, through
    the interface \<open>session_handler\<close>, interpreted on the coordinator.

  Conventions. A C++ integer is a word of its width and wraps as the source does; a \<open>std::size_t\<close> that counts elements
  in memory is a natural number, the counter of active sessions, which is decremented, a 64-bit word. \<open>std::sort\<close> is a
  stable sort, where the standard leaves the order of equal keys open; in well-formed data the keys are unique, restorations of one
  grant at one tick excepted. A \<open>Status\<close> is an error code, a \<open>Result\<close> a sum type; the wording of a detail is kept
  where it is encoded or compared, and is an input where it only travels. \<open>std::vector\<close> is a list, \<open>std::map\<close> a map, a
  null pointer \<open>None\<close>. A public method of the coordinator takes one mutex and is one step.

  Bounds and fuel. All loops of the program over data are total functions. The recursion of the rigid search is
  structural in the items, and its budget is the one the code has: a budget of \<open>2 ^ (n + 1) - 1\<close> nodes is enough for
  \<open>n\<close> items. The replay of a segment is bounded by the bytes that remain. The session loop, the accept loop and the
  client's read loop wait for the outside and are functions of the list of what they receive; the client returns
  \<open>None\<close> when that list ends first.

  Not modelled. \<open>src/net/socket.cpp\<close>: operating-system calls; what a read returns and whether a write succeeds are
  inputs. Threads: \<open>start\<close>, \<open>stop\<close> and joining in \<open>server.cpp\<close>; handlers are atomic, as under the mutex, so the
  unguarded updates of the counters by session threads are not interleaved. \<open>file_io.cpp\<close>: failures of single system
  calls, descriptors and fsync; a crash falls between two operations of the store, at one of the boundaries its
  configuration can simulate, or in the middle of an append. Rendering to text, except what a reply carries. The tools,
  the examples, the tests and the benchmarks.
\<close>

end
